(* ===== verification/Prelude.thy ===== *)
theory Prelude
  imports
    Main
    "HOL-Library.Word"
    "HOL-Library.Char_ord"
    "HOL-Library.List_Lexorder"
begin

text \<open>
  What every component of the library shares: the C++ standard-library pieces the sources
  use (character classes, \<^verbatim>\<open>std::string::find\<close> and \<^verbatim>\<open>substr\<close>, splitting loops,
  \<^verbatim>\<open>std::to_string\<close>, decimal accumulation), the error convention of the
  code base (\<^verbatim>\<open>std::string f(...)\<close> returns the empty string on success and a reason
  otherwise), and the generic lemmas about them.
  A \<^verbatim>\<open>char\<close> is a byte; the code compares it only against ASCII bounds on both sides, where
  the signedness of \<^verbatim>\<open>char\<close> does not matter, so the library's unsigned order is used.
\<close>

type_synonym u32 = "32 word"
type_synonym err = string

named_theorems err_simps \<open>when a chain of checks reports no error\<close>
named_theorems cut_simps \<open>splitting a string at its first separator\<close>
named_theorems dec_simps \<open>decimal printing and reading\<close>

section \<open>The error convention\<close>

text \<open>\<^verbatim>\<open>if (auto e = check; !e.empty()) return e;\<close> followed by the rest of the function.\<close>

definition check_err :: "err \<Rightarrow> err \<Rightarrow> err" where
  "check_err e rest = (if e \<noteq> [] then e else rest)"

text \<open>\<^verbatim>\<open>if (auto e = check; !e.empty()) return prefix + e;\<close>\<close>

definition check_pfx :: "string \<Rightarrow> err \<Rightarrow> err \<Rightarrow> err" where
  "check_pfx p e rest = (if e \<noteq> [] then p @ e else rest)"

text \<open>\<^verbatim>\<open>if (cond) return msg;\<close>\<close>

definition fail_if :: "bool \<Rightarrow> err \<Rightarrow> err \<Rightarrow> err" where
  "fail_if b msg rest = (if b then msg else rest)"

lemma check_err_ok [simp, err_simps]: "check_err e rest = [] \<longleftrightarrow> e = [] \<and> rest = []"
  by (auto simp: check_err_def)

lemma check_pfx_ok [simp, err_simps]: "check_pfx p e rest = [] \<longleftrightarrow> e = [] \<and> rest = []"
  by (auto simp: check_pfx_def)

lemma fail_if_ok [simp, err_simps]:
  "msg \<noteq> [] \<Longrightarrow> fail_if b msg rest = [] \<longleftrightarrow> \<not> b \<and> rest = []"
  by (auto simp: fail_if_def)

lemma check_err_Nil [simp]: "check_err [] rest = rest" "check_pfx p [] rest = rest"
  by (simp_all add: check_err_def check_pfx_def)

lemma fail_if_bool [simp]: "fail_if True msg rest = msg" "fail_if False msg rest = rest"
  by (simp_all add: fail_if_def)

text \<open>A parser fills an out-parameter and returns an error string; the model returns the sum.\<close>

type_synonym 'a res = "err + 'a"

definition bind_res :: "'a res \<Rightarrow> ('a \<Rightarrow> 'b res) \<Rightarrow> 'b res" where
  "bind_res r f = (case r of Inl e \<Rightarrow> Inl e | Inr a \<Rightarrow> f a)"

lemma bind_res_simps [simp]: "bind_res (Inl e) f = Inl e" "bind_res (Inr a) f = f a"
  by (simp_all add: bind_res_def)

lemma bind_res_Inr_iff [simp]: "bind_res r f = Inr b \<longleftrightarrow> (\<exists>a. r = Inr a \<and> f a = Inr b)"
  by (cases r) auto

section \<open>Characters\<close>

definition is_digit :: "char \<Rightarrow> bool" where
  "is_digit c \<longleftrightarrow> CHR ''0'' \<le> c \<and> c \<le> CHR ''9''"

definition is_alnum :: "char \<Rightarrow> bool" where
  "is_alnum c \<longleftrightarrow> (CHR ''a'' \<le> c \<and> c \<le> CHR ''z'') \<or> (CHR ''A'' \<le> c \<and> c \<le> CHR ''Z'')
     \<or> (CHR ''0'' \<le> c \<and> c \<le> CHR ''9'')"

definition is_hex :: "char \<Rightarrow> bool" where
  "is_hex c \<longleftrightarrow> (CHR ''0'' \<le> c \<and> c \<le> CHR ''9'') \<or> (CHR ''a'' \<le> c \<and> c \<le> CHR ''f'')
     \<or> (CHR ''A'' \<le> c \<and> c \<le> CHR ''F'')"

text \<open>\<^verbatim>\<open>c - '0'\<close> for a digit, and \<^verbatim>\<open>'0' + d\<close>.\<close>

definition digit_val :: "char \<Rightarrow> nat" where
  "digit_val c = of_char c - 48"

definition digit_char :: "nat \<Rightarrow> char" where
  "digit_char d = char_of (48 + d)"

lemma digit_char_numeral [simp, dec_simps]:
  "digit_char 0 = CHR ''0''" "digit_char 1 = CHR ''1''" "digit_char (Suc 0) = CHR ''1''"
  "digit_char 2 = CHR ''2''" "digit_char 3 = CHR ''3''" "digit_char 4 = CHR ''4''"
  "digit_char 5 = CHR ''5''" "digit_char 6 = CHR ''6''" "digit_char 7 = CHR ''7''"
  "digit_char 8 = CHR ''8''" "digit_char 9 = CHR ''9''"
  by code_simp+

lemma is_digit_code: "is_digit c \<longleftrightarrow> 48 \<le> (of_char c :: nat) \<and> (of_char c :: nat) \<le> 57"
  by (simp add: is_digit_def less_eq_char_def)

lemma digit_val_less [simp]: "is_digit c \<Longrightarrow> digit_val c < 10"
  unfolding is_digit_code digit_val_def by linarith

lemma of_char_digit_char [simp]: "d < 10 \<Longrightarrow> (of_char (digit_char d) :: nat) = 48 + d"
  by (simp add: digit_char_def)

lemma is_digit_digit_char [simp]: "d < 10 \<Longrightarrow> is_digit (digit_char d)"
  by (simp add: is_digit_code)

lemma digit_val_digit_char [simp]: "d < 10 \<Longrightarrow> digit_val (digit_char d) = d"
  by (simp add: digit_val_def)

lemma digit_char_digit_val [simp]: "is_digit c \<Longrightarrow> digit_char (digit_val c) = c"
  by (simp add: is_digit_code digit_val_def digit_char_def)

lemma digit_char_inj: "d < 10 \<Longrightarrow> e < 10 \<Longrightarrow> digit_char d = digit_char e \<longleftrightarrow> d = e"
  by (metis digit_val_digit_char)

lemma is_digit_alnum: "is_digit c \<Longrightarrow> is_alnum c"
  by (simp add: is_digit_def is_alnum_def)

lemma is_digit_hex: "is_digit c \<Longrightarrow> is_hex c"
  by (simp add: is_digit_def is_hex_def)

section \<open>Decimal numbers\<close>

text \<open>\<^verbatim>\<open>std::to_string\<close>, \<^verbatim>\<open>operator<<\<close> and \<^verbatim>\<open>"%u"\<close> on an unsigned value.\<close>

fun dec :: "nat \<Rightarrow> string" where
  "dec n = (if n < 10 then [digit_char n] else dec (n div 10) @ [digit_char (n mod 10)])"

declare dec.simps [simp del]

text \<open>The same on a signed value.\<close>

definition dec_int :: "int \<Rightarrow> string" where
  "dec_int i = (if i < 0 then CHR ''-'' # dec (nat (- i)) else dec (nat i))"

text \<open>The accumulation loop \<^verbatim>\<open>n = n * 10 + (c - '0')\<close> without overflow.\<close>

definition dec_val :: "string \<Rightarrow> nat" where
  "dec_val s = foldl (\<lambda>a c. a * 10 + digit_val c) 0 s"

definition all_digits :: "string \<Rightarrow> bool" where
  "all_digits s \<longleftrightarrow> s \<noteq> [] \<and> list_all is_digit s"

lemma dec_val_Nil [simp]: "dec_val [] = 0"
  by (simp add: dec_val_def)

lemma dec_val_snoc [simp]: "dec_val (s @ [c]) = dec_val s * 10 + digit_val c"
  by (simp add: dec_val_def)

lemma foldl_dec: "foldl (\<lambda>a c. a * 10 + digit_val c) k s = k * 10 ^ length s + dec_val s"
proof (induction s rule: rev_induct)
  case Nil
  then show ?case by simp
next
  case (snoc c s)
  then show ?case by (simp add: algebra_simps)
qed

lemma dec_val_Cons: "dec_val (c # s) = digit_val c * 10 ^ length s + dec_val s"
  using foldl_dec [of "digit_val c" s] by (simp add: dec_val_def)

lemma dec_val_append: "dec_val (s @ t) = dec_val s * 10 ^ length t + dec_val t"
  using foldl_dec [of "dec_val s" t] by (simp add: dec_val_def)

lemma dec_digits [simp, dec_simps]: "list_all is_digit (dec n)"
proof (induction n rule: dec.induct)
  case (1 n)
  then show ?case by (subst dec.simps) auto
qed

lemma dec_nonempty [simp, dec_simps]: "dec n \<noteq> []"
  by (subst dec.simps) simp

lemma dec_val_dec [simp, dec_simps]: "dec_val (dec n) = n"
proof (induction n rule: dec.induct)
  case (1 n)
  show ?case
  proof (cases "n < 10")
    case True
    then show ?thesis by (simp add: dec.simps dec_val_Cons)
  next
    case False
    with "1.IH" have "dec_val (dec (n div 10)) = n div 10" by simp
    with False show ?thesis by (simp add: dec.simps [of n])
  qed
qed

lemma all_digits_dec [simp, dec_simps]: "all_digits (dec n)"
  by (simp add: all_digits_def)

lemma dec_inj [simp, dec_simps]: "dec m = dec n \<longleftrightarrow> m = n"
  by (metis dec_val_dec)

lemma dec_char_digit: "c \<in> set (dec n) \<Longrightarrow> is_digit c"
  using dec_digits [of n] by (simp add: list_all_iff)

lemma dec_not_in: "\<not> is_digit c \<Longrightarrow> c \<notin> set (dec n)"
  using dec_char_digit by blast

lemma dec_val_bound: "list_all is_digit s \<Longrightarrow> dec_val s < 10 ^ length s"
proof (induction s rule: rev_induct)
  case Nil
  then show ?case by simp
next
  case (snoc c s)
  then have "dec_val s < 10 ^ length s" and "digit_val c < 10" by simp_all
  then show ?case by simp
qed

lemma dec_hd_zero: "hd (dec n) = CHR ''0'' \<longleftrightarrow> n = 0"
proof (induction n rule: dec.induct)
  case (1 n)
  show ?case
  proof (cases "n < 10")
    case True
    then have "digit_char n = CHR ''0'' \<longleftrightarrow> n = 0"
      using digit_char_inj [of n 0] by simp
    with True show ?thesis by (simp add: dec.simps [of n])
  next
    case False
    with "1.IH" have "hd (dec (n div 10)) = CHR ''0'' \<longleftrightarrow> n div 10 = 0" by simp
    with False show ?thesis by (simp add: dec.simps [of n])
  qed
qed

lemma dec_length_le: "n < 10 ^ k \<Longrightarrow> 0 < k \<Longrightarrow> length (dec n) \<le> k"
proof (induction k arbitrary: n)
  case 0
  then show ?case by simp
next
  case (Suc k)
  show ?case
  proof (cases "n < 10")
    case True
    then show ?thesis by (simp add: dec.simps)
  next
    case False
    with Suc.prems have k: "0 < k" and "n div 10 < 10 ^ k" by (cases k; simp)+
    with Suc.IH have "length (dec (n div 10)) \<le> k" by blast
    with False show ?thesis by (simp add: dec.simps [of n])
  qed
qed

text \<open>Reading back a canonical numeral prints the same text.\<close>

lemma dec_dec_val:
  "list_all is_digit s \<Longrightarrow> s \<noteq> [] \<Longrightarrow> (hd s \<noteq> CHR ''0'' \<or> length s = 1) \<Longrightarrow> dec (dec_val s) = s"
proof (induction s rule: rev_induct)
  case Nil
  then show ?case by simp
next
  case (snoc c s)
  have c: "is_digit c" and ds: "list_all is_digit s" using snoc.prems by simp_all
  show ?case
  proof (cases "s = []")
    case True
    with c show ?thesis by (simp add: dec.simps dec_val_Cons)
  next
    case False
    with snoc.prems have hd: "hd s \<noteq> CHR ''0''" by (auto simp: hd_append)
    with snoc.IH ds False have IH: "dec (dec_val s) = s" by blast
    with hd False have "dec_val s \<noteq> 0" by (metis dec_hd_zero)
    then have "\<not> dec_val s * 10 + digit_val c < 10" by linarith
    with c show ?thesis
      by (simp add: dec.simps [of "dec_val s * 10 + digit_val c"] IH)
  qed
qed

text \<open>A value in single quotes, as the messages print it.\<close>

definition quoted :: "string \<Rightarrow> string" where
  "quoted s = CHR 0x27 # s @ [CHR 0x27]"

lemma quoted_nonempty [simp]: "quoted s \<noteq> []"
  by (simp add: quoted_def)

section \<open>Searching and splitting\<close>

text \<open>
  \<^verbatim>\<open>auto p = s.find(c); if (p == npos) ...; s.substr(0, p) ... s.substr(p + 1)\<close>: the
  text before and after the first \<^term>\<open>c\<close>.
\<close>

fun cut_at :: "char \<Rightarrow> string \<Rightarrow> (string \<times> string) option" where
  "cut_at c [] = None"
| "cut_at c (x # xs) = (if x = c then Some ([], xs) else map_option (apfst ((#) x)) (cut_at c xs))"

lemma cut_at_None_iff [cut_simps]: "cut_at c s = None \<longleftrightarrow> c \<notin> set s"
  by (induction s) auto

lemma cut_at_None [simp]: "c \<notin> set s \<Longrightarrow> cut_at c s = None"
  by (simp add: cut_at_None_iff)

lemma cut_at_append [simp, cut_simps]: "c \<notin> set a \<Longrightarrow> cut_at c (a @ c # b) = Some (a, b)"
  by (induction a) auto

lemma cut_at_Some_iff [cut_simps]: "cut_at c s = Some (a, b) \<longleftrightarrow> s = a @ c # b \<and> c \<notin> set a"
proof
  show "cut_at c s = Some (a, b) \<Longrightarrow> s = a @ c # b \<and> c \<notin> set a"
    by (induction s arbitrary: a) (auto split: if_splits)
qed auto

text \<open>\<^verbatim>\<open>s.compare(0, p.size(), p) == 0\<close>\<close>

definition starts_with :: "string \<Rightarrow> string \<Rightarrow> bool" where
  "starts_with p s \<longleftrightarrow> take (length p) s = p"

lemma starts_with_append [simp]: "starts_with p (p @ s)"
  by (simp add: starts_with_def)

lemma starts_with_iff: "starts_with p s \<longleftrightarrow> (\<exists>r. s = p @ r)"
  by (auto simp: starts_with_def) (metis append_take_drop_id)

text \<open>
  The field splitter with a buffer: \<^verbatim>\<open>for (c : s) if (c == sep) { parts.push_back(cur);
  cur.clear(); } else cur += c; parts.push_back(cur);\<close>
\<close>

fun split_loop :: "char \<Rightarrow> string \<Rightarrow> string \<Rightarrow> string list" where
  "split_loop sep cur [] = [cur]"
| "split_loop sep cur (x # xs) =
     (if x = sep then cur # split_loop sep [] xs else split_loop sep (cur @ [x]) xs)"

definition split_on :: "char \<Rightarrow> string \<Rightarrow> string list" where
  "split_on sep s = split_loop sep [] s"

lemma split_loop_no_sep: "sep \<notin> set s \<Longrightarrow> split_loop sep cur s = [cur @ s]"
  by (induction s arbitrary: cur) auto

lemma split_loop_append:
  "sep \<notin> set a \<Longrightarrow> split_loop sep cur (a @ sep # b) = (cur @ a) # split_loop sep [] b"
  by (induction a arbitrary: cur) auto

lemma split_on_no_sep [simp, cut_simps]: "sep \<notin> set s \<Longrightarrow> split_on sep s = [s]"
  by (simp add: split_on_def split_loop_no_sep)

lemma split_on_append [simp, cut_simps]:
  "sep \<notin> set a \<Longrightarrow> split_on sep (a @ sep # b) = a # split_on sep b"
  by (simp add: split_on_def split_loop_append)

lemma split_on_Cons_sep [simp, cut_simps]: "split_on sep (sep # b) = [] # split_on sep b"
  by (simp add: split_on_def)

lemma split_loop_fields: "f \<in> set (split_loop sep cur s) \<Longrightarrow> sep \<notin> set cur \<Longrightarrow> sep \<notin> set f"
proof (induction s arbitrary: cur)
  case Nil
  then show ?case by simp
next
  case (Cons x xs)
  then show ?case by (cases "x = sep") fastforce+
qed

lemma split_on_fields: "f \<in> set (split_on sep s) \<Longrightarrow> sep \<notin> set f"
  by (simp add: split_on_def split_loop_fields)

lemma split_loop_nonempty [simp]: "split_loop sep cur s \<noteq> []"
  by (induction s arbitrary: cur) auto

lemma split_on_nonempty [simp]: "split_on sep s \<noteq> []"
  by (simp add: split_on_def)

text \<open>Joining the fields with the separator gives the text back.\<close>

fun join :: "char \<Rightarrow> string list \<Rightarrow> string" where
  "join sep [] = []"
| "join sep [x] = x"
| "join sep (x # y # ys) = x @ sep # join sep (y # ys)"

lemma join_Cons: "xs \<noteq> [] \<Longrightarrow> join sep (x # xs) = x @ sep # join sep xs"
  by (cases xs) auto

lemma join_split_loop: "join sep (split_loop sep cur s) = cur @ s"
proof (induction s arbitrary: cur)
  case Nil
  then show ?case by simp
next
  case (Cons x xs)
  then show ?case by (auto simp: join_Cons)
qed

lemma join_split_on: "join sep (split_on sep s) = s"
  by (simp add: split_on_def join_split_loop)

lemma split_on_join:
  "xs \<noteq> [] \<Longrightarrow> (\<And>x. x \<in> set xs \<Longrightarrow> sep \<notin> set x) \<Longrightarrow> split_on sep (join sep xs) = xs"
  by (induction sep xs rule: join.induct) auto

section \<open>Slash-anchored prefixes and owners\<close>

text \<open>\<^verbatim>\<open>q == p || (q.size() > p.size() && q.compare(0, p.size(), p) == 0 && q[p.size()] == '/')\<close>\<close>

definition slash_under :: "string \<Rightarrow> string \<Rightarrow> bool" where
  "slash_under p q \<longleftrightarrow> q = p \<or> (length p < length q \<and> starts_with p q \<and> q ! length p = CHR ''/'')"

lemma slash_under_iff: "slash_under p q \<longleftrightarrow> q = p \<or> (\<exists>r. q = p @ CHR ''/'' # r)"
proof -
  have "length p < length q \<and> starts_with p q \<and> q ! length p = CHR ''/'' \<longleftrightarrow> (\<exists>r. q = p @ CHR ''/'' # r)"
    (is "?L \<longleftrightarrow> ?R")
  proof
    assume l: ?L
    then obtain r where q: "q = p @ r" by (auto simp: starts_with_iff)
    with l obtain c r' where "r = c # r'" by (cases r) auto
    with l q show ?R by auto
  qed auto
  then show ?thesis by (auto simp: slash_under_def)
qed

lemma slash_under_refl [simp]: "slash_under p p"
  by (simp add: slash_under_iff)

lemma slash_under_trans: "slash_under p q \<Longrightarrow> slash_under q r \<Longrightarrow> slash_under p r"
  by (auto simp: slash_under_iff)

lemma slash_under_length: "slash_under p q \<Longrightarrow> length p \<le> length q"
  by (auto simp: slash_under_iff)

text \<open>Two ancestors of one path are comparable.\<close>

lemma slash_under_chain:
  assumes "slash_under p q" "slash_under p' q" "length p \<le> length p'"
  shows "slash_under p p'"
proof (cases "length p = length p'")
  case True
  with assms(1,2) show ?thesis by (auto simp: slash_under_iff)
next
  case False
  with assms have lt: "length p < length p'" and le: "length p' \<le> length q"
    by (auto dest: slash_under_length)
  then obtain r where q: "q = p @ CHR ''/'' # r" using assms(1) by (auto simp: slash_under_iff)
  have "p' = take (length p') q" using assms(2) by (auto simp: slash_under_iff)
  also have "\<dots> = p @ CHR ''/'' # take (length p' - Suc (length p)) r"
    using lt by (simp add: q take_Cons')
  finally show ?thesis by (auto simp: slash_under_iff)
qed

text \<open>\<^verbatim>\<open>PrivOpsAuthzPure::Owner\<close>: what a registry says about a target.\<close>

record owner =
  known :: bool
  owner_uid :: nat

definition no_owner :: owner where
  "no_owner = \<lparr>known = False, owner_uid = 0\<rparr>"

definition owned_by :: "nat \<Rightarrow> owner" where
  "owned_by u = \<lparr>known = True, owner_uid = u\<rparr>"

lemma owner_simps [simp]:
  "known no_owner = False" "known (owned_by u) = True" "owner_uid (owned_by u) = u"
  "owned_by u = owned_by v \<longleftrightarrow> u = v" "no_owner \<noteq> owned_by u" "owned_by u \<noteq> no_owner"
  by (simp_all add: no_owner_def owned_by_def)

end
