(* ===== verification/NetAddr.thy ===== *)
theory NetAddr
  imports Prelude
begin

text \<open>
  \<^verbatim>\<open>lib/netaddr_pure.cpp\<close>: the shared textual checks for IPv4 and IPv6 addresses and host
  names. The index loops of the source are recursions on the text that is left. The lemmas
  give each scanner's accepted language in closed form.
\<close>

section \<open>IPv4\<close>

definition isV4Octet :: "string \<Rightarrow> bool" where
  "isV4Octet s \<longleftrightarrow> \<not> (s = [] \<or> length s > 3) \<and> list_all is_digit s \<and> dec_val s \<le> 255"

text \<open>
  The loop over \<^verbatim>\<open>i = 0..3\<close>: \<^term>\<open>k\<close> octets are still to be followed by a dot.
\<close>

fun isV4_loop :: "nat \<Rightarrow> string \<Rightarrow> bool" where
  "isV4_loop 0 rest = isV4Octet rest"
| "isV4_loop (Suc k) rest =
     (case cut_at (CHR ''.'') rest of None \<Rightarrow> False
      | Some (octet, rest') \<Rightarrow> isV4Octet octet \<and> isV4_loop k rest')"

definition isV4 :: "string \<Rightarrow> bool" where
  "isV4 s = isV4_loop 3 s"

lemma isV4Octet_no_dot: "isV4Octet s \<Longrightarrow> CHR ''.'' \<notin> set s"
  by (auto simp: isV4Octet_def list_all_iff is_digit_def)

lemma isV4_loop_split:
  "isV4_loop k s \<longleftrightarrow> length (split_on (CHR ''.'') s) = Suc k \<and> list_all isV4Octet (split_on (CHR ''.'') s)"
proof (induction k arbitrary: s)
  case 0
  show ?case
  proof (cases "CHR ''.'' \<in> set s")
    case True
    then obtain a b where s: "s = a @ CHR ''.'' # b" "CHR ''.'' \<notin> set a"
      by (metis split_list_first)
    with True show ?thesis by (auto dest: isV4Octet_no_dot)
  next
    case False
    then show ?thesis by simp
  qed
next
  case (Suc k)
  show ?case
  proof (cases "cut_at (CHR ''.'') s")
    case None
    then show ?thesis by (simp add: cut_at_None_iff)
  next
    case (Some ab)
    then obtain a b where "ab = (a, b)" "s = a @ CHR ''.'' # b" "CHR ''.'' \<notin> set a"
      by (cases ab) (auto simp: cut_at_Some_iff)
    with Some Suc.IH show ?thesis by auto
  qed
qed

lemma isV4_split:
  "isV4 s \<longleftrightarrow> length (split_on (CHR ''.'') s) = 4 \<and> list_all isV4Octet (split_on (CHR ''.'') s)"
  by (simp add: isV4_def isV4_loop_split)

section \<open>IPv6\<close>

text \<open>The inner loop: how many hex digits, at most \<^term>\<open>k\<close>, start the text.\<close>

fun hex_run :: "nat \<Rightarrow> string \<Rightarrow> nat" where
  "hex_run (Suc k) (x # xs) = (if is_hex x then Suc (hex_run k xs) else 0)"
| "hex_run _ _ = 0"

lemma hex_run_le: "hex_run k s \<le> length s"
  by (induction k s rule: hex_run.induct) auto

function (sequential) isV6_loop :: "string \<Rightarrow> bool \<Rightarrow> bool \<Rightarrow> nat \<Rightarrow> bool" where
  "isV6_loop [] saw prev groups = (if saw then groups \<le> 7 else groups = 8)"
| "isV6_loop (x # xs) saw prev groups =
     (if x = CHR '':'' \<and> xs \<noteq> [] \<and> hd xs = CHR '':'' then
        (if saw then False else isV6_loop (tl xs) True False groups)
      else if x = CHR '':'' then
        (if \<not> prev \<or> xs = [] then False else isV6_loop xs saw False groups)
      else
        (let hexLen = hex_run 4 (x # xs); rest = drop hexLen (x # xs) in
         if hexLen = 0 then False
         else if rest \<noteq> [] \<and> hd rest \<noteq> CHR '':'' then False
         else isV6_loop rest saw True (groups + 1)))"
  by pat_completeness auto
termination
  by (relation "measure (\<lambda>(s, _). length s)") (auto simp: hex_run_le)

declare isV6_loop.simps [simp del]

definition isV6 :: "string \<Rightarrow> bool" where
  "isV6 s = (if s = [] then False else isV6_loop s False False 0)"

text \<open>
  The language of the scanner: eight hex groups joined by colons, or two sequences of hex
  groups around one double colon with at most seven groups in all.
\<close>

definition hex_group :: "string \<Rightarrow> bool" where
  "hex_group g \<longleftrightarrow> g \<noteq> [] \<and> length g \<le> 4 \<and> list_all is_hex g"

definition colon_groups :: "string list \<Rightarrow> string" where
  "colon_groups gs = concat (map ((#) (CHR '':'')) gs)"

lemma colon_groups_simps [simp]:
  "colon_groups [] = []" "colon_groups (g # gs) = CHR '':'' # g @ colon_groups gs"
  by (simp_all add: colon_groups_def)

lemma join_colon_groups: "gs \<noteq> [] \<Longrightarrow> join (CHR '':'') gs = hd gs @ colon_groups (tl gs)"
  by (induction gs rule: induct_list012) auto

lemma hex_run_append:
  "list_all is_hex g \<Longrightarrow> length g \<le> k \<Longrightarrow> r = [] \<or> \<not> is_hex (hd r) \<Longrightarrow> hex_run k (g @ r) = length g"
proof (induction g arbitrary: k)
  case Nil
  then show ?case by (cases k; cases r) auto
next
  case (Cons x g)
  then show ?case by (cases k) auto
qed

lemma hex_run_take: "list_all is_hex (take (hex_run k s) s) \<and> hex_run k s \<le> k"
  by (induction k s rule: hex_run.induct) auto

lemma not_hex_colon [simp]: "\<not> is_hex (CHR '':'')"
  by (simp add: is_hex_def)

text \<open>One group step: the scanner consumes exactly one hex group.\<close>

lemma isV6_loop_group:
  assumes "x \<noteq> CHR '':''"
  shows "isV6_loop (x # xs) saw prev n \<longleftrightarrow>
    (\<exists>g r. hex_group g \<and> x # xs = g @ r \<and> (r = [] \<or> hd r = CHR '':'') \<and> isV6_loop r saw True (n + 1))"
    (is "?L = ?R")
proof
  assume L: ?L
  let ?h = "hex_run 4 (x # xs)"
  from L assms have h: "?h \<noteq> 0" and r: "drop ?h (x # xs) = [] \<or> hd (drop ?h (x # xs)) = CHR '':''"
    and step: "isV6_loop (drop ?h (x # xs)) saw True (n + 1)"
    by (simp_all add: isV6_loop.simps(2) Let_def split: if_splits)
  have "hex_group (take ?h (x # xs))"
    using hex_run_take [of 4 "x # xs"] h by (auto simp: hex_group_def)
  with r step show ?R by (metis append_take_drop_id)
next
  assume ?R
  then obtain g r where g: "hex_group g" and eq: "x # xs = g @ r"
    and r: "r = [] \<or> hd r = CHR '':''" and step: "isV6_loop r saw True (n + 1)" by blast
  have run: "hex_run 4 (x # xs) = length g"
    using g r unfolding eq hex_group_def by (intro hex_run_append) auto
  have "length g \<noteq> 0" and "drop (length g) (x # xs) = r" using g eq by (auto simp: hex_group_def)
  with assms run r step show ?L by (simp add: isV6_loop.simps(2) Let_def)
qed

lemma hex_group_hd: "hex_group g \<Longrightarrow> \<exists>y ys. g = y # ys \<and> y \<noteq> CHR '':''"
  by (cases g) (auto simp: hex_group_def is_hex_def)

text \<open>What may follow a group, and what may start the text or follow a separator.\<close>

definition v6_after :: "bool \<Rightarrow> nat \<Rightarrow> string \<Rightarrow> bool" where
  "v6_after saw n s \<longleftrightarrow>
     (\<exists>gs. list_all hex_group gs \<and> s = colon_groups gs \<and> (if saw then n + length gs \<le> 7 else n + length gs = 8))
     \<or> (\<not> saw \<and> (\<exists>hs ts. list_all hex_group (hs @ ts) \<and> n + length hs + length ts \<le> 7
           \<and> s = colon_groups hs @ ''::'' @ join (CHR '':'') ts))"

definition v6_start :: "bool \<Rightarrow> nat \<Rightarrow> string \<Rightarrow> bool" where
  "v6_start saw n s \<longleftrightarrow>
     (\<exists>gs. list_all hex_group gs \<and> s = join (CHR '':'') gs \<and> (if saw then n + length gs \<le> 7 else n + length gs = 8))
     \<or> (\<not> saw \<and> (\<exists>hs ts. list_all hex_group (hs @ ts) \<and> n + length hs + length ts \<le> 7
           \<and> s = join (CHR '':'') hs @ ''::'' @ join (CHR '':'') ts))"

lemma v6_start_group:
  assumes "x \<noteq> CHR '':''"
  shows "v6_start saw n (x # xs) \<longleftrightarrow>
    (\<exists>g r. hex_group g \<and> x # xs = g @ r \<and> (r = [] \<or> hd r = CHR '':'') \<and> v6_after saw (n + 1) r)"
    (is "?L = ?R")
proof
  assume ?L
  then consider
    (plain) gs where "list_all hex_group gs" "x # xs = join (CHR '':'') gs"
      "if saw then n + length gs \<le> 7 else n + length gs = 8"
  | (double) hs ts where "\<not> saw" "list_all hex_group (hs @ ts)" "n + length hs + length ts \<le> 7"
      "x # xs = join (CHR '':'') hs @ ''::'' @ join (CHR '':'') ts"
    unfolding v6_start_def by blast
  then show ?R
  proof cases
    case plain
    then obtain g gs' where gs: "gs = g # gs'" by (cases gs) auto
    with plain have "hex_group g" "x # xs = g @ colon_groups gs'" by (simp_all add: join_colon_groups)
    moreover have "v6_after saw (n + 1) (colon_groups gs')"
      unfolding v6_after_def using plain gs by (intro disjI1 exI [of _ gs']) (auto split: if_splits)
    moreover have "colon_groups gs' = [] \<or> hd (colon_groups gs') = CHR '':''" by (cases gs') auto
    ultimately show ?thesis by blast
  next
    case double
    then obtain g hs' where hs: "hs = g # hs'" using assms by (cases hs) auto
    with double have "hex_group g"
      "x # xs = g @ (colon_groups hs' @ ''::'' @ join (CHR '':'') ts)" by (simp_all add: join_colon_groups)
    moreover have "v6_after saw (n + 1) (colon_groups hs' @ ''::'' @ join (CHR '':'') ts)"
      unfolding v6_after_def using double hs by (intro disjI2 conjI exI [of _ hs'] exI [of _ ts]) auto
    moreover have "hd (colon_groups hs' @ ''::'' @ join (CHR '':'') ts) = CHR '':''" by (cases hs') auto
    ultimately show ?thesis by blast
  qed
next
  assume ?R
  then obtain g r where g: "hex_group g" "x # xs = g @ r" and "v6_after saw (n + 1) r" by blast
  then consider
    (plain) gs where "list_all hex_group gs" "r = colon_groups gs"
      "if saw then n + 1 + length gs \<le> 7 else n + 1 + length gs = 8"
  | (double) hs ts where "\<not> saw" "list_all hex_group (hs @ ts)" "n + 1 + length hs + length ts \<le> 7"
      "r = colon_groups hs @ ''::'' @ join (CHR '':'') ts"
    unfolding v6_after_def by blast
  then show ?L
  proof cases
    case plain
    then show ?thesis unfolding v6_start_def using g
      by (intro disjI1 exI [of _ "g # gs"]) (auto simp: join_colon_groups split: if_splits)
  next
    case double
    then show ?thesis unfolding v6_start_def using g
      by (intro disjI2 conjI exI [of _ "g # hs"] exI [of _ ts]) (auto simp: join_colon_groups)
  qed
qed

lemma join_hd_colon: "list_all hex_group gs \<Longrightarrow> join (CHR '':'') gs \<noteq> CHR '':'' # r"
  by (cases gs) (auto simp: join_colon_groups dest!: hex_group_hd)

lemma v6_start_colon: "v6_start saw n (CHR '':'' # r) \<longleftrightarrow>
  \<not> saw \<and> (\<exists>r'. r = CHR '':'' # r' \<and> v6_start True n r')"
proof
  assume "v6_start saw n (CHR '':'' # r)"
  then obtain hs ts where ns: "\<not> saw" and h: "list_all hex_group (hs @ ts)" "n + length hs + length ts \<le> 7"
    and eq: "CHR '':'' # r = join (CHR '':'') hs @ ''::'' @ join (CHR '':'') ts"
    unfolding v6_start_def using join_hd_colon by (metis (no_types))
  then have "hs = []" by (cases hs) (auto simp: join_colon_groups dest!: hex_group_hd)
  with ns h eq show "\<not> saw \<and> (\<exists>r'. r = CHR '':'' # r' \<and> v6_start True n r')"
    unfolding v6_start_def by auto
next
  assume "\<not> saw \<and> (\<exists>r'. r = CHR '':'' # r' \<and> v6_start True n r')"
  then obtain ts where "\<not> saw" "list_all hex_group ts" "r = CHR '':'' # join (CHR '':'') ts"
    "n + length ts \<le> 7"
    unfolding v6_start_def by auto
  then show "v6_start saw n (CHR '':'' # r)"
    unfolding v6_start_def by (intro disjI2 conjI exI [of _ "[]"] exI [of _ ts]) auto
qed

lemma v6_after_double: "v6_after saw n (CHR '':'' # CHR '':'' # r) \<longleftrightarrow> \<not> saw \<and> v6_start True n r"
proof
  assume "v6_after saw n (CHR '':'' # CHR '':'' # r)"
  then consider
    (plain) gs where "list_all hex_group gs" "CHR '':'' # CHR '':'' # r = colon_groups gs"
  | (double) hs ts where "\<not> saw" "list_all hex_group (hs @ ts)" "n + length hs + length ts \<le> 7"
      "CHR '':'' # CHR '':'' # r = colon_groups hs @ ''::'' @ join (CHR '':'') ts"
    unfolding v6_after_def by blast
  then show "\<not> saw \<and> v6_start True n r"
  proof cases
    case plain
    then show ?thesis by (cases gs) (auto dest!: hex_group_hd)
  next
    case double
    then have "hs = []" by (cases hs) (auto dest!: hex_group_hd)
    with double show ?thesis unfolding v6_start_def by auto
  qed
next
  assume "\<not> saw \<and> v6_start True n r"
  then obtain ts where "\<not> saw" "list_all hex_group ts" "r = join (CHR '':'') ts" "n + length ts \<le> 7"
    unfolding v6_start_def by auto
  then show "v6_after saw n (CHR '':'' # CHR '':'' # r)"
    unfolding v6_after_def by (intro disjI2 conjI exI [of _ "[]"] exI [of _ ts]) auto
qed

lemma v6_after_single:
  assumes "xs = [] \<or> hd xs \<noteq> CHR '':''"
  shows "v6_after saw n (CHR '':'' # xs) \<longleftrightarrow> xs \<noteq> [] \<and> v6_start saw n xs"
proof
  assume "v6_after saw n (CHR '':'' # xs)"
  then consider
    (plain) gs where "list_all hex_group gs" "CHR '':'' # xs = colon_groups gs"
      "if saw then n + length gs \<le> 7 else n + length gs = 8"
  | (double) hs ts where "\<not> saw" "list_all hex_group (hs @ ts)" "n + length hs + length ts \<le> 7"
      "CHR '':'' # xs = colon_groups hs @ ''::'' @ join (CHR '':'') ts"
    unfolding v6_after_def by blast
  then show "xs \<noteq> [] \<and> v6_start saw n xs"
  proof cases
    case plain
    then obtain g gs' where "gs = g # gs'" by (cases gs) auto
    with plain have "xs = join (CHR '':'') gs" "xs \<noteq> []" by (auto simp: join_colon_groups hex_group_def)
    with plain show ?thesis unfolding v6_start_def by auto
  next
    case double
    then obtain h hs' where "hs = h # hs'" using assms by (cases hs) auto
    with double have "xs = join (CHR '':'') hs @ ''::'' @ join (CHR '':'') ts" by (simp add: join_colon_groups)
    with double show ?thesis unfolding v6_start_def by auto
  qed
next
  assume R: "xs \<noteq> [] \<and> v6_start saw n xs"
  then obtain y ys where xs: "xs = y # ys" "y \<noteq> CHR '':''" using assms by (cases xs) auto
  with R obtain g r where g: "hex_group g" "xs = g @ r" and r: "v6_after saw (n + 1) r"
    using v6_start_group by auto
  from r consider
    (plain) gs where "list_all hex_group gs" "r = colon_groups gs"
      "if saw then n + 1 + length gs \<le> 7 else n + 1 + length gs = 8"
  | (double) hs ts where "\<not> saw" "list_all hex_group (hs @ ts)" "n + 1 + length hs + length ts \<le> 7"
      "r = colon_groups hs @ ''::'' @ join (CHR '':'') ts"
    unfolding v6_after_def by blast
  then show "v6_after saw n (CHR '':'' # xs)"
  proof cases
    case plain
    then show ?thesis unfolding v6_after_def using g
      by (intro disjI1 exI [of _ "g # gs"]) (auto split: if_splits)
  next
    case double
    then show ?thesis unfolding v6_after_def using g
      by (intro disjI2 conjI exI [of _ "g # hs"] exI [of _ ts]) auto
  qed
qed

lemma v6_Nil:
  "v6_after saw n [] = (if saw then n \<le> 7 else n = 8)"
  "v6_start saw n [] = (if saw then n \<le> 7 else n = 8)"
proof -
  have j: "list_all hex_group gs \<and> [] = join (CHR '':'') gs \<longleftrightarrow> gs = []" for gs
    by (cases gs) (auto simp: join_colon_groups hex_group_def)
  have c: "[] = colon_groups gs \<longleftrightarrow> gs = []" for gs by (cases gs) auto
  show "v6_after saw n [] = (if saw then n \<le> 7 else n = 8)" by (simp add: v6_after_def c cong: conj_cong)
  show "v6_start saw n [] = (if saw then n \<le> 7 else n = 8)"
    by (simp add: v6_start_def conj_assoc [symmetric] j cong: conj_cong)
qed

text \<open>The scanner decides exactly these two languages.\<close>

lemma isV6_loop_iff:
  "(s = [] \<or> hd s = CHR '':'' \<longrightarrow> isV6_loop s saw True n = v6_after saw n s)
   \<and> isV6_loop s saw False n = v6_start saw n s"
proof (induction s arbitrary: saw n rule: length_induct)
  case (1 s)
  note IH = "1.IH" [rule_format]
  show ?case
  proof (cases s)
    case Nil
    show ?thesis unfolding Nil by (simp add: isV6_loop.simps(1) v6_Nil)
  next
    case (Cons x xs)
    show ?thesis
    proof (cases "x = CHR '':''")
      case False
      have "isV6_loop r saw True (n + 1) = v6_after saw (n + 1) r"
        if "hex_group g" "x # xs = g @ r" "r = [] \<or> hd r = CHR '':''" for g r
      proof -
        from that(1) have "g \<noteq> []" by (simp add: hex_group_def)
        with that(2) Cons have "length r < length s" by simp
        with IH that(3) show ?thesis by blast
      qed
      then have "isV6_loop s saw False n = v6_start saw n s"
        unfolding Cons isV6_loop_group [OF False] v6_start_group [OF False] by blast
      with False Cons show ?thesis by simp
    next
      case True
      show ?thesis
      proof (cases "xs \<noteq> [] \<and> hd xs = CHR '':''")
        case True2: True
        then obtain r where xs: "xs = CHR '':'' # r" by (cases xs) auto
        have "isV6_loop r True False n = v6_start True n r" using IH [of r] Cons xs by simp
        with Cons True xs show ?thesis
          by (auto simp: isV6_loop.simps(2) v6_after_double v6_start_colon)
      next
        case False
        then have single: "xs = [] \<or> hd xs \<noteq> CHR '':''" by blast
        then have "\<not> v6_start saw n s" using Cons True by (auto simp: v6_start_colon)
        moreover have "isV6_loop xs saw False n = v6_start saw n xs" using IH [of xs] Cons by simp
        ultimately show ?thesis using Cons True single False
          by (auto simp: isV6_loop.simps(2) v6_after_single)
      qed
    qed
  qed
qed

text \<open>
  \<^const>\<open>isV6\<close> accepts exactly the textual IPv6 addresses: eight groups of one to four hex
  digits joined by single colons, or two such sequences around exactly one double colon with
  at most seven groups in total. Nothing else passes: no third colon in a row, no trailing
  colon, no run of five hex digits.
\<close>

theorem isV6_language:
  "isV6 s \<longleftrightarrow>
     (\<exists>gs. list_all hex_group gs \<and> length gs = 8 \<and> s = join (CHR '':'') gs) \<or>
     (\<exists>hs ts. list_all hex_group (hs @ ts) \<and> length hs + length ts \<le> 7 \<and>
        s = join (CHR '':'') hs @ ''::'' @ join (CHR '':'') ts)"
proof (cases "s = []")
  case True
  have "gs = []" if "list_all hex_group gs" "[] = join (CHR '':'') gs" for gs
    using that by (cases gs) (auto simp: join_colon_groups hex_group_def)
  with True show ?thesis by (fastforce simp: isV6_def)
next
  case False
  then show ?thesis using isV6_loop_iff [of s False 0] by (auto simp: isV6_def v6_start_def)
qed

section \<open>Host names\<close>

definition looksLikeV4Shape :: "string \<Rightarrow> bool" where
  "looksLikeV4Shape s \<longleftrightarrow> s \<noteq> [] \<and> list_all (\<lambda>c. c = CHR ''.'' \<or> is_digit c) s \<and> CHR ''.'' \<in> set s"

definition hostLabelOk :: "string \<Rightarrow> bool" where
  "hostLabelOk l \<longleftrightarrow> \<not> (l = [] \<or> length l > 63) \<and> is_alnum (hd l) \<and> is_alnum (last l)
     \<and> list_all (\<lambda>c. is_alnum c \<or> c = CHR ''-'') l"

text \<open>The label loop; a dot after a label is skipped, so a final dot ends the loop.\<close>

function (sequential) isHostname_loop :: "string \<Rightarrow> bool" where
  "isHostname_loop [] = True"
| "isHostname_loop s =
     (case cut_at (CHR ''.'') s of
        None \<Rightarrow> hostLabelOk s
      | Some (label, rest) \<Rightarrow> hostLabelOk label \<and> isHostname_loop rest)"
  by pat_completeness auto
termination
proof (relation "measure length", goal_cases)
  case (2 v va x2 x y)
  then have "v # va = x @ CHR ''.'' # y" by (metis cut_at_Some_iff)
  then have "length (v # va) = length (x @ CHR ''.'' # y)" by simp
  then show ?case by simp
qed simp

definition isHostname :: "string \<Rightarrow> bool" where
  "isHostname s \<longleftrightarrow> \<not> (s = [] \<or> length s > 253) \<and> isHostname_loop s"

text \<open>The labels the host-name loop sees: the dot-separated fields, less an empty last one.\<close>

lemma isHostname_loop_labels:
  "s \<noteq> [] \<Longrightarrow> isHostname_loop s \<longleftrightarrow>
     (let ls = split_on (CHR ''.'') s in
      list_all hostLabelOk (if last ls = [] then butlast ls else ls))"
proof (induction s rule: isHostname_loop.induct)
  case 1
  then show ?case by simp
next
  case (2 v va)
  show ?case
  proof (cases "cut_at (CHR ''.'') (v # va)")
    case None
    then have "CHR ''.'' \<notin> set (v # va)" by (simp only: cut_at_None_iff not_False_eq_True)
    then have "split_on (CHR ''.'') (v # va) = [v # va]" by (rule split_on_no_sep)
    with None show ?thesis by (simp add: Let_def)
  next
    case (Some ab)
    then obtain a b where ab: "ab = (a, b)" and eq: "v # va = a @ CHR ''.'' # b" and a: "CHR ''.'' \<notin> set a"
      by (metis cut_at_Some_iff surj_pair)
    show ?thesis
    proof (cases "b = []")
      case True
      have "split_on (CHR ''.'') (v # va) = [a, []]" unfolding eq using a True by simp
      with Some ab True show ?thesis by (simp add: Let_def)
    next
      case False
      have sp: "split_on (CHR ''.'') (v # va) = a # split_on (CHR ''.'') b" unfolding eq using a by simp
      from 2(1) [OF Some ab [symmetric] False] Some ab show ?thesis by (auto simp: sp Let_def)
    qed
  qed
qed

end
