(* ===== verification/IpAlloc.thy ===== *)
theory IpAlloc
  imports NetAddr
begin

text \<open>
  \<^verbatim>\<open>lib/ip_alloc_pure.{h,cpp}\<close>: the IPv4 pool behind \<^verbatim>\<open>network: auto\<close>. Addresses are 32-bit
  words in host byte order, so the shifts, masks and the scan's increment wrap as in C++.
  The lemmas show that printing and parsing addresses and lease lines are inverse, that the
  scan terminates, and that it hands out a free host address of the pool whenever there is one.
\<close>

unbundle bit_operations_syntax

record network =
  base :: u32
  prefixLen :: nat

section \<open>Dotted quads\<close>

fun octet_loop :: "nat \<Rightarrow> string \<Rightarrow> nat option" where
  "octet_loop n [] = Some n"
| "octet_loop n (c # cs) =
     (let n' = n * 10 + digit_val c in if n' > 255 then None else octet_loop n' cs)"

definition parseOctet :: "string \<Rightarrow> nat option" where
  "parseOctet s =
     (if s = [] \<or> length s > 3 then None
      else if \<not> list_all is_digit s then None
      else if length s > 1 \<and> hd s = CHR ''0'' then None
      else octet_loop 0 s)"

fun ip_loop :: "u32 \<Rightarrow> string list \<Rightarrow> u32 res" where
  "ip_loop addr [] = Inr addr"
| "ip_loop addr (p # ps) =
     (case parseOctet p of None \<Rightarrow> Inl (''invalid octet '' @ quoted p)
      | Some n \<Rightarrow> ip_loop (push_bit 8 addr OR word_of_nat n) ps)"

definition parseIp :: "string \<Rightarrow> u32 res" where
  "parseIp s =
     (let parts = split_on (CHR ''.'') s in
      if length parts \<noteq> 4 then Inl ''IP must have 4 dotted octets'' else ip_loop 0 parts)"

definition formatIp :: "u32 \<Rightarrow> string" where
  "formatIp addr =
     dec (unat (drop_bit 24 addr AND 0xff)) @ ''.'' @ dec (unat (drop_bit 16 addr AND 0xff)) @ ''.'' @
     dec (unat (drop_bit 8 addr AND 0xff)) @ ''.'' @ dec (unat (drop_bit 0 addr AND 0xff))"

section \<open>CIDR pools\<close>

fun cidr_prefix_loop :: "nat \<Rightarrow> string \<Rightarrow> nat res" where
  "cidr_prefix_loop n [] = Inr n"
| "cidr_prefix_loop n (c # cs) =
     (let n' = n * 10 + digit_val c in
      if n' > 32 then Inl ''CIDR prefix out of range (0..32)'' else cidr_prefix_loop n' cs)"

definition cidr_mask :: "nat \<Rightarrow> u32" where
  "cidr_mask p = (if p = 32 then 0xFFFFFFFF else NOT (push_bit (32 - p) 1 - 1))"

definition parseCidr :: "string \<Rightarrow> network res" where
  "parseCidr cidr =
     (case cut_at (CHR ''/'') cidr of
        None \<Rightarrow> Inl (''CIDR missing '' @ quoted ''/'')
      | Some (ipPart, prePart) \<Rightarrow>
        if prePart = [] then Inl ''CIDR prefix empty''
        else if \<not> list_all is_digit prePart then Inl ''CIDR prefix not numeric''
        else case cidr_prefix_loop 0 prePart of
          Inl e \<Rightarrow> Inl e
        | Inr prefix \<Rightarrow>
          if prefix < 1 \<or> prefix > 30 then Inl ''CIDR prefix out of supported range (1..30)''
          else case parseIp ipPart of
            Inl e \<Rightarrow> Inl (''CIDR address: '' @ e)
          | Inr addr \<Rightarrow>
            if addr AND cidr_mask prefix \<noteq> addr
            then Inl (''CIDR base address '' @ quoted ipPart @ '' is not aligned to /'' @ dec prefix)
            else Inr \<lparr>base = addr, prefixLen = prefix\<rparr>)"

definition gatewayFor :: "network \<Rightarrow> u32" where
  "gatewayFor n = base n + 1"

definition broadcastFor :: "network \<Rightarrow> u32" where
  "broadcastFor n = base n OR (if prefixLen n = 32 then 0 else push_bit (32 - prefixLen n) 1 - 1)"

text \<open>
  The scan from \<^verbatim>\<open>pool.base + 2\<close> while \<^verbatim>\<open>a < bcast\<close>; 0 means exhausted.
\<close>

function alloc_loop :: "u32 \<Rightarrow> u32 \<Rightarrow> u32 list \<Rightarrow> u32 \<Rightarrow> u32" where
  "alloc_loop bcast gw taken a =
     (if a < bcast then
        (if a = gw then alloc_loop bcast gw taken (a + 1)
         else if a \<in> set taken then alloc_loop bcast gw taken (a + 1)
         else a)
      else 0)"
  by pat_completeness auto
termination
proof (relation "measure (\<lambda>(bcast, _, _, a). unat bcast - unat a)", goal_cases)
  case (2 bcast gw taken a)
  then show ?case by simp unat_arith
next
  case (3 bcast gw taken a)
  then show ?case by simp unat_arith
qed simp

declare alloc_loop.simps [simp del]

definition allocateNext :: "network \<Rightarrow> u32 list \<Rightarrow> u32" where
  "allocateNext pool taken = alloc_loop (broadcastFor pool) (gatewayFor pool) taken (base pool + 2)"

section \<open>Lease lines\<close>

record lease =
  l_name :: string
  l_ip :: u32

text \<open>\<^verbatim>\<open>NameLimits\<close>: a jail name, and the lease key \<^verbatim>\<open>jail-<name>-<8 hex>\<close>.\<close>

definition kJailName :: nat where "kJailName = 128"
definition kKernelJailName :: nat where "kKernelJailName = 200"
definition kLeaseName :: nat where "kLeaseName = 5 + kJailName + 1 + 8"

definition nameLooksValid :: "string \<Rightarrow> bool" where
  "nameLooksValid n \<longleftrightarrow> \<not> (n = [] \<or> length n > kLeaseName) \<and>
     list_all (\<lambda>c. is_alnum c \<or> c = CHR ''.'' \<or> c = CHR ''_'' \<or> c = CHR ''-'') n"

definition has_ws :: "string \<Rightarrow> bool" where
  "has_ws s \<longleftrightarrow> list_ex (\<lambda>c. c \<in> {CHR '' '', CHR 0x09, CHR 0x0D, CHR 0x0A}) s"

definition parseLeaseLine :: "string \<Rightarrow> lease res" where
  "parseLeaseLine line =
     (if line = [] then Inl ''lease line is empty''
      else case cut_at (CHR '' '') line of
        None \<Rightarrow> Inl ''lease line missing space separator''
      | Some (name, ip) \<Rightarrow>
        if has_ws name then Inl ''name has internal whitespace''
        else if has_ws ip then Inl ''ip has internal whitespace''
        else if \<not> nameLooksValid name then Inl (''invalid jail name '' @ quoted name)
        else case parseIp ip of
          Inl e \<Rightarrow> Inl (''lease ip: '' @ e)
        | Inr addr \<Rightarrow> Inr \<lparr>l_name = name, l_ip = addr\<rparr>)"

definition formatLeaseLine :: "lease \<Rightarrow> string" where
  "formatLeaseLine l = l_name l @ '' '' @ formatIp (l_ip l)"

section \<open>Printing and parsing are inverse\<close>

lemma octet_loop_value:
  "n \<le> 255 \<Longrightarrow> octet_loop n s =
     (let m = n * 10 ^ length s + dec_val s in if m \<le> 255 then Some m else None)"
proof (induction s arbitrary: n)
  case Nil
  then show ?case by simp
next
  case (Cons c cs)
  let ?n = "n * 10 + digit_val c"
  have total: "n * 10 ^ length (c # cs) + dec_val (c # cs) = ?n * 10 ^ length cs + dec_val cs"
    by (simp add: dec_val_Cons algebra_simps)
  show ?case
  proof (cases "?n > 255")
    case True
    have "?n \<le> ?n * 10 ^ length cs" by simp
    with True have "?n * 10 ^ length cs + dec_val cs > 255"
      by (metis less_le_trans trans_le_add1)
    with True total show ?thesis by (simp add: Let_def)
  next
    case False
    with Cons.IH [of ?n] total show ?thesis by (simp add: Let_def)
  qed
qed

lemma parseOctet_dec [simp]: "n \<le> 255 \<Longrightarrow> parseOctet (dec n) = Some n"
  using dec_length_le [of n 3] dec_hd_zero [of n]
  by (auto simp: parseOctet_def octet_loop_value Let_def dec.simps [of 0])

lemma parseOctet_Some:
  assumes "parseOctet s = Some n" shows "n \<le> 255 \<and> s = dec n"
proof -
  from assms have d: "list_all is_digit s" and ne: "s \<noteq> []" and hd: "hd s \<noteq> CHR ''0'' \<or> length s = 1"
    and n: "n = dec_val s" "n \<le> 255"
    by (auto simp: parseOctet_def octet_loop_value Let_def split: if_splits)
      (metis One_nat_def Suc_lessI length_greater_0_conv)
  then show ?thesis using dec_dec_val [OF d ne hd] by simp
qed

lemma parseOctet_V4Octet: "parseOctet s = Some n \<Longrightarrow> isV4Octet s"
  using dec_length_le [of n 3] by (auto dest!: parseOctet_Some simp: isV4Octet_def)

definition octet_word :: "nat \<Rightarrow> u32" where
  "octet_word n = word_of_nat n"

lemma bit_octet_word: "n \<le> 255 \<Longrightarrow> bit (octet_word n) i \<Longrightarrow> i < 8"
proof (rule ccontr)
  assume n: "n \<le> 255" and b: "bit (octet_word n) i" and "\<not> i < 8"
  then have "2 ^ 8 \<le> (2::nat) ^ i" by (intro power_increasing) simp_all
  with n have "n < 2 ^ i" by simp
  then have "\<not> bit n i" by (simp add: bit_iff_odd)
  with b show False by (simp add: octet_word_def bit_simps)
qed

definition quad :: "nat \<Rightarrow> nat \<Rightarrow> nat \<Rightarrow> nat \<Rightarrow> u32" where
  "quad a b c d = push_bit 8 (push_bit 8 (push_bit 8 (octet_word a) OR octet_word b) OR octet_word c)
     OR octet_word d"

lemma byte_mask: "(0xff :: u32) = mask 8"
  by (simp add: mask_eq_exp_minus_1)

lemma quad_bytes:
  assumes "a \<le> 255" "b \<le> 255" "c \<le> 255" "d \<le> 255"
  shows "drop_bit 24 (quad a b c d) AND 0xff = octet_word a"
    and "drop_bit 16 (quad a b c d) AND 0xff = octet_word b"
    and "drop_bit 8 (quad a b c d) AND 0xff = octet_word c"
    and "quad a b c d AND 0xff = octet_word d"
  unfolding byte_mask
  using bit_octet_word [OF assms(1)] bit_octet_word [OF assms(2)] bit_octet_word [OF assms(3)]
    bit_octet_word [OF assms(4)]
  by (intro bit_word_eqI; force simp: quad_def bit_simps)+

lemma unat_octet_word [simp]: "n \<le> 255 \<Longrightarrow> unat (octet_word n) = n"
  by (simp add: octet_word_def unat_of_nat)

lemma word_bytes:
  "push_bit 8 (push_bit 8 (push_bit 8 (drop_bit 24 w AND 0xff) OR (drop_bit 16 w AND 0xff))
     OR (drop_bit 8 w AND 0xff)) OR (w AND 0xff) = (w :: u32)"
  unfolding byte_mask
proof (rule bit_word_eqI)
  fix n assume "n < LENGTH(32)"
  then show "bit (push_bit 8 (push_bit 8 (push_bit 8 (drop_bit 24 w AND mask 8) OR drop_bit 16 w AND mask 8)
      OR drop_bit 8 w AND mask 8) OR w AND mask 8) n = bit w n"
    by (cases "n < 8"; cases "n < 16"; cases "n < 24") (auto simp: bit_simps)
qed

lemma ip_loop_quad:
  assumes "a \<le> 255" "b \<le> 255" "c \<le> 255" "d \<le> 255"
  shows "ip_loop 0 [dec a, dec b, dec c, dec d] = Inr (quad a b c d)"
  using assms by (simp add: quad_def octet_word_def)

lemma dot_not_digit [simp]: "CHR ''.'' \<notin> set (dec n)"
  by (rule dec_not_in) (simp add: is_digit_def)

definition quad_text :: "nat \<Rightarrow> nat \<Rightarrow> nat \<Rightarrow> nat \<Rightarrow> string" where
  "quad_text a b c d = dec a @ ''.'' @ dec b @ ''.'' @ dec c @ ''.'' @ dec d"

lemma split_quad_text [simp]:
  "split_on (CHR ''.'') (quad_text a b c d) = [dec a, dec b, dec c, dec d]"
  by (simp add: quad_text_def)

lemma parseIp_quad:
  assumes "a \<le> 255" "b \<le> 255" "c \<le> 255" "d \<le> 255"
  shows "parseIp (quad_text a b c d) = Inr (quad a b c d)"
  using ip_loop_quad [OF assms] by (simp add: parseIp_def Let_def)

lemma formatIp_quad:
  assumes "a \<le> 255" "b \<le> 255" "c \<le> 255" "d \<le> 255"
  shows "formatIp (quad a b c d) = quad_text a b c d"
  using assms by (simp add: formatIp_def quad_text_def quad_bytes)

lemma and_ff_le: "unat (x AND 0xff :: u32) \<le> 255"
  using word_and_le1 [of x "0xff"] by (simp add: word_le_nat_alt)

lemma quad_of_word:
  "w = quad (unat (drop_bit 24 w AND 0xff)) (unat (drop_bit 16 w AND 0xff))
         (unat (drop_bit 8 w AND 0xff)) (unat (w AND 0xff))"
  using word_bytes [of w] by (simp add: quad_def octet_word_def)

lemma word_quad: "\<exists>a b c d. w = quad a b c d \<and> a \<le> 255 \<and> b \<le> 255 \<and> c \<le> 255 \<and> d \<le> 255"
  using quad_of_word [of w] and_ff_le by blast

lemma parseIp_formatIp [simp]: "parseIp (formatIp w) = Inr w"
  using word_quad [of w] by (auto simp: formatIp_quad parseIp_quad)

lemma length4: "length xs = 4 \<Longrightarrow> \<exists>a b c d. xs = [a, b, c, d]"
  by (auto simp: numeral_eq_Suc length_Suc_conv)

lemma parseIp_Inr_cases:
  assumes "parseIp s = Inr w"
  obtains a b c d where "a \<le> 255" "b \<le> 255" "c \<le> 255" "d \<le> 255"
    "s = quad_text a b c d" "w = quad a b c d"
proof -
  from assms have "length (split_on (CHR ''.'') s) = 4" by (auto simp: parseIp_def Let_def split: if_splits)
  then obtain p q r t where sp: "split_on (CHR ''.'') s = [p, q, r, t]" using length4 by blast
  with assms obtain a b c d where oct: "parseOctet p = Some a" "parseOctet q = Some b"
    "parseOctet r = Some c" "parseOctet t = Some d"
    by (auto simp: parseIp_def split: option.splits)
  have le: "a \<le> 255" "b \<le> 255" "c \<le> 255" "d \<le> 255" and ps: "p = dec a" "q = dec b" "r = dec c" "t = dec d"
    using oct [THEN parseOctet_Some] by blast+
  have s: "s = quad_text a b c d"
    using join_split_on [of "CHR ''.''" s] by (simp add: sp ps quad_text_def)
  with assms parseIp_quad [OF le] have "w = quad a b c d" by simp
  with le s that show thesis by blast
qed

text \<open>
  Printing an IPv4 address and parsing the text gives the address back, and every text
  \<^const>\<open>parseIp\<close> accepts is the canonical print of its value, so the two are inverse on the
  accepted texts.
\<close>

theorem parseIp_roundtrip:
  "parseIp (formatIp w) = Inr w \<and> (parseIp s = Inr v \<longleftrightarrow> s = formatIp v)"
proof (intro conjI iffI)
  assume "parseIp s = Inr v"
  then show "s = formatIp v" by (rule parseIp_Inr_cases) (simp add: formatIp_quad)
qed simp_all

lemma parseIp_isFormat: "parseIp s = Inr v \<longleftrightarrow> s = formatIp v"
  by (metis formatIp_quad parseIp_Inr_cases parseIp_formatIp)

text \<open>The parser accepts exactly the dotted quads of \<^const>\<open>isV4\<close> without leading zeros.\<close>

lemma parseIp_isV4: "parseIp s = Inr w \<Longrightarrow> isV4 s"
  by (erule parseIp_Inr_cases) (simp add: isV4_split isV4Octet_def dec_length_le not_less)

section \<open>Pools and allocation\<close>

definition pool_ok :: "network \<Rightarrow> bool" where
  "pool_ok n \<longleftrightarrow> 1 \<le> prefixLen n \<and> prefixLen n \<le> 30 \<and> base n AND cidr_mask (prefixLen n) = base n"

lemma parseCidr_ok: "parseCidr s = Inr n \<Longrightarrow> pool_ok n"
  by (auto simp: parseCidr_def pool_ok_def split: option.splits prod.splits if_splits sum.splits)

lemma host_mask: "2 ^ k - 1 = (mask k :: u32)"
  by (simp add: mask_eq_exp_minus_1)

lemma cidr_mask_bit: "1 \<le> p \<Longrightarrow> p \<le> 30 \<Longrightarrow> bit (cidr_mask p) i \<longleftrightarrow> 32 - p \<le> i \<and> i < 32"
  by (auto simp: cidr_mask_def host_mask bit_simps)

lemma pool_base_bit:
  assumes "pool_ok n" "bit (base n) i" shows "32 - prefixLen n \<le> i"
proof -
  from assms have "bit (base n AND cidr_mask (prefixLen n)) i" by (simp add: pool_ok_def)
  then have "bit (cidr_mask (prefixLen n)) i" by (simp add: bit_and_iff)
  with assms(1) show ?thesis by (simp add: cidr_mask_bit pool_ok_def)
qed

lemma unat_broadcast:
  assumes "pool_ok n"
  shows "unat (broadcastFor n) = unat (base n) + (2 ^ (32 - prefixLen n) - 1)"
proof -
  have p: "prefixLen n \<le> 31" "prefixLen n \<noteq> 32" using assms by (auto simp: pool_ok_def)
  have disj: "\<not> bit (unat (base n)) i \<or> \<not> bit (mask (32 - prefixLen n) :: nat) i" for i
    using pool_base_bit [OF assms, of i] by (auto simp: bit_simps)
  have "unat (broadcastFor n) = unat (base n) OR unat (mask (32 - prefixLen n) :: u32)"
    using p by (simp add: broadcastFor_def host_mask unsigned_or_eq)
  also have "unat (mask (32 - prefixLen n) :: u32) = mask (32 - prefixLen n)"
    by (rule bit_eqI) (auto simp: bit_unsigned_iff bit_simps)
  also have "unat (base n) OR mask (32 - prefixLen n) = unat (base n) + mask (32 - prefixLen n)"
    using disj by (intro disjunctive_add [symmetric]) auto
  finally show ?thesis by (simp add: mask_eq_exp_minus_1)
qed

lemma pool_room:
  assumes "pool_ok n"
  shows "4 \<le> (2::nat) ^ (32 - prefixLen n)" and "unat (base n) + 2 ^ (32 - prefixLen n) \<le> 2 ^ 32"
proof -
  have "(2::nat) ^ 2 \<le> 2 ^ (32 - prefixLen n)" using assms by (intro power_increasing) (auto simp: pool_ok_def)
  then show four: "4 \<le> (2::nat) ^ (32 - prefixLen n)" by simp
  have "unat (broadcastFor n) < 2 ^ 32" using unsigned_less [of "broadcastFor n"] by simp
  with unat_broadcast [OF assms] four show "unat (base n) + 2 ^ (32 - prefixLen n) \<le> 2 ^ 32" by linarith
qed

lemma unat_base_plus:
  assumes "pool_ok n" "k < 2 ^ (32 - prefixLen n)"
  shows "unat (base n + word_of_nat k) = unat (base n) + k"
proof -
  have "unat (base n) + k < 2 ^ 32" using pool_room [OF assms(1)] assms(2) by linarith
  then have "unat (word_of_nat (unat (base n) + k) :: u32) = unat (base n) + k"
    by (simp add: unat_of_nat del: of_nat_add)
  then show ?thesis by simp
qed

lemma unat_first_host: "pool_ok n \<Longrightarrow> unat (base n + 2) = unat (base n) + 2"
  using unat_base_plus [of n 2] pool_room [of n] by simp

lemma unat_gateway: "pool_ok n \<Longrightarrow> unat (gatewayFor n) = unat (base n) + 1"
  using unat_base_plus [of n 1] pool_room [of n] by (simp add: gatewayFor_def)

lemma alloc_loop_spec:
  assumes "0 < a"
  shows "(alloc_loop b gw t a = 0 \<and> (\<forall>x. a \<le> x \<and> x < b \<longrightarrow> x = gw \<or> x \<in> set t)) \<or>
    (a \<le> alloc_loop b gw t a \<and> alloc_loop b gw t a < b \<and> alloc_loop b gw t a \<noteq> gw \<and>
     alloc_loop b gw t a \<notin> set t \<and> (\<forall>x. a \<le> x \<and> x < alloc_loop b gw t a \<longrightarrow> x = gw \<or> x \<in> set t))"
  using assms
proof (induction b gw t a rule: alloc_loop.induct)
  case (1 b gw t a)
  show ?case
  proof (cases "a < b \<and> (a = gw \<or> a \<in> set t)")
    case True
    then have suc: "0 < a + 1" "\<And>x. a \<le> x \<longleftrightarrow> x = a \<or> a + 1 \<le> x" by unat_arith+
    have eq: "alloc_loop b gw t a = alloc_loop b gw t (a + 1)" using True by (subst alloc_loop.simps) auto
    from True "1.IH" suc(1) show ?thesis unfolding eq suc(2) by blast
  next
    case False
    then have "alloc_loop b gw t a = (if a < b then a else 0)" by (subst alloc_loop.simps) auto
    with False show ?thesis by auto
  qed
qed

lemma in_pool_iff:
  assumes "pool_ok n" "base n \<le> a" "a \<le> broadcastFor n"
  shows "a AND cidr_mask (prefixLen n) = base n"
proof -
  let ?h = "32 - prefixLen n"
  have "unat (base n) \<le> unat a" "unat a < unat (base n) + 2 ^ ?h"
    using assms(2,3) unat_broadcast [OF assms(1)] pool_room [OF assms(1)] by (auto simp: word_le_nat_alt)
  then obtain k where k: "unat a = unat (base n) + k" "k < 2 ^ ?h" by (metis le_Suc_ex nat_add_left_cancel_less)
  have kb: "bit k i \<Longrightarrow> i < ?h" for i
    using k(2) by (metis bit_take_bit_iff take_bit_nat_eq_self)
  have "\<not> bit (unat (base n)) i \<or> \<not> bit k i" for i
    using pool_base_bit [OF assms(1), of i] kb [of i] by (auto simp: bit_unsigned_iff)
  then have "unat a = unat (base n) OR k" using k(1) by (simp add: disjunctive_add)
  then have "bit (unat a) i = (bit (unat (base n)) i \<or> bit k i)" for i by (simp add: bit_or_iff)
  then have "bit a i = (bit (base n) i \<or> bit k i)" for i by (simp add: bit_unsigned_iff)
  with kb show ?thesis
    using pool_base_bit [OF assms(1)] assms(1)
    by (intro bit_word_eqI) (auto simp: bit_and_iff cidr_mask_bit pool_ok_def not_less [symmetric])
qed

lemma host_range:
  assumes "pool_ok pool"
  shows "base pool + 2 \<le> x \<longleftrightarrow> gatewayFor pool < x" and "0 < base pool + 2"
  using unat_first_host [OF assms] unat_gateway [OF assms]
  by (simp_all add: word_le_nat_alt word_less_nat_alt Suc_le_eq)

lemma allocateNext_spec:
  assumes "pool_ok pool"
  shows "(allocateNext pool taken = 0 \<and>
      (\<forall>x. gatewayFor pool < x \<and> x < broadcastFor pool \<longrightarrow> x \<in> set taken)) \<or>
    (gatewayFor pool < allocateNext pool taken \<and> allocateNext pool taken < broadcastFor pool \<and>
     allocateNext pool taken \<notin> set taken \<and>
     (\<forall>x. gatewayFor pool < x \<and> x < allocateNext pool taken \<longrightarrow> x \<in> set taken))"
  using alloc_loop_spec [OF host_range(2) [OF assms], of "broadcastFor pool" "gatewayFor pool" taken]
  unfolding allocateNext_def host_range(1) [OF assms] by auto

text \<open>The number of host addresses of a pool.\<close>

lemma host_addresses:
  assumes "pool_ok pool"
  shows "unat ` {x. gatewayFor pool < x \<and> x < broadcastFor pool} =
    {unat (base pool) + 2 ..< unat (base pool) + (2 ^ (32 - prefixLen pool) - 1)}" (is "_ = ?I")
proof (intro set_eqI iffI)
  fix k assume k: "k \<in> ?I"
  with pool_room [OF assms] have "k < 2 ^ 32" by simp linarith
  then have "unat (word_of_nat k :: u32) = k" by (simp add: unat_of_nat)
  with k unat_gateway [OF assms] unat_broadcast [OF assms]
  show "k \<in> unat ` {x. gatewayFor pool < x \<and> x < broadcastFor pool}"
    by (intro image_eqI [of _ _ "word_of_nat k"]) (auto simp: word_less_nat_alt)
qed (auto simp: word_less_nat_alt unat_gateway [OF assms] unat_broadcast [OF assms])

lemma allocateNext_room:
  assumes "pool_ok pool" "length taken < 2 ^ (32 - prefixLen pool) - 3"
  shows "allocateNext pool taken \<noteq> 0"
proof
  let ?H = "{x. gatewayFor pool < x \<and> x < broadcastFor pool}"
  assume "allocateNext pool taken = 0"
  with allocateNext_spec [OF assms(1), of taken] have "?H \<subseteq> set taken" by auto
  then have "card ?H \<le> length taken" by (meson List.finite_set card_length card_mono order_trans)
  moreover have "2 ^ (32 - prefixLen pool) - 3 \<le> card ?H"
    using card_image_le [of ?H unat] by (simp add: host_addresses [OF assms(1)])
  ultimately show False using assms(2) by simp
qed

text \<open>
  C11. On every pool \<^const>\<open>parseCidr\<close> accepts, \<^const>\<open>allocateNext\<close> is the least free
  host address: a non-zero result lies strictly between the gateway and the broadcast address,
  belongs to the pool's network and is not in use; the result is 0 exactly when every host
  address is taken, and that cannot happen with fewer than \<^verbatim>\<open>2^(32-prefix) - 3\<close> leases.
\<close>

theorem allocateNext_correct:
  assumes "parseCidr cidr = Inr pool"
  shows "(allocateNext pool taken \<noteq> 0 \<longrightarrow>
            gatewayFor pool < allocateNext pool taken \<and> allocateNext pool taken < broadcastFor pool \<and>
            allocateNext pool taken \<notin> set taken \<and>
            allocateNext pool taken AND cidr_mask (prefixLen pool) = base pool \<and>
            (\<forall>x. gatewayFor pool < x \<and> x < allocateNext pool taken \<longrightarrow> x \<in> set taken)) \<and>
         (allocateNext pool taken = 0 \<longleftrightarrow>
            (\<forall>x. gatewayFor pool < x \<and> x < broadcastFor pool \<longrightarrow> x \<in> set taken)) \<and>
         (length taken < 2 ^ (32 - prefixLen pool) - 3 \<longrightarrow> allocateNext pool taken \<noteq> 0)"
proof -
  have ok: "pool_ok pool" using assms by (rule parseCidr_ok)
  have "allocateNext pool taken AND cidr_mask (prefixLen pool) = base pool"
    if "gatewayFor pool < allocateNext pool taken" "allocateNext pool taken < broadcastFor pool"
    using that unat_gateway [OF ok]
    by (intro in_pool_iff [OF ok]) (auto simp: word_le_nat_alt word_less_nat_alt)
  then show ?thesis
    using allocateNext_spec [OF ok, of taken] allocateNext_room [OF ok, of taken] by auto
qed

lemma parseIp_10_66: "parseIp ''10.66.0.0'' = Inr 0x0A420000"
  using parseIp_quad [of 10 66 0 0] by (simp add: quad_text_def dec.simps quad_def octet_word_def)

lemma pool_10_66: "parseCidr ''10.66.0.0/24'' = Inr \<lparr>base = 0x0A420000, prefixLen = 24\<rparr>"
proof -
  have "cut_at (CHR ''/'') ''10.66.0.0/24'' = Some (''10.66.0.0'', ''24'')" by simp
  moreover have "list_all is_digit ''24''" by (simp add: is_digit_def)
  moreover have "cidr_prefix_loop 0 ''24'' = Inr 24" by (simp add: digit_val_def)
  moreover have "0x0A420000 AND cidr_mask 24 = (0x0A420000 :: u32)" by (simp add: cidr_mask_def)
  ultimately show ?thesis by (simp add: parseCidr_def parseIp_10_66 del: cut_at.simps cidr_prefix_loop.simps)
qed

theorem allocateNext_correct_witness:
  "parseCidr ''10.66.0.0/24'' = Inr \<lparr>base = 0x0A420000, prefixLen = 24\<rparr> \<and>
   allocateNext \<lparr>base = 0x0A420000, prefixLen = 24\<rparr> [0x0A420002, 0x0A420003] \<noteq> 0"
proof (rule conjI [OF pool_10_66])
  have "length [0x0A420002, 0x0A420003 :: u32] < 2 ^ (32 - prefixLen \<lparr>base = 0x0A420000, prefixLen = 24\<rparr>) - 3"
    by simp
  with allocateNext_correct [OF pool_10_66, THEN conjunct2, THEN conjunct2]
  show "allocateNext \<lparr>base = 0x0A420000, prefixLen = 24\<rparr> [0x0A420002, 0x0A420003] \<noteq> 0"
    by (rule mp)
qed

text \<open>
  A lease with a valid name survives the lease file: parsing the line
  \<^const>\<open>formatLeaseLine\<close> writes gives the same lease, whatever its address.
\<close>

theorem lease_line_roundtrip:
  assumes "nameLooksValid (l_name l)"
  shows "parseLeaseLine (formatLeaseLine l) = Inr l"
proof -
  have name: "\<not> has_ws (l_name l)" "CHR '' '' \<notin> set (l_name l)"
    using assms by (auto simp: nameLooksValid_def has_ws_def list_all_iff list_ex_iff is_alnum_def)
  have "c \<in> set (formatIp (l_ip l)) \<Longrightarrow> is_digit c \<or> c = CHR ''.''" for c
    by (auto simp: formatIp_def dest: dec_char_digit)
  then have "\<not> has_ws (formatIp (l_ip l))"
    by (fastforce simp: has_ws_def list_ex_iff is_digit_def)
  with name assms show ?thesis by (simp add: parseLeaseLine_def formatLeaseLine_def)
qed

theorem lease_line_roundtrip_witness:
  "nameLooksValid ''jail-web-0a1b2c3d'' \<and>
   parseLeaseLine (formatLeaseLine \<lparr>l_name = ''jail-web-0a1b2c3d'', l_ip = 0x0A420002\<rparr>) =
     Inr \<lparr>l_name = ''jail-web-0a1b2c3d'', l_ip = 0x0A420002\<rparr>"
proof -
  have "nameLooksValid ''jail-web-0a1b2c3d''" by code_simp
  then show ?thesis
    using lease_line_roundtrip [of "\<lparr>l_name = ''jail-web-0a1b2c3d'', l_ip = 0x0A420002\<rparr>"] by simp
qed

end
