(* ===== verification/Rctl.thy ===== *)
theory Rctl
  imports Prelude
begin

text \<open>
  Resource limits and mount options: \<^verbatim>\<open>lib/retune_pure.cpp\<close> (the rctl key whitelist, value
  shapes, size parser, argument vectors), \<^verbatim>\<open>lib/per_user_rctl_pure.cpp\<close> (loginclass names and
  rule strings) and \<^verbatim>\<open>lib/mounts_pure.cpp\<close> (tmpfs options and shares).
  A signed \<^verbatim>\<open>long\<close> that overflows is undefined in the language; the model writes the
  two's-complement value of a 64-bit target out with \<^verbatim>\<open>wrap64\<close>.
\<close>

definition wrap64 :: "int \<Rightarrow> int" where
  "wrap64 x = (x + 2 ^ 63) mod 2 ^ 64 - 2 ^ 63"

text \<open>Division of C++ integers, which truncates toward zero.\<close>

definition cdiv :: "int \<Rightarrow> int \<Rightarrow> int" where
  "cdiv n d = (if (n < 0) = (d < 0) then abs n div abs d else - (abs n div abs d))"

lemma wrap64_id [simp]: "- (2 ^ 63) \<le> x \<Longrightarrow> x < 2 ^ 63 \<Longrightarrow> wrap64 x = x"
  by (simp add: wrap64_def)

section \<open>rctl keys and values\<close>

record rctl_pair =
  rp_key :: string
  rp_value :: string

definition percentKeys :: "string list" where
  "percentKeys = [''pcpu'']"

definition byteKeys :: "string list" where
  "byteKeys = [''memoryuse'', ''vmemoryuse'', ''readbps'', ''writebps'', ''swapuse'', ''stacksize'',
     ''datasize'', ''memorylocked'', ''shmsize'']"

definition intKeys :: "string list" where
  "intKeys = [''readiops'', ''writeiops'', ''maxproc'', ''openfiles'', ''nthr'', ''cpuset'']"

definition isAllDigits :: "string \<Rightarrow> bool" where
  "isAllDigits s \<longleftrightarrow> s \<noteq> [] \<and> list_all is_digit s"

fun acc_long :: "int \<Rightarrow> string \<Rightarrow> int" where
  "acc_long n [] = n"
| "acc_long n (c # cs) = acc_long (wrap64 (wrap64 (n * 10) + int (digit_val c))) cs"

definition isInt0to100 :: "string \<Rightarrow> bool" where
  "isInt0to100 s \<longleftrightarrow> isAllDigits s \<and> acc_long 0 s \<le> 100"

definition is_size_suffix :: "char \<Rightarrow> bool" where
  "is_size_suffix c \<longleftrightarrow> c \<in> {CHR ''K'', CHR ''k'', CHR ''M'', CHR ''m'', CHR ''G'', CHR ''g'', CHR ''T'', CHR ''t''}"

fun human_loop :: "bool \<Rightarrow> bool \<Rightarrow> string \<Rightarrow> bool" where
  "human_loop sawDot sawDigit [] = sawDigit"
| "human_loop sawDot sawDigit (c # cs) =
     (if is_digit c then human_loop sawDot True cs
      else if c = CHR ''.'' \<and> \<not> sawDot then human_loop True sawDigit cs
      else False)"

definition isHumanSize :: "string \<Rightarrow> bool" where
  "isHumanSize s \<longleftrightarrow> s \<noteq> [] \<and>
     (let body = (if is_size_suffix (last s) then butlast s else s) in body \<noteq> [] \<and> human_loop False False body)"

definition validateRctlKey :: "string \<Rightarrow> err" where
  "validateRctlKey key =
     (if key = [] then ''rctl key is empty''
      else if key \<in> set percentKeys \<or> key \<in> set byteKeys \<or> key \<in> set intKeys then []
      else ''unknown rctl key '' @ quoted key @ ''; supported: pcpu, '' @
        ''memoryuse, vmemoryuse, readbps, writebps, readiops, '' @
        ''writeiops, maxproc, openfiles, nthr, swapuse'')"

definition validateRctlValue :: "string \<Rightarrow> string \<Rightarrow> err" where
  "validateRctlValue key rawValue =
     (if rawValue = [] then ''value for '' @ quoted key @ '' is empty''
      else if length rawValue > 32 then ''value for '' @ quoted key @ '' is unreasonably long''
      else if key \<in> set percentKeys then
        (if \<not> isInt0to100 rawValue
         then ''value for '' @ quoted key @ '' must be an integer 0..100, got '' @ quoted rawValue else [])
      else if key \<in> set byteKeys then
        (if \<not> isHumanSize rawValue
         then ''value for '' @ quoted key @ '' must be a number with optional K/M/G/T suffix, got '' @ quoted rawValue
         else [])
      else if key \<in> set intKeys then
        (if \<not> isAllDigits rawValue
         then ''value for '' @ quoted key @ '' must be a non-negative integer, got '' @ quoted rawValue else [])
      else ''value validation: unknown key class for '' @ quoted key)"

fun validatePairs_loop :: "nat \<Rightarrow> rctl_pair list \<Rightarrow> err" where
  "validatePairs_loop i [] = []"
| "validatePairs_loop i (p # ps) =
     check_pfx (''rctl['' @ dec i @ '']: '') (validateRctlKey (rp_key p))
       (check_pfx (''rctl['' @ dec i @ '']: '') (validateRctlValue (rp_key p) (rp_value p))
          (validatePairs_loop (Suc i) ps))"

definition validatePairs :: "rctl_pair list \<Rightarrow> err" where
  "validatePairs pairs =
     fail_if (pairs = []) ''at least one --rctl KEY=VALUE pair is required'' (validatePairs_loop 0 pairs)"

section \<open>Sizes\<close>

definition size_mult :: "char \<Rightarrow> int" where
  "size_mult c =
     (if c = CHR ''K'' \<or> c = CHR ''k'' then 1024
      else if c = CHR ''M'' \<or> c = CHR ''m'' then 1024 * 1024
      else if c = CHR ''G'' \<or> c = CHR ''g'' then 1024 * 1024 * 1024
      else if c = CHR ''T'' \<or> c = CHR ''t'' then 1024 * 1024 * 1024 * 1024
      else 1)"

text \<open>The scan over the digits: dot seen, whole part, fraction, number of fraction digits.\<close>

fun size_loop :: "bool \<Rightarrow> int \<Rightarrow> int \<Rightarrow> nat \<Rightarrow> string \<Rightarrow> (int \<times> int \<times> nat) option" where
  "size_loop sawDot whole frac fd [] = Some (whole, frac, fd)"
| "size_loop sawDot whole frac fd (c # cs) =
     (if c = CHR ''.'' then (if sawDot then None else size_loop True whole frac fd cs)
      else if \<not> is_digit c then None
      else if \<not> sawDot then size_loop sawDot (wrap64 (wrap64 (whole * 10) + int (digit_val c))) frac fd cs
      else if Suc fd > 9 then None
      else size_loop sawDot whole (wrap64 (wrap64 (frac * 10) + int (digit_val c))) (Suc fd) cs)"

definition parseHumanSize :: "string \<Rightarrow> int" where
  "parseHumanSize s =
     (if s = [] then - 1
      else let mult = size_mult (last s); body = (if is_size_suffix (last s) then butlast s else s) in
        if body = [] then - 1
        else case size_loop False 0 0 0 body of
          None \<Rightarrow> - 1
        | Some (whole, frac, fd) \<Rightarrow>
          wrap64 (wrap64 (whole * mult) + cdiv (wrap64 (frac * mult)) (10 ^ fd)))"

section \<open>Argument vectors and rule strings\<close>

definition buildSetArgv :: "int \<Rightarrow> rctl_pair \<Rightarrow> string list" where
  "buildSetArgv jid p =
     [''/usr/bin/rctl'', ''-a'', ''jail:'' @ dec_int jid @ '':'' @ rp_key p @ '':deny='' @ rp_value p]"

definition buildClearArgv :: "int \<Rightarrow> string \<Rightarrow> string list" where
  "buildClearArgv jid key = [''/usr/bin/rctl'', ''-r'', ''jail:'' @ dec_int jid @ '':'' @ key @ '':deny'']"

definition buildShowArgv :: "int \<Rightarrow> string list" where
  "buildShowArgv jid = [''/usr/bin/rctl'', ''-u'', ''jail:'' @ dec_int jid]"

text \<open>The digit loop that inserts at the front while the value is positive.\<close>

fun uid_loop :: "nat \<Rightarrow> string \<Rightarrow> string" where
  "uid_loop n out = (if n = 0 then out else uid_loop (n div 10) (digit_char (n mod 10) # out))"

declare uid_loop.simps [simp del]

definition uidStr :: "nat \<Rightarrow> string" where
  "uidStr uid = (if uid = 0 then ''0'' else uid_loop uid [])"

definition intStr :: "int \<Rightarrow> string" where
  "intStr n =
     (if n = 0 then ''0''
      else let m = nat ((if n < 0 then - n else n) mod 2 ^ 32); out = uid_loop m [] in
        if n < 0 then CHR ''-'' # out else out)"

definition loginclassName :: "nat \<Rightarrow> string" where
  "loginclassName uid = ''crate-'' @ uidStr uid"

definition jailSubject :: "int \<Rightarrow> string" where
  "jailSubject jid = ''jail:'' @ intStr jid"

definition loginclassSubject :: "nat \<Rightarrow> string" where
  "loginclassSubject uid = ''loginclass:'' @ loginclassName uid"

definition buildRule :: "string \<Rightarrow> string \<Rightarrow> string \<Rightarrow> string" where
  "buildRule subject key rawValue = subject @ '':'' @ key @ '':deny='' @ rawValue"

definition buildUserUmbrellaRules :: "nat \<Rightarrow> rctl_pair list \<Rightarrow> string list" where
  "buildUserUmbrellaRules uid pairs = map (\<lambda>kv. buildRule (loginclassSubject uid) (rp_key kv) (rp_value kv)) pairs"

text \<open>The message contains a dash outside ASCII, written as its three UTF-8 bytes.\<close>

definition validateLoginclassName :: "string \<Rightarrow> err" where
  "validateLoginclassName name =
     (let tail = drop 6 name in
      if length name \<le> 6
      then ''loginclass too short '' @ [CHR 0xE2, CHR 0x80, CHR 0x94] @ '' expected '' @ quoted ''crate-<uid>''
      else if \<not> starts_with ''crate-'' name then ''loginclass missing '' @ quoted ''crate-'' @ '' prefix''
      else if tail = [] then ''loginclass missing uid suffix''
      else if length tail > 10 then ''loginclass uid suffix too long (>10 chars)''
      else if length tail > 1 \<and> hd tail = CHR ''0'' then ''loginclass uid suffix has leading zero''
      else if \<not> list_all is_digit tail then ''loginclass uid suffix is not all digits''
      else [])"

section \<open>Mount options\<close>

definition ends_with :: "string \<Rightarrow> string \<Rightarrow> bool" where
  "ends_with t path \<longleftrightarrow> length path > length t \<and> drop (length path - length t) path = t"

text \<open>Returns the flag and the stripped path.\<close>

definition splitRoSuffix :: "string \<Rightarrow> bool \<times> string" where
  "splitRoSuffix path =
     (if ends_with '':ro'' path then (True, take (length path - 3) path)
      else if ends_with '':rw'' path then (False, take (length path - 3) path)
      else (False, path))"

definition parseRoFlag :: "string \<Rightarrow> bool res" where
  "parseRoFlag f =
     (if f = ''ro'' then Inr True else if f = ''rw'' then Inr False
      else Inl (''the third element of a share must be '' @ quoted ''ro'' @ '' or '' @ quoted ''rw'' @ '', got '' @ quoted f))"

text \<open>Position by position: digits, and one suffix letter at the end after at least one digit.\<close>

fun tmpfs_loop :: "nat \<Rightarrow> string \<Rightarrow> nat option" where
  "tmpfs_loop digits [] = Some digits"
| "tmpfs_loop digits (c # cs) =
     (if is_digit c then tmpfs_loop (Suc digits) cs
      else if cs = [] \<and> digits > 0 \<and> c \<in> {CHR ''k'', CHR ''K'', CHR ''m'', CHR ''M'', CHR ''g'', CHR ''G''}
      then tmpfs_loop digits cs
      else None)"

definition validateTmpfsSize :: "string \<Rightarrow> err" where
  "validateTmpfsSize sz =
     (if sz = [] then []
      else if length sz > 20 then ''tmpfs size longer than 20 chars''
      else case tmpfs_loop 0 sz of
        None \<Rightarrow> ''tmpfs size must be digits with an optional k/m/g suffix, got '' @ quoted sz
      | Some digits \<Rightarrow>
        if digits = 0 then ''tmpfs size has no digits''
        else if \<not> list_ex (\<lambda>c. CHR ''1'' \<le> c \<and> c \<le> CHR ''9'') sz then ''tmpfs size must be greater than zero''
        else [])"

text \<open>The components of \<^verbatim>\<open>/a/b\<close>: everything after the first character, split at slashes.\<close>

definition components :: "string \<Rightarrow> string list" where
  "components path = (if path = [] then [] else split_on (CHR ''/'') (tl path))"

definition tmpfs_forbidden :: "string list" where
  "tmpfs_forbidden = [''/dev'', ''/proc'', ''/etc'', ''/bin'', ''/sbin'', ''/lib'', ''/libexec'',
     ''/usr'', ''/usr/local'', ''/var/run'', ''/usr/local/etc'']"

definition HOME :: string where
  "HOME = [CHR 0x24] @ ''HOME''"

text \<open>The checks after the optional \<^verbatim>\<open>$HOME\<close> has been stripped.\<close>

definition validateTmpfsPath_rest :: "string \<Rightarrow> bool \<Rightarrow> string \<Rightarrow> err" where
  "validateTmpfsPath_rest pathIn underHome p =
     fail_if (p = [] \<or> hd p \<noteq> CHR ''/'') (''tmpfs path must be absolute (or start with '' @ HOME @ ''/): '' @ pathIn)
     (fail_if (p = ''/'') ''tmpfs on / is not allowed''
     (fail_if (last p = CHR ''/'') (''tmpfs path must not end with '' @ quoted ''/'' @ '': '' @ pathIn)
     (fail_if (list_ex (\<lambda>c. c = [] \<or> c = ''.'' \<or> c = ''..'') (components p))
        (''tmpfs path must be normalised (no empty, '' @ quoted ''.'' @ '' or '' @ quoted ''..'' @ '' components): '' @ pathIn)
     (if underHome then []
      else case List.find (\<lambda>f. p = f) tmpfs_forbidden of
        Some f \<Rightarrow> ''tmpfs on '' @ f @ '' would hide the jail'' @ [CHR 0x27] @ ''s own files''
      | None \<Rightarrow> []))))"

definition validateTmpfsPath :: "string \<Rightarrow> err" where
  "validateTmpfsPath pathIn =
     (if pathIn = [] then ''tmpfs path is empty''
      else if starts_with HOME pathIn then
        if length pathIn = 5 then ''tmpfs on '' @ HOME @ '' itself is not allowed (it would hide the home directory)''
        else if pathIn ! 5 \<noteq> CHR ''/''
        then ''tmpfs path must start with '' @ quoted ''/'' @ '' or '' @ quoted (HOME @ ''/'')
        else validateTmpfsPath_rest pathIn True (drop 5 pathIn)
      else validateTmpfsPath_rest pathIn False pathIn)"

definition validateEtcKeepName :: "string \<Rightarrow> err" where
  "validateEtcKeepName name =
     (if name = [] then ''etc/keep entry is empty''
      else if length name > 128 then ''etc/keep entry longer than 128 chars''
      else if name = ''.'' \<or> name = ''..'' then ''etc/keep entry '' @ quoted name @ '' is not a file name''
      else if \<not> list_all (\<lambda>c. is_alnum c \<or> c \<in> {CHR ''.'', CHR ''_'', CHR ''-'', CHR ''+'', CHR ''@''}) name
      then ''etc/keep entry '' @ quoted name @
        '': only a plain name under /etc is allowed (letters, digits, . _ - + @)''
      else [])"

definition isUnder :: "string \<Rightarrow> string \<Rightarrow> bool" where
  "isUnder path dir =
     (if dir = [] then False
      else if dir = ''/'' then path \<noteq> [] \<and> hd path = CHR ''/''
      else slash_under dir path)"

definition tmpfsMountedBeforeGui :: "string \<Rightarrow> bool" where
  "tmpfsMountedBeforeGui tmpfsPath =
     list_ex (\<lambda>dir. isUnder dir tmpfsPath) [''/tmp/.X11-unix'', ''/tmp/wayland'']"

definition tmpfsParams :: "string \<Rightarrow> bool \<Rightarrow> nat \<Rightarrow> nat \<Rightarrow> (string \<times> string) list" where
  "tmpfsParams sz underHome uid gid =
     (if sz \<noteq> [] then [(''size'', sz)] else []) @
     (if underHome then [(''uid'', dec uid), (''gid'', dec gid), (''mode'', ''0700'')] else [(''mode'', ''01777'')])"

definition validateDecimal :: "string \<Rightarrow> string \<Rightarrow> err" where
  "validateDecimal s what =
     (if s = [] then what @ '' is empty''
      else if length s > 10 then what @ '' longer than 10 digits''
      else if \<not> list_all is_digit s then what @ '' must be decimal digits''
      else [])"

definition validateOctalMode :: "string \<Rightarrow> err" where
  "validateOctalMode mode =
     (if length mode < 3 \<or> length mode > 5 then ''mode must be 3..5 octal digits''
      else if \<not> list_all (\<lambda>c. CHR ''0'' \<le> c \<and> c \<le> CHR ''7'') mode then ''mode must be octal digits''
      else [])"

section \<open>Loginclass names and rule strings\<close>

lemma uid_loop_dec: "0 < n \<Longrightarrow> uid_loop n out = dec n @ out"
proof (induction n out rule: uid_loop.induct)
  case (1 n out)
  show ?case
  proof (cases "n < 10")
    case True
    with 1 show ?thesis by (simp add: uid_loop.simps [of n] uid_loop.simps [of 0] dec.simps)
  next
    case False
    with 1 have "uid_loop (n div 10) (digit_char (n mod 10) # out) = dec (n div 10) @ digit_char (n mod 10) # out" by simp
    with False show ?thesis by (simp add: uid_loop.simps [of n] dec.simps [of n])
  qed
qed

lemma uidStr_dec [simp]: "uidStr uid = dec uid"
  by (simp add: uidStr_def uid_loop_dec dec.simps [of 0])

lemma intStr_dec_int:
  assumes "- (2 ^ 31) \<le> n" "n < 2 ^ 31" shows "intStr n = dec_int n"
proof -
  have "n mod 4294967296 = n" if "0 < n" using that assms by (intro mod_pos_pos_trivial) simp_all
  moreover have "(- n) mod 4294967296 = - n" if "n < 0" using that assms by (intro mod_pos_pos_trivial) simp_all
  ultimately show ?thesis
    using dec.simps [of 0] by (auto simp: intStr_def dec_int_def Let_def uid_loop_dec)
qed

lemma loginclassName_inj [simp]: "loginclassName u = loginclassName v \<longleftrightarrow> u = v"
  by (simp add: loginclassName_def)

lemma validateLoginclassName_iff:
  "validateLoginclassName n = [] \<longleftrightarrow> (\<exists>u. u < 10 ^ 10 \<and> n = loginclassName u)"
proof
  assume n: "validateLoginclassName n = []"
  let ?t = "drop 6 n"
  from n have pre: "starts_with ''crate-'' n" and t: "?t \<noteq> []" "length ?t \<le> 10" "list_all is_digit ?t"
    "hd ?t \<noteq> CHR ''0'' \<or> length ?t = 1"
    by (auto simp: validateLoginclassName_def Let_def not_less split: if_splits)
  from pre have "n = ''crate-'' @ ?t" by (auto simp: starts_with_iff)
  moreover have "dec (dec_val ?t) = ?t" using t by (intro dec_dec_val)
  moreover have "dec_val ?t < 10 ^ 10"
    using dec_val_bound [OF t(3)] power_increasing [OF t(2), of "10::nat"] by simp
  ultimately show "\<exists>u. u < 10 ^ 10 \<and> n = loginclassName u"
    by (intro exI [of _ "dec_val ?t"]) (simp add: loginclassName_def)
next
  assume "\<exists>u. u < 10 ^ 10 \<and> n = loginclassName u"
  then obtain u where u: "u < 10 ^ 10" "n = ''crate-'' @ dec u" by (auto simp: loginclassName_def)
  have "dec u = ''0''" if "hd (dec u) = CHR ''0''" using that dec_hd_zero [of u] dec.simps [of 0] by simp
  with u dec_length_le [of u 10] show "validateLoginclassName n = []"
    by (cases "hd (dec u) = CHR ''0''")
      (auto simp: validateLoginclassName_def Let_def starts_with_def not_less is_digit_def)
qed

text \<open>
  The loginclass whitelist. A name is accepted exactly when it is the umbrella name
  \<^verbatim>\<open>crate-<n>\<close> of a number below \<^verbatim>\<open>10^10\<close> in canonical decimal, so every 32-bit uid's name is
  accepted, no two uids share a name, and a name carries exactly one number. (Numbers between
  \<^verbatim>\<open>2^32\<close> and \<^verbatim>\<open>10^10\<close> are accepted although they are the name of no uid.)
\<close>

theorem loginclass_whitelist:
  "(validateLoginclassName n = [] \<longleftrightarrow> (\<exists>u. u < 10 ^ 10 \<and> n = loginclassName u)) \<and>
   (loginclassName u = loginclassName v \<longleftrightarrow> u = v) \<and>
   validateLoginclassName (loginclassName 9999999999) = []"
  using validateLoginclassName_iff by simp

definition rule_char :: "char \<Rightarrow> bool" where
  "rule_char c \<longleftrightarrow> c \<noteq> CHR '':'' \<and> c \<noteq> CHR ''='' \<and> c \<noteq> CHR ''/'' \<and> c \<noteq> CHR '' '' \<and> c \<noteq> CHR 0x0A"

lemma digit_rule_char: "is_digit c \<Longrightarrow> rule_char c"
  by (auto simp: is_digit_def rule_char_def)

lemma dot_rule_char: "rule_char (CHR ''.'')"
  by (simp add: rule_char_def)

lemma human_loop_chars: "human_loop d g s \<Longrightarrow> list_all rule_char s"
  by (induction d g s rule: human_loop.induct) (auto simp: digit_rule_char dot_rule_char split: if_splits)

lemma isHumanSize_chars: "isHumanSize s \<Longrightarrow> list_all rule_char s"
proof -
  assume s: "isHumanSize s"
  then have ne: "s \<noteq> []" by (simp add: isHumanSize_def)
  show ?thesis
  proof (cases "is_size_suffix (last s)")
    case True
    with s have "list_all rule_char (butlast s)" by (auto simp: isHumanSize_def Let_def dest: human_loop_chars)
    moreover have "rule_char (last s)" using True by (auto simp: is_size_suffix_def rule_char_def)
    ultimately have "list_all rule_char (butlast s @ [last s])" by simp
    with ne show ?thesis by (metis append_butlast_last_id)
  next
    case False
    with s show ?thesis by (auto simp: isHumanSize_def Let_def dest: human_loop_chars)
  qed
qed

lemma all_digits_chars: "isAllDigits s \<Longrightarrow> list_all rule_char s"
  by (auto simp: isAllDigits_def list_all_iff digit_rule_char)

lemma rctl_value_chars: "validateRctlValue k v = [] \<Longrightarrow> v \<noteq> [] \<and> list_all rule_char v"
  by (auto simp: validateRctlValue_def isInt0to100_def intro: isHumanSize_chars all_digits_chars split: if_splits)

lemma rctl_key_chars: "validateRctlKey k = [] \<Longrightarrow> k \<noteq> [] \<and> list_all rule_char k"
  by (auto simp: validateRctlKey_def percentKeys_def byteKeys_def intKeys_def rule_char_def split: if_splits)

lemma rule_char_colon: "list_all rule_char s \<Longrightarrow> CHR '':'' \<notin> set s"
  by (auto simp: list_all_iff rule_char_def)

text \<open>
  No injection into rctl rules. For a key and value the validators accept, the rule string
  handed to rctl(8) splits at its colons into exactly subject kind, subject id, key and
  \<^verbatim>\<open>deny=value\<close>: neither field can smuggle in another column, for a jail rule and for the
  per-user umbrella rule alike.
\<close>

theorem rctl_rule_fields:
  assumes "validateRctlKey k = []" "validateRctlValue k v = []" "- (2 ^ 31) \<le> jid" "jid < 2 ^ 31"
  shows "split_on (CHR '':'') (buildRule (jailSubject jid) k v) = [''jail'', dec_int jid, k, ''deny='' @ v] \<and>
         split_on (CHR '':'') (buildRule (loginclassSubject uid) k v) = [''loginclass'', loginclassName uid, k, ''deny='' @ v] \<and>
         last (buildSetArgv jid \<lparr>rp_key = k, rp_value = v\<rparr>) = buildRule (jailSubject jid) k v"
proof -
  have k: "CHR '':'' \<notin> set k" and v: "CHR '':'' \<notin> set (''deny='' @ v)"
    using rctl_key_chars [OF assms(1)] rctl_value_chars [OF assms(2)] rule_char_colon by auto
  have d: "CHR '':'' \<notin> set (dec n)" for n by (rule dec_not_in) (simp add: is_digit_def)
  then have j: "CHR '':'' \<notin> set (dec_int jid)" and l: "CHR '':'' \<notin> set (loginclassName uid)"
    by (auto simp: dec_int_def loginclassName_def)
  have n: "CHR '':'' \<notin> set ''jail''" "CHR '':'' \<notin> set ''loginclass''" by simp_all
  have "buildRule (jailSubject jid) k v = ''jail'' @ CHR '':'' # dec_int jid @ CHR '':'' # k @ CHR '':'' # ''deny='' @ v"
    "buildRule (loginclassSubject uid) k v = ''loginclass'' @ CHR '':'' # loginclassName uid @ CHR '':'' # k @ CHR '':'' # ''deny='' @ v"
    using intStr_dec_int [OF assms(3,4)] by (simp_all add: buildRule_def jailSubject_def loginclassSubject_def)
  then show ?thesis
    using n j l k v intStr_dec_int [OF assms(3,4)]
    by (simp only: split_on_append split_on_no_sep not_False_eq_True)
      (simp add: buildSetArgv_def buildRule_def jailSubject_def)
qed

theorem rctl_rule_fields_witness:
  "split_on (CHR '':'') (buildRule (jailSubject 7) ''memoryuse'' ''2G'') = [''jail'', dec_int 7, ''memoryuse'', ''deny='' @ ''2G'']"
proof -
  have "validateRctlKey ''memoryuse'' = []" by (simp add: validateRctlKey_def byteKeys_def)
  moreover have "validateRctlValue ''memoryuse'' ''2G'' = []"
    by (simp add: validateRctlValue_def percentKeys_def byteKeys_def isHumanSize_def is_size_suffix_def is_digit_def)
  ultimately show ?thesis using rctl_rule_fields [of "''memoryuse''" "''2G''" 7] by simp
qed

section \<open>Percentages\<close>

lemma acc_long_exact:
  "list_all is_digit s \<Longrightarrow> v * 10 ^ length s + dec_val s < 2 ^ 63 \<Longrightarrow>
     acc_long (int v) s = int (v * 10 ^ length s + dec_val s)"
proof (induction s arbitrary: v)
  case Nil
  then show ?case by simp
next
  case (Cons c cs)
  have eq: "v * 10 ^ length (c # cs) + dec_val (c # cs) =
      (v * 10 + digit_val c) * 10 ^ length cs + dec_val cs"
    by (simp add: dec_val_Cons algebra_simps)
  have "v * 10 + digit_val c \<le> (v * 10 + digit_val c) * 10 ^ length cs" by simp
  with Cons.prems(2) eq have lt: "v * 10 + digit_val c < 2 ^ 63" by linarith
  then have "wrap64 (wrap64 (int v * 10) + int (digit_val c)) = int (v * 10 + digit_val c)" by simp
  with Cons eq show ?case by (simp del: of_nat_add of_nat_mult)
qed

text \<open>
  The percentage check is exact while the accumulator cannot overflow: a value of at most 18
  characters passes for \<^verbatim>\<open>pcpu\<close> exactly when it is a decimal numeral of value at most 100. The
  length limit of the validator is 32, though, and beyond 18 digits the signed accumulator can
  overflow: on a 64-bit two's-complement target \<^verbatim>\<open>9223372036854775808\<close> passes as a percentage.
\<close>

theorem percentage_check:
  "(length v \<le> 18 \<longrightarrow> (validateRctlValue ''pcpu'' v = [] \<longleftrightarrow> all_digits v \<and> dec_val v \<le> 100)) \<and>
   validateRctlValue ''pcpu'' ''9223372036854775808'' = []"
proof (intro conjI impI)
  assume len: "length v \<le> 18"
  have "acc_long 0 v = int (dec_val v)" if d: "list_all is_digit v"
  proof -
    have "dec_val v < 10 ^ length v" using d by (rule dec_val_bound)
    also have "\<dots> \<le> 10 ^ 18" using len by (intro power_increasing) simp_all
    finally show ?thesis using acc_long_exact [OF d, of 0] by simp
  qed
  with len show "validateRctlValue ''pcpu'' v = [] \<longleftrightarrow> all_digits v \<and> dec_val v \<le> 100"
    by (auto simp: validateRctlValue_def percentKeys_def isInt0to100_def isAllDigits_def all_digits_def)
next
  show "validateRctlValue ''pcpu'' ''9223372036854775808'' = []"
    by (simp add: validateRctlValue_def percentKeys_def isInt0to100_def isAllDigits_def is_digit_def digit_val_def wrap64_def)
qed

theorem percentage_check_witness:
  "validateRctlValue ''pcpu'' ''75'' = [] \<longleftrightarrow> all_digits ''75'' \<and> dec_val ''75'' \<le> 100"
  using percentage_check [of "''75''"] by simp

section \<open>tmpfs sizes\<close>

definition size_unit :: "char \<Rightarrow> bool" where
  "size_unit c \<longleftrightarrow> c \<in> {CHR ''k'', CHR ''K'', CHR ''m'', CHR ''M'', CHR ''g'', CHR ''G''}"

lemma tmpfs_loop_digits: "list_all is_digit ds \<Longrightarrow> tmpfs_loop n (ds @ s) = tmpfs_loop (n + length ds) s"
  by (induction ds arbitrary: n) auto

lemma size_unit_not_digit: "size_unit c \<Longrightarrow> \<not> is_digit c \<and> \<not> (CHR ''1'' \<le> c \<and> c \<le> CHR ''9'')"
  by (auto simp: size_unit_def is_digit_def)

lemma tmpfs_loop_unit: "size_unit c \<Longrightarrow> 0 < n \<Longrightarrow> tmpfs_loop n [c] = Some n"
  using size_unit_not_digit [of c] by (simp add: size_unit_def)

lemma tmpfs_loop_Some:
  "tmpfs_loop n s = Some d \<Longrightarrow>
     (list_all is_digit s \<and> d = n + length s) \<or>
     (\<exists>ds c. s = ds @ [c] \<and> list_all is_digit ds \<and> 0 < n + length ds \<and> d = n + length ds \<and> size_unit c)"
proof (induction n s rule: tmpfs_loop.induct)
  case (2 n c cs)
  show ?case
  proof (cases "is_digit c")
    case True
    with 2 have "(list_all is_digit cs \<and> d = Suc n + length cs) \<or>
      (\<exists>ds e. cs = ds @ [e] \<and> list_all is_digit ds \<and> 0 < Suc n + length ds \<and> d = Suc n + length ds \<and> size_unit e)"
      by simp
    then show ?thesis
    proof
      assume "\<exists>ds e. cs = ds @ [e] \<and> list_all is_digit ds \<and> 0 < Suc n + length ds \<and> d = Suc n + length ds \<and> size_unit e"
      then obtain ds e where "cs = ds @ [e]" "list_all is_digit ds" "d = Suc n + length ds" "size_unit e" by blast
      with True show ?thesis by (intro disjI2 exI [of _ "c # ds"] exI [of _ e]) simp
    qed (use True in simp)
  next
    case False
    with "2.prems" have "cs = []" "0 < n" "size_unit c" "d = n"
      by (auto simp: size_unit_def split: if_splits)
    then show ?thesis by (intro disjI2 exI [of _ "[]"] exI [of _ c]) simp
  qed
qed simp

lemma nonzero_digit: "is_digit c \<Longrightarrow> CHR ''1'' \<le> c \<and> c \<le> CHR ''9'' \<longleftrightarrow> digit_val c \<noteq> 0"
  by (auto simp: is_digit_code digit_val_def less_eq_char_def)

lemma dec_val_zero: "list_all is_digit ds \<Longrightarrow> dec_val ds = 0 \<longleftrightarrow> (\<forall>c \<in> set ds. digit_val c = 0)"
  by (induction ds rule: rev_induct) auto

definition has_nonzero :: "string \<Rightarrow> bool" where
  "has_nonzero s \<longleftrightarrow> list_ex (\<lambda>c. CHR ''1'' \<le> c \<and> c \<le> CHR ''9'') s"

lemma has_nonzero_dec_val: "list_all is_digit ds \<Longrightarrow> has_nonzero ds \<longleftrightarrow> dec_val ds \<noteq> 0"
  unfolding has_nonzero_def list_ex_iff dec_val_zero by (metis nonzero_digit list_all_iff)

lemma has_nonzero_append [simp]: "has_nonzero (s @ t) \<longleftrightarrow> has_nonzero s \<or> has_nonzero t"
  by (simp add: has_nonzero_def)

lemma has_nonzero_unit: "size_unit c \<Longrightarrow> \<not> has_nonzero [c]"
  using size_unit_not_digit by (simp add: has_nonzero_def)

text \<open>
  A tmpfs size is accepted exactly when it is empty (no limit) or a positive decimal numeral
  followed by at most one unit letter (k, m or g in either case), in 20 characters or fewer.
\<close>

theorem tmpfs_size_language:
  "validateTmpfsSize s = [] \<longleftrightarrow>
     s = [] \<or> (length s \<le> 20 \<and> (\<exists>ds u. s = ds @ u \<and> all_digits ds \<and> dec_val ds > 0 \<and>
        (u = [] \<or> (\<exists>c. u = [c] \<and> size_unit c))))"
proof (cases "s = [] \<or> length s > 20")
  case True
  then show ?thesis by (auto simp: validateTmpfsSize_def)
next
  case False
  have "validateTmpfsSize s = [] \<longleftrightarrow> (\<exists>d. tmpfs_loop 0 s = Some d \<and> d \<noteq> 0 \<and> has_nonzero s)"
    using False by (auto simp: validateTmpfsSize_def has_nonzero_def split: option.splits)
  also have "\<dots> \<longleftrightarrow> (\<exists>ds u. s = ds @ u \<and> all_digits ds \<and> dec_val ds > 0 \<and> (u = [] \<or> (\<exists>c. u = [c] \<and> size_unit c)))"
    (is "?L \<longleftrightarrow> ?R")
  proof
    assume ?L
    then obtain d where d: "tmpfs_loop 0 s = Some d" "has_nonzero s" by blast
    from tmpfs_loop_Some [OF d(1)] show ?R
    proof
      assume "list_all is_digit s \<and> d = 0 + length s"
      with d False show ?R by (intro exI [of _ s] exI [of _ "[]"]) (simp add: all_digits_def has_nonzero_dec_val)
    next
      assume "\<exists>ds c. s = ds @ [c] \<and> list_all is_digit ds \<and> 0 < 0 + length ds \<and> d = 0 + length ds \<and> size_unit c"
      then obtain ds c where s: "s = ds @ [c]" "list_all is_digit ds" "ds \<noteq> []" "size_unit c" by auto
      with d(2) have "dec_val ds \<noteq> 0" using has_nonzero_unit has_nonzero_dec_val by auto
      with s show ?R by (intro exI [of _ ds] exI [of _ "[c]"]) (auto simp: all_digits_def)
    qed
  next
    assume ?R
    then obtain ds u where s: "s = ds @ u" "list_all is_digit ds" "ds \<noteq> []" "0 < dec_val ds"
      and u: "u = [] \<or> (\<exists>c. u = [c] \<and> size_unit c)"
      by (auto simp: all_digits_def)
    have "tmpfs_loop 0 s = Some (length ds)"
      using u s tmpfs_loop_digits [OF s(2), of 0] tmpfs_loop_unit [of _ "length ds"] by auto
    moreover have "has_nonzero s" using s has_nonzero_dec_val by simp
    ultimately show ?L using s(3) by simp
  qed
  finally show ?thesis using False by auto
qed

end
