(* ===== verification/PrivOps.thy ===== *)
theory PrivOps
  imports IpAlloc Rctl
begin

text \<open>
  The privileged-operations contract, \<^verbatim>\<open>lib/privops_pure.{h,cpp}\<close>: the closed set of verbs and
  their wire tokens, one request record per verb, and the validators the daemon runs on every
  request before anything else sees it. A validator returns the empty string for an acceptable
  request and the message of the source otherwise, checks in the order of the source.
  \<^verbatim>\<open>long\<close> is \<^typ>\<open>int\<close> and \<^verbatim>\<open>unsigned\<close> is \<^typ>\<open>nat\<close> in the records: validators only compare them.
\<close>

section \<open>Verbs\<close>

datatype verb =
    Unknown
  | CreateJail
  | DestroyJail
  | MountNullfs
  | UnmountNullfs
  | SetRctl
  | ClearRctl
  | AttachZfs
  | DetachZfs
  | ConfigureIface
  | TeardownIface
  | AddPfRule
  | RemovePfRule
  | AddIpfwRule
  | RemoveIpfwRule
  | SetIfaceUp
  | DisableIfaceOffload
  | BridgeAddMember
  | BridgeDelMember
  | SetIfaceInetAddr
  | CreateEpair
  | EnsureUserRoot
  | SetLoginclassRctl
  | ClearLoginclassRctl
  | ReclaimIfaceFromVnet
  | FlushPfAnchor
  | QueryJailRctl
  | ConfigureIpfwNat
  | SetJailCpuset
  | ApplyDevfsRuleset
  | AddDevfsUnhideRule
  | SignalJail
  | ExecInJail
  | SetIfaceMac
  | DeleteIpfwNat
  | CreateBridge
  | AcquireFwLease
  | ReleaseFwLease
  | ApplyDevfsRules
  | MountTmpfs

fun verbName :: "verb \<Rightarrow> string" where
  "verbName CreateJail = ''create_jail''"
| "verbName DestroyJail = ''destroy_jail''"
| "verbName MountNullfs = ''mount_nullfs''"
| "verbName UnmountNullfs = ''unmount_nullfs''"
| "verbName SetRctl = ''set_rctl''"
| "verbName ClearRctl = ''clear_rctl''"
| "verbName AttachZfs = ''attach_zfs''"
| "verbName DetachZfs = ''detach_zfs''"
| "verbName ConfigureIface = ''configure_iface''"
| "verbName TeardownIface = ''teardown_iface''"
| "verbName AddPfRule = ''add_pf_rule''"
| "verbName RemovePfRule = ''remove_pf_rule''"
| "verbName AddIpfwRule = ''add_ipfw_rule''"
| "verbName RemoveIpfwRule = ''remove_ipfw_rule''"
| "verbName SetIfaceUp = ''set_iface_up''"
| "verbName DisableIfaceOffload = ''disable_iface_offload''"
| "verbName BridgeAddMember = ''bridge_add_member''"
| "verbName BridgeDelMember = ''bridge_del_member''"
| "verbName SetIfaceInetAddr = ''set_iface_inet_addr''"
| "verbName CreateEpair = ''create_epair''"
| "verbName EnsureUserRoot = ''ensure_user_root''"
| "verbName SetLoginclassRctl = ''set_loginclass_rctl''"
| "verbName ClearLoginclassRctl = ''clear_loginclass_rctl''"
| "verbName ReclaimIfaceFromVnet = ''reclaim_iface_from_vnet''"
| "verbName FlushPfAnchor = ''flush_pf_anchor''"
| "verbName QueryJailRctl = ''query_jail_rctl''"
| "verbName ConfigureIpfwNat = ''configure_ipfw_nat''"
| "verbName SetJailCpuset = ''set_jail_cpuset''"
| "verbName ApplyDevfsRuleset = ''apply_devfs_ruleset''"
| "verbName AddDevfsUnhideRule = ''add_devfs_unhide_rule''"
| "verbName SignalJail = ''signal_jail''"
| "verbName ExecInJail = ''exec_in_jail''"
| "verbName SetIfaceMac = ''set_iface_mac''"
| "verbName DeleteIpfwNat = ''delete_ipfw_nat''"
| "verbName CreateBridge = ''create_bridge''"
| "verbName AcquireFwLease = ''acquire_fw_lease''"
| "verbName ReleaseFwLease = ''release_fw_lease''"
| "verbName ApplyDevfsRules = ''apply_devfs_rules''"
| "verbName MountTmpfs = ''mount_tmpfs''"
| "verbName Unknown = ''unknown''"

definition parseVerb :: "string \<Rightarrow> verb" where
  "parseVerb name =
     (if name = ''create_jail'' then CreateJail
      else if name = ''destroy_jail'' then DestroyJail
      else if name = ''mount_nullfs'' then MountNullfs
      else if name = ''unmount_nullfs'' then UnmountNullfs
      else if name = ''set_rctl'' then SetRctl
      else if name = ''clear_rctl'' then ClearRctl
      else if name = ''attach_zfs'' then AttachZfs
      else if name = ''detach_zfs'' then DetachZfs
      else if name = ''configure_iface'' then ConfigureIface
      else if name = ''teardown_iface'' then TeardownIface
      else if name = ''add_pf_rule'' then AddPfRule
      else if name = ''remove_pf_rule'' then RemovePfRule
      else if name = ''add_ipfw_rule'' then AddIpfwRule
      else if name = ''remove_ipfw_rule'' then RemoveIpfwRule
      else if name = ''set_iface_up'' then SetIfaceUp
      else if name = ''disable_iface_offload'' then DisableIfaceOffload
      else if name = ''bridge_add_member'' then BridgeAddMember
      else if name = ''bridge_del_member'' then BridgeDelMember
      else if name = ''set_iface_inet_addr'' then SetIfaceInetAddr
      else if name = ''create_epair'' then CreateEpair
      else if name = ''ensure_user_root'' then EnsureUserRoot
      else if name = ''set_loginclass_rctl'' then SetLoginclassRctl
      else if name = ''clear_loginclass_rctl'' then ClearLoginclassRctl
      else if name = ''reclaim_iface_from_vnet'' then ReclaimIfaceFromVnet
      else if name = ''flush_pf_anchor'' then FlushPfAnchor
      else if name = ''query_jail_rctl'' then QueryJailRctl
      else if name = ''configure_ipfw_nat'' then ConfigureIpfwNat
      else if name = ''set_jail_cpuset'' then SetJailCpuset
      else if name = ''apply_devfs_ruleset'' then ApplyDevfsRuleset
      else if name = ''add_devfs_unhide_rule'' then AddDevfsUnhideRule
      else if name = ''signal_jail'' then SignalJail
      else if name = ''exec_in_jail'' then ExecInJail
      else if name = ''set_iface_mac'' then SetIfaceMac
      else if name = ''delete_ipfw_nat'' then DeleteIpfwNat
      else if name = ''create_bridge'' then CreateBridge
      else if name = ''acquire_fw_lease'' then AcquireFwLease
      else if name = ''release_fw_lease'' then ReleaseFwLease
      else if name = ''apply_devfs_rules'' then ApplyDevfsRules
      else if name = ''mount_tmpfs'' then MountTmpfs
      else Unknown)"

section \<open>Request records\<close>

record CreateJailReq =
  cj_name :: string
  cj_path :: string
  cj_hostname :: string
  cj_vnet :: bool
  cj_parameters :: string

record DestroyJailReq =
  dj_name :: string
  dj_force :: bool

record MountNullfsReq =
  mn_source :: string
  mn_target :: string
  mn_readOnly :: bool

record UnmountNullfsReq =
  un_target :: string
  un_force :: bool

record SetRctlReq =
  sr_jid :: int
  sr_key :: string
  sr_rawValue :: string

record ClearRctlReq =
  cr_jid :: int
  cr_key :: string

record AttachZfsReq =
  az_jid :: int
  az_dataset :: string

record DetachZfsReq =
  dz_jid :: int
  dz_dataset :: string

record ConfigureIfaceReq =
  ci_jid :: int
  ci_ifname :: string
  ci_bridge :: string
  ci_ipv4Cidr :: string
  ci_ipv6Cidr :: string
  ci_macAddr :: string

record TeardownIfaceReq =
  ti_ifname :: string

record AddPfRuleReq =
  ap_anchor :: string
  ap_ruleText :: string

record RemovePfRuleReq =
  rp_anchor :: string
  rp_ruleText :: string

record AddIpfwRuleReq =
  ai_set :: nat
  ai_number :: nat
  ai_action :: string
  ai_body :: string

record RemoveIpfwRuleReq =
  ri_set :: nat
  ri_number :: nat

record SetIfaceUpReq =
  su_ifname :: string

record DisableIfaceOffloadReq =
  do_ifname :: string

record BridgeAddMemberReq =
  ba_bridge :: string
  ba_member :: string

record BridgeDelMemberReq =
  bd_bridge :: string
  bd_member :: string

record SetIfaceInetAddrReq =
  sa_ifname :: string
  sa_addr :: string
  sa_prefixLen :: nat
  sa_inet6 :: bool

record SetLoginclassRctlReq =
  sl_loginclass :: string
  sl_key :: string
  sl_rawValue :: string

record ClearLoginclassRctlReq =
  cl_loginclass :: string
  cl_key :: string

record ReclaimIfaceFromVnetReq =
  rv_ifname :: string
  rv_jailName :: string

record FlushPfAnchorReq =
  fa_anchor :: string

record QueryJailRctlReq =
  qj_jid :: nat
  qj_limits :: bool

record SetIfaceMacReq =
  sm_ifname :: string
  sm_mac :: string

record DeleteIpfwNatReq =
  dn_number :: nat

record CreateBridgeReq =
  cb_name :: string

record AcquireFwLeaseReq =
  af_jid :: nat
  af_slot :: bool
  af_fwd4 :: bool
  af_fwd6 :: bool

record ReleaseFwLeaseReq =
  rf_jid :: nat

record ApplyDevfsRulesReq =
  ar_mountPath :: string
  ar_ruleset :: nat
  ar_rules :: "string list"

record MountTmpfsReq =
  mt_target :: string
  mt_size :: string
  mt_uid :: string
  mt_gid :: string
  mt_mode :: string

record ConfigureIpfwNatReq =
  cn_number :: nat
  cn_config :: string

record SetJailCpusetReq =
  sc_jid :: nat
  sc_cpuset :: string

record ApplyDevfsRulesetReq =
  ad_mountPath :: string
  ad_ruleset :: nat

record AddDevfsUnhideRuleReq =
  au_mountPath :: string
  au_pathPattern :: string

record SignalJailReq =
  sj_jid :: nat
  sj_signal :: string

record ExecInJailReq =
  ej_jid :: nat
  ej_user :: string
  ej_argv :: "string list"
  ej_term :: string

text \<open>\<^verbatim>\<open>CreateEpairReq\<close> and \<^verbatim>\<open>EnsureUserRootReq\<close> have no fields.\<close>

type_synonym CreateEpairReq = unit
type_synonym EnsureUserRootReq = unit

definition kApplyDevfsRulesMaxRules :: nat where "kApplyDevfsRulesMaxRules = 128"
definition kExecInJailMaxArgs :: nat where "kExecInJailMaxArgs = 256"
definition kExecInJailMaxArgvBytes :: nat where "kExecInJailMaxArgvBytes = 65536"

section \<open>Helpers of the validators\<close>

definition hasShellMetachar :: "string \<Rightarrow> bool" where
  "hasShellMetachar s \<longleftrightarrow> list_ex (\<lambda>c. c \<in>
     {CHR '';'', CHR 0x60, CHR 0x24, CHR ''|'', CHR ''&'', CHR ''<'', CHR ''>'', CHR 0x5C, CHR 0x0A, CHR 0x0D,
      CHR ''*'', CHR ''?'', CHR 0x22, CHR 0x27}) s"

definition hasDotDotSegment :: "string \<Rightarrow> bool" where
  "hasDotDotSegment p \<longleftrightarrow> list_ex (\<lambda>seg. seg = ''..'') (split_on (CHR ''/'') p)"

text \<open>\<^verbatim>\<open>unsigned long\<close> with the overflow test of the source, \<^verbatim>\<open>~0UL = 2^64 - 1\<close>.\<close>

fun parseUnsignedDec_loop :: "nat \<Rightarrow> string \<Rightarrow> nat option" where
  "parseUnsignedDec_loop acc [] = Some acc"
| "parseUnsignedDec_loop acc (c # cs) =
     (if \<not> is_digit c then None
      else if acc > (2 ^ 64 - 1 - digit_val c) div 10 then None
      else parseUnsignedDec_loop (acc * 10 + digit_val c) cs)"

definition parseUnsignedDec :: "string \<Rightarrow> nat option" where
  "parseUnsignedDec s = (if s = [] then None else parseUnsignedDec_loop 0 s)"

text \<open>The first character outside a set, with the message all validators share.\<close>

definition bad_char :: "(char \<Rightarrow> bool) \<Rightarrow> string \<Rightarrow> string \<Rightarrow> err" where
  "bad_char ok what s =
     (case List.find (\<lambda>c. \<not> ok c) s of
        Some c \<Rightarrow> ''invalid character '' @ quoted [c] @ '' in '' @ what
      | None \<Rightarrow> [])"

definition name_char :: "char \<Rightarrow> bool" where
  "name_char c \<longleftrightarrow> is_alnum c \<or> c = CHR ''.'' \<or> c = CHR ''_'' \<or> c = CHR ''-''"

section \<open>Field validators\<close>

definition validateJailName :: "string \<Rightarrow> err" where
  "validateJailName name =
     fail_if (name = []) ''jail name is empty''
     (fail_if (length name > kKernelJailName) (''jail name longer than '' @ dec kKernelJailName @ '' chars'')
     (fail_if (name = ''.'' \<or> name = ''..'') ''jail name is reserved''
     (bad_char name_char ''jail name'' name)))"

definition hostLabelErr :: "string \<Rightarrow> err" where
  "hostLabelErr label =
     fail_if (label = []) ''empty label in hostname''
     (fail_if (length label > 63) ''hostname label longer than 63 chars''
     (fail_if (hd label = CHR ''-'' \<or> last label = CHR ''-'') ''hostname label starts or ends with hyphen'' []))"

fun hostname_loop :: "string \<Rightarrow> string \<Rightarrow> err" where
  "hostname_loop label [] = hostLabelErr label"
| "hostname_loop label (c # cs) =
     (if c = CHR ''.'' then check_err (hostLabelErr label) (hostname_loop [] cs)
      else if \<not> (is_alnum c \<or> c = CHR ''-'') then ''invalid character '' @ quoted [c] @ '' in hostname''
      else hostname_loop (label @ [c]) cs)"

definition validateHostname :: "string \<Rightarrow> err" where
  "validateHostname h =
     (if h = [] then [] else fail_if (length h > 253) ''hostname longer than 253 chars'' (hostname_loop [] h))"

definition validateAbsolutePath :: "string \<Rightarrow> err" where
  "validateAbsolutePath p =
     fail_if (p = []) ''path is empty''
     (fail_if (length p > 1024) ''path longer than 1024 chars''
     (fail_if (hd p \<noteq> CHR ''/'') ''path must be absolute''
     (fail_if (hasDotDotSegment p) (''path must not contain '' @ quoted ''..'' @ '' segments'')
     (fail_if (hasShellMetachar p) ''path contains shell metacharacters'' []))))"

fun has_double_slash :: "string \<Rightarrow> bool" where
  "has_double_slash (a # b # s) = (a = CHR ''/'' \<and> b = CHR ''/'' \<or> has_double_slash (b # s))"
| "has_double_slash _ = False"

definition validateZfsDataset :: "string \<Rightarrow> err" where
  "validateZfsDataset ds =
     fail_if (ds = []) ''dataset is empty''
     (fail_if (length ds > 255) ''dataset longer than 255 chars''
     (fail_if (hd ds = CHR ''/'') (''dataset must not start with '' @ quoted ''/'')
     (fail_if (last ds = CHR ''/'') (''dataset must not end with '' @ quoted ''/'')
     (fail_if (has_double_slash ds) (''dataset must not contain '' @ quoted ''//'')
     (bad_char (\<lambda>c. name_char c \<or> c = CHR ''/'' \<or> c = CHR '':'') ''dataset'' ds)))))"

definition validateIfaceName :: "string \<Rightarrow> err" where
  "validateIfaceName name =
     fail_if (name = []) ''interface name is empty''
     (fail_if (length name > 15) ''interface name longer than 15 chars''
     (bad_char name_char ''interface name'' name))"

fun mac_loop :: "char \<Rightarrow> nat \<Rightarrow> string \<Rightarrow> err" where
  "mac_loop sep i [] = []"
| "mac_loop sep i (c # cs) =
     (if i mod 3 = 2
      then fail_if (c \<noteq> sep) ''inconsistent MAC separator'' (mac_loop sep (Suc i) cs)
      else fail_if (\<not> is_hex c) ''MAC must be hex digits'' (mac_loop sep (Suc i) cs))"

definition hex_val :: "char \<Rightarrow> nat" where
  "hex_val c =
     (if is_digit c then of_char c - 48
      else if CHR ''a'' \<le> c \<and> c \<le> CHR ''f'' then 10 + of_char c - 97
      else 10 + of_char c - 65)"

definition validateMacAddress :: "string \<Rightarrow> err" where
  "validateMacAddress mac =
     (if mac = [] then []
      else if length mac \<noteq> 17 then ''MAC must be 17 chars (aa:bb:cc:dd:ee:ff)''
      else let sep = mac ! 2 in
        if sep \<noteq> CHR '':'' \<and> sep \<noteq> CHR ''-'' then ''MAC separator must be '' @ quoted '':'' @ '' or '' @ quoted ''-''
        else check_err (mac_loop sep 0 mac)
          (fail_if (odd (hex_val (mac ! 0) * 16 + hex_val (mac ! 1))) ''MAC multicast bit set in first octet'' []))"

definition parseIpv4Octet :: "string \<Rightarrow> int" where
  "parseIpv4Octet s =
     (if s = [] \<or> length s > 3 then - 1
      else if length s > 1 \<and> hd s = CHR ''0'' then - 1
      else case parseUnsignedDec s of
        None \<Rightarrow> - 1
      | Some v \<Rightarrow> if v > 255 then - 1 else int v)"

definition validateIpv4Cidr :: "string \<Rightarrow> err" where
  "validateIpv4Cidr cidr =
     (if cidr = [] then []
      else case cut_at (CHR ''/'') cidr of
        None \<Rightarrow> ''IPv4 CIDR missing '' @ quoted ''/'' @ '' prefix length''
      | Some (addr, plen) \<Rightarrow>
        if (case parseUnsignedDec plen of None \<Rightarrow> True | Some pv \<Rightarrow> pv > 32)
        then ''IPv4 prefix length out of range (0..32)''
        else let parts = split_on (CHR ''.'') addr in
          fail_if (length parts \<noteq> 4) ''IPv4 address must have 4 octets''
          (fail_if (list_ex (\<lambda>p. parseIpv4Octet p < 0) parts) ''IPv4 octet out of range or malformed'' []))"

text \<open>The text from the second colon of the first \<^verbatim>\<open>::\<close> on, where the next search starts.\<close>

fun find_dcolon :: "string \<Rightarrow> string option" where
  "find_dcolon (a # b # s) = (if a = CHR '':'' \<and> b = CHR '':'' then Some (b # s) else find_dcolon (b # s))"
| "find_dcolon _ = None"

function (sequential) ipv6_loop :: "string \<Rightarrow> nat \<Rightarrow> bool \<Rightarrow> string \<Rightarrow> err + (string \<times> nat \<times> bool)" where
  "ipv6_loop cur groups saw [] = Inr (cur, groups, saw)"
| "ipv6_loop cur groups saw (c # cs) =
     (if c = CHR '':'' then
        if cs \<noteq> [] \<and> hd cs = CHR '':'' then
          if saw then Inl (''IPv6 address has more than one '' @ quoted ''::'')
          else if cur \<noteq> [] \<and> length cur > 4 then Inl ''IPv6 group longer than 4 hex digits''
          else ipv6_loop [] (if cur \<noteq> [] then Suc groups else groups) True (tl cs)
        else if cur = [] then Inl ''empty IPv6 group''
        else if length cur > 4 then Inl ''IPv6 group longer than 4 hex digits''
        else ipv6_loop [] (Suc groups) saw cs
      else if \<not> is_hex c then Inl (''invalid character '' @ quoted [c] @ '' in IPv6 address'')
      else ipv6_loop (cur @ [c]) groups saw cs)"
  by pat_completeness auto
termination by (relation "measure (\<lambda>(_, _, _, s). length s)") auto

definition validateIpv6Cidr :: "string \<Rightarrow> err" where
  "validateIpv6Cidr cidr =
     (if cidr = [] then []
      else case cut_at (CHR ''/'') cidr of
        None \<Rightarrow> ''IPv6 CIDR missing '' @ quoted ''/'' @ '' prefix length''
      | Some (addr, plen) \<Rightarrow>
        if (case parseUnsignedDec plen of None \<Rightarrow> True | Some pv \<Rightarrow> pv > 128)
        then ''IPv6 prefix length out of range (0..128)''
        else if addr = [] then ''IPv6 address is empty''
        else if length addr > 45 then ''IPv6 address longer than 45 chars''
        else if (case find_dcolon addr of None \<Rightarrow> False | Some t \<Rightarrow> find_dcolon t \<noteq> None)
        then ''IPv6 address has more than one '' @ quoted ''::''
        else case ipv6_loop [] 0 False addr of
          Inl e \<Rightarrow> e
        | Inr (cur, groups, saw) \<Rightarrow>
          if cur \<noteq> [] \<and> length cur > 4 then ''IPv6 group longer than 4 hex digits''
          else let groups = (if cur \<noteq> [] then Suc groups else groups) in
            if saw then fail_if (groups > 7) (''IPv6 has too many groups around '' @ quoted ''::'') []
            else fail_if (groups \<noteq> 8) (''IPv6 must have 8 groups when '' @ quoted ''::'' @ '' is absent'') [])"

fun ruleText_loop :: "string \<Rightarrow> err" where
  "ruleText_loop [] = []"
| "ruleText_loop (c # cs) =
     fail_if (c = CHR 0x0A \<or> c = CHR 0x0D) ''rule text must be a single line''
     (fail_if (c = CHR 0x60 \<or> c = CHR 0x24 \<or> c = CHR '';'' \<or> c = CHR 0x5C) ''rule text contains shell metacharacters''
     (ruleText_loop cs))"

definition validateRuleText :: "string \<Rightarrow> err" where
  "validateRuleText text =
     fail_if (text = []) ''rule text is empty''
     (fail_if (length text > 1024) ''rule text longer than 1024 chars'' (ruleText_loop text))"

definition validateAnchorName :: "string \<Rightarrow> err" where
  "validateAnchorName name =
     fail_if (name = []) ''anchor name is empty''
     (fail_if (length name > 256) ''anchor name longer than 256 chars''
     (bad_char (\<lambda>c. name_char c \<or> c = CHR ''/'') ''anchor name'' name))"

definition validateIpfwAction :: "string \<Rightarrow> err" where
  "validateIpfwAction action =
     (if action \<in> {''allow'', ''deny'', ''skipto'', ''nat'', ''fwd'', ''count'', ''check-state'', ''reset''}
      then [] else ''unknown ipfw action'')"

section \<open>The jail parameter whitelist\<close>

datatype ParamKind = ParamBool | EnforceStatfs | Securelevel | ParamUnsigned | Uint32 | Uuid

definition kJailParamWhitelist :: "(string \<times> ParamKind) list" where
  "kJailParamWhitelist =
     [(''allow.raw_sockets'', ParamBool), (''allow.socket_af'', ParamBool), (''allow.sysvipc'', ParamBool),
      (''allow.mount'', ParamBool), (''allow.mount.zfs'', ParamBool), (''allow.quotas'', ParamBool),
      (''allow.set_hostname'', ParamBool), (''allow.chflags'', ParamBool), (''allow.mlock'', ParamBool),
      (''enforce_statfs'', EnforceStatfs), (''securelevel'', Securelevel), (''children.max'', ParamUnsigned),
      (''host.hostuuid'', Uuid), (''host.hostid'', Uint32)]"

definition uuid_shape :: "string \<Rightarrow> bool" where
  "uuid_shape v \<longleftrightarrow> length v = 36 \<and>
     list_all (\<lambda>i. if i \<in> {8, 13, 18, 23} then v ! i = CHR ''-'' else is_hex (v ! i)) [0..<36]"

fun validateJailParamValue :: "ParamKind \<Rightarrow> string \<Rightarrow> err" where
  "validateJailParamValue ParamBool v =
     (if v \<in> {''0'', ''1'', ''true'', ''false''} then [] else ''expected 0/1/true/false'')"
| "validateJailParamValue EnforceStatfs v =
     (if v \<in> {''0'', ''1'', ''2''} then [] else ''expected 0, 1 or 2'')"
| "validateJailParamValue Securelevel v =
     (if v \<in> {''-1'', ''0'', ''1'', ''2'', ''3''} then [] else ''expected -1..3'')"
| "validateJailParamValue ParamUnsigned v =
     (if all_digits v \<and> length v \<le> 9 then [] else ''expected an unsigned integer'')"
| "validateJailParamValue Uint32 v =
     (if all_digits v \<and> length v \<le> 10 \<and> dec_val v \<le> 4294967295 then [] else ''expected a 32-bit unsigned integer'')"
| "validateJailParamValue Uuid v = (if uuid_shape v then [] else ''expected a UUID'')"

text \<open>\<^verbatim>\<open>iss >> tok\<close>: maximal runs of characters that are not white space.\<close>

definition is_space :: "char \<Rightarrow> bool" where
  "is_space c \<longleftrightarrow> c \<in> {CHR '' '', CHR 0x09, CHR 0x0A, CHR 0x0B, CHR 0x0C, CHR 0x0D}"

fun tokens_loop :: "string \<Rightarrow> string \<Rightarrow> string list" where
  "tokens_loop cur [] = (if cur = [] then [] else [cur])"
| "tokens_loop cur (c # cs) =
     (if is_space c then (if cur = [] then tokens_loop [] cs else cur # tokens_loop [] cs)
      else tokens_loop (cur @ [c]) cs)"

definition ws_tokens :: "string \<Rightarrow> string list" where
  "ws_tokens s = tokens_loop [] s"

definition jailParamErr :: "string \<Rightarrow> err" where
  "jailParamErr tok =
     (case cut_at (CHR ''='') tok of
        None \<Rightarrow> ''jail parameters: token '' @ quoted tok @ '' is not key=value''
      | Some (key, val) \<Rightarrow>
        if key = [] \<or> val = [] then ''jail parameters: token '' @ quoted tok @ '' is not key=value''
        else case List.find (\<lambda>s. key = fst s) kJailParamWhitelist of
          None \<Rightarrow> ''jail parameters: '' @ quoted key @ '' is not an allowed jail parameter '' @
            ''(allowed: allow.raw_sockets allow.socket_af allow.sysvipc allow.mount '' @
            ''allow.mount.zfs allow.quotas allow.set_hostname allow.chflags allow.mlock '' @
            ''enforce_statfs securelevel children.max host.hostuuid host.hostid)''
        | Some spec \<Rightarrow>
          check_pfx (''jail parameters: '' @ quoted (key @ ''='' @ val) @ '': '') (validateJailParamValue (snd spec) val) [])"

fun jailParams_loop :: "string list \<Rightarrow> err" where
  "jailParams_loop [] = []"
| "jailParams_loop (tok # toks) = check_err (jailParamErr tok) (jailParams_loop toks)"

definition validateJailParameters :: "string \<Rightarrow> err" where
  "validateJailParameters parameters =
     (if parameters = [] then []
      else fail_if (length parameters > 4096) ''jail parameters longer than 4096 chars''
        (check_pfx ''jail parameters: '' (validateRuleText parameters)
          (jailParams_loop (ws_tokens parameters))))"

section \<open>Verb validators\<close>

definition validateCreateJail :: "CreateJailReq \<Rightarrow> err" where
  "validateCreateJail r =
     check_err (validateJailName (cj_name r)) (check_err (validateAbsolutePath (cj_path r))
       (check_err (validateHostname (cj_hostname r)) (check_err (validateJailParameters (cj_parameters r)) [])))"

definition validateDestroyJail :: "DestroyJailReq \<Rightarrow> err" where
  "validateDestroyJail r = check_err (validateJailName (dj_name r)) []"

definition validateMountNullfs :: "MountNullfsReq \<Rightarrow> err" where
  "validateMountNullfs r =
     check_pfx ''source: '' (validateAbsolutePath (mn_source r))
       (check_pfx ''target: '' (validateAbsolutePath (mn_target r)) [])"

definition validateUnmountNullfs :: "UnmountNullfsReq \<Rightarrow> err" where
  "validateUnmountNullfs r = check_pfx ''target: '' (validateAbsolutePath (un_target r)) []"

definition validateMountTmpfs :: "MountTmpfsReq \<Rightarrow> err" where
  "validateMountTmpfs r =
     check_pfx ''target: '' (validateAbsolutePath (mt_target r))
     (check_pfx ''size: '' (validateTmpfsSize (mt_size r))
     (check_err (if mt_uid r \<noteq> [] then validateDecimal (mt_uid r) ''uid'' else [])
     (check_err (if mt_gid r \<noteq> [] then validateDecimal (mt_gid r) ''gid'' else [])
     (fail_if ((mt_uid r = []) \<noteq> (mt_gid r = [])) ''uid and gid must be given together''
     (check_err (if mt_mode r \<noteq> [] then validateOctalMode (mt_mode r) else []) [])))))"

definition validateSetRctl :: "SetRctlReq \<Rightarrow> err" where
  "validateSetRctl r =
     fail_if (sr_jid r < 1) ''jid must be >= 1''
     (check_err (validateRctlKey (sr_key r)) (check_err (validateRctlValue (sr_key r) (sr_rawValue r)) []))"

definition validateClearRctl :: "ClearRctlReq \<Rightarrow> err" where
  "validateClearRctl r = fail_if (cr_jid r < 1) ''jid must be >= 1'' (check_err (validateRctlKey (cr_key r)) [])"

definition validateAttachZfs :: "AttachZfsReq \<Rightarrow> err" where
  "validateAttachZfs r = fail_if (az_jid r < 1) ''jid must be >= 1'' (check_err (validateZfsDataset (az_dataset r)) [])"

definition validateDetachZfs :: "DetachZfsReq \<Rightarrow> err" where
  "validateDetachZfs r = fail_if (dz_jid r < 1) ''jid must be >= 1'' (check_err (validateZfsDataset (dz_dataset r)) [])"

definition validateConfigureIface :: "ConfigureIfaceReq \<Rightarrow> err" where
  "validateConfigureIface r =
     fail_if (ci_jid r < 1) ''jid must be >= 1''
     (check_pfx ''ifname: '' (validateIfaceName (ci_ifname r))
     (check_pfx ''bridge: '' (if ci_bridge r \<noteq> [] then validateIfaceName (ci_bridge r) else [])
     (check_pfx ''ipv4: '' (validateIpv4Cidr (ci_ipv4Cidr r))
     (check_pfx ''ipv6: '' (validateIpv6Cidr (ci_ipv6Cidr r))
     (check_pfx ''mac: '' (validateMacAddress (ci_macAddr r)) [])))))"

definition validateTeardownIface :: "TeardownIfaceReq \<Rightarrow> err" where
  "validateTeardownIface r = check_err (validateIfaceName (ti_ifname r)) []"

definition validateAddPfRule :: "AddPfRuleReq \<Rightarrow> err" where
  "validateAddPfRule r =
     check_pfx ''anchor: '' (validateAnchorName (ap_anchor r)) (check_pfx ''rule: '' (validateRuleText (ap_ruleText r)) [])"

definition validateRemovePfRule :: "RemovePfRuleReq \<Rightarrow> err" where
  "validateRemovePfRule r =
     check_pfx ''anchor: '' (validateAnchorName (rp_anchor r)) (check_pfx ''rule: '' (validateRuleText (rp_ruleText r)) [])"

definition validateAddIpfwRule :: "AddIpfwRuleReq \<Rightarrow> err" where
  "validateAddIpfwRule r =
     fail_if (ai_set r > 31) ''ipfw set out of range (0..31)''
     (fail_if (ai_number r < 1 \<or> ai_number r > 65534) ''ipfw rule number out of range (1..65534)''
     (check_err (validateIpfwAction (ai_action r)) (check_pfx ''body: '' (validateRuleText (ai_body r)) [])))"

definition validateRemoveIpfwRule :: "RemoveIpfwRuleReq \<Rightarrow> err" where
  "validateRemoveIpfwRule r =
     fail_if (ri_set r > 31) ''ipfw set out of range (0..31)''
     (fail_if (ri_number r < 1 \<or> ri_number r > 65534) ''ipfw rule number out of range (1..65534)'' [])"

definition validateSetIfaceUp :: "SetIfaceUpReq \<Rightarrow> err" where
  "validateSetIfaceUp r = validateIfaceName (su_ifname r)"

definition validateDisableIfaceOffload :: "DisableIfaceOffloadReq \<Rightarrow> err" where
  "validateDisableIfaceOffload r = validateIfaceName (do_ifname r)"

definition validateBridgeAddMember :: "BridgeAddMemberReq \<Rightarrow> err" where
  "validateBridgeAddMember r =
     check_pfx ''bridge: '' (validateIfaceName (ba_bridge r)) (check_pfx ''member: '' (validateIfaceName (ba_member r)) [])"

definition validateBridgeDelMember :: "BridgeDelMemberReq \<Rightarrow> err" where
  "validateBridgeDelMember r =
     check_pfx ''bridge: '' (validateIfaceName (bd_bridge r)) (check_pfx ''member: '' (validateIfaceName (bd_member r)) [])"

definition validateSetIfaceInetAddr :: "SetIfaceInetAddrReq \<Rightarrow> err" where
  "validateSetIfaceInetAddr r =
     check_pfx ''ifname: '' (validateIfaceName (sa_ifname r))
     (if sa_inet6 r then
        fail_if (sa_prefixLen r > 128) ''prefix_len out of range (0..128)''
        (check_pfx ''addr: '' (validateIpv6Cidr (sa_addr r @ ''/'' @ dec (sa_prefixLen r))) [])
      else
        fail_if (sa_prefixLen r > 32) ''prefix_len out of range (0..32)''
        (check_pfx ''addr: '' (validateIpv4Cidr (sa_addr r @ ''/'' @ dec (sa_prefixLen r))) []))"

definition validateCreateEpair :: "CreateEpairReq \<Rightarrow> err" where
  "validateCreateEpair r = []"

definition validateEnsureUserRoot :: "EnsureUserRootReq \<Rightarrow> err" where
  "validateEnsureUserRoot r = []"

definition validateSetLoginclassRctl :: "SetLoginclassRctlReq \<Rightarrow> err" where
  "validateSetLoginclassRctl r =
     check_pfx ''loginclass: '' (validateLoginclassName (sl_loginclass r))
     (check_err (validateRctlKey (sl_key r)) (check_err (validateRctlValue (sl_key r) (sl_rawValue r)) []))"

definition validateClearLoginclassRctl :: "ClearLoginclassRctlReq \<Rightarrow> err" where
  "validateClearLoginclassRctl r =
     check_pfx ''loginclass: '' (validateLoginclassName (cl_loginclass r)) (check_err (validateRctlKey (cl_key r)) [])"

definition validateReclaimIfaceFromVnet :: "ReclaimIfaceFromVnetReq \<Rightarrow> err" where
  "validateReclaimIfaceFromVnet r =
     check_pfx ''ifname: '' (validateIfaceName (rv_ifname r)) (check_pfx ''jail_name: '' (validateJailName (rv_jailName r)) [])"

definition validateFlushPfAnchor :: "FlushPfAnchorReq \<Rightarrow> err" where
  "validateFlushPfAnchor r = check_pfx ''anchor: '' (validateAnchorName (fa_anchor r)) []"

definition jid_range_err :: "nat \<Rightarrow> err \<Rightarrow> err" where
  "jid_range_err jid rest = fail_if (jid = 0 \<or> jid > 65535) ''jid: out of range (1..65535)'' rest"

definition validateQueryJailRctl :: "QueryJailRctlReq \<Rightarrow> err" where
  "validateQueryJailRctl r = jid_range_err (qj_jid r) []"

definition validateConfigureIpfwNat :: "ConfigureIpfwNatReq \<Rightarrow> err" where
  "validateConfigureIpfwNat r =
     fail_if (cn_number r = 0 \<or> cn_number r > 65534) ''number: out of range (1..65534)''
     (check_pfx ''config: '' (validateRuleText (cn_config r)) [])"

definition validateApplyDevfsRuleset :: "ApplyDevfsRulesetReq \<Rightarrow> err" where
  "validateApplyDevfsRuleset r =
     check_pfx ''mount_path: '' (validateAbsolutePath (ad_mountPath r))
     (fail_if (ad_ruleset r = 0 \<or> ad_ruleset r > 65535) ''ruleset: out of range (1..65535)'' [])"

definition validateSignalJail :: "SignalJailReq \<Rightarrow> err" where
  "validateSignalJail r =
     jid_range_err (sj_jid r)
     (fail_if (sj_signal r \<notin> {''TERM'', ''KILL'', ''HUP'', ''INT''}) ''signal: must be one of TERM, KILL, HUP, INT'' [])"

definition glob_char :: "char \<Rightarrow> bool" where
  "glob_char c \<longleftrightarrow> name_char c \<or> c = CHR ''/'' \<or> c = CHR ''*''"

definition validateDevfsPathGlob :: "string \<Rightarrow> string \<Rightarrow> err" where
  "validateDevfsPathGlob pat what =
     fail_if (pat = []) (what @ '' is empty'')
     (fail_if (length pat > 256) (what @ '' longer than 256 chars'')
     (check_err (bad_char glob_char what pat)
     (fail_if (hd pat = CHR ''/'') (what @ '' must not start with '' @ quoted ''/'') [])))"

definition validateAddDevfsUnhideRule :: "AddDevfsUnhideRuleReq \<Rightarrow> err" where
  "validateAddDevfsUnhideRule r =
     check_pfx ''mount_path: '' (validateAbsolutePath (au_mountPath r))
     (validateDevfsPathGlob (au_pathPattern r) ''path_pattern'')"

fun devfs_tokens :: "string \<Rightarrow> string list \<Rightarrow> string \<Rightarrow> string list res" where
  "devfs_tokens cur tok [] =
     (if cur = [] then Inl (if tok = [] then ''rule is empty'' else ''trailing space in rule'') else Inr (tok @ [cur]))"
| "devfs_tokens cur tok (c # cs) =
     (if c = CHR '' '' then (if cur = [] then Inl ''empty token in rule'' else devfs_tokens [] (tok @ [cur]) cs)
      else if c = CHR 0x09 \<or> c = CHR 0x0A \<or> c = CHR 0x0D then Inl ''whitespace other than a space in rule''
      else devfs_tokens (cur @ [c]) tok cs)"

definition devfs_include_err :: "string \<Rightarrow> err" where
  "devfs_include_err n =
     fail_if (n = [] \<or> length n > 5) ''include: ruleset number out of range (1..65535)''
     (fail_if (\<not> list_all is_digit n) ''include: ruleset number must be decimal''
     (fail_if (dec_val n = 0 \<or> dec_val n > 65535) ''include: ruleset number out of range (1..65535)'' []))"

definition validateDevfsRuleSpec :: "string \<Rightarrow> err" where
  "validateDevfsRuleSpec rule =
     (case devfs_tokens [] [] rule of
        Inl e \<Rightarrow> e
      | Inr tok \<Rightarrow>
        if length tok = 1 \<and> tok ! 0 = ''hide'' then []
        else if length tok = 2 \<and> tok ! 0 = ''include'' then devfs_include_err (tok ! 1)
        else if length tok = 3 \<and> tok ! 0 = ''path'' \<and> tok ! 2 = ''unhide''
        then validateDevfsPathGlob (tok ! 1) ''path glob''
        else ''rule must be '' @ quoted ''hide'' @ '', '' @ quoted ''include <n>'' @ '' or '' @ quoted ''path <glob> unhide'')"

fun devfsRules_loop :: "nat \<Rightarrow> string list \<Rightarrow> err" where
  "devfsRules_loop i [] = []"
| "devfsRules_loop i (rule # rules) =
     check_pfx (''rule'' @ dec i @ '': '') (validateDevfsRuleSpec rule) (devfsRules_loop (Suc i) rules)"

definition validateApplyDevfsRules :: "ApplyDevfsRulesReq \<Rightarrow> err" where
  "validateApplyDevfsRules r =
     check_pfx ''mount_path: '' (validateAbsolutePath (ar_mountPath r))
     (fail_if (ar_ruleset r = 0 \<or> ar_ruleset r > 65535) ''ruleset: out of range (1..65535)''
     (fail_if (ar_rules r = []) ''rules: empty''
     (fail_if (length (ar_rules r) > kApplyDevfsRulesMaxRules)
        (''rules: more than '' @ dec kApplyDevfsRulesMaxRules @ '' entries'')
     (devfsRules_loop 0 (ar_rules r)))))"

definition validateSetJailCpuset :: "SetJailCpusetReq \<Rightarrow> err" where
  "validateSetJailCpuset r =
     jid_range_err (sc_jid r)
     (fail_if (sc_cpuset r = []) ''cpuset is empty''
     (fail_if (length (sc_cpuset r) > 256) ''cpuset longer than 256 chars''
     (bad_char (\<lambda>c. is_digit c \<or> c = CHR '','' \<or> c = CHR ''-'') ''cpuset'' (sc_cpuset r))))"

definition validateJailUserName :: "string \<Rightarrow> err" where
  "validateJailUserName user =
     (if user = [] then []
      else fail_if (length user > 32) ''user name longer than 32 chars''
        (fail_if (\<not> (is_alnum (hd user) \<and> \<not> is_digit (hd user)) \<and> hd user \<noteq> CHR ''_'')
           (''user name must start with a letter or '' @ quoted ''_'')
        (bad_char name_char ''user name'' user)))"

definition validateTermName :: "string \<Rightarrow> err" where
  "validateTermName term =
     fail_if (length term > 64) ''term longer than 64 chars''
     (bad_char (\<lambda>c. name_char c \<or> c = CHR ''+'') ''term'' term)"

fun argv_loop :: "nat \<Rightarrow> string list \<Rightarrow> err" where
  "argv_loop tot [] = []"
| "argv_loop tot (a # as) =
     fail_if (CHR 0x00 \<in> set a) ''argv: embedded NUL''
     (fail_if (tot + length a + 1 > kExecInJailMaxArgvBytes)
        (''argv: total size exceeds '' @ dec kExecInJailMaxArgvBytes @ '' bytes'')
     (argv_loop (tot + length a + 1) as))"

definition validateExecInJail :: "ExecInJailReq \<Rightarrow> err" where
  "validateExecInJail r =
     jid_range_err (ej_jid r)
     (check_pfx ''user: '' (validateJailUserName (ej_user r))
     (check_pfx ''term: '' (validateTermName (ej_term r))
     (fail_if (ej_argv r = []) ''argv is empty''
     (fail_if (length (ej_argv r) > kExecInJailMaxArgs) (''argv: more than '' @ dec kExecInJailMaxArgs @ '' arguments'')
     (fail_if (hd (ej_argv r) = [] \<or> hd (hd (ej_argv r)) \<noteq> CHR ''/'') ''argv0: must be an absolute path''
     (fail_if (length (hd (ej_argv r)) > 1024) ''argv0: longer than 1024 chars''
     (argv_loop 0 (ej_argv r))))))))"

definition validateSetIfaceMac :: "SetIfaceMacReq \<Rightarrow> err" where
  "validateSetIfaceMac r =
     check_pfx ''ifname: '' (validateIfaceName (sm_ifname r))
     (fail_if (sm_mac r = []) ''mac: is empty''
     (check_pfx ''mac: '' (validateMacAddress (sm_mac r)) []))"

definition validateDeleteIpfwNat :: "DeleteIpfwNatReq \<Rightarrow> err" where
  "validateDeleteIpfwNat r = fail_if (dn_number r = 0 \<or> dn_number r > 65534) ''number: out of range (1..65534)'' []"

definition validateCreateBridge :: "CreateBridgeReq \<Rightarrow> err" where
  "validateCreateBridge r =
     check_pfx ''name: '' (validateIfaceName (cb_name r))
     (fail_if (\<not> starts_with ''bridge'' (cb_name r) \<or> length (cb_name r) = 6) ''name: must be bridge<N>''
     (fail_if (\<not> list_all is_digit (drop 6 (cb_name r))) ''name: must be bridge<N>'' []))"

definition validateAcquireFwLease :: "AcquireFwLeaseReq \<Rightarrow> err" where
  "validateAcquireFwLease r =
     jid_range_err (af_jid r)
     (fail_if (\<not> af_slot r \<and> \<not> af_fwd4 r \<and> \<not> af_fwd6 r) ''nothing requested (slot, fwd4 or fwd6)'' [])"

definition validateReleaseFwLease :: "ReleaseFwLeaseReq \<Rightarrow> err" where
  "validateReleaseFwLease r = jid_range_err (rf_jid r) []"

end
