(* ===== verification/PrivOpsLaws.thy ===== *)
theory PrivOpsLaws
  imports PrivOps NetAddr
begin

text \<open>
  What the validators of \<^verbatim>\<open>lib/privops_pure.cpp\<close> guarantee: the verb tokens round trip, and an
  accepted field cannot carry the characters or path segments its consumer gives a meaning to.
\<close>

section \<open>Verb tokens\<close>

lemma parseVerb_verbName: "parseVerb (verbName v) = v"
  by (cases v) (simp_all add: parseVerb_def)

text \<open>
  The verb tokens: reading the token of a verb gives the verb back, no two verbs share a
  token, and every text that is not the token of a known verb is read as \<^const>\<open>Unknown\<close>.
\<close>

theorem verb_tokens:
  "parseVerb (verbName v) = v \<and> (verbName v = verbName w \<longleftrightarrow> v = w) \<and>
   (parseVerb s = Unknown \<or> verbName (parseVerb s) = s)"
proof (intro conjI)
  show "verbName v = verbName w \<longleftrightarrow> v = w" using parseVerb_verbName by metis
  show "parseVerb s = Unknown \<or> verbName (parseVerb s) = s" by (auto simp: parseVerb_def)
qed (rule parseVerb_verbName)

section \<open>Numbers and characters\<close>

lemma bad_char_ok [simp, err_simps]: "bad_char ok what s = [] \<longleftrightarrow> list_all ok s"
proof (cases "List.find (\<lambda>c. \<not> ok c) s")
  case None
  then have "\<forall>c \<in> set s. ok c" by (auto simp: find_None_iff)
  with None show ?thesis by (simp add: bad_char_def list_all_iff)
next
  case (Some c)
  then have "c \<in> set s" "\<not> ok c" by (auto simp: find_Some_iff)
  with Some show ?thesis by (auto simp: bad_char_def list_all_iff)
qed

lemma parseUnsignedDec_loop_value:
  "acc < 2 ^ 64 \<Longrightarrow> parseUnsignedDec_loop acc s =
     (if list_all is_digit s \<and> acc * 10 ^ length s + dec_val s < 2 ^ 64
      then Some (acc * 10 ^ length s + dec_val s) else None)"
proof (induction s arbitrary: acc)
  case Nil
  then show ?case by simp
next
  case (Cons c cs)
  let ?n = "acc * 10 + digit_val c"
  have eq: "acc * 10 ^ length (c # cs) + dec_val (c # cs) = ?n * 10 ^ length cs + dec_val cs"
    by (simp add: dec_val_Cons algebra_simps)
  have le: "?n \<le> ?n * 10 ^ length cs" by simp
  show ?case
  proof (cases "is_digit c")
    case True
    then have d: "digit_val c < 10" by simp
    have test: "acc > (2 ^ 64 - 1 - digit_val c) div 10 \<longleftrightarrow> 2 ^ 64 \<le> ?n"
      using d by (simp add: div_less_iff_less_mult) presburger
    show ?thesis
    proof (cases "2 ^ 64 \<le> ?n")
      case True
      with le eq have "\<not> acc * 10 ^ length (c # cs) + dec_val (c # cs) < 2 ^ 64" by linarith
      with True test \<open>is_digit c\<close> show ?thesis by simp
    next
      case False
      then have "?n < 2 ^ 64" by simp
      from Cons.IH [OF this] False test \<open>is_digit c\<close> eq show ?thesis by simp
    qed
  qed simp
qed

lemma parseUnsignedDec_value:
  "parseUnsignedDec s = (if all_digits s \<and> dec_val s < 2 ^ 64 then Some (dec_val s) else None)"
  using parseUnsignedDec_loop_value [of 0 s] by (auto simp: parseUnsignedDec_def all_digits_def)

section \<open>Host names\<close>

lemma hostLabelErr_ok: "list_all (\<lambda>c. is_alnum c \<or> c = CHR ''-'') l \<Longrightarrow> hostLabelErr l = [] \<longleftrightarrow> hostLabelOk l"
proof (cases "l = []")
  case False
  assume l: "list_all (\<lambda>c. is_alnum c \<or> c = CHR ''-'') l"
  have "hd l \<in> set l" "last l \<in> set l" using False by simp_all
  with l have "is_alnum (hd l) \<or> hd l = CHR ''-''" "is_alnum (last l) \<or> last l = CHR ''-''"
    by (auto simp: list_all_iff)
  moreover have "\<not> is_alnum (CHR ''-'')" by (simp add: is_alnum_def)
  ultimately show ?thesis using l False by (auto simp: hostLabelErr_def hostLabelOk_def)
qed (simp add: hostLabelErr_def hostLabelOk_def)

lemma hostname_loop_ok:
  "list_all (\<lambda>c. is_alnum c \<or> c = CHR ''-'') cur \<Longrightarrow>
     hostname_loop cur s = [] \<longleftrightarrow> list_all hostLabelOk (split_loop (CHR ''.'') cur s)"
proof (induction cur s rule: hostname_loop.induct)
  case (1 label)
  then show ?case by (simp add: hostLabelErr_ok)
next
  case (2 label c cs)
  have bad: "\<not> list_all hostLabelOk (split_loop (CHR ''.'') cur cs)" if "\<exists>x \<in> set cur. \<not> (is_alnum x \<or> x = CHR ''-'')" for cur
    using that
  proof (induction cs arbitrary: cur)
    case Nil
    then show ?case by (auto simp: hostLabelOk_def list_all_iff)
  next
    case (Cons x xs)
    then show ?case by (auto simp: hostLabelOk_def list_all_iff)
  qed
  show ?case
  proof (cases "c = CHR ''.''")
    case True
    with 2 show ?thesis by (simp add: hostLabelErr_ok)
  next
    case False
    with 2 bad [of "label @ [c]"] show ?thesis by (cases "is_alnum c \<or> c = CHR ''-''") auto
  qed
qed

lemma split_loop_last: "last (split_loop sep cur s) = [] \<longleftrightarrow> (if s = [] then cur = [] else last s = sep)"
  by (induction s arbitrary: cur) auto

text \<open>
  The two host-name checks of the code base. On a non-empty name of ordinary length the
  validator of \<^verbatim>\<open>create_jail\<close> accepts exactly the names the shared predicate
  \<^const>\<open>isHostname\<close> accepts that do not end in a dot: the shared predicate alone tolerates a
  trailing dot.
\<close>

theorem hostname_checks_agree:
  assumes "h \<noteq> []"
  shows "validateHostname h = [] \<longleftrightarrow> isHostname h \<and> last h \<noteq> CHR ''.''"
proof -
  let ?ls = "split_on (CHR ''.'') h"
  have ls: "?ls \<noteq> []" by simp
  have last: "last ?ls = [] \<longleftrightarrow> last h = CHR ''.''"
    using assms by (simp add: split_on_def split_loop_last)
  have "validateHostname h = [] \<longleftrightarrow> length h \<le> 253 \<and> list_all hostLabelOk ?ls"
    using assms hostname_loop_ok [of "[]" h] by (auto simp: validateHostname_def split_on_def not_less)
  moreover have "\<not> list_all hostLabelOk ?ls" if "last ?ls = []"
    using that last_in_set [OF ls] by (auto simp: list_all_iff hostLabelOk_def)
  ultimately show ?thesis
    using assms isHostname_loop_labels [OF assms] last by (auto simp: isHostname_def Let_def not_less)
qed

theorem hostname_checks_agree_witness:
  "validateHostname ''web.example.'' \<noteq> [] \<and> isHostname ''web.example.''"
proof -
  have "isHostname_loop ''web.example.''"
    by (subst isHostname_loop_labels) (simp_all add: split_on_def hostLabelOk_def is_alnum_def)
  then have "isHostname ''web.example.''" by (simp add: isHostname_def)
  then show ?thesis using hostname_checks_agree [of "''web.example.''"] by simp
qed

section \<open>Jail parameters\<close>

lemma jailParamErr_ok:
  "jailParamErr tok = [] \<longleftrightarrow>
     (\<exists>key val kind. tok = key @ CHR ''='' # val \<and> CHR ''='' \<notin> set key \<and> val \<noteq> [] \<and>
        (key, kind) \<in> set kJailParamWhitelist \<and> validateJailParamValue kind val = [])"
proof (cases "cut_at (CHR ''='') tok")
  case None
  then have "CHR ''='' \<notin> set tok" by (simp add: cut_at_None_iff)
  with None show ?thesis by (auto simp: jailParamErr_def)
next
  case (Some kv)
  then obtain key val where kv: "kv = (key, val)" and tok: "tok = key @ CHR ''='' # val" "CHR ''='' \<notin> set key"
    by (metis cut_at_Some_iff surj_pair)
  have uniq: "key' = key \<and> val' = val" if "tok = key' @ CHR ''='' # val'" "CHR ''='' \<notin> set key'" for key' val'
    using that Some kv cut_at_append [of "CHR ''=''" key' val'] by auto
  have keys: "(k, x) \<in> set kJailParamWhitelist \<Longrightarrow> k \<noteq> []" for k x
    by (auto simp: kJailParamWhitelist_def)
  show ?thesis
  proof (cases "List.find (\<lambda>s. key = fst s) kJailParamWhitelist")
    case None
    then have none: "\<forall>kind. (key, kind) \<notin> set kJailParamWhitelist" by (force simp: find_None_iff)
    have "jailParamErr tok \<noteq> []" using Some None by (simp add: jailParamErr_def kv)
    with none uniq show ?thesis by metis
  next
    case (Some sp)
    then have mem: "(key, snd sp) \<in> set kJailParamWhitelist" by (auto simp: find_Some_iff)
    have fun_like: "kind = snd sp" if "(key, kind) \<in> set kJailParamWhitelist" for kind
      using that mem by (auto simp: kJailParamWhitelist_def)
    have "jailParamErr tok = [] \<longleftrightarrow> val \<noteq> [] \<and> validateJailParamValue (snd sp) val = []"
      using \<open>cut_at (CHR ''='') tok = Some kv\<close> Some keys [OF mem] by (simp add: jailParamErr_def kv)
    with mem fun_like tok uniq show ?thesis by metis
  qed
qed

lemma jailParams_loop_ok: "jailParams_loop toks = [] \<longleftrightarrow> (\<forall>t \<in> set toks. jailParamErr t = [])"
  by (induction toks) auto

lemma ruleText_loop_ok:
  "ruleText_loop s = [] \<longleftrightarrow> (\<forall>c \<in> set s. c \<notin> {CHR 0x0A, CHR 0x0D, CHR 0x60, CHR 0x24, CHR '';'', CHR 0x5C})"
  by (induction s) (auto simp: fail_if_def)

lemma validateRuleText_ok:
  "validateRuleText s = [] \<longleftrightarrow> s \<noteq> [] \<and> length s \<le> 1024 \<and>
     (\<forall>c \<in> set s. c \<notin> {CHR 0x0A, CHR 0x0D, CHR 0x60, CHR 0x24, CHR '';'', CHR 0x5C})"
  by (auto simp: validateRuleText_def ruleText_loop_ok not_less)


definition sample_create :: CreateJailReq where
  "sample_create = \<lparr>cj_name = ''web'', cj_path = ''/jails/web'', cj_hostname = ''web'', cj_vnet = False,
     cj_parameters = ''allow.mount=1''\<rparr>"

lemma sample_create_ok: "validateCreateJail sample_create = []"
proof -
  have "validateJailName ''web'' = []"
    by (simp add: validateJailName_def kKernelJailName_def name_char_def is_alnum_def)
  moreover have "validateAbsolutePath ''/jails/web'' = []"
    by (simp add: validateAbsolutePath_def hasDotDotSegment_def hasShellMetachar_def split_on_def)
  moreover have "validateHostname ''web'' = []"
    by (simp add: validateHostname_def hostLabelErr_def is_alnum_def)
  moreover have "validateRuleText ''allow.mount=1'' = []" by (simp add: validateRuleText_ok)
  moreover have "ws_tokens ''allow.mount=1'' = [''allow.mount=1'']" by (simp add: ws_tokens_def is_space_def)
  moreover have "jailParamErr ''allow.mount=1'' = []"
    unfolding jailParamErr_ok by (rule exI [of _ "''allow.mount''"]) (auto simp: kJailParamWhitelist_def)
  ultimately show ?thesis by (simp add: validateCreateJail_def sample_create_def validateJailParameters_def)
qed


section \<open>Addresses\<close>

lemma parseIpv4Octet_ok: "0 \<le> parseIpv4Octet s \<longleftrightarrow> (\<exists>n. parseOctet s = Some n)"
proof (cases "s = [] \<or> length s > 3 \<or> \<not> list_all is_digit s \<or> (length s > 1 \<and> hd s = CHR ''0'')")
  case True
  then show ?thesis
    by (auto simp: parseIpv4Octet_def parseOctet_def parseUnsignedDec_value all_digits_def split: if_splits)
next
  case False
  then have d: "list_all is_digit s" "s \<noteq> []" "length s \<le> 3" by auto
  have "dec_val s < 10 ^ length s" using d(1) by (rule dec_val_bound)
  also have "\<dots> \<le> 10 ^ 3" using d(3) by (intro power_increasing) simp_all
  finally have "dec_val s < 2 ^ 64" by simp
  with False d show ?thesis
    by (auto simp: parseIpv4Octet_def parseOctet_def parseUnsignedDec_value all_digits_def octet_loop_value Let_def)
qed

lemma ip_loop_ok: "(\<exists>w. ip_loop a ps = Inr w) \<longleftrightarrow> (\<forall>p \<in> set ps. \<exists>n. parseOctet p = Some n)"
  by (induction a ps rule: ip_loop.induct) (auto split: option.splits)

lemma octets_parseIp:
  "length (split_on (CHR ''.'') s) = 4 \<and> \<not> list_ex (\<lambda>p. parseIpv4Octet p < 0) (split_on (CHR ''.'') s) \<longleftrightarrow>
     (\<exists>w. parseIp s = Inr w)"
  using ip_loop_ok [of 0 "split_on (CHR ''.'') s"]
  by (auto simp: parseIp_def Let_def list_ex_iff parseIpv4Octet_ok [symmetric] not_less)

text \<open>
  The IPv4 CIDR check of the privileged operations accepts exactly the empty text and
  \<^verbatim>\<open>a.b.c.d/n\<close> with a canonical dotted quad and a decimal prefix length up to 32; so the address
  part is always one the allocator's own parser reads, and reads as the same address.
\<close>

theorem ipv4_cidr_language:
  "validateIpv4Cidr c = [] \<longleftrightarrow>
     c = [] \<or> (\<exists>w plen. c = formatIp w @ CHR ''/'' # plen \<and> all_digits plen \<and> dec_val plen \<le> 32)"
proof (cases "cut_at (CHR ''/'') c")
  case None
  then have "CHR ''/'' \<notin> set c" by (simp add: cut_at_None_iff)
  with None show ?thesis by (auto simp: validateIpv4Cidr_def)
next
  case (Some ab)
  then obtain addr plen where ab: "ab = (addr, plen)" and c: "c = addr @ CHR ''/'' # plen" "CHR ''/'' \<notin> set addr"
    by (metis cut_at_Some_iff surj_pair)
  have slash: "CHR ''/'' \<notin> set (formatIp w)" for w
    by (auto simp: formatIp_def dest: dec_char_digit simp: is_digit_def)
  have uniq: "addr = formatIp w \<and> plen = plen'" if "c = formatIp w @ CHR ''/'' # plen'" for w plen'
    using that Some ab cut_at_append [OF slash, of w plen'] by auto
  have ip: "(\<exists>w. parseIp addr = Inr w) \<longleftrightarrow> (\<exists>w. addr = formatIp w)"
    using parseIp_isFormat by blast
  have "validateIpv4Cidr c = [] \<longleftrightarrow> all_digits plen \<and> dec_val plen \<le> 32 \<and> (\<exists>w. parseIp addr = Inr w)"
    using Some octets_parseIp [of addr] by (auto simp: validateIpv4Cidr_def ab parseUnsignedDec_value c(1) Let_def)
  moreover have "(\<exists>w plen'. c = formatIp w @ CHR ''/'' # plen' \<and> all_digits plen' \<and> dec_val plen' \<le> 32) \<longleftrightarrow>
      all_digits plen \<and> dec_val plen \<le> 32 \<and> (\<exists>w. addr = formatIp w)"
    using uniq c(1) by blast
  moreover have "c \<noteq> []" using c(1) by simp
  ultimately show ?thesis using ip by blast
qed

text \<open>
  The IPv6 CIDR check is looser than the address predicate: it accepts a trailing single
  colon, which \<^const>\<open>isV6\<close> (and the kernel) reject.
\<close>

theorem ipv6_trailing_colon:
  "validateIpv6Cidr ''1:2:3:4:5:6:7:8:/64'' = [] \<and> \<not> isV6 ''1:2:3:4:5:6:7:8:'' \<and>
   validateIpv6Cidr ''fe80::1:/64'' = [] \<and> \<not> isV6 ''fe80::1:''"
proof (intro conjI)
  have p: "parseUnsignedDec ''64'' = Some 64"
    by (simp add: parseUnsignedDec_def is_digit_def digit_val_def)
  have "cut_at (CHR ''/'') ''1:2:3:4:5:6:7:8:/64'' = Some (''1:2:3:4:5:6:7:8:'', ''64'')" by simp
  moreover have "ipv6_loop [] 0 False ''1:2:3:4:5:6:7:8:'' = Inr ([], 8, False)"
    by (simp add: is_hex_def)
  ultimately show "validateIpv6Cidr ''1:2:3:4:5:6:7:8:/64'' = []"
    by (simp add: validateIpv6Cidr_def p)
  have "cut_at (CHR ''/'') ''fe80::1:/64'' = Some (''fe80::1:'', ''64'')" by simp
  moreover have "ipv6_loop [] 0 False ''fe80::1:'' = Inr ([], 2, True)"
    by (simp add: is_hex_def)
  ultimately show "validateIpv6Cidr ''fe80::1:/64'' = []" by (simp add: validateIpv6Cidr_def p)
  show "\<not> isV6 ''1:2:3:4:5:6:7:8:''" by code_simp
  show "\<not> isV6 ''fe80::1:''" by code_simp
qed

section \<open>Paths and commands\<close>

lemma split_on_segments:
  "hasDotDotSegment p \<longleftrightarrow> ''..'' \<in> set (split_on (CHR ''/'') p)"
  by (auto simp: hasDotDotSegment_def list_ex_iff)

lemma validateAbsolutePath_ok:
  "validateAbsolutePath p = [] \<longleftrightarrow> p \<noteq> [] \<and> hd p = CHR ''/'' \<and> length p \<le> 1024 \<and>
     ''..'' \<notin> set (split_on (CHR ''/'') p) \<and> \<not> hasShellMetachar p"
  by (auto simp: validateAbsolutePath_def split_on_segments not_less)

lemma argv_loop_ok:
  "tot \<le> kExecInJailMaxArgvBytes \<Longrightarrow> argv_loop tot as = [] \<longleftrightarrow>
     (\<forall>a \<in> set as. CHR 0x00 \<notin> set a) \<and> tot + sum_list (map (\<lambda>a. Suc (length a)) as) \<le> kExecInJailMaxArgvBytes"
proof (induction tot as rule: argv_loop.induct)
  case (2 tot a as)
  then show ?case by (cases "kExecInJailMaxArgvBytes < tot + length a + 1") (auto simp: not_less)
qed simp

text \<open>
  What \<^verbatim>\<open>exec_in_jail\<close> lets through: exactly the requests with a jid in 1..65535, an
  acceptable user and terminal name, between 1 and 256 arguments none of which contains a NUL
  byte, an absolute program path of at most 1024 characters, and at most 65536 bytes of
  arguments counting their terminators.
\<close>

theorem exec_in_jail_accepts:
  "validateExecInJail r = [] \<longleftrightarrow>
     1 \<le> ej_jid r \<and> ej_jid r \<le> 65535 \<and> validateJailUserName (ej_user r) = [] \<and> validateTermName (ej_term r) = [] \<and>
     ej_argv r \<noteq> [] \<and> length (ej_argv r) \<le> 256 \<and>
     (\<exists>rest. hd (ej_argv r) = CHR ''/'' # rest) \<and> length (hd (ej_argv r)) \<le> 1024 \<and>
     list_all (\<lambda>a. CHR 0x00 \<notin> set a) (ej_argv r) \<and>
     sum_list (map (\<lambda>a. Suc (length a)) (ej_argv r)) \<le> 65536"
proof -
  have hd: "(\<exists>rest. a = CHR ''/'' # rest) \<longleftrightarrow> a \<noteq> [] \<and> hd a = CHR ''/''" for a :: string
    by (cases a) auto
  have jid: "jid_range_err j rest = [] \<longleftrightarrow> 1 \<le> j \<and> j \<le> 65535 \<and> rest = []" for j rest
    by (auto simp: jid_range_err_def)
  have loop: "argv_loop 0 (ej_argv r) = [] \<longleftrightarrow> list_all (\<lambda>a. CHR 0x00 \<notin> set a) (ej_argv r) \<and>
     sum_list (map (\<lambda>a. Suc (length a)) (ej_argv r)) \<le> 65536"
    using argv_loop_ok [of 0 "ej_argv r"] by (simp add: kExecInJailMaxArgvBytes_def list_all_iff)
  show ?thesis
    by (simp add: validateExecInJail_def jid hd loop kExecInJailMaxArgs_def not_less)
qed

end
