(* ===== verification/NvParse.thy ===== *)
theory NvParse
  imports PrivOps
begin

text \<open>
  The libnv transport of the privileged operations, \<^verbatim>\<open>lib/privops_nv_pure.{h,cpp}\<close>: the listener
  flattens an nvlist into a string map, and one parser per verb turns the map into the typed
  request. An out-parameter and an error string become one sum; an optional field that is absent
  leaves the default of the request record. The datatype \<^verbatim>\<open>request\<close> collects the typed requests,
  so that the verb switches of the code are functions on one type.
\<close>

type_synonym FieldMap = "string \<Rightarrow> string option"

section \<open>Accessors\<close>

definition requireString :: "FieldMap \<Rightarrow> string \<Rightarrow> string res" where
  "requireString m key = (case m key of None \<Rightarrow> Inl (''missing field '' @ quoted key) | Some s \<Rightarrow> Inr s)"

text \<open>\<^verbatim>\<open>strtol\<close> on a 64-bit \<^verbatim>\<open>long\<close>, for an optional sign and digits: it saturates.\<close>

definition strtol :: "string \<Rightarrow> int" where
  "strtol s =
     (let v = (if s \<noteq> [] \<and> hd s = CHR ''-'' then - int (dec_val (tl s)) else int (dec_val s))
      in max (- (2 ^ 63)) (min (2 ^ 63 - 1) v))"

definition requireLong :: "FieldMap \<Rightarrow> string \<Rightarrow> int res" where
  "requireLong m key =
     (case m key of
        None \<Rightarrow> Inl (''missing field '' @ quoted key)
      | Some s \<Rightarrow>
        let ds = (if s \<noteq> [] \<and> hd s = CHR ''-'' then tl s else s) in
        if s = [] then Inl (''field '' @ quoted key @ '' is empty'')
        else if ds = [] \<or> \<not> list_all is_digit ds then Inl (''field '' @ quoted key @ '' is not an integer'')
        else Inr (strtol s))"

definition requireUnsigned :: "FieldMap \<Rightarrow> string \<Rightarrow> nat res" where
  "requireUnsigned m key =
     bind_res (requireLong m key) (\<lambda>v.
     if v < 0 then Inl (''field '' @ quoted key @ '' must be non-negative'')
     else if v > 0xFFFFFFFF then Inl (''field '' @ quoted key @ '' overflows 32-bit unsigned'')
     else Inr (nat v))"

definition optionalString :: "FieldMap \<Rightarrow> string \<Rightarrow> string \<Rightarrow> string res" where
  "optionalString m key dflt = Inr (case m key of None \<Rightarrow> dflt | Some s \<Rightarrow> s)"

definition optionalBool :: "FieldMap \<Rightarrow> string \<Rightarrow> bool \<Rightarrow> bool res" where
  "optionalBool m key dflt =
     (case m key of
        None \<Rightarrow> Inr dflt
      | Some s \<Rightarrow>
        if s = ''true'' \<or> s = ''1'' then Inr True
        else if s = ''false'' \<or> s = ''0'' then Inr False
        else Inl (''field '' @ quoted key @ '' is not a boolean''))"

text \<open>The count of a list field, and its elements under numbered keys.\<close>

definition argc_check :: "nat \<Rightarrow> nat \<Rightarrow> unit res" where
  "argc_check argc limit =
     (if argc = 0 then Inl (''field '' @ quoted ''argc'' @ '' must be >= 1'')
      else if argc > limit then Inl (''field '' @ quoted ''argc'' @ '' exceeds '' @ dec limit)
      else Inr ())"

fun requireSeq :: "FieldMap \<Rightarrow> string \<Rightarrow> nat \<Rightarrow> nat \<Rightarrow> string list res" where
  "requireSeq m pfx i 0 = Inr []"
| "requireSeq m pfx i (Suc n) =
     bind_res (requireString m (pfx @ dec i)) (\<lambda>a.
     bind_res (requireSeq m pfx (Suc i) n) (\<lambda>items. Inr (a # items)))"

section \<open>Per-verb parsers\<close>

definition parseCreateJail :: "FieldMap \<Rightarrow> CreateJailReq res" where
  "parseCreateJail m =
     bind_res (requireString m ''name'') (\<lambda>name.
     bind_res (requireString m ''path'') (\<lambda>path.
     bind_res (optionalString m ''hostname'' []) (\<lambda>hostname.
     bind_res (optionalBool m ''vnet'' False) (\<lambda>vnet.
     bind_res (optionalString m ''parameters'' []) (\<lambda>parameters.
     Inr \<lparr>cj_name = name, cj_path = path, cj_hostname = hostname, cj_vnet = vnet, cj_parameters = parameters\<rparr>)))))"

definition parseDestroyJail :: "FieldMap \<Rightarrow> DestroyJailReq res" where
  "parseDestroyJail m =
     bind_res (requireString m ''name'') (\<lambda>name.
     bind_res (optionalBool m ''force'' False) (\<lambda>force.
     Inr \<lparr>dj_name = name, dj_force = force\<rparr>))"

definition parseMountNullfs :: "FieldMap \<Rightarrow> MountNullfsReq res" where
  "parseMountNullfs m =
     bind_res (requireString m ''source'') (\<lambda>source.
     bind_res (requireString m ''target'') (\<lambda>target.
     bind_res (optionalBool m ''read_only'' True) (\<lambda>read_only.
     Inr \<lparr>mn_source = source, mn_target = target, mn_readOnly = read_only\<rparr>)))"

definition parseUnmountNullfs :: "FieldMap \<Rightarrow> UnmountNullfsReq res" where
  "parseUnmountNullfs m =
     bind_res (requireString m ''target'') (\<lambda>target.
     bind_res (optionalBool m ''force'' False) (\<lambda>force.
     Inr \<lparr>un_target = target, un_force = force\<rparr>))"

definition parseSetRctl :: "FieldMap \<Rightarrow> SetRctlReq res" where
  "parseSetRctl m =
     bind_res (requireLong m ''jid'') (\<lambda>jid.
     bind_res (requireString m ''key'') (\<lambda>key.
     bind_res (requireString m ''value'') (\<lambda>value.
     Inr \<lparr>sr_jid = jid, sr_key = key, sr_rawValue = value\<rparr>)))"

definition parseClearRctl :: "FieldMap \<Rightarrow> ClearRctlReq res" where
  "parseClearRctl m =
     bind_res (requireLong m ''jid'') (\<lambda>jid.
     bind_res (requireString m ''key'') (\<lambda>key.
     Inr \<lparr>cr_jid = jid, cr_key = key\<rparr>))"

definition parseAttachZfs :: "FieldMap \<Rightarrow> AttachZfsReq res" where
  "parseAttachZfs m =
     bind_res (requireLong m ''jid'') (\<lambda>jid.
     bind_res (requireString m ''dataset'') (\<lambda>dataset.
     Inr \<lparr>az_jid = jid, az_dataset = dataset\<rparr>))"

definition parseDetachZfs :: "FieldMap \<Rightarrow> DetachZfsReq res" where
  "parseDetachZfs m =
     bind_res (requireLong m ''jid'') (\<lambda>jid.
     bind_res (requireString m ''dataset'') (\<lambda>dataset.
     Inr \<lparr>dz_jid = jid, dz_dataset = dataset\<rparr>))"

definition parseConfigureIface :: "FieldMap \<Rightarrow> ConfigureIfaceReq res" where
  "parseConfigureIface m =
     bind_res (requireLong m ''jid'') (\<lambda>jid.
     bind_res (requireString m ''ifname'') (\<lambda>ifname.
     bind_res (optionalString m ''bridge'' []) (\<lambda>bridge.
     bind_res (optionalString m ''ipv4_cidr'' []) (\<lambda>ipv4_cidr.
     bind_res (optionalString m ''ipv6_cidr'' []) (\<lambda>ipv6_cidr.
     bind_res (optionalString m ''mac_addr'' []) (\<lambda>mac_addr.
     Inr \<lparr>ci_jid = jid, ci_ifname = ifname, ci_bridge = bridge, ci_ipv4Cidr = ipv4_cidr, ci_ipv6Cidr = ipv6_cidr, ci_macAddr = mac_addr\<rparr>))))))"

definition parseTeardownIface :: "FieldMap \<Rightarrow> TeardownIfaceReq res" where
  "parseTeardownIface m =
     bind_res (requireString m ''ifname'') (\<lambda>ifname.
     Inr \<lparr>ti_ifname = ifname\<rparr>)"

definition parseAddPfRule :: "FieldMap \<Rightarrow> AddPfRuleReq res" where
  "parseAddPfRule m =
     bind_res (requireString m ''anchor'') (\<lambda>anchor.
     bind_res (requireString m ''rule'') (\<lambda>rule.
     Inr \<lparr>ap_anchor = anchor, ap_ruleText = rule\<rparr>))"

definition parseRemovePfRule :: "FieldMap \<Rightarrow> RemovePfRuleReq res" where
  "parseRemovePfRule m =
     bind_res (requireString m ''anchor'') (\<lambda>anchor.
     bind_res (requireString m ''rule'') (\<lambda>rule.
     Inr \<lparr>rp_anchor = anchor, rp_ruleText = rule\<rparr>))"

definition parseAddIpfwRule :: "FieldMap \<Rightarrow> AddIpfwRuleReq res" where
  "parseAddIpfwRule m =
     bind_res (requireUnsigned m ''set'') (\<lambda>set.
     bind_res (requireUnsigned m ''number'') (\<lambda>number.
     bind_res (requireString m ''action'') (\<lambda>action.
     bind_res (requireString m ''body'') (\<lambda>body.
     Inr \<lparr>ai_set = set, ai_number = number, ai_action = action, ai_body = body\<rparr>))))"

definition parseRemoveIpfwRule :: "FieldMap \<Rightarrow> RemoveIpfwRuleReq res" where
  "parseRemoveIpfwRule m =
     bind_res (requireUnsigned m ''set'') (\<lambda>set.
     bind_res (requireUnsigned m ''number'') (\<lambda>number.
     Inr \<lparr>ri_set = set, ri_number = number\<rparr>))"

definition parseSetIfaceUp :: "FieldMap \<Rightarrow> SetIfaceUpReq res" where
  "parseSetIfaceUp m =
     bind_res (requireString m ''ifname'') (\<lambda>ifname.
     Inr \<lparr>su_ifname = ifname\<rparr>)"

definition parseDisableIfaceOffload :: "FieldMap \<Rightarrow> DisableIfaceOffloadReq res" where
  "parseDisableIfaceOffload m =
     bind_res (requireString m ''ifname'') (\<lambda>ifname.
     Inr \<lparr>do_ifname = ifname\<rparr>)"

definition parseBridgeAddMember :: "FieldMap \<Rightarrow> BridgeAddMemberReq res" where
  "parseBridgeAddMember m =
     bind_res (requireString m ''bridge'') (\<lambda>bridge.
     bind_res (requireString m ''member'') (\<lambda>member.
     Inr \<lparr>ba_bridge = bridge, ba_member = member\<rparr>))"

definition parseBridgeDelMember :: "FieldMap \<Rightarrow> BridgeDelMemberReq res" where
  "parseBridgeDelMember m =
     bind_res (requireString m ''bridge'') (\<lambda>bridge.
     bind_res (requireString m ''member'') (\<lambda>member.
     Inr \<lparr>bd_bridge = bridge, bd_member = member\<rparr>))"

definition parseSetIfaceInetAddr :: "FieldMap \<Rightarrow> SetIfaceInetAddrReq res" where
  "parseSetIfaceInetAddr m =
     bind_res (requireString m ''ifname'') (\<lambda>ifname.
     bind_res (optionalBool m ''inet6'' False) (\<lambda>inet6.
     bind_res (requireString m ''addr'') (\<lambda>addr.
     bind_res (requireUnsigned m ''prefix_len'') (\<lambda>prefix_len.
     Inr \<lparr>sa_ifname = ifname, sa_addr = addr, sa_prefixLen = prefix_len, sa_inet6 = inet6\<rparr>))))"

definition parseCreateEpair :: "FieldMap \<Rightarrow> CreateEpairReq res" where
  "parseCreateEpair m = Inr ()"

definition parseEnsureUserRoot :: "FieldMap \<Rightarrow> EnsureUserRootReq res" where
  "parseEnsureUserRoot m = Inr ()"

definition parseSetLoginclassRctl :: "FieldMap \<Rightarrow> SetLoginclassRctlReq res" where
  "parseSetLoginclassRctl m =
     bind_res (requireString m ''loginclass'') (\<lambda>loginclass.
     bind_res (requireString m ''key'') (\<lambda>key.
     bind_res (requireString m ''value'') (\<lambda>value.
     Inr \<lparr>sl_loginclass = loginclass, sl_key = key, sl_rawValue = value\<rparr>)))"

definition parseClearLoginclassRctl :: "FieldMap \<Rightarrow> ClearLoginclassRctlReq res" where
  "parseClearLoginclassRctl m =
     bind_res (requireString m ''loginclass'') (\<lambda>loginclass.
     bind_res (requireString m ''key'') (\<lambda>key.
     Inr \<lparr>cl_loginclass = loginclass, cl_key = key\<rparr>))"

definition parseReclaimIfaceFromVnet :: "FieldMap \<Rightarrow> ReclaimIfaceFromVnetReq res" where
  "parseReclaimIfaceFromVnet m =
     bind_res (requireString m ''ifname'') (\<lambda>ifname.
     bind_res (requireString m ''jail_name'') (\<lambda>jail_name.
     Inr \<lparr>rv_ifname = ifname, rv_jailName = jail_name\<rparr>))"

definition parseFlushPfAnchor :: "FieldMap \<Rightarrow> FlushPfAnchorReq res" where
  "parseFlushPfAnchor m =
     bind_res (requireString m ''anchor'') (\<lambda>anchor.
     Inr \<lparr>fa_anchor = anchor\<rparr>)"

definition parseQueryJailRctl :: "FieldMap \<Rightarrow> QueryJailRctlReq res" where
  "parseQueryJailRctl m =
     bind_res (requireUnsigned m ''jid'') (\<lambda>jid.
     bind_res (optionalBool m ''limits'' False) (\<lambda>limits.
     Inr \<lparr>qj_jid = jid, qj_limits = limits\<rparr>))"

definition parseSetIfaceMac :: "FieldMap \<Rightarrow> SetIfaceMacReq res" where
  "parseSetIfaceMac m =
     bind_res (requireString m ''ifname'') (\<lambda>ifname.
     bind_res (requireString m ''mac'') (\<lambda>mac.
     Inr \<lparr>sm_ifname = ifname, sm_mac = mac\<rparr>))"

definition parseDeleteIpfwNat :: "FieldMap \<Rightarrow> DeleteIpfwNatReq res" where
  "parseDeleteIpfwNat m =
     bind_res (requireUnsigned m ''number'') (\<lambda>number.
     Inr \<lparr>dn_number = number\<rparr>)"

definition parseCreateBridge :: "FieldMap \<Rightarrow> CreateBridgeReq res" where
  "parseCreateBridge m =
     bind_res (requireString m ''name'') (\<lambda>name.
     Inr \<lparr>cb_name = name\<rparr>)"

definition parseAcquireFwLease :: "FieldMap \<Rightarrow> AcquireFwLeaseReq res" where
  "parseAcquireFwLease m =
     bind_res (requireUnsigned m ''jid'') (\<lambda>jid.
     bind_res (optionalBool m ''slot'' False) (\<lambda>slot.
     bind_res (optionalBool m ''fwd4'' False) (\<lambda>fwd4.
     bind_res (optionalBool m ''fwd6'' False) (\<lambda>fwd6.
     Inr \<lparr>af_jid = jid, af_slot = slot, af_fwd4 = fwd4, af_fwd6 = fwd6\<rparr>))))"

definition parseReleaseFwLease :: "FieldMap \<Rightarrow> ReleaseFwLeaseReq res" where
  "parseReleaseFwLease m =
     bind_res (requireUnsigned m ''jid'') (\<lambda>jid.
     Inr \<lparr>rf_jid = jid\<rparr>)"

definition parseConfigureIpfwNat :: "FieldMap \<Rightarrow> ConfigureIpfwNatReq res" where
  "parseConfigureIpfwNat m =
     bind_res (requireUnsigned m ''number'') (\<lambda>number.
     bind_res (requireString m ''config'') (\<lambda>config.
     Inr \<lparr>cn_number = number, cn_config = config\<rparr>))"

definition parseSetJailCpuset :: "FieldMap \<Rightarrow> SetJailCpusetReq res" where
  "parseSetJailCpuset m =
     bind_res (requireUnsigned m ''jid'') (\<lambda>jid.
     bind_res (requireString m ''cpuset'') (\<lambda>cpuset.
     Inr \<lparr>sc_jid = jid, sc_cpuset = cpuset\<rparr>))"

definition parseApplyDevfsRuleset :: "FieldMap \<Rightarrow> ApplyDevfsRulesetReq res" where
  "parseApplyDevfsRuleset m =
     bind_res (requireString m ''mount_path'') (\<lambda>mount_path.
     bind_res (requireUnsigned m ''ruleset'') (\<lambda>ruleset.
     Inr \<lparr>ad_mountPath = mount_path, ad_ruleset = ruleset\<rparr>))"

definition parseAddDevfsUnhideRule :: "FieldMap \<Rightarrow> AddDevfsUnhideRuleReq res" where
  "parseAddDevfsUnhideRule m =
     bind_res (requireString m ''mount_path'') (\<lambda>mount_path.
     bind_res (requireString m ''path_pattern'') (\<lambda>path_pattern.
     Inr \<lparr>au_mountPath = mount_path, au_pathPattern = path_pattern\<rparr>))"

definition parseSignalJail :: "FieldMap \<Rightarrow> SignalJailReq res" where
  "parseSignalJail m =
     bind_res (requireUnsigned m ''jid'') (\<lambda>jid.
     bind_res (requireString m ''signal'') (\<lambda>signal.
     Inr \<lparr>sj_jid = jid, sj_signal = signal\<rparr>))"

definition parseExecInJail :: "FieldMap \<Rightarrow> ExecInJailReq res" where
  "parseExecInJail m =
     bind_res (requireUnsigned m ''jid'') (\<lambda>jid.
     bind_res (optionalString m ''user'' []) (\<lambda>user.
     bind_res (optionalString m ''term'' []) (\<lambda>term.
     bind_res (requireUnsigned m ''argc'') (\<lambda>argc.
     bind_res (argc_check argc kExecInJailMaxArgs) (\<lambda>_.
     bind_res (requireSeq m ''argv'' 0 argc) (\<lambda>items.
     Inr \<lparr>ej_jid = jid, ej_user = user, ej_argv = items, ej_term = term\<rparr>))))))"

definition parseApplyDevfsRules :: "FieldMap \<Rightarrow> ApplyDevfsRulesReq res" where
  "parseApplyDevfsRules m =
     bind_res (requireString m ''mount_path'') (\<lambda>mount_path.
     bind_res (requireUnsigned m ''ruleset'') (\<lambda>ruleset.
     bind_res (requireUnsigned m ''argc'') (\<lambda>argc.
     bind_res (argc_check argc kApplyDevfsRulesMaxRules) (\<lambda>_.
     bind_res (requireSeq m ''rule'' 0 argc) (\<lambda>items.
     Inr \<lparr>ar_mountPath = mount_path, ar_ruleset = ruleset, ar_rules = items\<rparr>)))))"

definition parseMountTmpfs :: "FieldMap \<Rightarrow> MountTmpfsReq res" where
  "parseMountTmpfs m =
     bind_res (requireString m ''target'') (\<lambda>target.
     bind_res (optionalString m ''size'' []) (\<lambda>size.
     bind_res (optionalString m ''uid'' []) (\<lambda>uid.
     bind_res (optionalString m ''gid'' []) (\<lambda>gid.
     bind_res (optionalString m ''mode'' []) (\<lambda>mode.
     Inr \<lparr>mt_target = target, mt_size = size, mt_uid = uid, mt_gid = gid, mt_mode = mode\<rparr>)))))"

section \<open>Requests of every verb\<close>

datatype request =
    R_CreateJail CreateJailReq
  | R_DestroyJail DestroyJailReq
  | R_MountNullfs MountNullfsReq
  | R_UnmountNullfs UnmountNullfsReq
  | R_SetRctl SetRctlReq
  | R_ClearRctl ClearRctlReq
  | R_AttachZfs AttachZfsReq
  | R_DetachZfs DetachZfsReq
  | R_ConfigureIface ConfigureIfaceReq
  | R_TeardownIface TeardownIfaceReq
  | R_AddPfRule AddPfRuleReq
  | R_RemovePfRule RemovePfRuleReq
  | R_AddIpfwRule AddIpfwRuleReq
  | R_RemoveIpfwRule RemoveIpfwRuleReq
  | R_SetIfaceUp SetIfaceUpReq
  | R_DisableIfaceOffload DisableIfaceOffloadReq
  | R_BridgeAddMember BridgeAddMemberReq
  | R_BridgeDelMember BridgeDelMemberReq
  | R_SetIfaceInetAddr SetIfaceInetAddrReq
  | R_CreateEpair
  | R_EnsureUserRoot
  | R_SetLoginclassRctl SetLoginclassRctlReq
  | R_ClearLoginclassRctl ClearLoginclassRctlReq
  | R_ReclaimIfaceFromVnet ReclaimIfaceFromVnetReq
  | R_FlushPfAnchor FlushPfAnchorReq
  | R_QueryJailRctl QueryJailRctlReq
  | R_ConfigureIpfwNat ConfigureIpfwNatReq
  | R_SetJailCpuset SetJailCpusetReq
  | R_ApplyDevfsRuleset ApplyDevfsRulesetReq
  | R_AddDevfsUnhideRule AddDevfsUnhideRuleReq
  | R_SignalJail SignalJailReq
  | R_ExecInJail ExecInJailReq
  | R_SetIfaceMac SetIfaceMacReq
  | R_DeleteIpfwNat DeleteIpfwNatReq
  | R_CreateBridge CreateBridgeReq
  | R_AcquireFwLease AcquireFwLeaseReq
  | R_ReleaseFwLease ReleaseFwLeaseReq
  | R_ApplyDevfsRules ApplyDevfsRulesReq
  | R_MountTmpfs MountTmpfsReq

fun verb_of :: "request \<Rightarrow> verb" where
  "verb_of (R_CreateJail _) = CreateJail"
| "verb_of (R_DestroyJail _) = DestroyJail"
| "verb_of (R_MountNullfs _) = MountNullfs"
| "verb_of (R_UnmountNullfs _) = UnmountNullfs"
| "verb_of (R_SetRctl _) = SetRctl"
| "verb_of (R_ClearRctl _) = ClearRctl"
| "verb_of (R_AttachZfs _) = AttachZfs"
| "verb_of (R_DetachZfs _) = DetachZfs"
| "verb_of (R_ConfigureIface _) = ConfigureIface"
| "verb_of (R_TeardownIface _) = TeardownIface"
| "verb_of (R_AddPfRule _) = AddPfRule"
| "verb_of (R_RemovePfRule _) = RemovePfRule"
| "verb_of (R_AddIpfwRule _) = AddIpfwRule"
| "verb_of (R_RemoveIpfwRule _) = RemoveIpfwRule"
| "verb_of (R_SetIfaceUp _) = SetIfaceUp"
| "verb_of (R_DisableIfaceOffload _) = DisableIfaceOffload"
| "verb_of (R_BridgeAddMember _) = BridgeAddMember"
| "verb_of (R_BridgeDelMember _) = BridgeDelMember"
| "verb_of (R_SetIfaceInetAddr _) = SetIfaceInetAddr"
| "verb_of R_CreateEpair = CreateEpair"
| "verb_of R_EnsureUserRoot = EnsureUserRoot"
| "verb_of (R_SetLoginclassRctl _) = SetLoginclassRctl"
| "verb_of (R_ClearLoginclassRctl _) = ClearLoginclassRctl"
| "verb_of (R_ReclaimIfaceFromVnet _) = ReclaimIfaceFromVnet"
| "verb_of (R_FlushPfAnchor _) = FlushPfAnchor"
| "verb_of (R_QueryJailRctl _) = QueryJailRctl"
| "verb_of (R_ConfigureIpfwNat _) = ConfigureIpfwNat"
| "verb_of (R_SetJailCpuset _) = SetJailCpuset"
| "verb_of (R_ApplyDevfsRuleset _) = ApplyDevfsRuleset"
| "verb_of (R_AddDevfsUnhideRule _) = AddDevfsUnhideRule"
| "verb_of (R_SignalJail _) = SignalJail"
| "verb_of (R_ExecInJail _) = ExecInJail"
| "verb_of (R_SetIfaceMac _) = SetIfaceMac"
| "verb_of (R_DeleteIpfwNat _) = DeleteIpfwNat"
| "verb_of (R_CreateBridge _) = CreateBridge"
| "verb_of (R_AcquireFwLease _) = AcquireFwLease"
| "verb_of (R_ReleaseFwLease _) = ReleaseFwLease"
| "verb_of (R_ApplyDevfsRules _) = ApplyDevfsRules"
| "verb_of (R_MountTmpfs _) = MountTmpfs"

text \<open>The parse step of each case of the dispatchers' verb switch.\<close>

definition parse_as :: "('a \<Rightarrow> request) \<Rightarrow> 'a res \<Rightarrow> request res" where
  "parse_as c r = bind_res r (\<lambda>a. Inr (c a))"

fun parse_request :: "verb \<Rightarrow> FieldMap \<Rightarrow> request res" where
  "parse_request CreateJail m = parse_as R_CreateJail (parseCreateJail m)"
| "parse_request DestroyJail m = parse_as R_DestroyJail (parseDestroyJail m)"
| "parse_request MountNullfs m = parse_as R_MountNullfs (parseMountNullfs m)"
| "parse_request UnmountNullfs m = parse_as R_UnmountNullfs (parseUnmountNullfs m)"
| "parse_request SetRctl m = parse_as R_SetRctl (parseSetRctl m)"
| "parse_request ClearRctl m = parse_as R_ClearRctl (parseClearRctl m)"
| "parse_request AttachZfs m = parse_as R_AttachZfs (parseAttachZfs m)"
| "parse_request DetachZfs m = parse_as R_DetachZfs (parseDetachZfs m)"
| "parse_request ConfigureIface m = parse_as R_ConfigureIface (parseConfigureIface m)"
| "parse_request TeardownIface m = parse_as R_TeardownIface (parseTeardownIface m)"
| "parse_request AddPfRule m = parse_as R_AddPfRule (parseAddPfRule m)"
| "parse_request RemovePfRule m = parse_as R_RemovePfRule (parseRemovePfRule m)"
| "parse_request AddIpfwRule m = parse_as R_AddIpfwRule (parseAddIpfwRule m)"
| "parse_request RemoveIpfwRule m = parse_as R_RemoveIpfwRule (parseRemoveIpfwRule m)"
| "parse_request SetIfaceUp m = parse_as R_SetIfaceUp (parseSetIfaceUp m)"
| "parse_request DisableIfaceOffload m = parse_as R_DisableIfaceOffload (parseDisableIfaceOffload m)"
| "parse_request BridgeAddMember m = parse_as R_BridgeAddMember (parseBridgeAddMember m)"
| "parse_request BridgeDelMember m = parse_as R_BridgeDelMember (parseBridgeDelMember m)"
| "parse_request SetIfaceInetAddr m = parse_as R_SetIfaceInetAddr (parseSetIfaceInetAddr m)"
| "parse_request CreateEpair m = parse_as (\<lambda>_. R_CreateEpair) (parseCreateEpair m)"
| "parse_request EnsureUserRoot m = parse_as (\<lambda>_. R_EnsureUserRoot) (parseEnsureUserRoot m)"
| "parse_request SetLoginclassRctl m = parse_as R_SetLoginclassRctl (parseSetLoginclassRctl m)"
| "parse_request ClearLoginclassRctl m = parse_as R_ClearLoginclassRctl (parseClearLoginclassRctl m)"
| "parse_request ReclaimIfaceFromVnet m = parse_as R_ReclaimIfaceFromVnet (parseReclaimIfaceFromVnet m)"
| "parse_request FlushPfAnchor m = parse_as R_FlushPfAnchor (parseFlushPfAnchor m)"
| "parse_request QueryJailRctl m = parse_as R_QueryJailRctl (parseQueryJailRctl m)"
| "parse_request ConfigureIpfwNat m = parse_as R_ConfigureIpfwNat (parseConfigureIpfwNat m)"
| "parse_request SetJailCpuset m = parse_as R_SetJailCpuset (parseSetJailCpuset m)"
| "parse_request ApplyDevfsRuleset m = parse_as R_ApplyDevfsRuleset (parseApplyDevfsRuleset m)"
| "parse_request AddDevfsUnhideRule m = parse_as R_AddDevfsUnhideRule (parseAddDevfsUnhideRule m)"
| "parse_request SignalJail m = parse_as R_SignalJail (parseSignalJail m)"
| "parse_request ExecInJail m = parse_as R_ExecInJail (parseExecInJail m)"
| "parse_request SetIfaceMac m = parse_as R_SetIfaceMac (parseSetIfaceMac m)"
| "parse_request DeleteIpfwNat m = parse_as R_DeleteIpfwNat (parseDeleteIpfwNat m)"
| "parse_request CreateBridge m = parse_as R_CreateBridge (parseCreateBridge m)"
| "parse_request AcquireFwLease m = parse_as R_AcquireFwLease (parseAcquireFwLease m)"
| "parse_request ReleaseFwLease m = parse_as R_ReleaseFwLease (parseReleaseFwLease m)"
| "parse_request ApplyDevfsRules m = parse_as R_ApplyDevfsRules (parseApplyDevfsRules m)"
| "parse_request MountTmpfs m = parse_as R_MountTmpfs (parseMountTmpfs m)"
| "parse_request Unknown m = Inl ''unknown verb''"

text \<open>The validate step of each case.\<close>

fun validate_request :: "request \<Rightarrow> err" where
  "validate_request (R_CreateJail r) = validateCreateJail r"
| "validate_request (R_DestroyJail r) = validateDestroyJail r"
| "validate_request (R_MountNullfs r) = validateMountNullfs r"
| "validate_request (R_UnmountNullfs r) = validateUnmountNullfs r"
| "validate_request (R_SetRctl r) = validateSetRctl r"
| "validate_request (R_ClearRctl r) = validateClearRctl r"
| "validate_request (R_AttachZfs r) = validateAttachZfs r"
| "validate_request (R_DetachZfs r) = validateDetachZfs r"
| "validate_request (R_ConfigureIface r) = validateConfigureIface r"
| "validate_request (R_TeardownIface r) = validateTeardownIface r"
| "validate_request (R_AddPfRule r) = validateAddPfRule r"
| "validate_request (R_RemovePfRule r) = validateRemovePfRule r"
| "validate_request (R_AddIpfwRule r) = validateAddIpfwRule r"
| "validate_request (R_RemoveIpfwRule r) = validateRemoveIpfwRule r"
| "validate_request (R_SetIfaceUp r) = validateSetIfaceUp r"
| "validate_request (R_DisableIfaceOffload r) = validateDisableIfaceOffload r"
| "validate_request (R_BridgeAddMember r) = validateBridgeAddMember r"
| "validate_request (R_BridgeDelMember r) = validateBridgeDelMember r"
| "validate_request (R_SetIfaceInetAddr r) = validateSetIfaceInetAddr r"
| "validate_request R_CreateEpair = validateCreateEpair ()"
| "validate_request R_EnsureUserRoot = validateEnsureUserRoot ()"
| "validate_request (R_SetLoginclassRctl r) = validateSetLoginclassRctl r"
| "validate_request (R_ClearLoginclassRctl r) = validateClearLoginclassRctl r"
| "validate_request (R_ReclaimIfaceFromVnet r) = validateReclaimIfaceFromVnet r"
| "validate_request (R_FlushPfAnchor r) = validateFlushPfAnchor r"
| "validate_request (R_QueryJailRctl r) = validateQueryJailRctl r"
| "validate_request (R_ConfigureIpfwNat r) = validateConfigureIpfwNat r"
| "validate_request (R_SetJailCpuset r) = validateSetJailCpuset r"
| "validate_request (R_ApplyDevfsRuleset r) = validateApplyDevfsRuleset r"
| "validate_request (R_AddDevfsUnhideRule r) = validateAddDevfsUnhideRule r"
| "validate_request (R_SignalJail r) = validateSignalJail r"
| "validate_request (R_ExecInJail r) = validateExecInJail r"
| "validate_request (R_SetIfaceMac r) = validateSetIfaceMac r"
| "validate_request (R_DeleteIpfwNat r) = validateDeleteIpfwNat r"
| "validate_request (R_CreateBridge r) = validateCreateBridge r"
| "validate_request (R_AcquireFwLease r) = validateAcquireFwLease r"
| "validate_request (R_ReleaseFwLease r) = validateReleaseFwLease r"
| "validate_request (R_ApplyDevfsRules r) = validateApplyDevfsRules r"
| "validate_request (R_MountTmpfs r) = validateMountTmpfs r"

section \<open>The nvlist header check\<close>

definition kNvlistHeaderSize :: nat where "kNvlistHeaderSize = 19"
definition kMaxNvlistRequestBytes :: "64 word" where "kMaxNvlistRequestBytes = push_bit 20 1"
definition kMaxNvlistRequestDescriptors :: "64 word" where "kMaxNvlistRequestDescriptors = 3"

record NvlistHeader =
  nh_bigEndian :: bool
  nh_descriptors :: "64 word"
  nh_size :: "64 word"

definition rd64 :: "bool \<Rightarrow> 8 word list \<Rightarrow> nat \<Rightarrow> 64 word" where
  "rd64 be buf off =
     fold (\<lambda>i v. push_bit 8 v OR ucast (buf ! (if be then off + i else off + (7 - i)))) [0..<8] 0"

definition parseNvlistHeader :: "8 word list \<Rightarrow> NvlistHeader res" where
  "parseNvlistHeader buf =
     (if length buf < kNvlistHeaderSize then Inl ''short header''
      else if buf ! 0 \<noteq> 0x6C then Inl ''bad nvlist magic''
      else if buf ! 1 \<noteq> 0 then Inl ''unsupported nvlist version''
      else let be = (buf ! 2 AND 0x80 \<noteq> 0) in
        Inr \<lparr>nh_bigEndian = be, nh_descriptors = rd64 be buf 3, nh_size = rd64 be buf 11\<rparr>)"

definition checkNvlistHeaderLimits :: "NvlistHeader \<Rightarrow> err" where
  "checkNvlistHeaderLimits h =
     (if nh_size h > kMaxNvlistRequestBytes
      then ''request too large ('' @ dec (unat (nh_size h)) @ '' bytes, limit '' @ dec (unat kMaxNvlistRequestBytes) @ '')''
      else if nh_descriptors h > kMaxNvlistRequestDescriptors
      then ''too many descriptors ('' @ dec (unat (nh_descriptors h)) @ '', limit '' @
        dec (unat kMaxNvlistRequestDescriptors) @ '')''
      else [])"

definition extractVerb :: "FieldMap \<Rightarrow> verb" where
  "extractVerb m = (case m ''verb'' of None \<Rightarrow> Unknown | Some s \<Rightarrow> parseVerb s)"

end
