(* ===== verification/PrivClient.thy ===== *)
theory PrivClient
  imports NvParse
begin

text \<open>
  The request builders of the unprivileged client, \<^verbatim>\<open>lib/privops_client_pure.cpp\<close>, and the round
  trip through the daemon's parsers of the \<^verbatim>\<open>NvParse\<close> theory: what the client builds is what the
  daemon reads back. A \<^verbatim>\<open>std::map\<close> initialiser is \<^const>\<open>map_of\<close> (the first of equal keys wins), and
  \<^verbatim>\<open>m[k] = v\<close> is a map update.
\<close>

section \<open>Builders\<close>

definition toString_long :: "int \<Rightarrow> string" where
  "toString_long n =
     (if n = 0 then ''0''
      else if n < 0 then CHR ''-'' # uid_loop (nat (- n)) [] else uid_loop (nat n) [])"

definition toString_unsigned :: "nat \<Rightarrow> string" where
  "toString_unsigned u = (if u = 0 then ''0'' else uid_loop u [])"

definition bool_text :: "bool \<Rightarrow> string" where
  "bool_text b = (if b then ''true'' else ''false'')"

definition put_if :: "bool \<Rightarrow> string \<Rightarrow> string \<Rightarrow> FieldMap \<Rightarrow> FieldMap" where
  "put_if b k v m = (if b then m(k \<mapsto> v) else m)"

fun put_seq :: "string \<Rightarrow> nat \<Rightarrow> string list \<Rightarrow> FieldMap \<Rightarrow> FieldMap" where
  "put_seq pfx i [] m = m"
| "put_seq pfx i (x # xs) m = put_seq pfx (Suc i) xs (m(pfx @ dec i \<mapsto> x))"

fun put_tmpfs :: "(string \<times> string) list \<Rightarrow> FieldMap \<Rightarrow> FieldMap" where
  "put_tmpfs [] m = m"
| "put_tmpfs ((k, v) # kvs) m =
     put_tmpfs kvs (put_if (k = ''size'' \<or> k = ''uid'' \<or> k = ''gid'' \<or> k = ''mode'') k v m)"

definition buildSetRctl :: "int \<Rightarrow> string \<Rightarrow> string \<Rightarrow> FieldMap" where
  "buildSetRctl jid key rawValue =
     map_of [(''verb'', ''set_rctl''), (''jid'', toString_long jid), (''key'', key), (''value'', rawValue)]"

definition buildClearRctl :: "int \<Rightarrow> string \<Rightarrow> FieldMap" where
  "buildClearRctl jid key =
     map_of [(''verb'', ''clear_rctl''), (''jid'', toString_long jid), (''key'', key)]"

definition buildAttachZfs :: "int \<Rightarrow> string \<Rightarrow> FieldMap" where
  "buildAttachZfs jid dataset =
     map_of [(''verb'', ''attach_zfs''), (''jid'', toString_long jid), (''dataset'', dataset)]"

definition buildDetachZfs :: "int \<Rightarrow> string \<Rightarrow> FieldMap" where
  "buildDetachZfs jid dataset =
     map_of [(''verb'', ''detach_zfs''), (''jid'', toString_long jid), (''dataset'', dataset)]"

definition buildMountNullfs :: "string \<Rightarrow> string \<Rightarrow> bool \<Rightarrow> FieldMap" where
  "buildMountNullfs source target readOnly =
     map_of [(''verb'', ''mount_nullfs''), (''source'', source), (''target'', target),
       (''read_only'', bool_text readOnly)]"

definition buildUnmountNullfs :: "string \<Rightarrow> bool \<Rightarrow> FieldMap" where
  "buildUnmountNullfs target force =
     map_of [(''verb'', ''unmount_nullfs''), (''target'', target), (''force'', bool_text force)]"

definition buildMountTmpfs :: "string \<Rightarrow> (string \<times> string) list \<Rightarrow> FieldMap" where
  "buildMountTmpfs target params =
     put_tmpfs params
     (map_of [(''verb'', ''mount_tmpfs''), (''target'', target)])"

definition buildConfigureIface :: "int \<Rightarrow> string \<Rightarrow> string \<Rightarrow> string \<Rightarrow> string \<Rightarrow> string \<Rightarrow> FieldMap" where
  "buildConfigureIface jid ifname bridge ipv4Cidr ipv6Cidr macAddr =
     map_of [(''verb'', ''configure_iface''), (''jid'', toString_long jid), (''ifname'', ifname),
       (''bridge'', bridge), (''ipv4_cidr'', ipv4Cidr), (''ipv6_cidr'', ipv6Cidr), (''mac_addr'', macAddr)]"

definition buildTeardownIface :: "string \<Rightarrow> FieldMap" where
  "buildTeardownIface ifname =
     map_of [(''verb'', ''teardown_iface''), (''ifname'', ifname)]"

definition buildAddPfRule :: "string \<Rightarrow> string \<Rightarrow> FieldMap" where
  "buildAddPfRule anchor ruleText =
     map_of [(''verb'', ''add_pf_rule''), (''anchor'', anchor), (''rule'', ruleText)]"

definition buildRemovePfRule :: "string \<Rightarrow> string \<Rightarrow> FieldMap" where
  "buildRemovePfRule anchor ruleText =
     map_of [(''verb'', ''remove_pf_rule''), (''anchor'', anchor), (''rule'', ruleText)]"

definition buildAddIpfwRule :: "nat \<Rightarrow> nat \<Rightarrow> string \<Rightarrow> string \<Rightarrow> FieldMap" where
  "buildAddIpfwRule rset number action body =
     map_of [(''verb'', ''add_ipfw_rule''), (''set'', toString_unsigned rset),
       (''number'', toString_unsigned number), (''action'', action), (''body'', body)]"

definition buildRemoveIpfwRule :: "nat \<Rightarrow> nat \<Rightarrow> FieldMap" where
  "buildRemoveIpfwRule rset number =
     map_of [(''verb'', ''remove_ipfw_rule''), (''set'', toString_unsigned rset),
       (''number'', toString_unsigned number)]"

definition buildCreateJail :: "string \<Rightarrow> string \<Rightarrow> string \<Rightarrow> bool \<Rightarrow> string \<Rightarrow> FieldMap" where
  "buildCreateJail name path hostname vnet parameters =
     map_of [(''verb'', ''create_jail''), (''name'', name), (''path'', path), (''hostname'', hostname),
       (''vnet'', bool_text vnet), (''parameters'', parameters)]"

definition buildDestroyJail :: "string \<Rightarrow> bool \<Rightarrow> FieldMap" where
  "buildDestroyJail name force =
     map_of [(''verb'', ''destroy_jail''), (''name'', name), (''force'', bool_text force)]"

definition buildSetIfaceUp :: "string \<Rightarrow> FieldMap" where
  "buildSetIfaceUp ifname =
     map_of [(''verb'', ''set_iface_up''), (''ifname'', ifname)]"

definition buildDisableIfaceOffload :: "string \<Rightarrow> FieldMap" where
  "buildDisableIfaceOffload ifname =
     map_of [(''verb'', ''disable_iface_offload''), (''ifname'', ifname)]"

definition buildBridgeAddMember :: "string \<Rightarrow> string \<Rightarrow> FieldMap" where
  "buildBridgeAddMember bridge member =
     map_of [(''verb'', ''bridge_add_member''), (''bridge'', bridge), (''member'', member)]"

definition buildBridgeDelMember :: "string \<Rightarrow> string \<Rightarrow> FieldMap" where
  "buildBridgeDelMember bridge member =
     map_of [(''verb'', ''bridge_del_member''), (''bridge'', bridge), (''member'', member)]"

definition buildSetIfaceInetAddr :: "string \<Rightarrow> string \<Rightarrow> nat \<Rightarrow> bool \<Rightarrow> FieldMap" where
  "buildSetIfaceInetAddr ifname addr plen inet6 =
     put_if inet6 ''inet6'' ''true''
     (map_of [(''verb'', ''set_iface_inet_addr''), (''ifname'', ifname), (''addr'', addr),
       (''prefix_len'', toString_unsigned plen)])"

definition buildCreateEpair :: "FieldMap" where
  "buildCreateEpair =
     map_of [(''verb'', ''create_epair'')]"

definition buildEnsureUserRoot :: "FieldMap" where
  "buildEnsureUserRoot =
     map_of [(''verb'', ''ensure_user_root'')]"

definition buildSetLoginclassRctl :: "string \<Rightarrow> string \<Rightarrow> string \<Rightarrow> FieldMap" where
  "buildSetLoginclassRctl loginclass key rawValue =
     map_of [(''verb'', ''set_loginclass_rctl''), (''loginclass'', loginclass), (''key'', key),
       (''value'', rawValue)]"

definition buildClearLoginclassRctl :: "string \<Rightarrow> string \<Rightarrow> FieldMap" where
  "buildClearLoginclassRctl loginclass key =
     map_of [(''verb'', ''clear_loginclass_rctl''), (''loginclass'', loginclass), (''key'', key)]"

definition buildReclaimIfaceFromVnet :: "string \<Rightarrow> string \<Rightarrow> FieldMap" where
  "buildReclaimIfaceFromVnet ifname jailName =
     map_of [(''verb'', ''reclaim_iface_from_vnet''), (''ifname'', ifname), (''jail_name'', jailName)]"

definition buildFlushPfAnchor :: "string \<Rightarrow> FieldMap" where
  "buildFlushPfAnchor anchor =
     map_of [(''verb'', ''flush_pf_anchor''), (''anchor'', anchor)]"

definition buildQueryJailRctl :: "nat \<Rightarrow> bool \<Rightarrow> FieldMap" where
  "buildQueryJailRctl jid limits =
     put_if limits ''limits'' ''true''
     (map_of [(''verb'', ''query_jail_rctl''), (''jid'', dec jid)])"

definition buildSetIfaceMac :: "string \<Rightarrow> string \<Rightarrow> FieldMap" where
  "buildSetIfaceMac ifname mac =
     map_of [(''verb'', ''set_iface_mac''), (''ifname'', ifname), (''mac'', mac)]"

definition buildDeleteIpfwNat :: "nat \<Rightarrow> FieldMap" where
  "buildDeleteIpfwNat number =
     map_of [(''verb'', ''delete_ipfw_nat''), (''number'', dec number)]"

definition buildCreateBridge :: "string \<Rightarrow> FieldMap" where
  "buildCreateBridge name =
     map_of [(''verb'', ''create_bridge''), (''name'', name)]"

definition buildAcquireFwLease :: "nat \<Rightarrow> bool \<Rightarrow> bool \<Rightarrow> bool \<Rightarrow> FieldMap" where
  "buildAcquireFwLease jid slot fwd4 fwd6 =
     put_if fwd6 ''fwd6'' ''true''
     (put_if fwd4 ''fwd4'' ''true''
     (put_if slot ''slot'' ''true''
     (map_of [(''verb'', ''acquire_fw_lease''), (''jid'', toString_unsigned jid)])))"

definition buildReleaseFwLease :: "nat \<Rightarrow> FieldMap" where
  "buildReleaseFwLease jid =
     map_of [(''verb'', ''release_fw_lease''), (''jid'', toString_unsigned jid)]"

definition buildConfigureIpfwNat :: "nat \<Rightarrow> string \<Rightarrow> FieldMap" where
  "buildConfigureIpfwNat number config =
     map_of [(''verb'', ''configure_ipfw_nat''), (''number'', dec number), (''config'', config)]"

definition buildSetJailCpuset :: "nat \<Rightarrow> string \<Rightarrow> FieldMap" where
  "buildSetJailCpuset jid cpuset =
     map_of [(''verb'', ''set_jail_cpuset''), (''jid'', dec jid), (''cpuset'', cpuset)]"

definition buildApplyDevfsRuleset :: "string \<Rightarrow> nat \<Rightarrow> FieldMap" where
  "buildApplyDevfsRuleset mountPath ruleset =
     map_of [(''verb'', ''apply_devfs_ruleset''), (''mount_path'', mountPath), (''ruleset'', dec ruleset)]"

definition buildAddDevfsUnhideRule :: "string \<Rightarrow> string \<Rightarrow> FieldMap" where
  "buildAddDevfsUnhideRule mountPath pathPattern =
     map_of [(''verb'', ''add_devfs_unhide_rule''), (''mount_path'', mountPath), (''path_pattern'', pathPattern)]"

definition buildApplyDevfsRules :: "string \<Rightarrow> nat \<Rightarrow> string list \<Rightarrow> FieldMap" where
  "buildApplyDevfsRules mountPath ruleset rules =
     put_seq ''rule'' 0 rules
     (map_of [(''verb'', ''apply_devfs_rules''), (''mount_path'', mountPath), (''ruleset'', dec ruleset),
       (''argc'', dec (length rules))])"

definition buildSignalJail :: "nat \<Rightarrow> string \<Rightarrow> FieldMap" where
  "buildSignalJail jid signal =
     map_of [(''verb'', ''signal_jail''), (''jid'', dec jid), (''signal'', signal)]"

definition buildExecInJail :: "nat \<Rightarrow> string \<Rightarrow> string list \<Rightarrow> string \<Rightarrow> FieldMap" where
  "buildExecInJail jid user argv term =
     put_seq ''argv'' 0 argv
     (put_if (term \<noteq> []) ''term'' term
     (put_if (user \<noteq> []) ''user'' user
     (map_of [(''verb'', ''exec_in_jail''), (''jid'', dec jid), (''argc'', dec (length argv))])))"

text \<open>The builder for each request; \<^verbatim>\<open>mount_tmpfs\<close> passes the options that are set.\<close>

fun build :: "request \<Rightarrow> FieldMap" where
  "build (R_CreateJail r) = buildCreateJail (cj_name r) (cj_path r) (cj_hostname r) (cj_vnet r) (cj_parameters r)"
| "build (R_DestroyJail r) = buildDestroyJail (dj_name r) (dj_force r)"
| "build (R_MountNullfs r) = buildMountNullfs (mn_source r) (mn_target r) (mn_readOnly r)"
| "build (R_UnmountNullfs r) = buildUnmountNullfs (un_target r) (un_force r)"
| "build (R_SetRctl r) = buildSetRctl (sr_jid r) (sr_key r) (sr_rawValue r)"
| "build (R_ClearRctl r) = buildClearRctl (cr_jid r) (cr_key r)"
| "build (R_AttachZfs r) = buildAttachZfs (az_jid r) (az_dataset r)"
| "build (R_DetachZfs r) = buildDetachZfs (dz_jid r) (dz_dataset r)"
| "build (R_ConfigureIface r) = buildConfigureIface (ci_jid r) (ci_ifname r) (ci_bridge r) (ci_ipv4Cidr r) (ci_ipv6Cidr r) (ci_macAddr r)"
| "build (R_TeardownIface r) = buildTeardownIface (ti_ifname r)"
| "build (R_AddPfRule r) = buildAddPfRule (ap_anchor r) (ap_ruleText r)"
| "build (R_RemovePfRule r) = buildRemovePfRule (rp_anchor r) (rp_ruleText r)"
| "build (R_AddIpfwRule r) = buildAddIpfwRule (ai_set r) (ai_number r) (ai_action r) (ai_body r)"
| "build (R_RemoveIpfwRule r) = buildRemoveIpfwRule (ri_set r) (ri_number r)"
| "build (R_SetIfaceUp r) = buildSetIfaceUp (su_ifname r)"
| "build (R_DisableIfaceOffload r) = buildDisableIfaceOffload (do_ifname r)"
| "build (R_BridgeAddMember r) = buildBridgeAddMember (ba_bridge r) (ba_member r)"
| "build (R_BridgeDelMember r) = buildBridgeDelMember (bd_bridge r) (bd_member r)"
| "build (R_SetIfaceInetAddr r) = buildSetIfaceInetAddr (sa_ifname r) (sa_addr r) (sa_prefixLen r) (sa_inet6 r)"
| "build R_CreateEpair = buildCreateEpair"
| "build R_EnsureUserRoot = buildEnsureUserRoot"
| "build (R_SetLoginclassRctl r) = buildSetLoginclassRctl (sl_loginclass r) (sl_key r) (sl_rawValue r)"
| "build (R_ClearLoginclassRctl r) = buildClearLoginclassRctl (cl_loginclass r) (cl_key r)"
| "build (R_ReclaimIfaceFromVnet r) = buildReclaimIfaceFromVnet (rv_ifname r) (rv_jailName r)"
| "build (R_FlushPfAnchor r) = buildFlushPfAnchor (fa_anchor r)"
| "build (R_QueryJailRctl r) = buildQueryJailRctl (qj_jid r) (qj_limits r)"
| "build (R_ConfigureIpfwNat r) = buildConfigureIpfwNat (cn_number r) (cn_config r)"
| "build (R_SetJailCpuset r) = buildSetJailCpuset (sc_jid r) (sc_cpuset r)"
| "build (R_ApplyDevfsRuleset r) = buildApplyDevfsRuleset (ad_mountPath r) (ad_ruleset r)"
| "build (R_AddDevfsUnhideRule r) = buildAddDevfsUnhideRule (au_mountPath r) (au_pathPattern r)"
| "build (R_SignalJail r) = buildSignalJail (sj_jid r) (sj_signal r)"
| "build (R_ExecInJail r) = buildExecInJail (ej_jid r) (ej_user r) (ej_argv r) (ej_term r)"
| "build (R_SetIfaceMac r) = buildSetIfaceMac (sm_ifname r) (sm_mac r)"
| "build (R_DeleteIpfwNat r) = buildDeleteIpfwNat (dn_number r)"
| "build (R_CreateBridge r) = buildCreateBridge (cb_name r)"
| "build (R_AcquireFwLease r) = buildAcquireFwLease (af_jid r) (af_slot r) (af_fwd4 r) (af_fwd6 r)"
| "build (R_ReleaseFwLease r) = buildReleaseFwLease (rf_jid r)"
| "build (R_ApplyDevfsRules r) = buildApplyDevfsRules (ar_mountPath r) (ar_ruleset r) (ar_rules r)"
| "build (R_MountTmpfs r) = buildMountTmpfs (mt_target r)
     (filter (\<lambda>kv. snd kv \<noteq> []) [(''size'', mt_size r), (''uid'', mt_uid r), (''gid'', mt_gid r), (''mode'', mt_mode r)])"

text \<open>A request whose numbers fit their C++ types and whose lists have an admissible length.\<close>

definition long_ok :: "int \<Rightarrow> bool" where
  "long_ok n \<longleftrightarrow> - (2 ^ 63) \<le> n \<and> n < 2 ^ 63"

fun wire_ok :: "request \<Rightarrow> bool" where
  "wire_ok (R_CreateJail r) = True"
| "wire_ok (R_DestroyJail r) = True"
| "wire_ok (R_MountNullfs r) = True"
| "wire_ok (R_UnmountNullfs r) = True"
| "wire_ok (R_SetRctl r) = (long_ok (sr_jid r))"
| "wire_ok (R_ClearRctl r) = (long_ok (cr_jid r))"
| "wire_ok (R_AttachZfs r) = (long_ok (az_jid r))"
| "wire_ok (R_DetachZfs r) = (long_ok (dz_jid r))"
| "wire_ok (R_ConfigureIface r) = (long_ok (ci_jid r))"
| "wire_ok (R_TeardownIface r) = True"
| "wire_ok (R_AddPfRule r) = True"
| "wire_ok (R_RemovePfRule r) = True"
| "wire_ok (R_AddIpfwRule r) = (ai_set r \<le> 0xFFFFFFFF \<and> ai_number r \<le> 0xFFFFFFFF)"
| "wire_ok (R_RemoveIpfwRule r) = (ri_set r \<le> 0xFFFFFFFF \<and> ri_number r \<le> 0xFFFFFFFF)"
| "wire_ok (R_SetIfaceUp r) = True"
| "wire_ok (R_DisableIfaceOffload r) = True"
| "wire_ok (R_BridgeAddMember r) = True"
| "wire_ok (R_BridgeDelMember r) = True"
| "wire_ok (R_SetIfaceInetAddr r) = (sa_prefixLen r \<le> 0xFFFFFFFF)"
| "wire_ok R_CreateEpair = True"
| "wire_ok R_EnsureUserRoot = True"
| "wire_ok (R_SetLoginclassRctl r) = True"
| "wire_ok (R_ClearLoginclassRctl r) = True"
| "wire_ok (R_ReclaimIfaceFromVnet r) = True"
| "wire_ok (R_FlushPfAnchor r) = True"
| "wire_ok (R_QueryJailRctl r) = (qj_jid r \<le> 0xFFFFFFFF)"
| "wire_ok (R_ConfigureIpfwNat r) = (cn_number r \<le> 0xFFFFFFFF)"
| "wire_ok (R_SetJailCpuset r) = (sc_jid r \<le> 0xFFFFFFFF)"
| "wire_ok (R_ApplyDevfsRuleset r) = (ad_ruleset r \<le> 0xFFFFFFFF)"
| "wire_ok (R_AddDevfsUnhideRule r) = True"
| "wire_ok (R_SignalJail r) = (sj_jid r \<le> 0xFFFFFFFF)"
| "wire_ok (R_ExecInJail r) = (ej_jid r \<le> 0xFFFFFFFF \<and> 1 \<le> length (ej_argv r) \<and> length (ej_argv r) \<le> kExecInJailMaxArgs)"
| "wire_ok (R_SetIfaceMac r) = True"
| "wire_ok (R_DeleteIpfwNat r) = (dn_number r \<le> 0xFFFFFFFF)"
| "wire_ok (R_CreateBridge r) = True"
| "wire_ok (R_AcquireFwLease r) = (af_jid r \<le> 0xFFFFFFFF)"
| "wire_ok (R_ReleaseFwLease r) = (rf_jid r \<le> 0xFFFFFFFF)"
| "wire_ok (R_ApplyDevfsRules r) = (ar_ruleset r \<le> 0xFFFFFFFF \<and> 1 \<le> length (ar_rules r) \<and> length (ar_rules r) \<le> kApplyDevfsRulesMaxRules)"
| "wire_ok (R_MountTmpfs r) = True"

section \<open>Client and daemon agree\<close>

lemma toString_long_dec: "toString_long n = dec_int n"
  by (auto simp: toString_long_def dec_int_def uid_loop_dec dec.simps [of 0])

lemma toString_unsigned_dec: "toString_unsigned n = dec n"
  by (simp add: toString_unsigned_def uid_loop_dec dec.simps [of 0])

lemma requireString_Some [simp]: "m k = Some s \<Longrightarrow> requireString m k = Inr s"
  by (simp add: requireString_def)

lemma optionalString_simps [simp]:
  "m k = Some s \<Longrightarrow> optionalString m k d = Inr s" "m k = None \<Longrightarrow> optionalString m k d = Inr d"
  by (simp_all add: optionalString_def)

lemma optionalBool_simps [simp]:
  "m k = Some (bool_text b) \<Longrightarrow> optionalBool m k d = Inr b" "m k = None \<Longrightarrow> optionalBool m k d = Inr d"
  "m k = Some ''true'' \<Longrightarrow> optionalBool m k d = Inr True"
  by (simp_all add: optionalBool_def bool_text_def)

lemma dec_hd_not_minus: "dec n \<noteq> [] \<and> hd (dec n) \<noteq> CHR ''-''"
  using dec_char_digit [of "hd (dec n)" n] by (auto simp: is_digit_def)

lemma requireLong_dec_int:
  assumes "m k = Some (dec_int n)" "long_ok n" shows "requireLong m k = Inr n"
proof -
  have "strtol (dec_int n) = n"
    using assms(2) dec_hd_not_minus [of "nat n"] by (auto simp: strtol_def dec_int_def long_ok_def Let_def)
  moreover have "list_all is_digit (dec j)" for j by (simp add: list_all_iff dec_char_digit)
  ultimately show ?thesis
    using assms(1) dec_hd_not_minus [of "nat n"] by (simp add: requireLong_def dec_int_def Let_def)
qed

lemma requireUnsigned_dec:
  assumes "m k = Some (dec n)" "n \<le> 0xFFFFFFFF" shows "requireUnsigned m k = Inr n"
proof -
  have "requireLong m k = Inr (int n)"
    using assms by (intro requireLong_dec_int) (simp_all add: dec_int_def long_ok_def)
  then show ?thesis using assms(2) by (simp add: requireUnsigned_def)
qed

lemma put_seq_other: "(\<And>j. k \<noteq> pfx @ dec j) \<Longrightarrow> put_seq pfx i xs m k = m k"
  by (induction pfx i xs m rule: put_seq.induct) auto

lemma put_seq_earlier: "j < i \<Longrightarrow> put_seq pfx i xs m (pfx @ dec j) = m (pfx @ dec j)"
  by (induction pfx i xs m rule: put_seq.induct) auto

lemma requireSeq_put_seq: "requireSeq (put_seq pfx i xs m) pfx i (length xs) = Inr xs"
proof (induction pfx i xs m rule: put_seq.induct)
  case (2 pfx i x xs m)
  have "put_seq pfx (Suc i) xs (m(pfx @ dec i \<mapsto> x)) (pfx @ dec i) = Some x"
    by (simp add: put_seq_earlier)
  with 2 show ?case by (simp add: fun_upd_def)
qed simp

lemma not_numbered: "\<not> is_digit (last k) \<Longrightarrow> k \<noteq> pfx @ dec j"
  using dec_char_digit [of "last (dec j)" j] by auto

lemma put_seq_field [simp]: "\<not> is_digit (last k) \<Longrightarrow> put_seq pfx i xs m k = m k"
  by (rule put_seq_other) (rule not_numbered)

lemma argc_check_ok [simp]: "1 \<le> n \<Longrightarrow> n \<le> l \<Longrightarrow> argc_check n l = Inr ()"
  by (simp add: argc_check_def)

lemmas nv_parsers =
   parseCreateJail_def parseDestroyJail_def parseMountNullfs_def parseUnmountNullfs_def
   parseSetRctl_def parseClearRctl_def parseAttachZfs_def parseDetachZfs_def parseConfigureIface_def
   parseTeardownIface_def parseAddPfRule_def parseRemovePfRule_def parseAddIpfwRule_def
   parseRemoveIpfwRule_def parseSetIfaceUp_def parseDisableIfaceOffload_def parseBridgeAddMember_def
   parseBridgeDelMember_def parseSetIfaceInetAddr_def parseCreateEpair_def parseEnsureUserRoot_def
   parseSetLoginclassRctl_def parseClearLoginclassRctl_def parseReclaimIfaceFromVnet_def
   parseFlushPfAnchor_def parseQueryJailRctl_def parseConfigureIpfwNat_def parseSetJailCpuset_def
   parseApplyDevfsRuleset_def parseAddDevfsUnhideRule_def parseSignalJail_def parseExecInJail_def
   parseSetIfaceMac_def parseDeleteIpfwNat_def parseCreateBridge_def parseAcquireFwLease_def
   parseReleaseFwLease_def parseApplyDevfsRules_def parseMountTmpfs_def

lemmas client_builders =
   buildCreateJail_def buildDestroyJail_def buildMountNullfs_def buildUnmountNullfs_def
   buildSetRctl_def buildClearRctl_def buildAttachZfs_def buildDetachZfs_def buildConfigureIface_def
   buildTeardownIface_def buildAddPfRule_def buildRemovePfRule_def buildAddIpfwRule_def
   buildRemoveIpfwRule_def buildSetIfaceUp_def buildDisableIfaceOffload_def buildBridgeAddMember_def
   buildBridgeDelMember_def buildSetIfaceInetAddr_def buildCreateEpair_def buildEnsureUserRoot_def
   buildSetLoginclassRctl_def buildClearLoginclassRctl_def buildReclaimIfaceFromVnet_def
   buildFlushPfAnchor_def buildQueryJailRctl_def buildConfigureIpfwNat_def buildSetJailCpuset_def
   buildApplyDevfsRuleset_def buildAddDevfsUnhideRule_def buildSignalJail_def buildExecInJail_def
   buildSetIfaceMac_def buildDeleteIpfwNat_def buildCreateBridge_def buildAcquireFwLease_def
   buildReleaseFwLease_def buildApplyDevfsRules_def buildMountTmpfs_def

lemma put_if_apply [simp]: "put_if b k v m j = (if b \<and> j = k then Some v else m j)"
  by (simp add: put_if_def)

lemma optionalString_flag:
  "optionalString m k [] = Inr (case m k of None \<Rightarrow> [] | Some s \<Rightarrow> s)"
  by (simp add: optionalString_def)

lemma case_if [simp]:
  "(case if b then Some x else y of None \<Rightarrow> d | Some z \<Rightarrow> f z) = (if b then f x else case y of None \<Rightarrow> d | Some z \<Rightarrow> f z)"
  by simp

lemma set_or_empty [simp]: "(if s = [] then [] else s) = s" "(if s \<noteq> [] then s else []) = s"
  by simp_all

lemma optionalBool_flag:
  "optionalBool m k False =
     (case m k of None \<Rightarrow> Inr False
      | Some s \<Rightarrow> if s = ''true'' \<or> s = ''1'' then Inr True else if s = ''false'' \<or> s = ''0'' then Inr False
        else Inl (''field '' @ quoted k @ '' is not a boolean''))"
  by (simp add: optionalBool_def)

lemma bool_text_eq [simp]:
  "bool_text b = ''true'' \<longleftrightarrow> b" "bool_text b = ''false'' \<longleftrightarrow> \<not> b" "bool_text b = ''1'' \<longleftrightarrow> False" "bool_text b = ''0'' \<longleftrightarrow> False"
  by (simp_all add: bool_text_def)

lemma Inr_if [simp]: "(if b then Inr True else Inr False) = Inr b"
  by simp

lemma put_tmpfs_filter:
  "put_tmpfs (filter (\<lambda>kv. snd kv \<noteq> []) ((k, v) # kvs)) m =
   put_tmpfs (filter (\<lambda>kv. snd kv \<noteq> []) kvs)
     (put_if (v \<noteq> [] \<and> (k = ''size'' \<or> k = ''uid'' \<or> k = ''gid'' \<or> k = ''mode'')) k v m)"
  by (simp add: put_if_def)

lemmas roundtrip_simps = nv_parsers client_builders parse_as_def toString_long_dec toString_unsigned_dec
  requireLong_dec_int requireUnsigned_dec requireSeq_put_seq optionalString_flag optionalBool_flag
  is_digit_def kExecInJailMaxArgs_def kApplyDevfsRulesMaxRules_def

lemma extractVerb_build: "extractVerb (build r) = verb_of r"
  by (cases r)
    (simp_all add: client_builders extractVerb_def parseVerb_def is_digit_def put_tmpfs_filter del: filter.simps)

text \<open>
  C8. Client and daemon agree on the wire. For every request whose numbers fit their C++ types and
  whose lists have an admissible length, the field map the client builds is routed to the verb of
  the request and parsed by the daemon into exactly the same request, all 39 verbs.
\<close>

theorem client_daemon_roundtrip:
  assumes "wire_ok r"
  shows "extractVerb (build r) = verb_of r \<and> parse_request (verb_of r) (build r) = Inr r"
proof
  show "parse_request (verb_of r) (build r) = Inr r"
    using assms
    by (cases r) (simp_all add: roundtrip_simps put_tmpfs_filter del: filter.simps bind_res_Inr_iff)
qed (rule extractVerb_build)

theorem client_daemon_roundtrip_witness:
  "parse_request ExecInJail (build (R_ExecInJail \<lparr>ej_jid = 7, ej_user = [], ej_argv = [''/bin/sh'', ''-i''], ej_term = ''xterm''\<rparr>)) =
   Inr (R_ExecInJail \<lparr>ej_jid = 7, ej_user = [], ej_argv = [''/bin/sh'', ''-i''], ej_term = ''xterm''\<rparr>)"
  using client_daemon_roundtrip [of "R_ExecInJail \<lparr>ej_jid = 7, ej_user = [], ej_argv = [''/bin/sh'', ''-i''], ej_term = ''xterm''\<rparr>"]
  by (simp add: kExecInJailMaxArgs_def del: build.simps parse_request.simps)

end
