(* ===== verification/JsonWire.thy ===== *)
theory JsonWire
  imports NvParse
begin

text \<open>
  The JSON side of the privileged operations: \<^verbatim>\<open>lib/json_pure.cpp\<close> (the escaper) and
  \<^verbatim>\<open>lib/privops_wire_pure.{h,cpp}\<close> (field extraction from a request body, one parser per verb, the
  response bodies). A position in the body is the text from there on. Extractors write through
  an out-parameter even on some failures and some callers ignore the failure, so they return the
  resulting value beside the status.
\<close>

section \<open>Escaping\<close>

definition DQ :: char where "DQ = CHR 0x22"
definition BSL :: char where "BSL = CHR 0x5C"

definition hex_lower :: "nat \<Rightarrow> char" where
  "hex_lower d = (if d < 10 then char_of (48 + d) else char_of (87 + d))"

text \<open>\<^verbatim>\<open>snprintf("\u%04x")\<close> of a byte.\<close>

definition u_escape :: "nat \<Rightarrow> string" where
  "u_escape n = BSL # ''u00'' @ [hex_lower (n div 16), hex_lower (n mod 16)]"

definition escape_char :: "char \<Rightarrow> string" where
  "escape_char c =
     (if c = DQ then [BSL, DQ]
      else if c = BSL then [BSL, BSL]
      else if c = CHR 0x08 then [BSL, CHR ''b'']
      else if c = CHR 0x0C then [BSL, CHR ''f'']
      else if c = CHR 0x0A then [BSL, CHR ''n'']
      else if c = CHR 0x0D then [BSL, CHR ''r'']
      else if c = CHR 0x09 then [BSL, CHR ''t'']
      else if of_char c < (0x20::nat) then u_escape (of_char c)
      else [c])"

definition json_escape :: "string \<Rightarrow> string" where
  "json_escape s = concat (map escape_char s)"

section \<open>Field extraction\<close>

datatype LocateResult = Absent | AfterColon string | Malformed

definition is_ws :: "char \<Rightarrow> bool" where
  "is_ws c \<longleftrightarrow> c \<in> {CHR '' '', CHR 0x09, CHR 0x0A, CHR 0x0D}"

text \<open>\<^verbatim>\<open>std::string::find\<close>: what follows the first occurrence.\<close>

fun after_first :: "string \<Rightarrow> string \<Rightarrow> string option" where
  "after_first needle [] = (if needle = [] then Some [] else None)"
| "after_first needle (c # cs) =
     (if starts_with needle (c # cs) then Some (drop (length needle) (c # cs)) else after_first needle cs)"

definition locateField :: "string \<Rightarrow> string \<Rightarrow> LocateResult" where
  "locateField body fieldName =
     (case after_first (DQ # fieldName @ [DQ]) body of
        None \<Rightarrow> Absent
      | Some rest \<Rightarrow>
        (case dropWhile is_ws rest of
           [] \<Rightarrow> Malformed
         | c # cs \<Rightarrow> if c \<noteq> CHR '':'' then Malformed else AfterColon (dropWhile is_ws cs)))"

definition unescape :: "char \<Rightarrow> char" where
  "unescape e =
     (if e = CHR ''n'' then CHR 0x0A else if e = CHR ''r'' then CHR 0x0D else if e = CHR ''t'' then CHR 0x09
      else if e = CHR ''b'' then CHR 0x08 else if e = CHR ''f'' then CHR 0x0C else e)"

definition hex_digit :: "char \<Rightarrow> nat option" where
  "hex_digit h =
     (if CHR ''0'' \<le> h \<and> h \<le> CHR ''9'' then Some (of_char h - 48)
      else if CHR ''a'' \<le> h \<and> h \<le> CHR ''f'' then Some (of_char h - 87)
      else if CHR ''A'' \<le> h \<and> h \<le> CHR ''F'' then Some (of_char h - 55)
      else None)"

fun hex4 :: "nat \<Rightarrow> string \<Rightarrow> nat option" where
  "hex4 cp [] = Some cp"
| "hex4 cp (h # hs) = (case hex_digit h of None \<Rightarrow> None | Some v \<Rightarrow> hex4 (cp * 16 + v) hs)"

text \<open>A code point below \<^verbatim>\<open>0x10000\<close> in UTF-8.\<close>

definition utf8 :: "nat \<Rightarrow> string" where
  "utf8 cp =
     (if cp < 0x80 then [char_of cp]
      else if cp < 0x800 then [char_of (0xC0 + cp div 64), char_of (0x80 + cp mod 64)]
      else [char_of (0xE0 + cp div 4096), char_of (0x80 + (cp div 64) mod 64), char_of (0x80 + cp mod 64)])"

text \<open>
  The loop of \<^verbatim>\<open>decodeJsonString\<close> after the opening quote: the decoded text so far, and what follows
  the closing quote (none when the body ends first).
\<close>

function (sequential) decode_loop :: "string \<Rightarrow> string \<Rightarrow> string \<times> string option" where
  "decode_loop out [] = (out, None)"
| "decode_loop out (c # cs) =
     (if c = DQ then (out, Some cs)
      else if c = BSL \<and> cs \<noteq> [] then
        let esc = hd cs; rest = tl cs in
        if esc = CHR ''u'' then
          if length rest < 4 then decode_loop (out @ [esc]) rest
          else (case hex4 0 (take 4 rest) of
                  None \<Rightarrow> decode_loop (out @ [esc]) rest
                | Some cp \<Rightarrow> decode_loop (out @ utf8 cp) (drop 4 rest))
        else decode_loop (out @ [unescape esc]) rest
      else decode_loop (out @ [c]) cs)"
  by pat_completeness auto

termination
  by (relation "measure (\<lambda>(_, s). length s)") (auto simp: less_Suc_eq_le intro: le_trans [OF diff_le_self])

definition decodeJsonInteger :: "string \<Rightarrow> int option" where
  "decodeJsonInteger s =
     (let neg = (s \<noteq> [] \<and> hd s = CHR ''-''); t = (if neg then tl s else s);
          ds = takeWhile is_digit t; after = dropWhile is_digit t in
      if ds = [] then None
      else if after \<noteq> [] \<and> hd after \<notin> {CHR '' '', CHR 0x09, CHR 0x0A, CHR 0x0D, CHR '','', CHR 0x7D, CHR '']''} then None
      else Some (strtol (if neg then CHR ''-'' # ds else ds)))"

definition decodeJsonBool :: "string \<Rightarrow> bool option" where
  "decodeJsonBool s =
     (if starts_with ''true'' s then Some True else if starts_with ''false'' s then Some False else None)"

datatype field_status = FAbsent | FPresent | FError err

definition extractStringField :: "string \<Rightarrow> string \<Rightarrow> string \<Rightarrow> string \<times> field_status" where
  "extractStringField body fieldName out =
     (case locateField body fieldName of
        Absent \<Rightarrow> (out, FAbsent)
      | Malformed \<Rightarrow> (out, FError (''field '' @ quoted fieldName @ '' malformed''))
      | AfterColon s \<Rightarrow>
        if s = [] \<or> hd s \<noteq> DQ then (out, FError (''field '' @ quoted fieldName @ '' is not a string''))
        else (case decode_loop [] (tl s) of
                (t, None) \<Rightarrow> (t, FError (''field '' @ quoted fieldName @ '' has unterminated string''))
              | (t, Some _) \<Rightarrow> (t, FPresent)))"

definition extractLongField :: "string \<Rightarrow> string \<Rightarrow> int \<Rightarrow> int \<times> field_status" where
  "extractLongField body fieldName out =
     (case locateField body fieldName of
        Absent \<Rightarrow> (out, FAbsent)
      | Malformed \<Rightarrow> (out, FError (''field '' @ quoted fieldName @ '' malformed''))
      | AfterColon s \<Rightarrow>
        (case decodeJsonInteger s of
           None \<Rightarrow> (out, FError (''field '' @ quoted fieldName @ '' is not an integer''))
         | Some v \<Rightarrow> (v, FPresent)))"

definition extractUnsignedField :: "string \<Rightarrow> string \<Rightarrow> nat \<Rightarrow> nat \<times> field_status" where
  "extractUnsignedField body fieldName out =
     (case extractLongField body fieldName 0 of
        (v, FPresent) \<Rightarrow>
          if v < 0 then (out, FError (''field '' @ quoted fieldName @ '' must be non-negative''))
          else if v > 0xFFFFFFFF then (out, FError (''field '' @ quoted fieldName @ '' overflows 32-bit unsigned''))
          else (nat v, FPresent)
      | (_, r) \<Rightarrow> (out, r))"

definition extractBoolField :: "string \<Rightarrow> string \<Rightarrow> bool \<Rightarrow> bool \<times> field_status" where
  "extractBoolField body fieldName out =
     (case locateField body fieldName of
        Absent \<Rightarrow> (out, FAbsent)
      | Malformed \<Rightarrow> (out, FError (''field '' @ quoted fieldName @ '' malformed''))
      | AfterColon s \<Rightarrow>
        (case decodeJsonBool s of
           None \<Rightarrow> (out, FError (''field '' @ quoted fieldName @ '' is not a boolean''))
         | Some b \<Rightarrow> (b, FPresent)))"

definition require_field :: "string \<Rightarrow> 'a \<times> field_status \<Rightarrow> 'a res" where
  "require_field fieldName r =
     (case r of
        (v, FAbsent) \<Rightarrow> Inl (''missing field '' @ quoted fieldName)
      | (v, FError e) \<Rightarrow> Inl e
      | (v, FPresent) \<Rightarrow> Inr v)"

definition requireStringField :: "string \<Rightarrow> string \<Rightarrow> string res" where
  "requireStringField body fieldName = require_field fieldName (extractStringField body fieldName [])"

definition requireLongField :: "string \<Rightarrow> string \<Rightarrow> int res" where
  "requireLongField body fieldName = require_field fieldName (extractLongField body fieldName (- 1))"

definition requireUnsignedField :: "string \<Rightarrow> string \<Rightarrow> nat res" where
  "requireUnsignedField body fieldName = require_field fieldName (extractUnsignedField body fieldName 0)"

text \<open>An optional field whose error is reported: absence keeps the default.\<close>

definition optional_field :: "'a \<times> field_status \<Rightarrow> 'a res" where
  "optional_field r = (case r of (v, FError e) \<Rightarrow> Inl e | (v, _) \<Rightarrow> Inr v)"

definition optionalStringField :: "string \<Rightarrow> string \<Rightarrow> string \<Rightarrow> string res" where
  "optionalStringField body fieldName dflt = optional_field (extractStringField body fieldName dflt)"

definition optionalBoolField :: "string \<Rightarrow> string \<Rightarrow> bool \<Rightarrow> bool res" where
  "optionalBoolField body fieldName dflt = optional_field (extractBoolField body fieldName dflt)"

fun requireSeqField :: "string \<Rightarrow> string \<Rightarrow> nat \<Rightarrow> nat \<Rightarrow> string list res" where
  "requireSeqField body pfx i 0 = Inr []"
| "requireSeqField body pfx i (Suc n) =
     bind_res (requireStringField body (pfx @ dec i)) (\<lambda>a.
     bind_res (requireSeqField body pfx (Suc i) n) (\<lambda>items. Inr (a # items)))"

section \<open>Per-verb parsers\<close>

definition parseCreateJail_json :: "string \<Rightarrow> CreateJailReq res" where
  "parseCreateJail_json body =
     bind_res (requireStringField body ''name'') (\<lambda>name.
     bind_res (requireStringField body ''path'') (\<lambda>path.
     bind_res (optionalStringField body ''hostname'' []) (\<lambda>hostname.
     bind_res (optionalBoolField body ''vnet'' False) (\<lambda>vnet.
     bind_res (optionalStringField body ''parameters'' []) (\<lambda>parameters.
     Inr \<lparr>cj_name = name, cj_path = path, cj_hostname = hostname, cj_vnet = vnet, cj_parameters = parameters\<rparr>)))))"

definition parseDestroyJail_json :: "string \<Rightarrow> DestroyJailReq res" where
  "parseDestroyJail_json body =
     bind_res (requireStringField body ''name'') (\<lambda>name.
     bind_res (optionalBoolField body ''force'' False) (\<lambda>force.
     Inr \<lparr>dj_name = name, dj_force = force\<rparr>))"

definition parseMountNullfs_json :: "string \<Rightarrow> MountNullfsReq res" where
  "parseMountNullfs_json body =
     bind_res (requireStringField body ''source'') (\<lambda>source.
     bind_res (requireStringField body ''target'') (\<lambda>target.
     bind_res (optionalBoolField body ''read_only'' True) (\<lambda>read_only.
     Inr \<lparr>mn_source = source, mn_target = target, mn_readOnly = read_only\<rparr>)))"

definition parseUnmountNullfs_json :: "string \<Rightarrow> UnmountNullfsReq res" where
  "parseUnmountNullfs_json body =
     bind_res (requireStringField body ''target'') (\<lambda>target.
     bind_res (optionalBoolField body ''force'' False) (\<lambda>force.
     Inr \<lparr>un_target = target, un_force = force\<rparr>))"

definition parseSetRctl_json :: "string \<Rightarrow> SetRctlReq res" where
  "parseSetRctl_json body =
     bind_res (requireLongField body ''jid'') (\<lambda>jid.
     bind_res (requireStringField body ''key'') (\<lambda>key.
     bind_res (requireStringField body ''value'') (\<lambda>value.
     Inr \<lparr>sr_jid = jid, sr_key = key, sr_rawValue = value\<rparr>)))"

definition parseClearRctl_json :: "string \<Rightarrow> ClearRctlReq res" where
  "parseClearRctl_json body =
     bind_res (requireLongField body ''jid'') (\<lambda>jid.
     bind_res (requireStringField body ''key'') (\<lambda>key.
     Inr \<lparr>cr_jid = jid, cr_key = key\<rparr>))"

definition parseAttachZfs_json :: "string \<Rightarrow> AttachZfsReq res" where
  "parseAttachZfs_json body =
     bind_res (requireLongField body ''jid'') (\<lambda>jid.
     bind_res (requireStringField body ''dataset'') (\<lambda>dataset.
     Inr \<lparr>az_jid = jid, az_dataset = dataset\<rparr>))"

definition parseDetachZfs_json :: "string \<Rightarrow> DetachZfsReq res" where
  "parseDetachZfs_json body =
     bind_res (requireLongField body ''jid'') (\<lambda>jid.
     bind_res (requireStringField body ''dataset'') (\<lambda>dataset.
     Inr \<lparr>dz_jid = jid, dz_dataset = dataset\<rparr>))"

definition parseConfigureIface_json :: "string \<Rightarrow> ConfigureIfaceReq res" where
  "parseConfigureIface_json body =
     bind_res (requireLongField body ''jid'') (\<lambda>jid.
     bind_res (requireStringField body ''ifname'') (\<lambda>ifname.
     bind_res (optionalStringField body ''bridge'' []) (\<lambda>bridge.
     bind_res (optionalStringField body ''ipv4_cidr'' []) (\<lambda>ipv4_cidr.
     bind_res (optionalStringField body ''ipv6_cidr'' []) (\<lambda>ipv6_cidr.
     bind_res (optionalStringField body ''mac_addr'' []) (\<lambda>mac_addr.
     Inr \<lparr>ci_jid = jid, ci_ifname = ifname, ci_bridge = bridge, ci_ipv4Cidr = ipv4_cidr, ci_ipv6Cidr = ipv6_cidr, ci_macAddr = mac_addr\<rparr>))))))"

definition parseTeardownIface_json :: "string \<Rightarrow> TeardownIfaceReq res" where
  "parseTeardownIface_json body =
     bind_res (requireStringField body ''ifname'') (\<lambda>ifname.
     Inr \<lparr>ti_ifname = ifname\<rparr>)"

definition parseAddPfRule_json :: "string \<Rightarrow> AddPfRuleReq res" where
  "parseAddPfRule_json body =
     bind_res (requireStringField body ''anchor'') (\<lambda>anchor.
     bind_res (requireStringField body ''rule'') (\<lambda>rule.
     Inr \<lparr>ap_anchor = anchor, ap_ruleText = rule\<rparr>))"

definition parseRemovePfRule_json :: "string \<Rightarrow> RemovePfRuleReq res" where
  "parseRemovePfRule_json body =
     bind_res (requireStringField body ''anchor'') (\<lambda>anchor.
     bind_res (requireStringField body ''rule'') (\<lambda>rule.
     Inr \<lparr>rp_anchor = anchor, rp_ruleText = rule\<rparr>))"

definition parseAddIpfwRule_json :: "string \<Rightarrow> AddIpfwRuleReq res" where
  "parseAddIpfwRule_json body =
     bind_res (requireUnsignedField body ''set'') (\<lambda>set.
     bind_res (requireUnsignedField body ''number'') (\<lambda>number.
     bind_res (requireStringField body ''action'') (\<lambda>action.
     bind_res (requireStringField body ''body'') (\<lambda>body.
     Inr \<lparr>ai_set = set, ai_number = number, ai_action = action, ai_body = body\<rparr>))))"

definition parseRemoveIpfwRule_json :: "string \<Rightarrow> RemoveIpfwRuleReq res" where
  "parseRemoveIpfwRule_json body =
     bind_res (requireUnsignedField body ''set'') (\<lambda>set.
     bind_res (requireUnsignedField body ''number'') (\<lambda>number.
     Inr \<lparr>ri_set = set, ri_number = number\<rparr>))"

definition parseSetIfaceUp_json :: "string \<Rightarrow> SetIfaceUpReq res" where
  "parseSetIfaceUp_json body =
     bind_res (requireStringField body ''ifname'') (\<lambda>ifname.
     Inr \<lparr>su_ifname = ifname\<rparr>)"

definition parseDisableIfaceOffload_json :: "string \<Rightarrow> DisableIfaceOffloadReq res" where
  "parseDisableIfaceOffload_json body =
     bind_res (requireStringField body ''ifname'') (\<lambda>ifname.
     Inr \<lparr>do_ifname = ifname\<rparr>)"

definition parseBridgeAddMember_json :: "string \<Rightarrow> BridgeAddMemberReq res" where
  "parseBridgeAddMember_json body =
     bind_res (requireStringField body ''bridge'') (\<lambda>bridge.
     bind_res (requireStringField body ''member'') (\<lambda>member.
     Inr \<lparr>ba_bridge = bridge, ba_member = member\<rparr>))"

definition parseBridgeDelMember_json :: "string \<Rightarrow> BridgeDelMemberReq res" where
  "parseBridgeDelMember_json body =
     bind_res (requireStringField body ''bridge'') (\<lambda>bridge.
     bind_res (requireStringField body ''member'') (\<lambda>member.
     Inr \<lparr>bd_bridge = bridge, bd_member = member\<rparr>))"

definition parseSetIfaceInetAddr_json :: "string \<Rightarrow> SetIfaceInetAddrReq res" where
  "parseSetIfaceInetAddr_json body =
     (let inet6 = fst (extractBoolField body ''inet6'' False) in
     bind_res (requireStringField body ''ifname'') (\<lambda>ifname.
     bind_res (requireStringField body ''addr'') (\<lambda>addr.
     bind_res (requireUnsignedField body ''prefix_len'') (\<lambda>prefix_len.
     Inr \<lparr>sa_ifname = ifname, sa_addr = addr, sa_prefixLen = prefix_len, sa_inet6 = inet6\<rparr>))))"

definition parseCreateEpair_json :: "string \<Rightarrow> CreateEpairReq res" where
  "parseCreateEpair_json body = Inr ()"

definition parseEnsureUserRoot_json :: "string \<Rightarrow> EnsureUserRootReq res" where
  "parseEnsureUserRoot_json body = Inr ()"

definition parseSetLoginclassRctl_json :: "string \<Rightarrow> SetLoginclassRctlReq res" where
  "parseSetLoginclassRctl_json body =
     bind_res (requireStringField body ''loginclass'') (\<lambda>loginclass.
     bind_res (requireStringField body ''key'') (\<lambda>key.
     bind_res (requireStringField body ''value'') (\<lambda>value.
     Inr \<lparr>sl_loginclass = loginclass, sl_key = key, sl_rawValue = value\<rparr>)))"

definition parseClearLoginclassRctl_json :: "string \<Rightarrow> ClearLoginclassRctlReq res" where
  "parseClearLoginclassRctl_json body =
     bind_res (requireStringField body ''loginclass'') (\<lambda>loginclass.
     bind_res (requireStringField body ''key'') (\<lambda>key.
     Inr \<lparr>cl_loginclass = loginclass, cl_key = key\<rparr>))"

definition parseReclaimIfaceFromVnet_json :: "string \<Rightarrow> ReclaimIfaceFromVnetReq res" where
  "parseReclaimIfaceFromVnet_json body =
     bind_res (requireStringField body ''ifname'') (\<lambda>ifname.
     bind_res (requireStringField body ''jail_name'') (\<lambda>jail_name.
     Inr \<lparr>rv_ifname = ifname, rv_jailName = jail_name\<rparr>))"

definition parseFlushPfAnchor_json :: "string \<Rightarrow> FlushPfAnchorReq res" where
  "parseFlushPfAnchor_json body =
     bind_res (requireStringField body ''anchor'') (\<lambda>anchor.
     Inr \<lparr>fa_anchor = anchor\<rparr>)"

definition parseQueryJailRctl_json :: "string \<Rightarrow> QueryJailRctlReq res" where
  "parseQueryJailRctl_json body =
     bind_res (requireUnsignedField body ''jid'') (\<lambda>jid.
     let limits = fst (extractBoolField body ''limits'' False) in
     Inr \<lparr>qj_jid = jid, qj_limits = limits\<rparr>)"

definition parseSetIfaceMac_json :: "string \<Rightarrow> SetIfaceMacReq res" where
  "parseSetIfaceMac_json body =
     bind_res (requireStringField body ''ifname'') (\<lambda>ifname.
     bind_res (requireStringField body ''mac'') (\<lambda>mac.
     Inr \<lparr>sm_ifname = ifname, sm_mac = mac\<rparr>))"

definition parseDeleteIpfwNat_json :: "string \<Rightarrow> DeleteIpfwNatReq res" where
  "parseDeleteIpfwNat_json body =
     bind_res (requireUnsignedField body ''number'') (\<lambda>number.
     Inr \<lparr>dn_number = number\<rparr>)"

definition parseCreateBridge_json :: "string \<Rightarrow> CreateBridgeReq res" where
  "parseCreateBridge_json body =
     bind_res (requireStringField body ''name'') (\<lambda>name.
     Inr \<lparr>cb_name = name\<rparr>)"

definition parseAcquireFwLease_json :: "string \<Rightarrow> AcquireFwLeaseReq res" where
  "parseAcquireFwLease_json body =
     bind_res (requireUnsignedField body ''jid'') (\<lambda>jid.
     let slot = fst (extractBoolField body ''slot'' False) in
     let fwd4 = fst (extractBoolField body ''fwd4'' False) in
     let fwd6 = fst (extractBoolField body ''fwd6'' False) in
     Inr \<lparr>af_jid = jid, af_slot = slot, af_fwd4 = fwd4, af_fwd6 = fwd6\<rparr>)"

definition parseReleaseFwLease_json :: "string \<Rightarrow> ReleaseFwLeaseReq res" where
  "parseReleaseFwLease_json body =
     bind_res (requireUnsignedField body ''jid'') (\<lambda>jid.
     Inr \<lparr>rf_jid = jid\<rparr>)"

definition parseConfigureIpfwNat_json :: "string \<Rightarrow> ConfigureIpfwNatReq res" where
  "parseConfigureIpfwNat_json body =
     bind_res (requireUnsignedField body ''number'') (\<lambda>number.
     bind_res (requireStringField body ''config'') (\<lambda>config.
     Inr \<lparr>cn_number = number, cn_config = config\<rparr>))"

definition parseSetJailCpuset_json :: "string \<Rightarrow> SetJailCpusetReq res" where
  "parseSetJailCpuset_json body =
     bind_res (requireUnsignedField body ''jid'') (\<lambda>jid.
     bind_res (requireStringField body ''cpuset'') (\<lambda>cpuset.
     Inr \<lparr>sc_jid = jid, sc_cpuset = cpuset\<rparr>))"

definition parseApplyDevfsRuleset_json :: "string \<Rightarrow> ApplyDevfsRulesetReq res" where
  "parseApplyDevfsRuleset_json body =
     bind_res (requireStringField body ''mount_path'') (\<lambda>mount_path.
     bind_res (requireUnsignedField body ''ruleset'') (\<lambda>ruleset.
     Inr \<lparr>ad_mountPath = mount_path, ad_ruleset = ruleset\<rparr>))"

definition parseAddDevfsUnhideRule_json :: "string \<Rightarrow> AddDevfsUnhideRuleReq res" where
  "parseAddDevfsUnhideRule_json body =
     bind_res (requireStringField body ''mount_path'') (\<lambda>mount_path.
     bind_res (requireStringField body ''path_pattern'') (\<lambda>path_pattern.
     Inr \<lparr>au_mountPath = mount_path, au_pathPattern = path_pattern\<rparr>))"

definition parseExecInJail_json :: "string \<Rightarrow> ExecInJailReq res" where
  "parseExecInJail_json body =
     bind_res (requireUnsignedField body ''jid'') (\<lambda>jid.
     let user = fst (extractStringField body ''user'' []) in
     let term = fst (extractStringField body ''term'' []) in
     bind_res (requireUnsignedField body ''argc'') (\<lambda>argc.
     bind_res (argc_check argc kExecInJailMaxArgs) (\<lambda>_.
     bind_res (requireSeqField body ''argv'' 0 argc) (\<lambda>items.
     Inr \<lparr>ej_jid = jid, ej_user = user, ej_argv = items, ej_term = term\<rparr>))))"

definition parseSignalJail_json :: "string \<Rightarrow> SignalJailReq res" where
  "parseSignalJail_json body =
     bind_res (requireUnsignedField body ''jid'') (\<lambda>jid.
     bind_res (requireStringField body ''signal'') (\<lambda>signal.
     Inr \<lparr>sj_jid = jid, sj_signal = signal\<rparr>))"

definition parseMountTmpfs_json :: "string \<Rightarrow> MountTmpfsReq res" where
  "parseMountTmpfs_json body =
     bind_res (requireStringField body ''target'') (\<lambda>target.
     let size = fst (extractStringField body ''size'' []) in
     let uid = fst (extractStringField body ''uid'' []) in
     let gid = fst (extractStringField body ''gid'' []) in
     let mode = fst (extractStringField body ''mode'' []) in
     Inr \<lparr>mt_target = target, mt_size = size, mt_uid = uid, mt_gid = gid, mt_mode = mode\<rparr>)"

definition parseApplyDevfsRules_json :: "string \<Rightarrow> ApplyDevfsRulesReq res" where
  "parseApplyDevfsRules_json body =
     bind_res (requireStringField body ''mount_path'') (\<lambda>mount_path.
     bind_res (requireUnsignedField body ''ruleset'') (\<lambda>ruleset.
     bind_res (requireUnsignedField body ''argc'') (\<lambda>argc.
     bind_res (argc_check argc kApplyDevfsRulesMaxRules) (\<lambda>_.
     bind_res (requireSeqField body ''rule'' 0 argc) (\<lambda>items.
     Inr \<lparr>ar_mountPath = mount_path, ar_ruleset = ruleset, ar_rules = items\<rparr>)))))"

fun parse_json :: "verb \<Rightarrow> string \<Rightarrow> request res" where
  "parse_json CreateJail body = parse_as R_CreateJail (parseCreateJail_json body)"
| "parse_json DestroyJail body = parse_as R_DestroyJail (parseDestroyJail_json body)"
| "parse_json MountNullfs body = parse_as R_MountNullfs (parseMountNullfs_json body)"
| "parse_json UnmountNullfs body = parse_as R_UnmountNullfs (parseUnmountNullfs_json body)"
| "parse_json SetRctl body = parse_as R_SetRctl (parseSetRctl_json body)"
| "parse_json ClearRctl body = parse_as R_ClearRctl (parseClearRctl_json body)"
| "parse_json AttachZfs body = parse_as R_AttachZfs (parseAttachZfs_json body)"
| "parse_json DetachZfs body = parse_as R_DetachZfs (parseDetachZfs_json body)"
| "parse_json ConfigureIface body = parse_as R_ConfigureIface (parseConfigureIface_json body)"
| "parse_json TeardownIface body = parse_as R_TeardownIface (parseTeardownIface_json body)"
| "parse_json AddPfRule body = parse_as R_AddPfRule (parseAddPfRule_json body)"
| "parse_json RemovePfRule body = parse_as R_RemovePfRule (parseRemovePfRule_json body)"
| "parse_json AddIpfwRule body = parse_as R_AddIpfwRule (parseAddIpfwRule_json body)"
| "parse_json RemoveIpfwRule body = parse_as R_RemoveIpfwRule (parseRemoveIpfwRule_json body)"
| "parse_json SetIfaceUp body = parse_as R_SetIfaceUp (parseSetIfaceUp_json body)"
| "parse_json DisableIfaceOffload body = parse_as R_DisableIfaceOffload (parseDisableIfaceOffload_json body)"
| "parse_json BridgeAddMember body = parse_as R_BridgeAddMember (parseBridgeAddMember_json body)"
| "parse_json BridgeDelMember body = parse_as R_BridgeDelMember (parseBridgeDelMember_json body)"
| "parse_json SetIfaceInetAddr body = parse_as R_SetIfaceInetAddr (parseSetIfaceInetAddr_json body)"
| "parse_json CreateEpair body = parse_as (\<lambda>_. R_CreateEpair) (parseCreateEpair_json body)"
| "parse_json EnsureUserRoot body = parse_as (\<lambda>_. R_EnsureUserRoot) (parseEnsureUserRoot_json body)"
| "parse_json SetLoginclassRctl body = parse_as R_SetLoginclassRctl (parseSetLoginclassRctl_json body)"
| "parse_json ClearLoginclassRctl body = parse_as R_ClearLoginclassRctl (parseClearLoginclassRctl_json body)"
| "parse_json ReclaimIfaceFromVnet body = parse_as R_ReclaimIfaceFromVnet (parseReclaimIfaceFromVnet_json body)"
| "parse_json FlushPfAnchor body = parse_as R_FlushPfAnchor (parseFlushPfAnchor_json body)"
| "parse_json QueryJailRctl body = parse_as R_QueryJailRctl (parseQueryJailRctl_json body)"
| "parse_json ConfigureIpfwNat body = parse_as R_ConfigureIpfwNat (parseConfigureIpfwNat_json body)"
| "parse_json SetJailCpuset body = parse_as R_SetJailCpuset (parseSetJailCpuset_json body)"
| "parse_json ApplyDevfsRuleset body = parse_as R_ApplyDevfsRuleset (parseApplyDevfsRuleset_json body)"
| "parse_json AddDevfsUnhideRule body = parse_as R_AddDevfsUnhideRule (parseAddDevfsUnhideRule_json body)"
| "parse_json SignalJail body = parse_as R_SignalJail (parseSignalJail_json body)"
| "parse_json ExecInJail body = parse_as R_ExecInJail (parseExecInJail_json body)"
| "parse_json SetIfaceMac body = parse_as R_SetIfaceMac (parseSetIfaceMac_json body)"
| "parse_json DeleteIpfwNat body = parse_as R_DeleteIpfwNat (parseDeleteIpfwNat_json body)"
| "parse_json CreateBridge body = parse_as R_CreateBridge (parseCreateBridge_json body)"
| "parse_json AcquireFwLease body = parse_as R_AcquireFwLease (parseAcquireFwLease_json body)"
| "parse_json ReleaseFwLease body = parse_as R_ReleaseFwLease (parseReleaseFwLease_json body)"
| "parse_json ApplyDevfsRules body = parse_as R_ApplyDevfsRules (parseApplyDevfsRules_json body)"
| "parse_json MountTmpfs body = parse_as R_MountTmpfs (parseMountTmpfs_json body)"
| "parse_json Unknown body = Inl ''unknown verb''"

definition parseVerbFromPath :: "string \<Rightarrow> verb" where
  "parseVerbFromPath path =
     (let tok = drop 16 path in
      if \<not> starts_with ''/api/v1/privops/'' path then Unknown
      else if tok = [] \<or> CHR ''/'' \<in> set tok then Unknown
      else parseVerb tok)"

section \<open>Response bodies\<close>

record DispatchResult =
  dr_status :: nat
  dr_body :: string

definition json_key :: "string \<Rightarrow> string" where
  "json_key k = DQ # k @ [DQ, CHR '':'']"

definition json_raw :: "string \<Rightarrow> string \<Rightarrow> string" where
  "json_raw k v = json_key k @ v"

definition json_str :: "string \<Rightarrow> string \<Rightarrow> string" where
  "json_str k v = json_key k @ DQ # json_escape v @ [DQ]"

definition json_obj :: "string list \<Rightarrow> string" where
  "json_obj fs = CHR 0x7B # join (CHR '','') fs @ [CHR 0x7D]"

definition bool_json :: "bool \<Rightarrow> string" where
  "bool_json b = (if b then ''true'' else ''false'')"

text \<open>An error body: its text is already escaped by the caller.\<close>

definition json_error :: "string \<Rightarrow> string" where
  "json_error escaped = CHR 0x7B # json_key ''error'' @ DQ # escaped @ [DQ, CHR 0x7D]"

definition formatNotImplemented :: "verb \<Rightarrow> string" where
  "formatNotImplemented v =
     json_error (''verb '' @ quoted (verbName v) @ '' not yet implemented (handler lands in a 0.9.x release)'')"

definition formatParseError :: "string \<Rightarrow> string" where
  "formatParseError reason = json_error (''parse: '' @ json_escape reason)"

definition formatValidateError :: "string \<Rightarrow> string" where
  "formatValidateError reason = json_error (''validate: '' @ json_escape reason)"

definition formatHandlerError :: "string \<Rightarrow> string \<Rightarrow> string" where
  "formatHandlerError kind reason = json_error (json_escape kind @ '': '' @ json_escape reason)"

definition formatMountTmpfsSuccess :: "string \<Rightarrow> string" where
  "formatMountTmpfsSuccess target =
     json_obj [json_raw ''mounted'' ''true'',
       json_str ''target'' target]"

definition formatSetRctlSuccess :: "int \<Rightarrow> string \<Rightarrow> string \<Rightarrow> string" where
  "formatSetRctlSuccess jid key rawValue =
     json_obj [json_raw ''set'' ''true'',
       json_raw ''jid'' (dec_int jid),
       json_str ''key'' key,
       json_str ''value'' rawValue]"

definition formatClearRctlSuccess :: "int \<Rightarrow> string \<Rightarrow> string" where
  "formatClearRctlSuccess jid key =
     json_obj [json_raw ''cleared'' ''true'',
       json_raw ''jid'' (dec_int jid),
       json_str ''key'' key]"

definition formatAttachZfsSuccess :: "int \<Rightarrow> string \<Rightarrow> string" where
  "formatAttachZfsSuccess jid dataset =
     json_obj [json_raw ''attached'' ''true'',
       json_raw ''jid'' (dec_int jid),
       json_str ''dataset'' dataset]"

definition formatDetachZfsSuccess :: "int \<Rightarrow> string \<Rightarrow> string" where
  "formatDetachZfsSuccess jid dataset =
     json_obj [json_raw ''detached'' ''true'',
       json_raw ''jid'' (dec_int jid),
       json_str ''dataset'' dataset]"

definition formatMountNullfsSuccess :: "string \<Rightarrow> string \<Rightarrow> bool \<Rightarrow> string" where
  "formatMountNullfsSuccess source target readOnly =
     json_obj [json_raw ''mounted'' ''true'',
       json_str ''source'' source,
       json_str ''target'' target,
       json_raw ''read_only'' (bool_json readOnly)]"

definition formatUnmountNullfsSuccess :: "string \<Rightarrow> string" where
  "formatUnmountNullfsSuccess target =
     json_obj [json_raw ''unmounted'' ''true'',
       json_str ''target'' target]"

definition formatConfigureIfaceSuccess :: "int \<Rightarrow> string \<Rightarrow> string \<Rightarrow> string \<Rightarrow> string \<Rightarrow> string \<Rightarrow> string" where
  "formatConfigureIfaceSuccess jid ifname bridge ipv4Cidr ipv6Cidr macAddr =
     json_obj [json_raw ''configured'' ''true'',
       json_raw ''jid'' (dec_int jid),
       json_str ''ifname'' ifname,
       json_str ''bridge'' bridge,
       json_str ''ipv4_cidr'' ipv4Cidr,
       json_str ''ipv6_cidr'' ipv6Cidr,
       json_str ''mac_addr'' macAddr]"

definition formatTeardownIfaceSuccess :: "string \<Rightarrow> string" where
  "formatTeardownIfaceSuccess ifname =
     json_obj [json_raw ''destroyed'' ''true'',
       json_str ''ifname'' ifname]"

definition formatAddPfRuleSuccess :: "string \<Rightarrow> string \<Rightarrow> string" where
  "formatAddPfRuleSuccess anchor ruleText =
     json_obj [json_raw ''loaded'' ''true'',
       json_str ''anchor'' anchor,
       json_str ''rule'' ruleText]"

definition formatRemovePfRuleSuccess :: "string \<Rightarrow> string" where
  "formatRemovePfRuleSuccess anchor =
     json_obj [json_raw ''flushed_anchor'' ''true'',
       json_str ''anchor'' anchor]"

definition formatAddIpfwRuleSuccess :: "nat \<Rightarrow> nat \<Rightarrow> string \<Rightarrow> string \<Rightarrow> string" where
  "formatAddIpfwRuleSuccess rset number action body =
     json_obj [json_raw ''added'' ''true'',
       json_raw ''set'' (dec rset),
       json_raw ''number'' (dec number),
       json_str ''action'' action,
       json_str ''body'' body]"

definition formatRemoveIpfwRuleSuccess :: "nat \<Rightarrow> nat \<Rightarrow> string" where
  "formatRemoveIpfwRuleSuccess rset number =
     json_obj [json_raw ''removed'' ''true'',
       json_raw ''set'' (dec rset),
       json_raw ''number'' (dec number)]"

definition formatCreateJailSuccess :: "string \<Rightarrow> string \<Rightarrow> string" where
  "formatCreateJailSuccess name path =
     json_obj [json_raw ''created'' ''true'',
       json_str ''name'' name,
       json_str ''path'' path]"

definition formatDestroyJailSuccess :: "string \<Rightarrow> string" where
  "formatDestroyJailSuccess name =
     json_obj [json_raw ''destroyed'' ''true'',
       json_str ''name'' name]"

definition formatSetIfaceUpSuccess :: "string \<Rightarrow> string" where
  "formatSetIfaceUpSuccess ifname =
     json_obj [json_raw ''up'' ''true'',
       json_str ''ifname'' ifname]"

definition formatDisableIfaceOffloadSuccess :: "string \<Rightarrow> string" where
  "formatDisableIfaceOffloadSuccess ifname =
     json_obj [json_raw ''offload_disabled'' ''true'',
       json_str ''ifname'' ifname]"

definition formatBridgeAddMemberSuccess :: "string \<Rightarrow> string \<Rightarrow> string" where
  "formatBridgeAddMemberSuccess bridge member =
     json_obj [json_raw ''added'' ''true'',
       json_str ''bridge'' bridge,
       json_str ''member'' member]"

definition formatBridgeDelMemberSuccess :: "string \<Rightarrow> string \<Rightarrow> string" where
  "formatBridgeDelMemberSuccess bridge member =
     json_obj [json_raw ''removed'' ''true'',
       json_str ''bridge'' bridge,
       json_str ''member'' member]"

definition formatSetIfaceInetAddrSuccess :: "string \<Rightarrow> string \<Rightarrow> nat \<Rightarrow> string" where
  "formatSetIfaceInetAddrSuccess ifname addr plen =
     json_obj [json_raw ''set'' ''true'',
       json_str ''ifname'' ifname,
       json_str ''addr'' addr,
       json_raw ''prefix_len'' (dec plen)]"

definition formatEnsureUserRootSuccess :: "nat \<Rightarrow> string \<Rightarrow> string" where
  "formatEnsureUserRootSuccess uid path =
     json_obj [json_raw ''ensured'' ''true'',
       json_raw ''uid'' (dec uid),
       json_str ''path'' path]"

definition formatCreateEpairSuccess :: "string \<Rightarrow> string \<Rightarrow> string" where
  "formatCreateEpairSuccess ifaceA ifaceB =
     json_obj [json_raw ''created'' ''true'',
       json_str ''a'' ifaceA,
       json_str ''b'' ifaceB]"

definition formatSetLoginclassRctlSuccess :: "string \<Rightarrow> string \<Rightarrow> string \<Rightarrow> string" where
  "formatSetLoginclassRctlSuccess loginclass key rawValue =
     json_obj [json_raw ''set'' ''true'',
       json_str ''loginclass'' loginclass,
       json_str ''key'' key,
       json_str ''value'' rawValue]"

definition formatClearLoginclassRctlSuccess :: "string \<Rightarrow> string \<Rightarrow> string" where
  "formatClearLoginclassRctlSuccess loginclass key =
     json_obj [json_raw ''cleared'' ''true'',
       json_str ''loginclass'' loginclass,
       json_str ''key'' key]"

definition formatReclaimIfaceFromVnetSuccess :: "string \<Rightarrow> string \<Rightarrow> string" where
  "formatReclaimIfaceFromVnetSuccess ifname jailName =
     json_obj [json_raw ''reclaimed'' ''true'',
       json_str ''ifname'' ifname,
       json_str ''jail_name'' jailName]"

definition formatFlushPfAnchorSuccess :: "string \<Rightarrow> string" where
  "formatFlushPfAnchorSuccess anchor =
     json_obj [json_raw ''flushed'' ''true'',
       json_str ''anchor'' anchor]"

definition formatQueryJailRctlSuccess :: "nat \<Rightarrow> string \<Rightarrow> string" where
  "formatQueryJailRctlSuccess jid output =
     json_obj [json_raw ''jid'' (dec jid),
       json_str ''output'' output]"

definition formatConfigureIpfwNatSuccess :: "nat \<Rightarrow> string" where
  "formatConfigureIpfwNatSuccess number =
     json_obj [json_raw ''configured'' ''true'',
       json_raw ''number'' (dec number)]"

definition formatSetJailCpusetSuccess :: "nat \<Rightarrow> string \<Rightarrow> string" where
  "formatSetJailCpusetSuccess jid cpuset =
     json_obj [json_raw ''bound'' ''true'',
       json_raw ''jid'' (dec jid),
       json_str ''cpuset'' cpuset]"

definition formatApplyDevfsRulesetSuccess :: "string \<Rightarrow> nat \<Rightarrow> string" where
  "formatApplyDevfsRulesetSuccess mountPath ruleset =
     json_obj [json_raw ''applied'' ''true'',
       json_str ''mount_path'' mountPath,
       json_raw ''ruleset'' (dec ruleset)]"

definition formatAddDevfsUnhideRuleSuccess :: "string \<Rightarrow> string \<Rightarrow> string" where
  "formatAddDevfsUnhideRuleSuccess mountPath pathPattern =
     json_obj [json_raw ''added'' ''true'',
       json_str ''mount_path'' mountPath,
       json_str ''path_pattern'' pathPattern]"

definition formatApplyDevfsRulesSuccess :: "string \<Rightarrow> nat \<Rightarrow> nat \<Rightarrow> string" where
  "formatApplyDevfsRulesSuccess mountPath ruleset rules =
     json_obj [json_raw ''applied'' ''true'',
       json_str ''mount_path'' mountPath,
       json_raw ''ruleset'' (dec ruleset),
       json_raw ''rules'' (dec rules)]"

definition formatSetIfaceMacSuccess :: "string \<Rightarrow> string \<Rightarrow> string" where
  "formatSetIfaceMacSuccess ifname mac =
     json_obj [json_raw ''set'' ''true'',
       json_str ''ifname'' ifname,
       json_str ''mac'' mac]"

definition formatDeleteIpfwNatSuccess :: "nat \<Rightarrow> string" where
  "formatDeleteIpfwNatSuccess number =
     json_obj [json_raw ''deleted'' ''true'',
       json_raw ''number'' (dec number)]"

definition formatCreateBridgeSuccess :: "string \<Rightarrow> string" where
  "formatCreateBridgeSuccess name =
     json_obj [json_raw ''created'' ''true'',
       json_str ''name'' name]"

definition formatAcquireFwLeaseSuccess :: "nat \<Rightarrow> int \<Rightarrow> nat \<Rightarrow> nat \<Rightarrow> string" where
  "formatAcquireFwLeaseSuccess jid slot fwd4Users fwd6Users =
     json_obj [json_raw ''jid'' (dec jid),
       json_raw ''slot'' (dec_int slot),
       json_raw ''fwd4_users'' (dec fwd4Users),
       json_raw ''fwd6_users'' (dec fwd6Users)]"

definition formatReleaseFwLeaseSuccess :: "nat \<Rightarrow> bool \<Rightarrow> nat \<Rightarrow> nat \<Rightarrow> string" where
  "formatReleaseFwLeaseSuccess jid released fwd4Users fwd6Users =
     json_obj [json_raw ''jid'' (dec jid),
       json_raw ''released'' (bool_json released),
       json_raw ''fwd4_users'' (dec fwd4Users),
       json_raw ''fwd6_users'' (dec fwd6Users)]"

definition formatExecInJailSuccess :: "nat \<Rightarrow> int \<Rightarrow> string" where
  "formatExecInJailSuccess jid pid =
     json_obj [json_raw ''started'' ''true'',
       json_raw ''jid'' (dec jid),
       json_raw ''pid'' (dec_int pid)]"

definition formatSignalJailSuccess :: "nat \<Rightarrow> string \<Rightarrow> string" where
  "formatSignalJailSuccess jid signal =
     json_obj [json_raw ''signalled'' ''true'',
       json_raw ''jid'' (dec jid),
       json_str ''signal'' signal]"

section \<open>The table of verbs without a handler\<close>

definition runVerb :: "verb \<Rightarrow> request res \<Rightarrow> DispatchResult" where
  "runVerb v parsed =
     (case parsed of
        Inl e \<Rightarrow> \<lparr>dr_status = 400, dr_body = formatParseError e\<rparr>
      | Inr r \<Rightarrow>
        if validate_request r \<noteq> [] then \<lparr>dr_status = 400, dr_body = formatValidateError (validate_request r)\<rparr>
        else \<lparr>dr_status = 501, dr_body = formatNotImplemented v\<rparr>)"

definition parseValidateAndDispatch :: "verb \<Rightarrow> string \<Rightarrow> DispatchResult" where
  "parseValidateAndDispatch v b =
     (if v = Unknown then \<lparr>dr_status = 404, dr_body = json_error ''unknown privops verb''\<rparr>
      else runVerb v (parse_json v b))"

section \<open>Escaping and decoding are inverse\<close>

lemma hex_digit_lower: "d < 16 \<Longrightarrow> hex_digit (hex_lower d) = Some d"
proof -
  have "\<forall>d \<in> {..<16}. hex_digit (hex_lower d) = Some d" by code_simp
  then show "d < 16 \<Longrightarrow> hex_digit (hex_lower d) = Some d" by simp
qed

lemma hex4_u_escape: "n < 32 \<Longrightarrow> hex4 0 [CHR ''0'', CHR ''0'', hex_lower (n div 16), hex_lower (n mod 16)] = Some n"
proof -
  assume "n < 32"
  then have "n div 16 < 16" "n mod 16 < 16" by simp_all
  moreover have "hex_digit (CHR ''0'') = Some 0" by (simp add: hex_digit_def)
  ultimately show ?thesis by (simp add: hex_digit_lower)
qed

lemma special_neq [simp]: "DQ \<noteq> BSL" "BSL \<noteq> DQ" "CHR ''u'' \<noteq> DQ" "CHR ''u'' \<noteq> BSL"
  by (simp_all add: DQ_def BSL_def)

lemma decode_escape_char: "decode_loop out (escape_char c @ rest) = decode_loop (out @ [c]) rest"
proof -
  consider "c \<in> {DQ, BSL, CHR 0x08, CHR 0x0C, CHR 0x0A, CHR 0x0D, CHR 0x09}"
    | "c \<notin> {DQ, BSL, CHR 0x08, CHR 0x0C, CHR 0x0A, CHR 0x0D, CHR 0x09}" "of_char c < (0x20::nat)"
    | "c \<notin> {DQ, BSL, CHR 0x08, CHR 0x0C, CHR 0x0A, CHR 0x0D, CHR 0x09}" "\<not> of_char c < (0x20::nat)" by blast
  then show ?thesis
  proof cases
    case 1
    then show ?thesis by (auto simp: escape_char_def unescape_def DQ_def BSL_def)
  next
    case 2
    let ?n = "of_char c :: nat"
    have "hex4 0 [CHR ''0'', CHR ''0'', hex_lower (?n div 16), hex_lower (?n mod 16)] = Some ?n"
      by (rule hex4_u_escape) (use 2 in simp)
    moreover have "utf8 ?n = [c]" using 2 by (simp add: utf8_def)
    moreover have "escape_char c = u_escape ?n" using 2 by (simp add: escape_char_def)
    ultimately show ?thesis by (simp add: u_escape_def)
  next
    case 3
    then show ?thesis by (simp add: escape_char_def)
  qed
qed

lemma decode_escape: "decode_loop out (json_escape s @ DQ # rest) = (out @ s, Some rest)"
proof (induction s arbitrary: out)
  case Nil
  then show ?case by (simp add: json_escape_def)
next
  case (Cons c s)
  have "decode_loop out (json_escape (c # s) @ DQ # rest) = decode_loop (out @ [c]) (json_escape s @ DQ # rest)"
    by (simp add: json_escape_def decode_escape_char)
  with Cons show ?case by simp
qed

section \<open>What the field finder finds\<close>

text \<open>A flat object: each value is a raw token without quotes (a number, a boolean) or a string.\<close>

datatype json_val = JRaw string | JStr string

fun json_field :: "string \<times> json_val \<Rightarrow> string" where
  "json_field (k, JRaw r) = json_raw k r"
| "json_field (k, JStr v) = json_str k v"

definition ident :: "string \<Rightarrow> bool" where
  "ident k \<longleftrightarrow> k \<noteq> [] \<and> list_all (\<lambda>c. is_alnum c \<or> c = CHR ''_'') k"

fun plain_field :: "string \<times> json_val \<Rightarrow> bool" where
  "plain_field (k, JRaw r) = (ident k \<and> DQ \<notin> set r)"
| "plain_field (k, JStr v) = ident k"

text \<open>The finder takes such a value for the field name itself: equal to it, or ending in a quote and it.\<close>

definition shadows :: "string \<Rightarrow> string \<Rightarrow> bool" where
  "shadows k v \<longleftrightarrow> v = k \<or> (\<exists>u. v = u @ DQ # k)"

fun hit :: "string \<Rightarrow> string \<times> json_val \<Rightarrow> bool" where
  "hit k (k', JRaw r) = (k' = k)"
| "hit k (k', JStr v) = (k' = k \<or> shadows k v)"

lemma ident_chars:
  assumes "ident k" shows "DQ \<notin> set k" "BSL \<notin> set k" "k \<noteq> []" "hd k \<notin> {CHR '':'', CHR '','', CHR 0x7D, CHR 0x7B}"
proof -
  have c: "c \<in> set k \<Longrightarrow> is_alnum c \<or> c = CHR ''_''" for c using assms by (auto simp: ident_def list_all_iff)
  show ne: "k \<noteq> []" using assms by (simp add: ident_def)
  have no: "\<not> (is_alnum c \<or> c = CHR ''_'')" if "c \<in> {DQ, BSL, CHR '':'', CHR '','', CHR 0x7D, CHR 0x7B}" for c
    using that by (auto simp: is_alnum_def DQ_def BSL_def)
  show "DQ \<notin> set k" "BSL \<notin> set k" using c no by blast+
  show "hd k \<notin> {CHR '':'', CHR '','', CHR 0x7D, CHR 0x7B}" using c [of "hd k"] no [of "hd k"] ne by auto
qed

lemma needle_prefix_iff:
  assumes "DQ \<notin> set k" "DQ \<notin> set a"
  shows "starts_with (k @ [DQ]) (a @ DQ # rest) \<longleftrightarrow> a = k"
proof
  assume "starts_with (k @ [DQ]) (a @ DQ # rest)"
  then obtain z where "a @ DQ # rest = k @ DQ # z" by (auto simp: starts_with_iff)
  then have "cut_at DQ (a @ DQ # rest) = cut_at DQ (k @ DQ # z)" by (rule arg_cong)
  then show "a = k" by (simp only: cut_at_append [OF assms(1)] cut_at_append [OF assms(2)] option.inject prod.inject)
qed (simp add: starts_with_iff)

lemma after_first_skip: "DQ \<notin> set a \<Longrightarrow> after_first (DQ # n) (a @ rest) = after_first (DQ # n) rest"
  by (induction a) (auto simp: starts_with_iff)

lemma after_first_DQ:
  "after_first (DQ # n) (DQ # rest) = (if starts_with n rest then Some (drop (length n) rest) else after_first (DQ # n) rest)"
  by (simp add: starts_with_iff)

lemma escape_char_cases:
  obtains "c = DQ" "escape_char c = [BSL, DQ]"
  | "c \<noteq> DQ" "escape_char c = [c]" "c \<noteq> BSL"
  | w where "c \<noteq> DQ" "escape_char c = BSL # w" "DQ \<notin> set w"
proof -
  have "hex_digit DQ = None" by (simp add: hex_digit_def DQ_def)
  then have h: "DQ \<noteq> hex_lower d" if "d < 16" for d using hex_digit_lower [OF that] by auto
  have "(of_char c :: nat) div 16 < 16" by (simp add: div_less_iff_less_mult)
  from h [OF this] h [of "of_char c mod 16"] have u: "DQ \<notin> set (tl (u_escape (of_char c)))"
    by (simp add: u_escape_def) (simp add: DQ_def)
  have dq: "escape_char DQ = [BSL, DQ]" by (simp add: escape_char_def)
  consider "c = DQ" | "c \<noteq> DQ" "c \<noteq> BSL" "escape_char c = [c]" | "c \<noteq> DQ" "c = BSL \<or> escape_char c \<noteq> [c]" by blast
  then show thesis
  proof cases
    case 1
    then show ?thesis using dq that(1) by simp
  next
    case 2
    then show ?thesis using that(2) by simp
  next
    case 3
    then have "\<exists>w. escape_char c = BSL # w \<and> DQ \<notin> set w"
      using u by (auto simp: escape_char_def u_escape_def DQ_def split: if_splits)
    then show ?thesis using that(3) 3(1) by blast
  qed
qed

lemma json_escape_simps: "json_escape [] = []" "json_escape (c # v) = escape_char c @ json_escape v"
  by (simp_all add: json_escape_def)

definition plain :: "string \<Rightarrow> bool" where
  "plain k \<longleftrightarrow> (\<forall>c \<in> set k. escape_char c = [c])"

lemma plain_no_special: "plain k \<Longrightarrow> DQ \<notin> set k \<and> BSL \<notin> set k"
  by (auto simp: plain_def escape_char_def)

lemma escape_char_id: "c \<noteq> DQ \<Longrightarrow> c \<noteq> BSL \<Longrightarrow> 32 \<le> (of_char c :: nat) \<Longrightarrow> escape_char c = [c]"
  by (auto simp: escape_char_def)

lemma ident_plain:
  assumes "ident k" shows "plain k"
  unfolding plain_def
proof
  fix c assume c: "c \<in> set k"
  then have "is_alnum c \<or> c = CHR ''_''" using assms by (auto simp: ident_def list_all_iff)
  then have "48 \<le> (of_char c :: nat)" by (auto simp: is_alnum_def less_eq_char_def)
  then show "escape_char c = [c]" using c ident_chars(1,2) [OF assms] by (intro escape_char_id) auto
qed

lemma escape_prefix_iff:
  "plain k \<Longrightarrow> starts_with (k @ [DQ]) (json_escape v @ DQ # rest) \<longleftrightarrow> v = k"
proof (induction v arbitrary: k)
  case Nil
  then show ?case using plain_no_special [of k] by (cases k) (auto simp: json_escape_def starts_with_iff)
next
  case (Cons c v)
  note e = json_escape_simps
  show ?case
  proof (cases k)
    case Nil
    then show ?thesis by (cases rule: escape_char_cases [of c]) (simp_all add: e starts_with_iff)
  next
    case (Cons d k')
    with Cons.prems have d: "escape_char d = [d]" "d \<noteq> DQ" "d \<noteq> BSL" and k': "plain k'"
      using plain_no_special [of k] by (auto simp: plain_def)
    show ?thesis
      using Cons Cons.IH [OF k'] d by (cases rule: escape_char_cases [of c]) (auto simp: e starts_with_iff)
  qed
qed

lemma after_first_escape:
  assumes "plain k"
  shows "after_first (DQ # k @ [DQ]) (json_escape v @ DQ # rest) =
         (if \<exists>u. v = u @ DQ # k then Some rest else after_first (DQ # k @ [DQ]) (DQ # rest))"
proof (induction v)
  case Nil
  then show ?case by (simp add: json_escape_def)
next
  case (Cons c v)
  note e = json_escape_simps
  have step: "(\<exists>u. c # v = u @ DQ # k) \<longleftrightarrow> c = DQ \<and> v = k \<or> (\<exists>u. v = u @ DQ # k)"
    by (metis append_Cons append_Nil list.inject neq_Nil_conv)
  show ?case
  proof (cases rule: escape_char_cases [of c])
    case 1
    have k: "json_escape k = k" using assms by (induction k) (auto simp: json_escape_def plain_def)
    let ?T = "json_escape v @ DQ # rest"
    have "json_escape (c # v) @ DQ # rest = [BSL] @ DQ # ?T" using 1 by (simp add: e)
    then have "after_first (DQ # k @ [DQ]) (json_escape (c # v) @ DQ # rest) = after_first (DQ # k @ [DQ]) (DQ # ?T)"
      using after_first_skip [of "[BSL]" "k @ [DQ]" "DQ # ?T"] by (simp only:) simp
    also have "\<dots> = (if v = k then Some rest else after_first (DQ # k @ [DQ]) ?T)"
      using k by (simp only: after_first_DQ escape_prefix_iff [OF assms]) simp
    also have "\<dots> = (if \<exists>u. c # v = u @ DQ # k then Some rest else after_first (DQ # k @ [DQ]) (DQ # rest))"
    proof -
      have "(\<exists>u. c # v = u @ DQ # k) \<longleftrightarrow> v = k \<or> (\<exists>u. v = u @ DQ # k)" using step 1(1) by blast
      then show ?thesis by (simp only: Cons.IH split: if_split) blast
    qed
    finally show ?thesis .
  next
    case 2
    then have "after_first (DQ # k @ [DQ]) (json_escape (c # v) @ DQ # rest) = after_first (DQ # k @ [DQ]) (json_escape v @ DQ # rest)"
      using after_first_skip [of "[c]" "k @ [DQ]" "json_escape v @ DQ # rest"] by (simp only: e) simp
    with Cons.IH 2(1) show ?thesis by (simp only: step) simp
  next
    case (3 w)
    then have "after_first (DQ # k @ [DQ]) (json_escape (c # v) @ DQ # rest) = after_first (DQ # k @ [DQ]) (json_escape v @ DQ # rest)"
      using after_first_skip [of "BSL # w" "k @ [DQ]" "json_escape v @ DQ # rest"] by (simp only: e) simp
    with Cons.IH 3(1) show ?thesis by (simp only: step) simp
  qed
qed

fun val_text :: "json_val \<Rightarrow> string" where
  "val_text (JRaw r) = r"
| "val_text (JStr v) = DQ # json_escape v @ [DQ]"

lemma json_field_text: "json_field (k, w) = DQ # k @ DQ # CHR '':'' # val_text w"
  by (cases w) (simp_all add: json_raw_def json_str_def json_key_def)

lemma no_start: "k \<noteq> [] \<Longrightarrow> t = [] \<or> hd t \<noteq> hd k \<Longrightarrow> \<not> starts_with (k @ [DQ]) t"
  by (cases k; cases t) (auto simp: starts_with_iff)

lemma field_scan:
  assumes k: "ident k" and f: "plain_field (k', w)" and t: "hd t \<in> {CHR '','', CHR 0x7D}" "t \<noteq> []"
  shows "after_first (DQ # k @ [DQ]) (json_field (k', w) @ t) =
         (if k' = k then Some (CHR '':'' # val_text w @ t)
          else if hit k (k', w) then Some t else after_first (DQ # k @ [DQ]) t)"
proof -
  let ?N = "DQ # k @ [DQ]" and ?V = "val_text w @ t"
  have i: "ident k'" using f by (cases w) simp_all
  note kc = ident_chars [OF k] and ic = ident_chars [OF i]
  have "after_first ?N (json_field (k', w) @ t) = after_first ?N (DQ # k' @ DQ # CHR '':'' # ?V)"
    by (simp only: json_field_text append_Cons append_assoc)
  also have "\<dots> = (if k' = k then Some (CHR '':'' # ?V) else after_first ?N (DQ # CHR '':'' # ?V))"
    using after_first_skip [OF ic(1), of "k @ [DQ]" "DQ # CHR '':'' # ?V"]
    by (simp only: after_first_DQ [of "k @ [DQ]" "k' @ DQ # CHR '':'' # ?V"] needle_prefix_iff [OF kc(1) ic(1)]) simp
  also have "after_first ?N (DQ # CHR '':'' # ?V) = after_first ?N ?V"
  proof -
    have "\<not> starts_with (k @ [DQ]) (CHR '':'' # ?V)" using kc(3,4) by (intro no_start) auto
    moreover have "after_first ?N ([CHR '':''] @ ?V) = after_first ?N ?V"
      by (rule after_first_skip) (simp add: DQ_def)
    ultimately show ?thesis by (simp only: after_first_DQ) simp
  qed
  finally have A: "after_first ?N (json_field (k', w) @ t) =
    (if k' = k then Some (CHR '':'' # ?V) else after_first ?N ?V)" .
  have B: "after_first ?N ?V = (if hit k (k', w) then Some t else after_first ?N t)" if "k' \<noteq> k"
  proof (cases w)
    case (JRaw r)
    then show ?thesis using that f after_first_skip [of r "k @ [DQ]" t] by simp
  next
    case (JStr v)
    have "\<not> starts_with (k @ [DQ]) t" using kc(3,4) t by (intro no_start) auto
    then have e: "after_first ?N (DQ # t) = after_first ?N t" by (simp only: after_first_DQ) simp
    have "after_first ?N ?V = after_first ?N (DQ # json_escape v @ DQ # t)" by (simp add: JStr)
    also have "\<dots> = (if v = k then Some t else after_first ?N (json_escape v @ DQ # t))"
    proof -
      have "json_escape k = k" using ident_plain [OF k] by (induction k) (auto simp: json_escape_simps plain_def)
      then show ?thesis by (simp only: after_first_DQ escape_prefix_iff [OF ident_plain [OF k]]) simp
    qed
    also have "\<dots> = (if shadows k v then Some t else after_first ?N t)"
      by (simp only: after_first_escape [OF ident_plain [OF k]] shadows_def e split: if_split) blast
    finally show ?thesis using that JStr by simp
  qed
  show ?thesis using A B by (cases "k' = k") (simp_all only: simp_thms if_True if_False)
qed

fun obj_tail :: "(string \<times> json_val) list \<Rightarrow> string" where
  "obj_tail [] = [CHR 0x7D]"
| "obj_tail (f # fs) = CHR '','' # json_field f @ obj_tail fs"

lemma join_obj_tail: "join (CHR '','') (map json_field (f # fs)) @ [CHR 0x7D] = json_field f @ obj_tail fs"
proof (induction fs arbitrary: f)
  case (Cons g fs)
  then show ?case by (simp add: join_Cons)
qed simp

lemma obj_tail_hd [simp]: "obj_tail fs \<noteq> []" "hd (obj_tail fs) \<in> {CHR '','', CHR 0x7D}"
  by (cases fs; simp)+

lemma obj_tail_scan:
  assumes "ident k" "list_all plain_field fs"
  shows "after_first (DQ # k @ [DQ]) (obj_tail fs) =
         (case dropWhile (\<lambda>f. \<not> hit k f) fs of
            [] \<Rightarrow> None
          | (k', w) # gs \<Rightarrow> Some (if k' = k then CHR '':'' # val_text w @ obj_tail gs else obj_tail gs))"
  using assms(2)
proof (induction fs)
  case Nil
  have "after_first (DQ # k @ [DQ]) ([CHR 0x7D] @ []) = after_first (DQ # k @ [DQ]) []"
    by (rule after_first_skip) (simp add: DQ_def)
  then show ?case by simp
next
  case (Cons f fs)
  obtain k' w where f: "f = (k', w)" by (cases f)
  have "after_first (DQ # k @ [DQ]) ([CHR '',''] @ json_field f @ obj_tail fs) =
      after_first (DQ # k @ [DQ]) (json_field f @ obj_tail fs)"
    by (rule after_first_skip) (simp add: DQ_def)
  also have "\<dots> = (if k' = k then Some (CHR '':'' # val_text w @ obj_tail fs)
          else if hit k (k', w) then Some (obj_tail fs) else after_first (DQ # k @ [DQ]) (obj_tail fs))"
    unfolding f by (rule field_scan) (use Cons.prems f assms(1) obj_tail_hd(2) [of fs] in simp_all)
  finally have A: "after_first (DQ # k @ [DQ]) (obj_tail (f # fs)) =
      (if k' = k then Some (CHR '':'' # val_text w @ obj_tail fs)
       else if hit k (k', w) then Some (obj_tail fs) else after_first (DQ # k @ [DQ]) (obj_tail fs))"
    by (simp only: obj_tail.simps append_Cons append_Nil)
  have "hit k (k', w)" if "k' = k" using that by (cases w) simp_all
  with A Cons show ?case by (simp add: f)
qed

lemma json_obj_locate:
  assumes "ident k" "list_all plain_field fs"
  shows "locateField (json_obj (map json_field fs)) k =
         (case dropWhile (\<lambda>f. \<not> hit k f) fs of
            [] \<Rightarrow> Absent
          | (k', w) # gs \<Rightarrow> if k' = k then AfterColon (dropWhile is_ws (val_text w @ obj_tail gs)) else Malformed)"
proof -
  let ?N = "DQ # k @ [DQ]"
  have tail: "after_first ?N (join (CHR '','') (map json_field fs) @ [CHR 0x7D]) = after_first ?N (obj_tail fs)"
  proof (cases fs)
    case (Cons f gs)
    have "after_first ?N ([CHR '',''] @ json_field f @ obj_tail gs) = after_first ?N (json_field f @ obj_tail gs)"
      by (rule after_first_skip) (simp add: DQ_def)
    then show ?thesis unfolding Cons join_obj_tail by (simp only: obj_tail.simps append_Cons append_Nil)
  qed simp
  have "after_first ?N ([CHR 0x7B] @ join (CHR '','') (map json_field fs) @ [CHR 0x7D]) = after_first ?N (obj_tail fs)"
    unfolding tail [symmetric] by (rule after_first_skip) (simp add: DQ_def)
  then have A: "after_first ?N (json_obj (map json_field fs)) = after_first ?N (obj_tail fs)"
    by (simp only: json_obj_def append_Cons append_Nil)
  have ws: "dropWhile is_ws (CHR '':'' # x) = CHR '':'' # x" "dropWhile is_ws (obj_tail gs) = obj_tail gs" for x gs
    by (simp add: is_ws_def) (cases gs; simp add: is_ws_def)
  have t: "\<exists>c cs. obj_tail gs = c # cs \<and> c \<noteq> CHR '':''" for gs
    by (cases gs) simp_all
  show ?thesis
  proof (cases "dropWhile (\<lambda>f. \<not> hit k f) fs")
    case Nil
    show ?thesis unfolding locateField_def A obj_tail_scan [OF assms] Nil by simp
  next
    case (Cons f gs)
    obtain k' w where f: "f = (k', w)" by (cases f)
    obtain c cs where c: "obj_tail gs = c # cs" "c \<noteq> CHR '':''" using t by blast
    show ?thesis
      using ws(2) [of gs] c
      by (cases "k' = k") (simp_all add: locateField_def A obj_tail_scan [OF assms] Cons f is_ws_def)
  qed
qed

lemma json_field_lookup:
  assumes "ident k" "list_all plain_field fs"
  shows "extractStringField (json_obj (map json_field fs)) k d =
         (case dropWhile (\<lambda>f. \<not> hit k f) fs of
            [] \<Rightarrow> (d, FAbsent)
          | (k', JStr v) # gs \<Rightarrow>
              if k' = k then (v, FPresent) else (d, FError (''field '' @ quoted k @ '' malformed''))
          | (k', JRaw r) # gs \<Rightarrow> (d, FError (''field '' @ quoted k @ '' is not a string'')))"
proof (cases "dropWhile (\<lambda>f. \<not> hit k f) fs")
  case Nil
  show ?thesis unfolding extractStringField_def json_obj_locate [OF assms] Nil by simp
next
  case (Cons f gs)
  have hit: "hit k f" using Cons hd_dropWhile [of "\<lambda>f. \<not> hit k f" fs] by simp
  have pf: "plain_field f" using Cons assms(2) set_dropWhileD [of f "\<lambda>f. \<not> hit k f" fs] by (auto simp: list_all_iff)
  obtain k' w where f: "f = (k', w)" by (cases f)
  have noq: "hd (dropWhile is_ws (r @ obj_tail gs)) \<noteq> DQ" if "DQ \<notin> set r" for r
    using that by (induction r) (cases gs; auto simp: is_ws_def DQ_def)+
  show ?thesis
  proof (cases w)
    case (JRaw r)
    with hit pf f have "k' = k" "DQ \<notin> set r" by auto
    with noq [of r] show ?thesis by (simp add: extractStringField_def json_obj_locate [OF assms] Cons f JRaw)
  next
    case (JStr v)
    have "dropWhile is_ws (val_text w @ obj_tail gs) = DQ # json_escape v @ DQ # obj_tail gs"
      by (simp add: JStr is_ws_def DQ_def)
    then show ?thesis
      using decode_escape [of "[]" v "obj_tail gs"]
      by (simp add: extractStringField_def json_obj_locate [OF assms] Cons f JStr)
  qed
qed

text \<open>
  What the JSON field finder reads. On a flat object with identifier keys, extracting field
  \<^verbatim>\<open>k\<close> gives the string of the first entry with that key, unescaped exactly, unless an earlier string
  value equals \<^verbatim>\<open>k\<close> or ends in a quote followed by \<^verbatim>\<open>k\<close>: the finder takes that value for the key and
  reports the field as malformed although the object is well formed.
\<close>

theorem json_field_found:
  assumes "ident k" "list_all plain_field fs"
  shows "extractStringField (json_obj (map json_field fs)) k d =
         (case dropWhile (\<lambda>f. \<not> hit k f) fs of
            [] \<Rightarrow> (d, FAbsent)
          | (k', JStr v) # gs \<Rightarrow>
              if k' = k then (v, FPresent) else (d, FError (''field '' @ quoted k @ '' malformed''))
          | (k', JRaw r) # gs \<Rightarrow> (d, FError (''field '' @ quoted k @ '' is not a string'')))"
  using assms by (rule json_field_lookup)

theorem json_field_found_witness:
  "extractStringField (json_obj (map json_field [(''name'', JStr ''path''), (''path'', JStr ''/jails/w'')])) ''name'' [] =
     (''path'', FPresent) \<and>
   extractStringField (json_obj (map json_field [(''name'', JStr ''path''), (''path'', JStr ''/jails/w'')])) ''path'' [] =
     ([], FError (''field '' @ quoted ''path'' @ '' malformed''))"
proof -
  have i: "ident ''name''" "ident ''path''" by (simp_all add: ident_def is_alnum_def)
  then have p: "list_all plain_field [(''name'', JStr ''path''), (''path'', JStr ''/jails/w'')]" by simp
  show ?thesis
    by (simp add: json_field_found [OF i(1) p] json_field_found [OF i(2) p] shadows_def del: list.map)
qed

text \<open>
  Escaping a byte string for a JSON response and decoding it with the request decoder gives the
  same bytes back, control characters, quotes, backslashes and bytes above 127 included, and the
  decoder stops exactly at the closing quote.
\<close>

theorem json_escape_roundtrip:
  "decode_loop [] (json_escape s @ DQ # rest) = (s, Some rest)"
  by (simp add: decode_escape)

lemma epair_fields:
  "formatCreateEpairSuccess a b =
   json_obj (map json_field [(''created'', JRaw ''true''), (''a'', JStr a), (''b'', JStr b)])"
  by (simp add: formatCreateEpairSuccess_def)

text \<open>The daemon reads the two halves of a new epair back from the reply it has just formatted.\<close>

lemma epair_reply_read:
  assumes "a \<noteq> ''b''" "\<And>u. a \<noteq> u @ DQ # ''b''"
  shows "extractStringField (formatCreateEpairSuccess a b) ''a'' d = (a, FPresent)"
    "extractStringField (formatCreateEpairSuccess a b) ''b'' d = (b, FPresent)"
proof -
  have p: "list_all plain_field [(''created'', JRaw ''true''), (''a'', JStr a), (''b'', JStr b)]"
    by (simp add: ident_def is_alnum_def DQ_def)
  have i: "ident ''a''" "ident ''b''" by (simp_all add: ident_def is_alnum_def)
  show "extractStringField (formatCreateEpairSuccess a b) ''a'' d = (a, FPresent)"
    "extractStringField (formatCreateEpairSuccess a b) ''b'' d = (b, FPresent)"
    unfolding epair_fields
    using assms by (simp_all add: json_field_lookup [OF i(1) p] json_field_lookup [OF i(2) p] shadows_def del: list.map)
qed

end
