(* ===== verification/StdMap.thy ===== *)
theory StdMap
  imports Prelude
begin

text \<open>
  \<^verbatim>\<open>std::map\<close> as the code uses it: an association list kept strictly sorted by key, so that
  iteration order, \<^verbatim>\<open>find\<close>, \<^verbatim>\<open>operator[]\<close>, \<^verbatim>\<open>emplace\<close> and \<^verbatim>\<open>erase\<close> are those of the
  container. The locale \<^verbatim>\<open>ordered_map\<close> is the contract the registries rely on; its
  interpretation at the end of the theory discharges it for this representation.
\<close>

type_synonym ('k, 'v) stdmap = "('k \<times> 'v) list"

definition map_ok :: "('k::linorder, 'v) stdmap \<Rightarrow> bool" where
  "map_ok m \<longleftrightarrow> sorted_wrt (<) (map fst m)"

definition map_find :: "('k, 'v) stdmap \<Rightarrow> 'k \<Rightarrow> 'v option" where
  "map_find m k = map_of m k"

fun map_put :: "'k::linorder \<Rightarrow> 'v \<Rightarrow> ('k, 'v) stdmap \<Rightarrow> ('k, 'v) stdmap" where
  "map_put k v [] = [(k, v)]"
| "map_put k v ((k', v') # m) =
     (if k < k' then (k, v) # (k', v') # m
      else if k = k' then (k, v) # m
      else (k', v') # map_put k v m)"

definition map_emplace :: "'k::linorder \<Rightarrow> 'v \<Rightarrow> ('k, 'v) stdmap \<Rightarrow> ('k, 'v) stdmap" where
  "map_emplace k v m = (if map_find m k = None then map_put k v m else m)"

definition map_erase :: "'k \<Rightarrow> ('k, 'v) stdmap \<Rightarrow> ('k, 'v) stdmap" where
  "map_erase k m = filter (\<lambda>e. fst e \<noteq> k) m"

lemma map_ok_Nil [simp]: "map_ok []"
  by (simp add: map_ok_def)

lemma map_ok_Cons [simp]: "map_ok ((k, v) # m) \<longleftrightarrow> (\<forall>k' \<in> fst ` set m. k < k') \<and> map_ok m"
  by (simp add: map_ok_def)

lemma map_ok_filter [simp]: "map_ok m \<Longrightarrow> map_ok (filter P m)"
  by (induction m) auto

lemma map_ok_distinct: "map_ok m \<Longrightarrow> distinct (map fst m)"
  by (simp add: map_ok_def strict_sorted_iff)

lemma map_find_Nil [simp]: "map_find [] k = None"
  by (simp add: map_find_def)

lemma map_find_Cons [simp]: "map_find ((k', v) # m) k = (if k = k' then Some v else map_find m k)"
  by (simp add: map_find_def)

lemma map_find_None_iff: "map_find m k = None \<longleftrightarrow> k \<notin> fst ` set m"
  by (simp add: map_find_def map_of_eq_None_iff)

lemma map_find_Some_iff: "map_ok m \<Longrightarrow> map_find m k = Some v \<longleftrightarrow> (k, v) \<in> set m"
  by (simp add: map_find_def map_ok_distinct)

lemma map_find_put [simp]: "map_find (map_put k v m) x = (if x = k then Some v else map_find m x)"
  by (induction m) auto

lemma keys_map_put [simp]: "fst ` set (map_put k v m) = insert k (fst ` set m)"
  by (induction k v m rule: map_put.induct) (simp_all add: insert_commute)

lemma map_ok_put [simp]: "map_ok m \<Longrightarrow> map_ok (map_put k v m)"
proof (induction m)
  case Nil
  then show ?case by simp
next
  case (Cons e m)
  obtain k' v' where "e = (k', v')" by (cases e)
  with Cons show ?case by (auto simp: less_le)
qed

lemma map_find_filter:
  "map_ok m \<Longrightarrow> map_find (filter P m) x =
     (case map_find m x of Some v \<Rightarrow> if P (x, v) then Some v else None | None \<Rightarrow> None)"
proof (induction m)
  case Nil
  then show ?case by simp
next
  case (Cons e m)
  obtain k' v' where e: "e = (k', v')" by (cases e)
  have "map_find m k' = None" using Cons.prems e by (auto simp: map_find_None_iff)
  with Cons e show ?case by (auto split: option.splits)
qed

lemma map_find_erase [simp]: "map_find (map_erase k m) x = (if x = k then None else map_find m x)"
  by (induction m) (auto simp: map_erase_def)

lemma map_ok_erase [simp]: "map_ok m \<Longrightarrow> map_ok (map_erase k m)"
  by (simp add: map_erase_def)

lemma map_erase_absent: "map_find m k = None \<Longrightarrow> map_erase k m = m"
  by (auto simp: map_find_None_iff map_erase_def filter_id_conv rev_image_eqI)

text \<open>A strictly sorted association list is determined by its lookup function.\<close>

lemma map_ok_ext:
  assumes "map_ok m" "map_ok n" "\<And>k. map_find m k = map_find n k"
  shows "m = n"
proof -
  have "set m = set n" using assms map_find_Some_iff by (metis subrelI subset_antisym)
  moreover from this have "map fst m = map fst n"
    using assms(1,2) by (metis map_ok_def set_map strict_sorted_equal)
  ultimately show ?thesis
    using assms(1,2) map_ok_distinct by (metis distinct_map inj_on_Un map_inj_on sup.idem)
qed

lemma map_put_snoc: "\<forall>k' \<in> fst ` set m. k' < k \<Longrightarrow> map_put k v m = m @ [(k, v)]"
  by (induction m) auto

lemma length_map_put: "length (map_put k v m) \<le> Suc (length m)"
  by (induction m) auto

section \<open>The contract of the container\<close>

locale ordered_map =
  fixes ok :: "'m \<Rightarrow> bool"
    and empty :: 'm
    and find :: "'m \<Rightarrow> 'k \<Rightarrow> 'v option"
    and put :: "'k \<Rightarrow> 'v \<Rightarrow> 'm \<Rightarrow> 'm"
    and erase :: "'k \<Rightarrow> 'm \<Rightarrow> 'm"
  assumes find_empty: "find empty k = None"
    and find_put: "find (put k v m) x = (if x = k then Some v else find m x)"
    and find_erase: "find (erase k m) x = (if x = k then None else find m x)"
    and ok_empty: "ok empty"
    and ok_put: "ok m \<Longrightarrow> ok (put k v m)"
    and ok_erase: "ok m \<Longrightarrow> ok (erase k m)"
    and ok_ext: "ok m \<Longrightarrow> ok n \<Longrightarrow> (\<And>k. find m k = find n k) \<Longrightarrow> m = n"
begin

lemma put_put_same: "ok m \<Longrightarrow> put k v (put k w m) = put k v m"
  by (rule ok_ext) (simp_all add: ok_put find_put)

lemma put_put_other: "ok m \<Longrightarrow> k \<noteq> l \<Longrightarrow> put k v (put l w m) = put l w (put k v m)"
  by (rule ok_ext) (simp_all add: ok_put find_put)

lemma erase_put_same: "ok m \<Longrightarrow> erase k (put k v m) = erase k m"
  by (rule ok_ext) (simp_all add: ok_put ok_erase find_put find_erase)

lemma erase_put_fresh: "ok m \<Longrightarrow> find m k = None \<Longrightarrow> erase k (put k v m) = m"
  by (rule ok_ext) (simp_all add: ok_put ok_erase find_put find_erase)

lemma erase_erase: "ok m \<Longrightarrow> erase k (erase k m) = erase k m"
  by (rule ok_ext) (simp_all add: ok_erase find_erase)

lemma put_same: "ok m \<Longrightarrow> find m k = Some v \<Longrightarrow> put k v m = m"
  by (rule ok_ext) (simp_all add: ok_put find_put)

end

interpretation sm: ordered_map map_ok "[]" map_find map_put map_erase
  by unfold_locales (simp_all add: map_ok_ext)

end
