(* ===== verification/OwnerRegistry.thy ===== *)
theory OwnerRegistry
  imports Prelude
begin

text \<open>
  The contract between the authorisation gate and the registries behind its
  \<^verbatim>\<open>OwnerLookup\<close> callbacks. A lookup may evict an entry it finds stale, so it returns the
  registry too; \<^verbatim>\<open>owner_of\<close> is the abstract ownership map of a registry state. The laws say
  that a lookup reports only recorded owners and that the registry it leaves behind has lost at
  most entries, never changed one. The jid registry (by jid and by name) and the epair registry
  interpret it.
\<close>

locale owner_registry =
  fixes ok :: "'st \<Rightarrow> bool"
    and owner_of :: "'st \<Rightarrow> 'key \<Rightarrow> nat option"
    and lookup :: "'key \<Rightarrow> 'st \<Rightarrow> owner \<times> 'st"
  assumes lookup_known: "ok st \<Longrightarrow> fst (lookup k st) = no_owner \<or>
      (\<exists>u. owner_of st k = Some u \<and> fst (lookup k st) = owned_by u)"
    and lookup_shrinks: "ok st \<Longrightarrow> owner_of (snd (lookup k st)) x = owner_of st x \<or>
      owner_of (snd (lookup k st)) x = None"
    and lookup_ok: "ok st \<Longrightarrow> ok (snd (lookup k st))"
    and lookup_unknown: "ok st \<Longrightarrow> owner_of st k = None \<Longrightarrow> lookup k st = (no_owner, st)"
begin

definition lookups :: "'key list \<Rightarrow> 'st \<Rightarrow> 'st" where
  "lookups ks st = foldl (\<lambda>s k. snd (lookup k s)) st ks"

lemma lookups_ok: "ok st \<Longrightarrow> ok (lookups ks st)"
  by (induction ks arbitrary: st) (simp_all add: lookups_def lookup_ok)

lemma lookups_shrink: "ok st \<Longrightarrow> owner_of (lookups ks st) x = owner_of st x \<or> owner_of (lookups ks st) x = None"
proof (induction ks arbitrary: st)
  case Nil
  then show ?case by (simp add: lookups_def)
next
  case (Cons k ks)
  have "lookups (k # ks) st = lookups ks (snd (lookup k st))" by (simp add: lookups_def)
  then show ?case
    using Cons.IH [OF lookup_ok [OF Cons.prems]] lookup_shrinks [OF Cons.prems, of k x] by metis
qed

text \<open>However many lookups came before, the answer is the recorded owner or nobody.\<close>

lemma lookup_never_transfers:
  assumes "ok st"
  shows "fst (lookup k (lookups ks st)) = no_owner \<or>
    (\<exists>u. owner_of st k = Some u \<and> fst (lookup k (lookups ks st)) = owned_by u)"
  using lookup_known [OF lookups_ok [OF assms], of k] lookups_shrink [OF assms, of _ k]
  by (metis option.distinct(1))

end

end
