(* ===== verification/JidRegistry.thy ===== *)
theory JidRegistry
  imports StdMap OwnerRegistry
begin

text \<open>
  The jid-to-owner registry of crated: \<^verbatim>\<open>lib/jid_owner_registry_pure.{h,cpp}\<close> (entry map,
  text form, lookups, reconciliation) and the daemon-owned wrapper
  \<^verbatim>\<open>lib/jid_owner_registry.cpp\<close> (the file behind it, the live-jail probe, stale-entry
  eviction). \<^verbatim>\<open>unsigned\<close> and \<^verbatim>\<open>uint32_t\<close> fields are \<^typ>\<open>nat\<close>; no arithmetic is done on them
  here, and \<^verbatim>\<open>uint64_t\<close> wrap-around is written out in \<^verbatim>\<open>parseDecimal\<close>.
\<close>

section \<open>Entries and their text form\<close>

record jid_entry =
  je_uid :: nat
  je_name :: string
  je_path :: string

type_synonym jid_map = "(nat, jid_entry) stdmap"

fun parseDecimal_loop :: "nat \<Rightarrow> string \<Rightarrow> nat option" where
  "parseDecimal_loop v [] = Some v"
| "parseDecimal_loop v (c # cs) =
     (if \<not> is_digit c then None
      else let nv = (v * 10 + digit_val c) mod 2 ^ 64 in
        if nv < v then None else parseDecimal_loop nv cs)"

definition parseDecimal :: "string \<Rightarrow> nat option" where
  "parseDecimal s = (if s = [] then None else parseDecimal_loop 0 s)"

definition TAB :: char where "TAB = CHR 0x09"
definition NL :: char where "NL = CHR 0x0A"

text \<open>Three cuts at a tab with a non-empty field each, then a non-empty last field without tab.\<close>

fun splitTabs :: "nat \<Rightarrow> string \<Rightarrow> string list option" where
  "splitTabs 0 line = (if line = [] \<or> TAB \<in> set line then None else Some [line])"
| "splitTabs (Suc n) line =
     (case cut_at TAB line of
        None \<Rightarrow> None
      | Some (f, rest) \<Rightarrow> if f = [] then None else map_option ((#) f) (splitTabs n rest))"

definition splitTabs4 :: "string \<Rightarrow> string list option" where
  "splitTabs4 line = splitTabs 3 line"

definition jid_line :: "nat \<times> jid_entry \<Rightarrow> string" where
  "jid_line = (\<lambda>(jid, e). dec jid @ TAB # dec (je_uid e) @ TAB # je_name e @ TAB # je_path e)"

definition jid_serialize :: "jid_map \<Rightarrow> string" where
  "jid_serialize entries = concat (map (\<lambda>kv. jid_line kv @ [NL]) entries)"

definition line_err :: "nat \<Rightarrow> string \<Rightarrow> err" where
  "line_err n msg = ''line '' @ dec n @ '': '' @ msg"

definition jid_parse_line :: "nat \<Rightarrow> string \<Rightarrow> jid_map \<Rightarrow> jid_map res" where
  "jid_parse_line lineNo line out =
     (if line = [] \<or> hd line = CHR ''#'' then Inr out
      else case splitTabs4 line of
        Some [c0, c1, c2, c3] \<Rightarrow>
          (case parseDecimal c0 of
             None \<Rightarrow> Inl (line_err lineNo ''jid must be 1..65535'')
           | Some jid \<Rightarrow>
             if jid = 0 \<or> jid > 0xFFFF then Inl (line_err lineNo ''jid must be 1..65535'')
             else case parseDecimal c1 of
               None \<Rightarrow> Inl (line_err lineNo ''uid out of range'')
             | Some uid \<Rightarrow>
               if uid > 0xFFFFFFFF then Inl (line_err lineNo ''uid out of range'')
               else if map_find out jid \<noteq> None
                 then Inl (line_err lineNo (''duplicate jid '' @ dec jid))
               else Inr (map_emplace jid \<lparr>je_uid = uid, je_name = c2, je_path = c3\<rparr> out))
      | _ \<Rightarrow> Inl (line_err lineNo ''expected exactly 4 tab-separated columns''))"

fun jid_parse_loop :: "nat \<Rightarrow> string list \<Rightarrow> jid_map \<Rightarrow> jid_map res" where
  "jid_parse_loop lineNo [] out = Inr out"
| "jid_parse_loop lineNo (line # lines) out =
     bind_res (jid_parse_line lineNo line out) (jid_parse_loop (Suc lineNo) lines)"

definition jid_parse :: "string \<Rightarrow> jid_map res" where
  "jid_parse text = jid_parse_loop 1 (split_on NL text) []"

section \<open>Lookups and reconciliation\<close>

definition jid_lookupByName :: "jid_map \<Rightarrow> string \<Rightarrow> (nat \<times> jid_entry) option" where
  "jid_lookupByName entries name = List.find (\<lambda>(_, e). je_name e = name) entries"

text \<open>The scan keeps the best hit so far; a later one replaces it only when its path is longer.\<close>

definition path_better :: "string \<Rightarrow> (nat \<times> jid_entry) option \<Rightarrow> nat \<times> jid_entry \<Rightarrow> (nat \<times> jid_entry) option" where
  "path_better query best kv =
     (let p = je_path (snd kv) in
      if p = [] then best
      else if \<not> slash_under p query then best
      else case best of
        None \<Rightarrow> Some kv
      | Some b \<Rightarrow> if length p > length (je_path (snd b)) then Some kv else best)"

definition findOwnerByPath :: "jid_map \<Rightarrow> string \<Rightarrow> (nat \<times> jid_entry) option" where
  "findOwnerByPath entries query = foldl (path_better query) None entries"

type_synonym jid_probe = "(nat \<Rightarrow> jid_entry \<Rightarrow> bool) option"

fun jid_reconcile_loop :: "(nat \<Rightarrow> jid_entry \<Rightarrow> bool) \<Rightarrow> jid_map \<Rightarrow> nat \<times> jid_map" where
  "jid_reconcile_loop isLive [] = (0, [])"
| "jid_reconcile_loop isLive ((jid, e) # m) =
     (let (d, m') = jid_reconcile_loop isLive m in
      if isLive jid e then (d, (jid, e) # m') else (Suc d, m'))"

definition jid_reconcile :: "jid_probe \<Rightarrow> jid_map \<Rightarrow> nat \<times> jid_map" where
  "jid_reconcile isLive entries =
     (case isLive of None \<Rightarrow> (0, entries) | Some f \<Rightarrow> jid_reconcile_loop f entries)"

section \<open>The daemon's registry object\<close>

text \<open>
  \<^verbatim>\<open>entries_\<close> and the contents of the file at \<^verbatim>\<open>path_\<close> (\<^term>\<open>None\<close>: no such file).
  Each operation that persists takes the outcome of the write as its first argument; a failed
  write throws after the in-memory map has changed, which is the result \<^term>\<open>None\<close>.
\<close>

record jid_registry =
  jr_entries :: jid_map
  jr_file :: "string option"

definition jid_persist :: "bool \<Rightarrow> jid_registry \<Rightarrow> bool \<times> jid_registry" where
  "jid_persist io r = (if io then (True, r\<lparr>jr_file := Some (jid_serialize (jr_entries r))\<rparr>) else (False, r))"

definition jid_open :: "string option \<Rightarrow> jid_registry res" where
  "jid_open file =
     (case file of
        None \<Rightarrow> Inr \<lparr>jr_entries = [], jr_file = None\<rparr>
      | Some text \<Rightarrow> bind_res (jid_parse text) (\<lambda>m. Inr \<lparr>jr_entries = m, jr_file = file\<rparr>))"

definition recordCreate :: "bool \<Rightarrow> nat \<Rightarrow> nat \<Rightarrow> string \<Rightarrow> string \<Rightarrow> jid_registry \<Rightarrow> unit option \<times> jid_registry" where
  "recordCreate io jid uid name path r =
     (let (ok, r') = jid_persist io
            (r\<lparr>jr_entries := map_put jid \<lparr>je_uid = uid, je_name = name, je_path = path\<rparr> (jr_entries r)\<rparr>)
      in (if ok then Some () else None, r'))"

definition forgetByJid :: "bool \<Rightarrow> nat \<Rightarrow> jid_registry \<Rightarrow> bool option \<times> jid_registry" where
  "forgetByJid io jid r =
     (case map_find (jr_entries r) jid of
        None \<Rightarrow> (Some False, r)
      | Some _ \<Rightarrow>
        let (ok, r') = jid_persist io (r\<lparr>jr_entries := map_erase jid (jr_entries r)\<rparr>)
        in (if ok then Some True else None, r'))"

definition forgetByName :: "bool \<Rightarrow> string \<Rightarrow> jid_registry \<Rightarrow> bool option \<times> jid_registry" where
  "forgetByName io name r =
     (case List.find (\<lambda>(_, e). je_name e = name) (jr_entries r) of
        None \<Rightarrow> (Some False, r)
      | Some (jid, _) \<Rightarrow>
        let (ok, r') = jid_persist io (r\<lparr>jr_entries := map_erase jid (jr_entries r)\<rparr>)
        in (if ok then Some True else None, r'))"

definition jid_reconcile_registry :: "bool \<Rightarrow> jid_probe \<Rightarrow> jid_registry \<Rightarrow> nat option \<times> jid_registry" where
  "jid_reconcile_registry io probe r =
     (case probe of
        None \<Rightarrow> (Some 0, r)
      | Some f \<Rightarrow>
        let (dropped, m) = jid_reconcile probe (jr_entries r); r1 = r\<lparr>jr_entries := m\<rparr> in
        if dropped \<noteq> 0
        then let (ok, r2) = jid_persist io r1 in (if ok then Some dropped else None, r2)
        else (Some dropped, r1))"

text \<open>Eviction inside a lookup; a failed write is swallowed there.\<close>

definition jid_dropIfStale :: "bool \<Rightarrow> jid_probe \<Rightarrow> nat \<times> jid_entry \<Rightarrow> jid_registry \<Rightarrow> bool \<times> jid_registry" where
  "jid_dropIfStale io probe kv r =
     (case probe of
        None \<Rightarrow> (False, r)
      | Some f \<Rightarrow>
        if f (fst kv) (snd kv) then (False, r)
        else (True, snd (jid_persist io (r\<lparr>jr_entries := map_erase (fst kv) (jr_entries r)\<rparr>))))"

definition jid_lookupByJid :: "bool \<Rightarrow> jid_probe \<Rightarrow> nat \<Rightarrow> jid_registry \<Rightarrow> owner \<times> jid_registry" where
  "jid_lookupByJid io probe jid r =
     (case map_find (jr_entries r) jid of
        None \<Rightarrow> (no_owner, r)
      | Some e \<Rightarrow>
        let (stale, r') = jid_dropIfStale io probe (jid, e) r in
        (if stale then no_owner else owned_by (je_uid e), r'))"

definition jid_lookupByName_registry :: "bool \<Rightarrow> jid_probe \<Rightarrow> string \<Rightarrow> jid_registry \<Rightarrow> owner \<times> jid_registry" where
  "jid_lookupByName_registry io probe name r =
     (case jid_lookupByName (jr_entries r) name of
        None \<Rightarrow> (no_owner, r)
      | Some (jid, e) \<Rightarrow>
        (case map_find (jr_entries r) jid of
           None \<Rightarrow> (no_owner, r)
         | Some e' \<Rightarrow>
           let (stale, r') = jid_dropIfStale io probe (jid, e') r in
           (if stale then no_owner else owned_by (je_uid e), r')))"

definition jid_lookupByPath :: "string \<Rightarrow> jid_registry \<Rightarrow> owner" where
  "jid_lookupByPath path r =
     (case findOwnerByPath (jr_entries r) path of
        None \<Rightarrow> no_owner
      | Some (_, e) \<Rightarrow> owned_by (je_uid e))"

section \<open>Decimal columns\<close>

lemma parseDecimal_loop_mono: "parseDecimal_loop v s = Some w \<Longrightarrow> v \<le> w"
proof (induction s arbitrary: v)
  case (Cons c cs)
  then show ?case by (fastforce simp: Let_def split: if_splits)
qed simp

lemma no_wrap: "(m::nat) < 2 ^ 60 \<Longrightarrow> d < 10 \<Longrightarrow> (m * 10 + d) mod 2 ^ 64 = m * 10 + d"
  by (simp add: mod_less)

lemma parseDecimal_loop_sound:
  "parseDecimal_loop v s = Some w \<Longrightarrow> w < 2 ^ 60 \<Longrightarrow>
     list_all is_digit s \<and> w = v * 10 ^ length s + dec_val s"
proof (induction s arbitrary: v)
  case Nil
  then show ?case by simp
next
  case (Cons c cs)
  have "v < 2 ^ 60" using parseDecimal_loop_mono [OF Cons.prems(1)] Cons.prems(2) by simp
  moreover have d: "is_digit c" using Cons.prems(1) by (simp split: if_splits)
  ultimately have "parseDecimal_loop (v * 10 + digit_val c) cs = Some w"
    using Cons.prems(1) no_wrap [of v "digit_val c"] by (simp add: Let_def split: if_splits)
  from Cons.IH [OF this Cons.prems(2)] d show ?case by (simp add: dec_val_Cons algebra_simps)
qed

lemma parseDecimal_loop_complete:
  "list_all is_digit s \<Longrightarrow> v * 10 ^ length s + dec_val s < 2 ^ 64 \<Longrightarrow>
     parseDecimal_loop v s = Some (v * 10 ^ length s + dec_val s)"
proof (induction s arbitrary: v)
  case Nil
  then show ?case by simp
next
  case (Cons c cs)
  have eq: "v * 10 ^ length (c # cs) + dec_val (c # cs) =
      (v * 10 + digit_val c) * 10 ^ length cs + dec_val cs"
    by (simp add: dec_val_Cons algebra_simps)
  have "v * 10 + digit_val c \<le> (v * 10 + digit_val c) * 10 ^ length cs" by simp
  with Cons.prems(2) eq have lt: "v * 10 + digit_val c < 2 ^ 64" by linarith
  have "parseDecimal_loop (v * 10 + digit_val c) cs = Some ((v * 10 + digit_val c) * 10 ^ length cs + dec_val cs)"
    using Cons eq by simp
  with Cons.prems(1) lt eq show ?case by (simp add: Let_def)
qed

lemma parseDecimal_iff:
  assumes "w < 2 ^ 60"
  shows "parseDecimal s = Some w \<longleftrightarrow> all_digits s \<and> dec_val s = w"
  using parseDecimal_loop_sound [of 0 s w] parseDecimal_loop_complete [of s 0] assms
  by (auto simp: parseDecimal_def all_digits_def)

lemma parseDecimal_dec [simp]: "n < 2 ^ 60 \<Longrightarrow> parseDecimal (dec n) = Some n"
  by (subst parseDecimal_iff) simp_all

text \<open>
  The overflow test of \<^const>\<open>parseDecimal\<close> is incomplete (a wrapped value that is not
  smaller than its predecessor passes), but every result below \<^verbatim>\<open>2^60\<close> is exact: the jid and uid
  columns, which are range-checked against 65535 and \<^verbatim>\<open>2^32 - 1\<close> afterwards, are read without
  loss, and an overlong numeral never aliases a small jid or uid.
\<close>

theorem parseDecimal_exact_in_range:
  "(w < 2 ^ 60 \<longrightarrow> (parseDecimal s = Some w \<longleftrightarrow> all_digits s \<and> dec_val s = w)) \<and>
   parseDecimal ''21000000000000000000'' = Some 2553255926290448384"
proof (intro conjI impI)
  show "parseDecimal ''21000000000000000000'' = Some 2553255926290448384"
    by (simp add: parseDecimal_def is_digit_def digit_val_def Let_def)
qed (rule parseDecimal_iff)

theorem parseDecimal_exact_in_range_witness:
  "parseDecimal ''65535'' = Some 65535 \<longleftrightarrow> all_digits ''65535'' \<and> dec_val ''65535'' = 65535"
  using parseDecimal_exact_in_range [of 65535 "''65535''"] by simp

section \<open>The file round trip\<close>

definition field_ok :: "string \<Rightarrow> bool" where
  "field_ok s \<longleftrightarrow> s \<noteq> [] \<and> TAB \<notin> set s \<and> NL \<notin> set s"

definition jid_entry_ok :: "nat \<times> jid_entry \<Rightarrow> bool" where
  "jid_entry_ok kv \<longleftrightarrow> 1 \<le> fst kv \<and> fst kv \<le> 0xFFFF \<and> je_uid (snd kv) \<le> 0xFFFFFFFF \<and>
     field_ok (je_name (snd kv)) \<and> field_ok (je_path (snd kv))"

definition jid_map_ok :: "jid_map \<Rightarrow> bool" where
  "jid_map_ok m \<longleftrightarrow> map_ok m \<and> (\<forall>kv \<in> set m. jid_entry_ok kv)"

lemma ctrl_not_digit [simp]: "\<not> is_digit TAB" "\<not> is_digit NL" "\<not> is_digit (CHR ''#'')" "TAB \<noteq> NL" "NL \<noteq> TAB"
  by (simp_all add: TAB_def NL_def is_digit_def)

lemma ctrl_notin_dec [simp]: "TAB \<notin> set (dec n)" "NL \<notin> set (dec n)"
  by (simp_all add: dec_not_in)

lemma hd_dec_hash [simp]: "hd (dec n) \<noteq> CHR ''#''"
  by (metis ctrl_not_digit(3) dec_char_digit dec_nonempty hd_in_set)

lemma splitTabs4_join:
  assumes "field_ok a" "field_ok b" "field_ok c" "field_ok d"
  shows "splitTabs4 (a @ TAB # b @ TAB # c @ TAB # d) = Some [a, b, c, d]"
  using assms by (simp add: splitTabs4_def field_ok_def numeral_3_eq_3)

lemma field_ok_dec [simp]: "field_ok (dec n)"
  by (simp add: field_ok_def)

lemma jid_parse_line_entry:
  assumes "jid_entry_ok (j, e)" "map_find out j = None"
  shows "jid_parse_line n (jid_line (j, e)) out = Inr (map_put j e out)"
proof -
  have "splitTabs4 (jid_line (j, e)) = Some [dec j, dec (je_uid e), je_name e, je_path e]"
    using assms(1) by (simp add: jid_line_def splitTabs4_join jid_entry_ok_def)
  moreover have "jid_line (j, e) \<noteq> []" "hd (jid_line (j, e)) \<noteq> CHR ''#''"
    by (simp_all add: jid_line_def)
  ultimately show ?thesis
    using assms by (cases e) (simp add: jid_parse_line_def jid_entry_ok_def map_emplace_def)
qed

lemma jid_line_no_NL: "jid_entry_ok kv \<Longrightarrow> NL \<notin> set (jid_line kv)"
  by (auto simp: jid_line_def jid_entry_ok_def field_ok_def split: prod.splits)

lemma split_jid_serialize:
  "\<forall>kv \<in> set m. jid_entry_ok kv \<Longrightarrow> split_on NL (jid_serialize m) = map jid_line m @ [[]]"
proof (induction m)
  case Nil
  then show ?case by (simp add: jid_serialize_def)
next
  case (Cons kv m)
  then have "NL \<notin> set (jid_line kv)" by (simp add: jid_line_no_NL)
  with Cons show ?case by (simp add: jid_serialize_def)
qed

lemma jid_parse_loop_lines:
  "\<forall>kv \<in> set m. jid_entry_ok kv \<Longrightarrow> map_ok (out @ m) \<Longrightarrow>
     jid_parse_loop n (map jid_line m @ [[]]) out = Inr (out @ m)"
proof (induction m arbitrary: n out)
  case Nil
  then show ?case by (simp add: jid_parse_line_def)
next
  case (Cons kv m)
  obtain j e where kv: "kv = (j, e)" by (cases kv)
  have lt: "\<forall>k \<in> fst ` set out. k < j"
    using Cons.prems(2) by (auto simp: map_ok_def sorted_wrt_append kv)
  then have "map_find out j = None" by (auto simp: map_find_None_iff)
  moreover have "map_put j e out = out @ [(j, e)]" using lt by (rule map_put_snoc)
  ultimately have "jid_parse_line n (jid_line kv) out = Inr (out @ [(j, e)])"
    using Cons.prems(1) jid_parse_line_entry by (simp add: kv)
  with Cons.IH [of "out @ [(j, e)]" "Suc n"] Cons.prems show ?case by (simp add: kv)
qed

lemma jid_parse_serialize [simp]: "jid_map_ok m \<Longrightarrow> jid_parse (jid_serialize m) = Inr m"
  by (simp add: jid_parse_def jid_map_ok_def split_jid_serialize jid_parse_loop_lines)

lemma splitTabs_fields:
  "splitTabs n line = Some fs \<Longrightarrow> NL \<notin> set line \<Longrightarrow> length fs = Suc n \<and> (\<forall>f \<in> set fs. field_ok f)"
proof (induction n arbitrary: line fs)
  case 0
  then show ?case by (auto simp: field_ok_def split: if_splits)
next
  case (Suc n)
  then obtain f rest fs' where "cut_at TAB line = Some (f, rest)" "f \<noteq> []" "splitTabs n rest = Some fs'" "fs = f # fs'"
    by (auto split: option.splits if_splits)
  with Suc show ?case by (auto simp: cut_at_Some_iff field_ok_def)
qed

lemma map_ok_emplace [simp]: "map_ok m \<Longrightarrow> map_ok (map_emplace k v m)"
  by (simp add: map_emplace_def)

lemma set_map_put_subset: "set (map_put k v m) \<subseteq> insert (k, v) (set m)"
  by (induction k v m rule: map_put.induct) auto

lemma jid_map_ok_put: "jid_map_ok m \<Longrightarrow> jid_entry_ok (k, e) \<Longrightarrow> jid_map_ok (map_put k e m)"
  using set_map_put_subset [of k e m] by (auto simp: jid_map_ok_def)

lemma jid_map_ok_filter: "jid_map_ok m \<Longrightarrow> jid_map_ok (filter P m)"
  by (simp add: jid_map_ok_def)

lemma jid_parse_line_ok:
  assumes "jid_parse_line n line out = Inr out'" "NL \<notin> set line" "jid_map_ok out"
  shows "jid_map_ok out'"
proof (cases "line = [] \<or> hd line = CHR ''#''")
  case True
  with assms show ?thesis by (simp add: jid_parse_line_def)
next
  case False
  with assms(1) obtain fs where fs: "splitTabs4 line = Some fs"
    by (cases "splitTabs4 line") (simp_all add: jid_parse_line_def)
  with assms(2) have len: "length fs = 4" and fields: "\<forall>f \<in> set fs. field_ok f"
    using splitTabs_fields [of 3 line fs] by (simp_all add: splitTabs4_def)
  from len obtain a b c d where abcd: "fs = [a, b, c, d]"
    by (auto simp: numeral_eq_Suc length_Suc_conv)
  with assms(1) False fs obtain jid uid where
    "1 \<le> jid" "jid \<le> 0xFFFF" "uid \<le> 0xFFFFFFFF" "map_find out jid = None"
    "out' = map_emplace jid \<lparr>je_uid = uid, je_name = c, je_path = d\<rparr> out"
    by (auto simp: jid_parse_line_def Suc_le_eq not_less split: option.splits if_splits)
  with fields abcd assms(3) show ?thesis
    by (simp add: map_emplace_def jid_map_ok_put jid_entry_ok_def)
qed

lemma jid_parse_loop_ok:
  "jid_parse_loop n lines out = Inr m \<Longrightarrow> \<forall>l \<in> set lines. NL \<notin> set l \<Longrightarrow> jid_map_ok out \<Longrightarrow> jid_map_ok m"
  by (induction lines arbitrary: n out) (auto dest: jid_parse_line_ok)

lemma jid_parse_ok: "jid_parse text = Inr m \<Longrightarrow> jid_map_ok m"
  using jid_parse_loop_ok split_on_fields by (fastforce simp: jid_parse_def jid_map_ok_def)

text \<open>
  The registry file round trip. Whatever a loaded file contains, the entries it yields are
  well formed (jid in 1..65535, uid in 32 bits, one-line non-empty fields, jids distinct and
  ascending), and writing well-formed entries and reading them back loses nothing; so a
  load-save-load cycle is the identity on the loaded entries.
\<close>

theorem jid_file_roundtrip:
  "(jid_parse text = Inr m \<longrightarrow> jid_map_ok m) \<and> (jid_map_ok m \<longrightarrow> jid_parse (jid_serialize m) = Inr m)"
  using jid_parse_ok by simp

theorem jid_file_roundtrip_witness:
  "jid_map_ok [(7, \<lparr>je_uid = 1001, je_name = ''web'', je_path = ''/jails/1001/web''\<rparr>)] \<and>
   jid_parse (jid_serialize [(7, \<lparr>je_uid = 1001, je_name = ''web'', je_path = ''/jails/1001/web''\<rparr>)]) =
     Inr [(7, \<lparr>je_uid = 1001, je_name = ''web'', je_path = ''/jails/1001/web''\<rparr>)]"
proof -
  have "jid_map_ok [(7, \<lparr>je_uid = 1001, je_name = ''web'', je_path = ''/jails/1001/web''\<rparr>)]"
    by (simp add: jid_map_ok_def jid_entry_ok_def field_ok_def TAB_def NL_def)
  with jid_file_roundtrip show ?thesis by blast
qed

section \<open>Reconciliation and lookups\<close>

lemma jid_reconcile_loop_filter:
  "jid_reconcile_loop f m = (length (filter (\<lambda>(j, e). \<not> f j e) m), filter (\<lambda>(j, e). f j e) m)"
  by (induction m) auto

text \<open>
  Reconciliation at daemon start keeps exactly the entries the live-jail probe confirms:
  afterwards a jid resolves to an entry iff it did before and the probe accepts it, the
  remaining map is well formed, and the returned count is the number of entries dropped.
\<close>

theorem jid_reconcile_exact:
  assumes "jid_map_ok m" "jid_reconcile (Some f) m = (d, m')"
  shows "(map_find m' j = Some e \<longleftrightarrow> map_find m j = Some e \<and> f j e) \<and> jid_map_ok m' \<and> d + length m' = length m"
proof -
  have m': "m' = filter (\<lambda>(j, e). f j e) m" and d: "d = length (filter (\<lambda>(j, e). \<not> f j e) m)"
    using assms(2) by (simp_all add: jid_reconcile_def jid_reconcile_loop_filter)
  have "d + length m' = length m"
    using sum_length_filter_compl [of "\<lambda>(j, e). f j e" m] by (simp add: m' d case_prod_unfold)
  with assms(1) show ?thesis
    by (auto simp: m' jid_map_ok_filter map_find_filter jid_map_ok_def split: option.splits if_splits)
qed

theorem jid_reconcile_exact_witness:
  "\<exists>d m'. jid_reconcile (Some (\<lambda>j e. je_name e = ''web''))
       [(7, \<lparr>je_uid = 1, je_name = ''web'', je_path = ''/w''\<rparr>), (9, \<lparr>je_uid = 2, je_name = ''db'', je_path = ''/d''\<rparr>)] = (d, m') \<and>
     d + length m' = 2 \<and> map_find m' 9 \<noteq> Some \<lparr>je_uid = 2, je_name = ''db'', je_path = ''/d''\<rparr>"
proof -
  let ?f = "\<lambda>(j::nat) e. je_name e = ''web''"
  let ?m = "[(7, \<lparr>je_uid = 1, je_name = ''web'', je_path = ''/w''\<rparr>), (9, \<lparr>je_uid = 2, je_name = ''db'', je_path = ''/d''\<rparr>)]"
  have "jid_map_ok ?m" by (simp add: jid_map_ok_def jid_entry_ok_def field_ok_def TAB_def NL_def)
  moreover obtain d m' where "jid_reconcile (Some ?f) ?m = (d, m')" by (meson surj_pair)
  ultimately show ?thesis
    using jid_reconcile_exact [of ?m ?f d m' 9 "\<lparr>je_uid = 2, je_name = ''db'', je_path = ''/d''\<rparr>"] by auto
qed

text \<open>Which entries a path lookup considers.\<close>

definition covers :: "string \<Rightarrow> nat \<times> jid_entry \<Rightarrow> bool" where
  "covers query kv \<longleftrightarrow> je_path (snd kv) \<noteq> [] \<and> slash_under (je_path (snd kv)) query"

lemma path_better_cases:
  "path_better q best kv = (if covers q kv \<and> (\<forall>b. best = Some b \<longrightarrow> length (je_path (snd b)) < length (je_path (snd kv)))
     then Some kv else best)"
  by (auto simp: path_better_def covers_def Let_def split: option.splits)

lemma path_fold_None: "foldl (path_better q) best m = None \<longleftrightarrow> best = None \<and> (\<forall>kv \<in> set m. \<not> covers q kv)"
  by (induction m arbitrary: best) (auto simp: path_better_cases)

lemma path_fold_Some:
  "foldl (path_better q) best m = Some kv \<Longrightarrow>
     (best = Some kv \<or> kv \<in> set m \<and> covers q kv) \<and>
     (\<forall>b. best = Some b \<longrightarrow> length (je_path (snd b)) \<le> length (je_path (snd kv))) \<and>
     (\<forall>kv' \<in> set m. covers q kv' \<longrightarrow> length (je_path (snd kv')) \<le> length (je_path (snd kv)))"
proof (induction m arbitrary: best)
  case Nil
  then show ?case by simp
next
  case (Cons x m)
  have IH: "(path_better q best x = Some kv \<or> kv \<in> set m \<and> covers q kv) \<and>
     (\<forall>b. path_better q best x = Some b \<longrightarrow> length (je_path (snd b)) \<le> length (je_path (snd kv))) \<and>
     (\<forall>kv' \<in> set m. covers q kv' \<longrightarrow> length (je_path (snd kv')) \<le> length (je_path (snd kv)))"
    using Cons by simp
  show ?case
  proof (cases "path_better q best x = Some x")
    case True
    then have "best = Some x \<or> covers q x" "\<forall>b. best = Some b \<longrightarrow> length (je_path (snd b)) \<le> length (je_path (snd x))"
      by (auto simp: path_better_cases split: if_splits)
    with IH True show ?thesis by fastforce
  next
    case False
    then have "path_better q best x = best"
      "covers q x \<longrightarrow> (\<exists>b. best = Some b \<and> length (je_path (snd x)) \<le> length (je_path (snd b)))"
      by (auto simp: path_better_cases not_less split: if_splits)
    with IH show ?thesis by fastforce
  qed
qed

text \<open>
  The path lookup resolves nested jails to the innermost one: a hit is a registered jail
  whose path is an ancestor of the query (or the query itself), every other registered jail
  containing the query contains the hit's path too, and there is no hit only when no
  registered jail contains the query.
\<close>

theorem findOwnerByPath_innermost:
  "(case findOwnerByPath m q of
      None \<Rightarrow> \<forall>kv. kv \<in> set m \<longrightarrow> \<not> covers q kv
    | Some kv \<Rightarrow> kv \<in> set m \<and> covers q kv \<and>
        (\<forall>kv'. kv' \<in> set m \<and> covers q kv' \<longrightarrow> slash_under (je_path (snd kv')) (je_path (snd kv))))"
proof (cases "findOwnerByPath m q")
  case None
  then have "\<forall>kv \<in> set m. \<not> covers q kv" by (simp add: findOwnerByPath_def path_fold_None)
  with None show ?thesis by simp
next
  case (Some kv)
  with path_fold_Some [of q None m kv] have kv: "kv \<in> set m" "covers q kv"
    and longest: "\<And>kv'. kv' \<in> set m \<Longrightarrow> covers q kv' \<Longrightarrow> length (je_path (snd kv')) \<le> length (je_path (snd kv))"
    by (auto simp: findOwnerByPath_def)
  with Some show ?thesis by (auto simp: covers_def intro: slash_under_chain)
qed

theorem findOwnerByPath_innermost_witness:
  "\<not> covers ''/jails/x'' (7, \<lparr>je_uid = 1, je_name = ''w'', je_path = ''/jails/w''\<rparr>)"
  using findOwnerByPath_innermost [of "[(7, \<lparr>je_uid = 1, je_name = ''w'', je_path = ''/jails/w''\<rparr>)]" "''/jails/x''"]
  by (auto simp: findOwnerByPath_def path_better_def slash_under_def starts_with_def)

section \<open>The registry object\<close>

lemma jid_persist_entries [simp]: "jr_entries (snd (jid_persist io r)) = jr_entries r"
  by (simp add: jid_persist_def)

lemma jid_persist_io [simp]: "jid_persist True r = (True, r\<lparr>jr_file := Some (jid_serialize (jr_entries r))\<rparr>)"
  by (simp add: jid_persist_def)

text \<open>A stored entry is stale when a probe is installed and rejects it.\<close>

definition jid_stale :: "jid_probe \<Rightarrow> nat \<Rightarrow> jid_entry \<Rightarrow> bool" where
  "jid_stale probe j e \<longleftrightarrow> (\<exists>f. probe = Some f \<and> \<not> f j e)"

lemma jid_dropIfStale_cases:
  "jid_dropIfStale io probe (j, e) r =
     (if jid_stale probe j e then (True, snd (jid_persist io (r\<lparr>jr_entries := map_erase j (jr_entries r)\<rparr>)))
      else (False, r))"
  by (auto simp: jid_dropIfStale_def jid_stale_def split: option.splits)

lemma jid_lookupByJid_cases:
  "jid_lookupByJid io probe j r =
     (case map_find (jr_entries r) j of
        None \<Rightarrow> (no_owner, r)
      | Some e \<Rightarrow> if jid_stale probe j e
          then (no_owner, snd (jid_persist io (r\<lparr>jr_entries := map_erase j (jr_entries r)\<rparr>)))
          else (owned_by (je_uid e), r))"
  by (simp add: jid_lookupByJid_def jid_dropIfStale_cases split: option.splits)

lemma find_map_member: "List.find P m = Some (j, e) \<Longrightarrow> (j, e) \<in> set m \<and> P (j, e)"
  by (auto simp: find_Some_iff)

lemma jid_lookupByName_found:
  assumes "map_ok m" "jid_lookupByName m name = Some (j, e)"
  shows "map_find m j = Some e" "je_name e = name"
  using find_map_member [of _ m j e] assms by (auto simp: jid_lookupByName_def map_find_Some_iff)

lemma jid_lookupByName_None: "jid_lookupByName m name = None \<longleftrightarrow> (\<forall>kv \<in> set m. je_name (snd kv) \<noteq> name)"
  by (force simp: jid_lookupByName_def find_None_iff)

lemma jid_lookupByName_cases:
  assumes "map_ok (jr_entries r)"
  shows "jid_lookupByName_registry io probe name r =
     (case jid_lookupByName (jr_entries r) name of
        None \<Rightarrow> (no_owner, r)
      | Some (j, e) \<Rightarrow> if jid_stale probe j e
          then (no_owner, snd (jid_persist io (r\<lparr>jr_entries := map_erase j (jr_entries r)\<rparr>)))
          else (owned_by (je_uid e), r))"
  using jid_lookupByName_found [OF assms]
  by (auto simp: jid_lookupByName_registry_def jid_dropIfStale_cases split: option.splits)

text \<open>The jid registry implements the contract of the gate, by jid.\<close>

definition jid_owner_of :: "jid_registry \<Rightarrow> nat \<Rightarrow> nat option" where
  "jid_owner_of r j = map_option je_uid (map_find (jr_entries r) j)"

definition jid_reg_ok :: "jid_registry \<Rightarrow> bool" where
  "jid_reg_ok r \<longleftrightarrow> jid_map_ok (jr_entries r)"

lemma jid_reg_ok_map [simp]: "jid_reg_ok r \<Longrightarrow> map_ok (jr_entries r)"
  by (simp add: jid_reg_ok_def jid_map_ok_def)

lemma jid_map_ok_erase: "jid_map_ok m \<Longrightarrow> jid_map_ok (map_erase j m)"
  by (simp add: map_erase_def jid_map_ok_filter)

interpretation by_jid: owner_registry jid_reg_ok jid_owner_of "jid_lookupByJid io probe" for io probe
  by unfold_locales
    (auto simp: jid_lookupByJid_cases jid_owner_of_def jid_reg_ok_def jid_map_ok_erase split: option.splits)

text \<open>By name the contract needs jail names to be unique, which the kernel ensures for live jails.\<close>

definition names_unique :: "jid_map \<Rightarrow> bool" where
  "names_unique m \<longleftrightarrow> distinct (map (\<lambda>kv. je_name (snd kv)) m)"

definition jid_reg_unique :: "jid_registry \<Rightarrow> bool" where
  "jid_reg_unique r \<longleftrightarrow> jid_reg_ok r \<and> names_unique (jr_entries r)"

definition jid_name_owner :: "jid_registry \<Rightarrow> string \<Rightarrow> nat option" where
  "jid_name_owner r name = map_option (\<lambda>(_, e). je_uid e) (jid_lookupByName (jr_entries r) name)"

lemma names_unique_filter: "names_unique m \<Longrightarrow> names_unique (filter P m)"
  by (simp add: names_unique_def distinct_map_filter)

lemma names_unique_member:
  assumes "names_unique m" "kv \<in> set m" "kv' \<in> set m" "je_name (snd kv) = je_name (snd kv')"
  shows "kv = kv'"
  using assms by (auto simp: names_unique_def distinct_map dest: inj_onD)

lemma jid_lookupByName_unique:
  assumes "names_unique m"
  shows "jid_lookupByName m name = Some kv \<longleftrightarrow> kv \<in> set m \<and> je_name (snd kv) = name"
proof
  assume "jid_lookupByName m name = Some kv"
  then show "kv \<in> set m \<and> je_name (snd kv) = name"
    using find_map_member by (cases kv) (fastforce simp: jid_lookupByName_def)
next
  assume kv: "kv \<in> set m \<and> je_name (snd kv) = name"
  then obtain kv' where kv': "jid_lookupByName m name = Some kv'"
    using jid_lookupByName_None [of m name] by (cases "jid_lookupByName m name") auto
  then have "kv' \<in> set m \<and> je_name (snd kv') = name"
    using find_map_member by (cases kv') (fastforce simp: jid_lookupByName_def)
  with kv kv' show "jid_lookupByName m name = Some kv" using names_unique_member [OF assms] by metis
qed

lemma jid_lookupByName_erase:
  assumes "names_unique m"
  shows "jid_lookupByName (map_erase j m) name = jid_lookupByName m name \<or> jid_lookupByName (map_erase j m) name = None"
proof (cases "jid_lookupByName (map_erase j m) name")
  case (Some kv)
  have "names_unique (map_erase j m)" using assms by (simp add: map_erase_def names_unique_filter)
  with Some have "kv \<in> set (map_erase j m)" "je_name (snd kv) = name" by (simp_all add: jid_lookupByName_unique)
  then have "jid_lookupByName m name = Some kv" by (simp add: jid_lookupByName_unique [OF assms] map_erase_def)
  with Some show ?thesis by simp
qed simp

interpretation by_name: owner_registry jid_reg_unique jid_name_owner "jid_lookupByName_registry io probe" for io probe
proof (unfold_locales, goal_cases)
  case (1 st k)
  then show ?case
    by (auto simp: jid_lookupByName_cases jid_name_owner_def jid_reg_unique_def split: option.splits)
next
  case (2 st k x)
  then have ok: "map_ok (jr_entries st)" "names_unique (jr_entries st)" by (simp_all add: jid_reg_unique_def)
  have "jid_name_owner (st\<lparr>jr_entries := map_erase j (jr_entries st)\<rparr>) x \<in> {jid_name_owner st x, None}" for j
    using jid_lookupByName_erase [OF ok(2), of j x] by (auto simp: jid_name_owner_def)
  then show ?case
    by (auto simp: jid_lookupByName_cases [OF ok(1)] jid_name_owner_def split: option.splits)
next
  case (3 st k)
  then show ?case
    by (auto simp: jid_lookupByName_cases jid_reg_unique_def jid_reg_ok_def jid_map_ok_erase map_erase_def
        jid_map_ok_filter names_unique_filter split: option.splits)
next
  case (4 st k)
  then show ?case
    by (auto simp: jid_lookupByName_cases jid_name_owner_def jid_reg_unique_def split: option.splits)
qed

text \<open>
  What the gate learns about a jid. On a well-formed registry a lookup answers the recorded
  operator exactly when the jid is recorded and the probe (if installed) still accepts the
  entry; and after any sequence of earlier lookups, each of which may have evicted stale
  entries, the answer is the recorded operator or nobody, never somebody else.
\<close>

theorem jid_lookup_correct:
  assumes "jid_reg_ok r"
  shows "(fst (jid_lookupByJid io probe j r) = owned_by u \<longleftrightarrow>
           (\<exists>e. map_find (jr_entries r) j = Some e \<and> je_uid e = u \<and> \<not> jid_stale probe j e)) \<and>
         fst (jid_lookupByJid io probe j (foldl (\<lambda>s k. snd (jid_lookupByJid io probe k s)) r ks)) \<in>
           {no_owner} \<union> (case jid_owner_of r j of None \<Rightarrow> {} | Some v \<Rightarrow> {owned_by v})"
proof
  show "fst (jid_lookupByJid io probe j (foldl (\<lambda>s k. snd (jid_lookupByJid io probe k s)) r ks)) \<in>
      {no_owner} \<union> (case jid_owner_of r j of None \<Rightarrow> {} | Some v \<Rightarrow> {owned_by v})"
    using by_jid.lookup_never_transfers [OF assms, of io probe j ks] by (auto simp: by_jid.lookups_def)
qed (auto simp: jid_lookupByJid_cases split: option.splits)

theorem jid_lookup_correct_witness:
  "fst (jid_lookupByJid True None 7
      \<lparr>jr_entries = [(7, \<lparr>je_uid = 1001, je_name = ''w'', je_path = ''/w''\<rparr>)], jr_file = None\<rparr>) = owned_by 1001"
proof -
  let ?r = "\<lparr>jr_entries = [(7, \<lparr>je_uid = 1001, je_name = ''w'', je_path = ''/w''\<rparr>)], jr_file = None\<rparr>"
  have "jid_reg_ok ?r"
    by (simp add: jid_reg_ok_def jid_map_ok_def jid_entry_ok_def field_ok_def TAB_def NL_def)
  from jid_lookup_correct [OF this, of True None 7 1001] show ?thesis by (simp add: jid_stale_def)
qed

text \<open>
  A name shared by two entries. The lookup by name takes the entry with the lowest jid; when
  that one is stale it is evicted and the answer is "unknown", although a live jail of that
  name owned by another operator is recorded. (Only the next lookup finds it, and the gate
  treats "unknown" as its bootstrap case.) So the contract \<^const>\<open>owner_registry\<close> needs the
  uniqueness of names that its interpretation by name assumes.
\<close>

theorem stale_name_hides_live_owner:
  "\<exists>r probe live. jid_reg_ok r \<and>
     map_find (jr_entries r) 9 = Some live \<and> je_name live = ''web'' \<and> \<not> jid_stale probe 9 live \<and>
     fst (jid_lookupByName_registry True probe ''web'' r) = no_owner \<and>
     fst (jid_lookupByName_registry True probe ''web'' (snd (jid_lookupByName_registry True probe ''web'' r))) =
       owned_by (je_uid live)"
proof -
  let ?live = "\<lparr>je_uid = 1002, je_name = ''web'', je_path = ''/b''\<rparr>"
  let ?m = "[(3, \<lparr>je_uid = 1001, je_name = ''web'', je_path = ''/a''\<rparr>), (9, ?live)]"
  let ?r = "\<lparr>jr_entries = ?m, jr_file = None\<rparr>"
  let ?probe = "Some (\<lambda>j e. j = (9 :: nat))"
  have "jid_reg_ok ?r"
    by (simp add: jid_reg_ok_def jid_map_ok_def jid_entry_ok_def field_ok_def TAB_def NL_def)
  moreover have "map_find (jr_entries ?r) 9 = Some ?live" "je_name ?live = ''web''" "\<not> jid_stale ?probe 9 ?live"
    by (simp_all add: jid_stale_def)
  moreover have "fst (jid_lookupByName_registry True ?probe ''web'' ?r) = no_owner"
    by (simp add: jid_lookupByName_cases jid_lookupByName_def jid_stale_def)
  moreover have "fst (jid_lookupByName_registry True ?probe ''web''
      (snd (jid_lookupByName_registry True ?probe ''web'' ?r))) = owned_by (je_uid ?live)"
    by (simp add: jid_lookupByName_cases jid_lookupByName_def jid_stale_def map_erase_def)
  ultimately show ?thesis by blast
qed

section \<open>Durability across restarts\<close>

text \<open>
  The life of the registry as a step relation: every operation of the object, with writes that
  succeed. Fields recorded by \<^const>\<open>recordCreate\<close> come from validated create requests.
\<close>

inductive jid_step :: "jid_registry \<Rightarrow> jid_registry \<Rightarrow> bool" where
  created: "jid_entry_ok (j, \<lparr>je_uid = u, je_name = n, je_path = p\<rparr>) \<Longrightarrow>
    jid_step r (snd (recordCreate True j u n p r))"
| forget_jid: "jid_step r (snd (forgetByJid True j r))"
| forget_name: "jid_step r (snd (forgetByName True n r))"
| reconcile: "jid_step r (snd (jid_reconcile_registry True probe r))"
| look_jid: "jid_step r (snd (jid_lookupByJid True probe j r))"
| look_name: "jid_step r (snd (jid_lookupByName_registry True probe n r))"

inductive_cases jid_stepE: "jid_step r r'"

definition jid_synced :: "jid_registry \<Rightarrow> bool" where
  "jid_synced r \<longleftrightarrow> jid_reg_ok r \<and> jid_open (jr_file r) = Inr r"

lemma jid_synced_write:
  "jid_map_ok m \<Longrightarrow> jid_synced (r\<lparr>jr_entries := m, jr_file := Some (jid_serialize m)\<rparr>)"
  by (cases r) (simp add: jid_synced_def jid_reg_ok_def jid_open_def)

lemma jid_synced_literal: "jid_map_ok m \<Longrightarrow> jid_synced \<lparr>jr_entries = m, jr_file = Some (jid_serialize m)\<rparr>"
  using jid_synced_write [of m "\<lparr>jr_entries = [], jr_file = None\<rparr>"] by simp

lemma jid_synced_map_ok: "jid_synced r \<Longrightarrow> jid_map_ok (jr_entries r)"
  by (simp add: jid_synced_def jid_reg_ok_def)

lemma jid_reconcile_zero: "jid_reconcile (Some f) m = (0, m') \<Longrightarrow> m' = m"
  by (auto simp: jid_reconcile_def jid_reconcile_loop_filter filter_empty_conv filter_id_conv split_beta)

lemma jid_reconcile_map_ok: "jid_map_ok m \<Longrightarrow> jid_map_ok (snd (jid_reconcile (Some f) m))"
  by (simp add: jid_reconcile_def jid_reconcile_loop_filter jid_map_ok_filter)

lemma jid_synced_step: "jid_step r r' \<Longrightarrow> jid_synced r \<Longrightarrow> jid_synced r'"
proof (induction rule: jid_step.induct)
  case (created j u n p r)
  then show ?case
    by (simp add: recordCreate_def jid_synced_write jid_map_ok_put jid_synced_map_ok)
next
  case (forget_jid r j)
  then show ?case
    by (auto simp: forgetByJid_def jid_synced_write jid_map_ok_erase jid_synced_map_ok split: option.splits)
next
  case (forget_name r n)
  then show ?case
    by (auto simp: forgetByName_def jid_synced_write jid_map_ok_erase jid_synced_map_ok split: option.splits)
next
  case (reconcile r probe)
  show ?case
  proof (cases probe)
    case None
    with reconcile show ?thesis by (simp add: jid_reconcile_registry_def)
  next
    case (Some f)
    obtain d m where dm: "jid_reconcile (Some f) (jr_entries r) = (d, m)" by (meson surj_pair)
    with reconcile have "jid_map_ok m" using jid_reconcile_map_ok [of "jr_entries r" f] by (simp add: jid_synced_map_ok)
    moreover from dm have "d = 0 \<Longrightarrow> m = jr_entries r" using jid_reconcile_zero by simp
    ultimately show ?thesis using reconcile Some dm by (cases r) (auto simp: jid_reconcile_registry_def jid_synced_literal Let_def)
  qed
next
  case (look_jid r probe j)
  then show ?case
    by (auto simp: jid_lookupByJid_cases jid_synced_write jid_map_ok_erase jid_synced_map_ok split: option.splits)
next
  case (look_name r probe n)
  then have "map_ok (jr_entries r)" by (simp add: jid_synced_def)
  with look_name show ?case
    by (auto simp: jid_lookupByName_cases jid_synced_write jid_map_ok_erase jid_synced_map_ok split: option.splits)
qed



end
