(* ===== verification/FwLease.thy ===== *)
theory FwLease
  imports JidRegistry
begin

text \<open>
  Firewall-slot and IP-forwarding leases: \<^verbatim>\<open>lib/fw_lease_pure.{h,cpp}\<close> (lease table, slot
  allocation, reference counts, text form) and \<^verbatim>\<open>lib/fw_lease_registry.cpp\<close>, which flips the
  two forwarding sysctls on the first and last reference. The sysctls are two integers of the
  world; whether the injected getter and setter exist and succeed is an argument of each call.
  \<^verbatim>\<open>int\<close> fields are \<^typ>\<open>int\<close>: slots stay below \<^verbatim>\<open>kMaxSlots\<close> and numerals are at most 12
  characters, so neither \<^verbatim>\<open>int\<close> nor \<^verbatim>\<open>long long\<close> can overflow.
\<close>

section \<open>The lease table\<close>

record fw_entry =
  slot :: int
  fwd4 :: bool
  fwd6 :: bool

definition fw_entry_init :: fw_entry where
  "fw_entry_init = \<lparr>slot = - 1, fwd4 = False, fwd6 = False\<rparr>"

record fw_state =
  leases :: "(nat, fw_entry) stdmap"
  orig4 :: int
  orig6 :: int

definition fw_state_init :: fw_state where
  "fw_state_init = \<lparr>leases = [], orig4 = - 1, orig6 = - 1\<rparr>"

record fw_counts =
  c_fwd4 :: nat
  c_fwd6 :: nat

record fw_transition =
  first4 :: bool
  last4 :: bool
  first6 :: bool
  last6 :: bool

definition kMaxSlots :: nat where "kMaxSlots = 1500"

definition fw_counts_of :: "fw_state \<Rightarrow> fw_counts" where
  "fw_counts_of s = \<lparr>c_fwd4 = length (filter (\<lambda>kv. fwd4 (snd kv)) (leases s)),
                     c_fwd6 = length (filter (\<lambda>kv. fwd6 (snd kv)) (leases s))\<rparr>"

definition used_slots :: "fw_state \<Rightarrow> int list" where
  "used_slots s = filter (\<lambda>i. i \<ge> 0) (map (\<lambda>kv. slot (snd kv)) (leases s))"

definition lowestFreeSlot :: "fw_state \<Rightarrow> nat \<Rightarrow> int" where
  "lowestFreeSlot s maxSlots =
     (case List.find (\<lambda>i. int i \<notin> set (used_slots s)) [0..<maxSlots] of Some i \<Rightarrow> int i | None \<Rightarrow> - 1)"

definition fw_diff :: "fw_counts \<Rightarrow> fw_counts \<Rightarrow> fw_transition" where
  "fw_diff before after =
     \<lparr>first4 = (c_fwd4 before = 0 \<and> c_fwd4 after > 0), last4 = (c_fwd4 before > 0 \<and> c_fwd4 after = 0),
      first6 = (c_fwd6 before = 0 \<and> c_fwd6 after > 0), last6 = (c_fwd6 before > 0 \<and> c_fwd6 after = 0)\<rparr>"

definition fw_grant :: "fw_entry \<Rightarrow> bool \<Rightarrow> bool \<Rightarrow> fw_entry" where
  "fw_grant e want4 want6 = e\<lparr>fwd4 := fwd4 e \<or> want4, fwd6 := fwd6 e \<or> want6\<rparr>"

definition fw_acquire :: "fw_state \<Rightarrow> nat \<Rightarrow> bool \<Rightarrow> bool \<Rightarrow> bool \<Rightarrow> (fw_state \<times> fw_entry \<times> fw_transition) res" where
  "fw_acquire s jid wantSlot want4 want6 =
     (let before = fw_counts_of s;
          e = (case map_find (leases s) jid of Some e \<Rightarrow> e | None \<Rightarrow> fw_entry_init);
          free = lowestFreeSlot s kMaxSlots in
      if wantSlot \<and> slot e < 0 \<and> free < 0
      then Inl (''no free firewall slot ('' @ dec kMaxSlots @ '' in use)'')
      else let e1 = (if wantSlot \<and> slot e < 0 then e\<lparr>slot := free\<rparr> else e);
               e2 = fw_grant e1 want4 want6;
               s' = s\<lparr>leases := map_put jid e2 (leases s)\<rparr> in
           Inr (s', e2, fw_diff before (fw_counts_of s')))"

definition fw_release :: "fw_state \<Rightarrow> nat \<Rightarrow> bool \<times> fw_state \<times> fw_transition" where
  "fw_release s jid =
     (let before = fw_counts_of s; found = (map_find (leases s) jid \<noteq> None);
          s' = (if found then s\<lparr>leases := map_erase jid (leases s)\<rparr> else s) in
      (found, s', fw_diff before (fw_counts_of s')))"

definition fw_reconcile :: "fw_state \<Rightarrow> (nat \<Rightarrow> bool) \<Rightarrow> nat \<times> fw_state \<times> fw_transition" where
  "fw_reconcile s isLive =
     (let before = fw_counts_of s;
          s' = s\<lparr>leases := filter (\<lambda>kv. isLive (fst kv)) (leases s)\<rparr> in
      (length (filter (\<lambda>kv. \<not> isLive (fst kv)) (leases s)), s', fw_diff before (fw_counts_of s')))"

section \<open>The text form\<close>

definition fw_parseInt :: "string \<Rightarrow> int \<Rightarrow> int \<Rightarrow> int option" where
  "fw_parseInt f lo hi =
     (if f = [] \<or> length f > 12 then None
      else let neg = (hd f = CHR ''-''); ds = (if neg then tl f else f) in
        if neg \<and> length f = 1 then None
        else if \<not> list_all is_digit ds then None
        else let v = (if neg then - int (dec_val ds) else int (dec_val ds)) in
          if v < lo \<or> v > hi then None else Some v)"

definition flag :: "bool \<Rightarrow> string" where
  "flag b = (if b then ''1'' else ''0'')"

definition fw_lease_line :: "nat \<times> fw_entry \<Rightarrow> string" where
  "fw_lease_line = (\<lambda>(jid, e). dec jid @ TAB # dec_int (slot e) @ TAB # flag (fwd4 e) @ TAB # flag (fwd6 e))"

definition fw_orig_line :: "fw_state \<Rightarrow> string" where
  "fw_orig_line s = ''orig4'' @ TAB # dec_int (orig4 s) @ TAB # ''orig6'' @ TAB # dec_int (orig6 s)"

definition fw_serialize :: "fw_state \<Rightarrow> string" where
  "fw_serialize s = ''# crate fw leases v1'' @ NL # fw_orig_line s @ NL #
     concat (map (\<lambda>kv. fw_lease_line kv @ [NL]) (leases s))"

text \<open>\<^verbatim>\<open>std::getline\<close> until end of input: a final newline does not start another line.\<close>

definition getlines :: "string \<Rightarrow> string list" where
  "getlines text = (let ls = split_on NL text in if last ls = [] then butlast ls else ls)"

definition chomp_cr :: "string \<Rightarrow> string" where
  "chomp_cr line = (if line \<noteq> [] \<and> last line = CHR 0x0D then butlast line else line)"

definition fw_parse_line :: "nat \<Rightarrow> string \<Rightarrow> fw_state \<Rightarrow> fw_state res" where
  "fw_parse_line lineNo raw st =
     (let line = chomp_cr raw in
      if line = [] \<or> hd line = CHR ''#'' then Inr st
      else case split_on TAB line of
        [f0, f1, f2, f3] \<Rightarrow>
          if f0 = ''orig4'' \<and> f2 = ''orig6'' then
            (case (fw_parseInt f1 (- 1) 1, fw_parseInt f3 (- 1) 1) of
               (Some a, Some b) \<Rightarrow> Inr (st\<lparr>orig4 := a, orig6 := b\<rparr>)
             | _ \<Rightarrow> Inl (line_err lineNo ''bad orig values''))
          else
            (case (fw_parseInt f0 1 65535, fw_parseInt f1 (- 1) (int kMaxSlots - 1), fw_parseInt f2 0 1, fw_parseInt f3 0 1) of
               (Some jid, Some sl, Some a4, Some a6) \<Rightarrow>
                 if map_find (leases st) (nat jid) \<noteq> None
                 then Inl (line_err lineNo (''duplicate jid '' @ f0))
                 else Inr (st\<lparr>leases := map_emplace (nat jid) \<lparr>slot = sl, fwd4 = (a4 = 1), fwd6 = (a6 = 1)\<rparr> (leases st)\<rparr>)
             | _ \<Rightarrow> Inl (line_err lineNo ''bad field value''))
      | _ \<Rightarrow> Inl (line_err lineNo ''expected 4 tab-separated fields''))"

fun fw_parse_loop :: "nat \<Rightarrow> string list \<Rightarrow> fw_state \<Rightarrow> fw_state res" where
  "fw_parse_loop lineNo [] st = Inr st"
| "fw_parse_loop lineNo (line # lines) st =
     bind_res (fw_parse_line lineNo line st) (fw_parse_loop (Suc lineNo) lines)"

fun slot_dup :: "int list \<Rightarrow> (nat, fw_entry) stdmap \<Rightarrow> int option" where
  "slot_dup seen [] = None"
| "slot_dup seen ((_, e) # m) =
     (if slot e \<ge> 0 \<and> slot e \<in> set seen then Some (slot e)
      else slot_dup (if slot e \<ge> 0 then slot e # seen else seen) m)"

definition fw_parse :: "string \<Rightarrow> fw_state res" where
  "fw_parse text =
     bind_res (fw_parse_loop 1 (getlines text) fw_state_init) (\<lambda>st.
       case slot_dup [] (leases st) of
         Some d \<Rightarrow> Inl (''slot '' @ dec_int d @ '' held by two leases'')
       | None \<Rightarrow> Inr st)"

section \<open>The registry and the sysctls\<close>

text \<open>The injected accessors: null or present, failing (throwing) or not.\<close>

record sysctl_io =
  has_get :: bool
  has_set :: bool
  get_ok :: bool
  set_ok :: bool

record fw_world =
  fw :: fw_state
  fw_file :: "string option"
  sys4 :: int
  sys6 :: int

text \<open>
  The lambda \<^verbatim>\<open>flip\<close> on one sysctl: the saved original and the current kernel value. An
  accessor that throws leaves both as they are.
\<close>

definition flip :: "sysctl_io \<Rightarrow> bool \<Rightarrow> bool \<Rightarrow> int \<times> int \<Rightarrow> int \<times> int" where
  "flip io isFirst isLast oc =
     (case oc of (orig, kern) \<Rightarrow>
        if isFirst then
          if has_get io \<and> \<not> get_ok io then (orig, kern)
          else let cur = (if has_get io then kern else 1) in
            if cur = 0 \<and> has_set io then (if set_ok io then (0, 1) else (orig, kern))
            else (- 1, kern)
        else if isLast then
          if orig = 0 \<and> has_set io then (if set_ok io then (- 1, 0) else (orig, kern))
          else (- 1, kern)
        else (orig, kern))"

definition applyTransition :: "sysctl_io \<Rightarrow> fw_transition \<Rightarrow> fw_world \<Rightarrow> fw_world" where
  "applyTransition io t w =
     (let (o4, k4) = flip io (first4 t) (last4 t) (orig4 (fw w), sys4 w);
          (o6, k6) = flip io (first6 t) (last6 t) (orig6 (fw w), sys6 w) in
      w\<lparr>fw := (fw w)\<lparr>orig4 := o4, orig6 := o6\<rparr>, sys4 := k4, sys6 := k6\<rparr>)"

definition fw_persist :: "bool \<Rightarrow> fw_world \<Rightarrow> bool \<times> fw_world" where
  "fw_persist wr w = (if wr then (True, w\<lparr>fw_file := Some (fw_serialize (fw w))\<rparr>) else (False, w))"

definition fw_open :: "string option \<Rightarrow> fw_world \<Rightarrow> fw_world res" where
  "fw_open contents w =
     (case contents of
        None \<Rightarrow> Inr (w\<lparr>fw := fw_state_init, fw_file := None\<rparr>)
      | Some text \<Rightarrow> bind_res (fw_parse text) (\<lambda>s. Inr (w\<lparr>fw := s, fw_file := contents\<rparr>)))"

record fw_result =
  r_slot :: int
  fwd4Users :: nat
  fwd6Users :: nat
  released :: bool

text \<open>\<^term>\<open>None\<close>: the write failed and an exception left the call.\<close>

definition fw_registry_acquire :: "sysctl_io \<Rightarrow> bool \<Rightarrow> nat \<Rightarrow> bool \<Rightarrow> bool \<Rightarrow> bool \<Rightarrow> fw_world \<Rightarrow> (fw_result res) option \<times> fw_world" where
  "fw_registry_acquire io wr jid wantSlot want4 want6 w =
     (case fw_acquire (fw w) jid wantSlot want4 want6 of
        Inl e \<Rightarrow> (Some (Inl e), w)
      | Inr (s', e, t) \<Rightarrow>
        let (ok, w2) = fw_persist wr (applyTransition io t (w\<lparr>fw := s'\<rparr>)); c = fw_counts_of (fw w2) in
        (if ok then Some (Inr \<lparr>r_slot = slot e, fwd4Users = c_fwd4 c, fwd6Users = c_fwd6 c, released = False\<rparr>) else None, w2))"

definition fw_registry_release :: "sysctl_io \<Rightarrow> bool \<Rightarrow> nat \<Rightarrow> fw_world \<Rightarrow> fw_result option \<times> fw_world" where
  "fw_registry_release io wr jid w =
     (let (found, s', t) = fw_release (fw w) jid; w1 = w\<lparr>fw := s'\<rparr>;
          (ok, w2) = (if found then fw_persist wr (applyTransition io t w1) else (True, w1));
          c = fw_counts_of (fw w2) in
      (if ok then Some \<lparr>r_slot = - 1, fwd4Users = c_fwd4 c, fwd6Users = c_fwd6 c, released = found\<rparr> else None, w2))"

definition fw_registry_reconcile :: "sysctl_io \<Rightarrow> bool \<Rightarrow> (nat \<Rightarrow> bool) option \<Rightarrow> fw_world \<Rightarrow> nat option \<times> fw_world" where
  "fw_registry_reconcile io wr probe w =
     (case probe of
        None \<Rightarrow> (Some 0, w)
      | Some isLive \<Rightarrow>
        let (dropped, s', t) = fw_reconcile (fw w) isLive; w1 = w\<lparr>fw := s'\<rparr> in
        if dropped \<noteq> 0
        then let (ok, w2) = fw_persist wr (applyTransition io t w1) in (if ok then Some dropped else None, w2)
        else (Some dropped, w1))"

section \<open>Slots\<close>

lemma used_slots_iff: "i \<in> set (used_slots s) \<longleftrightarrow> i \<ge> 0 \<and> (\<exists>kv \<in> set (leases s). slot (snd kv) = i)"
  by (auto simp: used_slots_def)

lemma lowestFreeSlot_cases:
  "(lowestFreeSlot s n = - 1 \<and> (\<forall>i < n. int i \<in> set (used_slots s))) \<or>
   (\<exists>k < n. lowestFreeSlot s n = int k \<and> int k \<notin> set (used_slots s) \<and> (\<forall>i < k. int i \<in> set (used_slots s)))"
proof (cases "List.find (\<lambda>i. int i \<notin> set (used_slots s)) [0..<n]")
  case None
  then have "\<forall>i < n. int i \<in> set (used_slots s)" by (auto simp: find_None_iff)
  with None show ?thesis by (simp add: lowestFreeSlot_def)
next
  case (Some i)
  then have "i < n" "int i \<notin> set (used_slots s)" "\<forall>j < i. int j \<in> set (used_slots s)"
    by (auto simp: find_Some_iff)
  with Some show ?thesis by (auto simp: lowestFreeSlot_def)
qed

text \<open>The invariant of the table: jids and slots in range, every slot held once.\<close>

definition fw_entry_ok :: "nat \<times> fw_entry \<Rightarrow> bool" where
  "fw_entry_ok kv \<longleftrightarrow> 1 \<le> fst kv \<and> fst kv \<le> 65535 \<and> - 1 \<le> slot (snd kv) \<and> slot (snd kv) < int kMaxSlots"

definition slots_distinct :: "(nat, fw_entry) stdmap \<Rightarrow> bool" where
  "slots_distinct m \<longleftrightarrow> (\<forall>kv \<in> set m. \<forall>kv' \<in> set m. slot (snd kv) = slot (snd kv') \<and> slot (snd kv) \<ge> 0 \<longrightarrow> fst kv = fst kv')"

definition leases_ok :: "(nat, fw_entry) stdmap \<Rightarrow> bool" where
  "leases_ok m \<longleftrightarrow> map_ok m \<and> (\<forall>kv \<in> set m. fw_entry_ok kv) \<and> slots_distinct m"

lemma set_map_put: "map_ok m \<Longrightarrow> set (map_put k v m) = insert (k, v) {kv \<in> set m. fst kv \<noteq> k}"
proof (intro set_eqI)
  fix kv :: "'a \<times> 'b"
  assume "map_ok m"
  then show "kv \<in> set (map_put k v m) \<longleftrightarrow> kv \<in> insert (k, v) {kv \<in> set m. fst kv \<noteq> k}"
    using map_find_Some_iff [of "map_put k v m" "fst kv" "snd kv"] map_find_Some_iff [of m "fst kv" "snd kv"]
    by (cases kv) (auto split: if_splits)
qed

lemma leases_ok_filter: "leases_ok m \<Longrightarrow> leases_ok (filter P m)"
  by (auto simp: leases_ok_def slots_distinct_def)

lemma leases_ok_erase: "leases_ok m \<Longrightarrow> leases_ok (map_erase j m)"
  by (simp add: map_erase_def leases_ok_filter)

lemma leases_ok_put:
  assumes "leases_ok m" "fw_entry_ok (j, e)"
    "\<And>kv. kv \<in> set m \<Longrightarrow> fst kv \<noteq> j \<Longrightarrow> slot (snd kv) = slot e \<Longrightarrow> slot e < 0"
  shows "leases_ok (map_put j e m)"
proof -
  have "map_ok m" using assms(1) by (simp add: leases_ok_def)
  then show ?thesis
    using assms by (fastforce simp: leases_ok_def slots_distinct_def set_map_put)
qed

lemma slot_grant [simp]: "slot (fw_grant e a b) = slot e" "fwd4 (fw_grant e a b) = (fwd4 e \<or> a)" "fwd6 (fw_grant e a b) = (fwd6 e \<or> b)"
  by (simp_all add: fw_grant_def)

definition cur_entry :: "fw_state \<Rightarrow> nat \<Rightarrow> fw_entry" where
  "cur_entry s j = (case map_find (leases s) j of Some e \<Rightarrow> e | None \<Rightarrow> fw_entry_init)"

text \<open>Both outcomes of an acquire, in terms of the entry held before.\<close>

lemma fw_grant_idem: "fw_grant (fw_grant e a b) a b = fw_grant e a b"
  by (cases e) (simp add: fw_grant_def)

lemma fw_acquire_cases:
  "fw_acquire s j wantSlot a b =
     (if wantSlot \<and> slot (cur_entry s j) < 0 \<and> lowestFreeSlot s kMaxSlots < 0
      then Inl (''no free firewall slot ('' @ dec kMaxSlots @ '' in use)'')
      else let e = fw_grant (if wantSlot \<and> slot (cur_entry s j) < 0
                        then (cur_entry s j)\<lparr>slot := lowestFreeSlot s kMaxSlots\<rparr> else cur_entry s j) a b;
               s' = s\<lparr>leases := map_put j e (leases s)\<rparr> in
           Inr (s', e, fw_diff (fw_counts_of s) (fw_counts_of s')))"
  by (simp add: fw_acquire_def cur_entry_def Let_def)

lemma leases_ok_acquire:
  assumes "leases_ok (leases s)" "1 \<le> j" "j \<le> 65535" "fw_acquire s j wantSlot a b = Inr (s', e, t)"
  shows "leases_ok (leases s')"
proof -
  have s': "leases s' = map_put j e (leases s)"
    using assms(4) by (auto simp: fw_acquire_cases Let_def split: if_splits)
  have old: "slot (cur_entry s j) \<ge> 0 \<Longrightarrow> (j, cur_entry s j) \<in> set (leases s)"
    "slot (cur_entry s j) < int kMaxSlots" "- 1 \<le> slot (cur_entry s j)"
    using assms(1) map_find_Some_iff [of "leases s" j]
    by (auto simp: cur_entry_def fw_entry_init_def leases_ok_def fw_entry_ok_def kMaxSlots_def split: option.splits)
  consider (kept) "slot e = slot (cur_entry s j)"
    | (fresh) "slot e = lowestFreeSlot s kMaxSlots" "0 \<le> lowestFreeSlot s kMaxSlots"
    using assms(4) by (auto simp: fw_acquire_cases Let_def split: if_splits)
  then show ?thesis
  proof cases
    case kept
    then have "fw_entry_ok (j, e)" using old assms(2,3) by (simp add: fw_entry_ok_def)
    moreover have "slot e < 0" if "kv \<in> set (leases s)" "fst kv \<noteq> j" "slot (snd kv) = slot e" for kv
      using that old(1) kept assms(1) by (fastforce simp: leases_ok_def slots_distinct_def)
    ultimately show ?thesis unfolding s' by (intro leases_ok_put [OF assms(1)])
  next
    case fresh
    then have free: "slot e < int kMaxSlots" "slot e \<notin> set (used_slots s)"
      using lowestFreeSlot_cases [of s kMaxSlots] by auto
    with fresh have "fw_entry_ok (j, e)" using assms(2,3) by (simp add: fw_entry_ok_def)
    moreover have "slot e < 0" if "kv \<in> set (leases s)" "fst kv \<noteq> j" "slot (snd kv) = slot e" for kv
      using that free fresh by (auto simp: used_slots_iff)
    ultimately show ?thesis unfolding s' by (intro leases_ok_put [OF assms(1)])
  qed
qed

text \<open>
  Slot allocation. Acquiring on a well-formed table either fails, exactly when a slot is
  wanted, the jail has none and all 1500 are taken, or yields a well-formed table in which this
  jail's lease keeps the slot it had (or gets the lowest free one when it wants one and has
  none), has every forwarding reference it had or asked for, and all other leases are unchanged;
  asking again changes nothing.
\<close>

theorem fw_acquire_correct:
  assumes "leases_ok (leases s)" "1 \<le> j" "j \<le> 65535"
  shows "(case fw_acquire s j wantSlot a b of
      Inl _ \<Rightarrow> wantSlot \<and> slot (cur_entry s j) < 0 \<and> (\<forall>i. i < kMaxSlots \<longrightarrow> int i \<in> set (used_slots s))
    | Inr (s', e, t) \<Rightarrow>
        leases_ok (leases s') \<and> map_find (leases s') j = Some e \<and>
        (\<forall>k. k \<noteq> j \<longrightarrow> map_find (leases s') k = map_find (leases s) k) \<and>
        slot e = (if slot (cur_entry s j) < 0 \<and> wantSlot then lowestFreeSlot s kMaxSlots else slot (cur_entry s j)) \<and>
        (wantSlot \<longrightarrow> 0 \<le> slot e) \<and>
        fwd4 e = (fwd4 (cur_entry s j) \<or> a) \<and> fwd6 e = (fwd6 (cur_entry s j) \<or> b) \<and>
        (\<exists>t'. fw_acquire s' j wantSlot a b = Inr (s', e, t')))"
proof (cases "fw_acquire s j wantSlot a b")
  case (Inl m)
  with lowestFreeSlot_cases [of s kMaxSlots] show ?thesis
    by (auto simp: fw_acquire_cases Let_def split: if_splits)
next
  case (Inr r)
  obtain s' e t where r: "r = (s', e, t)" by (cases r)
  with Inr have acq: "fw_acquire s j wantSlot a b = Inr (s', e, t)" by simp
  have ok: "leases_ok (leases s')" using leases_ok_acquire [OF assms acq] .
  have s': "s' = s\<lparr>leases := map_put j e (leases s)\<rparr>" and
    e: "e = fw_grant (if wantSlot \<and> slot (cur_entry s j) < 0
          then (cur_entry s j)\<lparr>slot := lowestFreeSlot s kMaxSlots\<rparr> else cur_entry s j) a b" and
    room: "\<not> (wantSlot \<and> slot (cur_entry s j) < 0 \<and> lowestFreeSlot s kMaxSlots < 0)"
    using acq by (auto simp: fw_acquire_cases Let_def split: if_splits)
  have cur': "cur_entry s' j = e" by (simp add: cur_entry_def s')
  have want: "wantSlot \<Longrightarrow> 0 \<le> slot e" using room by (auto simp: e)
  have "fw_grant e a b = e" unfolding e by (rule fw_grant_idem)
  moreover have "map_put j e (leases s') = leases s'"
    using ok by (intro sm.put_same) (simp_all add: leases_ok_def s')
  ultimately have "\<exists>t'. fw_acquire s' j wantSlot a b = Inr (s', e, t')"
    using want by (cases wantSlot) (simp_all add: fw_acquire_cases cur' Let_def)
  with ok want show ?thesis by (simp add: Inr r s' e)
qed

theorem fw_acquire_correct_witness:
  "\<exists>s' e t. fw_acquire fw_state_init 5 True True False = Inr (s', e, t) \<and> leases_ok (leases s') \<and>
     map_find (leases s') 5 = Some e \<and> 0 \<le> slot e \<and> fwd4 e"
proof -
  have "leases_ok (leases fw_state_init)" by (simp add: fw_state_init_def leases_ok_def slots_distinct_def)
  from fw_acquire_correct [OF this, of 5 True True False] show ?thesis
    by (cases "fw_acquire fw_state_init 5 True True False")
      (auto simp: used_slots_def fw_state_init_def kMaxSlots_def dest: spec [of _ 0])
qed

section \<open>The file round trip\<close>

definition fw_state_ok :: "fw_state \<Rightarrow> bool" where
  "fw_state_ok s \<longleftrightarrow> leases_ok (leases s) \<and> orig4 s \<in> {- 1, 0, 1} \<and> orig6 s \<in> {- 1, 0, 1}"

lemma minus_not_digit [simp]: "\<not> is_digit (CHR ''-'')"
  by (simp add: is_digit_def)

lemma hd_dec_minus [simp]: "hd (dec n) \<noteq> CHR ''-''"
  by (metis dec_char_digit dec_nonempty hd_in_set minus_not_digit)

lemma fw_parseInt_dec_int:
  assumes "lo \<le> v" "v \<le> hi" "\<bar>v\<bar> < 10 ^ 11"
  shows "fw_parseInt (dec_int v) lo hi = Some v"
proof -
  have "length (dec (nat \<bar>v\<bar>)) \<le> 11" using assms(3) by (intro dec_length_le) (simp_all add: nat_less_iff)
  with assms show ?thesis by (auto simp: fw_parseInt_def dec_int_def Let_def abs_if split: if_splits)
qed

lemma fw_parseInt_dec: "int n \<le> hi \<Longrightarrow> lo \<le> int n \<Longrightarrow> n < 10 ^ 11 \<Longrightarrow> fw_parseInt (dec n) lo hi = Some (int n)"
  using fw_parseInt_dec_int [of lo "int n" hi] by (simp add: dec_int_def)

lemma fw_parseInt_flag [simp]: "fw_parseInt (flag b) 0 1 = Some (if b then 1 else 0)"
  by (simp add: fw_parseInt_def flag_def is_digit_def dec_val_def digit_val_def)

lemma ctrl_notin_dec_int [simp]: "TAB \<notin> set (dec_int v)" "NL \<notin> set (dec_int v)"
  by (auto simp: dec_int_def TAB_def NL_def dest: dec_char_digit simp: is_digit_def)

lemma ctrl_notin_flag [simp]: "TAB \<notin> set (flag v)" "NL \<notin> set (flag v)"
  by (auto simp: flag_def TAB_def NL_def)

lemma dec_int_last [simp]: "dec_int v \<noteq> []" "last (dec_int v) \<noteq> CHR 0x0D"
proof -
  have "last (dec n) \<noteq> CHR 0x0D" for n
    using dec_char_digit [of "last (dec n)" n] by (auto simp: is_digit_def)
  then show "dec_int v \<noteq> []" "last (dec_int v) \<noteq> CHR 0x0D" by (auto simp: dec_int_def)
qed

lemma flag_last [simp]: "flag b \<noteq> []" "last (flag b) \<noteq> CHR 0x0D"
  by (simp_all add: flag_def)

lemma dec_ne_orig4 [simp]: "dec n \<noteq> ''orig4''"
proof
  assume eq: "dec n = ''orig4''"
  have "list_all is_digit ''orig4''" using dec_digits [of n] unfolding eq .
  then show False by (simp add: is_digit_def)
qed

lemma chomp_cr_id: "s \<noteq> [] \<Longrightarrow> last s \<noteq> CHR 0x0D \<Longrightarrow> chomp_cr s = s"
  by (simp add: chomp_cr_def)

lemma fw_parse_line_lease:
  assumes "fw_entry_ok (j, e)" "map_find (leases st) j = None"
  shows "fw_parse_line n (fw_lease_line (j, e)) st = Inr (st\<lparr>leases := map_put j e (leases st)\<rparr>)"
proof -
  let ?l = "fw_lease_line (j, e)"
  have split: "split_on TAB ?l = [dec j, dec_int (slot e), flag (fwd4 e), flag (fwd6 e)]"
    by (simp add: fw_lease_line_def)
  have line: "?l \<noteq> []" "hd ?l \<noteq> CHR ''#''" "chomp_cr ?l = ?l"
    by (simp_all add: fw_lease_line_def chomp_cr_def)
  have nums: "fw_parseInt (dec j) 1 65535 = Some (int j)"
    "fw_parseInt (dec_int (slot e)) (- 1) (int kMaxSlots - 1) = Some (slot e)"
    using assms(1) by (auto simp: fw_entry_ok_def kMaxSlots_def intro!: fw_parseInt_dec fw_parseInt_dec_int)
  have conv: "\<lparr>slot = slot e, fwd4 = a, fwd6 = b\<rparr> = e" if "fwd4 e = a" "fwd6 e = b" for a b
    using that by (cases e) simp
  show ?thesis
    using assms(2)
    by (cases "fwd4 e"; cases "fwd6 e") (simp_all add: fw_parse_line_def line split nums Let_def map_emplace_def conv)
qed

lemma fw_parse_line_orig:
  assumes "orig4 s \<in> {- 1, 0, 1}" "orig6 s \<in> {- 1, 0, 1}"
  shows "fw_parse_line n (fw_orig_line s) st = Inr (st\<lparr>orig4 := orig4 s, orig6 := orig6 s\<rparr>)"
proof -
  let ?l = "fw_orig_line s"
  have o46: "TAB \<notin> set ''orig4''" "TAB \<notin> set ''orig6''" by (simp_all add: TAB_def)
  have "split_on TAB (''orig4'' @ TAB # dec_int (orig4 s) @ TAB # ''orig6'' @ TAB # dec_int (orig6 s)) =
      [''orig4'', dec_int (orig4 s), ''orig6'', dec_int (orig6 s)]"
    using o46 by (simp only: split_on_append split_on_no_sep ctrl_notin_dec_int not_False_eq_True)
  then have split: "split_on TAB ?l = [''orig4'', dec_int (orig4 s), ''orig6'', dec_int (orig6 s)]"
    by (simp only: fw_orig_line_def)
  have line: "?l \<noteq> []" "hd ?l \<noteq> CHR ''#''" "chomp_cr ?l = ?l"
    by (simp_all add: fw_orig_line_def chomp_cr_def)
  have nums: "fw_parseInt (dec_int (orig4 s)) (- 1) 1 = Some (orig4 s)" "fw_parseInt (dec_int (orig6 s)) (- 1) 1 = Some (orig6 s)"
    using assms by (auto intro!: fw_parseInt_dec_int)
  show ?thesis by (simp add: fw_parse_line_def line split nums Let_def)
qed

lemma fw_parse_loop_lines:
  "\<forall>kv \<in> set m. fw_entry_ok kv \<Longrightarrow> map_ok (leases st @ m) \<Longrightarrow>
     fw_parse_loop n (map fw_lease_line m) st = Inr (st\<lparr>leases := leases st @ m\<rparr>)"
proof (induction m arbitrary: n st)
  case Nil
  then show ?case by simp
next
  case (Cons kv m)
  obtain j e where kv: "kv = (j, e)" by (cases kv)
  have lt: "\<forall>k \<in> fst ` set (leases st). k < j"
    using Cons.prems(2) by (auto simp: map_ok_def sorted_wrt_append kv)
  then have "map_find (leases st) j = None" by (auto simp: map_find_None_iff)
  with Cons.prems(1) map_put_snoc [OF lt]
  have "fw_parse_line n (fw_lease_line kv) st = Inr (st\<lparr>leases := leases st @ [(j, e)]\<rparr>)"
    by (simp add: kv fw_parse_line_lease)
  with Cons.IH [of "st\<lparr>leases := leases st @ [(j, e)]\<rparr>" "Suc n"] Cons.prems show ?case by (simp add: kv)
qed

lemma fw_lease_line_no_NL [simp]: "NL \<notin> set (fw_lease_line kv)"
  by (cases kv) (simp add: fw_lease_line_def)

lemma split_lease_lines: "split_on NL (concat (map (\<lambda>kv. fw_lease_line kv @ [NL]) m)) = map fw_lease_line m @ [[]]"
  by (induction m) simp_all

lemma getlines_serialize:
  "getlines (fw_serialize s) = ''# crate fw leases v1'' # fw_orig_line s # map fw_lease_line (leases s)"
proof -
  have "NL \<notin> set ''# crate fw leases v1''" "NL \<notin> set (fw_orig_line s)"
    by (auto simp: fw_orig_line_def NL_def TAB_def dec_int_def dest: dec_char_digit simp: is_digit_def)
  then have "split_on NL (fw_serialize s) = ''# crate fw leases v1'' # fw_orig_line s # map fw_lease_line (leases s) @ [[]]"
    by (simp only: fw_serialize_def split_on_append split_lease_lines not_False_eq_True)
  then show ?thesis by (simp add: getlines_def Let_def)
qed

lemma slot_dup_None:
  "slot_dup seen m = None \<longleftrightarrow>
     distinct (filter (\<lambda>i. i \<ge> 0) (map (\<lambda>kv. slot (snd kv)) m)) \<and>
     set (filter (\<lambda>i. i \<ge> 0) (map (\<lambda>kv. slot (snd kv)) m)) \<inter> set seen = {}"
proof (induction seen m rule: slot_dup.induct)
  case (2 seen j e m)
  then show ?case by (cases "slot e \<ge> 0"; cases "slot e \<in> set seen") auto
qed simp

lemma slots_distinct_Cons:
  "map_ok (kv # m) \<Longrightarrow> slots_distinct (kv # m) \<longleftrightarrow>
     slots_distinct m \<and> (slot (snd kv) \<ge> 0 \<longrightarrow> (\<forall>kv' \<in> set m. slot (snd kv') \<noteq> slot (snd kv)))"
proof -
  assume "map_ok (kv # m)"
  then have ne: "\<And>kv'. kv' \<in> set m \<Longrightarrow> fst kv \<noteq> fst kv'" by (cases kv) auto
  have "slots_distinct (kv # m) \<longleftrightarrow> slots_distinct m \<and>
      (\<forall>kv' \<in> set m. slot (snd kv') = slot (snd kv) \<and> slot (snd kv) \<ge> 0 \<longrightarrow> fst kv = fst kv')"
    unfolding slots_distinct_def list.set by (simp only: ball_simps ball_conj_distrib) (intro iffI conjI; metis)
  with ne show ?thesis by blast
qed

lemma slot_dup_distinct: "map_ok m \<Longrightarrow> slot_dup [] m = None \<longleftrightarrow> slots_distinct m"
proof -
  assume "map_ok m"
  then have "distinct (filter (\<lambda>i. i \<ge> 0) (map (\<lambda>kv. slot (snd kv)) m)) \<longleftrightarrow> slots_distinct m"
  proof (induction m)
    case Nil
    then show ?case by (simp add: slots_distinct_def)
  next
    case (Cons kv m)
    moreover from Cons.prems have "map_ok m" by (cases kv) simp
    ultimately show ?case by (auto simp: slots_distinct_Cons image_iff)
  qed
  then show ?thesis by (simp add: slot_dup_None)
qed

lemma fw_parse_serialize [simp]:
  assumes "fw_state_ok s" shows "fw_parse (fw_serialize s) = Inr s"
proof -
  have ok: "map_ok (leases s)" "\<forall>kv \<in> set (leases s). fw_entry_ok kv" "slots_distinct (leases s)"
    and orig: "orig4 s \<in> {- 1, 0, 1}" "orig6 s \<in> {- 1, 0, 1}"
    using assms by (auto simp: fw_state_ok_def leases_ok_def)
  have hdr: "fw_parse_line 1 ''# crate fw leases v1'' st = Inr st" for st
    by (simp add: fw_parse_line_def chomp_cr_def)
  let ?st = "fw_state_init\<lparr>orig4 := orig4 s, orig6 := orig6 s\<rparr>"
  have "fw_parse_loop (Suc (Suc 1)) (map fw_lease_line (leases s)) ?st = Inr (?st\<lparr>leases := leases s\<rparr>)"
    using ok fw_parse_loop_lines [of "leases s" ?st] by (simp add: fw_state_init_def)
  moreover have "?st\<lparr>leases := leases s\<rparr> = s" by (cases s) (simp add: fw_state_init_def)
  ultimately have "fw_parse_loop 1 (getlines (fw_serialize s)) fw_state_init = Inr s"
    unfolding getlines_serialize by (simp only: fw_parse_loop.simps hdr bind_res_simps fw_parse_line_orig [OF orig])
  moreover have "slot_dup [] (leases s) = None" using ok slot_dup_distinct by blast
  ultimately show ?thesis by (simp add: fw_parse_def)
qed

lemma fw_parseInt_range: "fw_parseInt f lo hi = Some v \<Longrightarrow> lo \<le> v \<and> v \<le> hi"
  by (auto simp: fw_parseInt_def Let_def split: if_splits)

definition fw_loading :: "fw_state \<Rightarrow> bool" where
  "fw_loading s \<longleftrightarrow> map_ok (leases s) \<and> (\<forall>kv \<in> set (leases s). fw_entry_ok kv) \<and>
     orig4 s \<in> {- 1, 0, 1} \<and> orig6 s \<in> {- 1, 0, 1}"

lemma fw_loading_lease:
  assumes "fw_loading st" "fw_parseInt f0 1 65535 = Some jid" "fw_parseInt f1 (- 1) (int kMaxSlots - 1) = Some sl"
    "map_find (leases st) (nat jid) = None"
  shows "fw_loading (st\<lparr>leases := map_emplace (nat jid) \<lparr>slot = sl, fwd4 = a, fwd6 = b\<rparr> (leases st)\<rparr>)"
proof -
  have "fw_entry_ok (nat jid, \<lparr>slot = sl, fwd4 = a, fwd6 = b\<rparr>)"
    using fw_parseInt_range [OF assms(2)] fw_parseInt_range [OF assms(3)] by (auto simp: fw_entry_ok_def)
  with assms(1,4) show ?thesis by (auto simp: fw_loading_def map_emplace_def set_map_put)
qed

lemma fw_parse_line_ok:
  assumes "fw_parse_line n raw st = Inr st'" "fw_loading st" shows "fw_loading st'"
proof (cases "chomp_cr raw = [] \<or> hd (chomp_cr raw) = CHR ''#''")
  case True
  with assms show ?thesis by (auto simp: fw_parse_line_def Let_def)
next
  case False
  with assms(1) obtain f0 f1 f2 f3 where sp: "split_on TAB (chomp_cr raw) = [f0, f1, f2, f3]"
    by (auto simp: fw_parse_line_def Let_def split: list.splits)
  show ?thesis
  proof (cases "f0 = ''orig4'' \<and> f2 = ''orig6''")
    case True
    with assms(1) False sp obtain a b where ab: "fw_parseInt f1 (- 1) 1 = Some a" "fw_parseInt f3 (- 1) 1 = Some b"
      and st': "st' = st\<lparr>orig4 := a, orig6 := b\<rparr>"
      by (auto simp: fw_parse_line_def Let_def split: option.splits)
    have "a \<in> {- 1, 0, 1}" "b \<in> {- 1, 0, 1}" using ab [THEN fw_parseInt_range] by auto
    with st' assms(2) show ?thesis by (simp add: fw_loading_def)
  next
    case other: False
    with assms(1) False sp obtain jid sl a4 a6 where "fw_parseInt f0 1 65535 = Some jid"
      "fw_parseInt f1 (- 1) (int kMaxSlots - 1) = Some sl" "map_find (leases st) (nat jid) = None"
      "st' = st\<lparr>leases := map_emplace (nat jid) \<lparr>slot = sl, fwd4 = (a4 = (1::int)), fwd6 = (a6 = (1::int))\<rparr> (leases st)\<rparr>"
      by (auto simp: fw_parse_line_def Let_def split: option.splits if_splits)
    with fw_loading_lease [OF assms(2)] show ?thesis by blast
  qed
qed

lemma fw_parse_loop_ok: "fw_parse_loop n ls st = Inr st' \<Longrightarrow> fw_loading st \<Longrightarrow> fw_loading st'"
  by (induction ls arbitrary: n st) (auto dest: fw_parse_line_ok)

lemma fw_parse_ok:
  assumes "fw_parse text = Inr s" shows "fw_state_ok s"
proof -
  from assms have loop: "fw_parse_loop 1 (getlines text) fw_state_init = Inr s" and "slot_dup [] (leases s) = None"
    by (auto simp: fw_parse_def split: option.splits)
  moreover have "fw_loading s"
    by (rule fw_parse_loop_ok [OF loop]) (simp add: fw_loading_def fw_state_init_def)
  ultimately show ?thesis using slot_dup_distinct by (auto simp: fw_loading_def fw_state_ok_def leases_ok_def)
qed

text \<open>
  The lease file round trip: a loaded file gives a well-formed table (jids 1..65535, slots
  below 1500 and held once, saved originals in -1..1), and writing such a state and reading it
  back gives the same state.
\<close>

theorem fw_file_roundtrip:
  "(fw_parse text = Inr s \<longrightarrow> fw_state_ok s) \<and> (fw_state_ok s \<longrightarrow> fw_parse (fw_serialize s) = Inr s)"
  using fw_parse_ok by simp

theorem fw_file_roundtrip_witness:
  "fw_state_ok \<lparr>leases = [(3, \<lparr>slot = 0, fwd4 = True, fwd6 = False\<rparr>)], orig4 = 0, orig6 = - 1\<rparr> \<and>
   fw_parse (fw_serialize \<lparr>leases = [(3, \<lparr>slot = 0, fwd4 = True, fwd6 = False\<rparr>)], orig4 = 0, orig6 = - 1\<rparr>) =
     Inr \<lparr>leases = [(3, \<lparr>slot = 0, fwd4 = True, fwd6 = False\<rparr>)], orig4 = 0, orig6 = - 1\<rparr>"
proof -
  have "fw_state_ok \<lparr>leases = [(3, \<lparr>slot = 0, fwd4 = True, fwd6 = False\<rparr>)], orig4 = 0, orig6 = - 1\<rparr>"
    by (simp add: fw_state_ok_def leases_ok_def slots_distinct_def fw_entry_ok_def kMaxSlots_def)
  with fw_file_roundtrip show ?thesis by blast
qed

section \<open>Forwarding is reference counted\<close>

text \<open>
  One family: the number of references, the saved original, the kernel value, and the value the
  sysctl had before the daemon's first lease.
\<close>

definition fam_ok :: "int \<Rightarrow> nat \<Rightarrow> int \<Rightarrow> int \<Rightarrow> bool" where
  "fam_ok init n orig kern \<longleftrightarrow>
     (if n > 0 \<and> init = 0 then orig = 0 \<and> kern = 1 else orig = - 1 \<and> kern = init)"

definition io_works :: "sysctl_io \<Rightarrow> bool" where
  "io_works io \<longleftrightarrow> has_get io \<and> has_set io \<and> get_ok io \<and> set_ok io"

lemma fam_ok_flip:
  "io_works io \<Longrightarrow> fam_ok i n orig kern \<Longrightarrow> flip io (n = 0 \<and> n' > 0) (n > 0 \<and> n' = 0) (orig, kern) = (orig', kern') \<Longrightarrow>
     fam_ok i n' orig' kern'"
  by (auto simp: fam_ok_def io_works_def flip_def split: if_splits)

definition fw_world_ok :: "int \<Rightarrow> int \<Rightarrow> fw_world \<Rightarrow> bool" where
  "fw_world_ok i4 i6 w \<longleftrightarrow> leases_ok (leases (fw w)) \<and>
     fam_ok i4 (c_fwd4 (fw_counts_of (fw w))) (orig4 (fw w)) (sys4 w) \<and>
     fam_ok i6 (c_fwd6 (fw_counts_of (fw w))) (orig6 (fw w)) (sys6 w)"

lemma fw_counts_leases: "leases s = leases s' \<Longrightarrow> fw_counts_of s = fw_counts_of s'"
  by (simp add: fw_counts_of_def)

text \<open>Any change of the table, followed by the transition it implies, keeps the world in order.\<close>

lemma fw_world_ok_apply:
  assumes "io_works io" "fw_world_ok i4 i6 w" "leases_ok (leases s')" "orig4 s' = orig4 (fw w)" "orig6 s' = orig6 (fw w)"
  shows "fw_world_ok i4 i6 (applyTransition io (fw_diff (fw_counts_of (fw w)) (fw_counts_of s')) (w\<lparr>fw := s'\<rparr>))"
proof -
  let ?c = "fw_counts_of (fw w)" and ?c' = "fw_counts_of s'"
  obtain o4 k4 where f4: "flip io (c_fwd4 ?c = 0 \<and> c_fwd4 ?c' > 0) (c_fwd4 ?c > 0 \<and> c_fwd4 ?c' = 0) (orig4 (fw w), sys4 w) = (o4, k4)"
    by (meson surj_pair)
  obtain o6 k6 where f6: "flip io (c_fwd6 ?c = 0 \<and> c_fwd6 ?c' > 0) (c_fwd6 ?c > 0 \<and> c_fwd6 ?c' = 0) (orig6 (fw w), sys6 w) = (o6, k6)"
    by (meson surj_pair)
  have "fam_ok i4 (c_fwd4 ?c') o4 k4" "fam_ok i6 (c_fwd6 ?c') o6 k6"
    using fam_ok_flip [OF assms(1) _ f4] fam_ok_flip [OF assms(1) _ f6] assms(2) by (simp_all add: fw_world_ok_def)
  moreover have "applyTransition io (fw_diff ?c ?c') (w\<lparr>fw := s'\<rparr>) =
      w\<lparr>fw := s'\<lparr>orig4 := o4, orig6 := o6\<rparr>, sys4 := k4, sys6 := k6\<rparr>"
    using f4 f6 assms(4,5) by (simp add: applyTransition_def fw_diff_def)
  moreover have "fw_counts_of (s'\<lparr>orig4 := o4, orig6 := o6\<rparr>) = ?c'" by (rule fw_counts_leases) simp
  ultimately show ?thesis using assms(3) by (simp add: fw_world_ok_def)
qed

lemma fw_world_ok_file [simp]: "fw_world_ok i4 i6 (w\<lparr>fw_file := f\<rparr>) = fw_world_ok i4 i6 w"
  by (simp add: fw_world_ok_def)

definition fw_synced :: "fw_world \<Rightarrow> bool" where
  "fw_synced w \<longleftrightarrow> fw_open (fw_file w) w = Inr w"

lemma fw_world_state_ok: "fw_world_ok i4 i6 w \<Longrightarrow> fw_state_ok (fw w)"
  by (auto simp: fw_world_ok_def fw_state_ok_def fam_ok_def split: if_splits)

lemma fw_synced_persist:
  assumes "fw_world_ok i4 i6 w" shows "fw_synced (snd (fw_persist True w))"
  using fw_parse_serialize [OF fw_world_state_ok [OF assms]]
  by (simp add: fw_synced_def fw_persist_def fw_open_def)

inductive fw_step :: "sysctl_io \<Rightarrow> fw_world \<Rightarrow> fw_world \<Rightarrow> bool" for io where
  acquire: "1 \<le> j \<Longrightarrow> j \<le> 65535 \<Longrightarrow> fw_step io w (snd (fw_registry_acquire io True j wantSlot a b w))"
| release: "fw_step io w (snd (fw_registry_release io True j w))"
| reconcile: "fw_step io w (snd (fw_registry_reconcile io True probe w))"
| restart: "fw_open (fw_file w) w = Inr w' \<Longrightarrow> fw_step io w w'"

inductive_cases fw_stepE: "fw_step io w w'"

definition fw_inv :: "int \<Rightarrow> int \<Rightarrow> fw_world \<Rightarrow> bool" where
  "fw_inv i4 i6 w \<longleftrightarrow> fw_world_ok i4 i6 w \<and> fw_synced w"

lemma fw_inv_change:
  assumes "io_works io" "fw_inv i4 i6 w" "leases_ok (leases s')" "orig4 s' = orig4 (fw w)" "orig6 s' = orig6 (fw w)"
  shows "fw_inv i4 i6 (snd (fw_persist True
           (applyTransition io (fw_diff (fw_counts_of (fw w)) (fw_counts_of s')) (w\<lparr>fw := s'\<rparr>))))"
proof -
  let ?w = "applyTransition io (fw_diff (fw_counts_of (fw w)) (fw_counts_of s')) (w\<lparr>fw := s'\<rparr>)"
  have "fw_world_ok i4 i6 ?w" using fw_world_ok_apply [OF assms(1) _ assms(3-5)] assms(2) by (simp add: fw_inv_def)
  then show ?thesis using fw_synced_persist by (simp add: fw_inv_def) (simp add: fw_persist_def)
qed

lemma fw_inv_step:
  assumes "fw_step io w w'" "io_works io" "fw_inv i4 i6 w"
  shows "fw_inv i4 i6 w'"
  using assms(1,3)
proof (induction rule: fw_step.induct)
  case (acquire j w wantSlot a b)
  then have ok: "leases_ok (leases (fw w))" by (simp add: fw_inv_def fw_world_ok_def)
  show ?case
  proof (cases "fw_acquire (fw w) j wantSlot a b")
    case (Inl e)
    with acquire show ?thesis by (simp add: fw_registry_acquire_def)
  next
    case (Inr r)
    obtain s' e t where r: "r = (s', e, t)" by (cases r)
    with Inr have "t = fw_diff (fw_counts_of (fw w)) (fw_counts_of s')" "orig4 s' = orig4 (fw w)" "orig6 s' = orig6 (fw w)"
      by (auto simp: fw_acquire_cases Let_def split: if_splits)
    with fw_inv_change [OF assms(2) acquire(3) leases_ok_acquire [OF ok acquire(1,2) Inr [unfolded r]]] Inr r
    show ?thesis by (simp add: fw_registry_acquire_def split_beta Let_def)
  qed
next
  case (release w j)
  then have ok: "leases_ok (leases (fw w))" by (simp add: fw_inv_def fw_world_ok_def)
  show ?case
  proof (cases "map_find (leases (fw w)) j = None")
    case True
    with release show ?thesis by (simp add: fw_registry_release_def fw_release_def Let_def)
  next
    case False
    with fw_inv_change [OF assms(2) release, of "(fw w)\<lparr>leases := map_erase j (leases (fw w))\<rparr>"] leases_ok_erase [OF ok]
    show ?thesis by (simp add: fw_registry_release_def fw_release_def Let_def split_beta)
  qed
next
  case (reconcile w probe)
  then have ok: "leases_ok (leases (fw w))" by (simp add: fw_inv_def fw_world_ok_def)
  show ?case
  proof (cases probe)
    case None
    with reconcile show ?thesis by (simp add: fw_registry_reconcile_def)
  next
    case (Some isLive)
    let ?s = "(fw w)\<lparr>leases := filter (\<lambda>kv. isLive (fst kv)) (leases (fw w))\<rparr>"
    show ?thesis
    proof (cases "filter (\<lambda>kv. \<not> isLive (fst kv)) (leases (fw w)) = []")
      case True
      then have "w\<lparr>fw := ?s\<rparr> = w" by (simp add: filter_empty_conv filter_id_conv)
      with reconcile Some True show ?thesis by (simp add: fw_registry_reconcile_def fw_reconcile_def Let_def)
    next
      case False
      with fw_inv_change [OF assms(2) reconcile, of ?s] leases_ok_filter [OF ok] Some
      show ?thesis by (simp add: fw_registry_reconcile_def fw_reconcile_def Let_def split_beta)
    qed
  qed
next
  case (restart w w')
  then show ?case by (simp add: fw_inv_def fw_synced_def)
qed

text \<open>
  C9. Shared sysctls are reference counted. Start the daemon without a lease file, with the two
  forwarding sysctls at any values, and let jails acquire and release leases, dead jails be
  reconciled away and the daemon restart, in any order, with accessors and writes that succeed.
  Then forwarding of a family is on whenever some lease holds a reference to it, the sysctl has
  its initial value again whenever none does, no slot is held twice, and a restart at that point
  would reload exactly the state in memory.
\<close>

theorem fw_forwarding_refcounted:
  assumes "io_works io"
    and "(fw_step io)\<^sup>*\<^sup>* \<lparr>fw = fw_state_init, fw_file = None, sys4 = i4, sys6 = i6\<rparr> w"
  shows "(if c_fwd4 (fw_counts_of (fw w)) = 0 then sys4 w = i4 else sys4 w = (if i4 = 0 then 1 else i4)) \<and>
         (if c_fwd6 (fw_counts_of (fw w)) = 0 then sys6 w = i6 else sys6 w = (if i6 = 0 then 1 else i6)) \<and>
         slots_distinct (leases (fw w)) \<and> fw_open (fw_file w) w = Inr w"
proof -
  have "fw_inv i4 i6 \<lparr>fw = fw_state_init, fw_file = None, sys4 = i4, sys6 = i6\<rparr>"
    by (simp add: fw_inv_def fw_world_ok_def fw_synced_def fw_open_def fw_state_init_def leases_ok_def
        slots_distinct_def fam_ok_def fw_counts_of_def)
  with assms(2) have "fw_inv i4 i6 w"
    by (induction rule: rtranclp_induct) (auto intro: fw_inv_step assms(1))
  then show ?thesis
    by (auto simp: fw_inv_def fw_world_ok_def fw_synced_def leases_ok_def fam_ok_def split: if_splits)
qed

theorem fw_forwarding_refcounted_witness:
  "\<exists>io w. io_works io \<and> (fw_step io)\<^sup>*\<^sup>* \<lparr>fw = fw_state_init, fw_file = None, sys4 = 0, sys6 = 0\<rparr> w \<and>
     sys4 w = 1 \<and> sys4 (snd (fw_registry_release io True 5 w)) = 0"
proof -
  let ?io = "\<lparr>has_get = True, has_set = True, get_ok = True, set_ok = True\<rparr>"
  let ?init = "\<lparr>fw = fw_state_init, fw_file = None, sys4 = 0, sys6 = 0\<rparr>"
  let ?w = "snd (fw_registry_acquire ?io True 5 False True False ?init)"
  let ?v = "snd (fw_registry_release ?io True 5 ?w)"
  have io: "io_works ?io" by (simp add: io_works_def)
  have w: "(fw_step ?io)\<^sup>*\<^sup>* ?init ?w" by (intro r_into_rtranclp fw_step.acquire) simp_all
  moreover have v: "(fw_step ?io)\<^sup>*\<^sup>* ?init ?v" by (rule rtranclp.rtrancl_into_rtrancl [OF w fw_step.release])
  have acq: "leases (fw ?w) = [(5, \<lparr>slot = - 1, fwd4 = True, fwd6 = False\<rparr>)]"
    by (simp add: fw_registry_acquire_def fw_acquire_def fw_state_init_def fw_entry_init_def fw_grant_def Let_def
        fw_persist_def applyTransition_def split_beta)
  then have "c_fwd4 (fw_counts_of (fw ?w)) = 1" by (simp add: fw_counts_of_def)
  moreover have "c_fwd4 (fw_counts_of (fw ?v)) = 0"
    using acq by (simp add: fw_registry_release_def fw_release_def fw_persist_def applyTransition_def split_beta
        fw_counts_of_def map_erase_def Let_def)
  ultimately show ?thesis
    using fw_forwarding_refcounted [OF io w] fw_forwarding_refcounted [OF io v] io
    by (intro exI [of _ ?io] exI [of _ ?w]) simp
qed

end
