(* ===== verification/Passwd.thy ===== *)
theory Passwd
  imports FwLease
begin

text \<open>
  \<^verbatim>\<open>lib/passwd_pure.{h,cpp}\<close>: the readers of a jail's \<^verbatim>\<open>master.passwd\<close> and \<^verbatim>\<open>group\<close> files, which the
  daemon uses to resolve the user of an \<^verbatim>\<open>exec_in_jail\<close> request before it forks. Ids are
  \<^typ>\<open>nat\<close>: at most ten digits are read into a 64-bit accumulator, so nothing wraps.
\<close>

record User =
  u_name :: string
  u_uid :: nat
  u_gid :: nat
  u_loginClass :: string
  u_home :: string
  u_shell :: string

definition no_user :: User where
  "no_user = \<lparr>u_name = [], u_uid = 0, u_gid = 0, u_loginClass = [], u_home = [], u_shell = []\<rparr>"

definition splitColons :: "string \<Rightarrow> string list" where
  "splitColons line = split_on (CHR '':'') line"

definition parseId :: "string \<Rightarrow> nat option" where
  "parseId s =
     (if s = [] \<or> length s > 10 then None
      else if \<not> list_all is_digit s then None
      else if dec_val s > 0xFFFFFFFF then None
      else Some (dec_val s))"

text \<open>Ten columns are \<^verbatim>\<open>master.passwd(5)\<close>, seven are \<^verbatim>\<open>passwd(5)\<close>.\<close>

definition parseEither :: "string \<Rightarrow> User option" where
  "parseEither line =
     (if line = [] \<or> hd line = CHR ''#'' then None
      else case splitColons line of
        [n, _, uid, gid, cls, _, _, _, home, sh] \<Rightarrow>
          if n = [] then None
          else (case (parseId uid, parseId gid) of
                  (Some u, Some g) \<Rightarrow>
                    Some \<lparr>u_name = n, u_uid = u, u_gid = g, u_loginClass = cls, u_home = home, u_shell = sh\<rparr>
                | _ \<Rightarrow> None)
      | [n, _, uid, gid, _, home, sh] \<Rightarrow>
          if n = [] then None
          else (case (parseId uid, parseId gid) of
                  (Some u, Some g) \<Rightarrow>
                    Some \<lparr>u_name = n, u_uid = u, u_gid = g, u_loginClass = [], u_home = home, u_shell = sh\<rparr>
                | _ \<Rightarrow> None)
      | _ \<Rightarrow> None)"

definition parseMasterPasswdLine :: "string \<Rightarrow> User option" where
  "parseMasterPasswdLine line =
     (if line = [] \<or> hd line = CHR ''#'' then None
      else if length (splitColons line) \<noteq> 10 then None
      else parseEither line)"

fun lookupUser_loop :: "string \<Rightarrow> string list \<Rightarrow> User option" where
  "lookupUser_loop name [] = None"
| "lookupUser_loop name (line # lines) =
     (case parseEither (chomp_cr line) of
        None \<Rightarrow> lookupUser_loop name lines
      | Some u \<Rightarrow> if u_name u = name then Some u else lookupUser_loop name lines)"

definition lookupUser :: "string \<Rightarrow> string \<Rightarrow> User option" where
  "lookupUser content name = (if name = [] then None else lookupUser_loop name (getlines content))"

text \<open>\<^verbatim>\<open>std::getline\<close> with a comma: no element for an empty rest.\<close>

definition members_of :: "string \<Rightarrow> string list" where
  "members_of s = (let ms = split_on (CHR '','') s in if last ms = [] then butlast ms else ms)"

definition group_gid :: "string \<Rightarrow> string \<Rightarrow> nat option" where
  "group_gid user raw =
     (let line = chomp_cr raw in
      if line = [] \<or> hd line = CHR ''#'' then None
      else case splitColons line of
        [_, _, gid, ms] \<Rightarrow>
          (case parseId gid of
             None \<Rightarrow> None
           | Some g \<Rightarrow> if user \<in> set (members_of ms) then Some g else None)
      | _ \<Rightarrow> None)"

fun groups_loop :: "string \<Rightarrow> nat \<Rightarrow> nat list \<Rightarrow> string list \<Rightarrow> nat list" where
  "groups_loop user maxGroups groups [] = groups"
| "groups_loop user maxGroups groups (line # lines) =
     (if \<not> length groups < maxGroups then groups
      else groups_loop user maxGroups
        (case group_gid user line of
           None \<Rightarrow> groups
         | Some g \<Rightarrow> if g \<in> set groups then groups else groups @ [g]) lines)"

definition supplementaryGroups :: "string \<Rightarrow> string \<Rightarrow> nat \<Rightarrow> nat \<Rightarrow> nat list" where
  "supplementaryGroups content user primaryGid maxGroups =
     (if user = [] \<or> maxGroups \<le> 1 then [primaryGid]
      else groups_loop user maxGroups [primaryGid] (getlines content))"

section \<open>What the readers return\<close>

lemma lookupUser_loop_name: "lookupUser_loop name ls = Some u \<Longrightarrow> u_name u = name"
  by (induction ls) (auto split: option.splits if_splits)

lemma lookupUser_name: "lookupUser content name = Some u \<Longrightarrow> u_name u = name \<and> name \<noteq> []"
  by (auto simp: lookupUser_def lookupUser_loop_name split: if_splits)

lemma groups_loop_props:
  assumes "distinct gs" "gs \<noteq> []" "length gs \<le> n"
  shows "distinct (groups_loop u n gs ls) \<and> hd (groups_loop u n gs ls) = hd gs \<and> length (groups_loop u n gs ls) \<le> n \<and>
         set (groups_loop u n gs ls) \<subseteq> set gs \<union> {g. \<exists>l \<in> set ls. group_gid u l = Some g}"
  using assms
proof (induction u n gs ls rule: groups_loop.induct)
  case (2 u n gs l ls)
  show ?case
  proof (cases "length gs < n")
    case True
    let ?gs = "case group_gid u l of None \<Rightarrow> gs | Some g \<Rightarrow> if g \<in> set gs then gs else gs @ [g]"
    have "distinct ?gs" "?gs \<noteq> []" "length ?gs \<le> n" "hd ?gs = hd gs"
      "set ?gs \<subseteq> set gs \<union> {g. group_gid u l = Some g}"
      using 2(2-4) True by (auto split: option.splits)
    with 2(1) [OF _ this(1-3)] True show ?thesis by (simp del: set_simps) (auto)
  qed (use 2 in auto)
qed auto

end
