(* ===== verification/PerUser.thy ===== *)
theory PerUser
  imports IpAlloc Rctl
begin

text \<open>
  What belongs to one operator: runtime paths (\<^verbatim>\<open>lib/runtime_paths_pure.cpp\<close>), the per-user
  IPv4 and IPv6 sub-networks (\<^verbatim>\<open>lib/per_user_net_pure.cpp\<close>), the per-user ZFS prefix
  (\<^verbatim>\<open>lib/zfs_dataset_pure.cpp\<close>) and the environment the privops gate compares requests against
  (\<^verbatim>\<open>lib/per_user_env_pure.{h,cpp}\<close>).
\<close>

section \<open>Runtime paths\<close>

definition legacyRoot :: string where
  "legacyRoot = ''/var/run/crate''"

definition perUserRoot :: "nat \<Rightarrow> string" where
  "perUserRoot uid = legacyRoot @ ''/'' @ uidStr uid"

definition perUserLeasesDir :: "nat \<Rightarrow> string" where
  "perUserLeasesDir uid = perUserRoot uid @ ''/leases''"

definition perUserLeaseFile :: "nat \<Rightarrow> string \<Rightarrow> string" where
  "perUserLeaseFile uid jailName = perUserLeasesDir uid @ ''/'' @ jailName @ ''.lease''"

definition perUserExportsDir :: "nat \<Rightarrow> string" where
  "perUserExportsDir uid = perUserRoot uid @ ''/exports''"

definition perUserImportsDir :: "nat \<Rightarrow> string" where
  "perUserImportsDir uid = perUserRoot uid @ ''/imports''"

definition perUserCrateAuditLog :: "nat \<Rightarrow> string" where
  "perUserCrateAuditLog uid = perUserRoot uid @ ''/crate-audit.log''"

definition perUserAuditLog :: "nat \<Rightarrow> string" where
  "perUserAuditLog uid = perUserRoot uid @ ''/audit.log''"

definition jail_dir :: "string \<Rightarrow> string" where
  "jail_dir rest = (if \<not> starts_with ''jail-'' rest \<or> length rest \<le> 5 then [] else rest)"

definition crateJailDirName :: "string \<Rightarrow> string" where
  "crateJailDirName path =
     (let root = legacyRoot @ ''/'' in
      if \<not> starts_with root path then []
      else let rest = drop (length root) path in
        case cut_at (CHR ''/'') rest of
          None \<Rightarrow> jail_dir rest
        | Some (u, r) \<Rightarrow>
          if \<not> all_digits u then []
          else if CHR ''/'' \<in> set r then []
          else jail_dir r)"

definition isCrateJailPath :: "string \<Rightarrow> bool" where
  "isCrateJailPath path \<longleftrightarrow> crateJailDirName path \<noteq> []"

definition validateUid :: "int \<Rightarrow> err" where
  "validateUid uid =
     (if uid < 0 then ''uid must be non-negative''
      else if uid > 2147483647 then ''uid out of range (>INT32_MAX)''
      else [])"

section \<open>IPv4 sub-networks\<close>

fun parseIpv4_loop :: "nat \<Rightarrow> u32 \<Rightarrow> string \<Rightarrow> u32 option" where
  "parseIpv4_loop 0 acc s = (if s = [] then Some acc else None)"
| "parseIpv4_loop (Suc k) acc s =
     (if s = [] \<or> \<not> is_digit (hd s) then None
      else let ds = takeWhile is_digit s; rest = dropWhile is_digit s in
        case octet_loop 0 ds of
          None \<Rightarrow> None
        | Some v \<Rightarrow>
          if length ds > 1 \<and> hd ds = CHR ''0'' then None
          else let acc' = push_bit 8 acc OR word_of_nat v in
            if k = 0 then parseIpv4_loop 0 acc' rest
            else if rest = [] \<or> hd rest \<noteq> CHR ''.'' then None
            else parseIpv4_loop k acc' (tl rest))"

definition parseIpv4 :: "string \<Rightarrow> u32 option" where
  "parseIpv4 s = parseIpv4_loop 4 0 s"

definition formatIpv4 :: "u32 \<Rightarrow> string" where
  "formatIpv4 addr =
     dec (unat (drop_bit 24 addr AND 0xff)) @ ''.'' @ dec (unat (drop_bit 16 addr AND 0xff)) @ ''.'' @
     dec (unat (drop_bit 8 addr AND 0xff)) @ ''.'' @ dec (unat (addr AND 0xff))"

fun plen_loop :: "nat \<Rightarrow> string \<Rightarrow> nat res" where
  "plen_loop p [] = Inr p"
| "plen_loop p (c # cs) =
     (if \<not> is_digit c then Inl ''prefix length not a number''
      else let p' = p * 10 + digit_val c in
        if p' > 128 then Inl ''prefix length out of range'' else plen_loop p' cs)"

definition splitCidr :: "string \<Rightarrow> (string \<times> nat) res" where
  "splitCidr cidr =
     (case cut_at (CHR ''/'') cidr of
        None \<Rightarrow> Inl (''missing '' @ quoted ''/'' @ '' in CIDR'')
      | Some (addr, plen) \<Rightarrow>
        if plen = [] \<or> length plen > 3 then Inl ''prefix length empty or too long''
        else bind_res (plen_loop 0 plen) (\<lambda>p. Inr (addr, p)))"

definition masterMask :: "nat \<Rightarrow> u32" where
  "masterMask p = (if p = 0 then 0 else push_bit (32 - p) 0xFFFFFFFF)"

definition composeIpv4 :: "string \<Rightarrow> nat \<Rightarrow> nat \<Rightarrow> string res" where
  "composeIpv4 masterCidr subPrefixLen uid =
     (case splitCidr masterCidr of
        Inl e \<Rightarrow> Inl (''master: '' @ e)
      | Inr (addr, prefix) \<Rightarrow>
        if prefix > 32 then Inl ''master IPv4 prefix > 32''
        else if subPrefixLen > 32 then Inl ''sub prefix > 32''
        else if subPrefixLen \<le> prefix then Inl ''sub prefix must be greater than master prefix''
        else let slotBits = subPrefixLen - prefix in
          if slotBits > 24 then Inl ''slot space too large (>24 bits)''
          else case parseIpv4 addr of
            None \<Rightarrow> Inl ''master address malformed''
          | Some a \<Rightarrow>
            if uid \<ge> 2 ^ slotBits
            then Inl (''uid '' @ dec uid @ '' exceeds the '' @ dec slotBits @ ''-bit per-user slot space '' @
              ''(max uid '' @ dec (2 ^ slotBits - 1) @ ''); widen the master IPv4 CIDR or shrink the sub-prefix'')
            else Inr (formatIpv4 ((a AND masterMask prefix) OR push_bit (32 - subPrefixLen) (word_of_nat uid))
              @ ''/'' @ dec subPrefixLen))"

section \<open>IPv6 sub-networks\<close>

type_synonym u16 = "16 word"
type_synonym u8 = "8 word"

definition hexdigit :: "char \<Rightarrow> u16 option" where
  "hexdigit c =
     (if is_digit c then Some (word_of_nat (of_char c - 48))
      else if CHR ''a'' \<le> c \<and> c \<le> CHR ''f'' then Some (word_of_nat (10 + of_char c - 97))
      else if CHR ''A'' \<le> c \<and> c \<le> CHR ''F'' then Some (word_of_nat (10 + of_char c - 65))
      else None)"

fun hexgroup_loop :: "u16 \<Rightarrow> string \<Rightarrow> u16 option" where
  "hexgroup_loop v [] = Some v"
| "hexgroup_loop v (c # cs) =
     (case hexdigit c of None \<Rightarrow> None | Some d \<Rightarrow> hexgroup_loop (push_bit 4 v OR d) cs)"

text \<open>The lambda \<^verbatim>\<open>flush\<close>: append the pending group to the list being filled.\<close>

definition flush :: "string \<Rightarrow> u16 list \<Rightarrow> u16 list option" where
  "flush cur dst =
     (if cur = [] then Some dst
      else if length cur > 4 then None
      else map_option (\<lambda>v. dst @ [v]) (hexgroup_loop 0 cur))"

definition flush_into :: "bool \<Rightarrow> string \<Rightarrow> u16 list \<times> u16 list \<Rightarrow> (u16 list \<times> u16 list) option" where
  "flush_into inTail cur ht =
     (if inTail then map_option (\<lambda>t. (fst ht, t)) (flush cur (snd ht))
      else map_option (\<lambda>h. (h, snd ht)) (flush cur (fst ht)))"

function (sequential) v6_scan :: "bool \<Rightarrow> string \<Rightarrow> u16 list \<times> u16 list \<Rightarrow> string \<Rightarrow> (bool \<times> u16 list \<times> u16 list) option" where
  "v6_scan seen cur ht [] = map_option (\<lambda>r. (seen, r)) (flush_into seen cur ht)"
| "v6_scan seen cur ht (c # cs) =
     (if c = CHR '':'' then
        if cs \<noteq> [] \<and> hd cs = CHR '':'' then
          if seen then None
          else case flush_into False cur ht of None \<Rightarrow> None | Some ht' \<Rightarrow> v6_scan True [] ht' (tl cs)
        else case flush_into seen cur ht of None \<Rightarrow> None | Some ht' \<Rightarrow> v6_scan seen [] ht' cs
      else v6_scan seen (cur @ [c]) ht cs)"
  by pat_completeness auto
termination by (relation "measure (\<lambda>(_, _, _, s). length s)") auto

fun find_double_colon :: "string \<Rightarrow> string option" where
  "find_double_colon (a # b # s) = (if a = CHR '':'' \<and> b = CHR '':'' then Some (b # s) else find_double_colon (b # s))"
| "find_double_colon _ = None"

definition parseIpv6 :: "string \<Rightarrow> u16 list option" where
  "parseIpv6 s =
     (if s = [] \<or> length s > 45 then None
      else if (case find_double_colon s of None \<Rightarrow> False | Some t \<Rightarrow> find_double_colon t \<noteq> None) then None
      else case v6_scan False [] ([], []) s of
        None \<Rightarrow> None
      | Some (seen, head, tail) \<Rightarrow>
        if seen then
          if length head + length tail > 8 then None
          else Some (head @ replicate (8 - length head - length tail) 0 @ tail)
        else if length head \<noteq> 8 then None else Some head)"

text \<open>\<^verbatim>\<open>"%x"\<close>\<close>

definition hex_char :: "nat \<Rightarrow> char" where
  "hex_char d = (if d < 10 then digit_char d else char_of (87 + d))"

fun hex :: "nat \<Rightarrow> string" where
  "hex n = (if n < 16 then [hex_char n] else hex (n div 16) @ [hex_char (n mod 16)])"

declare hex.simps [simp del]

definition formatIpv6 :: "u16 list \<Rightarrow> string" where
  "formatIpv6 g = join (CHR '':'') (map (\<lambda>w. hex (unat w)) g)"

definition bytes_of :: "u16 list \<Rightarrow> u8 list" where
  "bytes_of g = concat (map (\<lambda>w. [ucast (drop_bit 8 w), ucast (w AND 0xff)]) g)"

definition groups_of :: "u8 list \<Rightarrow> u16 list" where
  "groups_of bs = map (\<lambda>i. push_bit 8 (ucast (bs ! (2 * i))) OR ucast (bs ! (2 * i + 1))) [0..<8]"

definition clear_bit :: "u8 list \<Rightarrow> nat \<Rightarrow> u8 list" where
  "clear_bit bs i = bs[i div 8 := (bs ! (i div 8)) AND NOT (push_bit (7 - i mod 8) 1)]"

definition set_bit_at :: "u8 list \<Rightarrow> nat \<Rightarrow> u8 list" where
  "set_bit_at bs i = bs[i div 8 := (bs ! (i div 8)) OR push_bit (7 - i mod 8) 1]"

definition put_slot :: "nat \<Rightarrow> nat \<Rightarrow> nat \<Rightarrow> u8 list \<Rightarrow> u8 list" where
  "put_slot prefix slotBits slot bs =
     foldl (\<lambda>b i. if bit slot (slotBits - 1 - i) then set_bit_at b (prefix + i) else b) bs [0..<slotBits]"

definition composeIpv6 :: "string \<Rightarrow> nat \<Rightarrow> nat \<Rightarrow> string res" where
  "composeIpv6 masterCidr subPrefixLen uid =
     (case splitCidr masterCidr of
        Inl e \<Rightarrow> Inl (''master: '' @ e)
      | Inr (addr, prefix) \<Rightarrow>
        if prefix > 128 then Inl ''master IPv6 prefix > 128''
        else if subPrefixLen > 128 then Inl ''sub prefix > 128''
        else if subPrefixLen \<le> prefix then Inl ''sub prefix must be greater than master prefix''
        else let slotBits = subPrefixLen - prefix in
          if slotBits > 32 then Inl ''slot space too large (>32 bits)''
          else case parseIpv6 addr of
            None \<Rightarrow> Inl ''master address malformed''
          | Some g \<Rightarrow>
            if uid \<ge> 2 ^ slotBits
            then Inl (''uid '' @ dec uid @ '' exceeds the '' @ dec slotBits @ ''-bit per-user slot space; '' @
              ''widen the master IPv6 CIDR or shrink the sub-prefix'')
            else Inr (formatIpv6 (groups_of (put_slot prefix slotBits uid (foldl clear_bit (bytes_of g) [prefix..<128])))
              @ ''/'' @ dec subPrefixLen))"

section \<open>ZFS prefix and environment\<close>

definition strip_slash :: "string \<Rightarrow> string" where
  "strip_slash p = (if p \<noteq> [] \<and> last p = CHR ''/'' then butlast p else p)"

definition composePerUserPrefix :: "string \<Rightarrow> nat \<Rightarrow> string" where
  "composePerUserPrefix masterPrefix uid = strip_slash masterPrefix @ ''/'' @ uidStr uid"

definition composePerUserDataset :: "string \<Rightarrow> nat \<Rightarrow> string \<Rightarrow> string" where
  "composePerUserDataset masterPrefix uid jailName = composePerUserPrefix masterPrefix uid @ ''/'' @ jailName"

record per_user_config =
  zfsMasterPrefix :: string
  cfg_pathMasterPrefix :: string
  networkMasterCidr4 :: string
  networkSubPrefixLen4 :: nat
  networkMasterCidr6 :: string
  networkSubPrefixLen6 :: nat

record per_user_env =
  env_uid :: nat
  runtimeRoot :: string
  leasesDir :: string
  exportsDir :: string
  importsDir :: string
  auditLog :: string
  zfsPrefix :: string
  pathPrefix :: string
  pathMasterPrefix :: string
  ipv4SubCidr :: string
  ipv6SubCidr :: string
  env_loginclass :: string
  env_loginclassSubject :: string

definition empty_env :: "nat \<Rightarrow> per_user_env" where
  "empty_env uid = \<lparr>env_uid = uid, runtimeRoot = [], leasesDir = [], exportsDir = [], importsDir = [], auditLog = [],
     zfsPrefix = [], pathPrefix = [], pathMasterPrefix = [], ipv4SubCidr = [], ipv6SubCidr = [],
     env_loginclass = [], env_loginclassSubject = []\<rparr>"

text \<open>The fields composed before the networks, which can no longer fail once the uid is valid.\<close>

definition base_env :: "per_user_config \<Rightarrow> nat \<Rightarrow> per_user_env" where
  "base_env cfg uid =
     (empty_env uid)\<lparr>runtimeRoot := perUserRoot uid, leasesDir := perUserLeasesDir uid,
        exportsDir := perUserExportsDir uid, importsDir := perUserImportsDir uid, auditLog := perUserAuditLog uid,
        env_loginclass := loginclassName uid, env_loginclassSubject := loginclassSubject uid,
        zfsPrefix := (if zfsMasterPrefix cfg \<noteq> [] then composePerUserPrefix (zfsMasterPrefix cfg) uid else []),
        pathMasterPrefix := (if cfg_pathMasterPrefix cfg \<noteq> [] then strip_slash (cfg_pathMasterPrefix cfg) else []),
        pathPrefix := (if cfg_pathMasterPrefix cfg \<noteq> [] then strip_slash (cfg_pathMasterPrefix cfg) @ ''/'' @ dec uid else [])\<rparr>"

definition composeForUid :: "per_user_config \<Rightarrow> nat \<Rightarrow> per_user_env \<times> err" where
  "composeForUid cfg uid =
     (if validateUid (int uid) \<noteq> [] then (empty_env uid, ''uid: '' @ validateUid (int uid))
      else let env = base_env cfg uid in
        case (if networkMasterCidr4 cfg \<noteq> [] then composeIpv4 (networkMasterCidr4 cfg) (networkSubPrefixLen4 cfg) uid else Inr []) of
          Inl e \<Rightarrow> (env, ''ipv4: '' @ e)
        | Inr c4 \<Rightarrow>
          let env4 = env\<lparr>ipv4SubCidr := c4\<rparr> in
          case (if networkMasterCidr6 cfg \<noteq> [] then composeIpv6 (networkMasterCidr6 cfg) (networkSubPrefixLen6 cfg) uid else Inr []) of
            Inl e \<Rightarrow> (env4, ''ipv6: '' @ e)
          | Inr c6 \<Rightarrow> (env4\<lparr>ipv6SubCidr := c6\<rparr>, []))"

section \<open>The two IPv4 parsers agree\<close>

lemma takeWhile_dec: "takeWhile is_digit (dec n @ CHR ''.'' # s) = dec n" "dropWhile is_digit (dec n @ CHR ''.'' # s) = CHR ''.'' # s"
  "takeWhile is_digit (dec n) = dec n" "dropWhile is_digit (dec n) = []"
proof -
  have "\<not> is_digit (CHR ''.'')" by (simp add: is_digit_def)
  then show "takeWhile is_digit (dec n @ CHR ''.'' # s) = dec n" "dropWhile is_digit (dec n @ CHR ''.'' # s) = CHR ''.'' # s"
    "takeWhile is_digit (dec n) = dec n" "dropWhile is_digit (dec n) = []"
    using dec_char_digit by (auto simp: takeWhile_append dropWhile_append takeWhile_eq_all_conv)
qed

lemma hd_dec_digit [simp]: "is_digit (hd (dec n))"
  using dec_char_digit [of "hd (dec n)" n] by simp

lemma octet_dec: "n \<le> 255 \<Longrightarrow> octet_loop 0 (dec n) = Some n"
  by (simp add: octet_loop_value Let_def)

lemma dec_no_leading: "length (dec n) > 1 \<Longrightarrow> hd (dec n) \<noteq> CHR ''0''"
  using dec_hd_zero [of n] dec.simps [of 0] by auto

lemma parseIpv4_quad:
  assumes "a \<le> 255" "b \<le> 255" "c \<le> 255" "d \<le> 255"
  shows "parseIpv4 (quad_text a b c d) = Some (quad a b c d)"
  using assms dec_no_leading
  by (simp add: parseIpv4_def quad_text_def numeral_eq_Suc takeWhile_dec octet_dec Let_def quad_def octet_word_def
      del: One_nat_def)

text \<open>One octet read off the front.\<close>

lemma octet_front:
  assumes "s \<noteq> []" "is_digit (hd s)" "octet_loop 0 (takeWhile is_digit s) = Some v"
    "\<not> (length (takeWhile is_digit s) > 1 \<and> hd (takeWhile is_digit s) = CHR ''0'')"
  shows "v \<le> 255 \<and> s = dec v @ dropWhile is_digit s"
proof -
  let ?ds = "takeWhile is_digit s"
  have ds: "list_all is_digit ?ds" by (auto simp: list_all_iff dest: set_takeWhileD)
  have ne: "?ds \<noteq> []" using assms(1,2) by (cases s) auto
  have "v = dec_val ?ds" "v \<le> 255" using assms(3) by (auto simp: octet_loop_value Let_def split: if_splits)
  moreover have "dec (dec_val ?ds) = ?ds"
    using ds ne assms(4) by (intro dec_dec_val) (auto simp: not_less le_Suc_eq)
  ultimately show ?thesis by simp
qed

lemma parseIpv4_step:
  assumes "parseIpv4_loop (Suc (Suc k)) acc s = Some w"
  shows "\<exists>v r. v \<le> 255 \<and> s = dec v @ CHR ''.'' # r \<and>
    parseIpv4_loop (Suc k) (push_bit 8 acc OR word_of_nat v) r = Some w"
proof -
  let ?r = "dropWhile is_digit s"
  from assms obtain v where v: "s \<noteq> []" "is_digit (hd s)" "octet_loop 0 (takeWhile is_digit s) = Some v"
    "\<not> (length (takeWhile is_digit s) > 1 \<and> hd (takeWhile is_digit s) = CHR ''0'')"
    "?r \<noteq> []" "hd ?r = CHR ''.''" "parseIpv4_loop (Suc k) (push_bit 8 acc OR word_of_nat v) (tl ?r) = Some w"
    by (auto simp: Let_def simp del: parseIpv4_loop.simps(2) split: if_splits option.splits
        simp: parseIpv4_loop.simps(2) [of "Suc k"])
  have "v \<le> 255 \<and> s = dec v @ ?r" using v(1-4) by (rule octet_front)
  moreover have "?r = CHR ''.'' # tl ?r" using v(5,6) by (metis list.collapse)
  ultimately show ?thesis using v(7) by metis
qed

lemma parseIpv4_last:
  assumes "parseIpv4_loop (Suc 0) acc s = Some w"
  shows "\<exists>v. v \<le> 255 \<and> s = dec v"
proof -
  let ?r = "dropWhile is_digit s"
  from assms obtain v where v: "s \<noteq> []" "is_digit (hd s)" "octet_loop 0 (takeWhile is_digit s) = Some v"
    "\<not> (length (takeWhile is_digit s) > 1 \<and> hd (takeWhile is_digit s) = CHR ''0'')" "?r = []"
    by (auto simp: Let_def split: if_splits option.splits)
  have "v \<le> 255 \<and> s = dec v @ ?r" using v(1-4) by (rule octet_front)
  with v(5) show ?thesis by (metis append_Nil2)
qed

lemma parseIpv4_imp_parseIp:
  assumes s: "parseIpv4 s = Some w" shows "parseIp s = Inr w"
proof -
  from s have "parseIpv4_loop (Suc (Suc (Suc (Suc 0)))) 0 s = Some w" by (simp add: parseIpv4_def numeral_eq_Suc del: parseIpv4_loop.simps)
  from parseIpv4_step [OF this] obtain a r1 where a: "a \<le> 255" "s = dec a @ CHR ''.'' # r1"
    and "parseIpv4_loop (Suc (Suc (Suc 0))) (push_bit 8 0 OR word_of_nat a) r1 = Some w" by blast
  from parseIpv4_step [OF this(3)] obtain b r2 acc2 where b: "b \<le> 255" "r1 = dec b @ CHR ''.'' # r2"
    and "parseIpv4_loop (Suc (Suc 0)) acc2 r2 = Some w" by blast
  from parseIpv4_step [OF this(3)] obtain c r3 acc3 where c: "c \<le> 255" "r2 = dec c @ CHR ''.'' # r3"
    and "parseIpv4_loop (Suc 0) acc3 r3 = Some w" by blast
  from parseIpv4_last [OF this(3)] obtain d where d: "d \<le> 255" "r3 = dec d" by blast
  from a b c d have eq: "s = quad_text a b c d" by (simp add: quad_text_def)
  with s parseIpv4_quad [OF a(1) b(1) c(1) d(1)] parseIp_quad [OF a(1) b(1) c(1) d(1)]
  show "parseIp s = Inr w" by simp
qed

text \<open>
  The two IPv4 parsers of the code base, the splitting one of the pool allocator and the
  scanning one of the per-user networks, accept the same texts and read the same address.
\<close>

theorem ipv4_parsers_agree:
  "parseIpv4 s = Some w \<longleftrightarrow> parseIp s = Inr w"
proof
  assume "parseIp s = Inr w"
  then show "parseIpv4 s = Some w" by (rule parseIp_Inr_cases) (simp add: parseIpv4_quad)
qed (rule parseIpv4_imp_parseIp)


section \<open>Sub-networks of different operators are disjoint\<close>

lemma mask32: "(0xFFFFFFFF :: u32) = mask 32"
  by (simp add: mask_eq_exp_minus_1)

lemma bit_masterMask: "p \<le> 32 \<Longrightarrow> bit (masterMask p) i \<longleftrightarrow> 32 - p \<le> i \<and> i < 32"
  by (auto simp: masterMask_def mask32 bit_simps)

lemma bit_slot:
  "uid < 2 ^ b \<Longrightarrow> bit (push_bit sh (word_of_nat uid :: u32)) i \<Longrightarrow> sh \<le> i \<and> i < sh + b"
  by (auto simp: bit_simps) (metis bit_take_bit_iff le_add_diff_inverse nat_add_left_cancel_less take_bit_nat_eq_self)

definition sub_base :: "u32 \<Rightarrow> nat \<Rightarrow> nat \<Rightarrow> nat \<Rightarrow> u32" where
  "sub_base a p n uid = (a AND masterMask p) OR push_bit (32 - n) (word_of_nat uid)"

lemma sub_base_in_master:
  assumes "p < n" "n \<le> 32" "uid < 2 ^ (n - p)"
  shows "sub_base a p n uid AND masterMask p = a AND masterMask p"
    and "sub_base a p n uid AND masterMask n = sub_base a p n uid"
proof -
  have sl: "bit (push_bit (32 - n) (word_of_nat uid :: u32)) i \<Longrightarrow> 32 - n \<le> i \<and> i < 32 - p" for i
    using bit_slot [OF assms(3), of "32 - n" i] assms by auto
  show "sub_base a p n uid AND masterMask p = a AND masterMask p"
  proof (rule bit_word_eqI)
    fix i assume "i < LENGTH(32)"
    then show "bit (sub_base a p n uid AND masterMask p) i = bit (a AND masterMask p) i"
      using assms sl [of i] by (auto simp: sub_base_def bit_and_iff bit_or_iff bit_masterMask)
  qed
  show "sub_base a p n uid AND masterMask n = sub_base a p n uid"
  proof (rule bit_word_eqI)
    fix i assume "i < LENGTH(32)"
    then show "bit (sub_base a p n uid AND masterMask n) i = bit (sub_base a p n uid) i"
      using assms sl [of i] by (auto simp: sub_base_def bit_and_iff bit_or_iff bit_masterMask)
  qed
qed

lemma sub_base_inj:
  assumes "p < n" "n \<le> 32" "u < 2 ^ (n - p)" "v < 2 ^ (n - p)" "sub_base a p n u = sub_base a p n v"
  shows "u = v"
proof (rule bit_eqI)
  fix k
  show "bit u k = bit v k"
  proof (cases "k < n - p")
    case True
    let ?i = "k + (32 - n)"
    have i: "?i < 32 - p" "?i < 32" using True assms(1,2) by auto
    then have "bit (sub_base a p n w) ?i = bit w k" for w
      using assms(1,2) by (auto simp: sub_base_def bit_and_iff bit_or_iff bit_masterMask bit_simps)
    with assms(5) show ?thesis by metis
  next
    case False
    then have "\<not> bit u k" "\<not> bit v k"
      using assms(3,4) by (metis bit_take_bit_iff take_bit_nat_eq_self)+
    then show ?thesis by simp
  qed
qed

lemma composeIpv4_Inr:
  assumes "composeIpv4 m n u = Inr c"
  shows "\<exists>addr p a. splitCidr m = Inr (addr, p) \<and> parseIpv4 addr = Some a \<and> p < n \<and> n \<le> 32 \<and> u < 2 ^ (n - p) \<and>
    c = formatIpv4 (sub_base a p n u) @ ''/'' @ dec n"
  using assms by (auto simp: composeIpv4_def sub_base_def Let_def not_le split: sum.splits if_splits option.splits)

text \<open>
  Network isolation of operators. Two successful compositions from the same configuration
  give networks inside the master network, aligned to the sub-prefix, and for different uids no
  address belongs to both; so one operator's addresses are never another's.
\<close>

theorem subcidr4_disjoint:
  assumes "composeIpv4 m n u = Inr c" "composeIpv4 m n v = Inr d"
  shows "\<exists>a p bu bv. splitCidr m = Inr (formatIp a, p) \<and>
    c = formatIpv4 bu @ ''/'' @ dec n \<and> d = formatIpv4 bv @ ''/'' @ dec n \<and>
    bu AND masterMask p = a AND masterMask p \<and> bu AND masterMask n = bu \<and> bv AND masterMask n = bv \<and>
    (u \<noteq> v \<longrightarrow> (\<forall>x. \<not> (x AND masterMask n = bu \<and> x AND masterMask n = bv)))"
proof -
  from composeIpv4_Inr [OF assms(1)] obtain addr p a where u: "splitCidr m = Inr (addr, p)" "parseIpv4 addr = Some a"
    "p < n" "n \<le> 32" "u < 2 ^ (n - p)" "c = formatIpv4 (sub_base a p n u) @ ''/'' @ dec n" by blast
  with composeIpv4_Inr [OF assms(2)] have v: "v < 2 ^ (n - p)" "d = formatIpv4 (sub_base a p n v) @ ''/'' @ dec n" by auto
  have "parseIp addr = Inr a" using parseIpv4_imp_parseIp [OF u(2)] .
  then have addr: "addr = formatIp a" by (simp add: parseIp_isFormat)
  show ?thesis
    using u v addr sub_base_in_master [OF u(3-5), of a] sub_base_in_master [OF u(3,4) v(1), of a]
      sub_base_inj [OF u(3,4) u(5) v(1)]
    by (intro exI [of _ a] exI [of _ p] exI [of _ "sub_base a p n u"] exI [of _ "sub_base a p n v"]) auto
qed

lemma parseIpv4_10_66: "parseIpv4 ''10.66.0.0'' = Some 0x0A420000"
  using parseIpv4_quad [of 10 66 0 0] by (simp add: quad_text_def dec.simps quad_def octet_word_def)

lemma splitCidr_10_66: "splitCidr ''10.66.0.0/16'' = Inr (''10.66.0.0'', 16)"
proof -
  have "cut_at (CHR ''/'') ''10.66.0.0/16'' = Some (''10.66.0.0'', ''16'')" by simp
  moreover have "plen_loop 0 ''16'' = Inr 16" by (simp add: is_digit_def digit_val_def)
  ultimately show ?thesis by (simp add: splitCidr_def del: cut_at.simps plen_loop.simps)
qed

lemma composeIpv4_10_66:
  "uid < 256 \<Longrightarrow> composeIpv4 ''10.66.0.0/16'' 24 uid = Inr (formatIpv4 (sub_base 0x0A420000 16 24 uid) @ ''/'' @ dec 24)"
  by (simp add: composeIpv4_def splitCidr_10_66 parseIpv4_10_66 sub_base_def Let_def)

theorem subcidr4_disjoint_witness:
  "\<exists>bu bv. composeIpv4 ''10.66.0.0/16'' 24 5 = Inr (formatIpv4 bu @ ''/'' @ dec 24) \<and>
     composeIpv4 ''10.66.0.0/16'' 24 6 = Inr (formatIpv4 bv @ ''/'' @ dec 24) \<and>
     (\<forall>x. \<not> (x AND masterMask 24 = bu \<and> x AND masterMask 24 = bv))"
proof -
  have u: "composeIpv4 ''10.66.0.0/16'' 24 5 = Inr (formatIpv4 (sub_base 0x0A420000 16 24 5) @ ''/'' @ dec 24)"
    and v: "composeIpv4 ''10.66.0.0/16'' 24 6 = Inr (formatIpv4 (sub_base 0x0A420000 16 24 6) @ ''/'' @ dec 24)"
    by (rule composeIpv4_10_66, simp)+
  from subcidr4_disjoint [OF u v] obtain bu bv where
    "formatIpv4 (sub_base 0x0A420000 16 24 5) @ ''/'' @ dec 24 = formatIpv4 bu @ ''/'' @ dec 24"
    "formatIpv4 (sub_base 0x0A420000 16 24 6) @ ''/'' @ dec 24 = formatIpv4 bv @ ''/'' @ dec 24"
    "\<forall>x. \<not> (x AND masterMask 24 = bu \<and> x AND masterMask 24 = bv)" by auto
  with u v show ?thesis by (intro exI [of _ bu] exI [of _ bv]) simp
qed

end
