(* ===== verification/Handlers.thy ===== *)
theory Handlers
  imports JsonWire Passwd PerUser
begin

text \<open>
  The request handlers of crated, \<^verbatim>\<open>daemon/privops_handlers.cpp\<close> (FreeBSD branches). What a handler
  does to the host is the list of operations it performs, in order: command lines handed to
  \<^verbatim>\<open>Util::execCommand\<close>, mounts, and the calls of the \<^verbatim>\<open>ZfsOps\<close>, \<^verbatim>\<open>IfconfigOps\<close>, \<^verbatim>\<open>PfctlOps\<close> and
  \<^verbatim>\<open>IpfwOps\<close> wrappers. The host is a record of functions: which jails run, how a path resolves, and
  how an operation ends, given the operations this request has performed before it. A handler stops
  at the first operation that fails. \<^verbatim>\<open>writeError\<close> is the text of the exception of a registry whose
  file cannot be written.
\<close>

section \<open>The host\<close>

record jail_info =
  ji_jid :: int
  ji_path :: string
  ji_dying :: bool

record jail_exec =
  jx_jid :: int
  jx_argv :: "string list"
  jx_env :: "string list"
  jx_switchUser :: bool
  jx_user :: User
  jx_groups :: "nat list"

datatype os_op =
    Exec "string list"
  | JailDataset int string
  | UnjailDataset int string
  | Nmount "(string \<times> string) list" bool
  | Unmount string bool
  | MoveToVnet string int
  | MoveFromVnet string string
  | BridgeAdd string string
  | BridgeDel string string
  | DestroyInterface string
  | PfAddRules string string
  | PfFlushRules string
  | IpfwDeleteRule nat
  | IfaceUp string
  | IfaceDisableOffload string
  | IfaceInet string string int
  | IfaceInet6 string string int
  | IfaceMac string string
  | CreateNamedInterface string
  | CreateEpairOp
  | EnsureUserRootOp nat
  | ExecInJailOp jail_exec
  | AppendAudit nat string

datatype realpath_result = Resolved string | NotFound | ResolveError string

record host =
  getJailByJid :: "int \<Rightarrow> jail_info option"
  realpath :: "string \<Rightarrow> realpath_result"
  readJailEtcFile :: "string \<Rightarrow> string \<Rightarrow> string option"
  outcome :: "os_op list \<Rightarrow> os_op \<Rightarrow> string res"
  newEpair :: "string \<times> string"
  childPid :: int
  writeError :: string

text \<open>\<^verbatim>\<open>(int)r.jid\<close> for a 64-bit or an unsigned 32-bit value.\<close>

definition as_int :: "int \<Rightarrow> int" where
  "as_int n = (n + 2 ^ 31) mod 2 ^ 32 - 2 ^ 31"

type_synonym effect = "os_op list \<times> DispatchResult"

definition ok :: "string \<Rightarrow> DispatchResult" where
  "ok b = \<lparr>dr_status = 200, dr_body = b\<rparr>"

definition fail :: "nat \<Rightarrow> string \<Rightarrow> string \<Rightarrow> DispatchResult" where
  "fail st kind reason = \<lparr>dr_status = st, dr_body = formatHandlerError kind reason\<rparr>"

fun exec_seq :: "host \<Rightarrow> os_op list \<Rightarrow> os_op list \<Rightarrow> os_op list \<times> err option" where
  "exec_seq h past [] = (past, None)"
| "exec_seq h past (p # ps) =
     (case outcome h past p of
        Inl e \<Rightarrow> (past @ [p], Some e)
      | Inr _ \<Rightarrow> exec_seq h (past @ [p]) ps)"

text \<open>The operations inside one \<^verbatim>\<open>try\<close>; an exception becomes a 500 with the handler's error kind.\<close>

definition attempt :: "host \<Rightarrow> os_op list \<Rightarrow> string \<Rightarrow> string \<Rightarrow> effect" where
  "attempt h ops kind success =
     (case exec_seq h [] ops of
        (tr, None) \<Rightarrow> (tr, ok success)
      | (tr, Some e) \<Rightarrow> (tr, fail 500 kind e))"

definition nonCanonicalReason :: "host \<Rightarrow> string \<Rightarrow> string \<Rightarrow> err" where
  "nonCanonicalReason h p what =
     (case realpath h p of
        NotFound \<Rightarrow> []
      | ResolveError e \<Rightarrow> what @ '': cannot resolve '' @ quoted p @ '': '' @ e
      | Resolved q \<Rightarrow>
        if p \<noteq> q then what @ '': '' @ quoted p @ '' is not canonical (resolves to '' @ quoted q @
          ''; symlink or non-normalised component)''
        else [])"

definition canonical :: "host \<Rightarrow> string \<Rightarrow> string \<Rightarrow> effect \<Rightarrow> effect" where
  "canonical h p what rest =
     (let e = nonCanonicalReason h p what in
      if e \<noteq> [] then ([], fail 400 ''path_not_canonical'' e) else rest)"

definition with_jail :: "host \<Rightarrow> int \<Rightarrow> effect \<Rightarrow> effect" where
  "with_jail h jid rest =
     (case getJailByJid h (as_int jid) of
        None \<Rightarrow> ([], fail 404 ''jail_not_found'' (''no running jail with jid '' @ dec_int jid))
      | Some _ \<Rightarrow> rest)"

section \<open>RCTL and ZFS\<close>

definition handleSetRctl :: "host \<Rightarrow> SetRctlReq \<Rightarrow> effect" where
  "handleSetRctl h r =
     with_jail h (sr_jid r)
       (attempt h [Exec (buildSetArgv (as_int (sr_jid r)) \<lparr>rp_key = sr_key r, rp_value = sr_rawValue r\<rparr>)]
          ''exec_failed'' (formatSetRctlSuccess (sr_jid r) (sr_key r) (sr_rawValue r)))"

definition handleClearRctl :: "host \<Rightarrow> ClearRctlReq \<Rightarrow> effect" where
  "handleClearRctl h r =
     with_jail h (cr_jid r)
       (attempt h [Exec (buildClearArgv (as_int (cr_jid r)) (cr_key r))]
          ''exec_failed'' (formatClearRctlSuccess (cr_jid r) (cr_key r)))"

definition handleAttachZfs :: "host \<Rightarrow> AttachZfsReq \<Rightarrow> effect" where
  "handleAttachZfs h r =
     with_jail h (az_jid r)
       (attempt h [JailDataset (as_int (az_jid r)) (az_dataset r)]
          ''exec_failed'' (formatAttachZfsSuccess (az_jid r) (az_dataset r)))"

definition handleDetachZfs :: "host \<Rightarrow> DetachZfsReq \<Rightarrow> effect" where
  "handleDetachZfs h r =
     with_jail h (dz_jid r)
       (attempt h [UnjailDataset (as_int (dz_jid r)) (dz_dataset r)]
          ''exec_failed'' (formatDetachZfsSuccess (dz_jid r) (dz_dataset r)))"

section \<open>Mounts\<close>

definition handleMountNullfs :: "host \<Rightarrow> MountNullfsReq \<Rightarrow> effect" where
  "handleMountNullfs h r =
     canonical h (mn_target r) ''target''
     (canonical h (mn_source r) ''source''
     (attempt h [Nmount [(''fstype'', ''nullfs''), (''fspath'', mn_target r), (''target'', mn_source r)] (mn_readOnly r)]
        ''nmount_failed'' (formatMountNullfsSuccess (mn_source r) (mn_target r) (mn_readOnly r))))"

definition handleUnmountNullfs :: "host \<Rightarrow> UnmountNullfsReq \<Rightarrow> effect" where
  "handleUnmountNullfs h r =
     canonical h (un_target r) ''target''
     (attempt h [Unmount (un_target r) (un_force r)] ''unmount_failed'' (formatUnmountNullfsSuccess (un_target r)))"

definition opt_pair :: "string \<Rightarrow> string \<Rightarrow> (string \<times> string) list" where
  "opt_pair k v = (if v = [] then [] else [(k, v)])"

definition handleMountTmpfs :: "host \<Rightarrow> MountTmpfsReq \<Rightarrow> effect" where
  "handleMountTmpfs h r =
     canonical h (mt_target r) ''target''
     (attempt h [Nmount ([(''fstype'', ''tmpfs''), (''fspath'', mt_target r)] @ opt_pair ''size'' (mt_size r) @
          opt_pair ''uid'' (mt_uid r) @ opt_pair ''gid'' (mt_gid r) @ opt_pair ''mode'' (mt_mode r)) False]
        ''nmount_failed'' (formatMountTmpfsSuccess (mt_target r)))"

section \<open>Interfaces\<close>

definition computeEpairPair :: "string \<Rightarrow> string" where
  "computeEpairPair ifname =
     (if length ifname < 7 then []
      else if \<not> starts_with ''epair'' ifname then []
      else if last ifname \<noteq> CHR ''a'' \<and> last ifname \<noteq> CHR ''b'' then []
      else if \<not> list_all is_digit (butlast (drop 5 ifname)) then []
      else butlast ifname @ [if last ifname = CHR ''a'' then CHR ''b'' else CHR ''a''])"

definition jexec_ifconfig :: "int \<Rightarrow> string list \<Rightarrow> os_op" where
  "jexec_ifconfig jid args = Exec ([''/usr/sbin/jexec'', dec_int jid, ''/sbin/ifconfig''] @ args)"

definition handleConfigureIface :: "host \<Rightarrow> ConfigureIfaceReq \<Rightarrow> effect" where
  "handleConfigureIface h r =
     with_jail h (ci_jid r)
     (let hostHalf = computeEpairPair (ci_ifname r);
          cfg = (if ci_ipv4Cidr r = [] then [] else [jexec_ifconfig (ci_jid r) [ci_ifname r, ''inet'', ci_ipv4Cidr r]]) @
                (if ci_ipv6Cidr r = [] then [] else [jexec_ifconfig (ci_jid r) [ci_ifname r, ''inet6'', ci_ipv6Cidr r]]) @
                (if ci_macAddr r = [] then [] else [jexec_ifconfig (ci_jid r) [ci_ifname r, ''ether'', ci_macAddr r]])
      in if ci_bridge r \<noteq> [] \<and> hostHalf = []
         then ([], fail 400 ''non_epair_with_bridge''
                (''bridge attach requires an epair-shaped ifname (got '' @ quoted (ci_ifname r) @ '')''))
         else attempt h
           ([MoveToVnet (ci_ifname r) (as_int (ci_jid r))] @ cfg @
            (if cfg = [] then [] else [jexec_ifconfig (ci_jid r) [ci_ifname r, ''up'']]) @
            (if ci_bridge r = [] then [] else [BridgeAdd (ci_bridge r) hostHalf]))
           ''exec_failed''
           (formatConfigureIfaceSuccess (ci_jid r) (ci_ifname r) (ci_bridge r) (ci_ipv4Cidr r) (ci_ipv6Cidr r) (ci_macAddr r)))"

definition handleTeardownIface :: "host \<Rightarrow> TeardownIfaceReq \<Rightarrow> effect" where
  "handleTeardownIface h r =
     attempt h [DestroyInterface (ti_ifname r)] ''destroy_failed'' (formatTeardownIfaceSuccess (ti_ifname r))"

definition handleSetIfaceUp :: "host \<Rightarrow> SetIfaceUpReq \<Rightarrow> effect" where
  "handleSetIfaceUp h r = attempt h [IfaceUp (su_ifname r)] ''ifconfig_failed'' (formatSetIfaceUpSuccess (su_ifname r))"

definition handleDisableIfaceOffload :: "host \<Rightarrow> DisableIfaceOffloadReq \<Rightarrow> effect" where
  "handleDisableIfaceOffload h r =
     attempt h [IfaceDisableOffload (do_ifname r)] ''ifconfig_failed'' (formatDisableIfaceOffloadSuccess (do_ifname r))"

definition handleBridgeAddMember :: "host \<Rightarrow> BridgeAddMemberReq \<Rightarrow> effect" where
  "handleBridgeAddMember h r =
     attempt h [BridgeAdd (ba_bridge r) (ba_member r)] ''ifconfig_failed''
       (formatBridgeAddMemberSuccess (ba_bridge r) (ba_member r))"

definition handleBridgeDelMember :: "host \<Rightarrow> BridgeDelMemberReq \<Rightarrow> effect" where
  "handleBridgeDelMember h r =
     attempt h [BridgeDel (bd_bridge r) (bd_member r)] ''ifconfig_failed''
       (formatBridgeDelMemberSuccess (bd_bridge r) (bd_member r))"

definition handleSetIfaceInetAddr :: "host \<Rightarrow> SetIfaceInetAddrReq \<Rightarrow> effect" where
  "handleSetIfaceInetAddr h r =
     attempt h
       [if sa_inet6 r then IfaceInet6 (sa_ifname r) (sa_addr r) (as_int (int (sa_prefixLen r)))
        else IfaceInet (sa_ifname r) (sa_addr r) (as_int (int (sa_prefixLen r)))]
       ''ifconfig_failed'' (formatSetIfaceInetAddrSuccess (sa_ifname r) (sa_addr r) (sa_prefixLen r))"

definition handleCreateEpair :: "host \<Rightarrow> effect" where
  "handleCreateEpair h =
     attempt h [CreateEpairOp] ''ifconfig_failed'' (formatCreateEpairSuccess (fst (newEpair h)) (snd (newEpair h)))"

definition handleReclaimIfaceFromVnet :: "host \<Rightarrow> ReclaimIfaceFromVnetReq \<Rightarrow> effect" where
  "handleReclaimIfaceFromVnet h r =
     attempt h [MoveFromVnet (rv_ifname r) (rv_jailName r)] ''ifconfig_failed''
       (formatReclaimIfaceFromVnetSuccess (rv_ifname r) (rv_jailName r))"

definition handleSetIfaceMac :: "host \<Rightarrow> SetIfaceMacReq \<Rightarrow> effect" where
  "handleSetIfaceMac h r =
     attempt h [IfaceMac (sm_ifname r) (sm_mac r)] ''ifconfig_failed'' (formatSetIfaceMacSuccess (sm_ifname r) (sm_mac r))"

definition handleCreateBridge :: "host \<Rightarrow> CreateBridgeReq \<Rightarrow> effect" where
  "handleCreateBridge h r =
     attempt h [CreateNamedInterface (cb_name r), IfaceUp (cb_name r)] ''ifconfig_failed''
       (formatCreateBridgeSuccess (cb_name r))"

section \<open>Firewall\<close>

definition handleAddPfRule :: "host \<Rightarrow> AddPfRuleReq \<Rightarrow> effect" where
  "handleAddPfRule h r =
     attempt h [PfAddRules (ap_anchor r) (ap_ruleText r)] ''pfctl_failed'' (formatAddPfRuleSuccess (ap_anchor r) (ap_ruleText r))"

definition handleRemovePfRule :: "host \<Rightarrow> RemovePfRuleReq \<Rightarrow> effect" where
  "handleRemovePfRule h r =
     attempt h [PfFlushRules (rp_anchor r)] ''pfctl_failed'' (formatRemovePfRuleSuccess (rp_anchor r))"

definition handleFlushPfAnchor :: "host \<Rightarrow> FlushPfAnchorReq \<Rightarrow> effect" where
  "handleFlushPfAnchor h r =
     attempt h [PfFlushRules (fa_anchor r)] ''pfctl_failed'' (formatFlushPfAnchorSuccess (fa_anchor r))"

definition handleAddIpfwRule :: "host \<Rightarrow> AddIpfwRuleReq \<Rightarrow> effect" where
  "handleAddIpfwRule h r =
     attempt h
       [Exec ([''/sbin/ipfw'', ''add'', dec (ai_number r), ''set'', dec (ai_set r), ai_action r] @ ws_tokens (ai_body r))]
       ''ipfw_failed'' (formatAddIpfwRuleSuccess (ai_set r) (ai_number r) (ai_action r) (ai_body r))"

definition handleRemoveIpfwRule :: "host \<Rightarrow> RemoveIpfwRuleReq \<Rightarrow> effect" where
  "handleRemoveIpfwRule h r =
     attempt h [IpfwDeleteRule (ri_number r)] ''ipfw_failed'' (formatRemoveIpfwRuleSuccess (ri_set r) (ri_number r))"

definition handleConfigureIpfwNat :: "host \<Rightarrow> ConfigureIpfwNatReq \<Rightarrow> effect" where
  "handleConfigureIpfwNat h r =
     attempt h [Exec ([''/sbin/ipfw'', ''nat'', dec (cn_number r), ''config''] @ ws_tokens (cn_config r))]
       ''ipfw_failed'' (formatConfigureIpfwNatSuccess (cn_number r))"

definition handleDeleteIpfwNat :: "host \<Rightarrow> DeleteIpfwNatReq \<Rightarrow> effect" where
  "handleDeleteIpfwNat h r =
     attempt h [Exec [''/sbin/ipfw'', ''nat'', dec (dn_number r), ''delete'']] ''ipfw_failed''
       (formatDeleteIpfwNatSuccess (dn_number r))"

section \<open>Jails\<close>

definition create_argv :: "CreateJailReq \<Rightarrow> string list" where
  "create_argv r =
     [''/usr/sbin/jail'', ''-c'', ''name='' @ cj_name r, ''path='' @ cj_path r] @
     (if cj_hostname r = [] then [] else [''host.hostname='' @ cj_hostname r]) @
     (if cj_vnet r then [''vnet''] else []) @ ws_tokens (cj_parameters r) @ [''persist'']"

definition handleCreateJail :: "host \<Rightarrow> CreateJailReq \<Rightarrow> effect" where
  "handleCreateJail h r =
     canonical h (cj_path r) ''path''
     (attempt h [Exec (create_argv r)] ''jail_failed'' (formatCreateJailSuccess (cj_name r) (cj_path r)))"

definition handleDestroyJail :: "host \<Rightarrow> DestroyJailReq \<Rightarrow> effect" where
  "handleDestroyJail h r =
     attempt h [Exec [''/usr/sbin/jail'', if dj_force r then ''-R'' else ''-r'', dj_name r]] ''jail_failed''
       (formatDestroyJailSuccess (dj_name r))"

definition handleEnsureUserRoot :: "host \<Rightarrow> nat \<Rightarrow> effect" where
  "handleEnsureUserRoot h peerUid =
     (if peerUid = 0
      then ([], fail 400 ''no_peer_uid''
        (''ensure_user_root needs the libnv transport (peer uid > 0); '' @ ''root uses /var/run/crate directly''))
      else attempt h [EnsureUserRootOp peerUid] ''mkdir_failed'' (formatEnsureUserRootSuccess peerUid (perUserRoot peerUid)))"

definition handleSetLoginclassRctl :: "host \<Rightarrow> SetLoginclassRctlReq \<Rightarrow> effect" where
  "handleSetLoginclassRctl h r =
     attempt h [Exec [''/usr/bin/rctl'', ''-a'', buildRule (''loginclass:'' @ sl_loginclass r) (sl_key r) (sl_rawValue r)]]
       ''exec_failed'' (formatSetLoginclassRctlSuccess (sl_loginclass r) (sl_key r) (sl_rawValue r))"

definition handleClearLoginclassRctl :: "host \<Rightarrow> ClearLoginclassRctlReq \<Rightarrow> effect" where
  "handleClearLoginclassRctl h r =
     attempt h [Exec [''/usr/bin/rctl'', ''-r'', ''loginclass:'' @ cl_loginclass r @ '':'' @ cl_key r @ '':deny'']]
       ''exec_failed'' (formatClearLoginclassRctlSuccess (cl_loginclass r) (cl_key r))"

definition handleQueryJailRctl :: "host \<Rightarrow> QueryJailRctlReq \<Rightarrow> effect" where
  "handleQueryJailRctl h r =
     (let p = Exec [''/usr/bin/rctl'', if qj_limits r then ''-h'' else ''-u'', ''jail:'' @ dec (qj_jid r)] in
      case outcome h [] p of
        Inl e \<Rightarrow> ([p], fail 500 ''rctl_failed'' e)
      | Inr output \<Rightarrow> ([p], ok (formatQueryJailRctlSuccess (qj_jid r) output)))"

definition handleSetJailCpuset :: "host \<Rightarrow> SetJailCpusetReq \<Rightarrow> effect" where
  "handleSetJailCpuset h r =
     attempt h [Exec [''/usr/bin/cpuset'', ''-l'', sc_cpuset r, ''-j'', dec (sc_jid r)]] ''cpuset_failed''
       (formatSetJailCpusetSuccess (sc_jid r) (sc_cpuset r))"

definition handleSignalJail :: "host \<Rightarrow> SignalJailReq \<Rightarrow> effect" where
  "handleSignalJail h r =
     attempt h [Exec [''/usr/sbin/jexec'', dec (sj_jid r), ''/bin/kill'', ''-'' @ sj_signal r, ''-1'']] ''jexec_failed''
       (formatSignalJailSuccess (sj_jid r) (sj_signal r))"

section \<open>devfs\<close>

definition devfs_m :: "string \<Rightarrow> string list \<Rightarrow> os_op" where
  "devfs_m mountPath args = Exec ([''/sbin/devfs'', ''-m'', mountPath] @ args)"

definition handleApplyDevfsRuleset :: "host \<Rightarrow> ApplyDevfsRulesetReq \<Rightarrow> effect" where
  "handleApplyDevfsRuleset h r =
     canonical h (ad_mountPath r) ''mount_path''
     (attempt h [devfs_m (ad_mountPath r) [''ruleset'', dec (ad_ruleset r)], devfs_m (ad_mountPath r) [''rule'', ''applyset'']]
        ''devfs_failed'' (formatApplyDevfsRulesetSuccess (ad_mountPath r) (ad_ruleset r)))"

definition handleAddDevfsUnhideRule :: "host \<Rightarrow> AddDevfsUnhideRuleReq \<Rightarrow> effect" where
  "handleAddDevfsUnhideRule h r =
     canonical h (au_mountPath r) ''mount_path''
     (attempt h
        [devfs_m (au_mountPath r) [''rule'', ''add'', ''path'', au_pathPattern r, ''unhide''],
         devfs_m (au_mountPath r) [''rule'', ''applyset'']]
        ''devfs_failed'' (formatAddDevfsUnhideRuleSuccess (au_mountPath r) (au_pathPattern r)))"

text \<open>The failure of the first command, which deletes a stale ruleset, is ignored.\<close>

definition handleApplyDevfsRules :: "host \<Rightarrow> ApplyDevfsRulesReq \<Rightarrow> effect" where
  "handleApplyDevfsRules h r =
     canonical h (ar_mountPath r) ''mount_path''
     (let rs = dec (ar_ruleset r);
          del = Exec [''/sbin/devfs'', ''rule'', ''-s'', rs, ''delset''];
          adds = map (\<lambda>rule. Exec ([''/sbin/devfs'', ''rule'', ''-s'', rs, ''add''] @
                   filter (\<lambda>tok. tok \<noteq> []) (split_on (CHR '' '') rule))) (ar_rules r);
          fin = [devfs_m (ar_mountPath r) [''ruleset'', rs], devfs_m (ar_mountPath r) [''rule'', ''applyset'']]
      in case exec_seq h [del] (adds @ fin) of
           (tr, None) \<Rightarrow> (tr, ok (formatApplyDevfsRulesSuccess (ar_mountPath r) (ar_ruleset r) (length (ar_rules r))))
         | (tr, Some e) \<Rightarrow> (tr, fail 500 ''devfs_failed'' e))"

section \<open>exec\_in\_jail\<close>

record ExecIo =
  stdinFd :: int
  stdoutFd :: int
  stderrFd :: int

definition kPath :: string where
  "kPath = ''PATH=/sbin:/bin:/usr/sbin:/usr/bin:/usr/local/sbin:/usr/local/bin''"

text \<open>
  The user the command runs as, read from the jail's own files: \<^verbatim>\<open>master.passwd\<close>, else \<^verbatim>\<open>passwd\<close>. A
  root without an entry keeps uid 0; any other user has to be found and must not have uid 0.
\<close>

definition resolve_user :: "host \<Rightarrow> string \<Rightarrow> string \<Rightarrow> DispatchResult + User" where
  "resolve_user h root name =
     (let switchUser = (name \<noteq> ''root'');
          content = (case readJailEtcFile h root ''etc/master.passwd'' of
                       Some c \<Rightarrow> Some c
                     | None \<Rightarrow> readJailEtcFile h root ''etc/passwd'');
          found = (case content of None \<Rightarrow> None | Some c \<Rightarrow> lookupUser c name) in
      case found of
        Some u \<Rightarrow>
          if switchUser \<and> u_uid u = 0
          then Inl (fail 403 ''user_is_root'' (''user '' @ quoted (u_name u) @ '' maps to uid 0 in the jail''))
          else Inr u
      | None \<Rightarrow>
          if \<not> switchUser then Inr (no_user\<lparr>u_name := ''root''\<rparr>)
          else if content \<noteq> None
          then Inl (fail 404 ''user_not_found'' (''user '' @ quoted name @ '' is not in the jail'' @ [CHR 0x27] @ ''s passwd file''))
          else Inl (fail 404 ''user_not_found'' ''jail has no readable etc/master.passwd''))"

definition exec_groups :: "host \<Rightarrow> string \<Rightarrow> User \<Rightarrow> nat list" where
  "exec_groups h root u =
     (case readJailEtcFile h root ''etc/group'' of
        Some g \<Rightarrow> supplementaryGroups g (u_name u) (u_gid u) 64
      | None \<Rightarrow> [u_gid u])"

definition exec_child :: "host \<Rightarrow> ExecInJailReq \<Rightarrow> string \<Rightarrow> User \<Rightarrow> jail_exec" where
  "exec_child h r root u0 =
     (let u = u0\<lparr>u_home := (if u_home u0 = [] then ''/'' else u_home u0),
                 u_shell := (if u_shell u0 = [] then ''/bin/sh'' else u_shell u0)\<rparr> in
      \<lparr>jx_jid = as_int (int (ej_jid r)), jx_argv = ej_argv r,
       jx_env = [kPath, ''HOME='' @ u_home u, ''SHELL='' @ u_shell u, ''USER='' @ u_name u, ''LOGNAME='' @ u_name u] @
         (if ej_term r = [] then [] else [''TERM='' @ ej_term r]),
       jx_switchUser = (ej_user r \<noteq> [] \<and> ej_user r \<noteq> ''root''), jx_user = u, jx_groups = exec_groups h root u0\<rparr>)"

definition handleExecInJail :: "host \<Rightarrow> ExecInJailReq \<Rightarrow> ExecIo \<Rightarrow> effect" where
  "handleExecInJail h r io =
     (if stdinFd io < 0 \<or> stdoutFd io < 0 \<or> stderrFd io < 0
      then ([], fail 400 ''missing_descriptors''
        (''exec_in_jail needs stdin/stdout/stderr descriptors '' @ ''(libnv transport only)''))
      else let gone = ([], fail 404 ''jail_not_found'' (''jid '' @ dec (ej_jid r) @ '' is not a running jail'')) in
        case getJailByJid h (as_int (int (ej_jid r))) of
          None \<Rightarrow> gone
        | Some ji \<Rightarrow>
          if ji_dying ji then gone
          else case resolve_user h (ji_path ji) (if ej_user r = [] then ''root'' else ej_user r) of
            Inl e \<Rightarrow> ([], e)
          | Inr u \<Rightarrow>
            attempt h [ExecInJailOp (exec_child h r (ji_path ji) u)] ''pdfork_failed''
              (formatExecInJailSuccess (ej_jid r) (childPid h)))"

section \<open>Firewall leases\<close>

text \<open>
  The two lease verbs act on the daemon's lease registry (absent before it is set up), with its
  sysctl accessors and the outcome of the file write as arguments. A write that fails is an
  exception after the table has changed.
\<close>

definition handleAcquireFwLease :: "host \<Rightarrow> sysctl_io \<Rightarrow> bool \<Rightarrow> AcquireFwLeaseReq \<Rightarrow> fw_world option \<Rightarrow> DispatchResult \<times> fw_world option" where
  "handleAcquireFwLease h io wr r reg =
     (case reg of
        None \<Rightarrow> (fail 503 ''no_fw_lease_registry'' ''crated has no firewall-lease registry'', reg)
      | Some w \<Rightarrow>
        let gone = fail 404 ''jail_not_found'' (''jid '' @ dec (af_jid r) @ '' is not a running jail'') in
        case getJailByJid h (as_int (int (af_jid r))) of
          None \<Rightarrow> (gone, reg)
        | Some ji \<Rightarrow>
          if ji_dying ji then (gone, reg)
          else case fw_registry_acquire io wr (af_jid r) (af_slot r) (af_fwd4 r) (af_fwd6 r) w of
            (None, w') \<Rightarrow> (fail 500 ''fw_lease_failed'' (writeError h), Some w')
          | (Some (Inl e), w') \<Rightarrow> (fail 409 ''fw_lease_exhausted'' e, Some w')
          | (Some (Inr res), w') \<Rightarrow>
            (ok (formatAcquireFwLeaseSuccess (af_jid r) (r_slot res) (fwd4Users res) (fwd6Users res)), Some w'))"

definition handleReleaseFwLease :: "host \<Rightarrow> sysctl_io \<Rightarrow> bool \<Rightarrow> ReleaseFwLeaseReq \<Rightarrow> fw_world option \<Rightarrow> DispatchResult \<times> fw_world option" where
  "handleReleaseFwLease h io wr r reg =
     (case reg of
        None \<Rightarrow> (fail 503 ''no_fw_lease_registry'' ''crated has no firewall-lease registry'', reg)
      | Some w \<Rightarrow>
        (case fw_registry_release io wr (rf_jid r) w of
           (None, w') \<Rightarrow> (fail 500 ''fw_lease_failed'' (writeError h), Some w')
         | (Some res, w') \<Rightarrow>
           (ok (formatReleaseFwLeaseSuccess (rf_jid r) (released res) (fwd4Users res) (fwd6Users res)), Some w')))"

definition maybeReleaseFwLease :: "sysctl_io \<Rightarrow> bool \<Rightarrow> verb \<Rightarrow> nat \<Rightarrow> nat \<Rightarrow> fw_world option \<Rightarrow> fw_world option" where
  "maybeReleaseFwLease io wr v st preDestroyJid reg =
     (case reg of
        None \<Rightarrow> None
      | Some w \<Rightarrow>
        if v \<noteq> DestroyJail \<or> preDestroyJid = 0 \<or> st < 200 \<or> st \<ge> 300 then reg
        else Some (snd (fw_registry_release io wr preDestroyJid w)))"

end
