(* ===== verification/IfaceRegistry.thy ===== *)
theory IfaceRegistry
  imports JidRegistry
begin

text \<open>
  The epair-to-owner registry: \<^verbatim>\<open>lib/iface_owner_registry_pure.cpp\<close> (names of epair halves,
  text form, reconciliation) and the daemon's wrapper \<^verbatim>\<open>lib/iface_owner_registry.cpp\<close>. Only epair
  halves are ever recorded; both halves of a pair share the liveness of the host-visible one.
\<close>

section \<open>Names of epair halves\<close>

definition isEpairIfaceName :: "string \<Rightarrow> bool" where
  "isEpairIfaceName name \<longleftrightarrow>
     \<not> length name < length ''epair'' + 2 \<and>
     starts_with ''epair'' name \<and>
     (let rest = drop (length ''epair'') name;
          digits = takeWhile is_digit rest; tail = dropWhile is_digit rest in
      digits \<noteq> [] \<and> length tail = 1 \<and> (hd tail = CHR ''a'' \<or> hd tail = CHR ''b''))"

definition isEpairName :: "string \<Rightarrow> bool" where
  "isEpairName name = isEpairIfaceName name"

definition peerHalf :: "string \<Rightarrow> string" where
  "peerHalf name =
     (if \<not> isEpairName name then []
      else butlast name @ [if last name = CHR ''a'' then CHR ''b'' else CHR ''a''])"

definition hostHalf :: "string \<Rightarrow> string" where
  "hostHalf name = (if \<not> isEpairName name then [] else butlast name @ ''a'')"

section \<open>Entries and their text form\<close>

type_synonym iface_map = "(string, nat) stdmap"
type_synonym iface_probe = "(string \<Rightarrow> bool) option"

definition iface_parseDecimal :: "string \<Rightarrow> nat option" where
  "iface_parseDecimal s =
     (if s = [] \<or> length s > 10 then None
      else if \<not> list_all is_digit s then None
      else Some (foldl (\<lambda>v c. (v * 10 + digit_val c) mod 2 ^ 64) 0 s))"

definition iface_line :: "string \<times> nat \<Rightarrow> string" where
  "iface_line = (\<lambda>(name, uid). name @ TAB # dec uid)"

definition iface_serialize :: "iface_map \<Rightarrow> string" where
  "iface_serialize entries = concat (map (\<lambda>kv. iface_line kv @ [NL]) entries)"

definition iface_parse_line :: "nat \<Rightarrow> string \<Rightarrow> iface_map \<Rightarrow> iface_map res" where
  "iface_parse_line lineNo line out =
     (if line = [] \<or> hd line = CHR ''#'' then Inr out
      else case cut_at TAB line of
        None \<Rightarrow> Inl (line_err lineNo ''expected exactly 2 tab-separated columns'')
      | Some (name, rest) \<Rightarrow>
        if name = [] \<or> TAB \<in> set rest
        then Inl (line_err lineNo ''expected exactly 2 tab-separated columns'')
        else if \<not> isEpairName name
        then Inl (line_err lineNo (quoted name @ '' is not an epair half''))
        else case iface_parseDecimal rest of
          None \<Rightarrow> Inl (line_err lineNo ''uid out of range'')
        | Some uid \<Rightarrow>
          if uid > 0xFFFFFFFF then Inl (line_err lineNo ''uid out of range'')
          else if map_find out name \<noteq> None
          then Inl (line_err lineNo (''duplicate interface '' @ name))
          else Inr (map_emplace name uid out))"

fun iface_parse_loop :: "nat \<Rightarrow> string list \<Rightarrow> iface_map \<Rightarrow> iface_map res" where
  "iface_parse_loop lineNo [] out = Inr out"
| "iface_parse_loop lineNo (line # lines) out =
     bind_res (iface_parse_line lineNo line out) (iface_parse_loop (Suc lineNo) lines)"

definition iface_parse :: "string \<Rightarrow> iface_map res" where
  "iface_parse text = iface_parse_loop 1 (split_on NL text) []"

fun iface_reconcile_loop :: "(string \<Rightarrow> bool) \<Rightarrow> iface_map \<Rightarrow> nat \<times> iface_map" where
  "iface_reconcile_loop isLive [] = (0, [])"
| "iface_reconcile_loop isLive ((name, uid) # m) =
     (let (d, m') = iface_reconcile_loop isLive m in
      if hostHalf name = [] \<or> \<not> isLive (hostHalf name) then (Suc d, m') else (d, (name, uid) # m'))"

definition iface_reconcile :: "iface_probe \<Rightarrow> iface_map \<Rightarrow> nat \<times> iface_map" where
  "iface_reconcile isLive entries =
     (case isLive of None \<Rightarrow> (0, entries) | Some f \<Rightarrow> iface_reconcile_loop f entries)"

section \<open>The daemon's registry object\<close>

record iface_registry =
  ir_entries :: iface_map
  ir_file :: "string option"

definition iface_persist :: "bool \<Rightarrow> iface_registry \<Rightarrow> bool \<times> iface_registry" where
  "iface_persist io r =
     (if io then (True, r\<lparr>ir_file := Some (iface_serialize (ir_entries r))\<rparr>) else (False, r))"

definition iface_open :: "string option \<Rightarrow> iface_registry res" where
  "iface_open contents =
     (case contents of
        None \<Rightarrow> Inr \<lparr>ir_entries = [], ir_file = None\<rparr>
      | Some text \<Rightarrow> bind_res (iface_parse text) (\<lambda>m. Inr \<lparr>ir_entries = m, ir_file = contents\<rparr>))"

definition put_epair :: "string \<Rightarrow> nat \<Rightarrow> iface_map \<Rightarrow> iface_map" where
  "put_epair name uid m = (if isEpairName name then map_put name uid m else m)"

definition recordEpair :: "bool \<Rightarrow> string \<Rightarrow> string \<Rightarrow> nat \<Rightarrow> iface_registry \<Rightarrow> unit option \<times> iface_registry" where
  "recordEpair io ifaceA ifaceB uid r =
     (let (ok, r') = iface_persist io
            (r\<lparr>ir_entries := put_epair ifaceB uid (put_epair ifaceA uid (ir_entries r))\<rparr>)
      in (if ok then Some () else None, r'))"

text \<open>\<^verbatim>\<open>std::map::erase(key)\<close> returns how many elements it removed.\<close>

definition erase_count :: "'k \<Rightarrow> ('k, 'v) stdmap \<Rightarrow> nat" where
  "erase_count k m = (if map_find m k = None then 0 else 1)"

definition forgetPair :: "bool \<Rightarrow> string \<Rightarrow> iface_registry \<Rightarrow> bool option \<times> iface_registry" where
  "forgetPair io ifname r =
     (let m0 = ir_entries r; peer = peerHalf ifname;
          n1 = erase_count ifname m0; m1 = map_erase ifname m0;
          n2 = (if peer = [] then 0 else erase_count peer m1);
          m2 = (if peer = [] then m1 else map_erase peer m1);
          r1 = r\<lparr>ir_entries := m2\<rparr> in
      if n1 + n2 \<noteq> 0
      then let (ok, r2) = iface_persist io r1 in (if ok then Some True else None, r2)
      else (Some False, r1))"

definition iface_reconcile_registry :: "bool \<Rightarrow> iface_probe \<Rightarrow> iface_registry \<Rightarrow> nat option \<times> iface_registry" where
  "iface_reconcile_registry io probe r =
     (case probe of
        None \<Rightarrow> (Some 0, r)
      | Some f \<Rightarrow>
        let (dropped, m) = iface_reconcile probe (ir_entries r); r1 = r\<lparr>ir_entries := m\<rparr> in
        if dropped \<noteq> 0
        then let (ok, r2) = iface_persist io r1 in (if ok then Some dropped else None, r2)
        else (Some dropped, r1))"

definition iface_dropIfStale :: "bool \<Rightarrow> iface_probe \<Rightarrow> string \<Rightarrow> iface_registry \<Rightarrow> bool \<times> iface_registry" where
  "iface_dropIfStale io probe name r =
     (case probe of
        None \<Rightarrow> (False, r)
      | Some f \<Rightarrow>
        if hostHalf name \<noteq> [] \<and> f (hostHalf name) then (False, r)
        else let peer = peerHalf name; m1 = map_erase name (ir_entries r);
                 m2 = (if peer = [] then m1 else map_erase peer m1) in
             (True, snd (iface_persist io (r\<lparr>ir_entries := m2\<rparr>))))"

definition iface_lookup :: "bool \<Rightarrow> iface_probe \<Rightarrow> string \<Rightarrow> iface_registry \<Rightarrow> owner \<times> iface_registry" where
  "iface_lookup io probe ifname r =
     (case map_find (ir_entries r) ifname of
        None \<Rightarrow> (no_owner, r)
      | Some uid \<Rightarrow>
        let (stale, r') = iface_dropIfStale io probe ifname r in
        (if stale then no_owner else owned_by uid, r'))"

section \<open>Halves of a pair\<close>

lemma takeWhile_digits: "list_all is_digit ds \<Longrightarrow> \<not> is_digit c \<Longrightarrow> takeWhile is_digit (ds @ [c]) = ds"
  by (induction ds) auto

lemma dropWhile_digits: "list_all is_digit ds \<Longrightarrow> \<not> is_digit c \<Longrightarrow> dropWhile is_digit (ds @ [c]) = [c]"
  by (induction ds) auto

lemma isEpairName_iff:
  "isEpairName n \<longleftrightarrow> (\<exists>ds c. n = ''epair'' @ ds @ [c] \<and> all_digits ds \<and> (c = CHR ''a'' \<or> c = CHR ''b''))"
proof
  assume n: "isEpairName n"
  then obtain rest where rest: "n = ''epair'' @ rest"
    by (auto simp: isEpairName_def isEpairIfaceName_def starts_with_iff)
  with n have "takeWhile is_digit rest \<noteq> []" "length (dropWhile is_digit rest) = 1"
    "hd (dropWhile is_digit rest) = CHR ''a'' \<or> hd (dropWhile is_digit rest) = CHR ''b''"
    by (auto simp: isEpairName_def isEpairIfaceName_def Let_def)
  moreover from this(2) obtain c where "dropWhile is_digit rest = [c]" by (auto simp: length_Suc_conv)
  moreover have "list_all is_digit (takeWhile is_digit rest)" by (auto simp: list_all_iff dest: set_takeWhileD)
  ultimately show "\<exists>ds c. n = ''epair'' @ ds @ [c] \<and> all_digits ds \<and> (c = CHR ''a'' \<or> c = CHR ''b'')"
    using rest takeWhile_dropWhile_id [of is_digit rest]
    by (intro exI [of _ "takeWhile is_digit rest"] exI [of _ c]) (auto simp: all_digits_def)
next
  assume "\<exists>ds c. n = ''epair'' @ ds @ [c] \<and> all_digits ds \<and> (c = CHR ''a'' \<or> c = CHR ''b'')"
  then obtain ds c where n: "n = ''epair'' @ ds @ [c]" "all_digits ds" "c = CHR ''a'' \<or> c = CHR ''b''" by blast
  moreover from this(3) have "\<not> is_digit c" by (auto simp: is_digit_def)
  ultimately show "isEpairName n"
    by (cases ds)
      (auto simp: isEpairName_def isEpairIfaceName_def starts_with_def all_digits_def Let_def takeWhile_digits dropWhile_digits)
qed

lemma peerHalf_epair:
  assumes "all_digits ds"
  shows "peerHalf (''epair'' @ ds @ ''a'') = ''epair'' @ ds @ ''b''"
    and "peerHalf (''epair'' @ ds @ ''b'') = ''epair'' @ ds @ ''a''"
  using assms isEpairName_iff [of "''epair'' @ ds @ ''a''"] isEpairName_iff [of "''epair'' @ ds @ ''b''"]
  by (auto simp: peerHalf_def butlast_append)

lemma hostHalf_epair:
  assumes "all_digits ds"
  shows "hostHalf (''epair'' @ ds @ ''a'') = ''epair'' @ ds @ ''a''"
    and "hostHalf (''epair'' @ ds @ ''b'') = ''epair'' @ ds @ ''a''"
  using assms isEpairName_iff [of "''epair'' @ ds @ ''a''"] isEpairName_iff [of "''epair'' @ ds @ ''b''"]
  by (auto simp: hostHalf_def butlast_append)

lemma epair_cases:
  assumes "isEpairName n"
  obtains ds where "all_digits ds" "n = ''epair'' @ ds @ ''a''" | ds where "all_digits ds" "n = ''epair'' @ ds @ ''b''"
  using assms by (auto simp: isEpairName_iff)

lemma epair_is_epair:
  assumes "all_digits ds" shows "isEpairName (''epair'' @ ds @ ''a'')" "isEpairName (''epair'' @ ds @ ''b'')"
  using assms isEpairName_iff by blast+

lemmas epair_halves = peerHalf_epair hostHalf_epair epair_is_epair

lemma epair_halves_facts:
  assumes "isEpairName n"
  shows "isEpairName (peerHalf n) \<and> peerHalf n \<noteq> n \<and> peerHalf (peerHalf n) = n \<and>
      hostHalf (peerHalf n) = hostHalf n \<and> hostHalf n \<in> {n, peerHalf n} \<and> hostHalf (hostHalf n) = hostHalf n"
  using assms
proof (cases rule: epair_cases)
  case (1 ds)
  then have "peerHalf n = ''epair'' @ ds @ ''b''" "hostHalf n = n" by (simp_all only: epair_halves)
  with 1 assms show ?thesis
    using epair_halves [OF 1(1)] by simp
next
  case (2 ds)
  then have "peerHalf n = ''epair'' @ ds @ ''a''" "hostHalf n = ''epair'' @ ds @ ''a''" by (simp_all only: epair_halves)
  with 2 assms show ?thesis
    using epair_halves [OF 2(1)] by simp
qed

text \<open>
  The two halves of an epair. For every interface name of the shape \<^verbatim>\<open>epair<N>a\<close> or
  \<^verbatim>\<open>epair<N>b\<close> the peer is the other half of the same pair, taking the peer twice gives the name
  back, both halves have the same host-visible half, which is one of them; every other name has
  neither a peer nor a host half.
\<close>

theorem epair_halves_correct:
  "(if isEpairName n
    then isEpairName (peerHalf n) \<and> peerHalf n \<noteq> n \<and> peerHalf (peerHalf n) = n \<and>
      hostHalf (peerHalf n) = hostHalf n \<and> hostHalf n \<in> {n, peerHalf n} \<and> hostHalf (hostHalf n) = hostHalf n
    else peerHalf n = [] \<and> hostHalf n = [])"
proof (cases "isEpairName n")
  case True
  then show ?thesis using epair_halves_facts [OF True] by simp
qed (simp add: peerHalf_def hostHalf_def)

section \<open>The file round trip\<close>

definition iface_map_ok :: "iface_map \<Rightarrow> bool" where
  "iface_map_ok m \<longleftrightarrow> map_ok m \<and> (\<forall>kv \<in> set m. isEpairName (fst kv) \<and> snd kv \<le> 0xFFFFFFFF)"

lemma foldl_no_wrap:
  "list_all is_digit s \<Longrightarrow> length s \<le> 10 \<Longrightarrow> foldl (\<lambda>v c. (v * 10 + digit_val c) mod 2 ^ 64) 0 s = dec_val s"
proof (induction s rule: rev_induct)
  case Nil
  then show ?case by simp
next
  case (snoc c s)
  then have s: "dec_val s < 10 ^ length s" and c: "digit_val c < 10" using dec_val_bound by simp_all
  have "(10::nat) ^ length s \<le> 10 ^ 9" using snoc.prems by (intro power_increasing) simp_all
  with s c have "dec_val s * 10 + digit_val c < 2 ^ 64" by simp
  with snoc show ?case by simp
qed

lemma iface_parseDecimal_value:
  "iface_parseDecimal s = (if all_digits s \<and> length s \<le> 10 then Some (dec_val s) else None)"
  using foldl_no_wrap [of s] by (auto simp: iface_parseDecimal_def all_digits_def)

lemma iface_parseDecimal_dec: "u \<le> 0xFFFFFFFF \<Longrightarrow> iface_parseDecimal (dec u) = Some u"
  using dec_length_le [of u 10] by (simp add: iface_parseDecimal_value)

lemma epair_chars:
  assumes "isEpairName n"
  shows "n \<noteq> []" "hd n \<noteq> CHR ''#''" "TAB \<notin> set n" "NL \<notin> set n"
proof -
  obtain ds c where n: "n = ''epair'' @ ds @ [c]" "all_digits ds" "c = CHR ''a'' \<or> c = CHR ''b''"
    using assms isEpairName_iff by blast
  have "TAB \<notin> set ds" "NL \<notin> set ds"
    using n(2) ctrl_not_digit by (auto simp: all_digits_def list_all_iff)
  with n show "n \<noteq> []" "hd n \<noteq> CHR ''#''" "TAB \<notin> set n" "NL \<notin> set n" by (auto simp: TAB_def NL_def)
qed

lemma iface_parse_line_entry:
  assumes "isEpairName name" "uid \<le> 0xFFFFFFFF" "map_find out name = None"
  shows "iface_parse_line n (iface_line (name, uid)) out = Inr (map_put name uid out)"
  using assms epair_chars [OF assms(1)]
  by (simp add: iface_parse_line_def iface_line_def iface_parseDecimal_dec map_emplace_def)

lemma split_iface_serialize:
  "\<forall>kv \<in> set m. isEpairName (fst kv) \<Longrightarrow> split_on NL (iface_serialize m) = map iface_line m @ [[]]"
proof (induction m)
  case Nil
  then show ?case by (simp add: iface_serialize_def)
next
  case (Cons kv m)
  then have "NL \<notin> set (iface_line kv)"
    using epair_chars(4) by (auto simp: iface_line_def split: prod.splits)
  with Cons show ?case by (simp add: iface_serialize_def)
qed

lemma iface_parse_loop_lines:
  "\<forall>kv \<in> set m. isEpairName (fst kv) \<and> snd kv \<le> 0xFFFFFFFF \<Longrightarrow> map_ok (out @ m) \<Longrightarrow>
     iface_parse_loop n (map iface_line m @ [[]]) out = Inr (out @ m)"
proof (induction m arbitrary: n out)
  case Nil
  then show ?case by (simp add: iface_parse_line_def)
next
  case (Cons kv m)
  obtain name uid where kv: "kv = (name, uid)" by (cases kv)
  have lt: "\<forall>k \<in> fst ` set out. k < name"
    using Cons.prems(2) by (auto simp: map_ok_def sorted_wrt_append kv)
  then have "map_find out name = None" by (auto simp: map_find_None_iff)
  with Cons.prems(1) map_put_snoc [OF lt] have "iface_parse_line n (iface_line kv) out = Inr (out @ [(name, uid)])"
    by (simp add: kv iface_parse_line_entry)
  with Cons.IH [of "out @ [(name, uid)]" "Suc n"] Cons.prems show ?case by (simp add: kv)
qed

lemma iface_parse_serialize [simp]: "iface_map_ok m \<Longrightarrow> iface_parse (iface_serialize m) = Inr m"
  by (simp add: iface_parse_def iface_map_ok_def split_iface_serialize iface_parse_loop_lines)

lemma iface_map_ok_put: "iface_map_ok m \<Longrightarrow> isEpairName n \<Longrightarrow> u \<le> 0xFFFFFFFF \<Longrightarrow> iface_map_ok (map_put n u m)"
  using set_map_put_subset [of n u m] by (auto simp: iface_map_ok_def)

lemma iface_map_ok_erase: "iface_map_ok m \<Longrightarrow> iface_map_ok (map_erase n m)"
  by (simp add: iface_map_ok_def map_erase_def)

lemma iface_parse_line_ok:
  "iface_parse_line n line out = Inr out' \<Longrightarrow> iface_map_ok out \<Longrightarrow> iface_map_ok out'"
  by (auto simp: iface_parse_line_def map_emplace_def iface_map_ok_put split: if_splits option.splits)

lemma iface_parse_loop_ok: "iface_parse_loop n lines out = Inr m \<Longrightarrow> iface_map_ok out \<Longrightarrow> iface_map_ok m"
  by (induction lines arbitrary: n out) (auto dest: iface_parse_line_ok)

lemma iface_parse_ok: "iface_parse text = Inr m \<Longrightarrow> iface_map_ok m"
  unfolding iface_parse_def by (erule iface_parse_loop_ok) (simp add: iface_map_ok_def)

text \<open>
  The epair registry file round trip: a loaded file yields only epair halves with 32-bit
  owners, each once, and writing such a map and reading it back is the identity.
\<close>

theorem iface_file_roundtrip:
  "(iface_parse text = Inr m \<longrightarrow> iface_map_ok m) \<and> (iface_map_ok m \<longrightarrow> iface_parse (iface_serialize m) = Inr m)"
  using iface_parse_ok by simp

theorem iface_file_roundtrip_witness:
  "iface_map_ok [(''epair3a'', 1001), (''epair3b'', 1001)] \<and>
   iface_parse (iface_serialize [(''epair3a'', 1001), (''epair3b'', 1001)]) =
     Inr [(''epair3a'', 1001), (''epair3b'', 1001)]"
proof -
  have "isEpairName ''epair3a''" "isEpairName ''epair3b''"
    by (simp_all add: isEpairName_def isEpairIfaceName_def starts_with_def is_digit_def)
  then have "iface_map_ok [(''epair3a'', 1001), (''epair3b'', 1001)]" by (simp add: iface_map_ok_def)
  with iface_file_roundtrip show ?thesis by blast
qed

section \<open>The registry object\<close>

definition iface_reg_ok :: "iface_registry \<Rightarrow> bool" where
  "iface_reg_ok r \<longleftrightarrow> iface_map_ok (ir_entries r)"

definition iface_owner_of :: "iface_registry \<Rightarrow> string \<Rightarrow> nat option" where
  "iface_owner_of r n = map_find (ir_entries r) n"

definition iface_stale :: "iface_probe \<Rightarrow> string \<Rightarrow> bool" where
  "iface_stale probe name \<longleftrightarrow> (\<exists>f. probe = Some f \<and> \<not> (hostHalf name \<noteq> [] \<and> f (hostHalf name)))"

definition erase_pair :: "string \<Rightarrow> iface_map \<Rightarrow> iface_map" where
  "erase_pair name m =
     (if peerHalf name = [] then map_erase name m else map_erase (peerHalf name) (map_erase name m))"

lemma iface_persist_entries [simp]: "ir_entries (snd (iface_persist io r)) = ir_entries r"
  by (simp add: iface_persist_def)

lemma iface_persist_io [simp]: "iface_persist True r = (True, r\<lparr>ir_file := Some (iface_serialize (ir_entries r))\<rparr>)"
  by (simp add: iface_persist_def)

lemma iface_lookup_cases:
  "iface_lookup io probe name r =
     (case map_find (ir_entries r) name of
        None \<Rightarrow> (no_owner, r)
      | Some u \<Rightarrow> if iface_stale probe name
          then (no_owner, snd (iface_persist io (r\<lparr>ir_entries := erase_pair name (ir_entries r)\<rparr>)))
          else (owned_by u, r))"
  by (auto simp: iface_lookup_def iface_dropIfStale_def iface_stale_def erase_pair_def Let_def split: option.splits)

lemma find_erase_pair:
  "map_find (erase_pair name m) x = (if x = name \<or> (peerHalf name \<noteq> [] \<and> x = peerHalf name) then None else map_find m x)"
  by (simp add: erase_pair_def)

lemma iface_map_ok_erase_pair: "iface_map_ok m \<Longrightarrow> iface_map_ok (erase_pair name m)"
  by (simp add: erase_pair_def iface_map_ok_erase)

interpretation by_iface: owner_registry iface_reg_ok iface_owner_of "iface_lookup io probe" for io probe
  by unfold_locales
    (auto simp: iface_lookup_cases iface_owner_of_def iface_reg_ok_def iface_map_ok_erase_pair find_erase_pair
      split: option.splits)

lemma forgetPair_entries: "ir_entries (snd (forgetPair io name r)) = erase_pair name (ir_entries r)"
  by (simp add: forgetPair_def erase_pair_def Let_def split_beta)

text \<open>
  Ownership of a pair. After \<^const>\<open>recordEpair\<close> of the two halves of an epair, looking up
  either half while the host half is live answers the recorded operator; when the host half has
  gone, the lookup answers nobody and evicts both halves; and after \<^const>\<open>forgetPair\<close> of either
  half both are unknown. Other interfaces keep their owners throughout.
\<close>

theorem epair_ownership:
  assumes "isEpairName a" "h \<in> {a, peerHalf a}" "r' = snd (recordEpair io a (peerHalf a) uid r)" "x \<notin> {a, peerHalf a}"
  shows "(if iface_stale probe a
            then fst (iface_lookup io' probe h r') = no_owner \<and>
                 iface_owner_of (snd (iface_lookup io' probe h r')) (peerHalf h) = None \<and>
                 iface_owner_of (snd (iface_lookup io' probe h r')) h = None
            else iface_lookup io' probe h r' = (owned_by uid, r')) \<and>
         iface_owner_of (snd (forgetPair io' h r')) a = None \<and>
         iface_owner_of (snd (forgetPair io' h r')) (peerHalf a) = None \<and>
         iface_owner_of r' x = iface_owner_of r x \<and>
         iface_owner_of (snd (iface_lookup io' probe h r')) x = iface_owner_of r x \<and>
         iface_owner_of (snd (forgetPair io' h r')) x = iface_owner_of r x"
proof -
  have pair: "isEpairName (peerHalf a)" "peerHalf a \<noteq> a" "peerHalf (peerHalf a) = a" "hostHalf (peerHalf a) = hostHalf a"
    using epair_halves_facts [OF assms(1)] by blast+
  have ne: "peerHalf a \<noteq> []" "a \<noteq> []" using epair_chars(1) pair(1) assms(1) by blast+
  have r': "ir_entries r' = map_put (peerHalf a) uid (map_put a uid (ir_entries r))"
    using assms(1,3) pair(1) by (simp add: recordEpair_def put_epair_def split_beta)
  have stale: "iface_stale probe h = iface_stale probe a"
    using assms(2) pair(4) by (auto simp: iface_stale_def)
  have x: "x \<noteq> a" "x \<noteq> peerHalf a" using assms(4) by simp_all
  from assms(2) consider "h = a" | "h = peerHalf a" by blast
  then show ?thesis
  proof cases
    case 1
    show ?thesis
      unfolding 1 iface_owner_of_def forgetPair_entries find_erase_pair iface_lookup_cases r' map_find_put
      using pair(2) x ne by (simp add: r' find_erase_pair)
  next
    case 2
    show ?thesis
      unfolding iface_lookup_cases stale
      unfolding 2 iface_owner_of_def forgetPair_entries find_erase_pair r' map_find_put
      using pair(2,3) x ne by (simp add: r' find_erase_pair)
  qed
qed

theorem epair_ownership_witness:
  "iface_lookup True None ''epair3b'' (snd (recordEpair True ''epair3a'' ''epair3b'' 1001 \<lparr>ir_entries = [], ir_file = None\<rparr>)) =
     (owned_by 1001, snd (recordEpair True ''epair3a'' ''epair3b'' 1001 \<lparr>ir_entries = [], ir_file = None\<rparr>))"
proof -
  have e: "isEpairName ''epair3a''"
    by (simp add: isEpairName_def isEpairIfaceName_def starts_with_def is_digit_def)
  have p: "peerHalf ''epair3a'' = ''epair3b''" using e by (simp add: peerHalf_def)
  have "''epair3b'' \<in> {''epair3a'', peerHalf ''epair3a''}" "''em0'' \<notin> {''epair3a'', peerHalf ''epair3a''}"
    by (simp_all add: p)
  from epair_ownership [OF e this(1) refl this(2), of None True] show ?thesis
    by (simp add: p iface_stale_def)
qed

end
