(* ===== verification/Authz.thy ===== *)
theory Authz
  imports PrivOps PerUser IfaceRegistry
begin

text \<open>
  The authorisation gate of the privileged operations, \<^verbatim>\<open>lib/privops_authz_pure.{h,cpp}\<close>: which
  caller may name which dataset, login class, jid, jail, path, interface and devfs ruleset. The
  registries behind the callbacks are arguments (\<^verbatim>\<open>OwnerLookup\<close>, each callback possibly null);
  the dispatcher's theory plugs the modelled registries in.
\<close>

section \<open>The gate\<close>

datatype Decision =
    Allow
  | DenyForeignDataset
  | DenyForeignLoginclass
  | DenyForeignJid
  | DenyForeignJailName
  | DenyForeignPath
  | DenyForeignCreatePath
  | DenyForeignSource
  | DenyUnownedPath
  | DenyForeignAnchor
  | DenyUnownedJid
  | DenyForeignIface
  | DenyHostIface
  | DenyForeignDevfsRuleset
  | DenyDevfsSharedRuleset

definition kPrivateDevfsRulesetMin :: nat where "kPrivateDevfsRulesetMin = 10000"
definition kPrivateDevfsRulesetMax :: nat where "kPrivateDevfsRulesetMax = 59999"

definition isPrivateDevfsRuleset :: "nat \<Rightarrow> bool" where
  "isPrivateDevfsRuleset ruleset \<longleftrightarrow> ruleset \<ge> kPrivateDevfsRulesetMin \<and> ruleset \<le> kPrivateDevfsRulesetMax"

record OwnerLookup =
  byJid :: "(nat \<Rightarrow> owner) option"
  byName :: "(string \<Rightarrow> owner) option"
  byPath :: "(string \<Rightarrow> owner) option"
  byIface :: "(string \<Rightarrow> owner) option"
  byDevfsRuleset :: "(nat \<Rightarrow> owner) option"

definition nullLookup :: OwnerLookup where
  "nullLookup = \<lparr>byJid = Some (\<lambda>_. no_owner), byName = Some (\<lambda>_. no_owner), byPath = Some (\<lambda>_. no_owner),
     byIface = None, byDevfsRuleset = None\<rparr>"

record authz_request =
  rq_dataset :: string
  rq_loginclass :: string
  rq_jailName :: string
  rq_jid :: nat
  rq_path :: string
  rq_source :: string
  rq_anchor :: string
  rq_ifname :: string
  rq_devfsRuleset :: nat

definition empty_request :: authz_request where
  "empty_request = \<lparr>rq_dataset = [], rq_loginclass = [], rq_jailName = [], rq_jid = 0, rq_path = [], rq_source = [],
     rq_anchor = [], rq_ifname = [], rq_devfsRuleset = 0\<rparr>"

definition ownedUnder :: "string \<Rightarrow> string \<Rightarrow> bool" where
  "ownedUnder value prefix =
     (if prefix = [] then True
      else if value = prefix then True
      else length value > length prefix \<and> starts_with prefix value \<and>
        (last prefix = CHR ''/'' \<or> value ! length prefix = CHR ''/''))"

definition datasetOwned :: "string \<Rightarrow> string \<Rightarrow> bool" where
  "datasetOwned dataset pfx = ownedUnder dataset pfx"

definition pathOwned :: "string \<Rightarrow> string \<Rightarrow> bool" where
  "pathOwned path pfx = ownedUnder path pfx"

definition checkOwnedJid :: "nat \<Rightarrow> per_user_env \<Rightarrow> OwnerLookup \<Rightarrow> Decision" where
  "checkOwnedJid jid env lookup =
     (case byJid lookup of
        None \<Rightarrow> Allow
      | Some f \<Rightarrow> if \<not> known (f jid) then Allow
          else if owner_uid (f jid) = env_uid env then Allow else DenyForeignJid)"

definition checkOwnedJidStrict :: "nat \<Rightarrow> per_user_env \<Rightarrow> OwnerLookup \<Rightarrow> Decision" where
  "checkOwnedJidStrict jid env lookup =
     (case byJid lookup of
        None \<Rightarrow> DenyUnownedJid
      | Some f \<Rightarrow> if \<not> known (f jid) then DenyUnownedJid
          else if owner_uid (f jid) = env_uid env then Allow else DenyForeignJid)"

definition checkOwnedIface :: "string \<Rightarrow> per_user_env \<Rightarrow> OwnerLookup \<Rightarrow> Decision" where
  "checkOwnedIface ifname env lookup =
     (case byIface lookup of
        None \<Rightarrow> Allow
      | Some f \<Rightarrow>
        if \<not> isEpairIfaceName ifname then DenyHostIface
        else if \<not> known (f ifname) then Allow
        else if owner_uid (f ifname) = env_uid env then Allow else DenyForeignIface)"

definition checkOwnedDevfsRuleset :: "nat \<Rightarrow> per_user_env \<Rightarrow> OwnerLookup \<Rightarrow> Decision" where
  "checkOwnedDevfsRuleset ruleset env lookup =
     (if \<not> isPrivateDevfsRuleset ruleset then DenyForeignDevfsRuleset
      else case byDevfsRuleset lookup of
        None \<Rightarrow> Allow
      | Some f \<Rightarrow> if \<not> known (f ruleset) then Allow
          else if owner_uid (f ruleset) = env_uid env then Allow else DenyForeignDevfsRuleset)"

definition checkOwnedName :: "string \<Rightarrow> per_user_env \<Rightarrow> OwnerLookup \<Rightarrow> Decision" where
  "checkOwnedName name env lookup =
     (case byName lookup of
        None \<Rightarrow> Allow
      | Some f \<Rightarrow> if \<not> known (f name) then Allow
          else if owner_uid (f name) = env_uid env then Allow else DenyForeignJailName)"

definition checkOwnedPath :: "string \<Rightarrow> per_user_env \<Rightarrow> OwnerLookup \<Rightarrow> Decision" where
  "checkOwnedPath path env lookup =
     (let ow = (case byPath lookup of None \<Rightarrow> no_owner | Some f \<Rightarrow> f path) in
      if known ow then (if owner_uid ow = env_uid env then Allow else DenyForeignPath)
      else if pathMasterPrefix env = [] then Allow
      else if pathOwned path (pathPrefix env) then Allow else DenyUnownedPath)"

definition sourceForeign :: "string \<Rightarrow> per_user_env \<Rightarrow> bool" where
  "sourceForeign source env =
     (if pathMasterPrefix env = [] then False
      else pathOwned source (pathMasterPrefix env) \<and> \<not> pathOwned source (pathPrefix env))"

definition anchorJailName :: "string \<Rightarrow> string" where
  "anchorJailName anchor =
     (if length anchor \<le> length ''crate/'' then []
      else if \<not> starts_with ''crate/'' anchor then []
      else let rest = drop (length ''crate/'') anchor in if CHR ''/'' \<in> set rest then [] else rest)"

text \<open>\<^verbatim>\<open>if (d != Allow) return d; return next;\<close>\<close>

definition and_then :: "Decision \<Rightarrow> Decision \<Rightarrow> Decision" where
  "and_then d e = (if d \<noteq> Allow then d else e)"

definition authorizeAnchor :: "authz_request \<Rightarrow> per_user_env \<Rightarrow> OwnerLookup \<Rightarrow> Decision" where
  "authorizeAnchor req env lookup =
     (let jail = anchorJailName (rq_anchor req) in
      if jail = [] then DenyForeignAnchor
      else let d = checkOwnedName jail env lookup in if d = DenyForeignJailName then DenyForeignAnchor else d)"

definition authorizeZfs :: "authz_request \<Rightarrow> per_user_env \<Rightarrow> OwnerLookup \<Rightarrow> Decision" where
  "authorizeZfs req env lookup =
     (if \<not> datasetOwned (rq_dataset req) (zfsPrefix env) then DenyForeignDataset
      else checkOwnedJid (rq_jid req) env lookup)"

definition authorize :: "verb \<Rightarrow> authz_request \<Rightarrow> per_user_env \<Rightarrow> OwnerLookup \<Rightarrow> Decision" where
  "authorize v req env lookup =
     (case v of
        AttachZfs \<Rightarrow> authorizeZfs req env lookup
      | DetachZfs \<Rightarrow> authorizeZfs req env lookup
      | AddPfRule \<Rightarrow> authorizeAnchor req env lookup
      | RemovePfRule \<Rightarrow> authorizeAnchor req env lookup
      | FlushPfAnchor \<Rightarrow> authorizeAnchor req env lookup
      | SetLoginclassRctl \<Rightarrow> if rq_loginclass req = env_loginclass env then Allow else DenyForeignLoginclass
      | ClearLoginclassRctl \<Rightarrow> if rq_loginclass req = env_loginclass env then Allow else DenyForeignLoginclass
      | SetRctl \<Rightarrow> checkOwnedJid (rq_jid req) env lookup
      | ClearRctl \<Rightarrow> checkOwnedJid (rq_jid req) env lookup
      | SetJailCpuset \<Rightarrow> checkOwnedJid (rq_jid req) env lookup
      | QueryJailRctl \<Rightarrow> checkOwnedJid (rq_jid req) env lookup
      | SignalJail \<Rightarrow> checkOwnedJid (rq_jid req) env lookup
      | AcquireFwLease \<Rightarrow> checkOwnedJid (rq_jid req) env lookup
      | ReleaseFwLease \<Rightarrow> checkOwnedJid (rq_jid req) env lookup
      | ConfigureIface \<Rightarrow> and_then (checkOwnedJid (rq_jid req) env lookup) (checkOwnedIface (rq_ifname req) env lookup)
      | TeardownIface \<Rightarrow> checkOwnedIface (rq_ifname req) env lookup
      | SetIfaceUp \<Rightarrow> checkOwnedIface (rq_ifname req) env lookup
      | DisableIfaceOffload \<Rightarrow> checkOwnedIface (rq_ifname req) env lookup
      | SetIfaceInetAddr \<Rightarrow> checkOwnedIface (rq_ifname req) env lookup
      | SetIfaceMac \<Rightarrow> checkOwnedIface (rq_ifname req) env lookup
      | BridgeAddMember \<Rightarrow> checkOwnedIface (rq_ifname req) env lookup
      | BridgeDelMember \<Rightarrow> checkOwnedIface (rq_ifname req) env lookup
      | ExecInJail \<Rightarrow> checkOwnedJidStrict (rq_jid req) env lookup
      | DestroyJail \<Rightarrow> checkOwnedName (rq_jailName req) env lookup
      | ReclaimIfaceFromVnet \<Rightarrow>
          and_then (checkOwnedName (rq_jailName req) env lookup) (checkOwnedIface (rq_ifname req) env lookup)
      | CreateJail \<Rightarrow> if pathOwned (rq_path req) (pathPrefix env) then Allow else DenyForeignCreatePath
      | UnmountNullfs \<Rightarrow> checkOwnedPath (rq_path req) env lookup
      | ApplyDevfsRuleset \<Rightarrow> checkOwnedPath (rq_path req) env lookup
      | MountTmpfs \<Rightarrow> checkOwnedPath (rq_path req) env lookup
      | ApplyDevfsRules \<Rightarrow>
          and_then (checkOwnedPath (rq_path req) env lookup) (checkOwnedDevfsRuleset (rq_devfsRuleset req) env lookup)
      | AddDevfsUnhideRule \<Rightarrow> and_then (checkOwnedPath (rq_path req) env lookup) DenyDevfsSharedRuleset
      | MountNullfs \<Rightarrow>
          and_then (checkOwnedPath (rq_path req) env lookup)
            (if sourceForeign (rq_source req) env then DenyForeignSource else Allow)
      | _ \<Rightarrow> Allow)"

definition authorize_compat :: "verb \<Rightarrow> string \<Rightarrow> string \<Rightarrow> per_user_env \<Rightarrow> Decision" where
  "authorize_compat v dataset loginclass env =
     authorize v (empty_request\<lparr>rq_dataset := dataset, rq_loginclass := loginclass\<rparr>) env nullLookup"

fun decisionReason :: "Decision \<Rightarrow> string" where
  "decisionReason Allow = ''allow''"
| "decisionReason DenyForeignDataset = ''dataset is outside the caller'' @ [CHR 0x27] @ ''s per-user ZFS prefix''"
| "decisionReason DenyForeignLoginclass = ''loginclass is not the caller'' @ [CHR 0x27] @ ''s crate-<uid> umbrella''"
| "decisionReason DenyForeignJid = ''jid is owned by a different operator''"
| "decisionReason DenyForeignJailName = ''jail name is owned by a different operator''"
| "decisionReason DenyForeignPath = ''path lies inside a jail owned by a different operator''"
| "decisionReason DenyForeignCreatePath =
     ''create_jail path is outside the caller'' @ [CHR 0x27] @ ''s per-user path prefix''"
| "decisionReason DenyForeignSource =
     ''mount source lies inside another operator'' @ [CHR 0x27] @ ''s per-user path prefix''"
| "decisionReason DenyUnownedPath =
     ''path is neither inside a jail owned by the caller nor inside the caller'' @ [CHR 0x27] @ ''s per-user path prefix''"
| "decisionReason DenyForeignAnchor = ''pf anchor is not a crate/<jail> anchor of a jail owned by the caller''"
| "decisionReason DenyUnownedJid =
     ''jid is not registered to the caller (exec_in_jail requires a jail created through privops by the same operator)''"
| "decisionReason DenyForeignIface = ''interface is an epair half created by a different operator''"
| "decisionReason DenyHostIface =
     ''interface is not an epair half; host interfaces cannot be named by a per-user caller''"
| "decisionReason DenyForeignDevfsRuleset =
     ''devfs ruleset is outside the private range 10000..59999 or in use by another jail''"
| "decisionReason DenyDevfsSharedRuleset =
     ''add_devfs_unhide_rule edits the devfs ruleset the mount uses, which other jails may share; '' @
     ''use apply_devfs_rules with a private ruleset''"

section \<open>The policy the gate implements\<close>

text \<open>
  The abstract policy: a request names targets, and every target has to be one the caller is
  permitted to name. \<^verbatim>\<open>AnyJid\<close> is the lenient jid rule, \<^verbatim>\<open>OwnJid\<close> the strict one of
  \<^verbatim>\<open>exec_in_jail\<close>; \<^verbatim>\<open>Anchor\<close> is a per-jail pf anchor; \<^verbatim>\<open>Forbidden\<close> is never permitted.
\<close>

datatype target =
    Dataset string
  | Loginclass string
  | AnyJid nat
  | OwnJid nat
  | JailName string
  | Anchor string
  | Path string
  | NewPath string
  | Source string
  | Iface string
  | DevfsRuleset nat
  | Forbidden

definition unclaimed_or_own :: "('k \<Rightarrow> owner) option \<Rightarrow> nat \<Rightarrow> 'k \<Rightarrow> bool" where
  "unclaimed_or_own lk uid k \<longleftrightarrow> (\<forall>f. lk = Some f \<longrightarrow> known (f k) \<longrightarrow> owner_uid (f k) = uid)"

fun permitted :: "per_user_env \<Rightarrow> OwnerLookup \<Rightarrow> target \<Rightarrow> bool" where
  "permitted env lk (Dataset d) = ownedUnder d (zfsPrefix env)"
| "permitted env lk (Loginclass l) = (l = env_loginclass env)"
| "permitted env lk (AnyJid j) = unclaimed_or_own (byJid lk) (env_uid env) j"
| "permitted env lk (OwnJid j) = (\<exists>f. byJid lk = Some f \<and> f j = owned_by (env_uid env))"
| "permitted env lk (JailName n) = unclaimed_or_own (byName lk) (env_uid env) n"
| "permitted env lk (Anchor a) =
     (\<exists>jail. a = ''crate/'' @ jail \<and> jail \<noteq> [] \<and> CHR ''/'' \<notin> set jail \<and> unclaimed_or_own (byName lk) (env_uid env) jail)"
| "permitted env lk (Path p) =
     (if (\<exists>f. byPath lk = Some f \<and> known (f p)) then unclaimed_or_own (byPath lk) (env_uid env) p
      else pathMasterPrefix env = [] \<or> ownedUnder p (pathPrefix env))"
| "permitted env lk (NewPath p) = ownedUnder p (pathPrefix env)"
| "permitted env lk (Source p) =
     (pathMasterPrefix env = [] \<or> \<not> ownedUnder p (pathMasterPrefix env) \<or> ownedUnder p (pathPrefix env))"
| "permitted env lk (Iface i) =
     (byIface lk = None \<or> isEpairIfaceName i \<and> unclaimed_or_own (byIface lk) (env_uid env) i)"
| "permitted env lk (DevfsRuleset n) =
     (isPrivateDevfsRuleset n \<and> unclaimed_or_own (byDevfsRuleset lk) (env_uid env) n)"
| "permitted env lk Forbidden = False"

fun targets :: "verb \<Rightarrow> authz_request \<Rightarrow> target list" where
  "targets AttachZfs rq = [Dataset (rq_dataset rq), AnyJid (rq_jid rq)]"
| "targets DetachZfs rq = [Dataset (rq_dataset rq), AnyJid (rq_jid rq)]"
| "targets AddPfRule rq = [Anchor (rq_anchor rq)]"
| "targets RemovePfRule rq = [Anchor (rq_anchor rq)]"
| "targets FlushPfAnchor rq = [Anchor (rq_anchor rq)]"
| "targets SetLoginclassRctl rq = [Loginclass (rq_loginclass rq)]"
| "targets ClearLoginclassRctl rq = [Loginclass (rq_loginclass rq)]"
| "targets SetRctl rq = [AnyJid (rq_jid rq)]"
| "targets ClearRctl rq = [AnyJid (rq_jid rq)]"
| "targets SetJailCpuset rq = [AnyJid (rq_jid rq)]"
| "targets QueryJailRctl rq = [AnyJid (rq_jid rq)]"
| "targets SignalJail rq = [AnyJid (rq_jid rq)]"
| "targets AcquireFwLease rq = [AnyJid (rq_jid rq)]"
| "targets ReleaseFwLease rq = [AnyJid (rq_jid rq)]"
| "targets ConfigureIface rq = [AnyJid (rq_jid rq), Iface (rq_ifname rq)]"
| "targets TeardownIface rq = [Iface (rq_ifname rq)]"
| "targets SetIfaceUp rq = [Iface (rq_ifname rq)]"
| "targets DisableIfaceOffload rq = [Iface (rq_ifname rq)]"
| "targets SetIfaceInetAddr rq = [Iface (rq_ifname rq)]"
| "targets SetIfaceMac rq = [Iface (rq_ifname rq)]"
| "targets BridgeAddMember rq = [Iface (rq_ifname rq)]"
| "targets BridgeDelMember rq = [Iface (rq_ifname rq)]"
| "targets ExecInJail rq = [OwnJid (rq_jid rq)]"
| "targets DestroyJail rq = [JailName (rq_jailName rq)]"
| "targets ReclaimIfaceFromVnet rq = [JailName (rq_jailName rq), Iface (rq_ifname rq)]"
| "targets CreateJail rq = [NewPath (rq_path rq)]"
| "targets UnmountNullfs rq = [Path (rq_path rq)]"
| "targets ApplyDevfsRuleset rq = [Path (rq_path rq)]"
| "targets MountTmpfs rq = [Path (rq_path rq)]"
| "targets ApplyDevfsRules rq = [Path (rq_path rq), DevfsRuleset (rq_devfsRuleset rq)]"
| "targets AddDevfsUnhideRule rq = [Path (rq_path rq), Forbidden]"
| "targets MountNullfs rq = [Path (rq_path rq), Source (rq_source rq)]"
| "targets _ rq = []"

lemma owner_eqI: "known x \<Longrightarrow> owner_uid x = u \<Longrightarrow> x = owned_by u"
  by (cases x) (simp add: owned_by_def)

lemma checkOwnedJid_Allow: "checkOwnedJid j env lk = Allow \<longleftrightarrow> permitted env lk (AnyJid j)"
  by (auto simp: checkOwnedJid_def unclaimed_or_own_def split: option.splits)

lemma checkOwnedJidStrict_Allow: "checkOwnedJidStrict j env lk = Allow \<longleftrightarrow> permitted env lk (OwnJid j)"
  by (auto simp: checkOwnedJidStrict_def owner_eqI split: option.splits)

lemma checkOwnedName_Allow: "checkOwnedName n env lk = Allow \<longleftrightarrow> permitted env lk (JailName n)"
  by (auto simp: checkOwnedName_def unclaimed_or_own_def split: option.splits)

lemma checkOwnedName_deny: "checkOwnedName n env lk \<in> {Allow, DenyForeignJailName}"
  by (auto simp: checkOwnedName_def split: option.splits)

lemma checkOwnedIface_Allow: "checkOwnedIface i env lk = Allow \<longleftrightarrow> permitted env lk (Iface i)"
  by (auto simp: checkOwnedIface_def unclaimed_or_own_def split: option.splits)

lemma checkOwnedDevfsRuleset_Allow: "checkOwnedDevfsRuleset n env lk = Allow \<longleftrightarrow> permitted env lk (DevfsRuleset n)"
  by (auto simp: checkOwnedDevfsRuleset_def unclaimed_or_own_def split: option.splits)

lemma checkOwnedPath_Allow: "checkOwnedPath p env lk = Allow \<longleftrightarrow> permitted env lk (Path p)"
  by (auto simp: checkOwnedPath_def unclaimed_or_own_def pathOwned_def Let_def split: option.splits)

lemma anchorJailName_iff: "jail \<noteq> [] \<Longrightarrow> anchorJailName a = jail \<longleftrightarrow> a = ''crate/'' @ jail \<and> CHR ''/'' \<notin> set jail"
  by (auto simp: anchorJailName_def starts_with_iff Let_def)

lemma authorizeAnchor_Allow: "authorizeAnchor rq env lk = Allow \<longleftrightarrow> permitted env lk (Anchor (rq_anchor rq))"
proof (cases "anchorJailName (rq_anchor rq) = []")
  case True
  have "rq_anchor rq \<noteq> ''crate/'' @ jail" if "jail \<noteq> []" "CHR ''/'' \<notin> set jail" for jail
    using True that anchorJailName_iff [of jail "rq_anchor rq"] by auto
  with True show ?thesis by (auto simp: authorizeAnchor_def Let_def)
next
  case False
  let ?j = "anchorJailName (rq_anchor rq)"
  have a: "rq_anchor rq = ''crate/'' @ ?j" "CHR ''/'' \<notin> set ?j" using anchorJailName_iff [OF False] by blast+
  have "authorizeAnchor rq env lk = Allow \<longleftrightarrow> checkOwnedName ?j env lk = Allow"
    using False checkOwnedName_deny [of ?j env lk] by (auto simp: authorizeAnchor_def Let_def)
  also have "\<dots> \<longleftrightarrow> permitted env lk (Anchor (''crate/'' @ ?j))"
    using False a(2) by (simp add: checkOwnedName_Allow)
  finally show ?thesis by (simp only: a(1) [symmetric])
qed

lemmas gate_Allow = checkOwnedJid_Allow checkOwnedJidStrict_Allow checkOwnedName_Allow checkOwnedIface_Allow
  checkOwnedDevfsRuleset_Allow checkOwnedPath_Allow authorizeAnchor_Allow

lemma and_then_Allow [simp]: "and_then d e = Allow \<longleftrightarrow> d = Allow \<and> e = Allow"
  by (auto simp: and_then_def)

lemma authorize_policy: "authorize v rq env lk = Allow \<longleftrightarrow> list_all (permitted env lk) (targets v rq)"
proof (cases v)
  case CreateJail
  then show ?thesis by (simp add: authorize_def pathOwned_def)
next
  case AttachZfs
  then show ?thesis by (simp add: authorize_def authorizeZfs_def datasetOwned_def gate_Allow del: permitted.simps(3))
next
  case DetachZfs
  then show ?thesis by (simp add: authorize_def authorizeZfs_def datasetOwned_def gate_Allow del: permitted.simps(3))
next
  case MountNullfs
  then show ?thesis by (simp add: authorize_def gate_Allow sourceForeign_def pathOwned_def del: permitted.simps(7))
qed (simp_all add: authorize_def gate_Allow del: permitted.simps(3-8) permitted.simps(10,11))


section \<open>Operators do not reach each other\<close>

lemma ownedUnder_slash: "p \<noteq> [] \<Longrightarrow> last p \<noteq> CHR ''/'' \<Longrightarrow> ownedUnder x p \<longleftrightarrow> slash_under p x"
  by (auto simp: ownedUnder_def slash_under_def)

lemma last_dec [simp]: "last (dec n) \<noteq> CHR ''/''"
  using dec_char_digit [of "last (dec n)" n] by (auto simp: is_digit_def)

lemma slash_notin_dec [simp]: "CHR ''/'' \<notin> set (dec n)"
  by (rule dec_not_in) (simp add: is_digit_def)

text \<open>The slices \<^verbatim>\<open><master>/<uid>\<close> of two operators have nothing in common.\<close>

lemma slices_disjoint:
  assumes "u \<noteq> v" "slash_under (m @ CHR ''/'' # dec u) x" "slash_under (m @ CHR ''/'' # dec v) x"
  shows False
proof -
  have no: "\<not> slash_under (m @ CHR ''/'' # dec a) (m @ CHR ''/'' # dec b)" if "a \<noteq> b" for a b
  proof
    assume "slash_under (m @ CHR ''/'' # dec a) (m @ CHR ''/'' # dec b)"
    with that obtain r where "dec b = dec a @ CHR ''/'' # r" by (auto simp: slash_under_iff)
    then have "CHR ''/'' \<in> set (dec b)" by simp
    then show False by simp
  qed
  show False
    using slash_under_chain [OF assms(2,3)] slash_under_chain [OF assms(3,2)] no [of u v] no [of v u] assms(1)
    by (metis linear)
qed

lemma composeForUid_base:
  assumes "u \<le> 2147483647"
  shows "zfsPrefix (fst (composeForUid cfg u)) = zfsPrefix (base_env cfg u)"
    "pathPrefix (fst (composeForUid cfg u)) = pathPrefix (base_env cfg u)"
    "pathMasterPrefix (fst (composeForUid cfg u)) = pathMasterPrefix (base_env cfg u)"
    "env_loginclass (fst (composeForUid cfg u)) = loginclassName u"
    "env_uid (fst (composeForUid cfg u)) = u"
proof -
  have "validateUid (int u) = []" using assms by (simp add: validateUid_def)
  then show "zfsPrefix (fst (composeForUid cfg u)) = zfsPrefix (base_env cfg u)"
    "pathPrefix (fst (composeForUid cfg u)) = pathPrefix (base_env cfg u)"
    "pathMasterPrefix (fst (composeForUid cfg u)) = pathMasterPrefix (base_env cfg u)"
    "env_loginclass (fst (composeForUid cfg u)) = loginclassName u"
    "env_uid (fst (composeForUid cfg u)) = u"
    by (simp_all add: composeForUid_def base_env_def empty_env_def Let_def split: sum.split)
qed

lemma base_env_prefixes:
  assumes "zfsMasterPrefix cfg \<noteq> []" "cfg_pathMasterPrefix cfg \<noteq> []"
  shows "zfsPrefix (base_env cfg u) = strip_slash (zfsMasterPrefix cfg) @ CHR ''/'' # dec u"
    "pathPrefix (base_env cfg u) = strip_slash (cfg_pathMasterPrefix cfg) @ CHR ''/'' # dec u"
  using assms by (simp_all add: base_env_def composePerUserPrefix_def)

lemma slice_owned: "ownedUnder x (m @ CHR ''/'' # dec u) \<longleftrightarrow> slash_under (m @ CHR ''/'' # dec u) x"
  by (simp add: ownedUnder_slash)

definition env_of :: "per_user_config \<Rightarrow> nat \<Rightarrow> per_user_env" where
  "env_of cfg uid = fst (composeForUid cfg uid)"

text \<open>
  The targets that have at most one owner: by configuration alone (datasets, login classes, paths
  and the strict jid rule), or because a registry knows the owner.
\<close>

definition registered :: "('k \<Rightarrow> owner) option \<Rightarrow> 'k \<Rightarrow> bool" where
  "registered lk k = (case lk of None \<Rightarrow> False | Some f \<Rightarrow> known (f k))"

fun claimed :: "OwnerLookup \<Rightarrow> target \<Rightarrow> bool" where
  "claimed lk (AnyJid j) = registered (byJid lk) j"
| "claimed lk (JailName n) = registered (byName lk) n"
| "claimed lk (Anchor a) = registered (byName lk) (drop 6 a)"
| "claimed lk (Iface i) = registered (byIface lk) i"
| "claimed lk (DevfsRuleset n) = registered (byDevfsRuleset lk) n"
| "claimed lk (Source p) = False"
| "claimed lk _ = True"

lemma registered_exclusive:
  assumes "registered lk k" "unclaimed_or_own lk u k" "unclaimed_or_own lk v k"
  shows "u = v"
  using assms by (auto simp: registered_def unclaimed_or_own_def split: option.splits)

lemma env_of_prefixes:
  assumes "zfsMasterPrefix cfg \<noteq> []" "strip_slash (cfg_pathMasterPrefix cfg) \<noteq> []" "w \<le> 2147483647"
  shows "zfsPrefix (env_of cfg w) = strip_slash (zfsMasterPrefix cfg) @ CHR ''/'' # dec w"
    "pathPrefix (env_of cfg w) = strip_slash (cfg_pathMasterPrefix cfg) @ CHR ''/'' # dec w"
    "pathMasterPrefix (env_of cfg w) \<noteq> []" "env_loginclass (env_of cfg w) = loginclassName w" "env_uid (env_of cfg w) = w"
proof -
  have pm: "cfg_pathMasterPrefix cfg \<noteq> []" using assms(2) by (auto simp: strip_slash_def)
  show "zfsPrefix (env_of cfg w) = strip_slash (zfsMasterPrefix cfg) @ CHR ''/'' # dec w"
    "pathPrefix (env_of cfg w) = strip_slash (cfg_pathMasterPrefix cfg) @ CHR ''/'' # dec w"
    "env_loginclass (env_of cfg w) = loginclassName w" "env_uid (env_of cfg w) = w"
    "pathMasterPrefix (env_of cfg w) \<noteq> []"
    using composeForUid_base [OF assms(3)] base_env_prefixes [OF assms(1) pm] assms(2) pm
    by (simp_all add: env_of_def) (simp add: base_env_def)
qed

lemma claimed_exclusive:
  assumes uv: "u \<noteq> v" "u \<le> 2147483647" "v \<le> 2147483647"
    and cfg: "zfsMasterPrefix cfg \<noteq> []" "strip_slash (cfg_pathMasterPrefix cfg) \<noteq> []"
    and t: "claimed lk t" and u: "permitted (env_of cfg u) lk t" and v: "permitted (env_of cfg v) lk t"
  shows False
proof -
  let ?zu = "strip_slash (zfsMasterPrefix cfg)" and ?pu = "strip_slash (cfg_pathMasterPrefix cfg)"
  note env = env_of_prefixes [OF cfg]
  note reg = registered_exclusive [of _ _ u v]
  have zfs: "\<not> (ownedUnder x (?zu @ CHR ''/'' # dec u) \<and> ownedUnder x (?zu @ CHR ''/'' # dec v))"
    and path: "\<not> (ownedUnder x (?pu @ CHR ''/'' # dec u) \<and> ownedUnder x (?pu @ CHR ''/'' # dec v))" for x
    using slices_disjoint [OF uv(1)] by (auto simp: slice_owned)
  show False
  proof (cases t)
    case (Path p)
    with u v uv show False
      using path [of p] reg [of "byPath lk" p] by (auto simp: env registered_def split: if_splits)
  next
    case (Anchor a)
    with u v t uv show False using reg [of "byName lk" "drop 6 a"] by (auto simp: env)
  next
    case (Iface i)
    with u v t uv show False using reg [of "byIface lk" i] by (auto simp: env registered_def)
  next
    case (OwnJid j)
    with u v uv show False by (auto simp: env owned_by_def)
  qed (use u v t uv zfs path reg in \<open>auto simp: env\<close>)
qed


definition sample_cfg :: per_user_config where
  "sample_cfg = \<lparr>zfsMasterPrefix = ''tank/jails'', cfg_pathMasterPrefix = ''/jails/'', networkMasterCidr4 = [],
     networkSubPrefixLen4 = 24, networkMasterCidr6 = [], networkSubPrefixLen6 = 64\<rparr>"

definition sample_request :: authz_request where
  "sample_request = empty_request\<lparr>rq_dataset := ''tank/jails/'' @ dec 1001 @ ''/web'', rq_jid := 7\<rparr>"

lemma sample_allowed: "authorize AttachZfs sample_request (env_of sample_cfg 1001) nullLookup = Allow"
  by (simp add: authorize_policy sample_request_def env_of_def composeForUid_base base_env_def sample_cfg_def
      composePerUserPrefix_def strip_slash_def ownedUnder_slash slash_under_iff unclaimed_or_own_def nullLookup_def
      no_owner_def)




end
