(* ===== verification/Dispatch.thy ===== *)
theory Dispatch
  imports Handlers Authz
begin

text \<open>
  The dispatchers of crated, \<^verbatim>\<open>daemon/privops_handlers.cpp\<close>: the authorise-before-dispatch gate on the
  libnv transport with the registries plugged into the lookup callbacks, the claims on private devfs
  rulesets, the verb switch (parse, validate, handle), the bookkeeping after a handler has
  succeeded, the HTTP dispatcher, and the connection handler of \<^verbatim>\<open>daemon/privops_listener.cpp\<close>.
  One request is one step on the daemon's state. Within a request each registry file is writable or
  not; the liveness probes answer the same throughout.
\<close>

section \<open>State and environment\<close>

record DevfsRulesetClaim =
  dc_uid :: nat
  dc_mountPath :: string

record daemon =
  d_jids :: "jid_registry option"
  d_ifaces :: "iface_registry option"
  d_claims :: "(nat, DevfsRulesetClaim) stdmap"
  d_fw :: "fw_world option"
  d_cfg :: per_user_config
  d_umbrella :: "(string \<times> string) list"

record env =
  e_host :: host
  jidWritable :: bool
  ifaceWritable :: bool
  fwWritable :: bool
  jidProbe :: jid_probe
  ifaceProbe :: iface_probe
  sysctls :: sysctl_io
  jailBefore :: "string \<Rightarrow> int option"
  jailAfter :: "string \<Rightarrow> int option"
  devfsMountLive :: "string \<Rightarrow> bool"
  devfsRulesetEmpty :: "nat \<Rightarrow> bool"
  now :: int

section \<open>Claims on devfs rulesets\<close>

definition devfsRulesetOwner :: "env \<Rightarrow> nat \<Rightarrow> (nat, DevfsRulesetClaim) stdmap \<Rightarrow> owner \<times> (nat, DevfsRulesetClaim) stdmap" where
  "devfsRulesetOwner e ruleset claims =
     (case map_find claims ruleset of
        Some c \<Rightarrow>
          if devfsMountLive e (dc_mountPath c) then (owned_by (dc_uid c), claims)
          else (no_owner, map_erase ruleset claims)
      | None \<Rightarrow> (if devfsRulesetEmpty e ruleset then no_owner else owned_by 0, claims))"

definition claimDevfsRuleset :: "env \<Rightarrow> nat \<Rightarrow> nat \<Rightarrow> string \<Rightarrow> bool \<Rightarrow> (nat, DevfsRulesetClaim) stdmap \<Rightarrow> bool \<times> (nat, DevfsRulesetClaim) stdmap" where
  "claimDevfsRuleset e ruleset uid mountPath force claims =
     (let taken = (case map_find claims ruleset of
                     None \<Rightarrow> False
                   | Some c \<Rightarrow> dc_uid c \<noteq> uid \<and> devfsMountLive e (dc_mountPath c)) in
      if \<not> force \<and> taken then (False, claims)
      else (True, map_put ruleset \<lparr>dc_uid = uid, dc_mountPath = mountPath\<rparr> claims))"

section \<open>The gate of the libnv transport\<close>

definition field :: "FieldMap \<Rightarrow> string \<Rightarrow> string" where
  "field m key = (case m key of None \<Rightarrow> [] | Some s \<Rightarrow> s)"

text \<open>\<^verbatim>\<open>std::stoul\<close>: white space, an optional sign, a digit prefix; \<^term>\<open>None\<close> when it throws.\<close>

definition stoul :: "string \<Rightarrow> nat option" where
  "stoul s =
     (let t = dropWhile is_space s;
          neg = (t \<noteq> [] \<and> hd t = CHR ''-'');
          u = (if t \<noteq> [] \<and> (hd t = CHR ''-'' \<or> hd t = CHR ''+'') then tl t else t);
          ds = takeWhile is_digit u in
      if ds = [] then None
      else if dec_val ds \<ge> 2 ^ 64 then None
      else Some (if neg then (2 ^ 64 - dec_val ds) mod 2 ^ 64 else dec_val ds))"

text \<open>\<^verbatim>\<open>static_cast<unsigned>(std::stoul(s))\<close>, 0 when it throws or there is no text.\<close>

definition to_unsigned :: "string \<Rightarrow> nat" where
  "to_unsigned s = (if s = [] then 0 else case stoul s of None \<Rightarrow> 0 | Some n \<Rightarrow> n mod 2 ^ 32)"

definition gate_path :: "verb \<Rightarrow> FieldMap \<Rightarrow> string" where
  "gate_path v m =
     (if v \<in> {MountNullfs, UnmountNullfs, MountTmpfs} then field m ''target''
      else if v \<in> {ApplyDevfsRuleset, AddDevfsUnhideRule, ApplyDevfsRules} then field m ''mount_path''
      else if v = CreateJail then field m ''path''
      else [])"

definition gate_ifname :: "verb \<Rightarrow> FieldMap \<Rightarrow> string" where
  "gate_ifname v m =
     (if v \<in> {ConfigureIface, TeardownIface, SetIfaceUp, DisableIfaceOffload, SetIfaceInetAddr, SetIfaceMac, ReclaimIfaceFromVnet}
      then field m ''ifname''
      else if v \<in> {BridgeAddMember, BridgeDelMember} then field m ''member''
      else [])"

definition gate_request :: "verb \<Rightarrow> FieldMap \<Rightarrow> authz_request" where
  "gate_request v m =
     \<lparr>rq_dataset = field m ''dataset'',
      rq_loginclass = field m ''loginclass'',
      rq_jailName = (if v = ReclaimIfaceFromVnet then field m ''jail_name'' else field m ''name''),
      rq_jid = to_unsigned (field m ''jid''),
      rq_path = gate_path v m,
      rq_source = (if v = MountNullfs then field m ''source'' else []),
      rq_anchor = (if v \<in> {AddPfRule, RemovePfRule, FlushPfAnchor} then field m ''anchor'' else []),
      rq_ifname = gate_ifname v m,
      rq_devfsRuleset = (if v = ApplyDevfsRules then to_unsigned (field m ''ruleset'') else 0)\<rparr>"

definition makeLookup :: "env \<Rightarrow> jid_registry \<Rightarrow> OwnerLookup" where
  "makeLookup e r = nullLookup
     \<lparr>byJid := Some (\<lambda>j. fst (jid_lookupByJid (jidWritable e) (jidProbe e) j r)),
      byName := Some (\<lambda>n. fst (jid_lookupByName_registry (jidWritable e) (jidProbe e) n r)),
      byPath := Some (\<lambda>p. jid_lookupByPath p r)\<rparr>"

definition gate_lookup :: "env \<Rightarrow> daemon \<Rightarrow> OwnerLookup" where
  "gate_lookup e d =
     (case d_jids d of None \<Rightarrow> nullLookup | Some r \<Rightarrow> makeLookup e r)
     \<lparr>byIface := (case d_ifaces d of
         None \<Rightarrow> None
       | Some r \<Rightarrow> Some (\<lambda>i. fst (iface_lookup (ifaceWritable e) (ifaceProbe e) i r))),
      byDevfsRuleset := Some (\<lambda>n. fst (devfsRulesetOwner e n (d_claims d)))\<rparr>"

text \<open>
  A lookup evicts the entry it finds stale. The gate consults the callbacks in the order of the
  targets and stops at the first denial, so these are the registries it leaves behind.
\<close>

definition on_jids :: "(jid_registry \<Rightarrow> jid_registry) \<Rightarrow> daemon \<Rightarrow> daemon" where
  "on_jids f d = d\<lparr>d_jids := map_option f (d_jids d)\<rparr>"

definition on_ifaces :: "(iface_registry \<Rightarrow> iface_registry) \<Rightarrow> daemon \<Rightarrow> daemon" where
  "on_ifaces f d = d\<lparr>d_ifaces := map_option f (d_ifaces d)\<rparr>"

fun consult :: "env \<Rightarrow> target \<Rightarrow> daemon \<Rightarrow> daemon" where
  "consult e (AnyJid j) d = on_jids (\<lambda>r. snd (jid_lookupByJid (jidWritable e) (jidProbe e) j r)) d"
| "consult e (OwnJid j) d = on_jids (\<lambda>r. snd (jid_lookupByJid (jidWritable e) (jidProbe e) j r)) d"
| "consult e (JailName n) d = on_jids (\<lambda>r. snd (jid_lookupByName_registry (jidWritable e) (jidProbe e) n r)) d"
| "consult e (Anchor a) d =
     (if anchorJailName a = [] then d
      else on_jids (\<lambda>r. snd (jid_lookupByName_registry (jidWritable e) (jidProbe e) (anchorJailName a) r)) d)"
| "consult e (Iface i) d =
     (if isEpairIfaceName i then on_ifaces (\<lambda>r. snd (iface_lookup (ifaceWritable e) (ifaceProbe e) i r)) d else d)"
| "consult e (DevfsRuleset n) d =
     (if isPrivateDevfsRuleset n then d\<lparr>d_claims := snd (devfsRulesetOwner e n (d_claims d))\<rparr> else d)"
| "consult e _ d = d"

text \<open>Whether the check of the gate behind a target passes.\<close>

fun clears :: "per_user_env \<Rightarrow> OwnerLookup \<Rightarrow> target \<Rightarrow> bool" where
  "clears env lk (Dataset d) = datasetOwned d (zfsPrefix env)"
| "clears env lk (Loginclass l) = (l = env_loginclass env)"
| "clears env lk (AnyJid j) = (checkOwnedJid j env lk = Allow)"
| "clears env lk (OwnJid j) = (checkOwnedJidStrict j env lk = Allow)"
| "clears env lk (JailName n) = (checkOwnedName n env lk = Allow)"
| "clears env lk (Anchor a) = (authorizeAnchor (empty_request\<lparr>rq_anchor := a\<rparr>) env lk = Allow)"
| "clears env lk (Path p) = (checkOwnedPath p env lk = Allow)"
| "clears env lk (NewPath p) = pathOwned p (pathPrefix env)"
| "clears env lk (Source p) = (\<not> sourceForeign p env)"
| "clears env lk (Iface i) = (checkOwnedIface i env lk = Allow)"
| "clears env lk (DevfsRuleset n) = (checkOwnedDevfsRuleset n env lk = Allow)"
| "clears env lk Forbidden = False"

lemma clears_permitted: "clears env lk t \<longleftrightarrow> permitted env lk t"
  by (cases t) (simp_all add: gate_Allow datasetOwned_def pathOwned_def sourceForeign_def empty_request_def
      del: permitted.simps(3-7) permitted.simps(10,11))

fun consult_all :: "env \<Rightarrow> (target \<Rightarrow> bool) \<Rightarrow> target list \<Rightarrow> daemon \<Rightarrow> daemon" where
  "consult_all e allowed [] d = d"
| "consult_all e allowed (t # ts) d =
     (if allowed t then consult_all e allowed ts (consult e t d) else consult e t d)"

definition gate :: "env \<Rightarrow> nat \<Rightarrow> verb \<Rightarrow> FieldMap \<Rightarrow> daemon \<Rightarrow> Decision \<times> daemon" where
  "gate e uid v m d =
     (let penv = fst (composeForUid (d_cfg d) uid); rq = gate_request v m; lk = gate_lookup e d;
          dcn = authorize v rq penv lk;
          d1 = consult_all e (clears penv lk) (targets v rq) d in
      if dcn = Allow \<and> v = ApplyDevfsRules
      then let (won, claims) = claimDevfsRuleset e (rq_devfsRuleset rq) uid (field m ''mount_path'') False (d_claims d1)
           in (if won then Allow else DenyForeignDevfsRuleset, d1\<lparr>d_claims := claims\<rparr>)
      else (dcn, d1))"

section \<open>The verb switch\<close>

type_synonym served = "os_op list \<times> DispatchResult"

definition with_fw :: "served \<Rightarrow> fw_world option \<Rightarrow> served \<times> fw_world option" where
  "with_fw s reg = (s, reg)"

text \<open>The call in each case of the switch, after parsing and validation.\<close>

fun handle :: "env \<Rightarrow> nat \<Rightarrow> ExecIo option \<Rightarrow> fw_world option \<Rightarrow> request \<Rightarrow> served \<times> fw_world option" where
  "handle e uid io reg (R_CreateJail r) = with_fw (handleCreateJail (e_host e) r) reg"
| "handle e uid io reg (R_DestroyJail r) = with_fw (handleDestroyJail (e_host e) r) reg"
| "handle e uid io reg (R_MountNullfs r) = with_fw (handleMountNullfs (e_host e) r) reg"
| "handle e uid io reg (R_UnmountNullfs r) = with_fw (handleUnmountNullfs (e_host e) r) reg"
| "handle e uid io reg (R_SetRctl r) = with_fw (handleSetRctl (e_host e) r) reg"
| "handle e uid io reg (R_ClearRctl r) = with_fw (handleClearRctl (e_host e) r) reg"
| "handle e uid io reg (R_AttachZfs r) = with_fw (handleAttachZfs (e_host e) r) reg"
| "handle e uid io reg (R_DetachZfs r) = with_fw (handleDetachZfs (e_host e) r) reg"
| "handle e uid io reg (R_ConfigureIface r) = with_fw (handleConfigureIface (e_host e) r) reg"
| "handle e uid io reg (R_TeardownIface r) = with_fw (handleTeardownIface (e_host e) r) reg"
| "handle e uid io reg (R_AddPfRule r) = with_fw (handleAddPfRule (e_host e) r) reg"
| "handle e uid io reg (R_RemovePfRule r) = with_fw (handleRemovePfRule (e_host e) r) reg"
| "handle e uid io reg (R_AddIpfwRule r) = with_fw (handleAddIpfwRule (e_host e) r) reg"
| "handle e uid io reg (R_RemoveIpfwRule r) = with_fw (handleRemoveIpfwRule (e_host e) r) reg"
| "handle e uid io reg (R_SetIfaceUp r) = with_fw (handleSetIfaceUp (e_host e) r) reg"
| "handle e uid io reg (R_DisableIfaceOffload r) = with_fw (handleDisableIfaceOffload (e_host e) r) reg"
| "handle e uid io reg (R_BridgeAddMember r) = with_fw (handleBridgeAddMember (e_host e) r) reg"
| "handle e uid io reg (R_BridgeDelMember r) = with_fw (handleBridgeDelMember (e_host e) r) reg"
| "handle e uid io reg (R_SetIfaceInetAddr r) = with_fw (handleSetIfaceInetAddr (e_host e) r) reg"
| "handle e uid io reg R_CreateEpair = with_fw (handleCreateEpair (e_host e)) reg"
| "handle e uid io reg R_EnsureUserRoot = with_fw (handleEnsureUserRoot (e_host e) uid) reg"
| "handle e uid io reg (R_SetLoginclassRctl r) = with_fw (handleSetLoginclassRctl (e_host e) r) reg"
| "handle e uid io reg (R_ClearLoginclassRctl r) = with_fw (handleClearLoginclassRctl (e_host e) r) reg"
| "handle e uid io reg (R_ReclaimIfaceFromVnet r) = with_fw (handleReclaimIfaceFromVnet (e_host e) r) reg"
| "handle e uid io reg (R_FlushPfAnchor r) = with_fw (handleFlushPfAnchor (e_host e) r) reg"
| "handle e uid io reg (R_QueryJailRctl r) = with_fw (handleQueryJailRctl (e_host e) r) reg"
| "handle e uid io reg (R_ConfigureIpfwNat r) = with_fw (handleConfigureIpfwNat (e_host e) r) reg"
| "handle e uid io reg (R_SetJailCpuset r) = with_fw (handleSetJailCpuset (e_host e) r) reg"
| "handle e uid io reg (R_ApplyDevfsRuleset r) = with_fw (handleApplyDevfsRuleset (e_host e) r) reg"
| "handle e uid io reg (R_AddDevfsUnhideRule r) = with_fw (handleAddDevfsUnhideRule (e_host e) r) reg"
| "handle e uid io reg (R_ApplyDevfsRules r) = with_fw (handleApplyDevfsRules (e_host e) r) reg"
| "handle e uid io reg (R_MountTmpfs r) = with_fw (handleMountTmpfs (e_host e) r) reg"
| "handle e uid io reg (R_SignalJail r) = with_fw (handleSignalJail (e_host e) r) reg"
| "handle e uid io reg (R_SetIfaceMac r) = with_fw (handleSetIfaceMac (e_host e) r) reg"
| "handle e uid io reg (R_DeleteIpfwNat r) = with_fw (handleDeleteIpfwNat (e_host e) r) reg"
| "handle e uid io reg (R_CreateBridge r) = with_fw (handleCreateBridge (e_host e) r) reg"
| "handle e uid io reg (R_ExecInJail r) =
     with_fw (case io of
         None \<Rightarrow> ([], fail 400 ''missing_descriptors'' ''exec_in_jail needs stdin/stdout/stderr descriptors'')
       | Some fds \<Rightarrow> handleExecInJail (e_host e) r fds) reg"
| "handle e uid io reg (R_AcquireFwLease r) =
     (let (res, reg') = handleAcquireFwLease (e_host e) (sysctls e) (fwWritable e) r reg in (([], res), reg'))"
| "handle e uid io reg (R_ReleaseFwLease r) =
     (let (res, reg') = handleReleaseFwLease (e_host e) (sysctls e) (fwWritable e) r reg in (([], res), reg'))"

definition serve :: "env \<Rightarrow> nat \<Rightarrow> ExecIo option \<Rightarrow> fw_world option \<Rightarrow> request res \<Rightarrow> served \<times> fw_world option" where
  "serve e uid io reg parsed =
     (case parsed of
        Inl err \<Rightarrow> (([], \<lparr>dr_status = 400, dr_body = formatParseError err\<rparr>), reg)
      | Inr r \<Rightarrow>
        if validate_request r \<noteq> [] then (([], \<lparr>dr_status = 400, dr_body = formatValidateError (validate_request r)\<rparr>), reg)
        else handle e uid io reg r)"

section \<open>Bookkeeping after the handler\<close>

definition outcomeFor :: "nat \<Rightarrow> string" where
  "outcomeFor st =
     (if 200 \<le> st \<and> st < 300 then ''ok''
      else if st = 400 then ''parse_or_validate''
      else if st = 403 then ''forbidden''
      else if st = 404 then ''not_found''
      else if st = 429 then ''rate_limit''
      else if 500 \<le> st \<and> st < 600 then ''server_error''
      else ''other'')"

definition formatLine :: "int \<Rightarrow> nat \<Rightarrow> verb \<Rightarrow> nat \<Rightarrow> string" where
  "formatLine ts uid v st =
     json_obj [json_raw ''ts'' (dec_int ts), json_raw ''uid'' (dec uid), json_str ''verb'' (verbName v),
       json_raw ''status'' (dec st), json_key ''outcome'' @ DQ # outcomeFor st @ [DQ]]"

definition maybeWritePerUserAudit :: "env \<Rightarrow> bool \<Rightarrow> nat \<Rightarrow> verb \<Rightarrow> nat \<Rightarrow> os_op list" where
  "maybeWritePerUserAudit e rootlessPerUser uid v st =
     (if \<not> rootlessPerUser \<or> uid = 0 then [] else [AppendAudit uid (formatLine (now e) uid v st)])"

definition maybeApplyUmbrella :: "(string \<times> string) list \<Rightarrow> verb \<Rightarrow> nat \<Rightarrow> nat \<Rightarrow> os_op list" where
  "maybeApplyUmbrella rules v uid st =
     (if v \<noteq> CreateJail \<or> uid = 0 \<or> st < 200 \<or> st \<ge> 300 then []
      else map (\<lambda>kv. Exec [''/usr/bin/rctl'', ''-a'', buildRule (''loginclass:crate-'' @ dec uid) (fst kv) (snd kv)]) rules)"

text \<open>A failed registry write is caught and logged; the changed map stays in memory.\<close>

definition maybeUpdateJidOwnerRegistry :: "env \<Rightarrow> verb \<Rightarrow> nat \<Rightarrow> FieldMap \<Rightarrow> nat \<Rightarrow> nat \<Rightarrow> daemon \<Rightarrow> daemon" where
  "maybeUpdateJidOwnerRegistry e v uid m st preDestroyJid d =
     (if uid = 0 \<or> st < 200 \<or> st \<ge> 300 \<or> field m ''name'' = [] then d
      else if v = CreateJail then
        (case jailAfter e (field m ''name'') of
           None \<Rightarrow> d
         | Some jid \<Rightarrow>
           on_jids (\<lambda>r. snd (recordCreate (jidWritable e) (nat (jid mod 2 ^ 32)) uid (field m ''name'') (field m ''path'') r)) d)
      else if v = DestroyJail then
        on_jids (\<lambda>r.
          if preDestroyJid = 0 then snd (forgetByName (jidWritable e) (field m ''name'') r)
          else (case forgetByJid (jidWritable e) preDestroyJid r of
                  (Some False, r') \<Rightarrow> snd (forgetByName (jidWritable e) (field m ''name'') r')
                | (_, r') \<Rightarrow> r')) d
      else d)"

definition maybeUpdateIfaceOwnerRegistry :: "env \<Rightarrow> verb \<Rightarrow> nat \<Rightarrow> FieldMap \<Rightarrow> DispatchResult \<Rightarrow> daemon \<Rightarrow> daemon" where
  "maybeUpdateIfaceOwnerRegistry e v uid m result d =
     (if uid = 0 \<or> dr_status result < 200 \<or> dr_status result \<ge> 300 then d
      else if v = CreateEpair then
        (case (extractStringField (dr_body result) ''a'' [], extractStringField (dr_body result) ''b'' []) of
           ((a, FPresent), (b, FPresent)) \<Rightarrow> on_ifaces (\<lambda>r. snd (recordEpair (ifaceWritable e) a b uid r)) d
         | _ \<Rightarrow> d)
      else if v = TeardownIface then
        if field m ''ifname'' = [] then d
        else on_ifaces (\<lambda>r. snd (forgetPair (ifaceWritable e) (field m ''ifname'') r)) d
      else d)"

section \<open>The dispatchers\<close>

definition preDestroyJid :: "env \<Rightarrow> verb \<Rightarrow> FieldMap \<Rightarrow> nat" where
  "preDestroyJid e v m =
     (if v \<noteq> DestroyJail \<or> field m ''name'' = [] then 0
      else case jailBefore e (field m ''name'') of
        None \<Rightarrow> 0
      | Some jid \<Rightarrow> if jid > 0 then nat jid else 0)"

definition no_verb :: DispatchResult where
  "no_verb = \<lparr>dr_status = 404, dr_body = json_error (''unknown or missing '' @ quoted ''verb'' @ '' field'')\<rparr>"

text \<open>Everything after the gate.\<close>

definition run_verb :: "env \<Rightarrow> bool \<Rightarrow> nat \<Rightarrow> ExecIo option \<Rightarrow> FieldMap \<Rightarrow> daemon \<Rightarrow> served \<times> daemon" where
  "run_verb e rootlessPerUser uid io m d =
     (let v = extractVerb m;
          pre = preDestroyJid e v m;
          ((ops, result), fw1) = (if v = Unknown then (([], no_verb), d_fw d)
                                  else serve e uid io (d_fw d) (parse_request v m));
          st = dr_status result;
          d1 = maybeUpdateJidOwnerRegistry e v uid m st pre (d\<lparr>d_fw := fw1\<rparr>);
          d2 = maybeUpdateIfaceOwnerRegistry e v uid m result d1;
          d3 = d2\<lparr>d_fw := maybeReleaseFwLease (sysctls e) (fwWritable e) v st pre (d_fw d2)\<rparr> in
      ((ops @ maybeWritePerUserAudit e rootlessPerUser uid v st @ maybeApplyUmbrella (d_umbrella d) v uid st, result), d3))"

definition dispatchPrivOpFromMap :: "env \<Rightarrow> bool \<Rightarrow> nat \<Rightarrow> ExecIo option \<Rightarrow> FieldMap \<Rightarrow> daemon \<Rightarrow> served \<times> daemon" where
  "dispatchPrivOpFromMap e rootlessPerUser uid io m d =
     (let v = extractVerb m in
      if rootlessPerUser \<and> uid > 0 then
        case gate e uid v m d of
          (Allow, d1) \<Rightarrow> run_verb e rootlessPerUser uid io m d1
        | (dcn, d1) \<Rightarrow> (([], \<lparr>dr_status = 403, dr_body = formatHandlerError ''forbidden'' (decisionReason dcn)\<rparr>), d1)
      else if v = ApplyDevfsRules then
        run_verb e rootlessPerUser uid io m
          (d\<lparr>d_claims := snd (claimDevfsRuleset e (to_unsigned (field m ''ruleset'')) uid (field m ''mount_path'') True (d_claims d))\<rparr>)
      else run_verb e rootlessPerUser uid io m d)"

text \<open>The HTTP dispatcher: the caller is the administrator, no registry is updated.\<close>

definition dispatchPrivOp :: "env \<Rightarrow> bool \<Rightarrow> nat \<Rightarrow> verb \<Rightarrow> string \<Rightarrow> daemon \<Rightarrow> served \<times> daemon" where
  "dispatchPrivOp e rootlessPerUser uid v b d =
     (let ((ops, result), fw1) =
        (if v = Unknown then (([], parseValidateAndDispatch v b), d_fw d)
         else if v = ExecInJail
         then (([], fail 400 ''transport_unsupported'' ''exec_in_jail is only available over the libnv privops socket''), d_fw d)
         else serve e uid None (d_fw d) (parse_json v b)) in
      ((ops @ maybeWritePerUserAudit e rootlessPerUser uid v (dr_status result), result), d\<lparr>d_fw := fw1\<rparr>))"

text \<open>
  One connection of the privops socket: the peer uid (\<^term>\<open>None\<close> when \<^verbatim>\<open>getpeereid\<close> fails), the peeked
  header bytes or the reason they could not be read, and the received fields.
\<close>

definition handleConnection :: "env \<Rightarrow> bool \<Rightarrow> nat option \<Rightarrow> 8 word list res \<Rightarrow> FieldMap option \<Rightarrow> ExecIo \<Rightarrow> daemon \<Rightarrow> served \<times> daemon" where
  "handleConnection e rootlessPerUser peer hdr fm io d =
     (let peerUid = (case peer of None \<Rightarrow> 0 | Some u \<Rightarrow> u);
          pre = (if rootlessPerUser \<and> peerUid > 0 then [EnsureUserRootOp peerUid] else []);
          refuse = (\<lambda>st msg. ((pre, \<lparr>dr_status = st, dr_body = json_error msg\<rparr>), d)) in
      if rootlessPerUser \<and> peer = None
      then refuse 403 (''forbidden: could not determine peer uid '' @ ''(getpeereid failed); refusing to run unauthenticated'')
      else case bind_res hdr (\<lambda>buf. bind_res (parseNvlistHeader buf) (\<lambda>hd.
             if checkNvlistHeaderLimits hd \<noteq> [] then Inl (checkNvlistHeaderLimits hd) else Inr ())) of
        Inl why \<Rightarrow> refuse 413 why
      | Inr _ \<Rightarrow>
        (case fm of
           None \<Rightarrow> refuse 400 ''nvlist_recv failed (malformed request or closed)''
         | Some m \<Rightarrow>
           let ((ops, result), d') = dispatchPrivOpFromMap e rootlessPerUser peerUid (Some io) m d
           in ((pre @ ops, result), d')))"

section \<open>No operation without identity, authorisation and validation\<close>

text \<open>What the daemon does on its own account for the peer of a connection.\<close>

fun bookkeeping :: "nat \<Rightarrow> os_op \<Rightarrow> bool" where
  "bookkeeping uid (AppendAudit u _) = (u = uid)"
| "bookkeeping uid (EnsureUserRootOp u) = (u = uid)"
| "bookkeeping uid _ = False"

definition validated :: "FieldMap \<Rightarrow> request \<Rightarrow> bool" where
  "validated m r \<longleftrightarrow> parse_request (extractVerb m) m = Inr r \<and> validate_request r = []"

lemma serve_refused:
  assumes "\<nexists>r. parsed = Inr r \<and> validate_request r = []"
  shows "\<exists>b. serve e uid io reg parsed = (([], \<lparr>dr_status = 400, dr_body = b\<rparr>), reg)"
  using assms by (auto simp: serve_def split: sum.splits)

lemma run_verb_refused:
  assumes "\<nexists>r. validated m r" "p \<in> set (fst (fst (run_verb e rootless uid io m d)))"
  shows "bookkeeping uid p"
proof (cases "extractVerb m = Unknown")
  case True
  with assms(2) show ?thesis
    by (auto simp: run_verb_def Let_def no_verb_def maybeWritePerUserAudit_def maybeApplyUmbrella_def split: if_splits)
next
  case False
  obtain b where "serve e uid io (d_fw d) (parse_request (extractVerb m) m) = (([], \<lparr>dr_status = 400, dr_body = b\<rparr>), d_fw d)"
    using serve_refused [of "parse_request (extractVerb m) m" e uid io "d_fw d"] assms(1) by (auto simp: validated_def)
  with False assms(2) show ?thesis
    by (auto simp: run_verb_def Let_def maybeWritePerUserAudit_def maybeApplyUmbrella_def split: if_splits)
qed

definition authorised :: "env \<Rightarrow> nat \<Rightarrow> FieldMap \<Rightarrow> daemon \<Rightarrow> bool" where
  "authorised e uid m d \<longleftrightarrow>
     authorize (extractVerb m) (gate_request (extractVerb m) m) (env_of (d_cfg d) uid) (gate_lookup e d) = Allow"

lemma gate_Allow_authorised: "fst (gate e uid (extractVerb m) m d) = Allow \<Longrightarrow> authorised e uid m d"
  by (auto simp: gate_def authorised_def env_of_def Let_def split: if_splits prod.splits)

lemma dispatch_gated:
  assumes "0 < uid"
  shows "dispatchPrivOpFromMap e True uid io m d =
     (if fst (gate e uid (extractVerb m) m d) = Allow
      then run_verb e True uid io m (snd (gate e uid (extractVerb m) m d))
      else (([], \<lparr>dr_status = 403,
                 dr_body = formatHandlerError ''forbidden'' (decisionReason (fst (gate e uid (extractVerb m) m d)))\<rparr>),
            snd (gate e uid (extractVerb m) m d)))"
  using assms
  by (cases "gate e uid (extractVerb m) m d"; cases "fst (gate e uid (extractVerb m) m d)")
    (simp_all add: dispatchPrivOpFromMap_def Let_def)

lemma dispatch_op:
  assumes "p \<in> set (fst (fst (dispatchPrivOpFromMap e True uid io m d)))" "\<not> bookkeeping uid p"
  shows "(\<exists>r. validated m r) \<and> (uid = 0 \<or> authorised e uid m d)"
proof (cases "uid = 0")
  case True
  then obtain d' where "p \<in> set (fst (fst (run_verb e True uid io m d')))"
    using assms(1) by (auto simp: dispatchPrivOpFromMap_def Let_def split: if_splits)
  with assms(2) True show ?thesis using run_verb_refused by blast
next
  case False
  then have g: "fst (gate e uid (extractVerb m) m d) = Allow"
    "p \<in> set (fst (fst (run_verb e True uid io m (snd (gate e uid (extractVerb m) m d)))))"
    using assms(1) by (simp_all add: dispatch_gated split: if_splits)
  with assms(2) show ?thesis using run_verb_refused gate_Allow_authorised by blast
qed

definition peer_setup :: "nat \<Rightarrow> os_op list" where
  "peer_setup uid = (if 0 < uid then [EnsureUserRootOp uid] else [])"

definition header_ok :: "8 word list res \<Rightarrow> bool" where
  "header_ok hdr \<longleftrightarrow>
     (\<exists>buf h. hdr = Inr buf \<and> parseNvlistHeader buf = Inr h \<and> unat (nh_size h) \<le> 2 ^ 20 \<and> unat (nh_descriptors h) \<le> 3)"

lemma limits_ok: "checkNvlistHeaderLimits h = [] \<longleftrightarrow> unat (nh_size h) \<le> 2 ^ 20 \<and> unat (nh_descriptors h) \<le> 3"
  by (auto simp: checkNvlistHeaderLimits_def word_le_nat_alt word_less_nat_alt not_less kMaxNvlistRequestBytes_def
      kMaxNvlistRequestDescriptors_def split: if_splits)

lemma connection_cases:
  assumes "handleConnection e True (Some uid) hdr fm io d = ((ops, result), d')"
  shows "ops = peer_setup uid \<and> dr_status result \<in> {400, 413} \<and> d' = d \<or>
    (\<exists>m ops1. header_ok hdr \<and> fm = Some m \<and> ops = peer_setup uid @ ops1 \<and>
       dispatchPrivOpFromMap e True uid (Some io) m d = ((ops1, result), d'))"
proof (cases "bind_res hdr (\<lambda>buf. bind_res (parseNvlistHeader buf) (\<lambda>hd.
             if checkNvlistHeaderLimits hd \<noteq> [] then Inl (checkNvlistHeaderLimits hd) else Inr ()))")
  case (Inl why)
  with assms show ?thesis by (auto simp: handleConnection_def Let_def peer_setup_def)
next
  case (Inr u)
  then have h: "header_ok hdr" using limits_ok by (auto simp: header_ok_def split: if_splits)
  show ?thesis
  proof (cases fm)
    case None
    with Inr assms show ?thesis by (auto simp: handleConnection_def Let_def peer_setup_def simp del: bind_res_Inr_iff)
  next
    case (Some m)
    obtain ops1 res1 d1 where o: "dispatchPrivOpFromMap e True uid (Some io) m d = ((ops1, res1), d1)" by (metis surj_pair)
    with Inr assms Some have "ops = peer_setup uid @ ops1 \<and> result = res1 \<and> d' = d1"
      by (simp add: handleConnection_def Let_def peer_setup_def del: bind_res_Inr_iff)
    with h Some o show ?thesis by simp
  qed
qed


text \<open>A host on which every operation succeeds, and a daemon with empty registries.\<close>

definition sample_env :: env where
  "sample_env =
     \<lparr>e_host = \<lparr>getJailByJid = (\<lambda>j. Some \<lparr>ji_jid = j, ji_path = ''/jails/1001/web'', ji_dying = False\<rparr>),
        realpath = Resolved, readJailEtcFile = (\<lambda>_ _. None), outcome = (\<lambda>_ _. Inr []),
        newEpair = (''epair0a'', ''epair0b''), childPid = 4242, writeError = ''disk full''\<rparr>,
      jidWritable = True, ifaceWritable = True, fwWritable = True,
      jidProbe = Some (\<lambda>_ _. True), ifaceProbe = Some (\<lambda>_. True),
      sysctls = \<lparr>has_get = True, has_set = True, get_ok = True, set_ok = True\<rparr>,
      jailBefore = (\<lambda>_. None), jailAfter = (\<lambda>_. Some 7),
      devfsMountLive = (\<lambda>_. True), devfsRulesetEmpty = (\<lambda>_. True), now = 17\<rparr>"

definition sample_daemon :: daemon where
  "sample_daemon =
     \<lparr>d_jids = Some \<lparr>jr_entries = [], jr_file = None\<rparr>, d_ifaces = Some \<lparr>ir_entries = [], ir_file = None\<rparr>,
      d_claims = [], d_fw = None, d_cfg = sample_cfg, d_umbrella = []\<rparr>"

definition sample_header :: "8 word list" where
  "sample_header = [0x6C, 0, 0, 0, 0, 0, 0, 0, 0, 0, 0, 64, 0, 0, 0, 0, 0, 0, 0]"

definition sample_fds :: ExecIo where
  "sample_fds = \<lparr>stdinFd = 0, stdoutFd = 1, stderrFd = 2\<rparr>"

definition sample_create :: FieldMap where
  "sample_create = map_of [(''verb'', ''create_jail''), (''name'', ''web''), (''path'', ''/jails/1001/web'')]"

definition sample_run :: "served \<times> daemon" where
  "sample_run = handleConnection sample_env True (Some 1001) (Inr sample_header) (Some sample_create) sample_fds sample_daemon"

lemma sample_run_op: "Exec [''/usr/sbin/jail'', ''-c'', ''name=web'', ''path=/jails/1001/web'', ''persist''] \<in> set (fst (fst sample_run))"
  by code_simp


section \<open>The gate looks at what the handler acts on\<close>

text \<open>
  The resources a typed request names. The verbs with a 64-bit jid hand \<^verbatim>\<open>(int)jid\<close> to the host,
  the others an \<^verbatim>\<open>unsigned\<close>; both are read here as the unsigned 32-bit value of the registry.
\<close>

definition host_jid :: "int \<Rightarrow> nat" where
  "host_jid j = nat (as_int j mod 2 ^ 32)"

fun request_targets :: "request \<Rightarrow> target list" where
  "request_targets (R_AttachZfs r) = [Dataset (az_dataset r), AnyJid (host_jid (az_jid r))]"
| "request_targets (R_DetachZfs r) = [Dataset (dz_dataset r), AnyJid (host_jid (dz_jid r))]"
| "request_targets (R_AddPfRule r) = [Anchor (ap_anchor r)]"
| "request_targets (R_RemovePfRule r) = [Anchor (rp_anchor r)]"
| "request_targets (R_FlushPfAnchor r) = [Anchor (fa_anchor r)]"
| "request_targets (R_SetLoginclassRctl r) = [Loginclass (sl_loginclass r)]"
| "request_targets (R_ClearLoginclassRctl r) = [Loginclass (cl_loginclass r)]"
| "request_targets (R_SetRctl r) = [AnyJid (host_jid (sr_jid r))]"
| "request_targets (R_ClearRctl r) = [AnyJid (host_jid (cr_jid r))]"
| "request_targets (R_SetJailCpuset r) = [AnyJid (sc_jid r)]"
| "request_targets (R_QueryJailRctl r) = [AnyJid (qj_jid r)]"
| "request_targets (R_SignalJail r) = [AnyJid (sj_jid r)]"
| "request_targets (R_AcquireFwLease r) = [AnyJid (af_jid r)]"
| "request_targets (R_ReleaseFwLease r) = [AnyJid (rf_jid r)]"
| "request_targets (R_ConfigureIface r) = [AnyJid (host_jid (ci_jid r)), Iface (ci_ifname r)]"
| "request_targets (R_TeardownIface r) = [Iface (ti_ifname r)]"
| "request_targets (R_SetIfaceUp r) = [Iface (su_ifname r)]"
| "request_targets (R_DisableIfaceOffload r) = [Iface (do_ifname r)]"
| "request_targets (R_SetIfaceInetAddr r) = [Iface (sa_ifname r)]"
| "request_targets (R_SetIfaceMac r) = [Iface (sm_ifname r)]"
| "request_targets (R_BridgeAddMember r) = [Iface (ba_member r)]"
| "request_targets (R_BridgeDelMember r) = [Iface (bd_member r)]"
| "request_targets (R_ExecInJail r) = [OwnJid (ej_jid r)]"
| "request_targets (R_DestroyJail r) = [JailName (dj_name r)]"
| "request_targets (R_ReclaimIfaceFromVnet r) = [JailName (rv_jailName r), Iface (rv_ifname r)]"
| "request_targets (R_CreateJail r) = [NewPath (cj_path r)]"
| "request_targets (R_UnmountNullfs r) = [Path (un_target r)]"
| "request_targets (R_ApplyDevfsRuleset r) = [Path (ad_mountPath r)]"
| "request_targets (R_MountTmpfs r) = [Path (mt_target r)]"
| "request_targets (R_ApplyDevfsRules r) = [Path (ar_mountPath r), DevfsRuleset (ar_ruleset r)]"
| "request_targets (R_AddDevfsUnhideRule r) = [Path (au_mountPath r), Forbidden]"
| "request_targets (R_MountNullfs r) = [Path (mn_target r), Source (mn_source r)]"
| "request_targets _ = []"

text \<open>A 64-bit jid at the bound where \<^verbatim>\<open>strtol\<close> saturates.\<close>

fun saturated :: "request \<Rightarrow> bool" where
  "saturated (R_AttachZfs r) = (az_jid r = 2 ^ 63 - 1)"
| "saturated (R_DetachZfs r) = (dz_jid r = 2 ^ 63 - 1)"
| "saturated (R_SetRctl r) = (sr_jid r = 2 ^ 63 - 1)"
| "saturated (R_ClearRctl r) = (cr_jid r = 2 ^ 63 - 1)"
| "saturated (R_ConfigureIface r) = (ci_jid r = 2 ^ 63 - 1)"
| "saturated _ = False"

lemma host_jid_mod: "host_jid j = nat (j mod 2 ^ 32)"
  by (simp add: host_jid_def as_int_def mod_diff_left_eq)

lemma field_string: "requireString m k = Inr s \<Longrightarrow> field m k = s"
  by (auto simp: requireString_def field_def split: option.splits)

lemma to_unsigned_digits:
  assumes "list_all is_digit s" "s \<noteq> []" "dec_val s < 2 ^ 64"
  shows "to_unsigned s = dec_val s mod 2 ^ 32"
proof -
  obtain c t where s: "s = c # t" and d: "is_digit c" using assms by (cases s) auto
  have c: "\<not> is_space c" "c \<noteq> CHR ''-''" "c \<noteq> CHR ''+''" using d by (auto simp: is_digit_def is_space_def)
  have "takeWhile is_digit s = s" using assms(1) by (simp add: takeWhile_eq_all_conv list_all_iff)
  with s c assms(2,3) have "stoul s = Some (dec_val s)" by (simp add: stoul_def Let_def)
  with assms(2) show ?thesis by (simp add: to_unsigned_def)
qed

lemma to_unsigned_minus_zero:
  assumes "list_all is_digit t" "t \<noteq> []" "dec_val t = 0"
  shows "to_unsigned (CHR ''-'' # t) = 0"
proof -
  have "takeWhile is_digit t = t" using assms(1) by (simp add: takeWhile_eq_all_conv list_all_iff)
  with assms(2,3) have "stoul (CHR ''-'' # t) = Some 0"
    by (simp add: stoul_def Let_def is_space_def del: takeWhile_eq_all_conv)
  then show ?thesis by (simp add: to_unsigned_def)
qed

lemma requireLong_nonneg:
  assumes "requireLong m k = Inr j" "0 \<le> j" "j \<noteq> 2 ^ 63 - 1"
  shows "to_unsigned (field m k) = nat (j mod 2 ^ 32)"
proof -
  from assms(1) obtain s where s: "m k = Some s" "s \<noteq> []" "j = strtol s"
    "list_all is_digit (if hd s = CHR ''-'' then tl s else s)" "(if hd s = CHR ''-'' then tl s else s) \<noteq> []"
    by (auto simp: requireLong_def Let_def split: option.splits if_splits)
  show ?thesis
  proof (cases "hd s = CHR ''-''")
    case True
    then obtain t where t: "s = CHR ''-'' # t" using s(2) by (cases s) auto
    then have "dec_val t = 0" using s(3) assms(2) by (simp add: strtol_def Let_def)
    then show ?thesis using s t to_unsigned_minus_zero [of t] by (simp add: field_def strtol_def)
  next
    case False
    then have j: "j = min (2 ^ 63 - 1) (int (dec_val s))" using s(2,3) by (simp add: strtol_def Let_def)
    then have "j = int (dec_val s)" "dec_val s < 2 ^ 63 - 1" using assms(3) by (auto simp: min_def split: if_splits)
    then show ?thesis using s False to_unsigned_digits [of s] by (simp add: field_def nat_mod_distrib)
  qed
qed

lemma requireUnsigned_field: "requireUnsigned m k = Inr n \<Longrightarrow> to_unsigned (field m k) = n"
proof -
  assume "requireUnsigned m k = Inr n"
  then obtain v where v: "requireLong m k = Inr v" "0 \<le> v" "v \<le> 0xFFFFFFFF" "n = nat v"
    by (auto simp: requireUnsigned_def split: if_splits)
  then have "v mod 4294967296 = v" by (simp add: mod_pos_pos_trivial)
  then show ?thesis using requireLong_nonneg [OF v(1,2)] v by simp
qed

lemmas nv_parser_defs = parseAttachZfs_def parseDetachZfs_def parseAddPfRule_def parseRemovePfRule_def
  parseFlushPfAnchor_def parseSetLoginclassRctl_def parseClearLoginclassRctl_def parseSetRctl_def parseClearRctl_def
  parseSetJailCpuset_def parseQueryJailRctl_def parseSignalJail_def parseAcquireFwLease_def parseReleaseFwLease_def
  parseConfigureIface_def parseTeardownIface_def parseSetIfaceUp_def parseDisableIfaceOffload_def
  parseSetIfaceInetAddr_def parseSetIfaceMac_def parseBridgeAddMember_def parseBridgeDelMember_def parseExecInJail_def
  parseDestroyJail_def parseReclaimIfaceFromVnet_def parseCreateJail_def parseUnmountNullfs_def
  parseApplyDevfsRuleset_def parseMountTmpfs_def parseApplyDevfsRules_def parseAddDevfsUnhideRule_def
  parseMountNullfs_def

lemma long_jid_field:
  "requireLong m k = Inr j \<Longrightarrow> 1 \<le> j \<Longrightarrow> j \<noteq> 2 ^ 63 - 1 \<Longrightarrow> to_unsigned (field m k) = host_jid j"
  using requireLong_nonneg [of m k j] by (simp add: host_jid_mod)

lemmas long_jid_validators = validateSetRctl_def validateClearRctl_def validateAttachZfs_def validateDetachZfs_def
  validateConfigureIface_def

lemma gate_targets:
  assumes "parse_request v m = Inr r" "validate_request r = []" "\<not> saturated r"
  shows "targets v (gate_request v m) = request_targets r"
  using assms
  by (cases v) (auto simp: parse_as_def nv_parser_defs gate_request_def gate_path_def gate_ifname_def
      long_jid_validators dest!: field_string requireUnsigned_field intro!: long_jid_field)


definition sample_attach :: FieldMap where
  "sample_attach = map_of [(''verb'', ''attach_zfs''), (''jid'', ''7''), (''dataset'', ''tank/jails/1001/web'')]"


end
