(* ===== verification/Ownership.thy ===== *)
theory Ownership
  imports Dispatch
begin

text \<open>
  What the daemon's bookkeeping is worth over time: the jid entry written when an operator creates a
  jail survives every later connection that does not end that jail, and keeps the other operators
  away from it.
\<close>

section \<open>A created jail stays with its operator\<close>

definition holds :: "nat \<Rightarrow> jid_entry \<Rightarrow> jid_registry \<Rightarrow> bool" where
  "holds j ent r \<longleftrightarrow> map_ok (jr_entries r) \<and> map_find (jr_entries r) j = Some ent"

definition jail_owned :: "nat \<Rightarrow> jid_entry \<Rightarrow> daemon \<Rightarrow> bool" where
  "jail_owned j ent d \<longleftrightarrow> (\<exists>r. d_jids d = Some r \<and> holds j ent r)"

lemma holds_persist [simp]: "holds j ent (snd (jid_persist io r)) = holds j ent r"
  by (simp add: holds_def)

lemma holds_dropIfStale:
  assumes "holds j ent r" "\<not> jid_stale probe j ent" "map_find (jr_entries r) k = Some e"
  shows "holds j ent (snd (jid_dropIfStale io probe (k, e) r))"
  using assms by (auto simp: jid_dropIfStale_cases holds_def split: option.splits)

lemma holds_lookupByJid:
  assumes "holds j ent r" "\<not> jid_stale probe j ent"
  shows "holds j ent (snd (jid_lookupByJid io probe k r))"
  using assms holds_dropIfStale [OF assms, of k _ io]
  by (auto simp: jid_lookupByJid_def split_beta split: option.splits)

lemma holds_lookupByName:
  assumes "holds j ent r" "\<not> jid_stale probe j ent"
  shows "holds j ent (snd (jid_lookupByName_registry io probe n r))"
  using assms holds_dropIfStale [OF assms, of _ _ io]
  by (auto simp: jid_lookupByName_registry_def split_beta split: option.splits)

lemma lookup_held:
  assumes "holds j ent r" "\<not> jid_stale probe j ent"
  shows "fst (jid_lookupByJid io probe j r) = owned_by (je_uid ent)"
  using assms by (auto simp: jid_lookupByJid_cases holds_def split: option.splits)

lemma holds_recordCreate: "holds j ent r \<Longrightarrow> k \<noteq> j \<Longrightarrow> holds j ent (snd (recordCreate io k u n p r))"
  by (simp add: recordCreate_def split_beta holds_def)

lemma recordCreate_holds:
  "map_ok (jr_entries r) \<Longrightarrow> holds j \<lparr>je_uid = u, je_name = n, je_path = p\<rparr> (snd (recordCreate io j u n p r))"
  by (simp add: recordCreate_def split_beta holds_def)

lemma holds_forgetByJid: "holds j ent r \<Longrightarrow> k \<noteq> j \<Longrightarrow> holds j ent (snd (forgetByJid io k r))"
  by (auto simp: forgetByJid_def split_beta holds_def split: option.splits)

lemma holds_forgetByName:
  assumes "holds j ent r" "n \<noteq> je_name ent"
  shows "holds j ent (snd (forgetByName io n r))"
proof (cases "List.find (\<lambda>(_, e). je_name e = n) (jr_entries r)")
  case None
  with assms show ?thesis by (simp add: forgetByName_def)
next
  case (Some kv)
  obtain k e where kv: "kv = (k, e)" by (cases kv)
  then have "(k, e) \<in> set (jr_entries r)" "je_name e = n" using Some find_map_member by fastforce+
  then have "k \<noteq> j" using assms map_find_Some_iff by (metis holds_def option.inject)
  then show ?thesis using assms Some kv by (simp add: forgetByName_def split_beta holds_def)
qed

lemmas holds_kept = holds_lookupByJid holds_lookupByName holds_recordCreate holds_forgetByJid holds_forgetByName

text \<open>
  A connection spares the jail \<^term>\<open>j\<close> when the probe finds its entry live, a jail it creates gets
  another jid, and a jail it destroys has another name and another jid.
\<close>

definition spares :: "nat \<Rightarrow> jid_entry \<Rightarrow> env \<Rightarrow> FieldMap \<Rightarrow> bool" where
  "spares j ent e m \<longleftrightarrow>
     \<not> jid_stale (jidProbe e) j ent \<and>
     (extractVerb m = CreateJail \<longrightarrow>
        (case jailAfter e (field m ''name'') of None \<Rightarrow> True | Some k \<Rightarrow> nat (k mod 2 ^ 32) \<noteq> j)) \<and>
     (extractVerb m = DestroyJail \<longrightarrow> field m ''name'' \<noteq> je_name ent \<and> preDestroyJid e DestroyJail m \<noteq> j)"

lemma owned_on_jids:
  "jail_owned j ent d \<Longrightarrow> (\<And>r. holds j ent r \<Longrightarrow> holds j ent (f r)) \<Longrightarrow> jail_owned j ent (on_jids f d)"
  by (auto simp: jail_owned_def on_jids_def)

lemma owned_update [simp]:
  "jail_owned j ent (d\<lparr>d_claims := c\<rparr>) = jail_owned j ent d"
  "jail_owned j ent (d\<lparr>d_fw := w\<rparr>) = jail_owned j ent d"
  "jail_owned j ent (on_ifaces g d) = jail_owned j ent d"
  by (simp_all add: jail_owned_def on_ifaces_def)

lemma owned_consult:
  assumes "jail_owned j ent d" "\<not> jid_stale (jidProbe e) j ent"
  shows "jail_owned j ent (consult e t d)"
  using assms by (cases t) (auto intro!: owned_on_jids holds_kept)

lemma owned_consult_all:
  "jail_owned j ent d \<Longrightarrow> \<not> jid_stale (jidProbe e) j ent \<Longrightarrow> jail_owned j ent (consult_all e allowed ts d)"
  by (induction ts arbitrary: d) (simp_all add: owned_consult)

lemma owned_gate:
  "jail_owned j ent d \<Longrightarrow> \<not> jid_stale (jidProbe e) j ent \<Longrightarrow> jail_owned j ent (snd (gate e uid v m d))"
  by (simp add: gate_def Let_def split_beta owned_consult_all)

lemma holds_forgotten: "holds j ent r \<Longrightarrow> forgetByJid io k r = (b, r') \<Longrightarrow> k \<noteq> j \<Longrightarrow> holds j ent r'"
  using holds_forgetByJid [of j ent r k io] by simp

lemma owned_jid_update:
  assumes "jail_owned j ent d" "spares j ent e m"
  shows "jail_owned j ent (maybeUpdateJidOwnerRegistry e (extractVerb m) uid m st (preDestroyJid e (extractVerb m) m) d)"
  using assms
  by (auto simp: maybeUpdateJidOwnerRegistry_def spares_def intro!: owned_on_jids holds_kept
      split: option.splits prod.splits bool.splits intro: holds_forgotten)

lemma owned_iface_update: "jail_owned j ent d \<Longrightarrow> jail_owned j ent (maybeUpdateIfaceOwnerRegistry e v uid m res d)"
  by (auto simp: maybeUpdateIfaceOwnerRegistry_def split: prod.splits field_status.splits)

lemma owned_run_verb:
  "jail_owned j ent d \<Longrightarrow> spares j ent e m \<Longrightarrow> jail_owned j ent (snd (run_verb e rootless uid io m d))"
  by (simp add: run_verb_def Let_def split_beta owned_iface_update owned_jid_update)

lemma owned_dispatch:
  assumes "jail_owned j ent d" "spares j ent e m"
  shows "jail_owned j ent (snd (dispatchPrivOpFromMap e rootless uid io m d))"
proof -
  have "\<not> jid_stale (jidProbe e) j ent" using assms(2) by (simp add: spares_def)
  note g = owned_gate [OF assms(1) this, of uid "extractVerb m" m]
  show ?thesis
    using assms g owned_run_verb [OF g assms(2)]
    by (cases "gate e uid (extractVerb m) m d"; cases "fst (gate e uid (extractVerb m) m d)")
      (simp_all add: dispatchPrivOpFromMap_def Let_def owned_run_verb)
qed

lemma owned_connection:
  assumes "jail_owned j ent d" "\<And>m. fm = Some m \<Longrightarrow> spares j ent e m"
  shows "jail_owned j ent (snd (handleConnection e True (Some uid) hdr fm io d))"
proof -
  obtain ops result d' where h: "handleConnection e True (Some uid) hdr fm io d = ((ops, result), d')" by (metis surj_pair)
  from connection_cases [OF h] show ?thesis
  proof
    assume "ops = peer_setup uid \<and> dr_status result \<in> {400, 413} \<and> d' = d"
    then show ?thesis using assms(1) h by simp
  next
    assume "\<exists>m ops1. header_ok hdr \<and> fm = Some m \<and> ops = peer_setup uid @ ops1 \<and>
       dispatchPrivOpFromMap e True uid (Some io) m d = ((ops1, result), d')"
    then obtain m ops1 where m: "fm = Some m" "dispatchPrivOpFromMap e True uid (Some io) m d = ((ops1, result), d')" by blast
    then show ?thesis using owned_dispatch [OF assms(1) assms(2), of m True uid "Some io"] h by simp
  qed
qed

text \<open>The connections the daemon accepts one after the other.\<close>

record connection =
  cn_env :: env
  cn_peer :: nat
  cn_header :: "8 word list res"
  cn_fields :: "FieldMap option"
  cn_fds :: ExecIo

definition accept :: "connection \<Rightarrow> daemon \<Rightarrow> served \<times> daemon" where
  "accept c d = handleConnection (cn_env c) True (Some (cn_peer c)) (cn_header c) (cn_fields c) (cn_fds c) d"

definition accept_all :: "connection list \<Rightarrow> daemon \<Rightarrow> daemon" where
  "accept_all cs d = fold (\<lambda>c d. snd (accept c d)) cs d"

definition leaves_jail :: "nat \<Rightarrow> jid_entry \<Rightarrow> connection \<Rightarrow> bool" where
  "leaves_jail j ent c = (case cn_fields c of None \<Rightarrow> True | Some m \<Rightarrow> spares j ent (cn_env c) m)"

lemma owned_accept_all:
  "jail_owned j ent d \<Longrightarrow> list_all (leaves_jail j ent) cs \<Longrightarrow> jail_owned j ent (accept_all cs d)"
proof (induction cs arbitrary: d)
  case Nil
  then show ?case by (simp add: accept_all_def)
next
  case (Cons c cs)
  have "jail_owned j ent (snd (accept c d))"
    using Cons.prems by (auto simp: accept_def leaves_jail_def split: option.splits intro!: owned_connection)
  with Cons show ?case by (simp add: accept_all_def)
qed

lemma create_records:
  assumes "handleConnection e True (Some u) hdr (Some m) io d = ((ops, res), d1)" "0 < u" "dr_status res = 200"
    "extractVerb m = CreateJail" "d_jids d = Some r" "map_ok (jr_entries r)" "jailAfter e (field m ''name'') = Some k"
  shows "jail_owned (nat (k mod 2 ^ 32)) \<lparr>je_uid = u, je_name = field m ''name'', je_path = field m ''path''\<rparr> d1"
proof -
  obtain ops1 where o: "dispatchPrivOpFromMap e True u (Some io) m d = ((ops1, res), d1)"
    using connection_cases [OF assms(1)] assms(3) by auto
  let ?d = "snd (gate e u CreateJail m d)"
  have g: "d_jids ?d = Some r" using assms(5) by (simp add: gate_def Let_def)
  have v: "run_verb e True u (Some io) m ?d = ((ops1, res), d1)"
    using o assms(2-4) by (auto simp: dispatch_gated split: if_splits)
  have "\<exists>rq. validated m rq"
  proof (rule ccontr)
    assume "\<nexists>rq. validated m rq"
    then obtain b where "serve e u (Some io) (d_fw ?d) (parse_request CreateJail m) = (([], \<lparr>dr_status = 400, dr_body = b\<rparr>), d_fw ?d)"
      using serve_refused [of "parse_request CreateJail m" e u "Some io" "d_fw ?d"] assms(4) by (auto simp: validated_def)
    with v assms(3,4) show False by (auto simp: run_verb_def Let_def)
  qed
  then have n: "field m ''name'' \<noteq> []"
    using assms(4) by (auto simp: validated_def parse_as_def parseCreateJail_def validateCreateJail_def validateJailName_def dest: field_string)
  show ?thesis
    using v assms(2-4,7) n g recordCreate_holds [OF assms(6), of "nat (k mod 2 ^ 32)" u "field m ''name''" "field m ''path''" "jidWritable e"]
    by (auto simp: run_verb_def Let_def split_beta maybeUpdateJidOwnerRegistry_def maybeUpdateIfaceOwnerRegistry_def
        jail_owned_def on_jids_def)
qed

lemma env_uid_env_of [simp]: "env_uid (env_of cfg w) = w"
proof (cases "w \<le> 2147483647")
  case True
  then show ?thesis by (simp add: env_of_def composeForUid_base)
next
  case False
  then show ?thesis by (simp add: env_of_def composeForUid_def validateUid_def empty_env_def)
qed

lemma held_jid_owner:
  assumes "jail_owned j ent d" "\<not> jid_stale (jidProbe e) j ent"
  shows "\<exists>f. byJid (gate_lookup e d) = Some f \<and> f j = owned_by (je_uid ent)"
  using assms lookup_held [of j ent _ "jidProbe e" "jidWritable e"]
  by (auto simp: jail_owned_def gate_lookup_def makeLookup_def nullLookup_def)

lemma held_jid_permits:
  assumes "jail_owned j ent d" "\<not> jid_stale (jidProbe e) j ent" "t \<in> {AnyJid j, OwnJid j}"
  shows "permitted (env_of cfg w) (gate_lookup e d) t \<longleftrightarrow> w = je_uid ent"
  using held_jid_owner [OF assms(1,2)] assms(3)
  by (auto simp: unclaimed_or_own_def owned_by_def)

lemma refused_connection:
  assumes "0 < w" "\<not> authorised e w m d"
  shows "fst (fst (handleConnection e True (Some w) hdr (Some m) io d)) = [EnsureUserRootOp w] \<and>
    dr_status (snd (fst (handleConnection e True (Some w) hdr (Some m) io d))) \<in> {400, 403, 413}"
proof -
  obtain ops res d' where h: "handleConnection e True (Some w) hdr (Some m) io d = ((ops, res), d')" by (metis surj_pair)
  have "fst (gate e w (extractVerb m) m d) \<noteq> Allow" using assms(2) gate_Allow_authorised by blast
  then show ?thesis
    using connection_cases [OF h] assms(1) h by (auto simp: dispatch_gated peer_setup_def)
qed

text \<open>
  C2. A created jail belongs to its operator. Operator \<^term>\<open>u\<close> has created a jail over the socket
  with success and the jail got jid \<^term>\<open>k\<close>. Then the daemon serves any number of connections of
  any peers, none of which ends this jail or makes another jail with the same jid. After that a
  connection of another operator that names the jid, with whatever verb, performs no operation but
  the set-up of the peer's own directory and ends in an error, while for the creator the gate lets
  \<^verbatim>\<open>exec_in_jail\<close> on that jid through.
\<close>

theorem created_jail_protected:
  assumes j_def: "j = nat (k mod 2 ^ 32)"
    and ent_def: "ent = \<lparr>je_uid = u, je_name = field m ''name'', je_path = field m ''path''\<rparr>"
    and "handleConnection e True (Some u) hdr (Some m) io d = ((ops, res), d1)" "0 < u" "dr_status res = 200"
    "extractVerb m = CreateJail" "d_jids d = Some r" "map_ok (jr_entries r)" "jailAfter e (field m ''name'') = Some k"
    and later: "list_all (leaves_jail j ent) cs"
    and named: "AnyJid j \<in> set (targets (extractVerb m2) (gate_request (extractVerb m2) m2)) \<or>
      OwnJid j \<in> set (targets (extractVerb m2) (gate_request (extractVerb m2) m2))"
    and live: "\<not> jid_stale (jidProbe e2) j ent"
  shows "(0 < w \<and> w \<noteq> u \<longrightarrow>
            fst (fst (handleConnection e2 True (Some w) hdr2 (Some m2) io2 (accept_all cs d1))) = [EnsureUserRootOp w] \<and>
            dr_status (snd (fst (handleConnection e2 True (Some w) hdr2 (Some m2) io2 (accept_all cs d1)))) \<in> {400, 403, 413}) \<and>
         (extractVerb m2 = ExecInJail \<longrightarrow> authorised e2 u m2 (accept_all cs d1))"
proof -
  have "jail_owned j ent d1" unfolding j_def ent_def by (rule create_records) fact+
  then have o: "jail_owned j ent (accept_all cs d1)" using later by (rule owned_accept_all)
  note p = held_jid_permits [OF o live]
  have "\<not> authorised e2 w m2 (accept_all cs d1)" if "w \<noteq> u"
    using named p [of "AnyJid j" _ w] p [of "OwnJid j" _ w] that
    by (auto simp: authorised_def authorize_policy list_all_iff ent_def simp del: permitted.simps)
  moreover have "authorised e2 u m2 (accept_all cs d1)" if "extractVerb m2 = ExecInJail"
    using named p [of "OwnJid j"] that
    by (auto simp: authorised_def authorize_policy ent_def simp del: permitted.simps)
  ultimately show ?thesis using refused_connection by blast
qed

definition sample_exec :: FieldMap where
  "sample_exec = map_of [(''verb'', ''exec_in_jail''), (''jid'', ''7''), (''argc'', ''1''), (''argv0'', ''sh'')]"

definition sample_epair :: connection where
  "sample_epair = \<lparr>cn_env = sample_env, cn_peer = 1002, cn_header = Inr sample_header,
     cn_fields = Some (map_of [(''verb'', ''create_epair'')]), cn_fds = sample_fds\<rparr>"

lemma sample_run_ok: "dr_status (snd (fst sample_run)) = 200"
  by code_simp

theorem created_jail_protected_witness:
  "fst (fst (handleConnection sample_env True (Some 1002) (Inr sample_header) (Some sample_exec) sample_fds
      (accept_all [sample_epair] (snd sample_run)))) = [EnsureUserRootOp 1002]"
proof -
  obtain ops res d1 where r: "sample_run = ((ops, res), d1)" by (metis surj_pair)
  have st: "dr_status res = 200" using sample_run_ok unfolding r by simp
  have v: "extractVerb sample_create = CreateJail" "extractVerb sample_exec = ExecInJail"
    "extractVerb [''verb'' \<mapsto> ''create_epair''] = CreateEpair"
    by code_simp+
  have j: "to_unsigned (field sample_exec ''jid'') = 7"
    using to_unsigned_digits [of "''7''"]
    by (simp add: field_def sample_exec_def is_digit_def dec_val_Cons digit_val_def)
  have d: "d_jids sample_daemon = Some \<lparr>jr_entries = [], jr_file = None\<rparr>" by (simp add: sample_daemon_def)
  have e: "jailAfter sample_env n = Some 7" "jidProbe sample_env = Some (\<lambda>_ _. True)" for n
    by (simp_all add: sample_env_def)
  have l: "list_all (leaves_jail 7 ent) [sample_epair]" for ent
    by (simp add: leaves_jail_def sample_epair_def spares_def jid_stale_def v e)
  have t: "OwnJid 7 \<in> set (targets (extractVerb sample_exec) (gate_request (extractVerb sample_exec) sample_exec))"
    by (simp add: v gate_request_def j)
  have "fst (fst (handleConnection sample_env True (Some 1002) (Inr sample_header) (Some sample_exec) sample_fds
      (accept_all [sample_epair] d1))) = [EnsureUserRootOp 1002]"
    using created_jail_protected [OF _ refl r [unfolded sample_run_def] _ st v(1) d _ e(1) l disjI2 [OF t],
        of sample_env 1002 "Inr sample_header" sample_fds]
    by (simp add: jid_stale_def e)
  then show ?thesis unfolding r by simp
qed

end
