(* ===== verification/TopoSort.thy ===== *)
theory TopoSort
  imports StdMap "HOL-Library.Multiset"
begin

text \<open>
  The start order of a stack, \<^verbatim>\<open>topoSort\<close> of \<^verbatim>\<open>lib/stack_pure.h\<close>: the index of names, the check of
  the dependencies, the adjacency lists and in-degrees, and the queue loop. The vectors are lists;
  \<^verbatim>\<open>inDeg\<close> is a vector of \<^verbatim>\<open>int\<close>, bounded by the size of the file, so it does not overflow. The
  theorems say that the function always returns, and that it finds a start order whenever there is
  one.
\<close>

record StackEntry =
  se_name :: string
  se_depends :: "string list"

section \<open>The code\<close>

type_synonym name_index = "(string, nat) stdmap"

fun build_index :: "nat \<Rightarrow> StackEntry list \<Rightarrow> name_index \<Rightarrow> name_index res" where
  "build_index i [] idx = Inr idx"
| "build_index i (e # es) idx =
     (if map_find idx (se_name e) \<noteq> None
      then Inl (''duplicate container name '' @ quoted (se_name e) @ '' in stack file'')
      else build_index (Suc i) es (map_put (se_name e) i idx))"

fun check_deps :: "name_index \<Rightarrow> (string \<times> string) list \<Rightarrow> unit res" where
  "check_deps idx [] = Inr ()"
| "check_deps idx ((n, d) # nds) =
     (if map_find idx d = None
      then Inl (''container '' @ quoted n @ '' depends on unknown container '' @ quoted d)
      else check_deps idx nds)"

text \<open>\<^verbatim>\<open>nameIdx[d]\<close>: \<^verbatim>\<open>operator[]\<close> yields 0 for an absent key.\<close>

definition index_of :: "name_index \<Rightarrow> string \<Rightarrow> nat" where
  "index_of idx d = (case map_find idx d of None \<Rightarrow> 0 | Some i \<Rightarrow> i)"

type_synonym graph = "nat list list \<times> int list"

definition add_edge :: "nat \<Rightarrow> nat \<Rightarrow> graph \<Rightarrow> graph" where
  "add_edge i di g = (case g of (adj, inDeg) \<Rightarrow> (adj[di := adj ! di @ [i]], inDeg[i := inDeg ! i + 1]))"

definition add_node :: "name_index \<Rightarrow> StackEntry list \<Rightarrow> nat \<Rightarrow> graph \<Rightarrow> graph" where
  "add_node idx es i g = fold (\<lambda>d. add_edge i (index_of idx d)) (se_depends (es ! i)) g"

definition build_graph :: "name_index \<Rightarrow> StackEntry list \<Rightarrow> graph" where
  "build_graph idx es =
     fold (add_node idx es) [0..<length es] (replicate (length es) [], replicate (length es) 0)"

text \<open>\<^verbatim>\<open>if (--inDeg[next] == 0) q.push(next);\<close> for an index inside the vector.\<close>

definition release :: "nat \<Rightarrow> nat list \<times> int list \<Rightarrow> nat list \<times> int list" where
  "release nxt s =
     (case s of (q, inDeg) \<Rightarrow>
        if nxt < length inDeg
        then (if inDeg ! nxt - 1 = 0 then q @ [nxt] else q, inDeg[nxt := inDeg ! nxt - 1])
        else s)"

definition waiting :: "int list \<Rightarrow> nat" where
  "waiting inDeg = length (filter (\<lambda>v. 0 < v) inDeg)"

lemma filter_update_length:
  "i < length xs \<Longrightarrow> length (filter P (xs[i := v])) + (if P (xs ! i) then 1 else 0) =
     length (filter P xs) + (if P v then 1 else 0)"
proof (induction xs arbitrary: i)
  case Nil
  then show ?case by simp
next
  case (Cons x xs)
  then show ?case by (cases i) (auto split: if_splits)
qed

lemma release_measure: "release nxt (q, inDeg) = (q', inDeg') \<Longrightarrow> length q' + waiting inDeg' = length q + waiting inDeg"
  using filter_update_length [of nxt inDeg "\<lambda>v. 0 < v" "inDeg ! nxt - 1"]
  by (auto simp: release_def waiting_def split: if_splits)

lemma releases_measure: "fold release ns (q, inDeg) = (q', inDeg') \<Longrightarrow> length q' + waiting inDeg' = length q + waiting inDeg"
proof (induction ns arbitrary: q inDeg)
  case Nil
  then show ?case by simp
next
  case (Cons x ns)
  obtain q1 d1 where r: "release x (q, inDeg) = (q1, d1)" by (metis surj_pair)
  with Cons show ?case using release_measure [OF r] by simp
qed

text \<open>The queue loop; every round takes one index, which entered the queue or the start set once.\<close>

function sort_loop :: "nat list list \<Rightarrow> nat list \<Rightarrow> int list \<Rightarrow> nat list \<Rightarrow> nat list" where
  "sort_loop adj [] inDeg order = order"
| "sort_loop adj (cur # q) inDeg order =
     (let (q', inDeg') = fold release (adj ! cur) (q, inDeg) in sort_loop adj q' inDeg' (order @ [cur]))"
  by pat_completeness auto
termination
proof (relation "measure (\<lambda>(_, q, inDeg, _). length q + waiting inDeg)", goal_cases)
  case 1
  show ?case by simp
next
  case (2 adj cur q inDeg order x q' inDeg')
  then have "fold release (adj ! cur) (q, inDeg) = (q', inDeg')" by simp
  then show ?case using releases_measure by fastforce
qed

definition topoSort :: "StackEntry list \<Rightarrow> StackEntry list res" where
  "topoSort entries =
     bind_res (build_index 0 entries []) (\<lambda>idx.
     bind_res (check_deps idx (concat (map (\<lambda>e. map (Pair (se_name e)) (se_depends e)) entries))) (\<lambda>_.
     let (adj, inDeg) = build_graph idx entries;
         q = filter (\<lambda>i. inDeg ! i = 0) [0..<length entries];
         order = sort_loop adj q inDeg [] in
     if length order \<noteq> length entries then Inl ''circular dependency detected in stack file''
     else Inr (map (\<lambda>i. entries ! i) order)))"

section \<open>The queue loop on indices\<close>

definition ordered :: "(nat \<Rightarrow> nat list) \<Rightarrow> nat list \<Rightarrow> bool" where
  "ordered deps xs \<longleftrightarrow> (\<forall>k < length xs. set (deps (xs ! k)) \<subseteq> set (take k xs))"

definition graph_ok :: "nat \<Rightarrow> (nat \<Rightarrow> nat list) \<Rightarrow> nat list list \<Rightarrow> bool" where
  "graph_ok n deps adj \<longleftrightarrow> length adj = n \<and>
     (\<forall>c < n. \<forall>i. count_list (adj ! c) i = (if i < n then count_list (deps i) c else 0))"

definition pending :: "(nat \<Rightarrow> nat list) \<Rightarrow> nat set \<Rightarrow> nat \<Rightarrow> nat" where
  "pending deps D i = length (filter (\<lambda>d. d \<notin> D) (deps i))"

text \<open>Between two rounds: the in-degrees count the dependencies not started yet, the queue has what is ready.\<close>

definition round_inv :: "nat \<Rightarrow> (nat \<Rightarrow> nat list) \<Rightarrow> nat list \<Rightarrow> int list \<Rightarrow> nat list \<Rightarrow> bool" where
  "round_inv n deps q inDeg xs \<longleftrightarrow> length inDeg = n \<and> distinct (xs @ q) \<and>
     set (xs @ q) = {i. i < n \<and> inDeg ! i = 0} \<and> (\<forall>i < n. inDeg ! i = int (pending deps (set xs) i)) \<and> ordered deps xs"

lemma ordered_snoc: "ordered deps xs \<Longrightarrow> set (deps c) \<subseteq> set xs \<Longrightarrow> ordered deps (xs @ [c])"
  by (auto simp: ordered_def nth_append less_Suc_eq)

lemma pending_insert: "c \<notin> D \<Longrightarrow> pending deps D i = pending deps (insert c D) i + count_list (deps i) c"
proof -
  assume "c \<notin> D"
  then have "length (filter (\<lambda>d. d \<notin> D) xs) = length (filter (\<lambda>d. d \<notin> insert c D) xs) + count_list xs c" for xs
    by (induction xs) auto
  then show ?thesis by (simp add: pending_def)
qed

lemma pending_zero: "pending deps D i = 0 \<longleftrightarrow> set (deps i) \<subseteq> D"
  by (auto simp: pending_def filter_empty_conv)

lemma release_counts:
  assumes "fold release ns (q, inDeg) = (q', inDeg')" "length inDeg = n" "set ns \<subseteq> {..<n}"
    "\<And>i. i < n \<Longrightarrow> inDeg ! i = int (f i + count_list ns i)" "distinct (p @ q)" "set (p @ q) = {i. i < n \<and> inDeg ! i = 0}"
  shows "length inDeg' = n \<and> (\<forall>i < n. inDeg' ! i = int (f i)) \<and> distinct (p @ q') \<and>
    set (p @ q') = {i. i < n \<and> inDeg' ! i = 0}"
  using assms
proof (induction ns arbitrary: q inDeg)
  case Nil
  then show ?case by simp
next
  case (Cons x ns)
  let ?v = "inDeg ! x - 1" let ?d = "inDeg[x := ?v]" let ?q = "if ?v = 0 then q @ [x] else q"
  have x: "x < n" "inDeg ! x > 0" using Cons.prems(3,4) by auto
  then have "x \<notin> set (p @ q)" using Cons.prems(6) by auto
  then have d: "distinct (p @ ?q)" using Cons.prems(5) by auto
  have s: "set (p @ ?q) = {i. i < n \<and> ?d ! i = 0}"
  proof -
    have "set (p @ ?q) = set (p @ q) \<union> (if ?v = 0 then {x} else {})" by auto
    also have "\<dots> = {i. i < n \<and> inDeg ! i = 0} \<union> (if ?v = 0 then {x} else {})" using Cons.prems(6) by simp
    also have "\<dots> = {i. i < n \<and> ?d ! i = 0}"
      using Cons.prems(2) x by (auto simp: nth_list_update)
    finally show ?thesis .
  qed
  have c: "?d ! i = int (f i + count_list ns i)" if "i < n" for i
    using Cons.prems(2) Cons.prems(4) [OF that] x that by (auto simp: nth_list_update)
  have "release x (q, inDeg) = (?q, ?d)" using Cons.prems(2) x by (simp add: release_def)
  then have "fold release ns (?q, ?d) = (q', inDeg')" using Cons.prems(1) by simp
  then show ?case using Cons.IH [of ?q ?d] Cons.prems(2,3) c d s by simp
qed

lemma round_inv_step:
  assumes "graph_ok n deps adj" "round_inv n deps (cur # q) inDeg xs" "fold release (adj ! cur) (q, inDeg) = (q', inDeg')"
  shows "round_inv n deps q' inDeg' (xs @ [cur])"
proof -
  have cur: "cur < n" "inDeg ! cur = 0" "cur \<notin> set xs" using assms(2) by (auto simp: round_inv_def)
  have count: "count_list (adj ! cur) i = (if i < n then count_list (deps i) cur else 0)" for i
    using assms(1) cur by (simp add: graph_ok_def)
  have "set (adj ! cur) \<subseteq> {..<n}" using count count_notin by (metis lessThan_iff subsetI count_list_0_iff)
  moreover have "inDeg ! i = int (pending deps (insert cur (set xs)) i + count_list (adj ! cur) i)" if "i < n" for i
    using assms(2) that pending_insert [OF cur(3), of deps i] by (simp add: round_inv_def count)
  ultimately have "length inDeg' = n \<and> (\<forall>i < n. inDeg' ! i = int (pending deps (insert cur (set xs)) i)) \<and>
      distinct ((xs @ [cur]) @ q') \<and> set ((xs @ [cur]) @ q') = {i. i < n \<and> inDeg' ! i = 0}"
    using assms(2) by (intro release_counts [OF assms(3)]) (simp_all add: round_inv_def)
  moreover have "set (deps cur) \<subseteq> set xs"
    using assms(2) cur pending_zero [of deps "set xs" cur] by (simp add: round_inv_def)
  ultimately show ?thesis using assms(2) ordered_snoc by (simp add: round_inv_def)
qed

lemma sort_loop_inv:
  "graph_ok n deps adj \<Longrightarrow> round_inv n deps q inDeg xs \<Longrightarrow> \<exists>d. round_inv n deps [] d (sort_loop adj q inDeg xs)"
proof (induction adj q inDeg xs rule: sort_loop.induct)
  case (1 adj inDeg xs)
  then show ?case by auto
next
  case (2 adj cur q inDeg xs)
  obtain q' d' where f: "fold release (adj ! cur) (q, inDeg) = (q', d')" by (metis surj_pair)
  with 2 show ?case using round_inv_step [OF 2(2,3) f] by simp
qed

text \<open>What the loop leaves: an ordered list of distinct indices that nothing can be appended to.\<close>

lemma sort_loop_result:
  assumes "graph_ok n deps adj" "length inDeg = n" "\<And>i. i < n \<Longrightarrow> inDeg ! i = int (length (deps i))"
    "xs = sort_loop adj (filter (\<lambda>i. inDeg ! i = 0) [0..<n]) inDeg []"
  shows "distinct xs \<and> set xs \<subseteq> {..<n} \<and> ordered deps xs \<and> (\<forall>i < n. set (deps i) \<subseteq> set xs \<longrightarrow> i \<in> set xs)"
proof -
  have "round_inv n deps (filter (\<lambda>i. inDeg ! i = 0) [0..<n]) inDeg []"
    using assms(2,3) by (auto simp: round_inv_def pending_def ordered_def)
  then obtain d where "round_inv n deps [] d xs" using sort_loop_inv assms(1,4) by blast
  then show ?thesis using pending_zero [of deps "set xs"] by (auto simp: round_inv_def)
qed

section \<open>The graph the code builds\<close>

lemma add_edges:
  assumes "fold (\<lambda>d. add_edge i (index_of idx d)) ds (adj, inDeg) = (adj', inDeg')" "i < length inDeg"
    "\<forall>d \<in> set ds. index_of idx d < length adj"
  shows "length adj' = length adj \<and> length inDeg' = length inDeg \<and>
    (\<forall>c < length adj. \<forall>j. count_list (adj' ! c) j =
       count_list (adj ! c) j + (if j = i then count_list (map (index_of idx) ds) c else 0)) \<and>
    (\<forall>j < length inDeg. inDeg' ! j = inDeg ! j + (if j = i then int (length ds) else 0))"
  using assms
proof (induction ds arbitrary: adj inDeg)
  case Nil
  then show ?case by simp
next
  case (Cons d ds)
  let ?a = "adj[index_of idx d := adj ! index_of idx d @ [i]]" let ?n = "inDeg[i := inDeg ! i + 1]"
  have "add_edge i (index_of idx d) (adj, inDeg) = (?a, ?n)" by (simp add: add_edge_def)
  then have "fold (\<lambda>d. add_edge i (index_of idx d)) ds (?a, ?n) = (adj', inDeg')"
    using Cons.prems(1) by simp
  from Cons.IH [OF this] Cons.prems show ?case
    by (auto simp: nth_list_update)
qed

definition dep_indices :: "name_index \<Rightarrow> StackEntry list \<Rightarrow> nat \<Rightarrow> nat list" where
  "dep_indices idx es i = map (index_of idx) (se_depends (es ! i))"

lemma add_nodes:
  assumes "\<forall>i < length es. set (dep_indices idx es i) \<subseteq> {..<length es}" "k \<le> length es"
    "fold (add_node idx es) [0..<k] (replicate (length es) [], replicate (length es) 0) = (adj, inDeg)"
  shows "length adj = length es \<and> length inDeg = length es \<and>
    (\<forall>c < length es. \<forall>i. count_list (adj ! c) i = (if i < k then count_list (dep_indices idx es i) c else 0)) \<and>
    (\<forall>i < length es. inDeg ! i = (if i < k then int (length (dep_indices idx es i)) else 0))"
  using assms(2,3)
proof (induction k arbitrary: adj inDeg)
  case 0
  then show ?case by auto
next
  case (Suc k)
  obtain a n where g: "fold (add_node idx es) [0..<k] (replicate (length es) [], replicate (length es) 0) = (a, n)"
    by (metis surj_pair)
  have f: "fold (\<lambda>d. add_edge k (index_of idx d)) (se_depends (es ! k)) (a, n) = (adj, inDeg)"
    using Suc.prems(2) g by (simp add: add_node_def [of idx es k])
  note ih = Suc.IH [OF _ g]
  have "\<forall>d \<in> set (se_depends (es ! k)). index_of idx d < length a"
    using assms(1) Suc.prems(1) ih by (auto simp: dep_indices_def Suc_le_eq)
  from add_edges [OF f _ this] ih Suc.prems(1) show ?case
    by (auto simp: dep_indices_def less_Suc_eq)
qed

lemma build_graph_ok:
  assumes "\<forall>i < length es. set (dep_indices idx es i) \<subseteq> {..<length es}" "build_graph idx es = (adj, inDeg)"
  shows "graph_ok (length es) (dep_indices idx es) adj \<and> length inDeg = length es \<and>
    (\<forall>i < length es. inDeg ! i = int (length (dep_indices idx es i)))"
  using add_nodes [OF assms(1) order.refl] assms(2) by (simp add: build_graph_def graph_ok_def)

section \<open>The index and the checks\<close>

lemma build_index_Inr:
  "build_index i es idx = Inr idx' \<Longrightarrow> distinct (map se_name es) \<and>
     (\<forall>k < length es. map_find idx' (se_name (es ! k)) = Some (i + k)) \<and>
     (\<forall>n. n \<notin> se_name ` set es \<longrightarrow> map_find idx' n = map_find idx n) \<and> (\<forall>e \<in> set es. map_find idx (se_name e) = None)"
proof (induction i es idx rule: build_index.induct)
  case (1 i idx)
  then show ?case by simp
next
  case (2 i e es idx)
  then have fresh: "map_find idx (se_name e) = None"
    and rec: "build_index (Suc i) es (map_put (se_name e) i idx) = Inr idx'" by (auto split: if_splits)
  from 2(1) [OF _ rec] fresh have ih: "distinct (map se_name es)"
    "\<And>k. k < length es \<Longrightarrow> map_find idx' (se_name (es ! k)) = Some (Suc i + k)"
    "\<And>n. n \<notin> se_name ` set es \<Longrightarrow> map_find idx' n = map_find (map_put (se_name e) i idx) n"
    "\<And>x. x \<in> set es \<Longrightarrow> map_find (map_put (se_name e) i idx) (se_name x) = None" by auto
  have new: "se_name e \<notin> se_name ` set es" using ih(4) by fastforce
  have "map_find idx' (se_name ((e # es) ! k)) = Some (i + k)" if "k < length (e # es)" for k
    using that ih(2) ih(3) [OF new] by (cases k) auto
  moreover have "map_find idx (se_name x) = None" if "x \<in> set (e # es)" for x
    using that fresh ih(4) [of x] by (auto split: if_splits)
  ultimately show ?case using ih new by auto
qed

lemma build_index_Inl:
  "build_index i es idx = Inl x \<Longrightarrow> \<not> distinct (map se_name es) \<or> (\<exists>e \<in> set es. map_find idx (se_name e) \<noteq> None)"
proof (induction i es idx rule: build_index.induct)
  case (1 i idx)
  then show ?case by simp
next
  case (2 i e es idx)
  then show ?case by (cases "map_find idx (se_name e) = None") (auto split: if_splits intro: rev_image_eqI)
qed

lemma check_deps_ok: "(\<exists>e. check_deps idx nds = Inl e) \<longleftrightarrow> (\<exists>nd \<in> set nds. map_find idx (snd nd) = None)"
  by (induction idx nds rule: check_deps.induct) auto

section \<open>Correctness\<close>

text \<open>A start order of a stack file: all its containers, each after the containers it depends on.\<close>

definition start_order :: "StackEntry list \<Rightarrow> StackEntry list \<Rightarrow> bool" where
  "start_order entries xs \<longleftrightarrow> mset xs = mset entries \<and>
     (\<forall>k < length xs. set (se_depends (xs ! k)) \<subseteq> se_name ` set (take k xs))"

definition index_ok :: "StackEntry list \<Rightarrow> name_index \<Rightarrow> bool" where
  "index_ok es idx \<longleftrightarrow> distinct (map se_name es) \<and> (\<forall>k < length es. map_find idx (se_name (es ! k)) = Some k) \<and>
     (\<forall>n. n \<notin> se_name ` set es \<longrightarrow> map_find idx n = None)"

definition deps_known :: "StackEntry list \<Rightarrow> bool" where
  "deps_known es \<longleftrightarrow> (\<forall>e \<in> set es. set (se_depends e) \<subseteq> se_name ` set es)"

lemma index_ok_nth: "index_ok es idx \<Longrightarrow> k < length es \<Longrightarrow> index_of idx (se_name (es ! k)) = k"
  by (simp add: index_ok_def index_of_def)

lemma index_ok_member:
  assumes "index_ok es idx" "e \<in> set es"
  shows "index_of idx (se_name e) < length es" "es ! index_of idx (se_name e) = e"
  using assms index_ok_nth by (metis in_set_conv_nth)+

lemma dep_indices_bound:
  assumes "index_ok es idx" "deps_known es" "i < length es"
  shows "set (dep_indices idx es i) \<subseteq> {..<length es}"
proof
  fix j assume "j \<in> set (dep_indices idx es i)"
  then obtain d where d: "d \<in> set (se_depends (es ! i))" "j = index_of idx d" by (auto simp: dep_indices_def)
  then obtain e where "e \<in> set es" "d = se_name e"
    using assms(2) nth_mem [OF assms(3)] by (fastforce simp: deps_known_def)
  then show "j \<in> {..<length es}" using d(2) index_ok_member(1) [OF assms(1)] by simp
qed

lemma ordered_entries:
  assumes "index_ok es idx" "deps_known es" "ordered (dep_indices idx es) xs" "set xs \<subseteq> {..<length es}"
    "k < length xs"
  shows "set (se_depends (es ! (xs ! k))) \<subseteq> se_name ` set (take k (map (\<lambda>i. es ! i) xs))"
proof
  fix d assume d: "d \<in> set (se_depends (es ! (xs ! k)))"
  have x: "xs ! k < length es" using assms(4,5) nth_mem by blast
  obtain e where e: "e \<in> set es" "d = se_name e"
    using assms(2) nth_mem [OF x] d by (fastforce simp: deps_known_def)
  have "index_of idx d \<in> set (take k xs)"
    using assms(3,5) d by (auto simp: ordered_def dep_indices_def)
  then have "es ! index_of idx d \<in> set (take k (map (\<lambda>i. es ! i) xs))" by (simp add: take_map)
  then show "d \<in> se_name ` set (take k (map (\<lambda>i. es ! i) xs))"
    using index_ok_member(2) [OF assms(1) e(1)] e(2) by force
qed

lemma start_order_closed:
  assumes "index_ok es idx" "start_order es ys" "\<forall>i < length es. set (dep_indices idx es i) \<subseteq> set xs \<longrightarrow> i \<in> set xs"
  shows "\<forall>e \<in> set (take k ys). index_of idx (se_name e) \<in> set xs"
proof (induction k)
  case 0
  then show ?case by simp
next
  case (Suc k)
  show ?case
  proof (cases "k < length ys")
    case True
    have "ys ! k \<in> set es" using assms(2) True nth_mem mset_eq_setD by (metis start_order_def)
    note y = index_ok_member [OF assms(1) this]
    have "index_of idx d \<in> set xs" if "d \<in> set (se_depends (ys ! k))" for d
      using that Suc True assms(2) by (auto simp: start_order_def)
    then have "set (dep_indices idx es (index_of idx (se_name (ys ! k)))) \<subseteq> set xs" using y(2) by (auto simp: dep_indices_def)
    then have "index_of idx (se_name (ys ! k)) \<in> set xs" using assms(3) y(1) by blast
    with Suc True show ?thesis by (auto simp: take_Suc_conv_app_nth)
  next
    case False
    with Suc show ?thesis by simp
  qed
qed

lemma start_order_deps: "start_order es ys \<Longrightarrow> deps_known es"
  unfolding deps_known_def start_order_def
  by (metis (no_types, lifting) image_mono in_set_conv_nth mset_eq_setD order_trans set_take_subset)

lemma build_index_ok: "build_index 0 es [] = Inr idx \<Longrightarrow> index_ok es idx"
  using build_index_Inr [of 0 es "[]" idx] by (simp add: index_ok_def)

lemma index_ok_Some: "index_ok es idx \<Longrightarrow> map_find idx d = None \<longleftrightarrow> d \<notin> se_name ` set es"
  unfolding index_ok_def by (metis imageE in_set_conv_nth option.distinct(1))

lemma check_deps_known:
  assumes "index_ok es idx"
  shows "check_deps idx (concat (map (\<lambda>e. map (Pair (se_name e)) (se_depends e)) es)) = Inr () \<longleftrightarrow> deps_known es"
proof -
  let ?c = "check_deps idx (concat (map (\<lambda>e. map (Pair (se_name e)) (se_depends e)) es))"
  have "?c = Inr () \<longleftrightarrow> (\<nexists>e. ?c = Inl e)" by (cases ?c) auto
  also have "\<dots> \<longleftrightarrow> deps_known es"
    unfolding check_deps_ok deps_known_def using index_ok_Some [OF assms] by fastforce
  finally show ?thesis .
qed

lemma topoSort_known:
  assumes "build_index 0 es [] = Inr idx" "deps_known es"
  shows "case topoSort es of Inr xs \<Rightarrow> start_order es xs | Inl _ \<Rightarrow> (\<nexists>ys. start_order es ys)"
proof -
  note i = build_index_ok [OF assms(1)]
  obtain adj inDeg where g: "build_graph idx es = (adj, inDeg)" by (metis surj_pair)
  let ?xs = "sort_loop adj (filter (\<lambda>i. inDeg ! i = 0) [0..<length es]) inDeg []"
  have "\<forall>j < length es. set (dep_indices idx es j) \<subseteq> {..<length es}" using dep_indices_bound [OF i assms(2)] by blast
  note b = build_graph_ok [OF this g]
  then have r: "distinct ?xs" "set ?xs \<subseteq> {..<length es}" "ordered (dep_indices idx es) ?xs"
    "\<forall>j < length es. set (dep_indices idx es j) \<subseteq> set ?xs \<longrightarrow> j \<in> set ?xs"
    using sort_loop_result [of "length es" "dep_indices idx es" adj inDeg ?xs] by blast+
  have t: "topoSort es = (if length ?xs \<noteq> length es then Inl ''circular dependency detected in stack file''
      else Inr (map (\<lambda>i. es ! i) ?xs))"
    using assms i g check_deps_known [OF i] by (simp add: topoSort_def)
  show ?thesis
  proof (cases "length ?xs = length es")
    case True
    then have "set ?xs = {..<length es}" using r(1,2) by (metis card_lessThan card_subset_eq distinct_card finite_lessThan)
    then have "mset ?xs = mset [0..<length es]" using r(1) by (metis atLeast_upt distinct_upt set_eq_iff_mset_eq_distinct)
    then have "mset (map (\<lambda>i. es ! i) ?xs) = mset es" by (metis map_nth mset_map)
    then show ?thesis
      using t True ordered_entries [OF i assms(2) r(3,2)] by (simp add: start_order_def)
  next
    case False
    have "length es \<le> length ?xs" if "start_order es ys" for ys
    proof -
      have "se_name ` set es \<subseteq> se_name ` set ys" using that mset_eq_setD by (fastforce simp: start_order_def)
      have "{..<length es} \<subseteq> set ?xs"
      proof
        fix j assume j: "j \<in> {..<length es}"
        then have "es ! j \<in> set ys" using that mset_eq_setD nth_mem by (fastforce simp: start_order_def)
        then have "index_of idx (se_name (es ! j)) \<in> set ?xs"
          using start_order_closed [OF i that r(4), of "length ys"] by simp
        then show "j \<in> set ?xs" using index_ok_nth [OF i] j by simp
      qed
      then show ?thesis using r(1) by (metis List.finite_set card_lessThan card_mono distinct_card)
    qed
    moreover have "length ?xs \<le> length es"
      using r(1,2) by (metis card_lessThan card_mono distinct_card finite_lessThan)
    ultimately show ?thesis using t False by fastforce
  qed
qed

text \<open>
  C12. The start order of a stack. The function always returns: it gives an order exactly when the
  container names are distinct and some start order exists, and the order it gives is one, a
  permutation of the containers in which every container comes after everything it depends on. So
  "circular dependency" is reported only when no order exists, whatever the queue discipline.
\<close>

theorem topoSort_finds_start_order:
  "((\<exists>xs. topoSort es = Inr xs) \<longleftrightarrow> distinct (map se_name es) \<and> (\<exists>ys. start_order es ys)) \<and>
   (\<forall>xs. topoSort es = Inr xs \<longrightarrow> start_order es xs)"
proof (cases "build_index 0 es []")
  case (Inl e)
  then show ?thesis using build_index_Inl [OF Inl] by (auto simp: topoSort_def)
next
  case (Inr idx)
  note i = build_index_ok [OF Inr]
  then have d: "distinct (map se_name es)" by (simp add: index_ok_def)
  show ?thesis
  proof (cases "deps_known es")
    case True
    from topoSort_known [OF Inr True] d show ?thesis by (cases "topoSort es") auto
  next
    case False
    then have "topoSort es \<noteq> Inr xs" for xs
      using Inr check_deps_known [OF i] by (auto simp: topoSort_def)
    with False show ?thesis using start_order_deps by blast
  qed
qed

definition sample_stack :: "StackEntry list" where
  "sample_stack = [\<lparr>se_name = ''web'', se_depends = [''db'', ''cache'']\<rparr>, \<lparr>se_name = ''db'', se_depends = []\<rparr>,
     \<lparr>se_name = ''cache'', se_depends = [''db'']\<rparr>]"

theorem topoSort_finds_start_order_witness:
  "topoSort sample_stack = Inr [sample_stack ! 1, sample_stack ! 2, sample_stack ! 0] \<and>
   start_order sample_stack [sample_stack ! 1, sample_stack ! 2, sample_stack ! 0]"
proof -
  have "topoSort sample_stack = Inr [sample_stack ! 1, sample_stack ! 2, sample_stack ! 0]" by code_simp
  then show ?thesis using topoSort_finds_start_order [of sample_stack] by blast
qed

end
