(* ===== verification/Stack.thy ===== *)
theory Stack
  imports TopoSort FwLease IpAlloc
begin

text \<open>
  The helpers of \<^verbatim>\<open>crate stack\<close>, \<^verbatim>\<open>lib/stack_pure.cpp\<close>: the validators of names and addresses that
  reach a shell fragment, the fragments themselves, the block of ipfw rule numbers of a network
  policy, the rules to delete, the pool address of a member and the places a template is looked
  for. \<^verbatim>\<open>inet_pton\<close> is a pair of parameters: the value of an IPv4 literal, and whether a text is an
  IPv6 literal.
\<close>

section \<open>Addresses\<close>

record inet =
  pton4 :: "string \<Rightarrow> u32 option"
  pton6 :: "string \<Rightarrow> bool"

text \<open>\<^verbatim>\<open>std::stoul\<close> on a text without leading minus, consumed to its end: leading white space and a plus sign are skipped.\<close>

definition stoul_all :: "string \<Rightarrow> nat option" where
  "stoul_all s =
     (let t = dropWhile (\<lambda>c. c \<in> {CHR '' '', CHR 0x09, CHR 0x0A, CHR 0x0B, CHR 0x0C, CHR 0x0D}) s;
          u = (if t \<noteq> [] \<and> hd t = CHR ''+'' then tl t else t) in
      if u = [] \<or> \<not> list_all is_digit u then None
      else if dec_val u \<ge> 2 ^ 64 then None else Some (dec_val u))"

definition stack_parseCidr :: "inet \<Rightarrow> string \<Rightarrow> (u32 \<times> nat) option" where
  "stack_parseCidr net cidr =
     (case cut_at (CHR ''/'') cidr of
        None \<Rightarrow> None
      | Some (addrStr, suffix) \<Rightarrow>
        if suffix = [] \<or> hd suffix = CHR ''-'' then None
        else case stoul_all suffix of
          None \<Rightarrow> None
        | Some p \<Rightarrow> if p > 32 then None else map_option (\<lambda>a. (a, p)) (pton4 net addrStr))"

definition ipFromCidr :: "string \<Rightarrow> string" where
  "ipFromCidr cidr = (case cut_at (CHR ''/'') cidr of None \<Rightarrow> cidr | Some (a, _) \<Rightarrow> a)"

definition buildHostsEntries :: "(string, string) stdmap \<Rightarrow> string" where
  "buildHostsEntries m = concat (map (\<lambda>kv. snd kv @ '' '' @ fst kv @ [NL]) m)"

section \<open>Validators\<close>

definition stack_name_char :: "char \<Rightarrow> bool" where
  "stack_name_char c \<longleftrightarrow> is_alnum c \<or> c = CHR ''.'' \<or> c = CHR ''_'' \<or> c = CHR ''-''"

definition validateStackName :: "string \<Rightarrow> err" where
  "validateStackName name =
     fail_if (name = []) ''name is empty''
     (fail_if (length name > kJailName) (''name is longer than '' @ dec kJailName @ '' chars'')
     (fail_if (name = ''.'' \<or> name = ''..'') ''name is reserved''
     (fail_if (hd name = CHR ''-'') (''name must not start with '' @ quoted ''-'')
     (fail_if (\<not> list_all stack_name_char name) ''name contains an invalid character (allowed: [A-Za-z0-9._-])'' []))))"

definition stack_ip_char :: "char \<Rightarrow> bool" where
  "stack_ip_char c \<longleftrightarrow> is_hex c \<or> c = CHR ''.'' \<or> c = CHR '':'' \<or> c = CHR ''/''"

definition prefix_err :: "nat \<Rightarrow> string \<Rightarrow> err" where
  "prefix_err maxPrefix suffix =
     fail_if (suffix = [] \<or> length suffix > 3) ''CIDR prefix is malformed''
     (fail_if (\<not> list_all is_digit suffix) ''CIDR prefix must be numeric''
     (fail_if (dec_val suffix > maxPrefix) ''CIDR prefix is out of range for the address family'' []))"

definition validateStackIp :: "inet \<Rightarrow> string \<Rightarrow> err" where
  "validateStackIp net ip =
     fail_if (ip = []) ''address is empty''
     (fail_if (\<not> list_all stack_ip_char ip) ''address contains an invalid character''
     (let bare = ipFromCidr ip;
          rest = (\<lambda>maxPrefix. case cut_at (CHR ''/'') ip of None \<Rightarrow> [] | Some (_, suffix) \<Rightarrow> prefix_err maxPrefix suffix) in
      if pton4 net bare \<noteq> None then rest 32
      else if pton6 net bare then rest 128
      else ''address is neither a valid IPv4 nor IPv6 literal''))"

section \<open>Jails and rules of a stack\<close>

definition jailNameMatchesContainer :: "string \<Rightarrow> string \<Rightarrow> bool" where
  "jailNameMatchesContainer jailName container =
     (let prefix = container @ ''_pid'' in
      container \<noteq> [] \<and> length jailName > length prefix \<and> starts_with prefix jailName \<and>
      list_all is_digit (drop (length prefix) jailName))"

definition rule_number :: "string \<Rightarrow> nat option" where
  "rule_number line =
     (let s = dropWhile (\<lambda>c. c = CHR '' '') line;
          ds = take 6 (takeWhile is_digit s);
          after = drop (length ds) s;
          v = dec_val ds in
      if ds = [] \<or> v = 0 \<or> v > 65535 then None
      else if after \<noteq> [] \<and> hd after \<noteq> CHR '' '' \<and> hd after \<noteq> TAB then None
      else Some v)"

definition ipfwRuleNumbers :: "string \<Rightarrow> nat list" where
  "ipfwRuleNumbers listing = List.map_filter rule_number (getlines listing)"

text \<open>
  The search for a free block on \<^verbatim>\<open>unsigned\<close>. Near the top of the type \<^verbatim>\<open>slot += width\<close> wraps and the
  loop may run for ever, which is \<^term>\<open>None\<close> here.
\<close>

definition block_free :: "u32 list \<Rightarrow> u32 \<Rightarrow> u32 \<Rightarrow> bool" where
  "block_free taken at width =
     (case filter (\<lambda>u. at \<le> u) (sort (remdups taken)) of
        [] \<Rightarrow> True
      | u # _ \<Rightarrow> u > at + width - 1)"

partial_function (option) slot_loop :: "u32 list \<Rightarrow> u32 \<Rightarrow> u32 \<Rightarrow> u32 \<Rightarrow> u32 option" where
  [code]: "slot_loop taken stop width at =
     (if at + width - 1 \<le> stop
      then (if block_free taken at width then Some at else slot_loop taken stop width (at + width))
      else Some 0)"

definition freePolicySlot :: "u32 list \<Rightarrow> u32 \<Rightarrow> u32 \<Rightarrow> u32 \<Rightarrow> u32 option" where
  "freePolicySlot used start stop width =
     (if width = 0 \<or> start > stop then Some 0 else slot_loop used stop width start)"

fun find_sub :: "string \<Rightarrow> string \<Rightarrow> string option" where
  "find_sub needle s =
     (if starts_with needle s then Some (drop (length needle) s)
      else case s of [] \<Rightarrow> None | _ # t \<Rightarrow> find_sub needle t)"

declare find_sub.simps [simp del]

definition via_bridge :: "string \<Rightarrow> string \<Rightarrow> bool" where
  "via_bridge bridge line =
     (case find_sub ('' via '' @ bridge) line of
        None \<Rightarrow> False
      | Some after \<Rightarrow> after = [] \<or> hd after = CHR '' '' \<or> hd after = TAB \<or> hd after = CHR 0x0D)"

definition policy_rule :: "string \<Rightarrow> nat \<Rightarrow> nat \<Rightarrow> string \<Rightarrow> nat option" where
  "policy_rule bridge lo hi line =
     (case ipfwRuleNumbers line of
        [] \<Rightarrow> None
      | n # _ \<Rightarrow> if n < lo \<or> n > hi then None else if via_bridge bridge line then Some n else None)"

definition push_new :: "'a list \<Rightarrow> 'a \<Rightarrow> 'a list" where
  "push_new out n = (if n \<in> set out then out else out @ [n])"

definition policyRulesForBridge :: "string \<Rightarrow> string \<Rightarrow> nat \<Rightarrow> nat \<Rightarrow> nat list" where
  "policyRulesForBridge listing bridge lo hi =
     (if bridge = [] then [] else foldl push_new [] (List.map_filter (policy_rule bridge lo hi) (getlines listing)))"

section \<open>What is put into a member spec\<close>

definition SQ :: char where "SQ = CHR 0x27"
definition BS :: char where "BS = CHR 0x5C"

fun hosts_lines :: "inet \<Rightarrow> (string, string) stdmap \<Rightarrow> string res" where
  "hosts_lines net [] = Inr []"
| "hosts_lines net ((n, ip) # m) =
     (if validateStackName n \<noteq> [] then Inl (''stack hosts: container '' @ quoted n @ '': '' @ validateStackName n)
      else if validateStackIp net ip \<noteq> [] then Inl (''stack hosts: container '' @ quoted n @ '' address: '' @ validateStackIp net ip)
      else bind_res (hosts_lines net m) (\<lambda>ls. Inr (ip @ '' '' @ n @ [BS, CHR ''n''] @ ls)))"

definition hostsCommand :: "inet \<Rightarrow> (string, string) stdmap \<Rightarrow> string res" where
  "hostsCommand net m =
     (if m = [] then Inr []
      else bind_res (hosts_lines net m) (\<lambda>ls.
        Inr (''printf '' @ [SQ, BS, CHR ''n''] @ ''# crate stack containers'' @ [BS, CHR ''n''] @ ls @ [SQ] @ '' >> /etc/hosts'')))"

definition dnsCommand :: "inet \<Rightarrow> string \<Rightarrow> string res" where
  "dnsCommand net gateway =
     (if validateStackIp net gateway \<noteq> [] then Inl (''stack dns: gateway: '' @ validateStackIp net gateway)
      else Inr (''printf '' @ [SQ] @ ''nameserver '' @ gateway @ [BS, CHR ''n'', SQ] @ '' > /etc/resolv.conf''))"

definition poolCidr :: "string \<Rightarrow> string list \<Rightarrow> string" where
  "poolCidr ip subnets =
     ip @ (case List.map_filter (\<lambda>s. case cut_at (CHR ''/'') s of
                None \<Rightarrow> None | Some (_, p) \<Rightarrow> if p = [] then None else Some (CHR ''/'' # p)) subnets of
             [] \<Rightarrow> ''/24''
           | p # _ \<Rightarrow> p)"

definition poolEligible :: "string \<Rightarrow> string \<Rightarrow> string \<Rightarrow> bool \<Rightarrow> bool" where
  "poolEligible mode memberBridge networkBridge ownIp =
     (\<not> ownIp \<and> (mode = ''bridge'' \<or> mode = ''auto'') \<and> memberBridge \<noteq> [] \<and> memberBridge = networkBridge)"

definition under :: "string \<Rightarrow> string \<Rightarrow> string" where
  "under dir rel = (if dir = [] then rel else if last dir = CHR ''/'' then dir @ rel else dir @ ''/'' @ rel)"

definition ends_with :: "string \<Rightarrow> string \<Rightarrow> bool" where
  "ends_with suffix s \<longleftrightarrow> length s \<ge> length suffix \<and> drop (length s - length suffix) s = suffix"

definition templateCandidates :: "string \<Rightarrow> string \<Rightarrow> string \<Rightarrow> string list" where
  "templateCandidates name stackDir home =
     (let pathLike = (CHR ''/'' \<in> set name \<or> ends_with ''.yml'' name \<or> ends_with ''.yaml'' name);
          cands = (if name = [] then []
                   else if pathLike then
                     (if hd name = CHR ''/'' then [name] else [under stackDir name, name])
                   else (if home = [] then [] else [under home (''.config/crate/templates/'' @ name @ ''.yml'')]) @
                     [''/usr/local/share/crate/templates/'' @ name @ ''.yml'', under stackDir (name @ ''.yml'')]) in
      foldl push_new [] (filter (\<lambda>p. p \<noteq> []) cands))"

section \<open>The block of rule numbers\<close>

lemma block_free_iff: "block_free taken at width \<longleftrightarrow> (\<forall>u \<in> set taken. at \<le> u \<longrightarrow> u > at + width - 1)"
proof -
  let ?l = "filter (\<lambda>u. at \<le> u) (sort (remdups taken))"
  have s: "sorted ?l" by (simp add: sorted_wrt_filter)
  have m: "u \<in> set ?l \<longleftrightarrow> u \<in> set taken \<and> at \<le> u" for u by simp
  show ?thesis
  proof (cases ?l)
    case Nil
    then have "\<not> at \<le> u" if "u \<in> set taken" for u using m [of u] that by simp
    then show ?thesis using Nil by (simp add: block_free_def)
  next
    case (Cons x xs)
    then have x: "x \<in> set taken" "at \<le> x" "\<And>u. u \<in> set taken \<Longrightarrow> at \<le> u \<Longrightarrow> x \<le> u"
      using m s by (metis list.set_intros(1), metis list.set_intros(1), metis order_refl set_ConsD sorted_simps(2))
    then have "at + width - 1 < x \<longleftrightarrow> (\<forall>u \<in> set taken. at \<le> u \<longrightarrow> at + width - 1 < u)"
      by (metis order_less_le_trans)
    then show ?thesis using Cons by (simp add: block_free_def)
  qed
qed

definition block_at :: "nat \<Rightarrow> nat \<Rightarrow> u32 list \<Rightarrow> bool" where
  "block_at n w used \<longleftrightarrow> (\<forall>u \<in> set used. unat u < n \<or> n + w \<le> unat u)"

lemma block_free_nat:
  assumes "unat at + unat width \<le> 2 ^ 32 - 1" "width \<noteq> 0"
  shows "block_free used at width \<longleftrightarrow> block_at (unat at) (unat width) used"
    "unat (at + width - 1) = unat at + unat width - 1"
proof -
  have w: "0 < unat width" using assms(2) by (simp add: word_greater_zero_iff unat_gt_0)
  have "unat (at + width) = unat at + unat width" using assms(1) by (subst unat_add_lem [THEN iffD1]) simp_all
  moreover have "at + width \<noteq> 0" using calculation w by auto
  ultimately show e: "unat (at + width - 1) = unat at + unat width - 1" by (metis unat_minus_one)
  show "block_free used at width \<longleftrightarrow> block_at (unat at) (unat width) used"
    unfolding block_free_iff block_at_def word_le_nat_alt word_less_nat_alt e using w by force
qed

text \<open>The bases of the blocks that lie inside the range, in ascending order.\<close>

definition blocks :: "nat \<Rightarrow> nat \<Rightarrow> nat \<Rightarrow> nat list" where
  "blocks start stop w = map (\<lambda>k. start + k * w) [0..<(stop + 1 - start) div w]"

lemma blocks_Cons: "0 < w \<Longrightarrow> start + w - 1 \<le> stop \<Longrightarrow> blocks start stop w = start # blocks (start + w) stop w"
proof -
  assume w: "0 < w" "start + w - 1 \<le> stop"
  let ?K = "(stop + 1 - (start + w)) div w"
  have "(stop + 1 - start) div w = Suc ?K" using w by (subst le_div_geq) auto
  moreover have "map (\<lambda>k. start + k * w) [0..<Suc ?K] = start # map (\<lambda>k. start + w + k * w) [0..<?K]"
    by (simp only: upt_conv_Cons [OF zero_less_Suc] map_Suc_upt [symmetric] list.map map_map comp_def) simp
  ultimately show ?thesis by (simp add: blocks_def)
qed

lemma blocks_Nil: "0 < w \<Longrightarrow> \<not> start + w - 1 \<le> stop \<Longrightarrow> blocks start stop w = []"
  by (simp add: blocks_def)

lemma slot_loop_find:
  assumes "unat stop + 2 * unat width \<le> 2 ^ 32 - 1" "width \<noteq> 0" "unat at \<le> unat stop + unat width"
  shows "slot_loop used stop width at =
    Some (case List.find (\<lambda>n. block_at n (unat width) used) (blocks (unat at) (unat stop) (unat width)) of
            None \<Rightarrow> 0 | Some n \<Rightarrow> word_of_nat n)"
  using assms(3)
proof (induction "length (blocks (unat at) (unat stop) (unat width))" arbitrary: at)
  case 0
  have W: "0 < unat width" using assms(2) by (simp add: unat_gt_0)
  have "\<not> unat at + unat width - 1 \<le> unat stop" using 0(1) blocks_Cons [OF W] by force
  then have "\<not> at + width - 1 \<le> stop"
    using block_free_nat(2) [of at width] 0(2) assms by (simp add: word_le_nat_alt)
  then show ?case using 0(1) by (subst slot_loop.simps) simp
next
  case (Suc n)
  have W: "0 < unat width" using assms(2) by (simp add: unat_gt_0)
  have a: "unat at + unat width \<le> 2 ^ 32 - 1" using Suc.prems assms(1) by simp
  have le: "unat at + unat width - 1 \<le> unat stop" using Suc(2) blocks_Nil [OF W] by force
  then have in_range: "at + width - 1 \<le> stop" using block_free_nat(2) [OF a assms(2)] by (simp add: word_le_nat_alt)
  have s: "unat (at + width) = unat at + unat width" using a by (subst unat_add_lem [THEN iffD1]) simp_all
  note c = blocks_Cons [OF W le]
  have "slot_loop used stop width at =
      (if block_at (unat at) (unat width) used then Some at else slot_loop used stop width (at + width))"
    using in_range block_free_nat(1) [OF a assms(2)] by (subst slot_loop.simps) simp
  moreover have "n = length (blocks (unat (at + width)) (unat stop) (unat width))"
    "unat (at + width) \<le> unat stop + unat width" using Suc(2) le c s W by simp_all
  ultimately show ?case using Suc(1) [of "at + width"] c s by simp
qed

text \<open>
  The search for a free block of rule numbers ends. With a range that does not come within two
  blocks of the top of \<^verbatim>\<open>unsigned\<close> (the code uses 30000 to 39999 in blocks of 100), the loop returns,
  and it returns the first block of the range, counted from the start in whole blocks, that has
  none of the used numbers, and 0 when every block has one.
\<close>

theorem freePolicySlot_first_free:
  assumes "unat stop + 2 * unat width \<le> 2 ^ 32 - 1" "width \<noteq> 0" "start \<le> stop"
  shows "freePolicySlot used start stop width =
    Some (case List.find (\<lambda>n. block_at n (unat width) used) (blocks (unat start) (unat stop) (unat width)) of
            None \<Rightarrow> 0 | Some n \<Rightarrow> word_of_nat n)"
  using slot_loop_find [OF assms(1,2), of start used] assms(2,3)
  by (auto simp: freePolicySlot_def word_le_nat_alt word_less_nat_alt)

theorem freePolicySlot_first_free_witness:
  "freePolicySlot [30105, 30000, 30042] 30000 39999 100 = Some 30200"
proof -
  have "blocks 30000 39999 100 = 30000 # 30100 # 30200 # blocks 30300 39999 100"
    by (simp add: blocks_Cons)
  then show ?thesis
    using freePolicySlot_first_free [of 39999 100 30000 "[30105, 30000, 30042]"]
    by (simp add: block_at_def unat_numeral)
qed

section \<open>The shell fragments\<close>

text \<open>What \<^verbatim>\<open>printf\<close> writes for a format without conversions, as far as \<^verbatim>\<open>\n\<close> is concerned.\<close>

fun printf_text :: "string \<Rightarrow> string" where
  "printf_text (c # d # s) = (if c = BS \<and> d = CHR ''n'' then NL # printf_text s else c # printf_text (d # s))"
| "printf_text s = s"

definition shell_inert :: "char \<Rightarrow> bool" where
  "shell_inert c \<longleftrightarrow> c \<noteq> SQ \<and> c \<noteq> BS \<and> c \<noteq> CHR ''%'' \<and> c \<noteq> NL"

lemma printf_text_plain: "list_all shell_inert s \<Longrightarrow> printf_text (s @ BS # CHR ''n'' # r) = s @ NL # printf_text r"
proof (induction s)
  case Nil
  then show ?case by simp
next
  case (Cons c s)
  then show ?case by (cases s) (auto simp: shell_inert_def)
qed

lemma stack_name_inert: "validateStackName n = [] \<Longrightarrow> list_all shell_inert n"
  by (auto simp: validateStackName_def list_all_iff stack_name_char_def shell_inert_def is_alnum_def SQ_def BS_def NL_def)

lemma stack_ip_inert: "validateStackIp net ip = [] \<Longrightarrow> list_all shell_inert ip"
  by (auto simp: validateStackIp_def list_all_iff stack_ip_char_def shell_inert_def is_hex_def SQ_def BS_def NL_def)

lemma inert_notin: "list_all shell_inert s \<Longrightarrow> SQ \<notin> set s \<and> CHR ''%'' \<notin> set s"
  by (auto simp: list_all_iff shell_inert_def)

lemma hosts_lines_text:
  "hosts_lines net m = Inr ls \<Longrightarrow> SQ \<notin> set ls \<and> CHR ''%'' \<notin> set ls \<and> printf_text ls = buildHostsEntries m"
proof (induction net m arbitrary: ls rule: hosts_lines.induct)
  case (1 net)
  then show ?case by (simp add: buildHostsEntries_def)
next
  case (2 net n ip m)
  then obtain ls' where v: "validateStackName n = []" "validateStackIp net ip = []" "hosts_lines net m = Inr ls'"
    "ls = (ip @ '' '' @ n) @ BS # CHR ''n'' # ls'" by (auto split: if_splits)
  have sp: "shell_inert (CHR '' '')" by (simp add: shell_inert_def SQ_def BS_def NL_def)
  have i: "list_all shell_inert (ip @ '' '' @ n)"
    using stack_name_inert [OF v(1)] stack_ip_inert [OF v(2)] sp by simp
  have q: "SQ \<notin> set (ip @ '' '' @ n)" "CHR ''%'' \<notin> set (ip @ '' '' @ n)" using inert_notin [OF i] by blast+
  have ih: "SQ \<notin> set ls'" "CHR ''%'' \<notin> set ls'" "printf_text ls' = buildHostsEntries m" using 2(1) v by simp_all
  have "printf_text ls = (ip @ '' '' @ n) @ NL # buildHostsEntries m"
    using printf_text_plain [OF i, of ls'] unfolding v(4) ih(3) .
  moreover have "SQ \<notin> set ls" "CHR ''%'' \<notin> set ls" using q ih(1,2) unfolding v(4) by (auto simp: SQ_def BS_def)
  ultimately show ?case by (simp add: buildHostsEntries_def)
qed


definition sample_inet :: inet where
  "sample_inet = \<lparr>pton4 = (\<lambda>s. case parseIp s of Inl _ \<Rightarrow> None | Inr a \<Rightarrow> Some a), pton6 = (\<lambda>_. False)\<rparr>"


end
