(* ===== verification/SnapshotName.thy ===== *)
theory SnapshotName
  imports PrivOps Stack
begin

text \<open>
  Names of snapshots and backup streams, \<^verbatim>\<open>lib/backup_pure.cpp\<close> and the first half of
  \<^verbatim>\<open>lib/backup_prune_pure.cpp\<close>. A snapshot carries its UTC time in its name, printed through
  \<^verbatim>\<open>gmtime_r\<close> and \<^verbatim>\<open>strftime\<close> and read back by hand; the calendar is modelled on integers, where none
  of the intermediate values comes near the ends of \<^verbatim>\<open>long\<close>.
\<close>

section \<open>The calendar\<close>

text \<open>\<^verbatim>\<open>civilToEpoch\<close> of the source; its callers pass a year from 1970 on.\<close>

definition civilToEpoch :: "int \<Rightarrow> int \<Rightarrow> int \<Rightarrow> int \<Rightarrow> int \<Rightarrow> int \<Rightarrow> int" where
  "civilToEpoch y0 m d hh mm ss =
     (let y = (if m \<le> 2 then y0 - 1 else y0);
          era = y div 400;
          yoe = y - era * 400;
          doy = (153 * (m + (if m > 2 then -3 else 9)) + 2) div 5 + d - 1;
          doe = yoe * 365 + yoe div 4 - yoe div 100 + doy;
          days = era * 146097 + doe - 719468 in
      days * 86400 + hh * 3600 + mm * 60 + ss)"

text \<open>
  \<^verbatim>\<open>gmtime_r\<close> for a time not before 1970: the proleptic Gregorian calendar, counted in eras of 400
  years that start on the first of March.
\<close>

record tm =
  tm_year :: int
  tm_mon :: int
  tm_mday :: int
  tm_hour :: int
  tm_min :: int
  tm_sec :: int

definition gmtime :: "int \<Rightarrow> tm" where
  "gmtime t =
     (let z = t div 86400 + 719468;
          era = z div 146097; doe = z mod 146097;
          c = min 3 (doe div 36524); r1 = doe - c * 36524;
          q = r1 div 1461; r2 = r1 mod 1461;
          a = min 3 (r2 div 365);
          yoe = 100 * c + 4 * q + a; doy = r2 - a * 365;
          mp = (5 * doy + 2) div 153;
          m = (if mp < 10 then mp + 3 else mp - 9);
          s = t mod 86400 in
      \<lparr>tm_year = era * 400 + yoe + (if m \<le> 2 then 1 else 0), tm_mon = m, tm_mday = doy - (153 * mp + 2) div 5 + 1,
       tm_hour = s div 3600, tm_min = s div 60 mod 60, tm_sec = s mod 60\<rparr>)"

definition pad2 :: "int \<Rightarrow> string" where
  "pad2 n = [digit_char (nat n div 10), digit_char (nat n mod 10)]"

definition pad4 :: "int \<Rightarrow> string" where
  "pad4 n = pad2 (n div 100) @ pad2 (n mod 100)"

section \<open>Names\<close>

definition kBackupPrefix :: string where "kBackupPrefix = ''backup-''"
definition kReplPrefix :: string where "kReplPrefix = ''repl-''"

text \<open>\<^verbatim>\<open>strftime("%Y-%m-%dT%H:%M:%SZ")\<close> for a year of four digits.\<close>

definition utc_stamp :: "tm \<Rightarrow> string" where
  "utc_stamp t = pad4 (tm_year t) @ ''-'' @ pad2 (tm_mon t) @ ''-'' @ pad2 (tm_mday t) @ ''T'' @
     pad2 (tm_hour t) @ '':'' @ pad2 (tm_min t) @ '':'' @ pad2 (tm_sec t) @ ''Z''"

definition snapshotSuffixWithPrefix :: "string \<Rightarrow> int \<Rightarrow> string" where
  "snapshotSuffixWithPrefix prefix epoch = prefix @ utc_stamp (gmtime epoch)"

definition snapshotSuffix :: "int \<Rightarrow> string" where
  "snapshotSuffix epoch = snapshotSuffixWithPrefix kBackupPrefix epoch"

definition fullSnapshotName :: "string \<Rightarrow> string \<Rightarrow> string" where
  "fullSnapshotName dataset suffix = dataset @ ''@'' @ suffix"

definition streamFilename :: "string \<Rightarrow> string \<Rightarrow> string \<Rightarrow> string" where
  "streamFilename jailName suffix incFromSuffix =
     (if incFromSuffix = [] then jailName @ ''-'' @ suffix @ ''.zstream''
      else jailName @ ''-'' @ suffix @ ''.inc-from-'' @ incFromSuffix @ ''.zstream'')"

definition backup_validateJailName :: "string \<Rightarrow> err" where
  "backup_validateJailName name =
     fail_if (name = []) ''jail name is empty''
     (fail_if (length name > kJailName) (''jail name longer than '' @ dec kJailName @ '' chars'')
     (fail_if (name = ''.'' \<or> name = ''..'') ''jail name is reserved''
     (case List.find (\<lambda>c. \<not> stack_name_char c) name of
        None \<Rightarrow> [] | Some c \<Rightarrow> ''invalid character '' @ quoted [c] @ '' in jail name'')))"

definition validateOutputDir :: "string \<Rightarrow> err" where
  "validateOutputDir dir =
     fail_if (dir = []) ''output directory is empty''
     (fail_if (length dir > 1024) ''output directory longer than 1024 chars''
     (fail_if (hd dir \<noteq> CHR ''/'') ''output directory must be absolute''
     (fail_if (hasDotDotSegment dir) (''output directory must not contain '' @ quoted ''..'' @ '' segments'')
     (fail_if (hasShellMetachar dir) ''output directory contains shell metacharacters'' []))))"

fun since_chars :: "string \<Rightarrow> err" where
  "since_chars [] = []"
| "since_chars (c # cs) =
     (if c = CHR ''@'' then ''--since must not contain '' @ quoted ''@''
      else if c = CHR ''/'' then ''--since must not contain '' @ quoted ''/''
      else if \<not> (stack_name_char c \<or> c = CHR '':'' \<or> c = CHR ''T'' \<or> c = CHR ''+'')
        then ''invalid character '' @ quoted [c] @ '' in --since value''
      else since_chars cs)"

definition validateSinceName :: "string \<Rightarrow> err" where
  "validateSinceName name =
     fail_if (name = []) ''--since value is empty''
     (fail_if (length name > 128) ''--since value longer than 128 chars'' (since_chars name))"

definition buildSnapshotArgv :: "string \<Rightarrow> string \<Rightarrow> string list" where
  "buildSnapshotArgv dataset suffix = [''/sbin/zfs'', ''snapshot'', dataset @ ''@'' @ suffix]"

definition buildSendArgv :: "string \<Rightarrow> string \<Rightarrow> string \<Rightarrow> string list" where
  "buildSendArgv dataset currSuffix prevSuffix =
     (if prevSuffix = [] then [''/sbin/zfs'', ''send'', dataset @ ''@'' @ currSuffix]
      else [''/sbin/zfs'', ''send'', ''-i'', dataset @ ''@'' @ prevSuffix, dataset @ ''@'' @ currSuffix])"

definition buildRecvArgv :: "string \<Rightarrow> string list" where
  "buildRecvArgv destDataset = [''/sbin/zfs'', ''recv'', destDataset]"

definition buildDestroySnapshotArgv :: "string \<Rightarrow> string \<Rightarrow> string list" where
  "buildDestroySnapshotArgv dataset suffix = [''/sbin/zfs'', ''destroy'', dataset @ ''@'' @ suffix]"

section \<open>Retention and plan\<close>

record RetentionPolicy =
  hourly :: nat
  daily :: nat
  weekly :: nat
  monthly :: nat

fun retention_value :: "nat \<Rightarrow> string \<Rightarrow> nat option" where
  "retention_value n [] = Some n"
| "retention_value n (c # cs) =
     (if \<not> is_digit c then None
      else let n' = n * 10 + digit_val c in if n' > 0xFFFFFFFF then None else retention_value n' cs)"

definition retention_pair :: "string \<Rightarrow> RetentionPolicy \<Rightarrow> RetentionPolicy res" where
  "retention_pair pair out =
     (case cut_at (CHR ''='') pair of
        None \<Rightarrow> Inl (''retention pair must be '' @ quoted ''key=value'' @ '', got '' @ quoted pair)
      | Some (key, val) \<Rightarrow>
        (case (if val = [] then None else retention_value 0 val) of
           None \<Rightarrow> Inl (''retention value for '' @ quoted key @ '' must be a non-negative integer'')
         | Some n \<Rightarrow>
             if key = ''hourly'' then Inr (out\<lparr>hourly := n\<rparr>)
             else if key = ''daily'' then Inr (out\<lparr>daily := n\<rparr>)
             else if key = ''weekly'' then Inr (out\<lparr>weekly := n\<rparr>)
             else if key = ''monthly'' then Inr (out\<lparr>monthly := n\<rparr>)
             else Inl (''unknown retention key '' @ quoted key @ '' (allowed: hourly|daily|weekly|monthly)'')))"

fun retention_pairs :: "string list \<Rightarrow> RetentionPolicy \<Rightarrow> RetentionPolicy res" where
  "retention_pairs [] out = Inr out"
| "retention_pairs (p # ps) out = bind_res (retention_pair p out) (retention_pairs ps)"

text \<open>The loop stops at the end of the text: a trailing comma does not start another pair.\<close>

definition no_policy :: RetentionPolicy where
  "no_policy = \<lparr>hourly = 0, daily = 0, weekly = 0, monthly = 0\<rparr>"

definition parseRetention :: "string \<Rightarrow> RetentionPolicy res" where
  "parseRetention spec =
     (if spec = [] then Inl ''retention spec is empty''
      else let ps = split_on (CHR '','') spec in
        retention_pairs (if last ps = [] then butlast ps else ps) no_policy)"

datatype backup_plan = FullBackup | IncrementalBackup string | PlanError string

definition choosePlan :: "bool \<Rightarrow> string \<Rightarrow> bool \<Rightarrow> string \<Rightarrow> bool \<Rightarrow> backup_plan" where
  "choosePlan sinceProvided sinceName priorBackupExists priorSnapshotSuffix autoIncremental =
     (if sinceProvided then
        (if sinceName = [] then PlanError ''--since given but value is empty'' else IncrementalBackup sinceName)
      else if autoIncremental \<and> priorBackupExists then IncrementalBackup priorSnapshotSuffix
      else FullBackup)"

section \<open>Reading names\<close>

definition field_num :: "string \<Rightarrow> nat \<Rightarrow> nat \<Rightarrow> string" where
  "field_num body from len = take len (drop from body)"

definition parseSuffixEpoch :: "string \<Rightarrow> int" where
  "parseSuffixEpoch suffix =
     (if length suffix \<noteq> 7 + 20 \<or> \<not> starts_with kBackupPrefix suffix then 0
      else let body = drop 7 suffix in
        if body ! 4 \<noteq> CHR ''-'' \<or> body ! 7 \<noteq> CHR ''-'' \<or> body ! 10 \<noteq> CHR ''T'' \<or> body ! 13 \<noteq> CHR '':''
          \<or> body ! 16 \<noteq> CHR '':'' \<or> body ! 19 \<noteq> CHR ''Z'' then 0
        else let ys = field_num body 0 4; ms = field_num body 5 2; ds = field_num body 8 2;
                 hs = field_num body 11 2; is = field_num body 14 2; ss = field_num body 17 2 in
          if \<not> (list_all is_digit ys \<and> list_all is_digit ms \<and> list_all is_digit ds \<and> list_all is_digit hs \<and>
                 list_all is_digit is \<and> list_all is_digit ss) then 0
          else let y = int (dec_val ys); m = int (dec_val ms); d = int (dec_val ds);
                   hh = int (dec_val hs); mi = int (dec_val is); s = int (dec_val ss) in
            if y < 1970 \<or> y > 9999 \<or> m < 1 \<or> m > 12 \<or> d < 1 \<or> d > 31 \<or> hh > 23 \<or> mi > 59 \<or> s > 60 then 0
            else let e = civilToEpoch y m d hh mi s in if e \<le> 0 then 0 else e)"

record StreamFile =
  sf_filename :: string
  sf_jailName :: string
  sf_suffix :: string
  sf_incFrom :: string
  sf_epoch :: int

text \<open>\<^verbatim>\<open>find\<close> and \<^verbatim>\<open>rfind\<close> of a text, as the parts before and after.\<close>

fun cut_first :: "string \<Rightarrow> string \<Rightarrow> (string \<times> string) option" where
  "cut_first n s =
     (if starts_with n s then Some ([], drop (length n) s)
      else case s of [] \<Rightarrow> None | c # t \<Rightarrow> map_option (apfst ((#) c)) (cut_first n t))"

declare cut_first.simps [simp del]

fun cut_last :: "string \<Rightarrow> string \<Rightarrow> (string \<times> string) option" where
  "cut_last n s =
     (case s of
        [] \<Rightarrow> if n = [] then Some ([], []) else None
      | c # t \<Rightarrow> (case cut_last n t of
            Some (a, b) \<Rightarrow> Some (c # a, b)
          | None \<Rightarrow> if starts_with n s then Some ([], drop (length n) s) else None))"

declare cut_last.simps [simp del]

definition parseStreamFilename :: "string \<Rightarrow> StreamFile res" where
  "parseStreamFilename basename =
     (if length basename \<le> 8 then Inl ''filename too short for .zstream suffix''
      else if \<not> ends_with ''.zstream'' basename then Inl ''filename does not end in .zstream''
      else let stem0 = take (length basename - 8) basename;
               (stem, incFrom) = (case cut_first ''.inc-from-'' stem0 of None \<Rightarrow> (stem0, []) | Some p \<Rightarrow> p) in
        case cut_last ''-backup-'' stem of
          None \<Rightarrow> Inl (''filename does not contain '' @ quoted ''-backup-'' @ '' separator'')
        | Some (jail, rest) \<Rightarrow>
            let suffix = ''backup-'' @ rest in
            if jail = [] then Inl (''filename does not contain '' @ quoted ''-backup-'' @ '' separator'')
            else if length jail > kJailName then Inl ''jail name out of length bounds''
            else if \<not> list_all stack_name_char jail then Inl ''jail name contains invalid character''
            else if parseSuffixEpoch suffix = 0 then Inl (''snapshot suffix is not a valid '' @ quoted ''backup-<utc-iso8601>'')
            else if incFrom \<noteq> [] \<and> parseSuffixEpoch incFrom = 0 then
              Inl (''inc-from-<suffix> is not a valid '' @ quoted ''backup-<utc-iso8601>'')
            else Inr \<lparr>sf_filename = basename, sf_jailName = jail, sf_suffix = suffix, sf_incFrom = incFrom,
                      sf_epoch = parseSuffixEpoch suffix\<rparr>)"

section \<open>The calendar round trip\<close>

text \<open>Where a day lies in its era: centuries, four-year cycles and years, of which the last may be longer.\<close>

lemma era_split:
  fixes doe :: int
  assumes "0 \<le> doe" "doe < 146097"
  defines "c \<equiv> min 3 (doe div 36524)"
  defines "r1 \<equiv> doe - c * 36524"
  defines "q \<equiv> r1 div 1461" and "r2 \<equiv> r1 mod 1461"
  defines "a \<equiv> min 3 (r2 div 365)"
  defines "yoe \<equiv> 100 * c + 4 * q + a" and "doy \<equiv> r2 - a * 365"
  shows "0 \<le> yoe" "yoe < 400" "0 \<le> doy" "doy \<le> 365" "yoe * 365 + yoe div 4 - yoe div 100 + doy = doe"
proof -
  have c: "0 \<le> c" "c \<le> 3" using assms(1) by (simp_all add: c_def)
  have r1: "0 \<le> r1" "r1 \<le> 36524"
    using assms(1,2) by (auto simp: r1_def c_def min_def)
  have q: "0 \<le> q" "q \<le> 24" using r1 by (simp_all add: q_def) 
  have r2: "0 \<le> r2" "r2 \<le> 1460" "r1 = 1461 * q + r2" by (simp_all add: r2_def q_def)
  have a: "0 \<le> a" "a \<le> 3" using r2 by (simp_all add: a_def)
  have doy: "0 \<le> doy" "doy \<le> 365" using r2(1,2) by (auto simp: doy_def a_def min_def)
  then show "0 \<le> doy" "doy \<le> 365" by simp_all
  show "0 \<le> yoe" "yoe < 400" using c q a by (simp_all add: yoe_def)
  have "yoe div 4 = 25 * c + q" "yoe div 100 = c" using c q a by (simp_all add: yoe_def)
  then show "yoe * 365 + yoe div 4 - yoe div 100 + doy = doe"
    using r2(3) by (simp add: yoe_def doy_def r1_def)
qed

lemma month_split:
  fixes doy :: int
  assumes "0 \<le> doy" "doy \<le> 365"
  defines "mp \<equiv> (5 * doy + 2) div 153"
  shows "0 \<le> mp" "mp \<le> 11" "1 \<le> doy - (153 * mp + 2) div 5 + 1" "doy - (153 * mp + 2) div 5 + 1 \<le> 31"
proof -
  show mp: "0 \<le> mp" "mp \<le> 11" using assms(1,2) by (simp_all add: mp_def)
  define e where "e = (153 * mp + 2) div 5"
  have "5 * e \<le> 153 * mp + 2" "153 * mp + 2 < 5 * e + 5" by (simp_all add: e_def)
  moreover have "153 * mp \<le> 5 * doy + 2" "5 * doy + 2 < 153 * mp + 153" by (simp_all add: mp_def)
  ultimately show "1 \<le> doy - (153 * mp + 2) div 5 + 1" "doy - (153 * mp + 2) div 5 + 1 \<le> 31"
    unfolding e_def [symmetric] by linarith+
qed

text \<open>The fields \<^verbatim>\<open>gmtime_r\<close> yields are in range and name the same second.\<close>

lemma gmtime_inverse:
  assumes "0 \<le> t"
  defines "g \<equiv> gmtime t"
  shows "civilToEpoch (tm_year g) (tm_mon g) (tm_mday g) (tm_hour g) (tm_min g) (tm_sec g) = t"
    "1 \<le> tm_mon g" "tm_mon g \<le> 12" "1 \<le> tm_mday g" "tm_mday g \<le> 31" "0 \<le> tm_hour g" "tm_hour g \<le> 23"
    "0 \<le> tm_min g" "tm_min g \<le> 59" "0 \<le> tm_sec g" "tm_sec g \<le> 59"
    "1970 \<le> tm_year g" "t < 253402300800 \<Longrightarrow> tm_year g \<le> 9999"
proof -
  define z era doe where "z = t div 86400 + 719468" and "era = z div 146097" and "doe = z mod 146097"
  define c where "c = min 3 (doe div 36524)"
  define r1 where "r1 = doe - c * 36524"
  define q r2 where "q = r1 div 1461" and "r2 = r1 mod 1461"
  define a where "a = min 3 (r2 div 365)"
  define yoe doy where "yoe = 100 * c + 4 * q + a" and "doy = r2 - a * 365"
  define mp where "mp = (5 * doy + 2) div 153"
  define m where "m = (if mp < 10 then mp + 3 else mp - 9)"
  define s where "s = t mod 86400"
  have g: "g = \<lparr>tm_year = era * 400 + yoe + (if m \<le> 2 then 1 else 0), tm_mon = m, tm_mday = doy - (153 * mp + 2) div 5 + 1,
       tm_hour = s div 3600, tm_min = s div 60 mod 60, tm_sec = s mod 60\<rparr>"
    by (simp only: g_def gmtime_def Let_def z_def era_def doe_def c_def r1_def q_def r2_def a_def yoe_def doy_def mp_def m_def s_def)
  have doe: "0 \<le> doe" "doe < 146097" by (simp_all add: doe_def)
  note E = era_split [OF doe, folded c_def, folded r1_def, folded q_def r2_def, folded a_def, folded yoe_def doy_def]
  note M = month_split [OF E(3,4), folded mp_def]
  have m: "1 \<le> m" "m \<le> 12" "m + (if m > 2 then -3 else 9) = mp" using M(1,2) by (auto simp: m_def)
  have "s div 3600 = s div 60 div 60" using zdiv_zmult2_eq [of 60 s 60] by simp
  moreover have "s div 60 * 60 + s mod 60 = s" "s div 60 div 60 * 60 + s div 60 mod 60 = s div 60" by (rule div_mult_mod_eq)+
  ultimately have "s div 3600 * 3600 + s div 60 mod 60 * 60 + s mod 60 = s" by linarith
  then have s: "0 \<le> s" "s < 86400" "s div 3600 * 3600 + s div 60 mod 60 * 60 + s mod 60 = s"
    by (simp_all add: s_def)
  have zz: "z = era * 146097 + doe" by (simp add: era_def doe_def)
  have tt: "t = (z - 719468) * 86400 + s" by (simp add: z_def s_def)
  have z0: "719468 \<le> z" using assms(1) by (simp add: z_def)
  show "1 \<le> tm_mon g" "tm_mon g \<le> 12" "1 \<le> tm_mday g" "tm_mday g \<le> 31" "0 \<le> tm_hour g" "tm_hour g \<le> 23"
    "0 \<le> tm_min g" "tm_min g \<le> 59" "0 \<le> tm_sec g" "tm_sec g \<le> 59"
    using g m M s(1,2) by simp_all
  let ?y = "if m \<le> 2 then tm_year g - 1 else tm_year g"
  have y: "?y = era * 400 + yoe" by (simp add: g)
  have "?y div 400 = era" using y E(1,2) by simp
  then have era: "?y div 400 = era" "?y - era * 400 = yoe" using y by simp_all
  have "civilToEpoch (tm_year g) (tm_mon g) (tm_mday g) (tm_hour g) (tm_min g) (tm_sec g) =
      (era * 146097 + (yoe * 365 + yoe div 4 - yoe div 100 + doy) - 719468) * 86400 +
        (s div 3600 * 3600 + s div 60 mod 60 * 60 + s mod 60)"
    using era m(3) by (simp add: civilToEpoch_def Let_def g)
  then show "civilToEpoch (tm_year g) (tm_mon g) (tm_mday g) (tm_hour g) (tm_min g) (tm_sec g) = t"
    using E(5) s(3) tt zz by simp
  have late: "306 \<le> doy \<longleftrightarrow> m \<le> 2" using M(1,2) by (auto simp: m_def mp_def)
  have q4: "yoe div 4 * 4 \<le> yoe" "0 \<le> yoe div 4" "yoe div 100 * 100 + 99 \<ge> yoe" "yoe < yoe div 4 * 4 + 4" "0 \<le> yoe div 100" using E(1) by simp_all
  have early: "yoe \<le> 368 \<Longrightarrow> doe \<le> 134774" using E q4 by linarith
  show "1970 \<le> tm_year g"
  proof (cases "era \<ge> 5")
    case True
    then show ?thesis using g E(1) by auto
  next
    case False
    then have "era = 4" "doe \<ge> 135080" using zz z0 doe by linarith+
    moreover have "yoe = 369 \<Longrightarrow> doe = 134774 + doy" using E(5) by simp
    ultimately show ?thesis using early late g by (cases "yoe \<le> 368"; cases "yoe = 369") simp_all
  qed
  show "tm_year g \<le> 9999" if "t < 253402300800"
  proof -
    have "z \<le> 3652364" using that tt s(1) by simp
    then have "era \<le> 24" "era = 24 \<Longrightarrow> doe \<le> 146036" using zz doe by linarith+
    moreover have "yoe = 399 \<Longrightarrow> doe = 145731 + doy" using E(5) by simp
    ultimately show ?thesis using late g E(2) by (cases "era = 24"; cases "yoe = 399") simp_all
  qed
qed

section \<open>Snapshot names read back\<close>

lemma pad2_props:
  assumes "0 \<le> n" "n \<le> 99"
  shows "length (pad2 n) = 2" "list_all is_digit (pad2 n)" "int (dec_val (pad2 n)) = n"
proof -
  have d: "nat n div 10 < 10" "nat n mod 10 < 10" using assms by simp_all
  show "length (pad2 n) = 2" by (simp add: pad2_def)
  show "list_all is_digit (pad2 n)" using d by (simp add: pad2_def)
  have "dec_val (pad2 n) = nat n div 10 * 10 + nat n mod 10" using d by (simp add: pad2_def dec_val_def)
  then show "int (dec_val (pad2 n)) = n" using assms by simp
qed

lemma pad4_props:
  assumes "0 \<le> n" "n \<le> 9999"
  shows "length (pad4 n) = 4" "list_all is_digit (pad4 n)" "int (dec_val (pad4 n)) = n"
proof -
  have r: "0 \<le> n div 100" "n div 100 \<le> 99" "0 \<le> n mod 100" "n mod 100 \<le> 99" using assms by simp_all
  note P = pad2_props [OF r(1,2)] and Q = pad2_props [OF r(3,4)]
  show "length (pad4 n) = 4" "list_all is_digit (pad4 n)" using P Q by (simp_all add: pad4_def)
  have "dec_val (x @ [c, d]) = dec_val x * 100 + dec_val [c, d]" for x c d
    by (simp add: dec_val_def)
  then have "int (dec_val (pad4 n)) = int (dec_val (pad2 (n div 100))) * 100 + int (dec_val (pad2 (n mod 100)))"
    by (simp add: pad4_def pad2_def [of "n mod 100"])
  then show "int (dec_val (pad4 n)) = n" using P(3) Q(3) by simp
qed

lemma fields_of_stamp:
  assumes "length y = 4" "length m = 2" "length d = 2" "length h = 2" "length i = 2" "length s = 2"
  defines "body \<equiv> y @ ''-'' @ m @ ''-'' @ d @ ''T'' @ h @ '':'' @ i @ '':'' @ s @ ''Z''"
  shows "length body = 20" "body ! 4 = CHR ''-''" "body ! 7 = CHR ''-''" "body ! 10 = CHR ''T''" "body ! 13 = CHR '':''"
    "body ! 16 = CHR '':''" "body ! 19 = CHR ''Z''" "field_num body 0 4 = y" "field_num body 5 2 = m" "field_num body 8 2 = d"
    "field_num body 11 2 = h" "field_num body 14 2 = i" "field_num body 17 2 = s"
  using assms(1-6) by (simp_all add: body_def field_num_def nth_append)

lemma snapshot_time_roundtrip:
  assumes "0 < t" "t < 253402300800"
  shows "parseSuffixEpoch (snapshotSuffix t) = t"
proof -
  let ?g = "gmtime t"
  note G = gmtime_inverse [of t]
  have t0: "0 \<le> t" using assms by simp
  have yr: "0 \<le> tm_year ?g" "tm_year ?g \<le> 9999" using G(12,13) [OF t0] assms(2) by simp_all
  note Y = pad4_props [OF yr]
  have r: "0 \<le> tm_mon ?g" "tm_mon ?g \<le> 99" "0 \<le> tm_mday ?g" "tm_mday ?g \<le> 99" "0 \<le> tm_hour ?g" "tm_hour ?g \<le> 99"
    "0 \<le> tm_min ?g" "tm_min ?g \<le> 99" "0 \<le> tm_sec ?g" "tm_sec ?g \<le> 99" using G(2-11) [OF t0] by simp_all
  note P = pad2_props [OF r(1,2)] pad2_props [OF r(3,4)] pad2_props [OF r(5,6)] pad2_props [OF r(7,8)] pad2_props [OF r(9,10)]
  note F = fields_of_stamp [OF Y(1) P(1) P(4) P(7) P(10) P(13), folded utc_stamp_def]
  have "snapshotSuffix t = kBackupPrefix @ utc_stamp ?g" by (simp add: snapshotSuffix_def snapshotSuffixWithPrefix_def)
  moreover have "length kBackupPrefix = 7" by (simp add: kBackupPrefix_def)
  ultimately have "length (snapshotSuffix t) = 27" "starts_with kBackupPrefix (snapshotSuffix t)" "drop 7 (snapshotSuffix t) = utc_stamp ?g"
    using F(1) by simp_all
  then have "parseSuffixEpoch (snapshotSuffix t) =
      (let e = civilToEpoch (tm_year ?g) (tm_mon ?g) (tm_mday ?g) (tm_hour ?g) (tm_min ?g) (tm_sec ?g) in if e \<le> 0 then 0 else e)"
    unfolding parseSuffixEpoch_def using F Y P G(2-13) [OF t0] assms(2) by simp
  then show ?thesis using G(1) [OF t0] assms(1) by simp
qed

lemma stamp_chars:
  assumes "0 < t" "t < 253402300800"
  shows "CHR ''.'' \<notin> set (snapshotSuffix t)" "CHR ''b'' \<notin> set (utc_stamp (gmtime t))" "snapshotSuffix t \<noteq> []"
    "snapshotSuffix t = ''backup-'' @ utc_stamp (gmtime t)"
proof -
  let ?g = "gmtime t"
  note G = gmtime_inverse [of t]
  have t0: "0 \<le> t" using assms by simp
  have r: "0 \<le> tm_mon ?g" "tm_mon ?g \<le> 99" "0 \<le> tm_mday ?g" "tm_mday ?g \<le> 99" "0 \<le> tm_hour ?g" "tm_hour ?g \<le> 99"
    "0 \<le> tm_min ?g" "tm_min ?g \<le> 99" "0 \<le> tm_sec ?g" "tm_sec ?g \<le> 99" "0 \<le> tm_year ?g" "tm_year ?g \<le> 9999"
    using G(2-13) [OF t0] assms(2) by simp_all
  note D = pad4_props(2) [OF r(11,12)] pad2_props(2) [OF r(1,2)] pad2_props(2) [OF r(3,4)] pad2_props(2) [OF r(5,6)]
    pad2_props(2) [OF r(7,8)] pad2_props(2) [OF r(9,10)]
  have nd: "c \<notin> set xs" if "list_all is_digit xs" "\<not> is_digit c" for c xs using that by (auto simp: list_all_iff)
  have "\<not> is_digit (CHR ''.'')" "\<not> is_digit (CHR ''b'')" by (simp_all add: is_digit_def)
  then show "CHR ''.'' \<notin> set (snapshotSuffix t)" "CHR ''b'' \<notin> set (utc_stamp ?g)" "snapshotSuffix t \<noteq> []"
    "snapshotSuffix t = ''backup-'' @ utc_stamp (gmtime t)"
    using D nd by (simp_all add: snapshotSuffix_def snapshotSuffixWithPrefix_def utc_stamp_def kBackupPrefix_def)
qed

lemma cut_first_skip: "\<not> starts_with n (c # s) \<Longrightarrow> cut_first n (c # s) = map_option (apfst ((#) c)) (cut_first n s)"
  by (subst cut_first.simps) simp

lemma cut_first_none: "n \<noteq> [] \<Longrightarrow> hd n \<notin> set s \<Longrightarrow> cut_first n s = None"
proof (induction s)
  case Nil
  then show ?case by (subst cut_first.simps) (simp add: starts_with_def)
next
  case (Cons c s)
  then have "\<not> starts_with n (c # s)" by (cases n) (auto simp: starts_with_def)
  then show ?case using Cons by (simp add: cut_first_skip)
qed

lemma cut_first_here: "n \<noteq> [] \<Longrightarrow> hd n \<notin> set a \<Longrightarrow> cut_first n (a @ n @ b) = Some (a, b)"
proof (induction a)
  case Nil
  then show ?case by (subst cut_first.simps) (simp add: starts_with_def)
next
  case (Cons c a)
  then have "\<not> starts_with n (c # a @ n @ b)" by (cases n) (auto simp: starts_with_def)
  then show ?case using Cons by (simp add: cut_first_skip)
qed

lemma cut_last_none: "n \<noteq> [] \<Longrightarrow> x \<in> set n \<Longrightarrow> x \<notin> set s \<Longrightarrow> cut_last n s = None"
proof (induction s)
  case Nil
  then show ?case by (subst cut_last.simps) simp
next
  case (Cons c s)
  have "\<not> starts_with n (c # s)"
  proof
    assume "starts_with n (c # s)"
    then have "n = take (length n) (c # s)" by (simp add: starts_with_def)
    then have "set n \<subseteq> set (c # s)" using set_take_subset by metis
    then show False using Cons.prems by auto
  qed
  then show ?case using Cons by (subst cut_last.simps) simp
qed

text \<open>A tag that does not overlap itself and does not occur in what follows is found where it stands.\<close>

lemma cut_last_backup:
  assumes "CHR ''b'' \<notin> set b"
  shows "cut_last ''-backup-'' (a @ ''-backup-'' @ b) = Some (a, b)"
proof (induction a)
  case Nil
  have "cut_last ''-backup-'' (''backup-'' @ b) = None"
  proof -
    have "cut_last ''-backup-'' (''ackup-'' @ b) = None" by (rule cut_last_none [of _ "CHR ''b''"]) (use assms in auto)
    then show ?thesis by (subst cut_last.simps) (simp add: starts_with_def)
  qed
  then show ?case by (subst cut_last.simps) (simp add: starts_with_def)
next
  case (Cons c a)
  then show ?case by (subst cut_last.simps) simp
qed

text \<open>The tag of an incremental stream cannot begin in the jail name and reach into the suffix.\<close>

definition inc_tag :: string where "inc_tag = ''.inc-from-''"

definition tag_free :: "string \<Rightarrow> bool" where
  "tag_free jail \<longleftrightarrow> cut_first inc_tag (jail @ ''-'') = None"

lemma no_straddle:
  assumes "\<not> starts_with inc_tag (j @ ''-'')"
  shows "\<not> starts_with inc_tag (j @ ''-backup-'' @ r)"
proof
  assume s: "starts_with inc_tag (j @ ''-backup-'' @ r)"
  have len: "length inc_tag = 10" by (simp add: inc_tag_def)
  have t: "take 10 (j @ ''-backup-'' @ r) = inc_tag" using s unfolding starts_with_def len .
  show False
  proof (cases "length j \<ge> 9")
    case True
    then have "take 10 (j @ ''-backup-'' @ r) = take 10 (j @ ''-'')"
      by (cases "length j = 9") (simp_all add: take_Cons')
    then show False using assms t unfolding starts_with_def len by simp
  next
    case False
    have n: "inc_tag ! i = (j @ ''-backup-'' @ r) ! i" if "i < 10" for i using t that by (metis nth_take)
    have "inc_tag ! length j = CHR ''-''" using n [of "length j"] False by simp
    moreover have "length j = 0 \<or> length j = 1 \<or> length j = 2 \<or> length j = 3 \<or> length j = 4 \<or> length j = 5 \<or>
        length j = 6 \<or> length j = 7 \<or> length j = 8" using False by arith
    ultimately have "length j = 4" by (auto simp: inc_tag_def)
    then show False using n [of 5] by (simp add: inc_tag_def nth_append)
  qed
qed

lemma tag_free_Cons: "tag_free (c # j) \<Longrightarrow> \<not> starts_with inc_tag ((c # j) @ ''-'') \<and> tag_free j"
  by (auto simp: tag_free_def cut_first.simps [of _ "c # j @ ''-''"] split: if_splits)

lemma cut_first_jail:
  "tag_free jail \<Longrightarrow> cut_first inc_tag (jail @ ''-backup-'' @ r) = map_option (apfst ((@) jail)) (cut_first inc_tag (''-backup-'' @ r))"
proof (induction jail)
  case Nil
  then show ?case by (simp add: apfst_def map_prod_def option.map_ident split_beta)
next
  case (Cons c j)
  note T = tag_free_Cons [OF Cons.prems]
  have "\<not> starts_with inc_tag (c # j @ ''-backup-'' @ r)" using no_straddle [of "c # j" r] T by simp
  then have "cut_first inc_tag (c # j @ ''-backup-'' @ r) = map_option (apfst ((#) c)) (cut_first inc_tag (j @ ''-backup-'' @ r))"
    by (rule cut_first_skip)
  then show ?case using Cons.IH T by (simp add: option.map_comp comp_def apfst_def map_prod_def split_beta)
qed

text \<open>
  A backup stream is recognised by its name. For a valid jail name without the incremental tag in
  it and times between 1970 and 9999, the file name the backup code composes for a full or an
  incremental stream is parsed by the pruning code to exactly that jail, that snapshot, that base and
  that second; leap years, centuries and the ends of months included. (A jail whose name has the
  tag in it is excluded: its streams are not recognised and never pruned.)
\<close>

theorem stream_name_roundtrip:
  assumes "backup_validateJailName jail = []" "tag_free jail" "0 < t" "t < 253402300800"
    and "inc = [] \<or> (\<exists>t'. 0 < t' \<and> t' < 253402300800 \<and> inc = snapshotSuffix t')"
  shows "parseStreamFilename (streamFilename jail (snapshotSuffix t) inc) =
    Inr \<lparr>sf_filename = streamFilename jail (snapshotSuffix t) inc, sf_jailName = jail, sf_suffix = snapshotSuffix t,
      sf_incFrom = inc, sf_epoch = t\<rparr>"
proof -
  note C = stamp_chars [OF assms(3,4)]
  let ?u = "utc_stamp (gmtime t)"
  have j: "jail \<noteq> []" "length jail \<le> kJailName" "list_all stack_name_char jail"
    using assms(1) by (auto simp: backup_validateJailName_def list_all_iff find_None_iff fail_if_def split: if_splits option.splits)
  have inc: "inc = [] \<or> parseSuffixEpoch inc \<noteq> 0" using assms(5) snapshot_time_roundtrip by auto
  define stem where "stem = jail @ ''-backup-'' @ ?u"
  define tail where "tail = (if inc = [] then [] else inc_tag @ inc)"
  have name: "streamFilename jail (snapshotSuffix t) inc = (stem @ tail) @ ''.zstream''"
    by (simp add: streamFilename_def C(4) stem_def tail_def inc_tag_def)
  have dot: "CHR ''.'' \<notin> set (''-backup-'' @ ?u)" using C(1,4) by simp
  have "cut_first inc_tag (''-backup-'' @ ?u @ tail) = (if inc = [] then None else Some (''-backup-'' @ ?u, inc))"
    using cut_first_none [of inc_tag "''-backup-'' @ ?u"] cut_first_here [of inc_tag "''-backup-'' @ ?u" inc] dot
    by (simp add: tail_def inc_tag_def)
  then have cut: "cut_first inc_tag (stem @ tail) = (if inc = [] then None else Some (stem, inc))"
    using cut_first_jail [OF assms(2), of "?u @ tail"] by (simp add: stem_def)
  have last: "cut_last ''-backup-'' stem = Some (jail, ?u)" unfolding stem_def by (rule cut_last_backup [OF C(2)])
  have long: "length ((stem @ tail) @ ''.zstream'') > 8" using j by (simp add: stem_def)
  have ends: "ends_with ''.zstream'' ((stem @ tail) @ ''.zstream'')" by (simp add: ends_with_def)
  have stem0: "take (length ((stem @ tail) @ ''.zstream'') - 8) ((stem @ tail) @ ''.zstream'') = stem @ tail" by simp
  have tail0: "inc = [] \<Longrightarrow> tail = []" by (simp add: tail_def)
  show ?thesis
    unfolding name parseStreamFilename_def stem0
    using long ends cut [unfolded inc_tag_def] last j inc C(4) tail0 snapshot_time_roundtrip [OF assms(3,4)] assms(3)
    by (cases "inc = []") auto
qed

theorem stream_name_roundtrip_witness:
  "parseStreamFilename ''web-backup-2024-02-29T23:59:59Z.zstream'' =
    Inr \<lparr>sf_filename = ''web-backup-2024-02-29T23:59:59Z.zstream'', sf_jailName = ''web'',
      sf_suffix = ''backup-2024-02-29T23:59:59Z'', sf_incFrom = [], sf_epoch = 1709251199\<rparr>"
proof -
  have "gmtime 1709251199 = \<lparr>tm_year = 2024, tm_mon = 2, tm_mday = 29, tm_hour = 23, tm_min = 59, tm_sec = 59\<rparr>"
    by code_simp
  then have s: "snapshotSuffix 1709251199 = ''backup-2024-02-29T23:59:59Z''"
    by (simp add: snapshotSuffix_def snapshotSuffixWithPrefix_def utc_stamp_def kBackupPrefix_def pad4_def pad2_def)
  have "backup_validateJailName ''web'' = []" "tag_free ''web''" by code_simp+
  then show ?thesis
    using stream_name_roundtrip [of "''web''" 1709251199 "[]"] s by (simp add: streamFilename_def)
qed

end
