(* ===== verification/BackupPrune.thy ===== *)
theory BackupPrune
  imports SnapshotName StdMap "HOL-Library.Multiset"
begin

text \<open>
  Pruning of backup streams: the retention decision of \<^verbatim>\<open>lib/backup_prune_pure.cpp\<close> and the command of
  \<^verbatim>\<open>lib/backup_prune.cpp\<close> that unlinks what it rejects. Streams are indices into the scanned vector, as
  in the code. \<^verbatim>\<open>std::sort\<close> leaves the order of equivalent elements open, and two streams of a jail
  may carry the same time, so the sort of the indices is an argument; the locale \<^verbatim>\<open>std_sort_law\<close>
  states what the standard guarantees, and the theorems hold for every such sort.
\<close>

section \<open>The standard sort\<close>

type_synonym index_sort = "(nat \<Rightarrow> nat \<Rightarrow> bool) \<Rightarrow> nat list \<Rightarrow> nat list"

definition strict_weak :: "(nat \<Rightarrow> nat \<Rightarrow> bool) \<Rightarrow> bool" where
  "strict_weak lt \<longleftrightarrow> (\<forall>a. \<not> lt a a) \<and> (\<forall>a b c. lt a b \<longrightarrow> lt b c \<longrightarrow> lt a c) \<and>
     (\<forall>a b c. \<not> lt a b \<longrightarrow> \<not> lt b a \<longrightarrow> \<not> lt b c \<longrightarrow> \<not> lt c b \<longrightarrow> \<not> lt a c \<and> \<not> lt c a)"

definition is_std_sort :: "index_sort \<Rightarrow> bool" where
  "is_std_sort f \<longleftrightarrow> (\<forall>lt xs. mset (f lt xs) = mset xs \<and>
     (strict_weak lt \<longrightarrow> sorted_wrt (\<lambda>a b. \<not> lt b a) (f lt xs)))"

locale std_sort_law =
  fixes std_sort :: index_sort
  assumes permutes: "mset (std_sort lt xs) = mset xs"
    and sorts: "strict_weak lt \<Longrightarrow> sorted_wrt (\<lambda>a b. \<not> lt b a) (std_sort lt xs)"
begin

lemma same_elements: "set (std_sort lt xs) = set xs"
  by (metis permutes set_mset_mset)

lemma same_distinct: "distinct (std_sort lt xs) = distinct xs"
  by (metis permutes mset_eq_imp_distinct_iff)

lemma key_sorted: "sorted_wrt (\<lambda>a b. (k b :: 'a::linorder) \<le> k a) (std_sort (\<lambda>a b. k a > k b) xs)"
proof -
  have "strict_weak (\<lambda>a b. k a > k b)" by (auto simp: strict_weak_def)
  from sorts [OF this] show ?thesis by (simp add: not_less)
qed

end

text \<open>An insertion sort obeys the law; it runs the witnesses.\<close>

fun insert_by :: "(nat \<Rightarrow> nat \<Rightarrow> bool) \<Rightarrow> nat \<Rightarrow> nat list \<Rightarrow> nat list" where
  "insert_by lt x [] = [x]"
| "insert_by lt x (y # ys) = (if lt y x then y # insert_by lt x ys else x # y # ys)"

definition insertion_sort :: index_sort where
  "insertion_sort lt xs = foldr (insert_by lt) xs []"

lemma mset_insert_by: "mset (insert_by lt x ys) = add_mset x (mset ys)"
  by (induction ys) auto

lemma sorted_insert_by:
  assumes "strict_weak lt"
  shows "sorted_wrt (\<lambda>a b. \<not> lt b a) ys \<Longrightarrow> sorted_wrt (\<lambda>a b. \<not> lt b a) (insert_by lt x ys)"
proof (induction ys)
  case Nil
  then show ?case by simp
next
  case (Cons y ys)
  have s: "\<And>a b c. lt a b \<Longrightarrow> lt b c \<Longrightarrow> lt a c" "\<And>a. \<not> lt a a"
    "\<And>a b c. \<not> lt a b \<Longrightarrow> \<not> lt b a \<Longrightarrow> \<not> lt b c \<Longrightarrow> \<not> lt c b \<Longrightarrow> \<not> lt a c \<and> \<not> lt c a"
    using assms unfolding strict_weak_def by (metis, metis, metis)
  show ?case
  proof (cases "lt y x")
    case True
    have "set (insert_by lt x ys) = insert x (set ys)" using mset_insert_by [of lt x ys] by (metis set_mset_add_mset_insert set_mset_mset)
    moreover have "\<not> lt x y" using True s(1,2) by metis
    ultimately show ?thesis using True Cons by auto
  next
    case False
    have "\<not> lt z x" if "z \<in> set ys" for z
    proof
      assume z: "lt z x"
      have yz: "\<not> lt z y" using Cons.prems that by simp
      show False
      proof (cases "lt y z")
        case True
        then show False using s(1) [OF True z] False by simp
      next
        case nyz: False
        show False
        proof (cases "lt x y")
          case True
          then show False using s(1) [OF z True] yz by simp
        next
          case nxy: False
          then show False using s(3) [OF nyz yz, of x] s(3) [OF yz nyz False nxy] z by simp
        qed
      qed
    qed
    then show ?thesis using False Cons.prems by simp
  qed
qed

interpretation ins: std_sort_law insertion_sort
proof
  show "mset (insertion_sort lt xs) = mset xs" for lt xs
    by (induction xs) (simp_all add: insertion_sort_def mset_insert_by)
  show "sorted_wrt (\<lambda>a b. \<not> lt b a) (insertion_sort lt xs)" if "strict_weak lt" for lt xs
    by (induction xs) (simp_all add: insertion_sort_def sorted_insert_by [OF that])
qed

lemma insertion_sort_std: "is_std_sort insertion_sort"
  using ins.permutes ins.sorts by (simp add: is_std_sort_def)

lemma std_sort_lawI: "is_std_sort f \<Longrightarrow> std_sort_law f"
  by unfold_locales (simp_all add: is_std_sort_def)

section \<open>Buckets\<close>

definition hourBucket :: "int \<Rightarrow> int" where "hourBucket epoch = epoch div 3600"
definition dayBucket :: "int \<Rightarrow> int" where "dayBucket epoch = epoch div 86400"
definition weekBucket :: "int \<Rightarrow> int" where "weekBucket epoch = epoch div (86400 * 7)"

definition monthBucket :: "int \<Rightarrow> int" where
  "monthBucket epoch = tm_year (gmtime epoch) * 12 + (tm_mon (gmtime epoch) - 1)"

fun bucket_walk :: "(nat \<Rightarrow> int) \<Rightarrow> nat \<Rightarrow> int list \<Rightarrow> nat list \<Rightarrow> nat list" where
  "bucket_walk key n seen [] = []"
| "bucket_walk key n seen (i # is) =
     (if key i \<in> set seen then bucket_walk key n seen is
      else if length seen + 1 \<ge> n then [i]
      else i # bucket_walk key n (key i # seen) is)"

definition bucketKeep :: "StreamFile list \<Rightarrow> nat list \<Rightarrow> nat \<Rightarrow> (int \<Rightarrow> int) \<Rightarrow> nat list" where
  "bucketKeep files fulls n bucketFn =
     (if n = 0 then [] else bucket_walk (\<lambda>i. bucketFn (sf_epoch (files ! i))) n [] fulls)"

section \<open>The decision\<close>

record PruneDecision =
  pd_keep :: "string list"
  pd_remove :: "string list"
  pd_orphans :: "string list"

definition is_full :: "StreamFile \<Rightarrow> bool" where
  "is_full f \<longleftrightarrow> sf_epoch f \<noteq> 0 \<and> sf_incFrom f = []"

definition is_inc :: "StreamFile \<Rightarrow> bool" where
  "is_inc f \<longleftrightarrow> sf_epoch f \<noteq> 0 \<and> sf_incFrom f \<noteq> []"

definition kept_fulls :: "StreamFile list \<Rightarrow> nat list \<Rightarrow> RetentionPolicy \<Rightarrow> nat list" where
  "kept_fulls files fulls p =
     bucketKeep files fulls (hourly p) hourBucket @ bucketKeep files fulls (daily p) dayBucket @
     bucketKeep files fulls (weekly p) weekBucket @ bucketKeep files fulls (monthly p) monthBucket"

text \<open>The walk over the incrementals, oldest first; a kept one becomes a base in its turn.\<close>

fun inc_walk :: "StreamFile list \<Rightarrow> string list \<Rightarrow> nat list \<Rightarrow> nat list \<times> nat list" where
  "inc_walk files suffixes [] = ([], [])"
| "inc_walk files suffixes (i # is) =
     (if sf_incFrom (files ! i) \<in> set suffixes then
        (case inc_walk files (sf_suffix (files ! i) # suffixes) is of (ks, os) \<Rightarrow> (i # ks, os))
      else (case inc_walk files suffixes is of (ks, os) \<Rightarrow> (ks, i # os)))"

definition inc_lt :: "StreamFile list \<Rightarrow> nat \<Rightarrow> nat \<Rightarrow> bool" where
  "inc_lt files a b =
     (if sf_epoch (files ! a) \<noteq> sf_epoch (files ! b) then sf_epoch (files ! a) < sf_epoch (files ! b)
      else sf_filename (files ! a) < sf_filename (files ! b))"

definition decidePruneOneJail :: "index_sort \<Rightarrow> StreamFile list \<Rightarrow> RetentionPolicy \<Rightarrow> bool \<Rightarrow> PruneDecision" where
  "decidePruneOneJail std_sort files policy deleteOrphans =
     (let indices = [0..<length files];
          badEpoch = filter (\<lambda>i. sf_epoch (files ! i) = 0) indices;
          fulls = std_sort (\<lambda>a b. sf_epoch (files ! a) > sf_epoch (files ! b)) (filter (\<lambda>i. is_full (files ! i)) indices);
          kept = kept_fulls files fulls policy;
          incrementals = std_sort (inc_lt files) (filter (\<lambda>i. is_inc (files ! i)) indices);
          (ks, os) = inc_walk files (map (\<lambda>i. sf_suffix (files ! i)) kept) incrementals;
          names = map (\<lambda>i. sf_filename (files ! i)) in
      \<lparr>pd_keep = names (filter (\<lambda>i. i \<in> set kept) fulls) @ names ks,
       pd_remove = names (filter (\<lambda>i. i \<notin> set kept) fulls) @ (if deleteOrphans then names os else []),
       pd_orphans = (if deleteOrphans then [] else names os) @ names badEpoch\<rparr>)"

definition add_file :: "StreamFile \<Rightarrow> (string, StreamFile list) stdmap \<Rightarrow> (string, StreamFile list) stdmap" where
  "add_file f m = map_put (sf_jailName f) ((case map_find m (sf_jailName f) of None \<Rightarrow> [] | Some l \<Rightarrow> l) @ [f]) m"

definition byJail :: "StreamFile list \<Rightarrow> (string, StreamFile list) stdmap" where
  "byJail files = fold add_file files []"

definition decidePrune :: "index_sort \<Rightarrow> StreamFile list \<Rightarrow> RetentionPolicy \<Rightarrow> bool \<Rightarrow> PruneDecision" where
  "decidePrune std_sort files policy deleteOrphans =
     (let ds = map (\<lambda>kv. decidePruneOneJail std_sort (snd kv) policy deleteOrphans) (byJail files) in
      \<lparr>pd_keep = sort (concat (map pd_keep ds)), pd_remove = sort (concat (map pd_remove ds)),
       pd_orphans = sort (concat (map pd_orphans ds))\<rparr>)"

section \<open>The command\<close>

definition validateDir :: "string \<Rightarrow> err" where
  "validateDir dir =
     fail_if (dir = []) ''directory is empty''
     (fail_if (length dir > 1024) ''directory longer than 1024 chars''
     (fail_if (hd dir \<noteq> CHR ''/'') ''directory must be absolute''
     (fail_if (hasDotDotSegment dir) (''directory must not contain '' @ quoted ''..'' @ '' segments'')
     (fail_if (hasShellMetachar dir) ''directory contains shell metacharacters'' []))))"

definition validateJailFilter :: "string \<Rightarrow> err" where
  "validateJailFilter name = (if name = [] then [] else backup_validateJailName name)"

record prune_args =
  pa_dir :: string
  pa_filter :: string
  pa_keep :: string
  pa_deleteOrphans :: bool
  pa_dryRun :: bool

definition scan :: "string \<Rightarrow> string list \<Rightarrow> StreamFile list" where
  "scan jailFilter names = List.map_filter (\<lambda>n. case parseStreamFilename n of
      Inl _ \<Rightarrow> None | Inr f \<Rightarrow> if jailFilter \<noteq> [] \<and> sf_jailName f \<noteq> jailFilter then None else Some f) names"

text \<open>
  \<^verbatim>\<open>backupPruneCrate\<close> on a directory given by its regular files (\<^term>\<open>None\<close> when it does not exist): the
  paths it unlinks, or the message of the exception.
\<close>

definition backupPruneCrate :: "index_sort \<Rightarrow> prune_args \<Rightarrow> string list option \<Rightarrow> string list res" where
  "backupPruneCrate std_sort a listing =
     (if validateDir (pa_dir a) \<noteq> [] then Inl (validateDir (pa_dir a))
      else if validateJailFilter (pa_filter a) \<noteq> [] then Inl (validateJailFilter (pa_filter a))
      else if pa_keep a = [] then Inl ''--keep <retention-spec> is required (e.g. daily=7,weekly=4)''
      else bind_res (parseRetention (pa_keep a)) (\<lambda>policy.
        case listing of
          None \<Rightarrow> Inl (''directory does not exist: '' @ pa_dir a)
        | Some names \<Rightarrow>
            let files = scan (pa_filter a) names in
            if files = [] \<or> pa_dryRun a then Inr []
            else Inr (map (\<lambda>n. pa_dir a @ ''/'' @ n) (pd_remove (decidePrune std_sort files policy (pa_deleteOrphans a))))))"

section \<open>One jail\<close>

definition fulls_of :: "index_sort \<Rightarrow> StreamFile list \<Rightarrow> nat list" where
  "fulls_of srt files = srt (\<lambda>a b. sf_epoch (files ! a) > sf_epoch (files ! b)) (filter (\<lambda>i. is_full (files ! i)) [0..<length files])"

definition incs_of :: "index_sort \<Rightarrow> StreamFile list \<Rightarrow> nat list" where
  "incs_of srt files = srt (inc_lt files) (filter (\<lambda>i. is_inc (files ! i)) [0..<length files])"

definition walk_of :: "index_sort \<Rightarrow> StreamFile list \<Rightarrow> RetentionPolicy \<Rightarrow> nat list \<times> nat list" where
  "walk_of srt files p = inc_walk files (map (\<lambda>i. sf_suffix (files ! i)) (kept_fulls files (fulls_of srt files) p)) (incs_of srt files)"

definition bad_of :: "StreamFile list \<Rightarrow> nat list" where
  "bad_of files = filter (\<lambda>i. sf_epoch (files ! i) = 0) [0..<length files]"

definition names_at :: "StreamFile list \<Rightarrow> nat list \<Rightarrow> string list" where
  "names_at files is = map (\<lambda>i. sf_filename (files ! i)) is"

lemma decide_one:
  "decidePruneOneJail srt files p del =
     \<lparr>pd_keep = names_at files (filter (\<lambda>i. i \<in> set (kept_fulls files (fulls_of srt files) p)) (fulls_of srt files)) @
        names_at files (fst (walk_of srt files p)),
      pd_remove = names_at files (filter (\<lambda>i. i \<notin> set (kept_fulls files (fulls_of srt files) p)) (fulls_of srt files)) @
        (if del then names_at files (snd (walk_of srt files p)) else []),
      pd_orphans = (if del then [] else names_at files (snd (walk_of srt files p))) @ names_at files (bad_of files)\<rparr>"
  by (simp add: decidePruneOneJail_def fulls_of_def incs_of_def walk_of_def bad_of_def names_at_def Let_def case_prod_beta)

lemma mset_filter_split: "mset (filter P xs) + mset (filter (\<lambda>x. \<not> P x) xs) = mset xs"
  by (induction xs) auto

lemma inc_walk_mset: "mset (fst (inc_walk files sufs is)) + mset (snd (inc_walk files sufs is)) = mset is"
  by (induction files sufs "is" rule: inc_walk.induct) (auto split: prod.splits)

lemma inc_walk_base:
  "i \<in> set (fst (inc_walk files sufs is)) \<Longrightarrow>
    sf_incFrom (files ! i) \<in> set sufs \<or> (\<exists>j \<in> set (fst (inc_walk files sufs is)). sf_suffix (files ! j) = sf_incFrom (files ! i))"
proof (induction files sufs "is" rule: inc_walk.induct)
  case (1 files sufs)
  then show ?case by simp
next
  case (2 files sufs k ks)
  then show ?case by (cases "sf_incFrom (files ! k) \<in> set sufs") (auto split: prod.splits)
qed

lemma bucket_walk_subset: "set (bucket_walk key n seen is) \<subseteq> set is"
  by (induction key n seen "is" rule: bucket_walk.induct) auto

lemma bucketKeep_subset: "set (bucketKeep files fulls n fn) \<subseteq> set fulls"
  using bucket_walk_subset by (simp add: bucketKeep_def)

lemma kept_fulls_subset: "set (kept_fulls files fulls p) \<subseteq> set fulls"
  using bucketKeep_subset by (auto simp: kept_fulls_def)

lemma walk_fresh: "i \<in> set (bucket_walk key n seen is) \<Longrightarrow> key i \<notin> set seen"
  by (induction key n seen "is" rule: bucket_walk.induct) (auto split: if_splits)

lemma walk_distinct: "distinct (map key (bucket_walk key n seen is))"
proof (induction key n seen "is" rule: bucket_walk.induct)
  case (2 key n seen i "is")
  moreover have "key i \<notin> key ` set (bucket_walk key n (key i # seen) is)"
    using walk_fresh [of _ key n "key i # seen" "is"] by (metis image_iff list.set_intros(1))
  ultimately show ?case by simp
qed simp

text \<open>Why the walk dropped an index: its bucket has a newer one, or enough newer buckets were kept.\<close>

lemma walk_reason:
  assumes "sorted_wrt R is" "\<And>i. R i i" "i \<in> set is"
  shows "key i \<in> set seen \<or> (\<exists>j \<in> set (bucket_walk key n seen is). key j = key i \<and> R j i)
    \<or> (n \<le> length seen + length (bucket_walk key n seen is) \<and> (\<forall>j \<in> set (bucket_walk key n seen is). R j i))"
  using assms(1,3)
proof (induction key n seen "is" rule: bucket_walk.induct)
  case (1 key n seen)
  then show ?case by simp
next
  case (2 key n seen h "is")
  have R: "R h i" using "2.prems" assms(2) by auto
  consider "key h \<in> set seen" | "key h \<notin> set seen" "length seen + 1 \<ge> n" | "key h \<notin> set seen" "\<not> length seen + 1 \<ge> n" by blast
  then show ?case
  proof cases
    case 1
    then show ?thesis using "2.IH"(1) "2.prems" by (cases "i = h") auto
  next
    case 2
    then show ?thesis using R by auto
  next
    case 3
    then show ?thesis using "2.IH"(2) "2.prems" R by (cases "i = h") auto
  qed
qed

context std_sort_law
begin

lemma fulls_set: "set (fulls_of std_sort files) = {i. i < length files \<and> is_full (files ! i)}"
  by (auto simp: fulls_of_def same_elements)

lemma incs_set: "set (incs_of std_sort files) = {i. i < length files \<and> is_inc (files ! i)}"
  by (auto simp: incs_of_def same_elements)

lemma fulls_sorted: "sorted_wrt (\<lambda>a b. sf_epoch (files ! b) \<le> sf_epoch (files ! a)) (fulls_of std_sort files)"
  unfolding fulls_of_def by (rule key_sorted)

lemma walk_mset: "mset (fst (walk_of std_sort files p)) + mset (snd (walk_of std_sort files p)) = mset (incs_of std_sort files)"
  by (simp add: walk_of_def inc_walk_mset)

lemma walk_sets: "set (fst (walk_of std_sort files p)) \<union> set (snd (walk_of std_sort files p)) = set (incs_of std_sort files)"
  by (metis walk_mset set_mset_mset set_mset_union)

lemma index_classes:
  "mset (fulls_of std_sort files) + mset (incs_of std_sort files) + mset (bad_of files) = mset [0..<length files]"
proof -
  have "mset (filter (\<lambda>i. is_full (files ! i)) xs) + mset (filter (\<lambda>i. is_inc (files ! i)) xs) +
      mset (filter (\<lambda>i. sf_epoch (files ! i) = 0) xs) = mset xs" for xs
    by (induction xs) (auto simp: is_full_def is_inc_def)
  then show ?thesis by (simp only: fulls_of_def incs_of_def bad_of_def permutes)
qed

lemma names_mset: "mset (names_at files is) = image_mset (\<lambda>i. sf_filename (files ! i)) (mset is)"
  by (simp add: names_at_def)

lemma names_all: "names_at files [0..<length files] = map sf_filename files"
  unfolding names_at_def by (rule nth_equalityI) simp_all

lemma one_partition:
  "mset (pd_keep (decidePruneOneJail std_sort files p del)) + mset (pd_remove (decidePruneOneJail std_sort files p del)) +
     mset (pd_orphans (decidePruneOneJail std_sort files p del)) = mset (map sf_filename files)"
proof -
  let ?F = "fulls_of std_sort files" and ?N = "\<lambda>is. mset (names_at files is)"
  let ?P = "\<lambda>i. i \<in> set (kept_fulls files ?F p)"
  let ?ks = "fst (walk_of std_sort files p)" and ?os = "snd (walk_of std_sort files p)"
  have "?N (filter ?P ?F) + ?N (filter (\<lambda>i. \<not> ?P i) ?F) = ?N ?F"
    by (simp only: names_mset mset_filter_split image_mset_union [symmetric])
  moreover have "?N ?ks + ?N ?os = ?N (incs_of std_sort files)"
    by (simp only: names_mset walk_mset image_mset_union [symmetric])
  moreover have "?N ?F + ?N (incs_of std_sort files) + ?N (bad_of files) = mset (map sf_filename files)"
    by (simp only: names_mset image_mset_union [symmetric] index_classes names_all [symmetric])
  ultimately show ?thesis by (simp add: decide_one ac_simps)
qed

end

text \<open>The four rules of a policy: how many buckets, and which.\<close>

definition rules :: "RetentionPolicy \<Rightarrow> (nat \<times> (int \<Rightarrow> int)) list" where
  "rules p = [(hourly p, hourBucket), (daily p, dayBucket), (weekly p, weekBucket), (monthly p, monthBucket)]"

text \<open>A rule is served at a stream: its bucket has a kept full not older, or enough newer buckets have.\<close>

definition rule_served :: "StreamFile set \<Rightarrow> StreamFile \<Rightarrow> nat \<times> (int \<Rightarrow> int) \<Rightarrow> bool" where
  "rule_served kept f r \<longleftrightarrow> (case r of (n, bucket) \<Rightarrow> n > 0 \<longrightarrow>
     (\<exists>g \<in> kept. is_full g \<and> sf_jailName g = sf_jailName f \<and> sf_epoch f \<le> sf_epoch g \<and> bucket (sf_epoch g) = bucket (sf_epoch f))
     \<or> (\<exists>G \<subseteq> kept. n \<le> card (bucket ` sf_epoch ` G) \<and>
          (\<forall>g \<in> G. is_full g \<and> sf_jailName g = sf_jailName f \<and> sf_epoch f \<le> sf_epoch g)))"

lemma bucketKeep_reason:
  fixes bucket :: "int \<Rightarrow> int"
  assumes "n > 0" "sorted_wrt (\<lambda>a b. sf_epoch (files ! b) \<le> sf_epoch (files ! a)) fulls" "i \<in> set fulls"
  defines "K \<equiv> bucketKeep files fulls n bucket"
  shows "(\<exists>j \<in> set K. bucket (sf_epoch (files ! j)) = bucket (sf_epoch (files ! i)) \<and> sf_epoch (files ! i) \<le> sf_epoch (files ! j))
    \<or> (n \<le> card (bucket ` sf_epoch ` (!) files ` set K) \<and> (\<forall>j \<in> set K. sf_epoch (files ! i) \<le> sf_epoch (files ! j)))"
proof -
  let ?key = "\<lambda>i. bucket (sf_epoch (files ! i))"
  have K: "K = bucket_walk ?key n [] fulls" using assms(1) by (simp add: K_def bucketKeep_def)
  have "card (?key ` set K) = length K" using walk_distinct [of ?key n "[]" fulls] K by (metis distinct_card length_map set_map)
  moreover have "bucket ` sf_epoch ` (!) files ` set K = ?key ` set K" by (simp add: image_image)
  ultimately show ?thesis using walk_reason [OF assms(2) _ assms(3), of ?key "[]" n] K by auto
qed

lemma rule_kept: "(n, bucket) \<in> set (rules p) \<Longrightarrow> set (bucketKeep files fulls n bucket) \<subseteq> set (kept_fulls files fulls p)"
  by (auto simp: rules_def kept_fulls_def)

lemma names_at_mem:
  assumes "distinct (map sf_filename files)" "i < length files" "set is \<subseteq> {..<length files}"
  shows "sf_filename (files ! i) \<in> set (names_at files is) \<longleftrightarrow> i \<in> set is"
proof
  assume "sf_filename (files ! i) \<in> set (names_at files is)"
  then obtain j where j: "j \<in> set is" "sf_filename (files ! i) = sf_filename (files ! j)" by (auto simp: names_at_def)
  moreover have "j < length files" using j(1) assms(3) by auto
  ultimately have "i = j" using assms(1,2) nth_eq_iff_index_eq [of "map sf_filename files" i j] by simp
  then show "i \<in> set is" using j(1) by simp
qed (auto simp: names_at_def)

context std_sort_law
begin

lemma index_bounds:
  "set (fulls_of std_sort files) \<subseteq> {..<length files}" "set (kept_fulls files (fulls_of std_sort files) p) \<subseteq> {..<length files}"
  "set (fst (walk_of std_sort files p)) \<subseteq> {..<length files}" "set (snd (walk_of std_sort files p)) \<subseteq> {..<length files}"
  "set (bad_of files) \<subseteq> {..<length files}"
proof -
  show f: "set (fulls_of std_sort files) \<subseteq> {..<length files}" by (auto simp: fulls_set)
  show "set (kept_fulls files (fulls_of std_sort files) p) \<subseteq> {..<length files}" using kept_fulls_subset f by blast
  have "set (incs_of std_sort files) \<subseteq> {..<length files}" by (auto simp: incs_set)
  then show "set (fst (walk_of std_sort files p)) \<subseteq> {..<length files}" "set (snd (walk_of std_sort files p)) \<subseteq> {..<length files}"
    using walk_sets [of files p] by blast+
  show "set (bad_of files) \<subseteq> {..<length files}" by (auto simp: bad_of_def)
qed

lemma keep_iff:
  assumes "distinct (map sf_filename files)" "i < length files"
  shows "sf_filename (files ! i) \<in> set (pd_keep (decidePruneOneJail std_sort files p del)) \<longleftrightarrow>
    i \<in> set (kept_fulls files (fulls_of std_sort files) p) \<or> i \<in> set (fst (walk_of std_sort files p))"
proof -
  let ?F = "filter (\<lambda>i. i \<in> set (kept_fulls files (fulls_of std_sort files) p)) (fulls_of std_sort files)"
  have F: "set ?F = set (kept_fulls files (fulls_of std_sort files) p)" using kept_fulls_subset by fastforce
  then have "set ?F \<subseteq> {..<length files}" using index_bounds(2) by simp
  from names_at_mem [OF assms this] have "sf_filename (files ! i) \<in> set (names_at files ?F) \<longleftrightarrow>
      i \<in> set (kept_fulls files (fulls_of std_sort files) p)" unfolding F .
  then show ?thesis
    unfolding decide_one PruneDecision.select_convs set_append Un_iff
    using names_at_mem [OF assms index_bounds(3)] by simp
qed

lemma remove_iff:
  assumes "distinct (map sf_filename files)" "i < length files"
  shows "sf_filename (files ! i) \<in> set (pd_remove (decidePruneOneJail std_sort files p del)) \<longleftrightarrow>
    (i \<in> set (fulls_of std_sort files) \<and> i \<notin> set (kept_fulls files (fulls_of std_sort files) p)) \<or>
    (del \<and> i \<in> set (snd (walk_of std_sort files p)))"
proof -
  have "set (filter (\<lambda>i. i \<notin> set (kept_fulls files (fulls_of std_sort files) p)) (fulls_of std_sort files)) \<subseteq> {..<length files}"
    using index_bounds(1) by auto
  from names_at_mem [OF assms this] show ?thesis
    using names_at_mem [OF assms index_bounds(4)] by (simp add: decide_one)
qed

lemma one_safe:
  fixes p :: RetentionPolicy and del :: bool
  assumes d: "distinct (map sf_filename files)" and f: "f \<in> set files" and jail: "\<forall>f \<in> set files. sf_jailName f = jn"
  defines "D \<equiv> decidePruneOneJail std_sort files p del"
  defines "kept \<equiv> {g \<in> set files. sf_filename g \<in> set (pd_keep D)}"
  shows "is_inc f \<Longrightarrow> f \<in> kept \<Longrightarrow> \<exists>g \<in> kept. sf_suffix g = sf_incFrom f"
    "sf_epoch f = 0 \<Longrightarrow> sf_filename f \<in> set (pd_orphans D)"
    "is_inc f \<Longrightarrow> \<not> del \<Longrightarrow> sf_filename f \<notin> set (pd_remove D)"
    "is_full f \<Longrightarrow> r \<in> set (rules p) \<Longrightarrow> rule_served kept f r"
proof -
  obtain i where i: "i < length files" "f = files ! i" using f by (metis in_set_conv_nth)
  note K = keep_iff [OF d, of _ p del, folded D_def]
  have kept: "files ! j \<in> kept" if "j < length files"
    "j \<in> set (kept_fulls files (fulls_of std_sort files) p) \<or> j \<in> set (fst (walk_of std_sort files p))" for j
    using K [OF that(1)] that by (simp add: kept_def)
  show "\<exists>g \<in> kept. sf_suffix g = sf_incFrom f" if "is_inc f" "f \<in> kept"
  proof -
    have "i \<notin> set (kept_fulls files (fulls_of std_sort files) p)"
      using that(1) kept_fulls_subset i by (fastforce simp: fulls_set is_full_def is_inc_def)
    then have "i \<in> set (fst (walk_of std_sort files p))" using K [OF i(1)] that(2) i by (simp add: kept_def)
    then obtain j where "sf_suffix (files ! j) = sf_incFrom f"
        "j \<in> set (kept_fulls files (fulls_of std_sort files) p) \<or> j \<in> set (fst (walk_of std_sort files p))"
      using inc_walk_base [of i files] i(2) unfolding walk_of_def by fastforce
    then show ?thesis using kept [of j] index_bounds(2,3) [of files p] by blast
  qed
  show "sf_filename f \<in> set (pd_orphans D)" if "sf_epoch f = 0"
    using that i by (auto simp: D_def decide_one names_at_def bad_of_def)
  show "sf_filename f \<notin> set (pd_remove D)" if "is_inc f" "\<not> del"
    using that i remove_iff [OF d i(1), of p del, folded D_def] by (auto simp: fulls_set is_full_def is_inc_def)
  show "rule_served kept f r" if full: "is_full f" and r: "r \<in> set (rules p)"
  proof (cases r)
    case (Pair n bucket)
    let ?K = "bucketKeep files (fulls_of std_sort files) n bucket"
    have sub: "set ?K \<subseteq> set (kept_fulls files (fulls_of std_sort files) p)" using rule_kept r Pair by blast
    have g: "files ! j \<in> kept \<and> is_full (files ! j) \<and> sf_jailName (files ! j) = sf_jailName f" if "j \<in> set ?K" for j
    proof -
      have "j \<in> set (fulls_of std_sort files)" using that sub kept_fulls_subset by blast
      then have "j < length files" "is_full (files ! j)" by (simp_all add: fulls_set)
      then show ?thesis using kept [of j] that sub jail f by auto
    qed
    have "i \<in> set (fulls_of std_sort files)" using i full by (simp add: fulls_set)
    note B = bucketKeep_reason [OF _ fulls_sorted this, of n bucket, folded i(2)]
    show ?thesis
    proof (cases "n = 0")
      case True
      then show ?thesis using Pair by (simp add: rule_served_def)
    next
      case False
      then consider j where "j \<in> set ?K" "bucket (sf_epoch (files ! j)) = bucket (sf_epoch f)" "sf_epoch f \<le> sf_epoch (files ! j)"
        | "n \<le> card (bucket ` sf_epoch ` (!) files ` set ?K)" "\<forall>j \<in> set ?K. sf_epoch f \<le> sf_epoch (files ! j)"
        using B by auto
      then show ?thesis
      proof cases
        case 1
        then show ?thesis using g [of j] Pair by (auto simp: rule_served_def)
      next
        case 2
        have "(!) files ` set ?K \<subseteq> kept" using g by auto
        moreover have "\<forall>g \<in> (!) files ` set ?K. is_full g \<and> sf_jailName g = sf_jailName f \<and> sf_epoch f \<le> sf_epoch g"
          using g 2(2) by auto
        ultimately have "\<exists>G \<subseteq> kept. n \<le> card (bucket ` sf_epoch ` G) \<and>
            (\<forall>g \<in> G. is_full g \<and> sf_jailName g = sf_jailName f \<and> sf_epoch f \<le> sf_epoch g)"
          using 2(1) by (intro exI [of _ "(!) files ` set ?K"]) simp
        then show ?thesis using Pair by (simp add: rule_served_def)
      qed
    qed
  qed
qed

end

section \<open>All jails\<close>

definition jail_group :: "string \<Rightarrow> StreamFile list \<Rightarrow> StreamFile list" where
  "jail_group j files = filter (\<lambda>f. sf_jailName f = j) files"

lemma byJail_snoc: "byJail (fs @ [f]) = add_file f (byJail fs)"
  by (simp add: byJail_def)

lemma byJail_ok: "map_ok (byJail files)"
  by (induction files rule: rev_induct) (simp_all add: byJail_snoc add_file_def, simp add: byJail_def)

lemma byJail_find: "map_find (byJail files) j = (if j \<in> sf_jailName ` set files then Some (jail_group j files) else None)"
proof (induction files rule: rev_induct)
  case Nil
  then show ?case by (simp add: byJail_def)
next
  case (snoc f fs)
  have "jail_group (sf_jailName f) fs = []" if "sf_jailName f \<notin> sf_jailName ` set fs"
    using that unfolding jail_group_def by (intro filter_False) (metis image_eqI)
  then show ?case using snoc by (auto simp: byJail_snoc add_file_def jail_group_def)
qed

lemma byJail_entries: "set (byJail files) = {(j, jail_group j files) | j. j \<in> sf_jailName ` set files}"
proof -
  have "(j, l) \<in> set (byJail files) \<longleftrightarrow> j \<in> sf_jailName ` set files \<and> l = jail_group j files" for j l
    unfolding map_find_Some_iff [OF byJail_ok, symmetric] byJail_find by auto
  then show ?thesis by auto
qed

lemma put_mset:
  "map_ok m \<Longrightarrow> mset (concat (map snd (map_put k v m))) + mset (case map_find m k of None \<Rightarrow> [] | Some l \<Rightarrow> l) =
    mset (concat (map snd m)) + mset v"
proof (induction m)
  case Nil
  then show ?case by simp
next
  case (Cons kv m)
  obtain k' v' where kv: "kv = (k', v')" by (cases kv)
  have "map_find m k = None" if "k < k'" using that Cons.prems kv by (force simp: map_find_None_iff)
  then show ?case using Cons kv by (auto simp: ac_simps)
qed

lemma byJail_mset: "mset (concat (map snd (byJail files))) = mset files"
proof (induction files rule: rev_induct)
  case Nil
  then show ?case by (simp add: byJail_def)
next
  case (snoc f fs)
  let ?old = "case map_find (byJail fs) (sf_jailName f) of None \<Rightarrow> [] | Some l \<Rightarrow> l"
  have "mset (concat (map snd (byJail (fs @ [f])))) + mset ?old = mset (concat (map snd (byJail fs))) + (mset ?old + {#f#})"
    unfolding byJail_snoc add_file_def using put_mset [OF byJail_ok, of "sf_jailName f" "?old @ [f]" fs] by simp
  then show ?case using snoc by simp
qed

lemma jail_group_distinct: "distinct (map sf_filename files) \<Longrightarrow> distinct (map sf_filename (jail_group j files))"
  by (auto simp: jail_group_def distinct_map inj_on_def)

context std_sort_law
begin

lemma one_names:
  "set (pd_keep (decidePruneOneJail std_sort fs p del)) \<union> set (pd_remove (decidePruneOneJail std_sort fs p del)) \<union>
     set (pd_orphans (decidePruneOneJail std_sort fs p del)) = sf_filename ` set fs"
  using arg_cong [OF one_partition [of fs p del], of set_mset] by simp

text \<open>A stream is judged by the decision of its own jail.\<close>

lemma own_decision:
  fixes p :: RetentionPolicy and del :: bool
  assumes d: "distinct (map sf_filename files)" and f: "f \<in> set files"
  defines "D \<equiv> decidePrune std_sort files p del" and "E \<equiv> decidePruneOneJail std_sort (jail_group (sf_jailName f) files) p del"
  shows "sf_filename f \<in> set (pd_keep D) \<longleftrightarrow> sf_filename f \<in> set (pd_keep E)"
    "sf_filename f \<in> set (pd_remove D) \<longleftrightarrow> sf_filename f \<in> set (pd_remove E)"
    "sf_filename f \<in> set (pd_orphans D) \<longleftrightarrow> sf_filename f \<in> set (pd_orphans E)"
proof -
  let ?one = "\<lambda>j. decidePruneOneJail std_sort (jail_group j files) p del"
  have own: "j = sf_jailName f" if "sf_filename f \<in> sf_filename ` set (jail_group j files)" for j
    using that f d by (auto simp: jail_group_def distinct_map inj_on_def)
  have sel: "sf_filename f \<in> (\<Union>j \<in> sf_jailName ` set files. set (sel (?one j))) \<longleftrightarrow> sf_filename f \<in> set (sel E)"
    if "\<And>j. set (sel (?one j)) \<subseteq> sf_filename ` set (jail_group j files)" for sel
  proof
    assume "sf_filename f \<in> (\<Union>j \<in> sf_jailName ` set files. set (sel (?one j)))"
    then obtain j where j: "sf_filename f \<in> set (sel (?one j))" by blast
    then have "j = sf_jailName f" using own [of j] that [of j] by blast
    then show "sf_filename f \<in> set (sel E)" using j by (simp add: E_def)
  next
    assume "sf_filename f \<in> set (sel E)"
    then show "sf_filename f \<in> (\<Union>j \<in> sf_jailName ` set files. set (sel (?one j)))" using f unfolding E_def by blast
  qed
  have all: "set (concat (map sel (map (\<lambda>kv. decidePruneOneJail std_sort (snd kv) p del) (byJail files)))) =
      (\<Union>j \<in> sf_jailName ` set files. set (sel (?one j)))" for sel :: "PruneDecision \<Rightarrow> string list"
    by (simp add: byJail_entries setcompr_eq_image)
  show "sf_filename f \<in> set (pd_keep D) \<longleftrightarrow> sf_filename f \<in> set (pd_keep E)"
    "sf_filename f \<in> set (pd_remove D) \<longleftrightarrow> sf_filename f \<in> set (pd_remove E)"
    "sf_filename f \<in> set (pd_orphans D) \<longleftrightarrow> sf_filename f \<in> set (pd_orphans E)"
    unfolding D_def decidePrune_def Let_def PruneDecision.select_convs set_sort all
    by (rule sel, use one_names in blast)+
qed

lemma prune_partition:
  "mset (pd_keep (decidePrune std_sort files p del)) + mset (pd_remove (decidePrune std_sort files p del)) +
     mset (pd_orphans (decidePrune std_sort files p del)) = mset (map sf_filename files)"
proof -
  let ?d = "\<lambda>kv. decidePruneOneJail std_sort (snd kv) p del"
  have "mset (concat (map pd_keep (map ?d m))) + mset (concat (map pd_remove (map ?d m))) + mset (concat (map pd_orphans (map ?d m))) =
      image_mset sf_filename (mset (concat (map snd m)))" for m :: "(string, StreamFile list) stdmap"
  proof (induction m)
    case Nil
    then show ?case by simp
  next
    case (Cons kv m)
    then show ?case using one_partition [of "snd kv" p del] by (simp add: ac_simps)
  qed
  from this [of "byJail files"] show ?thesis by (simp add: decidePrune_def Let_def byJail_mset)
qed

end

section \<open>What pruning promises\<close>

definition kept_by :: "PruneDecision \<Rightarrow> StreamFile list \<Rightarrow> StreamFile set" where
  "kept_by D files = {f \<in> set files. sf_filename f \<in> set (pd_keep D)}"

context std_sort_law
begin

lemma own_kept:
  assumes "distinct (map sf_filename files)"
  shows "{g \<in> set (jail_group j files). sf_filename g \<in> set (pd_keep (decidePruneOneJail std_sort (jail_group j files) p del))} =
    {g \<in> kept_by (decidePrune std_sort files p del) files. sf_jailName g = j}"
  using own_decision(1) [OF assms, of _ p del] by (auto simp: kept_by_def jail_group_def)

lemma rule_served_mono: "rule_served K f r \<Longrightarrow> K \<subseteq> K' \<Longrightarrow> rule_served K' f r"
  unfolding rule_served_def case_prod_beta by (meson subset_trans subsetD)

lemma prune_safe:
  fixes p :: RetentionPolicy and del :: bool
  assumes d: "distinct (map sf_filename files)" and f: "f \<in> set files"
  defines "D \<equiv> decidePrune std_sort files p del"
  shows "is_inc f \<Longrightarrow> f \<in> kept_by D files \<Longrightarrow> \<exists>g \<in> kept_by D files. sf_jailName g = sf_jailName f \<and> sf_suffix g = sf_incFrom f"
    "sf_epoch f = 0 \<Longrightarrow> sf_filename f \<in> set (pd_orphans D)"
    "is_inc f \<Longrightarrow> \<not> del \<Longrightarrow> sf_filename f \<notin> set (pd_remove D)"
    "is_full f \<Longrightarrow> r \<in> set (rules p) \<Longrightarrow> rule_served (kept_by D files) f r"
proof -
  let ?j = "sf_jailName f"
  have fj: "f \<in> set (jail_group ?j files)" "\<forall>g \<in> set (jail_group ?j files). sf_jailName g = ?j" using f by (simp_all add: jail_group_def)
  note S = one_safe [OF jail_group_distinct [OF d] fj, where p = p and del = del]
  note own = own_decision [OF d f, of p del, folded D_def]
  have K: "{g \<in> set (jail_group ?j files). sf_filename g \<in> set (pd_keep (decidePruneOneJail std_sort (jail_group ?j files) p del))} =
    {g \<in> kept_by D files. sf_jailName g = ?j}" using own_kept [OF d] by (simp add: D_def)
  note S' = S(1,4) [unfolded K]
  show "\<exists>g \<in> kept_by D files. sf_jailName g = ?j \<and> sf_suffix g = sf_incFrom f" if "is_inc f" "f \<in> kept_by D files"
    using S'(1) that by auto
  show "sf_filename f \<in> set (pd_orphans D)" if "sf_epoch f = 0" using S(2) that own(3) by simp
  show "sf_filename f \<notin> set (pd_remove D)" if "is_inc f" "\<not> del" using S(3) that own(2) by simp
  show "rule_served (kept_by D files) f r" if "is_full f" "r \<in> set (rules p)"
    by (rule rule_served_mono [OF S'(2) [OF that]]) auto
qed

end

text \<open>
  C13. Pruning never breaks a restore chain and never loses track of a stream. For streams with
  distinct file names, whatever order the sort gives to streams of the same second: every scanned
  stream is in exactly one of the three lists; a kept incremental has its base, a full or another
  incremental of the same jail, among the kept; a stream without a readable time is never removed;
  and without \<^verbatim>\<open>--delete-orphans\<close> no incremental is removed.
\<close>

theorem backup_prune_safe:
  assumes "is_std_sort srt" "distinct (map sf_filename files)"
  shows "let D = decidePrune srt files policy del in
    mset (pd_keep D) + mset (pd_remove D) + mset (pd_orphans D) = mset (map sf_filename files) \<and>
    (\<forall>f \<in> kept_by D files. is_inc f \<longrightarrow> (\<exists>g \<in> kept_by D files. sf_jailName g = sf_jailName f \<and> sf_suffix g = sf_incFrom f)) \<and>
    (\<forall>f \<in> set files. sf_epoch f = 0 \<longrightarrow> sf_filename f \<in> set (pd_orphans D) \<and> sf_filename f \<notin> set (pd_remove D)) \<and>
    (\<not> del \<longrightarrow> (\<forall>f \<in> set files. is_inc f \<longrightarrow> sf_filename f \<notin> set (pd_remove D)))"
proof -
  note law = std_sort_lawI [OF assms(1)]
  let ?D = "decidePrune srt files policy del"
  note P = std_sort_law.prune_partition [OF law, of files policy del]
  note S = std_sort_law.prune_safe [OF law assms(2)]
  have "distinct (pd_keep ?D @ pd_remove ?D @ pd_orphans ?D)"
    using P assms(2) by (metis add.assoc mset_append mset_eq_imp_distinct_iff)
  then have "sf_filename f \<notin> set (pd_remove ?D)" if "f \<in> set files" "sf_epoch f = 0" for f
    using S(2) [OF that, of policy del] by auto
  then show ?thesis using P S(1,2,3) by (auto simp: Let_def kept_by_def)
qed

text \<open>
  C14. Pruning keeps what the policy asks for. For every full stream and every rule of the policy
  (so many hours, days, weeks, months), either its bucket has a kept full of the same jail that is
  not older, or the kept fulls of that jail that are not older already fill the number of buckets the
  rule asks for. In particular a full is removed only then, and the newest full of a jail is kept
  as soon as one rule is not zero.
\<close>

theorem backup_prune_retains:
  assumes "is_std_sort srt" "distinct (map sf_filename files)" "f \<in> set files" "is_full f"
  shows "\<forall>r \<in> set (rules policy). rule_served (kept_by (decidePrune srt files policy del) files) f r"
  using std_sort_law.prune_safe(4) [OF std_sort_lawI [OF assms(1)] assms(2,3,4)] by blast

definition sample_stream :: "string \<Rightarrow> string \<Rightarrow> string \<Rightarrow> int \<Rightarrow> StreamFile" where
  "sample_stream name suffix inc t = \<lparr>sf_filename = name, sf_jailName = ''web'', sf_suffix = suffix, sf_incFrom = inc, sf_epoch = t\<rparr>"

definition sample_streams :: "StreamFile list" where
  "sample_streams = [sample_stream ''a'' ''s1'' [] 1000, sample_stream ''b'' ''s2'' [] 90000, sample_stream ''c'' ''s3'' ''s2'' 90100,
     sample_stream ''d'' ''s4'' ''s3'' 90200, sample_stream ''e'' ''s5'' ''s1'' 1100]"

definition sample_policy :: RetentionPolicy where
  "sample_policy = \<lparr>hourly = 0, daily = 1, weekly = 0, monthly = 0\<rparr>"

lemma sample_decision: "decidePrune insertion_sort sample_streams sample_policy False =
    \<lparr>pd_keep = [''b'', ''c'', ''d''], pd_remove = [''a''], pd_orphans = [''e'']\<rparr>"
  by code_simp

theorem backup_prune_safe_witness:
  "let D = decidePrune insertion_sort sample_streams sample_policy False in
    pd_remove D = [''a''] \<and> mset (pd_keep D) + mset (pd_remove D) + mset (pd_orphans D) = mset (map sf_filename sample_streams)"
proof -
  have "distinct (map sf_filename sample_streams)" by code_simp
  then show ?thesis
    using backup_prune_safe [OF insertion_sort_std, of sample_streams sample_policy False] sample_decision by (simp add: Let_def)
qed

theorem backup_prune_retains_witness:
  "rule_served (kept_by (decidePrune insertion_sort sample_streams sample_policy False) sample_streams)
     (sample_stream ''a'' ''s1'' [] 1000) (1, dayBucket)"
proof -
  have "distinct (map sf_filename sample_streams)" "is_full (sample_stream ''a'' ''s1'' [] 1000)" by code_simp+
  moreover have "sample_stream ''a'' ''s1'' [] 1000 \<in> set sample_streams" by (simp add: sample_streams_def)
  moreover have "(1, dayBucket) \<in> set (rules sample_policy)" by (simp add: rules_def sample_policy_def)
  ultimately show ?thesis using backup_prune_retains [OF insertion_sort_std] by blast
qed

end
