(* ===== verification/RateLimit.thy ===== *)
theory RateLimit
  imports Prelude
begin

text \<open>
  The request throttle of crated: one bucket per key and a fixed window of one second
  (\<^verbatim>\<open>daemon/rate_limit_pure.cpp\<close>), and the table of buckets behind it (\<^verbatim>\<open>daemon/rate_limit.cpp\<close>).
  The table is locked for the whole of a call, so a call is one step; \<^verbatim>\<open>time(nullptr)\<close> is an argument.
  The counter never passes the cap, so \<^verbatim>\<open>int\<close> does not overflow.
\<close>

section \<open>The code\<close>

record Bucket =
  counter :: int
  second :: int

definition kRead :: int where "kRead = 100"
definition kMutating :: int where "kMutating = 10"
definition retryAfterSeconds :: nat where "retryAfterSeconds = 1"

definition bucket_check :: "Bucket \<Rightarrow> int \<Rightarrow> int \<Rightarrow> Bucket \<times> bool" where
  "bucket_check b now maxPerSecond =
     (if maxPerSecond \<le> 0 then (\<lparr>counter = 0, second = now\<rparr>, True)
      else if second b \<noteq> now then (\<lparr>counter = 1, second = now\<rparr>, True)
      else if counter b < maxPerSecond then (\<lparr>counter = counter b + 1, second = now\<rparr>, True)
      else (b, False))"

type_synonym buckets = "string \<rightharpoonup> Bucket"

definition bucket_of :: "buckets \<Rightarrow> string \<Rightarrow> Bucket" where
  "bucket_of m key = (case m key of None \<Rightarrow> \<lparr>counter = 0, second = 0\<rparr> | Some b \<Rightarrow> b)"

definition rate_check :: "int \<Rightarrow> string \<Rightarrow> int \<Rightarrow> buckets \<Rightarrow> buckets \<times> bool" where
  "rate_check now key maxPerSecond m =
     (let (b, ok) = bucket_check (bucket_of m key) now maxPerSecond in (m(key \<mapsto> b), ok))"

definition rate_reset :: "buckets \<Rightarrow> buckets" where
  "rate_reset m = Map.empty"

section \<open>Sequences of calls\<close>

type_synonym call = "int \<times> string \<times> int"

fun rate_run :: "buckets \<Rightarrow> call list \<Rightarrow> bool list" where
  "rate_run m [] = []"
| "rate_run m ((now, key, cap) # cs) = (let (m', ok) = rate_check now key cap m in ok # rate_run m' cs)"

text \<open>How many of the calls so far fell into the same second and bucket.\<close>

definition seen :: "string \<Rightarrow> int \<Rightarrow> call list \<Rightarrow> int" where
  "seen k t past = int (length (filter (\<lambda>(t', k', _). t' = t \<and> k' = k) past))"

text \<open>The rule the throttle promises: a call passes while fewer than the cap came before it.\<close>

fun rate_rule :: "call list \<Rightarrow> call list \<Rightarrow> bool list" where
  "rate_rule past [] = []"
| "rate_rule past ((now, key, cap) # cs) = (seen key now past < cap) # rate_rule (past @ [(now, key, cap)]) cs"

definition caps_fixed :: "(string \<Rightarrow> int) \<Rightarrow> call list \<Rightarrow> bool" where
  "caps_fixed capOf cs \<longleftrightarrow> (\<forall>(_, k, c) \<in> set cs. c = capOf k \<and> 0 < c)"

definition bucket_inv :: "(string \<Rightarrow> int) \<Rightarrow> buckets \<Rightarrow> call list \<Rightarrow> bool" where
  "bucket_inv capOf m past \<longleftrightarrow> (\<forall>k. counter (bucket_of m k) = min (capOf k) (seen k (second (bucket_of m k)) past)
     \<and> (m k = None \<longrightarrow> (\<forall>t. seen k t past = 0))
     \<and> (m k \<noteq> None \<longrightarrow> (\<forall>t > second (bucket_of m k). seen k t past = 0)
         \<and> (\<exists>c. (second (bucket_of m k), k, c) \<in> set past)))"

lemma seen_snoc [simp]: "seen k t (past @ [(t', k', c)]) = seen k t past + (if t' = t \<and> k' = k then 1 else 0)"
  by (simp add: seen_def)

lemma seen_nonneg [simp]: "0 \<le> seen k t past"
  by (simp add: seen_def)

lemma seen_Nil [simp]: "seen k t [] = 0"
  by (simp add: seen_def)

lemma bucket_of_update [simp]: "bucket_of (m(k \<mapsto> b)) k' = (if k' = k then b else bucket_of m k')"
  by (simp add: bucket_of_def)

lemma bucket_inv_step:
  assumes inv: "bucket_inv capOf m past" and cap: "0 < capOf k"
    and later: "\<forall>(t, _) \<in> set past. t \<le> now"
    and step: "rate_check now k (capOf k) m = (m', ok)"
  shows "ok \<longleftrightarrow> seen k now past < capOf k" "bucket_inv capOf m' (past @ [(now, k, capOf k)])"
proof -
  let ?b = "bucket_of m k"
  have cnt: "counter ?b = min (capOf k) (seen k (second ?b) past)"
    and none: "m k = None \<Longrightarrow> seen k t past = 0"
    and newer: "m k \<noteq> None \<Longrightarrow> t > second ?b \<Longrightarrow> seen k t past = 0"
    and past: "m k \<noteq> None \<Longrightarrow> second ?b \<le> now" for t
    using inv later unfolding bucket_inv_def by (blast, blast, blast, fastforce)
  have fresh: "seen k now past = 0" if "second ?b \<noteq> now"
    using that none newer past by (metis order_le_imp_less_or_eq)
  show "ok \<longleftrightarrow> seen k now past < capOf k"
    using step cap cnt fresh by (auto simp: rate_check_def bucket_check_def split: if_splits)
  have m': "m' = m(k \<mapsto> fst (bucket_check ?b now (capOf k)))"
    using step by (simp add: rate_check_def case_prod_beta)
  let ?b' = "fst (bucket_check ?b now (capOf k))"
  have b': "second ?b' = now" "counter ?b' = min (capOf k) (seen k now past + 1)"
    using cap cnt fresh by (auto simp: bucket_check_def)
  have "seen k t past = 0" if "t > now" for t
    using that none newer past by (metis order_le_less_trans)
  then show "bucket_inv capOf m' (past @ [(now, k, capOf k)])"
    using inv b' cap unfolding bucket_inv_def m' by auto
qed

lemma rate_run_rule:
  assumes "bucket_inv capOf m past" "caps_fixed capOf cs"
    "sorted_wrt (\<le>) (map fst cs)" "\<forall>(t, _) \<in> set past. \<forall>(t', _) \<in> set cs. t \<le> t'"
  shows "rate_run m cs = rate_rule past cs"
  using assms
proof (induction cs arbitrary: m past)
  case Nil
  then show ?case by simp
next
  case (Cons call cs)
  obtain now k c where call: "call = (now, k, c)" by (cases call)
  with Cons.prems(2) have c: "c = capOf k" "0 < capOf k" by (auto simp: caps_fixed_def)
  obtain m' ok where s: "rate_check now k (capOf k) m = (m', ok)" by fastforce
  have "\<forall>(t, _) \<in> set past. t \<le> now" using Cons.prems(4) call by auto
  note st = bucket_inv_step [OF Cons.prems(1) c(2) this s]
  have "rate_run m' cs = rate_rule (past @ [(now, k, capOf k)]) cs"
    by (rule Cons.IH [OF st(2)]) (use Cons.prems call in \<open>auto simp: caps_fixed_def\<close>)
  then show ?case using call c s st(1) by simp
qed

lemma bucket_inv_init: "(\<And>k. 0 < capOf k) \<Longrightarrow> bucket_inv capOf Map.empty []"
  by (simp add: bucket_inv_def bucket_of_def)

lemma rule_admits:
  assumes "caps_fixed capOf cs" "0 \<le> capOf k"
  shows "int (length (filter (\<lambda>((t', k', _), ok). ok \<and> t' = t \<and> k' = k) (zip cs (rate_rule past cs))))
    \<le> max 0 (capOf k - seen k t past)"
  using assms
proof (induction cs arbitrary: past)
  case Nil
  then show ?case by simp
next
  case (Cons call cs)
  obtain now k' c where call: "call = (now, k', c)" by (cases call)
  have "caps_fixed capOf cs" using Cons.prems(1) by (simp add: caps_fixed_def)
  note IH = Cons.IH [OF this Cons.prems(2), of "past @ [(now, k', c)]"]
  show ?case
  proof (cases "now = t \<and> k' = k")
    case True
    then have "c = capOf k" using Cons.prems(1) call by (auto simp: caps_fixed_def)
    then show ?thesis using IH call True by (auto split: if_splits)
  next
    case False
    then show ?thesis using IH call by auto
  qed
qed

text \<open>
  C25. The throttle is exact. Over any sequence of calls with a clock that does not run backwards and
  one positive cap per bucket, starting from the empty table, a call passes exactly when fewer than
  the cap of calls for the same bucket came before it in the same second; so no second sees more
  than the cap of admitted calls in a bucket, whatever the other buckets do.
\<close>

theorem rate_limit_exact:
  assumes "caps_fixed capOf cs" "sorted_wrt (\<le>) (map fst cs)"
  shows "rate_run Map.empty cs = rate_rule [] cs \<and>
    (0 < capOf k \<longrightarrow>
      int (length (filter (\<lambda>((t', k', _), ok). ok \<and> t' = t \<and> k' = k) (zip cs (rate_run Map.empty cs)))) \<le> capOf k)"
proof -
  define cap' where "cap' k = (if 0 < capOf k then capOf k else 1)" for k
  have c: "caps_fixed cap' cs" using assms(1) by (auto simp: caps_fixed_def cap'_def)
  have "rate_run Map.empty cs = rate_rule [] cs"
    by (rule rate_run_rule [OF bucket_inv_init [of cap'] c assms(2)]) (simp_all add: cap'_def)
  then show ?thesis using rule_admits [OF assms(1), of k t "[]"] by auto
qed

theorem rate_limit_exact_witness:
  "rate_run Map.empty [(7, ''a'', 2), (7, ''a'', 2), (7, ''b'', 2), (7, ''a'', 2), (8, ''a'', 2)] = [True, True, True, False, True]"
  using rate_limit_exact [of "\<lambda>_. 2" "[(7, ''a'', 2), (7, ''a'', 2), (7, ''b'', 2), (7, ''a'', 2), (8, ''a'', 2)]"]
  by (simp add: caps_fixed_def seen_def)

end
