(* ===== verification/ControlPure.thy ===== *)
theory ControlPure
  imports JsonWire FwLease RateLimit
begin

text \<open>
  The decisions of the control-socket plane, \<^verbatim>\<open>daemon/control_socket_pure.{h,cpp}\<close>, with the pool rules
  of \<^verbatim>\<open>lib/pool_pure.cpp\<close>: the configuration check, the routes, the access matrix, the JSON bodies it
  reads and writes, and the HTTP request head. A position in a text is the text from there on.
\<close>

section \<open>Pools\<close>

definition inferPool :: "string \<Rightarrow> char \<Rightarrow> string" where
  "inferPool jailName separator =
     (case cut_at separator jailName of None \<Rightarrow> [] | Some (pool, _) \<Rightarrow> pool)"

definition validatePoolName :: "string \<Rightarrow> err" where
  "validatePoolName name =
     fail_if (name = []) ''pool name is empty''
     (fail_if (length name > 32) ''pool name longer than 32 chars''
     (if name = ''*'' then []
      else fail_if (\<not> is_alnum (hd name)) ''pool name must start with a letter or digit''
      (case List.find (\<lambda>c. \<not> (is_alnum c \<or> c = CHR ''_'' \<or> c = CHR ''-'')) name of
         None \<Rightarrow> []
       | Some c \<Rightarrow> ''invalid character '' @ quoted [c] @ '' in pool name'')))"

definition tokenAllowsContainer :: "string list \<Rightarrow> string \<Rightarrow> bool" where
  "tokenAllowsContainer tokenPools containerPool =
     (if tokenPools = [] then True
      else if list_ex (\<lambda>p. p = ''*'') tokenPools then True
      else if containerPool = [] then False
      else list_ex (\<lambda>p. p = containerPool) tokenPools)"

definition poolVisibleOnSocket :: "string \<Rightarrow> string list \<Rightarrow> bool" where
  "poolVisibleOnSocket pool socketPools = list_ex (\<lambda>p. p = ''*'' \<or> p = pool) socketPools"

section \<open>Configuration\<close>

record ControlSocketSpec =
  cs_path :: string
  cs_group :: string
  cs_mode :: u32
  cs_pools :: "string list"
  cs_role :: string

definition name_char3 :: "char \<Rightarrow> bool" where
  "name_char3 c \<longleftrightarrow> is_alnum c \<or> c = CHR ''.'' \<or> c = CHR ''_'' \<or> c = CHR ''-''"

definition cs_metachar :: "string \<Rightarrow> bool" where
  "cs_metachar s \<longleftrightarrow> list_ex (\<lambda>c. c \<in>
     {CHR '';'', CHR 0x60, CHR ''$'', CHR ''|'', CHR ''&'', CHR ''<'', CHR ''>'', CHR 0x5C, CHR 0x0A, CHR 0x0D,
      CHR ''*'', CHR ''?'', CHR 0x22, CHR 0x27, CHR '' '', CHR 0x09}) s"

definition control_root :: string where
  "control_root = ''/var/run/crate/control/''"

definition pool_entry_err :: "string \<Rightarrow> err" where
  "pool_entry_err p =
     (if p = ''*'' then []
      else fail_if (p = [] \<or> length p > 64) ''control_socket: pool name out of length bounds (1..64)''
      (fail_if (\<not> list_all name_char3 p) (''control_socket: pool '' @ quoted p @ '' contains invalid character'') []))"

definition validateSocketSpec :: "ControlSocketSpec \<Rightarrow> err" where
  "validateSocketSpec s =
     fail_if (cs_path s = []) ''control_socket: path is empty''
     (fail_if (length (cs_path s) > 1024) ''control_socket: path longer than 1024 chars''
     (fail_if (hd (cs_path s) \<noteq> CHR ''/'') ''control_socket: path must be absolute''
     (fail_if (hasDotDotSegment (cs_path s)) (''control_socket: path must not contain '' @ quoted ''..'' @ '' segments'')
     (fail_if (cs_metachar (cs_path s)) ''control_socket: path contains shell metacharacters or whitespace''
     (fail_if (length (cs_path s) \<le> length control_root \<or> \<not> starts_with control_root (cs_path s))
        ''control_socket: path must live under /var/run/crate/control/''
     (fail_if (cs_group s = []) ''control_socket: group is empty''
     (fail_if (length (cs_group s) > 32) ''control_socket: group longer than 32 chars''
     (check_err (case List.find (\<lambda>c. \<not> name_char3 c) (cs_group s) of
                   None \<Rightarrow> [] | Some c \<Rightarrow> ''control_socket: group contains invalid character '' @ quoted [c])
     (fail_if (cs_mode s > 511) ''control_socket: mode out of range (must be 0..0777)''
     (fail_if (cs_role s \<noteq> ''admin'' \<and> cs_role s \<noteq> ''viewer'')
        (''control_socket: role must be '' @ quoted ''admin'' @ '' or '' @ quoted ''viewer'' @ '', got '' @ quoted (cs_role s))
     (fail_if (cs_pools s = []) (''control_socket: pools list is empty (use ['' @ DQ # ''*'' @ DQ # ''] for all-pools)'')
     (foldr (\<lambda>p. check_err (pool_entry_err p)) (cs_pools s) []))))))))))))"

definition isModeSafe :: "u32 \<Rightarrow> bool" where
  "isModeSafe mode \<longleftrightarrow> and mode 7 = 0"

section \<open>Routes\<close>

datatype action = Unknown | ListContainers | GetContainer | GetContainerStats | PatchResources
  | PostStart | PostStop | PostRestart

definition splitPath :: "string \<Rightarrow> string list" where
  "splitPath p = filter (\<lambda>s. s \<noteq> []) (split_on (CHR ''/'') p)"

definition validContainerName :: "string \<Rightarrow> bool" where
  "validContainerName n \<longleftrightarrow> n \<noteq> [] \<and> length n \<le> 64 \<and> list_all name_char3 n"

definition route_verb :: "string \<Rightarrow> string \<Rightarrow> action" where
  "route_verb method leaf =
     (if leaf = ''stats'' \<and> method = ''GET'' then GetContainerStats
      else if leaf = ''resources'' \<and> method = ''PATCH'' then PatchResources
      else if leaf = ''start'' \<and> method = ''POST'' then PostStart
      else if leaf = ''stop'' \<and> method = ''POST'' then PostStop
      else if leaf = ''restart'' \<and> method = ''POST'' then PostRestart
      else Unknown)"

definition parseRoute :: "string \<Rightarrow> string \<Rightarrow> action \<times> string" where
  "parseRoute method path =
     (case splitPath path of
        v # c # cs # rest \<Rightarrow>
          if v \<noteq> ''v1'' \<or> c \<noteq> ''control'' \<or> cs \<noteq> ''containers'' then (Unknown, [])
          else (case rest of
              [] \<Rightarrow> (if method = ''GET'' then ListContainers else Unknown, [])
            | [name] \<Rightarrow>
                if \<not> validContainerName name then (Unknown, [])
                else (if method = ''GET'' then GetContainer else Unknown, name)
            | [name, leaf] \<Rightarrow>
                if \<not> validContainerName name then (Unknown, [])
                else (route_verb method leaf, name)
            | _ \<Rightarrow> (Unknown, []))
      | _ \<Rightarrow> (Unknown, []))"

fun actionIsMutating :: "action \<Rightarrow> bool" where
  "actionIsMutating PatchResources = True"
| "actionIsMutating PostStart = True"
| "actionIsMutating PostStop = True"
| "actionIsMutating PostRestart = True"
| "actionIsMutating ListContainers = False"
| "actionIsMutating GetContainer = False"
| "actionIsMutating GetContainerStats = False"
| "actionIsMutating Unknown = False"

fun actionLabel :: "action \<Rightarrow> string" where
  "actionLabel ListContainers = ''list''"
| "actionLabel GetContainer = ''get''"
| "actionLabel GetContainerStats = ''stats''"
| "actionLabel PatchResources = ''patch''"
| "actionLabel PostStart = ''start''"
| "actionLabel PostStop = ''stop''"
| "actionLabel PostRestart = ''restart''"
| "actionLabel Unknown = ''unknown''"

section \<open>The access matrix\<close>

datatype cs_decision = CsAllow | DenyGidMismatch | DenyPoolMismatch | DenyRoleMismatch | DenyUnknownAction

record AuthorizeInput =
  ai_peerUid :: int
  ai_peerGid :: int
  ai_expectedGid :: int
  ai_role :: string
  ai_pools :: "string list"
  ai_action :: action
  ai_container :: string
  ai_separator :: char

definition per_container :: "action \<Rightarrow> bool" where
  "per_container a \<longleftrightarrow> a \<in> {GetContainer, GetContainerStats, PatchResources, PostStart, PostStop, PostRestart}"

definition cs_authorize :: "AuthorizeInput \<Rightarrow> cs_decision" where
  "cs_authorize i =
     (if ai_action i = Unknown then DenyUnknownAction
      else if ai_peerGid i < 0 \<or> ai_peerGid i \<noteq> ai_expectedGid i then DenyGidMismatch
      else if actionIsMutating (ai_action i) \<and> ai_role i \<noteq> ''admin'' then DenyRoleMismatch
      else if per_container (ai_action i) \<and>
        \<not> poolVisibleOnSocket (inferPool (ai_container i) (ai_separator i)) (ai_pools i) then DenyPoolMismatch
      else CsAllow)"

fun httpStatusFor :: "cs_decision \<Rightarrow> nat" where
  "httpStatusFor CsAllow = 200"
| "httpStatusFor DenyGidMismatch = 403"
| "httpStatusFor DenyPoolMismatch = 403"
| "httpStatusFor DenyRoleMismatch = 403"
| "httpStatusFor DenyUnknownAction = 404"

section \<open>Flat JSON objects\<close>

definition trim :: "string \<Rightarrow> string" where
  "trim s = rev (dropWhile is_space (rev (dropWhile is_space s)))"

definition flat_unescape :: "char \<Rightarrow> char option" where
  "flat_unescape e =
     (if e = DQ then Some DQ else if e = BSL then Some BSL else if e = CHR ''/'' then Some (CHR ''/'')
      else if e = CHR ''n'' then Some (CHR 0x0A) else if e = CHR ''r'' then Some (CHR 0x0D)
      else if e = CHR ''t'' then Some (CHR 0x09) else None)"

fun read_chars :: "string \<Rightarrow> string \<Rightarrow> (string \<times> string) res" where
  "read_chars val [] = Inl ''unterminated string''"
| "read_chars val (c # s) =
     (if c = DQ then Inr (val, s)
      else if c = BSL then
        (case s of
           [] \<Rightarrow> Inl ''trailing backslash in string''
         | e # s' \<Rightarrow>
            (case flat_unescape e of
               None \<Rightarrow> Inl (''unsupported escape '' @ quoted [BSL, e])
             | Some d \<Rightarrow> read_chars (val @ [d]) s'))
      else read_chars (val @ [c]) s)"

text \<open>\<^verbatim>\<open>readString\<close>; \<^term>\<open>n\<close> is the length of the whole text, so that the position is the difference.\<close>

definition read_string :: "nat \<Rightarrow> string \<Rightarrow> (string \<times> string) res" where
  "read_string n s =
     (case dropWhile is_space s of
        [] \<Rightarrow> Inl (''expected '' @ quoted [DQ] @ '' at position '' @ dec n)
      | c # s' \<Rightarrow>
          if c \<noteq> DQ then Inl (''expected '' @ quoted [DQ] @ '' at position '' @ dec (n - length (c # s')))
          else read_chars [] s')"

lemma read_chars_shorter: "read_chars val s = Inr (v, r) \<Longrightarrow> length r < length s"
proof (induction val s rule: read_chars.induct)
  case (1 val)
  then show ?case by simp
next
  case (2 val c s)
  note IH = 2(1,2) and P = 2(3)
  consider "c = DQ" | "c \<noteq> DQ" "c \<noteq> BSL" | e s' d where "c \<noteq> DQ" "c = BSL" "s = e # s'" "flat_unescape e = Some d"
    using P by (auto split: list.splits option.splits if_splits)
  then show ?case
  proof cases
    case 1
    then show ?thesis using P by simp
  next
    case 2
    then show ?thesis using IH(2) P by simp
  next
    case 3
    then show ?thesis using IH(1) [of e s' d] P by simp
  qed
qed

lemma read_string_shorter: "read_string n s = Inr (v, r) \<Longrightarrow> length r < length s"
proof -
  assume a: "read_string n s = Inr (v, r)"
  then obtain c s' where d: "dropWhile is_space s = c # s'" "read_chars [] s' = Inr (v, r)"
    by (auto simp: read_string_def split: list.splits if_splits)
  have "length (dropWhile is_space s) \<le> length s" by (rule length_dropWhile_le)
  then show ?thesis using d read_chars_shorter [OF d(2)] by simp
qed

function flat_fields :: "nat \<Rightarrow> string \<Rightarrow> (string \<times> string) list res" where
  "flat_fields n s =
     (case read_string n s of
        Inl e \<Rightarrow> Inl e
      | Inr (key, s1) \<Rightarrow>
        (case dropWhile is_space s1 of
           [] \<Rightarrow> Inl (''expected '' @ quoted '':'' @ '' after key '' @ quoted key)
         | c # s2 \<Rightarrow>
             if c \<noteq> CHR '':'' then Inl (''expected '' @ quoted '':'' @ '' after key '' @ quoted key)
             else (case read_string n s2 of
                 Inl e \<Rightarrow> Inl e
               | Inr (val, s3) \<Rightarrow>
                 (case dropWhile is_space s3 of
                    [] \<Rightarrow> Inr [(key, val)]
                  | d # s4 \<Rightarrow>
                      if d \<noteq> CHR '','' then Inl (''unexpected character '' @ quoted [d] @ '' after value'')
                      else bind_res (flat_fields n s4) (\<lambda>kvs. Inr ((key, val) # kvs))))))"
  by pat_completeness auto
termination
proof (relation "measure (\<lambda>(n, s). length s)", goal_cases)
  case 1
  show ?case by simp
next
  case (2 n s x key s1 c s2 y val s3 d s4)
  have "length (dropWhile is_space s1) \<le> length s1" "length (dropWhile is_space s3) \<le> length s3"
    by (rule length_dropWhile_le)+
  moreover have "length s1 < length s" "length s3 < length s2"
    using 2 read_string_shorter by (metis prod.collapse prod.inject)+
  ultimately show ?case using 2 by simp
qed

declare flat_fields.simps [simp del]

definition parseFlatJsonObject :: "string \<Rightarrow> (string \<times> string) list res" where
  "parseFlatJsonObject raw =
     (let s = trim raw in
      if s = [] then Inl ''JSON body is empty''
      else if hd s \<noteq> CHR 0x7B \<or> last s \<noteq> CHR 0x7D then Inl (''JSON body must be an object '' @ CHR 0x7B # ''...'' @ [CHR 0x7D])
      else let t = trim (take (length s - 2) (drop 1 s)) in
        if t = [] then Inl ''JSON object is empty (no fields)''
        else flat_fields (length t) t)"

record ResourcesPatch =
  rp_pcpu :: string
  rp_memoryuse :: string
  rp_readbps :: string
  rp_writebps :: string

fun patch_fields :: "(string \<times> string) list \<Rightarrow> ResourcesPatch \<Rightarrow> ResourcesPatch res" where
  "patch_fields [] p = Inr p"
| "patch_fields ((k, v) # kvs) p =
     (if k = ''pcpu'' then patch_fields kvs (p\<lparr>rp_pcpu := v\<rparr>)
      else if k = ''memoryuse'' then patch_fields kvs (p\<lparr>rp_memoryuse := v\<rparr>)
      else if k = ''readbps'' then patch_fields kvs (p\<lparr>rp_readbps := v\<rparr>)
      else if k = ''writebps'' then patch_fields kvs (p\<lparr>rp_writebps := v\<rparr>)
      else Inl (''unsupported resource key '' @ quoted k @ '' (allowed: pcpu, memoryuse, readbps, writebps)''))"

definition parseResourcesPatch :: "string \<Rightarrow> ResourcesPatch res" where
  "parseResourcesPatch body =
     bind_res (parseFlatJsonObject body) (\<lambda>kv.
     bind_res (patch_fields kv \<lparr>rp_pcpu = [], rp_memoryuse = [], rp_readbps = [], rp_writebps = []\<rparr>) (\<lambda>p.
     if rp_pcpu p = [] \<and> rp_memoryuse p = [] \<and> rp_readbps p = [] \<and> rp_writebps p = []
     then Inl ''no recognised keys in patch body'' else Inr p))"

section \<open>Replies\<close>

record ContainerSummary =
  sum_name :: string
  sum_pool :: string
  sum_state :: string
  sum_jid :: int

text \<open>Jail names are distinct, so the order \<^verbatim>\<open>std::sort\<close> gives is determined.\<close>

definition summary_json :: "ContainerSummary \<Rightarrow> string" where
  "summary_json c = json_obj [json_str ''name'' (sum_name c), json_str ''pool'' (sum_pool c),
     json_str ''state'' (sum_state c), json_raw ''jid'' (dec_int (sum_jid c))]"

definition renderContainersJson :: "ContainerSummary list \<Rightarrow> string" where
  "renderContainersJson items = json_obj [json_raw ''containers''
     (CHR ''['' # join (CHR '','') (map summary_json (sort_key sum_name items)) @ '']'')]"

definition renderErrorJson :: "string \<Rightarrow> string" where
  "renderErrorJson msg = json_error (json_escape msg)"

definition patch_items :: "ResourcesPatch \<Rightarrow> (string \<times> string) list" where
  "patch_items p = filter (\<lambda>kv. snd kv \<noteq> [])
     [(''pcpu'', rp_pcpu p), (''memoryuse'', rp_memoryuse p), (''readbps'', rp_readbps p), (''writebps'', rp_writebps p)]"

definition renderPatchOkJson :: "ResourcesPatch \<Rightarrow> string" where
  "renderPatchOkJson p = json_obj [json_raw ''applied'' (json_obj (map (\<lambda>(k, v). json_str k v) (patch_items p)))]"

section \<open>HTTP\<close>

fun reasonForStatus :: "nat \<Rightarrow> string" where
  "reasonForStatus s =
     (if s = 200 then ''OK'' else if s = 400 then ''Bad Request'' else if s = 403 then ''Forbidden''
      else if s = 404 then ''Not Found'' else if s = 405 then ''Method Not Allowed''
      else if s = 411 then ''Length Required'' else if s = 413 then ''Payload Too Large''
      else if s = 429 then ''Too Many Requests'' else if s = 500 then ''Internal Server Error''
      else if s = 501 then ''Not Implemented'' else ''Unknown'')"

definition CR :: char where "CR = CHR 0x0D"

definition CRLF :: string where "CRLF = [CR, NL]"

definition buildHttpResponse :: "nat \<Rightarrow> string \<Rightarrow> string" where
  "buildHttpResponse status body =
     ''HTTP/1.1 '' @ dec status @ '' '' @ reasonForStatus status @ CRLF @
     ''Content-Type: application/json'' @ CRLF @
     ''Content-Length: '' @ dec (length body) @ CRLF @
     ''Connection: close'' @ CRLF @ CRLF @ body"

text \<open>\<^verbatim>\<open>head.find("\r\n", i)\<close>: the text before and after the first CR LF.\<close>

fun cut_crlf :: "string \<Rightarrow> (string \<times> string) option" where
  "cut_crlf [] = None"
| "cut_crlf [c] = None"
| "cut_crlf (c # d # s) =
     (if c = CR \<and> d = NL then Some ([], s) else map_option (apfst ((#) c)) (cut_crlf (d # s)))"

definition to_lower :: "char \<Rightarrow> char" where
  "to_lower c = (if CHR ''A'' \<le> c \<and> c \<le> CHR ''Z'' then char_of (of_char c + (32::nat)) else c)"

definition methodLooksValid :: "string \<Rightarrow> bool" where
  "methodLooksValid m \<longleftrightarrow> m \<noteq> [] \<and> length m \<le> 16 \<and>
     list_all (\<lambda>c. (CHR ''A'' \<le> c \<and> c \<le> CHR ''Z'') \<or> (CHR ''a'' \<le> c \<and> c \<le> CHR ''z'')) m"

definition pathLooksValid :: "string \<Rightarrow> bool" where
  "pathLooksValid p \<longleftrightarrow> p \<noteq> [] \<and> length p \<le> 1024 \<and> hd p = CHR ''/'' \<and>
     list_all (\<lambda>c. CHR 0x21 \<le> c \<and> c \<le> CHR 0x7E) p"

record ParsedHttp =
  ph_method :: string
  ph_path :: string
  ph_contentLength :: nat

fun length_loop :: "nat \<Rightarrow> string \<Rightarrow> nat res" where
  "length_loop n [] = Inr n"
| "length_loop n (c # cs) =
     (if \<not> is_digit c then Inl ''Content-Length not numeric''
      else let n' = n * 10 + digit_val c in
        if n' > 65536 then Inl ''Content-Length over 64KB cap'' else length_loop n' cs)"

definition header_line :: "string \<Rightarrow> ParsedHttp \<Rightarrow> ParsedHttp res" where
  "header_line line out =
     (case cut_at (CHR '':'') line of
        None \<Rightarrow> Inl (''header missing '' @ quoted '':'')
      | Some (name, rest) \<Rightarrow>
          let value = dropWhile (\<lambda>c. c = CHR '' '' \<or> c = TAB) rest in
          if map to_lower name = ''content-length'' then
            (if value = [] then Inl ''Content-Length empty''
             else bind_res (length_loop 0 value) (\<lambda>n. Inr (out\<lparr>ph_contentLength := n\<rparr>)))
          else Inr out)"

lemma cut_crlf_shorter: "cut_crlf s = Some (a, b) \<Longrightarrow> length b < length s"
  by (induction s arbitrary: a rule: cut_crlf.induct) (auto split: if_splits)

function header_loop :: "string \<Rightarrow> ParsedHttp \<Rightarrow> ParsedHttp res" where
  "header_loop s out =
     (if s = [] then Inl ''header block truncated''
      else case cut_crlf s of
        None \<Rightarrow> Inl ''header block not terminated by CRLF''
      | Some (line, rest) \<Rightarrow>
          if line = [] then Inr out
          else if length line > 4096 then Inl ''header line too long''
          else (case header_line line out of Inl e \<Rightarrow> Inl e | Inr out' \<Rightarrow> header_loop rest out'))"
  by pat_completeness auto
termination
  by (relation "measure (\<lambda>(s, _). length s)") (auto dest: cut_crlf_shorter)

declare header_loop.simps [simp del]

definition parseHttpHead :: "string \<Rightarrow> ParsedHttp res" where
  "parseHttpHead head =
     (case cut_crlf head of
        None \<Rightarrow> Inl ''no CRLF after request line''
      | Some (line, rest) \<Rightarrow>
          if length line > 1024 + 32 then Inl ''request line too long''
          else (case cut_at (CHR '' '') line of
              None \<Rightarrow> Inl ''request line missing SP after method''
            | Some (method, l2) \<Rightarrow>
              (case cut_at (CHR '' '') l2 of
                 None \<Rightarrow> Inl ''request line missing SP after path''
               | Some (path, version) \<Rightarrow>
                   if \<not> methodLooksValid method then Inl ''invalid HTTP method''
                   else if \<not> pathLooksValid path then Inl ''invalid HTTP path''
                   else if version \<noteq> ''HTTP/1.0'' \<and> version \<noteq> ''HTTP/1.1'' then Inl ''unsupported HTTP version (need 1.0 or 1.1)''
                   else header_loop rest \<lparr>ph_method = method, ph_path = path, ph_contentLength = 0\<rparr>)))"

section \<open>A patch reads back\<close>

definition flat_char :: "char \<Rightarrow> bool" where
  "flat_char c \<longleftrightarrow> (0x20::nat) \<le> of_char c \<or> c \<in> {CHR 0x09, CHR 0x0A, CHR 0x0D}"

lemma read_chars_escape_char:
  assumes "flat_char c"
  shows "read_chars val (escape_char c @ r) = read_chars (val @ [c]) r"
proof (cases "c \<in> {DQ, BSL, CHR 0x09, CHR 0x0A, CHR 0x0D}")
  case True
  then show ?thesis by (auto simp: escape_char_def flat_unescape_def DQ_def BSL_def)
next
  case False
  then have "escape_char c = [c]" using assms by (auto simp: escape_char_def flat_char_def)
  then show ?thesis using False by simp
qed

lemma read_chars_escape: "list_all flat_char s \<Longrightarrow> read_chars val (json_escape s @ DQ # r) = Inr (val @ s, r)"
  by (induction s arbitrary: val) (simp_all add: json_escape_def read_chars_escape_char)

lemma DQ_not_space [simp]: "\<not> is_space DQ" "\<not> is_space (CHR '':'')" "\<not> is_space (CHR '','')"
  by (simp_all add: is_space_def DQ_def)

lemma read_string_escape: "list_all flat_char s \<Longrightarrow> read_string n (DQ # json_escape s @ DQ # r) = Inr (s, r)"
  by (simp add: read_string_def read_chars_escape)

definition field_ok2 :: "string \<times> string \<Rightarrow> bool" where
  "field_ok2 kv \<longleftrightarrow> list_all flat_char (fst kv) \<and> list_all flat_char (snd kv)"

definition field_json :: "string \<times> string \<Rightarrow> string" where
  "field_json kv = DQ # json_escape (fst kv) @ DQ # CHR '':'' # DQ # json_escape (snd kv) @ [DQ]"

lemma flat_fields_join:
  "kvs \<noteq> [] \<Longrightarrow> list_all field_ok2 kvs \<Longrightarrow> flat_fields n (join (CHR '','') (map field_json kvs)) = Inr kvs"
proof (induction kvs)
  case Nil
  then show ?case by simp
next
  case (Cons kv kvs)
  obtain k v where kv: "kv = (k, v)" by (cases kv)
  have ok: "list_all flat_char k" "list_all flat_char v" using Cons.prems(2) kv by (simp_all add: field_ok2_def)
  show ?case
  proof (cases "kvs = []")
    case True
    then show ?thesis using kv ok
      by (subst flat_fields.simps) (simp add: field_json_def read_string_escape)
  next
    case False
    then have "flat_fields n (join (CHR '','') (map field_json kvs)) = Inr kvs" using Cons by simp
    then show ?thesis using kv ok False
      by (subst flat_fields.simps) (simp add: join_Cons field_json_def read_string_escape)
  qed
qed

lemma trim_id: "s \<noteq> [] \<Longrightarrow> \<not> is_space (hd s) \<Longrightarrow> \<not> is_space (last s) \<Longrightarrow> trim s = s"
proof -
  assume "s \<noteq> []" "\<not> is_space (hd s)" "\<not> is_space (last s)"
  then have "dropWhile is_space s = s" "dropWhile is_space (rev s) = rev s"
    by (metis dropWhile_eq_self_iff, metis dropWhile_eq_self_iff hd_rev)
  then show ?thesis by (simp add: trim_def)
qed

lemma join_fields_ends:
  assumes "kvs \<noteq> []"
  shows "join (CHR '','') (map field_json kvs) \<noteq> []" "hd (join (CHR '','') (map field_json kvs)) = DQ"
    "last (join (CHR '','') (map field_json kvs)) = DQ"
proof -
  have f: "field_json kv \<noteq> []" "hd (field_json kv) = DQ" "last (field_json kv) = DQ" for kv by (simp_all add: field_json_def)
  have "join (CHR '','') (map field_json kvs) \<noteq> [] \<and> hd (join (CHR '','') (map field_json kvs)) = DQ \<and>
      last (join (CHR '','') (map field_json kvs)) = DQ" using assms
  proof (induction kvs)
    case Nil
    then show ?case by simp
  next
    case (Cons kv kvs)
    then show ?case using f [of kv] by (cases "kvs = []") (auto simp: join_Cons)
  qed
  then show "join (CHR '','') (map field_json kvs) \<noteq> []" "hd (join (CHR '','') (map field_json kvs)) = DQ"
    "last (join (CHR '','') (map field_json kvs)) = DQ" by simp_all
qed

lemma flat_object_roundtrip:
  assumes "kvs \<noteq> []" "list_all field_ok2 kvs"
  shows "parseFlatJsonObject (json_obj (map field_json kvs)) = Inr kvs"
proof -
  let ?j = "join (CHR '','') (map field_json kvs)"
  have o: "json_obj (map field_json kvs) = CHR 0x7B # ?j @ [CHR 0x7D]" by (simp add: json_obj_def)
  have "trim (CHR 0x7B # ?j @ [CHR 0x7D]) = CHR 0x7B # ?j @ [CHR 0x7D]"
    by (rule trim_id) (simp_all add: is_space_def)
  moreover have "trim ?j = ?j" using join_fields_ends [OF assms(1)] by (auto intro: trim_id)
  ultimately show ?thesis
    using flat_fields_join [OF assms] join_fields_ends(1) [OF assms(1)]
    by (simp add: parseFlatJsonObject_def o)
qed

definition patch_ok :: "ResourcesPatch \<Rightarrow> bool" where
  "patch_ok p \<longleftrightarrow> list_all flat_char (rp_pcpu p) \<and> list_all flat_char (rp_memoryuse p) \<and>
     list_all flat_char (rp_readbps p) \<and> list_all flat_char (rp_writebps p)"

definition empty_patch :: ResourcesPatch where
  "empty_patch = \<lparr>rp_pcpu = [], rp_memoryuse = [], rp_readbps = [], rp_writebps = []\<rparr>"

lemma patch_fields_items: "patch_fields (patch_items p) empty_patch = Inr p"
  by (simp add: patch_items_def empty_patch_def)

text \<open>
  A PATCH body reads back as the limits it was written from. For every patch with at least one
  limit, the JSON object of its limits, strings escaped as the code base escapes them, is read by
  the control socket as that patch; the order of the keys, the empty fields and the escapes of
  quotes, backslashes and line breaks included. A body without any limit is refused.
\<close>

theorem patch_roundtrip:
  assumes "patch_ok p"
  shows "parseResourcesPatch (json_obj (map field_json (patch_items p))) =
    (if p = empty_patch then Inl ''JSON object is empty (no fields)'' else Inr p)"
proof (cases "patch_items p = []")
  case True
  then have p: "p = empty_patch" using patch_fields_items [of p] by simp
  have "parseResourcesPatch (json_obj []) = Inl ''JSON object is empty (no fields)''"
    by (simp add: parseResourcesPatch_def parseFlatJsonObject_def json_obj_def trim_def is_space_def)
  then show ?thesis using True p by simp
next
  case False
  have ok: "list_all field_ok2 (patch_items p)"
    using assms by (auto simp: patch_items_def field_ok2_def patch_ok_def flat_char_def)
  have ne: "p \<noteq> empty_patch" using False by (auto simp: empty_patch_def patch_items_def)
  have "parseResourcesPatch (json_obj (map field_json (patch_items p))) =
      (if rp_pcpu p = [] \<and> rp_memoryuse p = [] \<and> rp_readbps p = [] \<and> rp_writebps p = []
       then Inl ''no recognised keys in patch body'' else Inr p)"
    using flat_object_roundtrip [OF False ok] patch_fields_items [of p]
    by (simp add: parseResourcesPatch_def empty_patch_def)
  then show ?thesis using ne by (auto simp: empty_patch_def)
qed

theorem patch_roundtrip_witness:
  "parseResourcesPatch (CHR 0x7B # json_str ''pcpu'' ''20'' @ [CHR 0x7D]) =
    Inr \<lparr>rp_pcpu = ''20'', rp_memoryuse = [], rp_readbps = [], rp_writebps = []\<rparr>"
proof -
  let ?p = "\<lparr>rp_pcpu = ''20'', rp_memoryuse = [], rp_readbps = [], rp_writebps = []\<rparr>"
  have "CHR 0x7B # json_str ''pcpu'' ''20'' @ [CHR 0x7D] = json_obj (map field_json (patch_items ?p))" by code_simp
  moreover have "patch_ok ?p" "?p \<noteq> empty_patch" by code_simp+
  ultimately show ?thesis using patch_roundtrip [of ?p] by simp
qed

end
