(* ===== verification/SpecRegistry.thy ===== *)
theory SpecRegistry
  imports PerUser FwLease PrivOps
begin

text \<open>
  The registry of container specs, \<^verbatim>\<open>lib/spec_registry_pure.cpp\<close> and \<^verbatim>\<open>lib/spec_registry.cpp\<close>, with
  the dataset check of \<^verbatim>\<open>lib/zfs_dataset_pure.cpp\<close> it uses: one line per container, mapping its name
  to the crate file or the warm-base dataset it was started from. The file is an optional string
  (absent or its bytes); every writer holds the lock of the companion file from the read to the
  rename, so an operation is one step. How the lock, the read and the write end is an argument.
\<close>

section \<open>Validators\<close>

definition bad_spec_char :: "char \<Rightarrow> bool" where
  "bad_spec_char c \<longleftrightarrow> c \<in> {CHR 0x5C, CHR 0x22, CHR 0x27, CHR 0x60, CHR ''$'', CHR '';'', CHR ''|'', CHR ''&'',
     CHR ''*'', CHR ''?'', CHR ''<'', CHR ''>'', CHR 0x0A, CHR 0x0D}"

definition is_control :: "char \<Rightarrow> bool" where
  "is_control c \<longleftrightarrow> c < CHR 0x20 \<or> c = CHR 0x7F"

definition spec_validateName :: "string \<Rightarrow> err" where
  "spec_validateName n =
     fail_if (n = []) ''name is empty''
     (fail_if (length n > kJailName) (''name too long (>'' @ dec kJailName @ '' chars): '' @ quoted n)
     (fail_if (n = ''.'' \<or> n = ''..'') (''name is reserved: '' @ quoted n)
     (fail_if (hd n = CHR ''-'' \<or> hd n = CHR ''.'') (''name must not start with '' @ quoted ''-'' @ '' or '' @ quoted ''.'' @ '': '' @ quoted n)
     (fail_if (\<not> list_all (\<lambda>c. is_alnum c \<or> c = CHR ''-'' \<or> c = CHR ''_'' \<or> c = CHR ''.'') n)
        (''name contains forbidden char (allowed: [A-Za-z0-9._-]): '' @ quoted n) []))))"

fun path_chars :: "string \<Rightarrow> string \<Rightarrow> err" where
  "path_chars p [] = []"
| "path_chars p (c # cs) =
     (if is_control c then ''path contains a control character: '' @ quoted p
      else if bad_spec_char c then ''path contains forbidden char '' @ quoted [c] @ '': '' @ quoted p
      else path_chars p cs)"

definition spec_validatePath :: "string \<Rightarrow> err" where
  "spec_validatePath p =
     fail_if (p = []) ''path is empty''
     (fail_if (length p > 1024) (''path too long: '' @ quoted p)
     (fail_if (hd p \<noteq> CHR ''/'') (''path must be absolute: '' @ quoted p)
     (fail_if (hasDotDotSegment p) (''path must not contain '' @ quoted ''..'' @ '' segments: '' @ quoted p)
     (path_chars p p))))"

definition validateDatasetName :: "string \<Rightarrow> err" where
  "validateDatasetName ds =
     fail_if (ds = []) ''dataset name is empty''
     (fail_if (length ds > 255) (''dataset name too long (>255): '' @ quoted ds)
     (fail_if (hd ds = CHR ''/'' \<or> last ds = CHR ''/'') (''dataset must not start or end with '' @ quoted ''/'' @ '': '' @ quoted ds)
     (fail_if (hasDotDotSegment ds) (''dataset must not contain '' @ quoted ''..'' @ '' segments: '' @ quoted ds)
     (fail_if (\<not> list_all (\<lambda>c. is_alnum c \<or> c \<in> {CHR ''_'', CHR ''-'', CHR ''.'', CHR ''/'', CHR '':''}) ds)
        (''dataset contains forbidden char (allowed: [A-Za-z0-9_.:/-]): '' @ quoted ds) []))))"

section \<open>Entries and lines\<close>

record SpecEntry =
  sp_name :: string
  sp_cratePath :: string
  sp_warmBase :: string

definition kWarmBaseTag :: string where
  "kWarmBaseTag = ''warm-base=''"

definition validateEntry :: "SpecEntry \<Rightarrow> err" where
  "validateEntry e =
     check_err (spec_validateName (sp_name e))
     (if sp_warmBase e \<noteq> [] then
        fail_if (sp_cratePath e \<noteq> []) ''entry has both a crate path and a warm-base dataset''
        (check_pfx ''warm-base: '' (validateDatasetName (sp_warmBase e))
        (fail_if (CHR '' '' \<in> set (sp_warmBase e)) ''warm-base dataset contains a space'' []))
      else spec_validatePath (sp_cratePath e))"

definition entry_of :: "string \<Rightarrow> string \<Rightarrow> SpecEntry" where
  "entry_of name rest =
     (if starts_with kWarmBaseTag rest
      then \<lparr>sp_name = name, sp_cratePath = [], sp_warmBase = drop (length kWarmBaseTag) rest\<rparr>
      else \<lparr>sp_name = name, sp_cratePath = rest, sp_warmBase = []\<rparr>)"

definition spec_parseLine :: "string \<Rightarrow> SpecEntry res" where
  "spec_parseLine line =
     (case cut_at (CHR '' '') line of
        None \<Rightarrow> Inl ''no space separator''
      | Some (name, rest) \<Rightarrow>
          if rest \<noteq> [] \<and> hd rest = CHR '' '' then Inl ''duplicate separator (use exactly one space between name and path)''
          else let e = entry_of name rest in if validateEntry e \<noteq> [] then Inl (validateEntry e) else Inr e)"

definition targetOf :: "SpecEntry \<Rightarrow> string" where
  "targetOf e = (if sp_warmBase e \<noteq> [] then kWarmBaseTag @ sp_warmBase e else sp_cratePath e)"

definition spec_formatLine :: "SpecEntry \<Rightarrow> string" where
  "spec_formatLine e = sp_name e @ '' '' @ targetOf e"

fun findIndex :: "SpecEntry list \<Rightarrow> string \<Rightarrow> nat option" where
  "findIndex [] name = None"
| "findIndex (e # es) name = (if sp_name e = name then Some 0 else map_option Suc (findIndex es name))"

section \<open>The file\<close>

fun parse_lines :: "nat \<Rightarrow> string list \<Rightarrow> SpecEntry list res" where
  "parse_lines lineNo [] = Inr []"
| "parse_lines lineNo (raw # ls) =
     (let line = chomp_cr raw in
      if line = [] \<or> hd line = CHR ''#'' then parse_lines (Suc lineNo) ls
      else case spec_parseLine line of
        Inl err \<Rightarrow> Inl (''spec-registry: line '' @ dec lineNo @ '': '' @ err @ '' (line: '' @ quoted line @ '')'')
      | Inr e \<Rightarrow> bind_res (parse_lines (Suc lineNo) ls) (\<lambda>es. Inr (e # es)))"

definition parseAll :: "string \<Rightarrow> SpecEntry list res" where
  "parseAll buf = parse_lines 1 (getlines buf)"

definition spec_header1 :: string where
  "spec_header1 = ''# crate spec registry '' @ [CHR 0xE2, CHR 0x80, CHR 0x94] @
     '' managed by `crate run -f` / `crate run --warm-base`''"

definition spec_header2 :: string where
  "spec_header2 = ''# format: <jail-name> <abs-crate-path>  |  <jail-name> warm-base=<dataset>''"

definition spec_text :: "SpecEntry list \<Rightarrow> string" where
  "spec_text es = spec_header1 @ NL # spec_header2 @ NL # concat (map (\<lambda>e. spec_formatLine e @ [NL]) es)"

text \<open>How the system calls of one operation end: the empty string, or the message of the exception.\<close>

record spec_io =
  sio_lock :: err
  sio_read :: err
  sio_write :: err

type_synonym spec_file = "string option"

definition file_text :: "spec_file \<Rightarrow> string" where
  "file_text f = (case f of None \<Rightarrow> [] | Some b \<Rightarrow> b)"

definition readAll :: "err \<Rightarrow> spec_file \<Rightarrow> SpecEntry list res" where
  "readAll rd f = (case f of None \<Rightarrow> Inr [] | Some b \<Rightarrow> if rd \<noteq> [] then Inl rd else parseAll b)"

definition writeAllAtomic :: "spec_io \<Rightarrow> SpecEntry list \<Rightarrow> string \<Rightarrow> err \<times> spec_file" where
  "writeAllAtomic io es old = (if sio_write io \<noteq> [] then (sio_write io, Some old) else ([], Some (spec_text es)))"

definition upsertEntry :: "spec_io \<Rightarrow> SpecEntry \<Rightarrow> spec_file \<Rightarrow> err \<times> spec_file" where
  "upsertEntry io e f =
     (if validateEntry e \<noteq> [] then (''spec-registry: '' @ validateEntry e, f)
      else if sio_lock io \<noteq> [] then (sio_lock io, f)
      else let buf = file_text f in
        if sio_read io \<noteq> [] then (sio_read io, Some buf)
        else case parseAll buf of
          Inl err \<Rightarrow> (err, Some buf)
        | Inr es \<Rightarrow>
            (case findIndex es (sp_name e) of
               Some i \<Rightarrow>
                 if sp_cratePath (es ! i) = sp_cratePath e \<and> sp_warmBase (es ! i) = sp_warmBase e then ([], Some buf)
                 else writeAllAtomic io (es[i := e]) buf
             | None \<Rightarrow> writeAllAtomic io (es @ [e]) buf))"

definition upsert :: "spec_io \<Rightarrow> string \<Rightarrow> string \<Rightarrow> spec_file \<Rightarrow> err \<times> spec_file" where
  "upsert io name cratePath f = upsertEntry io \<lparr>sp_name = name, sp_cratePath = cratePath, sp_warmBase = []\<rparr> f"

definition spec_remove :: "spec_io \<Rightarrow> string \<Rightarrow> spec_file \<Rightarrow> err \<times> spec_file" where
  "spec_remove io name f =
     (if sio_lock io \<noteq> [] then (sio_lock io, f)
      else let buf = file_text f in
        if sio_read io \<noteq> [] then (sio_read io, Some buf)
        else case parseAll buf of
          Inl err \<Rightarrow> (err, Some buf)
        | Inr es \<Rightarrow>
            if list_ex (\<lambda>e. sp_name e = name) es then writeAllAtomic io (filter (\<lambda>e. sp_name e \<noteq> name) es) buf
            else ([], Some buf))"

definition lookupEntry :: "err \<Rightarrow> string \<Rightarrow> spec_file \<Rightarrow> SpecEntry option res" where
  "lookupEntry rd name f = bind_res (readAll rd f) (\<lambda>es. Inr (List.find (\<lambda>e. sp_name e = name) es))"

definition spec_lookup :: "err \<Rightarrow> string \<Rightarrow> spec_file \<Rightarrow> string res" where
  "spec_lookup rd name f =
     bind_res (readAll rd f) (\<lambda>es. Inr (case List.find (\<lambda>e. sp_name e = name) es of None \<Rightarrow> [] | Some e \<Rightarrow> sp_cratePath e))"

section \<open>A line reads back\<close>

lemma path_chars_ok: "path_chars p cs = [] \<longleftrightarrow> list_all (\<lambda>c. \<not> is_control c \<and> \<not> bad_spec_char c) cs"
  by (induction cs) auto

lemma spec_name_chars:
  assumes "spec_validateName n = []"
  shows "n \<noteq> []" "CHR '' '' \<notin> set n" "NL \<notin> set n" "hd n \<noteq> CHR ''#''"
proof -
  have n: "n \<noteq> []" and all: "\<forall>c \<in> set n. is_alnum c \<or> c = CHR ''-'' \<or> c = CHR ''_'' \<or> c = CHR ''.''"
    using assms by (auto simp: spec_validateName_def list_all_iff)
  then have "CHR ''#'' \<notin> set n" "CHR '' '' \<notin> set n" "NL \<notin> set n"
    by (auto simp: is_alnum_def NL_def)
  then show "n \<noteq> []" "CHR '' '' \<notin> set n" "NL \<notin> set n" "hd n \<noteq> CHR ''#''"
    using n by (auto dest: hd_in_set)
qed

text \<open>What a target that passes the checks looks like.\<close>

lemma path_ok_chars:
  assumes "spec_validatePath p = []"
  shows "p \<noteq> []" "hd p = CHR ''/''" "NL \<notin> set p" "CHR 0x0D \<notin> set p"
  using assms by (auto simp: spec_validatePath_def path_chars_ok list_all_iff bad_spec_char_def NL_def)

lemma dataset_ok_chars:
  assumes "validateDatasetName ds = []"
  shows "NL \<notin> set ds" "CHR 0x0D \<notin> set ds"
  using assms by (auto simp: validateDatasetName_def list_all_iff is_alnum_def NL_def)

lemma valid_target:
  assumes "validateEntry e = []"
  shows "targetOf e \<noteq> []" "NL \<notin> set (targetOf e)" "CHR 0x0D \<notin> set (targetOf e)"
    "hd (targetOf e) \<noteq> CHR '' ''" "entry_of (sp_name e) (targetOf e) = e"
proof -
  have "targetOf e \<noteq> [] \<and> NL \<notin> set (targetOf e) \<and> CHR 0x0D \<notin> set (targetOf e) \<and>
      hd (targetOf e) \<noteq> CHR '' '' \<and> entry_of (sp_name e) (targetOf e) = e"
  proof (cases "sp_warmBase e = []")
    case True
    then have p: "spec_validatePath (sp_cratePath e) = []" using assms by (simp add: validateEntry_def)
    have "\<not> starts_with kWarmBaseTag (sp_cratePath e)"
      using path_ok_chars [OF p] by (cases "sp_cratePath e") (auto simp: starts_with_def kWarmBaseTag_def)
    then show ?thesis using path_ok_chars [OF p] True by (simp add: targetOf_def entry_of_def)
  next
    case False
    then have "sp_cratePath e = []" "validateDatasetName (sp_warmBase e) = []"
      using assms by (auto simp: validateEntry_def)
    with False show ?thesis
      using dataset_ok_chars [of "sp_warmBase e"]
      by (auto simp: targetOf_def entry_of_def kWarmBaseTag_def NL_def starts_with_def)
  qed
  then show "targetOf e \<noteq> []" "NL \<notin> set (targetOf e)" "CHR 0x0D \<notin> set (targetOf e)"
    "hd (targetOf e) \<noteq> CHR '' ''" "entry_of (sp_name e) (targetOf e) = e" by simp_all
qed

lemma spec_line_roundtrip:
  assumes "validateEntry e = []"
  shows "spec_parseLine (spec_formatLine e) = Inr e"
proof -
  have "spec_validateName (sp_name e) = []" using assms by (simp add: validateEntry_def)
  then show ?thesis
    using spec_name_chars [of "sp_name e"] valid_target [OF assms] assms
    by (simp add: spec_parseLine_def spec_formatLine_def)
qed

lemma spec_parseLine_valid: "spec_parseLine line = Inr e \<Longrightarrow> validateEntry e = []"
  by (auto simp: spec_parseLine_def Let_def split: option.splits if_splits)

lemma spec_line_shape:
  assumes "validateEntry e = []"
  shows "NL \<notin> set (spec_formatLine e)" "chomp_cr (spec_formatLine e) = spec_formatLine e"
    "spec_formatLine e \<noteq> []" "hd (spec_formatLine e) \<noteq> CHR ''#''"
proof -
  have n: "spec_validateName (sp_name e) = []" using assms by (simp add: validateEntry_def)
  note N = spec_name_chars [OF n] and T = valid_target [OF assms]
  show "NL \<notin> set (spec_formatLine e)" "spec_formatLine e \<noteq> []" "hd (spec_formatLine e) \<noteq> CHR ''#''"
    using N T by (auto simp: spec_formatLine_def NL_def)
  have "last (spec_formatLine e) = last (targetOf e)" using T(1) by (simp add: spec_formatLine_def)
  then show "chomp_cr (spec_formatLine e) = spec_formatLine e"
    using T(1,3) by (metis chomp_cr_def last_in_set)
qed

section \<open>The file reads back\<close>

lemma parse_lines_valid: "parse_lines n ls = Inr es \<Longrightarrow> list_all (\<lambda>e. validateEntry e = []) es"
proof (induction ls arbitrary: n es)
  case Nil
  then show ?case by simp
next
  case (Cons l ls)
  then show ?case
    by (auto simp: Let_def split: if_splits sum.splits dest: spec_parseLine_valid)
qed

lemma parse_lines_format: "list_all (\<lambda>e. validateEntry e = []) es \<Longrightarrow> parse_lines n (map spec_formatLine es) = Inr es"
  by (induction es arbitrary: n) (simp_all add: spec_line_shape spec_line_roundtrip)

lemma split_spec_lines:
  "list_all (\<lambda>e. validateEntry e = []) es \<Longrightarrow>
    split_on NL (concat (map (\<lambda>e. spec_formatLine e @ [NL]) es)) = map spec_formatLine es @ [[]]"
  by (induction es) (simp_all add: spec_line_shape)

lemma getlines_spec_text:
  assumes "list_all (\<lambda>e. validateEntry e = []) es"
  shows "getlines (spec_text es) = spec_header1 # spec_header2 # map spec_formatLine es"
proof -
  have "NL \<notin> set spec_header1" "NL \<notin> set spec_header2"
    by (simp_all add: spec_header1_def spec_header2_def NL_def)
  then have "split_on NL (spec_text es) = spec_header1 # spec_header2 # map spec_formatLine es @ [[]]"
    using split_spec_lines [OF assms] by (simp add: spec_text_def)
  then show ?thesis by (simp add: getlines_def Let_def)
qed

lemma parseAll_spec_text: "list_all (\<lambda>e. validateEntry e = []) es \<Longrightarrow> parseAll (spec_text es) = Inr es"
proof -
  assume v: "list_all (\<lambda>e. validateEntry e = []) es"
  have "chomp_cr spec_header1 = spec_header1" "chomp_cr spec_header2 = spec_header2"
    "spec_header1 \<noteq> []" "spec_header2 \<noteq> []" "hd spec_header1 = CHR ''#''" "hd spec_header2 = CHR ''#''"
    by (simp_all add: chomp_cr_def spec_header1_def spec_header2_def)
  then show ?thesis using parse_lines_format [OF v] by (simp add: parseAll_def getlines_spec_text [OF v])
qed

section \<open>The file implements a map\<close>

text \<open>The map a readable file stands for: the first line of a name counts.\<close>

definition readable :: "spec_file \<Rightarrow> bool" where
  "readable f \<longleftrightarrow> (case parseAll (file_text f) of Inl _ \<Rightarrow> False | Inr _ \<Rightarrow> True)"

definition first_named :: "SpecEntry list \<Rightarrow> string \<rightharpoonup> SpecEntry" where
  "first_named es name = List.find (\<lambda>e. sp_name e = name) es"

definition reg_abs :: "spec_file \<Rightarrow> string \<rightharpoonup> SpecEntry" where
  "reg_abs f name = (case lookupEntry [] name f of Inl _ \<Rightarrow> None | Inr r \<Rightarrow> r)"

lemma parseAll_Nil [simp]: "parseAll [] = Inr []"
  by (simp add: parseAll_def getlines_def split_on_def Let_def)

lemma readAll_readable: "parseAll (file_text f) = Inr es \<Longrightarrow> readAll [] f = Inr es"
  by (auto simp: readAll_def file_text_def split: option.splits)

lemma reg_abs_eq: "parseAll (file_text f) = Inr es \<Longrightarrow> reg_abs f = first_named es"
  by (rule ext) (simp add: reg_abs_def lookupEntry_def readAll_readable first_named_def)

lemma first_named_Cons [simp]: "first_named (e # es) n = (if sp_name e = n then Some e else first_named es n)"
  by (simp add: first_named_def)

lemma first_named_Nil [simp]: "first_named [] n = None"
  by (simp add: first_named_def)

lemma findIndex_None: "findIndex es n = None \<longleftrightarrow> first_named es n = None"
  by (induction es) auto

lemma findIndex_Some:
  "findIndex es n = Some i \<Longrightarrow> i < length es \<and> sp_name (es ! i) = n \<and> first_named es n = Some (es ! i)
    \<and> (\<forall>e. sp_name e = n \<longrightarrow> first_named (es[i := e]) = (first_named es)(n \<mapsto> e))"
proof (induction es arbitrary: i)
  case Nil
  then show ?case by simp
next
  case (Cons x es)
  show ?case
  proof (cases "sp_name x = n")
    case True
    then show ?thesis using Cons.prems by (auto simp: fun_eq_iff)
  next
    case False
    then obtain j where "findIndex es n = Some j" "i = Suc j" using Cons.prems by auto
    then show ?thesis using Cons.IH [of j] False by (auto simp: fun_eq_iff)
  qed
qed

lemma first_named_snoc: "first_named es (sp_name e) = None \<Longrightarrow> first_named (es @ [e]) = (first_named es)(sp_name e \<mapsto> e)"
  by (rule ext, induction es) (auto split: if_splits)

lemma first_named_filter: "first_named (filter (\<lambda>e. sp_name e \<noteq> n) es) = (first_named es)(n := None)"
  by (rule ext, induction es) auto

lemma first_named_absent: "\<not> list_ex (\<lambda>e. sp_name e = n) es \<Longrightarrow> first_named es n = None"
  by (induction es) auto

lemma writeAll_abs:
  assumes "sio_write io = []" "list_all (\<lambda>e. validateEntry e = []) es"
  shows "fst (writeAllAtomic io es buf) = []" "readable (snd (writeAllAtomic io es buf))"
    "reg_abs (snd (writeAllAtomic io es buf)) = first_named es"
  using assms reg_abs_eq [of "Some (spec_text es)" es]
  by (simp_all add: writeAllAtomic_def readable_def file_text_def parseAll_spec_text)

lemma same_entry: "sp_name a = sp_name b \<Longrightarrow> sp_cratePath a = sp_cratePath b \<Longrightarrow> sp_warmBase a = sp_warmBase b \<Longrightarrow> a = (b::SpecEntry)"
  by simp

lemma upsert_abs:
  assumes f: "parseAll (file_text f) = Inr es" and e: "validateEntry e = []"
    and io: "sio_lock io = []" "sio_read io = []" "sio_write io = []"
  shows "fst (upsertEntry io e f) = [] \<and> readable (snd (upsertEntry io e f)) \<and>
    reg_abs (snd (upsertEntry io e f)) = (reg_abs f)(sp_name e \<mapsto> e)"
proof (cases "findIndex es (sp_name e)")
  case None
  have v: "list_all (\<lambda>e. validateEntry e = []) (es @ [e])"
    using parse_lines_valid f e by (auto simp: parseAll_def)
  have "upsertEntry io e f = writeAllAtomic io (es @ [e]) (file_text f)"
    using f e io None by (simp add: upsertEntry_def)
  then show ?thesis
    using writeAll_abs [OF io(3) v, of "file_text f"] None findIndex_None first_named_snoc reg_abs_eq [OF f] by metis
next
  case (Some i)
  note i = findIndex_Some [OF Some]
  show ?thesis
  proof (cases "es ! i = e")
    case True
    then have u: "upsertEntry io e f = ([], Some (file_text f))"
      using f e io Some by (simp add: upsertEntry_def)
    have t: "file_text (Some (file_text f)) = file_text f" by (simp add: file_text_def)
    have "reg_abs (Some (file_text f)) = first_named es" using reg_abs_eq [of "Some (file_text f)"] f t by simp
    moreover have "first_named es = (first_named es)(sp_name e \<mapsto> e)" using i True by (simp add: fun_upd_idem)
    ultimately show ?thesis using u reg_abs_eq [OF f] f t by (simp add: readable_def)
  next
    case False
    have v: "list_all (\<lambda>e. validateEntry e = []) (es[i := e])"
      using parse_lines_valid f e set_update_subset_insert [of es i e] by (fastforce simp: parseAll_def list_all_iff)
    have "upsertEntry io e f = writeAllAtomic io (es[i := e]) (file_text f)"
      using f e io Some False i same_entry [of "es ! i" e] by (auto simp: upsertEntry_def Let_def)
    then show ?thesis
      using writeAll_abs [OF io(3) v, of "file_text f"] i reg_abs_eq [OF f] by metis
  qed
qed

lemma remove_abs:
  assumes f: "parseAll (file_text f) = Inr es" and io: "sio_lock io = []" "sio_read io = []" "sio_write io = []"
  shows "fst (spec_remove io n f) = [] \<and> readable (snd (spec_remove io n f)) \<and>
    reg_abs (snd (spec_remove io n f)) = (reg_abs f)(n := None)"
proof (cases "list_ex (\<lambda>e. sp_name e = n) es")
  case True
  have v: "list_all (\<lambda>e. validateEntry e = []) (filter (\<lambda>e. sp_name e \<noteq> n) es)"
    using parse_lines_valid f by (auto simp: parseAll_def list_all_iff)
  have "spec_remove io n f = writeAllAtomic io (filter (\<lambda>e. sp_name e \<noteq> n) es) (file_text f)"
    using f io True by (simp add: spec_remove_def)
  then show ?thesis
    using writeAll_abs [OF io(3) v, of "file_text f"] first_named_filter reg_abs_eq [OF f] by metis
next
  case False
  then have u: "spec_remove io n f = ([], Some (file_text f))" using f io by (simp add: spec_remove_def)
  have t: "file_text (Some (file_text f)) = file_text f" by (simp add: file_text_def)
  have "reg_abs (Some (file_text f)) = first_named es" using reg_abs_eq [of "Some (file_text f)"] f t by simp
  moreover have "first_named es = (first_named es)(n := None)"
    using first_named_absent [OF False] by (simp add: fun_upd_idem)
  ultimately show ?thesis using u reg_abs_eq [OF f] f t by (simp add: readable_def)
qed

lemma upsert_failure: "fst (upsertEntry io e f) \<noteq> [] \<Longrightarrow> file_text (snd (upsertEntry io e f)) = file_text f"
  by (auto simp: upsertEntry_def writeAllAtomic_def Let_def file_text_def split: option.splits sum.splits if_splits)

lemma remove_failure: "fst (spec_remove io n f) \<noteq> [] \<Longrightarrow> file_text (snd (spec_remove io n f)) = file_text f"
  by (auto simp: spec_remove_def writeAllAtomic_def Let_def file_text_def split: option.splits sum.splits if_splits)

text \<open>
  The spec registry is a map kept in a text file. On a readable file, storing a valid entry and
  removing a name succeed, leave a readable file, and change the map the file stands for as an
  update and a deletion do, every other name keeping its entry. An operation that reports an error
  (an invalid entry, a file it cannot read, a failed write) leaves the bytes of the file alone.
\<close>

theorem spec_registry_refines_map:
  assumes "readable f" "sio_lock io = []" "sio_read io = []" "sio_write io = []"
  shows "(validateEntry e = [] \<longrightarrow> fst (upsertEntry io e f) = [] \<and> readable (snd (upsertEntry io e f)) \<and>
      reg_abs (snd (upsertEntry io e f)) = (reg_abs f)(sp_name e \<mapsto> e))
    \<and> (fst (spec_remove io n f) = [] \<and> readable (snd (spec_remove io n f)) \<and>
      reg_abs (snd (spec_remove io n f)) = (reg_abs f)(n := None))
    \<and> (\<forall>io' f'. fst (upsertEntry io' e f') \<noteq> [] \<longrightarrow> file_text (snd (upsertEntry io' e f')) = file_text f')
    \<and> (\<forall>io' f'. fst (spec_remove io' n f') \<noteq> [] \<longrightarrow> file_text (snd (spec_remove io' n f')) = file_text f')"
proof -
  obtain es where "parseAll (file_text f) = Inr es" using assms(1) by (auto simp: readable_def split: sum.splits)
  then show ?thesis
    using upsert_abs [of f es e io] remove_abs [of f es io n] upsert_failure remove_failure assms(2-4) by simp
qed

definition sample_entry :: SpecEntry where
  "sample_entry = \<lparr>sp_name = ''web'', sp_cratePath = ''/opt/web.crate'', sp_warmBase = []\<rparr>"

theorem spec_registry_refines_map_witness:
  "reg_abs (snd (upsertEntry \<lparr>sio_lock = [], sio_read = [], sio_write = []\<rparr> sample_entry None)) ''web'' = Some sample_entry"
proof -
  have "readable None" by (simp add: readable_def file_text_def)
  moreover have "validateEntry sample_entry = []" by code_simp
  ultimately show ?thesis
    using spec_registry_refines_map [of None "\<lparr>sio_lock = [], sio_read = [], sio_write = []\<rparr>" sample_entry]
    by (simp add: sample_entry_def)
qed

end
