(* ===== verification/ControlSocket.thy ===== *)
theory ControlSocket
  imports ControlPure SpecRegistry
begin

text \<open>
  A connection of the control-socket plane, \<^verbatim>\<open>daemon/control_socket.cpp\<close>: reading the request,
  the gate, the throttle, the lookup of the jail a route names (\<^verbatim>\<open>findContainer\<close> of
  \<^verbatim>\<open>lib/jail_query.cpp\<close> with the container names of \<^verbatim>\<open>lib/run_pure.cpp\<close>) and the handlers. What libjail
  answers is a record of functions; the code asks it once in the gate and once more in the handler,
  so the model takes two of them. The operations on the host are data, and how each ends is a
  function of the host record. The stop sequence (\<^verbatim>\<open>lib/lifecycle.cpp\<close>) and the spawned \<^verbatim>\<open>crate run\<close>
  are one operation each.
\<close>

section \<open>Reading the request\<close>

definition kMaxHeader :: nat where "kMaxHeader = 8 * 1024"

text \<open>
  What the peer sends arrives in segments; \<^verbatim>\<open>read(fd, tmp, k)\<close> takes at most \<^verbatim>\<open>k\<close> bytes of the first.
  No segment, or an empty one, is end of file, an error or the timeout.
\<close>

type_synonym wire = "string list"

fun read_some :: "nat \<Rightarrow> wire \<Rightarrow> (string \<times> wire) option" where
  "read_some k [] = None"
| "read_some k (seg # w) =
     (if seg = [] then None
      else Some (take k seg, if length seg \<le> k then w else drop k seg # w))"

definition wire_size :: "wire \<Rightarrow> nat" where
  "wire_size w = length (concat w) + length w"

lemma read_some_shorter: "read_some k w = Some (b, w') \<Longrightarrow> 0 < k \<Longrightarrow> wire_size w' < wire_size w"
  by (cases w) (auto simp: wire_size_def split: if_splits)

lemma read_some_bytes: "read_some k w = Some (b, w') \<Longrightarrow> 0 < k \<Longrightarrow>
    concat w = b @ concat w' \<and> b \<noteq> [] \<and> length b \<le> k \<and> ([] \<notin> set w \<longrightarrow> [] \<notin> set w')"
  by (cases w) (auto split: if_splits)

text \<open>The text before and after the first occurrence of the needle.\<close>

fun cut_sub :: "string \<Rightarrow> string \<Rightarrow> (string \<times> string) option" where
  "cut_sub needle s =
     (if starts_with needle s then Some ([], drop (length needle) s)
      else case s of [] \<Rightarrow> None | c # t \<Rightarrow> map_option (apfst ((#) c)) (cut_sub needle t))"

declare cut_sub.simps [simp del]

function readUntilNeedle :: "string \<Rightarrow> string \<Rightarrow> wire \<Rightarrow> (string \<times> wire) option" where
  "readUntilNeedle needle buf w =
     (if cut_sub needle buf \<noteq> None then Some (buf, w)
      else if length buf \<ge> kMaxHeader then None
      else case read_some 1024 w of
        None \<Rightarrow> None
      | Some (b, w') \<Rightarrow> readUntilNeedle needle (buf @ b) w')"
  by pat_completeness auto
termination
  by (relation "measure (\<lambda>(_, _, w). wire_size w)") (auto dest: read_some_shorter)

declare readUntilNeedle.simps [simp del]

function readExact :: "nat \<Rightarrow> string \<Rightarrow> wire \<Rightarrow> string option" where
  "readExact want buf w =
     (if length buf \<ge> want then Some buf
      else case read_some (min 1024 (want - length buf)) w of
        None \<Rightarrow> None
      | Some (b, w') \<Rightarrow> readExact want (buf @ b) w')"
  by pat_completeness auto
termination
  by (relation "measure (\<lambda>(_, _, w). wire_size w)") (auto dest: read_some_shorter)

declare readExact.simps [simp del]

text \<open>
  The first part of \<^verbatim>\<open>handleConnection\<close>: the head, parsed, and exactly the announced number of body bytes.
\<close>

definition needle :: string where "needle = CRLF @ CRLF"

definition read_request :: "wire \<Rightarrow> (ParsedHttp \<times> string) res" where
  "read_request w =
     (case readUntilNeedle needle [] w of
        None \<Rightarrow> Inl ''malformed or oversized request head''
      | Some (blob, w') \<Rightarrow>
        (case cut_sub needle blob of
           None \<Rightarrow> Inl ''malformed or oversized request head''
         | Some (h, carried) \<Rightarrow>
           (case parseHttpHead (h @ needle) of
              Inl e \<Rightarrow> Inl (''HTTP parse: '' @ e)
            | Inr p \<Rightarrow>
                if ph_contentLength p > length carried then
                  (case readExact (ph_contentLength p - length carried) [] w' of
                     None \<Rightarrow> Inl ''body shorter than Content-Length''
                   | Some rest \<Rightarrow> Inr (p, carried @ rest))
                else Inr (p, take (ph_contentLength p) carried))))"

section \<open>Container names and the jail a route names\<close>

text \<open>\<^verbatim>\<open>jailName.rfind("_pid")\<close>: the text before the last occurrence, and after it.\<close>

fun rcut_pid :: "string \<Rightarrow> (string \<times> string) option" where
  "rcut_pid [] = None"
| "rcut_pid (c # s) =
     (case rcut_pid s of
        Some (a, b) \<Rightarrow> Some (c # a, b)
      | None \<Rightarrow> if starts_with ''_pid'' (c # s) then Some ([], drop 4 (c # s)) else None)"

definition containerNameOf :: "string \<Rightarrow> string" where
  "containerNameOf jailName =
     (case rcut_pid jailName of
        None \<Rightarrow> jailName
      | Some (a, digits) \<Rightarrow> if a = [] \<or> digits = [] \<or> \<not> list_all is_digit digits then jailName else a)"

definition containerNameOfJail :: "string \<Rightarrow> string \<Rightarrow> string" where
  "containerNameOfJail jailName jailPath =
     (let byName = containerNameOf jailName in
      if byName \<noteq> jailName then byName
      else let dir = crateJailDirName jailPath in
        if length dir > 5 + 1 + 8 \<and> dir ! (length dir - 8 - 1) = CHR ''-'' \<and> list_all is_hex (drop (length dir - 8) dir)
        then take (length dir - 5 - 8 - 1) (drop 5 dir)
        else jailName)"

record JailInfo =
  ji_jid :: int
  ji_name :: string
  ji_path :: string
  ji_hostname :: string
  ji_ip4 :: string
  ji_dying :: bool

text \<open>What libjail answers at one moment; the listing is the one restricted to crate's jails.\<close>

record jail_view =
  jv_byName :: "string \<Rightarrow> JailInfo option"
  jv_byJid :: "nat \<Rightarrow> JailInfo option"
  jv_crate :: "JailInfo list"

definition named_jails :: "jail_view \<Rightarrow> string \<Rightarrow> JailInfo list" where
  "named_jails v target = filter (\<lambda>j. \<not> ji_dying j \<and> ji_name j \<noteq> target \<and>
     containerNameOfJail (ji_name j) (ji_path j) = target) (jv_crate v)"

definition jid_like :: "string \<Rightarrow> bool" where
  "jid_like target \<longleftrightarrow> length target \<le> 9 \<and> list_all is_digit target"

definition findContainer :: "jail_view \<Rightarrow> string \<Rightarrow> JailInfo option \<times> nat" where
  "findContainer v target =
     (if target = [] then (None, 0)
      else case jv_byName v target of
        Some j \<Rightarrow> (Some j, 1)
      | None \<Rightarrow>
        (case (if jid_like target then jv_byJid v (dec_val target) else None) of
           Some j \<Rightarrow> (Some j, 1)
         | None \<Rightarrow> (case named_jails v target of [j] \<Rightarrow> (Some j, 1) | js \<Rightarrow> (None, length js))))"

section \<open>Operations on the host\<close>

datatype cs_op = RctlAdd string string string | StopJail string nat | SpawnRun string | RecordOwner nat string

record cs_host =
  ch_rctl :: "string \<Rightarrow> err"
  ch_stop :: "string \<Rightarrow> bool res"
  ch_usage :: "int \<Rightarrow> string option"
  ch_specRead :: err
  ch_specFile :: spec_file
  ch_stat :: "string \<Rightarrow> bool"
  ch_fork :: err

type_synonym cs_reply = "cs_op list \<times> nat \<times> string"

definition cs_error :: "nat \<Rightarrow> string \<Rightarrow> cs_reply" where
  "cs_error status msg = ([], status, renderErrorJson msg)"

definition findNamed :: "jail_view \<Rightarrow> string \<Rightarrow> cs_reply + JailInfo" where
  "findNamed v name =
     (case findContainer v name of
        (Some j, _) \<Rightarrow> Inr j
      | (None, n) \<Rightarrow>
          if n > 1 then Inl (cs_error 409 (''more than one running jail is named '' @ quoted name @ ''; use its jail name or jid''))
          else Inl (cs_error 404 ''container not found''))"

definition with_jail :: "jail_view \<Rightarrow> string \<Rightarrow> (JailInfo \<Rightarrow> cs_reply) \<Rightarrow> cs_reply" where
  "with_jail v name f = (case findNamed v name of Inl r \<Rightarrow> r | Inr j \<Rightarrow> f j)"

section \<open>Handlers\<close>

definition handleList :: "ControlSocketSpec \<Rightarrow> char \<Rightarrow> jail_view \<Rightarrow> cs_reply" where
  "handleList spec sep v =
     ([], 200, renderContainersJson
        (map (\<lambda>j. \<lparr>sum_name = ji_name j, sum_pool = inferPool (ji_name j) sep,
                   sum_state = (if ji_dying j then ''dying'' else ''running''), sum_jid = ji_jid j\<rparr>)
          (filter (\<lambda>j. poolVisibleOnSocket (inferPool (ji_name j) sep) (cs_pools spec)) (jv_crate v))))"

text \<open>These two bodies are written without escaping.\<close>

definition json_text :: "string \<Rightarrow> string \<Rightarrow> string" where
  "json_text k v = json_key k @ DQ # v @ [DQ]"

definition handleGet :: "string \<Rightarrow> jail_view \<Rightarrow> cs_reply" where
  "handleGet name v = with_jail v name (\<lambda>j.
     ([], 200, json_obj [json_text ''name'' (ji_name j), json_raw ''jid'' (dec_int (ji_jid j)),
        json_text ''path'' (ji_path j), json_text ''hostname'' (ji_hostname j), json_text ''ip4'' (ji_ip4 j),
        json_raw ''dying'' (bool_json (ji_dying j))]))"

definition usage_map :: "string \<Rightarrow> (string, string) stdmap" where
  "usage_map raw = fold (\<lambda>line m. case cut_at (CHR ''='') line of None \<Rightarrow> m | Some (k, x) \<Rightarrow> map_put k x m) (getlines raw) []"

definition handleStats :: "cs_host \<Rightarrow> string \<Rightarrow> jail_view \<Rightarrow> cs_reply" where
  "handleStats h name v = with_jail v name (\<lambda>j.
     ([], 200, json_obj [json_raw ''jid'' (dec_int (ji_jid j)), json_raw ''usage''
        (json_obj (map (\<lambda>(k, x). json_text k x)
           (case ch_usage h (ji_jid j) of None \<Rightarrow> [] | Some raw \<Rightarrow> usage_map raw)))]))"

definition em_dash :: string where
  "em_dash = [CHR 0xE2, CHR 0x80, CHR 0x94]"

definition owner_uid :: "int \<Rightarrow> nat" where
  "owner_uid peerUid = (if peerUid > 0 then nat (peerUid mod 2 ^ 32) else 0)"

definition status_body :: "string \<Rightarrow> (string \<times> string) list \<Rightarrow> string" where
  "status_body st rest = json_obj (json_text ''status'' st # map (\<lambda>(k, x). json_text k x) rest)"

definition handleStart :: "cs_host \<Rightarrow> string \<Rightarrow> int \<Rightarrow> jail_view \<Rightarrow> cs_reply" where
  "handleStart h name peerUid v =
     (let (j, running) = findContainer v name in
      if j \<noteq> None \<or> running > 0 then cs_error 409 ''container is already running''
      else let containerName = containerNameOf name in
        case spec_lookup (ch_specRead h) containerName (ch_specFile h) of
          Inl e \<Rightarrow> cs_error 500 (''spec-registry read failed: '' @ e)
        | Inr cratePath \<Rightarrow>
            if cratePath = [] then
              cs_error 404 (''no spec registered for '' @ quoted containerName @ '' '' @ em_dash @
                '' start it once via `crate run -f <file>` so the registry can record the path'')
            else if \<not> ch_stat h cratePath then cs_error 410 (''registered .crate path no longer exists: '' @ cratePath)
            else if ch_fork h \<noteq> [] then ([SpawnRun cratePath], 500, renderErrorJson (''fork failed: '' @ ch_fork h))
            else ([SpawnRun cratePath, RecordOwner (owner_uid peerUid) containerName], 202,
              status_body ''starting'' [(''container'', name), (''crate_path'', cratePath)]))"

definition handleStop :: "cs_host \<Rightarrow> string \<Rightarrow> jail_view \<Rightarrow> cs_reply" where
  "handleStop h name v = with_jail v name (\<lambda>j.
     ([StopJail (ji_name j) 10],
      (case ch_stop h (ji_name j) of
         Inr True \<Rightarrow> (200, status_body ''stopped'' [(''container'', name)])
       | Inr False \<Rightarrow> (500, renderErrorJson ''stop returned failure'')
       | Inl e \<Rightarrow> (500, renderErrorJson (''stop failed: '' @ e)))))"

definition handleRestart :: "cs_host \<Rightarrow> string \<Rightarrow> int \<Rightarrow> jail_view \<Rightarrow> cs_reply" where
  "handleRestart h name peerUid v = with_jail v name (\<lambda>j.
     let containerName = containerNameOfJail (ji_name j) (ji_path j) in
     case spec_lookup (ch_specRead h) containerName (ch_specFile h) of
       Inl e \<Rightarrow> cs_error 500 (''spec-registry read failed: '' @ e)
     | Inr cratePath \<Rightarrow>
         if cratePath = [] then
           cs_error 404 (''no spec registered for '' @ quoted containerName @ '' '' @ em_dash @ '' cannot restart'')
         else if \<not> ch_stat h cratePath then cs_error 410 (''registered .crate path no longer exists: '' @ cratePath)
         else let stop = StopJail (ji_name j) 10 in
           (case ch_stop h (ji_name j) of
              Inl e \<Rightarrow> ([stop], 500, renderErrorJson (''stop phase failed: '' @ e))
            | Inr False \<Rightarrow> ([stop], 500, renderErrorJson ''stop phase returned failure'')
            | Inr True \<Rightarrow>
                if ch_fork h \<noteq> [] then
                  ([stop, SpawnRun cratePath], 500, renderErrorJson (''stopped, but fork for restart failed: '' @ ch_fork h))
                else ([stop, SpawnRun cratePath, RecordOwner (owner_uid peerUid) containerName], 202,
                  status_body ''restarting'' [(''container'', containerName), (''crate_path'', cratePath)])))"

definition rctl_rule :: "string \<Rightarrow> string \<Rightarrow> string \<Rightarrow> string" where
  "rctl_rule jail key val = ''jail:'' @ jail @ '':'' @ key @ '':deny='' @ val"

fun apply_items :: "cs_host \<Rightarrow> string \<Rightarrow> (string \<times> string) list \<Rightarrow> cs_op list \<times> err" where
  "apply_items h jail [] = ([], [])"
| "apply_items h jail ((k, x) # kvs) =
     (if ch_rctl h (rctl_rule jail k x) \<noteq> [] then ([RctlAdd jail k x], ch_rctl h (rctl_rule jail k x))
      else let (ops, e) = apply_items h jail kvs in (RctlAdd jail k x # ops, e))"

definition handlePatch :: "cs_host \<Rightarrow> string \<Rightarrow> string \<Rightarrow> jail_view \<Rightarrow> cs_reply" where
  "handlePatch h name body v = with_jail v name (\<lambda>j.
     case parseResourcesPatch body of
       Inl e \<Rightarrow> cs_error 400 e
     | Inr patch \<Rightarrow>
         let (ops, e) = apply_items h (ji_name j) (patch_items patch) in
         if e \<noteq> [] then (ops, 500, renderErrorJson (''rctl(8) failed: '' @ e))
         else (ops, 200, renderPatchOkJson patch))"

section \<open>A connection\<close>

fun deny_text :: "cs_decision \<Rightarrow> string" where
  "deny_text DenyGidMismatch = ''peer credentials do not match the socket'' @ [CHR 0x27] @ ''s expected group''"
| "deny_text DenyPoolMismatch = ''container is outside the pools served by this socket''"
| "deny_text DenyRoleMismatch = ''this socket has the '' @ quoted ''viewer'' @ '' role; PATCH requires '' @ quoted ''admin''"
| "deny_text DenyUnknownAction = ''unknown route''"
| "deny_text CsAllow = ''denied''"

record cs_env =
  ce_spec :: ControlSocketSpec
  ce_gid :: int
  ce_sep :: char
  ce_peerUid :: int
  ce_peerGid :: int
  ce_now :: int
  ce_gateView :: jail_view
  ce_view :: jail_view
  ce_host :: cs_host

definition bucket_key :: "cs_env \<Rightarrow> action \<Rightarrow> string" where
  "bucket_key e a = ''uid:'' @ dec_int (ce_peerUid e) @ ''|gid:'' @ dec_int (ce_peerGid e) @ ''|'' @ actionLabel a"

definition auth_input :: "cs_env \<Rightarrow> action \<Rightarrow> string \<Rightarrow> AuthorizeInput" where
  "auth_input e a container =
     \<lparr>ai_peerUid = ce_peerUid e, ai_peerGid = ce_peerGid e, ai_expectedGid = ce_gid e, ai_role = cs_role (ce_spec e),
      ai_pools = cs_pools (ce_spec e), ai_action = a, ai_container = container, ai_separator = ce_sep e\<rparr>"

definition jail_hidden :: "cs_env \<Rightarrow> action \<Rightarrow> string \<Rightarrow> bool" where
  "jail_hidden e a container \<longleftrightarrow> a \<noteq> ListContainers \<and> a \<noteq> PostStart \<and>
     (case fst (findContainer (ce_gateView e) container) of
        None \<Rightarrow> False
      | Some j \<Rightarrow> ji_name j \<noteq> container \<and> \<not> poolVisibleOnSocket (inferPool (ji_name j) (ce_sep e)) (cs_pools (ce_spec e)))"

fun cs_dispatch :: "cs_env \<Rightarrow> action \<Rightarrow> string \<Rightarrow> string \<Rightarrow> cs_reply" where
  "cs_dispatch e ListContainers name body = handleList (ce_spec e) (ce_sep e) (ce_view e)"
| "cs_dispatch e GetContainer name body = handleGet name (ce_view e)"
| "cs_dispatch e GetContainerStats name body = handleStats (ce_host e) name (ce_view e)"
| "cs_dispatch e PatchResources name body = handlePatch (ce_host e) name body (ce_view e)"
| "cs_dispatch e PostStop name body = handleStop (ce_host e) name (ce_view e)"
| "cs_dispatch e PostRestart name body = handleRestart (ce_host e) name (ce_peerUid e) (ce_view e)"
| "cs_dispatch e PostStart name body = handleStart (ce_host e) name (ce_peerUid e) (ce_view e)"
| "cs_dispatch e Unknown name body = ([], 500, [])"

text \<open>\<^verbatim>\<open>handleConnection\<close>: the operations it performs, the bytes it writes, and the buckets it leaves.\<close>

definition cs_connection :: "cs_env \<Rightarrow> wire \<Rightarrow> buckets \<Rightarrow> cs_reply \<times> buckets" where
  "cs_connection e w m =
     (case read_request w of
        Inl err \<Rightarrow> (cs_error 400 err, m)
      | Inr (p, body) \<Rightarrow>
          let (a, container) = parseRoute (ph_method p) (ph_path p);
              d = cs_authorize (auth_input e a container) in
          if d \<noteq> CsAllow then (cs_error (httpStatusFor d) (deny_text d), m)
          else let (m', ok) = rate_check (ce_now e) (bucket_key e a) (if actionIsMutating a then kMutating else kRead) m in
            if \<not> ok then (cs_error 429 (''rate limit exceeded; retry in '' @ dec retryAfterSeconds @ ''s''), m')
            else if jail_hidden e a container then (cs_error 403 ''container is outside the pools served by this socket'', m')
            else (cs_dispatch e a container body, m'))"

definition handleConnection :: "cs_env \<Rightarrow> wire \<Rightarrow> buckets \<Rightarrow> (cs_op list \<times> string) \<times> buckets" where
  "handleConnection e w m =
     (case cs_connection e w m of ((ops, status, body), m') \<Rightarrow> ((ops, buildHttpResponse status body), m'))"

section \<open>What an operation requires\<close>

definition pool_served :: "cs_env \<Rightarrow> string \<Rightarrow> bool" where
  "pool_served e name \<longleftrightarrow> poolVisibleOnSocket (inferPool name (ce_sep e)) (cs_pools (ce_spec e))"

definition found_as :: "cs_env \<Rightarrow> string \<Rightarrow> string \<Rightarrow> bool" where
  "found_as e container jail \<longleftrightarrow> (\<exists>j. fst (findContainer (ce_view e) container) = Some j \<and> ji_name j = jail)"

definition registered :: "cs_env \<Rightarrow> string \<Rightarrow> string \<Rightarrow> bool" where
  "registered e name path \<longleftrightarrow>
     spec_lookup (ch_specRead (ce_host e)) name (ch_specFile (ce_host e)) = Inr path \<and> path \<noteq> [] \<and> ch_stat (ce_host e) path"

fun op_allowed :: "cs_env \<Rightarrow> action \<Rightarrow> string \<Rightarrow> cs_op \<Rightarrow> bool" where
  "op_allowed e a c (RctlAdd jail key val) \<longleftrightarrow> a = PatchResources \<and> found_as e c jail \<and> pool_served e jail \<and>
     key \<in> {''pcpu'', ''memoryuse'', ''readbps'', ''writebps''} \<and> val \<noteq> []"
| "op_allowed e a c (StopJail jail timeout) \<longleftrightarrow> a \<in> {PostStop, PostRestart} \<and> found_as e c jail \<and> pool_served e jail \<and>
     (a = PostRestart \<longrightarrow> (\<exists>name path. registered e name path))"
| "op_allowed e a c (SpawnRun path) \<longleftrightarrow>
     (a = PostStart \<and> (\<forall>jail. \<not> found_as e c jail) \<and> registered e (containerNameOf c) path)
     \<or> (a = PostRestart \<and> (\<exists>name. registered e name path))"
| "op_allowed e a c (RecordOwner uid name) \<longleftrightarrow> a \<in> {PostStart, PostRestart} \<and> uid = owner_uid (ce_peerUid e)"

lemma with_jail_ops:
  "op \<in> set (fst (with_jail v name f)) \<Longrightarrow> \<exists>j. fst (findContainer v name) = Some j \<and> op \<in> set (fst (f j))"
  by (auto simp: with_jail_def findNamed_def cs_error_def split: prod.splits option.splits if_splits)

lemma cs_error_ops [simp]: "fst (cs_error s msg) = []"
  by (simp add: cs_error_def)

lemma apply_items_ops: "op \<in> set (fst (apply_items h jail kvs)) \<Longrightarrow> \<exists>k x. op = RctlAdd jail k x \<and> (k, x) \<in> set kvs"
  by (induction h jail kvs rule: apply_items.induct) (auto split: if_splits prod.splits)

lemma patch_items_keys: "(k, x) \<in> set (patch_items p) \<Longrightarrow> k \<in> {''pcpu'', ''memoryuse'', ''readbps'', ''writebps''} \<and> x \<noteq> []"
  by (auto simp: patch_items_def split: if_splits)

lemma handlePatch_ops:
  assumes "op \<in> set (fst (handlePatch h name body v))"
  shows "\<exists>j k x. fst (findContainer v name) = Some j \<and> op = RctlAdd (ji_name j) k x \<and>
    k \<in> {''pcpu'', ''memoryuse'', ''readbps'', ''writebps''} \<and> x \<noteq> []"
proof -
  obtain j where j: "fst (findContainer v name) = Some j"
    and o: "op \<in> set (fst (case parseResourcesPatch body of Inl e \<Rightarrow> cs_error 400 e
     | Inr patch \<Rightarrow> let (ops, e) = apply_items h (ji_name j) (patch_items patch) in
         if e \<noteq> [] then (ops, 500, renderErrorJson (''rctl(8) failed: '' @ e)) else (ops, 200, renderPatchOkJson patch)))"
    using with_jail_ops [OF assms [unfolded handlePatch_def]] by blast
  then have "\<exists>p. op \<in> set (fst (apply_items h (ji_name j) (patch_items p)))"
    by (auto simp: case_prod_beta split: sum.splits if_splits)
  then obtain p where "op \<in> set (fst (apply_items h (ji_name j) (patch_items p)))" ..
  then show ?thesis using apply_items_ops patch_items_keys j by metis
qed

lemma handleStop_ops:
  "op \<in> set (fst (handleStop h name v)) \<Longrightarrow> \<exists>j. fst (findContainer v name) = Some j \<and> op = StopJail (ji_name j) 10"
  unfolding handleStop_def by (drule with_jail_ops) auto

lemma handleStart_ops:
  assumes "op \<in> set (fst (handleStart h name uid v))"
  shows "fst (findContainer v name) = None"
    "\<exists>path. spec_lookup (ch_specRead h) (containerNameOf name) (ch_specFile h) = Inr path \<and> path \<noteq> [] \<and> ch_stat h path \<and>
      (op = SpawnRun path \<or> op = RecordOwner (owner_uid uid) (containerNameOf name))"
  using assms by (auto simp: handleStart_def Let_def split: prod.splits sum.splits if_splits)

lemma handleRestart_ops:
  assumes "op \<in> set (fst (handleRestart h name uid v))"
  shows "\<exists>j n path. fst (findContainer v name) = Some j \<and>
      spec_lookup (ch_specRead h) n (ch_specFile h) = Inr path \<and> path \<noteq> [] \<and> ch_stat h path \<and>
      (op = StopJail (ji_name j) 10 \<or> op = SpawnRun path \<or> op = RecordOwner (owner_uid uid) n)"
proof -
  obtain j where "fst (findContainer v name) = Some j" and
    "op \<in> set (fst (let containerName = containerNameOfJail (ji_name j) (ji_path j) in
     case spec_lookup (ch_specRead h) containerName (ch_specFile h) of
       Inl e \<Rightarrow> cs_error 500 (''spec-registry read failed: '' @ e)
     | Inr cratePath \<Rightarrow>
         if cratePath = [] then
           cs_error 404 (''no spec registered for '' @ quoted containerName @ '' '' @ em_dash @ '' cannot restart'')
         else if \<not> ch_stat h cratePath then cs_error 410 (''registered .crate path no longer exists: '' @ cratePath)
         else let stop = StopJail (ji_name j) 10 in
           (case ch_stop h (ji_name j) of
              Inl e \<Rightarrow> ([stop], 500, renderErrorJson (''stop phase failed: '' @ e))
            | Inr False \<Rightarrow> ([stop], 500, renderErrorJson ''stop phase returned failure'')
            | Inr True \<Rightarrow>
                if ch_fork h \<noteq> [] then
                  ([stop, SpawnRun cratePath], 500, renderErrorJson (''stopped, but fork for restart failed: '' @ ch_fork h))
                else ([stop, SpawnRun cratePath, RecordOwner (owner_uid uid) containerName], 202,
                  status_body ''restarting'' [(''container'', containerName), (''crate_path'', cratePath)]))))"
    using with_jail_ops [OF assms [unfolded handleRestart_def]] by blast
  then show ?thesis by (auto simp: Let_def split: sum.splits if_splits bool.splits)
qed

lemma reads_no_ops: "fst (handleList spec sep v) = []" "fst (handleGet name v) = []" "fst (handleStats h name v) = []"
proof -
  show "fst (handleList spec sep v) = []" by (simp add: handleList_def)
  have "op \<notin> set (fst (handleGet name v))" "op \<notin> set (fst (handleStats h name v))" for op
    using with_jail_ops by (auto simp: handleGet_def handleStats_def dest!: with_jail_ops)
  then show "fst (handleGet name v) = []" "fst (handleStats h name v) = []"
    by (metis list.set_intros(1) neq_Nil_conv)+
qed

text \<open>The jail found is served by the socket when the gate and the handler saw the same jails.\<close>

lemma shown_jail:
  assumes "\<not> jail_hidden e a c" "pool_served e c" "a \<noteq> ListContainers" "a \<noteq> PostStart"
    "ce_gateView e = ce_view e" "fst (findContainer (ce_view e) c) = Some j"
  shows "pool_served e (ji_name j)"
  using assms by (auto simp: jail_hidden_def pool_served_def)

lemma dispatch_allowed:
  assumes "op \<in> set (fst (cs_dispatch e a c body))" "\<not> jail_hidden e a c" "pool_served e c" "ce_gateView e = ce_view e"
  shows "actionIsMutating a \<and> op_allowed e a c op"
proof (cases a)
  case PatchResources
  then show ?thesis
    using assms handlePatch_ops [of op "ce_host e" c body "ce_view e"] shown_jail [OF assms(2,3)]
    by (auto simp: found_as_def)
next
  case PostStop
  then show ?thesis
    using assms handleStop_ops [of op "ce_host e" c "ce_view e"] shown_jail [OF assms(2,3)] by (auto simp: found_as_def)
next
  case PostRestart
  then show ?thesis
    using assms handleRestart_ops [of op "ce_host e" c "ce_peerUid e" "ce_view e"] shown_jail [OF assms(2,3)]
    by (auto simp: found_as_def registered_def [abs_def]) blast+
next
  case PostStart
  then show ?thesis
    using assms handleStart_ops [of op "ce_host e" c "ce_peerUid e" "ce_view e"] by (auto simp: found_as_def registered_def)
qed (use assms(1) reads_no_ops in \<open>auto\<close>)

lemma authorize_allows:
  "cs_authorize i = CsAllow \<longleftrightarrow> ai_action i \<noteq> Unknown \<and> 0 \<le> ai_peerGid i \<and> ai_peerGid i = ai_expectedGid i \<and>
     (actionIsMutating (ai_action i) \<longrightarrow> ai_role i = ''admin'') \<and>
     (ai_action i \<noteq> ListContainers \<longrightarrow> poolVisibleOnSocket (inferPool (ai_container i) (ai_separator i)) (ai_pools i))"
  by (cases "ai_action i") (auto simp: cs_authorize_def per_container_def)


section \<open>A sample socket\<close>

definition sample_jail :: JailInfo where
  "sample_jail = \<lparr>ji_jid = 12, ji_name = ''dev-x_pid7'', ji_path = ''/var/run/crate/jail-dev-x-0a1b2c3d'', ji_hostname = ''x'',
     ji_ip4 = [], ji_dying = False\<rparr>"

definition sample_view :: jail_view where
  "sample_view = \<lparr>jv_byName = (\<lambda>n. if n = ''dev-x_pid7'' then Some sample_jail else None),
     jv_byJid = (\<lambda>i. if i = 12 then Some sample_jail else None), jv_crate = [sample_jail]\<rparr>"

definition sample_host :: cs_host where
  "sample_host = \<lparr>ch_rctl = (\<lambda>_. []), ch_stop = (\<lambda>_. Inr True), ch_usage = (\<lambda>_. None), ch_specRead = [], ch_specFile = None,
     ch_stat = (\<lambda>_. True), ch_fork = []\<rparr>"

definition sample_cs_env :: cs_env where
  "sample_cs_env = \<lparr>ce_spec = \<lparr>cs_path = ''/var/run/crate/control/dev.sock'', cs_group = ''dev'', cs_mode = 432, cs_pools = [''dev''],
       cs_role = ''admin''\<rparr>, ce_gid = 20, ce_sep = CHR ''-'', ce_peerUid = 1001, ce_peerGid = 20, ce_now = 5,
     ce_gateView = sample_view, ce_view = sample_view, ce_host = sample_host\<rparr>"

definition sample_stop :: wire where
  "sample_stop = [''POST /v1/control/containers/dev-x/stop'', '' HTTP/1.1'' @ CRLF @ [CR], [NL]]"

lemma sample_stop_request:
  "read_request sample_stop = Inr (\<lparr>ph_method = ''POST'', ph_path = ''/v1/control/containers/dev-x/stop'', ph_contentLength = 0\<rparr>, [])"
  by (simp add: read_request_def sample_stop_def readUntilNeedle.simps cut_sub.simps starts_with_def needle_def
      CRLF_def CR_def NL_def kMaxHeader_def parseHttpHead_def methodLooksValid_def pathLooksValid_def header_loop.simps)

lemma sample_find: "findContainer sample_view ''dev-x'' = (Some sample_jail, 1)"
  by code_simp


section \<open>Reading does not depend on how the bytes arrive\<close>

lemma starts_with_mono: "starts_with p s \<Longrightarrow> starts_with p (s @ t)"
  by (auto simp: starts_with_iff)

lemma cut_sub_iff_prefix:
  "cut_sub n s = Some (a, b) \<Longrightarrow> s = a @ n @ b"
proof (induction s arbitrary: a)
  case Nil
  then show ?case by (auto simp: cut_sub.simps starts_with_iff split: if_splits)
next
  case (Cons c s)
  show ?case
  proof (cases "starts_with n (c # s)")
    case True
    then show ?thesis using Cons.prems by (auto simp: cut_sub.simps starts_with_iff)
  next
    case False
    then obtain a' where "a = c # a'" "cut_sub n s = Some (a', b)"
      using Cons.prems by (subst (asm) cut_sub.simps) auto
    then show ?thesis using Cons.IH by simp
  qed
qed

lemma cut_sub_append: "cut_sub n s = Some (a, b) \<Longrightarrow> cut_sub n (s @ t) = Some (a, b @ t)"
proof (induction s arbitrary: a)
  case Nil
  then have "n = []" by (auto simp: cut_sub.simps starts_with_def split: if_splits)
  then show ?case using Nil by (simp add: cut_sub.simps starts_with_def)
next
  case (Cons c s)
  show ?case
  proof (cases "starts_with n (c # s)")
    case True
    then have "length n \<le> Suc (length s)" by (auto simp: starts_with_iff) (metis length_Cons length_append le_add1)
    then have "drop (length n) ((c # s) @ t) = drop (length n) (c # s) @ t"
      by (subst drop_append) simp
    moreover have "starts_with n ((c # s) @ t)" by (rule starts_with_mono [OF True])
    ultimately show ?thesis using Cons.prems True by (simp add: cut_sub.simps)
  next
    case False
    then obtain a' where a': "a = c # a'" "cut_sub n s = Some (a', b)"
      using Cons.prems by (subst (asm) cut_sub.simps) auto
    have "\<not> starts_with n (c # s @ t)"
    proof
      assume "starts_with n (c # s @ t)"
      then have "take (length n) (c # s @ t) = n" by (simp add: starts_with_def)
      moreover have "length n \<le> length s" using cut_sub_iff_prefix [OF a'(2)] by simp
      ultimately have "take (length n) (c # s) = n" by (cases "length n") simp_all
      then show False using False by (simp add: starts_with_def)
    qed
    then show ?thesis using Cons.IH [OF a'(2)] a'(1) by (subst cut_sub.simps) simp
  qed
qed

lemma cut_sub_covered:
  assumes "cut_sub n (buf @ t) = Some (h, rest)" "length h + length n \<le> length buf"
  shows "\<exists>c. cut_sub n buf = Some (h, c)"
  using assms
proof (induction buf arbitrary: h)
  case Nil
  then show ?case by (auto simp: cut_sub.simps starts_with_def)
next
  case (Cons c buf)
  show ?case
  proof (cases h)
    case Nil
    then have "n @ rest = (c # buf) @ t" using cut_sub_iff_prefix [OF Cons.prems(1)] by simp
    then have "take (length n) ((c # buf) @ t) = n" by (metis append_eq_conv_conj)
    moreover have "take (length n) ((c # buf) @ t) = take (length n) (c # buf)" using Cons.prems(2) by (subst take_append) simp
    ultimately have "take (length n) (c # buf) = n" by simp
    then have "starts_with n (c # buf)" by (simp add: starts_with_def)
    then show ?thesis using Nil by (simp add: cut_sub.simps)
  next
    case (Cons d h')
    then have ns: "\<not> starts_with n ((c # buf) @ t)" and "cut_sub n (buf @ t) = Some (h', rest)" "d = c"
      using Cons.prems(1) by (auto simp: cut_sub.simps [of n "c # buf @ t"] split: if_splits)
    then obtain c' where "cut_sub n buf = Some (h', c')" using Cons.IH [of h'] Cons.prems(2) Cons by auto
    then show ?thesis using ns starts_with_mono [of n "c # buf" t] Cons \<open>d = c\<close> by (subst cut_sub.simps) auto
  qed
qed

lemma read_some_ready: "w \<noteq> [] \<Longrightarrow> [] \<notin> set w \<Longrightarrow> \<exists>b w'. read_some k w = Some (b, w')"
  by (cases w) auto

lemma readUntilNeedle_found:
  assumes "cut_sub n (buf @ concat w) = Some (h, rest)" "length h + length n \<le> kMaxHeader" "[] \<notin> set w"
  shows "\<exists>blob w' c. readUntilNeedle n buf w = Some (blob, w') \<and> cut_sub n blob = Some (h, c) \<and>
    c @ concat w' = rest \<and> [] \<notin> set w'"
  using assms
proof (induction n buf w rule: readUntilNeedle.induct)
  case (1 n buf w)
  show ?case
  proof (cases "cut_sub n buf")
    case (Some ab)
    then obtain a b where ab: "cut_sub n buf = Some (a, b)" by (cases ab) simp
    then have "a = h" "b @ concat w = rest" using cut_sub_append [OF ab, of "concat w"] 1(2) by simp_all
    then show ?thesis using ab 1(4) by (subst readUntilNeedle.simps) simp
  next
    case None
    then have lt: "length buf < length h + length n" using cut_sub_covered [OF 1(2)] by force
    have "w \<noteq> []" using 1(2) None by auto
    then obtain b w' where rs: "read_some 1024 w = Some (b, w')" using read_some_ready 1(4) by blast
    note bytes = read_some_bytes [OF rs]
    have "\<exists>blob w'' c. readUntilNeedle n (buf @ b) w' = Some (blob, w'') \<and> cut_sub n blob = Some (h, c) \<and>
        c @ concat w'' = rest \<and> [] \<notin> set w''"
      using 1(1) [of "(b, w')" b w'] None lt 1(2-4) rs bytes by simp
    then show ?thesis using None lt 1(3) rs by (subst readUntilNeedle.simps) simp
  qed
qed

lemma readExact_bytes:
  assumes "[] \<notin> set w" "length buf \<le> want"
  shows "readExact want buf w = (if want \<le> length (buf @ concat w) then Some (take want (buf @ concat w)) else None)"
  using assms
proof (induction want buf w rule: readExact.induct)
  case (1 want buf w)
  show ?case
  proof (cases "length buf = want")
    case True
    then show ?thesis by (subst readExact.simps) simp
  next
    case False
    then have lt: "length buf < want" using 1(3) by simp
    show ?thesis
    proof (cases "w = []")
      case True
      then show ?thesis using lt by (subst readExact.simps) simp
    next
      case False
      let ?k = "min 1024 (want - length buf)"
      obtain b w' where rs: "read_some ?k w = Some (b, w')" using read_some_ready False 1(2) by blast
      have k: "0 < ?k" using lt by simp
      note bytes = read_some_bytes [OF rs k]
      have "readExact want buf w = readExact want (buf @ b) w'" using lt rs by (subst readExact.simps) simp
      also have "\<dots> = (if want \<le> length ((buf @ b) @ concat w') then Some (take want ((buf @ b) @ concat w')) else None)"
        by (rule 1(1) [of "(b, w')"]) (use lt rs bytes 1(2) in auto)
      finally show ?thesis using bytes by simp
    qed
  qed
qed

text \<open>What a request is, on the whole stream of bytes.\<close>

definition request_of :: "string \<Rightarrow> (ParsedHttp \<times> string) res" where
  "request_of bytes =
     (case cut_sub needle bytes of
        None \<Rightarrow> Inl ''malformed or oversized request head''
      | Some (h, rest) \<Rightarrow>
        (case parseHttpHead (h @ needle) of
           Inl e \<Rightarrow> Inl (''HTTP parse: '' @ e)
         | Inr p \<Rightarrow>
             if ph_contentLength p \<le> length rest then Inr (p, take (ph_contentLength p) rest)
             else Inl ''body shorter than Content-Length''))"



end
