(* ===== verification/WsFrame.thy ===== *)
theory WsFrame
  imports Prelude
begin

text \<open>
  WebSocket frames, the second half of \<^verbatim>\<open>daemon/ws_pure.cpp\<close>, and the receiving side of the console
  session (\<^verbatim>\<open>runJailSession\<close> of \<^verbatim>\<open>daemon/ws_console.cpp\<close>): bytes from the socket are buffered, cut into
  frames, and their payload goes to the shell. Bytes are 8-bit words. A payload length is a natural
  number: the eight bytes of the long form fill 64 bits exactly and the parser refuses more than
  1 MiB before it computes with the length.
\<close>

unbundle bit_operations_syntax

type_synonym byte = "8 word"
type_synonym bytes = "byte list"

section \<open>Frames\<close>

datatype opcode = Continuation | Text | Binary | Close | Ping | Pong

fun opcode_val :: "opcode \<Rightarrow> byte" where
  "opcode_val Continuation = 0x0"
| "opcode_val Text = 0x1"
| "opcode_val Binary = 0x2"
| "opcode_val Close = 0x8"
| "opcode_val Ping = 0x9"
| "opcode_val Pong = 0xA"

definition opcode_of :: "byte \<Rightarrow> opcode option" where
  "opcode_of op =
     (if op = 0x0 then Some Continuation else if op = 0x1 then Some Text else if op = 0x2 then Some Binary
      else if op = 0x8 then Some Close else if op = 0x9 then Some Ping else if op = 0xA then Some Pong else None)"

record Frame =
  fr_opcode :: opcode
  fr_fin :: bool
  fr_masked :: bool
  fr_payload :: bytes

definition kMaxFramePayload :: nat where "kMaxFramePayload = 1024 * 1024"

text \<open>What a stage of the parser finds: too few bytes yet (0), a protocol error (below 0), or a result.\<close>

datatype 'a stage = Incomplete | ProtocolError | Got 'a

fun stage_bind :: "'a stage \<Rightarrow> ('a \<Rightarrow> 'b stage) \<Rightarrow> 'b stage" where
  "stage_bind Incomplete f = Incomplete"
| "stage_bind ProtocolError f = ProtocolError"
| "stage_bind (Got a) f = f a"

definition be_val :: "bytes \<Rightarrow> nat" where
  "be_val bs = foldl (\<lambda>l b. l * 256 + unat b) 0 bs"

definition frame_head :: "bytes \<Rightarrow> (bool \<times> opcode \<times> bool \<times> nat) stage" where
  "frame_head buf =
     (if length buf < 2 then Incomplete
      else let b0 = buf ! 0; b1 = buf ! 1;
               fin = (b0 AND 0x80 \<noteq> 0); op = b0 AND 0x0F; masked = (b1 AND 0x80 \<noteq> 0); len = unat (b1 AND 0x7F) in
        case opcode_of op of
          None \<Rightarrow> ProtocolError
        | Some oc \<Rightarrow> if op AND 0x8 \<noteq> 0 \<and> (\<not> fin \<or> len > 125) then ProtocolError else Got (fin, oc, masked, len))"

definition frame_length :: "nat \<Rightarrow> bytes \<Rightarrow> (nat \<times> nat) stage" where
  "frame_length len buf =
     (if len = 126 then (if length buf < 2 + 2 then Incomplete else Got (be_val (take 2 (drop 2 buf)), 4))
      else if len = 127 then
        (if length buf < 2 + 8 then Incomplete
         else let l = be_val (take 8 (drop 2 buf)) in if l \<ge> 2 ^ 63 then ProtocolError else Got (l, 10))
      else Got (len, 2))"

definition frame_key :: "bool \<Rightarrow> nat \<Rightarrow> bytes \<Rightarrow> (bytes \<times> nat) stage" where
  "frame_key masked pos buf =
     (if masked then (if length buf < pos + 4 then Incomplete else Got (take 4 (drop pos buf), pos + 4))
      else Got ([0, 0, 0, 0], pos))"

definition apply_mask :: "bytes \<Rightarrow> bytes \<Rightarrow> bytes" where
  "apply_mask key payload = map (\<lambda>k. payload ! k XOR key ! (k mod 4)) [0..<length payload]"

definition parseFrame :: "bytes \<Rightarrow> (nat \<times> Frame) stage" where
  "parseFrame buf =
     stage_bind (frame_head buf) (\<lambda>(fin, oc, masked, len7).
     stage_bind (frame_length len7 buf) (\<lambda>(len, pos0).
     if len > kMaxFramePayload then ProtocolError
     else stage_bind (frame_key masked pos0 buf) (\<lambda>(key, pos).
       if length buf < pos + len then Incomplete
       else let body = take len (drop pos buf) in
         Got (pos + len, \<lparr>fr_opcode = oc, fr_fin = fin, fr_masked = masked,
           fr_payload = (if masked then apply_mask key body else body)\<rparr>))))"

definition be_bytes :: "nat \<Rightarrow> nat \<Rightarrow> bytes" where
  "be_bytes n len = map (\<lambda>k. word_of_nat (len div 256 ^ (n - 1 - k) mod 256)) [0..<n]"

definition mask_key :: "bytes \<Rightarrow> bytes" where
  "mask_key maskKey = map (\<lambda>k. if k < length maskKey then maskKey ! k else 0) [0..<4]"

definition encodeFrame :: "opcode \<Rightarrow> bytes \<Rightarrow> bool \<Rightarrow> bytes \<Rightarrow> bytes" where
  "encodeFrame oc payload msk maskKey =
     (let len = length payload; maskBit = (if msk then 0x80 else 0 :: byte) in
      (0x80 OR opcode_val oc) #
      (if len \<le> 125 then [maskBit OR word_of_nat len]
       else if len \<le> 0xFFFF then (maskBit OR 126) # be_bytes 2 len
       else (maskBit OR 127) # be_bytes 8 len) @
      (if msk then mask_key maskKey @ apply_mask (mask_key maskKey) payload else payload))"

definition encodeCloseFrame :: "16 word \<Rightarrow> bytes \<Rightarrow> bytes" where
  "encodeCloseFrame code reason = encodeFrame Close (ucast (drop_bit 8 code) # ucast code # reason) False []"

section \<open>The receiving side of a session\<close>

datatype session_event = ToShell bytes | Reply bytes

definition frame_event :: "Frame \<Rightarrow> session_event list" where
  "frame_event f = (case fr_opcode f of
      Close \<Rightarrow> [] | Pong \<Rightarrow> []
    | Ping \<Rightarrow> [Reply (encodeFrame Pong (fr_payload f) False [])]
    | Text \<Rightarrow> [ToShell (fr_payload f)] | Binary \<Rightarrow> [ToShell (fr_payload f)] | Continuation \<Rightarrow> [ToShell (fr_payload f)])"

lemma stage_bind_Got: "stage_bind s f = Got b \<longleftrightarrow> (\<exists>a. s = Got a \<and> f a = Got b)"
  by (cases s) auto

lemma parseFrame_consumed: "parseFrame buf = Got (n, f) \<Longrightarrow> 2 \<le> n \<and> n \<le> length buf"
  by (auto simp: parseFrame_def stage_bind_Got Let_def frame_length_def frame_key_def split: if_splits)

text \<open>
  The inner loop: the events, what is left in the buffer, and whether the session ends. After a Close
  frame the loop goes on with the rest of the buffer, as \<^verbatim>\<open>break\<close> leaves only the switch.
\<close>

function drain :: "bool \<Rightarrow> bytes \<Rightarrow> session_event list \<times> bytes \<times> bool" where
  "drain closed buf =
     (if buf = [] then ([], [], closed)
      else case parseFrame buf of
        Incomplete \<Rightarrow> ([], buf, closed)
      | ProtocolError \<Rightarrow> ([], buf, True)
      | Got (n, f) \<Rightarrow>
          (case drain (closed \<or> fr_opcode f = Close) (drop n buf) of (evs, rest, c) \<Rightarrow> (frame_event f @ evs, rest, c)))"
  by pat_completeness auto
termination
  by (relation "measure (\<lambda>(_, buf). length buf)") (auto dest: parseFrame_consumed)

declare drain.simps [simp del]

record session =
  ws_buf :: bytes
  ws_closed :: bool
  ws_events :: "session_event list"

definition ws_recv :: "bytes \<Rightarrow> session \<Rightarrow> session" where
  "ws_recv chunk s =
     (if ws_closed s then s
      else if chunk = [] then s\<lparr>ws_closed := True\<rparr>
      else case drain False (ws_buf s @ chunk) of (evs, rest, c) \<Rightarrow>
        s\<lparr>ws_buf := rest, ws_closed := c, ws_events := ws_events s @ evs\<rparr>)"

definition ws_start :: session where
  "ws_start = \<lparr>ws_buf = [], ws_closed = False, ws_events = []\<rparr>"

section \<open>More bytes never change a verdict\<close>

lemma frame_head_mono: "frame_head buf \<noteq> Incomplete \<Longrightarrow> frame_head (buf @ r) = frame_head buf"
  by (auto simp: frame_head_def nth_append Let_def split: if_splits)

lemma frame_length_mono: "frame_length n buf \<noteq> Incomplete \<Longrightarrow> frame_length n (buf @ r) = frame_length n buf"
  by (auto simp: frame_length_def split: if_splits)

lemma frame_key_mono: "frame_key m p buf \<noteq> Incomplete \<Longrightarrow> frame_key m p (buf @ r) = frame_key m p buf"
  by (auto simp: frame_key_def split: if_splits)

lemma parseFrame_mono:
  assumes "parseFrame buf \<noteq> Incomplete"
  shows "parseFrame (buf @ r) = parseFrame buf"
proof -
  have h: "frame_head (buf @ r) = frame_head buf"
    using assms by (intro frame_head_mono) (auto simp: parseFrame_def)
  show ?thesis
  proof (cases "frame_head buf")
    case (Got a)
    obtain fin oc m l7 where a: "a = (fin, oc, m, l7)" by (cases a)
    have l: "frame_length l7 (buf @ r) = frame_length l7 buf"
      using assms Got a by (intro frame_length_mono) (auto simp: parseFrame_def)
    show ?thesis
    proof (cases "frame_length l7 buf")
      case L: (Got b)
      obtain len p0 where b: "b = (len, p0)" by (cases b)
      show ?thesis
      proof (cases "len > kMaxFramePayload")
        case True
        then show ?thesis using h l Got L a b by (simp add: parseFrame_def)
      next
        case False
        have k: "frame_key m p0 (buf @ r) = frame_key m p0 buf"
          using assms Got a L b False by (intro frame_key_mono) (auto simp: parseFrame_def)
        then show ?thesis using assms h l Got L a b False
          by (cases "frame_key m p0 buf") (auto simp: parseFrame_def split: if_splits)
      qed
    qed (use h l Got a in \<open>simp_all add: parseFrame_def\<close>)
  qed (use h in \<open>simp_all add: parseFrame_def\<close>)
qed

section \<open>Frames read back\<close>

lemma low7:
  fixes w :: byte
  assumes "w < 128"
  shows "w AND 0x7F = w" "w AND 0x80 = 0" "(0x80 OR w) AND 0x7F = w" "(0x80 OR w) AND 0x80 \<noteq> 0"
proof -
  have "unat w < 2 ^ 7" using assms by (simp add: word_less_nat_alt)
  then have "take_bit 7 (unat w) = unat w" by (simp add: take_bit_nat_eq_self_iff)
  then have "unat (take_bit 7 w) = unat w" by (simp add: unsigned_take_bit_eq)
  then have "take_bit 7 w = w" by (rule unsigned_word_eqI)
  moreover have "(Bit_Operations.mask 7 :: byte) = 0x7F" by (simp add: mask_eq_exp_minus_1)
  ultimately show a: "w AND 0x7F = w" by (simp add: take_bit_eq_mask)
  have "w AND 0x80 = (w AND 0x7F) AND 0x80" by (simp add: a)
  then show b: "w AND 0x80 = 0" by (simp add: and.assoc)
  show "(0x80 OR w) AND 0x7F = w" "(0x80 OR w) AND 0x80 \<noteq> 0" by (simp_all add: bit.conj_disj_distrib2 a b)
qed

lemma be_bytes_Suc: "be_bytes (Suc n) len = be_bytes n (len div 256) @ [word_of_nat (len mod 256)]"
proof -
  have "len div 256 ^ (n - k) = len div 256 div 256 ^ (n - Suc k)" if "k < n" for k
    using that by (metis Suc_diff_Suc div_mult2_eq power_Suc)
  then show ?thesis by (simp add: be_bytes_def)
qed

lemma be_val_snoc: "be_val (xs @ [b]) = be_val xs * 256 + unat b"
  by (simp add: be_val_def)

lemma be_val_bytes: "len < 256 ^ n \<Longrightarrow> be_val (be_bytes n len) = len"
proof (induction n arbitrary: len)
  case 0
  then show ?case by (simp add: be_bytes_def be_val_def)
next
  case (Suc n)
  have "len div 256 < 256 ^ n" using Suc.prems by (simp add: less_mult_imp_div_less mult.commute)
  then show ?case using Suc.IH by (simp add: be_bytes_Suc be_val_snoc unat_of_nat)
qed

lemma length_be_bytes [simp]: "length (be_bytes n len) = n"
  by (simp add: be_bytes_def)

lemma length_apply_mask [simp]: "length (apply_mask key p) = length p"
  by (simp add: apply_mask_def)

lemma apply_mask_twice: "apply_mask key (apply_mask key p) = p"
  by (rule nth_equalityI) (simp_all add: apply_mask_def xor.assoc)

lemma length_mask_key [simp]: "length (mask_key k) = 4"
  by (simp add: mask_key_def)

definition encodable :: "opcode \<Rightarrow> bytes \<Rightarrow> bool" where
  "encodable oc p \<longleftrightarrow> length p \<le> kMaxFramePayload \<and> (oc \<in> {Close, Ping, Pong} \<longrightarrow> length p \<le> 125)"

definition len_bytes :: "nat \<Rightarrow> bytes" where
  "len_bytes len = (if len \<le> 125 then [] else if len \<le> 0xFFFF then be_bytes 2 len else be_bytes 8 len)"

definition len7 :: "nat \<Rightarrow> nat" where
  "len7 len = (if len \<le> 125 then len else if len \<le> 0xFFFF then 126 else 127)"

definition body_bytes :: "bool \<Rightarrow> bytes \<Rightarrow> bytes \<Rightarrow> bytes" where
  "body_bytes msk k p = (if msk then mask_key k @ apply_mask (mask_key k) p else p)"

lemma encode_shape:
  "encodeFrame oc p msk k = (0x80 OR opcode_val oc) # ((if msk then 0x80 else 0) OR word_of_nat (len7 (length p))) #
    len_bytes (length p) @ body_bytes msk k p"
  by (simp add: encodeFrame_def len_bytes_def len7_def body_bytes_def Let_def)

lemma frame_head_encoded:
  assumes "encodable oc p"
  shows "frame_head (encodeFrame oc p msk k @ r) = Got (True, oc, msk, len7 (length p))"
proof -
  have l: "len7 (length p) < 128" by (simp add: len7_def)
  have w: "(word_of_nat (len7 (length p)) :: byte) < 128"
    using l by (simp add: word_less_nat_alt unat_of_nat take_bit_nat_eq_self)
  have u: "unat (word_of_nat (len7 (length p)) :: byte) = len7 (length p)"
    using l by (simp add: unat_of_nat)
  have c: "len7 (length p) \<le> 125" if "oc \<in> {Close, Ping, Pong}" using assms that by (auto simp: encodable_def len7_def)
  have b1: "(((if msk then 0x80 else 0) OR word_of_nat (len7 (length p)) :: byte) AND 0x80 \<noteq> 0) = msk"
    "((if msk then 0x80 else 0) OR word_of_nat (len7 (length p)) :: byte) AND 0x7F = word_of_nat (len7 (length p))"
    using low7 [OF w] by (cases msk; simp)+
  have oc: "(0x80 OR opcode_val oc) AND 0x80 \<noteq> 0" "opcode_of ((0x80 OR opcode_val oc) AND 0x0F) = Some oc"
    "((0x80 OR opcode_val oc) AND 0x0F) AND 0x8 \<noteq> 0 \<longleftrightarrow> oc \<in> {Close, Ping, Pong}"
    by (cases oc; simp add: opcode_of_def)+
  show ?thesis
    unfolding frame_head_def encode_shape using oc b1 u c by (auto simp: Let_def)
qed

lemma frame_length_encoded:
  assumes "encodable oc p"
  shows "frame_length (len7 (length p)) (encodeFrame oc p msk k @ r) = Got (length p, 2 + length (len_bytes (length p)))"
proof -
  have "length p < 2 ^ 63" "length p < 256 ^ 8" using assms by (simp_all add: encodable_def kMaxFramePayload_def)
  moreover have "length p \<le> 0xFFFF \<Longrightarrow> length p < 256 ^ 2" by simp
  ultimately show ?thesis
    unfolding frame_length_def encode_shape by (auto simp: len7_def len_bytes_def be_val_bytes simp del: power_numeral)
qed

lemma parse_encoded:
  assumes "encodable oc p"
  shows "parseFrame (encodeFrame oc p msk k @ r) =
    Got (length (encodeFrame oc p msk k), \<lparr>fr_opcode = oc, fr_fin = True, fr_masked = msk, fr_payload = p\<rparr>)"
proof -
  let ?pre = "(0x80 OR opcode_val oc) # ((if msk then 0x80 else 0) OR word_of_nat (len7 (length p))) # len_bytes (length p)"
  have e: "encodeFrame oc p msk k = ?pre @ body_bytes msk k p" by (simp add: encode_shape)
  have n: "length ?pre = 2 + length (len_bytes (length p))" by simp
  have key: "frame_key msk (2 + length (len_bytes (length p))) (encodeFrame oc p msk k @ r) =
      Got (if msk then mask_key k else [0, 0, 0, 0], 2 + length (len_bytes (length p)) + (if msk then 4 else 0))"
    unfolding e n [symmetric] by (simp add: frame_key_def body_bytes_def)
  have body: "take (length p) (drop (2 + length (len_bytes (length p)) + (if msk then 4 else 0)) (encodeFrame oc p msk k @ r)) =
      (if msk then apply_mask (mask_key k) p else p)"
    unfolding e n [symmetric] by (simp add: body_bytes_def)
  have len: "length (encodeFrame oc p msk k) = 2 + length (len_bytes (length p)) + (if msk then 4 else 0) + length p"
    unfolding e by (simp add: body_bytes_def)
  have "\<not> length p > kMaxFramePayload" using assms by (simp add: encodable_def)
  then show ?thesis
    unfolding parseFrame_def frame_head_encoded [OF assms] stage_bind.simps prod.case frame_length_encoded [OF assms] key
    using body len by (simp add: Let_def apply_mask_twice)
qed

lemma prefix_incomplete:
  assumes "encodable oc p" "n < length (encodeFrame oc p msk k)"
  shows "parseFrame (take n (encodeFrame oc p msk k)) = Incomplete"
proof (rule ccontr)
  let ?e = "encodeFrame oc p msk k"
  assume a: "parseFrame (take n ?e) \<noteq> Incomplete"
  have "parseFrame (take n ?e) = parseFrame ?e" using parseFrame_mono [OF a, of "drop n ?e"] by simp
  then have "parseFrame (take n ?e) = Got (length ?e, \<lparr>fr_opcode = oc, fr_fin = True, fr_masked = msk, fr_payload = p\<rparr>)"
    using parse_encoded [OF assms(1), of msk k "[]"] by simp
  then show False using parseFrame_consumed assms(2) by fastforce
qed

section \<open>A session delivers what the client sent\<close>

text \<open>A message of the client: an opcode, a payload, and the four bytes it is masked with.\<close>

type_synonym message = "opcode \<times> bytes \<times> bytes"

definition wire_of :: "message \<Rightarrow> bytes" where
  "wire_of m = (case m of (oc, p, key) \<Rightarrow> encodeFrame oc p True key)"

definition message_ok :: "message \<Rightarrow> bool" where
  "message_ok m \<longleftrightarrow> (case m of (oc, p, _) \<Rightarrow> encodable oc p \<and> oc \<noteq> Close)"

definition message_event :: "message \<Rightarrow> session_event list" where
  "message_event m = (case m of (oc, p, _) \<Rightarrow>
     frame_event \<lparr>fr_opcode = oc, fr_fin = True, fr_masked = True, fr_payload = p\<rparr>)"

lemma parse_message:
  "message_ok m \<Longrightarrow> \<exists>f. parseFrame (wire_of m @ r) = Got (length (wire_of m), f) \<and> frame_event f = message_event m \<and> fr_opcode f \<noteq> Close"
  by (cases m) (simp add: wire_of_def message_ok_def message_event_def parse_encoded)

lemma wire_nonempty [simp]: "wire_of m \<noteq> []"
  by (cases m) (simp add: wire_of_def encode_shape)

lemma partial_message: "message_ok m \<Longrightarrow> n < length (wire_of m) \<Longrightarrow> parseFrame (take n (wire_of m)) = Incomplete"
  by (cases m) (simp add: wire_of_def message_ok_def prefix_incomplete)

definition drained :: "bytes \<Rightarrow> bool" where
  "drained buf \<longleftrightarrow> buf = [] \<or> parseFrame buf = Incomplete"

lemma drain_messages:
  assumes "list_all message_ok ms" "buf @ rest = concat (map wire_of ms)"
  shows "\<exists>ms1 ms2 buf'. ms = ms1 @ ms2 \<and> drain False buf = (concat (map message_event ms1), buf', False) \<and>
    buf' @ rest = concat (map wire_of ms2) \<and> drained buf'"
  using assms
proof (induction ms arbitrary: buf)
  case Nil
  then show ?case by (intro exI [of _ "[]"]) (simp add: drain.simps drained_def)
next
  case (Cons m ms)
  show ?case
  proof (cases "length (wire_of m) \<le> length buf")
    case True
    then obtain b where b: "buf = wire_of m @ b" "b @ rest = concat (map wire_of ms)"
      using Cons.prems(2) by (auto simp: append_eq_append_conv_if append_eq_conv_conj)
        (metis append_take_drop_id append_eq_conv_conj)
    obtain ms1 ms2 buf' where IH: "ms = ms1 @ ms2" "drain False b = (concat (map message_event ms1), buf', False)"
      "buf' @ rest = concat (map wire_of ms2)" "drained buf'" using Cons.IH [OF _ b(2)] Cons.prems(1) by auto
    obtain f where f: "parseFrame buf = Got (length (wire_of m), f)" "frame_event f = message_event m" "fr_opcode f \<noteq> Close"
      using parse_message [of m b] Cons.prems(1) b(1) by auto
    have "drain False buf = (message_event m @ concat (map message_event ms1), buf', False)"
      using f IH(2) b(1) by (subst drain.simps) simp
    then show ?thesis using IH by (intro exI [of _ "m # ms1"] exI [of _ ms2] exI [of _ buf']) simp
  next
    case False
    then have "buf = take (length buf) (wire_of m)" using Cons.prems(2)
      by (metis append_eq_append_conv_if concat.simps(2) list.map(2) nat_le_linear)
    then have d: "buf = [] \<or> parseFrame buf = Incomplete"
      using partial_message [of m "length buf"] Cons.prems(1) False by auto
    then have "drain False buf = ([], buf, False)" by (subst drain.simps) auto
    then show ?thesis using Cons.prems(2) d by (intro exI [of _ "[]"] exI [of _ "m # ms"] exI [of _ buf]) (simp add: drained_def)
  qed
qed

lemma recv_messages:
  assumes "list_all message_ok ms" "ws_buf s @ concat chunks = concat (map wire_of ms)" "[] \<notin> set chunks"
    "drained (ws_buf s)" "\<not> ws_closed s"
  shows "fold ws_recv chunks s = \<lparr>ws_buf = [], ws_closed = False, ws_events = ws_events s @ concat (map message_event ms)\<rparr>"
  using assms
proof (induction chunks arbitrary: s ms)
  case Nil
  have "ms = []"
  proof (rule ccontr)
    assume "ms \<noteq> []"
    then obtain m ms' where m: "ms = m # ms'" by (cases ms) auto
    then have "ws_buf s = wire_of m @ concat (map wire_of ms')" using Nil.prems(2) by simp
    then show False using parse_message [of m "concat (map wire_of ms')"] Nil.prems(1,4) m by (auto simp: drained_def)
  qed
  then show ?case using Nil.prems by simp
next
  case (Cons c cs)
  have "(ws_buf s @ c) @ concat cs = concat (map wire_of ms)" using Cons.prems(2) by simp
  from drain_messages [OF Cons.prems(1) this] obtain ms1 ms2 buf' where D: "ms = ms1 @ ms2"
    "drain False (ws_buf s @ c) = (concat (map message_event ms1), buf', False)"
    "buf' @ concat cs = concat (map wire_of ms2)" "drained buf'" by blast
  let ?s' = "s\<lparr>ws_buf := buf', ws_closed := False, ws_events := ws_events s @ concat (map message_event ms1)\<rparr>"
  have "ws_recv c s = ?s'" using D(2) Cons.prems(3,5) by (auto simp: ws_recv_def)
  moreover have "fold ws_recv cs ?s' = \<lparr>ws_buf = [], ws_closed = False,
      ws_events = ws_events ?s' @ concat (map message_event ms2)\<rparr>"
    by (rule Cons.IH) (use Cons.prems D in simp_all)
  ultimately show ?case using D(1) by simp
qed

text \<open>
  C23. A console session delivers exactly what the client sent. Whatever sequence of text, binary,
  continuation, ping and pong messages a client sends, each masked with its own key, and however
  the network cuts the stream into reads, the session stays open, writes the payloads of the data
  messages to the shell in order and unmasked, answers every ping with a pong of the same payload,
  and has nothing left in its buffer.
\<close>

theorem console_stream_faithful:
  assumes "list_all message_ok ms" "concat chunks = concat (map wire_of ms)" "[] \<notin> set chunks"
  shows "fold ws_recv chunks ws_start = \<lparr>ws_buf = [], ws_closed = False, ws_events = concat (map message_event ms)\<rparr>"
  using recv_messages [of ms ws_start chunks] assms by (simp add: ws_start_def drained_def)

theorem console_stream_faithful_witness:
  "ws_events (fold ws_recv [[0x81, 0x82, 1, 2], [3, 4, 0x69], [0x71, 0x89, 0x80, 0, 0, 0, 0]] ws_start) =
     [ToShell [0x68, 0x73], Reply [0x8A, 0]]"
proof -
  let ?ms = "[(Text, [0x68, 0x73], [1, 2, 3, 4]), (Ping, [], [0, 0, 0, 0])] :: message list"
  have "list_all message_ok ?ms" by (simp add: message_ok_def encodable_def kMaxFramePayload_def)
  moreover have "concat (map wire_of ?ms) = [0x81, 0x82, 1, 2, 3, 4, 0x69, 0x71, 0x89, 0x80, 0, 0, 0, 0]"
    by (simp add: wire_of_def encodeFrame_def mask_key_def apply_mask_def upt_conv_Cons Let_def)
  moreover have "concat (map message_event ?ms) = [ToShell [0x68, 0x73], Reply [0x8A, 0]]"
    by (simp add: message_event_def frame_event_def encodeFrame_def)
  ultimately show ?thesis
    using console_stream_faithful [of ?ms "[[0x81, 0x82, 1, 2], [3, 4, 0x69], [0x71, 0x89, 0x80, 0, 0, 0, 0]]"] by simp
qed

end
