(* ===== verification/Auth.thy ===== *)
theory Auth
  imports ControlSocket SnapshotName WsFrame
begin

text \<open>
  Bearer tokens of the network API, \<^verbatim>\<open>lib/auth_pure.cpp\<close> and \<^verbatim>\<open>daemon/auth.cpp\<close>, and the entry of the
  web console, \<^verbatim>\<open>handleClient\<close> of \<^verbatim>\<open>daemon/ws_console.cpp\<close> with the handshake of \<^verbatim>\<open>daemon/ws_pure.cpp\<close>.
  The SHA-256 of OpenSSL is a function argument, as it is in the code; so are the time and what libjail answers.
  The two regular expressions of the console are written out as the scans they denote.
\<close>

section \<open>Tokens\<close>

record AuthToken =
  at_name :: string
  at_tokenHash :: string
  at_role :: string
  at_expiresAt :: int
  at_scope :: "string list"
  at_pools :: "string list"

definition parseBearerToken :: "string \<Rightarrow> string" where
  "parseBearerToken authHeader =
     (let prefix = ''Bearer '' in
      if length authHeader \<le> length prefix \<or> \<not> starts_with prefix authHeader then [] else drop (length prefix) authHeader)"

definition role_ok :: "string \<Rightarrow> AuthToken \<Rightarrow> bool" where
  "role_ok requiredRole t = (if requiredRole = ''viewer'' then True else at_role t = requiredRole \<or> at_role t = ''admin'')"

fun checkTokenRole :: "string \<Rightarrow> AuthToken list \<Rightarrow> string \<Rightarrow> bool" where
  "checkTokenRole h [] requiredRole = False"
| "checkTokenRole h (t # ts) requiredRole = (if at_tokenHash t = h then role_ok requiredRole t else checkTokenRole h ts requiredRole)"

definition checkBearerAuth :: "(string \<Rightarrow> string) \<Rightarrow> string \<Rightarrow> AuthToken list \<Rightarrow> string \<Rightarrow> bool" where
  "checkBearerAuth sha authHeader tokens requiredRole =
     (let token = parseBearerToken authHeader in
      if token = [] then False else checkTokenRole (sha token) tokens requiredRole)"

text \<open>\<^verbatim>\<open>timegm\<close> is the calendar of \<^verbatim>\<open>civilToEpoch\<close>, which on integers also covers years before 1970.\<close>

definition parseIso8601Utc :: "string \<Rightarrow> int" where
  "parseIso8601Utc s =
     (if length s < 20 then -1
      else if s ! 4 \<noteq> CHR ''-'' \<or> s ! 7 \<noteq> CHR ''-'' \<or> s ! 10 \<noteq> CHR ''T'' \<or> s ! 13 \<noteq> CHR '':'' \<or> s ! 16 \<noteq> CHR '':'' then -1
      else if \<not> list_all (\<lambda>i. is_digit (s ! i)) [0, 1, 2, 3, 5, 6, 8, 9, 11, 12, 14, 15, 17, 18] then -1
      else let num = (\<lambda>from len. int (dec_val (field_num s from len)));
               m = num 5 2; d = num 8 2; hh = num 11 2; mi = num 14 2; ss = num 17 2 in
        if m < 1 \<or> m > 12 \<or> d < 1 \<or> d > 31 \<or> hh > 23 \<or> mi > 59 \<or> ss > 60 then -1
        else if drop 19 s \<noteq> ''Z'' \<and> drop 19 s \<noteq> ''+00:00'' \<and> drop 19 s \<noteq> ''-00:00'' then -1
        else civilToEpoch (num 0 4) m d hh mi ss)"

definition isExpired :: "AuthToken \<Rightarrow> int \<Rightarrow> bool" where
  "isExpired t now = (if at_expiresAt t = 0 then False else now > at_expiresAt t)"

definition scope_match :: "string \<Rightarrow> string \<Rightarrow> bool" where
  "scope_match p path =
     (if p = [] then False
      else if length p \<ge> 2 \<and> ends_with ''/*'' p then
        let prefix = butlast p in length path > length prefix \<and> starts_with prefix path
      else path = p)"

definition pathInScope :: "string list \<Rightarrow> string \<Rightarrow> bool" where
  "pathInScope scope path = (scope = [] \<or> list_ex (\<lambda>p. scope_match p path) scope)"

fun token_scan :: "string \<Rightarrow> string \<Rightarrow> string \<Rightarrow> int \<Rightarrow> AuthToken list \<Rightarrow> bool" where
  "token_scan h requiredRole path now [] = False"
| "token_scan h requiredRole path now (t # ts) =
     (if at_tokenHash t \<noteq> h then token_scan h requiredRole path now ts
      else if isExpired t now then False
      else if \<not> pathInScope (at_scope t) path then False
      else role_ok requiredRole t)"

definition checkBearerAuthFull :: "(string \<Rightarrow> string) \<Rightarrow> string \<Rightarrow> AuthToken list \<Rightarrow> string \<Rightarrow> string \<Rightarrow> int \<Rightarrow> bool" where
  "checkBearerAuthFull sha authHeader tokens requiredRole path now =
     (let token = parseBearerToken authHeader in
      if token = [] then False else token_scan (sha token) requiredRole path now tokens)"

section \<open>The HTTP routes\<close>

text \<open>
  A request as the gate sees it. \<^verbatim>\<open>X-Crated-Listener\<close> is stamped by the server after it erased
  what the client sent, so whether the peer came over the unix socket is a field of its own.
\<close>

record http_request =
  hr_unixPeer :: bool
  hr_authorization :: string
  hr_path :: string

record auth_config =
  ac_tokens :: "AuthToken list"
  ac_separator :: char

definition isAuthorized :: "(string \<Rightarrow> string) \<Rightarrow> http_request \<Rightarrow> auth_config \<Rightarrow> string \<Rightarrow> int \<Rightarrow> bool" where
  "isAuthorized sha req config requiredRole now =
     (hr_unixPeer req \<or> checkBearerAuthFull sha (hr_authorization req) (ac_tokens config) requiredRole (hr_path req) now)"

fun pool_scan :: "string \<Rightarrow> string \<Rightarrow> AuthToken list \<Rightarrow> bool" where
  "pool_scan h pool [] = False"
| "pool_scan h pool (t # ts) = (if at_tokenHash t \<noteq> h then pool_scan h pool ts else tokenAllowsContainer (at_pools t) pool)"

definition isAuthorizedForContainer :: "(string \<Rightarrow> string) \<Rightarrow> http_request \<Rightarrow> auth_config \<Rightarrow> string \<Rightarrow> string \<Rightarrow> int \<Rightarrow> bool" where
  "isAuthorizedForContainer sha req config requiredRole containerName now =
     (if \<not> isAuthorized sha req config requiredRole now then False
      else if hr_unixPeer req then True
      else let rawToken = parseBearerToken (hr_authorization req) in
        if rawToken = [] then False
        else pool_scan (sha rawToken) (inferPool containerName (ac_separator config)) (ac_tokens config))"

section \<open>The console handshake\<close>

definition ws_trim :: "string \<Rightarrow> string" where
  "ws_trim s = (let sp = (\<lambda>c. c \<in> {CHR '' '', CHR 0x09, CHR 0x0D, CHR 0x0A}) in rev (dropWhile sp (rev (dropWhile sp s))))"

text \<open>\<^verbatim>\<open>std::stoi\<close>: white space, a sign, digits; what follows is ignored; \<^term>\<open>None\<close> is the exception.\<close>

definition stoi :: "string \<Rightarrow> int option" where
  "stoi s =
     (let t = dropWhile is_space s;
          (neg, u) = (case t of c # r \<Rightarrow> if c = CHR ''-'' then (True, r) else if c = CHR ''+'' then (False, r) else (False, t) | [] \<Rightarrow> (False, []));
          ds = takeWhile is_digit u;
          v = (if neg then - int (dec_val ds) else int (dec_val ds)) in
      if ds = [] \<or> v < - (2 ^ 31) \<or> v > 2 ^ 31 - 1 then None else Some v)"

record Handshake =
  hs_clientKey :: string
  hs_version :: int
  hs_upgrade :: bool
  hs_connection :: bool

definition handshake_line :: "string \<Rightarrow> Handshake \<Rightarrow> Handshake" where
  "handshake_line line r =
     (case cut_at (CHR '':'') line of
        None \<Rightarrow> r
      | Some (n, v) \<Rightarrow>
          let lname = map to_lower (ws_trim n); val = ws_trim v in
          if lname = ''upgrade'' then (if map to_lower val = ''websocket'' then r\<lparr>hs_upgrade := True\<rparr> else r)
          else if lname = ''connection'' then (if after_first ''upgrade'' (map to_lower val) \<noteq> None then r\<lparr>hs_connection := True\<rparr> else r)
          else if lname = ''sec-websocket-key'' then r\<lparr>hs_clientKey := val\<rparr>
          else if lname = ''sec-websocket-version'' then r\<lparr>hs_version := (case stoi val of None \<Rightarrow> 0 | Some n \<Rightarrow> n)\<rparr>
          else r)"

function handshake_lines :: "string \<Rightarrow> Handshake \<Rightarrow> Handshake" where
  "handshake_lines s r =
     (case cut_crlf s of
        None \<Rightarrow> r
      | Some (line, rest) \<Rightarrow> if line = [] then r else handshake_lines rest (handshake_line line r))"
  by pat_completeness auto
termination
  by (relation "measure (\<lambda>(s, _). length s)") (auto dest: cut_crlf_shorter)

declare handshake_lines.simps [simp del]

text \<open>The request target and the client key, or the reason of the rejection.\<close>

definition parseHandshakeRequest :: "string \<Rightarrow> (string \<times> string) res" where
  "parseHandshakeRequest raw =
     (case cut_crlf raw of
        None \<Rightarrow> Inl ''missing CRLF after request line''
      | Some (firstLine, rest) \<Rightarrow>
        (case cut_at (CHR '' '') firstLine of
           None \<Rightarrow> Inl ''malformed request line''
         | Some (method, l2) \<Rightarrow>
           (case cut_at (CHR '' '') l2 of
              None \<Rightarrow> Inl ''malformed request line''
            | Some (path, _) \<Rightarrow>
                if map to_lower method \<noteq> ''get'' then Inl ''method must be GET''
                else let r = handshake_lines rest \<lparr>hs_clientKey = [], hs_version = 0, hs_upgrade = False, hs_connection = False\<rparr> in
                  if \<not> hs_upgrade r then Inl (''missing '' @ quoted ''Upgrade: websocket'' @ '' header'')
                  else if \<not> hs_connection r then Inl (''missing '' @ quoted ''Connection: Upgrade'' @ '' header'')
                  else if hs_clientKey r = [] then Inl ''missing Sec-WebSocket-Key header''
                  else if hs_version r \<noteq> 13 then Inl ''unsupported Sec-WebSocket-Version''
                  else Inr (path, hs_clientKey r))))"

text \<open>
  \<^verbatim>\<open>(?:^|\r\n)[Aa]...[Nn]\s*:\s*([^\r\n]*)\<close>, searched from the left: the header name at the start of the
  text or after a line break.
\<close>

definition auth_match :: "string \<Rightarrow> string option" where
  "auth_match s =
     (if map to_lower (take 13 s) \<noteq> ''authorization'' then None
      else case dropWhile is_space (drop 13 s) of
        [] \<Rightarrow> None
      | c # r \<Rightarrow> if c = CHR '':'' then Some (takeWhile (\<lambda>c. c \<noteq> CR \<and> c \<noteq> NL) (dropWhile is_space r)) else None)"

fun auth_search :: "string \<Rightarrow> string option" where
  "auth_search (c # d # s) =
     (if c = CR \<and> d = NL \<and> auth_match s \<noteq> None then auth_match s else auth_search (d # s))"
| "auth_search s = None"

definition extractAuthHeader :: "string \<Rightarrow> string" where
  "extractAuthHeader raw = (case (if auth_match raw \<noteq> None then auth_match raw else auth_search raw) of None \<Rightarrow> [] | Some v \<Rightarrow> v)"

definition containers_prefix :: string where
  "containers_prefix = ''/api/v1/containers/''"

definition extractJailName :: "string \<Rightarrow> string" where
  "extractJailName path =
     (if \<not> starts_with containers_prefix path then []
      else let r = drop (length containers_prefix) path; name = takeWhile name_char3 r; after = drop (length name) r in
        if name \<noteq> [] \<and> (after = ''/console'' \<or> after = ''/console/'') then name else [])"

datatype console_result = ConsoleRejected string | ConsoleSession string int

definition handleClient :: "(string \<Rightarrow> string) \<Rightarrow> auth_config \<Rightarrow> int \<Rightarrow> (string \<Rightarrow> JailInfo option) \<Rightarrow> string \<Rightarrow> console_result" where
  "handleClient sha config now byName raw =
     (case parseHandshakeRequest raw of
        Inl reason \<Rightarrow> ConsoleRejected reason
      | Inr (path, key) \<Rightarrow>
          let authHeader = extractAuthHeader raw in
          if \<not> checkBearerAuthFull sha authHeader (ac_tokens config) ''admin'' path now then ConsoleRejected ''authentication required''
          else let jailName = extractJailName path in
            if jailName = [] then ConsoleRejected ''expected /api/v1/containers/<name>/console''
            else if \<not> pool_scan (sha (parseBearerToken authHeader)) (inferPool jailName (ac_separator config)) (ac_tokens config)
            then ConsoleRejected (''token not allowed for this container'' @ [CHR 0x27] @ ''s pool'')
            else case byName jailName of
              None \<Rightarrow> ConsoleRejected ''container not found''
            | Some j \<Rightarrow> ConsoleSession key (ji_jid j))"

section \<open>One token decides\<close>

text \<open>The entry a presented token stands for: the first with its hash.\<close>

definition token_entry :: "(string \<Rightarrow> string) \<Rightarrow> string \<Rightarrow> AuthToken list \<Rightarrow> AuthToken option" where
  "token_entry sha authHeader tokens =
     (let token = parseBearerToken authHeader in
      if token = [] then None else List.find (\<lambda>t. at_tokenHash t = sha token) tokens)"

definition grants :: "AuthToken \<Rightarrow> string \<Rightarrow> string \<Rightarrow> int \<Rightarrow> bool" where
  "grants t requiredRole path now \<longleftrightarrow>
     (at_expiresAt t = 0 \<or> now \<le> at_expiresAt t) \<and>
     (at_scope t = [] \<or> (\<exists>p \<in> set (at_scope t). p \<noteq> [] \<and>
        (if \<exists>q. p = q @ ''/*'' then \<exists>r. r \<noteq> [] \<and> path = butlast p @ r else path = p))) \<and>
     (requiredRole = ''viewer'' \<or> at_role t = requiredRole \<or> at_role t = ''admin'')"

definition reaches :: "AuthToken \<Rightarrow> string \<Rightarrow> bool" where
  "reaches t pool \<longleftrightarrow> at_pools t = [] \<or> ''*'' \<in> set (at_pools t) \<or> (pool \<noteq> [] \<and> pool \<in> set (at_pools t))"

lemma ends_with_iff: "ends_with suf s \<longleftrightarrow> (\<exists>q. s = q @ suf)"
proof
  assume "ends_with suf s"
  then have "s = take (length s - length suf) s @ suf" by (metis append_take_drop_id ends_with_def)
  then show "\<exists>q. s = q @ suf" ..
qed (auto simp: ends_with_def)

lemma scope_match_iff:
  "scope_match p path \<longleftrightarrow> p \<noteq> [] \<and> (if \<exists>q. p = q @ ''/*'' then \<exists>r. r \<noteq> [] \<and> path = butlast p @ r else path = p)"
proof (cases "\<exists>q. p = q @ ''/*''")
  case True
  then have "length p \<ge> 2" "ends_with ''/*'' p" "p \<noteq> []" by (auto simp: ends_with_iff)
  moreover have "length path > length (butlast p) \<and> starts_with (butlast p) path \<longleftrightarrow> (\<exists>r. r \<noteq> [] \<and> path = butlast p @ r)"
    by (auto simp: starts_with_iff)
  ultimately show ?thesis using True by (simp add: scope_match_def)
next
  case False
  then show ?thesis by (auto simp: scope_match_def ends_with_iff)
qed

lemma token_scan_find:
  "token_scan h role path now ts \<longleftrightarrow> (case List.find (\<lambda>t. at_tokenHash t = h) ts of None \<Rightarrow> False | Some t \<Rightarrow> grants t role path now)"
  by (induction ts) (auto simp: grants_def isExpired_def pathInScope_def list_ex_iff scope_match_iff role_ok_def)

lemma pool_scan_find:
  "pool_scan h pool ts \<longleftrightarrow> (case List.find (\<lambda>t. at_tokenHash t = h) ts of None \<Rightarrow> False | Some t \<Rightarrow> reaches t pool)"
  by (induction ts) (auto simp: reaches_def tokenAllowsContainer_def list_ex_iff)

lemma bearer_entry:
  "checkBearerAuthFull sha a ts role path now \<longleftrightarrow> (case token_entry sha a ts of None \<Rightarrow> False | Some t \<Rightarrow> grants t role path now)"
  by (simp add: checkBearerAuthFull_def token_entry_def token_scan_find Let_def)

text \<open>
  C7. The network API is decided by one token entry. A request over TCP for a container passes the
  gate exactly when it presents a bearer token, the first configured entry with its hash has not
  expired, has the request path in its scope (no scope, the exact path, or strictly below a pattern
  that ends in \<^verbatim>\<open>/*\<close>), has the role or is admin, and reaches the pool of the container; both scans of
  the configuration pick the same entry. Over the unix socket everything passes. And a console
  session is opened only for the jail its path names, under the same conditions for an admin.
\<close>

theorem api_gate_exact:
  "(isAuthorizedForContainer sha req config role name now \<longleftrightarrow>
      hr_unixPeer req \<or> (\<exists>t. token_entry sha (hr_authorization req) (ac_tokens config) = Some t \<and>
        grants t role (hr_path req) now \<and> reaches t (inferPool name (ac_separator config)))) \<and>
   (handleClient sha config now byName raw = ConsoleSession key jid \<longrightarrow>
      (\<exists>path jail j t. parseHandshakeRequest raw = Inr (path, key) \<and> extractJailName path = jail \<and> jail \<noteq> [] \<and>
        byName jail = Some j \<and> ji_jid j = jid \<and> token_entry sha (extractAuthHeader raw) (ac_tokens config) = Some t \<and>
        grants t ''admin'' path now \<and> reaches t (inferPool jail (ac_separator config))))"
proof
  show "isAuthorizedForContainer sha req config role name now \<longleftrightarrow>
      hr_unixPeer req \<or> (\<exists>t. token_entry sha (hr_authorization req) (ac_tokens config) = Some t \<and>
        grants t role (hr_path req) now \<and> reaches t (inferPool name (ac_separator config)))"
    unfolding isAuthorizedForContainer_def isAuthorized_def bearer_entry pool_scan_find
    by (auto simp: token_entry_def Let_def split: option.splits if_splits)
next
  show "handleClient sha config now byName raw = ConsoleSession key jid \<longrightarrow>
      (\<exists>path jail j t. parseHandshakeRequest raw = Inr (path, key) \<and> extractJailName path = jail \<and> jail \<noteq> [] \<and>
        byName jail = Some j \<and> ji_jid j = jid \<and> token_entry sha (extractAuthHeader raw) (ac_tokens config) = Some t \<and>
        grants t ''admin'' path now \<and> reaches t (inferPool jail (ac_separator config)))"
    unfolding handleClient_def bearer_entry pool_scan_find
    by (auto simp: token_entry_def Let_def split: sum.splits option.splits if_splits)
qed

definition sample_token :: AuthToken where
  "sample_token = \<lparr>at_name = ''ops'', at_tokenHash = ''sha256:s3cret'', at_role = ''admin'', at_expiresAt = 0,
     at_scope = [''/api/v1/containers/*''], at_pools = [''dev'']\<rparr>"

definition sample_upgrade :: string where
  "sample_upgrade = ''GET /api/v1/containers/dev-x/console HTTP/1.1'' @ CRLF @ ''Upgrade: websocket'' @ CRLF @
     ''Connection: Upgrade'' @ CRLF @ ''Sec-WebSocket-Key: k'' @ CRLF @ ''Sec-WebSocket-Version: 13'' @ CRLF @
     ''authorization: Bearer s3cret'' @ CRLF @ CRLF"

theorem api_gate_exact_witness:
  "let sha = (\<lambda>s. ''sha256:'' @ s); config = \<lparr>ac_tokens = [sample_token], ac_separator = CHR ''-''\<rparr>;
       byName = (\<lambda>n. if n = ''dev-x'' then Some (sample_jail\<lparr>ji_name := ''dev-x''\<rparr>) else None) in
    handleClient sha config 100 byName sample_upgrade = ConsoleSession ''k'' 12 \<and>
    (\<exists>t. token_entry sha (extractAuthHeader sample_upgrade) [sample_token] = Some t \<and> reaches t ''dev'')"
proof -
  let ?sha = "\<lambda>s. ''sha256:'' @ s" and ?c = "\<lparr>ac_tokens = [sample_token], ac_separator = CHR ''-''\<rparr>"
  let ?by = "\<lambda>n. if n = ''dev-x'' then Some (sample_jail\<lparr>ji_name := ''dev-x''\<rparr>) else None"
  let ?req = "\<lparr>hr_unixPeer = False, hr_authorization = ''Bearer s3cret'', hr_path = ''/api/v1/containers/dev-x''\<rparr>"
  have h: "handleClient ?sha ?c 100 ?by sample_upgrade = ConsoleSession ''k'' 12" by code_simp
  have p: "parseHandshakeRequest sample_upgrade = Inr (''/api/v1/containers/dev-x/console'', ''k'')" by code_simp
  have "extractJailName ''/api/v1/containers/dev-x/console'' = ''dev-x''" "inferPool ''dev-x'' (CHR ''-'') = ''dev''" by code_simp+
  then show ?thesis
    using h p api_gate_exact [of ?sha ?req ?c "''viewer''" "''dev-x''" 100 ?by sample_upgrade "''k''" 12] by (auto simp: Let_def)
qed

end
