(* ===== verification/AutoFw.thy ===== *)
theory AutoFw
  imports SnapshotName PerUser
begin

text \<open>
  The automatic firewall of a jail in \<^verbatim>\<open>mode: auto\<close>: \<^verbatim>\<open>lib/auto_fw_pure.cpp\<close> (validators, rule texts, the
  layout of the ipfw numbers, the readers of \<^verbatim>\<open>ipfw\<close> and \<^verbatim>\<open>pfctl\<close> listings) and the part of
  \<^verbatim>\<open>lib/run.cpp\<close> that chooses the backend, loads the rules and removes them at teardown. Whether a
  command succeeds is a parameter of the part that runs commands; the listings are texts.
\<close>

section \<open>Validators and pf rules\<close>

definition iface_char :: "char \<Rightarrow> bool" where
  "iface_char c \<longleftrightarrow> is_alnum c \<or> c = CHR ''.'' \<or> c = CHR ''_''"

definition validateExternalIface :: "string \<Rightarrow> err" where
  "validateExternalIface iface =
     fail_if (iface = []) ''external interface is empty''
     (fail_if (length iface > 15) ''external interface name longer than 15 chars (FreeBSD IFNAMSIZ)''
     (case List.find (\<lambda>c. \<not> iface_char c) iface of
        Some c \<Rightarrow> ''external interface contains invalid character '' @ quoted [c]
      | None \<Rightarrow> []))"

fun rule_addr_loop :: "bool \<Rightarrow> string \<Rightarrow> err" where
  "rule_addr_loop sawSlash [] = []"
| "rule_addr_loop sawSlash (c # cs) =
     (if c = CHR ''/'' then
        (if sawSlash then ''rule address has more than one '' @ quoted ''/'' else rule_addr_loop True cs)
      else if is_digit c \<or> c = CHR ''.'' then rule_addr_loop sawSlash cs
      else ''rule address contains invalid character '' @ quoted [c])"

definition validateRuleAddress :: "string \<Rightarrow> err" where
  "validateRuleAddress addr =
     fail_if (addr = []) ''rule address is empty''
     (fail_if (length addr > 18) (''rule address longer than 18 chars (max '' @ quoted ''255.255.255.255/32'' @ '')'')
     (rule_addr_loop False addr))"

definition formatSnatRule :: "string \<Rightarrow> string \<Rightarrow> string" where
  "formatSnatRule externalIface jailAddr =
     ''nat on '' @ externalIface @ '' inet from '' @ jailAddr @ '' to ! '' @ jailAddr @ '' -> ('' @ externalIface @ '')''"

definition formatSnatAnchorLine :: "string \<Rightarrow> string \<Rightarrow> string" where
  "formatSnatAnchorLine externalIface jailAddr = formatSnatRule externalIface jailAddr @ [NL]"

definition validateProto :: "string \<Rightarrow> err" where
  "validateProto proto =
     fail_if (proto = []) ''proto is empty''
     (fail_if (proto \<noteq> ''tcp'' \<and> proto \<noteq> ''udp'')
        (''proto must be '' @ quoted ''tcp'' @ '' or '' @ quoted ''udp'' @ '', got '' @ quoted proto) [])"

definition validatePort :: "nat \<Rightarrow> err" where
  "validatePort port =
     fail_if (port = 0) ''port 0 is invalid''
     (fail_if (port > 65535) (''port '' @ dec port @ '' > 65535'') [])"

definition formatPortToken :: "nat \<Rightarrow> nat \<Rightarrow> string" where
  "formatPortToken lo hi = (if lo = hi then dec lo else dec lo @ '':'' @ dec hi)"

definition formatRdrRule :: "string \<Rightarrow> string \<Rightarrow> nat \<Rightarrow> nat \<Rightarrow> string \<Rightarrow> nat \<Rightarrow> nat \<Rightarrow> string" where
  "formatRdrRule externalIface proto hostPortLo hostPortHi jailAddr jailPortLo jailPortHi =
     ''rdr on '' @ externalIface @ '' inet proto '' @ proto @ '' from any to ('' @ externalIface @ '')''
     @ '' port '' @ formatPortToken hostPortLo hostPortHi @ '' -> '' @ jailAddr
     @ '' port '' @ formatPortToken jailPortLo jailPortHi"

definition formatRdrAnchorLine :: "string \<Rightarrow> string \<Rightarrow> nat \<Rightarrow> nat \<Rightarrow> string \<Rightarrow> nat \<Rightarrow> nat \<Rightarrow> string" where
  "formatRdrAnchorLine externalIface proto hostPortLo hostPortHi jailAddr jailPortLo jailPortHi =
     formatRdrRule externalIface proto hostPortLo hostPortHi jailAddr jailPortLo jailPortHi @ [NL]"

section \<open>The ipfw numbers of a jail\<close>

definition kIpfwNatBase :: u32 where "kIpfwNatBase = 30000"
definition kIpfwRuleBase :: u32 where "kIpfwRuleBase = 40000"
definition kIpfwRuleRangeEnd :: u32 where "kIpfwRuleRangeEnd = 60000"
definition kIpfwIdMax :: u32 where "kIpfwIdMax = 65535"
definition kIpfwMaxJid :: int where "kIpfwMaxJid = 9999"

definition natIdForJail :: "int \<Rightarrow> u32" where
  "natIdForJail jid = (let u = word_of_int jid in kIpfwNatBase + u)"

definition ruleIdForJail :: "int \<Rightarrow> u32" where
  "ruleIdForJail jid = (let u = word_of_int jid in kIpfwRuleBase + 2 * u)"

definition loopbackRuleIdForJail :: "int \<Rightarrow> u32" where
  "loopbackRuleIdForJail jid = (let u = word_of_int jid in kIpfwRuleBase + 2 * u + 1)"

definition validateIpfwIdsForJid :: "int \<Rightarrow> err" where
  "validateIpfwIdsForJid jid =
     fail_if (jid < 1) ''jid must be >= 1''
     (fail_if (jid > kIpfwMaxJid)
        (''jid '' @ dec_int jid @ '' exceeds the ipfw auto-fw id space (max jid '' @ dec_int kIpfwMaxJid
         @ ''): NAT instance would reach the rule range'') [])"

definition validateIpfwNatId :: "u32 \<Rightarrow> err" where
  "validateIpfwNatId i =
     fail_if (i < kIpfwNatBase) ''ipfw NAT id below 30000 reserved range''
     (fail_if (i > kIpfwIdMax) ''ipfw NAT id exceeds 16-bit max'' [])"

section \<open>ipfw commands\<close>

record RedirPort =
  rd_proto :: string
  rd_hostLo :: nat
  rd_hostHi :: nat
  rd_jailAddr :: string
  rd_jailLo :: nat
  rd_jailHi :: nat

definition udec :: "u32 \<Rightarrow> string" where
  "udec w = dec (unat w)"

definition buildIpfwNatConfigArgv :: "u32 \<Rightarrow> string \<Rightarrow> string list" where
  "buildIpfwNatConfigArgv natId externalIface =
     [''/sbin/ipfw'', ''nat'', udec natId, ''config'', ''if'', externalIface]"

definition dash_range :: "nat \<Rightarrow> nat \<Rightarrow> string" where
  "dash_range lo hi = (if lo = hi then dec lo else dec lo @ ''-'' @ dec hi)"

definition buildIpfwNatConfigWithRedirsArgv :: "u32 \<Rightarrow> string \<Rightarrow> RedirPort list \<Rightarrow> string list" where
  "buildIpfwNatConfigWithRedirsArgv natId externalIface redirs =
     buildIpfwNatConfigArgv natId externalIface @
     concat (map (\<lambda>r. [''redir_port'', rd_proto r,
                       rd_jailAddr r @ '':'' @ dash_range (rd_jailLo r) (rd_jailHi r),
                       dash_range (rd_hostLo r) (rd_hostHi r)]) redirs)"

definition buildIpfwNatRuleArgv :: "u32 \<Rightarrow> u32 \<Rightarrow> string \<Rightarrow> string \<Rightarrow> string list" where
  "buildIpfwNatRuleArgv ruleId natId jailAddr externalIface =
     [''/sbin/ipfw'', ''add'', udec ruleId, ''nat'', udec natId, ''ip'', ''from'', jailAddr, ''to'', ''any'',
      ''out'', ''via'', externalIface]"

definition buildIpfwRuleDeleteArgv :: "u32 \<Rightarrow> string list" where
  "buildIpfwRuleDeleteArgv ruleId = [''/sbin/ipfw'', ''delete'', udec ruleId]"

definition buildIpfwNatDeleteArgv :: "u32 \<Rightarrow> string list" where
  "buildIpfwNatDeleteArgv natId = [''/sbin/ipfw'', ''nat'', udec natId, ''delete'']"

definition buildIpfwHostLoopbackNatArgv :: "u32 \<Rightarrow> u32 \<Rightarrow> string list" where
  "buildIpfwHostLoopbackNatArgv ruleId natId =
     [''/sbin/ipfw'', ''add'', udec ruleId, ''nat'', udec natId, ''tcp'', ''from'', ''me'', ''to'', ''me'']"

section \<open>Reading the listings\<close>

definition blank :: "char \<Rightarrow> bool" where
  "blank c \<longleftrightarrow> c = CHR '' '' \<or> c = TAB"

fun number_loop :: "int \<Rightarrow> string \<Rightarrow> int" where
  "number_loop n [] = n"
| "number_loop n (c # cs) =
     (if is_digit c
      then let n' = n * 10 + int (digit_val c) in if n' > 99999 then - 1 else number_loop n' cs
      else n)"

definition parseLeadingNumber :: "string \<Rightarrow> int" where
  "parseLeadingNumber line =
     (case dropWhile blank line of
        [] \<Rightarrow> - 1
      | c # cs \<Rightarrow> if is_digit c then number_loop 0 (c # cs) else - 1)"

text \<open>The numbers of a listing that lie in a range and belong to no running jail.\<close>

definition pick_orphans :: "(string \<Rightarrow> int) \<Rightarrow> int \<Rightarrow> int \<Rightarrow> (int \<Rightarrow> int) \<Rightarrow> string \<Rightarrow> int set \<Rightarrow> u32 list" where
  "pick_orphans number lo hi jid_of out running =
     List.map_filter (\<lambda>line. let n = number (chomp_cr line) in
       if n < lo \<or> n \<ge> hi then None
       else if jid_of n \<in> running then None else Some (word_of_int n)) (getlines out)"

definition pickOrphanIpfwRulesByJid :: "string \<Rightarrow> int set \<Rightarrow> u32 list" where
  "pickOrphanIpfwRulesByJid =
     pick_orphans parseLeadingNumber (uint kIpfwRuleBase) (uint kIpfwRuleRangeEnd)
       (\<lambda>n. (n - uint kIpfwRuleBase) div 2)"

definition pickOrphanIpfwThrottleRulesByJid :: "string \<Rightarrow> int set \<Rightarrow> u32 list" where
  "pickOrphanIpfwThrottleRulesByJid = pick_orphans parseLeadingNumber 20000 30000 (\<lambda>n. (n - 20000) div 2)"

text \<open>\<^verbatim>\<open>ls >> tok\<close>: the next token and what follows it, failing at the end of the text.\<close>

definition white :: "char \<Rightarrow> bool" where
  "white c \<longleftrightarrow> c \<in> {CHR '' '', CHR 0x09, CHR 0x0A, CHR 0x0B, CHR 0x0C, CHR 0x0D}"

definition token :: "string \<Rightarrow> (string \<times> string) option" where
  "token s = (let t = dropWhile white s in
     if t = [] then None else Some (takeWhile (\<lambda>c. \<not> white c) t, dropWhile (\<lambda>c. \<not> white c) t))"

fun digits_loop :: "int \<Rightarrow> string \<Rightarrow> int" where
  "digits_loop n [] = n"
| "digits_loop n (c # cs) =
     (if \<not> is_digit c then - 1
      else let n' = n * 10 + int (digit_val c) in if n' > 99999 then - 1 else digits_loop n' cs)"

definition nat_number :: "string \<Rightarrow> int" where
  "nat_number line =
     (case token line of None \<Rightarrow> - 1 | Some (tok1, s1) \<Rightarrow>
      case token s1 of None \<Rightarrow> - 1 | Some (tok2, s2) \<Rightarrow>
      case token s2 of None \<Rightarrow> - 1 | Some (tok3, _) \<Rightarrow>
        if tok1 \<noteq> ''ipfw'' \<or> tok2 \<noteq> ''nat'' then - 1 else digits_loop 0 tok3)"

definition pickOrphanIpfwNatIds :: "string \<Rightarrow> int set \<Rightarrow> u32 list" where
  "pickOrphanIpfwNatIds = pick_orphans nat_number 30000 40000 (\<lambda>n. n - 30000)"

definition anchor_name :: "string \<Rightarrow> string option" where
  "anchor_name line =
     (let tok = rev (dropWhile blank (rev (dropWhile blank line))) in
      if length tok \<le> 6 \<or> \<not> starts_with ''crate/'' tok then None
      else let name = drop 6 tok in if CHR ''/'' \<in> set name then None else Some name)"

definition parseCrateAnchorJailNames :: "string \<Rightarrow> string list" where
  "parseCrateAnchorJailNames out = List.map_filter (\<lambda>line. anchor_name (chomp_cr line)) (getlines out)"

record RdrHostPort =
  rp_proto :: string
  rp_lo :: nat
  rp_hi :: nat

fun read_num_loop :: "nat \<Rightarrow> string \<Rightarrow> (nat \<times> string) option" where
  "read_num_loop acc [] = Some (acc, [])"
| "read_num_loop acc (c # cs) =
     (if is_digit c
      then let acc' = acc * 10 + digit_val c in if acc' > 65535 then None else read_num_loop acc' cs
      else Some (acc, c # cs))"

definition readNum :: "string \<Rightarrow> (nat \<times> string) option" where
  "readNum s = (if s = [] \<or> \<not> is_digit (hd s) then None else read_num_loop 0 s)"

definition contains :: "string \<Rightarrow> string \<Rightarrow> bool" where
  "contains needle s \<longleftrightarrow> cut_first needle s \<noteq> None"

definition skip_spaces :: "string \<Rightarrow> string" where
  "skip_spaces s = dropWhile (\<lambda>c. c = CHR '' '') s"

text \<open>The port numbers in the text between \<^verbatim>\<open>" port "\<close> and the arrow.\<close>

definition port_range :: "string \<Rightarrow> (nat \<times> nat) option" where
  "port_range s0 =
     (let s1 = skip_spaces s0;
          s2 = (if s1 \<noteq> [] \<and> hd s1 = CHR ''='' then skip_spaces (tl s1) else s1) in
      case readNum s2 of
        None \<Rightarrow> None
      | Some (lo, r) \<Rightarrow>
          if r \<noteq> [] \<and> hd r = CHR '':''
          then (case readNum (tl r) of None \<Rightarrow> None | Some (hi, _) \<Rightarrow> Some (min lo hi, max lo hi))
          else Some (lo, lo))"

definition rdr_line :: "string \<Rightarrow> RdrHostPort option" where
  "rdr_line line =
     (if \<not> contains ''rdr'' line then None
      else case cut_first ''->'' line of
        None \<Rightarrow> None
      | Some (before, _) \<Rightarrow>
        let proto = (if contains ''proto tcp'' line then Some ''tcp''
                     else if contains ''proto udp'' line then Some ''udp'' else None) in
        (case proto of
           None \<Rightarrow> None
         | Some pr \<Rightarrow>
           (case cut_first '' port '' line of
              None \<Rightarrow> None
            | Some (pre, _) \<Rightarrow>
              if length pre > length before then None
              else map_option (\<lambda>(lo, hi). \<lparr>rp_proto = pr, rp_lo = lo, rp_hi = hi\<rparr>)
                     (port_range (drop (length pre + 6) before)))))"

definition parseRdrHostPorts :: "string \<Rightarrow> RdrHostPort list" where
  "parseRdrHostPorts out = List.map_filter (\<lambda>line. rdr_line (chomp_cr line)) (getlines out)"

definition rdrHostPortTaken :: "RdrHostPort list \<Rightarrow> string \<Rightarrow> nat \<Rightarrow> nat \<Rightarrow> bool" where
  "rdrHostPortTaken taken proto lo0 hi0 =
     (let lo = min lo0 hi0; hi = max lo0 hi0 in
      list_ex (\<lambda>t. rp_proto t = proto \<and> rp_lo t \<le> hi \<and> lo \<le> rp_hi t) taken)"

section \<open>Loading the rules: the automatic part of crate run\<close>

type_synonym port_map = "((nat \<times> nat) \<times> (nat \<times> nat)) list"

definition ports_ok :: "(nat \<times> nat) \<times> (nat \<times> nat) \<Rightarrow> bool" where
  "ports_ok p \<longleftrightarrow> validatePort (fst (fst p)) = [] \<and> validatePort (snd (fst p)) = []
     \<and> validatePort (fst (snd p)) = [] \<and> validatePort (snd (snd p)) = []"

definition rdr_lines :: "string \<Rightarrow> string \<Rightarrow> string \<Rightarrow> port_map \<Rightarrow> string" where
  "rdr_lines iface proto ip ports =
     concat (map (\<lambda>(host, jail). formatRdrAnchorLine iface proto (fst host) (snd host) ip (fst jail) (snd jail))
       (filter ports_ok ports))"

definition redirs_of :: "string \<Rightarrow> string \<Rightarrow> port_map \<Rightarrow> RedirPort list" where
  "redirs_of proto ip ports =
     map (\<lambda>(host, jail). \<lparr>rd_proto = proto, rd_hostLo = fst host, rd_hostHi = snd host, rd_jailAddr = ip,
                           rd_jailLo = fst jail, rd_jailHi = snd jail\<rparr>) (filter ports_ok ports)"

text \<open>The host ports the run warns about: \<^verbatim>\<open>None\<close> for a listing that could not be read.\<close>

definition warnOnRdrHostPortCollision :: "string option \<Rightarrow> port_map \<Rightarrow> port_map \<Rightarrow> (string \<times> nat \<times> nat) list" where
  "warnOnRdrHostPortCollision out tcp udp =
     (if tcp = [] \<and> udp = [] then []
      else case out of
        None \<Rightarrow> []
      | Some text \<Rightarrow>
        let taken = parseRdrHostPorts text;
            check = (\<lambda>proto ports. map (\<lambda>(host, jail). (proto, host))
                      (filter (\<lambda>(host, jail). rdrHostPortTaken taken proto (fst host) (snd host)) ports)) in
        check ''tcp'' tcp @ check ''udp'' udp)"

text \<open>
  What the setup decides: \<^verbatim>\<open>detected\<close> is the interface of the default route, \<^verbatim>\<open>pfLoaded\<close> and \<^verbatim>\<open>ipfwLoaded\<close> say
  whether \<^verbatim>\<open>kldstat\<close> found the module.
\<close>

datatype autofw =
    Fw_no_interface
  | Fw_operator_rules
  | Fw_pf string string
  | Fw_ids_exhausted err
  | Fw_ipfw string
  | Fw_no_backend

definition autofw_choose ::
  "string \<Rightarrow> string \<Rightarrow> string \<Rightarrow> bool \<Rightarrow> bool \<Rightarrow> string \<Rightarrow> int \<Rightarrow> string \<Rightarrow> port_map \<Rightarrow> port_map \<Rightarrow> autofw res" where
  "autofw_choose networkInterface detected firewallBackend pfLoaded ipfwLoaded ip jid jailXname tcp udp =
     (let iface = (if networkInterface = [] then detected else networkInterface) in
      if iface = [] then Inr Fw_no_interface
      else if validateExternalIface iface \<noteq> []
        then Inl (''network_interface '' @ quoted iface @ '': '' @ validateExternalIface iface)
      else if validateRuleAddress ip \<noteq> []
        then Inl (''auto-fw: jail IP failed validation: '' @ validateRuleAddress ip)
      else
        let rules = formatSnatAnchorLine iface ip @ rdr_lines iface ''tcp'' ip tcp @ rdr_lines iface ''udp'' ip udp;
            pf = (if firewallBackend = ''pf'' then True
                  else if firewallBackend = ''ipfw'' \<or> firewallBackend = ''none'' then False else pfLoaded);
            ipfw = (if firewallBackend = ''ipfw'' then True
                    else if firewallBackend = ''pf'' \<or> firewallBackend = ''none'' then False else ipfwLoaded) in
        if firewallBackend = ''none'' then Inr Fw_operator_rules
        else if pf then Inr (Fw_pf (''crate/'' @ jailXname) rules)
        else if ipfw \<and> validateIpfwIdsForJid jid \<noteq> [] then Inr (Fw_ids_exhausted (validateIpfwIdsForJid jid))
        else if ipfw then Inr (Fw_ipfw iface)
        else Inr Fw_no_backend)"

text \<open>
  The ipfw branch: the commands that were run with their outcome, and the commands of the cleanup, when it
  was armed. \<^term>\<open>exec\<close> is the outcome of \<^verbatim>\<open>RunNet::ipfwExec\<close>: false when it throws.
\<close>

datatype fw_action = Ipfw_exec "string list" | Delete_nat u32

definition autofw_ipfw_setup ::
  "(string list \<Rightarrow> bool) \<Rightarrow> int \<Rightarrow> string \<Rightarrow> string \<Rightarrow> port_map \<Rightarrow> port_map \<Rightarrow>
   (string list \<times> bool) list \<times> fw_action list option" where
  "autofw_ipfw_setup exec jid iface ip tcp udp =
     (let natId = natIdForJail jid; ruleId = ruleIdForJail jid;
          redirs = redirs_of ''tcp'' ip tcp @ redirs_of ''udp'' ip udp;
          natArgv = buildIpfwNatConfigWithRedirsArgv natId iface redirs;
          natConfig = join (CHR '' '') (drop 4 natArgv);
          c1 = [''nat'', udec natId, ''config'', natConfig];
          c2 = tl (buildIpfwNatRuleArgv ruleId natId ip iface);
          loopbackId = loopbackRuleIdForJail jid;
          c3 = tl (buildIpfwHostLoopbackNatArgv loopbackId natId) in
      if \<not> exec c1 then ([(c1, False)], None)
      else if \<not> exec c2 then ([(c1, True), (c2, False)], None)
      else let loopbackInstalled = exec c3 in
        ([(c1, True), (c2, True), (c3, loopbackInstalled)],
         Some ((if loopbackInstalled then [Ipfw_exec [''delete'', udec loopbackId]] else [])
               @ [Ipfw_exec [''delete'', udec ruleId], Delete_nat natId])))"

section \<open>The ipfw numbers do not collide\<close>

lemma jid_word:
  assumes "validateIpfwIdsForJid jid = []"
  shows "1 \<le> jid" "jid \<le> 9999"
  using assms by (auto simp: validateIpfwIdsForJid_def kIpfwMaxJid_def)

lemma unat_of_jid: "0 \<le> jid \<Longrightarrow> jid < 2 ^ 32 \<Longrightarrow> unat (word_of_int jid :: u32) = nat jid"
  by (simp add: unat_eq_nat_uint uint_word_of_int)

lemma unat_small_add: "unat a + unat b < 2 ^ 32 \<Longrightarrow> unat (a + b :: u32) = unat a + unat b"
  by (simp add: unat_word_ariths)

lemma unat_small_double: "2 * unat a < 2 ^ 32 \<Longrightarrow> unat (2 * a :: u32) = 2 * unat a"
  by (simp add: unat_word_ariths)

lemma ids_value:
  assumes "0 \<le> jid" "jid \<le> 9999"
  shows "unat (natIdForJail jid) = 30000 + nat jid"
    and "unat (ruleIdForJail jid) = 40000 + 2 * nat jid"
    and "unat (loopbackRuleIdForJail jid) = 40001 + 2 * nat jid"
proof -
  have u: "unat (word_of_int jid :: u32) = nat jid" using assms by (intro unat_of_jid) auto
  have n: "nat jid \<le> 9999" using assms by simp
  have d: "unat (2 * word_of_int jid :: u32) = 2 * nat jid" using u n by (subst unat_small_double) simp_all
  show "unat (natIdForJail jid) = 30000 + nat jid"
    using u n by (simp add: natIdForJail_def kIpfwNatBase_def unat_small_add)
  show r: "unat (ruleIdForJail jid) = 40000 + 2 * nat jid"
    using d n by (simp add: ruleIdForJail_def kIpfwRuleBase_def unat_small_add)
  have "loopbackRuleIdForJail jid = ruleIdForJail jid + 1"
    by (simp add: loopbackRuleIdForJail_def ruleIdForJail_def)
  then show "unat (loopbackRuleIdForJail jid) = 40001 + 2 * nat jid"
    using r n by (simp add: unat_small_add)
qed


text \<open>What a command adds to the firewall and what a cleanup action takes away, by its printed number.\<close>

datatype fw_object = Nat_instance string | Fw_rule string

fun creates :: "string list \<Rightarrow> fw_object set" where
  "creates (cmd # n # rest) =
     (if cmd = ''nat'' \<and> rest \<noteq> [] \<and> hd rest = ''config'' then {Nat_instance n}
      else if cmd = ''add'' then {Fw_rule n} else {})"
| "creates _ = {}"

definition created :: "(string list \<times> bool) list \<Rightarrow> fw_object set" where
  "created trace = \<Union> (set (map (\<lambda>(c, ok). if ok then creates c else {}) trace))"

fun removes :: "fw_action \<Rightarrow> fw_object set" where
  "removes (Ipfw_exec [cmd, n]) = (if cmd = ''delete'' then {Fw_rule n} else {})"
| "removes (Ipfw_exec _) = {}"
| "removes (Delete_nat n) = {Nat_instance (udec n)}"

definition removed :: "fw_action list \<Rightarrow> fw_object set" where
  "removed acts = \<Union> (set (map removes acts))"

definition jail_objects :: "int \<Rightarrow> fw_object set" where
  "jail_objects jid = {Nat_instance (udec (natIdForJail jid)), Fw_rule (udec (ruleIdForJail jid)),
                       Fw_rule (udec (loopbackRuleIdForJail jid))}"

lemma jail_objects_disjoint:
  assumes "validateIpfwIdsForJid jid = []" "validateIpfwIdsForJid jid' = []" "jid \<noteq> jid'"
  shows "jail_objects jid \<inter> jail_objects jid' = {}"
proof -
  note b = jid_word [OF assms(1)] jid_word [OF assms(2)]
  have ne: "nat jid \<noteq> nat jid'" using b assms(3) by auto
  have "0 \<le> jid" "0 \<le> jid'" using b by simp_all
  note v = ids_value [OF this(1) b(2)] ids_value [OF this(2) b(4)]
  have "40000 + 2 * a \<noteq> 40001 + 2 * b" for a b :: nat by presburger
  note this [of "nat jid" "nat jid'"] this [of "nat jid'" "nat jid"]
  with ne show ?thesis by (auto simp: jail_objects_def udec_def v)
qed

lemmas setup_commands =
  buildIpfwNatRuleArgv_def buildIpfwHostLoopbackNatArgv_def created_def removed_def

lemma setup_objects:
  assumes "autofw_ipfw_setup exec jid iface ip tcp udp = (trace, cleanup)"
  shows "created trace \<subseteq> jail_objects jid"
    and "cleanup = Some acts \<Longrightarrow> removed acts = created trace"
    and "cleanup = None \<Longrightarrow> created trace = (if length trace = 1 then {} else {Nat_instance (udec (natIdForJail jid))})"
  using assms
  by (auto simp: autofw_ipfw_setup_def Let_def setup_commands jail_objects_def split: if_splits)

text \<open>
  Teardown of the ipfw rules of a jail is exact and touches no other jail. Whatever commands fail
  while the NAT instance and the two rules are installed: when the cleanup is armed, it deletes
  exactly the objects the setup created, and none that the setup of another jail created (the numbers of
  two jails with ids in 1..9999 never coincide). When it is not armed, nothing was created, except
  that a failure of the rule itself leaves the NAT instance behind.
\<close>

theorem autofw_teardown_exact:
  assumes "validateIpfwIdsForJid jid = []" "validateIpfwIdsForJid jid' = []" "jid \<noteq> jid'"
    and own: "autofw_ipfw_setup exec jid iface ip tcp udp = (trace, cleanup)"
    and other: "autofw_ipfw_setup exec' jid' iface' ip' tcp' udp' = (trace', cleanup')"
  shows "case cleanup of
           Some acts \<Rightarrow> removed acts = created trace \<and> removed acts \<inter> created trace' = {}
         | None \<Rightarrow> created trace = (if length trace = 1 then {} else {Nat_instance (udec (natIdForJail jid))})"
proof (cases cleanup)
  case None
  then show ?thesis using setup_objects(3) [OF own] by simp
next
  case (Some acts)
  have "created trace \<inter> created trace' = {}"
    using setup_objects(1) [OF own] setup_objects(1) [OF other] jail_objects_disjoint [OF assms(1-3)] by blast
  then show ?thesis using Some setup_objects(2) [OF own Some] by simp
qed

theorem autofw_teardown_exact_witness:
  "let (trace, cleanup) = autofw_ipfw_setup (\<lambda>_. True) 7 ''em0'' ''10.66.0.5'' [((8080, 8080), (80, 80))] [];
       trace' = fst (autofw_ipfw_setup (\<lambda>_. True) 8 ''em0'' ''10.66.0.6'' [] []) in
   \<exists>acts. cleanup = Some acts \<and> removed acts = created trace \<and> removed acts \<inter> created trace' = {}"
proof -
  have v: "validateIpfwIdsForJid 7 = []" "validateIpfwIdsForJid 8 = []" "7 \<noteq> (8 :: int)"
    by (simp_all add: validateIpfwIdsForJid_def kIpfwMaxJid_def)
  obtain trace acts where own:
    "autofw_ipfw_setup (\<lambda>_. True) 7 ''em0'' ''10.66.0.5'' [((8080, 8080), (80, 80))] [] = (trace, Some acts)"
    by (simp add: autofw_ipfw_setup_def Let_def)
  obtain trace' cleanup' where other: "autofw_ipfw_setup (\<lambda>_. True) 8 ''em0'' ''10.66.0.6'' [] [] = (trace', cleanup')"
    by fastforce
  show ?thesis using autofw_teardown_exact [OF v own other] by (auto simp: own other)
qed


section \<open>Which host ports are forwarded already\<close>

lemma split_lines: "(\<And>l. l \<in> set ls \<Longrightarrow> NL \<notin> set l) \<Longrightarrow> split_on NL (concat (map (\<lambda>l. l @ [NL]) ls)) = ls @ [[]]"
  by (induction ls) simp_all

lemma getlines_lines: "(\<And>l. l \<in> set ls \<Longrightarrow> NL \<notin> set l) \<Longrightarrow> getlines (concat (map (\<lambda>l. l @ [NL]) ls)) = ls"
  by (simp add: getlines_def Let_def split_lines)

abbreviation SP :: char where "SP \<equiv> CHR '' ''"

lemma contains_Cons: "contains n (c # s) \<longleftrightarrow> starts_with n (c # s) \<or> contains n s"
  by (auto simp: contains_def cut_first.simps [of n "c # s"])

lemma contains_append: "contains n (a @ n @ b)"
proof (induction a)
  case Nil
  then show ?case by (simp add: contains_def cut_first.simps [of n "n @ b"])
next
  case (Cons c a)
  then show ?case by (simp add: contains_Cons)
qed

lemma contains_here: "contains n (n @ b)"
  using contains_append [of n "[]" b] by simp

text \<open>A needle of two words is not found across words that do not match it.\<close>

lemma contains_word:
  assumes "SP \<notin> set w" "SP \<notin> set u" "u \<noteq> []" "last w \<noteq> last u \<or> \<not> starts_with v rest"
  shows "contains (u @ SP # v) (w @ SP # rest) \<longleftrightarrow> contains (u @ SP # v) rest"
  using assms(1,4)
proof (induction w)
  case Nil
  then show ?case using assms(2,3) by (cases u) (auto simp: contains_Cons starts_with_def)
next
  case (Cons c w)
  have no: "\<not> starts_with (u @ SP # v) ((c # w) @ SP # rest)"
  proof
    assume "starts_with (u @ SP # v) ((c # w) @ SP # rest)"
    then obtain r where e: "(c # w) @ SP # rest = u @ SP # v @ r" by (auto simp: starts_with_iff)
    have "cut_at SP ((c # w) @ SP # rest) = Some (c # w, rest)" by (rule cut_at_append) (rule Cons.prems(1))
    moreover have "cut_at SP ((c # w) @ SP # rest) = Some (u, v @ r)" unfolding e by (rule cut_at_append) (rule assms(2))
    ultimately have "Some (c # w, rest) = Some (u, v @ r)" by (rule trans [OF sym])
    then have "c # w = u" "rest = v @ r" by simp_all
    then show False using Cons.prems(2) by (auto simp: starts_with_iff)
  qed
  have "contains (u @ SP # v) (w @ SP # rest) \<longleftrightarrow> contains (u @ SP # v) rest"
  proof (cases "w = []")
    case True
    then show ?thesis using assms(2,3) by (cases u) (auto simp: contains_Cons starts_with_def)
  next
    case False
    then show ?thesis using Cons by simp
  qed
  with no show ?case by (simp add: contains_Cons)
qed

lemma contains_last: "SP \<notin> set w \<Longrightarrow> \<not> contains (u @ SP # v) w"
proof (induction w)
  case Nil
  then show ?case by (simp add: contains_def cut_first.simps starts_with_def)
next
  case (Cons c w)
  have "\<not> starts_with (u @ SP # v) (c # w)" using Cons.prems by (auto simp: starts_with_iff Cons_eq_append_conv)
  then show ?case using Cons by (simp add: contains_Cons)
qed

lemma cut_first_word:
  assumes "SP \<notin> set w" "\<not> starts_with v rest"
  shows "cut_first (SP # v) (w @ SP # rest) = map_option (apfst ((@) (w @ [SP]))) (cut_first (SP # v) rest)"
  using assms
proof (induction w)
  case Nil
  then show ?case by (simp add: cut_first_skip starts_with_def apfst_def map_prod_def)
next
  case (Cons c w)
  then have "\<not> starts_with (SP # v) (c # w @ SP # rest)" by (auto simp: starts_with_def)
  then show ?case using Cons by (simp add: cut_first_skip option.map_comp comp_def apfst_def map_prod_def split_beta)
qed

text \<open>A line as its words.\<close>

lemma join_snoc: "ws \<noteq> [] \<Longrightarrow> join c (ws @ w # ws') = join c ws @ c # join c (w # ws')"
  by (induction c ws rule: join.induct) (simp_all add: join_Cons)

lemma starts_with_word: "SP \<notin> set v \<Longrightarrow> starts_with v (w @ SP # r) \<longleftrightarrow> starts_with v w"
proof (induction v arbitrary: w)
  case Nil
  then show ?case by (simp add: starts_with_def)
next
  case (Cons c v)
  then show ?case by (cases w) (auto simp: starts_with_def)
qed

lemma contains_words:
  assumes "SP \<notin> set u" "u \<noteq> []" "SP \<notin> set v" "\<And>w. w \<in> set ws \<Longrightarrow> SP \<notin> set w"
    and "successively (\<lambda>w w'. last w \<noteq> last u \<or> \<not> starts_with v w') ws"
  shows "\<not> contains (u @ SP # v) (join SP ws)"
  using assms(4,5)
proof (induction SP ws rule: join.induct)
  case 1
  then show ?case by (simp add: contains_last)
next
  case (2 w)
  then show ?case by (simp add: contains_last)
next
  case (3 w w' ws)
  have w: "SP \<notin> set w" using 3 by simp
  have "last w \<noteq> last u \<or> \<not> starts_with v (join SP (w' # ws))"
    using 3 starts_with_word [OF assms(3), of w'] by (cases ws) auto
  from contains_word [OF w assms(1,2) this] show ?case using 3 by simp
qed

lemma cut_first_words:
  assumes "SP \<notin> set p" "\<And>w. w \<in> set ws \<Longrightarrow> SP \<notin> set w" "ws \<noteq> []" "p \<notin> set (tl ws)" "ws' \<noteq> []"
  shows "cut_first (SP # p @ [SP]) (join SP (ws @ p # ws')) = Some (join SP ws, join SP ws')"
  using assms(2-4)
proof (induction ws)
  case Nil
  then show ?case by simp
next
  case (Cons w ws)
  have w: "SP \<notin> set w" using Cons.prems by simp
  show ?case
  proof (cases ws)
    case Nil
    have "cut_first (SP # p @ [SP]) (w @ (SP # p @ [SP]) @ join SP ws') = Some (w, join SP ws')"
      using w by (intro cut_first_here) simp_all
    then show ?thesis using Nil assms(5) by (simp add: join_Cons)
  next
    case (Cons w' ws1)
    let ?rest = "join SP (ws @ p # ws')"
    have ne: "w' \<noteq> p" "SP \<notin> set w'" "p \<notin> set (tl ws)" using Cons Cons.prems by auto
    have "\<not> starts_with (p @ [SP]) (w' @ SP # r)" for r
    proof
      assume "starts_with (p @ [SP]) (w' @ SP # r)"
      then obtain t where e: "w' @ SP # r = p @ SP # t" by (auto simp: starts_with_iff)
      have "cut_at SP (w' @ SP # r) = Some (w', r)" using ne by simp
      moreover have "cut_at SP (w' @ SP # r) = Some (p, t)" unfolding e using assms(1) by simp
      ultimately show False using ne by simp
    qed
    then have "\<not> starts_with (p @ [SP]) ?rest" using Cons by (simp add: join_Cons)
    then have "cut_first (SP # p @ [SP]) (w @ SP # ?rest) = map_option (apfst ((@) (w @ [SP]))) (cut_first (SP # p @ [SP]) ?rest)"
      by (rule cut_first_word [OF w])
    then show ?thesis using Cons Cons.IH Cons.prems ne by (simp add: join_Cons)
  qed
qed

text \<open>
  A translation rule as \<^verbatim>\<open>pfctl -sn\<close> lists it: a source translation, or a redirection whose single port is
  printed as it was loaded or with the equals sign of the normalised form.
\<close>

datatype pf_rule =
    Snat string string
  | Rdr bool string string nat nat string nat nat

definition host_port_text :: "bool \<Rightarrow> nat \<Rightarrow> nat \<Rightarrow> string" where
  "host_port_text eq lo hi = (if eq \<and> lo = hi then ''= '' @ dec lo else formatPortToken lo hi)"

fun pf_rule_text :: "pf_rule \<Rightarrow> string" where
  "pf_rule_text (Snat iface addr) = formatSnatRule iface addr"
| "pf_rule_text (Rdr eq iface proto lo hi addr jlo jhi) =
     ''rdr on '' @ iface @ '' inet proto '' @ proto @ '' from any to ('' @ iface @ '')''
     @ '' port '' @ host_port_text eq lo hi @ '' -> '' @ addr @ '' port '' @ formatPortToken jlo jhi"

lemma pf_rule_text_loaded:
  "pf_rule_text (Rdr False iface proto lo hi addr jlo jhi) = formatRdrRule iface proto lo hi addr jlo jhi"
  by (simp add: formatRdrRule_def host_port_text_def)

fun pf_rule_ok :: "pf_rule \<Rightarrow> bool" where
  "pf_rule_ok (Snat iface addr) \<longleftrightarrow> validateExternalIface iface = [] \<and> validateRuleAddress addr = []"
| "pf_rule_ok (Rdr eq iface proto lo hi addr jlo jhi) \<longleftrightarrow>
     validateExternalIface iface = [] \<and> iface \<noteq> ''port'' \<and> validateProto proto = [] \<and> validateRuleAddress addr = []
     \<and> ports_ok ((lo, hi), (jlo, jhi))"

lemma iface_chars:
  assumes "validateExternalIface iface = []"
  shows "iface \<noteq> []" "\<And>c. c \<in> set iface \<Longrightarrow> iface_char c"
  using assms by (auto simp: validateExternalIface_def find_None_iff split: option.splits)

lemma iface_chars_notin:
  assumes "validateExternalIface iface = []"
  shows "SP \<notin> set iface" "CHR ''-'' \<notin> set iface" "NL \<notin> set iface" "CHR 0x0D \<notin> set iface" "CHR ''('' \<notin> set iface"
proof -
  have no: "c \<notin> set iface" if "\<not> iface_char c" for c using that iface_chars(2) [OF assms] by blast
  show "SP \<notin> set iface" "CHR ''-'' \<notin> set iface" "NL \<notin> set iface" "CHR 0x0D \<notin> set iface" "CHR ''('' \<notin> set iface"
    by (rule no; simp add: iface_char_def is_alnum_def NL_def)+
qed

lemma rule_addr_chars: "rule_addr_loop b s = [] \<Longrightarrow> c \<in> set s \<Longrightarrow> is_digit c \<or> c = CHR ''.'' \<or> c = CHR ''/''"
  by (induction b s rule: rule_addr_loop.induct) (auto split: if_splits)

lemma addr_chars_notin:
  assumes "validateRuleAddress addr = []"
  shows "addr \<noteq> []" "SP \<notin> set addr" "CHR ''-'' \<notin> set addr" "NL \<notin> set addr" "CHR 0x0D \<notin> set addr" "last addr \<noteq> CHR ''o''"
proof -
  have l: "rule_addr_loop False addr = []" and ne: "addr \<noteq> []" using assms by (auto simp: validateRuleAddress_def)
  show "addr \<noteq> []" by (rule ne)
  have no: "c \<notin> set addr" if "\<not> (is_digit c \<or> c = CHR ''.'' \<or> c = CHR ''/'')" for c
    using that rule_addr_chars [OF l] by blast
  show "SP \<notin> set addr" "CHR ''-'' \<notin> set addr" "NL \<notin> set addr" "CHR 0x0D \<notin> set addr"
    by (rule no; simp add: is_digit_def NL_def)+
  have "CHR ''o'' \<notin> set addr" by (rule no) (simp add: is_digit_def)
  then show "last addr \<noteq> CHR ''o''" using ne last_in_set by metis
qed

lemma token_chars:
  "c \<in> set (host_port_text eq lo hi) \<Longrightarrow> is_digit c \<or> c = CHR '':'' \<or> c = CHR ''='' \<or> c = SP"
  "c \<in> set (formatPortToken lo hi) \<Longrightarrow> is_digit c \<or> c = CHR '':''"
  by (auto simp: host_port_text_def formatPortToken_def dest: dec_char_digit split: if_splits)

lemma read_num_loop_dec:
  assumes "list_all is_digit s" "acc * 10 ^ length s + dec_val s \<le> 65535" "r = [] \<or> \<not> is_digit (hd r)"
  shows "read_num_loop acc (s @ r) = Some (acc * 10 ^ length s + dec_val s, r)"
  using assms
proof (induction s arbitrary: acc)
  case Nil
  then show ?case by (cases r) auto
next
  case (Cons c s)
  have eq: "acc * 10 ^ length (c # s) + dec_val (c # s) = (acc * 10 + digit_val c) * 10 ^ length s + dec_val s"
    by (simp add: dec_val_Cons algebra_simps)
  moreover have "acc * 10 + digit_val c \<le> (acc * 10 + digit_val c) * 10 ^ length s + dec_val s" by (simp add: trans_le_add1)
  ultimately have "acc * 10 + digit_val c \<le> 65535" using Cons.prems(2) by linarith
  then show ?case using Cons eq by (simp add: Let_def)
qed

lemma readNum_dec: "n \<le> 65535 \<Longrightarrow> r = [] \<or> \<not> is_digit (hd r) \<Longrightarrow> readNum (dec n @ r) = Some (n, r)"
  using read_num_loop_dec [of "dec n" 0 r] dec_digits [of n] dec_nonempty [of n] dec_val_dec [of n]
  by (cases "dec n") (simp_all add: readNum_def del: dec_digits dec_nonempty dec_val_dec)

lemma port_range_text:
  assumes "lo \<le> 65535" "hi \<le> 65535"
  shows "port_range (host_port_text eq lo hi @ [SP]) = Some (min lo hi, max lo hi)"
proof -
  have d: "skip_spaces (dec n @ r) = dec n @ r" "hd (dec n @ r) \<noteq> CHR ''=''" for n r
    using dec_digits [of n] by (cases "dec n"; simp add: skip_spaces_def is_digit_def; auto)+
  have s: "skip_spaces (CHR ''='' # t) = CHR ''='' # t" "skip_spaces (SP # t) = skip_spaces t" for t
    by (simp_all add: skip_spaces_def)
  have nd: "\<not> is_digit SP" "\<not> is_digit (CHR '':'')" by (simp_all add: is_digit_def)
  show ?thesis
    using assms d nd
    by (auto simp: host_port_text_def formatPortToken_def port_range_def Let_def s readNum_dec)
qed


lemma token_notin: "c \<notin> set (formatPortToken lo hi)" if "\<not> is_digit c" "c \<noteq> CHR '':''"
  using that token_chars(2) by blast

definition host_words :: "bool \<Rightarrow> nat \<Rightarrow> nat \<Rightarrow> string list" where
  "host_words eq lo hi = (if eq \<and> lo = hi then [''='', dec lo] else [formatPortToken lo hi])"

definition rdr_head :: "string \<Rightarrow> string \<Rightarrow> string list" where
  "rdr_head iface proto = [''rdr'', ''on'', iface, ''inet'', ''proto'', proto, ''from'', ''any'', ''to'', ''('' @ iface @ '')'']"

definition rdr_tail :: "string \<Rightarrow> nat \<Rightarrow> nat \<Rightarrow> string list" where
  "rdr_tail addr jlo jhi = [''->'', addr, ''port'', formatPortToken jlo jhi]"

lemma host_words_text: "host_port_text eq lo hi = join SP (host_words eq lo hi)"
  by (simp add: host_port_text_def host_words_def)

lemma rdr_words:
  "pf_rule_text (Rdr eq iface proto lo hi addr jlo jhi) =
     join SP (rdr_head iface proto @ ''port'' # host_words eq lo hi @ rdr_tail addr jlo jhi)"
  by (simp add: host_port_text_def host_words_def rdr_head_def rdr_tail_def)

lemma rdr_word_chars:
  assumes "validateExternalIface iface = []" "validateRuleAddress addr = []" "proto \<in> {''tcp'', ''udp''}"
    and "w \<in> set (rdr_head iface proto @ ''port'' # host_words eq lo hi @ rdr_tail addr jlo jhi)"
  shows "SP \<notin> set w" "NL \<notin> set w" "CHR 0x0D \<notin> set w"
  using assms(3,4) iface_chars_notin [OF assms(1)] addr_chars_notin [OF assms(2)]
    dec_not_in [of SP lo] dec_not_in [of NL lo] dec_not_in [of "CHR 0x0D" lo]
    token_notin [of SP] token_notin [of NL] token_notin [of "CHR 0x0D"]
  by (auto simp: rdr_head_def rdr_tail_def host_words_def is_digit_def NL_def split: if_splits)

lemma rdr_proto:
  assumes i: "validateExternalIface iface = []" and a: "validateRuleAddress addr = []"
  shows "\<not> contains ''proto tcp'' (pf_rule_text (Rdr eq iface ''udp'' lo hi addr jlo jhi))"
    and "contains (''proto '' @ proto) (pf_rule_text (Rdr eq iface proto lo hi addr jlo jhi))"
proof -
  have last_dec: "last (dec n) \<noteq> CHR ''o''" for n
    using dec_char_digit [OF last_in_set [OF dec_nonempty], of n] by (auto simp: is_digit_def)
  have last_token: "last (formatPortToken m n) \<noteq> CHR ''o''" for m n
    using last_dec by (simp add: formatPortToken_def)
  have "successively (\<lambda>w w'. last w \<noteq> last ''proto'' \<or> \<not> starts_with ''tcp'' w')
          (rdr_head iface ''udp'' @ ''port'' # host_words eq lo hi @ rdr_tail addr jlo jhi)"
    using last_token last_dec addr_chars_notin(6) [OF a]
    by (simp add: rdr_head_def rdr_tail_def host_words_def starts_with_def)
  then have "\<not> contains (''proto'' @ SP # ''tcp'') (join SP (rdr_head iface ''udp'' @ ''port'' # host_words eq lo hi @ rdr_tail addr jlo jhi))"
    using rdr_word_chars(1) [OF i a, of "''udp''"] by (intro contains_words) (simp_all only: list.simps, simp_all)
  then show "\<not> contains ''proto tcp'' (pf_rule_text (Rdr eq iface ''udp'' lo hi addr jlo jhi))"
    unfolding rdr_words by simp
  show "contains (''proto '' @ proto) (pf_rule_text (Rdr eq iface proto lo hi addr jlo jhi))"
    using contains_append [of "''proto '' @ proto" "''rdr on '' @ iface @ '' inet ''"] by simp
qed

lemma rdr_line_text:
  assumes ok: "pf_rule_ok (Rdr eq iface proto lo hi addr jlo jhi)"
  shows "rdr_line (pf_rule_text (Rdr eq iface proto lo hi addr jlo jhi)) =
           Some \<lparr>rp_proto = proto, rp_lo = min lo hi, rp_hi = max lo hi\<rparr>"
proof -
  let ?l = "pf_rule_text (Rdr eq iface proto lo hi addr jlo jhi)"
  have i: "validateExternalIface iface = []" and a: "validateRuleAddress addr = []" and np: "iface \<noteq> ''port''"
    and p: "proto \<in> {''tcp'', ''udp''}" and b: "lo \<le> 65535" "hi \<le> 65535"
    using ok by (auto simp: validateProto_def ports_ok_def validatePort_def fail_if_def split: if_splits)
  let ?head = "join SP (rdr_head iface proto)"
  let ?before = "?head @ '' port '' @ host_port_text eq lo hi @ [SP]"
  have l: "?l = ?before @ ''->'' @ SP # addr @ '' port '' @ formatPortToken jlo jhi"
    by (simp add: rdr_head_def)
  have "CHR ''-'' \<notin> set ?before"
    using iface_chars_notin(2) [OF i] p token_chars(1) [of "CHR ''-''" eq lo hi]
    by (auto simp: rdr_head_def is_digit_def)
  then have arrow: "cut_first ''->'' ?l = Some (?before, SP # addr @ '' port '' @ formatPortToken jlo jhi)"
    unfolding l by (intro cut_first_here) simp_all
  have "cut_first (SP # ''port'' @ [SP]) (join SP (rdr_head iface proto @ ''port'' # host_words eq lo hi @ rdr_tail addr jlo jhi)) =
      Some (?head, join SP (host_words eq lo hi @ rdr_tail addr jlo jhi))"
    using rdr_word_chars(1) [OF i a p] np p
    by (intro cut_first_words) (auto simp: rdr_head_def rdr_tail_def)
  then have port: "cut_first '' port '' ?l = Some (?head, join SP (host_words eq lo hi @ rdr_tail addr jlo jhi))"
    unfolding rdr_words by simp
  have rdr: "contains ''rdr'' ?l" using contains_here [of "''rdr''"] by simp
  have pr: "(if contains ''proto tcp'' ?l then Some ''tcp'' else if contains ''proto udp'' ?l then Some ''udp'' else None) = Some proto"
    using p rdr_proto(1) [OF i a] rdr_proto(2) [OF i a, of proto] by auto
  have "drop (length ?head + 6) ?before = host_port_text eq lo hi @ [SP]" by simp
  then show ?thesis using rdr arrow port pr port_range_text [OF b] by (simp add: rdr_line_def del: pf_rule_text.simps)
qed


lemma snat_line_text:
  assumes ok: "pf_rule_ok (Snat iface addr)"
  shows "rdr_line (pf_rule_text (Snat iface addr)) = None" "NL \<notin> set (pf_rule_text (Snat iface addr))"
    and "chomp_cr (pf_rule_text (Snat iface addr)) = pf_rule_text (Snat iface addr)"
proof -
  have i: "validateExternalIface iface = []" and a: "validateRuleAddress addr = []" using ok by simp_all
  let ?ws = "[''nat'', ''on'', iface, ''inet'', ''from'', addr, ''to'', ''!'', addr, ''->'', ''('' @ iface @ '')'']"
  have line: "pf_rule_text (Snat iface addr) = join SP ?ws" by (simp add: formatSnatRule_def)
  have "\<not> contains (''proto'' @ SP # v) (join SP ?ws)" if "v \<in> {''tcp'', ''udp''}" for v
    using that iface_chars_notin [OF i] addr_chars_notin [OF a]
    by (intro contains_words) (auto simp: starts_with_def)
  from this [of "''tcp''"] this [of "''udp''"] show "rdr_line (pf_rule_text (Snat iface addr)) = None"
    unfolding line by (auto simp: rdr_line_def split: option.splits)
  show "NL \<notin> set (pf_rule_text (Snat iface addr))"
    using iface_chars_notin [OF i] addr_chars_notin [OF a] by (auto simp: formatSnatRule_def NL_def)
  show "chomp_cr (pf_rule_text (Snat iface addr)) = pf_rule_text (Snat iface addr)"
    by (simp add: chomp_cr_def formatSnatRule_def)
qed

lemma rdr_text_line:
  assumes ok: "pf_rule_ok (Rdr eq iface proto lo hi addr jlo jhi)"
  shows "NL \<notin> set (pf_rule_text (Rdr eq iface proto lo hi addr jlo jhi))"
    and "chomp_cr (pf_rule_text (Rdr eq iface proto lo hi addr jlo jhi)) = pf_rule_text (Rdr eq iface proto lo hi addr jlo jhi)"
proof -
  let ?ws = "rdr_head iface proto @ ''port'' # host_words eq lo hi @ rdr_tail addr jlo jhi"
  have i: "validateExternalIface iface = []" and a: "validateRuleAddress addr = []" and p: "proto \<in> {''tcp'', ''udp''}"
    using ok by (auto simp: validateProto_def fail_if_def split: if_splits)
  have no: "c \<notin> set (join SP ws)" if "\<And>w. w \<in> set ws \<Longrightarrow> c \<notin> set w" "c \<noteq> SP" for c ws
    using that by (induction SP ws rule: join.induct) auto
  show "NL \<notin> set (pf_rule_text (Rdr eq iface proto lo hi addr jlo jhi))"
    unfolding rdr_words by (rule no [OF rdr_word_chars(2) [OF i a p]]) (simp_all add: NL_def)
  have "CHR 0x0D \<notin> set (join SP ?ws)"
    by (rule no [OF rdr_word_chars(3) [OF i a p]]) simp_all
  then show "chomp_cr (pf_rule_text (Rdr eq iface proto lo hi addr jlo jhi)) = pf_rule_text (Rdr eq iface proto lo hi addr jlo jhi)"
    unfolding rdr_words chomp_cr_def using last_in_set by metis
qed

fun forwards :: "string \<Rightarrow> nat \<Rightarrow> pf_rule \<Rightarrow> bool" where
  "forwards proto port (Snat iface addr) \<longleftrightarrow> False"
| "forwards proto port (Rdr eq iface proto' lo hi addr jlo jhi) \<longleftrightarrow> proto' = proto \<and> min lo hi \<le> port \<and> port \<le> max lo hi"

lemma overlap_iff:
  "(a :: nat) \<le> b \<Longrightarrow> c \<le> d \<Longrightarrow> (a \<le> d \<and> c \<le> b) \<longleftrightarrow> (\<exists>p. a \<le> p \<and> p \<le> b \<and> c \<le> p \<and> p \<le> d)"
  by (auto intro: exI [of _ "max a c"])

text \<open>
  The warning about host ports is exact. For every listing of translation rules of the shape the
  program loads (any mixture of source translations and redirections, single ports or ranges in either
  order, as loaded or with the equals sign of the normalised form), a port range of a protocol is
  reported as taken exactly when some redirection of that protocol forwards one of its ports.
  (A redirection on an interface literally named \<^verbatim>\<open>port\<close> is excluded: the reader takes that word for the
  port keyword and overlooks the rule.)
\<close>

theorem rdr_collision_exact:
  assumes "\<forall>r \<in> set rules. pf_rule_ok r"
  shows "rdrHostPortTaken (parseRdrHostPorts (concat (map (\<lambda>r. pf_rule_text r @ [NL]) rules))) proto lo hi \<longleftrightarrow>
         (\<exists>r \<in> set rules. \<exists>port. min lo hi \<le> port \<and> port \<le> max lo hi \<and> forwards proto port r)"
proof -
  have line: "NL \<notin> set (pf_rule_text r) \<and> chomp_cr (pf_rule_text r) = pf_rule_text r" if "pf_rule_ok r" for r
    using that snat_line_text(2,3) rdr_text_line by (cases r) blast+
  have "getlines (concat (map (\<lambda>l. l @ [NL]) (map pf_rule_text rules))) = map pf_rule_text rules"
    using assms line by (intro getlines_lines) auto
  then have lines: "parseRdrHostPorts (concat (map (\<lambda>r. pf_rule_text r @ [NL]) rules)) =
      List.map_filter (\<lambda>line. rdr_line (chomp_cr line)) (map pf_rule_text rules)"
    by (simp add: parseRdrHostPorts_def comp_def)
  have "rdrHostPortTaken (List.map_filter (\<lambda>line. rdr_line (chomp_cr line)) (map pf_rule_text rules)) proto lo hi \<longleftrightarrow>
      (\<exists>r \<in> set rules. \<exists>port. min lo hi \<le> port \<and> port \<le> max lo hi \<and> forwards proto port r)"
    using assms
  proof (induction rules)
    case Nil
    then show ?case by (simp add: rdrHostPortTaken_def List.map_filter_def)
  next
    case (Cons r rules)
    have one: "(case rdr_line (pf_rule_text r) of None \<Rightarrow> False
        | Some t \<Rightarrow> rp_proto t = proto \<and> rp_lo t \<le> max lo hi \<and> min lo hi \<le> rp_hi t) \<longleftrightarrow>
        (\<exists>port. min lo hi \<le> port \<and> port \<le> max lo hi \<and> forwards proto port r)"
    proof (cases r)
      case (Snat iface addr)
      then show ?thesis using Cons.prems snat_line_text(1) by simp
    next
      case (Rdr eq iface proto' l h addr jlo jhi)
      then have "pf_rule_ok (Rdr eq iface proto' l h addr jlo jhi)" using Cons.prems by simp
      from rdr_line_text [OF this] Rdr show ?thesis
        using overlap_iff [of "min l h" "max l h" "min lo hi" "max lo hi"] by (auto simp del: pf_rule_text.simps)
    qed
    have "chomp_cr (pf_rule_text r) = pf_rule_text r" using line Cons.prems by simp
    then show ?case using Cons one
      by (auto simp: rdrHostPortTaken_def List.map_filter_def Let_def split: option.splits)
  qed
  then show ?thesis by (simp only: lines)
qed

theorem rdr_collision_exact_witness:
  "let rules = [Snat ''em0'' ''10.66.0.5'', Rdr True ''em0'' ''tcp'' 80 80 ''10.66.0.5'' 80 80,
                Rdr False ''em0'' ''udp'' 5010 5000 ''10.66.0.6'' 5000 5010];
       taken = parseRdrHostPorts (concat (map (\<lambda>r. pf_rule_text r @ [NL]) rules)) in
   rdrHostPortTaken taken ''udp'' 4990 5000 \<and> \<not> rdrHostPortTaken taken ''tcp'' 81 90"
proof -
  have "\<forall>r \<in> set [Snat ''em0'' ''10.66.0.5'', Rdr True ''em0'' ''tcp'' 80 80 ''10.66.0.5'' 80 80,
                Rdr False ''em0'' ''udp'' 5010 5000 ''10.66.0.6'' 5000 5010]. pf_rule_ok r"
    by (simp add: validateExternalIface_def iface_char_def is_alnum_def validateRuleAddress_def is_digit_def
      validateProto_def ports_ok_def validatePort_def)
  from rdr_collision_exact [OF this] show ?thesis by (auto intro: exI [of _ 5000])
qed

end
