(* ===== verification/Throttle.thy ===== *)
theory Throttle
  imports AutoFw
begin

text \<open>
  \<^verbatim>\<open>crate throttle\<close>: \<^verbatim>\<open>lib/throttle_pure.cpp\<close> (the validators of rates, bursts, queues and addresses, the
  numbers of the dummynet pipes and of the rules that bind them, the command lines) and
  \<^verbatim>\<open>lib/throttle.cpp\<close> (the command). Whether a command succeeds is a parameter; the model returns the
  commands that were run, in order, and the error, if any. Signed arithmetic on \<^verbatim>\<open>long\<close> keeps the
  two's-complement value of a 64-bit target.
\<close>

section \<open>Validators\<close>

definition isAllDigits_thr :: "string \<Rightarrow> bool" where
  "isAllDigits_thr s \<longleftrightarrow> s \<noteq> [] \<and> list_all is_digit s"

definition endsWith_thr :: "string \<Rightarrow> string \<Rightarrow> bool" where
  "endsWith_thr s suf \<longleftrightarrow> length suf \<le> length s \<and> drop (length s - length suf) s = suf"

fun numeric_loop :: "bool \<Rightarrow> bool \<Rightarrow> string \<Rightarrow> bool" where
  "numeric_loop sawDot sawDigit [] = sawDigit"
| "numeric_loop sawDot sawDigit (c # cs) =
     (if is_digit c then numeric_loop sawDot True cs
      else if c = CHR ''.'' \<and> \<not> sawDot then numeric_loop True sawDigit cs
      else False)"

definition numericPrefixOk :: "string \<Rightarrow> nat \<Rightarrow> bool" where
  "numericPrefixOk s bodyLen \<longleftrightarrow> bodyLen \<noteq> 0 \<and> numeric_loop False False (take bodyLen s)"

text \<open>\<^verbatim>\<open>for (suf : sufs) if (endsWith(s, suf)) return ...\<close>: the first suffix that fits decides.\<close>

definition suffix_check :: "string \<Rightarrow> string \<Rightarrow> string list \<Rightarrow> err option" where
  "suffix_check what s sufs =
     map_option (\<lambda>suf. if numericPrefixOk s (length s - length suf) then []
                       else what @ '' body must be a number, got '' @ quoted s)
       (List.find (endsWith_thr s) sufs)"

definition validateRate :: "string \<Rightarrow> err" where
  "validateRate rate =
     fail_if (rate = []) ''rate is empty''
     (fail_if (length rate > 32) ''rate is unreasonably long''
     (case suffix_check ''rate'' rate [''Kbit/s'', ''Mbit/s'', ''Gbit/s''] of
        Some e \<Rightarrow> e
      | None \<Rightarrow> (case suffix_check ''rate'' rate [''KB/s'', ''MB/s'', ''GB/s''] of
          Some e \<Rightarrow> e
        | None \<Rightarrow> if isAllDigits_thr rate then []
            else ''rate must be '' @ quoted ''NK?bit/s'' @ '', '' @ quoted ''NK?B/s'' @ '', or a plain integer (bytes/s); got '' @ quoted rate)))"

definition validateBurst :: "string \<Rightarrow> err" where
  "validateBurst burst =
     (if burst = [] then []
      else fail_if (length burst > 32) ''burst is unreasonably long''
      (case suffix_check ''burst'' burst [''KB'', ''MB'', ''GB''] of
         Some e \<Rightarrow> e
       | None \<Rightarrow> if isAllDigits_thr burst then []
           else ''burst must be '' @ quoted ''NK?B'' @ '' or a plain integer (bytes); got '' @ quoted burst))"

definition validateQueue :: "string \<Rightarrow> err" where
  "validateQueue queue =
     (if queue = [] then []
      else fail_if (length queue > 32) ''queue is unreasonably long''
      (if isAllDigits_thr queue then
         let n = acc_long 0 queue in
         if n < 1 \<or> n > 1000 then ''queue (slot count) must be 1..1000'' else []
       else case suffix_check ''queue'' queue [''KB'', ''MB''] of
         Some e \<Rightarrow> e
       | None \<Rightarrow> ''queue must be a slot count (1..1000) or '' @ quoted ''NK?B'' @ ''; got '' @ quoted queue))"

fun jail_ip_loop :: "nat \<Rightarrow> string \<Rightarrow> err" where
  "jail_ip_loop 0 rest = fail_if (\<not> isV4Octet rest) ''jail IP has invalid octet'' []"
| "jail_ip_loop (Suc k) rest =
     (case cut_at (CHR ''.'') rest of
        None \<Rightarrow> ''jail IP missing octet''
      | Some (octet, rest') \<Rightarrow> fail_if (\<not> isV4Octet octet) ''jail IP has invalid octet'' (jail_ip_loop k rest'))"

definition validateIp_thr :: "string \<Rightarrow> err" where
  "validateIp_thr ip =
     fail_if (ip = []) ''jail IP is empty''
     (fail_if (length ip > 15) ''jail IP longer than 15 chars''
     (jail_ip_loop 3 ip))"

section \<open>Numbers and command lines\<close>

definition kPipeBase :: u32 where "kPipeBase = 10000"
definition kRuleBase :: u32 where "kRuleBase = 20000"

definition pipeIdForJail :: "int \<Rightarrow> bool \<Rightarrow> u32" where
  "pipeIdForJail jid egress = kPipeBase + word_of_int (jid * 2) + (if egress then 1 else 0)"

definition thr_ruleIdForJail :: "int \<Rightarrow> bool \<Rightarrow> u32" where
  "thr_ruleIdForJail jid egress = kRuleBase + word_of_int (jid * 2) + (if egress then 1 else 0)"

definition validateJidForIds :: "int \<Rightarrow> err" where
  "validateJidForIds jid =
     fail_if (jid < 1) ''jid must be >= 1''
     (fail_if (jid > 4999)
        (''jid '' @ dec_int jid @ '' exceeds the throttle id space (max jid 4999): rule ids would reach the auto-fw NAT range at 30000'')
        [])"

record ThrottleSpec =
  ingressRate :: string
  ingressBurst :: string
  egressRate :: string
  egressBurst :: string
  ts_queue :: string

definition validateSpec_thr :: "ThrottleSpec \<Rightarrow> err" where
  "validateSpec_thr s =
     check_pfx ''ingress rate: '' (if ingressRate s \<noteq> [] then validateRate (ingressRate s) else [])
     (check_pfx ''egress rate: '' (if egressRate s \<noteq> [] then validateRate (egressRate s) else [])
     (check_pfx ''ingress burst: '' (validateBurst (ingressBurst s))
     (check_pfx ''egress burst: '' (validateBurst (egressBurst s))
     (check_pfx ''queue: '' (validateQueue (ts_queue s))
     (fail_if (ingressBurst s \<noteq> [] \<and> ingressRate s = []) ''ingress burst given without ingress rate''
     (fail_if (egressBurst s \<noteq> [] \<and> egressRate s = []) ''egress burst given without egress rate'' []))))))"

definition hasAnyThrottle :: "ThrottleSpec \<Rightarrow> bool" where
  "hasAnyThrottle s \<longleftrightarrow> ingressRate s \<noteq> [] \<or> egressRate s \<noteq> []"

definition buildPipeConfigArgv :: "u32 \<Rightarrow> string \<Rightarrow> string \<Rightarrow> string \<Rightarrow> string list" where
  "buildPipeConfigArgv pipeId rate burst queue =
     [''/sbin/ipfw'', ''pipe'', udec pipeId, ''config'', ''bw'', rate]
     @ (if burst \<noteq> [] then [''burst'', burst] else [])
     @ (if queue \<noteq> [] then [''queue'', queue] else [])"

definition buildBindArgv :: "u32 \<Rightarrow> u32 \<Rightarrow> string \<Rightarrow> bool \<Rightarrow> string list" where
  "buildBindArgv ruleId pipeId jailIp egress =
     (if egress
      then [''/sbin/ipfw'', ''add'', udec ruleId, ''pipe'', udec pipeId, ''ip'', ''from'', jailIp, ''to'', ''any'', ''out'']
      else [''/sbin/ipfw'', ''add'', udec ruleId, ''pipe'', udec pipeId, ''ip'', ''from'', ''any'', ''to'', jailIp, ''in''])"

definition buildRuleDeleteArgv :: "u32 \<Rightarrow> string list" where
  "buildRuleDeleteArgv ruleId = [''/sbin/ipfw'', ''delete'', udec ruleId]"

definition buildPipeDeleteArgv :: "u32 \<Rightarrow> string list" where
  "buildPipeDeleteArgv pipeId = [''/sbin/ipfw'', ''pipe'', udec pipeId, ''delete'']"

definition buildPipeShowArgv :: "u32 \<Rightarrow> string list" where
  "buildPipeShowArgv pipeId = [''/sbin/ipfw'', ''pipe'', ''show'', udec pipeId]"

section \<open>The command\<close>

text \<open>The commands run so far and the error that ended the run, if one did.\<close>

type_synonym run = "string list list \<times> err option"

definition and_run :: "run \<Rightarrow> run \<Rightarrow> run" where
  "and_run r next = (case snd r of Some e \<Rightarrow> r | None \<Rightarrow> (fst r @ fst next, snd next))"

text \<open>\<^verbatim>\<open>Util::execCommand\<close> throws when the command fails; \<^verbatim>\<open>softDelete\<close> ignores the failure.\<close>

definition exec_thr :: "(string list \<Rightarrow> err option) \<Rightarrow> string list \<Rightarrow> run" where
  "exec_thr exec argv = ([argv], exec argv)"

definition softDelete :: "string list \<Rightarrow> run" where
  "softDelete argv = ([argv], None)"

definition clearJailThrottle :: "int \<Rightarrow> run" where
  "clearJailThrottle jid =
     ([buildRuleDeleteArgv (thr_ruleIdForJail jid False), buildRuleDeleteArgv (thr_ruleIdForJail jid True),
       buildPipeDeleteArgv (pipeIdForJail jid False), buildPipeDeleteArgv (pipeIdForJail jid True)], None)"

definition applyDirection ::
  "(string list \<Rightarrow> err option) \<Rightarrow> int \<Rightarrow> string \<Rightarrow> string \<Rightarrow> string \<Rightarrow> string \<Rightarrow> bool \<Rightarrow> run" where
  "applyDirection exec jid jailIp rate burst queue egress =
     (if validateJidForIds jid \<noteq> [] then ([], Some (validateJidForIds jid))
      else let pipeId = pipeIdForJail jid egress; ruleId = thr_ruleIdForJail jid egress in
        and_run (softDelete (buildRuleDeleteArgv ruleId))
        (and_run (softDelete (buildPipeDeleteArgv pipeId))
        (and_run (exec_thr exec (buildPipeConfigArgv pipeId rate burst queue))
        (exec_thr exec (buildBindArgv ruleId pipeId jailIp egress)))))"

definition show_pipes :: "int \<Rightarrow> run" where
  "show_pipes jid = ([buildPipeShowArgv (pipeIdForJail jid False), buildPipeShowArgv (pipeIdForJail jid True)], None)"

record jail_info =
  ji_name :: string
  ji_jid :: int
  ji_ip4 :: string

record throttle_args =
  throttleTarget :: string
  throttleClear :: bool
  throttleShow :: bool
  throttleSpec :: ThrottleSpec

definition throttleCommand :: "(string \<Rightarrow> jail_info option) \<Rightarrow> (string list \<Rightarrow> err option) \<Rightarrow> throttle_args \<Rightarrow> run" where
  "throttleCommand findContainer exec args =
     (if throttleTarget args = []
      then ([], Some (''the '' @ quoted ''throttle'' @ '' command requires a jail name (positional arg)''))
      else case findContainer (throttleTarget args) of
        None \<Rightarrow> ([], Some (''jail '' @ quoted (throttleTarget args) @ '' not found or not running''))
      | Some jail \<Rightarrow>
        let cleared = (if throttleClear args then clearJailThrottle (ji_jid jail) else ([], None)) in
        if throttleClear args \<and> \<not> throttleShow args then cleared
        else and_run cleared
          (let spec = throttleSpec args in
           if validateSpec_thr spec \<noteq> [] then ([], Some (validateSpec_thr spec))
           else if throttleShow args \<and> \<not> throttleClear args \<and> \<not> hasAnyThrottle spec then show_pipes (ji_jid jail)
           else if \<not> hasAnyThrottle spec
             then ([], Some ''at least one of --ingress, --egress, --clear, or --show is required'')
           else if validateIp_thr (ji_ip4 jail) \<noteq> []
             then ([], Some (''jail '' @ quoted (ji_name jail) @ '' has no usable IPv4 address: '' @ validateIp_thr (ji_ip4 jail)))
           else and_run (if ingressRate spec \<noteq> []
                         then applyDirection exec (ji_jid jail) (ji_ip4 jail) (ingressRate spec) (ingressBurst spec) (ts_queue spec) False
                         else ([], None))
             (and_run (if egressRate spec \<noteq> []
                       then applyDirection exec (ji_jid jail) (ji_ip4 jail) (egressRate spec) (egressBurst spec) (ts_queue spec) True
                       else ([], None))
               (if throttleShow args then show_pipes (ji_jid jail) else ([], None)))))"

section \<open>The command stays within the numbers of its jail\<close>

lemma thr_ids_value:
  assumes "0 \<le> jid" "jid \<le> 20000"
  shows "unat (pipeIdForJail jid b) = 10000 + 2 * nat jid + of_bool b"
    and "unat (thr_ruleIdForJail jid b) = 20000 + 2 * nat jid + of_bool b"
proof -
  have d: "unat (word_of_int (jid * 2) :: u32) = 2 * nat jid" using unat_of_jid [of "jid * 2"] assms
    by (simp add: nat_mult_distrib del: wi_hom_mult [symmetric] of_int_mult)
  have n: "nat jid \<le> 20000" using assms by simp
  have p: "unat (10000 + word_of_int (jid * 2) :: u32) = 10000 + 2 * nat jid"
    and r: "unat (20000 + word_of_int (jid * 2) :: u32) = 20000 + 2 * nat jid"
    using d n by (simp_all add: unat_small_add)
  have bit: "unat (w + (if b then 1 else 0)) = unat w + of_bool b" if "unat w < 100000" for w :: u32
    using that by (cases b) (simp_all add: unat_small_add)
  show "unat (pipeIdForJail jid b) = 10000 + 2 * nat jid + of_bool b"
    using p n bit [of "10000 + word_of_int (jid * 2)"] unfolding pipeIdForJail_def kPipeBase_def by linarith
  show "unat (thr_ruleIdForJail jid b) = 20000 + 2 * nat jid + of_bool b"
    using r n bit [of "20000 + word_of_int (jid * 2)"] unfolding thr_ruleIdForJail_def kRuleBase_def by linarith
qed

lemma thr_jid_range: "validateJidForIds jid = [] \<longleftrightarrow> 1 \<le> jid \<and> jid \<le> 4999"
  by (auto simp: validateJidForIds_def)

text \<open>The rules and pipes a command changes, by their printed numbers; showing a pipe changes nothing.\<close>

datatype thr_object = Thr_rule string | Thr_pipe string

fun touches :: "string list \<Rightarrow> thr_object set" where
  "touches (prog # cmd # n # rest) =
     (if cmd = ''delete'' then {Thr_rule n}
      else if cmd = ''add'' then {Thr_rule n} \<union> (if rest \<noteq> [] \<and> hd rest = ''pipe'' then {Thr_pipe (hd (tl rest))} else {})
      else if cmd = ''pipe'' \<and> n \<noteq> ''show'' then {Thr_pipe n} else {})"
| "touches _ = {}"

definition thr_objects :: "int \<Rightarrow> thr_object set" where
  "thr_objects jid = (\<Union>b. {Thr_rule (udec (thr_ruleIdForJail jid b)), Thr_pipe (udec (pipeIdForJail jid b))})"

definition autofw_rules :: "int \<Rightarrow> thr_object set" where
  "autofw_rules jid = {Thr_rule (udec (ruleIdForJail jid)), Thr_rule (udec (loopbackRuleIdForJail jid))}"

lemma thr_objects_disjoint:
  assumes "1 \<le> jid" "jid \<le> 4999" "1 \<le> jid'" "jid' \<le> 4999" "jid \<noteq> jid'"
  shows "thr_objects jid \<inter> thr_objects jid' = {}"
proof -
  have "nat jid \<noteq> nat jid'" using assms by simp
  moreover have "2 * a + of_bool b \<noteq> 2 * a' + (of_bool b' :: nat)" if "a \<noteq> a'" for a a' :: nat and b b'
    using that double_not_eq_Suc_double [of a a'] double_not_eq_Suc_double [of a' a] by (cases b; cases b') auto
  ultimately have "2 * nat jid + of_bool b \<noteq> 2 * nat jid' + of_bool b'" for b b' by blast
  then show ?thesis using assms by (auto simp: thr_objects_def udec_def thr_ids_value)
qed

lemma thr_autofw_disjoint:
  assumes "1 \<le> jid" "jid \<le> 4999" "1 \<le> jid'" "jid' \<le> 9999"
  shows "thr_objects jid \<inter> autofw_rules jid' = {}"
proof -
  have lt: "20000 + 2 * nat jid + of_bool b < (30000 :: nat)" for b using assms by (cases b) simp_all
  have "20000 + 2 * nat jid + of_bool b \<noteq> 40000 + k \<and> 20000 + 2 * nat jid + of_bool b \<noteq> 40001 + k" for b and k :: nat
    using lt [of b] by linarith
  then show ?thesis using assms by (auto simp: thr_objects_def autofw_rules_def udec_def thr_ids_value ids_value)
qed

lemma udec_not_show: "udec w \<noteq> ''show''"
proof
  assume "udec w = ''show''"
  then have "list_all is_digit ''show''" using dec_digits [of "unat w"] by (simp add: udec_def)
  then show False by (simp add: is_digit_def)
qed

lemma command_touches [simp]:
  "touches (buildRuleDeleteArgv r) = {Thr_rule (udec r)}"
  "touches (buildPipeDeleteArgv p) = {Thr_pipe (udec p)}"
  "touches (buildPipeConfigArgv p rate burst queue) = {Thr_pipe (udec p)}"
  "touches (buildBindArgv r p ip e) = {Thr_rule (udec r), Thr_pipe (udec p)}"
  "touches (buildPipeShowArgv p) = {}"
  by (auto simp: buildRuleDeleteArgv_def buildPipeDeleteArgv_def buildPipeConfigArgv_def buildBindArgv_def
      buildPipeShowArgv_def udec_not_show)

lemma and_run_cmds: "c \<in> set (fst (and_run r s)) \<Longrightarrow> c \<in> set (fst r) \<or> c \<in> set (fst s)"
  by (auto simp: and_run_def split: option.splits)

lemma direction_touches:
  "c \<in> set (fst (applyDirection exec jid ip rate burst queue e)) \<Longrightarrow>
     touches c \<subseteq> thr_objects jid \<and> validateJidForIds jid = []"
  by (auto simp: applyDirection_def Let_def softDelete_def exec_thr_def thr_objects_def
      dest!: and_run_cmds split: if_splits)

lemma clear_touches: "c \<in> set (fst (clearJailThrottle jid)) \<Longrightarrow> touches c \<subseteq> thr_objects jid"
  by (auto simp: clearJailThrottle_def thr_objects_def)

lemma show_touches: "c \<in> set (fst (show_pipes jid)) \<Longrightarrow> touches c = {}"
  by (auto simp: show_pipes_def)

lemma throttle_touches:
  assumes "findContainer (throttleTarget args) = Some jail" "c \<in> set (fst (throttleCommand findContainer exec args))"
  shows "touches c = {} \<or> touches c \<subseteq> thr_objects (ji_jid jail) \<and> (throttleClear args \<or> validateJidForIds (ji_jid jail) = [])"
  using assms
  by (auto simp: throttleCommand_def Let_def
      dest!: and_run_cmds direction_touches clear_touches show_touches split: if_splits)


text \<open>
  Throttling one jail changes no other jail's firewall. Every ipfw command the throttle command runs,
  whatever fails on the way, changes at most the two rules and two pipes of its own jail; none of
  them is a rule or pipe of another throttled jail (ids 1..4999) or an automatic firewall rule of
  any jail (ids 1..9999). The hypothesis on the id is needed for the clearing option only: setting a
  rate checks the id itself.
\<close>

theorem throttle_confined:
  assumes found: "findContainer (throttleTarget args) = Some jail"
    and own: "throttleClear args \<longrightarrow> 1 \<le> ji_jid jail \<and> ji_jid jail \<le> 4999"
    and cmd: "c \<in> set (fst (throttleCommand findContainer exec args))"
  shows "touches c \<subseteq> thr_objects (ji_jid jail)
    \<and> (\<forall>jid'. 1 \<le> jid' \<longrightarrow> jid' \<le> 4999 \<longrightarrow> jid' \<noteq> ji_jid jail \<longrightarrow> touches c \<inter> thr_objects jid' = {})
    \<and> (\<forall>jid'. 1 \<le> jid' \<longrightarrow> jid' \<le> 9999 \<longrightarrow> touches c \<inter> autofw_rules jid' = {})"
proof (intro conjI impI allI)
  have t: "touches c = {} \<or> touches c \<subseteq> thr_objects (ji_jid jail) \<and> 1 \<le> ji_jid jail \<and> ji_jid jail \<le> 4999"
    using throttle_touches [OF found cmd] own thr_jid_range by blast
  then show "touches c \<subseteq> thr_objects (ji_jid jail)" by blast
  show "touches c \<inter> thr_objects jid' = {}" if "1 \<le> jid'" "jid' \<le> 4999" "jid' \<noteq> ji_jid jail" for jid'
    using t thr_objects_disjoint that by blast
  show "touches c \<inter> autofw_rules jid' = {}" if "1 \<le> jid'" "jid' \<le> 9999" for jid'
    using t thr_autofw_disjoint that by blast
qed

definition sample_throttle :: throttle_args where
  "sample_throttle = \<lparr>throttleTarget = ''web'', throttleClear = True, throttleShow = False,
     throttleSpec = \<lparr>ingressRate = [], ingressBurst = [], egressRate = [], egressBurst = [], ts_queue = []\<rparr>\<rparr>"

theorem throttle_confined_witness:
  "let find = (\<lambda>_. Some \<lparr>ji_name = ''web'', ji_jid = 7, ji_ip4 = ''10.66.0.5''\<rparr>);
       c = buildRuleDeleteArgv (thr_ruleIdForJail 7 True) in
   c \<in> set (fst (throttleCommand find (\<lambda>_. None) sample_throttle))
   \<and> touches c \<subseteq> thr_objects 7 \<and> touches c \<inter> thr_objects 8 = {} \<and> touches c \<inter> autofw_rules 7 = {}"
proof -
  let ?find = "\<lambda>_ :: string. Some \<lparr>ji_name = ''web'', ji_jid = 7, ji_ip4 = ''10.66.0.5''\<rparr>"
  let ?c = "buildRuleDeleteArgv (thr_ruleIdForJail 7 True)"
  have f: "?find (throttleTarget sample_throttle) = Some \<lparr>ji_name = ''web'', ji_jid = 7, ji_ip4 = ''10.66.0.5''\<rparr>" by simp
  have m: "?c \<in> set (fst (throttleCommand ?find (\<lambda>_. None) sample_throttle))"
    by (simp add: throttleCommand_def sample_throttle_def clearJailThrottle_def)
  note T = throttle_confined [OF f _ m]
  have "touches ?c \<subseteq> thr_objects 7" using T by simp
  moreover have "touches ?c \<inter> thr_objects 8 = {}" using T by simp
  moreover have "touches ?c \<inter> autofw_rules 7 = {}" using T by simp
  ultimately show ?thesis using m unfolding Let_def by blast
qed

text \<open>
  Clearing a throttle does not check the id. For a jail whose id is 10000 more than another's, the
  clearing option deletes both automatic firewall rules of that other jail.
\<close>

theorem throttle_clear_unchecked:
  assumes "findContainer (throttleTarget args) = Some jail" "throttleTarget args \<noteq> []" "throttleClear args"
    and "ji_jid jail = jid + 10000" "0 \<le> jid" "jid \<le> 9999"
  shows "{buildIpfwRuleDeleteArgv (ruleIdForJail jid), buildIpfwRuleDeleteArgv (loopbackRuleIdForJail jid)}
           \<subseteq> set (fst (throttleCommand findContainer exec args))"
proof -
  have "thr_ruleIdForJail (jid + 10000) False = ruleIdForJail jid"
    "thr_ruleIdForJail (jid + 10000) True = loopbackRuleIdForJail jid"
    by (simp_all add: thr_ruleIdForJail_def ruleIdForJail_def loopbackRuleIdForJail_def kRuleBase_def kIpfwRuleBase_def algebra_simps)
  moreover have "set (fst (clearJailThrottle (ji_jid jail))) \<subseteq> set (fst (throttleCommand findContainer exec args))"
    using assms(1-3) by (auto simp: throttleCommand_def Let_def and_run_def clearJailThrottle_def split: option.splits)
  ultimately show ?thesis
    using assms(4) by (simp add: clearJailThrottle_def buildRuleDeleteArgv_def buildIpfwRuleDeleteArgv_def)
qed

theorem throttle_clear_unchecked_witness:
  "buildIpfwRuleDeleteArgv (ruleIdForJail 1) \<in> set (fst (throttleCommand
      (\<lambda>_. Some \<lparr>ji_name = ''web'', ji_jid = 10001, ji_ip4 = ''10.66.0.5''\<rparr>) (\<lambda>_. None) sample_throttle))"
  using throttle_clear_unchecked [of "\<lambda>_. Some \<lparr>ji_name = ''web'', ji_jid = 10001, ji_ip4 = ''10.66.0.5''\<rparr>"
      sample_throttle "\<lparr>ji_name = ''web'', ji_jid = 10001, ji_ip4 = ''10.66.0.5''\<rparr>" 1 "\<lambda>_. None"]
  by (simp add: sample_throttle_def)

section \<open>The slot count of a queue\<close>

text \<open>Asking to clear and to show is refused after the clearing was done.\<close>

lemma clear_and_show_refused:
  assumes "findContainer (throttleTarget args) = Some jail" "throttleTarget args \<noteq> []" "throttleClear args" "throttleShow args"
    and "validateSpec_thr (throttleSpec args) = []" "\<not> hasAnyThrottle (throttleSpec args)"
  shows "throttleCommand findContainer exec args =
    (fst (clearJailThrottle (ji_jid jail)), Some ''at least one of --ingress, --egress, --clear, or --show is required'')"
  using assms by (simp add: throttleCommand_def and_run_def clearJailThrottle_def)



end
