(* ===== verification/Ctx.thy ===== *)
theory Ctx
  imports AutoFw StdMap
begin

text \<open>
  The two context files of privileged runs, \<^verbatim>\<open>lib/ctx.cpp\<close>: \<^verbatim>\<open>FwUsers\<close>, the process ids that use the shared
  outbound NAT rule, and \<^verbatim>\<open>FwSlots\<close>, the ipfw slot of each process. An object exists between \<^verbatim>\<open>lock\<close> and
  \<^verbatim>\<open>unlock\<close>, under an exclusive lock on its file; it reads the file lazily and writes it back when
  something changed. The file is a text, and whether a process id exists (\<^verbatim>\<open>kill(pid, 0)\<close>) is a parameter.
\<close>

section \<open>Reading numbers\<close>

text \<open>\<^verbatim>\<open>getline(3)\<close> lines, cut at a null byte by the conversion to \<^verbatim>\<open>std::string\<close>; the newline it keeps does not matter to the readers below.\<close>

definition file_lines :: "string \<Rightarrow> string list" where
  "file_lines content = map (takeWhile (\<lambda>c. c \<noteq> CHR 0x00)) (getlines content)"

definition sign_digits :: "string \<Rightarrow> (bool \<times> string \<times> string) option" where
  "sign_digits s =
     (let t = dropWhile white s;
          neg = (t \<noteq> [] \<and> hd t = CHR ''-'');
          u = (if t \<noteq> [] \<and> (hd t = CHR ''-'' \<or> hd t = CHR ''+'') then tl t else t);
          ds = takeWhile is_digit u in
      if ds = [] then None else Some (neg, ds, drop (length ds) u))"

text \<open>A value converted to the 32-bit signed \<^verbatim>\<open>pid_t\<close>.\<close>

definition to_pid :: "int \<Rightarrow> int" where
  "to_pid v = (v + 2 ^ 31) mod 2 ^ 32 - 2 ^ 31"

text \<open>\<^verbatim>\<open>pids.insert(std::stoul(line))\<close>\<close>

definition stoul_pid :: "string \<Rightarrow> int option" where
  "stoul_pid line =
     (case sign_digits line of
        None \<Rightarrow> None
      | Some (neg, ds, _) \<Rightarrow>
          if dec_val ds \<ge> 2 ^ 64 then None
          else Some (to_pid (if neg then 2 ^ 64 - int (dec_val ds) else int (dec_val ds))))"

text \<open>\<^verbatim>\<open>is >> pid\<close> and \<^verbatim>\<open>is >> slot\<close>\<close>

definition read_pid :: "string \<Rightarrow> (int \<times> string) option" where
  "read_pid s =
     (case sign_digits s of
        None \<Rightarrow> None
      | Some (neg, ds, r) \<Rightarrow>
          let v = (if neg then - int (dec_val ds) else int (dec_val ds)) in
          if v < - (2 ^ 31) \<or> v \<ge> 2 ^ 31 then None else Some (v, r))"

definition read_unsigned :: "string \<Rightarrow> (nat \<times> string) option" where
  "read_unsigned s =
     (case sign_digits s of
        None \<Rightarrow> None
      | Some (neg, ds, r) \<Rightarrow>
          if dec_val ds \<ge> 2 ^ 32 then None
          else Some (if neg then nat ((- int (dec_val ds)) mod 2 ^ 32) else dec_val ds, r))"

section \<open>FwUsers\<close>

record fw_users =
  fu_file :: string
  fu_pids :: "int list"
  fu_inMemory :: bool
  fu_changed :: bool

definition users_lock :: "string \<Rightarrow> fw_users" where
  "users_lock content = \<lparr>fu_file = content, fu_pids = [], fu_inMemory = False, fu_changed = False\<rparr>"

text \<open>The set of process ids is a strictly increasing list, which is the order it is printed in.\<close>

definition users_text :: "int list \<Rightarrow> string" where
  "users_text ps = concat (map (\<lambda>p. dec_int p @ [NL]) ps)"

definition users_unlock :: "fw_users \<Rightarrow> string" where
  "users_unlock u = (if fu_changed u then users_text (fu_pids u) else fu_file u)"

definition users_isEmpty :: "fw_users \<Rightarrow> bool" where
  "users_isEmpty u = (if fu_inMemory u then fu_pids u = [] else fu_file u = [])"

definition set_insert :: "int \<Rightarrow> int list \<Rightarrow> int list" where
  "set_insert p ps = (if p \<in> set ps then ps else insort p ps)"

definition users_add :: "int \<Rightarrow> fw_users \<Rightarrow> fw_users" where
  "users_add pid u =
     (if fu_inMemory u then u\<lparr>fu_pids := set_insert pid (fu_pids u), fu_changed := True\<rparr>
      else u\<lparr>fu_file := fu_file u @ dec_int pid @ [NL]\<rparr>)"

definition users_read :: "string \<Rightarrow> int list \<Rightarrow> int list" where
  "users_read content ps =
     fold (\<lambda>line acc. if line = [] then acc else case stoul_pid line of Some p \<Rightarrow> set_insert p acc | None \<Rightarrow> acc)
       (file_lines content) ps"

definition users_readIntoMemory :: "fw_users \<Rightarrow> fw_users" where
  "users_readIntoMemory u = u\<lparr>fu_pids := users_read (fu_file u) (fu_pids u), fu_inMemory := True\<rparr>"

definition users_garbageCollect :: "(int \<Rightarrow> bool) \<Rightarrow> fw_users \<Rightarrow> fw_users" where
  "users_garbageCollect alive u0 =
     (let u = (if fu_inMemory u0 then u0 else users_readIntoMemory u0) in
      u\<lparr>fu_pids := filter alive (fu_pids u),
        fu_changed := fu_changed u \<or> list_ex (\<lambda>p. \<not> alive p) (fu_pids u)\<rparr>)"

definition users_del :: "(int \<Rightarrow> bool) \<Rightarrow> int \<Rightarrow> fw_users \<Rightarrow> fw_users" where
  "users_del alive pid u0 =
     (let u = users_garbageCollect alive u0 in
      u\<lparr>fu_pids := filter (\<lambda>p. p \<noteq> pid) (fu_pids u), fu_changed := True\<rparr>)"

section \<open>FwSlots\<close>

record fw_slots =
  fs_file :: string
  fs_slots :: "(int, nat) stdmap"
  fs_inMemory :: bool
  fs_changed :: bool

definition slots_lock :: "string \<Rightarrow> fw_slots" where
  "slots_lock content = \<lparr>fs_file = content, fs_slots = [], fs_inMemory = False, fs_changed = False\<rparr>"

definition slot_line :: "int \<times> nat \<Rightarrow> string" where
  "slot_line kv = dec_int (fst kv) @ '' '' @ dec (snd kv)"

definition slots_text :: "(int, nat) stdmap \<Rightarrow> string" where
  "slots_text m = concat (map (\<lambda>kv. slot_line kv @ [NL]) m)"

definition slots_unlock :: "fw_slots \<Rightarrow> string" where
  "slots_unlock f = (if fs_changed f then slots_text (fs_slots f) else fs_file f)"

definition parse_slot :: "string \<Rightarrow> (int \<times> nat) option" where
  "parse_slot line =
     (case read_pid line of
        None \<Rightarrow> None
      | Some (pid, r) \<Rightarrow> (case read_unsigned r of None \<Rightarrow> None | Some (s, _) \<Rightarrow> Some (pid, s)))"

definition slots_read :: "string \<Rightarrow> (int, nat) stdmap \<Rightarrow> (int, nat) stdmap" where
  "slots_read content m =
     fold (\<lambda>line acc. case parse_slot line of Some (pid, s) \<Rightarrow> map_put pid s acc | None \<Rightarrow> acc) (file_lines content) m"

definition slots_readIntoMemory :: "fw_slots \<Rightarrow> fw_slots" where
  "slots_readIntoMemory f = f\<lparr>fs_slots := slots_read (fs_file f) (fs_slots f), fs_inMemory := True\<rparr>"

definition slots_garbageCollect :: "(int \<Rightarrow> bool) \<Rightarrow> fw_slots \<Rightarrow> fw_slots" where
  "slots_garbageCollect alive f = f\<lparr>fs_slots := filter (\<lambda>kv. alive (fst kv)) (fs_slots f)\<rparr>"

text \<open>\<^verbatim>\<open>while (usedSlots.count(slot)) slot++\<close>: one of the first \<^verbatim>\<open>n + 1\<close> numbers is free of \<^verbatim>\<open>n\<close> used ones.\<close>

definition lowest_unused :: "nat list \<Rightarrow> nat" where
  "lowest_unused used = the (List.find (\<lambda>i. i \<notin> set used) [0..<Suc (length used)])"

definition slots_allocate :: "(int \<Rightarrow> bool) \<Rightarrow> int \<Rightarrow> fw_slots \<Rightarrow> nat \<times> fw_slots" where
  "slots_allocate alive pid f0 =
     (let f1 = (if fs_inMemory f0 then f0 else slots_readIntoMemory f0);
          f = slots_garbageCollect alive f1;
          s = lowest_unused (map snd (fs_slots f)) in
      (s, f\<lparr>fs_slots := map_put pid s (fs_slots f), fs_changed := True\<rparr>))"

definition slots_release :: "int \<Rightarrow> fw_slots \<Rightarrow> fw_slots" where
  "slots_release pid f0 =
     (let f = (if fs_inMemory f0 then f0 else slots_readIntoMemory f0) in
      f\<lparr>fs_slots := map_erase pid (fs_slots f), fs_changed := True\<rparr>)"

section \<open>The files read back\<close>

definition pid_ok :: "int \<Rightarrow> bool" where
  "pid_ok p \<longleftrightarrow> 0 < p \<and> p < 2 ^ 31"

lemma sign_digits_dec: "r = [] \<or> \<not> is_digit (hd r) \<Longrightarrow> sign_digits (dec n @ r) = Some (False, dec n, r)"
proof -
  assume r: "r = [] \<or> \<not> is_digit (hd r)"
  obtain c cs where d: "dec n = c # cs" by (cases "dec n") (simp_all add: dec_nonempty [THEN notE])
  have c: "is_digit c" using dec_digits [of n] d by simp
  then have "\<not> white c" "c \<noteq> CHR ''-''" "c \<noteq> CHR ''+''" by (auto simp: is_digit_def white_def)
  moreover have "takeWhile is_digit (dec n @ r) = dec n"
    using r dec_digits [of n] by (cases r) (auto simp: list_all_iff takeWhile_append)
  ultimately show ?thesis by (simp add: sign_digits_def Let_def d)
qed

lemma stoul_pid_dec: "pid_ok p \<Longrightarrow> stoul_pid (dec_int p) = Some p"
  using sign_digits_dec [of "[]" "nat p"] by (auto simp: stoul_pid_def pid_ok_def dec_int_def to_pid_def)

lemma dec_plain: "takeWhile (\<lambda>c. c \<noteq> CHR 0x00) (dec n @ s) = dec n @ takeWhile (\<lambda>c. c \<noteq> CHR 0x00) s"
  "NL \<notin> set (dec n)"
proof -
  have "\<forall>c \<in> set (dec n). c \<noteq> CHR 0x00" using dec_not_in [of "CHR 0x00" n] by (auto simp: is_digit_def)
  then show "takeWhile (\<lambda>c. c \<noteq> CHR 0x00) (dec n @ s) = dec n @ takeWhile (\<lambda>c. c \<noteq> CHR 0x00) s"
    by (simp add: takeWhile_append)
  show "NL \<notin> set (dec n)" using dec_not_in [of NL n] by (simp add: is_digit_def NL_def)
qed

lemma users_lines:
  assumes "\<forall>p \<in> set ps. pid_ok p"
  shows "file_lines (users_text ps) = map dec_int ps"
proof -
  have d: "dec_int p = dec (nat p)" if "p \<in> set ps" for p using that assms by (auto simp: dec_int_def pid_ok_def)
  have "getlines (concat (map (\<lambda>l. l @ [NL]) (map dec_int ps))) = map dec_int ps"
    using d dec_plain(2) by (intro getlines_lines) auto
  moreover have "takeWhile (\<lambda>c. c \<noteq> CHR 0x00) (dec_int p) = dec_int p" if "p \<in> set ps" for p
    using d [OF that] dec_plain(1) [of "nat p" "[]"] by simp
  ultimately show ?thesis by (simp add: file_lines_def users_text_def comp_def)
qed

lemma set_set_insert [simp]: "set (set_insert p ps) = insert p (set ps)"
  by (auto simp: set_insert_def set_insort_key)

lemma sorted_set_insert [simp]: "sorted_wrt (<) ps \<Longrightarrow> sorted_wrt (<) (set_insert p ps)"
  by (auto simp: set_insert_def strict_sorted_iff sorted_insort distinct_insort)

lemma users_read_fold:
  "\<forall>p \<in> set ps. pid_ok p \<Longrightarrow>
     fold (\<lambda>line acc. if line = [] then acc else case stoul_pid line of Some p \<Rightarrow> set_insert p acc | None \<Rightarrow> acc) (map dec_int ps) acc
     = fold set_insert ps acc"
proof (induction ps arbitrary: acc)
  case Nil
  then show ?case by simp
next
  case (Cons p ps)
  have "dec_int p \<noteq> []" by (simp add: dec_int_def)
  then show ?case using Cons by (simp add: stoul_pid_dec)
qed

lemma set_fold_insert [simp]: "set (fold set_insert ps acc) = set ps \<union> set acc"
  by (induction ps arbitrary: acc) auto

lemma sorted_fold_insert: "sorted_wrt (<) acc \<Longrightarrow> sorted_wrt (<) (fold set_insert ps acc)"
  by (induction ps arbitrary: acc) auto

lemma users_read_text:
  assumes "\<forall>p \<in> set ps. pid_ok p"
  shows "set (users_read (users_text ps) []) = set ps" "sorted_wrt (<) (users_read (users_text ps) [])"
  using users_read_fold [OF assms, of "[]"] sorted_fold_insert [of "[]" ps]
  by (simp_all add: users_read_def users_lines [OF assms])

section \<open>The shared outbound rule\<close>

text \<open>
  The host as far as the shared rule is concerned: the users file, whether the rule is installed, and the
  privileged runs that have set up outbound NAT. Setting up (\<^verbatim>\<open>setupFirewallRules\<close>) installs the rule when
  the file is empty and adds the process; the cleanup deletes the process and removes the rule when no
  user is left; \<^verbatim>\<open>crate clean\<close> only collects dead processes. A run may fail while it installs the rule,
  and may be killed.
\<close>

record nat_host =
  nh_file :: string
  nh_rule :: bool
  nh_runs :: "int set"

definition nat_start :: "int \<Rightarrow> nat_host \<Rightarrow> nat_host" where
  "nat_start pid h =
     (let u = users_lock (nh_file h) in
      h\<lparr>nh_rule := nh_rule h \<or> users_isEmpty u, nh_file := users_unlock (users_add pid u), nh_runs := insert pid (nh_runs h)\<rparr>)"

definition nat_stop :: "(int \<Rightarrow> bool) \<Rightarrow> int \<Rightarrow> nat_host \<Rightarrow> nat_host" where
  "nat_stop alive pid h =
     (let u = users_del alive pid (users_lock (nh_file h)) in
      h\<lparr>nh_rule := nh_rule h \<and> \<not> users_isEmpty u, nh_file := users_unlock u, nh_runs := nh_runs h - {pid}\<rparr>)"

definition nat_clean :: "(int \<Rightarrow> bool) \<Rightarrow> nat_host \<Rightarrow> nat_host" where
  "nat_clean alive h = h\<lparr>nh_file := users_unlock (users_garbageCollect alive (users_lock (nh_file h)))\<rparr>"

inductive nat_reach :: "nat_host \<Rightarrow> bool" where
  boot: "nat_reach \<lparr>nh_file = [], nh_rule = False, nh_runs = {}\<rparr>"
| start: "nat_reach h \<Longrightarrow> pid_ok pid \<Longrightarrow> pid \<notin> nh_runs h \<Longrightarrow> nat_reach (nat_start pid h)"
| start_fails: "nat_reach h \<Longrightarrow> nat_reach (h\<lparr>nh_rule := nh_rule h \<or> installed\<rparr>)"
| stop: "nat_reach h \<Longrightarrow> pid \<in> nh_runs h \<Longrightarrow> \<forall>q \<in> nh_runs h. alive q \<Longrightarrow> nat_reach (nat_stop alive pid h)"
| killed: "nat_reach h \<Longrightarrow> nat_reach (h\<lparr>nh_runs := nh_runs h - {pid}\<rparr>)"
| clean: "nat_reach h \<Longrightarrow> \<forall>q \<in> nh_runs h. alive q \<Longrightarrow> nat_reach (nat_clean alive h)"

definition users_of :: "string \<Rightarrow> int set" where
  "users_of content = set (users_read content [])"

definition nat_inv :: "nat_host \<Rightarrow> bool" where
  "nat_inv h \<longleftrightarrow> (\<exists>ps. nh_file h = users_text ps \<and> (\<forall>p \<in> set ps. pid_ok p)) \<and> nh_runs h \<subseteq> users_of (nh_file h)
     \<and> (nh_file h \<noteq> [] \<longrightarrow> nh_rule h)"

lemma users_text_append: "users_text (ps @ qs) = users_text ps @ users_text qs"
  by (simp add: users_text_def)

lemma users_text_Nil_iff: "users_text ps = [] \<longleftrightarrow> ps = []"
  by (cases ps) (simp_all add: users_text_def)

lemma users_of_text: "\<forall>p \<in> set ps. pid_ok p \<Longrightarrow> users_of (users_text ps) = set ps"
  by (simp add: users_of_def users_read_text)

lemma users_del_session:
  fixes alive pid
  assumes "\<forall>p \<in> set ps. pid_ok p"
  defines "u \<equiv> users_del alive pid (users_lock (users_text ps))"
  shows "users_unlock u = users_text (fu_pids u)" "set (fu_pids u) = {q \<in> set ps. alive q \<and> q \<noteq> pid}"
    "users_isEmpty u \<longleftrightarrow> fu_pids u = []"
  using users_read_text(1) [OF assms(1)]
  by (auto simp: u_def users_del_def users_garbageCollect_def users_lock_def users_readIntoMemory_def Let_def
      users_unlock_def users_isEmpty_def)

lemma users_gc_session:
  assumes ps: "\<forall>p \<in> set ps. pid_ok p"
  obtains qs where "users_unlock (users_garbageCollect alive (users_lock (users_text ps))) = users_text qs"
    "set qs = {q \<in> set ps. alive q}" "\<forall>q \<in> set qs. pid_ok q"
proof -
  let ?r = "users_read (users_text ps) []"
  have r: "set ?r = set ps" by (rule users_read_text(1) [OF ps])
  show thesis
  proof (cases "\<forall>p \<in> set ps. alive p")
    case True
    then have "users_unlock (users_garbageCollect alive (users_lock (users_text ps))) = users_text ps"
      using r by (auto simp: users_garbageCollect_def users_lock_def users_readIntoMemory_def users_unlock_def list_ex_iff)
    then show thesis using True ps by (intro that) auto
  next
    case False
    then have "users_unlock (users_garbageCollect alive (users_lock (users_text ps))) = users_text (filter alive ?r)"
      using r by (auto simp: users_garbageCollect_def users_lock_def users_readIntoMemory_def users_unlock_def list_ex_iff)
    then show thesis using r ps by (intro that [of "filter alive ?r"]) auto
  qed
qed

lemma nat_inv_step:
  assumes "nat_inv h"
  shows "pid_ok pid \<Longrightarrow> nat_inv (nat_start pid h)"
    and "\<forall>q \<in> nh_runs h. alive q \<Longrightarrow> nat_inv (nat_stop alive pid h)"
    and "\<forall>q \<in> nh_runs h. alive q \<Longrightarrow> nat_inv (nat_clean alive h)"
proof -
  obtain ps where f: "nh_file h = users_text ps" and ps: "\<forall>p \<in> set ps. pid_ok p" and r: "nh_runs h \<subseteq> set ps"
    and rule: "ps \<noteq> [] \<longrightarrow> nh_rule h"
    using assms by (auto simp: nat_inv_def users_of_text users_text_Nil_iff)
  show "nat_inv (nat_start pid h)" if "pid_ok pid"
  proof -
    have "users_unlock (users_add pid (users_lock (nh_file h))) = users_text (ps @ [pid])"
      by (simp add: users_unlock_def users_add_def users_lock_def f users_text_append) (simp add: users_text_def)
    moreover have "users_isEmpty (users_lock (nh_file h)) \<longleftrightarrow> ps = []"
      by (simp add: users_isEmpty_def users_lock_def f users_text_Nil_iff)
    moreover have "users_of (users_text (ps @ [pid])) = insert pid (set ps)"
      using ps that by (subst users_of_text) auto
    ultimately show ?thesis using ps r rule that
      by (auto simp: nat_inv_def nat_start_def Let_def intro!: exI [of _ "ps @ [pid]"])
  qed
  show "nat_inv (nat_stop alive pid h)" if "\<forall>q \<in> nh_runs h. alive q"
  proof -
    let ?u = "users_del alive pid (users_lock (users_text ps))"
    note S = users_del_session [OF ps, of alive pid]
    have ok: "\<forall>q \<in> set (fu_pids ?u). pid_ok q" using S(2) ps by auto
    then have "users_of (users_unlock ?u) = {q \<in> set ps. alive q \<and> q \<noteq> pid}"
      using S(1,2) users_of_text by metis
    then show ?thesis using S ok r rule that f
      by (auto simp: nat_inv_def nat_stop_def Let_def users_text_Nil_iff)
  qed
  show "nat_inv (nat_clean alive h)" if "\<forall>q \<in> nh_runs h. alive q"
  proof -
    obtain qs where q: "users_unlock (users_garbageCollect alive (users_lock (users_text ps))) = users_text qs"
      "set qs = {q \<in> set ps. alive q}" "\<forall>q \<in> set qs. pid_ok q" by (rule users_gc_session [OF ps])
    have "qs \<noteq> [] \<longrightarrow> ps \<noteq> []" using q(2) by auto
    then show ?thesis using q r rule that f users_of_text [OF q(3)]
      by (auto simp: nat_inv_def nat_clean_def users_text_Nil_iff)
  qed
qed

lemma nat_reach_inv: "nat_reach h \<Longrightarrow> nat_inv h"
proof (induction rule: nat_reach.induct)
  case boot
  have "([] :: string) = users_text []" by (simp add: users_text_def)
  then show ?case by (auto simp: nat_inv_def)
next
  case (killed h pid)
  then show ?case by (auto simp: nat_inv_def)
qed (use nat_inv_step in \<open>auto simp: nat_inv_def\<close>)




section \<open>The slot of a run\<close>

lemma lowest_unused:
  "lowest_unused used \<notin> set used" "i < lowest_unused used \<Longrightarrow> i \<in> set used"
proof -
  have "\<exists>i \<le> length used. i \<notin> set used"
  proof (rule ccontr)
    assume "\<not> ?thesis"
    then have "{0..length used} \<subseteq> set used" by auto
    then have "card {0..length used} \<le> card (set used)" by (intro card_mono) auto
    then show False using card_length [of used] by simp
  qed
  then have "List.find (\<lambda>i. i \<notin> set used) [0..<Suc (length used)] \<noteq> None"
    by (auto simp: find_None_iff less_Suc_eq_le simp del: upt_Suc)
  then obtain k where k: "List.find (\<lambda>i. i \<notin> set used) [0..<Suc (length used)] = Some k" by blast
  then have f: "k \<notin> set used" "\<forall>j < k. j \<in> set used" by (auto simp: find_Some_iff simp del: upt_Suc)
  then show "lowest_unused used \<notin> set used" "i < lowest_unused used \<Longrightarrow> i \<in> set used"
    by (simp_all add: lowest_unused_def k del: upt_Suc)
qed

definition slots_ok :: "(int, nat) stdmap \<Rightarrow> bool" where
  "slots_ok m \<longleftrightarrow> map_ok m \<and> (\<forall>kv \<in> set m. pid_ok (fst kv) \<and> snd kv < 2 ^ 32) \<and> distinct (map snd m)"

lemma parse_slot_line: "pid_ok p \<Longrightarrow> s < 2 ^ 32 \<Longrightarrow> parse_slot (slot_line (p, s)) = Some (p, s)"
proof -
  assume p: "pid_ok p" and s: "s < 2 ^ 32"
  have d: "dec_int p = dec (nat p)" using p by (simp add: dec_int_def pid_ok_def)
  have sp: "\<not> is_digit SP" "white SP" by (simp_all add: is_digit_def white_def)
  have "sign_digits (dec (nat p) @ SP # dec s) = Some (False, dec (nat p), SP # dec s)"
    using sp by (intro sign_digits_dec) simp
  then have rp: "read_pid (dec (nat p) @ SP # dec s) = Some (p, SP # dec s)" using p by (auto simp: read_pid_def pid_ok_def)
  have "sign_digits (SP # dec s) = sign_digits (dec s)" using sp by (simp add: sign_digits_def)
  also have "\<dots> = Some (False, dec s, [])" using sign_digits_dec [of "[]" s] by simp
  finally have "read_unsigned (SP # dec s) = Some (s, [])" using s by (simp add: read_unsigned_def)
  then show ?thesis using rp by (simp add: parse_slot_def slot_line_def d)
qed

lemma slots_lines:
  assumes "\<forall>kv \<in> set m. pid_ok (fst kv)"
  shows "file_lines (slots_text m) = map slot_line m"
proof -
  have l: "slot_line kv = dec (nat (fst kv)) @ SP # dec (snd kv)" if "kv \<in> set m" for kv
    using that assms by (auto simp: slot_line_def dec_int_def pid_ok_def)
  have "getlines (concat (map (\<lambda>l. l @ [NL]) (map slot_line m))) = map slot_line m"
    using l dec_plain(2) by (intro getlines_lines) (auto simp: NL_def)
  moreover have "takeWhile (\<lambda>c. c \<noteq> CHR 0x00) (slot_line kv) = slot_line kv" if "kv \<in> set m" for kv
    using l [OF that] dec_plain(1) [of "nat (fst kv)" "SP # dec (snd kv)"] dec_plain(1) [of "snd kv" "[]"] by simp
  ultimately show ?thesis by (simp add: file_lines_def slots_text_def comp_def)
qed

lemma slots_read_text:
  assumes "slots_ok m"
  shows "slots_read (slots_text m) [] = m"
proof -
  have "fold (\<lambda>line acc. case parse_slot line of Some (pid, s) \<Rightarrow> map_put pid s acc | None \<Rightarrow> acc) (map slot_line m) acc = acc @ m"
    if "map_ok (acc @ m)" "\<forall>kv \<in> set m. pid_ok (fst kv) \<and> snd kv < 2 ^ 32" for acc
    using that
  proof (induction m arbitrary: acc)
    case Nil
    then show ?case by simp
  next
    case (Cons e m)
    obtain p s where e: "e = (p, s)" by (cases e)
    have "\<forall>k' \<in> fst ` set acc. k' < p" using Cons.prems(1) e by (auto simp: map_ok_def sorted_wrt_append)
    then have "map_put p s acc = acc @ [(p, s)]" by (rule map_put_snoc)
    then show ?case using Cons.IH [of "acc @ [(p, s)]"] Cons.prems e by (simp add: parse_slot_line)
  qed
  from this [of "[]"] show ?thesis
    using assms by (simp add: slots_read_def slots_ok_def slots_lines)
qed

lemma distinct_snd_put:
  assumes "distinct (map snd m)" "s \<notin> set (map snd m)"
  shows "distinct (map snd (map_put k s m))"
  using assms
proof (induction m)
  case Nil
  then show ?case by simp
next
  case (Cons e m)
  obtain k' v' where e: "e = (k', v')" by (cases e)
  have "snd ` set (map_put k s m) \<subseteq> insert s (snd ` set m)"
    by (induction k s m rule: map_put.induct) auto
  then show ?case using Cons e by auto
qed

text \<open>
  Concurrent privileged runs never share an ipfw slot. Starting from a file a previous session left,
  allocating for a process returns the lowest slot that no living process holds, the file
  written at unlock reads back as the living processes with their slots plus the new one, and all slots in
  it are again distinct; releasing removes exactly the process.
\<close>

theorem fw_slots_exclusive:
  assumes m: "slots_ok m" and p: "pid_ok pid" and small: "length m < 2 ^ 32"
    and alloc: "slots_allocate alive pid (slots_lock (slots_text m)) = (s, f)"
  shows "(\<forall>kv \<in> set m. alive (fst kv) \<longrightarrow> snd kv \<noteq> s)
    \<and> (\<forall>i < s. \<exists>kv \<in> set m. alive (fst kv) \<and> snd kv = i)
    \<and> slots_read (slots_unlock f) [] = map_put pid s (filter (\<lambda>kv. alive (fst kv)) m)
    \<and> slots_ok (slots_read (slots_unlock f) [])
    \<and> slots_read (slots_unlock (slots_release pid (slots_lock (slots_text m)))) [] = map_erase pid m"
proof (intro conjI)
  let ?live = "filter (\<lambda>kv. alive (fst kv)) m"
  have s: "s = lowest_unused (map snd ?live)" and f: "slots_unlock f = slots_text (map_put pid s ?live)"
    using alloc slots_read_text [OF m]
    by (auto simp: slots_allocate_def slots_lock_def slots_readIntoMemory_def slots_garbageCollect_def Let_def slots_unlock_def)
  have new: "s \<notin> set (map snd ?live)" and low: "\<forall>i < s. i \<in> set (map snd ?live)"
    unfolding s using lowest_unused by blast+
  then show "\<forall>kv \<in> set m. alive (fst kv) \<longrightarrow> snd kv \<noteq> s" "\<forall>i < s. \<exists>kv \<in> set m. alive (fst kv) \<and> snd kv = i"
    by force+
  have "{..<s} \<subseteq> set (map snd ?live)" using low by blast
  then have "card {..<s} \<le> card (set (map snd ?live))" by (intro card_mono) simp_all
  also have "\<dots> \<le> length (map snd ?live)" by (rule card_length)
  also have "\<dots> \<le> length m" by simp
  finally have "s < 2 ^ 32" using small by simp
  moreover have "set (map_put k v n) \<subseteq> insert (k, v) (set n)" for k :: int and v :: nat and n
    by (induction k v n rule: map_put.induct) auto
  ultimately have ok: "slots_ok (map_put pid s ?live)"
    using m p new distinct_snd_put [OF _ new] by (fastforce simp: slots_ok_def distinct_map_filter)
  show "slots_read (slots_unlock f) [] = map_put pid s ?live" unfolding f by (rule slots_read_text [OF ok])
  then show "slots_ok (slots_read (slots_unlock f) [])" using ok by simp
  have "slots_ok (map_erase pid m)" using m by (auto simp: slots_ok_def map_erase_def distinct_map_filter)
  then show "slots_read (slots_unlock (slots_release pid (slots_lock (slots_text m)))) [] = map_erase pid m"
    using slots_read_text m
    by (simp add: slots_release_def slots_lock_def slots_readIntoMemory_def slots_unlock_def Let_def)
qed

theorem fw_slots_exclusive_witness:
  "let m = [(7, 0), (42, 1), (99, 2)] in
   fst (slots_allocate (\<lambda>p. p \<noteq> 42) 50 (slots_lock (slots_text m))) = 1
   \<and> slots_read (slots_unlock (snd (slots_allocate (\<lambda>p. p \<noteq> 42) 50 (slots_lock (slots_text m))))) [] = [(7, 0), (50, 1), (99, 2)]"
proof -
  let ?m = "[(7, 0), (42, 1), (99, 2)] :: (int \<times> nat) list"
  have m: "slots_ok ?m" "pid_ok 50" "length ?m < 2 ^ 32" by (auto simp: slots_ok_def pid_ok_def map_ok_def)
  obtain s f where a: "slots_allocate (\<lambda>p. p \<noteq> 42) 50 (slots_lock (slots_text ?m)) = (s, f)" by fastforce
  note T = fw_slots_exclusive [OF m a]
  have "s \<noteq> 0" "s \<noteq> 2" using T by auto
  moreover have "\<not> 1 < s" using T by auto
  ultimately have s: "s = 1" by simp
  show ?thesis using T a s by simp
qed

end
