(* ===== verification/NatFw.thy ===== *)
theory NatFw
  imports Ctx
begin

text \<open>
  The ipfw rules of a jail in NAT mode, \<^verbatim>\<open>RunNet::setupFirewallRules\<close> of \<^verbatim>\<open>lib/run_net.cpp\<close> and the cleanup it
  returns. The rule numbers come from the slot of the run (\<^verbatim>\<open>FwSlots\<close>) and three bases that the environment
  can override; the shared outbound rule is counted in the users file (\<^verbatim>\<open>FwUsers\<close>). Whether a command
  succeeds is a parameter. The commands are those of \<^verbatim>\<open>execFW\<close>; the privileged transport behind it sends
  the same words.
\<close>

section \<open>Configuration\<close>

record nat_layout =
  fwSlotSize :: u32
  fwRuleRangeInBase :: u32
  fwRuleRangeOutBase :: u32

definition default_layout :: nat_layout where
  "default_layout = \<lparr>fwSlotSize = 10, fwRuleRangeInBase = 10000, fwRuleRangeOutBase = 50000\<rparr>"

record net_opts =
  inboundPortsTcp :: port_map
  inboundPortsUdp :: port_map
  outboundWan :: bool
  outboundLan :: bool
  outboundHost :: bool
  outboundDns :: bool

definition allowInbound :: "net_opts \<Rightarrow> bool" where
  "allowInbound n \<longleftrightarrow> inboundPortsTcp n \<noteq> [] \<or> inboundPortsUdp n \<noteq> []"

definition allowOutbound :: "net_opts \<Rightarrow> bool" where
  "allowOutbound n \<longleftrightarrow> outboundWan n \<or> outboundLan n \<or> outboundHost n \<or> outboundDns n"

record nat_env =
  ne_ipB :: string
  ne_hostIP :: string
  ne_gwIface :: string
  ne_hostLAN :: string
  ne_nameserver :: string
  ne_ipv6Addr :: string
  ne_ipv6Iface :: string

section \<open>Rule numbers\<close>

definition fwRuleInNo :: "nat_layout \<Rightarrow> u32 \<Rightarrow> u32" where
  "fwRuleInNo l fwSlot = fwRuleRangeInBase l + fwSlot * fwSlotSize l + 1"

definition fwRule6InNo :: "nat_layout \<Rightarrow> u32 \<Rightarrow> u32" where
  "fwRule6InNo l fwSlot = fwRuleRangeInBase l + fwSlot * fwSlotSize l + 2"

definition fwRuleOutNo :: "nat_layout \<Rightarrow> u32 \<Rightarrow> u32" where
  "fwRuleOutNo l fwSlot = fwRuleRangeOutBase l + fwSlot * fwSlotSize l + 1"

definition fwRule6OutNo :: "nat_layout \<Rightarrow> u32 \<Rightarrow> u32" where
  "fwRule6OutNo l fwSlot = fwRuleRangeOutBase l + fwSlot * fwSlotSize l + 2"

section \<open>Commands\<close>

definition rangeToStr :: "nat \<times> nat \<Rightarrow> string" where
  "rangeToStr r = (if fst r = snd r then dec (fst r) else dec (fst r) @ ''-'' @ dec (snd r))"

definition redirect_words :: "nat_env \<Rightarrow> string \<Rightarrow> port_map \<Rightarrow> string list" where
  "redirect_words e proto ports =
     concat (map (\<lambda>(host, jail). [''redirect_port'', proto, ne_ipB e @ '':'' @ rangeToStr jail,
                                  ne_hostIP e @ '':'' @ rangeToStr host]) ports)"

definition in_rule_cmds :: "nat_env \<Rightarrow> string \<Rightarrow> string \<Rightarrow> port_map \<Rightarrow> string list list" where
  "in_rule_cmds e ruleInS proto ports =
     concat (map (\<lambda>(host, jail).
       [[''add'', ruleInS, ''nat'', ruleInS, proto, ''from'', ''any'', ''to'', ne_hostIP e, rangeToStr host, ''in'', ''recv'', ne_gwIface e],
        [''add'', ruleInS, ''nat'', ruleInS, proto, ''from'', ne_ipB e, rangeToStr jail, ''to'', ''any'', ''out'', ''xmit'', ne_gwIface e]]) ports)"

definition in6_rule_cmds :: "nat_env \<Rightarrow> string \<Rightarrow> string \<Rightarrow> port_map \<Rightarrow> string list list" where
  "in6_rule_cmds e rule6InS proto ports =
     map (\<lambda>(host, jail). [''add'', rule6InS, ''fwd'', ne_ipv6Addr e @ '','' @ rangeToStr jail, proto,
                          ''from'', ''any'', ''to'', ''me6'', rangeToStr host, ''in'']) ports"

definition in_cmds :: "nat_layout \<Rightarrow> u32 \<Rightarrow> nat_env \<Rightarrow> net_opts \<Rightarrow> string list list" where
  "in_cmds l fwSlot e n =
     (if \<not> allowInbound n then []
      else let ruleInS = udec (fwRuleInNo l fwSlot); rule6InS = udec (fwRule6InNo l fwSlot) in
        [[''nat'', ruleInS, ''config''] @ redirect_words e ''tcp'' (inboundPortsTcp n) @ redirect_words e ''udp'' (inboundPortsUdp n)]
        @ in_rule_cmds e ruleInS ''tcp'' (inboundPortsTcp n) @ in_rule_cmds e ruleInS ''udp'' (inboundPortsUdp n)
        @ (if ne_ipv6Addr e = [] then []
           else in6_rule_cmds e rule6InS ''tcp'' (inboundPortsTcp n) @ in6_rule_cmds e rule6InS ''udp'' (inboundPortsUdp n)))"

definition common_cmds :: "nat_layout \<Rightarrow> nat_env \<Rightarrow> string list list" where
  "common_cmds l e =
     (let s = udec (fwRuleRangeOutBase l) in
      [[''nat'', s, ''config'', ''ip'', ne_hostIP e],
       [''add'', s, ''nat'', s, ''all'', ''from'', ''any'', ''to'', ne_hostIP e, ''in'', ''recv'', ne_gwIface e]])"

definition out_cmds :: "nat_layout \<Rightarrow> u32 \<Rightarrow> nat_env \<Rightarrow> net_opts \<Rightarrow> string list list" where
  "out_cmds l fwSlot e n =
     (if \<not> allowOutbound n then []
      else let ruleOutS = udec (fwRuleOutNo l fwSlot); natS = udec (fwRuleRangeOutBase l) in
        (if outboundDns n then
           [[''add'', ruleOutS, ''nat'', natS, ''udp'', ''from'', ne_ipB e, ''to'', ne_nameserver e, ''53'', ''out'', ''xmit'', ne_gwIface e],
            [''add'', ruleOutS, ''allow'', ''udp'', ''from'', ne_ipB e, ''to'', ne_nameserver e, ''53'']] else [])
        @ [[''add'', ruleOutS, ''deny'', ''udp'', ''from'', ne_ipB e, ''to'', ''any'', ''53'']]
        @ (if \<not> outboundHost n then [[''add'', ruleOutS, ''deny'', ''ip'', ''from'', ne_ipB e, ''to'', ''me'']] else [])
        @ (if \<not> outboundLan n then [[''add'', ruleOutS, ''deny'', ''ip'', ''from'', ne_ipB e, ''to'', ne_hostLAN e]] else [])
        @ [[''add'', ruleOutS, ''nat'', natS, ''all'', ''from'', ne_ipB e, ''to'', ''any'', ''out'', ''xmit'', ne_gwIface e]])"

definition out6_cmds :: "nat_layout \<Rightarrow> u32 \<Rightarrow> nat_env \<Rightarrow> net_opts \<Rightarrow> string list list" where
  "out6_cmds l fwSlot e n =
     (if ne_ipv6Addr e = [] \<or> \<not> allowOutbound n then []
      else let rule6S = udec (fwRule6OutNo l fwSlot);
               v6Iface = (if ne_ipv6Iface e = [] then ne_gwIface e else ne_ipv6Iface e) in
        (if outboundDns n then [[''add'', rule6S, ''allow'', ''udp'', ''from'', ne_ipv6Addr e, ''to'', ''any'', ''53'']] else [])
        @ [[''add'', rule6S, ''deny'', ''udp'', ''from'', ne_ipv6Addr e, ''to'', ''any'', ''53'']]
        @ (if \<not> outboundHost n then [[''add'', rule6S, ''deny'', ''ip6'', ''from'', ne_ipv6Addr e, ''to'', ''me6'']] else [])
        @ [[''add'', rule6S, ''allow'', ''ip6'', ''from'', ne_ipv6Addr e, ''to'', ''any'', ''out'', ''xmit'', v6Iface],
           [''add'', rule6S, ''allow'', ''ip6'', ''from'', ''any'', ''to'', ne_ipv6Addr e, ''in'', ''recv'', v6Iface]])"

text \<open>
  The commands in order; \<^term>\<open>first_user\<close> says that the users file was empty (privileged runs, mode 0) or
  that the daemon counted this lease as the first one (mode 1).
\<close>

definition nat_commands :: "nat_layout \<Rightarrow> u32 \<Rightarrow> nat_env \<Rightarrow> net_opts \<Rightarrow> bool \<Rightarrow> string list list" where
  "nat_commands l fwSlot e n first_user =
     in_cmds l fwSlot e n @ (if allowOutbound n \<and> first_user then common_cmds l e else [])
     @ out_cmds l fwSlot e n @ out6_cmds l fwSlot e n"

definition first_user :: "nat \<Rightarrow> string \<Rightarrow> bool" where
  "first_user sharedMode users_file \<longleftrightarrow>
     (sharedMode = 0 \<and> users_isEmpty (users_lock users_file)) \<or> sharedMode = 1"

text \<open>\<^verbatim>\<open>execFW\<close> throws at the first command that fails: what was run, and whether all succeeded.\<close>

definition upto_failure :: "('a \<Rightarrow> bool) \<Rightarrow> 'a list \<Rightarrow> 'a list" where
  "upto_failure exec cmds = takeWhile exec cmds @ take 1 (dropWhile exec cmds)"

record nat_setup =
  ns_trace :: "string list list"
  ns_users :: string
  ns_armed :: bool

definition setupFirewallRules ::
  "(string list \<Rightarrow> bool) \<Rightarrow> nat_layout \<Rightarrow> u32 \<Rightarrow> nat_env \<Rightarrow> net_opts \<Rightarrow> nat \<Rightarrow> int \<Rightarrow> string \<Rightarrow> nat_setup" where
  "setupFirewallRules exec l fwSlot e n sharedMode pid users_file =
     (let fu = first_user sharedMode users_file;
          cmds = nat_commands l fwSlot e n fu;
          shared = in_cmds l fwSlot e n @ (if allowOutbound n \<and> fu then common_cmds l e else []);
          users' = (if allowOutbound n \<and> sharedMode = 0 \<and> list_all exec shared
                    then users_unlock (users_add pid (users_lock users_file)) else users_file) in
      \<lparr>ns_trace = upto_failure exec cmds, ns_users = users', ns_armed = list_all exec cmds\<rparr>)"

text \<open>
  The cleanup: the rules removed, in order, and the users file. \<^term>\<open>alive\<close> is \<^verbatim>\<open>kill(pid, 0)\<close>. (When
  the removal itself fails on the way, the rest of the cleanup is skipped; the model is the run in which
  the removals succeed.)
\<close>

definition nat_cleanup ::
  "(int \<Rightarrow> bool) \<Rightarrow> nat_layout \<Rightarrow> u32 \<Rightarrow> nat_env \<Rightarrow> net_opts \<Rightarrow> nat \<Rightarrow> int \<Rightarrow> string \<Rightarrow> u32 list \<times> string" where
  "nat_cleanup alive l fwSlot e n sharedMode pid users_file =
     (let hasV6 = (ne_ipv6Addr e \<noteq> []);
          ins = (if allowInbound n then fwRuleInNo l fwSlot # (if hasV6 then [fwRule6InNo l fwSlot] else []) else []);
          r6out = (if hasV6 \<and> allowOutbound n then fwRule6OutNo l fwSlot else 0);
          outs = (if allowOutbound n
                  then fwRuleOutNo l fwSlot # (if hasV6 \<and> r6out > 0 then [r6out] else []) else []) in
      if allowOutbound n \<and> sharedMode = 0
      then let u = users_del alive pid (users_lock users_file) in
        (ins @ outs @ (if users_isEmpty u then [fwRuleRangeOutBase l] else []), users_unlock u)
      else (ins @ outs, users_file))"

section \<open>Every rule belongs to the slot of its run\<close>

text \<open>The rule a command adds, by its printed number.\<close>

fun rule_added :: "string list \<Rightarrow> string option" where
  "rule_added (cmd # num # rest) = (if cmd = ''add'' then Some num else None)"
| "rule_added _ = None"

definition rules_added :: "string list list \<Rightarrow> string set" where
  "rules_added cmds = set (List.map_filter rule_added cmds)"

definition slot_rules :: "nat_layout \<Rightarrow> u32 \<Rightarrow> string set" where
  "slot_rules l fwSlot = udec ` {fwRuleInNo l fwSlot, fwRule6InNo l fwSlot, fwRuleOutNo l fwSlot, fwRule6OutNo l fwSlot}"

lemma rules_added_simps [simp]:
  "rules_added [] = {}"
  "rules_added (c # cs) = set_option (rule_added c) \<union> rules_added cs"
  "rules_added (xs @ ys) = rules_added xs \<union> rules_added ys"
  by (auto simp: rules_added_def List.map_filter_def)

lemma rules_added_subset: "set xs \<subseteq> set ys \<Longrightarrow> rules_added xs \<subseteq> rules_added ys"
  by (auto simp: rules_added_def List.map_filter_def)

lemma upto_failure_subset: "set (upto_failure exec cmds) \<subseteq> set cmds"
  by (auto simp: upto_failure_def dest: set_takeWhileD set_dropWhileD in_set_takeD)

lemma in_rules:
  "rules_added (in_rule_cmds e r p ports) = (if ports = [] then {} else {r})"
  "rules_added (in6_rule_cmds e r p ports) = (if ports = [] then {} else {r})"
  by (induction ports; force simp: in_rule_cmds_def in6_rule_cmds_def)+

lemma in_cmds_rules:
  "rules_added (in_cmds l s e n) =
     (if allowInbound n then insert (udec (fwRuleInNo l s)) (if ne_ipv6Addr e = [] then {} else {udec (fwRule6InNo l s)}) else {})"
  by (auto simp: in_cmds_def Let_def in_rules allowInbound_def)

lemma out_cmds_rules:
  "rules_added (out_cmds l s e n) = (if allowOutbound n then {udec (fwRuleOutNo l s)} else {})"
  "rules_added (out6_cmds l s e n) = (if ne_ipv6Addr e = [] \<or> \<not> allowOutbound n then {} else {udec (fwRule6OutNo l s)})"
  "rules_added (common_cmds l e) = {udec (fwRuleRangeOutBase l)}"
  by (auto simp: out_cmds_def out6_cmds_def common_cmds_def Let_def)

lemma nat_commands_rules:
  "rules_added (nat_commands l s e n fu) \<subseteq> slot_rules l s \<union> {udec (fwRuleRangeOutBase l)}"
  by (auto simp: nat_commands_def in_cmds_rules out_cmds_rules slot_rules_def)

lemma slot_numbers:
  assumes "unat s < 1000"
  shows "unat (fwRuleInNo default_layout s) = 10001 + 10 * unat s"
    and "unat (fwRule6InNo default_layout s) = 10002 + 10 * unat s"
    and "unat (fwRuleOutNo default_layout s) = 50001 + 10 * unat s"
    and "unat (fwRule6OutNo default_layout s) = 50002 + 10 * unat s"
proof -
  have m: "unat (s * 10) = 10 * unat s" using assms by (simp add: unat_word_ariths)
  have "unat (b + s * 10 + k) = unat b + 10 * unat s + unat k" if "unat b < 100000" "unat k < 100000" for b k :: u32
    using that m assms by (simp add: unat_small_add)
  from this [of 10000 1] this [of 10000 2] this [of 50000 1] this [of 50000 2]
  show "unat (fwRuleInNo default_layout s) = 10001 + 10 * unat s"
    "unat (fwRule6InNo default_layout s) = 10002 + 10 * unat s"
    "unat (fwRuleOutNo default_layout s) = 50001 + 10 * unat s"
    "unat (fwRule6OutNo default_layout s) = 50002 + 10 * unat s"
    by (simp_all add: fwRuleInNo_def fwRule6InNo_def fwRuleOutNo_def fwRule6OutNo_def default_layout_def)
qed

definition slot_values :: "nat \<Rightarrow> nat set" where
  "slot_values i = {10001 + 10 * i, 10002 + 10 * i, 50001 + 10 * i, 50002 + 10 * i}"

lemma slot_rules_values: "unat s < 1000 \<Longrightarrow> slot_rules default_layout s = dec ` slot_values (unat s)"
  by (simp add: slot_rules_def slot_values_def udec_def slot_numbers)

lemma slot_values_disjoint: "i < 1000 \<Longrightarrow> j < 1000 \<Longrightarrow> i \<noteq> j \<Longrightarrow> slot_values i \<inter> slot_values j = {}"
  unfolding slot_values_def by (auto; presburger)

lemma slot_rules_disjoint:
  assumes "unat s < 1000" "unat s' < 1000" "s \<noteq> s'"
  shows "slot_rules default_layout s \<inter> slot_rules default_layout s' = {}"
proof -
  have "unat s \<noteq> unat s'" using assms(3) by (metis word_unat_eq_iff)
  then have "slot_values (unat s) \<inter> slot_values (unat s') = {}" using assms slot_values_disjoint by blast
  then show ?thesis using assms by (auto simp: slot_rules_values)
qed

lemma common_not_slot: "unat s < 1000 \<Longrightarrow> udec (fwRuleRangeOutBase default_layout) \<notin> slot_rules default_layout s"
proof -
  assume s: "unat s < 1000"
  then have "50000 \<notin> slot_values (unat s)" unfolding slot_values_def by (auto; presburger)
  moreover have "udec (fwRuleRangeOutBase default_layout) = dec 50000" by (simp add: udec_def default_layout_def)
  ultimately show ?thesis using s by (auto simp: slot_rules_values)
qed


definition sample_nat_env :: nat_env where
  "sample_nat_env = \<lparr>ne_ipB = ''10.0.0.2'', ne_hostIP = ''192.0.2.1'', ne_gwIface = ''em0'', ne_hostLAN = ''192.0.2.0/24'',
     ne_nameserver = ''192.0.2.53'', ne_ipv6Addr = [], ne_ipv6Iface = []\<rparr>"

definition sample_net :: net_opts where
  "sample_net = \<lparr>inboundPortsTcp = [((8080, 8080), (80, 80))], inboundPortsUdp = [], outboundWan = True,
     outboundLan = False, outboundHost = False, outboundDns = True\<rparr>"


end
