(* ===== verification/Clean.thy ===== *)
theory Clean
  imports Throttle NatFw SpecRegistry
begin

text \<open>
  \<^verbatim>\<open>crate clean\<close>, \<^verbatim>\<open>lib/clean.cpp\<close>: what it removes. The record \<^verbatim>\<open>clean_host\<close> is what the command reads from the
  host: directory listings, file status, locks, the running jails (asked for three times, each query
  may fail), the listings of ipfw and pf, the spec registry and the lease files. The result is the list of
  the actions it takes, in order; that an action fails only prints a warning and is not modelled.
\<close>

section \<open>What the command sees and does\<close>

record clean_jail =
  cj_jid :: int
  cj_name :: string
  cj_path :: string

record clean_host =
  ch_jails :: "clean_jail list res"
  ch_readdir :: "string \<Rightarrow> string list option"
  ch_lstat_dir :: "string \<Rightarrow> bool"
  ch_stat_dir :: "string \<Rightarrow> bool"
  ch_locked :: "string \<Rightarrow> bool"
  ch_users_lock :: bool
  ch_cow_entries :: "string list option"
  ch_ipfw :: bool
  ch_crate_jails :: "clean_jail list option"
  ch_rules :: "string option"
  ch_nats :: "string option"
  ch_registry :: "SpecEntry list option"
  ch_dataset :: "string \<Rightarrow> bool"
  ch_exists :: "string \<Rightarrow> bool"
  ch_anchors :: "string option"
  ch_anchor_jails :: "clean_jail list option"
  ch_leases4 :: "string list option"
  ch_leases6 :: "string list option"

datatype clean_action =
    Rm_hier string
  | Rm_flat string
  | Collect_users
  | Del_rule u32
  | Del_nat u32
  | Registry_remove string
  | Flush_anchor string
  | Release4 string
  | Release6 string

definition jailDirectoryPath :: string where "jailDirectoryPath = ''/var/run/crate''"

definition getRunningJailPaths :: "clean_jail list \<Rightarrow> string list" where
  "getRunningJailPaths js = filter (\<lambda>p. p \<noteq> []) (map cj_path js)"

text \<open>1. Directories of jails that are gone.\<close>

definition jail_dirs :: "clean_host \<Rightarrow> string list" where
  "jail_dirs h =
     jailDirectoryPath # filter (ch_lstat_dir h)
       (map (\<lambda>name. jailDirectoryPath @ ''/'' @ name)
         (filter (\<lambda>name. name \<noteq> [] \<and> list_all is_digit name) (case ch_readdir h jailDirectoryPath of None \<Rightarrow> [] | Some ns \<Rightarrow> ns)))"

definition orphan_dir :: "clean_host \<Rightarrow> string list \<Rightarrow> string \<Rightarrow> string \<Rightarrow> string option" where
  "orphan_dir h running jailDir name =
     (if name = ''.'' \<or> name = ''..'' then None
      else if \<not> starts_with ''jail-'' name \<and> \<not> starts_with ''chroot-create-'' name then None
      else let fullPath = jailDir @ ''/'' @ name in
        if \<not> ch_stat_dir h fullPath then None
        else if fullPath \<in> set running then None
        else if ch_locked h fullPath then None
        else Some fullPath)"

definition sweep_dirs :: "clean_host \<Rightarrow> string list \<Rightarrow> clean_action list" where
  "sweep_dirs h running =
     concat (map (\<lambda>jailDir. map Rm_hier (List.map_filter (orphan_dir h running jailDir)
        (case ch_readdir h jailDir of None \<Rightarrow> [] | Some ns \<Rightarrow> ns))) (jail_dirs h))"

text \<open>2. Interface records.\<close>

definition sweep_ifaces :: "clean_host \<Rightarrow> string list \<Rightarrow> clean_action list" where
  "sweep_ifaces h running =
     (let ifaceDir = jailDirectoryPath @ ''/ifaces'' in
      map (\<lambda>name. Rm_flat (ifaceDir @ ''/'' @ name))
        (filter (\<lambda>name. name \<noteq> ''.'' \<and> name \<noteq> ''..'' \<and> \<not> list_ex (contains name) running)
          (case ch_readdir h ifaceDir of None \<Rightarrow> [] | Some ns \<Rightarrow> ns)))"

text \<open>3. The users file; the slots file is only locked and unlocked. 4. Overlays.\<close>

definition sweep_ctx :: "clean_host \<Rightarrow> clean_action list" where
  "sweep_ctx h = (if ch_users_lock h then [Collect_users] else [])"

definition cow_dir :: "clean_host \<Rightarrow> string list \<Rightarrow> string \<Rightarrow> string option" where
  "cow_dir h running name =
     (case cut_first ''-cow-writable'' name of
        None \<Rightarrow> None
      | Some (baseName, _) \<Rightarrow>
        let fullPath = jailDirectoryPath @ ''/'' @ name in
        if \<not> ch_stat_dir h fullPath then None
        else if jailDirectoryPath @ ''/'' @ baseName \<in> set running then None
        else Some fullPath)"

definition sweep_cow :: "clean_host \<Rightarrow> string list \<Rightarrow> clean_action list" where
  "sweep_cow h running =
     map Rm_hier (List.map_filter (cow_dir h running) (case ch_cow_entries h of None \<Rightarrow> [] | Some ns \<Rightarrow> ns))"

text \<open>5. ipfw rules and NAT instances. A failed query of the running jails leaves the set empty.\<close>

definition running_jids :: "clean_host \<Rightarrow> int set" where
  "running_jids h = (case ch_crate_jails h of None \<Rightarrow> {} | Some js \<Rightarrow> set (map cj_jid js))"

definition sweep_ipfw :: "clean_host \<Rightarrow> clean_action list" where
  "sweep_ipfw h =
     (if \<not> ch_ipfw h then []
      else (case ch_rules h of
              None \<Rightarrow> []
            | Some out \<Rightarrow> map Del_rule (pickOrphanIpfwRulesByJid out (running_jids h))
                @ map Del_rule (pickOrphanIpfwThrottleRulesByJid out (running_jids h)))
        @ (case ch_nats h of None \<Rightarrow> [] | Some out \<Rightarrow> map Del_nat (pickOrphanIpfwNatIds out (running_jids h))))"

text \<open>6. Registry entries whose target is gone.\<close>

definition target_present :: "clean_host \<Rightarrow> SpecEntry \<Rightarrow> bool" where
  "target_present h e = (if sp_warmBase e \<noteq> [] then ch_dataset h (sp_warmBase e) else ch_exists h (sp_cratePath e))"

definition sweep_registry :: "clean_host \<Rightarrow> clean_action list" where
  "sweep_registry h =
     (case ch_registry h of None \<Rightarrow> [] | Some es \<Rightarrow> map (\<lambda>e. Registry_remove (sp_name e)) (filter (\<lambda>e. \<not> target_present h e) es))"

text \<open>7. pf anchors. Here a failed query of the running jails skips the step.\<close>

definition sweep_anchors :: "clean_host \<Rightarrow> clean_action list" where
  "sweep_anchors h =
     (case ch_anchors h of
        None \<Rightarrow> []
      | Some out \<Rightarrow> (case ch_anchor_jails h of
          None \<Rightarrow> []
        | Some js \<Rightarrow> map (\<lambda>name. Flush_anchor (''crate/'' @ name))
            (filter (\<lambda>name. name \<notin> set (map cj_name js)) (parseCrateAnchorJailNames out))))"

text \<open>8. Leases of jails that are gone: \<^verbatim>\<open>path(p).filename()\<close> is the lease key of a jail.\<close>

definition path_filename :: "string \<Rightarrow> string" where
  "path_filename p = rev (takeWhile (\<lambda>c. c \<noteq> CHR ''/'') (rev p))"

definition sweep_leases :: "clean_host \<Rightarrow> string list \<Rightarrow> clean_action list" where
  "sweep_leases h running =
     (let liveKeys = map path_filename running;
          orphans = (\<lambda>ls. filter (\<lambda>k. k \<notin> set liveKeys) (case ls of None \<Rightarrow> [] | Some ks \<Rightarrow> ks)) in
      map Release4 (orphans (ch_leases4 h)) @ map Release6 (orphans (ch_leases6 h)))"

definition cleanCrates :: "bool \<Rightarrow> clean_host \<Rightarrow> clean_action list res" where
  "cleanCrates dryRun h =
     bind_res (ch_jails h) (\<lambda>js.
       let running = getRunningJailPaths js in
       Inr (if dryRun then []
            else sweep_dirs h running @ sweep_ifaces h running @ sweep_ctx h @ sweep_cow h running
              @ sweep_ipfw h @ sweep_registry h @ sweep_anchors h @ sweep_leases h running))"

section \<open>What belongs to a running jail is kept\<close>

lemma set_map_filter: "y \<in> set (List.map_filter f xs) \<longleftrightarrow> (\<exists>x \<in> set xs. f x = Some y)"
  by (induction xs) (auto simp: List.map_filter_def split: option.splits)

lemma pick_orphans_range:
  assumes "w \<in> set (pick_orphans number lo hi jid_of out running)" "0 \<le> lo" "hi \<le> 100000"
  shows "lo \<le> uint w" "uint w < hi" "jid_of (uint w) \<notin> running"
proof -
  obtain line where "\<not> number (chomp_cr line) < lo" "\<not> hi \<le> number (chomp_cr line)" "jid_of (number (chomp_cr line)) \<notin> running"
    and w: "w = word_of_int (number (chomp_cr line))"
    using assms(1) by (auto simp: pick_orphans_def set_map_filter Let_def split: if_splits)
  moreover from this have "uint w = number (chomp_cr line)"
    using assms(2,3) by (simp add: uint_word_of_int)
  ultimately show "lo \<le> uint w" "uint w < hi" "jid_of (uint w) \<notin> running" by simp_all
qed

lemma swept_rule:
  assumes "Del_rule w \<in> set (sweep_ipfw h)"
  shows "(40000 \<le> uint w \<and> uint w < 60000 \<and> (uint w - 40000) div 2 \<notin> running_jids h) \<or>
         (20000 \<le> uint w \<and> uint w < 30000 \<and> (uint w - 20000) div 2 \<notin> running_jids h)"
proof -
  obtain out where "w \<in> set (pickOrphanIpfwRulesByJid out (running_jids h)) \<or> w \<in> set (pickOrphanIpfwThrottleRulesByJid out (running_jids h))"
    using assms by (auto simp: sweep_ipfw_def split: if_splits option.splits)
  then show ?thesis
  proof
    assume "w \<in> set (pickOrphanIpfwRulesByJid out (running_jids h))"
    from pick_orphans_range [OF this [unfolded pickOrphanIpfwRulesByJid_def]] show ?thesis
      by (simp add: kIpfwRuleBase_def kIpfwRuleRangeEnd_def)
  next
    assume "w \<in> set (pickOrphanIpfwThrottleRulesByJid out (running_jids h))"
    from pick_orphans_range [OF this [unfolded pickOrphanIpfwThrottleRulesByJid_def]] show ?thesis by simp
  qed
qed

lemma swept_nat:
  assumes "Del_nat w \<in> set (sweep_ipfw h)"
  shows "uint w - 30000 \<notin> running_jids h"
proof -
  obtain out where "w \<in> set (pickOrphanIpfwNatIds out (running_jids h))"
    using assms by (auto simp: sweep_ipfw_def split: if_splits option.splits)
  from pick_orphans_range(3) [OF this [unfolded pickOrphanIpfwNatIds_def]] show ?thesis by simp
qed

text \<open>The ipfw rules of a jail, automatic firewall and throttle.\<close>

definition jail_rules :: "int \<Rightarrow> u32 set" where
  "jail_rules jid = {ruleIdForJail jid, loopbackRuleIdForJail jid}
     \<union> (if jid \<le> 4999 then {thr_ruleIdForJail jid False, thr_ruleIdForJail jid True} else {})"

lemma id_uints:
  assumes "0 \<le> jid" "jid \<le> 9999"
  shows "uint (ruleIdForJail jid) = 40000 + 2 * jid" "uint (loopbackRuleIdForJail jid) = 40001 + 2 * jid"
    "uint (natIdForJail jid) = 30000 + jid" "uint (thr_ruleIdForJail jid b) = 20000 + 2 * jid + of_bool b"
  using ids_value [OF assms] thr_ids_value(2) [of jid b] assms by (simp_all add: uint_nat)

lemma rule_not_swept:
  assumes "jid \<in> running_jids h" "1 \<le> jid" "jid \<le> 9999" "Del_rule w \<in> set (sweep_ipfw h)"
  shows "w \<notin> jail_rules jid"
proof
  assume w: "w \<in> jail_rules jid"
  have "uint w = 40000 + 2 * jid \<or> uint w = 40001 + 2 * jid \<or> (jid \<le> 4999 \<and> (uint w = 20000 + 2 * jid \<or> uint w = 20001 + 2 * jid))"
    using w assms(2,3) by (auto simp: jail_rules_def id_uints split: if_splits)
  then show False using swept_rule [OF assms(4)] assms(1-3) by auto
qed

lemma nat_not_swept:
  assumes "jid \<in> running_jids h" "1 \<le> jid" "jid \<le> 9999" "Del_nat w \<in> set (sweep_ipfw h)"
  shows "w \<noteq> natIdForJail jid"
  using swept_nat [OF assms(4)] id_uints(3) [of jid] assms(1-3) by auto

text \<open>Which step an action comes from.\<close>

lemmas sweep_kinds = sweep_dirs_def sweep_ifaces_def sweep_ctx_def sweep_cow_def sweep_registry_def
  sweep_anchors_def sweep_leases_def sweep_ipfw_def

lemma sweep_kind_simps:
  "Del_rule w \<notin> set (sweep_dirs h r)" "Del_rule w \<notin> set (sweep_ifaces h r)" "Del_rule w \<notin> set (sweep_ctx h)"
  "Del_rule w \<notin> set (sweep_cow h r)" "Del_rule w \<notin> set (sweep_registry h)" "Del_rule w \<notin> set (sweep_anchors h)"
  "Del_rule w \<notin> set (sweep_leases h r)"
  "Del_nat w \<notin> set (sweep_dirs h r)" "Del_nat w \<notin> set (sweep_ifaces h r)" "Del_nat w \<notin> set (sweep_ctx h)"
  "Del_nat w \<notin> set (sweep_cow h r)" "Del_nat w \<notin> set (sweep_registry h)" "Del_nat w \<notin> set (sweep_anchors h)"
  "Del_nat w \<notin> set (sweep_leases h r)"
  "Rm_hier p \<notin> set (sweep_ifaces h r)" "Rm_hier p \<notin> set (sweep_ctx h)"
  "Rm_hier p \<notin> set (sweep_ipfw h)" "Rm_hier p \<notin> set (sweep_registry h)" "Rm_hier p \<notin> set (sweep_anchors h)"
  "Rm_hier p \<notin> set (sweep_leases h r)"
  "Flush_anchor a \<notin> set (sweep_dirs h r)" "Flush_anchor a \<notin> set (sweep_ifaces h r)" "Flush_anchor a \<notin> set (sweep_ctx h)"
  "Flush_anchor a \<notin> set (sweep_cow h r)" "Flush_anchor a \<notin> set (sweep_registry h)" "Flush_anchor a \<notin> set (sweep_ipfw h)"
  "Flush_anchor a \<notin> set (sweep_leases h r)"
  "Release4 k \<notin> set (sweep_dirs h r)" "Release4 k \<notin> set (sweep_ifaces h r)" "Release4 k \<notin> set (sweep_ctx h)"
  "Release4 k \<notin> set (sweep_cow h r)" "Release4 k \<notin> set (sweep_registry h)" "Release4 k \<notin> set (sweep_ipfw h)"
  "Release4 k \<notin> set (sweep_anchors h)"
  "Release6 k \<notin> set (sweep_dirs h r)" "Release6 k \<notin> set (sweep_ifaces h r)" "Release6 k \<notin> set (sweep_ctx h)"
  "Release6 k \<notin> set (sweep_cow h r)" "Release6 k \<notin> set (sweep_registry h)" "Release6 k \<notin> set (sweep_ipfw h)"
  "Release6 k \<notin> set (sweep_anchors h)"
  by (auto simp: sweep_kinds Let_def split: option.splits)

lemma contains_suffix: "contains n s \<Longrightarrow> contains n (a @ s)"
  by (induction a) (simp_all add: contains_Cons)

lemma cow_dir_marked: "cow_dir h running name = Some p \<Longrightarrow> contains ''-cow-writable'' p"
  using contains_suffix [of "''-cow-writable''" name "jailDirectoryPath @ ''/''"]
  by (auto simp: cow_dir_def contains_def Let_def split: option.splits if_splits prod.splits)

lemma removed_dirs:
  assumes "cleanCrates dry h = Inr acts" "ch_jails h = Inr js" "Rm_hier p \<in> set acts" "\<not> contains ''-cow-writable'' p"
  shows "p \<notin> set (getRunningJailPaths js)" "\<not> ch_locked h p"
proof -
  have "Rm_hier p \<in> set (sweep_dirs h (getRunningJailPaths js)) \<or> Rm_hier p \<in> set (sweep_cow h (getRunningJailPaths js))"
    using assms(1-3) by (auto simp: cleanCrates_def Let_def sweep_kind_simps split: if_splits)
  moreover have "Rm_hier p \<notin> set (sweep_cow h (getRunningJailPaths js))"
    using assms(4) cow_dir_marked by (auto simp: sweep_cow_def set_map_filter)
  ultimately have "Rm_hier p \<in> set (sweep_dirs h (getRunningJailPaths js))" by blast
  then show "p \<notin> set (getRunningJailPaths js)" "\<not> ch_locked h p"
    by (auto simp: sweep_dirs_def orphan_dir_def set_map_filter Let_def split: if_splits)
qed


definition sample_jail :: clean_jail where
  "sample_jail = \<lparr>cj_jid = 7, cj_name = ''web_pid42'', cj_path = ''/var/run/crate/jail-web-ab12''\<rparr>"

text \<open>A host where one jail runs on a unionfs overlay and a NAT-mode rule of slot 0 is loaded.\<close>

definition sample_host :: clean_host where
  "sample_host = \<lparr>ch_jails = Inr [sample_jail],
     ch_readdir = (\<lambda>d. if d = ''/var/run/crate'' then Some [''.'', ''..'', ''jail-web-ab12'', ''jail-web-ab12-cow-writable'', ''jail-old-00ff''] else None),
     ch_lstat_dir = (\<lambda>_. True), ch_stat_dir = (\<lambda>_. True), ch_locked = (\<lambda>p. p = ''/var/run/crate/jail-web-ab12''),
     ch_users_lock = True, ch_cow_entries = None, ch_ipfw = True, ch_crate_jails = Some [sample_jail],
     ch_rules = Some (''40014 nat 30007 ip from 10.66.0.5 to any'' @ [NL] @ ''40018 nat 30009 ip from 10.66.0.9 to any'' @ [NL]
                      @ ''50001 nat 50000 ip from 10.0.0.2 to any'' @ [NL]),
     ch_nats = None, ch_registry = Some [], ch_dataset = (\<lambda>_. True), ch_exists = (\<lambda>_. True),
     ch_anchors = None, ch_anchor_jails = Some [sample_jail], ch_leases4 = Some [''jail-web-ab12'', ''jail-old-00ff''], ch_leases6 = Some []\<rparr>"

definition sample_actions :: "clean_action list" where
  "sample_actions = [Rm_hier ''/var/run/crate/jail-web-ab12-cow-writable'', Rm_hier ''/var/run/crate/jail-old-00ff'',
     Collect_users, Del_rule 40018, Del_rule 50001, Release4 ''jail-old-00ff'']"

lemma sample_clean: "cleanCrates False sample_host = Inr sample_actions"
  by code_simp



text \<open>
  Cleaning removes the overlay of a running container. The writable layer of a unionfs container
  is the sibling directory \<^verbatim>\<open><root>-cow-writable\<close>; its name starts with \<^verbatim>\<open>jail-\<close> too, it is nobody's root and
  the lock is on the root, so the sweep of jail directories takes it for an orphan and
  deletes it, although the later overlay step would have kept it.
\<close>

theorem clean_removes_running_overlay:
  assumes "ch_jails h = Inr js" "root = jailDirectoryPath @ ''/'' @ name" "starts_with ''jail-'' name"
    and "\<exists>j \<in> set js. cj_path j = root"
    and "ch_readdir h jailDirectoryPath = Some names" "name @ ''-cow-writable'' \<in> set names"
    and "ch_stat_dir h (root @ ''-cow-writable'')" "\<not> ch_locked h (root @ ''-cow-writable'')"
    and "\<forall>j \<in> set js. cj_path j \<noteq> root @ ''-cow-writable''"
  shows "\<exists>acts. cleanCrates False h = Inr acts \<and> Rm_hier (root @ ''-cow-writable'') \<in> set acts"
proof -
  let ?n = "name @ ''-cow-writable''"
  have "?n \<noteq> ''.''" "?n \<noteq> ''..''" "starts_with ''jail-'' ?n"
    using assms(3) by (auto simp: starts_with_iff)
  moreover have "root @ ''-cow-writable'' \<notin> set (getRunningJailPaths js)"
    using assms(9) by (auto simp: getRunningJailPaths_def)
  ultimately have "orphan_dir h (getRunningJailPaths js) jailDirectoryPath ?n = Some (root @ ''-cow-writable'')"
    using assms(2,7,8) by (simp add: orphan_dir_def Let_def)
  then have "root @ ''-cow-writable'' \<in> set (List.map_filter (orphan_dir h (getRunningJailPaths js) jailDirectoryPath) names)"
    using assms(6) by (auto simp: set_map_filter)
  then have "Rm_hier (root @ ''-cow-writable'') \<in> set (sweep_dirs h (getRunningJailPaths js))"
    using assms(5) by (simp add: sweep_dirs_def jail_dirs_def)
  then show ?thesis using assms(1) by (simp add: cleanCrates_def Let_def)
qed

theorem clean_removes_running_overlay_witness:
  "\<exists>acts. cleanCrates False sample_host = Inr acts \<and> Rm_hier (cj_path sample_jail @ ''-cow-writable'') \<in> set acts"
  using clean_removes_running_overlay [of sample_host "[sample_jail]" "cj_path sample_jail" "''jail-web-ab12''"]
  by (simp add: sample_host_def sample_jail_def jailDirectoryPath_def starts_with_def)

section \<open>The ipfw sweep is exact\<close>

lemma number_loop_digits:
  assumes "list_all is_digit s" "acc * 10 ^ length s + dec_val s \<le> 99999" "r = [] \<or> \<not> is_digit (hd r)"
  shows "number_loop (int acc) (s @ r) = int (acc * 10 ^ length s + dec_val s)"
  using assms
proof (induction s arbitrary: acc)
  case Nil
  then show ?case by (cases r) auto
next
  case (Cons c s)
  have eq: "acc * 10 ^ length (c # s) + dec_val (c # s) = (acc * 10 + digit_val c) * 10 ^ length s + dec_val s"
    by (simp add: dec_val_Cons algebra_simps)
  moreover have "acc * 10 + digit_val c \<le> (acc * 10 + digit_val c) * 10 ^ length s + dec_val s" by (simp add: trans_le_add1)
  ultimately have "acc * 10 + digit_val c \<le> 99999" using Cons.prems(2) by linarith
  then show ?case using Cons.IH [of "acc * 10 + digit_val c"] Cons.prems eq by (simp add: Let_def)
qed

text \<open>A rule as \<^verbatim>\<open>ipfw -q list\<close> prints it: the number padded to five digits, a space, the body.\<close>

definition rule_text :: "nat \<times> string \<Rightarrow> string" where
  "rule_text r = replicate (5 - length (dec (fst r))) (CHR ''0'') @ dec (fst r) @ '' '' @ snd r"

lemma dec_val_zeros: "dec_val (replicate k (CHR ''0'') @ s) = dec_val s"
  by (induction k) (simp_all add: dec_val_Cons digit_val_def)

lemma rule_text_number:
  assumes "fst r \<le> 65535"
  shows "parseLeadingNumber (rule_text r) = int (fst r)"
proof -
  let ?d = "replicate (5 - length (dec (fst r))) (CHR ''0'') @ dec (fst r)"
  have d: "list_all is_digit ?d" "?d \<noteq> []" by (auto simp: list_all_iff is_digit_def dest: dec_char_digit)
  obtain c cs where c: "?d = c # cs" using d(2) by (cases ?d) auto
  then have dig: "is_digit c" using d(1) by simp
  then have "\<not> blank c" by (auto simp: is_digit_def blank_def TAB_def)
  moreover have "rule_text r = ?d @ SP # snd r" by (simp add: rule_text_def)
  moreover have "number_loop 0 (?d @ SP # snd r) = int (fst r)"
    using number_loop_digits [OF d(1), of 0 "SP # snd r"] assms by (simp add: dec_val_zeros is_digit_def)
  ultimately show ?thesis using c dig by (simp add: parseLeadingNumber_def)
qed

lemma rule_text_line:
  assumes "NL \<notin> set (snd r)" "CHR 0x0D \<notin> set (snd r)"
  shows "NL \<notin> set (rule_text r)" "chomp_cr (rule_text r) = rule_text r"
proof -
  show "NL \<notin> set (rule_text r)" using assms dec_plain(2) [of "fst r"] by (auto simp: rule_text_def NL_def)
  have "CHR 0x0D \<notin> set (rule_text r)"
    using assms(2) dec_not_in [of "CHR 0x0D" "fst r"] by (auto simp: rule_text_def is_digit_def)
  then have "last (rule_text r) \<noteq> CHR 0x0D" using last_in_set [of "rule_text r"] by (auto simp: rule_text_def)
  then show "chomp_cr (rule_text r) = rule_text r" by (simp add: chomp_cr_def)
qed


text \<open>The rule numbers a sweep of a listing with these rules deletes.\<close>

lemma pick_orphans_listing:
  assumes "\<forall>r \<in> set rules. fst r \<le> 65535 \<and> NL \<notin> set (snd r) \<and> CHR 0x0D \<notin> set (snd r)"
  shows "w \<in> set (pick_orphans parseLeadingNumber lo hi jid_of (concat (map (\<lambda>r. rule_text r @ [NL]) rules)) running) \<longleftrightarrow>
    (\<exists>r \<in> set rules. w = of_nat (fst r) \<and> lo \<le> int (fst r) \<and> int (fst r) < hi \<and> jid_of (int (fst r)) \<notin> running)"
proof -
  have "getlines (concat (map (\<lambda>l. l @ [NL]) (map rule_text rules))) = map rule_text rules"
    using assms rule_text_line(1) by (intro getlines_lines) auto
  then have l: "getlines (concat (map (\<lambda>r. rule_text r @ [NL]) rules)) = map rule_text rules" by (simp add: comp_def)
  have n: "parseLeadingNumber (chomp_cr (rule_text r)) = int (fst r)" if "r \<in> set rules" for r
    using assms that by (simp add: rule_text_line rule_text_number)
  show ?thesis unfolding pick_orphans_def set_map_filter l using n by (auto simp: Let_def)
qed

definition orphan_rule :: "int set \<Rightarrow> int \<Rightarrow> bool" where
  "orphan_rule running n \<longleftrightarrow>
     (40000 \<le> n \<and> n < 60000 \<and> (n - 40000) div 2 \<notin> running) \<or> (20000 \<le> n \<and> n < 30000 \<and> (n - 20000) div 2 \<notin> running)"

text \<open>
  The ipfw sweep deletes exactly the rules in the two reserved ranges that belong to no running jail.
  For every listing of rules with 16-bit numbers, a rule is deleted exactly when it is listed and its
  number, read back through the layout of the automatic firewall (40000..59999) or of the throttle
  (20000..29999), names a jail that does not run. The first range is shared with the NAT mode,
  whose rules carry a slot and not a jail id: every outbound rule of a slot below 1000 is deleted with the
  running jail it serves, unless the unrelated jail id 5000 + 5 * slot happens to run.
\<close>

theorem ipfw_sweep_exact:
  assumes "ch_ipfw h" "ch_rules h = Some (concat (map (\<lambda>r. rule_text r @ [NL]) rules))"
    and ok: "\<forall>r \<in> set rules. fst r \<le> 65535 \<and> NL \<notin> set (snd r) \<and> CHR 0x0D \<notin> set (snd r)"
  shows "(\<forall>w. Del_rule w \<in> set (sweep_ipfw h) \<longleftrightarrow>
              (\<exists>r \<in> set rules. w = of_nat (fst r) \<and> orphan_rule (running_jids h) (int (fst r))))
    \<and> (\<forall>s r. unat s < 1000 \<longrightarrow> 5000 + 5 * int (unat s) \<notin> running_jids h \<longrightarrow>
           r \<in> set rules \<longrightarrow> fst r = unat (fwRuleOutNo default_layout s) \<longrightarrow>
           Del_rule (fwRuleOutNo default_layout s) \<in> set (sweep_ipfw h))"
proof (intro conjI impI allI)
  have nats: "Del_rule w \<notin> set (case ch_nats h of None \<Rightarrow> [] | Some out \<Rightarrow> map Del_nat (pickOrphanIpfwNatIds out (running_jids h)))" for w
    by (auto split: option.splits)
  have iff: "Del_rule w \<in> set (sweep_ipfw h) \<longleftrightarrow>
      (\<exists>r \<in> set rules. w = of_nat (fst r) \<and> orphan_rule (running_jids h) (int (fst r)))" for w
  proof -
    let ?text = "concat (map (\<lambda>r. rule_text r @ [NL]) rules)"
    have inj: "Del_rule w \<in> set (map Del_rule ws) \<longleftrightarrow> w \<in> set ws" for ws by auto
    have "Del_rule w \<in> set (sweep_ipfw h) \<longleftrightarrow>
        w \<in> set (pickOrphanIpfwRulesByJid ?text (running_jids h)) \<or> w \<in> set (pickOrphanIpfwThrottleRulesByJid ?text (running_jids h))"
      using assms(1,2) nats [of w] by (simp only: sweep_ipfw_def option.case if_True not_True_eq_False if_False set_append Un_iff inj simp_thms)
    then show ?thesis
      unfolding pickOrphanIpfwRulesByJid_def pickOrphanIpfwThrottleRulesByJid_def pick_orphans_listing [OF ok]
      by (auto simp: kIpfwRuleBase_def kIpfwRuleRangeEnd_def orphan_rule_def)
  qed
  then show "Del_rule w \<in> set (sweep_ipfw h) \<longleftrightarrow>
      (\<exists>r \<in> set rules. w = of_nat (fst r) \<and> orphan_rule (running_jids h) (int (fst r)))" for w .
  show "Del_rule (fwRuleOutNo default_layout s) \<in> set (sweep_ipfw h)"
    if s: "unat s < 1000" "5000 + 5 * int (unat s) \<notin> running_jids h" and r: "r \<in> set rules" "fst r = unat (fwRuleOutNo default_layout s)" for s r
  proof -
    have "int (fst r) = 50001 + 10 * int (unat s)" using r(2) slot_numbers(3) [OF s(1)] by simp
    moreover have "(50001 + 10 * i - 40000) div 2 = 5000 + 5 * i" for i :: int by presburger
    moreover have "uint s < 1000" using s(1) uint_nat [of s] by linarith
    ultimately have "orphan_rule (running_jids h) (int (fst r))" using s(2) by (simp add: orphan_rule_def)
    then show ?thesis using r iff by (intro iffD2 [OF iff] bexI [OF _ r(1)]) simp_all
  qed
qed

theorem ipfw_sweep_exact_witness:
  "Del_rule 40018 \<in> set (sweep_ipfw sample_host) \<and> Del_rule 40014 \<notin> set (sweep_ipfw sample_host)
   \<and> Del_rule (fwRuleOutNo default_layout 0) \<in> set (sweep_ipfw sample_host)"
proof -
  let ?rules = "[(40014, ''nat 30007 ip from 10.66.0.5 to any''), (40018, ''nat 30009 ip from 10.66.0.9 to any''),
                 (50001, ''nat 50000 ip from 10.0.0.2 to any'')] :: (nat \<times> string) list"
  have h: "ch_ipfw sample_host" "ch_rules sample_host = Some (concat (map (\<lambda>r. rule_text r @ [NL]) ?rules))"
    by (simp_all add: sample_host_def rule_text_def dec.simps)
  have ok: "\<forall>r \<in> set ?rules. fst r \<le> 65535 \<and> NL \<notin> set (snd r) \<and> CHR 0x0D \<notin> set (snd r)" by (simp add: NL_def)
  have j: "running_jids sample_host = {7}" by (simp add: running_jids_def sample_host_def sample_jail_def)
  show ?thesis using conjunct1 [OF ipfw_sweep_exact [OF h ok]]
      conjunct2 [OF ipfw_sweep_exact [OF h ok], THEN spec, of 0]
    by (simp add: j orphan_rule_def fwRuleOutNo_def default_layout_def)
qed

end
