(* ===== verification/Ip6Alloc.thy ===== *)
theory Ip6Alloc
  imports AutoFw
begin

text \<open>
  IPv6 pools, \<^verbatim>\<open>lib/ip6_alloc_pure.cpp\<close>: parsing with the double-colon shorthand, printing with the longest
  run of zero groups collapsed, prefix masks on the sixteen bytes, the allocator with its cap of 65536
  candidates, and the lease line. An address is the list of its sixteen bytes.
\<close>

unbundle bit_operations_syntax

section \<open>Parsing\<close>

type_synonym addr6 = "u8 list"

definition hexVal :: "char \<Rightarrow> nat" where
  "hexVal c = (if is_digit c then of_char c - 48
     else if CHR ''a'' \<le> c \<and> c \<le> CHR ''f'' then 10 + (of_char c - 97) else 10 + (of_char c - 65))"

fun group_loop :: "u32 \<Rightarrow> string \<Rightarrow> u16 option" where
  "group_loop v [] = Some (ucast v)"
| "group_loop v (c # cs) = (if \<not> is_hex c then None else group_loop (push_bit 4 v OR of_nat (hexVal c)) cs)"

definition parseGroup :: "string \<Rightarrow> u16 option" where
  "parseGroup s = (if s = [] \<or> length s > 4 then None else group_loop 0 s)"

fun split_groups_loop :: "string list \<Rightarrow> string \<Rightarrow> string \<Rightarrow> string list res" where
  "split_groups_loop out cur [] = (if cur = [] then Inl (''trailing '' @ quoted '':'' @ '' without '' @ quoted ''::'') else Inr (out @ [cur]))"
| "split_groups_loop out cur (c # cs) =
     (if c = CHR '':'' then
        (if cur = [] then Inl (''empty group (consecutive '' @ quoted '':'' @ '' without '' @ quoted ''::'' @ '')'')
         else split_groups_loop (out @ [cur]) [] cs)
      else split_groups_loop out (cur @ [c]) cs)"

definition splitGroups :: "string \<Rightarrow> string list res" where
  "splitGroups part = (if part = [] then Inr [] else split_groups_loop [] [] part)"

fun parse_groups :: "string list \<Rightarrow> u16 list res" where
  "parse_groups [] = Inr []"
| "parse_groups (g # gs) =
     (case parseGroup g of
        None \<Rightarrow> Inl (''IPv6 group '' @ quoted g @ '' is not 1..4 hex digits'')
      | Some v \<Rightarrow> bind_res (parse_groups gs) (\<lambda>vs. Inr (v # vs)))"

definition parse_parts :: "string \<Rightarrow> bool \<Rightarrow> string \<Rightarrow> string \<Rightarrow> addr6 res" where
  "parse_parts s hasShorthand before after =
     (case splitGroups before of
        Inl e \<Rightarrow> Inl (''IPv6 parse: '' @ e @ '' in '' @ quoted s)
      | Inr bg \<Rightarrow>
        (case splitGroups after of
           Inl e \<Rightarrow> Inl (''IPv6 parse: '' @ e @ '' in '' @ quoted s)
         | Inr ag \<Rightarrow>
           let total = length bg + length ag in
           if total > 8 then Inl (''IPv6 has too many groups: '' @ quoted s)
           else if \<not> hasShorthand \<and> total \<noteq> 8
             then Inl (''IPv6 needs exactly 8 groups (or '' @ quoted ''::'' @ '' shorthand): '' @ quoted s)
           else if hasShorthand \<and> total = 8
             then Inl (''IPv6 '' @ quoted ''::'' @ '' shorthand needs at least one zero group: '' @ quoted s)
           else bind_res (parse_groups bg) (\<lambda>b. bind_res (parse_groups ag) (\<lambda>a.
             Inr (bytes_of (b @ replicate (8 - total) 0 @ a))))))"

definition parseIp6 :: "string \<Rightarrow> addr6 res" where
  "parseIp6 s =
     (if s = [] then Inl ''IPv6 address is empty''
      else if length s > 64 then Inl ''IPv6 address is implausibly long''
      else case cut_first ''::'' s of
        Some (before, after) \<Rightarrow>
          if contains ''::'' (CHR '':'' # after) then Inl (''IPv6 address has more than one '' @ quoted ''::'' @ '': '' @ quoted s)
          else parse_parts s True before after
      | None \<Rightarrow> parse_parts s False s [])"

section \<open>Prefixes\<close>

record network6 =
  base6 :: addr6
  prefixLen6 :: nat

definition maskPrefix :: "addr6 \<Rightarrow> nat \<Rightarrow> addr6" where
  "maskPrefix a p = (if p \<ge> 128 then a else foldl clear_bit a [p..<128])"

definition parseCidr6 :: "string \<Rightarrow> network6 res" where
  "parseCidr6 cidr =
     (case cut_at (CHR ''/'') cidr of
        None \<Rightarrow> Inl (''missing CIDR mark '' @ quoted ''/'' @ '' in '' @ quoted cidr)
      | Some (addr, prefStr) \<Rightarrow>
        if CHR ''/'' \<in> set prefStr then Inl (''more than one '' @ quoted ''/'' @ '' in '' @ quoted cidr)
        else bind_res (parseIp6 addr) (\<lambda>b.
          if prefStr = [] then Inl (''empty prefix length in '' @ quoted cidr)
          else if length prefStr > 3 then Inl (''implausible prefix length in '' @ quoted cidr)
          else if \<not> list_all is_digit prefStr then Inl (''non-numeric prefix length in '' @ quoted cidr)
          else let p = dec_val prefStr in
            if p < 1 \<or> p > 128 then Inl (''IPv6 prefix length out of range (1..128): '' @ quoted cidr)
            else if maskPrefix b p \<noteq> b
              then Inl (''IPv6 base address is not aligned to /'' @ dec p @ '' (host bits set): '' @ quoted cidr)
            else Inr \<lparr>base6 = b, prefixLen6 = p\<rparr>))"

section \<open>Printing\<close>

text \<open>The longest run of zero groups: \<^verbatim>\<open>bestStart\<close>, \<^verbatim>\<open>bestLen\<close>, \<^verbatim>\<open>curStart\<close>, \<^verbatim>\<open>curLen\<close> over the groups from index \<^verbatim>\<open>i\<close>.\<close>

fun best_run :: "int \<Rightarrow> int \<Rightarrow> int \<Rightarrow> int \<Rightarrow> int \<Rightarrow> u16 list \<Rightarrow> int \<times> int" where
  "best_run i bs bl cs cl [] = (bs, bl)"
| "best_run i bs bl cs cl (g # gs) =
     (if g = 0 then
        let (cs', cl') = (if cs < 0 then (i, 1) else (cs, cl + 1));
            (bs', bl') = (if cl' > bl then (cs', cl') else (bs, bl)) in
        best_run (i + 1) bs' bl' cs' cl' gs
      else best_run (i + 1) bs bl (- 1) 0 gs)"

definition collapse :: "u16 list \<Rightarrow> int \<times> int" where
  "collapse g = (let (bs, bl) = best_run 0 (- 1) 0 (- 1) 0 g in if bl < 2 then (- 1, 0) else (bs, bl))"

text \<open>
  The output loop. A run that starts at an index is at least two groups long; with length zero the loop of
  the source would not advance, which the first guard rules out for the model's termination.
\<close>

function emit :: "int \<Rightarrow> int \<Rightarrow> u16 list \<Rightarrow> nat \<Rightarrow> string" where
  "emit bs bl g i =
     (if i \<ge> 8 then []
      else if int i = bs then (if bl \<le> 0 then [] else ''::'' @ emit bs bl g (i + nat bl))
      else (if i > 0 \<and> int i \<noteq> bs + bl then '':'' else []) @ hex (unat (g ! i)) @ emit bs bl g (i + 1))"
  by pat_completeness auto
termination by (relation "measure (\<lambda>(_, _, _, i). 8 - i)") auto

declare emit.simps [simp del]

definition formatIp6 :: "addr6 \<Rightarrow> string" where
  "formatIp6 addr = (let g = groups_of addr; (bs, bl) = collapse g in emit bs bl g 0)"

section \<open>Allocation\<close>

text \<open>\<^verbatim>\<open>++a[i]\<close> from the last byte on, until a byte does not wrap.\<close>

fun inc_rev :: "u8 list \<Rightarrow> u8 list \<times> bool" where
  "inc_rev [] = ([], False)"
| "inc_rev (b # bs) = (if b + 1 \<noteq> 0 then ((b + 1) # bs, True) else apfst ((#) 0) (inc_rev bs))"

definition incrementInPlace :: "addr6 \<Rightarrow> addr6 \<times> bool" where
  "incrementInPlace a = apfst rev (inc_rev (rev a))"

definition gatewayFor6 :: "network6 \<Rightarrow> addr6" where
  "gatewayFor6 n = fst (incrementInPlace (base6 n))"

definition inPool6 :: "network6 \<Rightarrow> addr6 \<Rightarrow> bool" where
  "inPool6 pool addr \<longleftrightarrow> maskPrefix addr (prefixLen6 pool) = base6 pool"

definition zero6 :: addr6 where
  "zero6 = replicate 16 0"

function alloc6_loop :: "network6 \<Rightarrow> addr6 list \<Rightarrow> int \<Rightarrow> addr6 \<Rightarrow> addr6" where
  "alloc6_loop pool taken i candidate =
     (if i \<ge> 65536 then zero6
      else if \<not> inPool6 pool candidate then zero6
      else if candidate \<notin> set taken then candidate
      else case incrementInPlace candidate of (c, ok) \<Rightarrow>
        if \<not> ok then zero6 else alloc6_loop pool taken (i + 1) c)"
  by pat_completeness auto
termination by (relation "measure (\<lambda>(_, _, i, _). nat (65536 - i))") auto

declare alloc6_loop.simps [simp del]

definition allocateNext6 :: "network6 \<Rightarrow> addr6 list \<Rightarrow> addr6" where
  "allocateNext6 pool taken =
     (case incrementInPlace (base6 pool) of (c1, ok1) \<Rightarrow>
      if \<not> ok1 then zero6
      else case incrementInPlace c1 of (c2, ok2) \<Rightarrow>
        if \<not> ok2 then zero6 else alloc6_loop pool taken 0 c2)"

section \<open>Lease lines\<close>

record lease6 =
  l6_name :: string
  l6_ip :: addr6

definition leaseNameLooksValid :: "string \<Rightarrow> bool" where
  "leaseNameLooksValid n \<longleftrightarrow> \<not> (n = [] \<or> length n > kLeaseName) \<and>
     list_all (\<lambda>c. is_alnum c \<or> c = CHR ''.'' \<or> c = CHR ''_'' \<or> c = CHR ''-'') n"

definition parseLeaseLine6 :: "string \<Rightarrow> lease6 res" where
  "parseLeaseLine6 line =
     (case cut_at (CHR '' '') line of
        None \<Rightarrow> Inl ''no space separator''
      | Some (name, ip) \<Rightarrow>
        if has_ws ip then Inl ''ip has internal whitespace''
        else if \<not> leaseNameLooksValid name then Inl (''invalid jail name '' @ quoted name)
        else case parseIp6 ip of
          Inl e \<Rightarrow> Inl (''ip parse: '' @ e)
        | Inr a \<Rightarrow> Inr \<lparr>l6_name = name, l6_ip = a\<rparr>)"

definition formatLeaseLine6 :: "lease6 \<Rightarrow> string" where
  "formatLeaseLine6 l = l6_name l @ '' '' @ formatIp6 (l6_ip l)"

section \<open>A printed group reads back\<close>

lemma hex_char_props:
  assumes "d < 16"
  shows "is_hex (hex_char d)" "hexVal (hex_char d) = d"
proof -
  have "d = 0 \<or> d = 1 \<or> d = 2 \<or> d = 3 \<or> d = 4 \<or> d = 5 \<or> d = 6 \<or> d = 7 \<or> d = 8 \<or> d = 9 \<or> d = 10 \<or> d = 11 \<or> d = 12 \<or> d = 13 \<or> d = 14 \<or> d = 15"
    using assms by presburger
  then show "is_hex (hex_char d)" "hexVal (hex_char d) = d"
    by (elim disjE; simp; code_simp)+
qed

definition hex_value :: "string \<Rightarrow> nat" where
  "hex_value s = foldl (\<lambda>v c. v * 16 + hexVal c) 0 s"

lemma hex_facts: "list_all is_hex (hex n) \<and> hex n \<noteq> [] \<and> hex_value (hex n) = n"
proof (induction n rule: hex.induct)
  case (1 n)
  show ?case
  proof (cases "n < 16")
    case True
    then show ?thesis by (simp add: hex.simps hex_char_props hex_value_def)
  next
    case False
    then have "hex n = hex (n div 16) @ [hex_char (n mod 16)]" by (subst hex.simps) simp
    then show ?thesis using 1 False by (simp add: hex_char_props hex_value_def)
  qed
qed

lemma hex_length: "n < 16 ^ k \<Longrightarrow> 0 < k \<Longrightarrow> length (hex n) \<le> k"
proof (induction k arbitrary: n)
  case 0
  then show ?case by simp
next
  case (Suc k)
  show ?case
  proof (cases "n < 16")
    case True
    then show ?thesis by (simp add: hex.simps)
  next
    case False
    with Suc.prems have "0 < k" "n div 16 < 16 ^ k" by (cases k; simp)+
    with Suc.IH have "length (hex (n div 16)) \<le> k" by blast
    with False show ?thesis by (simp add: hex.simps [of n])
  qed
qed

lemma hexVal_less: "is_hex c \<Longrightarrow> hexVal c < 16"
  by (auto simp: hexVal_def is_hex_def is_digit_def less_eq_char_def)

lemma push_nibble:
  assumes "d < 16" "unat (v :: u32) < 2 ^ 28"
  shows "unat (push_bit 4 v OR of_nat d) = unat v * 16 + d"
proof -
  have z: "push_bit 4 v AND of_nat d = 0"
  proof (rule bit_word_eqI)
    fix n assume "n < LENGTH(32)"
    have "\<not> bit d n" if "4 \<le> n"
    proof -
      have "(2 :: nat) ^ 4 \<le> 2 ^ n" using that by (intro power_increasing) simp_all
      then have "d div 2 ^ n = 0" using assms(1) by simp
      then show ?thesis by (simp add: bit_iff_odd)
    qed
    then show "bit (push_bit 4 v AND of_nat d) n \<longleftrightarrow> bit (0 :: u32) n"
      by (auto simp: bit_simps)
  qed
  then have "push_bit 4 v OR of_nat d = push_bit 4 v + of_nat d" by (rule disjunctive_add_eq_or [symmetric])
  also have "\<dots> = of_nat (unat v * 16 + d)" by (simp add: push_bit_eq_mult)
  finally have e: "push_bit 4 v OR of_nat d = of_nat (unat v * 16 + d)" .
  have "unat v * 16 + d < 2 ^ LENGTH(32)" using assms by simp
  then show ?thesis unfolding e unat_of_nat by (rule mod_less)
qed

lemma group_loop_value:
  assumes "list_all is_hex s" "unat v * 16 ^ length s + 16 ^ length s \<le> 2 ^ 16"
  shows "group_loop v s = Some (of_nat (foldl (\<lambda>v c. v * 16 + hexVal c) (unat v) s))"
  using assms
proof (induction s arbitrary: v)
  case Nil
  then show ?case by (simp add: of_nat_unat)
next
  case (Cons c s)
  have d: "hexVal c < 16" using Cons.prems hexVal_less by simp
  have "(unat v + 1) * 16 ^ length (c # s) \<le> 2 ^ 16" using Cons.prems(2) by simp
  moreover have "(unat v + 1) * 1 \<le> (unat v + 1) * 16 ^ length (c # s)" by (rule mult_le_mono2) simp
  ultimately have "(unat v + 1) * 1 \<le> 2 ^ 16" by (rule le_trans [rotated])
  then have v: "unat v < 2 ^ 28" by simp
  have u: "unat (push_bit 4 v OR of_nat (hexVal c)) = unat v * 16 + hexVal c" by (rule push_nibble [OF d v])
  let ?p = "16 ^ length s :: nat"
  have "hexVal c * ?p \<le> 15 * ?p" using d by (intro mult_right_mono) simp_all
  moreover have "(unat v * 16 + hexVal c) * ?p + ?p = unat v * (16 * ?p) + hexVal c * ?p + ?p" by (simp add: algebra_simps)
  moreover have "unat v * (16 * ?p) + 16 * ?p \<le> 2 ^ 16" using Cons.prems(2) by simp
  ultimately have "unat (push_bit 4 v OR of_nat (hexVal c)) * 16 ^ length s + 16 ^ length s \<le> 2 ^ 16"
    unfolding u by linarith
  from Cons.IH [OF _ this] show ?case using Cons.prems(1) unfolding u by simp
qed


lemma parseGroup_hex: "n < 2 ^ 16 \<Longrightarrow> parseGroup (hex n) = Some (of_nat n)"
proof -
  assume n: "n < 2 ^ 16"
  then have l: "length (hex n) \<le> 4" using hex_length [of n 4] by simp
  have "(16 :: nat) ^ length (hex n) \<le> 16 ^ 4" using l by (intro power_increasing) simp_all
  then have "group_loop 0 (hex n) = Some (of_nat (hex_value (hex n)))"
    using hex_facts [of n] group_loop_value [of "hex n" 0] by (simp add: hex_value_def)
  then show ?thesis using l hex_facts [of n] by (simp add: parseGroup_def)
qed

lemma parse_groups_hex: "parse_groups (map (\<lambda>w. hex (unat w)) ws) = Inr ws"
proof (induction ws)
  case Nil
  then show ?case by simp
next
  case (Cons w ws)
  have "unat w < 2 ^ 16" using unsigned_less [of w] by simp
  then show ?case using Cons by (simp add: parseGroup_hex)
qed

section \<open>Splitting at the colons\<close>

abbreviation COLON :: char where "COLON \<equiv> CHR '':''"

definition word_ok :: "string \<Rightarrow> bool" where
  "word_ok w \<longleftrightarrow> w \<noteq> [] \<and> COLON \<notin> set w"

lemma hex_word_ok: "word_ok (hex n)"
proof -
  have "\<not> is_hex COLON" by (simp add: is_hex_def)
  then show ?thesis using hex_facts [of n] by (auto simp: word_ok_def list_all_iff)
qed

lemma split_groups_word:
  "COLON \<notin> set w \<Longrightarrow> split_groups_loop out cur (w @ r) = split_groups_loop out (cur @ w) r"
  by (induction w arbitrary: cur) auto

lemma split_groups_join:
  assumes "\<forall>w \<in> set ws. word_ok w" "ws \<noteq> []"
  shows "split_groups_loop out [] (join COLON ws) = Inr (out @ ws)"
  using assms
proof (induction COLON ws arbitrary: out rule: join.induct)
  case 1
  then show ?case by simp
next
  case (2 w)
  then show ?case using split_groups_word [of w out "[]" "[]"] by (simp add: word_ok_def)
next
  case (3 w w' ws)
  then show ?case using split_groups_word [of w out "[]"] by (simp add: word_ok_def)
qed

lemma join_Nil_iff: "\<forall>w \<in> set ws. word_ok w \<Longrightarrow> join COLON ws = [] \<longleftrightarrow> ws = []"
  by (induction COLON ws rule: join.induct) (auto simp: word_ok_def)

lemma splitGroups_join: "\<forall>w \<in> set ws. word_ok w \<Longrightarrow> splitGroups (join COLON ws) = Inr ws"
  using split_groups_join [of ws "[]"] join_Nil_iff [of ws] by (auto simp: splitGroups_def)

lemma join_hd: "\<forall>w \<in> set ws. word_ok w \<Longrightarrow> ws \<noteq> [] \<Longrightarrow> \<exists>c r. join COLON ws = c # r \<and> c \<noteq> COLON"
  by (induction COLON ws rule: join.induct) (auto simp: word_ok_def neq_Nil_conv)

lemma cut_first_skip_word:
  "COLON \<notin> set w \<Longrightarrow> cut_first ''::'' (w @ r) = map_option (apfst ((@) w)) (cut_first ''::'' r)"
proof (induction w)
  case Nil
  then show ?case by (simp add: apfst_def map_prod_def option.map_ident)
next
  case (Cons c w)
  then have "\<not> starts_with ''::'' (c # w @ r)" by (auto simp: starts_with_def)
  then show ?case using Cons by (simp add: cut_first_skip option.map_comp comp_def apfst_def map_prod_def split_beta)
qed

lemma cut_first_single_colon:
  "r \<noteq> [] \<Longrightarrow> hd r \<noteq> COLON \<Longrightarrow> cut_first ''::'' (COLON # r) = map_option (apfst ((#) COLON)) (cut_first ''::'' r)"
  by (rule cut_first_skip) (cases r; simp add: starts_with_def)

lemma cut_first_join:
  assumes "\<forall>w \<in> set ws. word_ok w"
  shows "cut_first ''::'' (join COLON ws @ ''::'' @ r) = Some (join COLON ws, r)"
    and "cut_first ''::'' (join COLON ws) = None"
  using assms
proof (induction COLON ws rule: join.induct)
  case 1
  {
    case 1
    then show ?case by (simp add: cut_first.simps starts_with_def)
  next
    case 2
    then show ?case by (simp add: cut_first.simps starts_with_def)
  }
next
  case (2 w)
  have n: "cut_first ''::'' [] = None" by (simp add: cut_first.simps starts_with_def)
  have s: "cut_first ''::'' (''::'' @ r) = Some ([], r)" by (simp add: cut_first.simps starts_with_def)
  {
    case 1
    then show ?case using s cut_first_skip_word [of w "''::'' @ r"] by (simp add: word_ok_def)
  next
    case 2
    then show ?case using n cut_first_skip_word [of w "[]"] by (simp add: word_ok_def)
  }
next
  case (3 w w' ws)
  {
    case 1
    obtain c t where j: "join COLON (w' # ws) = c # t" "c \<noteq> COLON" using 1 join_hd [of "w' # ws"] by auto
    have "cut_first ''::'' (COLON # join COLON (w' # ws) @ ''::'' @ r) = Some (COLON # join COLON (w' # ws), r)"
      using 3(1) 1 j by (subst cut_first_single_colon) (simp_all del: join.simps)
    then show ?case using 1 cut_first_skip_word [of w] by (simp add: word_ok_def)
  next
    case 2
    obtain c t where j: "join COLON (w' # ws) = c # t" "c \<noteq> COLON" using 2 join_hd [of "w' # ws"] by auto
    have "cut_first ''::'' (COLON # join COLON (w' # ws)) = None"
      using 3(2) 2 j by (subst cut_first_single_colon) (simp_all del: join.simps)
    then show ?case using 2 cut_first_skip_word [of w] by (simp add: word_ok_def)
  }
qed


section \<open>The bytes and the groups\<close>

lemma bytes_pair:
  "ucast (drop_bit 8 (push_bit 8 (ucast a) OR ucast b :: u16)) = (a :: u8)"
  "ucast ((push_bit 8 (ucast a) OR ucast b :: u16) AND 0xff) = (b :: u8)"
proof -
  show "ucast (drop_bit 8 (push_bit 8 (ucast a) OR ucast b :: u16)) = a"
    by (rule bit_word_eqI) (auto simp: bit_simps dest: bit_imp_le_length)
  have ff: "(0xff :: u16) = mask 8" by (simp add: mask_eq_exp_minus_1)
  show "ucast ((push_bit 8 (ucast a) OR ucast b :: u16) AND 0xff) = b"
    unfolding ff by (rule bit_word_eqI) (auto simp: bit_simps)
qed

lemma length_groups_of [simp]: "length (groups_of a) = 8"
  by (simp add: groups_of_def)

lemma length_bytes_of [simp]: "length (bytes_of g) = 2 * length g"
  by (induction g) (simp_all add: bytes_of_def)

lemma bytes_of_nth:
  assumes "i < length g"
  shows "bytes_of g ! (2 * i) = ucast (drop_bit 8 (g ! i))" "bytes_of g ! (2 * i + 1) = ucast (g ! i AND 0xff)"
proof -
  have "bytes_of g ! (2 * i) = ucast (drop_bit 8 (g ! i)) \<and> bytes_of g ! (2 * i + 1) = ucast (g ! i AND 0xff)"
    using assms
  proof (induction g arbitrary: i)
    case (Cons w g)
    have "bytes_of (w # g) = ucast (drop_bit 8 w) # ucast (w AND 0xff) # bytes_of g" by (simp add: bytes_of_def)
    then show ?case using Cons by (cases i) simp_all
  qed simp
  then show "bytes_of g ! (2 * i) = ucast (drop_bit 8 (g ! i))" "bytes_of g ! (2 * i + 1) = ucast (g ! i AND 0xff)"
    by simp_all
qed

lemma bytes_of_groups_of:
  assumes "length a = 16"
  shows "bytes_of (groups_of a) = a"
proof (rule nth_equalityI)
  show "length (bytes_of (groups_of a)) = length a" using assms by simp
  fix k assume "k < length (bytes_of (groups_of a))"
  then have k: "k < 16" by simp
  let ?i = "k div 2"
  have i: "?i < 8" using k by simp
  have g: "groups_of a ! ?i = push_bit 8 (ucast (a ! (2 * ?i))) OR ucast (a ! (2 * ?i + 1))" using i by (simp add: groups_of_def)
  have n: "bytes_of (groups_of a) ! (2 * ?i) = a ! (2 * ?i)" "bytes_of (groups_of a) ! (2 * ?i + 1) = a ! (2 * ?i + 1)"
    using bytes_of_nth [of ?i "groups_of a"] i unfolding g by (simp_all only: bytes_pair length_groups_of simp_thms)
  have "k = 2 * ?i \<or> k = 2 * ?i + 1" by presburger
  then show "bytes_of (groups_of a) ! k = a ! k" using n by metis
qed

section \<open>What is printed\<close>

definition hexs :: "u16 list \<Rightarrow> string list" where
  "hexs g = map (\<lambda>w. hex (unat w)) g"

definition colon_all :: "string list \<Rightarrow> string" where
  "colon_all ws = concat (map (\<lambda>w. COLON # w) ws)"

lemma join_colon_all: "join COLON (w # ws) = w @ colon_all ws"
  by (induction ws arbitrary: w) (auto simp: colon_all_def)

lemma hexs_Cons: "i < length g \<Longrightarrow> drop i (hexs g) = hex (unat (g ! i)) # drop (Suc i) (hexs g)"
  by (simp add: hexs_def Cons_nth_drop_Suc [symmetric])

lemma emit_tail:
  assumes "length g = 8" "0 < i" "bs < int i" "bs + bl < int i"
  shows "emit bs bl g i = colon_all (drop i (hexs g))"
  using assms
proof (induction "8 - i" arbitrary: i)
  case 0
  then show ?case by (simp add: emit.simps hexs_def colon_all_def)
next
  case (Suc k)
  then have "emit bs bl g (i + 1) = colon_all (drop (i + 1) (hexs g))" by simp
  then show ?case using Suc.prems Suc.hyps(2) hexs_Cons [of i g]
    by (simp add: emit.simps [of bs bl g i] colon_all_def)
qed

lemma emit_after:
  assumes "length g = 8" "0 < l" "i = b + l"
  shows "emit (int b) (int l) g i = join COLON (drop i (hexs g))"
proof (cases "i < 8")
  case True
  then show ?thesis using assms hexs_Cons [of i g] emit_tail [of g "i + 1" "int b" "int l"]
    by (subst emit.simps) (simp add: join_colon_all del: join.simps)
next
  case False
  then show ?thesis using assms by (simp add: emit.simps hexs_def)
qed

lemma emit_before:
  assumes "length g = 8" "0 < l" "b + l \<le> 8" "0 < i" "i \<le> b"
  shows "emit (int b) (int l) g i = colon_all (take (b - i) (drop i (hexs g))) @ ''::'' @ join COLON (drop (b + l) (hexs g))"
  using assms
proof (induction "b - i" arbitrary: i)
  case 0
  then show ?case using emit_after [of g l "b + l" b] by (subst emit.simps) (simp add: colon_all_def)
next
  case (Suc k)
  then have "emit (int b) (int l) g (i + 1) =
      colon_all (take (b - (i + 1)) (drop (i + 1) (hexs g))) @ ''::'' @ join COLON (drop (b + l) (hexs g))"
    by simp
  moreover have "take (b - i) (drop i (hexs g)) = hex (unat (g ! i)) # take (b - (i + 1)) (drop (i + 1) (hexs g))"
    using Suc hexs_Cons [of i g] by (simp add: take_Cons' Suc_diff_Suc)
  moreover have "i < b" "i < 8" using Suc by simp_all
  ultimately show ?case using Suc.prems by (simp add: emit.simps [of "int b" "int l" g i] colon_all_def)
qed

lemma emit_run:
  assumes "length g = 8" "0 < l" "b + l \<le> 8"
  shows "emit (int b) (int l) g 0 = join COLON (take b (hexs g)) @ ''::'' @ join COLON (drop (b + l) (hexs g))"
proof (cases "b = 0")
  case True
  then show ?thesis using assms emit_after [of g l l 0] by (simp add: emit.simps [of 0 "int l" g 0])
next
  case False
  have "take b (hexs g) = hex (unat (g ! 0)) # take (b - 1) (drop 1 (hexs g))"
    using False assms hexs_Cons [of 0 g] by (cases b; cases "hexs g") simp_all
  then show ?thesis using assms False emit_before [of g l b 1]
    by (simp add: emit.simps [of "int b" "int l" g 0] join_colon_all del: join.simps)
qed

lemma emit_plain: "length g = 8 \<Longrightarrow> emit (- 1) 0 g 0 = join COLON (hexs g)"
  using hexs_Cons [of 0 g] emit_tail [of g 1 "- 1" 0]
  by (cases "hexs g") (simp_all add: emit.simps [of "- 1" 0 g 0] join_colon_all del: join.simps)


section \<open>The run that is collapsed\<close>

text \<open>A run of zero groups inside the first \<^verbatim>\<open>i\<close> groups.\<close>

definition zero_run :: "u16 list \<Rightarrow> nat \<Rightarrow> int \<Rightarrow> int \<Rightarrow> bool" where
  "zero_run g i b l \<longleftrightarrow> 0 \<le> b \<and> 0 < l \<and> b + l \<le> int i \<and> (\<forall>k. b \<le> int k \<and> int k < b + l \<longrightarrow> g ! k = 0)"

lemma zero_run_mono: "zero_run g i b l \<Longrightarrow> zero_run g (Suc i) b l"
  by (auto simp: zero_run_def)

lemma zero_run_snoc:
  assumes "cs < 0 \<and> cl = 0 \<or> zero_run g i cs cl \<and> cs + cl = int i" "g ! i = 0"
  shows "zero_run g (Suc i) (if cs < 0 then int i else cs) (if cs < 0 then 1 else cl + 1)"
proof (cases "cs < 0")
  case True
  then show ?thesis using assms(2) by (auto simp: zero_run_def)
next
  case False
  then have z: "zero_run g i cs cl" "cs + cl = int i" using assms(1) by auto
  have "g ! k = 0" if "cs \<le> int k" "int k < cs + (cl + 1)" for k
    using that z assms(2) by (cases "k = i") (auto simp: zero_run_def)
  then show ?thesis using False z by (auto simp: zero_run_def)
qed

lemma best_run_zero:
  assumes "(bs, bl) = best_run (int i) b l cs cl (drop i g)" "i \<le> length g"
    and "l = 0 \<or> zero_run g i b l" "cs < 0 \<and> cl = 0 \<or> zero_run g i cs cl \<and> cs + cl = int i" "0 \<le> l"
  shows "bl = 0 \<or> zero_run g (length g) bs bl"
  using assms
proof (induction "length g - i" arbitrary: i b l cs cl)
  case 0
  then show ?case by simp
next
  case (Suc n)
  then have d: "drop i g = g ! i # drop (Suc i) g" and i: "i < length g" by (simp_all add: Cons_nth_drop_Suc)
  have n: "n = length g - Suc i" using Suc.hyps(2) by simp
  have old: "l = 0 \<or> zero_run g (Suc i) b l" using Suc.prems(3) zero_run_mono by blast
  show ?case
  proof (cases "g ! i = 0")
    case False
    then have "(bs, bl) = best_run (int (Suc i)) b l (- 1) 0 (drop (Suc i) g)" using Suc.prems(1) d by (simp add: algebra_simps)
    from Suc.hyps(1) [OF n this _ old _ Suc.prems(5)] i show ?thesis by simp
  next
    case True
    define c m where "c = (if cs < 0 then int i else cs)" and "m = (if cs < 0 then 1 else cl + 1)"
    have cm: "zero_run g (Suc i) c m" "c + m = int (Suc i)"
      using Suc.prems(4) zero_run_snoc [OF Suc.prems(4) True] by (auto simp: c_def m_def)
    let ?b = "if m > l then c else b" and ?l = "if m > l then m else l"
    have eq: "(bs, bl) = best_run (int (Suc i)) ?b ?l c m (drop (Suc i) g)"
      using Suc.prems(1) d True by (auto simp: c_def m_def Let_def algebra_simps split: if_splits)
    have "?l = 0 \<or> zero_run g (Suc i) ?b ?l" "0 \<le> ?l" using old cm Suc.prems(5) by auto
    from Suc.hyps(1) [OF n eq _ this(1) _ this(2)] i cm show ?thesis by simp
  qed
qed

lemma collapse_cases:
  assumes "length g = 8"
  obtains "collapse g = (- 1, 0)"
  | b l where "collapse g = (int b, int l)" "2 \<le> l" "b + l \<le> 8" "take b g @ replicate l 0 @ drop (b + l) g = g"
proof -
  obtain bs bl where r: "(bs, bl) = best_run 0 (- 1) 0 (- 1) 0 g" by (metis surj_pair)
  have z: "bl = 0 \<or> zero_run g 8 bs bl" using best_run_zero [of bs bl 0 "- 1" 0 "- 1" 0 g] r assms by simp
  show thesis
  proof (cases "bl < 2")
    case True
    then show thesis using that(1) by (simp add: collapse_def r [symmetric])
  next
    case False
    then have zr: "zero_run g 8 bs bl" using z by simp
    define b l where "b = nat bs" and "l = nat bl"
    have bl: "bs = int b" "bl = int l" "2 \<le> l" "b + l \<le> 8" using zr False by (auto simp: b_def l_def zero_run_def)
    have "take b g @ replicate l 0 @ drop (b + l) g = g"
    proof (rule nth_equalityI)
      show "length (take b g @ replicate l 0 @ drop (b + l) g) = length g" using bl assms by simp
      fix k assume "k < length (take b g @ replicate l 0 @ drop (b + l) g)"
      moreover have "g ! k = 0" if "b \<le> k" "k < b + l" for k using zr that bl by (simp add: zero_run_def)
      ultimately show "(take b g @ replicate l 0 @ drop (b + l) g) ! k = g ! k"
        using bl assms by (auto simp: nth_append)
    qed
    then show thesis using that(2) [of b l] bl False by (simp add: collapse_def r [symmetric])
  qed
qed


section \<open>Printing and parsing\<close>

lemma hexs_ok: "\<forall>w \<in> set (hexs g). word_ok w \<and> length w \<le> 4"
proof -
  have "length (hex (unat w)) \<le> 4" for w :: u16 using hex_length [of "unat w" 4] unsigned_less [of w] by simp
  then show ?thesis by (auto simp: hexs_def hex_word_ok)
qed

lemma join_length: "\<forall>w \<in> set ws. length w \<le> 4 \<Longrightarrow> length (join COLON ws) \<le> 5 * length ws"
  by (induction COLON ws rule: join.induct) auto

lemma no_second_shorthand:
  assumes "\<forall>w \<in> set ws. word_ok w"
  shows "\<not> contains ''::'' (COLON # join COLON ws)"
proof (cases "ws = []")
  case True
  then show ?thesis by (simp add: contains_def cut_first.simps starts_with_def)
next
  case False
  then show ?thesis using join_hd [OF assms] cut_first_join(2) [OF assms] cut_first_single_colon [of "join COLON ws"]
    by (auto simp: contains_def)
qed

lemma parse_parts_join:
  assumes "length g + length h \<le> 8" "if sh then length g + length h < 8 else length g + length h = 8"
  shows "parse_parts s sh (join COLON (hexs g)) (join COLON (hexs h)) =
           Inr (bytes_of (g @ replicate (8 - (length g + length h)) 0 @ h))"
proof -
  have "splitGroups (join COLON (hexs g)) = Inr (hexs g)" "splitGroups (join COLON (hexs h)) = Inr (hexs h)"
    using hexs_ok splitGroups_join by blast+
  moreover have "parse_groups (hexs g) = Inr g" "parse_groups (hexs h) = Inr h" by (simp_all add: hexs_def parse_groups_hex)
  ultimately show ?thesis using assms by (simp add: parse_parts_def Let_def hexs_def [of g] hexs_def [of h] split: if_splits)
qed

lemma parseIp6_formatIp6:
  assumes "length a = 16"
  shows "parseIp6 (formatIp6 a) = Inr a"
proof -
  let ?g = "groups_of a"
  have ok: "\<forall>w \<in> set (hexs h). word_ok w" "\<forall>w \<in> set (hexs h). length w \<le> 4" "length (hexs h) = length h" for h
    using hexs_ok by (auto simp: hexs_def)
  have th: "take b (hexs h) = hexs (take b h)" "drop b (hexs h) = hexs (drop b h)" for b h
    by (simp_all add: hexs_def take_map drop_map)
  show ?thesis
  proof (rule collapse_cases [of ?g])
    show "length ?g = 8" by simp
    assume "collapse ?g = (- 1, 0)"
    then have f: "formatIp6 a = join COLON (hexs ?g)" by (simp add: formatIp6_def emit_plain)
    have "length (formatIp6 a) \<le> 40" using join_length [OF ok(2), of ?g] f by (simp add: ok(3))
    moreover have "formatIp6 a \<noteq> []" using f join_Nil_iff [OF ok(1), of ?g] ok(3) [of ?g] by auto
    moreover have "parse_parts (formatIp6 a) False (formatIp6 a) [] = Inr a"
      using parse_parts_join [of ?g "[]" False "formatIp6 a"] f bytes_of_groups_of [OF assms] by (simp add: hexs_def [of "[]"])
    ultimately show ?thesis using cut_first_join(2) [OF ok(1), of ?g] f by (simp add: parseIp6_def)
  next
    fix b l assume c: "collapse ?g = (int b, int l)" and l: "2 \<le> l" "b + l \<le> 8"
      and eq: "take b ?g @ replicate l 0 @ drop (b + l) ?g = ?g"
    let ?u = "join COLON (hexs (take b ?g))" and ?v = "join COLON (hexs (drop (b + l) ?g))"
    have f: "formatIp6 a = ?u @ ''::'' @ ?v" using c l emit_run [of ?g l b] by (simp add: formatIp6_def th Let_def)
    have "length ?u \<le> 5 * b" "length ?v \<le> 5 * (8 - (b + l))"
      using join_length [OF ok(2), of "take b ?g"] join_length [OF ok(2), of "drop (b + l) ?g"] l by (simp_all add: ok(3))
    then have "length (formatIp6 a) \<le> 64" using f l by simp
    moreover have "parse_parts (formatIp6 a) True ?u ?v = Inr a"
      using parse_parts_join [of "take b ?g" "drop (b + l) ?g" True "formatIp6 a"] l eq bytes_of_groups_of [OF assms] by simp
    ultimately show ?thesis
      using cut_first_join(1) [OF ok(1), of "take b ?g" ?v] no_second_shorthand [OF ok(1), of "drop (b + l) ?g"] f
      by (simp add: parseIp6_def)
  qed
qed


section \<open>Addresses as numbers\<close>

definition val6 :: "addr6 \<Rightarrow> nat" where
  "val6 a = foldl (\<lambda>v b. v * 256 + unat b) 0 a"

lemma val6_Nil [simp]: "val6 [] = 0"
  by (simp add: val6_def)

lemma val6_snoc [simp]: "val6 (a @ [b]) = val6 a * 256 + unat b"
  by (simp add: val6_def)

lemma unat_u8: "unat (b :: u8) < 256"
  using unsigned_less [of b] by simp

lemma val6_less: "val6 a < 256 ^ length a"
proof (induction a rule: rev_induct)
  case (snoc b a)
  have "val6 a * 256 + unat b < (val6 a + 1) * 256" using unat_u8 [of b] by simp
  also have "\<dots> \<le> 256 ^ length a * 256" using snoc by (intro mult_right_mono) simp_all
  finally show ?case by (simp add: algebra_simps)
qed simp

lemma val6_inj: "length a = length b \<Longrightarrow> val6 a = val6 b \<Longrightarrow> a = b"
proof (induction a arbitrary: b rule: rev_induct)
  case (snoc x a)
  then obtain y b' where b: "b = b' @ [y]" by (cases b rule: rev_cases) simp_all
  have e: "val6 a * 256 + unat x = val6 b' * 256 + unat y" using snoc.prems(2) b by simp
  then have "(val6 a * 256 + unat x) div 256 = (val6 b' * 256 + unat y) div 256" by simp
  then have "val6 a = val6 b'" using unat_u8 [of x] unat_u8 [of y] by simp
  then show ?case using snoc b e by (auto simp: unsigned_word_eqI)
qed simp

lemma val6_replicate [simp]: "val6 (replicate n 0) = 0"
proof (induction n)
  case (Suc n)
  have "replicate (Suc n) (0 :: u8) = replicate n 0 @ [0]" by (simp add: replicate_append_same)
  then show ?case using Suc by (simp del: replicate_Suc)
qed simp

lemma inc_rev_val:
  "length (fst (inc_rev r)) = length r \<and>
   (if snd (inc_rev r) then val6 (rev (fst (inc_rev r))) = val6 (rev r) + 1
    else val6 (rev (fst (inc_rev r))) = 0 \<and> val6 (rev r) + 1 = 256 ^ length r)"
proof (induction r)
  case (Cons b r)
  show ?case
  proof (cases "b + 1 = 0")
    case False
    then have "unat (b + 1) = unat b + 1" by (simp add: unatSuc add.commute)
    then show ?thesis using False by simp
  next
    case True
    then have "b = - 1" by (simp add: eq_neg_iff_add_eq_0)
    then have "unat b = 255" by (simp add: unsigned_minus_1_eq_mask mask_eq_exp_minus_1)
    then show ?thesis using Cons True by (auto simp: split_beta apfst_def map_prod_def)
  qed
qed simp

lemma increment_val:
  assumes "length a = 16"
  shows "length (fst (incrementInPlace a)) = 16"
    and "snd (incrementInPlace a) \<longleftrightarrow> val6 a + 1 < 2 ^ 128"
    and "val6 a + 1 < 2 ^ 128 \<Longrightarrow> val6 (fst (incrementInPlace a)) = val6 a + 1"
  using inc_rev_val [of "rev a"] assms val6_less [of "fst (incrementInPlace a)"]
  by (auto simp: incrementInPlace_def split: if_splits)

section \<open>Prefix masks\<close>

lemma bit_val6_snoc: "bit (val6 a * 256 + unat (b :: u8)) j \<longleftrightarrow> (if j < 8 then bit b j else bit (val6 a) (j - 8))"
proof -
  have d: "\<not> bit (push_bit 8 (val6 a)) n \<or> \<not> bit (unat b) n" for n
    using bit_imp_le_length [of b n] by (auto simp: bit_simps)
  have "val6 a * 256 + unat b = push_bit 8 (val6 a) + unat b" by (simp add: push_bit_eq_mult)
  also have "\<dots> = push_bit 8 (val6 a) OR unat b" using d by (rule disjunctive_add)
  finally show ?thesis using bit_imp_le_length [of b j] by (auto simp: bit_simps)
qed


lemma bit_val6:
  "j < 8 * length a \<Longrightarrow> bit (val6 a) j \<longleftrightarrow> bit (a ! (length a - 1 - j div 8)) (j mod 8)"
proof (induction a arbitrary: j rule: rev_induct)
  case (snoc b a)
  show ?case
  proof (cases "j < 8")
    case True
    then show ?thesis by (simp add: bit_val6_snoc)
  next
    case False
    then obtain k where j: "j = 8 + k" by (metis le_Suc_ex not_less)
    then have k: "k < 8 * length a" using snoc.prems by simp
    then have "length a - Suc (k div 8) < length a" by (cases a) simp_all
    moreover have "(8 + k) div 8 = Suc (k div 8)" by simp
    ultimately show ?thesis using snoc.IH [OF k] by (simp add: j bit_val6_snoc nth_append)
  qed
qed simp

lemma clear_bit_length [simp]: "length (clear_bit a i) = length a"
  by (simp add: clear_bit_def)

lemma bit_clear_bit:
  assumes "length a = 16" "i < 128"
  shows "bit (val6 (clear_bit a i)) j \<longleftrightarrow> bit (val6 a) j \<and> j + i \<noteq> 127"
proof (cases "j < 128")
  case True
  let ?n = "15 - j div 8"
  have b: "bit (clear_bit a i ! ?n) (j mod 8) \<longleftrightarrow> bit (a ! ?n) (j mod 8) \<and> \<not> (?n = i div 8 \<and> j mod 8 = 7 - i mod 8)"
    using assms by (auto simp: clear_bit_def nth_list_update bit_simps)
  have "15 - q = s \<and> r = 7 - t \<longleftrightarrow> 8 * q + r + (8 * s + t) = 127" if "r < 8" "t < 8" "q < 16" "s < 16" for q r s t :: nat
  proof
    assume "15 - q = s \<and> r = 7 - t"
    then show "8 * q + r + (8 * s + t) = 127" using that by auto
  next
    assume "8 * q + r + (8 * s + t) = 127"
    moreover from this that have "q + s \<le> 15" "15 \<le> q + s" by linarith+
    ultimately have "q + s = 15" "r + t = 7" by linarith+
    then show "15 - q = s \<and> r = 7 - t" by auto
  qed
  from this [of "j mod 8" "i mod 8" "j div 8" "i div 8"]
  have "(?n = i div 8 \<and> j mod 8 = 7 - i mod 8) \<longleftrightarrow> j + i = 127" using True assms(2) by simp
  then show ?thesis using b True assms by (simp add: bit_val6)
next
  case False
  have "\<not> bit (val6 c) j" if "length c = 16" for c
  proof -
    have "val6 c < 2 ^ 128" using val6_less [of c] that by simp
    also have "(2 :: nat) ^ 128 \<le> 2 ^ j" using False by (intro power_increasing) simp_all
    finally show ?thesis by (simp add: bit_iff_odd)
  qed
  then show ?thesis using assms by simp
qed

lemma bit_clear_bits:
  assumes "length a = 16" "p \<le> q" "q \<le> 128"
  shows "length (foldl clear_bit a [p..<q]) = 16 \<and>
    (bit (val6 (foldl clear_bit a [p..<q])) j \<longleftrightarrow> bit (val6 a) j \<and> \<not> (p \<le> 127 - j \<and> 127 - j < q \<and> j \<le> 127))"
  using assms(2,3)
proof (induction q)
  case 0
  then show ?case using assms by simp
next
  case (Suc q)
  show ?case
  proof (cases "p = Suc q")
    case True
    then show ?thesis using assms by auto
  next
    case False
    then have "p \<le> q" "q \<le> 128" "q < 128" using Suc.prems by simp_all
    moreover from this have "[p..<Suc q] = [p..<q] @ [q]" by simp
    ultimately show ?thesis using Suc.IH bit_clear_bit [of "foldl clear_bit a [p..<q]" q j] by auto
  qed
qed

lemma val6_maskPrefix:
  assumes "length a = 16" "p \<le> 128"
  shows "length (maskPrefix a p) = 16" "val6 (maskPrefix a p) = val6 a div 2 ^ (128 - p) * 2 ^ (128 - p)"
proof -
  have m: "maskPrefix a p = foldl clear_bit a [p..<128]" using assms(2) by (simp add: maskPrefix_def)
  show "length (maskPrefix a p) = 16" using bit_clear_bits [of a p 128] assms by (simp add: m)
  have "val6 (maskPrefix a p) = push_bit (128 - p) (drop_bit (128 - p) (val6 a))"
  proof (rule bit_eqI)
    fix j
    have "\<not> (p \<le> 127 - j \<and> 127 - j < 128 \<and> j \<le> 127) \<longleftrightarrow> 128 - p \<le> j" using assms(2) by auto
    then show "bit (val6 (maskPrefix a p)) j \<longleftrightarrow> bit (push_bit (128 - p) (drop_bit (128 - p) (val6 a))) j"
      using bit_clear_bits [of a p 128 j] assms by (auto simp: m bit_simps)
  qed
  then show "val6 (maskPrefix a p) = val6 a div 2 ^ (128 - p) * 2 ^ (128 - p)"
    by (simp add: push_bit_eq_mult drop_bit_eq_div)
qed


section \<open>Pools\<close>

definition pool6_ok :: "network6 \<Rightarrow> bool" where
  "pool6_ok pool \<longleftrightarrow> length (base6 pool) = 16 \<and> prefixLen6 pool \<le> 128 \<and> maskPrefix (base6 pool) (prefixLen6 pool) = base6 pool"

definition pool6_size :: "network6 \<Rightarrow> nat" where
  "pool6_size pool = 2 ^ (128 - prefixLen6 pool)"

lemma pool6_base:
  assumes "pool6_ok pool"
  obtains k where "val6 (base6 pool) = k * pool6_size pool" "(k + 1) * pool6_size pool \<le> 2 ^ 128"
proof -
  let ?n = "pool6_size pool" and ?v = "val6 (base6 pool)"
  have e: "?v = ?v div ?n * ?n" using assms val6_maskPrefix(2) [of "base6 pool" "prefixLen6 pool"]
    by (simp add: pool6_ok_def pool6_size_def)
  have full: "2 ^ prefixLen6 pool * ?n = 2 ^ 128"
    using assms by (simp add: pool6_ok_def pool6_size_def flip: power_add)
  have "?v < 2 ^ 128" using val6_less [of "base6 pool"] assms by (simp add: pool6_ok_def)
  then have "?v div ?n * ?n < 2 ^ prefixLen6 pool * ?n" using e full by simp
  then have "?v div ?n < 2 ^ prefixLen6 pool" by (rule mult_right_less_imp_less) simp
  then have "(?v div ?n + 1) * ?n \<le> 2 ^ prefixLen6 pool * ?n" by (intro mult_right_mono) simp_all
  then show thesis using that e full by simp
qed

lemma inPool6_iff:
  assumes "pool6_ok pool" "length a = 16"
  shows "inPool6 pool a \<longleftrightarrow> val6 (base6 pool) \<le> val6 a \<and> val6 a < val6 (base6 pool) + pool6_size pool"
proof -
  let ?n = "pool6_size pool"
  obtain k where k: "val6 (base6 pool) = k * ?n" using pool6_base [OF assms(1)] .
  have n: "0 < ?n" by (simp add: pool6_size_def)
  have len: "length (maskPrefix a (prefixLen6 pool)) = 16" "length (base6 pool) = 16"
    and m: "val6 (maskPrefix a (prefixLen6 pool)) = val6 a div ?n * ?n"
    using assms val6_maskPrefix [of a "prefixLen6 pool"] by (simp_all add: pool6_ok_def pool6_size_def)
  have "inPool6 pool a \<longleftrightarrow> val6 a div ?n = k"
    using val6_inj [of "maskPrefix a (prefixLen6 pool)" "base6 pool"] len m k n by (auto simp: inPool6_def)
  also have "\<dots> \<longleftrightarrow> k * ?n \<le> val6 a \<and> val6 a < k * ?n + ?n"
    using n by (metis add.commute add_mult_distrib2 div_nat_eqI dividend_less_times_div mult.commute mult_Suc_right times_div_less_eq_dividend)
  finally show ?thesis using k by simp
qed

text \<open>What a search for the least free number from \<^verbatim>\<open>lo\<close> below \<^verbatim>\<open>hi\<close> returns; \<^verbatim>\<open>zero6\<close> stands for none.\<close>

definition first_free6 :: "addr6 list \<Rightarrow> nat \<Rightarrow> nat \<Rightarrow> addr6 \<Rightarrow> bool" where
  "first_free6 taken lo hi r \<longleftrightarrow>
     r = zero6 \<and> {lo..<hi} \<subseteq> val6 ` set taken
   \<or> length r = 16 \<and> lo \<le> val6 r \<and> val6 r < hi \<and> r \<notin> set taken \<and> {lo..<val6 r} \<subseteq> val6 ` set taken"

lemma first_free6_step:
  assumes "first_free6 taken (val6 c + 1) hi r" "c \<in> set taken"
  shows "first_free6 taken (val6 c) hi r"
proof -
  have "{val6 c..<n} \<subseteq> val6 ` set taken" if "{val6 c + 1..<n} \<subseteq> val6 ` set taken" for n
  proof
    fix v assume "v \<in> {val6 c..<n}"
    then show "v \<in> val6 ` set taken" using that assms(2) by (cases "v = val6 c") auto
  qed
  then show ?thesis using assms(1) by (auto simp: first_free6_def)
qed

lemma alloc6_loop_first_free:
  assumes pool: "pool6_ok pool" and "length c = 16" "val6 (base6 pool) \<le> val6 c"
  shows "first_free6 taken (val6 c) (min (val6 (base6 pool) + pool6_size pool) (val6 c + nat (65536 - i))) (alloc6_loop pool taken i c)"
  using assms(2,3)
proof (induction "nat (65536 - i)" arbitrary: i c)
  case 0
  then show ?case by (simp add: alloc6_loop.simps first_free6_def)
next
  case (Suc k)
  let ?top = "val6 (base6 pool) + pool6_size pool"
  have i: "i < 65536" and k: "k = nat (65536 - (i + 1))" using Suc.hyps(2) by linarith+
  have iff: "inPool6 pool c \<longleftrightarrow> val6 c < ?top" using inPool6_iff [OF pool Suc.prems(1)] Suc.prems(2) by simp
  consider "\<not> inPool6 pool c" | "inPool6 pool c" "c \<notin> set taken" | "inPool6 pool c" "c \<in> set taken" by blast
  then show ?case
  proof cases
    case 1
    then show ?thesis using i iff by (simp add: alloc6_loop.simps [of _ _ _ c] first_free6_def)
  next
    case 2
    then show ?thesis using i iff Suc.prems by (simp add: alloc6_loop.simps [of _ _ _ c] first_free6_def)
  next
    case 3
    obtain c' ok where inc: "incrementInPlace c = (c', ok)" by fastforce
    have loop: "alloc6_loop pool taken i c = (if ok then alloc6_loop pool taken (i + 1) c' else zero6)"
      using i 3 inc by (simp add: alloc6_loop.simps [of _ _ i c])
    show ?thesis
    proof (cases ok)
      case True
      then have c': "length c' = 16" "val6 c' = val6 c + 1" using increment_val [OF Suc.prems(1)] inc by auto
      have e: "val6 c' + nat (65536 - (i + 1)) = val6 c + nat (65536 - i)" using c' i by linarith
      have "first_free6 taken (val6 c + 1) (min ?top (val6 c + nat (65536 - i))) (alloc6_loop pool taken (i + 1) c')"
        using Suc.hyps(1) [OF k c'(1)] Suc.prems(2) c'(2) unfolding e by simp
      then show ?thesis using first_free6_step 3(2) loop True by simp
    next
      case False
      then have "2 ^ 128 \<le> val6 c + 1" using increment_val [OF Suc.prems(1)] inc by auto
      moreover have "?top \<le> 2 ^ 128" using pool6_base [OF pool] by (metis add.commute add_mult_distrib mult_1)
      ultimately have "{val6 c..<min ?top (val6 c + nat (65536 - i))} \<subseteq> {val6 c}" by auto
      then show ?thesis using loop False 3 by (auto simp: first_free6_def)
    qed
  qed
qed

lemma allocateNext6_first_free:
  assumes pool: "pool6_ok pool"
  shows "first_free6 taken (val6 (base6 pool) + 2) (val6 (base6 pool) + min (pool6_size pool) 65538) (allocateNext6 pool taken)"
proof -
  let ?b = "base6 pool"
  have b: "length ?b = 16" using pool by (simp add: pool6_ok_def)
  have top: "val6 ?b + pool6_size pool \<le> 2 ^ 128" using pool6_base [OF pool] by (metis add.commute add_mult_distrib mult_1)
  obtain c1 ok1 where i1: "incrementInPlace ?b = (c1, ok1)" by fastforce
  obtain c2 ok2 where i2: "incrementInPlace c1 = (c2, ok2)" by fastforce
  show ?thesis
  proof (cases "ok1 \<and> ok2")
    case True
    then have "length c1 = 16" "val6 c1 = val6 ?b + 1" using increment_val [OF b] i1 by auto
    then have c2: "length c2 = 16" "val6 c2 = val6 ?b + 2" using increment_val [of c1] i2 True by auto
    have "min (val6 ?b + pool6_size pool) (val6 c2 + nat (65536 - 0)) = val6 ?b + min (pool6_size pool) 65538" using c2 by simp
    then show ?thesis using alloc6_loop_first_free [OF pool c2(1), of taken 0] c2 i1 i2 True by (simp add: allocateNext6_def)
  next
    case False
    have "2 ^ 128 \<le> val6 ?b + 2" using False increment_val [OF b] increment_val [of c1] i1 i2 by (cases ok1) auto
    then have "pool6_size pool \<le> 2" using top by linarith
    then show ?thesis using False i1 i2 by (auto simp: allocateNext6_def first_free6_def)
  qed
qed


lemma parse_groups_length: "parse_groups gs = Inr vs \<Longrightarrow> length vs = length gs"
  by (induction gs arbitrary: vs) (auto split: option.splits simp: bind_res_def split: sum.splits)

lemma parseIp6_length: "parseIp6 s = Inr a \<Longrightarrow> length a = 16"
  by (auto simp: parseIp6_def parse_parts_def Let_def bind_res_def dest!: parse_groups_length
      split: if_splits option.splits sum.splits prod.splits)

lemma parseCidr6_ok:
  assumes "parseCidr6 cidr = Inr pool"
  shows "pool6_ok pool"
  using assms parseIp6_length
  by (auto simp: parseCidr6_def pool6_ok_def Let_def bind_res_def split: if_splits option.splits sum.splits prod.splits)

lemma parseLeaseLine6_ok:
  assumes "parseLeaseLine6 s = Inr l"
  shows "leaseNameLooksValid (l6_name l)" "length (l6_ip l) = 16"
  using assms parseIp6_length by (auto simp: parseLeaseLine6_def split: if_splits option.splits sum.splits prod.splits)

text \<open>The printed form holds hexadecimal digits and colons only.\<close>

lemma join_chars: "\<forall>w \<in> set ws. list_all P w \<Longrightarrow> P COLON \<Longrightarrow> list_all P (join COLON ws)"
  by (induction COLON ws rule: join.induct) auto

lemma formatIp6_chars: "list_all (\<lambda>c. is_hex c \<or> c = COLON) (formatIp6 a)"
proof -
  let ?P = "\<lambda>c. is_hex c \<or> c = COLON"
  have h: "\<forall>w \<in> set (hexs g). list_all ?P w" for g using hex_facts by (auto simp: hexs_def list_all_iff)
  then have j: "list_all ?P (join COLON (take b (hexs g)))" "list_all ?P (join COLON (drop b (hexs g)))" "list_all ?P (join COLON (hexs g))" for b g
    by (intro join_chars; auto dest: in_set_takeD in_set_dropD)+
  show ?thesis
    by (rule collapse_cases [of "groups_of a"]) (use j in \<open>simp_all add: formatIp6_def Let_def emit_plain emit_run\<close>)
qed

lemma lease_line6_roundtrip:
  assumes "leaseNameLooksValid (l6_name l)" "length (l6_ip l) = 16"
  shows "parseLeaseLine6 (formatLeaseLine6 l) = Inr l"
proof -
  have "\<not> has_ws (formatIp6 (l6_ip l))"
    using formatIp6_chars [of "l6_ip l"] by (auto simp: has_ws_def list_all_iff list_ex_iff is_hex_def)
  moreover have "CHR '' '' \<notin> set (l6_name l)" using assms(1) by (auto simp: leaseNameLooksValid_def list_all_iff is_alnum_def)
  ultimately show ?thesis using assms parseIp6_formatIp6 [OF assms(2)]
    by (simp add: parseLeaseLine6_def formatLeaseLine6_def cut_at_append)
qed

text \<open>
  C18. Every IPv6 address reads back from its printed form. For every sixteen bytes, printing with the
  longest run of two or more zero groups collapsed and parsing the text yields the same bytes; so does a
  lease line, for every name the parser accepts.
\<close>

theorem ip6_text_roundtrip:
  "(\<forall>a. length a = 16 \<longrightarrow> parseIp6 (formatIp6 a) = Inr a)
   \<and> (\<forall>l. leaseNameLooksValid (l6_name l) \<longrightarrow> length (l6_ip l) = 16 \<longrightarrow> parseLeaseLine6 (formatLeaseLine6 l) = Inr l)"
  using parseIp6_formatIp6 lease_line6_roundtrip by blast

theorem ip6_text_roundtrip_witness:
  "parseIp6 (formatIp6 [0x20, 0x01, 0x0d, 0xb8, 0, 0, 0, 0, 0, 0, 0, 1, 0, 0, 0, 5])
     = Inr [0x20, 0x01, 0x0d, 0xb8, 0, 0, 0, 0, 0, 0, 0, 1, 0, 0, 0, 5]"
  using conjunct1 [OF ip6_text_roundtrip, THEN spec, of "[0x20, 0x01, 0x0d, 0xb8, 0, 0, 0, 0, 0, 0, 0, 1, 0, 0, 0, 5]"] by simp

text \<open>
  The IPv6 allocator returns the least free address. For a pool accepted by the CIDR parser, with
  base B and 2^(128-p) addresses, the allocator returns the numerically least address from B+2 on that
  lies in the pool and below B+65538 and is not taken, and the all-zero address exactly when there is none.
\<close>

theorem allocateNext6_correct:
  assumes "parseCidr6 cidr = Inr pool" and len: "\<forall>t \<in> set taken. length t = 16"
  shows "let r = allocateNext6 pool taken; lo = val6 (base6 pool) + 2; hi = val6 (base6 pool) + min (2 ^ (128 - prefixLen6 pool)) 65538 in
    (r = zero6 \<longleftrightarrow> {lo..<hi} \<subseteq> val6 ` set taken)
    \<and> (r \<noteq> zero6 \<longrightarrow> inPool6 pool r \<and> r \<notin> set taken \<and> lo \<le> val6 r \<and> val6 r < hi \<and> {lo..<val6 r} \<subseteq> val6 ` set taken)"
proof -
  let ?r = "allocateNext6 pool taken" and ?lo = "val6 (base6 pool) + 2" and ?hi = "val6 (base6 pool) + min (2 ^ (128 - prefixLen6 pool)) 65538"
  have pool: "pool6_ok pool" by (rule parseCidr6_ok [OF assms(1)])
  have f: "first_free6 taken ?lo ?hi ?r" using allocateNext6_first_free [OF pool] by (simp add: pool6_size_def)
  have z: "val6 zero6 < ?lo" by (simp add: zero6_def)
  have zero: "?r = zero6 \<longleftrightarrow> {?lo..<?hi} \<subseteq> val6 ` set taken"
  proof
    assume "?r = zero6"
    then show "{?lo..<?hi} \<subseteq> val6 ` set taken" using f z by (auto simp: first_free6_def)
  next
    assume all: "{?lo..<?hi} \<subseteq> val6 ` set taken"
    show "?r = zero6"
    proof (rule ccontr)
      assume "?r \<noteq> zero6"
      then have r: "length ?r = 16" "?lo \<le> val6 ?r" "val6 ?r < ?hi" "?r \<notin> set taken" using f by (auto simp: first_free6_def)
      then obtain t where "t \<in> set taken" "val6 t = val6 ?r" using all by force
      then show False using r len val6_inj by metis
    qed
  qed
  moreover have "inPool6 pool ?r \<and> ?r \<notin> set taken \<and> ?lo \<le> val6 ?r \<and> val6 ?r < ?hi \<and> {?lo..<val6 ?r} \<subseteq> val6 ` set taken" if "?r \<noteq> zero6"
    using that f inPool6_iff [OF pool, of ?r] by (auto simp: first_free6_def pool6_size_def)
  ultimately show ?thesis unfolding Let_def by blast
qed

theorem allocateNext6_correct_witness:
  "\<exists>pool. parseCidr6 ''fd00::/120'' = Inr pool \<and>
     (let taken = [0xfd # replicate 14 0 @ [2]]; r = allocateNext6 pool taken in r \<noteq> zero6 \<and> inPool6 pool r \<and> r \<notin> set taken)"
proof -
  let ?pool = "\<lparr>base6 = 0xfd # replicate 15 0, prefixLen6 = 120\<rparr>"
  let ?taken = "[0xfd # replicate 14 0 @ [2]] :: addr6 list" and ?b = "val6 (0xfd # replicate 15 0)"
  have p: "parseCidr6 ''fd00::/120'' = Inr ?pool" by code_simp
  have len: "\<forall>t \<in> set ?taken. length t = 16" by simp
  have "\<not> {?b + 2..<?b + 256} \<subseteq> val6 ` set ?taken"
  proof
    assume "{?b + 2..<?b + 256} \<subseteq> val6 ` set ?taken"
    then have "?b + 2 \<in> val6 ` set ?taken" "?b + 3 \<in> val6 ` set ?taken" by (simp_all add: subset_iff del: set_simps)
    then have "?b + 2 = val6 (hd ?taken)" "?b + 3 = val6 (hd ?taken)" by (simp_all del: val6_snoc)
    then show False by linarith
  qed
  then show ?thesis using p allocateNext6_correct [OF p len] by (auto simp: Let_def)
qed

end
