(* ===== verification/LeaseStore.thy ===== *)
theory LeaseStore
  imports IpAlloc Ip6Alloc
begin

text \<open>
  The lease files, \<^verbatim>\<open>lib/network_lease.cpp\<close> and its twin \<^verbatim>\<open>lib/network_lease6.cpp\<close>: reading a file with comments and
  carriage returns, the atomic rewrite, allocation for a jail and release. The two sources differ in the
  line codec, the allocator, the header and one message only, so the operations are written once over a
  record of these parts and instantiated twice. A file is absent or its contents; the results of the system
  calls are an argument. The locale states what the operations need of a codec and an allocator, and
  is interpreted for both sources.
\<close>

section \<open>The operations\<close>

text \<open>The parts in which the two sources differ: codec, header, fields, allocator (absent for none free).\<close>

record ('l, 'a, 'p) lease_kind =
  lk_parse :: "string \<Rightarrow> 'l res"
  lk_format :: "'l \<Rightarrow> string"
  lk_header :: string
  lk_name :: "'l \<Rightarrow> string"
  lk_ip :: "'l \<Rightarrow> 'a"
  lk_mk :: "string \<Rightarrow> 'a \<Rightarrow> 'l"
  lk_alloc :: "'p \<Rightarrow> 'a list \<Rightarrow> 'a option"
  lk_exhausted :: "'p \<Rightarrow> nat \<Rightarrow> string"

text \<open>Outcomes of the system calls of one operation: an error message, or success.\<close>

record lease_io =
  io_lock :: "string option"
  io_read :: "string option"
  io_write :: "string option"

type_synonym lease_file = "string option"

fun parse_lease_lines :: "(string \<Rightarrow> 'l res) \<Rightarrow> nat \<Rightarrow> 'l list \<Rightarrow> string list \<Rightarrow> 'l list res" where
  "parse_lease_lines parse lineNo out [] = Inr out"
| "parse_lease_lines parse lineNo out (raw # ls) =
     (let line = chomp_cr raw in
      if line = [] \<or> hd line = CHR ''#'' then parse_lease_lines parse (lineNo + 1) out ls
      else case parse line of
        Inl err \<Rightarrow> Inl (''line '' @ dec (lineNo + 1) @ '': '' @ err @ '' (line: '' @ quoted line @ '')'')
      | Inr l \<Rightarrow> parse_lease_lines parse (lineNo + 1) (out @ [l]) ls)"

definition parseAll :: "('l, 'a, 'p) lease_kind \<Rightarrow> string \<Rightarrow> 'l list res" where
  "parseAll k buf = parse_lease_lines (lk_parse k) 0 [] (getlines buf)"

definition lease_text :: "('l, 'a, 'p) lease_kind \<Rightarrow> 'l list \<Rightarrow> string" where
  "lease_text k entries = lk_header k @ concat (map (\<lambda>l. lk_format k l @ [NL]) entries)"

text \<open>The rename replaces the whole file; when a call fails before it the old contents stay.\<close>

definition writeAllAtomic :: "('l, 'a, 'p) lease_kind \<Rightarrow> lease_io \<Rightarrow> 'l list \<Rightarrow> lease_file \<Rightarrow> unit res \<times> lease_file" where
  "writeAllAtomic k io entries f =
     (case io_write io of Some e \<Rightarrow> (Inl e, f) | None \<Rightarrow> (Inr (), Some (lease_text k entries)))"

definition readAll :: "('l, 'a, 'p) lease_kind \<Rightarrow> lease_io \<Rightarrow> lease_file \<Rightarrow> 'l list res" where
  "readAll k io f =
     (case f of None \<Rightarrow> Inr []
      | Some buf \<Rightarrow> (case io_read io of Some e \<Rightarrow> Inl e | None \<Rightarrow> parseAll k buf))"

text \<open>Taking the lock and opening the file creates it; then it is read and parsed.\<close>

definition locked_leases :: "('l, 'a, 'p) lease_kind \<Rightarrow> lease_io \<Rightarrow> lease_file \<Rightarrow> 'l list res \<times> lease_file" where
  "locked_leases k io f =
     (case io_lock io of Some e \<Rightarrow> (Inl e, f)
      | None \<Rightarrow>
        let buf = (case f of None \<Rightarrow> [] | Some b \<Rightarrow> b) in
        (case io_read io of Some e \<Rightarrow> Inl e | None \<Rightarrow> parseAll k buf, Some buf))"

definition allocateFor :: "('l, 'a, 'p) lease_kind \<Rightarrow> lease_io \<Rightarrow> string \<Rightarrow> 'p \<Rightarrow> lease_file \<Rightarrow> 'a res \<times> lease_file" where
  "allocateFor k io jail pool f =
     (case locked_leases k io f of
        (Inl e, f') \<Rightarrow> (Inl e, f')
      | (Inr entries, f') \<Rightarrow>
        (case find (\<lambda>l. lk_name k l = jail) entries of
           Some l \<Rightarrow> (Inr (lk_ip k l), f')
         | None \<Rightarrow>
           (case lk_alloc k pool (map (lk_ip k) entries) of
              None \<Rightarrow> (Inl (lk_exhausted k pool (length entries)), f')
            | Some addr \<Rightarrow>
              (case writeAllAtomic k io (entries @ [lk_mk k jail addr]) f' of
                 (Inl e, f'') \<Rightarrow> (Inl e, f'')
               | (Inr _, f'') \<Rightarrow> (Inr addr, f'')))))"

definition releaseFor :: "('l, 'a, 'p) lease_kind \<Rightarrow> lease_io \<Rightarrow> string \<Rightarrow> lease_file \<Rightarrow> unit res \<times> lease_file" where
  "releaseFor k io jail f =
     (case locked_leases k io f of
        (Inl e, f') \<Rightarrow> (Inl e, f')
      | (Inr entries, f') \<Rightarrow>
        let kept = filter (\<lambda>l. lk_name k l \<noteq> jail) entries in
        if kept \<noteq> entries then writeAllAtomic k io kept f' else (Inr (), f'))"

section \<open>The two sources\<close>

definition em_dash :: string where
  "em_dash = [CHR 0xE2, CHR 0x80, CHR 0x94]"

definition header4 :: string where
  "header4 = ''# crate network leases '' @ em_dash @ '' managed by crate run / crate clean'' @ [NL] @ ''# format: <jail-name> <ip>'' @ [NL]"

definition lease4_kind :: "(lease, u32, network) lease_kind" where
  "lease4_kind = \<lparr>lk_parse = parseLeaseLine, lk_format = formatLeaseLine, lk_header = header4,
     lk_name = l_name, lk_ip = l_ip, lk_mk = (\<lambda>n a. \<lparr>l_name = n, l_ip = a\<rparr>),
     lk_alloc = (\<lambda>pool taken. let addr = allocateNext pool taken in if addr = 0 then None else Some addr),
     lk_exhausted = (\<lambda>pool n. ''pool '' @ formatIp (base pool) @ ''/'' @ dec (prefixLen pool)
       @ '' exhausted ('' @ dec n @ '' leases active)'')\<rparr>"

definition header6 :: string where
  "header6 = ''# crate IPv6 leases '' @ em_dash @ '' managed by crate run / crate clean'' @ [NL] @ ''# format: <jail-name> <ip6>'' @ [NL]"

definition lease6_kind :: "(lease6, addr6, network6) lease_kind" where
  "lease6_kind = \<lparr>lk_parse = parseLeaseLine6, lk_format = formatLeaseLine6, lk_header = header6,
     lk_name = l6_name, lk_ip = l6_ip, lk_mk = (\<lambda>n a. \<lparr>l6_name = n, l6_ip = a\<rparr>),
     lk_alloc = (\<lambda>pool taken. let addr = allocateNext6 pool taken in if list_all (\<lambda>b. b = 0) addr then None else Some addr),
     lk_exhausted = (\<lambda>pool n. ''IPv6 pool '' @ formatIp6 (base6 pool) @ ''/'' @ dec (prefixLen6 pool)
       @ '' exhausted ('' @ dec n @ '' leases active)'')\<rparr>"


text \<open>The operations of \<^verbatim>\<open>network_lease6.cpp\<close>.\<close>

definition parseAll6 :: "string \<Rightarrow> lease6 list res" where "parseAll6 = parseAll lease6_kind"
definition writeAllAtomic6 :: "lease_io \<Rightarrow> lease6 list \<Rightarrow> lease_file \<Rightarrow> unit res \<times> lease_file" where "writeAllAtomic6 = writeAllAtomic lease6_kind"
definition readAll6 :: "lease_io \<Rightarrow> lease_file \<Rightarrow> lease6 list res" where "readAll6 = readAll lease6_kind"
definition allocateFor6 :: "lease_io \<Rightarrow> string \<Rightarrow> network6 \<Rightarrow> lease_file \<Rightarrow> addr6 res \<times> lease_file" where "allocateFor6 = allocateFor lease6_kind"
definition releaseFor6 :: "lease_io \<Rightarrow> string \<Rightarrow> lease_file \<Rightarrow> unit res \<times> lease_file" where "releaseFor6 = releaseFor lease6_kind"

section \<open>What the store promises\<close>

definition io_fine :: lease_io where
  "io_fine = \<lparr>io_lock = None, io_read = None, io_write = None\<rparr>"

definition held :: "('l, 'a, 'p) lease_kind \<Rightarrow> lease_file \<Rightarrow> 'l list res" where
  "held k f = readAll k io_fine f"

definition lease_map :: "('l, 'a, 'p) lease_kind \<Rightarrow> 'l list \<Rightarrow> string \<rightharpoonup> 'a" where
  "lease_map k entries = map_of (map (\<lambda>l. (lk_name k l, lk_ip k l)) entries)"

text \<open>
  A file implements a finite map from jails to addresses: no address has two jails; allocating for a jail
  adds a pair with a new address or answers the one that is there; releasing deletes the pair; an
  operation that reports an error leaves the map as it was.
\<close>

definition implements_map :: "('l, 'a, 'p) lease_kind \<Rightarrow> (string \<Rightarrow> bool) \<Rightarrow> ('p \<Rightarrow> bool) \<Rightarrow> lease_file \<Rightarrow> bool" where
  "implements_map k name_ok pool_fits f \<longleftrightarrow>
     (\<exists>entries m. held k f = Inr entries \<and> m = lease_map k entries \<and> inj_on m (dom m) \<and> distinct (map (lk_name k) entries)
      \<and> (\<forall>io jail pool. name_ok jail \<and> pool_fits pool \<longrightarrow>
           (case allocateFor k io jail pool f of
              (Inl e, f') \<Rightarrow> held k f' = Inr entries
            | (Inr a, f') \<Rightarrow> map_option (lease_map k) (case held k f' of Inl e \<Rightarrow> None | Inr es \<Rightarrow> Some es) = Some (m(jail \<mapsto> a))
                \<and> (m jail = Some a \<or> m jail = None \<and> a \<notin> ran m)))
      \<and> (\<forall>io jail. case releaseFor k io jail f of
              (Inl e, f') \<Rightarrow> held k f' = Inr entries
            | (Inr u, f') \<Rightarrow> map_option (lease_map k) (case held k f' of Inl e \<Rightarrow> None | Inr es \<Rightarrow> Some es) = Some (m(jail := None))))"

text \<open>The files the operations can produce from an absent one, whatever fails.\<close>

inductive file_reach :: "(lease_file \<Rightarrow> lease_file) set \<Rightarrow> lease_file \<Rightarrow> bool" for steps where
  absent: "file_reach steps None"
| step: "file_reach steps f \<Longrightarrow> g \<in> steps \<Longrightarrow> file_reach steps (g f)"

definition lease_steps :: "('l, 'a, 'p) lease_kind \<Rightarrow> (string \<Rightarrow> bool) \<Rightarrow> ('p \<Rightarrow> bool) \<Rightarrow> (lease_file \<Rightarrow> lease_file) set" where
  "lease_steps k name_ok pool_fits =
     {g. \<exists>io jail pool. name_ok jail \<and> pool_fits pool \<and> g = (\<lambda>f. snd (allocateFor k io jail pool f))}
   \<union> {g. \<exists>io jail. g = (\<lambda>f. snd (releaseFor k io jail f))}"

section \<open>What the operations need\<close>

text \<open>
  A lease kind whose lines read back, hold no line break and are no comments, whose parser yields such
  leases only, and whose allocator, on a pool of the parser and addresses of leases, returns a new address.
\<close>

locale lease_store =
  fixes k :: "('l, 'a, 'p) lease_kind"
    and lease_ok :: "'l \<Rightarrow> bool"
    and name_ok :: "string \<Rightarrow> bool"
    and pool_fits :: "'p \<Rightarrow> bool"
  assumes line_reads_back: "lease_ok l \<Longrightarrow> lk_parse k (lk_format k l) = Inr l"
    and line_plain: "lease_ok l \<Longrightarrow> lk_format k l \<noteq> [] \<and> hd (lk_format k l) \<noteq> CHR ''#'' \<and>
      NL \<notin> set (lk_format k l) \<and> chomp_cr (lk_format k l) = lk_format k l"
    and parsed_ok: "lk_parse k s = Inr l \<Longrightarrow> lease_ok l"
    and header_lines: "\<exists>hs. lk_header k = concat (map (\<lambda>h. h @ [NL]) hs) \<and>
      (\<forall>h \<in> set hs. NL \<notin> set h \<and> h \<noteq> [] \<and> hd h = CHR ''#'' \<and> chomp_cr h = h)"
    and fresh: "lk_alloc k pool (map (lk_ip k) entries) = Some a \<Longrightarrow> pool_fits pool \<Longrightarrow> (\<forall>l \<in> set entries. lease_ok l) \<Longrightarrow>
      a \<notin> lk_ip k ` set entries \<and> (name_ok jail \<longrightarrow> lease_ok (lk_mk k jail a))"
    and mk_fields: "lk_name k (lk_mk k jail a) = jail" "lk_ip k (lk_mk k jail a) = a"
begin

lemma parse_lines_append:
  assumes "\<forall>l \<in> set entries. lease_ok l"
  shows "parse_lease_lines (lk_parse k) n out (map (lk_format k) entries) = Inr (out @ entries)"
  using assms
proof (induction entries arbitrary: n out)
  case (Cons l entries)
  then show ?case using line_plain [of l] line_reads_back [of l] by (simp add: Let_def)
qed simp

lemma parse_lines_comments:
  assumes "\<forall>h \<in> set hs. NL \<notin> set h \<and> h \<noteq> [] \<and> hd h = CHR ''#'' \<and> chomp_cr h = h"
  shows "parse_lease_lines parse n out (hs @ ls) = parse_lease_lines parse (n + length hs) out ls"
  using assms by (induction hs arbitrary: n) (simp_all add: Let_def)

lemma parseAll_text:
  assumes "\<forall>l \<in> set entries. lease_ok l"
  shows "parseAll k (lease_text k entries) = Inr entries"
proof -
  obtain hs where hs: "lk_header k = concat (map (\<lambda>h. h @ [NL]) hs)"
    "\<forall>h \<in> set hs. NL \<notin> set h \<and> h \<noteq> [] \<and> hd h = CHR ''#'' \<and> chomp_cr h = h"
    using header_lines by blast
  have t: "lease_text k entries = concat (map (\<lambda>l. l @ [NL]) (hs @ map (lk_format k) entries))"
    by (simp add: lease_text_def hs(1) comp_def)
  have "getlines (lease_text k entries) = hs @ map (lk_format k) entries"
    unfolding t by (rule getlines_lines) (use hs(2) assms line_plain in auto)
  then show ?thesis using parse_lines_append [OF assms] by (simp add: parseAll_def parse_lines_comments [OF hs(2)])
qed

lemma parse_lines_ok: "parse_lease_lines (lk_parse k) n out ls = Inr entries \<Longrightarrow> \<forall>l \<in> set out. lease_ok l \<Longrightarrow> \<forall>l \<in> set entries. lease_ok l"
proof (induction ls arbitrary: n out)
  case (Cons s ls)
  show ?case
  proof (cases "chomp_cr s = [] \<or> hd (chomp_cr s) = CHR ''#''")
    case True
    then show ?thesis using Cons.IH [of "n + 1" out] Cons.prems by (simp add: Let_def)
  next
    case False
    then obtain l where l: "lk_parse k (chomp_cr s) = Inr l" using Cons.prems(1) by (auto simp: Let_def split: sum.splits)
    then show ?thesis using False Cons.IH [of "n + 1" "out @ [l]"] Cons.prems parsed_ok [OF l] by (simp add: Let_def)
  qed
qed simp

lemma parseAll_ok: "parseAll k buf = Inr entries \<Longrightarrow> \<forall>l \<in> set entries. lease_ok l"
  using parse_lines_ok [of 0 "[]"] by (simp add: parseAll_def)

lemma parse_empty_file: "parseAll k [] = Inr []"
  by (simp add: parseAll_def getlines_def Let_def)

lemma locked_leases_held:
  "locked_leases k io f = (r, f') \<Longrightarrow> held k f' = held k f \<and> (r = held k f \<or> (\<exists>e. r = Inl e))"
  by (auto simp: locked_leases_def held_def readAll_def io_fine_def parse_empty_file Let_def split: option.splits)

lemma allocate_outcomes:
  assumes "held k f = Inr entries" "pool_fits pool" "name_ok jail"
  shows "(\<exists>e. fst (allocateFor k io jail pool f) = Inl e) \<and> held k (snd (allocateFor k io jail pool f)) = Inr entries
    \<or> (\<exists>l \<in> set entries. lk_name k l = jail \<and> fst (allocateFor k io jail pool f) = Inr (lk_ip k l))
        \<and> held k (snd (allocateFor k io jail pool f)) = Inr entries
    \<or> (\<exists>a. jail \<notin> lk_name k ` set entries \<and> a \<notin> lk_ip k ` set entries \<and> fst (allocateFor k io jail pool f) = Inr a
        \<and> held k (snd (allocateFor k io jail pool f)) = Inr (entries @ [lk_mk k jail a]))"
proof -
  have ok: "\<forall>l \<in> set entries. lease_ok l"
    using assms(1) parseAll_ok by (auto simp: held_def readAll_def io_fine_def split: option.splits)
  obtain r f' where lk: "locked_leases k io f = (r, f')" by fastforce
  have f': "held k f' = Inr entries" and r: "r = Inr entries \<or> (\<exists>e. r = Inl e)"
    using locked_leases_held [OF lk] assms(1) by auto
  show ?thesis
  proof (cases r)
    case (Inl e)
    then show ?thesis using lk f' by (simp add: allocateFor_def)
  next
    case (Inr es)
    then have es: "r = Inr entries" using r by auto
    show ?thesis
    proof (cases "find (\<lambda>l. lk_name k l = jail) entries")
      case (Some l)
      then have "l \<in> set entries" "lk_name k l = jail" by (auto simp: find_Some_iff)
      then show ?thesis using lk es f' Some by (auto simp: allocateFor_def)
    next
      case None
      then have new: "jail \<notin> lk_name k ` set entries" by (auto simp: find_None_iff)
      show ?thesis
      proof (cases "lk_alloc k pool (map (lk_ip k) entries)")
        case None
        then show ?thesis using lk es f' \<open>find _ entries = None\<close> by (auto simp: allocateFor_def)
      next
        case (Some a)
        have a: "a \<notin> lk_ip k ` set entries" "lease_ok (lk_mk k jail a)"
          using fresh [OF Some assms(2) ok, of jail] assms(3) by auto
        then have "held k (Some (lease_text k (entries @ [lk_mk k jail a]))) = Inr (entries @ [lk_mk k jail a])"
          using ok by (simp add: held_def readAll_def io_fine_def parseAll_text)
        then show ?thesis using lk es f' \<open>find _ entries = None\<close> Some a new
          by (cases "io_write io") (auto simp: allocateFor_def writeAllAtomic_def)
      qed
    qed
  qed
qed

lemma release_outcomes:
  assumes "held k f = Inr entries"
  shows "held k (snd (releaseFor k io jail f)) = Inr (if fst (releaseFor k io jail f) = Inr () then filter (\<lambda>l. lk_name k l \<noteq> jail) entries else entries)"
proof -
  have ok: "\<forall>l \<in> set entries. lease_ok l"
    using assms(1) parseAll_ok by (auto simp: held_def readAll_def io_fine_def split: option.splits)
  obtain r f' where lk: "locked_leases k io f = (r, f')" by fastforce
  have f': "held k f' = Inr entries" and r: "r = Inr entries \<or> (\<exists>e. r = Inl e)"
    using locked_leases_held [OF lk] assms(1) by auto
  let ?kept = "filter (\<lambda>l. lk_name k l \<noteq> jail) entries"
  have "held k (Some (lease_text k ?kept)) = Inr ?kept" using ok by (simp add: held_def readAll_def io_fine_def parseAll_text)
  then show ?thesis using r lk f'
    by (cases "io_write io") (auto simp: releaseFor_def writeAllAtomic_def Let_def split: if_splits)
qed

lemma held_distinct_step:
  assumes "file_reach (lease_steps k name_ok pool_fits) f"
  shows "\<exists>entries. held k f = Inr entries \<and> distinct (map (lk_name k) entries) \<and> distinct (map (lk_ip k) entries)"
  using assms
proof induction
  case absent
  then show ?case by (simp add: held_def readAll_def)
next
  case (step f g)
  then obtain entries where e: "held k f = Inr entries" "distinct (map (lk_name k) entries)" "distinct (map (lk_ip k) entries)"
    by blast
  from step.hyps(2) consider io jail pool where "name_ok jail" "pool_fits pool" "g = (\<lambda>f. snd (allocateFor k io jail pool f))"
    | io jail where "g = (\<lambda>f. snd (releaseFor k io jail f))"
    by (auto simp: lease_steps_def)
  then show ?case
  proof cases
    case (1 io jail pool)
    then show ?thesis using allocate_outcomes [OF e(1) 1(2,1), of io] e(2,3) by (auto simp: mk_fields)
  next
    case (2 io jail)
    then show ?thesis using release_outcomes [OF e(1), of io jail] e(2,3) by (auto simp: distinct_map_filter)
  qed
qed

lemma lease_map_in: "distinct (map (lk_name k) entries) \<Longrightarrow> l \<in> set entries \<Longrightarrow> lease_map k entries (lk_name k l) = Some (lk_ip k l)"
  by (force simp: lease_map_def comp_def)

lemma lease_map_None: "lease_map k entries jail = None \<longleftrightarrow> jail \<notin> lk_name k ` set entries"
  by (simp add: lease_map_def map_of_eq_None_iff image_image)

lemma lease_map_ran: "distinct (map (lk_name k) entries) \<Longrightarrow> ran (lease_map k entries) = lk_ip k ` set entries"
  by (simp add: lease_map_def ran_distinct comp_def image_image)

lemma lease_map_inj: "distinct (map (lk_ip k) entries) \<Longrightarrow> inj_on (lease_map k entries) (dom (lease_map k entries))"
proof (rule inj_onI)
  fix x y assume d: "distinct (map (lk_ip k) entries)" and "x \<in> dom (lease_map k entries)" "lease_map k entries x = lease_map k entries y"
  then obtain a where "lease_map k entries x = Some a" "lease_map k entries y = Some a" by (metis domD)
  then obtain l l' where "l \<in> set entries" "l' \<in> set entries" "lk_ip k l = lk_ip k l'" "lk_name k l = x" "lk_name k l' = y"
    by (auto simp: lease_map_def dest!: map_of_SomeD)
  then show "x = y" using d by (auto simp: distinct_map inj_on_def)
qed

lemma lease_map_release:
  "lease_map k (filter (\<lambda>l. lk_name k l \<noteq> jail) entries) = (lease_map k entries)(jail := None)"
  by (induction entries) (auto simp: lease_map_def fun_eq_iff)

lemma lease_map_add:
  "jail \<notin> lk_name k ` set entries \<Longrightarrow> lease_map k (entries @ [lk_mk k jail a]) = (lease_map k entries)(jail \<mapsto> a)"
  by (induction entries) (auto simp: lease_map_def fun_eq_iff mk_fields)

lemma reachable_implements_map:
  assumes "file_reach (lease_steps k name_ok pool_fits) f"
  shows "implements_map k name_ok pool_fits f"
proof -
  obtain entries where e: "held k f = Inr entries" and d: "distinct (map (lk_name k) entries)" "distinct (map (lk_ip k) entries)"
    using held_distinct_step [OF assms] by blast
  have A: "case allocateFor k io jail pool f of
      (Inl e, f') \<Rightarrow> held k f' = Inr entries
    | (Inr a, f') \<Rightarrow> map_option (lease_map k) (case held k f' of Inl e \<Rightarrow> None | Inr es \<Rightarrow> Some es) = Some ((lease_map k entries)(jail \<mapsto> a))
        \<and> (lease_map k entries jail = Some a \<or> lease_map k entries jail = None \<and> a \<notin> ran (lease_map k entries))"
    if "name_ok jail \<and> pool_fits pool" for io jail pool
  proof -
    obtain r f' where al: "allocateFor k io jail pool f = (r, f')" by fastforce
    from allocate_outcomes [OF e, of pool jail io] that consider
      (err) msg where "r = Inl msg" "held k f' = Inr entries"
    | (old) l where "l \<in> set entries" "lk_name k l = jail" "r = Inr (lk_ip k l)" "held k f' = Inr entries"
    | (new) a where "jail \<notin> lk_name k ` set entries" "a \<notin> lk_ip k ` set entries" "r = Inr a"
        "held k f' = Inr (entries @ [lk_mk k jail a])"
      unfolding al fst_conv snd_conv by blast
    then show ?thesis
    proof cases
      case old
      then have "lease_map k entries jail = Some (lk_ip k l)" using lease_map_in [OF d(1)] by blast
      then show ?thesis using old by (simp add: al fun_upd_idem)
    qed (simp_all add: al lease_map_add lease_map_None lease_map_ran [OF d(1)])
  qed
  have R: "case releaseFor k io jail f of
      (Inl e, f') \<Rightarrow> held k f' = Inr entries
    | (Inr u, f') \<Rightarrow> map_option (lease_map k) (case held k f' of Inl e \<Rightarrow> None | Inr es \<Rightarrow> Some es) = Some ((lease_map k entries)(jail := None))"
    for io jail
    using release_outcomes [OF e, of io jail] by (auto simp: lease_map_release split: prod.splits sum.splits)
  show ?thesis unfolding implements_map_def
    by (intro exI [of _ entries] exI [of _ "lease_map k entries"] conjI allI impI e refl d(1) lease_map_inj [OF d(2)] R)
      (rule A)
qed

end

section \<open>Both sources meet the requirements\<close>

definition cidr_pool :: "network \<Rightarrow> bool" where
  "cidr_pool pool \<longleftrightarrow> (\<exists>cidr. parseCidr cidr = Inr pool)"

definition cidr_pool6 :: "network6 \<Rightarrow> bool" where
  "cidr_pool6 pool \<longleftrightarrow> (\<exists>cidr. parseCidr6 cidr = Inr pool)"

lemma lease_name_chars:
  assumes "nameLooksValid n"
  shows "n \<noteq> []" "hd n \<noteq> CHR ''#''" "NL \<notin> set n" "CHR 0x0D \<notin> set n"
proof -
  have c: "c \<noteq> CHR ''#'' \<and> c \<noteq> NL \<and> c \<noteq> CHR 0x0D" if "c \<in> set n" for c
    using assms that by (auto simp: nameLooksValid_def NL_def is_alnum_def list_all_iff)
  show "n \<noteq> []" using assms by (simp add: nameLooksValid_def)
  then show "hd n \<noteq> CHR ''#''" using c hd_in_set by blast
  show "NL \<notin> set n" "CHR 0x0D \<notin> set n" using c by blast+
qed

lemma leaseName_same: "leaseNameLooksValid = nameLooksValid"
  by (simp add: fun_eq_iff leaseNameLooksValid_def nameLooksValid_def)

lemma chomp_cr_no_cr: "CHR 0x0D \<notin> set s \<Longrightarrow> chomp_cr s = s"
  by (cases s rule: rev_cases) (auto simp: chomp_cr_def)

interpretation lease4: lease_store lease4_kind "\<lambda>l. nameLooksValid (l_name l)" nameLooksValid cidr_pool
proof
  fix l :: lease assume n: "nameLooksValid (l_name l)"
  then show "lk_parse lease4_kind (lk_format lease4_kind l) = Inr l"
    by (simp add: lease4_kind_def lease_line_roundtrip)
  have "c \<in> set (formatIp (l_ip l)) \<Longrightarrow> is_digit c \<or> c = CHR ''.''" for c
    by (auto simp: formatIp_def dest: dec_char_digit)
  then have "CHR 0x0D \<notin> set (formatIp (l_ip l))" "NL \<notin> set (formatIp (l_ip l))" by (force simp: is_digit_def NL_def)+
  then show "lk_format lease4_kind l \<noteq> [] \<and> hd (lk_format lease4_kind l) \<noteq> CHR ''#'' \<and>
      NL \<notin> set (lk_format lease4_kind l) \<and> chomp_cr (lk_format lease4_kind l) = lk_format lease4_kind l"
    using lease_name_chars [of "l_name l"] n by (simp add: lease4_kind_def formatLeaseLine_def chomp_cr_no_cr NL_def)
next
  fix s and l :: lease assume "lk_parse lease4_kind s = Inr l"
  then show "nameLooksValid (l_name l)"
    by (auto simp: lease4_kind_def parseLeaseLine_def split: if_splits option.splits sum.splits prod.splits)
next
  show "\<exists>hs. lk_header lease4_kind = concat (map (\<lambda>h. h @ [NL]) hs) \<and>
      (\<forall>h \<in> set hs. NL \<notin> set h \<and> h \<noteq> [] \<and> hd h = CHR ''#'' \<and> chomp_cr h = h)"
    by (rule exI [of _ "[''# crate network leases '' @ em_dash @ '' managed by crate run / crate clean'', ''# format: <jail-name> <ip>'']"])
      (simp add: lease4_kind_def header4_def em_dash_def NL_def chomp_cr_no_cr)
next
  fix pool entries a jail
  assume a: "lk_alloc lease4_kind pool (map (lk_ip lease4_kind) entries) = Some a" and "cidr_pool pool"
  then obtain cidr where "parseCidr cidr = Inr pool" by (auto simp: cidr_pool_def)
  then have "pool_ok pool" by (rule parseCidr_ok)
  from allocateNext_spec [OF this, of "map l_ip entries"] a
  show "a \<notin> lk_ip lease4_kind ` set entries \<and> (nameLooksValid jail \<longrightarrow> nameLooksValid (l_name (lk_mk lease4_kind jail a)))"
    by (auto simp: lease4_kind_def Let_def split: if_splits)
qed (simp_all add: lease4_kind_def)

interpretation lease6: lease_store lease6_kind "\<lambda>l. leaseNameLooksValid (l6_name l) \<and> length (l6_ip l) = 16" leaseNameLooksValid cidr_pool6
proof
  fix l :: lease6 assume l: "leaseNameLooksValid (l6_name l) \<and> length (l6_ip l) = 16"
  then show "lk_parse lease6_kind (lk_format lease6_kind l) = Inr l"
    by (simp add: lease6_kind_def lease_line6_roundtrip)
  have "CHR 0x0D \<notin> set (formatIp6 (l6_ip l))" "NL \<notin> set (formatIp6 (l6_ip l))"
    using formatIp6_chars [of "l6_ip l"] by (auto simp: list_all_iff is_hex_def NL_def)
  then show "lk_format lease6_kind l \<noteq> [] \<and> hd (lk_format lease6_kind l) \<noteq> CHR ''#'' \<and>
      NL \<notin> set (lk_format lease6_kind l) \<and> chomp_cr (lk_format lease6_kind l) = lk_format lease6_kind l"
    using lease_name_chars [of "l6_name l"] l by (simp add: lease6_kind_def formatLeaseLine6_def chomp_cr_no_cr NL_def leaseName_same)
next
  fix s and l :: lease6 assume "lk_parse lease6_kind s = Inr l"
  then show "leaseNameLooksValid (l6_name l) \<and> length (l6_ip l) = 16"
    using parseLeaseLine6_ok by (simp add: lease6_kind_def)
next
  show "\<exists>hs. lk_header lease6_kind = concat (map (\<lambda>h. h @ [NL]) hs) \<and>
      (\<forall>h \<in> set hs. NL \<notin> set h \<and> h \<noteq> [] \<and> hd h = CHR ''#'' \<and> chomp_cr h = h)"
    by (rule exI [of _ "[''# crate IPv6 leases '' @ em_dash @ '' managed by crate run / crate clean'', ''# format: <jail-name> <ip6>'']"])
      (simp add: lease6_kind_def header6_def em_dash_def NL_def chomp_cr_no_cr)
next
  fix pool entries a jail
  assume a: "lk_alloc lease6_kind pool (map (lk_ip lease6_kind) entries) = Some a" and "cidr_pool6 pool"
  then obtain cidr where "parseCidr6 cidr = Inr pool" by (auto simp: cidr_pool6_def)
  from allocateNext6_first_free [OF parseCidr6_ok [OF this], of "map l6_ip entries"] a
  show "a \<notin> lk_ip lease6_kind ` set entries \<and>
      (leaseNameLooksValid jail \<longrightarrow> leaseNameLooksValid (l6_name (lk_mk lease6_kind jail a)) \<and> length (l6_ip (lk_mk lease6_kind jail a)) = 16)"
    by (auto simp: lease6_kind_def Let_def first_free6_def zero6_def list_all_iff split: if_splits)
qed (simp_all add: lease6_kind_def)

text \<open>
  C17. The lease files implement a map without shared addresses. For every IPv4 lease file, and every IPv6
  lease file, that allocations (with acceptable names and pools of the CIDR parser) and releases can
  produce from an absent file, whatever system call failed on the way: the file reads back as a finite
  map from jails to addresses in which no two jails share one; an allocation that answers adds a
  new address for the jail or answers the one it has, a release removes the jail, and an operation
  that reports an error changes nothing.
\<close>

theorem lease_files_implement_map:
  "(\<forall>f. file_reach (lease_steps lease4_kind nameLooksValid cidr_pool) f \<longrightarrow>
        implements_map lease4_kind nameLooksValid cidr_pool f)
   \<and> (\<forall>f. file_reach (lease_steps lease6_kind leaseNameLooksValid cidr_pool6) f \<longrightarrow>
        implements_map lease6_kind leaseNameLooksValid cidr_pool6 f)"
  using lease4.reachable_implements_map lease6.reachable_implements_map by blast

definition web_lease_file :: lease_file where
  "web_lease_file = snd (allocateFor lease4_kind io_fine ''jail-web-0a1b2c3d'' \<lparr>base = 0x0A420000, prefixLen = 24\<rparr> None)"

theorem lease_files_implement_map_witness:
  "implements_map lease4_kind nameLooksValid cidr_pool web_lease_file"
proof -
  have "nameLooksValid ''jail-web-0a1b2c3d''" by code_simp
  then have "(\<lambda>f. snd (allocateFor lease4_kind io_fine ''jail-web-0a1b2c3d'' \<lparr>base = 0x0A420000, prefixLen = 24\<rparr> f))
      \<in> lease_steps lease4_kind nameLooksValid cidr_pool"
    using pool_10_66 by (auto simp: lease_steps_def cidr_pool_def)
  from file_reach.step [OF file_reach.absent this] conjunct1 [OF lease_files_implement_map]
  show ?thesis unfolding web_lease_file_def by blast
qed

end
