(* ===== verification/HubPure.thy ===== *)
theory HubPure
  imports ControlPure BackupPrune AutoFw
begin

text \<open>
  The decisions of crate-hub: failover orders (\<^verbatim>\<open>hub/ha_pure.cpp\<close>), placement (\<^verbatim>\<open>hub/scheduling_pure.cpp\<close>),
  reading and counting the containers a node reports (\<^verbatim>\<open>hub/aggregator_pure.cpp\<close>) and the summary per data
  centre (\<^verbatim>\<open>hub/datacenter_pure.cpp\<close>). Counts are 32-bit words. The order of the nodes uses the standard sort as an
  argument, as in the theory of backup pruning.
\<close>

section \<open>Failover orders\<close>

record HaSpec =
  containerName :: string
  primaryNode :: string
  partnerNodes :: "string list"

record ha_node =
  hn_name :: string
  hn_reachable :: bool
  unreachableSeconds :: int

record MigrationOrder =
  mo_container :: string
  fromNode :: string
  toNode :: string
  mo_reason :: string

definition findNode :: "ha_node list \<Rightarrow> string \<Rightarrow> ha_node option" where
  "findNode nodes name = find (\<lambda>n. hn_name n = name) nodes"

definition ha_isValidName :: "string \<Rightarrow> bool" where
  "ha_isValidName s \<longleftrightarrow> \<not> (s = [] \<or> length s > kJailName) \<and>
     list_all (\<lambda>c. is_alnum c \<or> c = CHR ''.'' \<or> c = CHR ''_'' \<or> c = CHR ''-'') s"

fun first_partner :: "ha_node list \<Rightarrow> string list \<Rightarrow> string option" where
  "first_partner nodes [] = None"
| "first_partner nodes (p # ps) =
     (case findNode nodes p of
        None \<Rightarrow> first_partner nodes ps
      | Some n \<Rightarrow> if \<not> hn_reachable n then first_partner nodes ps else Some p)"

definition failover_order :: "ha_node list \<Rightarrow> int \<Rightarrow> HaSpec \<Rightarrow> MigrationOrder option" where
  "failover_order nodes thresholdSeconds s =
     (case findNode nodes (primaryNode s) of
        None \<Rightarrow> None
      | Some primary \<Rightarrow>
        if hn_reachable primary then None
        else if unreachableSeconds primary < thresholdSeconds then None
        else case first_partner nodes (partnerNodes s) of
          None \<Rightarrow> None
        | Some p \<Rightarrow> Some \<lparr>mo_container = containerName s, fromNode = primaryNode s, toNode = p,
            mo_reason = ''primary node '' @ quoted (primaryNode s) @ '' down for '' @ dec_int (unreachableSeconds primary)
              @ ''s (>= threshold '' @ dec_int thresholdSeconds @ ''s)''\<rparr>)"

definition evaluateFailoverOrders :: "HaSpec list \<Rightarrow> ha_node list \<Rightarrow> int \<Rightarrow> MigrationOrder list" where
  "evaluateFailoverOrders specs nodes thresholdSeconds = List.map_filter (failover_order nodes thresholdSeconds) specs"

definition comma_sep :: "string list \<Rightarrow> string" where
  "comma_sep xs = join (CHR '','') xs"

definition json_array :: "string list \<Rightarrow> string" where
  "json_array xs = CHR ''['' # comma_sep xs @ [CHR '']'']"

definition renderOrdersJson :: "MigrationOrder list \<Rightarrow> string" where
  "renderOrdersJson orders = json_array (map (\<lambda>m.
     json_obj [json_str ''container'' (mo_container m), json_str ''from_node'' (fromNode m),
               json_str ''to_node'' (toNode m), json_str ''reason'' (mo_reason m)]) orders)"

fun validate_partners :: "string \<Rightarrow> string set \<Rightarrow> string list \<Rightarrow> err" where
  "validate_partners idx used [] = []"
| "validate_partners idx used (p # ps) =
     (if \<not> ha_isValidName p then idx @ '': invalid partner node name '' @ quoted p
      else if p \<in> used then idx @ '': partner '' @ quoted p @ '' duplicated or matches primary''
      else validate_partners idx (insert p used) ps)"

fun validate_specs_loop :: "nat \<Rightarrow> HaSpec list \<Rightarrow> err" where
  "validate_specs_loop i [] = []"
| "validate_specs_loop i (s # ss) =
     (let idx = ''ha['' @ dec i @ '']'' in
      if \<not> ha_isValidName (containerName s) then idx @ '': invalid container name '' @ quoted (containerName s)
      else if \<not> ha_isValidName (primaryNode s) then idx @ '': invalid primary node name '' @ quoted (primaryNode s)
      else if partnerNodes s = [] then idx @ '': at least one partner_nodes entry is required''
      else case validate_partners idx {primaryNode s} (partnerNodes s) of
        [] \<Rightarrow> validate_specs_loop (i + 1) ss
      | e \<Rightarrow> e)"

definition ha_validateSpecs :: "HaSpec list \<Rightarrow> err" where
  "ha_validateSpecs specs = validate_specs_loop 0 specs"

section \<open>Placement\<close>

record sched_node =
  sn_name :: string
  sn_host :: string
  sn_reachable :: bool
  sn_count :: u32

record Recommendation =
  targetName :: string
  targetHost :: string
  targetCount :: u32
  runnerUpCount :: u32
  confidence :: int
  rationale :: string

definition kAntiFlapPercent :: u32 where "kAntiFlapPercent = 10"

definition node_before :: "sched_node \<Rightarrow> sched_node \<Rightarrow> bool" where
  "node_before a b \<longleftrightarrow> (if sn_count a \<noteq> sn_count b then sn_count a < sn_count b else sn_name a < sn_name b)"

definition sorted_nodes :: "index_sort \<Rightarrow> sched_node list \<Rightarrow> sched_node list" where
  "sorted_nodes std_sort ns = map ((!) ns) (std_sort (\<lambda>i j. node_before (ns ! i) (ns ! j)) [0..<length ns])"

definition empty_rec :: Recommendation where
  "empty_rec = \<lparr>targetName = [], targetHost = [], targetCount = 0, runnerUpCount = 0, confidence = 0, rationale = []\<rparr>"

definition udec32 :: "u32 \<Rightarrow> string" where
  "udec32 w = dec (unat w)"

text \<open>The recommendation without the hint, on the sorted reachable nodes.\<close>

definition place_best :: "sched_node list \<Rightarrow> Recommendation" where
  "place_best r =
     (let best = hd r; up = (if length r \<ge> 2 then sn_count (r ! 1) else sn_count best) in
      \<lparr>targetName = sn_name best, targetHost = sn_host best, targetCount = sn_count best, runnerUpCount = up,
       confidence =
         (if length r = 1 then 100 else if up = 0 then 50 else if up \<le> sn_count best then 0
          else let spread = uint up - uint (sn_count best); pct = spread * 100 div uint up in if pct > 100 then 100 else pct),
       rationale = ''place on '' @ quoted (sn_name best) @ '' (count '' @ udec32 (sn_count best)
         @ (if length r \<ge> 2 then '' vs runner-up '' @ quoted (sn_name (r ! 1)) @ '' count '' @ udec32 up
            else '', sole reachable node'') @ '')''\<rparr>)"

definition keep_current :: "sched_node \<Rightarrow> sched_node \<Rightarrow> Recommendation" where
  "keep_current best cur =
     \<lparr>targetName = sn_name cur, targetHost = sn_host cur, targetCount = sn_count cur,
      runnerUpCount = sn_count best, confidence = 100,
      rationale = ''keep on '' @ quoted (sn_name cur) @ '' (count '' @ udec32 (sn_count cur) @ '' within ''
        @ udec32 kAntiFlapPercent @ ''% of least-loaded '' @ quoted (sn_name best) @ '' count '' @ udec32 (sn_count best) @ '')''\<rparr>"

definition pickLeastLoaded :: "index_sort \<Rightarrow> sched_node list \<Rightarrow> string \<Rightarrow> Recommendation" where
  "pickLeastLoaded std_sort nodes currentNodeHint =
     (let reachable = filter sn_reachable nodes in
      if reachable = [] then empty_rec\<lparr>rationale := ''no reachable nodes''\<rparr>
      else let r = sorted_nodes std_sort reachable; best = hd r;
               tolerance = sn_count best + sn_count best * kAntiFlapPercent div 100 in
        case (if currentNodeHint = [] then None else find (\<lambda>n. sn_name n = currentNodeHint) r) of
          Some cur \<Rightarrow>
            if sn_count cur \<le> tolerance then
              keep_current best cur
            else place_best r
        | None \<Rightarrow> place_best r)"

definition renderRecommendationJson :: "Recommendation \<Rightarrow> string" where
  "renderRecommendationJson rec =
     (if targetName rec = [] then json_obj [json_raw ''target'' ''null'', json_str ''rationale'' (rationale rec)]
      else json_obj [json_str ''target'' (targetName rec), json_str ''host'' (targetHost rec),
             json_raw ''container_count'' (udec32 (targetCount rec)), json_raw ''runner_up_count'' (udec32 (runnerUpCount rec)),
             json_raw ''confidence'' (dec_int (confidence rec)), json_str ''rationale'' (rationale rec)])"

definition hex_upper :: "nat \<Rightarrow> char" where
  "hex_upper d = (if d < 10 then char_of (48 + d) else char_of (55 + d))"

definition urlEncode :: "string \<Rightarrow> string" where
  "urlEncode s = concat (map (\<lambda>c.
     if is_alnum c \<or> c = CHR ''.'' \<or> c = CHR ''_'' \<or> c = CHR ''~'' \<or> c = CHR ''-'' then [c]
     else [CHR 0x25, hex_upper (of_char c div 16), hex_upper (of_char c mod 16)]) s)"

definition buildLeastLoadedUrl :: "string \<Rightarrow> string \<Rightarrow> string" where
  "buildLeastLoadedUrl hubUrl currentNodeHint =
     strip_slash hubUrl @ ''/api/v1/scheduling/least-loaded'' @
     (if currentNodeHint \<noteq> [] then ''?current='' @ urlEncode currentNodeHint else [])"

text \<open>The regular expression \<^verbatim>\<open>"key"\s*:\s*"([^"]*)"\<close>, at the leftmost position where it matches.\<close>

definition match_field :: "string \<Rightarrow> string \<Rightarrow> string option" where
  "match_field key s =
     (let k = DQ # key @ [DQ] in
      if \<not> starts_with k s then None
      else case dropWhile white (drop (length k) s) of
        [] \<Rightarrow> None
      | c # r \<Rightarrow> if c \<noteq> CHR '':'' then None
          else case dropWhile white r of
            [] \<Rightarrow> None
          | d # t \<Rightarrow> if d \<noteq> DQ then None else map_option fst (cut_at DQ t))"

fun search_field :: "string \<Rightarrow> string \<Rightarrow> string" where
  "search_field key [] = []"
| "search_field key (c # s) = (case match_field key (c # s) of Some v \<Rightarrow> v | None \<Rightarrow> search_field key s)"

definition extractTargetField :: "string \<Rightarrow> string" where
  "extractTargetField body = search_field ''target'' body"

definition extractHostField :: "string \<Rightarrow> string" where
  "extractHostField body = search_field ''host'' body"

definition buildMigrateArgv :: "string \<Rightarrow> string \<Rightarrow> string \<Rightarrow> string \<Rightarrow> string \<Rightarrow> string \<Rightarrow> string list" where
  "buildMigrateArgv cratePath jail fromHost toHost fromTokenFile toTokenFile =
     [cratePath, ''migrate'', jail, ''--from'', fromHost, ''--to'', toHost,
      ''--from-token-file'', fromTokenFile, ''--to-token-file'', toTokenFile]"


section \<open>Counting the containers of a node\<close>

record agg_node =
  an_name :: string
  an_host :: string
  an_reachable :: bool
  an_count :: u32

record Summary =
  nodesTotal :: u32
  nodesReachable :: u32
  nodesDown :: u32
  containersTotal :: u32

definition summarise :: "agg_node list \<Rightarrow> Summary" where
  "summarise nodes = foldl (\<lambda>s n.
     if an_reachable n then s\<lparr>nodesReachable := nodesReachable s + 1, containersTotal := containersTotal s + an_count n\<rparr>
     else s\<lparr>nodesDown := nodesDown s + 1\<rparr>)
     \<lparr>nodesTotal = of_nat (length nodes), nodesReachable = 0, nodesDown = 0, containersTotal = 0\<rparr> nodes"

definition renderSummaryJson :: "Summary \<Rightarrow> string" where
  "renderSummaryJson s = json_obj [json_raw ''nodes_total'' (udec32 (nodesTotal s)),
     json_raw ''nodes_reachable'' (udec32 (nodesReachable s)), json_raw ''nodes_down'' (udec32 (nodesDown s)),
     json_raw ''containers_total'' (udec32 (containersTotal s))]"

text \<open>Blank, tab, line feed and carriage return.\<close>

definition json_ws :: "char \<Rightarrow> bool" where
  "json_ws c \<longleftrightarrow> c = CHR '' '' \<or> c = CHR 0x09 \<or> c = CHR 0x0A \<or> c = CHR 0x0D"

definition LBRACE :: char where "LBRACE = CHR 0x7B"
definition RBRACE :: char where "RBRACE = CHR 0x7D"
definition LBRACK :: char where "LBRACK = CHR 0x5B"
definition RBRACK :: char where "RBRACK = CHR 0x5D"

record count_state =
  cnt :: u32
  cdepth :: int
  cin_string :: bool
  cescape :: bool
  cseen :: bool

definition count_step :: "count_state \<Rightarrow> char \<Rightarrow> count_state" where
  "count_step s c =
     (if cescape s then s\<lparr>cescape := False\<rparr>
      else if cin_string s then
        (if c = BSL then s\<lparr>cescape := True\<rparr> else if c = DQ then s\<lparr>cin_string := False\<rparr> else s)
      else if c = DQ then s\<lparr>cin_string := True, cseen := True\<rparr>
      else if c = LBRACE then
        s\<lparr>cnt := (if cdepth s = 0 then cnt s + 1 else cnt s), cdepth := cdepth s + 1, cseen := True\<rparr>
      else if c = RBRACE then (if cdepth s > 0 then s\<lparr>cdepth := cdepth s - 1\<rparr> else s)
      else if \<not> json_ws c \<and> c \<noteq> CHR '','' then s\<lparr>cseen := True\<rparr>
      else s)"

definition count_init :: count_state where
  "count_init = \<lparr>cnt = 0, cdepth = 0, cin_string = False, cescape = False, cseen = False\<rparr>"

definition rstrip_ws :: "string \<Rightarrow> string" where
  "rstrip_ws s = rev (dropWhile json_ws (rev s))"

definition countTopLevelObjects :: "string \<Rightarrow> u32" where
  "countTopLevelObjects json =
     (let t = rstrip_ws (dropWhile json_ws json) in
      if length t < 2 then 0
      else if hd t \<noteq> LBRACK \<or> last t \<noteq> RBRACK then 0
      else let s = foldl count_step count_init (butlast (tl t)) in
        if cdepth s \<noteq> 0 \<or> cin_string s then 0 else if \<not> cseen s then 0 else cnt s)"

text \<open>
  \<^verbatim>\<open>arrayEnd\<close>: the loop from the opening bracket, as the text up to the matching bracket; state is the depth,
  in a string, after a backslash.
\<close>

fun array_loop :: "int \<Rightarrow> bool \<Rightarrow> bool \<Rightarrow> string \<Rightarrow> string \<Rightarrow> string option" where
  "array_loop depth inStr esc acc [] = None"
| "array_loop depth inStr esc acc (c # cs) =
     (if esc then array_loop depth inStr False (acc @ [c]) cs
      else if inStr then
        (if c = BSL then array_loop depth True True (acc @ [c]) cs
         else if c = DQ then array_loop depth False False (acc @ [c]) cs
         else array_loop depth True False (acc @ [c]) cs)
      else if c = DQ then array_loop depth True False (acc @ [c]) cs
      else if c = LBRACK \<or> c = LBRACE then array_loop (depth + 1) False False (acc @ [c]) cs
      else if c = RBRACK \<or> c = RBRACE then
        (if depth - 1 = 0 then Some (acc @ [c]) else array_loop (depth - 1) False False (acc @ [c]) cs)
      else array_loop depth False False (acc @ [c]) cs)"

definition arrayAt :: "string \<Rightarrow> string" where
  "arrayAt s = (case s of [] \<Rightarrow> [] | c # _ \<Rightarrow> if c \<noteq> LBRACK then [] else
     (case array_loop 0 False False [] s of None \<Rightarrow> [] | Some a \<Rightarrow> a))"

text \<open>The rest of the text at the value of a key, after the first occurrence of the quoted key and the next colon.\<close>

definition valueAfterKey :: "string \<Rightarrow> string \<Rightarrow> string option" where
  "valueAfterKey json key =
     (case cut_first (DQ # key @ [DQ]) json of
        None \<Rightarrow> None
      | Some (_, r) \<Rightarrow> map_option (\<lambda>(_, t). dropWhile json_ws t) (cut_at (CHR '':'') r))"

definition or_empty_array :: "string \<Rightarrow> string" where
  "or_empty_array a = (if a = [] then [LBRACK, RBRACK] else a)"

definition extractContainerArray :: "string \<Rightarrow> string" where
  "extractContainerArray body0 =
     (let body = dropWhile json_ws body0 in
      case body of
        [] \<Rightarrow> [LBRACK, RBRACK]
      | c # _ \<Rightarrow>
        if c = LBRACK then or_empty_array (arrayAt body)
        else if c \<noteq> LBRACE then [LBRACK, RBRACK]
        else let d = valueAfterKey body ''data'' in
          if (case d of Some (b # _) \<Rightarrow> b = LBRACK | _ \<Rightarrow> False) then or_empty_array (arrayAt (the d))
          else case valueAfterKey (case d of None \<Rightarrow> body | Some v \<Rightarrow> v) ''jail-information'' of
            None \<Rightarrow> [LBRACK, RBRACK]
          | Some ji \<Rightarrow>
            (case valueAfterKey ji ''jail'' of
               None \<Rightarrow> [LBRACK, RBRACK]
             | Some j \<Rightarrow> or_empty_array (arrayAt j)))"

section \<open>Node addresses\<close>

text \<open>\<^verbatim>\<open>rfind\<close>: the text before and after the last occurrence.\<close>

definition cut_last_at :: "char \<Rightarrow> string \<Rightarrow> (string \<times> string) option" where
  "cut_last_at c s = map_option (\<lambda>(a, b). (rev b, rev a)) (cut_at c (rev s))"

definition port_of :: "string \<Rightarrow> int option" where
  "port_of s = (if length s > 5 \<or> \<not> list_all is_digit s then None
     else let v = int (dec_val s) in if v < 1 \<or> v > 65535 then None else Some v)"

definition with_port :: "string \<Rightarrow> string option \<Rightarrow> int \<Rightarrow> (string \<times> int) option" where
  "with_port host portStr defaultPort =
     (if host = [] then None
      else case portStr of None \<Rightarrow> Some (host, defaultPort) | Some p \<Rightarrow> map_option (Pair host) (port_of p))"

definition splitHostPort :: "string \<Rightarrow> int \<Rightarrow> (string \<times> int) option" where
  "splitHostPort spec defaultPort =
     (case spec of
        [] \<Rightarrow> None
      | c # rest \<Rightarrow>
        if c = LBRACK then
          (case cut_at RBRACK rest of
             None \<Rightarrow> None
           | Some (host, after) \<Rightarrow>
             (case after of
                [] \<Rightarrow> with_port host None defaultPort
              | d # p \<Rightarrow> if d \<noteq> CHR '':'' then None else if p = [] then None else with_port host (Some p) defaultPort))
        else if length (filter (\<lambda>d. d = CHR '':'') spec) \<ge> 2 then with_port spec None defaultPort
        else case cut_last_at (CHR '':'') spec of
          None \<Rightarrow> with_port spec None defaultPort
        | Some (host, p) \<Rightarrow> if p = [] then None else with_port host (Some p) defaultPort)"

section \<open>Data centres\<close>

record DcView =
  dc_node :: agg_node
  dc_label :: string

definition dc_validateName :: "string \<Rightarrow> err" where
  "dc_validateName name =
     (if name = [] then ''datacenter name is empty''
      else if length name > 32 then ''datacenter name longer than 32 chars''
      else case find (\<lambda>c. \<not> (is_alnum c \<or> c = CHR ''.'' \<or> c = CHR ''_'' \<or> c = CHR ''-'')) name of
        None \<Rightarrow> [] | Some c \<Rightarrow> ''invalid character '' @ quoted [c] @ '' in datacenter name'')"

definition canonicalName :: "string \<Rightarrow> string" where
  "canonicalName raw = (if raw = [] then ''default'' else raw)"

definition dc_add :: "agg_node \<Rightarrow> Summary \<Rightarrow> Summary" where
  "dc_add n s = (let s' = s\<lparr>nodesTotal := nodesTotal s + 1\<rparr> in
     if an_reachable n then s'\<lparr>nodesReachable := nodesReachable s + 1, containersTotal := containersTotal s + an_count n\<rparr>
     else s'\<lparr>nodesDown := nodesDown s + 1\<rparr>)"

definition zero_summary :: Summary where
  "zero_summary = \<lparr>nodesTotal = 0, nodesReachable = 0, nodesDown = 0, containersTotal = 0\<rparr>"

definition groupAndSummarise :: "DcView list \<Rightarrow> (string, Summary) stdmap" where
  "groupAndSummarise views = foldl (\<lambda>m v.
     let key = canonicalName (dc_label v); s = (case map_find m key of None \<Rightarrow> zero_summary | Some s \<Rightarrow> s) in
     map_put key (dc_add (dc_node v) s) m) [] views"

text \<open>The name is copied between quotes without escaping.\<close>

definition dc_renderJson :: "(string, Summary) stdmap \<Rightarrow> string" where
  "dc_renderJson dcs = json_array (map (\<lambda>(n, d). json_obj [json_raw ''name'' (DQ # n @ [DQ]),
     json_raw ''nodes_total'' (udec32 (nodesTotal d)), json_raw ''nodes_reachable'' (udec32 (nodesReachable d)),
     json_raw ''nodes_down'' (udec32 (nodesDown d)), json_raw ''containers_total'' (udec32 (containersTotal d))]) dcs)"


section \<open>The recommended node\<close>

lemma node_before_strict_weak: "strict_weak (\<lambda>i j. node_before (ns ! i) (ns ! j))"
  unfolding strict_weak_def node_before_def by (auto split: if_splits)

lemma sorted_nodes_law:
  assumes "is_std_sort f"
  shows "set (sorted_nodes f ns) = set ns" "length (sorted_nodes f ns) = length ns"
    and "sorted_wrt (\<lambda>a b. \<not> node_before b a) (sorted_nodes f ns)"
proof -
  let ?lt = "\<lambda>i j. node_before (ns ! i) (ns ! j)" and ?xs = "[0..<length ns]"
  have m: "mset (f ?lt ?xs) = mset ?xs" and s: "sorted_wrt (\<lambda>a b. \<not> ?lt b a) (f ?lt ?xs)"
    using assms node_before_strict_weak [of ns] by (auto simp: is_std_sort_def)
  have "set (f ?lt ?xs) = set ?xs" using m by (metis set_mset_mset)
  then show "set (sorted_nodes f ns) = set ns" by (auto simp: sorted_nodes_def in_set_conv_nth)
  show "length (sorted_nodes f ns) = length ns" using arg_cong [OF m, of size] by (simp add: sorted_nodes_def)
  show "sorted_wrt (\<lambda>a b. \<not> node_before b a) (sorted_nodes f ns)" using s by (simp add: sorted_nodes_def sorted_wrt_map)
qed

lemma sorted_nodes_hd:
  assumes "is_std_sort f" "ns \<noteq> []"
  shows "hd (sorted_nodes f ns) \<in> set ns" "\<forall>n \<in> set ns. \<not> node_before n (hd (sorted_nodes f ns))"
proof -
  note L = sorted_nodes_law [OF assms(1), of ns]
  obtain b r where r: "sorted_nodes f ns = b # r" using L(2) assms(2) by (cases "sorted_nodes f ns") auto
  show "hd (sorted_nodes f ns) \<in> set ns" using L(1) r by auto
  have "\<not> node_before b b" by (simp add: node_before_def)
  then show "\<forall>n \<in> set ns. \<not> node_before n (hd (sorted_nodes f ns))" using L(1,3) r by auto
qed

lemma place_best_confidence: "0 \<le> confidence (place_best r) \<and> confidence (place_best r) \<le> 100"
proof -
  have "0 \<le> (uint a - uint b) * 100 div uint a" if "b < a" for a b :: u32
  proof -
    have "uint b < uint a" using that by (simp add: word_less_def)
    moreover have "0 \<le> uint b" by simp
    ultimately have "0 < uint a" "0 \<le> uint a - uint b" by linarith+
    then have "0 < uint a" "0 \<le> (uint a - uint b) * 100" by simp_all
    then show ?thesis using pos_imp_zdiv_nonneg_iff by blast
  qed
  then show ?thesis by (auto simp: place_best_def Let_def not_le)
qed

text \<open>The node a recommendation is about: the least loaded one, or the current one within the tolerance.\<close>

definition least_loaded :: "sched_node list \<Rightarrow> sched_node \<Rightarrow> bool" where
  "least_loaded nodes t \<longleftrightarrow> t \<in> set nodes \<and> sn_reachable t \<and> (\<forall>n \<in> set nodes. sn_reachable n \<longrightarrow> \<not> node_before n t)"

definition recommends :: "Recommendation \<Rightarrow> sched_node \<Rightarrow> bool" where
  "recommends rec t \<longleftrightarrow> targetName rec = sn_name t \<and> targetHost rec = sn_host t \<and> targetCount rec = sn_count t"

text \<open>
  The recommended node is the right one. For every sort with the guarantees of the standard and every list of
  nodes with one that is reachable: without a hint the recommendation is a reachable node than which no reachable
  node holds fewer containers (by name among equals). With a hint it is the hinted node exactly when
  a reachable node of that name is within ten percent of the least count, computed on 32-bit words, and the
  least-loaded node otherwise. The confidence lies between 0 and 100, and without a reachable node nothing is recommended.
\<close>

theorem least_loaded_recommended:
  assumes "is_std_sort f" "distinct (map sn_name nodes)"
  shows "((\<exists>n \<in> set nodes. sn_reachable n) \<longrightarrow>
    (\<exists>best. least_loaded nodes best \<and>
      (let near = (\<lambda>n. n \<in> set nodes \<and> sn_reachable n \<and> hint \<noteq> [] \<and> sn_name n = hint
                      \<and> sn_count n \<le> sn_count best + sn_count best * 10 div 100) in
       (\<forall>n. near n \<longrightarrow> recommends (pickLeastLoaded f nodes hint) n)
       \<and> ((\<nexists>n. near n) \<longrightarrow> recommends (pickLeastLoaded f nodes hint) best))))
    \<and> 0 \<le> confidence (pickLeastLoaded f nodes hint) \<and> confidence (pickLeastLoaded f nodes hint) \<le> 100
    \<and> ((\<exists>n \<in> set nodes. sn_reachable n) \<or> targetName (pickLeastLoaded f nodes hint) = [])"
proof (cases "\<exists>n \<in> set nodes. sn_reachable n")
  case False
  then have "filter sn_reachable nodes = []" by (auto simp: filter_empty_conv)
  then show ?thesis using False by (simp add: pickLeastLoaded_def empty_rec_def)
next
  case True
  define R where "R = filter sn_reachable nodes"
  have ne: "R \<noteq> []" using True by (auto simp: R_def filter_empty_conv)
  define r where "r = sorted_nodes f R"
  note L = sorted_nodes_law [OF assms(1), of R] and H = sorted_nodes_hd [OF assms(1) ne]
  have best: "least_loaded nodes (hd r)" using H by (auto simp: least_loaded_def r_def R_def)
  define cur where "cur = (if hint = [] then None else find (\<lambda>n. sn_name n = hint) r)"
  have pick: "pickLeastLoaded f nodes hint =
      (case cur of Some c \<Rightarrow> if sn_count c \<le> sn_count (hd r) + sn_count (hd r) * kAntiFlapPercent div 100
         then keep_current (hd r) c else place_best r
       | None \<Rightarrow> place_best r)"
    using ne unfolding pickLeastLoaded_def Let_def cur_def r_def R_def by simp
  have place: "recommends (place_best r) (hd r)" by (simp add: recommends_def place_best_def Let_def)
  have setr: "set r = {n \<in> set nodes. sn_reachable n}" using L(1) by (auto simp: r_def R_def)
  have cur_iff: "cur = Some n \<longleftrightarrow> n \<in> set nodes \<and> sn_reachable n \<and> hint \<noteq> [] \<and> sn_name n = hint" for n
  proof
    assume "cur = Some n"
    then show "n \<in> set nodes \<and> sn_reachable n \<and> hint \<noteq> [] \<and> sn_name n = hint"
      using setr by (auto simp: cur_def find_Some_iff split: if_splits)
  next
    assume n: "n \<in> set nodes \<and> sn_reachable n \<and> hint \<noteq> [] \<and> sn_name n = hint"
    then obtain c where c: "find (\<lambda>n. sn_name n = hint) r = Some c" using setr by (cases "find (\<lambda>n. sn_name n = hint) r") (auto simp: find_None_iff)
    then have "c \<in> set nodes" "sn_name c = hint" using setr by (auto simp: find_Some_iff)
    then have "c = n" using n assms(2) by (auto simp: distinct_map inj_on_def)
    then show "cur = Some n" using c n by (simp add: cur_def)
  qed
  have "0 \<le> confidence (pickLeastLoaded f nodes hint) \<and> confidence (pickLeastLoaded f nodes hint) \<le> 100"
    using place_best_confidence [of r] by (auto simp: pick keep_current_def split: option.splits)
  moreover have "(\<forall>n. cur = Some n \<and> sn_count n \<le> sn_count (hd r) + sn_count (hd r) * 10 div 100 \<longrightarrow> recommends (pickLeastLoaded f nodes hint) n)
      \<and> ((\<nexists>n. cur = Some n \<and> sn_count n \<le> sn_count (hd r) + sn_count (hd r) * 10 div 100) \<longrightarrow> recommends (pickLeastLoaded f nodes hint) (hd r))"
    using place by (auto simp: pick recommends_def keep_current_def kAntiFlapPercent_def split: option.splits)
  ultimately show ?thesis using best True unfolding cur_iff Let_def by (intro conjI impI exI [of _ "hd r"]) auto
qed


theorem least_loaded_recommended_witness:
  "let nodes = [\<lparr>sn_name = ''a'', sn_host = ''a:9800'', sn_reachable = True, sn_count = 21\<rparr>,
                \<lparr>sn_name = ''b'', sn_host = ''b:9800'', sn_reachable = True, sn_count = 20\<rparr>] in
   targetName (pickLeastLoaded insertion_sort nodes []) = ''b'' \<and> targetName (pickLeastLoaded insertion_sort nodes ''a'') = ''a''"
proof -
  let ?a = "\<lparr>sn_name = ''a'', sn_host = ''a:9800'', sn_reachable = True, sn_count = 21\<rparr>"
  let ?b = "\<lparr>sn_name = ''b'', sn_host = ''b:9800'', sn_reachable = True, sn_count = 20\<rparr>"
  have d: "distinct (map sn_name [?a, ?b])" by simp
  have best: "t = ?b" if "least_loaded [?a, ?b] t" for t using that by (auto simp: least_loaded_def node_before_def)
  note T = least_loaded_recommended [OF insertion_sort_std d]
  have e: "\<exists>n \<in> set [?a, ?b]. sn_reachable n" by simp
  from conjunct1 [OF T [of "[]"], THEN mp, OF e] obtain t where "least_loaded [?a, ?b] t"
    "recommends (pickLeastLoaded insertion_sort [?a, ?b] []) t" unfolding Let_def by blast
  then have "recommends (pickLeastLoaded insertion_sort [?a, ?b] []) ?b" using best by metis
  moreover from conjunct1 [OF T [of "''a''"], THEN mp, OF e] obtain u where u: "least_loaded [?a, ?b] u"
    "\<forall>n. n \<in> set [?a, ?b] \<and> sn_reachable n \<and> ''a'' \<noteq> [] \<and> sn_name n = ''a'' \<and> sn_count n \<le> sn_count u + sn_count u * 10 div 100
      \<longrightarrow> recommends (pickLeastLoaded insertion_sort [?a, ?b] ''a'') n" unfolding Let_def by blast
  have "recommends (pickLeastLoaded insertion_sort [?a, ?b] ''a'') ?a"
    by (rule u(2) [THEN spec, THEN mp]) (simp add: best [OF u(1)])
  ultimately show ?thesis by (simp add: recommends_def)
qed

section \<open>Texts the scanners read\<close>

text \<open>
  The documents the nodes send, and their text, with the given blanks after commas and colons; atoms are
  numbers and literals.
\<close>

datatype jval = JAtom string | JStr string | JArr "jval list" | JObj "(string \<times> jval) list"

fun sep_list :: "string \<Rightarrow> string list \<Rightarrow> string" where
  "sep_list sp [] = []"
| "sep_list sp [t] = t"
| "sep_list sp (t # u # us) = t @ CHR '','' # sp @ sep_list sp (u # us)"

fun jtext :: "string \<Rightarrow> jval \<Rightarrow> string" where
  "jtext sp (JAtom s) = s"
| "jtext sp (JStr s) = DQ # json_escape s @ [DQ]"
| "jtext sp (JArr vs) = LBRACK # sep_list sp (map (jtext sp) vs) @ [RBRACK]"
| "jtext sp (JObj fs) = LBRACE # sep_list sp (map (\<lambda>(k, v). DQ # json_escape k @ DQ # CHR '':'' # sp @ jtext sp v) fs) @ [RBRACE]"

definition plain_char :: "char \<Rightarrow> bool" where
  "plain_char c \<longleftrightarrow> c \<notin> {DQ, BSL, LBRACK, RBRACK, LBRACE, RBRACE, CHR '',''} \<and> \<not> json_ws c"

fun jval_ok :: "jval \<Rightarrow> bool" where
  "jval_ok (JAtom s) = (s \<noteq> [] \<and> list_all plain_char s)"
| "jval_ok (JStr s) = True"
| "jval_ok (JArr vs) = list_all jval_ok vs"
| "jval_ok (JObj fs) = list_all (\<lambda>(k, v). jval_ok v) fs"

text \<open>A text the bracket scanner passes over, at any depth of at least one.\<close>

definition passes :: "string \<Rightarrow> bool" where
  "passes t \<longleftrightarrow> (\<forall>d acc r. 1 \<le> d \<longrightarrow> array_loop d False False acc (t @ r) = array_loop d False False (acc @ t) r)"

lemma passes_Nil [simp]: "passes []"
  by (simp add: passes_def)

lemma passes_append: "passes s \<Longrightarrow> passes t \<Longrightarrow> passes (s @ t)"
  by (simp add: passes_def)

lemma passes_char: "c \<notin> {DQ, LBRACK, RBRACK, LBRACE, RBRACE} \<Longrightarrow> passes [c]"
  by (simp add: passes_def)

lemma passes_plain: "list_all plain_char s \<Longrightarrow> passes s"
proof (induction s)
  case (Cons c s)
  then have "passes [c]" by (intro passes_char) (simp add: plain_char_def)
  then show ?case using Cons passes_append [of "[c]" s] by simp
qed simp

text \<open>An escaped character is the character, or a backslash and more without an unescaped quote or backslash.\<close>

lemma escape_char_shape:
  obtains "escape_char c = [c]" "c \<noteq> DQ" "c \<noteq> BSL"
  | x xs where "escape_char c = BSL # x # xs" "DQ \<notin> set xs" "BSL \<notin> set xs"
proof -
  have "hex_digit DQ = None" "hex_digit BSL = None" by (simp_all add: hex_digit_def DQ_def BSL_def)
  then have h: "hex_lower d \<noteq> DQ \<and> hex_lower d \<noteq> BSL" if "d < 16" for d using hex_digit_lower [OF that] by auto
  have "(of_char c :: nat) div 16 < 16" by (simp add: div_less_iff_less_mult)
  from h [OF this] h [of "of_char c mod 16"]
  have u: "\<exists>x xs. u_escape (of_char c) = BSL # x # xs \<and> DQ \<notin> set xs \<and> BSL \<notin> set xs"
    by (auto simp: u_escape_def) (auto simp: DQ_def BSL_def)
  have "escape_char c = [c] \<and> c \<noteq> DQ \<and> c \<noteq> BSL \<or> (\<exists>x xs. escape_char c = BSL # x # xs \<and> DQ \<notin> set xs \<and> BSL \<notin> set xs)"
    using u by (auto simp: escape_char_def)
  then show thesis using that by blast
qed

lemma array_escape:
  "array_loop d True False acc (json_escape s @ r) = array_loop d True False (acc @ json_escape s) r"
proof (induction s arbitrary: acc)
  case (Cons c s)
  have skip: "array_loop d True False acc (xs @ r') = array_loop d True False (acc @ xs) r'" if "DQ \<notin> set xs" "BSL \<notin> set xs" for acc xs r'
    using that by (induction xs arbitrary: acc) auto
  have "array_loop d True False acc (escape_char c @ r') = array_loop d True False (acc @ escape_char c) r'" for acc r'
    by (rule escape_char_shape [of c]) (use skip in auto)
  then show ?case using Cons by (simp add: json_escape_simps)
qed (simp add: json_escape_simps)


lemma passes_string: "passes (DQ # json_escape s @ [DQ])"
proof -
  have "BSL \<noteq> DQ" by (simp add: BSL_def DQ_def)
  then show ?thesis using array_escape [of _ _ s "DQ # _"] by (simp add: passes_def)
qed

lemma passes_bracket:
  assumes "passes t" "(l, r) \<in> {(LBRACK, RBRACK), (LBRACE, RBRACE)}"
  shows "passes (l # t @ [r])"
proof -
  have "array_loop d False False acc (l # t @ r # u) = array_loop d False False (acc @ l # t @ [r]) u" if "1 \<le> d" for d acc u
  proof -
    have "array_loop d False False acc (l # t @ r # u) = array_loop (d + 1) False False (acc @ [l]) (t @ r # u)"
      using assms(2) by (auto simp: DQ_def LBRACK_def LBRACE_def RBRACK_def RBRACE_def)
    also have "\<dots> = array_loop (d + 1) False False (acc @ [l] @ t) (r # u)" using assms(1) that by (simp add: passes_def)
    also have "\<dots> = array_loop d False False (acc @ l # t @ [r]) u"
      using assms(2) that by (auto simp: DQ_def LBRACK_def LBRACE_def RBRACK_def RBRACE_def)
    finally show ?thesis .
  qed
  then show ?thesis by (simp add: passes_def)
qed

lemma passes_blanks: "list_all json_ws sp \<Longrightarrow> passes sp"
proof (induction sp)
  case (Cons c sp)
  then have "passes [c]" by (intro passes_char) (auto simp: json_ws_def DQ_def LBRACK_def LBRACE_def RBRACK_def RBRACE_def)
  then show ?case using Cons passes_append [of "[c]" sp] by simp
qed simp

lemma passes_sep_list:
  assumes "list_all json_ws sp"
  shows "\<forall>t \<in> set ts. passes t \<Longrightarrow> passes (sep_list sp ts)"
proof (induction ts)
  case (Cons t ts)
  have c: "passes [CHR '','']" by (rule passes_char) (simp add: DQ_def LBRACK_def LBRACE_def RBRACK_def RBRACE_def)
  show ?case
  proof (cases ts)
    case Nil
    then show ?thesis using Cons by simp
  next
    case (Cons u us)
    then have "sep_list sp (t # ts) = t @ [CHR '',''] @ sp @ sep_list sp ts" by simp
    then show ?thesis using Cons.IH Cons.prems passes_append [OF _ passes_append [OF c passes_append [OF passes_blanks [OF assms]]], of t "sep_list sp ts"]
      by simp
  qed
qed simp

lemma passes_jtext:
  assumes sp: "list_all json_ws sp"
  shows "jval_ok v \<Longrightarrow> passes (jtext sp v)"
proof (induction v)
  case (JAtom s)
  then show ?case by (simp add: passes_plain)
next
  case (JStr s)
  then show ?case using passes_string by simp
next
  case (JArr vs)
  then have "passes (sep_list sp (map (jtext sp) vs))" by (intro passes_sep_list sp) (auto simp: list_all_iff)
  then show ?case using passes_bracket by simp
next
  case (JObj fs)
  have col: "passes [CHR '':'']" by (rule passes_char) (simp add: DQ_def LBRACK_def LBRACE_def RBRACK_def RBRACE_def)
  have "passes (DQ # json_escape k @ DQ # CHR '':'' # sp @ jtext sp v)" if "(k, v) \<in> set fs" for k v
  proof -
    have "passes (jtext sp v)" using JObj that by (auto simp: list_all_iff)
    then have "passes ((DQ # json_escape k @ [DQ]) @ [CHR '':''] @ sp @ jtext sp v)" using passes_append passes_string col passes_blanks [OF sp] by blast
    then show ?thesis by simp
  qed
  then have "passes (sep_list sp (map (\<lambda>(k, v). DQ # json_escape k @ DQ # CHR '':'' # sp @ jtext sp v) fs))"
    by (intro passes_sep_list sp) auto
  then show ?case using passes_bracket by simp
qed

lemma arrayAt_jtext:
  assumes sp: "list_all json_ws sp" and "list_all jval_ok vs"
  shows "arrayAt (jtext sp (JArr vs) @ r) = jtext sp (JArr vs)"
proof -
  let ?t = "sep_list sp (map (jtext sp) vs)"
  have p: "passes ?t" using assms(2) passes_jtext [OF sp] by (intro passes_sep_list sp) (auto simp: list_all_iff)
  have "array_loop 0 False False [] (LBRACK # ?t @ RBRACK # r) = array_loop 1 False False [LBRACK] (?t @ RBRACK # r)"
    by (simp add: DQ_def LBRACK_def LBRACE_def)
  also have "\<dots> = array_loop 1 False False (LBRACK # ?t) (RBRACK # r)" using p by (simp add: passes_def)
  also have "\<dots> = Some (LBRACK # ?t @ [RBRACK])" by (simp add: DQ_def LBRACK_def LBRACE_def RBRACK_def)
  finally show ?thesis by (simp add: arrayAt_def)
qed


text \<open>A text that changes nothing of the count inside an object.\<close>

definition quiet :: "string \<Rightarrow> bool" where
  "quiet t \<longleftrightarrow> (\<forall>s. 1 \<le> cdepth s \<and> \<not> cin_string s \<and> \<not> cescape s \<and> cseen s \<longrightarrow> foldl count_step s t = s)"

lemma quiet_Nil [simp]: "quiet []"
  by (simp add: quiet_def)

lemma quiet_append: "quiet s \<Longrightarrow> quiet t \<Longrightarrow> quiet (s @ t)"
  by (simp add: quiet_def)

lemma quiet_char: "c \<notin> {DQ, LBRACE, RBRACE} \<Longrightarrow> quiet [c]"
  by (simp add: quiet_def count_step_def)

lemma quiet_plain: "list_all plain_char s \<Longrightarrow> quiet s"
proof (induction s)
  case (Cons c s)
  then have "quiet [c]" by (intro quiet_char) (simp add: plain_char_def)
  then show ?case using Cons quiet_append [of "[c]" s] by simp
qed simp

lemma count_escape:
  assumes "cin_string s" "\<not> cescape s"
  shows "foldl count_step s (json_escape t) = s"
  using assms
proof (induction t)
  case (Cons c t)
  have skip: "foldl count_step s xs = s" if "DQ \<notin> set xs" "BSL \<notin> set xs" for xs
    using that Cons.prems by (induction xs) (auto simp: count_step_def)
  have two: "count_step (count_step s BSL) x = s" for x using Cons.prems by (cases s) (simp add: count_step_def)
  have one: "count_step s x = s" if "x \<noteq> DQ" "x \<noteq> BSL" for x using that Cons.prems by (simp add: count_step_def)
  have "foldl count_step s (escape_char c) = s"
    by (rule escape_char_shape [of c]) (use skip in \<open>simp_all add: one two\<close>)
  then show ?case using Cons by (simp add: json_escape_simps)
qed (simp add: json_escape_simps)

lemma quiet_string: "quiet (DQ # json_escape t @ [DQ])"
proof -
  have n: "BSL \<noteq> DQ" by (simp add: BSL_def DQ_def)
  show ?thesis unfolding quiet_def
  proof (intro allI impI)
    fix s :: count_state assume s: "1 \<le> cdepth s \<and> \<not> cin_string s \<and> \<not> cescape s \<and> cseen s"
    have "count_step s DQ = s\<lparr>cin_string := True\<rparr>" using s by (cases s) (simp add: count_step_def)
    moreover have "count_step (s\<lparr>cin_string := True\<rparr>) DQ = s" using s n by (cases s) (simp add: count_step_def)
    ultimately show "foldl count_step s (DQ # json_escape t @ [DQ]) = s"
      using count_escape [of "s\<lparr>cin_string := True\<rparr>" t] s by simp
  qed
qed

lemma quiet_bracket: "quiet t \<Longrightarrow> quiet (LBRACK # t @ [RBRACK])"
  using quiet_append [of "[LBRACK]" "t @ [RBRACK]"] quiet_append [of t "[RBRACK]"] quiet_char [of LBRACK] quiet_char [of RBRACK]
  by (simp add: LBRACK_def RBRACK_def DQ_def LBRACE_def RBRACE_def)

lemma brace_count:
  assumes "quiet t" "\<not> cin_string s" "\<not> cescape s" "0 \<le> cdepth s"
  shows "foldl count_step s (LBRACE # t @ [RBRACE]) = s\<lparr>cnt := (if cdepth s = 0 then cnt s + 1 else cnt s), cseen := True\<rparr>"
proof -
  let ?s = "s\<lparr>cnt := (if cdepth s = 0 then cnt s + 1 else cnt s), cdepth := cdepth s + 1, cseen := True\<rparr>"
  have "count_step s LBRACE = ?s" using assms by (simp add: count_step_def LBRACE_def DQ_def)
  moreover have "foldl count_step ?s t = ?s" using assms by (simp add: quiet_def)
  ultimately show ?thesis using assms by (simp add: count_step_def LBRACE_def RBRACE_def DQ_def)
qed

lemma quiet_brace: "quiet t \<Longrightarrow> quiet (LBRACE # t @ [RBRACE])"
  unfolding quiet_def [of "LBRACE # t @ [RBRACE]"] using brace_count [of t] by simp

lemma quiet_blanks: "list_all json_ws sp \<Longrightarrow> quiet sp"
proof (induction sp)
  case (Cons c sp)
  then have "quiet [c]" by (intro quiet_char) (auto simp: json_ws_def DQ_def LBRACK_def LBRACE_def RBRACK_def RBRACE_def)
  then show ?case using Cons quiet_append [of "[c]" sp] by simp
qed simp

lemma quiet_sep_list:
  assumes "list_all json_ws sp"
  shows "\<forall>t \<in> set ts. quiet t \<Longrightarrow> quiet (sep_list sp ts)"
proof (induction ts)
  case (Cons t ts)
  have c: "quiet [CHR '','']" by (rule quiet_char) (simp add: DQ_def LBRACE_def RBRACE_def)
  show ?case
  proof (cases ts)
    case Nil
    then show ?thesis using Cons by simp
  next
    case (Cons u us)
    then have "sep_list sp (t # ts) = t @ [CHR '',''] @ sp @ sep_list sp ts" by simp
    then show ?thesis using Cons.IH Cons.prems quiet_append [OF _ quiet_append [OF c quiet_append [OF quiet_blanks [OF assms]]], of t "sep_list sp ts"]
      by simp
  qed
qed simp

definition jfields :: "string \<Rightarrow> (string \<times> jval) list \<Rightarrow> string" where
  "jfields sp fs = sep_list sp (map (\<lambda>(k, v). DQ # json_escape k @ DQ # CHR '':'' # sp @ jtext sp v) fs)"

lemma quiet_fields:
  assumes sp: "list_all json_ws sp" and "\<forall>(k, v) \<in> set fs. quiet (jtext sp v)"
  shows "quiet (jfields sp fs)"
proof -
  have col: "quiet [CHR '':'']" by (rule quiet_char) (simp add: DQ_def LBRACE_def RBRACE_def)
  have "quiet (DQ # json_escape k @ DQ # CHR '':'' # sp @ jtext sp v)" if "(k, v) \<in> set fs" for k v
  proof -
    have "quiet (jtext sp v)" using assms(2) that by auto
    then have "quiet ((DQ # json_escape k @ [DQ]) @ [CHR '':''] @ sp @ jtext sp v)" using quiet_append quiet_string col quiet_blanks [OF sp] by blast
    then show ?thesis by simp
  qed
  then show ?thesis unfolding jfields_def by (intro quiet_sep_list sp) auto
qed

lemma quiet_jtext:
  assumes sp: "list_all json_ws sp"
  shows "jval_ok v \<Longrightarrow> quiet (jtext sp v)"
proof (induction v)
  case (JAtom s)
  then show ?case by (simp add: quiet_plain)
next
  case (JStr s)
  then show ?case using quiet_string by simp
next
  case (JArr vs)
  then have "quiet (sep_list sp (map (jtext sp) vs))" by (intro quiet_sep_list sp) (auto simp: list_all_iff)
  then show ?case using quiet_bracket by simp
next
  case (JObj fs)
  then have "quiet (jfields sp fs)" by (intro quiet_fields sp) (auto simp: list_all_iff)
  then show ?case using quiet_brace by (simp add: jfields_def)
qed

lemma count_objects:
  assumes sp: "list_all json_ws sp" and "\<forall>fs \<in> set os. jval_ok (JObj fs)" "cdepth s = 0" "\<not> cin_string s" "\<not> cescape s"
  shows "foldl count_step s (sep_list sp (map (\<lambda>fs. jtext sp (JObj fs)) os)) =
    s\<lparr>cnt := cnt s + of_nat (length os), cseen := (cseen s \<or> os \<noteq> [])\<rparr>"
  using assms(2-)
proof (induction os arbitrary: s)
  case Nil
  then show ?case by simp
next
  case (Cons fs os)
  have "quiet (jfields sp fs)" using Cons.prems(1) quiet_jtext [OF sp] by (intro quiet_fields sp) (auto simp: list_all_iff)
  then have one: "foldl count_step s (jtext sp (JObj fs)) = s\<lparr>cnt := cnt s + 1, cseen := True\<rparr>"
    using brace_count [of "jfields sp fs" s] Cons.prems by (simp add: jfields_def)
  let ?s = "s\<lparr>cnt := cnt s + 1, cseen := True\<rparr>"
  show ?case
  proof (cases os)
    case Nil
    then show ?thesis using one by simp
  next
    case (Cons gs os')
    have "sep_list sp (map (\<lambda>fs. jtext sp (JObj fs)) (fs # os)) =
        jtext sp (JObj fs) @ CHR '','' # sp @ sep_list sp (map (\<lambda>fs. jtext sp (JObj fs)) os)"
      using Cons by (simp del: jtext.simps)
    moreover have "foldl count_step ?s sp = ?s"
      using sp Cons.prems by (induction sp) (auto simp: count_step_def json_ws_def DQ_def LBRACE_def RBRACE_def)
    moreover have "count_step ?s (CHR '','') = ?s" using Cons.prems by (simp add: count_step_def DQ_def LBRACE_def RBRACE_def)
    ultimately show ?thesis using one Cons.IH [of ?s] Cons.prems by (simp add: algebra_simps del: jtext.simps)
  qed
qed


text \<open>The replies of a node: the array itself, the array as data, or the jail listing of libxo as data.\<close>

definition array_reply :: "string \<Rightarrow> string" where
  "array_reply arr = json_obj [json_str ''status'' ''ok'', json_raw ''data'' arr]"

definition libxo_doc :: "string \<Rightarrow> string \<Rightarrow> string" where
  "libxo_doc sp arr =
     LBRACE # DQ # ''__version'' @ DQ # CHR '':'' # sp @ DQ # ''2'' @ DQ # CHR '','' # sp @
     DQ # ''jail-information'' @ DQ # CHR '':'' # sp @ LBRACE # DQ # ''jail'' @ DQ # CHR '':'' # sp @ arr @ [RBRACE, RBRACE]"

definition libxo_reply :: "string \<Rightarrow> string \<Rightarrow> string" where
  "libxo_reply sp arr = json_obj [json_str ''status'' ''ok'', json_raw ''data'' (libxo_doc sp arr)]"

lemma bracket_text:
  "\<not> json_ws LBRACK" "\<not> json_ws RBRACK" "\<not> json_ws LBRACE" "LBRACK \<noteq> LBRACE"
  by (simp_all add: json_ws_def LBRACK_def RBRACK_def LBRACE_def)

lemma count_array:
  assumes sp: "list_all json_ws sp" and "\<forall>fs \<in> set os. jval_ok (JObj fs)"
  shows "countTopLevelObjects (jtext sp (JArr (map JObj os))) = of_nat (length os)"
proof -
  let ?t = "sep_list sp (map (\<lambda>fs. jtext sp (JObj fs)) os)"
  have j: "jtext sp (JArr (map JObj os)) = LBRACK # ?t @ [RBRACK]" by (simp add: comp_def)
  have s: "rstrip_ws (dropWhile json_ws (LBRACK # ?t @ [RBRACK])) = LBRACK # ?t @ [RBRACK]"
    using bracket_text by (simp add: rstrip_ws_def)
  have "foldl count_step count_init ?t = count_init\<lparr>cnt := of_nat (length os), cseen := (os \<noteq> [])\<rparr>"
    using count_objects [OF assms, of count_init] by (simp add: count_init_def del: jtext.simps)
  then show ?thesis unfolding j countTopLevelObjects_def s Let_def
    by (simp add: count_init_def butlast_append del: jtext.simps)
qed

lemma cut_first_quote: "DQ \<notin> set p \<Longrightarrow> cut_first (DQ # n) (p @ r) = map_option (apfst ((@) p)) (cut_first (DQ # n) r)"
proof (induction p)
  case Nil
  then show ?case by (simp add: apfst_def map_prod_def option.map_ident)
next
  case (Cons c p)
  then have "\<not> starts_with (DQ # n) (c # p @ r)" by (auto simp: starts_with_def)
  then show ?case using Cons by (simp add: cut_first_skip option.map_comp comp_def apfst_def map_prod_def split_beta)
qed

lemma cut_first_at_start: "cut_first n (n @ r) = Some ([], r)"
  by (simp add: cut_first.simps starts_with_def)

lemma cut_first_other: "\<not> starts_with n r \<Longrightarrow> cut_first (DQ # n) (DQ # r) = map_option (apfst ((#) DQ)) (cut_first (DQ # n) r)"
  by (rule cut_first_skip) (simp add: starts_with_def)

text \<open>The value of a key that follows other text without that quoted key.\<close>

lemma valueAfterKey_found:
  assumes "cut_first (DQ # key @ [DQ]) s = Some (p, CHR '':'' # v)"
  shows "valueAfterKey s key = Some (dropWhile json_ws v)"
  using assms by (simp add: valueAfterKey_def)


lemma dropWhile_blanks: "list_all json_ws sp \<Longrightarrow> \<not> json_ws c \<Longrightarrow> dropWhile json_ws (sp @ c # r) = c # r"
  by (induction sp) auto

lemma blanks_no_quote: "list_all json_ws sp \<Longrightarrow> DQ \<notin> set sp"
proof -
  have "\<not> json_ws DQ" by (simp add: json_ws_def DQ_def)
  then show "list_all json_ws sp \<Longrightarrow> DQ \<notin> set sp" by (auto simp: list_all_iff)
qed

lemma libxo_values:
  assumes "list_all json_ws sp"
  shows "valueAfterKey (libxo_doc sp (LBRACK # t) @ u) ''jail-information'' =
      Some (LBRACE # DQ # ''jail'' @ DQ # CHR '':'' # sp @ (LBRACK # t) @ [RBRACE, RBRACE] @ u)"
    and "valueAfterKey (LBRACE # DQ # ''jail'' @ DQ # CHR '':'' # sp @ (LBRACK # t) @ [RBRACE, RBRACE] @ u) ''jail'' =
      Some (LBRACK # t @ [RBRACE, RBRACE] @ u)"
proof -
  let ?n = "''jail-information'' @ [DQ]"
  let ?r = "LBRACE # DQ # ''jail'' @ DQ # CHR '':'' # sp @ (LBRACK # t) @ [RBRACE, RBRACE] @ u"
  have q: "DQ \<notin> set sp" by (rule blanks_no_quote [OF assms])
  have c: "DQ \<notin> set [LBRACE]" "DQ \<notin> set ''__version''" "DQ \<notin> set (CHR '':'' # sp)" "DQ \<notin> set ''2''" "DQ \<notin> set (CHR '','' # sp)"
    using q by (simp_all add: DQ_def LBRACE_def)
  have n: "\<not> starts_with ?n (''__version'' @ x)" "\<not> starts_with ?n ((CHR '':'' # sp) @ x)" "\<not> starts_with ?n (''2'' @ x)"
    "\<not> starts_with ?n ((CHR '','' # sp) @ x)" for x
    by (simp_all add: starts_with_def)
  have doc: "libxo_doc sp (LBRACK # t) @ u = [LBRACE] @ DQ # ''__version'' @ DQ # (CHR '':'' # sp) @ DQ # ''2'' @ DQ # (CHR '','' # sp)
      @ (DQ # ?n) @ CHR '':'' # sp @ ?r"
    by (simp add: libxo_doc_def)
  have "\<exists>p. cut_first (DQ # ?n) (libxo_doc sp (LBRACK # t) @ u) = Some (p, CHR '':'' # sp @ ?r)"
    unfolding doc
    by (simp only: cut_first_quote [OF c(1)] cut_first_quote [OF c(2)] cut_first_quote [OF c(3)] cut_first_quote [OF c(4)] cut_first_quote [OF c(5)]
        cut_first_other [OF n(1)] cut_first_other [OF n(2)] cut_first_other [OF n(3)] cut_first_other [OF n(4)] cut_first_at_start
        option.map apfst_conv option.inject prod.inject simp_thms)
  then obtain p where "cut_first (DQ # ?n) (libxo_doc sp (LBRACK # t) @ u) = Some (p, CHR '':'' # sp @ ?r)" by blast
  from valueAfterKey_found [of "''jail-information''", OF this]
  show "valueAfterKey (libxo_doc sp (LBRACK # t) @ u) ''jail-information'' = Some ?r"
    using dropWhile_blanks [OF assms bracket_text(3)] by (simp only:)
  have "cut_first (DQ # ''jail'' @ [DQ]) ([LBRACE] @ (DQ # ''jail'' @ [DQ]) @ CHR '':'' # sp @ LBRACK # t @ [RBRACE, RBRACE] @ u) =
      Some ([LBRACE], CHR '':'' # sp @ LBRACK # t @ [RBRACE, RBRACE] @ u)"
    by (simp only: cut_first_quote [OF c(1)] cut_first_at_start option.map apfst_conv append_Nil2)
  from valueAfterKey_found [of "''jail''", OF this] show "valueAfterKey ?r ''jail'' = Some (LBRACK # t @ [RBRACE, RBRACE] @ u)"
    using dropWhile_blanks [OF assms bracket_text(1), of "t @ [RBRACE, RBRACE] @ u"] by simp
qed

lemma extract_replies:
  assumes sp: "list_all json_ws sp" and "list_all jval_ok vs"
  shows "extractContainerArray (jtext sp (JArr vs)) = jtext sp (JArr vs)"
    and "extractContainerArray (array_reply (jtext sp (JArr vs))) = jtext sp (JArr vs)"
    and "extractContainerArray (libxo_reply sp (jtext sp (JArr vs))) = jtext sp (JArr vs)"
proof -
  obtain t where t: "jtext sp (JArr vs) = LBRACK # t" by simp
  have ne: "or_empty_array (jtext sp (JArr vs)) = jtext sp (JArr vs)" by (simp add: or_empty_array_def)
  note A = arrayAt_jtext [OF assms]
  show "extractContainerArray (jtext sp (JArr vs)) = jtext sp (JArr vs)"
    using A [of "[]"] ne bracket_text unfolding t by (simp add: extractContainerArray_def Let_def)
  note chars = DQ_def BSL_def LBRACK_def LBRACE_def RBRACE_def json_obj_def json_str_def json_raw_def json_key_def json_escape_def escape_char_def
    cut_first.simps starts_with_def valueAfterKey_def json_ws_def
  have d: "valueAfterKey (array_reply (LBRACK # t)) ''data'' = Some (LBRACK # t @ [RBRACE])" by (simp add: array_reply_def chars)
  have h: "\<exists>r. array_reply x = LBRACE # r" "\<exists>r. libxo_reply sp x = LBRACE # r" "\<exists>r. libxo_doc sp x = LBRACE # r" for x
    by (simp_all add: array_reply_def libxo_reply_def libxo_doc_def json_obj_def LBRACE_def)
  have drop: "dropWhile json_ws (array_reply x) = array_reply x" "dropWhile json_ws (libxo_reply sp x) = libxo_reply sp x" for x
    using h(1,2) [of x] bracket_text(3) by auto
  show "extractContainerArray (array_reply (jtext sp (JArr vs))) = jtext sp (JArr vs)"
    using A [of "[RBRACE]"] ne d h(1) [of "LBRACK # t"] bracket_text(4) unfolding t
    by (auto simp: extractContainerArray_def Let_def drop)
  obtain r where r: "libxo_doc sp (LBRACK # t) = LBRACE # r" using h(3) by blast
  have "valueAfterKey (libxo_reply sp (LBRACK # t)) ''data'' = Some (LBRACE # r @ [RBRACE])"
    unfolding libxo_reply_def r by (simp add: chars)
  then have v: "valueAfterKey (libxo_reply sp (LBRACK # t)) ''data'' = Some (libxo_doc sp (LBRACK # t) @ [RBRACE])" using r by simp
  show "extractContainerArray (libxo_reply sp (jtext sp (JArr vs))) = jtext sp (JArr vs)"
    using A [of "[RBRACE, RBRACE] @ [RBRACE]"] ne v libxo_values [OF sp, of t "[RBRACE]"] h(2) [of "LBRACK # t"] r bracket_text(4) unfolding t
    by (auto simp: extractContainerArray_def Let_def drop)
qed

end
