(* ===== verification/HubApi.thy ===== *)
theory HubApi
  imports HubPure
begin

text \<open>
  crate-hub at work: the poller's record of every node (\<^verbatim>\<open>hub/poller.cpp\<close>), the replies of its HTTP routes
  (\<^verbatim>\<open>hub/api.cpp\<close>) and the command \<^verbatim>\<open>crate-hub schedule\<close> (\<^verbatim>\<open>hub/main.cpp\<close>). What a node answers and what the clock
  shows are arguments. The poll loop is a sequence of polls; the theorems relate the failover orders to
  the history of the polls.
\<close>

section \<open>The poller\<close>

record NodeConfig =
  nc_name :: string
  nc_host :: string
  nc_datacenter :: string

record NodeStatus =
  st_name :: string
  st_host :: string
  st_datacenter :: string
  st_reachable :: bool
  st_hostInfo :: string
  st_containers :: string
  st_stale :: bool
  st_lastError :: string
  st_firstDownAt :: int

text \<open>An HTTP reply with status and body, or none.\<close>

type_synonym http_reply = "(int \<times> string) option"

text \<open>
  The two requests of a poll: both answered or not, or an exception before the first reply was evaluated,
  or between the two.
\<close>

datatype poll_outcome = Poll_throws string | Poll_breaks http_reply string | Poll_replies http_reply http_reply

definition Poller_statuses :: "NodeConfig list \<Rightarrow> NodeStatus list" where
  "Poller_statuses nodes = map (\<lambda>n. \<lparr>st_name = nc_name n, st_host = nc_host n, st_datacenter = nc_datacenter n,
     st_reachable = False, st_hostInfo = [], st_containers = [], st_stale = False, st_lastError = [], st_firstDownAt = 0\<rparr>) nodes"

definition mark_down :: "int \<Rightarrow> NodeStatus \<Rightarrow> NodeStatus" where
  "mark_down now s = s\<lparr>st_reachable := False, st_firstDownAt := (if st_firstDownAt s = 0 then now else st_firstDownAt s)\<rparr>"

definition poll_failed :: "int \<Rightarrow> string \<Rightarrow> NodeStatus \<Rightarrow> NodeStatus" where
  "poll_failed now e s = (mark_down now s)\<lparr>st_stale := True, st_lastError := e\<rparr>"

definition host_answered :: "int \<Rightarrow> http_reply \<Rightarrow> NodeStatus \<Rightarrow> NodeStatus" where
  "host_answered now r s =
     (case r of
        Some (status, body) \<Rightarrow>
          if status = 200 then s\<lparr>st_hostInfo := body, st_reachable := True, st_firstDownAt := 0\<rparr> else mark_down now s
      | None \<Rightarrow> mark_down now s)"

definition containers_answered :: "http_reply \<Rightarrow> NodeStatus \<Rightarrow> NodeStatus \<times> bool" where
  "containers_answered r s =
     (case r of
        Some (status, body) \<Rightarrow>
          if status = 200
          then (s\<lparr>st_containers := extractContainerArray body, st_stale := False, st_lastError := []\<rparr>, st_reachable s)
          else (s\<lparr>st_stale := True, st_lastError := ''containers: HTTP '' @ dec_int status\<rparr>, False)
      | None \<Rightarrow> (s\<lparr>st_stale := True, st_lastError := ''containers: no response''\<rparr>, False))"

text \<open>The status after a poll, and the sample that is stored when it is fresh.\<close>

definition pollNode :: "NodeConfig \<Rightarrow> int \<Rightarrow> poll_outcome \<Rightarrow> NodeStatus \<Rightarrow> NodeStatus \<times> (string \<times> string \<times> string) option" where
  "pollNode node now out s =
     (case splitHostPort (nc_host node) 9800 of
        None \<Rightarrow> (poll_failed now (''invalid node host '' @ quoted (nc_host node) @ '' (want host, host:port or [v6]:port)'') s, None)
      | Some _ \<Rightarrow>
        (case out of
           Poll_throws e \<Rightarrow> (poll_failed now e s, None)
         | Poll_breaks h e \<Rightarrow> (poll_failed now e (host_answered now h s), None)
         | Poll_replies h c \<Rightarrow>
             (case containers_answered c (host_answered now h s) of (s', fresh) \<Rightarrow>
               (s', if fresh then Some (nc_name node, st_hostInfo s', st_containers s') else None))))"

text \<open>One poll of the loop: which node, when, and how it answered.\<close>

type_synonym poll = "nat \<times> int \<times> poll_outcome"

definition poll_step :: "NodeConfig list \<Rightarrow> NodeStatus list \<Rightarrow> poll \<Rightarrow> NodeStatus list" where
  "poll_step nodes ss p = (case p of (i, now, out) \<Rightarrow>
     if i < length nodes then ss[i := fst (pollNode (nodes ! i) now out (ss ! i))] else ss)"

definition poll_run :: "NodeConfig list \<Rightarrow> poll list \<Rightarrow> NodeStatus list" where
  "poll_run nodes ps = foldl (poll_step nodes) (Poller_statuses nodes) ps"

definition clamp_poll_interval :: "int \<Rightarrow> int" where
  "clamp_poll_interval v = (if v < 1 then 1 else if v > 3600 then 3600 else v)"

section \<open>The routes\<close>

definition ok_body :: "string \<Rightarrow> string" where
  "ok_body d = json_obj [json_str ''status'' ''ok'', json_raw ''data'' d]"

definition err_body :: "string \<Rightarrow> string" where
  "err_body e = json_obj [json_str ''status'' ''error'', json_str ''error'' e]"

definition nodes_route :: "NodeStatus list \<Rightarrow> string" where
  "nodes_route ss = ok_body (json_array (map (\<lambda>s. json_obj
     ([json_str ''name'' (st_name s), json_str ''host'' (st_host s),
       json_str ''datacenter'' (canonicalName (st_datacenter s)),
       json_raw ''reachable'' (bool_json (st_reachable s)), json_raw ''stale'' (bool_json (st_stale s))]
      @ (if st_lastError s \<noteq> [] then [json_str ''error'' (st_lastError s)] else []))) ss))"

definition node_containers_route :: "NodeStatus list \<Rightarrow> string \<Rightarrow> nat \<times> string" where
  "node_containers_route ss host =
     (case find (\<lambda>s. st_name s = host \<or> st_host s = host) ss of
        Some s \<Rightarrow> (200, ok_body (or_empty_array (st_containers s)))
      | None \<Rightarrow> (404, err_body ''node not found''))"

definition containers_route :: "NodeStatus list \<Rightarrow> string" where
  "containers_route ss = ok_body (json_array (map (\<lambda>s. json_obj [json_str ''node'' (st_name s),
     json_raw ''stale'' (bool_json (st_stale s)), json_raw ''containers'' (extractContainerArray (st_containers s))])
     (filter (\<lambda>s. st_containers s \<noteq> []) ss)))"

definition label_escape :: "string \<Rightarrow> string" where
  "label_escape s = concat (map (\<lambda>c. if c = BSL \<or> c = DQ then [BSL, c] else if c = NL then [BSL, CHR ''n''] else [c]) s)"

definition metrics_route :: "NodeStatus list \<Rightarrow> string" where
  "metrics_route ss =
     ''# HELP crate_hub_nodes_total Total configured nodes'' @ [NL] @ ''# TYPE crate_hub_nodes_total gauge'' @ [NL]
     @ ''crate_hub_nodes_total '' @ dec (length ss) @ [NL]
     @ ''# HELP crate_hub_nodes_reachable Reachable nodes'' @ [NL] @ ''# TYPE crate_hub_nodes_reachable gauge'' @ [NL]
     @ ''crate_hub_nodes_reachable '' @ dec (length (filter st_reachable ss)) @ [NL]
     @ concat (map (\<lambda>s. ''crate_hub_node_up{host='' @ DQ # label_escape (st_name s) @ DQ # ''} ''
         @ (if st_reachable s then ''1'' else ''0'') @ [NL]) ss)"

definition agg_view :: "NodeStatus \<Rightarrow> agg_node" where
  "agg_view s = \<lparr>an_name = st_name s, an_host = st_host s, an_reachable = st_reachable s,
     an_count = countTopLevelObjects (st_containers s)\<rparr>"

definition aggregate_route :: "NodeStatus list \<Rightarrow> string" where
  "aggregate_route ss = ok_body (renderSummaryJson (summarise (map agg_view ss)))"

definition datacenters_route :: "NodeStatus list \<Rightarrow> string" where
  "datacenters_route ss = ok_body (dc_renderJson (groupAndSummarise
     (map (\<lambda>s. \<lparr>dc_node = agg_view s, dc_label = st_datacenter s\<rparr>) ss)))"

definition ha_view :: "int \<Rightarrow> NodeStatus \<Rightarrow> ha_node" where
  "ha_view now s = \<lparr>hn_name = st_name s, hn_reachable = st_reachable s,
     unreachableSeconds = (if st_firstDownAt s > 0 \<and> \<not> st_reachable s then now - st_firstDownAt s else 0)\<rparr>"

definition ha_orders :: "HaSpec list \<Rightarrow> int \<Rightarrow> int \<Rightarrow> NodeStatus list \<Rightarrow> MigrationOrder list" where
  "ha_orders haSpecs threshold now ss = evaluateFailoverOrders haSpecs (map (ha_view now) ss) threshold"

definition ha_orders_route :: "HaSpec list \<Rightarrow> int \<Rightarrow> int \<Rightarrow> NodeStatus list \<Rightarrow> string" where
  "ha_orders_route haSpecs threshold now ss = ok_body (renderOrdersJson (ha_orders haSpecs threshold now ss))"

definition sched_view :: "NodeStatus \<Rightarrow> sched_node" where
  "sched_view s = \<lparr>sn_name = st_name s, sn_host = st_host s, sn_reachable = st_reachable s,
     sn_count = countTopLevelObjects (st_containers s)\<rparr>"

definition least_loaded_route :: "index_sort \<Rightarrow> NodeStatus list \<Rightarrow> string \<Rightarrow> string" where
  "least_loaded_route std_sort ss current = ok_body (renderRecommendationJson (pickLeastLoaded std_sort (map sched_view ss) current))"

text \<open>The prune route: the status, and whether the samples older than 48 hours are deleted.\<close>

definition prune_route :: "string \<Rightarrow> nat \<times> bool" where
  "prune_route remote_addr = (if remote_addr \<noteq> ''127.0.0.1'' \<and> remote_addr \<noteq> ''::1'' then (403, False) else (200, True))"

section \<open>The schedule command\<close>

record schedule_args =
  sa_jail :: string
  sa_fromHost :: string
  sa_fromTokenFile :: string
  sa_toTokenFile :: string
  sa_current :: string
  sa_hubUrl :: string
  sa_dryRun :: bool

datatype schedule_end = Sched_usage | Sched_error string | Sched_stays string | Sched_dry "string list" | Sched_exec "string list"

fun schedule_parse :: "schedule_args \<Rightarrow> string list \<Rightarrow> schedule_end + schedule_args" where
  "schedule_parse a [] = Inr a"
| "schedule_parse a (x # xs) =
     (if x = ''-h'' \<or> x = ''--help'' then Inl Sched_usage
      else if x = ''--dry-run'' then schedule_parse (a\<lparr>sa_dryRun := True\<rparr>) xs
      else if x \<in> {''--from'', ''--from-token-file'', ''--to-token-file'', ''--current'', ''--hub-url''} \<and> xs \<noteq> [] then
        (case xs of
           v # ys \<Rightarrow> schedule_parse
             (if x = ''--from'' then a\<lparr>sa_fromHost := v\<rparr>
              else if x = ''--from-token-file'' then a\<lparr>sa_fromTokenFile := v\<rparr>
              else if x = ''--to-token-file'' then a\<lparr>sa_toTokenFile := v\<rparr>
              else if x = ''--current'' then a\<lparr>sa_current := v\<rparr>
              else a\<lparr>sa_hubUrl := v\<rparr>) ys
         | [] \<Rightarrow> Inr a)
      else if starts_with ''-'' x then Inl (Sched_error (''crate-hub schedule: unknown option '' @ quoted x))
      else if sa_jail a = [] then schedule_parse (a\<lparr>sa_jail := x\<rparr>) xs
      else Inl (Sched_error ''crate-hub schedule: too many positional arguments''))"

definition schedule_init :: schedule_args where
  "schedule_init = \<lparr>sa_jail = [], sa_fromHost = [], sa_fromTokenFile = [], sa_toTokenFile = [], sa_current = [],
     sa_hubUrl = ''http://localhost:9810'', sa_dryRun = False\<rparr>"

text \<open>The HTTP request to the hub is an argument: from the base address and the path to a reply.\<close>

definition scheduleSubcommand :: "(string \<Rightarrow> string \<Rightarrow> http_reply) \<Rightarrow> string list \<Rightarrow> schedule_end" where
  "scheduleSubcommand get argv =
     (case schedule_parse schedule_init argv of
        Inl e \<Rightarrow> e
      | Inr a \<Rightarrow>
        if sa_jail a = [] \<or> sa_fromHost a = [] \<or> sa_fromTokenFile a = [] \<or> sa_toTokenFile a = []
        then Sched_error ''crate-hub schedule: missing required argument; see --help''
        else case get (sa_hubUrl a) (buildLeastLoadedUrl [] (sa_current a)) of
          None \<Rightarrow> Sched_error (''crate-hub schedule: hub query failed (is '' @ sa_hubUrl a @ '' reachable?)'')
        | Some (status, body) \<Rightarrow>
          if status \<noteq> 200 then Sched_error (''crate-hub schedule: hub returned HTTP '' @ dec_int status @ '': '' @ body)
          else let target = extractTargetField body; toHost = extractHostField body in
            if target = [] \<or> toHost = [] then Sched_error (''crate-hub schedule: no candidate node (reply: '' @ body @ '')'')
            else if sa_current a \<noteq> [] \<and> target = sa_current a then Sched_stays target
            else let argv = buildMigrateArgv ''/usr/local/bin/crate'' (sa_jail a) (sa_fromHost a) toHost
                              (sa_fromTokenFile a) (sa_toTokenFile a) in
              if sa_dryRun a then Sched_dry argv else Sched_exec argv)"


section \<open>What the poller knows of a node\<close>

text \<open>
  What the polls of one node showed, with their times: whether it answered. A poll that breaks off after an
  answer shows both.
\<close>

definition answered :: "http_reply \<Rightarrow> bool" where
  "answered r \<longleftrightarrow> (case r of None \<Rightarrow> False | Some (status, _) \<Rightarrow> status = 200)"

definition poll_shows :: "NodeConfig \<Rightarrow> poll_outcome \<Rightarrow> bool list" where
  "poll_shows node out =
     (if splitHostPort (nc_host node) 9800 = None then [False]
      else case out of Poll_throws e \<Rightarrow> [False] | Poll_breaks h e \<Rightarrow> [answered h, False] | Poll_replies h c \<Rightarrow> [answered h])"

definition polls_of :: "NodeConfig list \<Rightarrow> nat \<Rightarrow> poll list \<Rightarrow> (int \<times> bool) list" where
  "polls_of nodes i ps =
     concat (map (\<lambda>(_, now, out). map (Pair now) (poll_shows (nodes ! i) out)) (filter (\<lambda>p. fst p = i) ps))"

text \<open>The status fields that the failover decision reads, as a function of the polls of the node.\<close>

fun seen_state :: "bool \<times> int \<Rightarrow> int \<times> bool \<Rightarrow> bool \<times> int" where
  "seen_state (r, d) (now, ok) = (if ok then (True, 0) else (False, if d = 0 then now else d))"

lemma pollNode_state:
  "st_name (fst (pollNode node now out s)) = st_name s"
  "now \<noteq> 0 \<Longrightarrow> (st_reachable (fst (pollNode node now out s)), st_firstDownAt (fst (pollNode node now out s))) =
     foldl seen_state (st_reachable s, st_firstDownAt s) (map (Pair now) (poll_shows node out))"
  by (auto simp: pollNode_def poll_failed_def mark_down_def host_answered_def containers_answered_def poll_shows_def answered_def
      split: option.splits poll_outcome.splits prod.splits if_splits)

lemma poll_run_snoc: "poll_run nodes (ps @ [p]) = poll_step nodes (poll_run nodes ps) p"
  by (simp add: poll_run_def)

lemma poll_run_state:
  assumes "\<forall>p \<in> set ps. fst (snd p) \<noteq> 0" "i < length nodes"
  shows "length (poll_run nodes ps) = length nodes \<and> st_name (poll_run nodes ps ! i) = nc_name (nodes ! i) \<and>
    (st_reachable (poll_run nodes ps ! i), st_firstDownAt (poll_run nodes ps ! i)) = foldl seen_state (False, 0) (polls_of nodes i ps)"
  using assms
proof (induction ps rule: rev_induct)
  case Nil
  then show ?case by (simp add: poll_run_def Poller_statuses_def polls_of_def)
next
  case (snoc p ps)
  obtain j now out where p: "p = (j, now, out)" by (cases p)
  show ?case
  proof (cases "j = i")
    case True
    have now: "now \<noteq> 0" using snoc.prems(1) p by simp
    show ?thesis using snoc now True pollNode_state(1) [of "nodes ! i" now out "poll_run nodes ps ! i"]
        pollNode_state(2) [OF now, of "nodes ! i" out "poll_run nodes ps ! i"]
      by (simp add: poll_run_snoc p poll_step_def polls_of_def)
  next
    case False
    then show ?thesis using snoc by (auto simp: poll_run_snoc p poll_step_def polls_of_def)
  qed
qed

text \<open>The node has failed every poll since one at the given time.\<close>

definition failing_since :: "int \<Rightarrow> (int \<times> bool) list \<Rightarrow> bool" where
  "failing_since t h \<longleftrightarrow> (\<exists>pre post. h = pre @ (t, False) # post \<and> (\<forall>e \<in> set post. \<not> snd e))"

definition last_ok :: "(int \<times> bool) list \<Rightarrow> bool" where
  "last_ok h \<longleftrightarrow> h \<noteq> [] \<and> snd (last h)"

lemma seen_reachable: "fst (foldl seen_state (False, 0) h) \<longleftrightarrow> last_ok h"
proof (cases h rule: rev_cases)
  case (snoc g e)
  then show ?thesis by (cases "foldl seen_state (False, 0) g"; cases e) (simp add: last_ok_def)
qed (simp add: last_ok_def)

lemma failing_since_snoc: "failing_since t (h @ [e]) \<longleftrightarrow> \<not> snd e \<and> (failing_since t h \<or> fst e = t)"
proof
  assume "failing_since t (h @ [e])"
  then obtain pre post where d: "h @ [e] = pre @ (t, False) # post" "\<forall>x \<in> set post. \<not> snd x" by (auto simp: failing_since_def)
  show "\<not> snd e \<and> (failing_since t h \<or> fst e = t)"
  proof (cases post rule: rev_cases)
    case Nil
    then show ?thesis using d by auto
  next
    case (snoc q x)
    then have "h = pre @ (t, False) # q" "e = x" using d(1) by auto
    then show ?thesis using d(2) snoc by (auto simp: failing_since_def)
  qed
next
  assume a: "\<not> snd e \<and> (failing_since t h \<or> fst e = t)"
  then consider "failing_since t h" | "e = (t, False)" by (cases e) auto
  then show "failing_since t (h @ [e])"
  proof cases
    case 1
    then obtain pre post where "h = pre @ (t, False) # post" "\<forall>x \<in> set post. \<not> snd x" by (auto simp: failing_since_def)
    then show ?thesis using a unfolding failing_since_def by (intro exI [of _ pre] exI [of _ "post @ [e]"]) auto
  next
    case 2
    then show ?thesis unfolding failing_since_def by (intro exI [of _ h] exI [of _ "[]"]) simp
  qed
qed

text \<open>The recorded time of the first failure is the earliest since which every poll failed.\<close>

lemma seen_first_down:
  assumes "\<forall>e \<in> set h. 0 < fst e" "sorted (map fst h)"
  shows "if h = [] \<or> last_ok h then snd (foldl seen_state (False, 0) h) = 0
    else failing_since (snd (foldl seen_state (False, 0) h)) h \<and> (\<forall>t. failing_since t h \<longrightarrow> snd (foldl seen_state (False, 0) h) \<le> t)
      \<and> 0 < snd (foldl seen_state (False, 0) h)"
  using assms
proof (induction h rule: rev_induct)
  case Nil
  then show ?case by simp
next
  case (snoc e h)
  obtain t ok where e: "e = (t, ok)" by (cases e)
  obtain r d where f: "foldl seen_state (False, 0) h = (r, d)" by fastforce
  have le: "\<forall>x \<in> set h. fst x \<le> t" using snoc.prems(2) e by (simp add: sorted_append)
  have in_h: "failing_since u h \<Longrightarrow> u \<le> t" for u using le by (auto simp: failing_since_def)
  show ?case
  proof (cases "h = [] \<or> last_ok h")
    case True
    then have "\<not> failing_since u h" for u
      by (auto simp: failing_since_def last_ok_def split: if_splits)
    moreover have "d = 0" using snoc True f by (simp add: sorted_append split: if_splits)
    ultimately show ?thesis using snoc.prems(1) by (auto simp: e f failing_since_snoc last_ok_def)
  next
    case False
    then have "failing_since d h" "\<forall>t. failing_since t h \<longrightarrow> d \<le> t" "0 < d" using snoc f by (auto simp: sorted_append)
    then show ?thesis using in_h by (auto simp: e f failing_since_snoc last_ok_def)
  qed
qed


section \<open>Orders and the history of the polls\<close>

lemma ha_view_fields [simp]: "hn_name (ha_view now s) = st_name s" "hn_reachable (ha_view now s) = st_reachable s"
  by (simp_all add: ha_view_def)

text \<open>Polls with a positive, non-decreasing clock and node names of their own.\<close>

definition polled :: "NodeConfig list \<Rightarrow> poll list \<Rightarrow> bool" where
  "polled nodes ps \<longleftrightarrow> (\<forall>p \<in> set ps. 0 < fst (snd p)) \<and> sorted (map (\<lambda>p. fst (snd p)) ps) \<and> distinct (map nc_name nodes)"

lemma polls_of_times:
  assumes "polled nodes ps"
  shows "\<forall>e \<in> set (polls_of nodes i ps). 0 < fst e" "sorted (map fst (polls_of nodes i ps))"
proof -
  have "(\<forall>e \<in> set (polls_of nodes i ps). 0 < fst e \<and> fst e \<in> (\<lambda>p. fst (snd p)) ` set ps) \<and> sorted (map fst (polls_of nodes i ps))"
    using assms
  proof (induction ps rule: rev_induct)
    case Nil
    then show ?case by (simp add: polls_of_def)
  next
    case (snoc p ps)
    then have IH: "\<forall>e \<in> set (polls_of nodes i ps). 0 < fst e \<and> fst e \<in> (\<lambda>p. fst (snd p)) ` set ps" "sorted (map fst (polls_of nodes i ps))"
      by (auto simp: polled_def sorted_append)
    obtain j now out where p: "p = (j, now, out)" by (cases p)
    have le: "\<forall>q \<in> set ps. fst (snd q) \<le> now" "0 < now" using snoc.prems by (auto simp: polled_def p sorted_append)
    let ?new = "if j = i then map (Pair now) (poll_shows (nodes ! i) out) else []"
    have eq: "polls_of nodes i (ps @ [p]) = polls_of nodes i ps @ ?new" by (simp add: polls_of_def p)
    have "sorted (map fst (map (Pair now) xs))" for xs :: "bool list" by (induction xs) auto
    moreover have "\<forall>e \<in> set (polls_of nodes i ps). fst e \<le> now" using IH(1) le(1) by fastforce
    ultimately show ?case unfolding eq using IH le by (auto simp: p sorted_append)
  qed
  then show "\<forall>e \<in> set (polls_of nodes i ps). 0 < fst e" "sorted (map fst (polls_of nodes i ps))" by blast+
qed

lemma find_node_view:
  assumes "polled nodes ps" "i < length nodes"
  shows "findNode (map (ha_view now) (poll_run nodes ps)) (nc_name (nodes ! i)) = Some (ha_view now (poll_run nodes ps ! i))"
proof -
  have nz: "\<forall>p \<in> set ps. fst (snd p) \<noteq> 0" using assms(1) by (auto simp: polled_def)
  have len: "length (poll_run nodes ps) = length nodes" using poll_run_state [OF nz assms(2)] by blast
  have name: "st_name (poll_run nodes ps ! k) = nc_name (nodes ! k)" if "k < length nodes" for k using poll_run_state [OF nz that] by blast
  have "nc_name (nodes ! j) \<noteq> nc_name (nodes ! i)" if "j < i" for j
    using assms that by (auto simp: polled_def distinct_conv_nth)
  then show ?thesis using assms(2) len name
    by (auto simp: findNode_def find_Some_iff intro!: exI [of _ i])
qed

lemma find_node_none:
  assumes "polled nodes ps" "n \<notin> set (map nc_name nodes)"
  shows "findNode (map (ha_view now) (poll_run nodes ps)) n = None"
proof -
  have nz: "\<forall>p \<in> set ps. fst (snd p) \<noteq> 0" using assms(1) by (auto simp: polled_def)
  have len: "length (poll_run nodes ps) = length nodes"
    by (induction ps rule: rev_induct) (auto simp: poll_run_def Poller_statuses_def poll_step_def split: prod.splits)
  have "st_name s \<in> set (map nc_name nodes)" if s: "s \<in> set (poll_run nodes ps)" for s
  proof -
    obtain i where i: "i < length nodes" "s = poll_run nodes ps ! i" using s len by (metis in_set_conv_nth)
    then show ?thesis using poll_run_state [OF nz i(1)] nth_mem [OF i(1)] by simp
  qed
  then show ?thesis using assms(2) by (auto simp: findNode_def find_None_iff)
qed

text \<open>A partner is available when its last poll found it.\<close>

definition available :: "NodeConfig list \<Rightarrow> poll list \<Rightarrow> string \<Rightarrow> bool" where
  "available nodes ps n \<longleftrightarrow> (\<exists>i < length nodes. nc_name (nodes ! i) = n \<and> last_ok (polls_of nodes i ps))"

lemma first_partner_available:
  assumes "polled nodes ps"
  shows "first_partner (map (ha_view now) (poll_run nodes ps)) partners = find (available nodes ps) partners"
proof (induction partners)
  case (Cons p partners)
  have nz: "\<forall>q \<in> set ps. fst (snd q) \<noteq> 0" using assms by (auto simp: polled_def)
  show ?case
  proof (cases "p \<in> set (map nc_name nodes)")
    case True
    then obtain i where i: "i < length nodes" "p = nc_name (nodes ! i)" by (auto simp: in_set_conv_nth)
    have "nc_name (nodes ! j) \<noteq> p" if "j < length nodes" "j \<noteq> i" for j
      using assms that i by (auto simp: polled_def distinct_conv_nth)
    then have "available nodes ps p \<longleftrightarrow> last_ok (polls_of nodes i ps)" using i by (auto simp: available_def)
    moreover have "st_reachable (poll_run nodes ps ! i) \<longleftrightarrow> last_ok (polls_of nodes i ps)"
      using poll_run_state [OF nz i(1)] seen_reachable [of "polls_of nodes i ps"] by (metis fst_conv)
    ultimately show ?thesis using Cons find_node_view [OF assms i(1), of now] i(2) by simp
  next
    case False
    then have "\<not> available nodes ps p" by (auto simp: available_def)
    then show ?thesis using Cons find_node_none [OF assms False, of now] by simp
  qed
qed simp

lemma map_map_filter: "map f (List.map_filter g xs) = List.map_filter (\<lambda>x. map_option f (g x)) xs"
  by (induction xs) (auto simp: map_filter_simps split: option.splits)

lemma map_filter_same: "(\<And>x. x \<in> set xs \<Longrightarrow> g x = h x) \<Longrightarrow> List.map_filter g xs = List.map_filter h xs"
  by (induction xs) (auto simp: map_filter_simps split: option.splits)

text \<open>A primary counts as down when every poll has failed since one at least the threshold ago.\<close>

lemma primary_down_iff:
  assumes "polled nodes ps" "i < length nodes" "0 < threshold"
  shows "(\<not> st_reachable (poll_run nodes ps ! i) \<and> threshold \<le> unreachableSeconds (ha_view now (poll_run nodes ps ! i)))
    \<longleftrightarrow> (\<exists>t. failing_since t (polls_of nodes i ps) \<and> t + threshold \<le> now)"
proof -
  let ?h = "polls_of nodes i ps"
  have nz: "\<forall>q \<in> set ps. fst (snd q) \<noteq> 0" using assms(1) by (auto simp: polled_def)
  obtain r d where f: "foldl seen_state (False, 0) ?h = (r, d)" by fastforce
  have s: "st_reachable (poll_run nodes ps ! i) = r" "st_firstDownAt (poll_run nodes ps ! i) = d"
    using poll_run_state [OF nz assms(2)] f by auto
  have r: "r \<longleftrightarrow> last_ok ?h" using seen_reachable [of ?h] f by simp
  have d: "if ?h = [] \<or> last_ok ?h then d = 0 else failing_since d ?h \<and> (\<forall>t. failing_since t ?h \<longrightarrow> d \<le> t) \<and> 0 < d"
    using seen_first_down [OF polls_of_times [OF assms(1), of i]] unfolding f snd_conv .
  have no: "\<not> failing_since t ?h" if "?h = [] \<or> last_ok ?h" for t
    using that by (auto simp: failing_since_def last_ok_def split: if_splits)
  show ?thesis
  proof (cases "?h = [] \<or> last_ok ?h")
    case True
    then show ?thesis using d no s r assms(3) by (auto simp: ha_view_def)
  next
    case False
    then show ?thesis using d s r by (auto simp: ha_view_def)
  qed
qed



definition sample_nodes :: "NodeConfig list" where
  "sample_nodes = [\<lparr>nc_name = ''alpha'', nc_host = ''alpha.example.com:9800'', nc_datacenter = []\<rparr>,
     \<lparr>nc_name = ''beta'', nc_host = ''beta.example.com'', nc_datacenter = []\<rparr>,
     \<lparr>nc_name = ''gamma'', nc_host = ''gamma.example.com'', nc_datacenter = []\<rparr>]"

definition sample_polls :: "poll list" where
  "sample_polls = [(0, 1000, Poll_replies (Some (200, [])) None), (1, 1001, Poll_replies None None),
     (2, 1002, Poll_replies (Some (200, [])) None), (0, 1015, Poll_replies None None), (0, 1080, Poll_throws ''timeout'')]"

definition sample_spec :: HaSpec where
  "sample_spec = \<lparr>containerName = ''web'', primaryNode = ''alpha'', partnerNodes = [''beta'', ''gamma'']\<rparr>"


text \<open>
  With a threshold of zero or less, which the configuration reader accepts, a node that was never polled counts
  as down: right after the start the hub orders failovers from every node it has not reached yet.
\<close>

lemma zero_threshold_orders_unpolled:
  assumes "polled nodes ps" "threshold \<le> 0" "i < length nodes" "primaryNode s = nc_name (nodes ! i)" "polls_of nodes i ps = []"
    and "find (available nodes ps) (partnerNodes s) = Some p"
  shows "(containerName s, primaryNode s, p) \<in> (\<lambda>m. (mo_container m, fromNode m, toNode m)) ` set (ha_orders [s] threshold now (poll_run nodes ps))"
proof -
  have nz: "\<forall>q \<in> set ps. fst (snd q) \<noteq> 0" using assms(1) by (auto simp: polled_def)
  have "\<not> st_reachable (poll_run nodes ps ! i)" "st_firstDownAt (poll_run nodes ps ! i) = 0"
    using poll_run_state [OF nz assms(3)] assms(5) by auto
  then have "unreachableSeconds (ha_view now (poll_run nodes ps ! i)) = 0" "\<not> hn_reachable (ha_view now (poll_run nodes ps ! i))"
    by (simp_all add: ha_view_def)
  then show ?thesis using assms(2,4,6) find_node_view [OF assms(1,3), of now]
    by (simp add: ha_orders_def evaluateFailoverOrders_def map_filter_simps failover_order_def first_partner_available [OF assms(1)])
qed


section \<open>Counting what a node reports\<close>

text \<open>
  The hub counts the containers of a node correctly. When a node answers both requests, and reports any
  list of objects (nested values, any strings, blanks after commas and colons) in one of the three
  shapes the hub knows, the poll keeps exactly the array, marks the node reachable and the list fresh, stores the
  sample, and the summaries count one container per object.
\<close>

theorem poll_counts_containers:
  assumes sp: "list_all json_ws sp" and objs: "\<forall>fs \<in> set os. jval_ok (JObj fs)"
    and arr: "arr = jtext sp (JArr (map JObj os))"
    and body: "body \<in> {arr, array_reply arr, libxo_reply sp arr}"
    and host: "splitHostPort (nc_host node) 9800 \<noteq> None"
    and poll: "pollNode node now (Poll_replies (Some (200, info)) (Some (200, body))) s = (s', sample)"
  shows "st_containers s' = arr \<and> st_reachable s' \<and> \<not> st_stale s' \<and> st_firstDownAt s' = 0
    \<and> an_count (agg_view s') = of_nat (length os) \<and> sn_count (sched_view s') = of_nat (length os)
    \<and> sample = Some (nc_name node, info, arr)"
proof -
  have "list_all jval_ok (map JObj os)" using objs by (auto simp: list_all_iff)
  from extract_replies [OF sp this] body have e: "extractContainerArray body = arr" by (auto simp: arr)
  have c: "countTopLevelObjects arr = of_nat (length os)" unfolding arr by (rule count_array [OF sp objs])
  show ?thesis using poll host e c
    by (auto simp: pollNode_def host_answered_def containers_answered_def agg_view_def sched_view_def split: option.splits)
qed

theorem poll_counts_containers_witness:
  "\<exists>s' sample. pollNode \<lparr>nc_name = ''alpha'', nc_host = ''alpha:9800'', nc_datacenter = []\<rparr> 5
      (Poll_replies (Some (200, [])) (Some (200, libxo_reply '' '' (jtext '' '' (JArr (map JObj [[(''name'', JStr ''we,b'')], [(''jid'', JAtom ''7'')]])))))) (Poller_statuses
        [\<lparr>nc_name = ''alpha'', nc_host = ''alpha:9800'', nc_datacenter = []\<rparr>] ! 0) = (s', sample)
    \<and> an_count (agg_view s') = 2"
proof -
  let ?node = "\<lparr>nc_name = ''alpha'', nc_host = ''alpha:9800'', nc_datacenter = []\<rparr>"
  let ?os = "[[(''name'', JStr ''we,b'')], [(''jid'', JAtom ''7'')]]"
  let ?arr = "jtext '' '' (JArr (map JObj ?os))"
  have a: "list_all json_ws '' ''" "\<forall>fs \<in> set ?os. jval_ok (JObj fs)" "splitHostPort (nc_host ?node) 9800 \<noteq> None" by code_simp+
  obtain s' sample where p: "pollNode ?node 5 (Poll_replies (Some (200, [])) (Some (200, libxo_reply '' '' ?arr)))
      (Poller_statuses [?node] ! 0) = (s', sample)" by fastforce
  have "libxo_reply '' '' ?arr \<in> {?arr, array_reply ?arr, libxo_reply '' '' ?arr}" by blast
  from poll_counts_containers [OF a(1,2) refl this a(3) p] have "an_count (agg_view s') = 2" by simp
  then show ?thesis using p by blast
qed

end
