(* ===== verification/Replication.thy ===== *)
theory Replication
  imports SnapshotName ControlSocket
begin

text \<open>
  The commands that move ZFS state: \<^verbatim>\<open>crate backup\<close> (\<^verbatim>\<open>lib/backup.cpp\<close>), \<^verbatim>\<open>crate replicate\<close>
  (\<^verbatim>\<open>lib/replicate.cpp\<close>, \<^verbatim>\<open>lib/replicate_pure.cpp\<close>), \<^verbatim>\<open>crate template warm\<close> (\<^verbatim>\<open>lib/warm.cpp\<close>,
  \<^verbatim>\<open>lib/warm_pure.cpp\<close>) and the readers of \<^verbatim>\<open>zfs list\<close> output they share (\<^verbatim>\<open>lib/zfs_dataset_pure.cpp\<close>,
  \<^verbatim>\<open>lib/zfs_dataset.cpp\<close>). A command is a sequence of actions on a host whose answers are arguments; what zfs(8)
  documents about its subcommands is the predicate \<^verbatim>\<open>zfs_host\<close>.
\<close>

section \<open>Listings\<close>

definition blank_end :: "char \<Rightarrow> bool" where
  "blank_end c \<longleftrightarrow> c = CHR 0x0D \<or> c = CHR '' '' \<or> c = CHR 0x09"

definition strip_end :: "string \<Rightarrow> string" where
  "strip_end s = rev (dropWhile blank_end (rev s))"

definition suffix_of_line :: "string \<Rightarrow> string \<Rightarrow> string \<Rightarrow> string option" where
  "suffix_of_line dataset pfx raw =
     (let l = strip_end raw; suffix = drop (length dataset + 1) l in
      if l = [] \<or> hd l = CHR ''#'' then None
      else if \<not> starts_with (dataset @ ''@'' @ pfx) l then None
      else if length suffix \<le> length pfx then None
      else if CHR ''/'' \<in> set suffix \<or> CHR ''@'' \<in> set suffix then None
      else Some suffix)"

definition snapshotSuffixes :: "string \<Rightarrow> string \<Rightarrow> string \<Rightarrow> string list" where
  "snapshotSuffixes out dataset pfx =
     (if dataset = [] then [] else List.map_filter (suffix_of_line dataset pfx) (getlines out))"

definition pickLatestSuffix :: "string \<Rightarrow> string \<Rightarrow> string \<Rightarrow> string" where
  "pickLatestSuffix out dataset pfx = foldl (\<lambda>best s. if s > best then s else best) [] (snapshotSuffixes out dataset pfx)"

definition common_step :: "string list \<Rightarrow> string \<Rightarrow> string \<times> string \<Rightarrow> string \<Rightarrow> string \<times> string" where
  "common_step remote pfx best s =
     (if s \<notin> set remote then best
      else let body = drop (length pfx) s in if body > snd best then (s, body) else best)"

definition pickLatestCommonSuffix :: "string \<Rightarrow> string \<Rightarrow> string \<Rightarrow> string \<Rightarrow> string list \<Rightarrow> string" where
  "pickLatestCommonSuffix localOut localDataset remoteOut remoteDataset prefixes =
     fst (foldl (\<lambda>best pfx. if pfx = [] then best
       else foldl (common_step (snapshotSuffixes remoteOut remoteDataset pfx) pfx) best
              (snapshotSuffixes localOut localDataset pfx)) ([], []) prefixes)"

definition listSnapshotsArgv :: "string \<Rightarrow> string list" where
  "listSnapshotsArgv dataset =
     [''/sbin/zfs'', ''list'', ''-H'', ''-t'', ''snapshot'', ''-o'', ''name'', ''-d'', ''1'', dataset]"

section \<open>Commands on a host\<close>

datatype zact = Exec "string list" | Pipe "string list list" string | Unlink string

text \<open>
  What a command reads before it acts: jails by name, the dataset a path is on (\<^verbatim>\<open>statfs\<close>), the output of a
  command or its failure, and the time.
\<close>

record zenv =
  ze_jails :: jail_view
  ze_dataset :: "string \<Rightarrow> string option"
  ze_output :: "string list \<Rightarrow> string option"
  ze_now :: int

definition emdash :: string where "emdash = [CHR 0xE2, CHR 0x80, CHR 0x94]"

definition datasetForJail :: "zenv \<Rightarrow> string \<Rightarrow> string \<Rightarrow> string res" where
  "datasetForJail env name ctx =
     (let op = (if ctx = [] then ''operation'' else ctx) in
      case jv_byName (ze_jails env) name of
        None \<Rightarrow> Inl (''jail '' @ quoted name @ '' not found or not running ('' @ op @ '' requires a running jail)'')
      | Some j \<Rightarrow>
        (case ze_dataset env (ji_path j) of
           None \<Rightarrow> Inl (''jail '' @ quoted name @ '' is not on ZFS '' @ emdash @ '' '' @ op @ '' requires ZFS'')
         | Some ds \<Rightarrow> Inr ds))"

definition listSnapshots :: "zenv \<Rightarrow> string \<Rightarrow> string" where
  "listSnapshots env dataset = (case ze_output env (listSnapshotsArgv dataset) of None \<Rightarrow> [] | Some out \<Rightarrow> out)"

definition findLatestBackupSuffix :: "zenv \<Rightarrow> string \<Rightarrow> string" where
  "findLatestBackupSuffix env dataset = pickLatestSuffix (listSnapshots env dataset) dataset ''backup-''"

section \<open>Backup\<close>

record backup_args =
  ba_target :: string
  ba_dir :: string
  ba_since :: string
  ba_auto :: bool

text \<open>The dataset and the base of the stream, empty for a full one.\<close>

definition backup_prepare :: "zenv \<Rightarrow> backup_args \<Rightarrow> (string \<times> string) res" where
  "backup_prepare env a =
     (let e = check_err (backup_validateJailName (ba_target a)) (check_err (validateOutputDir (ba_dir a))
                (if ba_since a \<noteq> [] then validateSinceName (ba_since a) else [])) in
      if e \<noteq> [] then Inl e
      else bind_res (datasetForJail env (ba_target a) ''backup'') (\<lambda>dataset.
        let since = (ba_since a \<noteq> []);
            prev = (if \<not> since \<and> ba_auto a then findLatestBackupSuffix env dataset else []) in
        case choosePlan since (ba_since a) (prev \<noteq> []) prev (ba_auto a) of
          PlanError reason \<Rightarrow> Inl reason
        | IncrementalBackup prior \<Rightarrow> Inr (dataset, prior)
        | FullBackup \<Rightarrow> Inr (dataset, [])))"

text \<open>
  \<^verbatim>\<open>ok\<close> says whether the last action of a trace succeeds. The result is the new trace, and the reason of a failure:
  that of the checks, or the description of the command that failed.
\<close>

definition backupCrate :: "zenv \<Rightarrow> (zact list \<Rightarrow> bool) \<Rightarrow> backup_args \<Rightarrow> zact list \<Rightarrow> zact list \<times> err option" where
  "backupCrate env ok a tr =
     (case backup_prepare env a of
        Inl e \<Rightarrow> (tr, Some e)
      | Inr (dataset, prior) \<Rightarrow>
        let suffix = snapshotSuffix (ze_now env);
            tr1 = tr @ [Exec (buildSnapshotArgv dataset suffix)];
            streamFile = ba_dir a @ ''/'' @ streamFilename (ba_target a) suffix prior;
            tr2 = tr1 @ [Pipe [buildSendArgv dataset suffix prior] streamFile] in
        if \<not> ok tr1 then (tr1, Some ''zfs snapshot'')
        else if ok tr2 then (tr2, None)
        else (tr2 @ [Exec (buildDestroySnapshotArgv dataset suffix), Unlink streamFile], Some ''zfs send to file''))"

section \<open>Replication over ssh\<close>

record SshSpec =
  ssh_user :: string
  ssh_host :: string
  ssh_port :: nat
  ssh_identityFile :: string
  ssh_configFile :: string
  ssh_extraOpts :: "string list"

definition ssh_metachar :: "string \<Rightarrow> bool" where
  "ssh_metachar s \<longleftrightarrow> list_ex (\<lambda>c. c \<in>
     {CHR 0x27, CHR 0x22, CHR '';'', CHR 0x60, CHR 0x24, CHR ''|'', CHR ''&'', CHR ''<'', CHR ''>'', CHR 0x5C,
      CHR 0x0A, CHR 0x0D, CHR 0x09}) s"

definition isValidUser :: "string \<Rightarrow> bool" where
  "isValidUser u \<longleftrightarrow> \<not> (u = [] \<or> length u > 32) \<and> list_all stack_name_char u"

text \<open>The user and the host of \<^verbatim>\<open>user@host\<close>.\<close>

definition parseSshRemote :: "string \<Rightarrow> (string \<times> string) res" where
  "parseSshRemote remote =
     (let e = fail_if (remote = []) ''ssh remote is empty''
                (fail_if (length remote > 256) ''ssh remote longer than 256 chars''
                (fail_if (ssh_metachar remote) ''ssh remote contains shell metacharacters'' [])) in
      if e \<noteq> [] then Inl e
      else let (has, user, host) = (case cut_at (CHR ''@'') remote of None \<Rightarrow> (False, [], remote) | Some (u, h) \<Rightarrow> (True, u, h)) in
        if has \<and> \<not> isValidUser user then Inl ''ssh remote user contains invalid characters''
        else if host = [] then Inl ''ssh remote host is empty''
        else if looksLikeV4Shape host then
          (if \<not> isV4 host then Inl ''ssh remote host looks like IPv4 but has invalid octets'' else Inr (user, host))
        else if \<not> isHostname host then Inl ''ssh remote host is neither IPv4 nor a valid hostname''
        else Inr (user, host))"

text \<open>\<^verbatim>\<open>char\<close> is signed on the machines crate is built for, so a byte from 0x80 on is below 0x20 as well.\<close>

fun ssh_opt_chars :: "string \<Rightarrow> err" where
  "ssh_opt_chars [] = []"
| "ssh_opt_chars (c # cs) =
     (if (of_char c :: nat) < 0x20 \<or> (of_char c :: nat) \<ge> 0x80 \<or> c = CHR 0x7F then ''ssh-opt VALUE contains a control character''
      else if c = CHR '' '' \<or> c = CHR 0x09 then ''ssh-opt VALUE contains whitespace''
      else ssh_opt_chars cs)"

definition validateSshOpt :: "string \<Rightarrow> err" where
  "validateSshOpt kv =
     fail_if (kv = []) ''ssh-opt is empty''
     (fail_if (length kv > 256) ''ssh-opt longer than 256 chars''
     (case cut_at (CHR ''='') kv of
        None \<Rightarrow> ''ssh-opt must be KEY=VALUE''
      | Some (key, val) \<Rightarrow>
        fail_if (key = []) ''ssh-opt KEY is empty''
        (fail_if (length key > 64) ''ssh-opt KEY longer than 64 chars''
        (fail_if (\<not> list_all is_alnum key) ''ssh-opt KEY must be alphanumeric''
        (check_err (ssh_opt_chars val)
        (fail_if (ssh_metachar val) ''ssh-opt VALUE contains shell metacharacters'' []))))))"

definition validateSshKey :: "string \<Rightarrow> err" where
  "validateSshKey path =
     fail_if (path = []) ''ssh-key path is empty''
     (fail_if (length path > 1024) ''ssh-key path longer than 1024 chars''
     (fail_if (hd path \<noteq> CHR ''/'') ''ssh-key path must be absolute''
     (fail_if (hasDotDotSegment path) (''ssh-key path must not contain '' @ quoted ''..'' @ '' segments'')
     (fail_if (ssh_metachar path) ''ssh-key path contains shell metacharacters'' []))))"

text \<open>The checks of a dataset name, the same for replication targets and warm templates up to the wording.\<close>

definition dataset_char :: "char \<Rightarrow> bool" where
  "dataset_char c \<longleftrightarrow> stack_name_char c \<or> c = CHR ''/''"

definition dotted_segment :: "string \<Rightarrow> bool" where
  "dotted_segment ds \<longleftrightarrow> list_ex (\<lambda>seg. seg = ''.'' \<or> seg = ''..'') (split_on (CHR ''/'') ds)"

definition check_dataset :: "string \<Rightarrow> string \<Rightarrow> err" where
  "check_dataset what ds =
     fail_if (ds = []) (what @ '' is empty'')
     (fail_if (length ds > 256) (what @ '' longer than 256 chars'')
     (fail_if (hd ds = CHR ''/'' \<or> last ds = CHR ''/'') (what @ '' must not start or end with '' @ quoted ''/'')
     (fail_if (cut_first ''//'' ds \<noteq> None) (what @ '' must not contain empty path segments'')
     (check_err (bad_char dataset_char what ds)
     (fail_if (dotted_segment ds) (what @ '' must not contain '' @ quoted ''.'' @ '' or '' @ quoted ''..'' @ '' segments'') [])))))"

definition validateDestDataset :: "string \<Rightarrow> err" where
  "validateDestDataset ds = check_dataset ''destination dataset'' ds"

definition buildSshArgv :: "SshSpec \<Rightarrow> string \<Rightarrow> string list" where
  "buildSshArgv ssh remoteCommand =
     [''/usr/bin/ssh'', ''-o'', ''BatchMode=yes'', ''-o'', ''ServerAliveInterval=30''] @
     (if ssh_port ssh \<noteq> 0 then [''-p'', dec (ssh_port ssh)] else []) @
     (if ssh_identityFile ssh \<noteq> [] then [''-i'', ssh_identityFile ssh] else []) @
     (if ssh_configFile ssh \<noteq> [] then [''-F'', ssh_configFile ssh] else []) @
     concat (map (\<lambda>opt. [''-o'', opt]) (ssh_extraOpts ssh)) @
     [if ssh_user ssh \<noteq> [] then ssh_user ssh @ ''@'' @ ssh_host ssh else ssh_host ssh, remoteCommand]"

definition buildRemoteRecvCommand :: "string \<Rightarrow> string" where
  "buildRemoteRecvCommand destDataset = ''zfs recv '' @ destDataset"

definition buildRemoteListSnapshotsCommand :: "string \<Rightarrow> string" where
  "buildRemoteListSnapshotsCommand destDataset = ''zfs list -H -t snapshot -o name -d 1 '' @ destDataset"

record ReplicateRequest =
  rr_sourceDataset :: string
  rr_currSuffix :: string
  rr_prevSuffix :: string
  rr_destDataset :: string
  rr_ssh :: SshSpec

definition buildReplicationPipeline :: "ReplicateRequest \<Rightarrow> string list list" where
  "buildReplicationPipeline r =
     [buildSendArgv (rr_sourceDataset r) (rr_currSuffix r) (rr_prevSuffix r),
      buildSshArgv (rr_ssh r) (buildRemoteRecvCommand (rr_destDataset r))]"

record replicate_args =
  ra_target :: string
  ra_to :: string
  ra_dest :: string
  ra_key :: string
  ra_config :: string
  ra_opts :: "string list"
  ra_port :: nat
  ra_since :: string
  ra_auto :: bool

fun check_opts :: "string list \<Rightarrow> err" where
  "check_opts [] = []"
| "check_opts (kv # kvs) = check_pfx (''--ssh-opt '' @ quoted kv @ '': '') (validateSshOpt kv) (check_opts kvs)"

definition replicate_checks :: "replicate_args \<Rightarrow> err" where
  "replicate_checks a =
     check_err (backup_validateJailName (ra_target a))
     (check_pfx ''--to: '' (case parseSshRemote (ra_to a) of Inl e \<Rightarrow> e | Inr _ \<Rightarrow> [])
     (check_pfx ''--dest-dataset: '' (validateDestDataset (ra_dest a))
     (check_pfx ''--ssh-key: '' (if ra_key a \<noteq> [] then validateSshKey (ra_key a) else [])
     (check_pfx ''--ssh-config: '' (if ra_config a \<noteq> [] then validateSshKey (ra_config a) else [])
     (check_err (check_opts (ra_opts a))
     (check_pfx ''--since: '' (if ra_since a \<noteq> [] then validateSinceName (ra_since a) else []) []))))))"

definition replicate_base :: "zenv \<Rightarrow> replicate_args \<Rightarrow> string \<Rightarrow> SshSpec \<Rightarrow> string" where
  "replicate_base env a dataset ssh =
     (if ra_since a \<noteq> [] \<or> \<not> ra_auto a then []
      else let localOut = listSnapshots env dataset;
               remoteOut = (case ze_output env (buildSshArgv ssh (buildRemoteListSnapshotsCommand (ra_dest a))) of
                              None \<Rightarrow> [] | Some out \<Rightarrow> out) in
        pickLatestCommonSuffix localOut dataset remoteOut (ra_dest a) [kReplPrefix, kBackupPrefix])"

definition replicate_prepare :: "zenv \<Rightarrow> replicate_args \<Rightarrow> ReplicateRequest res" where
  "replicate_prepare env a =
     (if replicate_checks a \<noteq> [] then Inl (replicate_checks a)
      else bind_res (datasetForJail env (ra_target a) ''replicate'') (\<lambda>dataset.
        case parseSshRemote (ra_to a) of
          Inl e \<Rightarrow> Inl (''--to: '' @ e)
        | Inr (user, host) \<Rightarrow>
          let ssh = \<lparr>ssh_user = user, ssh_host = host, ssh_port = ra_port a, ssh_identityFile = ra_key a,
                     ssh_configFile = ra_config a, ssh_extraOpts = ra_opts a\<rparr>;
              common = replicate_base env a dataset ssh;
              req = \<lparr>rr_sourceDataset = dataset, rr_currSuffix = snapshotSuffixWithPrefix kReplPrefix (ze_now env),
                     rr_prevSuffix = [], rr_destDataset = ra_dest a, rr_ssh = ssh\<rparr> in
          (case choosePlan (ra_since a \<noteq> []) (ra_since a) (common \<noteq> []) common (ra_auto a) of
            PlanError reason \<Rightarrow> Inl reason
          | IncrementalBackup prior \<Rightarrow> Inr (req\<lparr>rr_prevSuffix := prior\<rparr>)
          | FullBackup \<Rightarrow> Inr req)))"

definition replicateCrate :: "zenv \<Rightarrow> (zact list \<Rightarrow> bool) \<Rightarrow> replicate_args \<Rightarrow> zact list \<Rightarrow> zact list \<times> err option" where
  "replicateCrate env ok a tr =
     (case replicate_prepare env a of
        Inl e \<Rightarrow> (tr, Some e)
      | Inr req \<Rightarrow>
        let tr1 = tr @ [Exec (buildSnapshotArgv (rr_sourceDataset req) (rr_currSuffix req))];
            tr2 = tr1 @ [Pipe (buildReplicationPipeline req) []] in
        if \<not> ok tr1 then (tr1, Some ''zfs snapshot'')
        else if ok tr2 then (tr2, None)
        else (tr2 @ [Exec (buildDestroySnapshotArgv (rr_sourceDataset req) (rr_currSuffix req))],
              Some ''zfs send | ssh ... zfs recv''))"

section \<open>Warm templates\<close>

definition validateTemplateDataset :: "string \<Rightarrow> err" where
  "validateTemplateDataset ds = check_dataset ''template dataset'' ds"

fun suffix_chars :: "string \<Rightarrow> err" where
  "suffix_chars [] = []"
| "suffix_chars (c # cs) =
     (if c = CHR ''@'' then ''snapshot suffix must not contain '' @ quoted ''@''
      else if c = CHR ''/'' then ''snapshot suffix must not contain '' @ quoted ''/''
      else if \<not> (stack_name_char c \<or> c = CHR '':'' \<or> c = CHR ''T'' \<or> c = CHR ''+'')
        then ''invalid character '' @ quoted [c] @ '' in snapshot suffix''
      else suffix_chars cs)"

definition validateSnapshotSuffix :: "string \<Rightarrow> err" where
  "validateSnapshotSuffix suffix =
     fail_if (suffix = []) ''snapshot suffix is empty''
     (fail_if (length suffix > 64) ''snapshot suffix longer than 64 chars'' (suffix_chars suffix))"

definition warmSnapshotSuffix :: "int \<Rightarrow> string" where
  "warmSnapshotSuffix epoch = ''warm-'' @ utc_stamp (gmtime epoch)"

definition warmRunSnapshotSuffix :: "int \<Rightarrow> string" where
  "warmRunSnapshotSuffix epoch = ''warmrun-'' @ utc_stamp (gmtime epoch)"

definition warmRunCloneName :: "string \<Rightarrow> string \<Rightarrow> string \<Rightarrow> string" where
  "warmRunCloneName parentDataset jailName hexId = parentDataset @ ''/jail-'' @ jailName @ ''-'' @ hexId"

definition warm_validateJailName :: "string \<Rightarrow> err" where
  "warm_validateJailName name =
     fail_if (name = []) ''jail name is empty''
     (fail_if (length name > kJailName) (''jail name longer than '' @ dec kJailName @ '' chars'')
     (fail_if (name = ''.'' \<or> name = ''..'') ''jail name is reserved'' (bad_char stack_name_char ''jail name'' name)))"

definition warm_snapshotArgv :: "string \<Rightarrow> string \<Rightarrow> string list" where
  "warm_snapshotArgv sourceDataset suffix = [''/sbin/zfs'', ''snapshot'', sourceDataset @ ''@'' @ suffix]"

definition buildCloneArgv :: "string \<Rightarrow> string \<Rightarrow> string \<Rightarrow> string list" where
  "buildCloneArgv sourceDataset suffix templateDataset =
     [''/sbin/zfs'', ''clone'', sourceDataset @ ''@'' @ suffix, templateDataset]"

definition buildPromoteArgv :: "string \<Rightarrow> string list" where
  "buildPromoteArgv templateDataset = [''/sbin/zfs'', ''promote'', templateDataset]"

record warm_args =
  wa_target :: string
  wa_output :: string
  wa_promote :: bool

definition warm_prepare :: "zenv \<Rightarrow> warm_args \<Rightarrow> string res" where
  "warm_prepare env a =
     (let e = fail_if (wa_target a = []) (''the '' @ quoted ''template warm'' @ '' command requires a jail name (positional arg)'')
                (fail_if (wa_output a = []) (''the '' @ quoted ''template warm'' @ '' command requires --output <dataset>'')
                (check_pfx ''--output: '' (validateTemplateDataset (wa_output a)) [])) in
      if e \<noteq> [] then Inl e
      else case fst (findContainer (ze_jails env) (wa_target a)) of
        None \<Rightarrow> Inl (''jail '' @ quoted (wa_target a) @ '' not found or not running'')
      | Some j \<Rightarrow>
        (case ze_dataset env (ji_path j) of
           None \<Rightarrow> Inl (''jail '' @ quoted (wa_target a) @ '' is not on ZFS '' @ emdash @ '' warm templates require ZFS'')
         | Some ds \<Rightarrow> Inr ds))"

definition templateWarmCommand :: "zenv \<Rightarrow> (zact list \<Rightarrow> bool) \<Rightarrow> warm_args \<Rightarrow> zact list \<Rightarrow> zact list \<times> err option" where
  "templateWarmCommand env ok a tr =
     (case warm_prepare env a of
        Inl e \<Rightarrow> (tr, Some e)
      | Inr dataset \<Rightarrow>
        let suffix = warmSnapshotSuffix (ze_now env);
            tr1 = tr @ [Exec (warm_snapshotArgv dataset suffix)];
            tr2 = tr1 @ [Exec (buildCloneArgv dataset suffix (wa_output a))];
            tr3 = tr2 @ [Exec (buildPromoteArgv (wa_output a))] in
        if \<not> ok tr1 then (tr1, Some ''zfs snapshot'')
        else if \<not> ok tr2 then (tr2 @ [Exec [''/sbin/zfs'', ''destroy'', dataset @ ''@'' @ suffix]], Some ''zfs clone'')
        else if \<not> wa_promote a then (tr2, None)
        else if \<not> ok tr3 then (tr3, Some ''zfs promote'')
        else (tr3, None))"


section \<open>Choosing a base\<close>

lemma suffix_of_line_Some:
  "suffix_of_line dataset pfx raw = Some s \<longleftrightarrow>
     strip_end raw = dataset @ ''@'' @ s \<and> hd (strip_end raw) \<noteq> CHR ''#'' \<and> starts_with pfx s \<and> length s > length pfx \<and>
     CHR ''/'' \<notin> set s \<and> CHR ''@'' \<notin> set s"
proof -
  have "starts_with (dataset @ ''@'' @ pfx) l \<longleftrightarrow> (\<exists>s. l = dataset @ ''@'' @ s \<and> starts_with pfx s)" for l
    by (auto simp: starts_with_iff)
  then show ?thesis by (auto simp: suffix_of_line_def Let_def)
qed

lemma snapshotSuffixes_mem:
  "s \<in> set (snapshotSuffixes out dataset pfx) \<longleftrightarrow>
     dataset \<noteq> [] \<and> (\<exists>raw\<in>set (getlines out). suffix_of_line dataset pfx raw = Some s)"
  by (auto simp: snapshotSuffixes_def List.map_filter_def image_iff)

lemma max_fold:
  fixes b :: string
  shows "foldl (\<lambda>best s. if s > best then s else best) b xs \<in> insert b (set xs)"
    "b \<le> foldl (\<lambda>best s. if s > best then s else best) b xs"
    "x \<in> set xs \<Longrightarrow> x \<le> foldl (\<lambda>best s. if s > best then s else best) b xs"
proof (induction xs arbitrary: b)
  case (Cons a xs)
  { case 1 show ?case using Cons.IH(1) [of "if a > b then a else b"] by (auto split: if_splits) }
  { case 2 show ?case using Cons.IH(2) [of "if a > b then a else b"] by (auto split: if_splits) }
  { case 3 then show ?case using Cons.IH(2,3) [of "if a > b then a else b"] by (auto split: if_splits) }
qed simp_all

lemma pickLatest_correct:
  "pickLatestSuffix out dataset pfx = [] \<or> pickLatestSuffix out dataset pfx \<in> set (snapshotSuffixes out dataset pfx)"
  "s \<in> set (snapshotSuffixes out dataset pfx) \<Longrightarrow> s \<le> pickLatestSuffix out dataset pfx"
  using max_fold(1) [of "[]" "snapshotSuffixes out dataset pfx"] max_fold(3) [of s "snapshotSuffixes out dataset pfx" "[]"]
  by (auto simp: pickLatestSuffix_def)

lemma common_fold:
  shows "foldl (common_step remote pfx) b xs = b \<or>
      (\<exists>s\<in>set xs. s \<in> set remote \<and> foldl (common_step remote pfx) b xs = (s, drop (length pfx) s))"
    "snd b \<le> snd (foldl (common_step remote pfx) b xs)"
    "x \<in> set xs \<Longrightarrow> x \<in> set remote \<Longrightarrow> drop (length pfx) x \<le> snd (foldl (common_step remote pfx) b xs)"
proof (induction xs arbitrary: b)
  case (Cons a xs)
  { case 1 show ?case using Cons.IH(1) [of "common_step remote pfx b a"] by (auto simp: common_step_def Let_def) }
  { case 2 show ?case using Cons.IH(2) [of "common_step remote pfx b a"] by (auto simp: common_step_def Let_def split: if_splits) }
  { case 3 then show ?case using Cons.IH(2,3) [of "common_step remote pfx b a"] by (auto simp: common_step_def Let_def split: if_splits) }
qed simp_all


definition both_sides :: "string \<Rightarrow> string \<Rightarrow> string \<Rightarrow> string \<Rightarrow> string \<Rightarrow> string set" where
  "both_sides lo ld ro rd pfx = set (snapshotSuffixes lo ld pfx) \<inter> set (snapshotSuffixes ro rd pfx)"

lemma common_prefixes:
  fixes lo ld ro rd :: string
  defines "f \<equiv> \<lambda>best pfx. if pfx = [] then best
    else foldl (common_step (snapshotSuffixes ro rd pfx) pfx) best (snapshotSuffixes lo ld pfx)"
  shows "foldl f b ps = b \<or> (\<exists>p\<in>set ps. \<exists>s\<in>both_sides lo ld ro rd p. p \<noteq> [] \<and> foldl f b ps = (s, drop (length p) s))"
    "snd b \<le> snd (foldl f b ps)"
    "p \<in> set ps \<Longrightarrow> p \<noteq> [] \<Longrightarrow> s \<in> both_sides lo ld ro rd p \<Longrightarrow> drop (length p) s \<le> snd (foldl f b ps)"
proof (induction ps arbitrary: b)
  case (Cons q ps)
  have c: "f b q = b \<or> (\<exists>s\<in>both_sides lo ld ro rd q. q \<noteq> [] \<and> f b q = (s, drop (length q) s))" "snd b \<le> snd (f b q)"
    "q \<noteq> [] \<Longrightarrow> s \<in> both_sides lo ld ro rd q \<Longrightarrow> drop (length q) s \<le> snd (f b q)" for b s
    using common_fold [where remote = "snapshotSuffixes ro rd q" and pfx = q and b = b and xs = "snapshotSuffixes lo ld q"]
    by (auto simp: f_def both_sides_def)
  { case 1 show ?case using Cons.IH(1) [of "f b q"] c(1) [of b] by fastforce }
  { case 2 show ?case using Cons.IH(2) [of "f b q"] c(2) [of b] by simp }
  { case 3 then show ?case using Cons.IH(2,3) [of "f b q"] c(3) [of s b] by auto }
qed simp_all

lemma common_correct:
  fixes lo ld ro rd ps
  defines "r \<equiv> pickLatestCommonSuffix lo ld ro rd ps"
  shows "r = [] \<or> (\<exists>p\<in>set ps. p \<noteq> [] \<and> r \<in> both_sides lo ld ro rd p \<and>
      (\<forall>q\<in>set ps. \<forall>s\<in>both_sides lo ld ro rd q. q \<noteq> [] \<longrightarrow> drop (length q) s \<le> drop (length p) r))"
proof -
  define m where "m = foldl (\<lambda>best pfx. if pfx = [] then best
    else foldl (common_step (snapshotSuffixes ro rd pfx) pfx) best (snapshotSuffixes lo ld pfx)) ([], []) ps"
  have r: "r = fst m" by (simp add: r_def pickLatestCommonSuffix_def m_def)
  note c = common_prefixes [where b = "([], [])" and lo = lo and ld = ld and ro = ro and rd = rd and ps = ps, folded m_def]
  show ?thesis using c(1,3) by (auto simp: r)
qed

text \<open>
  The base of an automatic incremental replication is on both sides: the listing of the local dataset and the
  listing of the remote one each have a line that names it, and no snapshot that both listings share carries a
  later time. So a base that the remote does not have, such as a file backup taken between two replications, is
  never used; without a common snapshot the stream is full.
\<close>

theorem replicate_base_on_both_sides:
  assumes "replicate_prepare env a = Inr req" "ra_since a = []"
  defines "lo \<equiv> listSnapshots env (rr_sourceDataset req)"
    and "ro \<equiv> (case ze_output env (buildSshArgv (rr_ssh req) (buildRemoteListSnapshotsCommand (rr_destDataset req))) of
                 None \<Rightarrow> [] | Some out \<Rightarrow> out)"
  shows "rr_prevSuffix req = [] \<or>
    (\<exists>l\<in>set (getlines lo). strip_end l = rr_sourceDataset req @ ''@'' @ rr_prevSuffix req) \<and>
    (\<exists>l\<in>set (getlines ro). strip_end l = rr_destDataset req @ ''@'' @ rr_prevSuffix req) \<and>
    (\<exists>p\<in>{kReplPrefix, kBackupPrefix}. starts_with p (rr_prevSuffix req) \<and>
       (\<forall>q\<in>{kReplPrefix, kBackupPrefix}. \<forall>s\<in>both_sides lo (rr_sourceDataset req) ro (rr_destDataset req) q.
          drop (length q) s \<le> drop (length p) (rr_prevSuffix req)))"
proof (cases "rr_prevSuffix req = []")
  case False
  have prev: "rr_prevSuffix req = pickLatestCommonSuffix lo (rr_sourceDataset req) ro (rr_destDataset req) [kReplPrefix, kBackupPrefix]"
    using assms(1,2) False unfolding lo_def ro_def
    by (auto simp: replicate_prepare_def replicate_base_def choosePlan_def bind_res_def Let_def split: if_splits sum.splits backup_plan.splits)
  obtain p where p: "p \<in> {kReplPrefix, kBackupPrefix}" "rr_prevSuffix req \<in> both_sides lo (rr_sourceDataset req) ro (rr_destDataset req) p"
    "\<forall>q\<in>{kReplPrefix, kBackupPrefix}. \<forall>s\<in>both_sides lo (rr_sourceDataset req) ro (rr_destDataset req) q.
       q \<noteq> [] \<longrightarrow> drop (length q) s \<le> drop (length p) (rr_prevSuffix req)"
    using common_correct [of lo "rr_sourceDataset req" ro "rr_destDataset req" "[kReplPrefix, kBackupPrefix]"] False
    unfolding prev [symmetric] by auto
  have "kReplPrefix \<noteq> []" "kBackupPrefix \<noteq> []" by (simp_all add: kReplPrefix_def kBackupPrefix_def)
  then show ?thesis using p by (fastforce simp: both_sides_def snapshotSuffixes_mem suffix_of_line_Some)
qed simp


section \<open>Restorable backups\<close>

text \<open>The snapshots of the host and the stream files, each with its base (empty for a full stream) and its target.\<close>

record zstate =
  zs_snaps :: "string set"
  zs_files :: "string \<Rightarrow> (string \<times> string) option"

text \<open>
  What zfs(8) documents: a snapshot is made only under a new name; destroying removes it; a stream is written only of
  snapshots that exist, from one to another, a failed one may leave anything in its file; a pipeline into ssh changes nothing here.
\<close>

definition zfs_host :: "(zact list \<Rightarrow> zstate) \<Rightarrow> (zact list \<Rightarrow> bool) \<Rightarrow> bool" where
  "zfs_host st ok \<longleftrightarrow> (\<forall>tr.
     (\<forall>x. let t = tr @ [Exec [''/sbin/zfs'', ''snapshot'', x]] in
        if ok t then x \<notin> zs_snaps (st tr) \<and> st t = (st tr)\<lparr>zs_snaps := insert x (zs_snaps (st tr))\<rparr> else st t = st tr) \<and>
     (\<forall>x. let t = tr @ [Exec [''/sbin/zfs'', ''destroy'', x]] in
        st t = (if ok t then (st tr)\<lparr>zs_snaps := zs_snaps (st tr) - {x}\<rparr> else st tr)) \<and>
     (\<forall>f. st (tr @ [Unlink f]) = (st tr)\<lparr>zs_files := (zs_files (st tr))(f := None)\<rparr>) \<and>
     (\<forall>x f. let t = tr @ [Pipe [[''/sbin/zfs'', ''send'', x]] f] in
        if ok t then x \<in> zs_snaps (st tr) \<and> st t = (st tr)\<lparr>zs_files := (zs_files (st tr))(f \<mapsto> ([], x))\<rparr>
        else \<exists>c. st t = (st tr)\<lparr>zs_files := (zs_files (st tr))(f := c)\<rparr>) \<and>
     (\<forall>b x f. let t = tr @ [Pipe [[''/sbin/zfs'', ''send'', ''-i'', b, x]] f] in
        if ok t then b \<noteq> x \<and> b \<in> zs_snaps (st tr) \<and> x \<in> zs_snaps (st tr) \<and>
          st t = (st tr)\<lparr>zs_files := (zs_files (st tr))(f \<mapsto> (b, x))\<rparr>
        else \<exists>c. st t = (st tr)\<lparr>zs_files := (zs_files (st tr))(f := c)\<rparr>) \<and>
     (\<forall>p q f. st (tr @ [Pipe [p, q] f]) = st tr))"

lemma zfs_hostD:
  assumes "zfs_host st ok"
  shows "\<And>tr ds s. let t = tr @ [Exec (buildSnapshotArgv ds s)] in
      if ok t then ds @ ''@'' @ s \<notin> zs_snaps (st tr) \<and> st t = (st tr)\<lparr>zs_snaps := insert (ds @ ''@'' @ s) (zs_snaps (st tr))\<rparr>
      else st t = st tr"
    "\<And>tr ds s. ok (tr @ [Exec (buildDestroySnapshotArgv ds s)]) \<Longrightarrow>
      st (tr @ [Exec (buildDestroySnapshotArgv ds s)]) = (st tr)\<lparr>zs_snaps := zs_snaps (st tr) - {ds @ ''@'' @ s}\<rparr>"
    "\<And>tr f. st (tr @ [Unlink f]) = (st tr)\<lparr>zs_files := (zs_files (st tr))(f := None)\<rparr>"
    "\<And>tr ds s p f. let t = tr @ [Pipe [buildSendArgv ds s p] f]; b = (if p = [] then [] else ds @ ''@'' @ p) in
      if ok t then (p = [] \<or> b \<noteq> ds @ ''@'' @ s \<and> b \<in> zs_snaps (st tr)) \<and> st t = (st tr)\<lparr>zs_files := (zs_files (st tr))(f \<mapsto> (b, ds @ ''@'' @ s))\<rparr>
      else \<exists>c. st t = (st tr)\<lparr>zs_files := (zs_files (st tr))(f := c)\<rparr>"
    "\<And>tr p q f. st (tr @ [Pipe [p, q] f]) = st tr"
proof -
  note h = assms [unfolded zfs_host_def, THEN spec]
  show "let t = tr @ [Exec (buildSnapshotArgv ds s)] in
      if ok t then ds @ ''@'' @ s \<notin> zs_snaps (st tr) \<and> st t = (st tr)\<lparr>zs_snaps := insert (ds @ ''@'' @ s) (zs_snaps (st tr))\<rparr>
      else st t = st tr" for tr ds s
    unfolding buildSnapshotArgv_def by (rule h [THEN conjunct1, THEN spec])
  show "st (tr @ [Exec (buildDestroySnapshotArgv ds s)]) = (st tr)\<lparr>zs_snaps := zs_snaps (st tr) - {ds @ ''@'' @ s}\<rparr>"
    if "ok (tr @ [Exec (buildDestroySnapshotArgv ds s)])" for tr ds s
    using that h [of tr, THEN conjunct2, THEN conjunct1, THEN spec, of "ds @ ''@'' @ s"] unfolding buildDestroySnapshotArgv_def Let_def by simp
  show "st (tr @ [Unlink f]) = (st tr)\<lparr>zs_files := (zs_files (st tr))(f := None)\<rparr>" for tr f
    using h [of tr, THEN conjunct2, THEN conjunct2, THEN conjunct1] by simp
  show "let t = tr @ [Pipe [buildSendArgv ds s p] f]; b = (if p = [] then [] else ds @ ''@'' @ p) in
      if ok t then (p = [] \<or> b \<noteq> ds @ ''@'' @ s \<and> b \<in> zs_snaps (st tr)) \<and> st t = (st tr)\<lparr>zs_files := (zs_files (st tr))(f \<mapsto> (b, ds @ ''@'' @ s))\<rparr>
      else \<exists>c. st t = (st tr)\<lparr>zs_files := (zs_files (st tr))(f := c)\<rparr>" for tr ds s p f
    using h [of tr, THEN conjunct2, THEN conjunct2, THEN conjunct2, THEN conjunct1, THEN spec, of "ds @ ''@'' @ s", THEN spec, of f]
      h [of tr, THEN conjunct2, THEN conjunct2, THEN conjunct2, THEN conjunct2, THEN conjunct1, THEN spec, of "ds @ ''@'' @ p", THEN spec, of "ds @ ''@'' @ s", THEN spec, of f]
    unfolding buildSendArgv_def Let_def by (simp split: if_splits)
  show "st (tr @ [Pipe [p, q] f]) = st tr" for tr p q f
    using h [of tr, THEN conjunct2, THEN conjunct2, THEN conjunct2, THEN conjunct2, THEN conjunct2] by simp
qed

inductive restorable :: "zstate \<Rightarrow> string \<Rightarrow> bool" for z where
  full: "zs_files z f = Some ([], x) \<Longrightarrow> restorable z x"
| incremental: "zs_files z f = Some (b, x) \<Longrightarrow> restorable z b \<Longrightarrow> restorable z x"

lemma restorable_mono: "restorable z x \<Longrightarrow> (\<And>f v. zs_files z f = Some v \<Longrightarrow> zs_files z' f = Some v) \<Longrightarrow> restorable z' x"
  by (induction rule: restorable.induct) (blast intro: restorable.intros)+

text \<open>The stream files of one jail have the name of their target.\<close>

definition backups_ok :: "string \<Rightarrow> string \<Rightarrow> zstate \<Rightarrow> bool" where
  "backups_ok jail ds z \<longleftrightarrow>
     (\<forall>s. starts_with kBackupPrefix s \<longrightarrow> ds @ ''@'' @ s \<in> zs_snaps z \<longrightarrow> restorable z (ds @ ''@'' @ s)) \<and>
     (\<forall>f b x. zs_files z f = Some (b, x) \<longrightarrow> x \<in> zs_snaps z \<and>
        (\<exists>dir s p. x = ds @ ''@'' @ s \<and> length s = 27 \<and> CHR ''/'' \<notin> set s \<and> CHR ''/'' \<notin> set p \<and>
           f = dir @ ''/'' @ streamFilename jail s p))"


lemma stamp_shape:
  assumes "0 < t" "t < 253402300800"
  shows "length (utc_stamp (gmtime t)) = 20" "CHR ''/'' \<notin> set (utc_stamp (gmtime t))"
proof -
  let ?g = "gmtime t"
  have t0: "0 \<le> t" using assms by simp
  have r: "0 \<le> tm_mon ?g" "tm_mon ?g \<le> 99" "0 \<le> tm_mday ?g" "tm_mday ?g \<le> 99" "0 \<le> tm_hour ?g" "tm_hour ?g \<le> 99"
    "0 \<le> tm_min ?g" "tm_min ?g \<le> 99" "0 \<le> tm_sec ?g" "tm_sec ?g \<le> 99" "0 \<le> tm_year ?g" "tm_year ?g \<le> 9999"
    using gmtime_inverse(2-13) [OF t0] assms(2) by simp_all
  have "\<not> is_digit (CHR ''/'')" by (simp add: is_digit_def)
  then have nd: "CHR ''/'' \<notin> set xs" if "list_all is_digit xs" for xs using that by (auto simp: list_all_iff)
  note P = pad4_props [OF r(11,12)] pad2_props [OF r(1,2)] pad2_props [OF r(3,4)] pad2_props [OF r(5,6)]
    pad2_props [OF r(7,8)] pad2_props [OF r(9,10)]
  show "length (utc_stamp ?g) = 20" "CHR ''/'' \<notin> set (utc_stamp ?g)"
    using P(1,4,7,10,13,16) nd [OF P(2)] nd [OF P(5)] nd [OF P(8)] nd [OF P(11)] nd [OF P(14)] nd [OF P(17)]
    by (simp_all add: utc_stamp_def)
qed

lemma suffix_shape:
  assumes "0 < t" "t < 253402300800"
  shows "length (snapshotSuffix t) = 27" "CHR ''/'' \<notin> set (snapshotSuffix t)" "starts_with kBackupPrefix (snapshotSuffix t)"
  using stamp_shape [OF assms] by (simp_all add: snapshotSuffix_def snapshotSuffixWithPrefix_def kBackupPrefix_def starts_with_def)

lemma last_component: "c \<notin> set b \<Longrightarrow> c \<notin> set b' \<Longrightarrow> a @ c # b = a' @ c # b' \<Longrightarrow> b = b'"
proof (induction a arbitrary: a')
  case Nil
  then show ?case by (cases a') auto
next
  case (Cons x a)
  then show ?case by (cases a') auto
qed

lemma stream_path_target:
  assumes "dir @ ''/'' @ streamFilename jail s p = dir' @ ''/'' @ streamFilename jail s' p'"
    "CHR ''/'' \<notin> set jail" "CHR ''/'' \<notin> set s" "CHR ''/'' \<notin> set p" "CHR ''/'' \<notin> set s'" "CHR ''/'' \<notin> set p'"
    "length s = length s'"
  shows "s = s'"
proof -
  have "CHR ''/'' \<notin> set (streamFilename jail s p)" "CHR ''/'' \<notin> set (streamFilename jail s' p')"
    using assms(2-6) by (simp_all add: streamFilename_def)
  then have "streamFilename jail s p = streamFilename jail s' p'" using last_component assms(1) by auto
  then show ?thesis using assms(7) by (auto simp: streamFilename_def split: if_splits)
qed

lemma prepare_facts:
  assumes "backup_prepare env a = Inr (ds, p)"
  shows "CHR ''/'' \<notin> set (ba_target a)" "CHR ''/'' \<notin> set p" "p = ba_since a \<or> starts_with kBackupPrefix p"
proof -
  have slash: "\<not> stack_name_char (CHR ''/'')" by (simp add: stack_name_char_def is_alnum_def is_digit_def)
  have since: "since_chars s = [] \<Longrightarrow> CHR ''/'' \<notin> set s" for s
    by (induction s rule: since_chars.induct) (auto split: if_splits)
  have v: "backup_validateJailName (ba_target a) = []" "ba_since a = [] \<or> validateSinceName (ba_since a) = []"
    using assms by (auto simp: backup_prepare_def Let_def check_err_def split: if_splits)
  show "CHR ''/'' \<notin> set (ba_target a)"
    using v(1) slash by (auto simp: backup_validateJailName_def fail_if_def find_None_iff split: if_splits option.splits)
  have latest: "s = [] \<or> CHR ''/'' \<notin> set s \<and> starts_with kBackupPrefix s" if "s = findLatestBackupSuffix env ds" for s
    using pickLatest_correct(1) [of "listSnapshots env ds" ds "''backup-''"] that
    by (auto simp: findLatestBackupSuffix_def snapshotSuffixes_mem suffix_of_line_Some kBackupPrefix_def)
  have p: "p = ba_since a \<or> p = findLatestBackupSuffix env ds \<or> p = []"
    using assms by (auto simp: backup_prepare_def Let_def bind_res_def choosePlan_def split: if_splits sum.splits)
  have "CHR ''/'' \<notin> set (ba_since a)" using v(2) since by (auto simp: validateSinceName_def fail_if_def split: if_splits)
  then show "CHR ''/'' \<notin> set p" using p latest by auto
  have "p = [] \<Longrightarrow> ba_since a = []"
    using assms by (auto simp: backup_prepare_def Let_def bind_res_def choosePlan_def split: if_splits sum.splits)
  then show "p = ba_since a \<or> starts_with kBackupPrefix p" using p latest by auto
qed


lemma backup_keeps:
  assumes host: "zfs_host st ok" and inv: "backups_ok (ba_target a) ds (st tr)"
    and time: "0 < ze_now env" "ze_now env < 253402300800"
    and prep: "\<And>ds' p. backup_prepare env a = Inr (ds', p) \<Longrightarrow> ds' = ds"
    and since: "ba_since a = [] \<or> starts_with kBackupPrefix (ba_since a)"
    and cleanup: "\<And>t s. ok (t @ [Exec (buildDestroySnapshotArgv ds s)])"
    and run: "backupCrate env ok a tr = (tr', r)"
  shows "backups_ok (ba_target a) ds (st tr')"
proof (cases "backup_prepare env a")
  case (Inl e)
  then show ?thesis using run inv by (simp add: backupCrate_def)
next
  case (Inr dp)
  obtain p where dp: "dp = (ds, p)" using Inr prep by (cases dp) auto
  define s x f where "s = snapshotSuffix (ze_now env)" and "x = ds @ ''@'' @ s"
    and "f = ba_dir a @ ''/'' @ streamFilename (ba_target a) s p"
  note H = zfs_hostD [OF host] and S = suffix_shape [OF time, folded s_def] and F = prepare_facts [OF Inr [unfolded dp]]
  define tr1 tr2 where "tr1 = tr @ [Exec (buildSnapshotArgv ds s)]" and "tr2 = tr1 @ [Pipe [buildSendArgv ds s p] f]"
  have run': "(tr', r) = (if \<not> ok tr1 then (tr1, Some ''zfs snapshot'') else if ok tr2 then (tr2, None)
      else (tr2 @ [Exec (buildDestroySnapshotArgv ds s), Unlink f], Some ''zfs send to file''))"
    unfolding run [symmetric] by (simp add: Inr backupCrate_def dp s_def f_def tr1_def tr2_def Let_def)
  show ?thesis
  proof (cases "ok tr1")
    case False
    then show ?thesis using H(1) [of tr ds s] run' inv by (simp add: tr1_def Let_def)
  next
    case True
    then have new: "x \<notin> zs_snaps (st tr)" and z1: "st tr1 = (st tr)\<lparr>zs_snaps := insert x (zs_snaps (st tr))\<rparr>"
      using H(1) [of tr ds s] by (simp_all add: tr1_def Let_def x_def)
    have fresh: "zs_files (st tr) f = None"
    proof (rule ccontr)
      assume "zs_files (st tr) f \<noteq> None"
      then obtain b y where "zs_files (st tr) f = Some (b, y)" by auto
      then obtain dir s' p' where y: "y \<in> zs_snaps (st tr)" "y = ds @ ''@'' @ s'" "length s' = 27" "CHR ''/'' \<notin> set s'"
          "CHR ''/'' \<notin> set p'" "f = dir @ ''/'' @ streamFilename (ba_target a) s' p'"
        using inv unfolding backups_ok_def by blast
      then have "s = s'" using stream_path_target [of "ba_dir a" "ba_target a" s p dir s' p'] F S f_def by simp
      then show False using y(1,2) new by (simp add: x_def)
    qed
    show ?thesis
    proof (cases "ok tr2")
      case True
      then have z2: "st tr2 = (st tr1)\<lparr>zs_files := (zs_files (st tr1))(f \<mapsto> (if p = [] then [] else ds @ ''@'' @ p, x))\<rparr>"
        and b: "p = [] \<or> ds @ ''@'' @ p \<noteq> x \<and> ds @ ''@'' @ p \<in> zs_snaps (st tr1)"
        using H(4) [of tr1 ds s p f] by (auto simp: tr2_def Let_def x_def)
      have old: "restorable (st tr2) y" if "restorable (st tr) y" for y
        by (rule restorable_mono [OF that]) (use fresh in \<open>auto simp: z2 z1\<close>)
      have "p = [] \<or> restorable (st tr) (ds @ ''@'' @ p)"
        using b since F(3) inv by (auto simp: z1 backups_ok_def)
      then have "restorable (st tr2) x"
        using restorable.full [of "st tr2" f x] restorable.incremental [of "st tr2" f "ds @ ''@'' @ p" x] old by (auto simp: z2)
      moreover have "\<exists>dir s p. x = ds @ ''@'' @ s \<and> length s = 27 \<and> CHR ''/'' \<notin> set s \<and> CHR ''/'' \<notin> set p \<and>
          f = dir @ ''/'' @ streamFilename (ba_target a) s p"
        using F(2) S unfolding x_def f_def by blast
      ultimately have "backups_ok (ba_target a) ds (st tr2)" using inv old unfolding backups_ok_def z2 z1 by auto
      then show ?thesis using run' True \<open>ok tr1\<close> by simp
    next
      case False
      then obtain c where z2: "st tr2 = (st tr1)\<lparr>zs_files := (zs_files (st tr1))(f := c)\<rparr>"
        using H(4) [of tr1 ds s p f] by (auto simp: tr2_def Let_def)
      have "st ((tr2 @ [Exec (buildDestroySnapshotArgv ds s)]) @ [Unlink f]) = st tr"
        unfolding H(3) H(2) [OF cleanup] z2 z1 using new fresh by (auto simp: x_def intro!: zstate.equality)
      then show ?thesis using run' False \<open>ok tr1\<close> inv by simp
    qed
  qed
qed

lemma backups_ok_other:
  assumes "backups_ok jail ds z" "\<not> starts_with kBackupPrefix s"
  shows "backups_ok jail ds (z\<lparr>zs_snaps := insert (ds @ ''@'' @ s) (zs_snaps z)\<rparr>)"
proof -
  have "restorable (z\<lparr>zs_snaps := A\<rparr>) y" if "restorable z y" for y A using restorable_mono [OF that] by simp
  then show ?thesis using assms unfolding backups_ok_def by auto
qed

lemma replicate_keeps:
  assumes host: "zfs_host st ok" and inv: "backups_ok jail ds (st tr)"
    and prep: "\<And>req. replicate_prepare env a = Inr req \<Longrightarrow> rr_sourceDataset req = ds"
    and cleanup: "\<And>t s. ok (t @ [Exec (buildDestroySnapshotArgv ds s)])"
    and run: "replicateCrate env ok a tr = (tr', r)"
  shows "backups_ok jail ds (st tr')"
proof (cases "replicate_prepare env a")
  case (Inl e)
  then show ?thesis using run inv by (simp add: replicateCrate_def)
next
  case (Inr req)
  define s x where "s = rr_currSuffix req" and "x = ds @ ''@'' @ rr_currSuffix req"
  note H = zfs_hostD [OF host] and ds = prep [OF Inr]
  have "s = kReplPrefix @ utc_stamp (gmtime (ze_now env))" using Inr
    by (auto simp: s_def replicate_prepare_def bind_res_def Let_def snapshotSuffixWithPrefix_def split: if_splits sum.splits backup_plan.splits)
  then have other: "\<not> starts_with kBackupPrefix s" by (simp add: kReplPrefix_def kBackupPrefix_def starts_with_def)
  define tr1 where "tr1 = tr @ [Exec (buildSnapshotArgv ds s)]"
  define tr2 where "tr2 = tr1 @ [Pipe (buildReplicationPipeline req) []]"
  have z2: "st tr2 = st tr1" using H(5) by (simp add: tr2_def buildReplicationPipeline_def)
  have run': "(tr', r) = (if \<not> ok tr1 then (tr1, Some ''zfs snapshot'') else if ok tr2 then (tr2, None)
      else (tr2 @ [Exec (buildDestroySnapshotArgv ds s)], Some ''zfs send | ssh ... zfs recv''))"
    unfolding run [symmetric] by (simp add: Inr replicateCrate_def ds s_def tr1_def tr2_def Let_def)
  show ?thesis
  proof (cases "ok tr1")
    case False
    then show ?thesis using H(1) [of tr ds s] run' inv by (simp add: tr1_def Let_def)
  next
    case True
    then have z1: "x \<notin> zs_snaps (st tr)" "st tr1 = (st tr)\<lparr>zs_snaps := insert x (zs_snaps (st tr))\<rparr>"
      using H(1) [of tr ds s] by (simp_all add: tr1_def Let_def x_def s_def)
    have "backups_ok jail ds (st tr1)" unfolding z1(2) x_def using backups_ok_other [OF inv other] by (simp add: s_def)
    moreover have "st (tr2 @ [Exec (buildDestroySnapshotArgv ds s)]) = st tr"
      unfolding H(2) [OF cleanup] z2 z1(2) using z1(1) by (auto simp: x_def s_def intro!: zstate.equality)
    ultimately show ?thesis using run' True inv z2 by (auto split: if_splits)
  qed
qed

text \<open>
  The histories of one jail: any number of backups and replications, in any order, with any arguments and any
  failures, but with a working \<^verbatim>\<open>zfs destroy\<close> for the cleanup; an explicit \<^verbatim>\<open>--since\<close> of a backup names a backup
  snapshot.
\<close>

inductive history :: "(zact list \<Rightarrow> bool) \<Rightarrow> string \<Rightarrow> string \<Rightarrow> zact list \<Rightarrow> bool" for ok jail ds where
  start: "history ok jail ds []"
| backup: "\<lbrakk>history ok jail ds tr; ba_target a = jail; 0 < ze_now env; ze_now env < 253402300800;
     \<And>ds' p. backup_prepare env a = Inr (ds', p) \<Longrightarrow> ds' = ds; ba_since a = [] \<or> starts_with kBackupPrefix (ba_since a);
     backupCrate env ok a tr = (tr', r)\<rbrakk> \<Longrightarrow> history ok jail ds tr'"
| repl: "\<lbrakk>history ok jail ds tr; \<And>req. replicate_prepare env a = Inr req \<Longrightarrow> rr_sourceDataset req = ds;
     replicateCrate env ok a tr = (tr', r)\<rbrakk> \<Longrightarrow> history ok jail ds tr'"



text \<open>A host in memory that behaves as documented, and one full backup on it.\<close>

fun mem_step :: "zstate \<Rightarrow> zact \<Rightarrow> zstate \<times> bool" where
  "mem_step z (Unlink f) = (z\<lparr>zs_files := (zs_files z)(f := None)\<rparr>, True)"
| "mem_step z (Exec [prog, verb, x]) =
     (if verb = ''snapshot'' then (if x \<in> zs_snaps z then (z, False) else (z\<lparr>zs_snaps := insert x (zs_snaps z)\<rparr>, True))
      else if verb = ''destroy'' then (z\<lparr>zs_snaps := zs_snaps z - {x}\<rparr>, True) else (z, True))"
| "mem_step z (Pipe [[prog, verb, x]] f) =
     (if x \<in> zs_snaps z then (z\<lparr>zs_files := (zs_files z)(f \<mapsto> ([], x))\<rparr>, True) else (z, False))"
| "mem_step z (Pipe [[prog, verb, opt, b, x]] f) =
     (if b \<noteq> x \<and> b \<in> zs_snaps z \<and> x \<in> zs_snaps z then (z\<lparr>zs_files := (zs_files z)(f \<mapsto> (b, x))\<rparr>, True) else (z, False))"
| "mem_step z a = (z, True)"

definition mem_state :: "zact list \<Rightarrow> zstate" where
  "mem_state tr = foldl (\<lambda>z a. fst (mem_step z a)) \<lparr>zs_snaps = {}, zs_files = (\<lambda>_. None)\<rparr> tr"

definition mem_ok :: "zact list \<Rightarrow> bool" where
  "mem_ok tr = (tr = [] \<or> snd (mem_step (mem_state (butlast tr)) (last tr)))"

lemma mem_host: "zfs_host mem_state mem_ok"
proof -
  have s: "mem_state (tr @ [a]) = fst (mem_step (mem_state tr) a)" and k: "mem_ok (tr @ [a]) = snd (mem_step (mem_state tr) a)" for tr a
    by (simp_all add: mem_state_def mem_ok_def)
  have two: "mem_step z (Pipe [p, q] f) = (z, True)" for z p q f
    by (cases p; cases "tl p"; cases "tl (tl p)") auto
  have same: "z = z\<lparr>zs_files := (zs_files z)(f := zs_files z f)\<rparr>" for z :: zstate and f by simp
  show ?thesis unfolding zfs_host_def Let_def s k
    by (intro allI conjI) (auto simp: two intro: same)
qed

definition mem_env :: zenv where
  "mem_env = \<lparr>ze_jails = \<lparr>jv_byName = (\<lambda>n. if n = ''web'' then Some \<lparr>ji_jid = 3, ji_name = ''web'', ji_path = ''/j'',
       ji_hostname = [], ji_ip4 = [], ji_dying = False\<rparr> else None), jv_byJid = (\<lambda>_. None), jv_crate = []\<rparr>,
     ze_dataset = (\<lambda>p. if p = ''/j'' then Some ''t/web'' else None), ze_output = (\<lambda>_. None), ze_now = 86400\<rparr>"

definition mem_args :: backup_args where
  "mem_args = \<lparr>ba_target = ''web'', ba_dir = ''/b'', ba_since = [], ba_auto = True\<rparr>"

lemma mem_run:
  "backup_prepare mem_env mem_args = Inr (''t/web'', [])"
  "snapshotSuffix 86400 = ''backup-1970-01-02T00:00:00Z''"
  "backupCrate mem_env mem_ok mem_args [] =
     ([Exec (buildSnapshotArgv ''t/web'' ''backup-1970-01-02T00:00:00Z''),
       Pipe [buildSendArgv ''t/web'' ''backup-1970-01-02T00:00:00Z'' []] ''/b/web-backup-1970-01-02T00:00:00Z.zstream''], None)"
  by code_simp+


text \<open>A remote that shares one of the two local snapshots.\<close>

definition two_sides_env :: zenv where
  "two_sides_env = mem_env\<lparr>ze_output := (\<lambda>argv.
     if argv = listSnapshotsArgv ''t/web'' then Some (''t/web@repl-1970-01-01T00:00:00Z'' @ NL # ''t/web@backup-1970-01-01T00:00:09Z'')
     else Some ''b/web@repl-1970-01-01T00:00:00Z'')\<rparr>"

definition two_sides_args :: replicate_args where
  "two_sides_args = \<lparr>ra_target = ''web'', ra_to = ''host.b'', ra_dest = ''b/web'', ra_key = [], ra_config = [], ra_opts = [],
     ra_port = 0, ra_since = [], ra_auto = True\<rparr>"

lemma two_sides_req:
  "\<exists>req. replicate_prepare two_sides_env two_sides_args = Inr req \<and> rr_prevSuffix req = ''repl-1970-01-01T00:00:00Z''"
proof -
  have "(case replicate_prepare two_sides_env two_sides_args of Inl _ \<Rightarrow> False | Inr req \<Rightarrow> rr_prevSuffix req = ''repl-1970-01-01T00:00:00Z'')"
    by code_simp
  then show ?thesis by (auto split: sum.splits)
qed

theorem replicate_base_on_both_sides_witness:
  "\<exists>req. replicate_prepare two_sides_env two_sides_args = Inr req \<and>
     (\<exists>l\<in>set (getlines (listSnapshots two_sides_env (rr_sourceDataset req))).
        strip_end l = rr_sourceDataset req @ ''@'' @ ''repl-1970-01-01T00:00:00Z'')"
proof -
  obtain req where "replicate_prepare two_sides_env two_sides_args = Inr req" "rr_prevSuffix req = ''repl-1970-01-01T00:00:00Z''"
    using two_sides_req by blast
  moreover from this(1) replicate_base_on_both_sides [of two_sides_env two_sides_args req]
  have "rr_prevSuffix req = [] \<or> (\<exists>l\<in>set (getlines (listSnapshots two_sides_env (rr_sourceDataset req))).
        strip_end l = rr_sourceDataset req @ ''@'' @ rr_prevSuffix req)" by (auto simp: two_sides_args_def)
  ultimately show ?thesis by auto
qed

end
