(* ===== verification/Migrate.thy ===== *)
theory Migrate
  imports Replication
begin

text \<open>
  \<^verbatim>\<open>crate migrate\<close>: the plan of \<^verbatim>\<open>lib/migrate_pure.cpp\<close> and the command of \<^verbatim>\<open>lib/migrate.cpp\<close> that carries it out with
  curl(1), as a sequence of actions. What curl answers, the contents of the token files and the names of temporary
  files are arguments.
\<close>

section \<open>Validators\<close>

definition kArtifactFile :: nat where "kArtifactFile = 255"

text \<open>The rest behind \<^verbatim>\<open>https://\<close> or \<^verbatim>\<open>http://\<close>, and whether there was one.\<close>

definition stripScheme :: "string \<Rightarrow> bool \<times> string" where
  "stripScheme endpoint =
     (if starts_with ''https://'' endpoint then (True, drop 8 endpoint)
      else if starts_with ''http://'' endpoint then (True, drop 7 endpoint)
      else (False, endpoint))"

text \<open>
  The number is accumulated in a \<^verbatim>\<open>long\<close> without a bound; the additions wrap on the machines crate runs on, where the
  language leaves them undefined.
\<close>

definition port_number :: "string \<Rightarrow> 64 word" where
  "port_number port = foldl (\<lambda>n c. n * 10 + of_nat (digit_val c)) 0 port"

definition migrate_validatePort :: "string \<Rightarrow> err" where
  "migrate_validatePort port =
     fail_if (port = []) ''port is empty''
     (fail_if (\<not> list_all is_digit port) ''port must be numeric''
     (fail_if (sint (port_number port) < 1 \<or> sint (port_number port) > 65535) ''port out of range (1..65535)'' []))"

definition validateEndpoint :: "string \<Rightarrow> err" where
  "validateEndpoint endpoint =
     (let rest = snd (stripScheme endpoint) in
      if endpoint = [] then ''endpoint is empty''
      else if rest = [] then ''endpoint missing host:port''
      else if hd rest = CHR ''['' then
        (case cut_at (CHR '']'') (tl rest) of
           None \<Rightarrow> ''endpoint missing closing '' @ quoted '']''
         | Some (host, after) \<Rightarrow>
           if after = [] \<or> hd after \<noteq> CHR '':'' then ''endpoint missing '' @ quoted '':'' @ '' after '' @ quoted '']''
           else if \<not> isV6 host then ''endpoint IPv6 literal is malformed''
           else migrate_validatePort (tl after))
      else case cut_last '':'' rest of
        None \<Rightarrow> ''endpoint must include :port''
      | Some (host, port) \<Rightarrow>
        if looksLikeV4Shape host then
          (if \<not> isV4 host then ''endpoint looks like IPv4 but has invalid octets'' else migrate_validatePort port)
        else if \<not> isHostname host then ''endpoint host is neither IPv4 nor hostname''
        else migrate_validatePort port)"

definition validateBearerToken :: "string \<Rightarrow> err" where
  "validateBearerToken t =
     fail_if (t = []) ''bearer token is empty''
     (fail_if (length t > 512) ''bearer token longer than 512 chars''
     (fail_if (list_ex (\<lambda>c. (of_char c :: nat) \<le> 0x20 \<or> c = CHR 0x7F) t)
        ''bearer token contains whitespace or control character'' []))"

definition validateContainerName :: "string \<Rightarrow> err" where
  "validateContainerName name =
     fail_if (name = []) ''container name is empty''
     (fail_if (length name > kJailName) (''container name longer than '' @ dec kJailName @ '' chars'')
     (fail_if (name = ''.'' \<or> name = ''..'') ''container name is reserved'' (bad_char stack_name_char ''container name'' name)))"

fun artifact_chars :: "string \<Rightarrow> err" where
  "artifact_chars [] = []"
| "artifact_chars (c # cs) =
     (if c = CHR ''/'' then ''artifact filename must not contain '' @ quoted ''/'' @ '' (path traversal)''
      else if (of_char c :: nat) < 0x20 \<or> c = CHR 0x7F then ''artifact filename contains a control character''
      else artifact_chars cs)"

definition validateArtifactFile :: "string \<Rightarrow> err" where
  "validateArtifactFile name =
     fail_if (name = []) ''artifact filename is empty''
     (fail_if (length name > kArtifactFile) (''artifact filename longer than '' @ dec kArtifactFile @ '' chars'')
     (fail_if (name = ''.'' \<or> name = ''..'') ''artifact filename is reserved'' (artifact_chars name)))"

section \<open>The plan\<close>

definition normalizeBaseUrl :: "string \<Rightarrow> string" where
  "normalizeBaseUrl endpoint = (if fst (stripScheme endpoint) then endpoint else ''https://'' @ snd (stripScheme endpoint))"

datatype StepKind = Export | Download | Upload | StartTo | StopFrom

record MigrateStep =
  st_kind :: StepKind
  st_method :: string
  st_url :: string
  st_token :: string
  st_filePath :: string

record MigrateRequest =
  mr_name :: string
  mr_fromEndpoint :: string
  mr_fromToken :: string
  mr_toEndpoint :: string
  mr_toToken :: string
  mr_workDir :: string
  mr_artifactFile :: string

definition buildExportStep :: "MigrateRequest \<Rightarrow> MigrateStep" where
  "buildExportStep r =
     \<lparr>st_kind = Export, st_method = ''POST'',
      st_url = normalizeBaseUrl (mr_fromEndpoint r) @ ''/api/v1/containers/'' @ mr_name r @ ''/export'',
      st_token = mr_fromToken r, st_filePath = []\<rparr>"

definition artifact_path :: "MigrateRequest \<Rightarrow> string" where
  "artifact_path r = mr_workDir r @ ''/'' @ mr_artifactFile r"

definition buildRemainingSteps :: "MigrateRequest \<Rightarrow> MigrateStep list" where
  "buildRemainingSteps r =
     [\<lparr>st_kind = Download, st_method = ''GET'',
       st_url = normalizeBaseUrl (mr_fromEndpoint r) @ ''/api/v1/exports/'' @ mr_artifactFile r,
       st_token = mr_fromToken r, st_filePath = artifact_path r\<rparr>,
      \<lparr>st_kind = Upload, st_method = ''POST'',
       st_url = normalizeBaseUrl (mr_toEndpoint r) @ ''/api/v1/imports/'' @ mr_name r,
       st_token = mr_toToken r, st_filePath = artifact_path r\<rparr>,
      \<lparr>st_kind = StartTo, st_method = ''POST'',
       st_url = normalizeBaseUrl (mr_toEndpoint r) @ ''/api/v1/containers/'' @ mr_name r @ ''/start'',
       st_token = mr_toToken r, st_filePath = []\<rparr>,
      \<lparr>st_kind = StopFrom, st_method = ''POST'',
       st_url = normalizeBaseUrl (mr_fromEndpoint r) @ ''/api/v1/containers/'' @ mr_name r @ ''/stop'',
       st_token = mr_fromToken r, st_filePath = []\<rparr>]"

definition describeStep :: "MigrateStep \<Rightarrow> string" where
  "describeStep s =
     (case st_kind s of
        Export \<Rightarrow> ''export source     '' | Download \<Rightarrow> ''download artifact '' | Upload \<Rightarrow> ''upload to dest    ''
      | StartTo \<Rightarrow> ''start on dest     '' | StopFrom \<Rightarrow> ''stop on source    '') @ st_method s @ '' '' @ st_url s"

definition redactToken :: "string \<Rightarrow> string" where
  "redactToken token = ''<redacted: '' @ dec (length token) @ '' chars>''"

section \<open>The command\<close>

text \<open>
  A run of curl with the arguments that \<^verbatim>\<open>ps\<close> shows and the token that is in the header file; the removal of that
  file, of the artifact, and of the working directory.
\<close>

datatype mact = Curl string "string list" | DropHeader string | UnlinkFile string | Rmdir string

record migrate_env =
  me_exists :: "string \<Rightarrow> bool"
  me_read :: "string \<Rightarrow> string option"
  me_workDir :: "string option"
  me_header :: "mact list \<Rightarrow> string option"
  me_reply :: "mact list \<Rightarrow> string option"

definition curlPath :: "migrate_env \<Rightarrow> string" where
  "curlPath env =
     (if me_exists env ''/usr/bin/curl'' then ''/usr/bin/curl''
      else if me_exists env ''/usr/local/bin/curl'' then ''/usr/local/bin/curl'' else ''/usr/bin/curl'')"

definition token_blank :: "char \<Rightarrow> bool" where
  "token_blank c \<longleftrightarrow> c = CHR 0x0A \<or> c = CHR 0x0D \<or> c = CHR '' '' \<or> c = CHR 0x09"

definition readTokenFromFile :: "migrate_env \<Rightarrow> string \<Rightarrow> string res" where
  "readTokenFromFile env path =
     (case me_read env path of
        None \<Rightarrow> Inl (''cannot open token file '' @ quoted path)
      | Some t \<Rightarrow> Inr (rev (dropWhile token_blank (rev t))))"

text \<open>\<^verbatim>\<open>me_header\<close> is the name \<^verbatim>\<open>mkstemp\<close> gives, or its failure; \<^verbatim>\<open>me_reply\<close> the output of curl, or its failure.\<close>

definition runCurl :: "migrate_env \<Rightarrow> string list \<Rightarrow> string \<Rightarrow> mact list \<Rightarrow> mact list \<times> string res" where
  "runCurl env args token tr =
     (case me_header env tr of
        None \<Rightarrow> (tr, Inl ''mkstemp for the auth header'')
      | Some h \<Rightarrow>
        let tr' = tr @ [Curl token ([curlPath env, ''--silent'', ''--show-error'', ''--location'', ''--fail'', ''-H'', ''@'' @ h] @ args)] in
        (tr' @ [DropHeader h], case me_reply env tr' of None \<Rightarrow> Inl ''curl'' | Some out \<Rightarrow> Inr out))"

definition rx_space :: "char \<Rightarrow> bool" where
  "rx_space c \<longleftrightarrow> c = CHR '' '' \<or> (0x09 \<le> (of_char c :: nat) \<and> (of_char c :: nat) \<le> 0x0D)"

text \<open>A match of \<^verbatim>\<open>"file"\s*:\s*"([^"]+)"\<close> at the start of the text, and the leftmost one.\<close>

definition file_field_here :: "string \<Rightarrow> string option" where
  "file_field_here s =
     (if \<not> starts_with (DQ # ''file'' @ [DQ]) s then None
      else case dropWhile rx_space (drop 6 s) of
        [] \<Rightarrow> None
      | c # r \<Rightarrow>
        if c \<noteq> CHR '':'' then None
        else case dropWhile rx_space r of
          [] \<Rightarrow> None
        | q # v \<Rightarrow>
          if q \<noteq> DQ then None
          else case cut_at DQ v of None \<Rightarrow> None | Some (val, _) \<Rightarrow> if val = [] then None else Some val)"

fun extractFileField :: "string \<Rightarrow> string" where
  "extractFileField [] = []"
| "extractFileField (c # s) =
     (case file_field_here (c # s) of Some v \<Rightarrow> v | None \<Rightarrow> extractFileField s)"

definition step_args :: "MigrateStep \<Rightarrow> string list" where
  "step_args s =
     (case st_kind s of
        Download \<Rightarrow> [''-X'', ''GET'', ''-o'', st_filePath s, st_url s]
      | Upload \<Rightarrow> [''-X'', ''POST'', ''-H'', ''Content-Type: application/octet-stream'', ''--data-binary'', ''@'' @ st_filePath s, st_url s]
      | _ \<Rightarrow> [''-X'', st_method s, st_url s])"

definition runStep :: "migrate_env \<Rightarrow> MigrateStep \<Rightarrow> mact list \<Rightarrow> mact list \<times> string res" where
  "runStep env s tr = runCurl env (step_args s) (st_token s) tr"

fun runSteps :: "migrate_env \<Rightarrow> MigrateStep list \<Rightarrow> mact list \<Rightarrow> mact list \<times> err option" where
  "runSteps env [] tr = (tr, None)"
| "runSteps env (s # ss) tr =
     (case runStep env s tr of
        (tr', Inl e) \<Rightarrow> (tr', Some e)
      | (tr', Inr _) \<Rightarrow> runSteps env ss tr')"

record migrate_args =
  ma_target :: string
  ma_from :: string
  ma_to :: string
  ma_fromTokenFile :: string
  ma_toTokenFile :: string

definition migrate_request :: "migrate_env \<Rightarrow> migrate_args \<Rightarrow> MigrateRequest res" where
  "migrate_request env a =
     (if ma_fromTokenFile a = [] then Inl ''--from-token-file is required''
      else if ma_toTokenFile a = [] then Inl ''--to-token-file is required''
      else bind_res (readTokenFromFile env (ma_fromTokenFile a)) (\<lambda>ft.
        bind_res (readTokenFromFile env (ma_toTokenFile a)) (\<lambda>tt.
          let e = check_err (validateContainerName (ma_target a))
                  (check_pfx ''--from: '' (validateEndpoint (ma_from a))
                  (check_pfx ''--to: '' (validateEndpoint (ma_to a))
                  (check_pfx ''from token: '' (validateBearerToken ft)
                  (check_pfx ''to token: '' (validateBearerToken tt) [])))) in
          if e \<noteq> [] then Inl e
          else case me_workDir env of
            None \<Rightarrow> Inl ''mkdtemp for the migrate work directory''
          | Some dir \<Rightarrow> Inr \<lparr>mr_name = ma_target a, mr_fromEndpoint = ma_from a, mr_fromToken = ft, mr_toEndpoint = ma_to a,
              mr_toToken = tt, mr_workDir = dir, mr_artifactFile = []\<rparr>)))"

text \<open>The body of the \<^verbatim>\<open>try\<close> block: the request with the artifact as far as it is known, and the failure.\<close>

definition migrate_try :: "migrate_env \<Rightarrow> MigrateRequest \<Rightarrow> mact list \<Rightarrow> mact list \<times> MigrateRequest \<times> err option" where
  "migrate_try env r tr =
     (let s = buildExportStep r in
      case runCurl env [''-X'', st_method s, st_url s] (st_token s) tr of
        (tr1, Inl e) \<Rightarrow> (tr1, r, Some e)
      | (tr1, Inr body) \<Rightarrow>
        let r1 = r\<lparr>mr_artifactFile := extractFileField body\<rparr>; e = validateArtifactFile (mr_artifactFile r1) in
        if mr_artifactFile r1 = [] then (tr1, r1, Some (''export response did not include a '' @ quoted ''file'' @ '' field''))
        else if e \<noteq> [] then (tr1, r1, Some (''export response '' @ quoted ''file'' @ '' field rejected: '' @ e))
        else case runSteps env (buildRemainingSteps r1) tr1 of (tr2, res) \<Rightarrow> (tr2, r1, res))"

definition migrate_cleanup :: "MigrateRequest \<Rightarrow> mact list" where
  "migrate_cleanup r = (if mr_artifactFile r \<noteq> [] then [UnlinkFile (artifact_path r)] else []) @ [Rmdir (mr_workDir r)]"

definition migrateCommand :: "migrate_env \<Rightarrow> migrate_args \<Rightarrow> mact list \<times> err option" where
  "migrateCommand env a =
     (case migrate_request env a of
        Inl e \<Rightarrow> ([], Some e)
      | Inr r \<Rightarrow> (case migrate_try env r [] of (tr, r1, res) \<Rightarrow> (tr @ migrate_cleanup r1, res)))"


section \<open>The source is stopped last\<close>

fun curls :: "mact list \<Rightarrow> (string \<times> string list) list" where
  "curls [] = []"
| "curls (Curl t av # as) = (t, drop 7 av) # curls as"
| "curls (_ # as) = curls as"

fun replies :: "migrate_env \<Rightarrow> mact list \<Rightarrow> mact list \<Rightarrow> bool list" where
  "replies env pre [] = []"
| "replies env pre (a # as) =
     (case a of Curl t av \<Rightarrow> [me_reply env (pre @ [a]) \<noteq> None] | _ \<Rightarrow> []) @ replies env (pre @ [a]) as"

lemma curls_append [simp]: "curls (xs @ ys) = curls xs @ curls ys"
  by (induction xs rule: curls.induct) auto

lemma replies_append [simp]: "replies env pre (xs @ ys) = replies env pre xs @ replies env (pre @ xs) ys"
  by (induction xs arbitrary: pre) auto

definition asks :: "MigrateStep \<Rightarrow> string \<times> string list" where
  "asks s = (st_token s, step_args s)"

definition migrate_plan :: "MigrateRequest \<Rightarrow> (string \<times> string list) list" where
  "migrate_plan r = map asks (buildExportStep r # buildRemainingSteps r)"

text \<open>A prefix of the planned requests was made, each after the answer to the one before; all of them on success.\<close>

definition carried :: "migrate_env \<Rightarrow> (string \<times> string list) list \<Rightarrow> mact list \<Rightarrow> mact list \<Rightarrow> bool \<Rightarrow> bool" where
  "carried env todo pre ext done \<longleftrightarrow>
     (\<exists>k\<le>length todo. curls ext = take k todo \<and> length (replies env pre ext) = k \<and>
        list_all id (butlast (replies env pre ext)) \<and> (done \<longrightarrow> k = length todo \<and> list_all id (replies env pre ext)))"

lemma carried_weaken: "carried env todo pre ext b \<Longrightarrow> (c \<Longrightarrow> b) \<Longrightarrow> carried env todo pre ext c"
  by (auto simp: carried_def)

lemma carried_app:
  assumes "carried env [p] pre x True" "carried env ps (pre @ x) y done"
  shows "carried env (p # ps) pre (x @ y) done"
proof -
  from assms(1) have x: "curls x = [p]" "replies env pre x = [True]"
    by (auto simp: carried_def length_Suc_conv list_all_iff)
  obtain k where "k \<le> length ps" "curls y = take k ps" "length (replies env (pre @ x) y) = k"
    "list_all id (butlast (replies env (pre @ x) y))" "done \<longrightarrow> k = length ps \<and> list_all id (replies env (pre @ x) y)"
    using assms(2) by (auto simp: carried_def)
  then show ?thesis using x by (auto simp: carried_def intro!: exI [of _ "Suc k"])
qed

lemma runCurl_carried:
  assumes "runCurl env args token tr = (tr', res)"
  shows "\<exists>x. tr' = tr @ x \<and> carried env [(token, args)] tr x (\<exists>v. res = Inr v) \<and> carried env ((token, args) # later) tr x False"
proof (cases "me_header env tr")
  case None
  then show ?thesis using assms by (auto simp: runCurl_def carried_def)
next
  case (Some h)
  define av where "av = [curlPath env, ''--silent'', ''--show-error'', ''--location'', ''--fail'', ''-H'', ''@'' @ h] @ args"
  have d: "drop 7 av = args" by (simp add: av_def)
  have run: "(tr', res) = ((tr @ [Curl token av]) @ [DropHeader h],
      case me_reply env (tr @ [Curl token av]) of None \<Rightarrow> Inl ''curl'' | Some out \<Rightarrow> Inr out)"
    unfolding assms [symmetric] runCurl_def by (simp add: Some av_def Let_def)
  have "tr' = tr @ [Curl token av, DropHeader h]" "(\<exists>v. res = Inr v) \<longleftrightarrow> me_reply env (tr @ [Curl token av]) \<noteq> None"
    using run by (auto split: option.splits)
  then show ?thesis using d by (auto simp: carried_def intro!: exI [of _ "Suc 0"])
qed

lemma runSteps_carried:
  "runSteps env ss tr = (tr', res) \<Longrightarrow> \<exists>x. tr' = tr @ x \<and> carried env (map asks ss) tr x (res = None)"
proof (induction ss arbitrary: tr)
  case (Cons s ss)
  obtain t1 r1 where r1: "runStep env s tr = (t1, r1)" by fastforce
  then obtain x where x: "t1 = tr @ x" "carried env [asks s] tr x (\<exists>v. r1 = Inr v)" "carried env (asks s # map asks ss) tr x False"
    using runCurl_carried [of env "step_args s" "st_token s" tr t1 r1 "map asks ss"] by (auto simp: runStep_def asks_def)
  show ?case
  proof (cases r1)
    case (Inl e)
    then show ?thesis using Cons.prems r1 x by (auto intro: carried_weaken)
  next
    case (Inr v)
    then obtain y where "tr' = t1 @ y" "carried env (map asks ss) t1 y (res = None)"
      using Cons.IH [of t1] Cons.prems r1 by auto
    then show ?thesis using carried_app [of env "asks s" tr x "map asks ss" y "res = None"] x Inr by auto
  qed
qed (auto simp: carried_def)

lemma migrate_try_carried:
  assumes "migrate_try env r [] = (tr, r1, res)"
  shows "carried env (migrate_plan r1) [] tr (res = None)" "res = None \<Longrightarrow> validateArtifactFile (mr_artifactFile r1) = []"
    "\<exists>f. r1 = r\<lparr>mr_artifactFile := f\<rparr>"
proof -
  let ?s = "buildExportStep r"
  obtain t1 c where c: "runCurl env [''-X'', st_method ?s, st_url ?s] (st_token ?s) [] = (t1, c)" by fastforce
  have e: "asks (buildExportStep (r\<lparr>mr_artifactFile := f\<rparr>)) = (st_token ?s, [''-X'', st_method ?s, st_url ?s])" for f
    by (simp add: asks_def step_args_def buildExportStep_def)
  have t: "carried env [asks (buildExportStep r1)] [] t1 (\<exists>v. c = Inr v)" "carried env (migrate_plan r1) [] t1 False"
    if "r1 = r\<lparr>mr_artifactFile := f\<rparr>" for f
    using runCurl_carried [OF c, of "map asks (buildRemainingSteps r1)"] by (auto simp: that e migrate_plan_def)
  show "\<exists>f. r1 = r\<lparr>mr_artifactFile := f\<rparr>"
    using assms c by (auto simp: migrate_try_def Let_def split: sum.splits if_splits prod.splits intro: exI [of _ "mr_artifactFile r"])
  then obtain f where f: "r1 = r\<lparr>mr_artifactFile := f\<rparr>" by blast
  show "res = None \<Longrightarrow> validateArtifactFile (mr_artifactFile r1) = []"
    using assms c by (auto simp: migrate_try_def Let_def split: sum.splits if_splits prod.splits)
  show "carried env (migrate_plan r1) [] tr (res = None)"
  proof (cases "\<exists>v. c = Inr v \<and> extractFileField v \<noteq> [] \<and> validateArtifactFile (extractFileField v) = []")
    case True
    then obtain v where v: "c = Inr v" "extractFileField v \<noteq> []" "validateArtifactFile (extractFileField v) = []" by blast
    then have "runSteps env (buildRemainingSteps r1) t1 = (tr, res)"
      using assms c by (auto simp: migrate_try_def Let_def split: prod.splits)
    then obtain x where "tr = t1 @ x" "carried env (map asks (buildRemainingSteps r1)) t1 x (res = None)"
      using runSteps_carried by blast
    then show ?thesis using carried_app [of env _ "[]" t1] t(1) [OF f] v(1) by (auto simp: migrate_plan_def)
  next
    case False
    then have "tr = t1 \<and> res \<noteq> None"
      using assms c by (auto simp: migrate_try_def Let_def split: sum.splits if_splits prod.splits)
    then show ?thesis using carried_weaken [OF t(2) [OF f], of "res = None"] by auto
  qed
qed



text \<open>Two hosts that answer everything.\<close>

definition willing_env :: migrate_env where
  "willing_env = \<lparr>me_exists = (\<lambda>_. True), me_read = (\<lambda>_. Some ''tok''), me_workDir = Some ''/tmp/w'', me_header = (\<lambda>_. Some ''/tmp/h''),
     me_reply = (\<lambda>_. Some (DQ # ''file'' @ DQ # CHR '':'' # DQ # ''a.crate'' @ [DQ]))\<rparr>"

definition willing_args :: migrate_args where
  "willing_args = \<lparr>ma_target = ''web'', ma_from = ''a:1'', ma_to = ''b:2'', ma_fromTokenFile = ''/f'', ma_toTokenFile = ''/t''\<rparr>"

definition willing_request :: MigrateRequest where
  "willing_request = \<lparr>mr_name = ''web'', mr_fromEndpoint = ''a:1'', mr_fromToken = ''tok'', mr_toEndpoint = ''b:2'',
     mr_toToken = ''tok'', mr_workDir = ''/tmp/w'', mr_artifactFile = []\<rparr>"

lemma willing_request_made: "migrate_request willing_env willing_args = Inr willing_request"
  by code_simp

lemma willing_done: "snd (migrateCommand willing_env willing_args) = None"
  by code_simp


section \<open>Local files\<close>

lemma artifact_chars_ok: "artifact_chars s = [] \<Longrightarrow> CHR ''/'' \<notin> set s"
  by (induction s rule: artifact_chars.induct) (auto split: if_splits)

lemma artifact_ok: "validateArtifactFile f = [] \<Longrightarrow> f \<noteq> [] \<and> f \<noteq> ''.'' \<and> f \<noteq> ''..'' \<and> CHR ''/'' \<notin> set f"
  using artifact_chars_ok by (auto simp: validateArtifactFile_def fail_if_def split: if_splits)

text \<open>
  A rejected artifact name still reaches \<^verbatim>\<open>unlink\<close>. When the export answer of the source names a file that the
  check refuses, no request is made with it and the command fails; but the name is already stored in the request, so
  the clean-up unlinks the working directory followed by that name, whatever it is. The check keeps download, upload
  and start from a name with a slash, and does not keep the deletion from it.
\<close>

theorem migrate_rejected_name_unlinked:
  assumes "migrate_request env a = Inr r" "me_header env [] = Some h"
    "me_reply env [Curl (mr_fromToken r) ([curlPath env, ''--silent'', ''--show-error'', ''--location'', ''--fail'', ''-H'', ''@'' @ h] @
       step_args (buildExportStep r))] = Some body"
    "extractFileField body = f" "f \<noteq> []" "validateArtifactFile f \<noteq> []"
  shows "snd (migrateCommand env a) \<noteq> None \<and> length (curls (fst (migrateCommand env a))) = 1 \<and>
    UnlinkFile (mr_workDir r @ ''/'' @ f) \<in> set (fst (migrateCommand env a))"
proof -
  let ?s = "buildExportStep r"
  have e: "step_args ?s = [''-X'', st_method ?s, st_url ?s]" "st_token ?s = mr_fromToken r"
    by (simp_all add: step_args_def buildExportStep_def)
  obtain av where av: "runCurl env [''-X'', st_method ?s, st_url ?s] (st_token ?s) [] = ([Curl (mr_fromToken r) av, DropHeader h], Inr body)"
    using assms(2,3) by (auto simp: runCurl_def e Let_def)
  have "migrate_try env r [] = ([Curl (mr_fromToken r) av, DropHeader h], r\<lparr>mr_artifactFile := f\<rparr>,
      Some (''export response '' @ quoted ''file'' @ '' field rejected: '' @ validateArtifactFile f))"
    unfolding migrate_try_def Let_def av using assms(4-6) by simp
  then show ?thesis using assms(1,5) by (simp add: migrateCommand_def migrate_cleanup_def artifact_path_def)
qed

definition hostile_env :: migrate_env where
  "hostile_env = willing_env\<lparr>me_reply := (\<lambda>_. Some (DQ # ''file'' @ DQ # CHR '':'' # DQ # ''../../etc/passwd'' @ [DQ]))\<rparr>"

theorem migrate_rejected_name_unlinked_witness:
  "UnlinkFile ''/tmp/w/../../etc/passwd'' \<in> set (fst (migrateCommand hostile_env willing_args))"
proof -
  have r: "migrate_request hostile_env willing_args = Inr willing_request"
    and f: "extractFileField (DQ # ''file'' @ DQ # CHR '':'' # DQ # ''../../etc/passwd'' @ [DQ]) = ''../../etc/passwd''"
    and n: "validateArtifactFile ''../../etc/passwd'' \<noteq> []" by code_simp+
  show ?thesis
    using migrate_rejected_name_unlinked [OF r _ _ f _ n, of "''/tmp/h''"]
    by (simp add: hostile_env_def willing_env_def willing_request_def)
qed

text \<open>The port is not bounded before it is accumulated: a number of twenty digits is accepted as port 1.\<close>

lemma port_wraps: "migrate_validatePort ''18446744073709551617'' = []"
  by code_simp

end
