(* ===== verification/Lifecycle.thy ===== *)
theory Lifecycle
  imports Replication AutoFw PrivOpsLaws
begin

text \<open>
  The commands of \<^verbatim>\<open>lib/lifecycle.cpp\<close>: stop and restart as sequences of actions on a host that answers
  depending on what was done to it before, the choice and the tail of a log file, and the reader of interface
  counters in \<^verbatim>\<open>lib/lifecycle_pure.cpp\<close>. What the kernel answers after a sequence of actions is an argument.
\<close>

section \<open>Stopping\<close>

text \<open>A signal to every process of a jail, a second of sleep, the removal of a jail, and the two ways to run.\<close>

datatype life_act = Sig nat string | Nap | Remove JailInfo | Run_file string | Run_warm string string

datatype stop_result = Stopped | Still_running | Not_found nat

text \<open>What libjail answers, as a function of the actions so far.\<close>

type_synonym life_view = "life_act list \<Rightarrow> jail_view"

definition look :: "life_view \<Rightarrow> nat \<Rightarrow> life_act list \<Rightarrow> JailInfo option" where
  "look view jid tr = jv_byJid (view tr) jid"

fun wait_exit :: "life_view \<Rightarrow> nat \<Rightarrow> nat \<Rightarrow> life_act list \<Rightarrow> life_act list \<times> bool" where
  "wait_exit view jid 0 tr = (tr, False)"
| "wait_exit view jid (Suc n) tr =
     (if look view jid tr = None then (tr, True) else wait_exit view jid n (tr @ [Nap]))"

definition stopCrate :: "life_view \<Rightarrow> nat \<Rightarrow> string \<Rightarrow> life_act list \<Rightarrow> life_act list \<times> stop_result" where
  "stopCrate view timeout target tr =
     (case findContainer (view tr) target of
        (None, n) \<Rightarrow> (tr, Not_found n)
      | (Some jail, _) \<Rightarrow>
        let jid = nat (ji_jid jail) in
        case wait_exit view jid timeout (tr @ [Sig jid ''TERM'']) of
          (tr2, True) \<Rightarrow> (tr2, Stopped)
        | (tr2, False) \<Rightarrow>
          let tr3 = tr2 @ [Sig jid ''KILL'', Nap];
              tr4 = (if look view jid tr3 \<noteq> None then tr3 @ [Remove jail] else tr3) in
          case look view jid tr4 of
            Some survivor \<Rightarrow> if \<not> ji_dying survivor then (tr4, Still_running) else (tr4, Stopped)
          | None \<Rightarrow> (tr4, Stopped))"

section \<open>Restarting\<close>

definition filePathToBareName :: "string \<Rightarrow> string" where
  "filePathToBareName path =
     (let p = last (split_on (CHR ''/'') path) in
      case cut_at (CHR ''.'') p of None \<Rightarrow> p | Some (a, _) \<Rightarrow> a)"

datatype restart_result = R_notfound nat | R_throws err | R_no_spec | R_stop_failed | R_started

definition restart_file :: "(string \<Rightarrow> bool) \<Rightarrow> SpecEntry option \<Rightarrow> string \<Rightarrow> string \<Rightarrow> string" where
  "restart_file exists_file reg containerName jailPath =
     (let f0 = (case reg of Some e \<Rightarrow> sp_cratePath e | None \<Rightarrow> []) in
      if f0 = [] \<or> \<not> exists_file f0 then
        let f1 = ''/var/run/crate/'' @ containerName @ ''.crate'' in
        if exists_file f1 then f1 else ''/var/run/crate/'' @ filePathToBareName jailPath @ ''.crate''
      else f0)"

definition restartCrate ::
  "life_view \<Rightarrow> (string \<Rightarrow> bool) \<Rightarrow> err \<Rightarrow> spec_file \<Rightarrow> nat \<Rightarrow> string \<Rightarrow> life_act list \<Rightarrow> life_act list \<times> restart_result" where
  "restartCrate view exists_file rd regfile timeout target tr =
     (case findContainer (view tr) target of
        (None, n) \<Rightarrow> (tr, R_notfound n)
      | (Some jail, _) \<Rightarrow>
        let containerName = containerNameOfJail (ji_name jail) (ji_path jail) in
        case lookupEntry rd containerName regfile of
          Inl e \<Rightarrow> (tr, R_throws e)
        | Inr reg \<Rightarrow>
          let warm = (case reg of Some e \<Rightarrow> sp_warmBase e \<noteq> [] | None \<Rightarrow> False);
              crateFile = (if warm then [] else restart_file exists_file reg containerName (ji_path jail)) in
          if \<not> warm \<and> \<not> exists_file crateFile then (tr, R_no_spec)
          else case stopCrate view timeout (ji_name jail) tr of
            (tr', Stopped) \<Rightarrow>
              (tr' @ [if warm then Run_warm (sp_warmBase (the reg)) containerName else Run_file crateFile], R_started)
          | (tr', _) \<Rightarrow> (tr', R_stop_failed))"

section \<open>Logs\<close>

definition log_file :: "(string \<Rightarrow> bool) \<Rightarrow> jail_view \<Rightarrow> string \<Rightarrow> string option" where
  "log_file exists_file v target =
     (let dir = ''/var/log/crate/'' @ target in
      if exists_file (dir @ ''/console.log'') then Some (dir @ ''/console.log'')
      else if exists_file (dir @ ''/stdout.log'') then Some (dir @ ''/stdout.log'')
      else case fst (findContainer v target) of
        None \<Rightarrow> None
      | Some jail \<Rightarrow>
        if ji_path jail \<noteq> [] \<and> exists_file (ji_path jail @ ''/var/log/messages'')
        then Some (ji_path jail @ ''/var/log/messages'') else None)"

text \<open>The buffer of the last lines: push at the back, pop at the front when it is too long.\<close>

definition tail_push :: "nat \<Rightarrow> string list \<Rightarrow> string \<Rightarrow> string list" where
  "tail_push n buf l = (let buf' = buf @ [l] in if length buf' > n then tl buf' else buf')"

definition log_output :: "nat \<Rightarrow> string \<Rightarrow> string list" where
  "log_output logsTail text_of_file =
     (if logsTail > 0 then foldl (tail_push logsTail) [] (getlines text_of_file) else getlines text_of_file)"

text \<open>Follow mode does not end; it prints what is appended to the file it opened.\<close>

datatype logs_result = Logs_refused err | Logs_none | Logs_unreadable | Logs_follow string | Logs_lines "string list"

definition logsCrate ::
  "(string \<Rightarrow> bool) \<Rightarrow> (string \<Rightarrow> string option) \<Rightarrow> jail_view \<Rightarrow> bool \<Rightarrow> nat \<Rightarrow> string \<Rightarrow> logs_result" where
  "logsCrate exists_file read_file v follow logsTail target =
     (let e = warm_validateJailName target in
      if e \<noteq> [] then Logs_refused (''logs: invalid container name: '' @ e)
      else case log_file exists_file v target of
        None \<Rightarrow> Logs_none
      | Some f \<Rightarrow>
        (case read_file f of
           None \<Rightarrow> Logs_unreadable
         | Some content \<Rightarrow> if follow then Logs_follow f else Logs_lines (log_output logsTail content)))"

section \<open>Interface counters\<close>

type_synonym u64 = "64 word"

text \<open>The digits of a number below \<^verbatim>\<open>to\<close>, with the two overflow tests.\<close>

fun counter_digits :: "nat \<Rightarrow> u64 \<Rightarrow> string \<Rightarrow> u64 option" where
  "counter_digits n v [] = Some v"
| "counter_digits n v (c # cs) =
     (if \<not> is_digit c then Some v
      else let d = of_nat (digit_val c) in
        if n + 1 > 20 \<or> v > (- 1 - d) div 10 then None else counter_digits (n + 1) (v * 10 + d) cs)"

text \<open>
  \<^verbatim>\<open>numberAfterKey\<close>: the bound \<^verbatim>\<open>to\<close> is the end of the object, so the text is split there first. The search itself
  may run past the bound; a match that starts at or after it is rejected, and so is a match that does not fit
  before it, because no digit is left.
\<close>

definition numberAfterKey :: "string \<Rightarrow> string \<Rightarrow> u64 option" where
  "numberAfterKey obj key =
     (case cut_first (DQ # key @ [DQ, CHR '':'']) obj of
        None \<Rightarrow> None
      | Some (_, r) \<Rightarrow>
        let r' = dropWhile (\<lambda>c. c = CHR '' '' \<or> c = CHR 0x09) r in
        if r' = [] \<or> \<not> is_digit (hd r') then None else counter_digits 0 0 r')"

text \<open>The object around the name: from the last opening brace before it to the next closing brace.\<close>

definition object_around :: "string \<Rightarrow> string \<Rightarrow> string option" where
  "object_around json nameField =
     (case cut_first nameField json of
        None \<Rightarrow> None
      | Some (before, after) \<Rightarrow>
        if CHR 0x7B \<notin> set before then None
        else case cut_at (CHR 0x7D) (nameField @ after) of
          None \<Rightarrow> None
        | Some (inside, _) \<Rightarrow> Some (CHR 0x7B # last (split_on (CHR 0x7B) before) @ inside))"

definition parseNetstatIfaceBytesJson :: "string \<Rightarrow> string \<Rightarrow> (u64 \<times> u64) option" where
  "parseNetstatIfaceBytesJson json iface =
     (if iface = [] \<or> json = [] \<or> hd json \<noteq> CHR 0x7B then None
      else case object_around json (DQ # ''name'' @ DQ # CHR '':'' # DQ # iface @ [DQ]) of
        None \<Rightarrow> None
      | Some obj \<Rightarrow>
        (case numberAfterKey obj ''received-bytes'' of
           None \<Rightarrow> None
         | Some i \<Rightarrow> (case numberAfterKey obj ''sent-bytes'' of None \<Rightarrow> None | Some out \<Rightarrow> Some (i, out))))"


section \<open>What a stop did\<close>

text \<open>The trace of a stop of a jail that never goes away before the end of its wait.\<close>

abbreviation waited :: "life_act list \<Rightarrow> nat \<Rightarrow> nat \<Rightarrow> life_act list" where
  "waited tr jid k \<equiv> tr @ Sig jid ''TERM'' # replicate k Nap"

definition finished :: "JailInfo option \<Rightarrow> bool" where
  "finished v \<longleftrightarrow> (case v of None \<Rightarrow> True | Some j \<Rightarrow> ji_dying j)"

lemma finished_cases [simp]: "finished None" "finished (Some j) \<longleftrightarrow> ji_dying j"
  by (simp_all add: finished_def)

lemma wait_exit_steps:
  "wait_exit view jid n tr = (tr', b) \<Longrightarrow>
   \<exists>k\<le>n. tr' = tr @ replicate k Nap \<and> (\<forall>i<k. look view jid (tr @ replicate i Nap) \<noteq> None) \<and>
     (if b then k < n \<and> look view jid tr' = None else k = n)"
proof (induction n arbitrary: tr)
  case (Suc n)
  show ?case
  proof (cases "look view jid tr = None")
    case True
    then show ?thesis using Suc.prems by (intro exI [of _ 0]) (auto split: if_splits)
  next
    case False
    then obtain k where k: "k \<le> n" "tr' = (tr @ [Nap]) @ replicate k Nap"
        "\<forall>i<k. look view jid ((tr @ [Nap]) @ replicate i Nap) \<noteq> None"
        "if b then k < n \<and> look view jid tr' = None else k = n"
      using Suc.IH [of "tr @ [Nap]"] Suc.prems by auto
    have "look view jid (tr @ replicate i Nap) \<noteq> None" if "i < Suc k" for i
      using that False k(3) by (cases i) (auto simp: replicate_app_Cons_same)
    then show ?thesis using k by (intro exI [of _ "Suc k"]) (auto split: if_splits)
  qed
qed simp

lemma stop_found:
  "findContainer (view tr) target = (Some jail, n) \<Longrightarrow>
   stopCrate view timeout target tr =
     (let jid = nat (ji_jid jail); w = wait_exit view jid timeout (tr @ [Sig jid ''TERM'']);
          tr3 = fst w @ [Sig jid ''KILL'', Nap]; tr4 = (if look view jid tr3 \<noteq> None then tr3 @ [Remove jail] else tr3) in
      if snd w then (fst w, Stopped) else (tr4, if finished (look view jid tr4) then Stopped else Still_running))"
  by (auto simp: stopCrate_def Let_def split: prod.splits option.splits bool.splits)

lemma stop_not_found:
  "findContainer (view tr) target = (None, n) \<Longrightarrow> stopCrate view timeout target tr = (tr, Not_found n)"
  by (simp add: stopCrate_def)

lemma stop_result_cases:
  assumes "findContainer (view tr) target = (Some jail, n)" "stopCrate view timeout target tr = (tr', r)"
  shows "r = Stopped \<longleftrightarrow> finished (look view (nat (ji_jid jail)) tr')" "r = Stopped \<or> r = Still_running"
proof -
  obtain w b where w: "wait_exit view (nat (ji_jid jail)) timeout (tr @ [Sig (nat (ji_jid jail)) ''TERM'']) = (w, b)" by fastforce
  from wait_exit_steps [OF w] have "b \<Longrightarrow> look view (nat (ji_jid jail)) w = None" by auto
  then show "r = Stopped \<longleftrightarrow> finished (look view (nat (ji_jid jail)) tr')" "r = Stopped \<or> r = Still_running"
    using assms(2) w by (auto simp: stop_found assms(1) Let_def split: if_splits)
qed

text \<open>
  C31. Stopping a container that is found: SIGTERM first, then one second of sleep after each look that still shows
  the jail; when the jail goes away within the timeout nothing more is done. Otherwise SIGKILL follows, exactly after
  \<^verbatim>\<open>timeout\<close> looks that all showed the jail, and the jail is removed when it is still there one second later. The
  command reports success exactly when, at its end, the jail is gone or dying.
\<close>

theorem stop_tells_truth:
  assumes "findContainer (view tr) target = (Some jail, n)" "stopCrate view timeout target tr = (tr', r)"
  shows "(r = Stopped \<longleftrightarrow> finished (look view (nat (ji_jid jail)) tr')) \<and> (r = Still_running \<longleftrightarrow> r \<noteq> Stopped) \<and>
    (\<exists>k\<le>timeout. (\<forall>i<k. look view (nat (ji_jid jail)) (waited tr (nat (ji_jid jail)) i) \<noteq> None) \<and>
       (if k < timeout then tr' = waited tr (nat (ji_jid jail)) k \<and> look view (nat (ji_jid jail)) tr' = None
        else let tr3 = waited tr (nat (ji_jid jail)) timeout @ [Sig (nat (ji_jid jail)) ''KILL'', Nap] in
          tr' = (if look view (nat (ji_jid jail)) tr3 = None then tr3 else tr3 @ [Remove jail])))"
proof -
  let ?jid = "nat (ji_jid jail)" and ?start = "tr @ [Sig (nat (ji_jid jail)) ''TERM'']"
  obtain w b where w: "wait_exit view ?jid timeout ?start = (w, b)" by fastforce
  then obtain k where k: "k \<le> timeout" "w = waited tr ?jid k"
      "\<forall>i<k. look view ?jid (waited tr ?jid i) \<noteq> None"
      "if b then k < timeout \<and> look view ?jid w = None else k = timeout"
    using wait_exit_steps [OF w] by auto
  show ?thesis
  proof (cases b)
    case True
    then have "tr' = w" "r = Stopped" using assms(2) w by (simp_all add: stop_found assms(1))
    then show ?thesis using k True by auto
  next
    case False
    define tr4 where "tr4 = (let tr3 = w @ [Sig ?jid ''KILL'', Nap] in if look view ?jid tr3 = None then tr3 else tr3 @ [Remove jail])"
    have "tr' = tr4 \<and> r = (if finished (look view ?jid tr4) then Stopped else Still_running)"
      using assms(2) w False by (auto simp: stop_found assms(1) tr4_def Let_def split: if_splits)
    moreover have "tr4 = (let tr3 = waited tr ?jid timeout @ [Sig ?jid ''KILL'', Nap] in if look view ?jid tr3 = None then tr3 else tr3 @ [Remove jail])"
      using k(2,4) False by (simp add: tr4_def)
    ultimately show ?thesis using k False by (auto simp: Let_def)
  qed
qed

text \<open>A host whose jail ends only when it receives SIGKILL.\<close>

definition life_jail :: JailInfo where
  "life_jail = \<lparr>ji_jid = 3, ji_name = ''web'', ji_path = ''/j'', ji_hostname = [], ji_ip4 = [], ji_dying = False\<rparr>"

definition life_host :: life_view where
  "life_host tr = (let j = (if Sig 3 ''KILL'' \<in> set tr then None else Some life_jail) in
     \<lparr>jv_byName = (\<lambda>n. if n = ''web'' then j else None), jv_byJid = (\<lambda>i. if i = 3 then j else None), jv_crate = []\<rparr>)"

lemma life_host_runs:
  "findContainer (life_host []) ''web'' = (Some life_jail, 1)"
  "stopCrate life_host 2 ''web'' [] =
     ([Sig 3 ''TERM'', Nap, Nap, Sig 3 ''KILL'', Nap], Stopped)"
  by (simp_all add: stopCrate_def findContainer_def life_host_def life_jail_def look_def Let_def numeral_2_eq_2)

theorem stop_tells_truth_witness:
  "finished (look life_host 3 [Sig 3 ''TERM'', Nap, Nap, Sig 3 ''KILL'', Nap])"
  using stop_tells_truth [of life_host "[]" "''web''" life_jail 1 2, OF life_host_runs] by (simp add: life_jail_def)

section \<open>What a restart did\<close>

lemma stop_extends:
  assumes "stopCrate view timeout target tr = (tr', r)"
  shows "\<exists>more. tr' = tr @ more \<and> (\<forall>a\<in>set more. (\<exists>i s. a = Sig i s) \<or> a = Nap \<or> (\<exists>j. a = Remove j))"
proof (cases "findContainer (view tr) target")
  case (Pair found n)
  show ?thesis
  proof (cases found)
    case None
    then show ?thesis using assms Pair by (simp add: stop_not_found)
  next
    case (Some jail)
    let ?jid = "nat (ji_jid jail)"
    obtain w b where w: "wait_exit view ?jid timeout (tr @ [Sig ?jid ''TERM'']) = (w, b)" by fastforce
    then obtain k where "w = waited tr ?jid k" using wait_exit_steps [OF w] by auto
    then show ?thesis
      using assms w Pair Some by (auto simp: stop_found Let_def split: if_splits)
  qed
qed

definition can_start :: "(string \<Rightarrow> bool) \<Rightarrow> SpecEntry option \<Rightarrow> string \<Rightarrow> life_act \<Rightarrow> bool" where
  "can_start exists_file reg name a =
     (case a of
        Run_file f \<Rightarrow> exists_file f \<and> (\<forall>e. reg = Some e \<longrightarrow> sp_warmBase e = [] \<and> (exists_file (sp_cratePath e) \<and> sp_cratePath e \<noteq> [] \<longrightarrow> f = sp_cratePath e))
      | Run_warm b n \<Rightarrow> b \<noteq> [] \<and> n = name \<and> map_option sp_warmBase reg = Some b
      | _ \<Rightarrow> False)"

text \<open>
  Restarting a container whose name the kernel gives to one jail. A container that nobody could start again (the
  registry cannot be read, or no file and no warm template is known) is left alone: nothing at all is done to the
  host. Otherwise it is stopped, and it is started exactly when the stop ended with the jail gone or dying, once, as
  the last action, from the registered warm template or from a file that exists (the registered one when it does).
  A failed stop never starts a second instance.
\<close>

theorem restart_never_doubles:
  assumes "findContainer (view tr) target = (Some jail, n)"
    "ji_name jail \<noteq> []" "jv_byName (view tr) (ji_name jail) = Some jail"
    "restartCrate view exists_file rd regfile timeout target tr = (tr', r)"
  shows "((r = R_no_spec \<or> (\<exists>e. r = R_throws e)) \<and> tr' = tr) \<or>
    (\<exists>more reg. lookupEntry rd (containerNameOfJail (ji_name jail) (ji_path jail)) regfile = Inr reg \<and>
       (\<forall>a\<in>set more. (\<exists>i s. a = Sig i s) \<or> a = Nap \<or> (\<exists>j. a = Remove j)) \<and>
       (if finished (look view (nat (ji_jid jail)) (tr @ more))
        then r = R_started \<and> (\<exists>a. tr' = tr @ more @ [a] \<and>
          can_start exists_file reg (containerNameOfJail (ji_name jail) (ji_path jail)) a)
        else r = R_stop_failed \<and> tr' = tr @ more))"
proof -
  let ?name = "containerNameOfJail (ji_name jail) (ji_path jail)"
  have f: "findContainer (view tr) (ji_name jail) = (Some jail, 1)" using assms(2,3) by (simp add: findContainer_def)
  show ?thesis
  proof (cases "lookupEntry rd ?name regfile")
    case (Inl e)
    then show ?thesis using assms(1,4) by (auto simp: restartCrate_def Let_def)
  next
    case (Inr reg)
    define warm where "warm = (case reg of Some e \<Rightarrow> sp_warmBase e \<noteq> [] | None \<Rightarrow> False)"
    define path where "path = restart_file exists_file reg ?name (ji_path jail)"
    define act where "act = (if warm then Run_warm (sp_warmBase (the reg)) ?name else Run_file path)"
    show ?thesis
    proof (cases "\<not> warm \<and> \<not> exists_file path")
      case True
      then show ?thesis using assms(1,4) Inr
        by (auto simp: restartCrate_def Let_def warm_def [symmetric] path_def split: if_splits option.splits)
    next
      case False
      obtain t s where st: "stopCrate view timeout (ji_name jail) tr = (t, s)" by fastforce
      obtain more where more: "t = tr @ more" "\<forall>a\<in>set more. (\<exists>i s. a = Sig i s) \<or> a = Nap \<or> (\<exists>j. a = Remove j)"
        using stop_extends [OF st] by blast
      have res: "(tr', r) = (case s of Stopped \<Rightarrow> (t @ [act], R_started) | _ \<Rightarrow> (t, R_stop_failed))"
        using assms(1,4) Inr False st
        by (auto simp: restartCrate_def Let_def warm_def [symmetric] path_def act_def split: if_splits stop_result.splits)
      have ok: "can_start exists_file reg ?name act"
        using False by (auto simp: can_start_def act_def warm_def path_def restart_file_def Let_def split: option.splits if_splits)
      have "s = Stopped \<longleftrightarrow> finished (look view (nat (ji_jid jail)) t)" "s = Stopped \<or> s = Still_running"
        using stop_result_cases [of view tr, OF f st] by auto
      then show ?thesis using res ok more Inr by (intro disjI2 exI [of _ more] exI [of _ reg]) (auto split: stop_result.splits)
    qed
  qed
qed


text \<open>A registry file with one line for the container, naming a crate file that exists.\<close>

lemma life_host_restarts:
  "restartCrate life_host (\<lambda>f. f = ''/w.crate'') [] (Some ''web /w.crate'') 0 ''web'' [] =
     ([Sig 3 ''TERM'', Sig 3 ''KILL'', Nap, Run_file ''/w.crate''], R_started)"
  by code_simp

lemma life_host_sane: "ji_name life_jail \<noteq> []" "jv_byName (life_host []) (ji_name life_jail) = Some life_jail"
  by (simp_all add: life_jail_def life_host_def Let_def)

theorem restart_never_doubles_witness:
  "\<exists>reg. lookupEntry [] (containerNameOfJail ''web'' ''/j'') (Some ''web /w.crate'') = Inr reg \<and>
     can_start (\<lambda>f. f = ''/w.crate'') reg (containerNameOfJail ''web'' ''/j'') (Run_file ''/w.crate'')"
proof -
  have n: "ji_name life_jail = ''web''" "ji_path life_jail = ''/j''" by (simp_all add: life_jail_def)
  show ?thesis
    using restart_never_doubles [of life_host "[]" "''web''" life_jail 1, OF life_host_runs(1) life_host_sane life_host_restarts]
    unfolding n by (auto simp: append_eq_Cons_conv Cons_eq_append_conv split: if_splits)
qed

section \<open>The tail of a log\<close>

lemma tail_push_last:
  assumes "buf = drop (length ls - n) ls"
  shows "tail_push n buf l = drop (Suc (length ls) - n) (ls @ [l])"
proof (cases "length ls < n")
  case False
  then have "tail_push n buf l = tl (drop (length ls - n) (ls @ [l]))" using assms by (simp add: tail_push_def)
  also have "\<dots> = drop (Suc (length ls - n)) (ls @ [l])" by (simp only: drop_Suc tl_drop)
  finally show ?thesis using False by (simp add: Suc_diff_le)
qed (use assms in \<open>simp add: tail_push_def\<close>)

lemma tail_pushes: "foldl (tail_push n) [] ls = drop (length ls - n) ls"
  by (induction ls rule: rev_induct) (simp_all add: tail_push_last)

lemma warm_name_component:
  assumes "warm_validateJailName n = []"
  shows "n \<noteq> [] \<and> n \<noteq> ''.'' \<and> n \<noteq> ''..'' \<and> CHR ''/'' \<notin> set n"
proof -
  have "\<not> stack_name_char (CHR ''/'')" by (simp add: stack_name_char_def is_alnum_def is_digit_def)
  then show ?thesis using assms by (auto simp: warm_validateJailName_def fail_if_def bad_char_ok list_all_iff split: if_splits)
qed

text \<open>
  What \<^verbatim>\<open>crate logs\<close> prints without follow mode: the last \<^verbatim>\<open>--tail\<close> lines, in their order, of one readable file, or
  all its lines when no number is given; the queue never holds more lines than asked for. The file is a log in the
  directory of the named container, where the name is a single path component, or the messages file of the running
  jail of that name.
\<close>

theorem logs_print_tail:
  assumes "logsCrate exists_file read_file v False n target = Logs_lines out"
  shows "(\<exists>f content. read_file f = Some content \<and>
      out = (if n = 0 then getlines content else drop (length (getlines content) - n) (getlines content)) \<and>
      target \<noteq> ''..'' \<and> target \<noteq> ''.'' \<and> CHR ''/'' \<notin> set target \<and>
      (f \<in> {''/var/log/crate/'' @ target @ ''/console.log'', ''/var/log/crate/'' @ target @ ''/stdout.log''} \<or>
       (\<exists>jail. fst (findContainer v target) = Some jail \<and> f = ji_path jail @ ''/var/log/messages''))) \<and>
    (n > 0 \<longrightarrow> length out \<le> n)"
proof -
  from assms obtain f content where f: "log_file exists_file v target = Some f" "read_file f = Some content"
      "out = log_output n content" and w: "warm_validateJailName target = []"
    by (auto simp: logsCrate_def Let_def split: if_splits option.splits)
  have "f \<in> {''/var/log/crate/'' @ target @ ''/console.log'', ''/var/log/crate/'' @ target @ ''/stdout.log''} \<or>
       (\<exists>jail. fst (findContainer v target) = Some jail \<and> f = ji_path jail @ ''/var/log/messages'')"
    using f(1) by (auto simp: log_file_def Let_def split: if_splits option.splits)
  moreover have "out = (if n = 0 then getlines content else drop (length (getlines content) - n) (getlines content))"
    using f(3) by (simp add: log_output_def tail_pushes)
  ultimately show ?thesis using f(2) warm_name_component [OF w] by auto
qed

lemma logs_sample:
  "logsCrate (\<lambda>f. f = ''/var/log/crate/web/stdout.log'') (\<lambda>_. Some (''a'' @ NL # ''b'' @ NL # ''c'' @ [NL])) (life_host []) False 2 ''web'' =
     Logs_lines [''b'', ''c'']"
  by code_simp

theorem logs_print_tail_witness: "length [''b'', ''c''] \<le> 2"
  using logs_print_tail [OF logs_sample] by simp

section \<open>Counters are read exactly\<close>

lemma u64_step:
  fixes v :: u64
  assumes "d < 10"
  shows "v > (- 1 - of_nat d) div 10 \<longleftrightarrow> unat v * 10 + d \<ge> 2 ^ 64"
    and "unat v * 10 + d < 2 ^ 64 \<Longrightarrow> unat (v * 10 + of_nat d) = unat v * 10 + d"
proof -
  have d: "unat (of_nat d :: u64) = d" using assms by (simp add: unat_of_nat)
  have m: "unat (- 1 :: u64) = 2 ^ 64 - 1" by (simp add: unsigned_minus_1_eq_mask mask_eq_exp_minus_1)
  have "of_nat d \<le> (- 1 :: u64)" by simp
  then have "unat (- 1 - of_nat d :: u64) = 2 ^ 64 - 1 - d" by (simp only: unat_sub d m)
  then have "unat ((- 1 - of_nat d) div 10 :: u64) = (2 ^ 64 - 1 - d) div 10" by (simp only: unat_div_distrib) simp
  then show "v > (- 1 - of_nat d) div 10 \<longleftrightarrow> unat v * 10 + d \<ge> 2 ^ 64"
    using assms by (simp only: word_less_nat_alt) (simp add: div_less_iff_less_mult, linarith)
  show "unat v * 10 + d < 2 ^ 64 \<Longrightarrow> unat (v * 10 + of_nat d) = unat v * 10 + d"
    by (simp add: unat_word_ariths d)
qed

lemma counter_digits_exact:
  assumes "list_all is_digit ds" "rest = [] \<or> \<not> is_digit (hd rest)"
  shows "counter_digits n v (ds @ rest) =
    (if (ds = [] \<or> n + length ds \<le> 20) \<and> unat v * 10 ^ length ds + dec_val ds < 2 ^ 64
     then Some (of_nat (unat v * 10 ^ length ds + dec_val ds)) else None)"
  using assms(1)
proof (induction ds arbitrary: n v)
  case Nil
  have "unat v < 2 ^ 64" using unsigned_less [of v] by simp
  then show ?case using assms(2) by (cases rest) simp_all
next
  case (Cons c ds)
  then have c: "digit_val c < 10" "is_digit c" "list_all is_digit ds" by simp_all
  let ?v = "unat v * 10 + digit_val c"
  have total: "unat v * 10 ^ length (c # ds) + dec_val (c # ds) = ?v * 10 ^ length ds + dec_val ds"
    by (simp add: dec_val_Cons algebra_simps)
  show ?case
  proof (cases "?v < 2 ^ 64")
    case True
    note u = u64_step(2) [OF c(1) True]
    show ?thesis using c True Cons.IH [OF c(3), of "n + 1" "v * 10 + of_nat (digit_val c)"]
      unfolding total by (auto simp: u64_step(1) [OF c(1)] u Let_def)
  next
    case False
    moreover have "?v \<le> ?v * 10 ^ length ds" by simp
    ultimately have "\<not> ?v * 10 ^ length ds + dec_val ds < 2 ^ 64" by linarith
    then show ?thesis using c False unfolding total by (auto simp: u64_step(1) [OF c(1)] Let_def)
  qed
qed

text \<open>
  A counter is read exactly or not at all. In the object of the interface, the digits that follow the key and its
  blanks give their decimal value when it fits 64 bits, with at most twenty digits; a longer or larger number is
  refused, never wrapped.
\<close>

theorem numberAfterKey_exact:
  assumes "cut_first (DQ # key @ [DQ, CHR '':'']) obj = Some (p, blanks @ ds @ rest)"
    "list_all (\<lambda>c. c = CHR '' '' \<or> c = CHR 0x09) blanks" "ds \<noteq> []" "list_all is_digit ds" "rest = [] \<or> \<not> is_digit (hd rest)"
  shows "numberAfterKey obj key = (if length ds \<le> 20 \<and> dec_val ds < 2 ^ 64 then Some (of_nat (dec_val ds)) else None)"
proof -
  obtain d ds' where d: "ds = d # ds'" "is_digit d" using assms(3,4) by (cases ds) auto
  then have "dropWhile (\<lambda>c. c = CHR '' '' \<or> c = CHR 0x09) (ds @ rest) = ds @ rest" by (auto simp: is_digit_def)
  then have dw: "dropWhile (\<lambda>c. c = CHR '' '' \<or> c = CHR 0x09) (blanks @ ds @ rest) = ds @ rest"
    using assms(2) by (subst dropWhile_append2) (auto simp: list_all_iff)
  have "numberAfterKey obj key = counter_digits 0 0 (ds @ rest)"
    unfolding numberAfterKey_def assms(1) option.case prod.case Let_def dw using d by simp
  then show ?thesis using assms(3) counter_digits_exact [OF assms(4,5), of 0 0] by simp
qed

theorem numberAfterKey_exact_witness:
  "numberAfterKey (DQ # ''k'' @ DQ # '': 18446744073709551616,'') ''k'' = None"
  using numberAfterKey_exact [of "''k''" "DQ # ''k'' @ DQ # '': 18446744073709551616,''" "[]" "'' ''" "''18446744073709551616''" "'',''"]
  by (simp add: cut_first.simps starts_with_def is_digit_def dec_val_def digit_val_def)

end
