(* ===== verification/SpecModel.thy ===== *)
theory SpecModel
  imports Replication Rctl StdMap
begin

text \<open>
  The description of a container: the class \<^verbatim>\<open>Spec\<close> of \<^verbatim>\<open>lib/spec.h\<close>, its copy constructor, \<^verbatim>\<open>mergeSpecs\<close> and
  \<^verbatim>\<open>preprocess\<close> of \<^verbatim>\<open>lib/spec.cpp\<close>, and \<^verbatim>\<open>validate\<close> with the field validators of \<^verbatim>\<open>lib/spec_pure.cpp\<close>. Reading the YAML text
  is not modelled. The system configuration, the home directory, the output of pciconf and the set of script sections
  (a generated file) are arguments.
\<close>

section \<open>Device classes\<close>

record Devices =
  dv_sound :: bool
  dv_gpu :: bool
  dv_video :: bool
  dv_input :: bool
  dv_usb :: bool
  dv_serial :: bool
  dv_all :: bool

definition mergeDevices :: "Devices \<Rightarrow> Devices \<Rightarrow> Devices" where
  "mergeDevices a b =
     \<lparr>dv_sound = dv_sound a \<or> dv_sound b, dv_gpu = dv_gpu a \<or> dv_gpu b, dv_video = dv_video a \<or> dv_video b,
      dv_input = dv_input a \<or> dv_input b, dv_usb = dv_usb a \<or> dv_usb b, dv_serial = dv_serial a \<or> dv_serial b,
      dv_all = dv_all a \<or> dv_all b\<rparr>"

section \<open>The class\<close>

datatype net_mode = Mode_Nat | Mode_Bridge | Mode_Passthrough | Mode_Netgraph | Mode_Auto
datatype ip_mode = Ip_Auto | Ip_Static | Ip_Dhcp | Ip_None
datatype ip6_mode = Ip6_None | Ip6_Slaac | Ip6_Static

type_synonym PortRange = "u32 \<times> u32"

record ExtraInterface =
  ex_networkName :: string
  ex_mode :: net_mode
  ex_bridgeIface :: string
  ex_passthroughIface :: string
  ex_netgraphIface :: string
  ex_ipMode :: ip_mode
  ex_staticIp :: string
  ex_gateway :: string
  ex_ip6Mode :: ip6_mode
  ex_staticIp6 :: string
  ex_staticMac :: bool
  ex_vlanId :: int

record NetOptDetails =
  no_networkName :: string
  no_mode :: net_mode
  no_outboundWan :: bool
  no_outboundLan :: bool
  no_outboundHost :: bool
  no_outboundDns :: bool
  no_ipv6 :: bool
  no_inboundTcp :: "(PortRange \<times> PortRange) list"
  no_inboundUdp :: "(PortRange \<times> PortRange) list"
  no_bridgeIface :: string
  no_autoCreateBridge :: bool
  no_passthroughIface :: string
  no_netgraphIface :: string
  no_ipMode :: ip_mode
  no_staticIp :: string
  no_gateway :: string
  no_ip6Mode :: ip6_mode
  no_staticIp6 :: string
  no_staticMac :: bool
  no_vlanId :: int
  no_extra :: "ExtraInterface list"

text \<open>
  The details of an option; the entry of an option given by its name alone is a null pointer. The code casts an entry
  by its key; the parser stores only entries of the class that belongs to the key.
\<close>

datatype OptDetails = Opt_Net NetOptDetails | Opt_Tor bool | Opt_Wireguard string | Opt_Ipsec string string

record Share =
  sh_jail :: string
  sh_host :: string
  sh_readOnly :: bool

record Tmpfs =
  tf_path :: string
  tf_size :: string

record DnsFilter =
  df_allow :: "string list"
  df_block :: "string list"
  df_redirect :: string

record CowOptions =
  cow_mode :: string
  cow_backend :: string

record X11Options =
  x11_mode :: string
  x11_resolution :: string
  x11_clipboard :: bool

record ClipboardOptions =
  cb_mode :: string
  cb_direction :: string

record DbusOptions =
  db_systemBus :: bool
  db_sessionBus :: bool
  db_allowOwn :: "string list"
  db_denySend :: "string list"

record ManagedService =
  ms_name :: string
  ms_enable :: bool
  ms_rcvar :: string

record ProxyEntry =
  pe_host :: string
  pe_jail :: string
  pe_direction :: string

record SocketProxy =
  sx_share :: "string list"
  sx_proxy :: "ProxyEntry list"

record FirewallPolicy =
  fp_blockIp :: "string list"
  fp_allowTcp :: "u32 list"
  fp_allowUdp :: "u32 list"
  fp_default :: string

record SecurityAdvanced =
  sa_capsicum :: bool
  sa_macRules :: "string list"
  sa_macAllowPorts :: "u32 list"
  sa_hideOtherJails :: bool

record TerminalOptions =
  to_devfsRuleset :: int
  to_allowRawTty :: bool

record GuiOptions =
  gui_mode :: string
  gui_resolution :: string
  gui_vnc :: bool
  gui_vncNative :: bool
  gui_vncPort :: u32
  gui_novnc :: bool
  gui_vncPassword :: string
  gui_gpuDevice :: string
  gui_gpuDriver :: string
  gui_backend :: string
  gui_compositor :: string
  gui_vncBind :: string

record Healthcheck =
  hc_test :: string
  hc_interval :: u32
  hc_timeout :: u32
  hc_retries :: u32
  hc_startPeriod :: u32

record RestartPolicy =
  rs_policy :: string
  rs_maxRetries :: u32
  rs_delay :: u32

record BaseContainer =
  bc_type :: string
  bc_name :: string

record CronJob =
  cj_schedule :: string
  cj_command :: string
  cj_user :: string

text \<open>The members in four groups of the header, so that each record stays small.\<close>

record spec_content =
  baseKeep :: "string list"
  baseKeepWildcard :: "string list"
  baseRemove :: "string list"
  baseHostRo :: bool
  baseHostDirs :: "string list"
  pkgInstall :: "string list"
  pkgLocalOverride :: "(string \<times> string) list"
  pkgAdd :: "string list"
  pkgNuke :: "string list"
  pkgKeepPkg :: bool
  runCmdExecutable :: string
  runCmdArgs :: string
  runServices :: "string list"
  runUser :: string
  runTimeoutSec :: u32
  dirsShare :: "Share list"
  filesShare :: "Share list"
  tmpfs_list :: "Tmpfs list"
  etcKeep :: "string list"
  zfsDatasets :: "string list"

record spec_flags =
  allowSysvipc :: bool
  allowMqueue :: bool
  ipcRawSocketsOverride :: bool
  ipcRawSocketsValue :: bool
  diskQuota :: string
  encrypted :: bool
  encryptionMethod :: string
  encryptionKeyformat :: string
  encryptionCipher :: string
  enforceStatfs :: int
  allowQuotas :: bool
  allowSetHostname :: bool
  allowChflags :: bool
  allowMlock :: bool
  securelevel :: int
  childrenMax :: int
  cpuset :: string
  privacyHostid :: string
  privacyHostname :: string
  servicesAutoStart :: bool
  servicesAutoStartExplicit :: bool

record spec_blocks =
  dnsFilter :: "DnsFilter option"
  cowOptions :: "CowOptions option"
  x11Options :: "X11Options option"
  clipboardOptions :: "ClipboardOptions option"
  dbusOptions :: "DbusOptions option"
  socketProxy :: "SocketProxy option"
  firewallPolicy :: "FirewallPolicy option"
  securityAdvanced :: "SecurityAdvanced option"
  terminalOptions :: "TerminalOptions option"
  guiOptions :: "GuiOptions option"
  healthcheck :: "Healthcheck option"
  restartPolicy :: "RestartPolicy option"
  baseContainer :: "BaseContainer option"

record Spec =
  sp_content :: spec_content
  sp_flags :: spec_flags
  sp_blocks :: spec_blocks
  sp_options :: "(string, OptDetails option) stdmap"
  sp_limits :: "(string, string) stdmap"
  sp_managed :: "ManagedService list"
  sp_devices :: Devices
  sp_depends :: "string list"
  sp_cron :: "CronJob list"
  sp_scripts :: "(string, (string, string) stdmap) stdmap"

section \<open>Copying and merging\<close>

text \<open>
  The copy constructor lists the members one by one and has no entry for \<^verbatim>\<open>pkgKeepPkg\<close>, which therefore gets the
  initialiser of its declaration. The pointers of the options are shared with the original; the other pointers are
  cloned.
\<close>

definition copySpec :: "Spec \<Rightarrow> Spec" where
  "copySpec s = s\<lparr>sp_content := (sp_content s)\<lparr>pkgKeepPkg := True\<rparr>\<rparr>"

definition pick :: "string \<Rightarrow> string \<Rightarrow> string" where
  "pick b v = (if v \<noteq> [] then v else b)"

definition pick_opt :: "'a option \<Rightarrow> 'a option \<Rightarrow> 'a option" where
  "pick_opt b v = (case v of None \<Rightarrow> b | Some x \<Rightarrow> Some x)"

definition pick_int :: "int \<Rightarrow> int \<Rightarrow> int" where
  "pick_int b v = (if v \<ge> 0 then v else b)"

text \<open>A tmpfs of the overlay: the size of every entry with its path is replaced, or the entry is appended.\<close>

definition put_tmpfs :: "Tmpfs list \<Rightarrow> Tmpfs \<Rightarrow> Tmpfs list" where
  "put_tmpfs ts v =
     (if \<exists>t\<in>set ts. tf_path t = tf_path v
      then map (\<lambda>t. if tf_path t = tf_path v then t\<lparr>tf_size := tf_size v\<rparr> else t) ts else ts @ [v])"

definition put_new :: "string list \<Rightarrow> string \<Rightarrow> string list" where
  "put_new xs v = (if v \<in> set xs then xs else xs @ [v])"

definition put_all :: "('k::linorder, 'v) stdmap \<Rightarrow> ('k, 'v) stdmap \<Rightarrow> ('k, 'v) stdmap" where
  "put_all m w = foldl (\<lambda>m kv. map_put (fst kv) (snd kv) m) m w"

text \<open>\<^verbatim>\<open>result.scripts[s.first][sc.first] = sc.second\<close> for every script of every section; an empty section adds nothing.\<close>

definition put_section :: "(string, (string, string) stdmap) stdmap \<Rightarrow> string \<times> (string, string) stdmap \<Rightarrow> (string, (string, string) stdmap) stdmap" where
  "put_section m s =
     (if snd s = [] then m
      else map_put (fst s) (put_all (case map_find m (fst s) of None \<Rightarrow> [] | Some x \<Rightarrow> x) (snd s)) m)"

definition mergeContent :: "spec_content \<Rightarrow> spec_content \<Rightarrow> spec_content" where
  "mergeContent b v =
     \<lparr>baseKeep = baseKeep b @ baseKeep v, baseKeepWildcard = baseKeepWildcard b @ baseKeepWildcard v,
      baseRemove = baseRemove b @ baseRemove v, baseHostRo = baseHostRo b \<or> baseHostRo v,
      baseHostDirs = (if baseHostDirs v \<noteq> [] then baseHostDirs v else baseHostDirs b),
      pkgInstall = pkgInstall b @ pkgInstall v, pkgLocalOverride = pkgLocalOverride b @ pkgLocalOverride v,
      pkgAdd = pkgAdd b @ pkgAdd v, pkgNuke = pkgNuke b @ pkgNuke v, pkgKeepPkg = pkgKeepPkg b \<and> pkgKeepPkg v,
      runCmdExecutable = pick (runCmdExecutable b) (runCmdExecutable v),
      runCmdArgs = (if runCmdExecutable v \<noteq> [] then runCmdArgs v else runCmdArgs b),
      runServices = runServices b @ runServices v, runUser = pick (runUser b) (runUser v),
      runTimeoutSec = (if runTimeoutSec v \<noteq> 0 then runTimeoutSec v else runTimeoutSec b),
      dirsShare = dirsShare b @ dirsShare v, filesShare = filesShare b @ filesShare v,
      tmpfs_list = foldl put_tmpfs (tmpfs_list b) (tmpfs_list v), etcKeep = foldl put_new (etcKeep b) (etcKeep v),
      zfsDatasets = zfsDatasets b @ zfsDatasets v\<rparr>"

definition mergeFlags :: "spec_flags \<Rightarrow> spec_flags \<Rightarrow> spec_flags" where
  "mergeFlags b v =
     \<lparr>allowSysvipc = allowSysvipc b \<or> allowSysvipc v, allowMqueue = allowMqueue b \<or> allowMqueue v,
      ipcRawSocketsOverride = ipcRawSocketsOverride b \<or> ipcRawSocketsOverride v,
      ipcRawSocketsValue = (if ipcRawSocketsOverride v then ipcRawSocketsValue v else ipcRawSocketsValue b),
      diskQuota = pick (diskQuota b) (diskQuota v), encrypted = encrypted b \<or> encrypted v,
      encryptionMethod = pick (encryptionMethod b) (encryptionMethod v),
      encryptionKeyformat = pick (encryptionKeyformat b) (encryptionKeyformat v),
      encryptionCipher = pick (encryptionCipher b) (encryptionCipher v),
      enforceStatfs = pick_int (enforceStatfs b) (enforceStatfs v),
      allowQuotas = allowQuotas b \<or> allowQuotas v, allowSetHostname = allowSetHostname b \<or> allowSetHostname v,
      allowChflags = allowChflags b \<or> allowChflags v, allowMlock = allowMlock b \<or> allowMlock v,
      securelevel = pick_int (securelevel b) (securelevel v), childrenMax = pick_int (childrenMax b) (childrenMax v),
      cpuset = pick (cpuset b) (cpuset v), privacyHostid = pick (privacyHostid b) (privacyHostid v),
      privacyHostname = pick (privacyHostname b) (privacyHostname v),
      servicesAutoStart = (if servicesAutoStartExplicit v then servicesAutoStart v else servicesAutoStart b),
      servicesAutoStartExplicit = servicesAutoStartExplicit b \<or> servicesAutoStartExplicit v\<rparr>"

definition mergeBlocks :: "spec_blocks \<Rightarrow> spec_blocks \<Rightarrow> spec_blocks" where
  "mergeBlocks b v =
     \<lparr>dnsFilter = pick_opt (dnsFilter b) (dnsFilter v), cowOptions = pick_opt (cowOptions b) (cowOptions v),
      x11Options = pick_opt (x11Options b) (x11Options v), clipboardOptions = pick_opt (clipboardOptions b) (clipboardOptions v),
      dbusOptions = pick_opt (dbusOptions b) (dbusOptions v), socketProxy = pick_opt (socketProxy b) (socketProxy v),
      firewallPolicy = pick_opt (firewallPolicy b) (firewallPolicy v),
      securityAdvanced = pick_opt (securityAdvanced b) (securityAdvanced v),
      terminalOptions = pick_opt (terminalOptions b) (terminalOptions v), guiOptions = pick_opt (guiOptions b) (guiOptions v),
      healthcheck = pick_opt (healthcheck b) (healthcheck v), restartPolicy = pick_opt (restartPolicy b) (restartPolicy v),
      baseContainer = pick_opt (baseContainer b) (baseContainer v)\<rparr>"

text \<open>\<^verbatim>\<open>depends\<close> is first appended to and then replaced when the overlay has any.\<close>

definition mergeSpecs :: "Spec \<Rightarrow> Spec \<Rightarrow> Spec" where
  "mergeSpecs b v =
     \<lparr>sp_content = mergeContent (sp_content b) (sp_content v), sp_flags = mergeFlags (sp_flags b) (sp_flags v),
      sp_blocks = mergeBlocks (sp_blocks b) (sp_blocks v), sp_options = put_all (sp_options b) (sp_options v),
      sp_limits = put_all (sp_limits b) (sp_limits v), sp_managed = sp_managed b @ sp_managed v,
      sp_devices = mergeDevices (sp_devices b) (sp_devices v),
      sp_depends = (if sp_depends v \<noteq> [] then sp_depends v else sp_depends b @ sp_depends v),
      sp_cron = sp_cron b @ sp_cron v, sp_scripts = foldl put_section (sp_scripts b) (sp_scripts v)\<rparr>"

section \<open>Preprocessing\<close>

record NetworkDef =
  nd_mode :: string
  nd_bridge :: string
  nd_interface :: string
  nd_gateway :: string
  nd_vlan :: int
  nd_staticMac :: bool
  nd_ip6 :: string

record Settings =
  cfg_defaultBridge :: string
  cfg_staticMacDefault :: bool
  cfg_networks :: "(string, NetworkDef) stdmap"

definition optionExists :: "Spec \<Rightarrow> string \<Rightarrow> bool" where
  "optionExists s k \<longleftrightarrow> map_find (sp_options s) k \<noteq> None"

definition optionNet :: "Spec \<Rightarrow> NetOptDetails option" where
  "optionNet s = (case map_find (sp_options s) ''net'' of Some (Some (Opt_Net d)) \<Rightarrow> Some d | _ \<Rightarrow> None)"

definition optionTor :: "Spec \<Rightarrow> bool option" where
  "optionTor s = (case map_find (sp_options s) ''tor'' of Some (Some (Opt_Tor c)) \<Rightarrow> Some c | _ \<Rightarrow> None)"

definition optionWireguard :: "Spec \<Rightarrow> string option" where
  "optionWireguard s = (case map_find (sp_options s) ''wireguard'' of Some (Some (Opt_Wireguard p)) \<Rightarrow> Some p | _ \<Rightarrow> None)"

definition optionIpsec :: "Spec \<Rightarrow> string option" where
  "optionIpsec s = (case map_find (sp_options s) ''ipsec'' of Some (Some (Opt_Ipsec conn _)) \<Rightarrow> Some conn | _ \<Rightarrow> None)"

definition allowOutbound :: "NetOptDetails \<Rightarrow> bool" where
  "allowOutbound d \<longleftrightarrow> no_outboundWan d \<or> no_outboundLan d \<or> no_outboundHost d \<or> no_outboundDns d"

definition allowInbound :: "NetOptDetails \<Rightarrow> bool" where
  "allowInbound d \<longleftrightarrow> no_inboundTcp d \<noteq> [] \<or> no_inboundUdp d \<noteq> []"

definition isNatMode :: "NetOptDetails \<Rightarrow> bool" where
  "isNatMode d \<longleftrightarrow> no_mode d = Mode_Nat"

definition needsDhcp :: "NetOptDetails \<Rightarrow> bool" where
  "needsDhcp d \<longleftrightarrow> no_ipMode d = Ip_Dhcp"

definition plainNet :: NetOptDetails where
  "plainNet = \<lparr>no_networkName = [], no_mode = Mode_Nat, no_outboundWan = False, no_outboundLan = False, no_outboundHost = False,
     no_outboundDns = False, no_ipv6 = False, no_inboundTcp = [], no_inboundUdp = [], no_bridgeIface = [],
     no_autoCreateBridge = False, no_passthroughIface = [], no_netgraphIface = [], no_ipMode = Ip_Auto, no_staticIp = [],
     no_gateway = [], no_ip6Mode = Ip6_None, no_staticIp6 = [], no_staticMac = False, no_vlanId = -1, no_extra = []\<rparr>"

definition createDefaultNet :: NetOptDetails where
  "createDefaultNet = plainNet\<lparr>no_outboundWan := True, no_outboundLan := True, no_outboundHost := True, no_outboundDns := True\<rparr>"

definition expandAuto :: "Settings \<Rightarrow> NetOptDetails \<Rightarrow> NetOptDetails" where
  "expandAuto cfg d =
     (if no_mode d \<noteq> Mode_Auto then d
      else d\<lparr>no_mode := Mode_Bridge,
             no_bridgeIface := (if no_bridgeIface d \<noteq> [] then no_bridgeIface d
                                else if cfg_defaultBridge cfg = [] then ''crate0'' else cfg_defaultBridge cfg),
             no_autoCreateBridge := True\<rparr>)"

definition applyNetwork :: "NetworkDef \<Rightarrow> NetOptDetails \<Rightarrow> NetOptDetails" where
  "applyNetwork n d =
     d\<lparr>no_mode := (if no_mode d = Mode_Nat then
                     (if nd_mode n = ''bridge'' then Mode_Bridge else if nd_mode n = ''passthrough'' then Mode_Passthrough
                      else if nd_mode n = ''netgraph'' then Mode_Netgraph else no_mode d)
                   else no_mode d),
       no_bridgeIface := (if no_bridgeIface d = [] then nd_bridge n else no_bridgeIface d),
       no_passthroughIface := (if no_passthroughIface d = [] then nd_interface n else no_passthroughIface d),
       no_netgraphIface := (if no_netgraphIface d = [] then nd_interface n else no_netgraphIface d),
       no_gateway := (if no_gateway d = [] then nd_gateway n else no_gateway d),
       no_vlanId := (if no_vlanId d < 0 \<and> nd_vlan n \<ge> 0 then nd_vlan n else no_vlanId d),
       no_staticMac := no_staticMac d \<or> nd_staticMac n,
       no_ip6Mode := (if no_ip6Mode d = Ip6_None \<and> nd_ip6 n \<noteq> [] then
                        (if nd_ip6 n = ''slaac'' then Ip6_Slaac else if nd_ip6 n \<noteq> ''none'' then Ip6_Static else Ip6_None)
                      else no_ip6Mode d),
       no_staticIp6 := (if no_ip6Mode d = Ip6_None \<and> nd_ip6 n \<noteq> [] \<and> nd_ip6 n \<noteq> ''slaac'' \<and> nd_ip6 n \<noteq> ''none''
                        then nd_ip6 n else no_staticIp6 d)\<rparr>"

definition applyNetworkExtra :: "Settings \<Rightarrow> ExtraInterface \<Rightarrow> ExtraInterface" where
  "applyNetworkExtra cfg e =
     (if ex_networkName e = [] then e
      else case map_find (cfg_networks cfg) (ex_networkName e) of
        None \<Rightarrow> e
      | Some n \<Rightarrow>
        e\<lparr>ex_mode := (if nd_mode n = ''bridge'' \<and> ex_bridgeIface e = [] then Mode_Bridge
                      else if nd_mode n = ''passthrough'' \<and> ex_passthroughIface e = [] then Mode_Passthrough
                      else if nd_mode n = ''netgraph'' \<and> ex_netgraphIface e = [] then Mode_Netgraph else ex_mode e),
          ex_bridgeIface := (if ex_bridgeIface e = [] then nd_bridge n else ex_bridgeIface e),
          ex_passthroughIface := (if ex_passthroughIface e = [] then nd_interface n else ex_passthroughIface e),
          ex_netgraphIface := (if ex_netgraphIface e = [] then nd_interface n else ex_netgraphIface e),
          ex_gateway := (if ex_gateway e = [] then nd_gateway n else ex_gateway e),
          ex_vlanId := (if ex_vlanId e < 0 \<and> nd_vlan n \<ge> 0 then nd_vlan n else ex_vlanId e),
          ex_staticMac := ex_staticMac e \<or> nd_staticMac n,
          ex_ip6Mode := (if ex_ip6Mode e = Ip6_None \<and> nd_ip6 n \<noteq> [] then
                           (if nd_ip6 n = ''slaac'' then Ip6_Slaac else if nd_ip6 n \<noteq> ''none'' then Ip6_Static else Ip6_None)
                         else ex_ip6Mode e),
          ex_staticIp6 := (if ex_ip6Mode e = Ip6_None \<and> nd_ip6 n \<noteq> [] \<and> nd_ip6 n \<noteq> ''slaac'' \<and> nd_ip6 n \<noteq> ''none''
                           then nd_ip6 n else ex_staticIp6 e)\<rparr>)"

definition resolveNet :: "Settings \<Rightarrow> NetOptDetails \<Rightarrow> NetOptDetails" where
  "resolveNet cfg d0 =
     (let d1 = expandAuto cfg d0;
          d2 = (if no_networkName d1 = [] then d1
                else case map_find (cfg_networks cfg) (no_networkName d1) of None \<Rightarrow> d1 | Some n \<Rightarrow> applyNetwork n d1);
          d3 = d2\<lparr>no_extra := map (applyNetworkExtra cfg) (no_extra d2)\<rparr>;
          d4 = (if no_mode d3 = Mode_Bridge \<and> no_bridgeIface d3 = [] \<and> cfg_defaultBridge cfg \<noteq> []
                then d3\<lparr>no_bridgeIface := cfg_defaultBridge cfg\<rparr> else d3) in
      if no_mode d4 \<noteq> Mode_Nat \<and> \<not> no_staticMac d4 \<and> cfg_staticMacDefault cfg then d4\<lparr>no_staticMac := True\<rparr> else d4)"

definition gpu_packages :: "string option \<Rightarrow> string list" where
  "gpu_packages pci =
     ''mesa-dri'' #
     (case pci of
        None \<Rightarrow> [''nvidia-driver'']
      | Some out \<Rightarrow>
        if cut_first ''vendor=0x10de'' out \<noteq> None then [''nvidia-driver'']
        else if cut_first ''vendor=0x1002'' out \<noteq> None then [''drm-kmod'']
        else if cut_first ''vendor=0x8086'' out \<noteq> None then [''drm-kmod''] else [])"

definition upd_content :: "(spec_content \<Rightarrow> spec_content) \<Rightarrow> Spec \<Rightarrow> Spec" where
  "upd_content f s = s\<lparr>sp_content := f (sp_content s)\<rparr>"

definition add_pkgs :: "string list \<Rightarrow> Spec \<Rightarrow> Spec" where
  "add_pkgs ps = upd_content (\<lambda>c. c\<lparr>pkgInstall := pkgInstall c @ ps\<rparr>)"

definition pre_ssl :: "Spec \<Rightarrow> Spec" where
  "pre_ssl s = (if optionExists s ''ssl-certs''
     then add_pkgs [''ca_root_nss''] (s\<lparr>sp_options := map_erase ''ssl-certs'' (sp_options s)\<rparr>) else s)"

definition pre_tor :: "Spec \<Rightarrow> Spec" where
  "pre_tor s =
     (case optionTor s of
        None \<Rightarrow> s
      | Some controlPort \<Rightarrow>
        let s1 = upd_content (\<lambda>c. c\<lparr>pkgInstall := pkgInstall c @ [''tor''], runServices := ''tor'' # runServices c,
              baseKeep := baseKeep c @ [''/usr/bin/limits'', ''/usr/bin/su'', ''/bin/ps'', ''/bin/csh''],
              baseKeepWildcard := baseKeepWildcard c @ [''/usr/lib/pam_*.so'', ''/usr/lib/pam_*.so.*'']\<rparr>) s in
        if controlPort
        then s1\<lparr>sp_scripts := put_section (sp_scripts s1)
               (''run:before-start-services'', [(''openTorControlPort'', ''echo ControlPort 9051 >> /usr/local/etc/tor/torrc'')])\<rparr>
        else s1)"

definition pre_gl :: "string option \<Rightarrow> Spec \<Rightarrow> Spec" where
  "pre_gl pci s = (if optionExists s ''gl''
     then add_pkgs (gpu_packages pci) (s\<lparr>sp_options := map_erase ''gl'' (sp_options s)\<rparr>) else s)"

definition pre_ktrace :: "Spec \<Rightarrow> Spec" where
  "pre_ktrace s = (if optionExists s ''dbg-ktrace''
     then upd_content (\<lambda>c. c\<lparr>baseKeep := baseKeep c @ [''/usr/bin/ktrace'']\<rparr>) s else s)"

definition pre_net :: "Settings \<Rightarrow> Spec \<Rightarrow> Spec" where
  "pre_net cfg s =
     (case optionNet s of
        None \<Rightarrow> s
      | Some d \<Rightarrow> s\<lparr>sp_options := map_put ''net'' (Some (Opt_Net (resolveNet cfg d))) (sp_options s)\<rparr>)"

text \<open>
  The result, and the object the method was called on: the two share the details of the option \<^verbatim>\<open>net\<close>, so the original
  sees the change although the method is declared \<^verbatim>\<open>const\<close>.
\<close>

definition preprocess :: "Settings \<Rightarrow> string option \<Rightarrow> Spec \<Rightarrow> Spec \<times> Spec" where
  "preprocess cfg pci s = (pre_net cfg (pre_ktrace (pre_gl pci (pre_tor (pre_ssl (copySpec s))))), pre_net cfg s)"

section \<open>Merging is associative\<close>

lemma pick_assoc: "pick (pick a b) c = pick a (pick b c)" "pick_opt (pick_opt x y) z = pick_opt x (pick_opt y z)"
    "pick_int (pick_int i j) k = pick_int i (pick_int j k)"
  by (auto simp: pick_def pick_opt_def pick_int_def split: option.splits)

text \<open>Adding to an ordered collection entry by entry: the entries of a merged overlay have the effect of both.\<close>

lemma foldl_merge:
  assumes step: "\<And>r ys z. P r \<Longrightarrow> Q ys \<Longrightarrow> foldl f r (f ys z) = f (foldl f r ys) z"
    and Q: "\<And>ys z. Q ys \<Longrightarrow> Q (f ys z)"
  shows "P r \<Longrightarrow> Q ys \<Longrightarrow> foldl f r (foldl f ys zs) = foldl f (foldl f r ys) zs"
proof (induction zs arbitrary: ys)
  case (Cons z zs)
  then show ?case using Q step by simp
qed simp

lemma put_new_mem: "v \<in> set (foldl put_new r ys) \<longleftrightarrow> v \<in> set r \<or> v \<in> set ys"
  by (induction ys arbitrary: r) (auto simp: put_new_def)

lemma put_new_step: "foldl put_new r (put_new ys z) = put_new (foldl put_new r ys) z"
  by (auto simp: put_new_def put_new_mem)

definition set_size :: "Tmpfs \<Rightarrow> Tmpfs list \<Rightarrow> Tmpfs list" where
  "set_size v ts = map (\<lambda>t. if tf_path t = tf_path v then t\<lparr>tf_size := tf_size v\<rparr> else t) ts"

lemma put_tmpfs_split: "put_tmpfs r v = (if tf_path v \<in> tf_path ` set r then set_size v r else r @ [v])"
  unfolding put_tmpfs_def set_size_def by (auto intro: rev_image_eqI)

lemma tf_paths_set_size [simp]: "tf_path ` set (set_size v r) = tf_path ` set r"
proof -
  have "tf_path (if tf_path t = tf_path v then t\<lparr>tf_size := tf_size v\<rparr> else t) = tf_path t" for t by simp
  then show ?thesis unfolding set_size_def set_map image_image by (intro image_cong refl)
qed

lemma tf_paths_put [simp]: "tf_path ` set (put_tmpfs r v) = insert (tf_path v) (tf_path ` set r)"
  by (auto simp: put_tmpfs_split)

lemma tf_paths_fold: "tf_path ` set (foldl put_tmpfs r ys) = tf_path ` set r \<union> tf_path ` set ys"
  by (induction ys arbitrary: r) auto

lemma set_size_absent: "tf_path v \<notin> tf_path ` set r \<Longrightarrow> set_size v r = r"
  unfolding set_size_def by (rule map_idI) (auto simp: image_iff)

lemma set_size_same: "tf_path t = tf_path v \<Longrightarrow> tf_size t = tf_size v \<Longrightarrow> set_size t r = set_size v r"
  by (simp add: set_size_def)

lemma set_size_twice: "set_size v (set_size v r) = set_size v r"
  by (simp add: set_size_def)

lemma set_size_put: "set_size v (put_tmpfs r t) = put_tmpfs (set_size v r) (if tf_path t = tf_path v then t\<lparr>tf_size := tf_size v\<rparr> else t)"
proof -
  have "set_size v (set_size t r) = set_size (if tf_path t = tf_path v then t\<lparr>tf_size := tf_size v\<rparr> else t) (set_size v r)"
    by (simp add: set_size_def)
  then show ?thesis unfolding put_tmpfs_split tf_paths_set_size by (simp add: set_size_def)
qed

lemma set_size_fold: "tf_path v \<in> tf_path ` set ys \<Longrightarrow> foldl put_tmpfs r (set_size v ys) = set_size v (foldl put_tmpfs r ys)"
proof (induction ys rule: rev_induct)
  case (snoc t ys)
  let ?t = "if tf_path t = tf_path v then t\<lparr>tf_size := tf_size v\<rparr> else t" and ?x = "foldl put_tmpfs r ys"
  have l: "foldl put_tmpfs r (set_size v (ys @ [t])) = put_tmpfs (foldl put_tmpfs r (set_size v ys)) ?t" by (simp add: set_size_def)
  show ?case
  proof (cases "tf_path v \<in> tf_path ` set ys")
    case True
    then show ?thesis using snoc.IH l by (simp add: set_size_put)
  next
    case False
    then have t: "tf_path t = tf_path v" using snoc.prems by auto
    have "put_tmpfs ?x ?t = put_tmpfs (set_size v ?x) ?t"
      using t set_size_same [of ?t v] by (auto simp: put_tmpfs_split set_size_twice set_size_absent)
    then show ?thesis using l False by (simp add: set_size_absent set_size_put)
  qed
qed simp

lemma put_tmpfs_step: "foldl put_tmpfs r (put_tmpfs ys z) = put_tmpfs (foldl put_tmpfs r ys) z"
proof (cases "tf_path z \<in> tf_path ` set ys")
  case True
  moreover from this have "tf_path z \<in> tf_path ` set (foldl put_tmpfs r ys)" by (simp add: tf_paths_fold)
  ultimately show ?thesis by (simp add: put_tmpfs_split [of ys] put_tmpfs_split [of "foldl put_tmpfs r ys"] set_size_fold)
qed (simp add: put_tmpfs_split [of ys])

lemma put_all_find: "map_find (put_all m w) k = (case map_find (rev w) k of None \<Rightarrow> map_find m k | Some v \<Rightarrow> Some v)"
  unfolding put_all_def by (induction w rule: rev_induct) (auto split: prod.splits)

lemma put_all_ok [simp]: "map_ok m \<Longrightarrow> map_ok (put_all m w)"
  unfolding put_all_def by (induction w rule: rev_induct) auto

lemma map_find_rev: "map_ok m \<Longrightarrow> map_find (rev m) k = map_find m k"
proof -
  assume "map_ok m"
  then have "distinct (map fst m)" "distinct (map fst (rev m))" by (simp_all add: map_ok_distinct rev_map [symmetric])
  then have "map_of (rev m) k = Some v \<longleftrightarrow> map_of m k = Some v" for v by simp
  then show ?thesis unfolding map_find_def by (metis option.exhaust)
qed

lemma put_all_ok_find: "map_ok w \<Longrightarrow> map_find (put_all m w) k = pick_opt (map_find m k) (map_find w k)"
  by (simp add: put_all_find map_find_rev pick_opt_def)

lemma put_all_assoc: "map_ok a \<Longrightarrow> map_ok b \<Longrightarrow> map_ok c \<Longrightarrow> put_all (put_all a b) c = put_all a (put_all b c)"
  by (rule map_ok_ext) (simp_all add: put_all_ok_find pick_assoc)


definition scripts_ok :: "(string, (string, string) stdmap) stdmap \<Rightarrow> bool" where
  "scripts_ok m \<longleftrightarrow> map_ok m \<and> (\<forall>s\<in>set m. map_ok (snd s))"

definition section_of :: "(string, (string, string) stdmap) stdmap \<Rightarrow> string \<Rightarrow> (string, string) stdmap" where
  "section_of m k = (case map_find m k of None \<Rightarrow> [] | Some x \<Rightarrow> x)"

lemma put_section_find:
  "map_find (put_section m s) k = (if k = fst s \<and> snd s \<noteq> [] then Some (put_all (section_of m k) (snd s)) else map_find m k)"
  by (auto simp: put_section_def section_of_def)

lemma put_sections_ok: "map_ok m \<Longrightarrow> map_ok (foldl put_section m w)"
  by (induction w arbitrary: m) (auto simp: put_section_def)

lemma put_sections_find:
  "map_ok w \<Longrightarrow> map_find (foldl put_section m w) k =
     (if section_of w k \<noteq> [] then Some (put_all (section_of m k) (section_of w k)) else map_find m k)"
proof (induction w arbitrary: m)
  case (Cons s w)
  obtain n x where s: "s = (n, x)" by (cases s)
  then have w: "map_ok w" "map_find w n = None" using Cons.prems by (auto simp: map_find_None_iff)
  show ?case using Cons.IH [OF w(1), of "put_section m s"] w(2)
    by (auto simp: s put_section_find section_of_def)
qed (simp add: section_of_def)

lemma section_ok: "scripts_ok m \<Longrightarrow> map_ok (section_of m k)"
  by (auto simp: scripts_ok_def section_of_def map_find_Some_iff split: option.splits)

lemma put_all_Nil: "map_ok w \<Longrightarrow> put_all [] w = w"
  by (rule map_ok_ext) (simp_all add: put_all_ok_find pick_opt_def split: option.splits)

lemma put_all_empty: "put_all m w = [] \<Longrightarrow> w = []"
  unfolding put_all_def
proof (induction w rule: rev_induct)
  case (snoc x w)
  have "map_put k v m \<noteq> []" for k :: 'a and v :: 'b and m
    by (induction m rule: map_put.induct) auto
  then show ?case using snoc.prems by simp
qed simp

lemma put_sections_assoc:
  assumes "scripts_ok a" "scripts_ok b" "scripts_ok c"
  shows "foldl put_section (foldl put_section a b) c = foldl put_section a (foldl put_section b c)"
proof (rule map_ok_ext)
  have m: "map_ok a" "map_ok b" "map_ok c" using assms by (simp_all add: scripts_ok_def)
  then show "map_ok (foldl put_section (foldl put_section a b) c)" "map_ok (foldl put_section a (foldl put_section b c))"
    by (simp_all add: put_sections_ok)
  fix k
  note ok = section_ok [OF assms(1), of k] section_ok [OF assms(2), of k] section_ok [OF assms(3), of k]
  have f: "section_of (foldl put_section x y) k = (if section_of y k \<noteq> [] then put_all (section_of x k) (section_of y k) else section_of x k)"
    if "map_ok y" for x y using put_sections_find [OF that, of x k] by (simp add: section_of_def)
  show "map_find (foldl put_section (foldl put_section a b) c) k = map_find (foldl put_section a (foldl put_section b c)) k"
    unfolding put_sections_find [OF m(3)] put_sections_find [OF m(2)] put_sections_find [OF put_sections_ok [OF m(2)]] f [OF m(2)] f [OF m(3)]
    using put_all_assoc [OF ok] put_all_empty [of "section_of b k" "section_of c k"] put_all_Nil [OF ok(3)]
    by (auto simp: put_all_def)
qed

text \<open>The order of the entries of a \<^verbatim>\<open>std::map\<close>.\<close>

definition maps_ok :: "Spec \<Rightarrow> bool" where
  "maps_ok s \<longleftrightarrow> map_ok (sp_options s) \<and> map_ok (sp_limits s) \<and> scripts_ok (sp_scripts s)"

lemmas merge_defs = mergeSpecs_def mergeContent_def mergeFlags_def mergeBlocks_def mergeDevices_def

lemma mergeContent_assoc: "mergeContent (mergeContent a b) c = mergeContent a (mergeContent b c)"
  by (simp add: mergeContent_def pick_assoc pick_def foldl_merge [where P = "\<lambda>_. True" and Q = "\<lambda>_. True", OF put_tmpfs_step, symmetric]
      foldl_merge [where P = "\<lambda>_. True" and Q = "\<lambda>_. True", OF put_new_step, symmetric] conj_assoc disj_assoc)

lemma mergeFlags_assoc: "mergeFlags (mergeFlags a b) c = mergeFlags a (mergeFlags b c)"
  by (simp add: mergeFlags_def pick_assoc disj_assoc)

lemma mergeBlocks_assoc: "mergeBlocks (mergeBlocks a b) c = mergeBlocks a (mergeBlocks b c)"
  by (simp add: mergeBlocks_def pick_assoc)

lemma mergeDevices_assoc: "mergeDevices (mergeDevices a b) c = mergeDevices a (mergeDevices b c)"
  by (simp add: mergeDevices_def disj_assoc)

text \<open>
  C33. Merging is associative: a chain of templates and overlays describes the same container however the merges are
  grouped, in every member of the class: list members, tmpfs sizes, kept names, scalars with their defaults, option,
  limit and script tables, optional blocks and dependencies.
\<close>

theorem mergeSpecs_assoc:
  assumes "maps_ok a" "maps_ok b" "maps_ok c"
  shows "mergeSpecs (mergeSpecs a b) c = mergeSpecs a (mergeSpecs b c)"
  using assms by (simp add: maps_ok_def mergeSpecs_def mergeContent_assoc mergeFlags_assoc mergeBlocks_assoc mergeDevices_assoc
      put_all_assoc put_sections_assoc)


section \<open>A new specification\<close>

definition emptySpec :: Spec where
  "emptySpec =
     \<lparr>sp_content = \<lparr>baseKeep = [], baseKeepWildcard = [], baseRemove = [], baseHostRo = False, baseHostDirs = [], pkgInstall = [],
        pkgLocalOverride = [], pkgAdd = [], pkgNuke = [], pkgKeepPkg = True, runCmdExecutable = [], runCmdArgs = [], runServices = [],
        runUser = [], runTimeoutSec = 0, dirsShare = [], filesShare = [], tmpfs_list = [], etcKeep = [], zfsDatasets = []\<rparr>,
      sp_flags = \<lparr>allowSysvipc = False, allowMqueue = False, ipcRawSocketsOverride = False, ipcRawSocketsValue = False,
        diskQuota = [], encrypted = False, encryptionMethod = [], encryptionKeyformat = [], encryptionCipher = [],
        enforceStatfs = -1, allowQuotas = False, allowSetHostname = False, allowChflags = False, allowMlock = False,
        securelevel = -1, childrenMax = -1, cpuset = [], privacyHostid = [], privacyHostname = [], servicesAutoStart = True,
        servicesAutoStartExplicit = False\<rparr>,
      sp_blocks = \<lparr>dnsFilter = None, cowOptions = None, x11Options = None, clipboardOptions = None, dbusOptions = None,
        socketProxy = None, firewallPolicy = None, securityAdvanced = None, terminalOptions = None, guiOptions = None,
        healthcheck = None, restartPolicy = None, baseContainer = None\<rparr>,
      sp_options = [], sp_limits = [], sp_managed = [],
      sp_devices = \<lparr>dv_sound = False, dv_gpu = False, dv_video = False, dv_input = False, dv_usb = False, dv_serial = False, dv_all = False\<rparr>,
      sp_depends = [], sp_cron = [], sp_scripts = []\<rparr>"

theorem mergeSpecs_assoc_witness:
  "mergeSpecs (mergeSpecs emptySpec emptySpec) (emptySpec\<lparr>sp_limits := [(''maxproc'', ''9'')]\<rparr>) =
   mergeSpecs emptySpec (mergeSpecs emptySpec (emptySpec\<lparr>sp_limits := [(''maxproc'', ''9'')]\<rparr>))"
  by (rule mergeSpecs_assoc) (simp_all add: maps_ok_def scripts_ok_def emptySpec_def)

section \<open>Field validators\<close>

fun first_err :: "err list \<Rightarrow> err" where
  "first_err [] = []"
| "first_err (e # es) = (if e \<noteq> [] then e else first_err es)"

definition err_if :: "bool \<Rightarrow> err \<Rightarrow> err" where
  "err_if b msg = (if b then msg else [])"

definition int_dec :: "int \<Rightarrow> string" where
  "int_dec i = (if i < 0 then CHR ''-'' # dec (nat (- i)) else dec (nat i))"

text \<open>\<^verbatim>\<open>parseIntInRange\<close>: at most nine digits, so the sum fits; a sign alone is not a number.\<close>

definition parseIntInRange :: "string \<Rightarrow> int \<Rightarrow> int \<Rightarrow> string \<Rightarrow> int res" where
  "parseIntInRange s lo hi what =
     (if s = [] then Inl (what @ '': empty value'')
      else let signed = (hd s = CHR ''-'' \<or> hd s = CHR ''+''); ds = (if signed then tl s else s) in
        if ds = [] \<or> length ds > 9 \<or> \<not> list_all is_digit ds then Inl (what @ '': '' @ quoted s @ '' is not an integer'')
        else let v = (if hd s = CHR ''-'' then - int (dec_val ds) else int (dec_val ds)) in
          if v < lo \<or> v > hi then Inl (what @ '': '' @ s @ '' is out of range ('' @ int_dec lo @ ''..'' @ int_dec hi @ '')'') else Inr v)"

definition parsePort :: "string \<Rightarrow> string \<Rightarrow> u32 res" where
  "parsePort s what = map_sum id of_int (parseIntInRange s 1 65535 what)"

definition parsePortRange :: "string \<Rightarrow> PortRange res" where
  "parsePortRange str =
     bind_res
       (case cut_at (CHR ''-'') str of
          None \<Rightarrow> bind_res (parsePort str ''port'') (\<lambda>p. bind_res (parsePort str ''port'') (\<lambda>q. Inr (p, q)))
        | Some (a, b) \<Rightarrow>
          bind_res (parsePort a ''port range start'') (\<lambda>p. bind_res (parsePort b ''port range end'') (\<lambda>q. Inr (p, q))))
       (\<lambda>r. if fst r > snd r then Inl (''port range '' @ quoted str @ '' is reversed (start > end)'') else Inr r)"

definition validateTopLevelNetwork :: "string \<Rightarrow> err" where
  "validateTopLevelNetwork v =
     (if v = ''auto'' then []
      else if v = [] then ''top-level '' @ quoted ''network:'' @ '' must be a string (currently only '' @ quoted ''auto'' @ '' is supported)''
      else ''top-level '' @ quoted (''network: '' @ v) @ '' is not supported (the only currently-accepted value is '' @ quoted ''auto'' @
           ''; for richer config use '' @ quoted ''options.net'' @ '' instead)'')"

definition validateStaticIp4 :: "string \<Rightarrow> err" where
  "validateStaticIp4 v =
     (if v = [] then ''address is empty''
      else if CHR ''/'' \<notin> set v then (if isV4 v then [] else quoted v @ '' is not an IPv4 address'')
      else check_pfx (quoted v @ '': '') (validateIpv4Cidr v) [])"

definition validateStaticIp6 :: "string \<Rightarrow> err" where
  "validateStaticIp6 v =
     (if v = [] then ''address is empty''
      else if CHR ''/'' \<notin> set v then (if isV6 v then [] else quoted v @ '' is not an IPv6 address'')
      else check_pfx (quoted v @ '': '') (validateIpv6Cidr v) [])"

definition validateGateway4 :: "string \<Rightarrow> err" where
  "validateGateway4 v =
     (if v = [] then ''gateway is empty''
      else if CHR ''/'' \<in> set v then ''gateway must be a bare IPv4 address, not a CIDR''
      else if isV4 v then [] else quoted v @ '' is not an IPv4 address'')"

definition run_user_head :: "char \<Rightarrow> bool" where
  "run_user_head c \<longleftrightarrow> (CHR ''a'' \<le> c \<and> c \<le> CHR ''z'') \<or> (CHR ''A'' \<le> c \<and> c \<le> CHR ''Z'') \<or> c = CHR ''_''"

definition validateRunUser :: "string \<Rightarrow> err" where
  "validateRunUser user =
     (if user = [] \<or> user = ''root'' then []
      else if length user > 32 then ''run/user: name longer than 32 chars''
      else if \<not> run_user_head (hd user) then ''run/user: name must start with a letter or '' @ quoted ''_''
      else case List.find (\<lambda>c. \<not> stack_name_char c) user of
        Some c \<Rightarrow> ''run/user: invalid character '' @ quoted [c] @ '' in name (allowed: [A-Za-z0-9._-])'' | None \<Rightarrow> [])"

definition kRunTimeoutMax :: u32 where "kRunTimeoutMax = 2592000"

definition isUuid :: "string \<Rightarrow> bool" where
  "isUuid s \<longleftrightarrow> length s = 36 \<and> list_all (\<lambda>i. if i \<in> {8, 13, 18, 23} then s ! i = CHR ''-'' else is_hex (s ! i)) [0..<36]"

definition parseHostid_err :: "string \<Rightarrow> err" where
  "parseHostid_err t =
     (if t = [] \<or> t = ''host'' \<or> t = ''random'' \<or> isUuid t then []
      else ''privacy/hostid: '' @ quoted t @ '' is not '' @ quoted ''host'' @ '', '' @ quoted ''random'' @
           '' or a UUID (xxxxxxxx-xxxx-xxxx-xxxx-xxxxxxxxxxxx)'')"

definition parseHostname_err :: "string \<Rightarrow> err" where
  "parseHostname_err t =
     (if t = [] \<or> t = ''host'' \<or> t = ''random'' \<or> (length t \<le> 255 \<and> isHostname t) then []
      else ''privacy/hostname: '' @ quoted t @ '' is not '' @ quoted ''host'' @ '', '' @ quoted ''random'' @ '' or a host name'')"

definition wg_meta :: "char \<Rightarrow> bool" where
  "wg_meta c \<longleftrightarrow> c \<in> {CHR '';'', CHR 0x60, CHR 0x24, CHR ''|'', CHR ''&'', CHR ''<'', CHR ''>'', CHR 0x5C, CHR 0x0A, CHR 0x0D}"

definition validateConfigPath :: "string \<Rightarrow> err" where
  "validateConfigPath p =
     fail_if (p = []) ''wireguard.config path is empty''
     (fail_if (length p > 255) ''wireguard.config path is longer than 255 chars''
     (fail_if (hd p \<noteq> CHR ''/'') ''wireguard.config path must be absolute''
     (fail_if (hasDotDotSegment p) (''wireguard.config path must not contain '' @ quoted ''..'' @ '' segments'')
     (case List.find wg_meta p of
        None \<Rightarrow> []
      | Some c \<Rightarrow> ''wireguard.config path contains shell metacharacter '' @
          quoted (if c = CHR 0x0A then [CHR 0x5C, CHR ''n''] else if c = CHR 0x0D then [CHR 0x5C, CHR ''r''] else [c])))))"

definition validateConnName :: "string \<Rightarrow> err" where
  "validateConnName name =
     fail_if (name = []) ''ipsec conn name is empty''
     (fail_if (length name > 32) ''ipsec conn name longer than 32 chars''
     (fail_if (name = ''%default'') (''ipsec conn name '' @ quoted ''%default'' @ '' is reserved by strongSwan'')
     (bad_char stack_name_char ''ipsec conn name'' name)))"

text \<open>\<^verbatim>\<open>$HOME\<close> and \<^verbatim>\<open>$HOME/x\<close> are replaced by the directory of the password entry, when there is one.\<close>

definition pathSubstituteVarsInPath :: "string option \<Rightarrow> string \<Rightarrow> string res" where
  "pathSubstituteVarsInPath home path =
     (if starts_with (CHR 0x24 # ''HOME'') path \<and> (length path = 5 \<or> path ! 5 = CHR ''/'') then
        (case home of None \<Rightarrow> Inl ''getpwuid failed'' | Some d \<Rightarrow> Inr (d @ drop 5 path))
      else Inr path)"

definition isFullPath :: "string \<Rightarrow> bool" where
  "isFullPath p \<longleftrightarrow> p \<noteq> [] \<and> hd p = CHR ''/''"

definition full_err :: "string option \<Rightarrow> string \<Rightarrow> err \<Rightarrow> err" where
  "full_err home p msg = (case pathSubstituteVarsInPath home p of Inl e \<Rightarrow> e | Inr q \<Rightarrow> err_if (\<not> isFullPath q) msg)"

definition share_err :: "string option \<Rightarrow> Share \<Rightarrow> err" where
  "share_err home s =
     (let msg = ''the shared directory paths have to be a full paths, share='' @ sh_jail s @ ''->'' @ sh_host s in
      first_err [full_err home (sh_jail s) msg, full_err home (sh_host s) msg])"


section \<open>Validation\<close>

fun override_errs :: "(string, string) stdmap \<Rightarrow> (string \<times> string) list \<Rightarrow> err list" where
  "override_errs pkgs [] = []"
| "override_errs pkgs (lo # los) =
     (case map_find pkgs (fst lo) of
        None \<Rightarrow> []
      | Some old \<Rightarrow> ''duplicate local override packages: '' @ fst lo @ ''->'' @ old @ '' and '' @ fst lo @ ''->'' @ snd lo) #
     override_errs (map_put (fst lo) (snd lo) pkgs) los"

definition tmpfs_err :: "Share list \<Rightarrow> Tmpfs list \<Rightarrow> Tmpfs \<Rightarrow> err list" where
  "tmpfs_err dirs before t =
     [check_pfx ''tmpfs: '' (validateTmpfsPath (tf_path t)) [],
      check_pfx (''tmpfs/'' @ tf_path t @ '': '') (validateTmpfsSize (tf_size t)) [],
      err_if (list_ex (\<lambda>b. tf_path b = tf_path t) before) (''tmpfs: '' @ quoted (tf_path t) @ '' is listed twice''),
      err_if (list_ex (\<lambda>d. sh_jail d = tf_path t) dirs)
        (''tmpfs: '' @ quoted (tf_path t) @ '' is also a dirs/share destination '' @ emdash @ '' the tmpfs would hide the share'')]"

fun tmpfs_errs :: "Share list \<Rightarrow> Tmpfs list \<Rightarrow> Tmpfs list \<Rightarrow> err list" where
  "tmpfs_errs dirs before [] = []"
| "tmpfs_errs dirs before (t # ts) = tmpfs_err dirs before t @ tmpfs_errs dirs (before @ [t]) ts"

definition allOptions :: "string list" where
  "allOptions = [''x11'', ''net'', ''ssl-certs'', ''tor'', ''video'', ''gl'', ''wireguard'', ''ipsec'', ''no-rm-static-libs'', ''dbg-ktrace'']"

definition pkg_add_err :: "string option \<Rightarrow> string \<Rightarrow> err" where
  "pkg_add_err home p = full_err home p (''pkg/add entries must be absolute paths to .txz package files: '' @ p)"

definition content_errs :: "string option \<Rightarrow> Spec \<Rightarrow> err list" where
  "content_errs home s =
     (let c = sp_content s in
      [err_if (runCmdExecutable c = [] \<and> runServices c = [] \<and> \<not> optionExists s ''tor'')
         (''crate has to have either the executable to run, some services to run, or both, it can'' @ [CHR 0x27] @ ''t have nothing to do'')] @
      override_errs [] (pkgLocalOverride c) @
      [err_if (runCmdExecutable c \<noteq> [] \<and> \<not> isFullPath (runCmdExecutable c))
         (''the executable path has to be a full path, executable='' @ runCmdExecutable c),
       validateRunUser (runUser c),
       err_if (runTimeoutSec c > kRunTimeoutMax) ''run/timeout exceeds the 30-day maximum'',
       parseHostid_err (privacyHostid (sp_flags s)), parseHostname_err (privacyHostname (sp_flags s))] @
      map (share_err home) (dirsShare c) @
      concat (map (\<lambda>f. [share_err home f, err_if (sh_readOnly f) (''files/share: a file share cannot be read-only: '' @ sh_jail f)]) (filesShare c)) @
      tmpfs_errs (dirsShare c) [] (tmpfs_list c) @
      map validateEtcKeepName (etcKeep c) @
      map (pkg_add_err home) (pkgAdd c))"

definition span :: "PortRange \<Rightarrow> u32" where
  "span r = snd r - fst r"

definition udec32 :: "u32 \<Rightarrow> string" where
  "udec32 x = dec (unat x)"

definition span_err :: "PortRange \<times> PortRange \<Rightarrow> err" where
  "span_err p = err_if (span (fst p) \<noteq> span (snd p))
     (''port ranges have different spans:'' @ udec32 (fst (fst p)) @ ''-'' @ udec32 (snd (fst p)) @ '' and '' @
      udec32 (fst (snd p)) @ ''-'' @ udec32 (snd (snd p)))"

definition network_err :: "Settings \<Rightarrow> string \<Rightarrow> err" where
  "network_err cfg n =
     (if n = [] \<or> map_find (cfg_networks cfg) n \<noteq> None then []
      else ''options/net/network '' @ quoted n @ '' not found in system config'' @
        (if cfg_networks cfg = [] then ''; no networks defined in crate.yml''
         else ''; available:'' @ concat (map (\<lambda>x. '' '' @ fst x) (cfg_networks cfg))))"

definition extra_label :: "nat \<Rightarrow> string" where
  "extra_label i = ''options/net/extra['' @ dec i @ '']''"

definition extra_network_err :: "Settings \<Rightarrow> nat \<times> ExtraInterface \<Rightarrow> err" where
  "extra_network_err cfg ie =
     err_if (ex_networkName (snd ie) \<noteq> [] \<and> map_find (cfg_networks cfg) (ex_networkName (snd ie)) = None)
       (extra_label (fst ie) @ ''/network '' @ quoted (ex_networkName (snd ie)) @ '' not found in system config'')"

definition extra_errs :: "nat \<times> ExtraInterface \<Rightarrow> err list" where
  "extra_errs ie =
     (let e = snd ie; l = extra_label (fst ie) in
      [err_if (ex_mode e = Mode_Bridge \<and> ex_bridgeIface e = []) (l @ ''/mode=bridge requires '' @ quoted ''bridge'' @ '' field''),
       err_if (ex_mode e = Mode_Passthrough \<and> ex_passthroughIface e = []) (l @ ''/mode=passthrough requires '' @ quoted ''interface'' @ '' field''),
       err_if (ex_mode e = Mode_Netgraph \<and> ex_netgraphIface e = []) (l @ ''/mode=netgraph requires '' @ quoted ''interface'' @ '' field''),
       err_if (ex_mode e = Mode_Nat) (l @ ''/mode=nat is not allowed for extra interfaces''),
       err_if (ex_gateway e \<noteq> [] \<and> ex_ipMode e \<noteq> Ip_Static) (l @ ''/gateway is only valid with static IP''),
       err_if (ex_ip6Mode e = Ip6_Static \<and> ex_staticIp6 e = []) (l @ ''/ip6 with static address requires an IPv6 address'')])"

definition mode_errs :: "NetOptDetails \<Rightarrow> err list" where
  "mode_errs d =
     [err_if (no_mode d = Mode_Bridge \<and> no_bridgeIface d = [])
        (''options/net/mode=bridge requires '' @ quoted ''bridge'' @ '' field (e.g. bridge: bridge0)''),
      err_if (no_autoCreateBridge d \<and> no_mode d \<noteq> Mode_Bridge) ''options/net/auto_create_bridge: true is only meaningful in bridge mode'',
      err_if (no_mode d = Mode_Passthrough \<and> no_passthroughIface d = []) (''options/net/mode=passthrough requires '' @ quoted ''interface'' @ '' field''),
      err_if (no_mode d = Mode_Netgraph \<and> no_netgraphIface d = []) (''options/net/mode=netgraph requires '' @ quoted ''interface'' @ '' field''),
      err_if (no_mode d = Mode_Nat \<and> no_bridgeIface d \<noteq> []) ''options/net/bridge is only valid with mode=bridge'',
      err_if (no_mode d = Mode_Nat \<and> no_ipMode d = Ip_Dhcp) ''options/net/ip=dhcp is not valid with mode=nat (NAT uses automatic IP)'',
      err_if (no_mode d = Mode_Nat \<and> no_ipMode d = Ip_Static) ''options/net/ip with static address is not valid with mode=nat'',
      err_if (no_mode d \<noteq> Mode_Nat \<and> allowInbound d) ''options/net/inbound-tcp/udp are only valid with mode=nat'',
      err_if (no_gateway d \<noteq> [] \<and> no_ipMode d \<noteq> Ip_Static) ''options/net/gateway is only valid with static IP'',
      err_if (no_vlanId d \<ge> 0 \<and> no_mode d = Mode_Nat) ''options/net/vlan is only valid with bridge, passthrough, or netgraph mode'',
      err_if (no_staticMac d \<and> no_mode d = Mode_Nat) ''options/net/static-mac is only valid with bridge, passthrough, or netgraph mode'',
      err_if (no_ip6Mode d \<noteq> Ip6_None \<and> no_mode d = Mode_Nat)
        ''options/net/ip6 (slaac/static) is only valid with bridge, passthrough, or netgraph mode; use ipv6: true for NAT mode'',
      err_if (no_ip6Mode d = Ip6_Static \<and> no_staticIp6 d = []) ''options/net/ip6 with static address requires an IPv6 address (e.g. fd00::50/64)'',
      err_if (no_extra d \<noteq> [] \<and> no_mode d = Mode_Nat)
        ''options/net/extra interfaces are only valid with bridge, passthrough, or netgraph primary mode'']"

definition net_errs :: "Settings \<Rightarrow> NetOptDetails \<Rightarrow> err list" where
  "net_errs cfg d =
     map span_err (no_inboundTcp d @ no_inboundUdp d) @
     network_err cfg (no_networkName d) # map (extra_network_err cfg) (List.enumerate 0 (no_extra d)) @
     mode_errs d @ concat (map extra_errs (List.enumerate 0 (no_extra d)))"

definition validLimits :: "string list" where
  "validLimits = [''cputime'', ''datasize'', ''stacksize'', ''coredumpsize'', ''memoryuse'', ''memorylocked'', ''maxproc'', ''openfiles'',
     ''vmemoryuse'', ''pseudoterminals'', ''swapuse'', ''nthr'', ''msgqqueued'', ''msgqsize'', ''nmsgq'', ''nsem'', ''nsemop'', ''nshm'',
     ''shmsize'', ''wallclock'', ''pcpu'', ''readbps'', ''writebps'', ''readiops'', ''writeiops'']"

definition flag_errs :: "spec_flags \<Rightarrow> err list" where
  "flag_errs f =
     (if encrypted f then
        [err_if (encryptionMethod f \<notin> {[], ''zfs''}) (''only '' @ quoted ''zfs'' @ '' encryption method is currently supported''),
         err_if (encryptionKeyformat f \<notin> {[], ''passphrase'', ''hex'', ''raw''}) (''unsupported encryption keyformat: '' @ encryptionKeyformat f),
         err_if (encryptionCipher f \<notin> {[], ''aes-256-gcm'', ''aes-256-ccm'', ''aes-128-gcm'', ''aes-128-ccm''})
           (''unsupported encryption cipher: '' @ encryptionCipher f)]
      else []) @
     [err_if (enforceStatfs f \<noteq> -1 \<and> (enforceStatfs f < 0 \<or> enforceStatfs f > 2)) ''security/enforce_statfs must be 0, 1, or 2'']"

definition port_err :: "string \<Rightarrow> u32 \<Rightarrow> err" where
  "port_err what p = err_if (p = 0 \<or> p > 65535) (''firewall/'' @ what @ '' port out of range: '' @ udec32 p)"

definition abs_err :: "string \<Rightarrow> string \<Rightarrow> err" where
  "abs_err msg p = err_if (\<not> isFullPath p) (msg @ p)"

definition block_errs :: "Spec \<Rightarrow> err list" where
  "block_errs s =
     (let b = sp_blocks s in
      (case cowOptions b of None \<Rightarrow> [] | Some w \<Rightarrow>
         [err_if (cow_mode w \<notin> {''ephemeral'', ''persistent''}) (''cow/mode must be '' @ quoted ''ephemeral'' @ '' or '' @ quoted ''persistent''),
          err_if (cow_backend w \<notin> {''zfs'', ''unionfs''}) (''cow/backend must be '' @ quoted ''zfs'' @ '' or '' @ quoted ''unionfs'')]) @
      (case clipboardOptions b of None \<Rightarrow> [] | Some w \<Rightarrow>
         [err_if (cb_mode w \<notin> {''isolated'', ''shared'', ''none''})
            (''clipboard/mode must be '' @ quoted ''isolated'' @ '', '' @ quoted ''shared'' @ '', or '' @ quoted ''none'')]) @
      (case dbusOptions b of None \<Rightarrow> [] | Some w \<Rightarrow>
         [err_if (\<not> db_systemBus w \<and> \<not> db_sessionBus w) ''dbus section present but both system and session are disabled'']) @
      map (\<lambda>m. err_if (ms_name m = []) ''managed service entry missing name'') (sp_managed s) @
      (case socketProxy b of None \<Rightarrow> [] | Some w \<Rightarrow>
         map (abs_err ''socket_proxy/share paths must be absolute: '') (sx_share w) @
         concat (map (\<lambda>p. [abs_err ''socket_proxy/proxy/host path must be absolute: '' (pe_host p),
                          abs_err ''socket_proxy/proxy/jail path must be absolute: '' (pe_jail p)]) (sx_proxy w))) @
      (case firewallPolicy b of None \<Rightarrow> [] | Some w \<Rightarrow>
         map (port_err ''allow-tcp'') (fp_allowTcp w) @ map (port_err ''allow-udp'') (fp_allowUdp w)) @
      (case terminalOptions b of None \<Rightarrow> [] | Some w \<Rightarrow>
         [err_if (to_devfsRuleset w \<noteq> -1 \<and> (to_devfsRuleset w < 0 \<or> to_devfsRuleset w > 65535)) ''terminal/devfs_ruleset must be 0-65535'']))"

definition dotdot_inside :: "string \<Rightarrow> bool" where
  "dotdot_inside ds \<longleftrightarrow> cut_first ''..'' ds \<noteq> None"

definition option_err :: "string \<times> OptDetails option \<Rightarrow> err" where
  "option_err kv = err_if (fst kv \<notin> set allOptions) (''the unknown option '' @ quoted (fst kv) @ '' was supplied'')"

definition limit_err :: "string \<times> string \<Rightarrow> err" where
  "limit_err kv = err_if (fst kv \<notin> set validLimits) (''unknown resource limit: '' @ fst kv)"

definition script_err :: "string set \<Rightarrow> string \<times> (string, string) stdmap \<Rightarrow> err" where
  "script_err sections kv = err_if (fst kv = [] \<or> fst kv \<notin> sections) (''the unknown script section '' @ quoted (fst kv) @ '' was supplied'')"

definition dataset_err :: "string \<Rightarrow> err" where
  "dataset_err ds = err_if (ds = [] \<or> hd ds = CHR ''/'' \<or> dotdot_inside ds) (''invalid ZFS dataset name: '' @ ds)"

definition vpn_errs :: "Spec \<Rightarrow> err list" where
  "vpn_errs s =
     [case optionWireguard s of None \<Rightarrow> [] | Some p \<Rightarrow> if p = [] then [] else check_pfx ''options/wireguard/config: '' (validateConfigPath p) [],
      case optionIpsec s of None \<Rightarrow> [] | Some n \<Rightarrow> if n = [] then [] else check_pfx ''options/ipsec/conn: '' (validateConnName n) []]"

text \<open>The checks in their order; the first message is the exception.\<close>

definition validate_checks :: "string option \<Rightarrow> string set \<Rightarrow> Settings \<Rightarrow> Spec \<Rightarrow> err list" where
  "validate_checks home sections cfg s =
     content_errs home s @ map option_err (sp_options s) @ map (script_err sections) (sp_scripts s) @
     (case optionNet s of None \<Rightarrow> [] | Some d \<Rightarrow> net_errs cfg d) @ map dataset_err (zfsDatasets (sp_content s)) @
     map limit_err (sp_limits s) @ flag_errs (sp_flags s) @ block_errs s @ vpn_errs s"

definition spec_validate :: "string option \<Rightarrow> string set \<Rightarrow> Settings \<Rightarrow> Spec \<Rightarrow> err" where
  "spec_validate home sections cfg s = first_err (validate_checks home sections cfg s)"


section \<open>Merging keeps a specification valid\<close>

lemma first_err_Nil [simp]: "first_err es = [] \<longleftrightarrow> (\<forall>e\<in>set es. e = [])"
  by (induction es) auto

lemma err_if_Nil [simp]: "msg \<noteq> [] \<Longrightarrow> err_if b msg = [] \<longleftrightarrow> \<not> b"
  by (simp add: err_if_def)

lemma put_new_set: "set (foldl put_new r ys) = set r \<union> set ys"
  by (auto simp: put_new_mem)

lemma pick_Nil: "pick a b = [] \<longleftrightarrow> a = [] \<and> b = []"
  by (simp add: pick_def)

lemma pick_err: "f a = ([] :: err) \<Longrightarrow> f b = [] \<Longrightarrow> f (pick a b) = []"
  by (simp add: pick_def)

lemma pick_cases: "P a \<Longrightarrow> P b \<Longrightarrow> P (pick a b)" "Q x \<Longrightarrow> Q y \<Longrightarrow> Q (pick_opt x y)"
  by (auto simp: pick_def pick_opt_def split: option.splits)

lemma override_ok:
  "(\<forall>e\<in>set (override_errs pkgs los). e = []) \<longleftrightarrow> distinct (map fst los) \<and> fst ` set los \<inter> fst ` set pkgs = {}"
proof (induction los arbitrary: pkgs)
  case (Cons lo los)
  have "map_find pkgs (fst lo) = None \<longleftrightarrow> fst lo \<notin> fst ` set pkgs" by (rule map_find_None_iff)
  then show ?case using Cons.IH [of "map_put (fst lo) (snd lo) pkgs"] by (auto split: option.splits)
qed simp

definition tmpfs_fine :: "Share list \<Rightarrow> Tmpfs \<Rightarrow> bool" where
  "tmpfs_fine dirs t \<longleftrightarrow> validateTmpfsPath (tf_path t) = [] \<and> validateTmpfsSize (tf_size t) = [] \<and> tf_path t \<notin> sh_jail ` set dirs"

lemma listed: "list_ex (\<lambda>b. f b = y) xs \<longleftrightarrow> y \<in> f ` set xs"
  by (auto simp: list_ex_iff)

lemma tmpfs_ok:
  "(\<forall>e\<in>set (tmpfs_errs dirs before ts). e = []) \<longleftrightarrow>
     (\<forall>t\<in>set ts. tmpfs_fine dirs t) \<and> distinct (map tf_path ts) \<and> tf_path ` set ts \<inter> tf_path ` set before = {}"
proof (induction ts arbitrary: before)
  case (Cons t ts)
  have "(\<forall>e\<in>set (tmpfs_err dirs before t). e = []) \<longleftrightarrow> tmpfs_fine dirs t \<and> tf_path t \<notin> tf_path ` set before"
    unfolding tmpfs_err_def tmpfs_fine_def by (simp add: listed del: append_Cons) blast
  then show ?case using Cons.IH [of "before @ [t]"] by auto
qed simp

lemma distinct_put_tmpfs: "distinct (map tf_path r) \<Longrightarrow> distinct (map tf_path (put_tmpfs r v))"
proof -
  have "map tf_path (set_size v r) = map tf_path r" by (simp add: set_size_def)
  then show "distinct (map tf_path r) \<Longrightarrow> distinct (map tf_path (put_tmpfs r v))" by (auto simp: put_tmpfs_split)
qed

lemma put_tmpfs_mem:
  "t \<in> set (put_tmpfs r v) \<Longrightarrow> (\<exists>x\<in>insert v (set r). tf_path t = tf_path x) \<and> (\<exists>x\<in>insert v (set r). tf_size t = tf_size x)"
  by (auto simp: put_tmpfs_split set_size_def split: if_splits)

lemma tmpfs_merge_fine:
  assumes "\<forall>t\<in>set r. tmpfs_fine d t" "\<forall>t\<in>set ys. tmpfs_fine d t" "distinct (map tf_path r)"
  shows "(\<forall>t\<in>set (foldl put_tmpfs r ys). tmpfs_fine d t) \<and> distinct (map tf_path (foldl put_tmpfs r ys))"
  using assms
proof (induction ys arbitrary: r)
  case (Cons v ys)
  have "\<forall>t\<in>set (put_tmpfs r v). tmpfs_fine d t"
  proof
    fix t assume "t \<in> set (put_tmpfs r v)"
    then obtain x y where x: "x \<in> insert v (set r)" "tf_path t = tf_path x" and y: "y \<in> insert v (set r)" "tf_size t = tf_size y"
      using put_tmpfs_mem by blast
    have a: "\<forall>u\<in>insert v (set r). tmpfs_fine d u" using Cons.prems(1,2) by simp
    show "tmpfs_fine d t" using bspec [OF a x(1)] bspec [OF a y(1)] unfolding tmpfs_fine_def x(2) y(2) by simp
  qed
  then show ?case using Cons.IH [of "put_tmpfs r v"] Cons.prems(2,3) distinct_put_tmpfs [of r v] by simp
qed simp

text \<open>
  What two valid specifications have to agree on: no package with a local override in both, no tmpfs of one on a share
  of the other, and encryption settings that are acceptable even where encryption is off (they are checked only where
  it is on, and the merge may switch it on).
\<close>

definition encryption_ok :: "spec_flags \<Rightarrow> bool" where
  "encryption_ok f \<longleftrightarrow> (\<forall>e\<in>set (flag_errs (f\<lparr>encrypted := True\<rparr>)). e = [])"

definition mergeable :: "Spec \<Rightarrow> Spec \<Rightarrow> bool" where
  "mergeable b v \<longleftrightarrow>
     fst ` set (pkgLocalOverride (sp_content b)) \<inter> fst ` set (pkgLocalOverride (sp_content v)) = {} \<and>
     tf_path ` set (tmpfs_list (sp_content b)) \<inter> sh_jail ` set (dirsShare (sp_content v)) = {} \<and>
     tf_path ` set (tmpfs_list (sp_content v)) \<inter> sh_jail ` set (dirsShare (sp_content b)) = {} \<and>
     encryption_ok (sp_flags b) \<and> encryption_ok (sp_flags v)"

lemma merged_option: "map_ok (sp_options v) \<Longrightarrow>
    map_find (sp_options (mergeSpecs b v)) k = pick_opt (map_find (sp_options b) k) (map_find (sp_options v) k)"
  by (simp add: mergeSpecs_def put_all_ok_find)

lemma put_all_keys: "fst ` set (put_all m w) = fst ` set m \<union> fst ` set w"
  unfolding put_all_def by (induction w arbitrary: m) auto

lemma put_sections_keys: "fst ` set (foldl put_section m w) \<subseteq> fst ` set m \<union> fst ` set w"
proof (induction w arbitrary: m)
  case (Cons s w)
  have "fst ` set (put_section m s) \<subseteq> insert (fst s) (fst ` set m)" by (auto simp: put_section_def)
  then have "fst ` set (foldl put_section (put_section m s) w) \<subseteq> insert (fst s) (fst ` set m) \<union> fst ` set w"
    using Cons.IH [of "put_section m s"] by blast
  then show ?case by simp
qed simp

lemma keys_checked:
  assumes "\<And>kv. f kv = [] \<longleftrightarrow> fst kv \<in> A" "fst ` set m \<subseteq> fst ` set b \<union> fst ` set v"
    "\<forall>e\<in>set (map f b). e = []" "\<forall>e\<in>set (map f v). e = []"
  shows "\<forall>e\<in>set (map f m). e = []"
proof -
  have "fst ` set b \<subseteq> A" "fst ` set v \<subseteq> A" using assms(3,4) by (simp_all add: assms(1) image_subset_iff)
  then have "fst ` set m \<subseteq> A" using subset_trans [OF assms(2)] by simp
  then show ?thesis by (simp add: assms(1) image_subset_iff)
qed

lemma flags_merge_ok:
  assumes "encryption_ok b" "encryption_ok v"
  shows "\<forall>e\<in>set (flag_errs (mergeFlags b v)). e = []"
proof -
  have f: "(\<forall>e\<in>set (flag_errs f). e = []) \<longleftrightarrow>
      (encrypted f \<longrightarrow> encryptionMethod f \<in> {[], ''zfs''} \<and> encryptionKeyformat f \<in> {[], ''passphrase'', ''hex'', ''raw''} \<and>
        encryptionCipher f \<in> {[], ''aes-256-gcm'', ''aes-256-ccm'', ''aes-128-gcm'', ''aes-128-ccm''}) \<and>
      (enforceStatfs f = -1 \<or> 0 \<le> enforceStatfs f \<and> enforceStatfs f \<le> 2)" for f
    unfolding flag_errs_def by (cases "encrypted f") (simp_all add: linorder_not_less conj_ac del: append_Cons insert_iff)
  have p: "x \<in> S \<Longrightarrow> y \<in> S \<Longrightarrow> pick x y \<in> S" for x y S by (simp add: pick_def)
  show ?thesis using assms unfolding encryption_ok_def f mergeFlags_def by (simp add: p pick_int_def del: insert_iff) linarith
qed

lemma content_ok:
  "(\<forall>e\<in>set (content_errs home s). e = []) \<longleftrightarrow>
     (let c = sp_content s in
      (runCmdExecutable c \<noteq> [] \<or> runServices c \<noteq> [] \<or> optionExists s ''tor'') \<and> distinct (map fst (pkgLocalOverride c)) \<and>
      (runCmdExecutable c = [] \<or> isFullPath (runCmdExecutable c)) \<and> validateRunUser (runUser c) = [] \<and>
      runTimeoutSec c \<le> kRunTimeoutMax \<and> parseHostid_err (privacyHostid (sp_flags s)) = [] \<and>
      parseHostname_err (privacyHostname (sp_flags s)) = [] \<and> (\<forall>d\<in>set (dirsShare c). share_err home d = []) \<and>
      (\<forall>f\<in>set (filesShare c). share_err home f = [] \<and> \<not> sh_readOnly f) \<and>
      (\<forall>t\<in>set (tmpfs_list c). tmpfs_fine (dirsShare c) t) \<and> distinct (map tf_path (tmpfs_list c)) \<and>
      (\<forall>n\<in>set (etcKeep c). validateEtcKeepName n = []) \<and>
      (\<forall>p\<in>set (pkgAdd c). pkg_add_err home p = []))"
  unfolding content_errs_def Let_def
  by (simp add: ball_Un override_ok tmpfs_ok not_less del: append_Cons) (rule iffI; elim conjE; intro conjI; assumption)

lemma content_merge_ok:
  assumes "\<forall>e\<in>set (content_errs home b). e = []" "\<forall>e\<in>set (content_errs home v). e = []" "mergeable b v" "maps_ok v"
  shows "\<forall>e\<in>set (content_errs home (mergeSpecs b v)). e = []"
proof -
  let ?d = "dirsShare (sp_content b) @ dirsShare (sp_content v)"
  note B = assms(1) [unfolded content_ok Let_def] and V = assms(2) [unfolded content_ok Let_def]
  have fine: "tmpfs_fine d t \<Longrightarrow> tf_path t \<notin> sh_jail ` set d' \<Longrightarrow> tmpfs_fine (d @ d') t \<and> tmpfs_fine (d' @ d) t" for d d' t
    by (simp add: tmpfs_fine_def image_Un)
  have b: "\<forall>t\<in>set (tmpfs_list (sp_content b)). tmpfs_fine (dirsShare (sp_content b)) t" "distinct (map tf_path (tmpfs_list (sp_content b)))"
    and v: "\<forall>t\<in>set (tmpfs_list (sp_content v)). tmpfs_fine (dirsShare (sp_content v)) t" using B V by simp_all
  have "\<forall>t\<in>set (tmpfs_list (sp_content b)). tmpfs_fine ?d t"
    using b(1) assms(3) fine by (auto simp: mergeable_def disjoint_iff)
  moreover have "\<forall>t\<in>set (tmpfs_list (sp_content v)). tmpfs_fine ?d t"
    using v assms(3) fine by (auto simp: mergeable_def disjoint_iff)
  moreover note b(2)
  ultimately have T: "(\<forall>t\<in>set (foldl put_tmpfs (tmpfs_list (sp_content b)) (tmpfs_list (sp_content v))). tmpfs_fine ?d t) \<and>
      distinct (map tf_path (foldl put_tmpfs (tmpfs_list (sp_content b)) (tmpfs_list (sp_content v))))" by (rule tmpfs_merge_fine)
  have tor: "optionExists (mergeSpecs b v) k \<longleftrightarrow> optionExists b k \<or> optionExists v k" for k
    using assms(4) by (auto simp: optionExists_def maps_ok_def merged_option pick_opt_def split: option.splits)
  show ?thesis unfolding content_ok Let_def tor
    using B V T assms(3) pick_cases(1) [of "\<lambda>x. x = [] \<or> isFullPath x" "runCmdExecutable (sp_content b)" "runCmdExecutable (sp_content v)"]
    by (simp add: mergeSpecs_def mergeContent_def mergeFlags_def mergeable_def pick_Nil pick_err put_new_set ball_Un)
qed


lemma pick_opt_ok:
  "\<forall>e\<in>set (case x of None \<Rightarrow> [] | Some w \<Rightarrow> f w). e = [] \<Longrightarrow> \<forall>e\<in>set (case y of None \<Rightarrow> [] | Some w \<Rightarrow> f w). e = [] \<Longrightarrow>
   \<forall>e\<in>set (case pick_opt x y of None \<Rightarrow> [] | Some w \<Rightarrow> f w). e = []"
  by (cases y) (simp_all add: pick_opt_def)

lemma block_merge_ok:
  assumes "\<forall>e\<in>set (block_errs b). e = []" "\<forall>e\<in>set (block_errs v). e = []"
  shows "\<forall>e\<in>set (block_errs (mergeSpecs b v)). e = []"
  using assms unfolding block_errs_def Let_def mergeSpecs_def mergeBlocks_def Spec.select_convs spec_blocks.select_convs set_append ball_Un map_append
  by - (elim conjE, intro conjI; (rule pick_opt_ok; assumption | assumption))

lemma net_merge_ok:
  assumes "map_ok (sp_options v)"
  shows "optionNet (mergeSpecs b v) = (if optionExists v ''net'' then optionNet v else optionNet b)"
    "optionWireguard (mergeSpecs b v) = (if optionExists v ''wireguard'' then optionWireguard v else optionWireguard b)"
    "optionIpsec (mergeSpecs b v) = (if optionExists v ''ipsec'' then optionIpsec v else optionIpsec b)"
  using assms by (auto simp: optionNet_def optionWireguard_def optionIpsec_def optionExists_def merged_option pick_opt_def split: option.splits)

text \<open>
  C32. The checks are stable under merging: when two specifications pass \<^verbatim>\<open>validate\<close> and agree where they have to, so does
  their merge, in every check of every member, options, extra interfaces, limits, scripts, tmpfs and encryption
  included.
\<close>

theorem merge_keeps_valid:
  assumes "spec_validate home sections cfg b = []" "spec_validate home sections cfg v = []" "maps_ok b" "maps_ok v" "mergeable b v"
  shows "spec_validate home sections cfg (mergeSpecs b v) = []"
proof -
  have B: "\<forall>e\<in>set (content_errs home b). e = []" "\<forall>e\<in>set (map option_err (sp_options b)). e = []"
      "\<forall>e\<in>set (map (script_err sections) (sp_scripts b)). e = []" "\<forall>e\<in>set (case optionNet b of None \<Rightarrow> [] | Some d \<Rightarrow> net_errs cfg d). e = []"
      "\<forall>e\<in>set (map dataset_err (zfsDatasets (sp_content b))). e = []" "\<forall>e\<in>set (map limit_err (sp_limits b)). e = []"
      "\<forall>e\<in>set (block_errs b). e = []" "\<forall>e\<in>set (vpn_errs b). e = []"
    using assms(1) unfolding spec_validate_def validate_checks_def first_err_Nil set_append ball_Un by simp_all
  have V: "\<forall>e\<in>set (content_errs home v). e = []" "\<forall>e\<in>set (map option_err (sp_options v)). e = []"
      "\<forall>e\<in>set (map (script_err sections) (sp_scripts v)). e = []" "\<forall>e\<in>set (case optionNet v of None \<Rightarrow> [] | Some d \<Rightarrow> net_errs cfg d). e = []"
      "\<forall>e\<in>set (map dataset_err (zfsDatasets (sp_content v))). e = []" "\<forall>e\<in>set (map limit_err (sp_limits v)). e = []"
      "\<forall>e\<in>set (block_errs v). e = []" "\<forall>e\<in>set (vpn_errs v). e = []"
    using assms(2) unfolding spec_validate_def validate_checks_def first_err_Nil set_append ball_Un by simp_all
  have ok: "map_ok (sp_options v)" using assms(4) by (simp add: maps_ok_def)
  note N = net_merge_ok [OF ok, of b]
  have k: "option_err kv = [] \<longleftrightarrow> fst kv \<in> set allOptions" "limit_err lv = [] \<longleftrightarrow> fst lv \<in> set validLimits"
    "script_err sections sv = [] \<longleftrightarrow> fst sv \<in> sections - {[]}" for kv lv sv
    unfolding option_err_def limit_err_def script_err_def by (simp_all add: conj_commute del: append_Cons)
  have o: "\<forall>e\<in>set (map option_err (sp_options (mergeSpecs b v))). e = []"
    by (rule keys_checked [OF k(1) _ B(2) V(2)]) (simp add: mergeSpecs_def put_all_keys)
  have l: "\<forall>e\<in>set (map limit_err (sp_limits (mergeSpecs b v))). e = []"
    by (rule keys_checked [OF k(2) _ B(6) V(6)]) (simp add: mergeSpecs_def put_all_keys)
  have s: "\<forall>e\<in>set (map (script_err sections) (sp_scripts (mergeSpecs b v))). e = []"
    by (rule keys_checked [OF k(3) _ B(3) V(3)]) (simp add: mergeSpecs_def put_sections_keys)
  have n: "\<forall>e\<in>set (case optionNet (mergeSpecs b v) of None \<Rightarrow> [] | Some d \<Rightarrow> net_errs cfg d). e = []"
    unfolding N(1) using B(4) V(4) by (cases "optionExists v ''net''") simp_all
  have d: "\<forall>e\<in>set (map dataset_err (zfsDatasets (sp_content (mergeSpecs b v)))). e = []"
    using B(5) V(5) by (simp add: mergeSpecs_def mergeContent_def ball_Un)
  have f: "\<forall>e\<in>set (flag_errs (sp_flags (mergeSpecs b v))). e = []"
    using flags_merge_ok [of "sp_flags b" "sp_flags v"] assms(5) unfolding mergeSpecs_def mergeable_def by simp
  have p: "\<forall>e\<in>set (vpn_errs (mergeSpecs b v)). e = []"
    using B(8) V(8) unfolding vpn_errs_def N(2,3) by (simp split: if_splits)
  show ?thesis
    unfolding spec_validate_def validate_checks_def first_err_Nil set_append ball_Un
    using content_merge_ok [OF B(1) V(1) assms(5,4)] o s n d l f block_merge_ok [OF B(7) V(7)] p by (intro conjI)
qed

definition run_spec :: Spec where
  "run_spec = emptySpec\<lparr>sp_content := (sp_content emptySpec)\<lparr>runCmdExecutable := ''/bin/sh''\<rparr>\<rparr>"

definition plain_cfg :: Settings where
  "plain_cfg = \<lparr>cfg_defaultBridge = [], cfg_staticMacDefault = False, cfg_networks = []\<rparr>"

theorem merge_keeps_valid_witness:
  "spec_validate None {} plain_cfg (mergeSpecs run_spec run_spec) = []"
proof (rule merge_keeps_valid)
  show "spec_validate None {} plain_cfg run_spec = []" "spec_validate None {} plain_cfg run_spec = []" by code_simp+
  show "maps_ok run_spec" "maps_ok run_spec" by (simp_all add: maps_ok_def scripts_ok_def run_spec_def emptySpec_def)
  show "mergeable run_spec run_spec"
    by (simp add: mergeable_def encryption_ok_def flag_errs_def run_spec_def emptySpec_def)
qed

section \<open>What preprocessing does\<close>

lemma expandAuto_mode:
  "no_mode (expandAuto cfg d) = (if no_mode d = Mode_Auto then Mode_Bridge else no_mode d)"
  "no_mode d = Mode_Auto \<Longrightarrow> no_bridgeIface (expandAuto cfg d) \<noteq> [] \<and> no_autoCreateBridge (expandAuto cfg d)"
  unfolding expandAuto_def by simp_all

lemma applyNetwork_mode:
  "no_mode d \<noteq> Mode_Auto \<Longrightarrow> no_mode (applyNetwork n d) \<noteq> Mode_Auto"
  "no_mode d = Mode_Bridge \<Longrightarrow> no_mode (applyNetwork n d) = Mode_Bridge"
  "no_bridgeIface d \<noteq> [] \<Longrightarrow> no_bridgeIface (applyNetwork n d) = no_bridgeIface d"
  "no_autoCreateBridge (applyNetwork n d) = no_autoCreateBridge d"
  unfolding applyNetwork_def by simp_all

lemma resolved_mode:
  "no_mode (resolveNet cfg d) \<noteq> Mode_Auto"
  "no_mode d = Mode_Auto \<Longrightarrow>
     no_mode (resolveNet cfg d) = Mode_Bridge \<and> no_bridgeIface (resolveNet cfg d) \<noteq> [] \<and> no_autoCreateBridge (resolveNet cfg d)"
  unfolding resolveNet_def Let_def
  by (simp_all add: expandAuto_mode applyNetwork_mode split: option.split)

lemma pre_option:
  "map_find (sp_options (pre_ssl s)) k = (if k = ''ssl-certs'' then None else map_find (sp_options s) k)"
  "map_find (sp_options (pre_gl pci s)) k = (if k = ''gl'' then None else map_find (sp_options s) k)"
  "sp_options (pre_tor s) = sp_options s" "sp_options (pre_ktrace s) = sp_options s" "sp_options (copySpec s) = sp_options s"
  unfolding pre_ssl_def pre_gl_def pre_tor_def pre_ktrace_def copySpec_def add_pkgs_def upd_content_def Let_def optionExists_def
  by (simp_all split: option.split)

lemma pre_net_option:
  "map_find (sp_options (pre_net cfg s)) k =
     (if k = ''net'' then case optionNet s of None \<Rightarrow> map_find (sp_options s) k | Some d \<Rightarrow> Some (Some (Opt_Net (resolveNet cfg d)))
      else map_find (sp_options s) k)"
  unfolding pre_net_def by (simp split: option.split)

lemma preprocessed_option:
  "map_find (sp_options (fst (preprocess cfg pci s))) k =
     (if k \<in> {''ssl-certs'', ''gl''} then None
      else if k = ''net'' then case optionNet s of None \<Rightarrow> map_find (sp_options s) k | Some d \<Rightarrow> Some (Some (Opt_Net (resolveNet cfg d)))
      else map_find (sp_options s) k)"
  unfolding preprocess_def fst_conv pre_net_option optionNet_def pre_option by simp

text \<open>
  Preprocessing resolves the network: the specification that comes out has the resolved details, and so has the one
  the method was called on, although it is declared \<^verbatim>\<open>const\<close>; automatic mode is gone, in favour of a bridge with a name
  that may be created; the options that only stand for packages are gone; every other option is as it was.
\<close>

theorem preprocess_resolves:
  assumes "optionNet s = Some d"
  shows "\<exists>d'. optionNet (fst (preprocess cfg pci s)) = Some d' \<and> optionNet (snd (preprocess cfg pci s)) = Some d' \<and>
      no_mode d' \<noteq> Mode_Auto \<and>
      (no_mode d = Mode_Auto \<longrightarrow> no_mode d' = Mode_Bridge \<and> no_bridgeIface d' \<noteq> [] \<and> no_autoCreateBridge d') \<and>
      \<not> optionExists (fst (preprocess cfg pci s)) ''gl'' \<and> \<not> optionExists (fst (preprocess cfg pci s)) ''ssl-certs'' \<and>
      (\<forall>k. k \<notin> {''gl'', ''ssl-certs'', ''net''} \<longrightarrow>
         map_find (sp_options (fst (preprocess cfg pci s))) k = map_find (sp_options s) k)"
proof (intro exI conjI)
  show "optionNet (fst (preprocess cfg pci s)) = Some (resolveNet cfg d)"
    unfolding optionNet_def [of "fst (preprocess cfg pci s)"] preprocessed_option by (simp add: assms)
  show "optionNet (snd (preprocess cfg pci s)) = Some (resolveNet cfg d)"
    unfolding preprocess_def snd_conv optionNet_def [of "pre_net cfg s"] pre_net_option by (simp add: assms)
qed (simp_all add: resolved_mode optionExists_def preprocessed_option)

definition auto_spec :: Spec where
  "auto_spec = run_spec\<lparr>sp_options := [(''gl'', None), (''net'', Some (Opt_Net (plainNet\<lparr>no_mode := Mode_Auto\<rparr>)))]\<rparr>"

theorem preprocess_resolves_witness:
  "\<exists>d'. optionNet (fst (preprocess plain_cfg None auto_spec)) = Some d' \<and> no_mode d' = Mode_Bridge \<and> no_bridgeIface d' \<noteq> []"
proof -
  have "optionNet auto_spec = Some (plainNet\<lparr>no_mode := Mode_Auto\<rparr>)" by (simp add: auto_spec_def optionNet_def)
  from preprocess_resolves [OF this, of plain_cfg None] show ?thesis by (simp add: plainNet_def) blast
qed

lemma pre_keep:
  "pkgKeepPkg (sp_content (pre_ssl s)) = pkgKeepPkg (sp_content s)" "pkgKeepPkg (sp_content (pre_tor s)) = pkgKeepPkg (sp_content s)"
  "pkgKeepPkg (sp_content (pre_gl pci s)) = pkgKeepPkg (sp_content s)" "pkgKeepPkg (sp_content (pre_ktrace s)) = pkgKeepPkg (sp_content s)"
  "pkgKeepPkg (sp_content (pre_net cfg s)) = pkgKeepPkg (sp_content s)"
  unfolding pre_ssl_def pre_gl_def pre_tor_def pre_ktrace_def pre_net_def add_pkgs_def upd_content_def Let_def
  by (simp_all split: option.split)

definition no_pkg_spec :: Spec where
  "no_pkg_spec = run_spec\<lparr>sp_content := (sp_content run_spec)\<lparr>pkgKeepPkg := False\<rparr>\<rparr>"

text \<open>
  C34. The copy constructor has no entry for \<^verbatim>\<open>pkgKeepPkg\<close>, so the member takes its default in every copy: a preprocessed
  specification always says to keep the package manager, also for a valid file that says \<^verbatim>\<open>keep-pkg: false\<close>.
\<close>

theorem preprocess_drops_keep_pkg:
  "pkgKeepPkg (sp_content (fst (preprocess cfg pci s))) \<and>
   \<not> pkgKeepPkg (sp_content no_pkg_spec) \<and> spec_validate None {} plain_cfg no_pkg_spec = []"
proof (intro conjI)
  show "pkgKeepPkg (sp_content (fst (preprocess cfg pci s)))"
    unfolding preprocess_def fst_conv pre_keep copySpec_def by simp
  show "spec_validate None {} plain_cfg no_pkg_spec = []" by code_simp
qed (simp add: no_pkg_spec_def)

end
