(* ===== verification/JailView.thy ===== *)
theory JailView
  imports SpecModel PrivClient AutoFw
begin

text \<open>
  What a jail sees of the host. Thin jails: \<^verbatim>\<open>lib/thin_jail_pure.cpp\<close> (the list of host directories, the manifest) with
  the parts of \<^verbatim>\<open>createCrate\<close> and \<^verbatim>\<open>runCrate\<close> that write the manifest and mount the directories. Devices:
  \<^verbatim>\<open>lib/devices_pure.cpp\<close> (classes, rules, ruleset numbers) with the part of \<^verbatim>\<open>runCrate\<close> that applies the rules, directly
  or through crated. Which directories exist, how each mount and command ends and what crated answers are arguments.
\<close>

section \<open>Host directories\<close>

definition em_dash :: string where
  "em_dash = [CHR 0xE2, CHR 0x80, CHR 0x94]"

definition defaultHostDirs :: "string list" where
  "defaultHostDirs = [''/bin'', ''/sbin'', ''/lib'', ''/libexec'', ''/rescue'', ''/usr/bin'', ''/usr/sbin'', ''/usr/lib'', ''/usr/lib32'',
     ''/usr/libexec'', ''/usr/libdata'', ''/usr/share'', ''/usr/include'']"

definition isOptionalHostDir :: "string \<Rightarrow> bool" where
  "isOptionalHostDir dir \<longleftrightarrow> dir = ''/usr/lib32'' \<or> dir = ''/rescue'' \<or> dir = ''/usr/include''"

definition writableLayer :: "string list" where
  "writableLayer = [''/etc'', ''/var'', ''/tmp'', ''/root'', ''/home'', ''/usr/local'', ''/usr/home'', ''/dev'', ''/proc'', ''/mnt'', ''/media'']"

definition isOrUnder :: "string \<Rightarrow> string \<Rightarrow> bool" where
  "isOrUnder path prefix \<longleftrightarrow> slash_under prefix path"

fun comp_err :: "string \<Rightarrow> string list \<Rightarrow> err" where
  "comp_err dir [] = []"
| "comp_err dir (c # cs) =
     fail_if (c = []) (quoted dir @ '' has an empty path component'')
     (fail_if (c = ''.'' \<or> c = ''..'') (quoted dir @ '' contains a '' @ quoted c @ '' component'') (comp_err dir cs))"

definition layer_err :: "string \<Rightarrow> err" where
  "layer_err dir =
     (case List.find (isOrUnder dir) writableLayer of
        None \<Rightarrow> []
      | Some w \<Rightarrow> quoted dir @ '' is part of the writable layer ('' @ w @ '') and cannot come from the host'')"

definition validateHostDir :: "string \<Rightarrow> err" where
  "validateHostDir dir =
     fail_if (dir = []) ''empty path''
     (fail_if (hd dir \<noteq> CHR ''/'') (quoted dir @ '' is not an absolute path'')
     (fail_if (dir = ''/'') (quoted ''/'' @ '' cannot be a host directory (mount the individual directories)'')
     (fail_if (length dir > 1 \<and> last dir = CHR ''/'') (quoted dir @ '' has a trailing slash'')
     (fail_if (list_ex (\<lambda>c. c = TAB \<or> c = NL \<or> c = CHR 0x0D) dir) (quoted dir @ '' contains control characters'')
     (check_err (comp_err dir (split_on (CHR ''/'') (tl dir)))
     (fail_if (dir = ''/usr'') (quoted ''/usr'' @ '' would hide the jail'' @ [CHR 0x27] @ ''s own /usr/local; list /usr/bin, /usr/lib, ... instead'')
     (layer_err dir)))))))"

fun dirs_loop :: "string list \<Rightarrow> string list \<Rightarrow> err" where
  "dirs_loop sn [] = []"
| "dirs_loop sn (d # ds) =
     check_err (validateHostDir d) (fail_if (d \<in> set sn) (quoted d @ '' is listed twice'') (dirs_loop (d # sn) ds))"

definition nested_err :: "string list \<Rightarrow> err" where
  "nested_err dirs =
     (case List.find (\<lambda>p. fst p \<noteq> snd p \<and> isOrUnder (snd p) (fst p)) (List.product dirs dirs) of
        None \<Rightarrow> []
      | Some p \<Rightarrow> quoted (snd p) @ '' lies inside '' @ quoted (fst p) @ '' (the inner mount would be shadowed)'')"

definition validateHostDirs :: "string list \<Rightarrow> err" where
  "validateHostDirs dirs =
     fail_if (dirs = []) ''the host directory list is empty'' (check_err (dirs_loop [] dirs) (nested_err dirs))"

definition directoriesToCreate :: "string list \<Rightarrow> string list" where
  "directoriesToCreate hostDirs = foldl put_new [''/dev'', ''/proc'', ''/media'', ''/mnt'', ''/home'', ''/usr'', ''/usr/local''] hostDirs"

definition mountPlan :: "string \<Rightarrow> string list \<Rightarrow> (string \<times> string) list" where
  "mountPlan jailPath hostDirs = map (\<lambda>d. (jailPath @ d, d)) (sort hostDirs)"

section \<open>The manifest\<close>

record Manifest =
  mf_mode :: string
  mf_osrelease :: string
  mf_hostDirs :: "string list"

definition kThinHeader :: string where
  "kThinHeader = ''# crate thin jail v1''"

definition kManifestMaxBytes :: nat where
  "kManifestMaxBytes = 64 * 1024"

definition manifest_lines :: "Manifest \<Rightarrow> string list" where
  "manifest_lines m =
     [kThinHeader, ''mode'' @ TAB # mf_mode m, ''osrelease'' @ TAB # mf_osrelease m] @ map (\<lambda>d. ''hostdir'' @ TAB # d) (mf_hostDirs m)"

definition serializeManifest :: "Manifest \<Rightarrow> string" where
  "serializeManifest m = concat (map (\<lambda>l. l @ [NL]) (manifest_lines m))"

definition at_line :: "nat \<Rightarrow> string" where
  "at_line n = ''line '' @ dec n @ '': ''"

definition manifest_field :: "nat \<Rightarrow> string \<Rightarrow> string \<Rightarrow> Manifest \<Rightarrow> Manifest res" where
  "manifest_field n key val m =
     (if val = [] then Inl (at_line n @ ''empty value for '' @ quoted key)
      else if key = ''mode'' then
        (if mf_mode m \<noteq> [] then Inl (at_line n @ ''duplicate mode'')
         else if val \<noteq> ''host-ro'' then Inl (''unsupported thin jail mode '' @ quoted val)
         else Inr (m\<lparr>mf_mode := val\<rparr>))
      else if key = ''osrelease'' then
        (if mf_osrelease m \<noteq> [] then Inl (at_line n @ ''duplicate osrelease'')
         else if list_ex (\<lambda>c. c = CHR '' '' \<or> c = TAB \<or> c = CHR ''/'') val then Inl (''osrelease '' @ quoted val @ '' is not a release string'')
         else Inr (m\<lparr>mf_osrelease := val\<rparr>))
      else if key = ''hostdir'' then
        (if validateHostDir val \<noteq> [] then Inl (''hostdir: '' @ validateHostDir val)
         else Inr (m\<lparr>mf_hostDirs := mf_hostDirs m @ [val]\<rparr>))
      else Inl (at_line n @ ''unknown key '' @ quoted key))"

definition manifest_line :: "nat \<Rightarrow> string \<Rightarrow> bool \<times> Manifest \<Rightarrow> (bool \<times> Manifest) res" where
  "manifest_line n line st =
     (let l = chomp_cr line in
      if l = [] then Inr st
      else if hd l = CHR ''#'' then Inr (if n = 1 then l = kThinHeader else fst st, snd st)
      else case cut_at TAB l of
        None \<Rightarrow> Inl (at_line n @ ''no tab separator'')
      | Some (key, val) \<Rightarrow> bind_res (manifest_field n key val (snd st)) (\<lambda>m. Inr (fst st, m)))"

fun manifest_loop :: "nat \<Rightarrow> string list \<Rightarrow> bool \<times> Manifest \<Rightarrow> (bool \<times> Manifest) res" where
  "manifest_loop n [] st = Inr st"
| "manifest_loop n (l # ls) st = bind_res (manifest_line n l st) (manifest_loop (Suc n) ls)"

definition parseManifest :: "string \<Rightarrow> Manifest res" where
  "parseManifest content =
     (if length content > kManifestMaxBytes then Inl ''manifest is too large''
      else bind_res (manifest_loop 1 (getlines content) (False, \<lparr>mf_mode = [], mf_osrelease = [], mf_hostDirs = []\<rparr>))
        (\<lambda>(header, m).
           if \<not> header then Inl (''missing '' @ quoted kThinHeader @ '' header'')
           else if mf_mode m = [] then Inl ''missing mode''
           else if mf_osrelease m = [] then Inl ''missing osrelease''
           else if validateHostDirs (mf_hostDirs m) \<noteq> [] then Inl (validateHostDirs (mf_hostDirs m))
           else Inr m))"

definition majorMinor :: "string \<Rightarrow> string" where
  "majorMinor rel =
     (let major = takeWhile is_digit rel; rest = dropWhile is_digit rel in
      if major = [] \<or> rest = [] \<or> hd rest \<noteq> CHR ''.'' then []
      else let minor = takeWhile is_digit (tl rest) in if minor = [] then [] else major @ CHR ''.'' # minor)"

definition releaseMismatchWarning :: "string \<Rightarrow> string \<Rightarrow> string" where
  "releaseMismatchWarning rel hst =
     (let c = majorMinor rel; h = majorMinor hst in
      if c = [] \<or> h = [] \<or> c = h then []
      else ''thin jail: the writable layer (/etc, /var) was extracted from FreeBSD '' @ rel @
        '' but the host userland mounted into it is '' @ hst @ ''.'' @
        (if takeWhile (\<lambda>x. x \<noteq> CHR ''.'') c \<noteq> takeWhile (\<lambda>x. x \<noteq> CHR ''.'') h
         then '' Different major versions: rc.d scripts and /etc defaults may not drive these binaries; re-create the crate on this host (crate create) to refresh the writable layer.''
         else '' Minor versions differ; re-create the crate when something in /etc misbehaves.''))"

section \<open>Creating and running a thin jail\<close>

text \<open>
  The steps that touch the file system. How each ends is an argument: the empty text for success, the message of the
  exception otherwise.
\<close>

datatype thin_act =
    Thin_CreateDirs string
  | Thin_WriteManifest string
  | Thin_Warn string
  | Thin_Mkdir string
  | Thin_MountRo string string

record thin_host =
  th_dirExists :: "string \<Rightarrow> bool"
  th_result :: "thin_act \<Rightarrow> err"
  th_osrelease :: string

fun do_acts :: "thin_host \<Rightarrow> thin_act list \<Rightarrow> thin_act list \<times> err" where
  "do_acts h [] = ([], [])"
| "do_acts h (a # as) =
     (if th_result h a \<noteq> [] then ([a], th_result h a) else let (done, e) = do_acts h as in (a # done, e))"

definition then_acts :: "thin_act list \<times> err \<Rightarrow> thin_act list \<times> err \<Rightarrow> thin_act list \<times> err" where
  "then_acts r s = (if snd r \<noteq> [] then r else (fst r @ fst s, snd s))"

text \<open>The loop over the mount plan; creation and run differ in the steps for one directory and in the message.\<close>

fun mount_loop :: "thin_host \<Rightarrow> (string \<times> string \<Rightarrow> thin_act list) \<Rightarrow> string \<Rightarrow> (string \<times> string) list \<Rightarrow> thin_act list \<times> err" where
  "mount_loop h acts suffix [] = ([], [])"
| "mount_loop h acts suffix (p # ps) =
     (if \<not> th_dirExists h (snd p) then
        if isOptionalHostDir (snd p) then mount_loop h acts suffix ps
        else ([], ''thin jail: host directory '' @ quoted (snd p) @ suffix)
      else then_acts (do_acts h (acts p)) (mount_loop h acts suffix ps))"

definition hostDirs_of :: "Spec \<Rightarrow> string list" where
  "hostDirs_of s = (if baseHostDirs (sp_content s) = [] then defaultHostDirs else baseHostDirs (sp_content s))"

definition thin_manifest :: "thin_host \<Rightarrow> Spec \<Rightarrow> Manifest" where
  "thin_manifest h s = \<lparr>mf_mode = ''host-ro'', mf_osrelease = th_osrelease h, mf_hostDirs = hostDirs_of s\<rparr>"

definition create_thin :: "thin_host \<Rightarrow> string \<Rightarrow> bool \<Rightarrow> Spec \<Rightarrow> thin_act list \<times> err" where
  "create_thin h jailPath usePkgbase s =
     (if \<not> baseHostRo (sp_content s) then ([], [])
      else if usePkgbase
      then ([], ''base/mode: host-ro and --use-pkgbase are mutually exclusive '' @ em_dash @ '' a thin jail takes its userland from the host'')
      else then_acts
        (do_acts h (map (\<lambda>d. Thin_CreateDirs (jailPath @ d)) (directoriesToCreate (hostDirs_of s)) @
                    [Thin_WriteManifest (serializeManifest (thin_manifest h s))]))
        (mount_loop h (\<lambda>p. [Thin_MountRo (fst p) (snd p)]) '' does not exist'' (mountPlan jailPath (hostDirs_of s))))"

text \<open>The manifest is \<^const>\<open>None\<close> when the crate has no file of that name.\<close>

definition run_thin :: "thin_host \<Rightarrow> string \<Rightarrow> string option \<Rightarrow> Spec \<Rightarrow> thin_act list \<times> err" where
  "run_thin h jailPath file s =
     (case file of
        None \<Rightarrow>
          ([], if baseHostRo (sp_content s)
               then ''the spec says base/mode: host-ro but the crate has no +CRATE.THIN '' @ em_dash @
                 '' it was created by an older crate or by hand; re-create it with `crate create`''
               else [])
      | Some content \<Rightarrow>
        case parseManifest content of
          Inl e \<Rightarrow> ([], ''thin jail: invalid +CRATE.THIN: '' @ e)
        | Inr m \<Rightarrow>
          let w = releaseMismatchWarning (mf_osrelease m) (th_osrelease h) in
          then_acts (if w = [] then [] else [Thin_Warn w], [])
            (mount_loop h (\<lambda>p. [Thin_Mkdir (fst p), Thin_MountRo (fst p) (snd p)]) '' does not exist on this host''
               (mountPlan jailPath (mf_hostDirs m))))"

section \<open>Device rules\<close>

definition classNames :: "string list" where
  "classNames = [''sound'', ''gpu'', ''video'', ''input'', ''usb'', ''serial'']"

definition enabled :: "Devices \<Rightarrow> string \<Rightarrow> bool" where
  "enabled d name =
     (if name = ''sound'' then dv_sound d else if name = ''gpu'' then dv_gpu d else if name = ''video'' then dv_video d
      else if name = ''input'' then dv_input d else if name = ''usb'' then dv_usb d else if name = ''serial'' then dv_serial d else False)"

definition setClass :: "Devices \<Rightarrow> string \<Rightarrow> bool \<Rightarrow> Devices option" where
  "setClass d name v =
     (if name = ''sound'' then Some (d\<lparr>dv_sound := v\<rparr>) else if name = ''gpu'' then Some (d\<lparr>dv_gpu := v\<rparr>)
      else if name = ''video'' then Some (d\<lparr>dv_video := v\<rparr>) else if name = ''input'' then Some (d\<lparr>dv_input := v\<rparr>)
      else if name = ''usb'' then Some (d\<lparr>dv_usb := v\<rparr>) else if name = ''serial'' then Some (d\<lparr>dv_serial := v\<rparr>) else None)"

definition describe :: "Devices \<Rightarrow> string" where
  "describe d =
     (if dv_all d then ''all''
      else let out = foldl (\<lambda>out c. if enabled d c then out @ (if out = [] then [] else '', '') @ c else out) [] classNames in
           if out = [] then ''none'' else out)"

definition patternsFor :: "string \<Rightarrow> string list" where
  "patternsFor cls =
     (if cls = ''sound'' then [''dsp*'', ''mixer*'', ''sndstat'', ''audio*'', ''midi*'']
      else if cls = ''gpu'' then [''dri'', ''dri/*'', ''drm'', ''drm/*'', ''nvidia*'']
      else if cls = ''video'' then [''video*'']
      else if cls = ''input'' then [''input'', ''input/*'']
      else if cls = ''usb'' then [''usb'', ''usb/*'', ''usbctl'', ''ugen*'', ''uhid*'', ''u2f*'']
      else if cls = ''serial'' then [''cua*'', ''ttyu*'', ''ttyU*'']
      else [])"

definition unhidePatterns :: "Devices \<Rightarrow> string list" where
  "unhidePatterns d = foldl (\<lambda>out c. if enabled d c then foldl put_new out (patternsFor c) else out) [] classNames"

definition unhide :: "string \<Rightarrow> string" where
  "unhide p = ''path '' @ p @ '' unhide''"

definition basicNodes :: "string list" where
  "basicNodes = [''null'', ''zero'', ''crypto'', ''random'', ''urandom'', ''tty'', ''ptmx'', ''pts'', ''pts/*'', ''fd'', ''fd/*'', ''stdin'',
     ''stdout'', ''stderr'', ''fuse'', ''zfs'']"

definition baseRules :: "bool \<Rightarrow> string list" where
  "baseRules withBpf = ''hide'' # map unhide basicNodes @ (if withBpf then [unhide ''bpf*''] else [])"

definition buildRules :: "Devices \<Rightarrow> int \<Rightarrow> bool \<Rightarrow> string list" where
  "buildRules d customRuleset withBpf =
     (if customRuleset \<ge> 1 then [''include '' @ dec_int customRuleset] else baseRules withBpf) @ map unhide (unhidePatterns d)"

definition rulesetNumberFor :: "int \<Rightarrow> nat" where
  "rulesetNumberFor pid = 10000 + nat (\<bar>pid\<bar> mod 50000)"

definition nextRulesetNumber :: "nat \<Rightarrow> nat" where
  "nextRulesetNumber r = (if r < 10000 \<or> r \<ge> 59999 then 10000 else r + 1)"

definition warnings :: "Devices \<Rightarrow> string list" where
  "warnings d =
     (if dv_all d
      then [''devices: all '' @ em_dash @ '' the host'' @ [CHR 0x27] @ ''s whole /dev is visible inside the jail (disks, memory, keyboards); name the classes the program needs instead'']
      else []) @
     (if dv_input d
      then [''devices/input exposes /dev/input/*: everything typed on the host'' @ [CHR 0x27] @ ''s keyboard is readable from inside the jail'']
      else []) @
     (if dv_usb d then [''devices/usb exposes every USB device of the host (ugen*, uhid*), not one of them''] else []) @
     (if dv_serial d then [''devices/serial exposes the host'' @ [CHR 0x27] @ ''s serial ports (cua*, ttyu*)''] else [])"

section \<open>Applying the rules\<close>

text \<open>\<^verbatim>\<open>CompositorPure::parseBackend\<close>; the result tells whether the backend is the drm one.\<close>

definition parseBackend :: "string \<Rightarrow> bool option" where
  "parseBackend s = (if s = [] \<or> s = ''headless'' then Some False else if s = ''drm'' then Some True else None)"

definition effectiveDevices :: "Spec \<Rightarrow> Devices res" where
  "effectiveDevices s =
     (let d0 = sp_devices s;
          d1 = (if optionExists s ''gl'' then d0\<lparr>dv_gpu := True\<rparr> else d0);
          d2 = (if optionExists s ''video'' then d1\<lparr>dv_video := True\<rparr> else d1) in
      case guiOptions (sp_blocks s) of
        None \<Rightarrow> Inr d2
      | Some g \<Rightarrow>
        let d3 = (if gui_mode g \<in> {''gpu'', ''auto'', ''compositor''} then d2\<lparr>dv_gpu := True\<rparr> else d2) in
        if gui_mode g \<noteq> ''compositor'' then Inr d3
        else case parseBackend (gui_backend g) of
          None \<Rightarrow> Inl (''gui.backend: unknown backend '' @ quoted (gui_backend g))
        | Some drm \<Rightarrow> Inr (if drm then d3\<lparr>dv_input := True\<rparr> else d3))"

definition customRuleset :: "Spec \<Rightarrow> int" where
  "customRuleset s = (case terminalOptions (sp_blocks s) of None \<Rightarrow> -1 | Some t \<Rightarrow> to_devfsRuleset t)"

record privops_resp =
  rp_status :: int
  rp_body :: string
  rp_transportError :: string

datatype dev_act = Dev_Send FieldMap | Dev_Exec "string list"

definition number_taken :: "privops_resp \<Rightarrow> bool" where
  "number_taken r \<longleftrightarrow> rp_transportError r = [] \<and> rp_status r = 403 \<and> cut_first ''devfs ruleset'' (rp_body r) \<noteq> None"

text \<open>Up to \<^verbatim>\<open>k\<close> more attempts; the answer to a request depends on the ruleset number it names.\<close>

fun claim_loop :: "(FieldMap \<Rightarrow> privops_resp) \<Rightarrow> string \<Rightarrow> string list \<Rightarrow> nat \<Rightarrow> nat \<Rightarrow> privops_resp \<Rightarrow> nat list \<times> nat \<times> privops_resp" where
  "claim_loop ask mnt rules 0 rs r = ([], rs, r)"
| "claim_loop ask mnt rules (Suc k) rs r0 =
     (let r = ask (buildApplyDevfsRules mnt rs rules) in
      if number_taken r
      then let (sent, res) = claim_loop ask mnt rules k (nextRulesetNumber rs) r in (rs # sent, res)
      else ([rs], rs, r))"

definition resp_err :: "string \<Rightarrow> privops_resp \<Rightarrow> err" where
  "resp_err what r =
     fail_if (rp_transportError r \<noteq> []) (''privops '' @ what @ '' transport error: '' @ rp_transportError r)
     (fail_if (rp_status r \<ge> 400) (''privops '' @ what @ '' failed (status '' @ dec_int (rp_status r) @ ''): '' @ rp_body r) [])"

definition devfs_cmd :: string where
  "devfs_cmd = ''/sbin/devfs''"

text \<open>The tokens of a rule: \<^verbatim>\<open>splitString\<close> at spaces, without the empty ones.\<close>

definition rule_tokens :: "string \<Rightarrow> string list" where
  "rule_tokens rule = filter (\<lambda>t. t \<noteq> []) (split_on (CHR '' '') rule)"

definition devfs_delset :: "nat \<Rightarrow> string list" where
  "devfs_delset rs = [devfs_cmd, ''rule'', ''-s'', dec rs, ''delset'']"

definition devfs_add :: "nat \<Rightarrow> string \<Rightarrow> string list" where
  "devfs_add rs rule = [devfs_cmd, ''rule'', ''-s'', dec rs, ''add''] @ rule_tokens rule"

definition devfs_apply :: "string \<Rightarrow> string \<Rightarrow> string list list" where
  "devfs_apply mnt rs = [[devfs_cmd, ''-m'', mnt, ''ruleset'', rs], [devfs_cmd, ''-m'', mnt, ''rule'', ''applyset'']]"

fun exec_all :: "(string list \<Rightarrow> err) \<Rightarrow> string list list \<Rightarrow> string list list \<times> err" where
  "exec_all ex [] = ([], [])"
| "exec_all ex (c # cs) = (if ex c \<noteq> [] then ([c], ex c) else let (done, e) = exec_all ex cs in (c # done, e))"

text \<open>
  The result: the steps, the message of an exception that stops the run, and the warning printed when the private rules
  could not be applied and the jail keeps the unfiltered view.
\<close>

definition apply_private :: "bool \<Rightarrow> (FieldMap \<Rightarrow> privops_resp) \<Rightarrow> (string list \<Rightarrow> err) \<Rightarrow> string \<Rightarrow> int \<Rightarrow> string list \<Rightarrow> dev_act list \<times> err" where
  "apply_private rootless ask ex mnt pid rules =
     (let rs = rulesetNumberFor pid in
      if rootless then
        let (sent, used, r) = claim_loop ask mnt rules 32 rs \<lparr>rp_status = 0, rp_body = [], rp_transportError = []\<rparr> in
        (map (\<lambda>n. Dev_Send (buildApplyDevfsRules mnt n rules)) sent, resp_err ''apply_devfs_rules'' r)
      else
        let (done, e) = exec_all ex (map (devfs_add rs) rules @ devfs_apply mnt (dec rs)) in
        (map Dev_Exec (devfs_delset rs # done), e))"

definition apply_all :: "bool \<Rightarrow> (FieldMap \<Rightarrow> privops_resp) \<Rightarrow> (string list \<Rightarrow> err) \<Rightarrow> string \<Rightarrow> int \<Rightarrow> dev_act list \<times> err" where
  "apply_all rootless ask ex mnt custom =
     (if custom < 0 then ([], [])
      else if rootless
      then let m = buildApplyDevfsRuleset mnt (nat custom) in ([Dev_Send m], resp_err ''apply_devfs_ruleset'' (ask m))
      else let (done, e) = exec_all ex (devfs_apply mnt (dec_int custom)) in (map Dev_Exec done, e))"

record dev_outcome =
  do_acts_done :: "dev_act list"
  do_stop :: err
  do_warning :: err

definition run_devices :: "bool \<Rightarrow> (FieldMap \<Rightarrow> privops_resp) \<Rightarrow> (string list \<Rightarrow> err) \<Rightarrow> string \<Rightarrow> int \<Rightarrow> Spec \<Rightarrow> dev_outcome" where
  "run_devices rootless ask ex mnt pid s =
     (case effectiveDevices s of
        Inl e \<Rightarrow> \<lparr>do_acts_done = [], do_stop = e, do_warning = []\<rparr>
      | Inr d \<Rightarrow>
        if dv_all d
        then let (acts, e) = apply_all rootless ask ex mnt (customRuleset s) in \<lparr>do_acts_done = acts, do_stop = e, do_warning = []\<rparr>
        else let (acts, e) = apply_private rootless ask ex mnt pid (buildRules d (customRuleset s) (optionExists s ''net'')) in
             \<lparr>do_acts_done = acts, do_stop = [], do_warning = e\<rparr>)"

section \<open>Host directories never cover the writable layer\<close>

lemma comp_err_ok: "comp_err dir cs = [] \<longleftrightarrow> (\<forall>c\<in>set cs. c \<notin> {[], ''.'', ''..''})"
  by (induction cs) (auto simp: fail_if_ok)

lemma find_none_err: "(case List.find P xs of None \<Rightarrow> [] | Some x \<Rightarrow> f x) = [] \<longleftrightarrow> (\<forall>x\<in>set xs. \<not> P x)"
  if "\<And>x. f x \<noteq> []"
  using that by (auto simp: find_None_iff split: option.split) (metis find_Some_iff nth_mem)

lemma layer_err_ok: "layer_err dir = [] \<longleftrightarrow> (\<forall>w\<in>set writableLayer. \<not> isOrUnder dir w)"
  unfolding layer_err_def by (subst find_none_err) simp_all

lemma validateHostDir_ok:
  "validateHostDir d = [] \<longleftrightarrow>
     d \<noteq> [] \<and> hd d = CHR ''/'' \<and> d \<noteq> ''/'' \<and> \<not> (length d > 1 \<and> last d = CHR ''/'') \<and>
     (\<forall>c\<in>set d. c \<noteq> TAB \<and> c \<noteq> NL \<and> c \<noteq> CHR 0x0D) \<and>
     (\<forall>c\<in>set (split_on (CHR ''/'') (tl d)). c \<notin> {[], ''.'', ''..''}) \<and> d \<noteq> ''/usr'' \<and>
     (\<forall>w\<in>set writableLayer. \<not> isOrUnder d w)"
  unfolding validateHostDir_def by (simp add: comp_err_ok layer_err_ok list_ex_iff del: insert_iff)

lemma dirs_loop_ok:
  "dirs_loop sn ds = [] \<longleftrightarrow> (\<forall>d\<in>set ds. validateHostDir d = []) \<and> distinct ds \<and> set ds \<inter> set sn = {}"
  by (induction ds arbitrary: sn) auto

lemma nested_ok: "nested_err dirs = [] \<longleftrightarrow> (\<forall>a\<in>set dirs. \<forall>b\<in>set dirs. a \<noteq> b \<longrightarrow> \<not> isOrUnder b a)"
  unfolding nested_err_def by (subst find_none_err) auto

lemma validateHostDirs_ok:
  "validateHostDirs dirs = [] \<longleftrightarrow>
     dirs \<noteq> [] \<and> (\<forall>d\<in>set dirs. validateHostDir d = []) \<and> distinct dirs \<and>
     (\<forall>a\<in>set dirs. \<forall>b\<in>set dirs. a \<noteq> b \<longrightarrow> \<not> isOrUnder b a)"
  unfolding validateHostDirs_def by (simp add: dirs_loop_ok nested_ok)

lemma isOrUnder_prefix: "isOrUnder (p @ a) (p @ b) \<longleftrightarrow> isOrUnder a b"
  by (auto simp: isOrUnder_def slash_under_iff)

lemma host_dir_never_above:
  assumes "validateHostDir d = []" "w \<in> set writableLayer"
  shows "\<not> isOrUnder w d"
proof
  assume "isOrUnder w d"
  moreover have "\<not> isOrUnder d w" using assms unfolding validateHostDir_ok by blast
  then have "d \<noteq> w" by (auto simp: isOrUnder_def)
  ultimately obtain r where r: "w = d @ CHR ''/'' # r" by (auto simp: isOrUnder_def slash_under_iff)
  have d: "d \<noteq> []" "d \<noteq> ''/usr''" using assms(1) by (simp_all add: validateHostDir_ok)
  show False using assms(2) r d unfolding writableLayer_def by (auto simp: append_eq_Cons_conv)
qed

section \<open>What a run mounts\<close>

lemma do_acts_prefix: "\<exists>n. fst (do_acts h as) = take n as"
  by (induction as) (auto simp: split_beta intro: exI [of _ 1] exI [of _ "Suc _"])

lemma do_acts_all: "(\<And>a. th_result h a = []) \<Longrightarrow> do_acts h as = (as, [])"
  by (induction as) simp_all

lemma mount_loop_acts:
  assumes "a \<in> set (fst (mount_loop h acts sfx ps))"
  shows "\<exists>p\<in>set ps. a \<in> set (acts p) \<and> th_dirExists h (snd p)"
  using assms
proof (induction ps)
  case (Cons p ps)
  obtain n where n: "fst (do_acts h (acts p)) = take n (acts p)" using do_acts_prefix by blast
  with Cons show ?case by (auto simp: then_acts_def dest: in_set_takeD split: if_splits)
qed simp

lemma mount_loop_all:
  assumes "\<And>a. th_result h a = []" "\<forall>p\<in>set ps. th_dirExists h (snd p) \<or> isOptionalHostDir (snd p)"
  shows "mount_loop h acts sfx ps = (concat (map acts (filter (\<lambda>p. th_dirExists h (snd p)) ps)), [])"
  using assms(2) by (induction ps) (auto simp: do_acts_all [OF assms(1)] then_acts_def)

lemma run_thin_mount:
  assumes "Thin_MountRo t d \<in> set (fst (run_thin h jailPath file s))"
  shows "\<exists>content m. file = Some content \<and> parseManifest content = Inr m \<and> d \<in> set (mf_hostDirs m) \<and> t = jailPath @ d \<and> th_dirExists h d"
  using assms mount_loop_acts [of "Thin_MountRo t d" h]
  by (fastforce simp: run_thin_def then_acts_def mountPlan_def Let_def split: option.splits sum.splits if_splits)

lemma parsed_dirs_ok: "parseManifest content = Inr m \<Longrightarrow> validateHostDirs (mf_hostDirs m) = []"
  by (auto simp: parseManifest_def split: if_splits)

text \<open>
  C35. Whatever the manifest of a crate says and whatever the host answers, a run mounts, read-only, only existing host
  directories at their own place in the jail; no mount lies in a directory of the jail's writable layer or covers one,
  and no mount lies in another.
\<close>

theorem thin_mounts_safe:
  assumes "Thin_MountRo t d \<in> set (fst (run_thin h jailPath file s))"
  shows "t = jailPath @ d \<and> th_dirExists h d \<and>
      (\<forall>w\<in>set writableLayer. \<not> isOrUnder t (jailPath @ w) \<and> \<not> isOrUnder (jailPath @ w) t) \<and>
      (\<forall>t' d'. Thin_MountRo t' d' \<in> set (fst (run_thin h jailPath file s)) \<longrightarrow> t' = t \<or> \<not> isOrUnder t' t)"
proof -
  from run_thin_mount [OF assms] obtain content m where m: "file = Some content" "parseManifest content = Inr m"
    "d \<in> set (mf_hostDirs m)" "t = jailPath @ d" "th_dirExists h d" by blast
  note ok = parsed_dirs_ok [OF m(2), unfolded validateHostDirs_ok]
  then have v: "validateHostDir d = []" using m(3) by blast
  have "t' = t \<or> \<not> isOrUnder t' t" if "Thin_MountRo t' d' \<in> set (fst (run_thin h jailPath file s))" for t' d'
    using run_thin_mount [OF that] m ok by (auto simp: isOrUnder_prefix)
  moreover have "\<not> isOrUnder d w" "\<not> isOrUnder w d" if "w \<in> set writableLayer" for w
    using host_dir_never_above [OF v that] v that by (auto simp: validateHostDir_ok)
  ultimately show ?thesis using m by (auto simp: isOrUnder_prefix)
qed

definition sample_host :: thin_host where
  "sample_host = \<lparr>th_dirExists = (\<lambda>d. d \<noteq> ''/usr/lib32''), th_result = (\<lambda>_. []), th_osrelease = ''14.1-RELEASE''\<rparr>"

section \<open>A run mounts what creation froze\<close>

definition release_ok :: "string \<Rightarrow> bool" where
  "release_ok r \<longleftrightarrow> r \<noteq> [] \<and> list_all (\<lambda>c. c \<noteq> CHR '' '' \<and> c \<noteq> TAB \<and> c \<noteq> CHR ''/'' \<and> c \<noteq> NL \<and> c \<noteq> CHR 0x0D) r"

lemma no_cr_chomp: "CHR 0x0D \<notin> set l \<Longrightarrow> chomp_cr l = l"
  unfolding chomp_cr_def by (metis last_in_set)

lemma host_dir_chars: "validateHostDir d = [] \<Longrightarrow> TAB \<notin> set d \<and> NL \<notin> set d \<and> CHR 0x0D \<notin> set d \<and> d \<noteq> []"
  by (auto simp: validateHostDir_ok)

lemma field_line:
  assumes "key \<noteq> []" "hd key \<noteq> CHR ''#''" "TAB \<notin> set key" "CHR 0x0D \<notin> set (key @ TAB # val)"
  shows "manifest_line n (key @ TAB # val) st = bind_res (manifest_field n key val (snd st)) (\<lambda>m. Inr (fst st, m))"
  using assms by (simp add: manifest_line_def no_cr_chomp)

lemma hostdir_lines:
  "\<forall>d\<in>set ds. validateHostDir d = [] \<Longrightarrow>
   manifest_loop n (map (\<lambda>d. ''hostdir'' @ TAB # d) ds) (b, m) = Inr (b, m\<lparr>mf_hostDirs := mf_hostDirs m @ ds\<rparr>)"
proof (induction ds arbitrary: n m)
  case (Cons d ds)
  then have d: "validateHostDir d = []" by simp
  have "manifest_line n (''hostdir'' @ TAB # d) (b, m) = Inr (b, m\<lparr>mf_hostDirs := mf_hostDirs m @ [d]\<rparr>)"
    by (subst field_line) (use d host_dir_chars [OF d] in \<open>simp_all add: manifest_field_def TAB_def\<close>)
  with Cons show ?case by simp
qed simp

lemma manifest_roundtrip:
  assumes "mf_mode m = ''host-ro''" "release_ok (mf_osrelease m)" "validateHostDirs (mf_hostDirs m) = []"
    "length (serializeManifest m) \<le> kManifestMaxBytes"
  shows "parseManifest (serializeManifest m) = Inr m"
proof -
  note ok = assms(3) [unfolded validateHostDirs_ok]
  have rel: "mf_osrelease m \<noteq> []" "CHR '' '' \<notin> set (mf_osrelease m)" "TAB \<notin> set (mf_osrelease m)" "CHR ''/'' \<notin> set (mf_osrelease m)"
    "NL \<notin> set (mf_osrelease m)" "CHR 0x0D \<notin> set (mf_osrelease m)"
    using assms(2) by (auto simp: release_ok_def list_all_iff)
  have "\<forall>d\<in>set (mf_hostDirs m). NL \<notin> set d" using ok host_dir_chars by blast
  then have "\<forall>l\<in>set (manifest_lines m). NL \<notin> set l"
    using rel(5) unfolding manifest_lines_def by (simp add: assms(1) kThinHeader_def NL_def TAB_def)
  then have "getlines (serializeManifest m) = manifest_lines m"
    unfolding serializeManifest_def by (intro getlines_lines) blast
  moreover have "manifest_line 1 kThinHeader st = Inr (True, snd st)" for st
    unfolding manifest_line_def kThinHeader_def chomp_cr_def Let_def by simp
  moreover have "manifest_line n (''mode'' @ TAB # mf_mode m) (b, \<lparr>mf_mode = [], mf_osrelease = r, mf_hostDirs = ds\<rparr>) =
      Inr (b, \<lparr>mf_mode = mf_mode m, mf_osrelease = r, mf_hostDirs = ds\<rparr>)" for n b r ds
    by (subst field_line) (simp_all add: assms(1) manifest_field_def TAB_def)
  moreover have "manifest_line n (''osrelease'' @ TAB # mf_osrelease m) (b, \<lparr>mf_mode = x, mf_osrelease = [], mf_hostDirs = ds\<rparr>) =
      Inr (b, \<lparr>mf_mode = x, mf_osrelease = mf_osrelease m, mf_hostDirs = ds\<rparr>)" for n b x ds
    by (subst field_line) (use rel in \<open>auto simp: manifest_field_def TAB_def list_ex_iff\<close>)
  ultimately have "manifest_loop 1 (getlines (serializeManifest m)) (False, \<lparr>mf_mode = [], mf_osrelease = [], mf_hostDirs = []\<rparr>) = Inr (True, m)"
    using ok unfolding manifest_lines_def by (cases m) (simp add: hostdir_lines [simplified append_Cons append_Nil] append_Cons append_Nil)
  then show ?thesis using assms rel(1) by (simp add: parseManifest_def)
qed

lemma create_thin_writes:
  assumes "baseHostRo (sp_content s)" "\<And>a. th_result h a = []"
  shows "Thin_WriteManifest (serializeManifest (thin_manifest h s)) \<in> set (fst (create_thin h p False s))"
  using assms by (simp add: create_thin_def then_acts_def do_acts_all)


definition thin_spec :: Spec where
  "thin_spec = run_spec\<lparr>sp_content := (sp_content run_spec)\<lparr>baseHostRo := True, baseHostDirs := [''/usr/lib32'', ''/usr/bin'', ''/bin'']\<rparr>\<rparr>"

lemma thin_spec_simps: "baseHostRo (sp_content thin_spec)" "hostDirs_of thin_spec = [''/usr/lib32'', ''/usr/bin'', ''/bin'']"
  by (simp_all add: thin_spec_def hostDirs_of_def)

lemma thin_spec_sorted: "sort (hostDirs_of thin_spec) = [''/bin'', ''/usr/bin'', ''/usr/lib32'']"
  unfolding thin_spec_simps by code_simp


theorem thin_mounts_safe_witness:
  "\<not> isOrUnder ''/j/usr/local'' ''/j/usr/bin'' \<and> \<not> isOrUnder ''/j/bin'' ''/j/usr/bin''"
proof -
  have v: "validateHostDirs [''/bin'', ''/usr/bin''] = []" "release_ok ''14.1-RELEASE''" by code_simp+
  let ?m = "\<lparr>mf_mode = ''host-ro'', mf_osrelease = ''14.1-RELEASE'', mf_hostDirs = [''/bin'', ''/usr/bin'']\<rparr>"
  have p: "parseManifest (serializeManifest ?m) = Inr ?m"
    using v by (intro manifest_roundtrip)
      (simp_all add: serializeManifest_def manifest_lines_def kThinHeader_def kManifestMaxBytes_def)
  have s: "sort [''/bin'', ''/usr/bin''] = [''/bin'', ''/usr/bin'']" by code_simp
  have m: "Thin_MountRo ''/j/usr/bin'' ''/usr/bin'' \<in> set (fst (run_thin sample_host ''/j'' (Some (serializeManifest ?m)) emptySpec))"
    "Thin_MountRo ''/j/bin'' ''/bin'' \<in> set (fst (run_thin sample_host ''/j'' (Some (serializeManifest ?m)) emptySpec))"
    by (simp_all add: run_thin_def p mountPlan_def s sample_host_def then_acts_def Let_def)
  have "\<not> isOrUnder (''/j'' @ ''/usr/local'') ''/j/usr/bin''"
    using thin_mounts_safe [OF m(1)] by (simp add: writableLayer_def)
  moreover have "''/j/bin'' = ''/j/usr/bin'' \<or> \<not> isOrUnder ''/j/bin'' ''/j/usr/bin''"
    using thin_mounts_safe [OF m(1)] m(2) by blast
  ultimately show ?thesis by simp
qed

section \<open>Devices\<close>

lemma pre_step_blocks:
  "sp_blocks (pre_ssl s) = sp_blocks s" "sp_blocks (pre_tor s) = sp_blocks s" "sp_blocks (pre_gl pci s) = sp_blocks s"
  "sp_blocks (pre_ktrace s) = sp_blocks s" "sp_blocks (pre_net cfg s) = sp_blocks s" "sp_blocks (copySpec s) = sp_blocks s"
  "sp_devices (pre_ssl s) = sp_devices s" "sp_devices (pre_tor s) = sp_devices s" "sp_devices (pre_gl pci s) = sp_devices s"
  "sp_devices (pre_ktrace s) = sp_devices s" "sp_devices (pre_net cfg s) = sp_devices s" "sp_devices (copySpec s) = sp_devices s"
  unfolding pre_ssl_def pre_gl_def pre_tor_def pre_ktrace_def pre_net_def add_pkgs_def upd_content_def copySpec_def Let_def
  by (simp_all split: option.split)

lemma pre_blocks:
  "sp_blocks (fst (preprocess cfg pci s)) = sp_blocks s" "sp_devices (fst (preprocess cfg pci s)) = sp_devices s"
  unfolding preprocess_def fst_conv pre_step_blocks by simp_all

lemma put_new_all: "set (foldl put_new out xs) = set out \<union> set xs"
  by (induction xs arbitrary: out) (auto simp: put_new_def)

lemma unhide_set: "set (unhidePatterns d) = (\<Union>c\<in>{c. c \<in> set classNames \<and> enabled d c}. set (patternsFor c))"
proof -
  have "set (foldl (\<lambda>out c. if enabled d c then foldl put_new out (patternsFor c) else out) out cs) =
      set out \<union> (\<Union>c\<in>{c. c \<in> set cs \<and> enabled d c}. set (patternsFor c))" for out cs
    by (induction cs arbitrary: out) (auto simp: put_new_all)
  then show ?thesis by (simp add: unhidePatterns_def)
qed

lemma unhide_inj: "unhide p = unhide q \<longleftrightarrow> p = q"
  by (simp add: unhide_def)

text \<open>
  C37. The option \<^verbatim>\<open>gl\<close> is documented to make the graphics devices visible, but a run never sees the option: the
  specification it works on went through \<^verbatim>\<open>preprocess\<close>, which erases it. Without the device class \<^verbatim>\<open>gpu\<close> and without a
  graphical session, the rules of a run with \<^verbatim>\<open>gl\<close> show none of the graphics nodes.
\<close>

theorem gl_grants_no_gpu:
  assumes "optionExists t ''gl''" "\<not> dv_gpu (sp_devices t)" "guiOptions (sp_blocks t) = None"
  shows "\<exists>d. effectiveDevices (fst (preprocess cfg pci t)) = Inr d \<and> \<not> dv_gpu d \<and>
      (\<forall>p\<in>set (patternsFor ''gpu''). unhide p \<notin> set (buildRules d custom bpf))"
proof -
  let ?s = "fst (preprocess cfg pci t)"
  have gl: "\<not> optionExists ?s ''gl''" by (simp add: optionExists_def preprocessed_option)
  obtain d where d: "effectiveDevices ?s = Inr d" "\<not> dv_gpu d"
    using gl assms(2,3) by (simp add: effectiveDevices_def pre_blocks Let_def)
  have "list_all (\<lambda>c. c = ''gpu'' \<or> list_all (\<lambda>p. p \<notin> set (patternsFor c)) (patternsFor ''gpu'')) classNames"
    "list_all (\<lambda>p. p \<notin> set (''bpf*'' # basicNodes)) (patternsFor ''gpu'')" by code_simp+
  note cls = this [unfolded list_all_iff]
  have "p \<notin> set (unhidePatterns d)" if "p \<in> set (patternsFor ''gpu'')" for p
  proof
    assume "p \<in> set (unhidePatterns d)"
    then obtain c where c: "c \<in> set classNames" "enabled d c" "p \<in> set (patternsFor c)" by (auto simp: unhide_set)
    then have "c = ''gpu''" using cls(1) that by blast
    then show False using c(2) d(2) by (simp add: enabled_def)
  qed
  moreover have "unhide p \<notin> set (baseRules bpf)" if "p \<in> set (patternsFor ''gpu'')" for p
  proof -
    have "p \<noteq> ''bpf*'' \<and> p \<notin> set basicNodes" using cls(2) that by simp
    moreover have "unhide p \<noteq> ''hide''" by (simp add: unhide_def)
    ultimately show ?thesis by (auto simp: baseRules_def unhide_inj)
  qed
  moreover have "unhide p \<noteq> ''include '' @ x" for p x by (simp add: unhide_def)
  ultimately show ?thesis using d by (auto simp: buildRules_def unhide_inj)
qed

definition gl_spec :: Spec where
  "gl_spec = run_spec\<lparr>sp_options := [(''gl'', None)]\<rparr>"

theorem gl_grants_no_gpu_witness:
  "\<exists>d. effectiveDevices (fst (preprocess plain_cfg None gl_spec)) = Inr d \<and> unhide ''dri/*'' \<notin> set (buildRules d (-1) False)"
proof -
  have "optionExists gl_spec ''gl''" "\<not> dv_gpu (sp_devices gl_spec)" "guiOptions (sp_blocks gl_spec) = None"
    by (simp_all add: gl_spec_def run_spec_def emptySpec_def optionExists_def)
  from gl_grants_no_gpu [OF this, of plain_cfg None "-1" False] show ?thesis by (auto simp: patternsFor_def)
qed

lemma next_number:
  assumes "10000 \<le> r" "r \<le> 59999"
  shows "(nextRulesetNumber ^^ i) r = 10000 + (r - 10000 + i) mod 50000"
proof (induction i)
  case 0
  then show ?case using assms by simp
next
  case (Suc i)
  let ?k = "r - 10000 + i"
  have "?k mod 50000 < 50000" by simp
  moreover have "Suc ?k mod 50000 = (if Suc (?k mod 50000) = 50000 then 0 else Suc (?k mod 50000))" by (rule mod_Suc)
  ultimately have "nextRulesetNumber (10000 + ?k mod 50000) = 10000 + Suc ?k mod 50000" by (auto simp: nextRulesetNumber_def)
  then show ?case using Suc by simp
qed

lemma claim_numbers:
  assumes "fst (claim_loop ask mnt rules k rs r0) = ns"
  shows "length ns \<le> k" "0 < k \<Longrightarrow> ns \<noteq> []" "ns = map (\<lambda>i. (nextRulesetNumber ^^ i) rs) [0..<length ns]"
    "\<forall>n\<in>set (butlast ns). number_taken (ask (buildApplyDevfsRules mnt n rules))"
proof -
  have "length ns \<le> k \<and> (0 < k \<longrightarrow> ns \<noteq> []) \<and> (\<forall>i<length ns. ns ! i = (nextRulesetNumber ^^ i) rs) \<and>
      (\<forall>n\<in>set (butlast ns). number_taken (ask (buildApplyDevfsRules mnt n rules)))"
    using assms
  proof (induction k arbitrary: rs r0 ns)
    case (Suc k)
    let ?r = "ask (buildApplyDevfsRules mnt rs rules)"
    show ?case
    proof (cases "number_taken ?r")
      case True
      define ms where "ms = fst (claim_loop ask mnt rules k (nextRulesetNumber rs) ?r)"
      have ns: "ns = rs # ms" using Suc.prems True by (simp add: ms_def split_beta Let_def)
      have ih: "length ms \<le> k" "\<forall>i<length ms. ms ! i = (nextRulesetNumber ^^ i) (nextRulesetNumber rs)"
        "\<forall>n\<in>set (butlast ms). number_taken (ask (buildApplyDevfsRules mnt n rules))"
        using Suc.IH [of "nextRulesetNumber rs" ?r ms] by (simp_all add: ms_def)
      show ?thesis using ih True by (auto simp: ns nth_Cons funpow_swap1 split: nat.split)
    next
      case False
      then show ?thesis using Suc.prems by (auto simp: Let_def)
    qed
  qed simp
  then show "length ns \<le> k" "0 < k \<Longrightarrow> ns \<noteq> []" "ns = map (\<lambda>i. (nextRulesetNumber ^^ i) rs) [0..<length ns]"
    "\<forall>n\<in>set (butlast ns). number_taken (ask (buildApplyDevfsRules mnt n rules))"
    by (auto intro: nth_equalityI)
qed

lemma number_range: "10000 \<le> rulesetNumberFor pid" "rulesetNumberFor pid \<le> 59999"
proof -
  have "\<bar>pid\<bar> mod 50000 < 50000" "0 \<le> \<bar>pid\<bar> mod 50000" by simp_all
  then show "10000 \<le> rulesetNumberFor pid" "rulesetNumberFor pid \<le> 59999" unfolding rulesetNumberFor_def by linarith+
qed

lemma claim_numbers_private:
  assumes "fst (claim_loop ask mnt rules 32 (rulesetNumberFor pid) r0) = ns"
  shows "distinct ns" "\<forall>n\<in>set ns. 10000 \<le> n \<and> n \<le> 59999"
proof -
  note c = claim_numbers [OF assms]
  have ns: "ns = map (\<lambda>i. 10000 + (rulesetNumberFor pid - 10000 + i) mod 50000) [0..<length ns]"
    using c(3) next_number [OF number_range] by simp
  have near: "x = y" if "x \<le> y" "y < 32" "(a + x) mod 50000 = (a + y) mod 50000" for a x y :: nat
  proof -
    have "50000 dvd (a + y) - (a + x)" using that mod_eq_dvd_iff_nat [of "a + x" "a + y" 50000] by simp
    then have "50000 dvd y - x" by simp
    then show ?thesis using that by (cases "y - x = 0") (auto dest: dvd_imp_le)
  qed
  have "inj_on (\<lambda>i. 10000 + (a + i) mod 50000) {0..<l}" if "l \<le> 32" for a l :: nat
  proof (rule inj_onI)
    fix x y assume "x \<in> {0..<l}" "y \<in> {0..<l}" "10000 + (a + x) mod 50000 = 10000 + (a + y) mod 50000"
    then show "x = y" using that near [of x y a] near [of y x a] by (cases "x \<le> y") simp_all
  qed
  from this [OF c(1)] show "distinct ns" by (subst ns) (simp add: distinct_map)
  have "b mod 50000 \<le> 49999" for b :: nat using mod_less_divisor [of 50000 b] by linarith
  then show "\<forall>n\<in>set ns. 10000 \<le> n \<and> n \<le> 59999" by (subst ns) auto
qed

lemma devfs_last_token:
  "list_all is_digit ds \<Longrightarrow> cur @ ds \<noteq> [] \<Longrightarrow> devfs_tokens cur tok ds = Inr (tok @ [cur @ ds])"
proof (induction ds arbitrary: cur)
  case (Cons c ds)
  then have "c \<noteq> CHR '' '' \<and> c \<noteq> CHR 0x09 \<and> c \<noteq> CHR 0x0A \<and> c \<noteq> CHR 0x0D" by (auto simp: is_digit_def)
  with Cons show ?case by simp
qed simp

lemma include_rule_ok:
  assumes "1 \<le> n" "n \<le> 65535"
  shows "validateDevfsRuleSpec (''include '' @ dec_int n) = []"
proof -
  have "length (dec (nat n)) \<le> 5" by (rule dec_length_le) (use assms in simp_all)
  then have "devfs_include_err (dec (nat n)) = []" using assms by (simp add: devfs_include_err_def)
  moreover have "devfs_tokens [] [] (''include '' @ dec_int n) = Inr [''include'', dec (nat n)]"
    using assms by (simp add: dec_int_def devfs_last_token)
  ultimately show ?thesis unfolding validateDevfsRuleSpec_def by simp
qed

lemma fixed_rules_ok:
  "\<forall>r\<in>set (baseRules bpf). validateDevfsRuleSpec r = []" "\<forall>c\<in>set classNames. \<forall>p\<in>set (patternsFor c). validateDevfsRuleSpec (unhide p) = []"
proof -
  have "list_all (\<lambda>r. validateDevfsRuleSpec r = []) (baseRules True)" "list_all (\<lambda>r. validateDevfsRuleSpec r = []) (baseRules False)"
    "list_all (\<lambda>c. list_all (\<lambda>p. validateDevfsRuleSpec (unhide p) = []) (patternsFor c)) classNames" by code_simp+
  then show "\<forall>r\<in>set (baseRules bpf). validateDevfsRuleSpec r = []"
    "\<forall>c\<in>set classNames. \<forall>p\<in>set (patternsFor c). validateDevfsRuleSpec (unhide p) = []"
    by (cases bpf; simp only: list_all_iff)+
qed

lemma put_new_length: "length (foldl put_new out xs) \<le> length out + length xs"
proof (induction xs arbitrary: out)
  case (Cons x xs)
  have "length (put_new out x) \<le> Suc (length out)" by (simp add: put_new_def)
  then show ?case using Cons.IH [of "put_new out x"] by simp
qed simp

lemma unhide_length: "length (unhidePatterns d) \<le> 22"
proof -
  have "length (foldl (\<lambda>out c. if enabled d c then foldl put_new out (patternsFor c) else out) out cs) \<le>
      length out + sum_list (map (length \<circ> patternsFor) cs)" for out cs
  proof (induction cs arbitrary: out)
    case (Cons c cs)
    show ?case using put_new_length [of out "patternsFor c"] Cons.IH [of "foldl put_new out (patternsFor c)"] Cons.IH [of out]
      by (cases "enabled d c") simp_all
  qed simp
  from this [of "[]" classNames] show ?thesis
    unfolding unhidePatterns_def by (simp add: classNames_def patternsFor_def)
qed

lemma built_rules_ok:
  assumes "custom \<le> 65535"
  shows "\<forall>r\<in>set (buildRules d custom bpf). validateDevfsRuleSpec r = []" "buildRules d custom bpf \<noteq> []" "length (buildRules d custom bpf) \<le> 128"
proof -
  have "\<forall>p\<in>set (unhidePatterns d). validateDevfsRuleSpec (unhide p) = []" using fixed_rules_ok(2) by (auto simp: unhide_set)
  then show "\<forall>r\<in>set (buildRules d custom bpf). validateDevfsRuleSpec r = []"
    using fixed_rules_ok(1) include_rule_ok [of custom] assms unfolding buildRules_def set_append set_map by (simp add: ball_Un)
  show "buildRules d custom bpf \<noteq> []" by (simp add: buildRules_def baseRules_def)
  have "length (baseRules bpf) \<le> 18" by (simp add: baseRules_def basicNodes_def)
  then show "length (buildRules d custom bpf) \<le> 128" using unhide_length [of d] by (simp add: buildRules_def)
qed

lemma devfsRules_loop_ok: "devfsRules_loop i rules = [] \<longleftrightarrow> (\<forall>r\<in>set rules. validateDevfsRuleSpec r = [])"
  by (induction rules arbitrary: i) simp_all

lemma valid_terminal:
  assumes "spec_validate home sections cfg t = []"
  shows "customRuleset t \<le> 65535"
proof -
  have "\<forall>e\<in>set (block_errs t). e = []"
    using assms unfolding spec_validate_def validate_checks_def first_err_Nil set_append ball_Un by simp
  then have "\<forall>e\<in>set (case terminalOptions (sp_blocks t) of None \<Rightarrow> [] | Some w \<Rightarrow>
         [err_if (to_devfsRuleset w \<noteq> -1 \<and> (to_devfsRuleset w < 0 \<or> to_devfsRuleset w > 65535)) ''terminal/devfs_ruleset must be 0-65535'']). e = []"
    unfolding block_errs_def Let_def set_append ball_Un by (elim conjE)
  then show ?thesis unfolding customRuleset_def by (cases "terminalOptions (sp_blocks t)") (auto simp: err_if_def split: if_splits)
qed

text \<open>
  A rootless run asks crated to install the device rules at most 32 times, each time with another ruleset number of
  the private range, and goes on to the next number only after crated said that the number is taken; every one of
  these requests passes the daemon's own validator, for every valid specification.
\<close>

theorem devfs_requests_accepted:
  assumes "spec_validate home sections cfg t = []" "s = fst (preprocess cfg' pci t)" "validateAbsolutePath mnt = []"
    "effectiveDevices s = Inr d" "\<not> dv_all d"
  shows "\<exists>ns rules. do_acts_done (run_devices True ask ex mnt pid s) = map (\<lambda>n. Dev_Send (buildApplyDevfsRules mnt n rules)) ns \<and>
      ns \<noteq> [] \<and> length ns \<le> 32 \<and> distinct ns \<and>
      (\<forall>n\<in>set ns. 10000 \<le> n \<and> n \<le> 59999 \<and> validateApplyDevfsRules \<lparr>ar_mountPath = mnt, ar_ruleset = n, ar_rules = rules\<rparr> = []) \<and>
      (\<forall>n\<in>set (butlast ns). number_taken (ask (buildApplyDevfsRules mnt n rules)))"
proof -
  let ?rules = "buildRules d (customRuleset s) (optionExists s ''net'')"
  have "customRuleset s \<le> 65535" using valid_terminal [OF assms(1)] by (simp add: assms(2) customRuleset_def pre_blocks)
  note rules = built_rules_ok [OF this]
  define ns where "ns = fst (claim_loop ask mnt ?rules 32 (rulesetNumberFor pid) \<lparr>rp_status = 0, rp_body = [], rp_transportError = []\<rparr>)"
  note c = claim_numbers [OF ns_def [symmetric]] claim_numbers_private [OF ns_def [symmetric]]
  have "do_acts_done (run_devices True ask ex mnt pid s) = map (\<lambda>n. Dev_Send (buildApplyDevfsRules mnt n ?rules)) ns"
    using assms(4,5) by (simp add: run_devices_def apply_private_def ns_def split_beta Let_def)
  moreover have "validateApplyDevfsRules \<lparr>ar_mountPath = mnt, ar_ruleset = n, ar_rules = ?rules\<rparr> = []" if "n \<in> set ns" for n
    using c(6) that rules assms(3) by (simp add: validateApplyDevfsRules_def devfsRules_loop_ok kApplyDevfsRulesMaxRules_def not_less) force
  ultimately show ?thesis using c by (intro exI [of _ ns] exI [of _ ?rules]) auto
qed

theorem devfs_requests_accepted_witness:
  "\<exists>ns rules. do_acts_done (run_devices True (\<lambda>_. \<lparr>rp_status = 200, rp_body = [], rp_transportError = []\<rparr>) (\<lambda>_. []) ''/j/dev'' 4711
      (fst (preprocess plain_cfg None gl_spec))) = map (\<lambda>n. Dev_Send (buildApplyDevfsRules ''/j/dev'' n rules)) ns \<and> ns \<noteq> [] \<and> distinct ns"
proof -
  have v: "spec_validate None {} plain_cfg gl_spec = []" "validateAbsolutePath ''/j/dev'' = []" by code_simp+
  have d: "effectiveDevices (fst (preprocess plain_cfg None gl_spec)) = Inr (sp_devices emptySpec)" "\<not> dv_all (sp_devices emptySpec)"
    by (simp_all add: effectiveDevices_def optionExists_def preprocessed_option pre_blocks gl_spec_def run_spec_def emptySpec_def Let_def)
  show ?thesis
    using devfs_requests_accepted [OF v(1) refl v(2) d, of "\<lambda>_. \<lparr>rp_status = 200, rp_body = [], rp_transportError = []\<rparr>" "\<lambda>_. []" 4711] by blast
qed

end
