(* ===== verification/ValidateStrict.thy ===== *)
theory ValidateStrict
  imports JailView
begin

text \<open>
  \<^verbatim>\<open>lib/validate_pure.cpp\<close>: the warnings of \<^verbatim>\<open>crate validate\<close> and the errors of \<^verbatim>\<open>crate validate --strict\<close>, over the
  specification of theory \<^verbatim>\<open>SpecModel\<close>.
\<close>

section \<open>Warnings\<close>

definition warn_if :: "bool \<Rightarrow> string \<Rightarrow> string list" where
  "warn_if b w = (if b then [w] else [])"

definition ap :: string where "ap = [CHR 0x27]"

definition net_warnings :: "Spec \<Rightarrow> string list" where
  "net_warnings s =
     warn_if (optionExists s ''net'' \<and> optionExists s ''tor'' \<and> (case optionNet s of None \<Rightarrow> False | Some d \<Rightarrow> no_outboundLan d))
       (''net/outbound includes LAN with tor enabled '' @ em_dash @ '' traffic may bypass Tor'') @
     (case optionNet s of
        None \<Rightarrow> []
      | Some d \<Rightarrow>
        if optionExists s ''net'' \<and> no_ipv6 d then
          warn_if (\<not> allowOutbound d) (''net/ipv6=true but no outbound traffic allowed '' @ em_dash @ '' IPv6 will have no effect'') @
          warn_if (optionExists s ''tor'') (''net/ipv6=true with tor '' @ em_dash @ '' Tor does not support IPv6 outbound by default'')
        else [])"

definition cpuset_warnings :: "string \<Rightarrow> string list" where
  "cpuset_warnings cs =
     (case List.find (\<lambda>c. \<not> is_digit c \<and> c \<noteq> CHR '','' \<and> c \<noteq> CHR ''-'') cs of
        None \<Rightarrow> []
      | Some c \<Rightarrow> [''security/cpuset contains invalid character '' @ quoted [c]])"

definition flag_warnings :: "spec_flags \<Rightarrow> string list" where
  "flag_warnings f =
     warn_if (allowChflags f) (''security/allow_chflags=true lets jail processes change file flags '' @ em_dash @ '' reduces host protection'') @
     warn_if (allowMlock f) (''security/allow_mlock=true lets jail processes lock memory '' @ em_dash @ '' may affect host performance'') @
     warn_if (securelevel f \<ge> 0 \<and> securelevel f < 2)
       (''security/securelevel='' @ dec_int (securelevel f) @ '' is less restrictive than bastille'' @ ap @ ''s default (2)'') @
     warn_if (childrenMax f > 0)
       (''security/children_max='' @ dec_int (childrenMax f) @ '' allows nested jails '' @ em_dash @ '' ensure this is intended'') @
     cpuset_warnings (cpuset f)"

definition x11_warnings :: "Spec \<Rightarrow> string list" where
  "x11_warnings s =
     (case x11Options (sp_blocks s) of
        Some x \<Rightarrow>
          warn_if (x11_mode x = ''nested'') ''x11/mode=nested requires Xephyr to be installed on the host'' @
          warn_if (x11_mode x = ''shared'')
            (''x11/mode=shared provides NO display isolation '' @ em_dash @ '' jail processes can read host keystrokes and manipulate windows; prefer x11/mode=nested or gui/mode=headless for security-sensitive workloads'')
      | None \<Rightarrow>
          warn_if (optionExists s ''x11'')
            (''x11 option without an explicit x11/mode defaults to '' @ quoted ''shared'' @ '', which provides NO display isolation; set x11/mode=nested or gui/mode=headless for security-sensitive workloads''))"

definition gui_warnings :: "spec_blocks \<Rightarrow> string list" where
  "gui_warnings b =
     (case clipboardOptions b of
        None \<Rightarrow> []
      | Some c \<Rightarrow>
        warn_if (cb_mode c = ''isolated'' \<and> (case x11Options b of None \<Rightarrow> True | Some x \<Rightarrow> x11_mode x \<noteq> ''nested''))
          ''clipboard/mode=isolated only provides full isolation with x11/mode=nested'') @
     (case guiOptions b of
        None \<Rightarrow> []
      | Some g \<Rightarrow>
        warn_if (gui_resolution g \<noteq> ''1280x720'' \<and> (gui_mode g = ''wayland'' \<or> gui_mode g = ''auto''))
          ''gui/resolution is ignored when gui/mode resolves to shared or wayland (the host compositor decides resolution via wl_output / X11 root window size); only honoured for mode=nested (Xephyr) and gui/mode=headless (Xvfb)'')"

definition block_warnings :: "Spec \<Rightarrow> string list" where
  "block_warnings s =
     (let b = sp_blocks s in
      (case dbusOptions b of None \<Rightarrow> [] | Some d \<Rightarrow>
         warn_if (db_sessionBus d) ''dbus/session=true requires dbus-daemon to be installed in the container'') @
      (case socketProxy b of None \<Rightarrow> [] | Some p \<Rightarrow>
         warn_if (sx_share p = [] \<and> sx_proxy p = []) ''socket_proxy section present but no share/proxy entries defined'') @
      (case firewallPolicy b of None \<Rightarrow> [] | Some p \<Rightarrow>
         warn_if (\<not> optionExists s ''net'') (''firewall policy requires '' @ quoted ''net'' @ '' option to be enabled'') @
         warn_if (fp_default p = ''block'' \<and> fp_allowTcp p = [] \<and> fp_allowUdp p = [])
           (''firewall default=block with no allow rules '' @ em_dash @ '' all outbound traffic will be blocked'')) @
      (case securityAdvanced b of None \<Rightarrow> [] | Some a \<Rightarrow>
         warn_if (sa_capsicum a) (''capsicum mode is very restrictive '' @ em_dash @ '' only pre-opened file descriptors will be usable'') @
         warn_if (sa_macRules a \<noteq> []) ''mac_bsdextended rules require the mac_bsdextended kernel module to be loaded'') @
      (case terminalOptions b of None \<Rightarrow> [] | Some t \<Rightarrow>
         warn_if (to_devfsRuleset t \<ge> 0) ''custom devfs_ruleset may affect device visibility inside the jail''))"

definition cow_warnings :: "spec_blocks \<Rightarrow> string list" where
  "cow_warnings b =
     (case cowOptions b of None \<Rightarrow> [] | Some c \<Rightarrow>
        warn_if (cow_backend c = ''zfs'') ''cow/backend=zfs requires jail directory to be on a ZFS dataset'' @
        warn_if (cow_mode c = ''persistent'') ''cow/mode=persistent will accumulate clone datasets over time; clean up manually'')"

definition dns_warnings :: "Spec \<Rightarrow> string list" where
  "dns_warnings s =
     (case dnsFilter (sp_blocks s) of None \<Rightarrow> [] | Some f \<Rightarrow>
        warn_if (df_block f = [] \<and> df_allow f = []) ''dns_filter section present but no allow/block rules defined'' @
        warn_if (\<not> optionExists s ''net'') (''dns_filter requires networking (option '' @ quoted ''net'' @ '') to be useful''))"

definition share_warnings :: "spec_content \<Rightarrow> string list" where
  "share_warnings c =
     concat (map (\<lambda>s. warn_if (\<not> sh_readOnly s \<and> sh_host s \<in> {HOME, ''/'', ''/home'', ''/usr/home''})
       (''dirs/share: '' @ quoted (sh_host s) @ '' is shared read-write as a whole; consider '' @ quoted '':ro'' @ '' or a subdirectory'')) (dirsShare c)) @
     concat (map (\<lambda>t. concat (map (\<lambda>s.
       warn_if (isUnder (sh_jail s) (tf_path t) \<and> sh_jail s \<noteq> tf_path t \<and> \<not> tmpfsMountedBeforeGui (tf_path t))
         (''tmpfs at '' @ quoted (tf_path t) @ '' is mounted after the share at '' @ quoted (sh_jail s) @ '' and hides it'')) (dirsShare c))) (tmpfs_list c)) @
     warn_if (etcKeep c \<noteq> [] \<and> \<not> baseHostRo c)
       (''etc/keep copies host /etc entries at create time; the jail'' @ ap @ ''s /etc is a full copy from base.txz here, so only the named entries are replaced'')"

definition home_share :: "Share \<Rightarrow> bool" where
  "home_share s \<longleftrightarrow> starts_with HOME (sh_host s) \<or> starts_with HOME (sh_jail s)"

definition user_warnings :: "Spec \<Rightarrow> string list" where
  "user_warnings s =
     (let c = sp_content s; u = runUser c; b = sp_blocks s in
      if u = ''root''
      then [''run/user: root '' @ em_dash @ '' the command runs as root inside the jail; drop it unless the program needs it (the default is the operator'' @ ap @ ''s own account)'']
      else if u \<noteq> [] then
        warn_if (list_ex home_share (dirsShare c) \<or> list_ex home_share (filesShare c))
          (''run/user: '' @ u @ '' '' @ em_dash @ '' shares under '' @ HOME @ '' belong to the operator'' @ ap @ ''s uid; '' @ quoted u @
           '' can read but not write them unless the host directories allow it'') @
        warn_if (x11Options b \<noteq> None \<or> guiOptions b \<noteq> None \<or> optionExists s ''x11'')
          (''run/user: '' @ u @ '' '' @ em_dash @ '' the X11 authority is copied for the operator'' @ ap @ ''s account; a GUI program running as '' @ quoted u @
           '' may not reach the display'')
      else [])"

definition timeout_warnings :: "Spec \<Rightarrow> string list" where
  "timeout_warnings s =
     (let t = runTimeoutSec (sp_content s) in
      if t > 0 then
        warn_if (runCmdExecutable (sp_content s) = [])
          (''run/timeout: '' @ udec32 t @ ''s on a service-only crate '' @ em_dash @ '' the container itself is stopped after that long (the services get `service stop`), which is rarely what a daemon wants'') @
        (case healthcheck (sp_blocks s) of None \<Rightarrow> [] | Some h \<Rightarrow>
           warn_if (hc_startPeriod h \<ge> t)
             (''run/timeout: '' @ udec32 t @ ''s is not longer than healthcheck/start_period; the command would be killed before the first probe''))
      else [])"

definition gatherWarnings :: "Spec \<Rightarrow> string list" where
  "gatherWarnings s =
     (let c = sp_content s; f = sp_flags s in
      warn_if (allowSysvipc f) ''ipc/sysvipc=true reduces isolation; only enable if the application requires System V shared memory'' @
      warn_if (baseHostRo c \<and> baseRemove c \<noteq> [])
        (''base/mode=host-ro '' @ em_dash @ '' base/remove has no effect: the host userland is mounted read-only and never trimmed'') @
      net_warnings s @
      warn_if (sp_limits s \<noteq> [] \<and> map_find (sp_limits s) ''maxproc'' = None)
        (''limits section present but maxproc not set '' @ em_dash @ '' consider setting a process limit'') @
      warn_if (encrypted f) ''encrypted=true requires ZFS dataset with encryption enabled on the jail directory'' @
      dns_warnings s @ flag_warnings f @ cow_warnings (sp_blocks s) @ x11_warnings s @ gui_warnings (sp_blocks s) @ block_warnings s @
      warnings (sp_devices s) @ share_warnings c @ user_warnings s @
      warn_if ((optionExists s ''tor'' \<or> optionExists s ''i2pd'') \<and> privacyHostid f = [])
        (''options: tor/i2pd without privacy/hostid '' @ em_dash @ '' the jail carries the host'' @ ap @ ''s kern.hostuuid/kern.hostid; add `privacy: {hostid: random, hostname: random}` so programs inside cannot identify the machine'') @
      timeout_warnings s)"

section \<open>Strict errors\<close>

definition fmtRange :: "u32 \<Rightarrow> u32 \<Rightarrow> string" where
  "fmtRange a b = (if a = b then udec32 a else udec32 a @ ''-'' @ udec32 b)"

definition rangesOverlap :: "u32 \<Rightarrow> u32 \<Rightarrow> u32 \<Rightarrow> u32 \<Rightarrow> bool" where
  "rangesOverlap a1 a2 b1 b2 \<longleftrightarrow> \<not> (a2 < b1 \<or> b2 < a1)"

definition conflict_msg :: "string \<Rightarrow> nat \<times> PortRange \<times> PortRange \<Rightarrow> nat \<times> PortRange \<times> PortRange \<Rightarrow> string" where
  "conflict_msg proto i j =
     ''net/inbound/'' @ proto @ '': host port '' @ fmtRange (fst (fst (snd i))) (snd (fst (snd i))) @ '' conflicts with '' @
     fmtRange (fst (fst (snd j))) (snd (fst (snd j))) @ '' (rules '' @ dec (fst i + 1) @ '' and '' @ dec (fst j + 1) @ '')''"

definition ports_conflict :: "PortRange \<times> PortRange \<Rightarrow> PortRange \<times> PortRange \<Rightarrow> bool" where
  "ports_conflict p q \<longleftrightarrow> rangesOverlap (fst (fst p)) (snd (fst p)) (fst (fst q)) (snd (fst q))"

fun conflicts_from :: "string \<Rightarrow> nat \<Rightarrow> (PortRange \<times> PortRange) list \<Rightarrow> string list" where
  "conflicts_from proto i [] = []"
| "conflicts_from proto i (r # rs) =
     map (conflict_msg proto (i, r)) (filter (\<lambda>j. ports_conflict r (snd j)) (List.enumerate (Suc i) rs)) @ conflicts_from proto (Suc i) rs"

definition checkInboundPortConflicts :: "string \<Rightarrow> (PortRange \<times> PortRange) list \<Rightarrow> string list" where
  "checkInboundPortConflicts proto rules = conflicts_from proto 0 rules"

text \<open>The map from jail paths to host paths, and the errors; a conflicting entry leaves the map alone.\<close>

fun share_conflicts :: "string \<Rightarrow> (string \<rightharpoonup> string) \<Rightarrow> Share list \<Rightarrow> (string \<rightharpoonup> string) \<times> string list" where
  "share_conflicts kind m [] = (m, [])"
| "share_conflicts kind m (s # ss) =
     (case m (sh_jail s) of
        Some src \<Rightarrow>
          if src \<noteq> sh_host s
          then let (m', es) = share_conflicts kind m ss in
               (m', (kind @ '' destination '' @ quoted (sh_jail s) @ '' is mapped from two different host sources: '' @ quoted src @ '' and '' @ quoted (sh_host s)) # es)
          else share_conflicts kind (m(sh_jail s \<mapsto> sh_host s)) ss
      | None \<Rightarrow> share_conflicts kind (m(sh_jail s \<mapsto> sh_host s)) ss)"

definition empty_errs :: "string \<Rightarrow> Share list \<Rightarrow> string list" where
  "empty_errs kind ss =
     concat (map (\<lambda>s. warn_if (sh_host s = [] \<or> sh_jail s = [])
       (kind @ '': empty source or destination (host='' @ quoted (sh_host s) @ '', jail='' @ quoted (sh_jail s) @ '')'')) ss)"

definition strict_x11 :: "Spec \<Rightarrow> string list" where
  "strict_x11 s =
     (case x11Options (sp_blocks s) of
        Some x \<Rightarrow> warn_if (x11_mode x = ''shared'') ''x11/mode=shared is rejected in --strict mode (no display isolation; switch to x11/mode=nested or gui/mode=headless, or drop --strict if intentional)''
      | None \<Rightarrow> warn_if (optionExists s ''x11'')
          (''x11 option without explicit x11/mode is rejected in --strict mode (implicit default is '' @ quoted ''shared'' @ '', which has no display isolation)''))"

definition gatherStrictErrors :: "Spec \<Rightarrow> string list" where
  "gatherStrictErrors s =
     (let c = sp_content s; (m, dirs) = share_conflicts ''share/dir'' Map.empty (dirsShare c);
          (_, files) = share_conflicts ''share/file'' m (filesShare c) in
      (if optionExists s ''net''
       then (case optionNet s of None \<Rightarrow> [] | Some d \<Rightarrow>
              checkInboundPortConflicts ''tcp'' (no_inboundTcp d) @ checkInboundPortConflicts ''udp'' (no_inboundUdp d))
       else []) @
      dirs @ files @ empty_errs ''share/dir'' (dirsShare c) @ empty_errs ''share/file'' (filesShare c) @ strict_x11 s @
      warn_if (sp_limits s = [] \<or> map_find (sp_limits s) ''memoryuse'' = None \<and> map_find (sp_limits s) ''maxproc'' = None)
        (''limits: --strict requires at least '' @ quoted ''memoryuse'' @ '' or '' @ quoted ''maxproc'' @
         '' to bound the jail; runaway processes can otherwise OOM-kill the host''))"

section \<open>What strict mode accepts\<close>

definition host_ports :: "PortRange \<times> PortRange \<Rightarrow> u32 set" where
  "host_ports r = {p. fst (fst r) \<le> p \<and> p \<le> snd (fst r)}"

definition ordered_range :: "PortRange \<times> PortRange \<Rightarrow> bool" where
  "ordered_range r \<longleftrightarrow> fst (fst r) \<le> snd (fst r)"

definition one_rule_per_port :: "(PortRange \<times> PortRange) list \<Rightarrow> bool" where
  "one_rule_per_port rs \<longleftrightarrow> (\<forall>p. length (filter (\<lambda>r. p \<in> host_ports r) rs) \<le> 1)"

lemma warn_if_Nil [simp]: "warn_if b w = [] \<longleftrightarrow> \<not> b"
  by (simp add: warn_if_def)

lemma conflict_ports:
  assumes "ordered_range p" "ordered_range q"
  shows "ports_conflict p q \<longleftrightarrow> host_ports p \<inter> host_ports q \<noteq> {}"
proof -
  have "ports_conflict p q \<longleftrightarrow> fst (fst q) \<le> snd (fst p) \<and> fst (fst p) \<le> snd (fst q)"
    by (auto simp: ports_conflict_def rangesOverlap_def not_less)
  also have "\<dots> \<longleftrightarrow> max (fst (fst p)) (fst (fst q)) \<in> host_ports p \<inter> host_ports q"
    using assms by (auto simp: host_ports_def ordered_range_def max_def)
  also have "\<dots> \<longleftrightarrow> host_ports p \<inter> host_ports q \<noteq> {}"
    by (auto simp: host_ports_def max_def)
  finally show ?thesis .
qed

lemma conflicts_none: "conflicts_from proto i rs = [] \<longleftrightarrow> sorted_wrt (\<lambda>p q. \<not> ports_conflict p q) rs"
proof (induction rs arbitrary: i)
  case (Cons r rs)
  have "filter (\<lambda>j. ports_conflict r (snd j)) (List.enumerate k rs) = [] \<longleftrightarrow> (\<forall>q\<in>set rs. \<not> ports_conflict r q)" for k
    by (induction rs arbitrary: k) auto
  then show ?case using Cons by simp
qed simp

lemma one_rule_disjoint:
  "list_all ordered_range rs \<Longrightarrow> sorted_wrt (\<lambda>p q. \<not> ports_conflict p q) rs \<longleftrightarrow> one_rule_per_port rs"
proof (induction rs)
  case (Cons r rs)
  have "(\<forall>q\<in>set rs. \<not> ports_conflict r q) \<longleftrightarrow> (\<forall>p\<in>host_ports r. filter (\<lambda>q. p \<in> host_ports q) rs = [])"
    using Cons.prems by (auto simp: conflict_ports list_all_iff filter_empty_conv)
  then show ?case using Cons by (auto simp: one_rule_per_port_def le_Suc_eq)
qed (simp add: one_rule_per_port_def)

lemma inbound_ok:
  "list_all ordered_range rs \<Longrightarrow> checkInboundPortConflicts proto rs = [] \<longleftrightarrow> one_rule_per_port rs"
  by (simp add: checkInboundPortConflicts_def conflicts_none one_rule_disjoint)

definition consistent :: "(string \<rightharpoonup> string) \<Rightarrow> Share list \<Rightarrow> bool" where
  "consistent m ss \<longleftrightarrow>
     (\<forall>s\<in>set ss. m (sh_jail s) \<in> {None, Some (sh_host s)}) \<and> (\<forall>s\<in>set ss. \<forall>t\<in>set ss. sh_jail s = sh_jail t \<longrightarrow> sh_host s = sh_host t)"

lemma consistent_Nil: "consistent m []"
  by (simp add: consistent_def)

lemma consistent_Cons:
  "consistent m (s # ss) \<longleftrightarrow> m (sh_jail s) \<in> {None, Some (sh_host s)} \<and> consistent (m(sh_jail s \<mapsto> sh_host s)) ss"
proof (cases "m (sh_jail s) \<in> {None, Some (sh_host s)}")
  case True
  define same where "same a b \<longleftrightarrow> (sh_jail a = sh_jail b \<longrightarrow> sh_host a = sh_host b)" for a b :: Share
  define ok where "ok t \<longleftrightarrow> m (sh_jail t) \<in> {None, Some (sh_host t)}" for t :: Share
  have upd: "(m(sh_jail s \<mapsto> sh_host s)) (sh_jail t) \<in> {None, Some (sh_host t)} \<longleftrightarrow> ok t \<and> same s t" for t
    using True unfolding ok_def same_def by auto
  have sym: "same a b \<longleftrightarrow> same b a" "same a a" for a b unfolding same_def by metis+
  show ?thesis unfolding consistent_def upd using True
    unfolding ok_def [symmetric] same_def [symmetric] by (simp add: sym(2)) (use sym(1) in blast)
next
  case False
  then have "\<not> consistent m (s # ss)" unfolding consistent_def by (meson list.set_intros(1))
  then show ?thesis using False by blast
qed

definition after :: "(string \<rightharpoonup> string) \<Rightarrow> Share list \<Rightarrow> (string \<rightharpoonup> string)" where
  "after m ss = foldl (\<lambda>m s. m(sh_jail s \<mapsto> sh_host s)) m ss"

lemma consistent_append: "consistent m (ds @ fs) \<longleftrightarrow> consistent m ds \<and> consistent (after m ds) fs"
  by (induction ds arbitrary: m) (auto simp: consistent_Cons consistent_Nil after_def)

lemma share_conflicts_ok:
  "snd (share_conflicts kind m ss) = [] \<longleftrightarrow> consistent m ss"
  "consistent m ss \<Longrightarrow> fst (share_conflicts kind m ss) = after m ss"
proof -
  show "snd (share_conflicts kind m ss) = [] \<longleftrightarrow> consistent m ss"
  proof (induction ss arbitrary: m)
    case (Cons s ss)
    then show ?case by (cases "m (sh_jail s)") (simp_all add: consistent_Cons Let_def split_beta fun_upd_def)
  qed (simp add: consistent_Nil)
  show "consistent m ss \<Longrightarrow> fst (share_conflicts kind m ss) = after m ss"
  proof (induction ss arbitrary: m)
    case (Cons s ss)
    then show ?case by (cases "m (sh_jail s)") (simp_all add: consistent_Cons after_def fun_upd_def)
  qed (simp add: after_def)
qed

lemma shares_ok:
  "(let (m, dirs) = share_conflicts k Map.empty ds; (_, files) = share_conflicts k' m fs in dirs @ files) = [] \<longleftrightarrow>
   (\<forall>s\<in>set (ds @ fs). \<forall>t\<in>set (ds @ fs). sh_jail s = sh_jail t \<longrightarrow> sh_host s = sh_host t)"
proof -
  have "consistent Map.empty ss \<longleftrightarrow> (\<forall>s\<in>set ss. \<forall>t\<in>set ss. sh_jail s = sh_jail t \<longrightarrow> sh_host s = sh_host t)" for ss
    by (simp add: consistent_def)
  moreover have "(let (m, dirs) = share_conflicts k Map.empty ds; (_, files) = share_conflicts k' m fs in dirs @ files) = [] \<longleftrightarrow>
      consistent Map.empty (ds @ fs)"
    by (auto simp: Let_def split_beta share_conflicts_ok consistent_append)
  ultimately show ?thesis by simp
qed

definition display_isolated :: "Spec \<Rightarrow> bool" where
  "display_isolated s \<longleftrightarrow> (case x11Options (sp_blocks s) of Some x \<Rightarrow> x11_mode x \<noteq> ''shared'' | None \<Rightarrow> \<not> optionExists s ''x11'')"

text \<open>
  Strict validation accepts a specification exactly when no host port is forwarded by two rules of one protocol, no
  jail path is fed from two host paths, directories and files together, no share has an empty side, the display is not
  shared, and memory or the number of processes is bounded.
\<close>

theorem strict_accepts_exact:
  assumes "\<forall>d. optionNet s = Some d \<longrightarrow> list_all ordered_range (no_inboundTcp d) \<and> list_all ordered_range (no_inboundUdp d)"
  shows "gatherStrictErrors s = [] \<longleftrightarrow>
    (\<forall>d. optionNet s = Some d \<longrightarrow> one_rule_per_port (no_inboundTcp d) \<and> one_rule_per_port (no_inboundUdp d)) \<and>
    (let shares = dirsShare (sp_content s) @ filesShare (sp_content s) in
       (\<forall>a\<in>set shares. \<forall>b\<in>set shares. sh_jail a = sh_jail b \<longrightarrow> sh_host a = sh_host b) \<and>
       (\<forall>a\<in>set shares. sh_host a \<noteq> [] \<and> sh_jail a \<noteq> [])) \<and>
    display_isolated s \<and>
    (map_find (sp_limits s) ''memoryuse'' \<noteq> None \<or> map_find (sp_limits s) ''maxproc'' \<noteq> None)"
proof -
  let ?c = "sp_content s"
  have n: "optionNet s = Some d \<Longrightarrow> optionExists s ''net''" for d
    by (auto simp: optionNet_def optionExists_def split: option.splits)
  have net: "(if optionExists s ''net'' then case optionNet s of None \<Rightarrow> [] | Some d \<Rightarrow>
        checkInboundPortConflicts ''tcp'' (no_inboundTcp d) @ checkInboundPortConflicts ''udp'' (no_inboundUdp d) else []) = [] \<longleftrightarrow>
      (\<forall>d. optionNet s = Some d \<longrightarrow> one_rule_per_port (no_inboundTcp d) \<and> one_rule_per_port (no_inboundUdp d))"
    using n assms by (cases "optionNet s") (simp_all add: inbound_ok)
  have empt: "empty_errs k ss = [] \<longleftrightarrow> (\<forall>a\<in>set ss. sh_host a \<noteq> [] \<and> sh_jail a \<noteq> [])" for k ss
    by (simp add: empty_errs_def)
  have x11: "strict_x11 s = [] \<longleftrightarrow> display_isolated s"
    by (simp add: strict_x11_def display_isolated_def split: option.split)
  have lim: "\<not> (sp_limits s = [] \<or> map_find (sp_limits s) ''memoryuse'' = None \<and> map_find (sp_limits s) ''maxproc'' = None) \<longleftrightarrow>
      map_find (sp_limits s) ''memoryuse'' \<noteq> None \<or> map_find (sp_limits s) ''maxproc'' \<noteq> None"
    by (cases "sp_limits s = []") simp_all
  show ?thesis
    using shares_ok [of "''share/dir''" "dirsShare ?c" "''share/file''" "filesShare ?c"]
    unfolding gatherStrictErrors_def Let_def split_beta append_is_Nil_conv net empt x11 warn_if_Nil lim set_append ball_Un by argo
qed

definition strict_spec :: Spec where
  "strict_spec = run_spec\<lparr>sp_limits := [(''memoryuse'', ''1g'')],
     sp_options := [(''net'', Some (Opt_Net (plainNet\<lparr>no_inboundTcp := [((80, 90), (80, 90)), ((443, 443), (443, 443))]\<rparr>)))]\<rparr>"

theorem strict_accepts_exact_witness:
  "one_rule_per_port [((80, 90), (80, 90)), ((443, 443), (443, 443))]"
proof -
  have n: "optionNet strict_spec = Some (plainNet\<lparr>no_inboundTcp := [((80, 90), (80, 90)), ((443, 443), (443, 443))]\<rparr>)"
    by (simp add: strict_spec_def optionNet_def)
  then have o: "\<forall>d. optionNet strict_spec = Some d \<longrightarrow> list_all ordered_range (no_inboundTcp d) \<and> list_all ordered_range (no_inboundUdp d)"
    by (auto simp: ordered_range_def plainNet_def)
  have f: "dirsShare (sp_content strict_spec) = []" "filesShare (sp_content strict_spec) = []" "x11Options (sp_blocks strict_spec) = None"
    "\<not> optionExists strict_spec ''x11''" "optionExists strict_spec ''net''" "sp_limits strict_spec = [(''memoryuse'', ''1g'')]"
    by (simp_all add: strict_spec_def run_spec_def emptySpec_def optionExists_def)
  have p: "checkInboundPortConflicts ''tcp'' [((80, 90), (80, 90)), ((443, 443), (443, 443))] = []" "checkInboundPortConflicts x [] = []" for x
    by (simp_all add: checkInboundPortConflicts_def ports_conflict_def rangesOverlap_def)
  have "gatherStrictErrors strict_spec = []"
    unfolding gatherStrictErrors_def n by (simp add: f p plainNet_def empty_errs_def strict_x11_def)
  then have "\<forall>d. optionNet strict_spec = Some d \<longrightarrow> one_rule_per_port (no_inboundTcp d) \<and> one_rule_per_port (no_inboundUdp d)"
    by (rule iffD1 [OF strict_accepts_exact [OF o], THEN conjunct1])
  then show ?thesis using n by simp
qed

end
