(* ===== verification/GuiReg.thy ===== *)
theory GuiReg
  imports Ctx Auth
begin

text \<open>
  The registry of graphical sessions, \<^verbatim>\<open>lib/gui_registry.cpp\<close>: one line per session in a locked file, read lazily and
  written back at unlock when something changed, and the two sessions in which a run of \<^verbatim>\<open>lib/run_gui.cpp\<close> uses it:
  one that picks a display number and, after the X server came up, one that registers it.
\<close>

section \<open>Entries and lines\<close>

record GuiEntry =
  ge_ownerPid :: int
  ge_displayNum :: nat
  ge_xServerPid :: int
  ge_vncPort :: nat
  ge_wsPort :: nat
  ge_mode :: string
  ge_jailName :: string

text \<open>\<^verbatim>\<open>is >> s\<close> for a string: the next characters up to white space, at least one.\<close>

definition read_word :: "string \<Rightarrow> (string \<times> string) option" where
  "read_word s =
     (let t = dropWhile white s; w = takeWhile (\<lambda>c. \<not> white c) t in
      if w = [] then None else Some (w, drop (length w) t))"

definition parse_gui :: "string \<Rightarrow> GuiEntry option" where
  "parse_gui line =
     (case read_pid line of None \<Rightarrow> None | Some (pid, r1) \<Rightarrow>
      case read_unsigned r1 of None \<Rightarrow> None | Some (d, r2) \<Rightarrow>
      case read_pid r2 of None \<Rightarrow> None | Some (x, r3) \<Rightarrow>
      case read_unsigned r3 of None \<Rightarrow> None | Some (vnc, r4) \<Rightarrow>
      case read_unsigned r4 of None \<Rightarrow> None | Some (ws, r5) \<Rightarrow>
      case read_word r5 of None \<Rightarrow> None | Some (mode, r6) \<Rightarrow>
      case read_word r6 of None \<Rightarrow> None | Some (jail, _) \<Rightarrow>
        Some \<lparr>ge_ownerPid = pid, ge_displayNum = d, ge_xServerPid = x, ge_vncPort = vnc, ge_wsPort = ws, ge_mode = mode, ge_jailName = jail\<rparr>)"

definition gui_line :: "GuiEntry \<Rightarrow> string" where
  "gui_line e =
     dec_int (ge_ownerPid e) @ SP # dec (ge_displayNum e) @ SP # dec_int (ge_xServerPid e) @ SP # dec (ge_vncPort e) @ SP #
     dec (ge_wsPort e) @ SP # ge_mode e @ SP # ge_jailName e"

definition gui_text :: "(int, GuiEntry) stdmap \<Rightarrow> string" where
  "gui_text m = concat (map (\<lambda>kv. gui_line (snd kv) @ [NL]) m)"

definition gui_read :: "string \<Rightarrow> (int, GuiEntry) stdmap \<Rightarrow> (int, GuiEntry) stdmap" where
  "gui_read content m =
     fold (\<lambda>line acc. case parse_gui line of Some e \<Rightarrow> map_put (ge_ownerPid e) e acc | None \<Rightarrow> acc) (file_lines content) m"

section \<open>The object\<close>

record gui_reg =
  gr_file :: string
  gr_entries :: "(int, GuiEntry) stdmap"
  gr_inMemory :: bool
  gr_changed :: bool

definition gui_lock :: "string \<Rightarrow> gui_reg" where
  "gui_lock content = \<lparr>gr_file = content, gr_entries = [], gr_inMemory = False, gr_changed = False\<rparr>"

definition gui_unlock :: "gui_reg \<Rightarrow> string" where
  "gui_unlock g = (if gr_changed g then gui_text (gr_entries g) else gr_file g)"

definition gui_load :: "gui_reg \<Rightarrow> gui_reg" where
  "gui_load g = (if gr_inMemory g then g else g\<lparr>gr_entries := gui_read (gr_file g) (gr_entries g), gr_inMemory := True\<rparr>)"

definition gui_garbageCollect :: "(int \<Rightarrow> bool) \<Rightarrow> gui_reg \<Rightarrow> gui_reg" where
  "gui_garbageCollect alive g =
     g\<lparr>gr_entries := filter (\<lambda>kv. alive (fst kv)) (gr_entries g),
       gr_changed := gr_changed g \<or> list_ex (\<lambda>kv. \<not> alive (fst kv)) (gr_entries g)\<rparr>"

text \<open>\<^verbatim>\<open>disp = 10; while (usedDisplays.count(disp)) disp++\<close>: one of the first \<^verbatim>\<open>n + 1\<close> numbers from 10 is free of \<^verbatim>\<open>n\<close> used ones.\<close>

definition free_display :: "nat list \<Rightarrow> nat" where
  "free_display used = the (List.find (\<lambda>d. d \<notin> set used) [10..<11 + length used])"

definition allocateDisplay :: "(int \<Rightarrow> bool) \<Rightarrow> gui_reg \<Rightarrow> nat \<times> gui_reg" where
  "allocateDisplay alive g0 =
     (let g = gui_garbageCollect alive (gui_load g0) in (free_display (map (ge_displayNum \<circ> snd) (gr_entries g)), g))"

definition registerEntry :: "(int \<Rightarrow> bool) \<Rightarrow> GuiEntry \<Rightarrow> gui_reg \<Rightarrow> gui_reg" where
  "registerEntry alive e g0 =
     (let g = gui_garbageCollect alive (gui_load g0) in
      g\<lparr>gr_entries := map_put (ge_ownerPid e) e (gr_entries g), gr_changed := True\<rparr>)"

definition unregisterEntry :: "int \<Rightarrow> gui_reg \<Rightarrow> gui_reg" where
  "unregisterEntry pid g0 = (let g = gui_load g0 in g\<lparr>gr_entries := map_erase pid (gr_entries g), gr_changed := True\<rparr>)"

definition getEntries :: "(int \<Rightarrow> bool) \<Rightarrow> gui_reg \<Rightarrow> GuiEntry list \<times> gui_reg" where
  "getEntries alive g0 = (let g = gui_garbageCollect alive (gui_load g0) in (map snd (gr_entries g), g))"

text \<open>The lookup is a \<^verbatim>\<open>const\<close> method: it searches what is in memory and reads nothing.\<close>

definition findByTarget :: "string \<Rightarrow> gui_reg \<Rightarrow> GuiEntry option" where
  "findByTarget target g =
     (let es = map snd (gr_entries g) in
      case List.find (\<lambda>e. ge_jailName e = target) es of
        Some e \<Rightarrow> Some e
      | None \<Rightarrow>
        (case List.find (\<lambda>e. starts_with (''jail-'' @ target) (ge_jailName e)) es of
           Some e \<Rightarrow> Some e
         | None \<Rightarrow>
           (case stoi target of
              None \<Rightarrow> None
            | Some n \<Rightarrow>
              (case List.find (\<lambda>e. to_pid (int (ge_displayNum e)) = n) es of
                 Some e \<Rightarrow> Some e
               | None \<Rightarrow> List.find (\<lambda>e. ge_ownerPid e = n) es))))"

section \<open>Reading back\<close>

definition word_ok :: "string \<Rightarrow> bool" where
  "word_ok w \<longleftrightarrow> w \<noteq> [] \<and> list_all (\<lambda>c. \<not> white c \<and> c \<noteq> CHR 0x00) w"

definition gui_entry_ok :: "GuiEntry \<Rightarrow> bool" where
  "gui_entry_ok e \<longleftrightarrow>
     pid_ok (ge_ownerPid e) \<and> 0 \<le> ge_xServerPid e \<and> ge_xServerPid e < 2 ^ 31 \<and>
     ge_displayNum e < 2 ^ 32 \<and> ge_vncPort e < 2 ^ 32 \<and> ge_wsPort e < 2 ^ 32 \<and> word_ok (ge_mode e) \<and> word_ok (ge_jailName e)"

definition gui_ok :: "(int, GuiEntry) stdmap \<Rightarrow> bool" where
  "gui_ok m \<longleftrightarrow> map_ok m \<and> (\<forall>kv\<in>set m. gui_entry_ok (snd kv) \<and> ge_ownerPid (snd kv) = fst kv)"

lemma SP_facts: "\<not> is_digit SP" "white SP"
  by (simp_all add: is_digit_def white_def)

lemma read_skips: "read_pid (SP # s) = read_pid s" "read_unsigned (SP # s) = read_unsigned s" "read_word (SP # s) = read_word s"
  using SP_facts by (simp_all add: read_pid_def read_unsigned_def read_word_def sign_digits_def)

lemma read_pid_dec:
  assumes "0 \<le> p" "p < 2 ^ 31"
  shows "read_pid (dec_int p @ SP # r) = Some (p, SP # r)"
proof -
  have "sign_digits (dec (nat p) @ SP # r) = Some (False, dec (nat p), SP # r)" using SP_facts by (intro sign_digits_dec) simp
  then show ?thesis using assms by (simp add: read_pid_def dec_int_def)
qed

lemma read_unsigned_dec: "n < 2 ^ 32 \<Longrightarrow> read_unsigned (dec n @ SP # r) = Some (n, SP # r)"
  using sign_digits_dec [of "SP # r" n] SP_facts by (simp add: read_unsigned_def)

lemma word_plain: "word_ok w \<Longrightarrow> takeWhile (\<lambda>c. \<not> white c) w = w" "word_ok w \<Longrightarrow> dropWhile white w = w"
  by (cases w; auto simp: word_ok_def list_all_iff takeWhile_eq_all_conv)+

lemma read_word_ok: "word_ok w \<Longrightarrow> read_word (w @ SP # r) = Some (w, SP # r)" "word_ok w \<Longrightarrow> read_word w = Some (w, [])"
proof -
  assume w: "word_ok w"
  then have "dropWhile white (w @ SP # r) = w @ SP # r" by (cases w) (auto simp: word_ok_def)
  moreover have "takeWhile (\<lambda>c. \<not> white c) (w @ SP # r) = w"
    using w SP_facts by (auto simp: word_ok_def list_all_iff takeWhile_append)
  ultimately show "read_word (w @ SP # r) = Some (w, SP # r)" using w by (simp add: read_word_def word_ok_def)
  show "read_word w = Some (w, [])"
    unfolding read_word_def word_plain(2) [OF w] word_plain(1) [OF w] Let_def using w by (simp add: word_ok_def)
qed

lemma parse_gui_line: "gui_entry_ok e \<Longrightarrow> parse_gui (gui_line e) = Some e"
  by (simp add: gui_entry_ok_def pid_ok_def parse_gui_def gui_line_def read_pid_dec read_unsigned_dec read_word_ok read_skips)

lemma gui_line_chars:
  assumes "gui_entry_ok e" "c \<in> set (gui_line e)"
  shows "c \<noteq> NL \<and> c \<noteq> CHR 0x00"
proof -
  have d: "c \<in> set (dec n) \<Longrightarrow> c \<noteq> NL \<and> c \<noteq> CHR 0x00" for n using dec_char_digit [of c n] by (auto simp: is_digit_def NL_def)
  have w: "word_ok w \<Longrightarrow> c \<in> set w \<Longrightarrow> c \<noteq> NL \<and> c \<noteq> CHR 0x00" for w by (auto simp: word_ok_def list_all_iff white_def NL_def)
  show ?thesis using assms d w by (auto simp: gui_line_def gui_entry_ok_def pid_ok_def dec_int_def NL_def)
qed

lemma gui_file_lines:
  assumes "\<forall>kv\<in>set m. gui_entry_ok (snd kv)"
  shows "file_lines (gui_text m) = map (gui_line \<circ> snd) m"
proof -
  have "getlines (concat (map (\<lambda>l. l @ [NL]) (map (gui_line \<circ> snd) m))) = map (gui_line \<circ> snd) m"
    using assms gui_line_chars by (intro getlines_lines) fastforce
  moreover have "takeWhile (\<lambda>c. c \<noteq> CHR 0x00) (gui_line (snd kv)) = gui_line (snd kv)" if "kv \<in> set m" for kv
    using assms that gui_line_chars by (auto simp: takeWhile_eq_all_conv)
  ultimately show ?thesis by (simp add: file_lines_def gui_text_def comp_def)
qed

lemma gui_read_text:
  assumes "gui_ok m"
  shows "gui_read (gui_text m) [] = m"
proof -
  have "fold (\<lambda>line acc. case parse_gui line of Some e \<Rightarrow> map_put (ge_ownerPid e) e acc | None \<Rightarrow> acc) (map (gui_line \<circ> snd) m) acc = acc @ m"
    if "map_ok (acc @ m)" "\<forall>kv\<in>set m. gui_entry_ok (snd kv) \<and> ge_ownerPid (snd kv) = fst kv" for acc
    using that
  proof (induction m arbitrary: acc)
    case (Cons kv m)
    obtain p e where kv: "kv = (p, e)" by (cases kv)
    have "\<forall>k' \<in> fst ` set acc. k' < p" using Cons.prems(1) kv by (auto simp: map_ok_def sorted_wrt_append)
    then have "map_put p e acc = acc @ [(p, e)]" by (rule map_put_snoc)
    then show ?case using Cons.IH [of "acc @ [(p, e)]"] Cons.prems kv by (simp add: parse_gui_line)
  qed simp
  from this [of "[]"] show ?thesis using assms by (simp add: gui_read_def gui_ok_def gui_file_lines)
qed

lemma gui_ok_put: "gui_ok m \<Longrightarrow> gui_entry_ok e \<Longrightarrow> gui_ok (map_put (ge_ownerPid e) e m)"
proof -
  have "set (map_put k v m) \<subseteq> insert (k, v) (set m)" for k v
    by (induction k v m rule: map_put.induct) auto
  then show "gui_ok m \<Longrightarrow> gui_entry_ok e \<Longrightarrow> gui_ok (map_put (ge_ownerPid e) e m)" unfolding gui_ok_def by fastforce
qed

lemma gui_ok_filter: "gui_ok m \<Longrightarrow> gui_ok (filter P m)"
  by (simp add: gui_ok_def)

lemma gui_ok_erase: "gui_ok m \<Longrightarrow> gui_ok (map_erase k m)"
  unfolding gui_ok_def by (auto simp: map_erase_def)

section \<open>Sessions on the file\<close>

definition gui_of :: "string \<Rightarrow> (int, GuiEntry) stdmap" where
  "gui_of content = gui_read content []"

definition pick_session :: "(int \<Rightarrow> bool) \<Rightarrow> string \<Rightarrow> nat \<times> string" where
  "pick_session alive content = (let (d, g) = allocateDisplay alive (gui_lock content) in (d, gui_unlock g))"

definition register_session :: "(int \<Rightarrow> bool) \<Rightarrow> GuiEntry \<Rightarrow> string \<Rightarrow> string" where
  "register_session alive e content = gui_unlock (registerEntry alive e (gui_lock content))"

definition unregister_session :: "int \<Rightarrow> string \<Rightarrow> string" where
  "unregister_session pid content = gui_unlock (unregisterEntry pid (gui_lock content))"

lemma loaded: "gui_load (gui_lock content) = \<lparr>gr_file = content, gr_entries = gui_of content, gr_inMemory = True, gr_changed = False\<rparr>"
  by (simp add: gui_load_def gui_lock_def gui_of_def)

lemma free_display:
  "10 \<le> free_display used" "free_display used \<notin> set used" "10 \<le> d \<Longrightarrow> d < free_display used \<Longrightarrow> d \<in> set used"
proof -
  have "\<exists>d. 10 \<le> d \<and> d < 11 + length used \<and> d \<notin> set used"
  proof (rule ccontr)
    assume "\<not> ?thesis"
    then have "{10..<11 + length used} \<subseteq> set used" by auto
    then have "card {10..<11 + length used} \<le> card (set used)" by (intro card_mono) auto
    then show False using card_length [of used] by simp
  qed
  then have "List.find (\<lambda>d. d \<notin> set used) [10..<11 + length used] \<noteq> None" by (auto simp: find_None_iff)
  then obtain k where k: "List.find (\<lambda>d. d \<notin> set used) [10..<11 + length used] = Some k" by blast
  then obtain i where i: "i < 1 + length used" "k = 10 + i" "10 + i \<notin> set used" "\<forall>j<i. 10 + j \<in> set used"
    by (auto simp: find_Some_iff)
  have f: "free_display used = 10 + i" unfolding free_display_def k by (simp add: i(2))
  show "10 \<le> free_display used" "free_display used \<notin> set used" using i f by simp_all
  show "10 \<le> d \<Longrightarrow> d < free_display used \<Longrightarrow> d \<in> set used"
    using i(4) [rule_format, of "d - 10"] f by simp
qed

text \<open>
  The registry keeps the living sessions: picking a display returns the least number from 10 that no living
  session in the file holds, and leaves exactly the living sessions in the file; registering leaves the living sessions
  with the new one in place of any old one of its process; unregistering leaves all others. In each case the text
  written reads back.
\<close>

theorem gui_sessions_exact:
  assumes "gui_ok (gui_of content)" "gui_entry_ok e"
  shows "(let (d, content') = pick_session alive content; live = filter (\<lambda>kv. alive (fst kv)) (gui_of content) in
      gui_of content' = live \<and> 10 \<le> d \<and> d \<notin> set (map (ge_displayNum \<circ> snd) live) \<and>
      (\<forall>n. 10 \<le> n \<and> n < d \<longrightarrow> n \<in> set (map (ge_displayNum \<circ> snd) live)) \<and>
      gui_of (register_session alive e content) = map_put (ge_ownerPid e) e live \<and>
      gui_of (unregister_session pid content) = map_erase pid (gui_of content))"
proof -
  let ?m = "gui_of content" and ?live = "filter (\<lambda>kv. alive (fst kv)) (gui_of content)"
  have ok: "gui_ok ?live" "gui_ok (map_put (ge_ownerPid e) e ?live)" "gui_ok (map_erase pid ?m)"
    using assms gui_ok_filter gui_ok_put gui_ok_erase by blast+
  have p: "pick_session alive content = (free_display (map (ge_displayNum \<circ> snd) ?live),
      if list_ex (\<lambda>kv. \<not> alive (fst kv)) ?m then gui_text ?live else content)"
    by (simp add: pick_session_def allocateDisplay_def loaded gui_garbageCollect_def gui_unlock_def)
  have "gui_of (if list_ex (\<lambda>kv. \<not> alive (fst kv)) ?m then gui_text ?live else content) = ?live"
    using gui_read_text [OF ok(1)] by (auto simp: gui_of_def list_ex_iff filter_id_conv)
  moreover have "gui_of (register_session alive e content) = map_put (ge_ownerPid e) e ?live"
    using gui_read_text [OF ok(2)] by (simp add: register_session_def registerEntry_def loaded gui_garbageCollect_def gui_unlock_def gui_of_def)
  moreover have "gui_of (unregister_session pid content) = map_erase pid ?m"
    using gui_read_text [OF ok(3)] by (simp add: unregister_session_def unregisterEntry_def loaded gui_unlock_def gui_of_def)
  ultimately show ?thesis unfolding Let_def p split_conv using free_display by blast
qed

definition sample_gui :: "int \<Rightarrow> nat \<Rightarrow> GuiEntry" where
  "sample_gui pid d = \<lparr>ge_ownerPid = pid, ge_displayNum = d, ge_xServerPid = pid + 1, ge_vncPort = 5900, ge_wsPort = 0,
     ge_mode = ''headless'', ge_jailName = ''web''\<rparr>"

theorem gui_sessions_exact_witness: "10 \<le> fst (pick_session (\<lambda>_. True) [])"
proof -
  have e: "gui_of [] = []" by (simp add: gui_of_def gui_read_def file_lines_def getlines_def Let_def)
  have "gui_ok (gui_of [])" by (simp add: e gui_ok_def)
  moreover have "gui_entry_ok (sample_gui 42 10)" by (simp add: gui_entry_ok_def sample_gui_def pid_ok_def word_ok_def white_def)
  ultimately show ?thesis using gui_sessions_exact [of "[]" "sample_gui 42 10" "\<lambda>_. True" 42] by (simp add: Let_def split_beta)
qed

section \<open>Two runs at once\<close>

text \<open>
  The host as the runs see it: the file and, for every run that has picked a display and not registered yet, the
  number it picked. Every session is one step, since it holds the lock.
\<close>

record gui_host =
  gh_file :: string
  gh_picked :: "(int, nat) stdmap"

inductive gui_reach :: "(int \<Rightarrow> bool) \<Rightarrow> gui_host \<Rightarrow> bool" for alive where
  gui_start: "gui_reach alive \<lparr>gh_file = [], gh_picked = []\<rparr>"
| gui_pick: "gui_reach alive h \<Longrightarrow> alive pid \<Longrightarrow> pick_session alive (gh_file h) = (d, f) \<Longrightarrow>
    gui_reach alive \<lparr>gh_file = f, gh_picked = map_put pid d (gh_picked h)\<rparr>"
| gui_register: "gui_reach alive h \<Longrightarrow> alive (ge_ownerPid e) \<Longrightarrow> map_find (gh_picked h) (ge_ownerPid e) = Some (ge_displayNum e) \<Longrightarrow>
    gui_reach alive \<lparr>gh_file = register_session alive e (gh_file h), gh_picked = map_erase (ge_ownerPid e) (gh_picked h)\<rparr>"
| gui_end: "gui_reach alive h \<Longrightarrow>
    gui_reach alive \<lparr>gh_file = unregister_session pid (gh_file h), gh_picked = gh_picked h\<rparr>"

lemma sample_gui_ok: "0 < pid \<Longrightarrow> pid < 2 ^ 31 - 1 \<Longrightarrow> d < 2 ^ 32 \<Longrightarrow> gui_entry_ok (sample_gui pid d)"
  by (simp add: gui_entry_ok_def sample_gui_def pid_ok_def word_ok_def white_def)

text \<open>
  C40. A display number is not reserved when it is picked: two living runs whose sessions interleave are both given
  display 10, and both end up registered with it.
\<close>

theorem display_given_twice:
  "\<exists>h. gui_reach (\<lambda>_. True) h \<and> map_find (gui_of (gh_file h)) 7 = Some (sample_gui 7 10) \<and>
     map_find (gui_of (gh_file h)) 8 = Some (sample_gui 8 10)"
proof -
  let ?al = "\<lambda>_::int. True"
  have e: "gui_of [] = []" by (simp add: gui_of_def gui_read_def file_lines_def getlines_def Let_def)
  have p: "pick_session ?al [] = (10, [])"
    by (simp add: pick_session_def allocateDisplay_def loaded e gui_garbageCollect_def gui_unlock_def free_display_def)
  have o: "gui_entry_ok (sample_gui 7 10)" "gui_entry_ok (sample_gui 8 10)" by (simp_all add: sample_gui_ok)
  have pid: "ge_ownerPid (sample_gui q d) = q" "ge_displayNum (sample_gui q d) = d" for q d by (simp_all add: sample_gui_def)
  define f1 where "f1 = register_session ?al (sample_gui 7 10) []"
  define f2 where "f2 = register_session ?al (sample_gui 8 10) f1"
  have t1: "f1 = gui_text [(7, sample_gui 7 10)]"
    by (simp add: f1_def register_session_def registerEntry_def loaded e gui_garbageCollect_def gui_unlock_def pid)
  have m1: "gui_ok [(7, sample_gui 7 10)]" using o by (simp add: gui_ok_def pid)
  then have g1: "gui_of f1 = [(7, sample_gui 7 10)]" using gui_read_text by (simp add: t1 gui_of_def)
  have t2: "f2 = gui_text [(7, sample_gui 7 10), (8, sample_gui 8 10)]"
    by (simp add: f2_def register_session_def registerEntry_def loaded g1 gui_garbageCollect_def gui_unlock_def pid)
  have "gui_ok [(7, sample_gui 7 10), (8, sample_gui 8 10)]" using o by (simp add: gui_ok_def pid)
  then have g2: "gui_of f2 = [(7, sample_gui 7 10), (8, sample_gui 8 10)]" using gui_read_text by (simp add: t2 gui_of_def)
  have "gui_reach ?al \<lparr>gh_file = [], gh_picked = [(7, 10)]\<rparr>" using gui_pick [OF gui_start, of ?al 7 10 "[]"] p by simp
  then have "gui_reach ?al \<lparr>gh_file = [], gh_picked = [(7, 10), (8, 10)]\<rparr>" using gui_pick [of ?al _ 8 10 "[]"] p by force
  then have "gui_reach ?al \<lparr>gh_file = f1, gh_picked = map_erase 7 [(7, 10), (8, 10)]\<rparr>"
    using gui_register [of ?al _ "sample_gui 7 10"] by (force simp: pid f1_def)
  then have "gui_reach ?al \<lparr>gh_file = f2, gh_picked = map_erase 8 (map_erase 7 [(7, 10), (8, 10)])\<rparr>"
    using gui_register [of ?al _ "sample_gui 8 10"] by (force simp: pid f2_def)
  then show ?thesis using g2 by (intro exI conjI) (assumption, simp_all)
qed

text \<open>A registry that was only locked finds nothing, whatever its file holds.\<close>

lemma unread_registry_empty: "findByTarget target (gui_lock content) = None"
  by (simp add: findByTarget_def gui_lock_def split: option.split)

end
