(* ===== verification/Routes.thy ===== *)
theory Routes
  imports Dispatch GuiReg Lifecycle Migrate
begin

text \<open>
  The HTTP interface of crated: \<^verbatim>\<open>daemon/routes.cpp\<close> with \<^verbatim>\<open>daemon/routes_pure.cpp\<close> and \<^verbatim>\<open>daemon/transfer_pure.cpp\<close>.
  Every route body is a definition that returns the actions it takes on the host and the reply. What the host answers
  (jails as a function of the actions so far, commands, files, the spec registry, zfs, time) is the environment; the
  HTTP server, which parses requests and matches paths, is the parameter that yields the route. The bodies of the
  streams (the log follower and the event stream) are not modelled, only their start.
\<close>

section \<open>Artifacts\<close>

definition artifact_char :: "char \<Rightarrow> bool" where
  "artifact_char c \<longleftrightarrow> is_alnum c \<or> c = CHR ''.'' \<or> c = CHR ''_'' \<or> c = CHR ''-''"

definition validateArtifactName :: "string \<Rightarrow> err" where
  "validateArtifactName name =
     fail_if (name = []) ''artifact name is empty''
     (fail_if (length name > kArtifactFile) (''artifact name is longer than '' @ dec kArtifactFile @ '' chars'')
     (fail_if (name = ''.'' \<or> name = ''..'') ''artifact name is reserved''
     (case List.find (\<lambda>c. \<not> artifact_char c) name of
        None \<Rightarrow> []
      | Some c \<Rightarrow>
          if c = CHR '' '' then ''invalid space character in artifact name''
          else if c = CHR ''/'' then ''invalid '' @ quoted ''/'' @ '' in artifact name (no path traversal)''
          else ''invalid character '' @ quoted [c] @ '' in artifact name'')))"

definition artifactContainerName :: "string \<Rightarrow> string" where
  "artifactContainerName filename =
     (if length filename \<le> 6 \<or> \<not> ends_with ''.crate'' filename then []
      else let stem = take (length filename - 6) filename;
               digits = takeWhile is_digit (rev stem);
               rest = dropWhile is_digit (rev stem) in
        if digits = [] \<or> rest = [] \<or> hd rest \<noteq> CHR ''-'' then [] else rev (tl rest))"

definition formatTransferResponse :: "string \<Rightarrow> nat \<Rightarrow> string \<Rightarrow> string" where
  "formatTransferResponse file sz sha = json_obj [json_text ''file'' file, json_raw ''size'' (dec sz), json_text ''sha256'' sha]"

definition sniffArchiveType :: "string \<Rightarrow> string" where
  "sniffArchiveType leading =
     (if starts_with [CHR 0xFD, CHR 0x37, CHR 0x7A, CHR 0x58, CHR 0x5A, CHR 0x00] leading then ''xz''
      else if starts_with ''Salted__'' leading then ''encrypted'' else ''unknown'')"

definition validateSnapshotName :: "string \<Rightarrow> err" where
  "validateSnapshotName name =
     fail_if (name = []) ''snapshot name is empty''
     (fail_if (length name > 64) ''snapshot name is longer than 64 chars''
     (fail_if (name = ''.'' \<or> name = ''..'') ''snapshot name is reserved''
     (bad_char artifact_char ''snapshot name'' name)))"

section \<open>The optional name of a snapshot\<close>

definition json_space :: "char \<Rightarrow> bool" where
  "json_space c \<longleftrightarrow> c = CHR '' '' \<or> c = TAB \<or> c = NL \<or> c = CHR 0x0D"

fun read_string :: "string \<Rightarrow> string \<Rightarrow> string option" where
  "read_string out [] = None"
| "read_string out [c] = (if c = DQ then Some out else None)"
| "read_string out (c # e # cs) =
     (if c = DQ then Some out
      else if c = CHR 0x5C then
        read_string (out @ [if e = CHR ''n'' then CHR 0x0A else if e = CHR ''r'' then CHR 0x0D else if e = CHR ''t'' then CHR 0x09
          else if e = CHR ''b'' then CHR 0x08 else if e = CHR ''f'' then CHR 0x0C else e]) cs
      else read_string (out @ [c]) (e # cs))"

definition extractNameField :: "string \<Rightarrow> string \<Rightarrow> string" where
  "extractNameField body fieldName =
     (case cut_first (DQ # fieldName @ [DQ]) body of
        None \<Rightarrow> []
      | Some (_, rest) \<Rightarrow>
        (case dropWhile json_space rest of
           c # r \<Rightarrow>
             if c \<noteq> CHR '':'' then []
             else (case dropWhile json_space r of
                     q # s \<Rightarrow> if q \<noteq> DQ then [] else (case read_string [] s of None \<Rightarrow> [] | Some v \<Rightarrow> v)
                   | [] \<Rightarrow> [])
         | [] \<Rightarrow> []))"

section \<open>Environment\<close>

record SnapshotInfo =
  sn_name :: string
  sn_used :: string
  sn_refer :: string
  sn_creation :: string

datatype api_act =
    Api_Life life_act
  | Api_Query "string list"
  | Api_Spawn string
  | Api_Record string
  | Api_ListSnapshots string
  | Api_Snapshot string
  | Api_DestroySnapshot string
  | Api_Pack string string
  | Api_Send string
  | Api_Write string string
  | Api_Unlink string
  | Api_Rename string string
  | Api_Follow string
  | Api_StatsStream int
  | Api_Gui GuiEntry
  | Api_Host
  | Api_PrivOp os_op

record api_env =
  ae_sha :: "string \<Rightarrow> string"
  ae_config :: auth_config
  ae_rootless :: bool
  ae_now :: int
  ae_pid :: int
  ae_view :: "life_act list \<Rightarrow> jail_view"
  ae_output :: "string list \<Rightarrow> string res"
  ae_specRead :: err
  ae_specFile :: spec_file
  ae_exists :: "string \<Rightarrow> bool"
  ae_spawn :: "string \<Rightarrow> int"
  ae_sysctl :: "string \<Rightarrow> string res"
  ae_guiFile :: string
  ae_metrics :: string
  ae_streams :: nat
  ae_dataset :: "string \<Rightarrow> string"
  ae_snapshots :: "string \<Rightarrow> SnapshotInfo list res"
  ae_zfs :: "api_act \<Rightarrow> err"
  ae_pack :: "string \<Rightarrow> err"
  ae_size :: "string \<Rightarrow> nat option"
  ae_open :: "string \<Rightarrow> bool"
  ae_write :: bool
  ae_rename :: bool
  ae_digest :: "string \<Rightarrow> string"
  ae_privEnv :: env

record api_request =
  rq_http :: http_request
  rq_remote :: string
  rq_follow :: string
  rq_tail :: string
  rq_body :: string

type_synonym api_reply = "api_act list \<times> nat \<times> string"

definition jsonOk :: "string \<Rightarrow> string" where
  "jsonOk data = json_obj [json_text ''status'' ''ok'', json_raw ''data'' data]"

definition jsonError :: "nat \<Rightarrow> string \<Rightarrow> api_reply" where
  "jsonError code msg = ([], code, json_obj [json_text ''status'' ''error'', json_str ''error'' msg])"

definition gate_for :: "api_env \<Rightarrow> api_request \<Rightarrow> string \<Rightarrow> string \<Rightarrow> bool" where
  "gate_for e rq role name = isAuthorizedForContainer (ae_sha e) (rq_http rq) (ae_config e) role name (ae_now e)"

definition gate_all :: "api_env \<Rightarrow> api_request \<Rightarrow> string \<Rightarrow> bool" where
  "gate_all e rq role = isAuthorized (ae_sha e) (rq_http rq) (ae_config e) role (ae_now e)"

text \<open>The bucket of the throttle: the listener marker and the peer address, then the endpoint.\<close>

definition getClientId :: "api_request \<Rightarrow> string" where
  "getClientId rq = (if hr_unixPeer (rq_http rq) then ''unix'' else if rq_remote rq = [] then ''tcp'' else rq_remote rq)"

definition jails :: "api_env \<Rightarrow> jail_view" where
  "jails e = ae_view e []"

definition ambiguous :: "string \<Rightarrow> api_reply" where
  "ambiguous name = jsonError 409 (''more than one running jail is named '' @ quoted name @ ''; use its jail name or jid'')"

definition findRouteJail :: "api_env \<Rightarrow> api_request \<Rightarrow> string \<Rightarrow> string \<Rightarrow> api_reply + JailInfo" where
  "findRouteJail e rq role name =
     (case findContainer (jails e) name of
        (None, n) \<Rightarrow> Inl (if n > 1 then ambiguous name else jsonError 404 ''container not found'')
      | (Some j, _) \<Rightarrow>
        if ji_name j \<noteq> name \<and> \<not> gate_for e rq role (ji_name j) then Inl (jsonError 403 ''unauthorized'') else Inr j)"

definition with_route_jail :: "api_env \<Rightarrow> api_request \<Rightarrow> string \<Rightarrow> string \<Rightarrow> (JailInfo \<Rightarrow> api_reply) \<Rightarrow> api_reply" where
  "with_route_jail e rq role name f =
     (if \<not> gate_for e rq role name then jsonError 403 ''unauthorized''
      else case findRouteJail e rq role name of Inl r \<Rightarrow> r | Inr j \<Rightarrow> f j)"

definition specPathForContainer :: "api_env \<Rightarrow> string \<Rightarrow> string" where
  "specPathForContainer e containerName =
     (let conventional = ''/var/run/crate/'' @ containerName @ ''.crate'';
          fallback = (if ae_exists e conventional then conventional else []) in
      case spec_lookup (ae_specRead e) containerName (ae_specFile e) of
        Inl _ \<Rightarrow> fallback
      | Inr p \<Rightarrow> if p \<noteq> [] \<and> ae_exists e p then p else fallback)"

section \<open>Reading routes\<close>

definition handleListContainers :: "api_env \<Rightarrow> api_reply" where
  "handleListContainers e =
     (let cmd = [''/usr/sbin/jls'', ''--libxo'', ''json''] in
      case ae_output e cmd of
        Inl m \<Rightarrow> ([Api_Query cmd], snd (jsonError 500 m))
      | Inr out \<Rightarrow> ([Api_Query cmd], 200, jsonOk out))"

text \<open>The registry is locked and searched; nothing reads its file in between.\<close>

definition handleContainerGui :: "api_env \<Rightarrow> string \<Rightarrow> api_reply" where
  "handleContainerGui e name =
     (case findByTarget name (gui_lock (ae_guiFile e)) of
        None \<Rightarrow> jsonError 404 (''no GUI session for container '' @ quoted name)
      | Some g \<Rightarrow>
        ([Api_Gui g], 200, jsonOk (json_obj [json_raw ''display'' (dec (ge_displayNum g)), json_raw ''pid'' (dec_int (ge_ownerPid g)),
           json_raw ''xpid'' (dec_int (ge_xServerPid g)), json_raw ''vnc_port'' (dec (ge_vncPort g)), json_raw ''ws_port'' (dec (ge_wsPort g)),
           json_text ''mode'' (ge_mode g), json_text ''jail'' (ge_jailName g)])))"

definition handleHostInfo :: "api_env \<Rightarrow> api_reply" where
  "handleHostInfo e =
     (case bind_res (ae_sysctl e ''kern.osrelease'') (\<lambda>os. bind_res (ae_sysctl e ''kern.hostname'') (\<lambda>hn.
           bind_res (ae_sysctl e ''hw.machine'') (\<lambda>mc. bind_res (ae_sysctl e ''hw.ncpu'') (\<lambda>nc.
           bind_res (ae_sysctl e ''hw.physmem'') (\<lambda>pm.
             Inr (json_obj [json_text ''hostname'' hn, json_text ''osrelease'' os, json_text ''machine'' mc, json_raw ''ncpu'' nc,
               json_raw ''physmem'' pm])))))) of
        Inl m \<Rightarrow> ([Api_Host], snd (jsonError 500 m))
      | Inr body \<Rightarrow> ([Api_Host], 200, jsonOk body))"

definition rctl_usage_cmd :: "int \<Rightarrow> string list" where
  "rctl_usage_cmd jid = [''/usr/bin/rctl'', ''-u'', ''jail:'' @ dec_int jid]"

definition handleContainerStats :: "api_env \<Rightarrow> api_request \<Rightarrow> string \<Rightarrow> api_reply" where
  "handleContainerStats e rq name = with_route_jail e rq ''viewer'' name (\<lambda>j.
     let cmd = rctl_usage_cmd (ji_jid j) in
     case ae_output e cmd of
       Inl m \<Rightarrow> ([Api_Query cmd], snd (jsonError 500 m))
     | Inr out \<Rightarrow>
         ([Api_Query cmd], 200, jsonOk (json_obj ([json_text ''name'' (ji_name j), json_raw ''jid'' (dec_int (ji_jid j)), json_text ''ip'' (ji_ip4 j)] @
            map (\<lambda>(k, x). json_raw k x) (usage_map out)))))"

definition tail_lines :: "string \<Rightarrow> int" where
  "tail_lines p = (if p = [] then 100 else case stoi p of None \<Rightarrow> 100 | Some n \<Rightarrow> n)"

definition log_path :: "JailInfo \<Rightarrow> string" where
  "log_path j = ''/var/log/crate/'' @ ji_name j @ ''/console.log''"

definition kMaxStreamingClients :: nat where
  "kMaxStreamingClients = 32"

definition handleContainerLogs :: "api_env \<Rightarrow> api_request \<Rightarrow> string \<Rightarrow> api_reply" where
  "handleContainerLogs e rq name = with_route_jail e rq ''viewer'' name (\<lambda>j.
     if rq_follow rq \<noteq> ''true'' \<and> rq_follow rq \<noteq> ''1'' then
       let cmd = [''/usr/bin/tail'', ''-n'', dec_int (tail_lines (rq_tail rq)), log_path j] in
       case ae_output e cmd of
         Inl m \<Rightarrow> ([Api_Query cmd], snd (jsonError 500 m))
       | Inr out \<Rightarrow> ([Api_Query cmd], 200, jsonOk (json_obj [json_text ''name'' (ji_name j), json_str ''log'' out]))
     else if ae_streams e \<ge> kMaxStreamingClients
     then jsonError 503 (''log-stream concurrency limit reached ('' @ dec kMaxStreamingClients @ '' clients); retry shortly'')
     else ([Api_Follow (log_path j)], 200, []))"

definition handleStatsStream :: "api_env \<Rightarrow> api_request \<Rightarrow> string \<Rightarrow> api_reply" where
  "handleStatsStream e rq name = with_route_jail e rq ''viewer'' name (\<lambda>j. ([Api_StatsStream (ji_jid j)], 200, []))"

section \<open>Container routes\<close>

text \<open>
  The stop route has a loop of its own: SIGTERM, up to ten seconds, then SIGKILL; when that command succeeds, another
  second and the removal of the jail if it is still there. A failing command is ignored, and ends the forced part.
\<close>

definition kill_cmd :: "int \<Rightarrow> string \<Rightarrow> string list" where
  "kill_cmd jid sig = [''/usr/sbin/jexec'', dec_int jid, ''/bin/kill'', ''-'' @ sig, ''-1'']"

definition stopped_body :: "JailInfo \<Rightarrow> bool \<Rightarrow> string" where
  "stopped_body j forced = json_obj ([json_raw ''stopped'' ''true'', json_text ''name'' (ji_name j)] @ (if forced then [json_raw ''forced'' ''true''] else []))"

definition stop_actions :: "api_env \<Rightarrow> JailInfo \<Rightarrow> life_act list \<times> bool" where
  "stop_actions e j =
     (let jid = nat (ji_jid j) in
      case wait_exit (ae_view e) jid 10 [Sig jid ''TERM''] of
        (tr, True) \<Rightarrow> (tr, False)
      | (tr, False) \<Rightarrow>
        let tr1 = tr @ [Sig jid ''KILL''] in
        case ae_output e (kill_cmd (ji_jid j) ''KILL'') of
          Inl _ \<Rightarrow> (tr1, True)
        | Inr _ \<Rightarrow>
          let tr2 = tr1 @ [Nap] in
          (if look (ae_view e) jid tr2 \<noteq> None then tr2 @ [Remove j] else tr2, True))"

definition handleContainerStop :: "api_env \<Rightarrow> api_request \<Rightarrow> string \<Rightarrow> api_reply" where
  "handleContainerStop e rq name = with_route_jail e rq ''admin'' name (\<lambda>j.
     let (tr, forced) = stop_actions e j in (map Api_Life tr, 200, jsonOk (stopped_body j forced)))"

definition start_container :: "api_env \<Rightarrow> string \<Rightarrow> string \<Rightarrow> string \<Rightarrow> string \<Rightarrow> api_reply" where
  "start_container e what failmsg containerName crateFile =
     (let pid = ae_spawn e crateFile in
      if pid < 0 then ([Api_Spawn crateFile], snd (jsonError 500 failmsg))
      else ([Api_Spawn crateFile, Api_Record containerName], 200,
        jsonOk (json_obj [json_raw what ''true'', json_raw ''async'' ''true'', json_raw ''pid'' (dec_int pid), json_str ''name'' containerName])))"

definition handleContainerStart :: "api_env \<Rightarrow> api_request \<Rightarrow> string \<Rightarrow> api_reply" where
  "handleContainerStart e rq name =
     (if \<not> gate_for e rq ''admin'' name then jsonError 403 ''unauthorized''
      else let (j, running) = findContainer (jails e) name in
        if j \<noteq> None \<or> running > 0 then jsonError 409 ''container already running''
        else let containerName = containerNameOf name; crateFile = specPathForContainer e containerName in
          if crateFile = [] then jsonError 404 (''no saved .crate file for '' @ quoted containerName)
          else start_container e ''started'' ''failed to start container: fork failed'' containerName crateFile)"

text \<open>The stop of \<^verbatim>\<open>lib/lifecycle.cpp\<close> on the kernel name of the jail.\<close>

definition stop_jail :: "api_env \<Rightarrow> JailInfo \<Rightarrow> api_act list \<times> bool" where
  "stop_jail e j = (let (tr, r) = stopCrate (ae_view e) 10 (ji_name j) [] in (map Api_Life tr, r = Stopped))"

definition handleContainerDestroy :: "api_env \<Rightarrow> api_request \<Rightarrow> string \<Rightarrow> api_reply" where
  "handleContainerDestroy e rq name =
     (if \<not> gate_for e rq ''admin'' name then jsonError 403 ''unauthorized''
      else case findContainer (jails e) name of
        (None, n) \<Rightarrow>
          if n > 1 then ambiguous name
          else ([], 200, jsonOk (json_obj [json_raw ''destroyed'' ''false'', json_raw ''was_running'' ''false'', json_text ''name'' name]))
      | (Some j, _) \<Rightarrow>
          if ji_name j \<noteq> name \<and> \<not> gate_for e rq ''admin'' (ji_name j) then jsonError 403 ''unauthorized''
          else let (acts, ok) = stop_jail e j in
            if \<not> ok then (acts, snd (jsonError 500 ''stop returned failure''))
            else (acts, 200, jsonOk (json_obj [json_raw ''destroyed'' ''true'', json_raw ''was_running'' ''true'', json_text ''name'' name])))"

definition handleContainerRestart :: "api_env \<Rightarrow> api_request \<Rightarrow> string \<Rightarrow> api_reply" where
  "handleContainerRestart e rq name =
     (if \<not> gate_for e rq ''admin'' name then jsonError 403 ''unauthorized''
      else let (jail, n) = findContainer (jails e) name in
        if jail = None \<and> n > 1 then ambiguous name
        else if (case jail of None \<Rightarrow> False | Some j \<Rightarrow> ji_name j \<noteq> name \<and> \<not> gate_for e rq ''admin'' (ji_name j)) then jsonError 403 ''unauthorized''
        else let containerName = (case jail of Some j \<Rightarrow> containerNameOfJail (ji_name j) (ji_path j) | None \<Rightarrow> containerNameOf name);
                 crateFile = specPathForContainer e containerName in
          if crateFile = [] then
            jsonError 404 (''no saved .crate file for '' @ quoted containerName @ ''; '' @ (if jail \<noteq> None then ''the container keeps running'' else ''nothing to restart''))
          else case jail of
            None \<Rightarrow> start_container e ''restarted'' ''failed to start container after stop: fork failed'' containerName crateFile
          | Some j \<Rightarrow>
            let (acts, ok) = stop_jail e j in
            if \<not> ok then (acts, snd (jsonError 500 ''stop phase returned failure''))
            else let (acts2, r) = start_container e ''restarted'' ''failed to start container after stop: fork failed'' containerName crateFile in
              (acts @ acts2, r))"

section \<open>Snapshot routes\<close>

definition routeDataset :: "api_env \<Rightarrow> string \<Rightarrow> string" where
  "routeDataset e name = (case jv_byName (jails e) name of Some j \<Rightarrow> ae_dataset e (ji_path j) | None \<Rightarrow> name)"

definition no_dataset :: api_reply where
  "no_dataset = jsonError 404 ''container or dataset not found''"

text \<open>\<^verbatim>\<open>ZfsOps::listSnapshots\<close> gives full names; the reply has what follows the first \<^verbatim>\<open>@\<close>.\<close>

definition snapshot_item :: "SnapshotInfo \<Rightarrow> string" where
  "snapshot_item s =
     (let shortName = (case cut_at (CHR ''@'') (sn_name s) of None \<Rightarrow> sn_name s | Some (_, b) \<Rightarrow> b) in
      json_obj [json_text ''name'' shortName, json_text ''used'' (sn_used s), json_text ''refer'' (sn_refer s),
        json_text ''creation'' (sn_creation s)])"

definition handleListSnapshots :: "api_env \<Rightarrow> api_request \<Rightarrow> string \<Rightarrow> api_reply" where
  "handleListSnapshots e rq name =
     (if \<not> gate_for e rq ''viewer'' name then jsonError 403 ''unauthorized''
      else let ds = routeDataset e name in
        if ds = [] then no_dataset
        else case ae_snapshots e ds of
          Inl m \<Rightarrow> ([Api_ListSnapshots ds], snd (jsonError 500 m))
        | Inr snaps \<Rightarrow> ([Api_ListSnapshots ds], 200,
            jsonOk (json_obj [json_text ''dataset'' ds, json_raw ''snapshots'' (CHR ''['' # join (CHR '','') (map snapshot_item snaps) @ [CHR '']''])])))"

definition auto_snapshot_name :: "int \<Rightarrow> string" where
  "auto_snapshot_name epoch =
     (let t = gmtime epoch in
      ''auto_'' @ pad4 (tm_year t) @ ''-'' @ pad2 (tm_mon t) @ ''-'' @ pad2 (tm_mday t) @ ''_'' @ pad2 (tm_hour t) @ pad2 (tm_min t) @ pad2 (tm_sec t))"

definition handleCreateSnapshot :: "api_env \<Rightarrow> api_request \<Rightarrow> string \<Rightarrow> api_reply" where
  "handleCreateSnapshot e rq name =
     (if \<not> gate_for e rq ''admin'' name then jsonError 403 ''unauthorized''
      else let ds = routeDataset e name in
        if ds = [] then no_dataset
        else let given = extractNameField (rq_body rq) ''name'';
                 snap = (if given = [] then auto_snapshot_name (ae_now e) else given);
                 full = ds @ CHR ''@'' # snap in
          if validateSnapshotName snap \<noteq> [] then jsonError 400 (validateSnapshotName snap)
          else if ae_zfs e (Api_Snapshot full) \<noteq> [] then ([Api_Snapshot full], snd (jsonError 500 (ae_zfs e (Api_Snapshot full))))
          else ([Api_Snapshot full], 200, jsonOk (json_obj [json_raw ''created'' ''true'', json_text ''snapshot'' full])))"

definition handleDeleteSnapshot :: "api_env \<Rightarrow> api_request \<Rightarrow> string \<Rightarrow> string \<Rightarrow> api_reply" where
  "handleDeleteSnapshot e rq name snap =
     (if \<not> gate_for e rq ''admin'' name then jsonError 403 ''unauthorized''
      else if validateSnapshotName snap \<noteq> [] then jsonError 400 (validateSnapshotName snap)
      else let ds = routeDataset e name; full = ds @ CHR ''@'' # snap in
        if ds = [] then no_dataset
        else if ae_zfs e (Api_DestroySnapshot full) \<noteq> []
        then ([Api_DestroySnapshot full], snd (jsonError 500 (ae_zfs e (Api_DestroySnapshot full))))
        else ([Api_DestroySnapshot full], 200, jsonOk (json_obj [json_raw ''deleted'' ''true'', json_text ''snapshot'' full])))"

section \<open>Export and import\<close>

definition artifact_path :: "string \<Rightarrow> string" where
  "artifact_path filename = ''/var/run/crate/'' @ filename"

definition handleContainerExport :: "api_env \<Rightarrow> api_request \<Rightarrow> string \<Rightarrow> api_reply" where
  "handleContainerExport e rq name = with_route_jail e rq ''admin'' name (\<lambda>j.
     let filename = ji_name j @ CHR ''-'' # dec_int (ae_now e) @ ''.crate''; out = artifact_path filename in
     if validateArtifactName filename \<noteq> [] then jsonError 400 (validateArtifactName filename)
     else if ae_pack e out \<noteq> [] then ([Api_Pack (ji_path j) out], snd (jsonError 500 (ae_pack e out)))
     else case ae_size e out of
       None \<Rightarrow> ([Api_Pack (ji_path j) out], snd (jsonError 500 ''export pipeline produced no output file''))
     | Some n \<Rightarrow> ([Api_Pack (ji_path j) out], 200, jsonOk (formatTransferResponse filename n (ae_digest e out))))"

definition handleExportDownload :: "api_env \<Rightarrow> api_request \<Rightarrow> string \<Rightarrow> api_reply" where
  "handleExportDownload e rq filename =
     (if validateArtifactName filename \<noteq> [] then jsonError 400 (validateArtifactName filename)
      else if artifactContainerName filename = [] then jsonError 400 ''artifact name is not <container>-<time>.crate''
      else if \<not> gate_for e rq ''admin'' (artifactContainerName filename) then jsonError 403 ''unauthorized''
      else let path = artifact_path filename in
        if ae_size e path = None then jsonError 404 ''artifact not found''
        else if \<not> ae_open e path then jsonError 500 ''open failed''
        else ([Api_Send path], 200, []))"

definition handleContainerImport :: "api_env \<Rightarrow> api_request \<Rightarrow> string \<Rightarrow> api_reply" where
  "handleContainerImport e rq name =
     (let filename = name @ ''.crate''; out = artifact_path filename; tmp = out @ ''.tmp.'' @ dec_int (ae_pid e) in
      if \<not> gate_for e rq ''admin'' name then jsonError 403 ''unauthorized''
      else if validateArtifactName filename \<noteq> [] then jsonError 400 (validateArtifactName filename)
      else if rq_body rq = [] then jsonError 400 (''empty body '' @ em_dash @ '' expected raw .crate octet-stream'')
      else if sniffArchiveType (take 16 (rq_body rq)) = ''unknown'' then jsonError 400 ''body is not a crate archive (xz or openssl-encrypted)''
      else if \<not> ae_open e tmp then jsonError 500 ''open temp failed''
      else if \<not> ae_write e then ([Api_Write tmp (rq_body rq), Api_Unlink tmp], snd (jsonError 500 ''write failed''))
      else if \<not> ae_rename e then ([Api_Write tmp (rq_body rq), Api_Rename tmp out, Api_Unlink tmp], snd (jsonError 500 ''rename failed''))
      else ([Api_Write tmp (rq_body rq), Api_Rename tmp out], 200,
        jsonOk (formatTransferResponse filename (length (rq_body rq)) (ae_digest e out))))"

section \<open>The route table\<close>

datatype route =
    Healthz
  | List_containers
  | Container_gui string
  | Host_info
  | Metrics
  | Container_stats string
  | Container_logs string
  | Container_stop string
  | Container_start string
  | Container_destroy string
  | Container_restart string
  | List_snapshots string
  | Create_snapshot string
  | Delete_snapshot string string
  | Stats_stream string
  | Container_export string
  | Export_download string
  | Container_import string
  | Priv_op string

fun endpoint :: "route \<Rightarrow> (string \<times> int) option" where
  "endpoint Healthz = None"
| "endpoint List_containers = Some (''/api/v1/containers'', kRead)"
| "endpoint (Container_gui n) = Some (''/api/v1/containers/gui'', kRead)"
| "endpoint Host_info = Some (''/api/v1/host'', kRead)"
| "endpoint Metrics = Some (''/metrics'', kRead)"
| "endpoint (Container_stats n) = Some (''/api/v1/containers/stats'', kRead)"
| "endpoint (Container_logs n) = Some (''/api/v1/containers/logs'', kRead)"
| "endpoint (Container_stop n) = Some (''/api/v1/containers/stop'', kMutating)"
| "endpoint (Container_start n) = Some (''/api/v1/containers/start'', kMutating)"
| "endpoint (Container_destroy n) = Some (''/api/v1/containers/destroy'', kMutating)"
| "endpoint (Container_restart n) = Some (''/api/v1/containers/restart'', kMutating)"
| "endpoint (List_snapshots n) = Some (''/api/v1/containers/snapshots-list'', kRead)"
| "endpoint (Create_snapshot n) = Some (''/api/v1/containers/snapshots-create'', kMutating)"
| "endpoint (Delete_snapshot n s) = Some (''/api/v1/containers/snapshots-delete'', kMutating)"
| "endpoint (Stats_stream n) = Some (''/api/v1/containers/stats-stream'', kRead)"
| "endpoint (Container_export n) = Some (''/api/v1/containers/export'', kMutating)"
| "endpoint (Export_download f) = Some (''/api/v1/exports/download'', kRead)"
| "endpoint (Container_import n) = Some (''/api/v1/imports'', kMutating)"
| "endpoint (Priv_op v) = Some (''/api/v1/privops'', kMutating)"

definition handlePrivOp :: "api_env \<Rightarrow> api_request \<Rightarrow> string \<Rightarrow> daemon \<Rightarrow> api_reply \<times> daemon" where
  "handlePrivOp e rq vn d =
     (if \<not> gate_all e rq ''admin'' then (jsonError 403 ''unauthorized'', d)
      else let ((ops, result), d') = dispatchPrivOp (ae_privEnv e) (ae_rootless e) 0 (parseVerb vn) (rq_body rq) d in
        ((map Api_PrivOp ops, dr_status result, dr_body result), d'))"

fun route_body :: "api_env \<Rightarrow> api_request \<Rightarrow> route \<Rightarrow> daemon \<Rightarrow> api_reply \<times> daemon" where
  "route_body e rq Healthz d = (([], 200, json_obj [json_text ''status'' ''ok'']), d)"
| "route_body e rq List_containers d =
     (if gate_all e rq ''viewer'' then handleListContainers e else jsonError 403 ''unauthorized'', d)"
| "route_body e rq (Container_gui n) d =
     (if gate_for e rq ''viewer'' n then handleContainerGui e n else jsonError 403 ''unauthorized'', d)"
| "route_body e rq Host_info d = (if gate_all e rq ''viewer'' then handleHostInfo e else jsonError 403 ''unauthorized'', d)"
| "route_body e rq Metrics d = (([], 200, ae_metrics e), d)"
| "route_body e rq (Container_stats n) d = (handleContainerStats e rq n, d)"
| "route_body e rq (Container_logs n) d = (handleContainerLogs e rq n, d)"
| "route_body e rq (Container_stop n) d = (handleContainerStop e rq n, d)"
| "route_body e rq (Container_start n) d = (handleContainerStart e rq n, d)"
| "route_body e rq (Container_destroy n) d = (handleContainerDestroy e rq n, d)"
| "route_body e rq (Container_restart n) d = (handleContainerRestart e rq n, d)"
| "route_body e rq (List_snapshots n) d = (handleListSnapshots e rq n, d)"
| "route_body e rq (Create_snapshot n) d = (handleCreateSnapshot e rq n, d)"
| "route_body e rq (Delete_snapshot n s) d = (handleDeleteSnapshot e rq n s, d)"
| "route_body e rq (Stats_stream n) d = (handleStatsStream e rq n, d)"
| "route_body e rq (Container_export n) d = (handleContainerExport e rq n, d)"
| "route_body e rq (Export_download f) d = (handleExportDownload e rq f, d)"
| "route_body e rq (Container_import n) d = (handleContainerImport e rq n, d)"
| "route_body e rq (Priv_op v) d = handlePrivOp e rq v d"

definition api_serve :: "api_env \<Rightarrow> api_request \<Rightarrow> route \<Rightarrow> buckets \<Rightarrow> daemon \<Rightarrow> api_reply \<times> buckets \<times> daemon" where
  "api_serve e rq r m d =
     (case endpoint r of
        None \<Rightarrow> let (a, d') = route_body e rq r d in (a, m, d')
      | Some (ep, cap) \<Rightarrow>
        let (m', ok) = rate_check (ae_now e) (getClientId rq @ CHR ''|'' # ep) cap m in
        if \<not> ok then (jsonError 429 ''rate limit exceeded'', m', d)
        else let (a, d') = route_body e rq r d in (a, m', d'))"

section \<open>What an action requires\<close>

text \<open>The jail a name in a path stands for, when the caller passes the gate for the name and for the jail's own name.\<close>

definition target_jail :: "api_env \<Rightarrow> api_request \<Rightarrow> string \<Rightarrow> string \<Rightarrow> JailInfo \<Rightarrow> bool" where
  "target_jail e rq role n j \<longleftrightarrow> gate_for e rq role n \<and> fst (findContainer (jails e) n) = Some j \<and> gate_for e rq role (ji_name j)"

definition acts_on :: "JailInfo \<Rightarrow> api_act \<Rightarrow> bool" where
  "acts_on j a \<longleftrightarrow> (\<exists>x. a = Api_Life x \<and> (x = Nap \<or> x = Remove j \<or> (\<exists>s. x = Sig (nat (ji_jid j)) s)))"

text \<open>A run is started from the registered file of the container or from the conventional one.\<close>

definition starts_from :: "api_env \<Rightarrow> string \<Rightarrow> api_act \<Rightarrow> bool" where
  "starts_from e c a \<longleftrightarrow> a = Api_Record c \<or> (\<exists>f. a = Api_Spawn f \<and> f = specPathForContainer e c \<and> f \<noteq> [])"

fun act_guard :: "api_env \<Rightarrow> api_request \<Rightarrow> route \<Rightarrow> api_act \<Rightarrow> bool" where
  "act_guard e rq List_containers a \<longleftrightarrow> gate_all e rq ''viewer'' \<and> (\<exists>c. a = Api_Query c)"
| "act_guard e rq Host_info a \<longleftrightarrow> gate_all e rq ''viewer'' \<and> a = Api_Host"
| "act_guard e rq (Container_stats n) a \<longleftrightarrow> (\<exists>j. target_jail e rq ''viewer'' n j \<and> a = Api_Query (rctl_usage_cmd (ji_jid j)))"
| "act_guard e rq (Stats_stream n) a \<longleftrightarrow> (\<exists>j. target_jail e rq ''viewer'' n j \<and> a = Api_StatsStream (ji_jid j))"
| "act_guard e rq (Container_logs n) a \<longleftrightarrow>
     (\<exists>j. target_jail e rq ''viewer'' n j \<and>
        (a = Api_Follow (log_path j) \<and> ae_streams e < kMaxStreamingClients \<or> (\<exists>k. a = Api_Query [''/usr/bin/tail'', ''-n'', k, log_path j])))"
| "act_guard e rq (Container_stop n) a \<longleftrightarrow> (\<exists>j. target_jail e rq ''admin'' n j \<and> acts_on j a)"
| "act_guard e rq (Container_start n) a \<longleftrightarrow>
     gate_for e rq ''admin'' n \<and> findContainer (jails e) n = (None, 0) \<and> starts_from e (containerNameOf n) a"
| "act_guard e rq (Container_destroy n) a \<longleftrightarrow> (\<exists>j. target_jail e rq ''admin'' n j \<and> acts_on j a)"
| "act_guard e rq (Container_restart n) a \<longleftrightarrow>
     (\<exists>j. target_jail e rq ''admin'' n j \<and> specPathForContainer e (containerNameOfJail (ji_name j) (ji_path j)) \<noteq> [] \<and>
        (acts_on j a \<or> starts_from e (containerNameOfJail (ji_name j) (ji_path j)) a \<and> snd (stop_jail e j))) \<or>
     (gate_for e rq ''admin'' n \<and> fst (findContainer (jails e) n) = None \<and> starts_from e (containerNameOf n) a)"
| "act_guard e rq (List_snapshots n) a \<longleftrightarrow> gate_for e rq ''viewer'' n \<and> a = Api_ListSnapshots (routeDataset e n)"
| "act_guard e rq (Create_snapshot n) a \<longleftrightarrow>
     gate_for e rq ''admin'' n \<and> (\<exists>s. a = Api_Snapshot (routeDataset e n @ CHR ''@'' # s) \<and> validateSnapshotName s = [])"
| "act_guard e rq (Delete_snapshot n s) a \<longleftrightarrow>
     gate_for e rq ''admin'' n \<and> a = Api_DestroySnapshot (routeDataset e n @ CHR ''@'' # s) \<and> validateSnapshotName s = []"
| "act_guard e rq (Container_export n) a \<longleftrightarrow>
     (\<exists>j f. target_jail e rq ''admin'' n j \<and> a = Api_Pack (ji_path j) (artifact_path f) \<and> CHR ''/'' \<notin> set f \<and>
        (0 \<le> ae_now e \<longrightarrow> artifactContainerName f = ji_name j))"
| "act_guard e rq (Export_download f) a \<longleftrightarrow>
     gate_for e rq ''admin'' (artifactContainerName f) \<and> a = Api_Send (artifact_path f) \<and> CHR ''/'' \<notin> set f"
| "act_guard e rq (Container_import n) a \<longleftrightarrow>
     gate_for e rq ''admin'' n \<and> CHR ''/'' \<notin> set n \<and>
     (let out = artifact_path (n @ ''.crate''); tmp = out @ ''.tmp.'' @ dec_int (ae_pid e) in
      a \<in> {Api_Write tmp (rq_body rq), Api_Unlink tmp, Api_Rename tmp out})"
| "act_guard e rq (Priv_op v) a \<longleftrightarrow> gate_all e rq ''admin'' \<and> (\<exists>x. a = Api_PrivOp x)"
| "act_guard e rq Healthz a \<longleftrightarrow> False"
| "act_guard e rq Metrics a \<longleftrightarrow> False"
| "act_guard e rq (Container_gui n) a \<longleftrightarrow> False"

lemma jsonError_acts [simp]: "fst (jsonError c m) = []" "fst (ambiguous n) = []" "fst no_dataset = []"
  by (simp_all add: jsonError_def ambiguous_def no_dataset_def)

lemma with_route_jail_acts:
  assumes "a \<in> set (fst (with_route_jail e rq role n f))"
  shows "\<exists>j. target_jail e rq role n j \<and> a \<in> set (fst (f j))"
  using assms unfolding with_route_jail_def findRouteJail_def target_jail_def
  by (auto split: if_splits prod.splits option.splits)

lemma wait_exit_set: "x \<in> set (fst (wait_exit view jid k tr)) \<Longrightarrow> x \<in> set tr \<or> x = Nap"
  by (induction k arbitrary: tr) (fastforce split: if_splits)+

lemma stop_actions_on: "x \<in> set (fst (stop_actions e j)) \<Longrightarrow> acts_on j (Api_Life x)"
  unfolding stop_actions_def acts_on_def using wait_exit_set [of x "ae_view e" "nat (ji_jid j)" 10 "[Sig (nat (ji_jid j)) ''TERM'']"]
  by (auto simp: Let_def split: prod.splits bool.splits sum.splits if_splits)

lemma stopCrate_on:
  assumes "fst (findContainer (view []) target) = Some j" "x \<in> set (fst (stopCrate view timeout target []))"
  shows "acts_on j (Api_Life x)"
proof -
  obtain n where f: "findContainer (view []) target = (Some j, n)" using assms(1) by (cases "findContainer (view []) target") auto
  show ?thesis using assms(2) f wait_exit_set [of x view "nat (ji_jid j)" timeout "[Sig (nat (ji_jid j)) ''TERM'']"]
    unfolding stopCrate_def acts_on_def by (auto simp: Let_def split: prod.splits bool.splits option.splits if_splits)
qed

text \<open>
  The name of a jail the daemon has found finds the same jail again: libjail answers for the kernel name of every jail
  it lists.
\<close>

definition jail_names_ok :: "jail_view \<Rightarrow> bool" where
  "jail_names_ok v \<longleftrightarrow> (\<forall>n j. fst (findContainer v n) = Some j \<longrightarrow> ji_name j \<noteq> [] \<and> jv_byName v (ji_name j) = Some j)"

lemma stop_jail_on:
  assumes "jail_names_ok (jails e)" "fst (findContainer (jails e) n) = Some j" "a \<in> set (fst (stop_jail e j))"
  shows "acts_on j a"
proof -
  have "fst (findContainer (ae_view e []) (ji_name j)) = Some j"
    using assms(1,2) unfolding jail_names_ok_def by (simp add: findContainer_def jails_def)
  moreover obtain x where "a = Api_Life x" "x \<in> set (fst (stopCrate (ae_view e) 10 (ji_name j) []))"
    using assms(3) by (auto simp: stop_jail_def split: prod.splits)
  ultimately show ?thesis using stopCrate_on by blast
qed

lemma start_container_from:
  "crateFile = specPathForContainer e c \<Longrightarrow> crateFile \<noteq> [] \<Longrightarrow> a \<in> set (fst (start_container e w f c crateFile)) \<Longrightarrow> starts_from e c a"
  by (auto simp: start_container_def starts_from_def Let_def split: if_splits)

lemma artifact_no_slash: "validateArtifactName f = [] \<Longrightarrow> CHR ''/'' \<notin> set f"
  by (auto simp: validateArtifactName_def fail_if_def artifact_char_def is_alnum_def find_None_iff
      split: if_splits option.splits)

lemma artifactContainerName_export: "artifactContainerName (n @ CHR ''-'' # dec k @ ''.crate'') = n"
proof -
  let ?stem = "n @ CHR ''-'' # dec k"
  have dig: "\<And>c. c \<in> set (rev (dec k)) \<Longrightarrow> is_digit c" using dec_char_digit by auto
  have "takeWhile is_digit (rev (dec k) @ CHR ''-'' # rev n) = rev (dec k)"
    "dropWhile is_digit (rev (dec k) @ CHR ''-'' # rev n) = CHR ''-'' # rev n"
    by (subst takeWhile_append2 dropWhile_append2, erule dig, simp add: is_digit_def)+
  then have "takeWhile is_digit (rev ?stem) = rev (dec k)" "dropWhile is_digit (rev ?stem) = CHR ''-'' # rev n" by simp_all
  moreover have "ends_with ''.crate'' (?stem @ ''.crate'')" by (simp add: ends_with_def)
  moreover have "length (?stem @ ''.crate'') > 6" by simp
  moreover have "take (length (?stem @ ''.crate'') - 6) (?stem @ ''.crate'') = ?stem" by simp
  ultimately show ?thesis unfolding artifactContainerName_def by (simp add: Let_def)
qed

lemma guard_jail_routes:
  "a \<in> set (fst (handleContainerStats e rq n)) \<Longrightarrow> act_guard e rq (Container_stats n) a"
  "a \<in> set (fst (handleStatsStream e rq n)) \<Longrightarrow> act_guard e rq (Stats_stream n) a"
  "a \<in> set (fst (handleContainerLogs e rq n)) \<Longrightarrow> act_guard e rq (Container_logs n) a"
  unfolding handleContainerStats_def handleStatsStream_def handleContainerLogs_def
  by (drule with_route_jail_acts, fastforce simp: Let_def jsonError_def split: sum.splits if_splits)+

lemma guard_stop: "a \<in> set (fst (handleContainerStop e rq n)) \<Longrightarrow> act_guard e rq (Container_stop n) a"
  unfolding handleContainerStop_def
  by (drule with_route_jail_acts) (auto simp: split_beta intro: stop_actions_on)

lemma guard_start: "a \<in> set (fst (handleContainerStart e rq n)) \<Longrightarrow> act_guard e rq (Container_start n) a"
  unfolding handleContainerStart_def
  by (auto simp: Let_def jsonError_def split: if_splits prod.splits intro: start_container_from)

lemma guard_destroy:
  assumes "jail_names_ok (jails e)" "a \<in> set (fst (handleContainerDestroy e rq n))"
  shows "act_guard e rq (Container_destroy n) a"
  using assms(2) stop_jail_on [OF assms(1), of n _ a] unfolding handleContainerDestroy_def
  by (fastforce simp: Let_def jsonError_def target_jail_def split: if_splits prod.splits option.splits)

lemma guard_restart:
  assumes "jail_names_ok (jails e)" "a \<in> set (fst (handleContainerRestart e rq n))"
  shows "act_guard e rq (Container_restart n) a"
proof (cases "fst (findContainer (jails e) n)")
  case None
  then show ?thesis using assms(2) unfolding handleContainerRestart_def
    by (auto simp: Let_def jsonError_def split: if_splits prod.splits intro: start_container_from)
next
  case (Some j)
  let ?c = "containerNameOfJail (ji_name j) (ji_path j)"
  let ?start = "start_container e ''restarted'' ''failed to start container after stop: fork failed'' ?c (specPathForContainer e ?c)"
  obtain m where find: "findContainer (jails e) n = (Some j, m)" using Some by (cases "findContainer (jails e) n") auto
  obtain acts ok where st: "stop_jail e j = (acts, ok)" by fastforce
  obtain acts2 r where sc: "?start = (acts2, r)" by (rule prod.exhaust)
  from assms(2) have "gate_for e rq ''admin'' n" "gate_for e rq ''admin'' (ji_name j)" "specPathForContainer e ?c \<noteq> []"
    "a \<in> set acts \<or> ok \<and> a \<in> set acts2"
    unfolding handleContainerRestart_def
    by (auto simp: find st sc Let_def split: if_splits)
  then show ?thesis using stop_jail_on [OF assms(1) Some, of a] start_container_from [OF refl, of e ?c a] sc Some
    by (auto simp: st target_jail_def) (metis fst_conv)
qed

lemma guard_snapshots:
  "a \<in> set (fst (handleListSnapshots e rq n)) \<Longrightarrow> act_guard e rq (List_snapshots n) a"
  "a \<in> set (fst (handleCreateSnapshot e rq n)) \<Longrightarrow> act_guard e rq (Create_snapshot n) a"
  "a \<in> set (fst (handleDeleteSnapshot e rq n s)) \<Longrightarrow> act_guard e rq (Delete_snapshot n s) a"
  unfolding handleListSnapshots_def handleCreateSnapshot_def handleDeleteSnapshot_def no_dataset_def
  by (auto simp: Let_def jsonError_def split: if_splits sum.splits)

lemma guard_export: "a \<in> set (fst (handleContainerExport e rq n)) \<Longrightarrow> act_guard e rq (Container_export n) a"
proof -
  assume "a \<in> set (fst (handleContainerExport e rq n))"
  then obtain j where j: "target_jail e rq ''admin'' n j"
    "a = Api_Pack (ji_path j) (artifact_path (ji_name j @ CHR ''-'' # dec_int (ae_now e) @ ''.crate''))"
    "validateArtifactName (ji_name j @ CHR ''-'' # dec_int (ae_now e) @ ''.crate'') = []"
    unfolding handleContainerExport_def by (force simp: Let_def jsonError_def split: if_splits option.splits dest!: with_route_jail_acts)
  moreover from this have "0 \<le> ae_now e \<longrightarrow> artifactContainerName (ji_name j @ CHR ''-'' # dec_int (ae_now e) @ ''.crate'') = ji_name j"
    using artifactContainerName_export [of "ji_name j" "nat (ae_now e)"] by (simp add: dec_int_def)
  ultimately show ?thesis unfolding act_guard.simps using artifact_no_slash by blast
qed

lemma guard_transfer:
  "a \<in> set (fst (handleExportDownload e rq f)) \<Longrightarrow> act_guard e rq (Export_download f) a"
  "a \<in> set (fst (handleContainerImport e rq n)) \<Longrightarrow> act_guard e rq (Container_import n) a"
  unfolding handleExportDownload_def handleContainerImport_def
  using artifact_no_slash [of f] artifact_no_slash [of "n @ ''.crate''"]
  by (auto simp: Let_def jsonError_def split: if_splits)

lemma guard_privop: "a \<in> set (fst (fst (handlePrivOp e rq v d))) \<Longrightarrow> act_guard e rq (Priv_op v) a"
  by (auto simp: handlePrivOp_def split_beta Let_def split: if_splits)

text \<open>Nothing has read the GUI registry: the search is over no entry.\<close>

lemma handleContainerGui_none: "handleContainerGui e n = jsonError 404 (''no GUI session for container '' @ quoted n)"
  by (simp add: handleContainerGui_def unread_registry_empty)

lemma guard_body:
  assumes "jail_names_ok (jails e)" "a \<in> set (fst (fst (route_body e rq r d)))"
  shows "act_guard e rq r a"
proof (cases r)
  case List_containers
  then show ?thesis using assms(2) by (auto simp: handleListContainers_def Let_def split: if_splits sum.splits)
next
  case Host_info
  then show ?thesis using assms(2) by (auto simp: handleHostInfo_def split: if_splits sum.splits)
next
  case (Container_gui n)
  then show ?thesis using assms(2) by (simp add: handleContainerGui_none split: if_splits)
qed (use assms guard_jail_routes guard_stop guard_start guard_destroy guard_restart guard_snapshots guard_export guard_transfer guard_privop in
  \<open>simp_all del: act_guard.simps add: act_guard.simps(17,18)\<close>)


section \<open>A sample host\<close>

text \<open>One jail that never ends, a host whose commands fail, and a token for its pool.\<close>

definition sample_api :: api_env where
  "sample_api = \<lparr>ae_sha = (\<lambda>s. ''sha256:'' @ s), ae_config = \<lparr>ac_tokens = [sample_token], ac_separator = CHR ''-''\<rparr>, ae_rootless = False,
     ae_now = 100, ae_pid = 50, ae_view = (\<lambda>_. sample_view), ae_output = (\<lambda>_. Inl ''exit 1''), ae_specRead = [], ae_specFile = None,
     ae_exists = (\<lambda>_. False), ae_spawn = (\<lambda>_. 51), ae_sysctl = (\<lambda>_. Inr ''x''), ae_guiFile = [], ae_metrics = [], ae_streams = 0,
     ae_dataset = (\<lambda>_. ''tank/x''), ae_snapshots = (\<lambda>_. Inr []), ae_zfs = (\<lambda>_. []), ae_pack = (\<lambda>_. []), ae_size = (\<lambda>_. None),
     ae_open = (\<lambda>_. True), ae_write = True, ae_rename = True, ae_digest = (\<lambda>_. []), ae_privEnv = sample_env\<rparr>"

definition sample_post :: api_request where
  "sample_post = \<lparr>rq_http = \<lparr>hr_unixPeer = False, hr_authorization = ''Bearer s3cret'', hr_path = ''/api/v1/containers/dev-x/stop''\<rparr>,
     rq_remote = ''10.0.0.9'', rq_follow = [], rq_tail = [], rq_body = []\<rparr>"

lemma sample_api_names: "jail_names_ok (jails sample_api)"
  unfolding jail_names_ok_def jails_def
  by (auto simp: sample_api_def findContainer_def sample_view_def sample_jail_def named_jails_def split: if_splits option.splits list.splits)

lemma sample_api_gate: "gate_for sample_api sample_post ''admin'' ''dev-x''" "gate_for sample_api sample_post ''admin'' ''dev-x_pid7''"
  by (simp_all add: gate_for_def sample_api_def sample_post_def; code_simp)+

lemma sample_api_find: "findRouteJail sample_api sample_post ''admin'' ''dev-x'' = Inr sample_jail"
proof -
  have "findContainer (jails sample_api) ''dev-x'' = (Some sample_jail, 1)" by (simp add: jails_def sample_api_def sample_find)
  then show ?thesis using sample_api_gate(2) by (simp add: findRouteJail_def sample_jail_def)
qed

lemma stop_actions_stuck:
  assumes stuck: "\<And>tr. look (ae_view e) (nat (ji_jid j)) tr \<noteq> None"
  shows "stop_actions e j =
    (Sig (nat (ji_jid j)) ''TERM'' # replicate 10 Nap @ Sig (nat (ji_jid j)) ''KILL'' #
       (case ae_output e (kill_cmd (ji_jid j) ''KILL'') of Inl _ \<Rightarrow> [] | Inr _ \<Rightarrow> [Nap, Remove j]), True)"
proof -
  have "wait_exit (ae_view e) (nat (ji_jid j)) k tr = (tr @ replicate k Nap, False)" for k tr
    by (induction k arbitrary: tr) (simp_all add: stuck replicate_append_same [symmetric])
  then show ?thesis using stuck by (simp add: stop_actions_def Let_def split: sum.splits)
qed

text \<open>
  C39. The stop route answers success without looking: for a jail that never goes away it sends the two signals, tries the
  removal only when the command that sends SIGKILL succeeded, and in either case replies 200 with \<^verbatim>\<open>stopped\<close> true.
\<close>

theorem api_stop_unchecked:
  assumes "gate_for e rq ''admin'' n" "findRouteJail e rq ''admin'' n = Inr j"
    and stuck: "\<And>tr. look (ae_view e) (nat (ji_jid j)) tr \<noteq> None"
  shows "handleContainerStop e rq n =
    (map Api_Life (Sig (nat (ji_jid j)) ''TERM'' # replicate 10 Nap @ Sig (nat (ji_jid j)) ''KILL'' #
       (case ae_output e (kill_cmd (ji_jid j) ''KILL'') of Inl _ \<Rightarrow> [] | Inr _ \<Rightarrow> [Nap, Remove j])),
     200, jsonOk (stopped_body j True))"
  using assms(1,2) stop_actions_stuck [OF stuck] by (simp add: handleContainerStop_def with_route_jail_def)

theorem api_stop_unchecked_witness:
  "handleContainerStop sample_api sample_post ''dev-x'' =
     (map Api_Life (Sig 12 ''TERM'' # replicate 10 Nap @ [Sig 12 ''KILL'']), 200, jsonOk (stopped_body sample_jail True))"
  using api_stop_unchecked [OF sample_api_gate(1) sample_api_find]
  by (simp add: look_def sample_api_def sample_view_def sample_jail_def)


text \<open>
  The GUI route never finds a session: whatever the registry file holds, and whatever the host, an authorized request is
  answered 404.
\<close>

theorem gui_route_blind:
  "route_body e rq (Container_gui n) d =
     (if gate_for e rq ''viewer'' n then jsonError 404 (''no GUI session for container '' @ quoted n) else jsonError 403 ''unauthorized'', d)"
  by (simp add: handleContainerGui_none)

end
