(* ===== verification/Spec2Isabelle.thy ===== *)
theory Spec2Isabelle
  imports PrivOpsLaws PrivClient Ownership IpAlloc Stack BackupPrune Auth Clean LeaseStore HubApi Migrate Lifecycle ValidateStrict Routes
begin

text \<open>
  Verification library for crate, a FreeBSD jail runner with a privileged daemon (crated).
\<close>

lemma jid_parse_line_tab:
  assumes "field_ok n" "TAB \<in> set p"
  shows "\<exists>e. jid_parse_line k (jid_line (jid, \<lparr>je_uid = u, je_name = n, je_path = p\<rparr>)) out = Inl e"
proof -
  have "splitTabs4 (jid_line (jid, \<lparr>je_uid = u, je_name = n, je_path = p\<rparr>)) = None"
    using assms by (simp add: jid_line_def splitTabs4_def field_ok_def numeral_3_eq_3)
  then show ?thesis by (simp add: jid_parse_line_def jid_line_def)
qed

lemma validated_name_field: "validateJailName n = [] \<Longrightarrow> field_ok n"
  by (auto simp: validateJailName_def field_ok_def list_all_iff name_char_def is_alnum_def TAB_def NL_def)

lemma validated_path_no_NL: "validateAbsolutePath p = [] \<Longrightarrow> NL \<notin> set p"
  by (auto simp: validateAbsolutePath_def hasShellMetachar_def list_ex_iff NL_def)

lemma jid_parse_line_large:
  assumes "field_ok n" "field_ok p" "65535 < jid" "jid < 2 ^ 32"
  shows "\<exists>e. jid_parse_line k (jid_line (jid, \<lparr>je_uid = u, je_name = n, je_path = p\<rparr>)) out = Inl e"
  using assms by (simp add: jid_parse_line_def jid_line_def splitTabs4_join)

lemma jid_parse_loop_bad_line:
  "(\<And>k out. \<exists>e. jid_parse_line k l out = Inl e) \<Longrightarrow> \<exists>e. jid_parse_loop n (ls @ l # ms) out = Inl e"
proof (induction ls arbitrary: n out)
  case Nil
  then show ?case by (metis append_Nil bind_res_simps(1) jid_parse_loop.simps(2))
next
  case (Cons x ls)
  then show ?case by (cases "jid_parse_line n x out") simp_all
qed

lemma split_jid_lines:
  "\<forall>kv \<in> set m. NL \<notin> set (jid_line kv) \<Longrightarrow> split_on NL (jid_serialize m) = map jid_line m @ [[]]"
  by (induction m) (simp_all add: jid_serialize_def)

lemma unreadable_entry:
  assumes "jid_map_ok m" "NL \<notin> set (jid_line (j, e))" "\<And>k out. \<exists>x. jid_parse_line k (jid_line (j, e)) out = Inl x"
  shows "\<exists>x. jid_parse (jid_serialize (map_put j e m)) = Inl x"
proof -
  have "(j, e) \<in> set (map_put j e m)"
    using assms(1) map_find_Some_iff [of "map_put j e m" j e] by (simp add: jid_map_ok_def)
  then obtain as bs where "map_put j e m = as @ (j, e) # bs" by (auto simp: in_set_conv_decomp)
  moreover have "\<forall>kv \<in> set (map_put j e m). NL \<notin> set (jid_line kv)"
    using set_map_put_subset [of j e m] assms(1,2) jid_line_no_NL by (auto simp: jid_map_ok_def)
  ultimately show ?thesis
    using jid_parse_loop_bad_line [OF assms(3)] by (simp add: jid_parse_def split_jid_lines)
qed

text \<open>
  C27. A jail the validators accept can make the jid registry unreadable. The path check of
  \<^verbatim>\<open>create_jail\<close> accepts TABs and the registry writes the path unescaped into a TAB-separated line;
  and the registry writes the jid the kernel assigned, which may exceed 65535, while its parser
  refuses such a jid. Whatever well-formed entries the registry has, once a jail with an accepted
  name and path has been recorded whose path has a TAB or whose jid is above 65535, the registry
  file no longer opens. Such a path exists.
\<close>

theorem accepted_jail_breaks_registry:
  assumes "jid_map_ok (jr_entries r)" "validateJailName n = []" "validateAbsolutePath p = []"
    and "TAB \<in> set p \<or> 65535 < jid" "jid < 2 ^ 32"
  shows "(\<exists>e. jid_open (jr_file (snd (recordCreate True jid u n p r))) = Inl e) \<and>
         validateAbsolutePath (''/jails/'' @ [TAB]) = []"
proof
  let ?e = "\<lparr>je_uid = u, je_name = n, je_path = p\<rparr>"
  have n: "field_ok n" using assms(2) by (rule validated_name_field)
  have p: "NL \<notin> set p" "p \<noteq> []" using validated_path_no_NL assms(3) by (auto simp: validateAbsolutePath_def)
  have "NL \<notin> set (jid_line (jid, ?e))" using n p by (auto simp: jid_line_def field_ok_def)
  moreover have "\<exists>x. jid_parse_line k (jid_line (jid, ?e)) out = Inl x" for k out
    using assms(4,5) n p jid_parse_line_tab [OF n] jid_parse_line_large [OF n]
    by (cases "TAB \<in> set p") (auto simp: field_ok_def)
  ultimately have "\<exists>x. jid_parse (jid_serialize (map_put jid ?e (jr_entries r))) = Inl x"
    using assms(1) by (intro unreadable_entry)
  then show "\<exists>e. jid_open (jr_file (snd (recordCreate True jid u n p r))) = Inl e"
    by (auto simp: recordCreate_def jid_open_def bind_res_def)
  show "validateAbsolutePath (''/jails/'' @ [TAB]) = []"
    by (simp add: validateAbsolutePath_def hasDotDotSegment_def hasShellMetachar_def split_on_def TAB_def)
qed

theorem accepted_jail_breaks_registry_witness:
  "\<exists>e. jid_open (jr_file (snd (recordCreate True 65536 1001 ''web'' ''/jails/w'' \<lparr>jr_entries = [], jr_file = None\<rparr>))) = Inl e"
proof -
  have "validateJailName ''web'' = []" "validateAbsolutePath ''/jails/w'' = []"
    by (simp_all add: validateJailName_def kKernelJailName_def name_char_def is_alnum_def validateAbsolutePath_def
        hasDotDotSegment_def hasShellMetachar_def split_on_def)
  from accepted_jail_breaks_registry [OF _ this, of "\<lparr>jr_entries = [], jr_file = None\<rparr>" 65536 1001] show ?thesis
    by (simp add: jid_map_ok_def)
qed

end
